(* ===== verification/Rust_Base.thy ===== *)
theory Rust_Base
  imports Main
begin

text \<open>
  The vocabulary shared by every theory of the development: Rust's \<open>Result\<close> as a sum type,
  the \<open>ensure!\<close> and \<open>?\<close> forms, checked and saturating integer arithmetic at 64 bits, and
  \<open>Duration\<close> as a count of nanoseconds.

  Unsigned integers (\<open>usize\<close>, \<open>u64\<close> on the supported 64-bit targets) are natural numbers.
  Where the code can overflow it uses checked or saturating operations, and these carry the
  64-bit limit here; where the code writes a plain operator the model does too, and the
  component's invariant bounds the operands.
\<close>

named_theorems result_simps \<open>unfolding of the result monad\<close>
named_theorems rust_arith \<open>meaning of checked and saturating arithmetic\<close>

section \<open>Results\<close>

text \<open>\<open>anyhow::Result\<close>: \<open>Inl\<close> carries the message of the failed check, \<open>Inr\<close> the value. The combinators
  work for any error type, for the components that tell kinds of errors apart.\<close>

type_synonym 'a result = "string + 'a"

definition bindr :: "'e + 'a \<Rightarrow> ('a \<Rightarrow> 'e + 'b) \<Rightarrow> 'e + 'b" where
  "bindr m f = (case m of Inl e \<Rightarrow> Inl e | Inr x \<Rightarrow> f x)"

definition ensure :: "bool \<Rightarrow> 'e \<Rightarrow> 'e + 'a \<Rightarrow> 'e + 'a" where
  "ensure b msg k = (if b then k else Inl msg)"

text \<open>\<open>Option::context\<close>.\<close>

definition ok_or :: "'a option \<Rightarrow> 'e \<Rightarrow> 'e + 'a" where
  "ok_or x msg = (case x of None \<Rightarrow> Inl msg | Some y \<Rightarrow> Inr y)"

definition is_ok :: "'e + 'a \<Rightarrow> bool" where
  "is_ok r = (case r of Inl _ \<Rightarrow> False | Inr _ \<Rightarrow> True)"

fun map_result :: "('a \<Rightarrow> 'e + 'b) \<Rightarrow> 'a list \<Rightarrow> 'e + 'b list" where
  "map_result f [] = Inr []"
| "map_result f (x # xs) = bindr (f x) (\<lambda>y. bindr (map_result f xs) (\<lambda>ys. Inr (y # ys)))"

text \<open>\<open>Iterator::try_fold\<close>, also the shape of a \<open>for\<close> loop whose body may return early.\<close>

fun try_fold :: "('a \<Rightarrow> 'b \<Rightarrow> 'e + 'a) \<Rightarrow> 'a \<Rightarrow> 'b list \<Rightarrow> 'e + 'a" where
  "try_fold f acc [] = Inr acc"
| "try_fold f acc (x # xs) = bindr (f acc x) (\<lambda>acc'. try_fold f acc' xs)"

lemma bindr_simps [simp]: "bindr (Inl e) f = Inl e" "bindr (Inr x) f = f x"
  by (simp_all add: bindr_def)

lemma bindr_eq_Inr [result_simps]: "bindr m f = Inr y \<longleftrightarrow> (\<exists>x. m = Inr x \<and> f x = Inr y)"
  by (cases m) auto

lemma ensure_simps [simp]: "ensure True msg k = k" "ensure False msg k = Inl msg"
  by (simp_all add: ensure_def)

lemma ensure_eq_Inr [result_simps]: "ensure b msg k = Inr y \<longleftrightarrow> b \<and> k = Inr y"
  by (simp add: ensure_def)

lemma ok_or_simps [simp]: "ok_or None msg = Inl msg" "ok_or (Some x) msg = Inr x"
  by (simp_all add: ok_or_def)

lemma ok_or_eq_Inr [result_simps]: "ok_or x msg = Inr y \<longleftrightarrow> x = Some y"
  by (cases x) auto

lemma is_ok_simps [simp]: "\<not> is_ok (Inl e)" "is_ok (Inr x)"
  by (simp_all add: is_ok_def)

lemma is_ok_iff: "is_ok r \<longleftrightarrow> (\<exists>x. r = Inr x)"
  by (cases r) auto

lemma map_result_eq_Inr: "map_result f xs = Inr ys \<longleftrightarrow> list_all2 (\<lambda>x y. f x = Inr y) xs ys"
proof (induction xs arbitrary: ys)
  case Nil
  then show ?case by (cases ys) auto
next
  case (Cons x xs)
  then show ?case by (cases ys) (auto simp: bindr_eq_Inr)
qed

text \<open>A loop invariant for a fold that succeeds.\<close>

lemma try_fold_append [simp]:
  "try_fold f acc (xs @ ys) = bindr (try_fold f acc xs) (\<lambda>acc'. try_fold f acc' ys)"
  by (induction xs arbitrary: acc) (auto simp: bindr_def split: sum.splits)

lemma try_fold_induct:
  assumes "try_fold f acc xs = Inr r" and "P [] acc"
    and "\<And>ys x zs a b. xs = ys @ x # zs \<Longrightarrow> P ys a \<Longrightarrow> f a x = Inr b \<Longrightarrow> P (ys @ [x]) b"
  shows "P xs r"
  using assms
proof (induction xs arbitrary: r rule: rev_induct)
  case Nil
  then show ?case by simp
next
  case (snoc x xs)
  then obtain a where a: "try_fold f acc xs = Inr a" "f a x = Inr r"
    by (auto simp: bindr_eq_Inr)
  have "P xs a"
    by (rule snoc.IH [OF a(1) snoc.prems(2)]) (use snoc.prems(3) in force)
  then show ?case using snoc.prems(3) [of xs x "[]" a r] a(2) by simp
qed

section \<open>Options\<close>

definition is_some_and :: "('a \<Rightarrow> bool) \<Rightarrow> 'a option \<Rightarrow> bool" where
  "is_some_and P x = (case x of None \<Rightarrow> False | Some y \<Rightarrow> P y)"

definition is_none_or :: "('a \<Rightarrow> bool) \<Rightarrow> 'a option \<Rightarrow> bool" where
  "is_none_or P x = (case x of None \<Rightarrow> True | Some y \<Rightarrow> P y)"

definition unwrap_or :: "'a \<Rightarrow> 'a option \<Rightarrow> 'a" where
  "unwrap_or d x = (case x of None \<Rightarrow> d | Some y \<Rightarrow> y)"

fun opt_filter :: "('a \<Rightarrow> bool) \<Rightarrow> 'a option \<Rightarrow> 'a option" where
  "opt_filter P None = None"
| "opt_filter P (Some x) = (if P x then Some x else None)"

text \<open>\<open>Option::zip\<close>, and \<open>Ord::max\<close> on options, where \<open>None\<close> is least.\<close>

definition opt_zip :: "'a option \<Rightarrow> 'b option \<Rightarrow> ('a \<times> 'b) option" where
  "opt_zip x y = (case (x, y) of (Some a, Some b) \<Rightarrow> Some (a, b) | _ \<Rightarrow> None)"

fun opt_max :: "nat option \<Rightarrow> nat option \<Rightarrow> nat option" where
  "opt_max None y = y"
| "opt_max (Some x) None = Some x"
| "opt_max (Some x) (Some y) = Some (max x y)"

lemma is_some_and_simps [simp]: "\<not> is_some_and P None" "is_some_and P (Some x) = P x"
  by (simp_all add: is_some_and_def)

lemma is_none_or_simps [simp]: "is_none_or P None" "is_none_or P (Some x) = P x"
  by (simp_all add: is_none_or_def)

lemma unwrap_or_simps [simp]: "unwrap_or d None = d" "unwrap_or d (Some x) = x"
  by (simp_all add: unwrap_or_def)

lemma is_some_and_iff: "is_some_and P x \<longleftrightarrow> (\<exists>y. x = Some y \<and> P y)"
  by (cases x) auto

lemma is_none_or_iff: "is_none_or P x \<longleftrightarrow> (\<forall>y. x = Some y \<longrightarrow> P y)"
  by (cases x) auto

lemma opt_filter_eq_Some: "opt_filter P x = Some y \<longleftrightarrow> x = Some y \<and> P y"
  by (cases x) auto

lemma opt_zip_eq_Some: "opt_zip x y = Some z \<longleftrightarrow> x = Some (fst z) \<and> y = Some (snd z)"
  by (cases z) (auto simp: opt_zip_def split: option.splits)

lemma is_none_or_opt_max:
  "is_none_or P x \<Longrightarrow> is_none_or P y \<Longrightarrow> is_none_or P (opt_max x y)"
  by (cases x; cases y) (auto simp: max_def)

section \<open>Integers at 64 bits\<close>

definition u64_limit :: nat where
  "u64_limit = 18446744073709551616"

definition checked_add :: "nat \<Rightarrow> nat \<Rightarrow> nat option" where
  "checked_add a b = (if a + b < u64_limit then Some (a + b) else None)"

definition checked_mul :: "nat \<Rightarrow> nat \<Rightarrow> nat option" where
  "checked_mul a b = (if a * b < u64_limit then Some (a * b) else None)"

definition checked_sub :: "nat \<Rightarrow> nat \<Rightarrow> nat option" where
  "checked_sub a b = (if b \<le> a then Some (a - b) else None)"

definition saturating_add :: "nat \<Rightarrow> nat \<Rightarrow> nat" where
  "saturating_add a b = min (a + b) (u64_limit - 1)"

definition div_ceil :: "nat \<Rightarrow> nat \<Rightarrow> nat" where
  "div_ceil a b = (if a mod b = 0 then a div b else a div b + 1)"

lemma u64_limit_pow: "u64_limit = 2 ^ 64"
  by (simp add: u64_limit_def)

lemma checked_add_eq_Some [rust_arith]:
  "checked_add a b = Some c \<longleftrightarrow> c = a + b \<and> a + b < u64_limit"
  by (auto simp: checked_add_def)

lemma checked_mul_eq_Some [rust_arith]:
  "checked_mul a b = Some c \<longleftrightarrow> c = a * b \<and> a * b < u64_limit"
  by (auto simp: checked_mul_def)

lemma checked_sub_eq_Some [rust_arith]: "checked_sub a b = Some c \<longleftrightarrow> b \<le> a \<and> c = a - b"
  by (auto simp: checked_sub_def)

lemma checked_sub_eq_None [rust_arith]: "checked_sub a b = None \<longleftrightarrow> a < b"
  by (auto simp: checked_sub_def)

text \<open>Summing byte counts with \<open>checked_add\<close>.\<close>

lemma checked_fold_sum:
  "a < u64_limit \<Longrightarrow> try_fold (\<lambda>total c. ok_or (checked_add total (f c)) msg) a cs = Inr n \<longleftrightarrow>
     n = a + sum_list (map f cs) \<and> a + sum_list (map f cs) < u64_limit"
proof (induction cs arbitrary: a)
  case (Cons c cs)
  show ?case
  proof (cases "a + f c < u64_limit")
    case True
    with Cons.IH [OF True] show ?thesis by (simp add: checked_add_def add.assoc)
  next
    case False
    then show ?thesis by (simp add: checked_add_def)
  qed
qed auto

lemma div_ceil_bounds:
  assumes "0 < b"
  shows "a \<le> div_ceil a b * b \<and> div_ceil a b * b < a + b"
proof (cases "a mod b = 0")
  case True
  then have "div_ceil a b * b = a" by (simp add: div_ceil_def mod_0_imp_dvd)
  with assms show ?thesis by simp
next
  case False
  define q r where "q = a div b" and "r = a mod b"
  then have a: "a = q * b + r" by simp
  have r: "r < b" "0 < r" using assms False by (simp_all add: r_def)
  have "div_ceil a b * b = q * b + b" using False by (simp add: div_ceil_def q_def)
  with a r show ?thesis by simp
qed

section \<open>Durations\<close>

text \<open>\<open>std::time::Duration\<close> in nanoseconds; \<open>Duration::MAX\<close> is \<open>u64::MAX\<close> seconds and
  999999999 nanoseconds.\<close>

type_synonym duration = nat

definition dur_secs :: "nat \<Rightarrow> duration" where
  "dur_secs n = n * 1000000000"

definition dur_max :: duration where
  "dur_max = u64_limit * 1000000000 - 1"

definition dur_saturating_add :: "duration \<Rightarrow> duration \<Rightarrow> duration" where
  "dur_saturating_add a b = min (a + b) dur_max"

text \<open>\<open>now.checked_sub(last).is_some_and(|dt| dt >= d)\<close> and its \<open><=\<close> form.\<close>

definition elapsed_ge :: "duration \<Rightarrow> duration \<Rightarrow> duration \<Rightarrow> bool" where
  "elapsed_ge now d since = is_some_and (\<lambda>dt. d \<le> dt) (checked_sub now since)"

definition elapsed_le :: "duration \<Rightarrow> duration \<Rightarrow> duration \<Rightarrow> bool" where
  "elapsed_le now d since = is_some_and (\<lambda>dt. dt \<le> d) (checked_sub now since)"

lemma elapsed_ge_iff [rust_arith]: "elapsed_ge now d since \<longleftrightarrow> since \<le> now \<and> d \<le> now - since"
  by (auto simp: elapsed_ge_def checked_sub_def)

lemma elapsed_le_iff [rust_arith]: "elapsed_le now d since \<longleftrightarrow> since \<le> now \<and> now - since \<le> d"
  by (auto simp: elapsed_le_def checked_sub_def)

end
