(* ===== verification/Kvarn_Partition.thy ===== *)
theory Kvarn_Partition
  imports Rust_Base
begin

text \<open>
  The token partition of the KVarN cache (\<open>src/kvarn.rs\<close>) and the prefill workspace
  widths (\<open>src/prefill_capacity.rs\<close>), which the memory planner and the checkpoint layout share.
\<close>

definition KV_HEADS :: nat where "KV_HEADS = 2"
definition HEAD_DIM :: nat where "HEAD_DIM = 256"
definition TILE_TOKENS :: nat where "TILE_TOKENS = 128"
definition SINK_TOKENS :: nat where "SINK_TOKENS = 128"
definition EXACT_SUFFIX :: nat where "EXACT_SUFFIX = 8192"
definition TAIL_CAPACITY :: nat where "TAIL_CAPACITY = EXACT_SUFFIX + TILE_TOKENS"
definition HEAD_RECORD_BYTES :: nat where "HEAD_RECORD_BYTES = 35072"
definition TILE_RECORD_BYTES :: nat where "TILE_RECORD_BYTES = KV_HEADS * HEAD_RECORD_BYTES"
definition TOKEN_BYTES :: nat where "TOKEN_BYTES = KV_HEADS * HEAD_DIM * 2"
definition DEVICE_SEAL_WORKSPACE_BYTES :: nat where "DEVICE_SEAL_WORKSPACE_BYTES = 1060872"
definition COMPRESS_RATIO :: nat where "COMPRESS_RATIO = 4"
definition INDEX_WIDTH :: nat where "INDEX_WIDTH = 128"

lemmas kvarn_consts = KV_HEADS_def HEAD_DIM_def TILE_TOKENS_def SINK_TOKENS_def EXACT_SUFFIX_def
  TAIL_CAPACITY_def HEAD_RECORD_BYTES_def TILE_RECORD_BYTES_def TOKEN_BYTES_def
  COMPRESS_RATIO_def INDEX_WIDTH_def

text \<open>Sink, record body and exact suffix of a committed frontier: ends of the first two.\<close>

definition kvarn_partition :: "nat \<Rightarrow> nat \<times> nat \<times> nat" where
  "kvarn_partition frontier =
     (let sink = min frontier SINK_TOKENS;
          body = (if frontier \<le> SINK_TOKENS then frontier
                  else let eligible = frontier - (SINK_TOKENS + EXACT_SUFFIX)
                       in SINK_TOKENS + eligible div TILE_TOKENS * TILE_TOKENS)
      in (sink, body, body))"

definition record_tiles :: "nat \<Rightarrow> nat" where
  "record_tiles frontier = (fst (snd (kvarn_partition frontier)) - SINK_TOKENS) div TILE_TOKENS"

definition DEFAULT_ROWS :: nat where "DEFAULT_ROWS = 512"
definition AUTOMATIC_ROWS :: nat where "AUTOMATIC_ROWS = 2048"
definition MAX_ROWS :: nat where "MAX_ROWS = 4096"

lemmas rows_consts = DEFAULT_ROWS_def AUTOMATIC_ROWS_def MAX_ROWS_def

definition admitted_rows :: "nat \<Rightarrow> nat \<Rightarrow> nat" where
  "admitted_rows wide_component_bytes budget_bytes =
     (if wide_component_bytes \<le> budget_bytes then AUTOMATIC_ROWS else DEFAULT_ROWS)"

definition validate_capacity :: "nat \<Rightarrow> unit result" where
  "validate_capacity rows =
     ensure (rows = DEFAULT_ROWS \<or> rows = AUTOMATIC_ROWS \<or> rows = MAX_ROWS)
       ''prefill capacity must be 512, 2048 or 4096'' (Inr ())"

definition first_checkpoint_frontier :: "nat \<Rightarrow> nat \<Rightarrow> nat option" where
  "first_checkpoint_frontier stride rows =
     (if stride = 0 \<or> \<not> is_ok (validate_capacity rows) then None
      else checked_mul ((stride - 1) div rows + 1) rows)"

lemma validate_capacity_ok [result_simps]:
  "validate_capacity rows = Inr u \<longleftrightarrow> rows = 512 \<or> rows = 2048 \<or> rows = 4096"
  by (auto simp: validate_capacity_def result_simps rows_consts)

lemma record_tiles_eq: "record_tiles frontier = (frontier - 8320) div 128"
  by (simp add: record_tiles_def kvarn_partition_def kvarn_consts Let_def)

lemma record_tiles_mono: "f \<le> g \<Longrightarrow> record_tiles f \<le> record_tiles g"
  by (simp add: record_tiles_eq div_le_mono)

text \<open>The three segments tile the frontier: records cover whole tiles after the sink, and what
  stays exact fits the sink and the tail ring.\<close>

lemma kvarn_partition_tiles:
  assumes "kvarn_partition f = (s, b, e)"
  shows "s \<le> b \<and> b \<le> f \<and> s \<le> SINK_TOKENS \<and> e = b
    \<and> (b - SINK_TOKENS) mod TILE_TOKENS = 0 \<and> f - b < TAIL_CAPACITY
    \<and> (SINK_TOKENS \<le> f \<longrightarrow> s = SINK_TOKENS)"
proof -
  define q where "q = (f - 8320) div 128 * 128"
  have d: "q \<le> f - 8320" "f - 8320 < q + 128" "q mod 128 = 0"
    using div_mult_mod_eq [of "f - 8320" 128] mod_less_divisor [of 128 "f - 8320"]
    unfolding q_def by (linarith, linarith, simp)
  show ?thesis
  proof (cases "f \<le> 128")
    case True
    with assms show ?thesis by (auto simp: kvarn_partition_def kvarn_consts Let_def)
  next
    case False
    then have "s = 128" "b = 128 + q" "e = b"
      using assms by (auto simp: kvarn_partition_def kvarn_consts Let_def q_def)
    moreover have "128 + q \<le> f \<and> f - (128 + q) < 8320"
    proof (cases "f \<le> 8320")
      case True
      with d have "q = 0" by simp
      with True False show ?thesis by simp
    next
      case False
      with d show ?thesis by linarith
    qed
    ultimately show ?thesis using d False by (simp add: kvarn_consts)
  qed
qed

lemma first_checkpoint_frontier_props:
  assumes "first_checkpoint_frontier stride rows = Some f"
  shows "stride \<le> f \<and> f < stride + rows \<and> f mod rows = 0 \<and> f < u64_limit"
proof -
  from assms have s: "0 < stride" and r: "0 < rows" and f: "f = ((stride - 1) div rows + 1) * rows"
    and l: "f < u64_limit"
    by (auto simp: first_checkpoint_frontier_def is_ok_iff result_simps rust_arith split: if_splits)
  have d: "(stride - 1) div rows * rows \<le> stride - 1" "stride - 1 < (stride - 1) div rows * rows + rows"
    using div_mult_mod_eq [of "stride - 1" rows] mod_less_divisor [OF r, of "stride - 1"] by linarith+
  have "f = (stride - 1) div rows * rows + rows" using f by (simp add: algebra_simps)
  moreover have "f mod rows = 0" using f by simp
  ultimately show ?thesis using d l s by linarith
qed

end
