(* ===== verification/Memory_Plan.thy ===== *)
theory Memory_Plan
  imports Kvarn_Partition
begin

text \<open>
  The memory planner of \<open>src/memory.rs\<close>: payload inventories, the workspace estimates of each
  stage, the component sum of each lifetime phase, and the choice of the largest expert pool that
  keeps every phase within the budget. All arithmetic is the code's checked arithmetic at 64 bits;
  where the code writes plain operators (workspace geometry of a validated width) the
  operands are bounded constants. The package reader and the JSON configuration are
  parameters: a lookup of numbers, a list of tensor headers and one expert bundle per layer.
\<close>

section \<open>Constants and checked arithmetic\<close>

definition GENERATION_VOCABULARY :: nat where "GENERATION_VOCABULARY = 248320"
definition DEVICE_GREEDY_REQUESTED_BYTES :: nat where
  "DEVICE_GREEDY_REQUESTED_BYTES = 2 * GENERATION_VOCABULARY + 4 * (GENERATION_VOCABULARY div 32)
     + 8 * (GENERATION_VOCABULARY div 256) + 10"
definition DEVICE_GREEDY_HOST_BYTES :: nat where
  "DEVICE_GREEDY_HOST_BYTES = 4 * (GENERATION_VOCABULARY div 32)"
definition SAMPLING_PREPARATION_DEVICE_BYTES :: nat where
  "SAMPLING_PREPARATION_DEVICE_BYTES = 4 * GENERATION_VOCABULARY + 4"
definition SAMPLING_HOST_WORKSPACE_BYTES :: nat where
  "SAMPLING_HOST_WORKSPACE_BYTES = 27 * GENERATION_VOCABULARY + 262144"
definition ORDINARY_CORE_BUFFER_BYTES :: nat where
  "ORDINARY_CORE_BUFFER_BYTES =
     88946110 + 12 * 2 + 40968 + 2 * GENERATION_VOCABULARY
     + DEVICE_GREEDY_REQUESTED_BYTES + DEVICE_GREEDY_HOST_BYTES
     + SAMPLING_PREPARATION_DEVICE_BYTES + SAMPLING_HOST_WORKSPACE_BYTES
     + 481318 + 12 * (24 * 64 * 258 * 4 + 4) + 12 * (12607 + 262144)
     + 2 * GENERATION_VOCABULARY + 48 * (1024 + 2048 + 40 + 20 + 4) + 48 * 92
     + DEVICE_SEAL_WORKSPACE_BYTES"
definition QSA_DEVICE_INDEX_FIXED_CAPACITY_BYTES :: nat where
  "QSA_DEVICE_INDEX_FIXED_CAPACITY_BYTES = (COMPRESS_RATIO + 1) * INDEX_WIDTH * 2"

definition PREFILL_READ_ROWS :: nat where "PREFILL_READ_ROWS = 4"
definition PREFILL_READ_WORKERS :: nat where "PREFILL_READ_WORKERS = 4"
definition PREFILL_READ_STACK_BYTES :: nat where "PREFILL_READ_STACK_BYTES = 262144"
definition PREFILL_READ_CONTROL_BYTES :: nat where "PREFILL_READ_CONTROL_BYTES = 32768"

definition mem_mul :: "nat list \<Rightarrow> nat result" where
  "mem_mul values = try_fold (\<lambda>acc v. ok_or (checked_mul acc v) ''memory byte count overflow'') 1 values"

definition mem_add :: "nat \<Rightarrow> nat \<Rightarrow> nat result" where
  "mem_add left right = ok_or (checked_add left right) ''memory byte count overflow''"

definition mem_sum :: "nat list \<Rightarrow> nat result" where
  "mem_sum values = try_fold mem_add 0 values"

definition list_max :: "nat list \<Rightarrow> nat option" where
  "list_max xs = foldl (\<lambda>acc x. opt_max acc (Some x)) None xs"

section \<open>Prefill workspace\<close>

definition native_prefill_workspace_bytes_for_capacity :: "nat \<Rightarrow> nat \<Rightarrow> nat result" where
  "native_prefill_workspace_bytes_for_capacity context_limit capacity =
     bindr (validate_capacity capacity) (\<lambda>_.
     ensure (1 \<le> context_limit \<and> context_limit \<le> 262144) ''prefill workspace context is invalid''
     (let dense = (if capacity = 512 then 2097152 else 4194304);
          fixed = (capacity * 42248 + 2) + capacity * 51216 + (capacity * 124384 + 61444) + dense
            + (capacity * 94610 + (512 + div_ceil (capacity * 10) 8) * 12 + 4) + capacity * 92160;
          projection = capacity * 2 * (640 + 12288 + 512 + 512 + 64 + 64 + 512 + 128 + 6144 + 6144 + 512);
          index = capacity * 2051 * 5 + capacity * 4 + 64 * 512 * 4
            + 64 * max (context_limit div COMPRESS_RATIO) 1 * 4;
          gathered = 64 * (2 * (2 * 2051 * 256 * 2) + 2051);
          attention = 64 * 2051 + 64 * 4 + 24 * 64 * 258 * 4 + 4 + capacity * (6144 + 2560) * 2
      in Inr (fixed + projection + index + gathered + attention)))"

definition native_prefill_workspace_bytes :: "nat \<Rightarrow> nat result" where
  "native_prefill_workspace_bytes context_limit =
     native_prefill_workspace_bytes_for_capacity context_limit DEFAULT_ROWS"

section \<open>Data\<close>

record direct_payload_bytes =
  embedding_cpu_bytes :: nat
  matrix_count :: nat
  matrix_packed_bytes :: nat
  auxiliary_count :: nat
  auxiliary_bytes :: nat
  largest_direct_payload_bytes :: nat

record expert_layer_bytes =
  layer_index :: nat
  layer_experts :: nat
  projection_bytes_per_slot :: "nat list"
  packed_bytes_per_slot :: nat
  full_bundle_payload_bytes :: nat

record fixed_session_bytes =
  gdn_recurrent_f32 :: nat
  gdn_convolution_bf16 :: nat
  qsa_sink_kv_bf16 :: nat
  qsa_tail_kv_bf16 :: nat
  ple_history_bf16 :: nat

record growing_session_bytes =
  frontier_tokens :: nat
  kvarn_record_tiles_per_qsa_layer :: nat
  qsa_index_complete_groups_per_layer :: nat
  qsa_index_pending_rows_per_layer :: nat
  kvarn_records :: nat
  qsa_index_compressed_bf16 :: nat
  qsa_index_pending_bf16 :: nat
  total_logical_bytes :: nat

record package_footprint =
  fp_direct :: direct_payload_bytes
  fp_expert_layers :: "expert_layer_bytes list"
  packed_expert_bytes_per_uniform_slot :: nat
  full_expert_bundle_payload_bytes :: nat
  fp_fixed_session :: fixed_session_bytes
  max_expert_slots :: nat
  max_context_tokens :: nat
  qsa_layers :: nat

record capacity_inputs =
  process_budget_bytes :: nat
  user_memory_limit_bytes :: "nat option"
  fixed_nonexpert_bytes :: nat
  context_reserve_bytes :: nat
  bounded_workspace_bytes :: "nat option"
  packed_expert_bytes_per_slot :: nat
  minimum_slots :: nat
  max_slots :: nat

record capacity_plan =
  slots :: nat
  plan_budget_bytes :: nat
  accounted_peak_bytes :: nat
  remaining_budget_bytes :: nat

record capacity_control_budget =
  b_initial_capacity :: nat
  b_maximum_capacity :: nat
  b_startup_budget_bytes :: nat
  b_effective_budget_bytes :: nat
  b_initial_serving_peak_bytes :: nat
  b_packed_expert_bytes_per_slot :: nat
  b_table_overlap_bytes :: nat
  b_process_overhead_bytes :: nat
  b_operating_growth :: bool

record ordinary_path_inputs =
  in_context_limit :: nat
  in_max_prefill_rows :: nat
  in_candidate_slot_ceiling :: nat
  in_uncounted_core_reserve_bytes :: nat
  in_vec_overlap_reserve_bytes :: "nat option"
  in_prefix_retained_budget_bytes :: nat
  in_snapshot_overlap_reserve_bytes :: "nat option"
  in_driver_allowance_bytes :: nat

datatype workspace_stage = StartupDirect | StartupExpertPool | PrefillQueuedGraph | DecodeQueuedGraph

record workspace_bytes =
  ws_stage :: workspace_stage
  ws_capacity_slots :: nat
  ws_rows :: nat
  metal_requested_bytes :: nat
  host_logical_bytes :: nat
  combined_component_bytes :: nat

datatype memory_phase = Startup | EngineConstruction | Serving

record ordinary_path_estimate =
  direct_wire_payload_bytes :: nat
  expert_stream_payload_at_ceiling_bytes :: nat
  expert_storage_metadata_reserve_bytes :: nat
  fixed_session_logical_bytes :: nat
  growing_session_logical_bytes :: nat
  minimum_snapshot_logical_bytes :: nat
  prefill_workspace_requested_bytes :: nat
  expert_reader_workspace_across_candidates_bytes :: nat
  runtime_workspace_at_ceiling :: workspace_bytes
  runtime_workspace_across_candidates :: workspace_bytes
  startup_workspace_across_candidates :: workspace_bytes
  max_workspace_across_candidates :: workspace_bytes
  runtime_metal_requested_upper_bytes :: nat
  uncounted_core_reserve_bytes :: nat
  vec_spare_growth_overlap_reserve_bytes :: nat
  prefix_retained_budget_bytes :: nat
  snapshot_capture_restore_overlap_reserve_bytes :: nat
  driver_allocator_allowance_bytes :: nat
  startup_phase_peak_bytes :: nat
  engine_construction_phase_peak_bytes :: nat
  serving_phase_peak_bytes :: nat
  limiting_phase :: memory_phase
  accounted_component_sum_bytes :: nat

section \<open>Lifetime phases\<close>

definition phase_component_sums :: "ordinary_path_estimate \<Rightarrow> (memory_phase \<times> nat) list result" where
  "phase_component_sums e =
     bindr (mem_sum [direct_wire_payload_bytes e, expert_stream_payload_at_ceiling_bytes e,
        expert_storage_metadata_reserve_bytes e, uncounted_core_reserve_bytes e,
        driver_allocator_allowance_bytes e]) (\<lambda>common.
     bindr (mem_add common (combined_component_bytes (startup_workspace_across_candidates e))) (\<lambda>startup.
     bindr (mem_sum [common, prefill_workspace_requested_bytes e,
        expert_reader_workspace_across_candidates_bytes e]) (\<lambda>construction.
     bindr (mem_sum [common, prefill_workspace_requested_bytes e, fixed_session_logical_bytes e,
        growing_session_logical_bytes e, vec_spare_growth_overlap_reserve_bytes e,
        prefix_retained_budget_bytes e, snapshot_capture_restore_overlap_reserve_bytes e,
        combined_component_bytes (runtime_workspace_across_candidates e)]) (\<lambda>serving.
     Inr [(Startup, startup), (EngineConstruction, construction), (Serving, serving)]))))"

definition largest_phase :: "(memory_phase \<times> nat) list \<Rightarrow> memory_phase \<times> nat" where
  "largest_phase phases =
     foldl (\<lambda>largest candidate. if snd largest < snd candidate then candidate else largest)
       (hd phases) (tl phases)"

definition refresh_phase_peaks :: "ordinary_path_estimate \<Rightarrow> ordinary_path_estimate result" where
  "refresh_phase_peaks e =
     bindr (phase_component_sums e) (\<lambda>phases.
     Inr (e \<lparr> startup_phase_peak_bytes := snd (phases ! 0),
              engine_construction_phase_peak_bytes := snd (phases ! 1),
              serving_phase_peak_bytes := snd (phases ! 2),
              limiting_phase := fst (largest_phase phases),
              accounted_component_sum_bytes := snd (largest_phase phases) \<rparr>))"

text \<open>The check that the recorded peaks are those of the components.\<close>

definition phase_peaks_match :: "(memory_phase \<times> nat) list \<Rightarrow> ordinary_path_estimate \<Rightarrow> bool" where
  "phase_peaks_match phases e \<longleftrightarrow>
     List.map snd phases = [startup_phase_peak_bytes e, engine_construction_phase_peak_bytes e,
       serving_phase_peak_bytes e]
     \<and> largest_phase phases = (limiting_phase e, accounted_component_sum_bytes e)"

section \<open>Choosing the expert pool\<close>

definition plan_capacity :: "capacity_inputs \<Rightarrow> capacity_plan result" where
  "plan_capacity i =
     ensure (10 \<le> minimum_slots i \<and> minimum_slots i \<le> max_slots i)
       ''expert slot bounds must include the top-ten minimum''
     (ensure (max_slots i \<le> 512) ''expert slot maximum exceeds 512''
     (ensure (0 < packed_expert_bytes_per_slot i) ''packed expert slot byte count must be positive''
     (bindr (ok_or (bounded_workspace_bytes i)
        ''bounded workspace estimate is required for capacity planning'') (\<lambda>workspace.
      let budget = (case user_memory_limit_bytes i of None \<Rightarrow> process_budget_bytes i
                    | Some limit \<Rightarrow> min (process_budget_bytes i) limit) in
      bindr (mem_add (fixed_nonexpert_bytes i) (context_reserve_bytes i)) (\<lambda>fixed0.
      bindr (mem_add fixed0 workspace) (\<lambda>fixed.
      bindr (mem_mul [packed_expert_bytes_per_slot i, minimum_slots i]) (\<lambda>minimum_experts.
      bindr (mem_add fixed minimum_experts) (\<lambda>minimum_total.
      ensure (minimum_total \<le> budget) ''memory budget cannot fit the top-ten expert minimum''
      (let affordable = (budget - fixed) div packed_expert_bytes_per_slot i;
           n = min affordable (max_slots i) in
       bindr (mem_mul [packed_expert_bytes_per_slot i, n]) (\<lambda>expert_bytes.
       bindr (mem_add fixed expert_bytes) (\<lambda>peak.
       Inr \<lparr> slots = n, plan_budget_bytes = budget, accounted_peak_bytes = peak,
             remaining_budget_bytes = budget - peak \<rparr>)))))))))))"

definition plan_from_ordinary_estimate ::
    "ordinary_path_estimate \<Rightarrow> nat \<Rightarrow> nat \<Rightarrow> nat \<Rightarrow> nat \<Rightarrow> capacity_plan result" where
  "plan_from_ordinary_estimate e per_slot maximum process_budget user_limit =
     bindr (phase_component_sums e) (\<lambda>phases.
     ensure (phase_peaks_match phases e) ''ordinary phase peaks differ from component estimates''
     (bindr (try_fold (\<lambda>nonexpert phase.
        bindr (ok_or (checked_sub (snd phase) (expert_stream_payload_at_ceiling_bytes e))
          ''expert payload exceeds ordinary phase peak'') (\<lambda>bytes. Inr (max nonexpert bytes))) 0 phases)
      (\<lambda>nonexpert. plan_capacity
        \<lparr> process_budget_bytes = process_budget, user_memory_limit_bytes = Some user_limit,
          fixed_nonexpert_bytes = nonexpert, context_reserve_bytes = 0,
          bounded_workspace_bytes = Some 0, packed_expert_bytes_per_slot = per_slot,
          minimum_slots = 10, max_slots = maximum \<rparr>)))"

definition finish_optional_prefill_upgrade ::
    "ordinary_path_estimate \<Rightarrow> capacity_plan \<Rightarrow> nat \<Rightarrow> ordinary_path_estimate result \<Rightarrow> nat \<Rightarrow> nat
     \<Rightarrow> ordinary_path_estimate \<times> capacity_plan \<times> nat" where
  "finish_optional_prefill_upgrade e plan admitted wide requested per_slot =
     (case wide of
        Inl _ \<Rightarrow> (e, plan, admitted)
      | Inr w \<Rightarrow>
          if slots plan = 512 then
            (if plan_budget_bytes plan < accounted_component_sum_bytes w then (e, plan, admitted)
             else (w, plan \<lparr> accounted_peak_bytes := accounted_component_sum_bytes w,
                      remaining_budget_bytes := plan_budget_bytes plan - accounted_component_sum_bytes w \<rparr>,
                   requested))
          else
            (case plan_from_ordinary_estimate w per_slot (slots plan) (plan_budget_bytes plan)
                    (plan_budget_bytes plan) of
               Inl _ \<Rightarrow> (e, plan, admitted)
             | Inr wider \<Rightarrow> if slots wider < 64 then (e, plan, admitted) else (w, wider, requested)))"

end
