(* ===== verification/Memory_Footprint.thy ===== *)
theory Memory_Footprint
  imports Memory_Plan
begin

text \<open>
  The package footprint of \<open>src/memory.rs\<close>: inventories read from headers and configuration
  (\<open>direct_payload\<close>, \<open>expert_payload\<close>, \<open>fixed_session\<close>, \<open>growing_session_payload\<close>), the short-lived
  workspaces of each execution stage, the estimate of an ordinary path and the admission
  entry points of \<open>impl PackageFootprint\<close>.
\<close>

section \<open>Inventories\<close>

datatype weight_format = Bf16 | Q6K | Q8_0

record direct_header =
  module_path :: string
  header_format :: weight_format
  header_shape :: "nat list"
  header_bytes :: nat

datatype projection = Gate | Up | Down

definition Projection_ALL :: "projection list" where
  "Projection_ALL = [Gate, Up, Down]"

record expert_bundle =
  bundle_num_experts :: nat
  bundle_row_bytes :: nat
  bundle_projection_nbytes :: "projection \<Rightarrow> nat"

datatype mixer_kind = Gdn | Qsa

text \<open>The JSON configuration, as the lookup of its unsigned numbers.\<close>

type_synonym model_config = "string \<Rightarrow> nat option"

definition config_number :: "model_config \<Rightarrow> string \<Rightarrow> nat result" where
  "config_number config field = ok_or (config field) ''missing validated memory geometry''"

definition direct_step ::
    "model_config \<Rightarrow> direct_payload_bytes \<times> nat \<Rightarrow> direct_header \<Rightarrow> (direct_payload_bytes \<times> nat) result" where
  "direct_step config acc header =
     (let r = (fst acc) \<lparr> largest_direct_payload_bytes :=
            max (largest_direct_payload_bytes (fst acc)) (header_bytes header) \<rparr> in
      if module_path header = ''embedding'' then
        bindr (if header_format header = Q8_0
               then bindr (config_number config ''vocab_size'') (\<lambda>vocab.
                    bindr (config_number config ''hidden_size'') (\<lambda>hidden.
                    Inr (header_shape header = [vocab, hidden])))
               else Inr False) (\<lambda>same.
        ensure same ''embedding package geometry differs from loader''
        (Inr (r \<lparr> embedding_cpu_bytes := header_bytes header \<rparr>, snd acc + 1)))
      else if length (header_shape header) = 2 then
        bindr (mem_add (matrix_packed_bytes r) (header_bytes header)) (\<lambda>total.
        Inr (r \<lparr> matrix_count := matrix_count r + 1, matrix_packed_bytes := total \<rparr>, snd acc))
      else
        bindr (mem_add (auxiliary_bytes r) (header_bytes header)) (\<lambda>total.
        Inr (r \<lparr> auxiliary_count := auxiliary_count r + 1, auxiliary_bytes := total \<rparr>, snd acc)))"

definition direct_payload :: "direct_header list \<Rightarrow> model_config \<Rightarrow> direct_payload_bytes result" where
  "direct_payload headers config =
     bindr (try_fold (direct_step config)
        (\<lparr> embedding_cpu_bytes = 0, matrix_count = 0, matrix_packed_bytes = 0, auxiliary_count = 0,
           auxiliary_bytes = 0, largest_direct_payload_bytes = 0 \<rparr>, 0) headers) (\<lambda>acc.
     ensure (snd acc = 1) ''package requires one embedding parameter'' (Inr (fst acc)))"

definition expert_step ::
    "(nat \<Rightarrow> expert_bundle result) \<Rightarrow> nat \<Rightarrow> expert_layer_bytes list \<times> nat \<times> nat \<Rightarrow> nat
     \<Rightarrow> (expert_layer_bytes list \<times> nat \<times> nat) result" where
  "expert_step expert_layer expected acc layer =
     (case acc of (per_layer, one_slot, full_bundles) \<Rightarrow>
      bindr (expert_layer layer) (\<lambda>bundle.
      ensure (bundle_num_experts bundle = expected) ''expert count differs from model contract''
      (let projections = map (bundle_projection_nbytes bundle) Projection_ALL in
       bindr (try_fold mem_add 0 projections) (\<lambda>packed.
       ensure (packed = bundle_row_bytes bundle) ''expert projections do not fill one packed slot''
       (bindr (mem_mul [packed, bundle_num_experts bundle]) (\<lambda>full.
        bindr (mem_add one_slot packed) (\<lambda>one_slot'.
        bindr (mem_add full_bundles full) (\<lambda>full_bundles'.
        Inr (per_layer @ [\<lparr> layer_index = layer, layer_experts = bundle_num_experts bundle,
               projection_bytes_per_slot = projections, packed_bytes_per_slot = packed,
               full_bundle_payload_bytes = full \<rparr>], one_slot', full_bundles')))))))))"

definition expert_payload ::
    "(nat \<Rightarrow> expert_bundle result) \<Rightarrow> nat \<Rightarrow> nat \<Rightarrow> (expert_layer_bytes list \<times> nat \<times> nat) result" where
  "expert_payload expert_layer layers expected =
     try_fold (expert_step expert_layer expected) ([], 0, 0) [0..<layers]"

definition fixed_session :: "model_config \<Rightarrow> mixer_kind list \<Rightarrow> fixed_session_bytes result" where
  "fixed_session config kinds =
     (let gdn = length (filter (\<lambda>k. k = Gdn) kinds); qsa = length (filter (\<lambda>k. k = Qsa) kinds) in
      bindr (config_number config ''linear_num_key_heads'') (\<lambda>key_heads.
      bindr (config_number config ''linear_num_value_heads'') (\<lambda>value_heads.
      bindr (config_number config ''linear_key_head_dim'') (\<lambda>key_width.
      bindr (config_number config ''linear_value_head_dim'') (\<lambda>value_width.
      bindr (config_number config ''linear_conv_kernel_dim'') (\<lambda>conv_taps.
      bindr (ok_or (checked_sub conv_taps 1) ''empty GDN convolution'') (\<lambda>conv_history.
      bindr (mem_mul [2, key_heads, key_width]) (\<lambda>keys.
      bindr (mem_mul [value_heads, value_width]) (\<lambda>vals.
      bindr (mem_add keys vals) (\<lambda>conv_width.
      bindr (config_number config ''num_key_value_heads'') (\<lambda>kv_heads.
      bindr (config_number config ''head_dim'') (\<lambda>head_width.
      bindr (mem_mul [kv_heads, head_width, 2]) (\<lambda>wire.
      ensure (wire = TOKEN_BYTES) ''QSA package geometry differs from KVarN token wire''
      (bindr (config_number config ''hc_count'') (\<lambda>hc_count.
       bindr (config_number config ''hidden_size'') (\<lambda>hidden.
       bindr (config_number config ''ple_conv_kernel_size'') (\<lambda>ple_taps.
       bindr (ok_or (checked_sub ple_taps 1) ''empty PLE convolution'') (\<lambda>ple_history.
       bindr (config_number config ''ngram_size'') (\<lambda>ngram.
       bindr (mem_mul [gdn, value_heads, key_width, value_width, 4]) (\<lambda>recurrent.
       bindr (mem_mul [gdn, conv_history, conv_width, 2]) (\<lambda>convolution.
       bindr (mem_mul [qsa, 2, SINK_TOKENS, kv_heads, head_width, 2]) (\<lambda>sink.
       bindr (mem_mul [qsa, 2, TAIL_CAPACITY, kv_heads, head_width, 2]) (\<lambda>tail.
       bindr (mem_mul [ple_history, ngram, hc_count, hidden, 2]) (\<lambda>history.
       Inr \<lparr> gdn_recurrent_f32 = recurrent, gdn_convolution_bf16 = convolution,
             qsa_sink_kv_bf16 = sink, qsa_tail_kv_bf16 = tail, ple_history_bf16 = history
       \<rparr>))))))))))))))))))))))))"

definition growing_session_payload :: "nat \<Rightarrow> nat \<Rightarrow> nat \<Rightarrow> growing_session_bytes result" where
  "growing_session_payload frontier max_context layers =
     ensure (frontier \<le> max_context) ''session frontier exceeds declared context limit''
     (let body_end = fst (snd (kvarn_partition frontier)); record_tokens = body_end - SINK_TOKENS in
      ensure (record_tokens mod TILE_TOKENS = 0) ''KVarN partition produced a partial record tile''
      (let tiles = record_tokens div TILE_TOKENS; complete_groups = frontier div COMPRESS_RATIO;
           pending_rows = frontier mod COMPRESS_RATIO in
       bindr (mem_mul [layers, tiles, TILE_RECORD_BYTES]) (\<lambda>records.
       bindr (mem_mul [layers, complete_groups, INDEX_WIDTH, 2]) (\<lambda>compressed.
       bindr (mem_mul [layers, pending_rows, INDEX_WIDTH, 2]) (\<lambda>pending.
       bindr (mem_add records compressed) (\<lambda>t0. bindr (mem_add t0 pending) (\<lambda>total.
       Inr \<lparr> frontier_tokens = frontier, kvarn_record_tiles_per_qsa_layer = tiles,
             qsa_index_complete_groups_per_layer = complete_groups,
             qsa_index_pending_rows_per_layer = pending_rows, kvarn_records = records,
             qsa_index_compressed_bf16 = compressed, qsa_index_pending_bf16 = pending,
             total_logical_bytes = total \<rparr>)))))))"

section \<open>Stage workspaces\<close>

definition workspace :: "workspace_stage \<Rightarrow> nat \<Rightarrow> nat \<Rightarrow> nat \<Rightarrow> nat \<Rightarrow> workspace_bytes result" where
  "workspace stage cap rows metal host =
     bindr (mem_add metal host) (\<lambda>combined.
     Inr \<lparr> ws_stage = stage, ws_capacity_slots = cap, ws_rows = rows, metal_requested_bytes = metal,
           host_logical_bytes = host, combined_component_bytes = combined \<rparr>)"

definition larger :: "workspace_bytes \<Rightarrow> workspace_bytes \<Rightarrow> workspace_bytes" where
  "larger a b = (if combined_component_bytes a < combined_component_bytes b then b else a)"

text \<open>The accumulation \<open>Some(acc.map_or(candidate, |current| larger(current, candidate)))\<close>.\<close>

definition keep_larger :: "workspace_bytes option \<Rightarrow> workspace_bytes \<Rightarrow> workspace_bytes option" where
  "keep_larger acc candidate =
     Some (case acc of None \<Rightarrow> candidate | Some current \<Rightarrow> larger current candidate)"

definition expert_reader_workspace_bytes :: "nat \<Rightarrow> nat \<Rightarrow> nat result" where
  "expert_reader_workspace_bytes row capacity =
     (if capacity = 512 then Inr row
      else bindr (mem_mul [row, PREFILL_READ_ROWS + 1]) (\<lambda>rows.
           bindr (mem_mul [PREFILL_READ_STACK_BYTES, PREFILL_READ_WORKERS]) (\<lambda>stacks.
           mem_sum [rows, stacks, PREFILL_READ_CONTROL_BYTES])))"

definition decode_stage :: "nat \<Rightarrow> nat \<Rightarrow> workspace_bytes result" where
  "decode_stage capacity row_workspace =
     bindr (mem_mul [12, 36 + 4]) (\<lambda>decode_metal.
     let head_host = 5120 + 3 * 248320 * 2 in
     bindr (if capacity = 512 then Inr 0 else mem_sum [5120, 20480]) (\<lambda>demand_host.
     bindr (mem_add row_workspace (max head_host demand_host)) (\<lambda>host.
     workspace DecodeQueuedGraph capacity 1 decode_metal host)))"

definition prefill_stage :: "nat \<Rightarrow> nat \<Rightarrow> nat \<Rightarrow> workspace_bytes result" where
  "prefill_stage rows capacity row_workspace =
     (let tiles = div_ceil rows 64; bounded = (capacity < 512);
          source_groups = (if bounded then div_ceil 512 (capacity div 2) else 1) in
      bindr (mem_mul [44, rows]) (\<lambda>positions.
      bindr (mem_mul [48, tiles]) (\<lambda>geometry.
      bindr (mem_sum [positions, 64, geometry]) (\<lambda>qsa_per_layer.
      bindr (mem_mul [12, qsa_per_layer]) (\<lambda>qsa_metal.
      bindr (mem_mul [16, source_groups]) (\<lambda>schedule.
      bindr (if bounded then mem_mul [80, rows] else Inr 0) (\<lambda>sorted.
      bindr (mem_sum [2048, schedule, sorted]) (\<lambda>mlp_per_layer.
      bindr (mem_mul [48, mlp_per_layer]) (\<lambda>mlp_metal.
      bindr (mem_add qsa_metal mlp_metal) (\<lambda>metal.
      bindr (mem_mul [5120, rows]) (\<lambda>embedding_host.
      bindr (mem_mul [10240, rows]) (\<lambda>ple_rows.
      bindr (mem_sum [embedding_host, ple_rows, 10240]) (\<lambda>ple_host.
      bindr (mem_add embedding_host (2 * 248320 * 2)) (\<lambda>head_host.
      bindr (if bounded then bindr (mem_mul [280, rows]) (\<lambda>route. mem_sum [embedding_host, route, 64 * 512])
             else Inr 0) (\<lambda>bounded_host.
      bindr (mem_add row_workspace (max (max ple_host head_host) bounded_host)) (\<lambda>host.
      workspace PrefillQueuedGraph capacity rows metal host))))))))))))))))"

definition runtime_workspaces :: "nat \<Rightarrow> nat \<Rightarrow> nat \<Rightarrow> workspace_bytes list result" where
  "runtime_workspaces rows capacity largest_expert_row =
     bindr (expert_reader_workspace_bytes largest_expert_row capacity) (\<lambda>row_workspace.
     bindr (decode_stage capacity row_workspace) (\<lambda>decode.
     if rows = 1 then Inr [decode]
     else bindr (prefill_stage rows capacity row_workspace) (\<lambda>prefill. Inr [decode, prefill])))"

section \<open>The estimate of an ordinary path\<close>

definition packed_expert_bytes_at_capacity :: "package_footprint \<Rightarrow> nat \<Rightarrow> nat result" where
  "packed_expert_bytes_at_capacity fp capacity =
     ensure (10 \<le> capacity \<and> capacity \<le> max_expert_slots fp) ''expert capacity differs from engine range''
     (mem_mul [packed_expert_bytes_per_uniform_slot fp, capacity])"

definition expert_storage_metadata_bytes :: "package_footprint \<Rightarrow> nat \<Rightarrow> nat result" where
  "expert_storage_metadata_bytes fp initial =
     ensure (10 \<le> initial \<and> initial \<le> min (max_expert_slots fp) 512)
       ''expert metadata capacity differs from engine range''
     (if initial = 512 then Inr 0
      else bindr (mem_mul [511, 18, 8]) (\<lambda>table. bindr (mem_add table 4) (\<lambda>per_layer.
           mem_mul [per_layer, length (fp_expert_layers fp)])))"

definition growing_session_payload_at_frontier :: "package_footprint \<Rightarrow> nat \<Rightarrow> growing_session_bytes result" where
  "growing_session_payload_at_frontier fp frontier =
     growing_session_payload frontier (max_context_tokens fp) (qsa_layers fp)"

definition ordinary_vec_overlap_at_context :: "package_footprint \<Rightarrow> nat \<Rightarrow> bool \<Rightarrow> nat result" where
  "ordinary_vec_overlap_at_context fp context_limit full_resident =
     bindr (growing_session_payload_at_frontier fp context_limit) (\<lambda>growing.
     bindr (mem_mul [kvarn_record_tiles_per_qsa_layer growing, TILE_RECORD_BYTES]) (\<lambda>records.
     bindr (mem_mul [qsa_index_complete_groups_per_layer growing, INDEX_WIDTH * 2]) (\<lambda>groups.
     bindr (mem_sum [records, groups]) (\<lambda>old_pair.
     let layers = qsa_layers fp; old_backings = (if full_resident then layers else 1) in
     bindr (mem_mul [layers, QSA_DEVICE_INDEX_FIXED_CAPACITY_BYTES]) (\<lambda>fixed.
     bindr (mem_mul [old_backings, old_pair]) (\<lambda>backings.
     mem_sum [fixed, backings]))))))"

text \<open>One candidate pool size while loading.\<close>

definition startup_candidate ::
    "nat \<Rightarrow> nat \<Rightarrow> nat \<Rightarrow> workspace_bytes option \<times> nat \<Rightarrow> nat \<Rightarrow> (workspace_bytes option \<times> nat) result" where
  "startup_candidate largest_row largest_projection largest_direct acc capacity =
     bindr (expert_reader_workspace_bytes largest_row capacity) (\<lambda>row_workspace.
     bindr (mem_add row_workspace largest_direct) (\<lambda>direct_host.
     bindr (workspace StartupDirect capacity 0 0 direct_host) (\<lambda>direct.
     bindr (mem_mul [largest_projection, capacity]) (\<lambda>pool.
     bindr (mem_sum [pool, largest_projection, row_workspace]) (\<lambda>expert_host.
     bindr (workspace StartupExpertPool capacity 0 0 expert_host) (\<lambda>expert.
     Inr (keep_larger (fst acc) (larger direct expert), max (snd acc) row_workspace)))))))"

text \<open>The scan of every legal width and every pool size; the accumulator holds the Metal bound.\<close>

definition scan_stage ::
    "nat \<Rightarrow> nat \<times> workspace_bytes option \<Rightarrow> workspace_bytes \<Rightarrow> (nat \<times> workspace_bytes option) result" where
  "scan_stage vec_reserve acc stage =
     bindr (mem_sum [metal_requested_bytes stage, vec_reserve]) (\<lambda>metal.
     Inr (max (fst acc) metal, keep_larger (snd acc) stage))"

definition scan_rows ::
    "nat \<Rightarrow> nat \<Rightarrow> nat \<Rightarrow> nat \<times> workspace_bytes option \<Rightarrow> nat \<Rightarrow> (nat \<times> workspace_bytes option) result" where
  "scan_rows vec_reserve largest_row capacity acc rows =
     bindr (runtime_workspaces rows capacity largest_row) (\<lambda>stages. try_fold (scan_stage vec_reserve) acc stages)"

definition scan_capacity ::
    "nat \<Rightarrow> nat \<Rightarrow> nat \<Rightarrow> nat \<Rightarrow> nat \<times> workspace_bytes option \<times> workspace_bytes option \<Rightarrow> nat
     \<Rightarrow> (nat \<times> workspace_bytes option \<times> workspace_bytes option) result" where
  "scan_capacity vec_reserve largest_row max_rows ceiling acc capacity =
     (case acc of (metal, across, at_ceiling) \<Rightarrow>
      bindr (try_fold (scan_rows vec_reserve largest_row capacity) (metal, None) [1..<Suc max_rows]) (\<lambda>scanned.
      bindr (ok_or (snd scanned) ''no ordinary execution stage'') (\<lambda>at_capacity.
      Inr (fst scanned, keep_larger across at_capacity,
           if capacity = ceiling then Some at_capacity else at_ceiling))))"

definition scan_runtime ::
    "nat \<Rightarrow> nat \<Rightarrow> nat \<Rightarrow> nat \<Rightarrow> (nat \<times> workspace_bytes option \<times> workspace_bytes option) result" where
  "scan_runtime vec_reserve largest_row max_rows ceiling =
     try_fold (scan_capacity vec_reserve largest_row max_rows ceiling) (0, None, None) [10..<Suc ceiling]"

definition estimate_ordinary_path_with_metadata_capacity ::
    "package_footprint \<Rightarrow> ordinary_path_inputs \<Rightarrow> nat \<Rightarrow> nat \<Rightarrow> ordinary_path_estimate result" where
  "estimate_ordinary_path_with_metadata_capacity fp input prefill_capacity metadata_initial =
     bindr (validate_capacity prefill_capacity) (\<lambda>_.
     ensure (0 < in_context_limit input \<and> in_context_limit input \<le> max_context_tokens fp)
       ''memory context limit differs from package range''
     (ensure (1 \<le> in_max_prefill_rows input \<and> in_max_prefill_rows input \<le> prefill_capacity
         \<and> in_max_prefill_rows input \<le> in_context_limit input)
       ''memory prefill width differs from context or kernel range''
     (ensure (10 \<le> in_candidate_slot_ceiling input \<and> in_candidate_slot_ceiling input \<le> max_expert_slots fp)
       ''memory expert ceiling differs from package range''
     (bindr (ok_or (in_vec_overlap_reserve_bytes input)
        ''Vec spare and growth overlap reserve is required'') (\<lambda>vec_reserve.
      bindr (ok_or (in_snapshot_overlap_reserve_bytes input)
        ''snapshot capture and restore overlap reserve is required'') (\<lambda>snapshot_overlap.
      ensure (0 < qsa_layers fp \<and> length (fp_expert_layers fp) = 48)
        ''memory estimate requires validated Qwen mixer geometry''
      (bindr (mem_sum [gdn_recurrent_f32 (fp_fixed_session fp), gdn_convolution_bf16 (fp_fixed_session fp),
         qsa_sink_kv_bf16 (fp_fixed_session fp), qsa_tail_kv_bf16 (fp_fixed_session fp),
         ple_history_bf16 (fp_fixed_session fp)]) (\<lambda>fixed_bytes.
       bindr (growing_session_payload_at_frontier fp (in_context_limit input)) (\<lambda>growing.
       bindr (ok_or (list_max (map packed_bytes_per_slot (fp_expert_layers fp)))
         ''memory estimate has no expert layers'') (\<lambda>largest_row.
       bindr (ok_or (list_max (concat (map projection_bytes_per_slot (fp_expert_layers fp))))
         ''memory estimate has no expert projections'') (\<lambda>largest_projection.
       bindr (try_fold (startup_candidate largest_row largest_projection
            (largest_direct_payload_bytes (fp_direct fp))) (None, 0)
          [in_candidate_slot_ceiling input, min (in_candidate_slot_ceiling input) 511]) (\<lambda>startup_acc.
       bindr (ok_or (fst startup_acc) ''unwrap on None'') (\<lambda>startup_ws.
       bindr (scan_runtime vec_reserve largest_row (in_max_prefill_rows input)
          (in_candidate_slot_ceiling input)) (\<lambda>scan.
       bindr (ok_or (snd (snd scan)) ''unwrap on None'') (\<lambda>at_ceiling.
       bindr (ok_or (fst (snd scan)) ''unwrap on None'') (\<lambda>across.
       bindr (mem_sum [embedding_cpu_bytes (fp_direct fp), matrix_packed_bytes (fp_direct fp),
          auxiliary_bytes (fp_direct fp)]) (\<lambda>direct_bytes.
       bindr (packed_expert_bytes_at_capacity fp (in_candidate_slot_ceiling input)) (\<lambda>expert_bytes.
       bindr (mem_mul [in_context_limit input, 4]) (\<lambda>token_bytes.
       bindr (mem_sum [fixed_bytes, total_logical_bytes growing, token_bytes, 248320 * 2]) (\<lambda>snapshot_bytes.
       bindr (if prefill_capacity = DEFAULT_ROWS
              then native_prefill_workspace_bytes (in_context_limit input)
              else native_prefill_workspace_bytes_for_capacity (in_context_limit input) prefill_capacity)
         (\<lambda>prefill_bytes.
       bindr (expert_storage_metadata_bytes fp metadata_initial) (\<lambda>metadata_bytes.
       refresh_phase_peaks
        \<lparr> direct_wire_payload_bytes = direct_bytes, expert_stream_payload_at_ceiling_bytes = expert_bytes,
          expert_storage_metadata_reserve_bytes = metadata_bytes, fixed_session_logical_bytes = fixed_bytes,
          growing_session_logical_bytes = total_logical_bytes growing,
          minimum_snapshot_logical_bytes = snapshot_bytes,
          prefill_workspace_requested_bytes = prefill_bytes,
          expert_reader_workspace_across_candidates_bytes = snd startup_acc,
          runtime_workspace_at_ceiling = at_ceiling, runtime_workspace_across_candidates = across,
          startup_workspace_across_candidates = startup_ws,
          max_workspace_across_candidates = larger across startup_ws,
          runtime_metal_requested_upper_bytes = fst scan,
          uncounted_core_reserve_bytes = in_uncounted_core_reserve_bytes input,
          vec_spare_growth_overlap_reserve_bytes = vec_reserve,
          prefix_retained_budget_bytes = in_prefix_retained_budget_bytes input,
          snapshot_capture_restore_overlap_reserve_bytes = snapshot_overlap,
          driver_allocator_allowance_bytes = in_driver_allowance_bytes input,
          startup_phase_peak_bytes = 0, engine_construction_phase_peak_bytes = 0,
          serving_phase_peak_bytes = 0, limiting_phase = Startup,
          accounted_component_sum_bytes = 0 \<rparr>))))))))))))))))))))))"

definition estimate_ordinary_path_with_prefill_capacity ::
    "package_footprint \<Rightarrow> ordinary_path_inputs \<Rightarrow> nat \<Rightarrow> ordinary_path_estimate result" where
  "estimate_ordinary_path_with_prefill_capacity fp input prefill_capacity =
     estimate_ordinary_path_with_metadata_capacity fp input prefill_capacity
       (min (in_candidate_slot_ceiling input) 511)"

definition estimate_ordinary_path :: "package_footprint \<Rightarrow> ordinary_path_inputs \<Rightarrow> ordinary_path_estimate result" where
  "estimate_ordinary_path fp input = estimate_ordinary_path_with_prefill_capacity fp input DEFAULT_ROWS"

definition estimate_fixed_capacity_prefill ::
    "package_footprint \<Rightarrow> nat \<Rightarrow> nat \<Rightarrow> nat \<Rightarrow> nat \<Rightarrow> ordinary_path_estimate result" where
  "estimate_fixed_capacity_prefill fp context_limit expert_capacity prefill_capacity overhead =
     bindr (ordinary_vec_overlap_at_context fp context_limit (expert_capacity = 512)) (\<lambda>vec_overlap.
     estimate_ordinary_path_with_metadata_capacity fp
       \<lparr> in_context_limit = context_limit, in_max_prefill_rows = min context_limit prefill_capacity,
         in_candidate_slot_ceiling = expert_capacity,
         in_uncounted_core_reserve_bytes = ORDINARY_CORE_BUFFER_BYTES,
         in_vec_overlap_reserve_bytes = Some vec_overlap, in_prefix_retained_budget_bytes = 0,
         in_snapshot_overlap_reserve_bytes = Some 0, in_driver_allowance_bytes = overhead \<rparr>
       prefill_capacity expert_capacity)"

definition admission_estimate ::
    "package_footprint \<Rightarrow> nat \<Rightarrow> nat \<Rightarrow> nat \<Rightarrow> nat \<Rightarrow> nat \<Rightarrow> bool \<Rightarrow> ordinary_path_estimate result" where
  "admission_estimate fp context_limit overhead prefix_budget disk_overlap ceiling full_resident =
     bindr (ordinary_vec_overlap_at_context fp context_limit full_resident) (\<lambda>vec_overlap.
     estimate_ordinary_path_with_metadata_capacity fp
       \<lparr> in_context_limit = context_limit, in_max_prefill_rows = min context_limit 512,
         in_candidate_slot_ceiling = ceiling,
         in_uncounted_core_reserve_bytes = ORDINARY_CORE_BUFFER_BYTES,
         in_vec_overlap_reserve_bytes = Some vec_overlap,
         in_prefix_retained_budget_bytes = prefix_budget,
         in_snapshot_overlap_reserve_bytes = Some disk_overlap,
         in_driver_allowance_bytes = overhead \<rparr>
       DEFAULT_ROWS ceiling)"

definition plan_ordinary_capacity_with_cache_budgets ::
    "package_footprint \<Rightarrow> nat \<Rightarrow> nat \<Rightarrow> nat \<Rightarrow> nat \<Rightarrow> nat \<Rightarrow> nat
     \<Rightarrow> (ordinary_path_estimate \<times> capacity_plan) result" where
  "plan_ordinary_capacity_with_cache_budgets fp context_limit process_budget user_limit overhead
      prefix_budget disk_overlap =
     ensure (qsa_layers fp = 12 \<and> length (fp_expert_layers fp) = 48 \<and> max_expert_slots fp = 512)
       ''explicit ordinary memory policy requires validated Qwen layer and expert geometry''
     (ensure (0 < user_limit) ''explicit memory limit must be positive''
     (bindr (admission_estimate fp context_limit overhead prefix_budget disk_overlap 512 True) (\<lambda>full.
      if accounted_component_sum_bytes full \<le> min process_budget user_limit then
        bindr (plan_from_ordinary_estimate full (packed_expert_bytes_per_uniform_slot fp) 512
          process_budget user_limit) (\<lambda>plan. Inr (full, plan))
      else
        bindr (admission_estimate fp context_limit overhead prefix_budget disk_overlap 511 False) (\<lambda>e.
        bindr (plan_from_ordinary_estimate e (packed_expert_bytes_per_uniform_slot fp) 511
          process_budget user_limit) (\<lambda>plan. Inr (e, plan))))))"

text \<open>The loop over the wider tiers: it stops at the first tier beyond the request or refused.\<close>

fun upgrade_tiers ::
    "package_footprint \<Rightarrow> nat \<Rightarrow> nat \<Rightarrow> nat list \<Rightarrow> ordinary_path_estimate \<times> capacity_plan \<times> nat
     \<Rightarrow> ordinary_path_estimate \<times> capacity_plan \<times> nat" where
  "upgrade_tiers fp context_limit requested [] acc = acc"
| "upgrade_tiers fp context_limit requested (wider # tiers) (e, plan, admitted) =
     (if requested < wider then (e, plan, admitted)
      else
        let wide = estimate_ordinary_path_with_metadata_capacity fp
              \<lparr> in_context_limit = context_limit, in_max_prefill_rows = min context_limit wider,
                in_candidate_slot_ceiling = slots plan,
                in_uncounted_core_reserve_bytes = uncounted_core_reserve_bytes e,
                in_vec_overlap_reserve_bytes = Some (vec_spare_growth_overlap_reserve_bytes e),
                in_prefix_retained_budget_bytes = prefix_retained_budget_bytes e,
                in_snapshot_overlap_reserve_bytes = Some (snapshot_capture_restore_overlap_reserve_bytes e),
                in_driver_allowance_bytes = driver_allocator_allowance_bytes e \<rparr>
              wider (slots plan);
            upgraded = finish_optional_prefill_upgrade e plan admitted wide wider
              (packed_expert_bytes_per_uniform_slot fp)
        in if snd (snd upgraded) \<noteq> wider then upgraded
           else upgrade_tiers fp context_limit requested tiers upgraded)"

definition upgrade_prefill_capacity_to ::
    "package_footprint \<Rightarrow> nat \<Rightarrow> ordinary_path_estimate \<Rightarrow> capacity_plan \<Rightarrow> nat
     \<Rightarrow> (ordinary_path_estimate \<times> capacity_plan \<times> nat) result" where
  "upgrade_prefill_capacity_to fp context_limit e plan requested =
     bindr (validate_capacity requested) (\<lambda>_.
     bindr (native_prefill_workspace_bytes context_limit) (\<lambda>workspace_bytes.
     ensure (prefill_workspace_requested_bytes e = workspace_bytes)
       ''prefill upgrade requires an admitted 512-row estimate''
     (if context_limit \<le> DEFAULT_ROWS then Inr (e, plan, DEFAULT_ROWS)
      else Inr (upgrade_tiers fp context_limit requested [AUTOMATIC_ROWS, MAX_ROWS] (e, plan, DEFAULT_ROWS)))))"

definition upgrade_prefill_capacity ::
    "package_footprint \<Rightarrow> nat \<Rightarrow> ordinary_path_estimate \<Rightarrow> capacity_plan
     \<Rightarrow> (ordinary_path_estimate \<times> capacity_plan \<times> nat) result" where
  "upgrade_prefill_capacity fp context_limit e plan =
     upgrade_prefill_capacity_to fp context_limit e plan AUTOMATIC_ROWS"

text \<open>\<open>from_package\<close>: the model's layer kinds and position limit come from its validated configuration.\<close>

definition from_package ::
    "direct_header list result \<Rightarrow> (nat \<Rightarrow> expert_bundle result) \<Rightarrow> model_config \<Rightarrow> mixer_kind list \<Rightarrow> nat
     \<Rightarrow> package_footprint result" where
  "from_package direct_headers expert_layer config kinds max_positions =
     bindr direct_headers (\<lambda>headers.
     bindr (direct_payload headers config) (\<lambda>direct.
     bindr (config_number config ''num_experts'') (\<lambda>experts.
     bindr (expert_payload expert_layer (length kinds) experts) (\<lambda>(layers, one_slot, full).
     bindr (fixed_session config kinds) (\<lambda>session.
     Inr \<lparr> fp_direct = direct, fp_expert_layers = layers, packed_expert_bytes_per_uniform_slot = one_slot,
           full_expert_bundle_payload_bytes = full, fp_fixed_session = session, max_expert_slots = experts,
           max_context_tokens = max_positions, qsa_layers = length (filter (\<lambda>k. k = Qsa) kinds) \<rparr>)))))"

end
