(* ===== verification/Memory_Control.thy ===== *)
theory Memory_Control
  imports Memory_Footprint
begin

text \<open>
  \<open>ExpertCapacityControlBudget\<close> of \<open>src/memory.rs\<close>: the serving commitments taken from an
  admission, the operating envelope laid over them, the narrowing for a request phase with a
  different prefill width, and the headroom granted to one recovery of expert slots.
\<close>

definition from_admission ::
    "package_footprint \<Rightarrow> ordinary_path_estimate \<Rightarrow> capacity_plan \<Rightarrow> capacity_control_budget result" where
  "from_admission fp e plan =
     ensure (10 \<le> slots plan \<and> slots plan < 512)
       ''expert capacity control requires an initially bounded pool''
     (bindr (phase_component_sums e) (\<lambda>phases.
      ensure (phase_peaks_match phases e) ''expert capacity control phase peaks differ from admission''
      (bindr (packed_expert_bytes_at_capacity fp (slots plan)) (\<lambda>selected.
       bindr (ok_or (checked_sub (expert_stream_payload_at_ceiling_bytes e) selected)
         ''expert capacity control exceeds admission ceiling'') (\<lambda>surplus.
       ensure (checked_sub (accounted_component_sum_bytes e) surplus = Some (accounted_peak_bytes plan)
           \<and> accounted_peak_bytes plan \<le> plan_budget_bytes plan
           \<and> checked_sub (plan_budget_bytes plan) (accounted_peak_bytes plan) = Some (remaining_budget_bytes plan))
         ''expert capacity control plan differs from admission''
       (bindr (expert_storage_metadata_bytes fp (slots plan)) (\<lambda>initial_metadata.
        ensure (initial_metadata \<le> expert_storage_metadata_reserve_bytes e)
          ''expert capacity control metadata exceeds admission reserve''
        (bindr (mem_mul [length (fp_expert_layers fp), 4]) (\<lambda>ready.
         bindr (ok_or (checked_sub initial_metadata ready)
           ''expert capacity control metadata omits publication buffers'') (\<lambda>overlap.
         ensure (0 < packed_expert_bytes_per_uniform_slot fp)
           ''expert capacity control slot byte count must be positive''
         (bindr (ok_or (checked_sub (serving_phase_peak_bytes e) surplus)
            ''expert capacity control surplus exceeds serving peak'') (\<lambda>serving.
          Inr \<lparr> b_initial_capacity = slots plan, b_maximum_capacity = slots plan,
                b_startup_budget_bytes = plan_budget_bytes plan,
                b_effective_budget_bytes = plan_budget_bytes plan,
                b_initial_serving_peak_bytes = serving,
                b_packed_expert_bytes_per_slot = packed_expert_bytes_per_uniform_slot fp,
                b_table_overlap_bytes = overlap,
                b_process_overhead_bytes = driver_allocator_allowance_bytes e,
                b_operating_growth = False \<rparr>))))))))))))"

text \<open>The serving peak without its expert slots.\<close>

definition nonexpert_bytes :: "capacity_control_budget \<Rightarrow> string \<Rightarrow> nat result" where
  "nonexpert_bytes b msg =
     bindr (mem_mul [b_packed_expert_bytes_per_slot b, b_initial_capacity b]) (\<lambda>experts.
     ok_or (checked_sub (b_initial_serving_peak_bytes b) experts) msg)"

definition with_prefill_width ::
    "capacity_control_budget \<Rightarrow> package_footprint \<Rightarrow> nat \<Rightarrow> nat \<Rightarrow> nat \<Rightarrow> capacity_control_budget result" where
  "with_prefill_width b fp context_limit old_rows new_rows =
     bindr (validate_capacity old_rows) (\<lambda>_.
     bindr (validate_capacity new_rows) (\<lambda>_.
     ensure (0 < b_packed_expert_bytes_per_slot b) ''phase expert slot credit is zero''
     (ensure (packed_expert_bytes_per_uniform_slot fp = b_packed_expert_bytes_per_slot b)
       ''phase package differs from admitted expert credit''
     (bindr (estimate_fixed_capacity_prefill fp context_limit (b_initial_capacity b) old_rows
         (b_process_overhead_bytes b)) (\<lambda>old.
      bindr (estimate_fixed_capacity_prefill fp context_limit (b_initial_capacity b) new_rows
         (b_process_overhead_bytes b)) (\<lambda>new.
      bindr (nonexpert_bytes b ''phase scratch differs from admitted serving commitments'') (\<lambda>nonexpert0.
      bindr (ok_or (if serving_phase_peak_bytes old \<le> serving_phase_peak_bytes new
                    then checked_add nonexpert0 (serving_phase_peak_bytes new - serving_phase_peak_bytes old)
                    else checked_sub nonexpert0 (serving_phase_peak_bytes old - serving_phase_peak_bytes new))
         ''phase transients differ from admitted serving commitments'') (\<lambda>nonexpert.
      bindr (ok_or (Option.bind (checked_sub (b_effective_budget_bytes b) nonexpert)
           (\<lambda>bytes. checked_sub bytes (b_table_overlap_bytes b)))
         ''phase commitments exceed operating budget'') (\<lambda>available.
      let maximum = available div b_packed_expert_bytes_per_slot b in
      ensure (64 \<le> maximum) ''phase workspace cannot retain the adaptive expert floor''
      (let maximum' = min maximum (b_maximum_capacity b); initial = min (b_initial_capacity b) maximum' in
       bindr (mem_mul [b_packed_expert_bytes_per_slot b, initial]) (\<lambda>experts.
       bindr (mem_add nonexpert experts) (\<lambda>peak.
       Inr (b \<lparr> b_initial_capacity := initial, b_maximum_capacity := maximum',
                b_initial_serving_peak_bytes := peak, b_operating_growth := True \<rparr>)))))))))))))"

definition workspace_budget_after_release ::
    "capacity_control_budget \<Rightarrow> nat \<Rightarrow> nat \<Rightarrow> nat \<Rightarrow> nat result" where
  "workspace_budget_after_release b context_limit current_rows capacity =
     ensure (64 \<le> capacity \<and> capacity \<le> b_maximum_capacity b)
       ''phase expert capacity is outside its extent''
     (bindr (native_prefill_workspace_bytes_for_capacity context_limit current_rows) (\<lambda>scratch.
      bindr (mem_mul [b_packed_expert_bytes_per_slot b, b_initial_capacity b]) (\<lambda>experts.
      bindr (ok_or (Option.bind (checked_sub (b_initial_serving_peak_bytes b) experts)
           (\<lambda>bytes. checked_sub bytes scratch))
         ''phase scratch exceeds admitted nonexpert commitments'') (\<lambda>nonexpert.
      bindr (mem_mul [b_packed_expert_bytes_per_slot b, capacity]) (\<lambda>retained.
      bindr (mem_add nonexpert retained) (\<lambda>peak.
      ok_or (checked_sub (b_effective_budget_bytes b) peak)
        ''phase workspace preparation exceeds its operating envelope''))))))"

definition with_operating_budget ::
    "capacity_control_budget \<Rightarrow> package_footprint \<Rightarrow> ordinary_path_estimate \<Rightarrow> nat \<Rightarrow> nat \<Rightarrow> nat
     \<Rightarrow> capacity_control_budget result" where
  "with_operating_budget b fp admitted context_limit prefill_capacity operating_budget =
     ensure (\<not> b_operating_growth b \<and> b_maximum_capacity b = b_initial_capacity b
         \<and> 0 < b_packed_expert_bytes_per_slot b)
       ''expert operating budget was already resolved''
     (bindr (packed_expert_bytes_at_capacity fp (b_initial_capacity b)) (\<lambda>selected.
      bindr (ok_or (checked_sub (expert_stream_payload_at_ceiling_bytes admitted) selected)
        ''expert operating capacity exceeds startup estimate'') (\<lambda>surplus.
      ensure (checked_sub (serving_phase_peak_bytes admitted) surplus = Some (b_initial_serving_peak_bytes b)
          \<and> packed_expert_bytes_per_uniform_slot fp = b_packed_expert_bytes_per_slot b)
        ''expert operating commitments differ from startup admission''
      (bindr (estimate_ordinary_path_with_prefill_capacity fp
          \<lparr> in_context_limit = context_limit, in_max_prefill_rows = min context_limit prefill_capacity,
            in_candidate_slot_ceiling = 511,
            in_uncounted_core_reserve_bytes = uncounted_core_reserve_bytes admitted,
            in_vec_overlap_reserve_bytes = Some (vec_spare_growth_overlap_reserve_bytes admitted),
            in_prefix_retained_budget_bytes = prefix_retained_budget_bytes admitted,
            in_snapshot_overlap_reserve_bytes = Some (snapshot_capture_restore_overlap_reserve_bytes admitted),
            in_driver_allowance_bytes = driver_allocator_allowance_bytes admitted \<rparr>
          prefill_capacity) (\<lambda>operating.
       bindr (ok_or (checked_sub (serving_phase_peak_bytes operating)
           (expert_stream_payload_at_ceiling_bytes operating))
         ''expert operating payload exceeds serving phase'') (\<lambda>nonexpert0.
       bindr (mem_add nonexpert0 selected) (\<lambda>operating_peak.
       let peak = max (b_initial_serving_peak_bytes b) operating_peak in
       bindr (ok_or (checked_sub peak selected)
         ''expert operating payload exceeds initial serving phase'') (\<lambda>nonexpert.
       bindr (ok_or (checked_sub operating_budget nonexpert)
         ''expert operating commitments exceed the operating envelope'') (\<lambda>available.
       ensure (peak \<le> operating_budget)
         ''expert operating envelope cannot preserve the initial serving capacity''
       (let recoverable = available - b_table_overlap_bytes b;
            maximum = max (min (recoverable div b_packed_expert_bytes_per_slot b) 511) (b_initial_capacity b)
        in Inr (b \<lparr> b_initial_serving_peak_bytes := peak, b_maximum_capacity := maximum,
                    b_effective_budget_bytes := operating_budget, b_operating_growth := True \<rparr>)))))))))))"

definition validate_serving ::
    "capacity_control_budget \<Rightarrow> package_footprint \<Rightarrow> nat \<Rightarrow> nat \<Rightarrow> nat \<Rightarrow> nat \<Rightarrow> unit result" where
  "validate_serving b fp max_context prefill_capacity memory_retained disk_snapshot =
     ensure (packed_expert_bytes_per_uniform_slot fp = b_packed_expert_bytes_per_slot b
         \<and> 0 < b_packed_expert_bytes_per_slot b)
       ''expert capacity control weight credit differs from serving package''
     (bindr (expert_storage_metadata_bytes fp (b_initial_capacity b)) (\<lambda>actual_metadata.
      bindr (mem_mul [length (fp_expert_layers fp), 4]) (\<lambda>ready.
      ensure (checked_sub actual_metadata ready = Some (b_table_overlap_bytes b))
        ''expert capacity control address overlap differs from serving package''
      (bindr (estimate_fixed_capacity_prefill fp max_context (b_initial_capacity b) prefill_capacity
          (b_process_overhead_bytes b)) (\<lambda>actual.
       bindr (mem_sum [serving_phase_peak_bytes actual, memory_retained, disk_snapshot]) (\<lambda>peak.
       ensure (peak \<le> b_initial_serving_peak_bytes b)
         ''expert capacity control serving commitments exceed the admitted bound'' (Inr ())))))))"

definition chunk_extent_ok :: "capacity_control_budget \<Rightarrow> nat \<Rightarrow> nat \<Rightarrow> bool" where
  "chunk_extent_ok b current target \<longleftrightarrow>
     10 \<le> b_initial_capacity b \<and> b_initial_capacity b < 512
     \<and> b_initial_capacity b \<le> b_maximum_capacity b \<and> b_maximum_capacity b < 512
     \<and> 10 \<le> current \<and> current \<le> b_maximum_capacity b
     \<and> (b_operating_growth b \<or> current = b_initial_capacity b \<or> current mod 64 = 0)
     \<and> current \<le> target \<and> target \<le> b_maximum_capacity b
     \<and> (b_operating_growth b \<or> target = b_initial_capacity b \<or> target mod 64 = 0)"

definition preparation_budget_bytes :: "capacity_control_budget \<Rightarrow> nat \<Rightarrow> nat \<Rightarrow> nat result" where
  "preparation_budget_bytes b current target =
     ensure (chunk_extent_ok b current target)
       ''expert recovery capacity differs from the admitted chunk extent''
     (if target = current then Inr 0
      else
        ensure (0 < b_packed_expert_bytes_per_slot b)
          ''expert recovery slot byte count must be positive''
        (bindr (if current \<le> b_initial_capacity b
                then bindr (mem_mul [b_packed_expert_bytes_per_slot b, b_initial_capacity b - current])
                  (\<lambda>released. ok_or (checked_sub (b_initial_serving_peak_bytes b) released)
                     ''released expert bytes exceed the admitted serving peak'')
                else bindr (mem_mul [b_packed_expert_bytes_per_slot b, current - b_initial_capacity b])
                  (\<lambda>grown. mem_add (b_initial_serving_peak_bytes b) grown)) (\<lambda>current_peak.
         bindr (mem_mul [b_packed_expert_bytes_per_slot b, target - current]) (\<lambda>added.
         bindr (mem_sum [added, b_table_overlap_bytes b]) (\<lambda>preparation.
         bindr (mem_add current_peak preparation) (\<lambda>preparation_peak.
         ensure (preparation_peak \<le> b_effective_budget_bytes b)
           ''expert recovery preparation exceeds policy budget''
         (ok_or (checked_sub (b_effective_budget_bytes b) current_peak)
            ''admitted serving commitments exceed recovery budget'')))))))"

end
