(* ===== verification/Memory_Admission.thy ===== *)
theory Memory_Admission
  imports Memory_Control
begin

text \<open>
  What the memory planner promises: checked arithmetic is exact, the pool chosen is the largest
  whose limiting phase fits, every phase fits with it, and the admission's commitments carry over
  to the control budget and its operating envelope.
\<close>

section \<open>Checked arithmetic\<close>

lemma mem_add_eq_Inr [result_simps]: "mem_add a b = Inr c \<longleftrightarrow> c = a + b \<and> a + b < u64_limit"
  by (auto simp: mem_add_def result_simps rust_arith)

lemma mem_sum_from_eq_Inr:
  "acc < u64_limit \<Longrightarrow>
     try_fold mem_add acc xs = Inr n \<longleftrightarrow> n = acc + sum_list xs \<and> acc + sum_list xs < u64_limit"
proof (induction xs arbitrary: acc)
  case (Cons x xs)
  show ?case
  proof (cases "acc + x < u64_limit")
    case True
    then show ?thesis using Cons.IH [OF True] by (simp add: mem_add_def checked_add_def add.assoc)
  next
    case False
    then show ?thesis by (simp add: mem_add_def checked_add_def)
  qed
qed auto

lemma u64_limit_pos [simp]: "0 < u64_limit" "1 < u64_limit" "Suc 0 < u64_limit"
  by (simp_all add: u64_limit_def)

lemma mem_sum_eq_Inr [result_simps]:
  "mem_sum xs = Inr n \<longleftrightarrow> n = sum_list xs \<and> sum_list xs < u64_limit"
  by (simp add: mem_sum_def mem_sum_from_eq_Inr)

lemma mem_mul_from_Inr:
  "try_fold (\<lambda>acc v. ok_or (checked_mul acc v) msg) acc xs = Inr n \<Longrightarrow> n = acc * prod_list xs"
  proof (induction xs arbitrary: acc)
  case (Cons x xs)
  then have "try_fold (\<lambda>acc v. ok_or (checked_mul acc v) msg) (acc * x) xs = Inr n"
    by (auto simp: result_simps rust_arith)
  from Cons.IH [OF this] show ?case by simp
qed simp

lemma mem_mul_Inr: "mem_mul xs = Inr n \<Longrightarrow> n = prod_list xs"
  unfolding mem_mul_def by (drule mem_mul_from_Inr) simp

lemma mem_mul2_eq_Inr [result_simps]:
  "mem_mul [a, b] = Inr n \<longleftrightarrow> n = a * b \<and> a * b < u64_limit \<and> a < u64_limit"
  by (auto simp: mem_mul_def result_simps rust_arith)

section \<open>The pool choice\<close>

definition inputs_budget :: "capacity_inputs \<Rightarrow> nat" where
  "inputs_budget i = (case user_memory_limit_bytes i of None \<Rightarrow> process_budget_bytes i
     | Some limit \<Rightarrow> min (process_budget_bytes i) limit)"

definition inputs_fixed :: "capacity_inputs \<Rightarrow> nat" where
  "inputs_fixed i = fixed_nonexpert_bytes i + context_reserve_bytes i + unwrap_or 0 (bounded_workspace_bytes i)"

text \<open>What admitting \<open>n\<close> slots takes.\<close>

definition inputs_need :: "capacity_inputs \<Rightarrow> nat \<Rightarrow> nat" where
  "inputs_need i n = inputs_fixed i + n * packed_expert_bytes_per_slot i"

definition inputs_valid :: "capacity_inputs \<Rightarrow> bool" where
  "inputs_valid i \<longleftrightarrow> 10 \<le> minimum_slots i \<and> minimum_slots i \<le> max_slots i \<and> max_slots i \<le> 512
     \<and> 0 < packed_expert_bytes_per_slot i \<and> bounded_workspace_bytes i \<noteq> None"

lemma plan_capacity_Inr:
  assumes "plan_capacity i = Inr plan"
  shows "inputs_valid i" and "inputs_need i (minimum_slots i) \<le> inputs_budget i"
    and "plan = \<lparr> slots = min ((inputs_budget i - inputs_fixed i) div packed_expert_bytes_per_slot i) (max_slots i),
          plan_budget_bytes = inputs_budget i,
          accounted_peak_bytes = inputs_need i (slots plan),
          remaining_budget_bytes = inputs_budget i - inputs_need i (slots plan) \<rparr>"
proof -
  from assms obtain w where w: "bounded_workspace_bytes i = Some w"
    by (auto simp: plan_capacity_def result_simps)
  then show "inputs_valid i" "inputs_need i (minimum_slots i) \<le> inputs_budget i"
    and "plan = \<lparr> slots = min ((inputs_budget i - inputs_fixed i) div packed_expert_bytes_per_slot i) (max_slots i),
          plan_budget_bytes = inputs_budget i,
          accounted_peak_bytes = inputs_need i (slots plan),
          remaining_budget_bytes = inputs_budget i - inputs_need i (slots plan) \<rparr>"
    using assms unfolding plan_capacity_def inputs_budget_def [symmetric] Let_def
    by (auto simp: result_simps inputs_valid_def inputs_need_def inputs_fixed_def mult.commute)
qed

text \<open>The number chosen is the largest that fits.\<close>

lemma affordable_iff:
  assumes "0 < per" "(fixed::nat) \<le> budget"
  shows "n \<le> (budget - fixed) div per \<longleftrightarrow> fixed + n * per \<le> budget"
  using assms by (simp add: less_eq_div_iff_mult_less_eq le_diff_conv2 add.commute)

lemma plan_capacity_largest:
  assumes "plan_capacity i = Inr plan"
  shows "n \<le> slots plan \<longleftrightarrow> n \<le> max_slots i \<and> inputs_need i n \<le> inputs_budget i"
proof -
  note p = plan_capacity_Inr [OF assms]
  have "inputs_fixed i \<le> inputs_budget i" using p(2) by (simp add: inputs_need_def)
  moreover have "0 < packed_expert_bytes_per_slot i" using p(1) by (simp add: inputs_valid_def)
  ultimately show ?thesis by (subst p(3)) (auto simp: affordable_iff inputs_need_def)
qed

lemma plan_capacity_complete:
  assumes v: "inputs_valid i" and n: "minimum_slots i \<le> n" "n \<le> max_slots i"
    and fit: "inputs_need i n \<le> inputs_budget i" and lim: "inputs_budget i < u64_limit"
  shows "\<exists>plan. plan_capacity i = Inr plan \<and> n \<le> slots plan"
proof -
  let ?per = "packed_expert_bytes_per_slot i"
  define s where "s = min ((inputs_budget i - inputs_fixed i) div ?per) (max_slots i)"
  have per: "0 < ?per" and n10: "10 \<le> n" using v n by (simp_all add: inputs_valid_def)
  from v obtain w where w: "bounded_workspace_bytes i = Some w" by (auto simp: inputs_valid_def)
  have fx: "inputs_fixed i \<le> inputs_budget i" using fit by (simp add: inputs_need_def)
  have s: "inputs_fixed i + s * ?per \<le> inputs_budget i" "n \<le> s"
    using affordable_iff [OF per fx, of s] affordable_iff [OF per fx, of n] n fit
    by (simp_all add: s_def inputs_need_def)
  have m: "inputs_fixed i + minimum_slots i * ?per \<le> inputs_budget i"
    using fit n mult_le_mono1 [OF n(1), of ?per] unfolding inputs_need_def by linarith
  have "?per \<le> s * ?per" using mult_le_mono1 [of 1 s ?per] s n10 by simp
  with s lim m have l: "?per < u64_limit" "s * ?per < u64_limit" "inputs_fixed i + s * ?per < u64_limit"
    "inputs_fixed i < u64_limit" "inputs_fixed i + minimum_slots i * ?per < u64_limit"
    by linarith+
  have s_eq: "min ((inputs_budget i - (fixed_nonexpert_bytes i + context_reserve_bytes i + w)) div ?per)
      (max_slots i) = s"
    by (simp add: s_def inputs_fixed_def w)
  have "plan_capacity i = Inr \<lparr> slots = s, plan_budget_bytes = inputs_budget i,
      accounted_peak_bytes = inputs_need i s, remaining_budget_bytes = inputs_budget i - inputs_need i s \<rparr>"
    unfolding plan_capacity_def inputs_budget_def [symmetric] Let_def
    using v l m w s_eq by (simp add: result_simps inputs_valid_def inputs_need_def inputs_fixed_def mult.commute)
  with s(2) show ?thesis by simp
qed


section \<open>Phases\<close>

definition phase_common :: "ordinary_path_estimate \<Rightarrow> nat" where
  "phase_common e = direct_wire_payload_bytes e + expert_stream_payload_at_ceiling_bytes e
     + expert_storage_metadata_reserve_bytes e + uncounted_core_reserve_bytes e
     + driver_allocator_allowance_bytes e"

text \<open>The bytes a phase holds, as its components add up.\<close>

fun phase_bytes :: "ordinary_path_estimate \<Rightarrow> memory_phase \<Rightarrow> nat" where
  "phase_bytes e Startup =
     phase_common e + combined_component_bytes (startup_workspace_across_candidates e)"
| "phase_bytes e EngineConstruction =
     phase_common e + prefill_workspace_requested_bytes e
     + expert_reader_workspace_across_candidates_bytes e"
| "phase_bytes e Serving =
     phase_common e + prefill_workspace_requested_bytes e + fixed_session_logical_bytes e
     + growing_session_logical_bytes e + vec_spare_growth_overlap_reserve_bytes e
     + prefix_retained_budget_bytes e + snapshot_capture_restore_overlap_reserve_bytes e
     + combined_component_bytes (runtime_workspace_across_candidates e)"

lemma phase_component_sums_Inr:
  "phase_component_sums e = Inr phases \<Longrightarrow>
     phases = [(Startup, phase_bytes e Startup), (EngineConstruction, phase_bytes e EngineConstruction),
       (Serving, phase_bytes e Serving)]"
  by (auto simp: phase_component_sums_def result_simps phase_common_def)

lemma expert_le_phase_bytes: "expert_stream_payload_at_ceiling_bytes e \<le> phase_bytes e ph"
  by (cases ph) (simp_all add: phase_common_def)

declare phase_bytes.simps [simp del]

text \<open>An estimate whose recorded peaks are those of its components.\<close>

definition estimate_wf :: "ordinary_path_estimate \<Rightarrow> bool" where
  "estimate_wf e \<longleftrightarrow> (\<exists>phases. phase_component_sums e = Inr phases \<and> phase_peaks_match phases e)"

lemma estimate_wf_peaks:
  assumes "estimate_wf e"
  shows "startup_phase_peak_bytes e = phase_bytes e Startup"
    and "engine_construction_phase_peak_bytes e = phase_bytes e EngineConstruction"
    and "serving_phase_peak_bytes e = phase_bytes e Serving"
    and "accounted_component_sum_bytes e = phase_bytes e (limiting_phase e)"
    and "phase_bytes e ph \<le> accounted_component_sum_bytes e"
proof -
  obtain phases where ph: "phase_component_sums e = Inr phases" "phase_peaks_match phases e"
    using assms by (auto simp: estimate_wf_def)
  note p = phase_component_sums_Inr [OF ph(1)]
  from ph(2) have m: "[phase_bytes e Startup, phase_bytes e EngineConstruction, phase_bytes e Serving]
      = [startup_phase_peak_bytes e, engine_construction_phase_peak_bytes e, serving_phase_peak_bytes e]"
    and l: "largest_phase [(Startup, phase_bytes e Startup), (EngineConstruction, phase_bytes e EngineConstruction),
        (Serving, phase_bytes e Serving)] = (limiting_phase e, accounted_component_sum_bytes e)"
    unfolding phase_peaks_match_def p list.map snd_conv by (rule conjunct1, rule conjunct2)
  show "startup_phase_peak_bytes e = phase_bytes e Startup"
    "engine_construction_phase_peak_bytes e = phase_bytes e EngineConstruction"
    "serving_phase_peak_bytes e = phase_bytes e Serving"
    using m by simp_all
  show "accounted_component_sum_bytes e = phase_bytes e (limiting_phase e)"
    "phase_bytes e ph \<le> accounted_component_sum_bytes e"
    using l unfolding largest_phase_def
    by (cases ph; simp split: if_splits)+
qed

lemma refresh_phase_peaks_wf: "refresh_phase_peaks e = Inr e' \<Longrightarrow> estimate_wf e'"
proof -
  assume r: "refresh_phase_peaks e = Inr e'"
  then obtain phases where ph: "phase_component_sums e = Inr phases"
    and e': "e' = e \<lparr> startup_phase_peak_bytes := snd (phases ! 0),
              engine_construction_phase_peak_bytes := snd (phases ! 1),
              serving_phase_peak_bytes := snd (phases ! 2),
              limiting_phase := fst (largest_phase phases),
              accounted_component_sum_bytes := snd (largest_phase phases) \<rparr>"
    by (auto simp: refresh_phase_peaks_def result_simps)
  have "phase_component_sums e' = phase_component_sums e" unfolding e' by (simp add: phase_component_sums_def)
  moreover have "phase_peaks_match phases e'"
    using phase_component_sums_Inr [OF ph] unfolding e' by (simp add: phase_peaks_match_def)
  ultimately show ?thesis using ph by (auto simp: estimate_wf_def)
qed

lemma estimate_wf_estimate:
  "estimate_ordinary_path_with_metadata_capacity fp input rows m = Inr e \<Longrightarrow> estimate_wf e"
  unfolding estimate_ordinary_path_with_metadata_capacity_def
  by (auto simp only: result_simps intro: refresh_phase_peaks_wf)


lemma refresh_phase_peaks_frame:
  assumes "refresh_phase_peaks e = Inr e'"
  shows "expert_stream_payload_at_ceiling_bytes e' = expert_stream_payload_at_ceiling_bytes e"
    and "expert_storage_metadata_reserve_bytes e' = expert_storage_metadata_reserve_bytes e"
    and "prefill_workspace_requested_bytes e' = prefill_workspace_requested_bytes e"
    and "runtime_workspace_across_candidates e' = runtime_workspace_across_candidates e"
    and "runtime_metal_requested_upper_bytes e' = runtime_metal_requested_upper_bytes e"
    and "vec_spare_growth_overlap_reserve_bytes e' = vec_spare_growth_overlap_reserve_bytes e"
    and "growing_session_logical_bytes e' = growing_session_logical_bytes e"
    and "driver_allocator_allowance_bytes e' = driver_allocator_allowance_bytes e"
  using assms by (auto simp: refresh_phase_peaks_def result_simps)

lemma estimate_fields:
  assumes "estimate_ordinary_path_with_metadata_capacity fp input rows m = Inr e"
  shows "packed_expert_bytes_at_capacity fp (in_candidate_slot_ceiling input)
      = Inr (expert_stream_payload_at_ceiling_bytes e)"
    and "expert_storage_metadata_bytes fp m = Inr (expert_storage_metadata_reserve_bytes e)"
    and "native_prefill_workspace_bytes_for_capacity (in_context_limit input) rows
      = Inr (prefill_workspace_requested_bytes e)"
    and "in_vec_overlap_reserve_bytes input = Some (vec_spare_growth_overlap_reserve_bytes e)"
    and "length (fp_expert_layers fp) = 48"
    and "\<exists>g. growing_session_payload_at_frontier fp (in_context_limit input) = Inr g
       \<and> total_logical_bytes g = growing_session_logical_bytes e"
    and "\<exists>row c. list_max (map packed_bytes_per_slot (fp_expert_layers fp)) = Some row
       \<and> scan_runtime (vec_spare_growth_overlap_reserve_bytes e) row (in_max_prefill_rows input)
           (in_candidate_slot_ceiling input)
         = Inr (runtime_metal_requested_upper_bytes e, Some (runtime_workspace_across_candidates e), c)"
  using assms unfolding estimate_ordinary_path_with_metadata_capacity_def
    native_prefill_workspace_bytes_def
  by (fastforce simp: result_simps refresh_phase_peaks_frame DEFAULT_ROWS_def
      dest: refresh_phase_peaks_frame split: if_splits)+


lemma packed_expert_bytes_at_capacity_Inr:
  "packed_expert_bytes_at_capacity fp c = Inr n \<longleftrightarrow>
     10 \<le> c \<and> c \<le> max_expert_slots fp \<and> n = packed_expert_bytes_per_uniform_slot fp * c
     \<and> packed_expert_bytes_per_uniform_slot fp * c < u64_limit
     \<and> packed_expert_bytes_per_uniform_slot fp < u64_limit"
  by (auto simp: packed_expert_bytes_at_capacity_def result_simps)

definition estimate_inputs :: "ordinary_path_estimate \<Rightarrow> nat \<Rightarrow> nat \<Rightarrow> nat \<Rightarrow> nat \<Rightarrow> capacity_inputs" where
  "estimate_inputs e per_slot maximum process_budget user_limit =
     \<lparr> process_budget_bytes = process_budget, user_memory_limit_bytes = Some user_limit,
       fixed_nonexpert_bytes = accounted_component_sum_bytes e - expert_stream_payload_at_ceiling_bytes e,
       context_reserve_bytes = 0, bounded_workspace_bytes = Some 0,
       packed_expert_bytes_per_slot = per_slot, minimum_slots = 10, max_slots = maximum \<rparr>"

text \<open>The planner charges the limiting phase without the expert payload it shares with the others.\<close>

lemma plan_from_ordinary_Inr:
  assumes "plan_from_ordinary_estimate e per maximum pb ul = Inr plan"
  shows "estimate_wf e" and "plan_capacity (estimate_inputs e per maximum pb ul) = Inr plan"
proof -
  let ?x = "expert_stream_payload_at_ceiling_bytes e"
  from assms obtain phases nonexpert where ph: "phase_component_sums e = Inr phases"
    and m: "phase_peaks_match phases e"
    and f: "try_fold (\<lambda>nonexpert phase.
        bindr (ok_or (checked_sub (snd phase) ?x)
          ''expert payload exceeds ordinary phase peak'') (\<lambda>bytes. Inr (max nonexpert bytes))) 0 phases
        = Inr nonexpert"
    and pl: "plan_capacity \<lparr> process_budget_bytes = pb, user_memory_limit_bytes = Some ul,
          fixed_nonexpert_bytes = nonexpert, context_reserve_bytes = 0,
          bounded_workspace_bytes = Some 0, packed_expert_bytes_per_slot = per,
          minimum_slots = 10, max_slots = maximum \<rparr> = Inr plan"
    unfolding plan_from_ordinary_estimate_def by (auto simp: result_simps)
  show wf: "estimate_wf e" using ph m by (auto simp: estimate_wf_def)
  note p = phase_component_sums_Inr [OF ph] and w = estimate_wf_peaks [OF wf]
  have "nonexpert = max (max (phase_bytes e Startup - ?x) (phase_bytes e EngineConstruction - ?x))
      (phase_bytes e Serving - ?x)"
    using f unfolding p by (auto simp: result_simps rust_arith)
  moreover have "accounted_component_sum_bytes e = phase_bytes e Startup
     \<or> accounted_component_sum_bytes e = phase_bytes e EngineConstruction
     \<or> accounted_component_sum_bytes e = phase_bytes e Serving"
    using w(4) by (cases "limiting_phase e") simp_all
  ultimately have "nonexpert = accounted_component_sum_bytes e - ?x"
    using w(5) [of Startup] w(5) [of EngineConstruction] w(5) [of Serving] by linarith
  with pl show "plan_capacity (estimate_inputs e per maximum pb ul) = Inr plan"
    by (simp add: estimate_inputs_def)
qed

text \<open>A phase's bytes with \<open>n\<close> slots instead of the ceiling's.\<close>

definition phase_bytes_at :: "ordinary_path_estimate \<Rightarrow> memory_phase \<Rightarrow> nat \<Rightarrow> nat \<Rightarrow> nat" where
  "phase_bytes_at e ph per n = phase_bytes e ph - expert_stream_payload_at_ceiling_bytes e + n * per"

lemma inputs_need_estimate:
  assumes "estimate_wf e"
  shows "inputs_need (estimate_inputs e per maximum pb ul) n \<le> b \<longleftrightarrow> (\<forall>ph. phase_bytes_at e ph per n \<le> b)"
proof -
  note w = estimate_wf_peaks [OF assms]
  have n: "inputs_need (estimate_inputs e per maximum pb ul) n = phase_bytes_at e (limiting_phase e) per n"
    by (simp add: inputs_need_def inputs_fixed_def estimate_inputs_def phase_bytes_at_def w(4))
  have "phase_bytes_at e ph per n \<le> phase_bytes_at e (limiting_phase e) per n" for ph
    using w(5) [of ph] by (simp add: phase_bytes_at_def w(4) diff_le_mono)
  then show ?thesis unfolding n by (meson le_trans)
qed

lemma inputs_budget_estimate: "inputs_budget (estimate_inputs e per maximum pb ul) = min pb ul"
  by (simp add: inputs_budget_def estimate_inputs_def)

lemma plan_from_ordinary_largest:
  assumes "plan_from_ordinary_estimate e per maximum pb ul = Inr plan"
  shows "10 \<le> slots plan" and "slots plan \<le> maximum" and "maximum \<le> 512" and "0 < per"
    and "n \<le> slots plan \<longleftrightarrow> n \<le> maximum \<and> (\<forall>ph. phase_bytes_at e ph per n \<le> min pb ul)"
    and "plan_budget_bytes plan = min pb ul"
    and "accounted_peak_bytes plan = phase_bytes_at e (limiting_phase e) per (slots plan)"
    and "remaining_budget_bytes plan = min pb ul - accounted_peak_bytes plan"
    and "accounted_peak_bytes plan \<le> min pb ul"
proof -
  note p = plan_from_ordinary_Inr [OF assms]
  note l = plan_capacity_largest [OF p(2)]
  have i: "max_slots (estimate_inputs e per maximum pb ul) = maximum"
    "minimum_slots (estimate_inputs e per maximum pb ul) = 10"
    "packed_expert_bytes_per_slot (estimate_inputs e per maximum pb ul) = per"
    by (simp_all add: estimate_inputs_def)
  note b = inputs_budget_estimate [of e per maximum pb ul]
  show m: "n \<le> slots plan \<longleftrightarrow> n \<le> maximum \<and> (\<forall>ph. phase_bytes_at e ph per n \<le> min pb ul)" for n
    unfolding l i inputs_need_estimate [OF p(1)] b ..
  note pc = plan_capacity_Inr [OF p(2), unfolded i b]
  show "10 \<le> slots plan" using pc(1,2) unfolding l i b by (simp add: inputs_valid_def i)
  show s: "slots plan \<le> maximum" using m [of "slots plan"] by simp
  show "maximum \<le> 512" "0 < per" using pc(1) by (simp_all add: inputs_valid_def i)
  show "plan_budget_bytes plan = min pb ul" by (subst pc(3)) simp
  show a: "accounted_peak_bytes plan = phase_bytes_at e (limiting_phase e) per (slots plan)"
    using estimate_wf_peaks(4) [OF p(1)]
    by (subst pc(3)) (simp add: inputs_need_def inputs_fixed_def estimate_inputs_def phase_bytes_at_def)
  show "remaining_budget_bytes plan = min pb ul - accounted_peak_bytes plan"
    by (subst (1 2) pc(3)) simp
  show "accounted_peak_bytes plan \<le> min pb ul" using m [of "slots plan"] unfolding a by simp
qed

lemma plan_ordinary_cases:
  assumes "plan_ordinary_capacity_with_cache_budgets fp ctx pb ul ov pre disk = Inr (e, plan)"
  obtains (full) "admission_estimate fp ctx ov pre disk 512 True = Inr e" "slots plan = 512"
      "plan_from_ordinary_estimate e (packed_expert_bytes_per_uniform_slot fp) 512 pb ul = Inr plan"
    | (bounded) "admission_estimate fp ctx ov pre disk 511 False = Inr e" "slots plan < 512"
      "plan_from_ordinary_estimate e (packed_expert_bytes_per_uniform_slot fp) 511 pb ul = Inr plan"
proof -
  let ?per = "packed_expert_bytes_per_uniform_slot fp"
  from assms obtain full where f: "admission_estimate fp ctx ov pre disk 512 True = Inr full"
    and r: "(if accounted_component_sum_bytes full \<le> min pb ul then
        bindr (plan_from_ordinary_estimate full ?per 512 pb ul) (\<lambda>plan. Inr (full, plan))
      else
        bindr (admission_estimate fp ctx ov pre disk 511 False) (\<lambda>e.
        bindr (plan_from_ordinary_estimate e ?per 511 pb ul) (\<lambda>plan. Inr (e, plan)))) = Inr (e, plan)"
    unfolding plan_ordinary_capacity_with_cache_budgets_def by (auto simp only: result_simps)
  show thesis
  proof (cases "accounted_component_sum_bytes full \<le> min pb ul")
    case True
    with r have p: "plan_from_ordinary_estimate e ?per 512 pb ul = Inr plan" "full = e"
      by (auto simp: result_simps)
    note l = plan_from_ordinary_largest [OF p(1)]
    have x: "expert_stream_payload_at_ceiling_bytes e = ?per * 512"
      using f p(2) estimate_fields(1) unfolding admission_estimate_def
      by (fastforce simp: result_simps packed_expert_bytes_at_capacity_Inr)
    have "phase_bytes_at e ph ?per 512 \<le> min pb ul" for ph
      using True p(2) estimate_wf_peaks(5) [OF plan_from_ordinary_Inr(1) [OF p(1)], of ph]
        expert_le_phase_bytes [of e ph] by (simp add: phase_bytes_at_def x)
    then have "512 \<le> slots plan" using l(5) [of 512] by simp
    with l(2) have "slots plan = 512" by simp
    with full f p show thesis by simp
  next
    case False
    with r have p: "admission_estimate fp ctx ov pre disk 511 False = Inr e"
      "plan_from_ordinary_estimate e ?per 511 pb ul = Inr plan"
      by (auto simp: result_simps)
    with bounded plan_from_ordinary_largest(2) [OF p(2)] show thesis by simp
  qed
qed


end
