(* ===== verification/Memory_Estimate.thy ===== *)
theory Memory_Estimate
  imports Memory_Admission
begin

text \<open>
  The estimate is an upper bound: its scan covers every execution stage of every legal width and
  pool size, its reserves cover the session at every earlier frontier, and a wider prefill tier is
  only admitted when every phase still fits the same budget.
\<close>

section \<open>The runtime scan bounds every stage\<close>

definition stage_covered :: "nat \<Rightarrow> nat \<times> workspace_bytes option \<Rightarrow> workspace_bytes \<Rightarrow> bool" where
  "stage_covered vec acc s \<longleftrightarrow> metal_requested_bytes s + vec \<le> fst acc
     \<and> (\<exists>w. snd acc = Some w \<and> combined_component_bytes s \<le> combined_component_bytes w)"

text \<open>An accumulator that has seen more covers more.\<close>

definition acc_le :: "nat \<times> workspace_bytes option \<Rightarrow> nat \<times> workspace_bytes option \<Rightarrow> bool" where
  "acc_le a b \<longleftrightarrow> fst a \<le> fst b
     \<and> (\<forall>w. snd a = Some w \<longrightarrow> (\<exists>v. snd b = Some v \<and> combined_component_bytes w \<le> combined_component_bytes v))"

lemma acc_le_refl [simp]: "acc_le a a" by (simp add: acc_le_def)

lemma acc_le_trans: "acc_le a b \<Longrightarrow> acc_le b c \<Longrightarrow> acc_le a c"
  unfolding acc_le_def by (meson le_trans)

lemma stage_covered_mono: "stage_covered vec a s \<Longrightarrow> acc_le a b \<Longrightarrow> stage_covered vec b s"
  unfolding stage_covered_def acc_le_def by (meson le_trans)

lemma scan_stage_covers:
  assumes "scan_stage vec a s = Inr b"
  shows "stage_covered vec b s" "acc_le a b"
  using assms by (cases "snd a"; auto simp: scan_stage_def result_simps stage_covered_def acc_le_def
      keep_larger_def larger_def)+

lemma scan_stages_covers:
  "try_fold (scan_stage vec) a stages = Inr b \<Longrightarrow> acc_le a b \<and> (\<forall>s\<in>set stages. stage_covered vec b s)"
proof (induction stages arbitrary: a)
  case (Cons s stages)
  then obtain c where c: "scan_stage vec a s = Inr c" "try_fold (scan_stage vec) c stages = Inr b"
    by (auto simp: result_simps)
  with Cons.IH [OF c(2)] scan_stage_covers [OF c(1)] show ?case
    using acc_le_trans stage_covered_mono by auto
qed simp

definition rows_covered :: "nat \<Rightarrow> nat \<Rightarrow> nat \<Rightarrow> nat \<times> workspace_bytes option \<Rightarrow> nat \<Rightarrow> bool" where
  "rows_covered vec row cap acc r \<longleftrightarrow>
     (\<exists>stages. runtime_workspaces r cap row = Inr stages \<and> (\<forall>s\<in>set stages. stage_covered vec acc s))"

lemma rows_covered_mono: "rows_covered vec row cap a r \<Longrightarrow> acc_le a b \<Longrightarrow> rows_covered vec row cap b r"
  unfolding rows_covered_def using stage_covered_mono by blast

lemma scan_rows_covers:
  "try_fold (scan_rows vec row cap) a rs = Inr b \<Longrightarrow> acc_le a b \<and> (\<forall>r\<in>set rs. rows_covered vec row cap b r)"
proof (induction rs arbitrary: a)
  case (Cons r rs)
  then obtain c where r: "scan_rows vec row cap a r = Inr c" and rest: "try_fold (scan_rows vec row cap) c rs = Inr b"
    by (auto simp: result_simps)
  then obtain stages where c: "runtime_workspaces r cap row = Inr stages"
    "try_fold (scan_stage vec) a stages = Inr c" "try_fold (scan_rows vec row cap) c rs = Inr b"
    unfolding scan_rows_def result_simps by blast
  have "rows_covered vec row cap c r" using c(1) scan_stages_covers [OF c(2)] by (auto simp: rows_covered_def)
  moreover have "acc_le c b" using Cons.IH [OF c(3)] by simp
  moreover have "acc_le a b" using acc_le_trans calculation(2) scan_stages_covers [OF c(2)] by blast
  ultimately show ?case using Cons.IH [OF c(3)] rows_covered_mono [of vec row cap c r b] by simp
qed simp

lemma scan_capacity_covers:
  assumes "scan_capacity vec row mx ceil (m, ac, at) cap = Inr (m', ac', at')"
  shows "acc_le (m, ac) (m', ac')" and "\<forall>r\<in>{1..mx}. rows_covered vec row cap (m', ac') r"
    and "ac' \<noteq> None"
proof -
  from assms obtain n w where s: "try_fold (scan_rows vec row cap) (m, None) [1..<Suc mx] = Inr (n, Some w)"
    and r: "m' = n" "ac' = keep_larger ac w"
    by (auto simp: scan_capacity_def result_simps)
  note c = scan_rows_covers [OF s]
  have le: "acc_le (n, Some w) (m', ac')" "acc_le (m, ac) (m', ac')"
    using c r by (cases ac; simp add: acc_le_def keep_larger_def larger_def)+
  then show "acc_le (m, ac) (m', ac')" by simp
  have "set [1..<Suc mx] = {1..mx}" by auto
  with c le(1) rows_covered_mono show "\<forall>r\<in>{1..mx}. rows_covered vec row cap (m', ac') r" by blast
  show "ac' \<noteq> None" by (simp add: r keep_larger_def)
qed

lemma scan_capacities_cover:
  "try_fold (scan_capacity vec row mx ceil) (m, ac, at) caps = Inr (m', ac', at') \<Longrightarrow>
     acc_le (m, ac) (m', ac') \<and> (\<forall>c\<in>set caps. \<forall>r\<in>{1..mx}. rows_covered vec row c (m', ac') r)"
proof (induction caps arbitrary: m ac "at")
  case (Cons c caps)
  then obtain n bc bt where c: "scan_capacity vec row mx ceil (m, ac, at) c = Inr (n, bc, bt)"
    "try_fold (scan_capacity vec row mx ceil) (n, bc, bt) caps = Inr (m', ac', at')"
    by (auto simp: result_simps)
  note s = scan_capacity_covers [OF c(1)] and ih = Cons.IH [OF c(2)]
  have "acc_le (m, ac) (m', ac')" using s(1) ih acc_le_trans by blast
  moreover have "\<forall>r\<in>{1..mx}. rows_covered vec row c (m', ac') r" using s(2) ih rows_covered_mono by blast
  ultimately show ?case using ih by simp
qed simp

lemma scan_runtime_covers:
  assumes "scan_runtime vec row mx ceil = Inr (metal, Some w, at)" "10 \<le> cap" "cap \<le> ceil" "1 \<le> r" "r \<le> mx"
  shows "rows_covered vec row cap (metal, Some w) r"
proof -
  have "cap \<in> set [10..<Suc ceil]" "r \<in> {1..mx}" using assms(2-) by auto
  with scan_capacities_cover [OF assms(1) [unfolded scan_runtime_def]] show ?thesis by blast
qed

section \<open>The growing session stays within its reserve\<close>

lemma mem_mul3_eq: "mem_mul [a, b, c] = Inr n \<Longrightarrow> n = a * b * c"
  by (drule mem_mul_Inr) simp

lemma mem_mul4_eq: "mem_mul [a, b, c, d] = Inr n \<Longrightarrow> n = a * b * c * d"
  by (drule mem_mul_Inr) simp

lemma growing_session_payload_fields:
  assumes "growing_session_payload f m layers = Inr g"
  shows "f \<le> m" and "kvarn_record_tiles_per_qsa_layer g = record_tiles f"
    and "qsa_index_complete_groups_per_layer g = f div 4"
    and "total_logical_bytes g = layers * record_tiles f * TILE_RECORD_BYTES
      + layers * (f div 4) * 256 + layers * (f mod 4) * 256"
proof -
  from assms obtain r c p where "f \<le> m"
    "mem_mul [layers, record_tiles f, TILE_RECORD_BYTES] = Inr r"
    "mem_mul [layers, f div 4, INDEX_WIDTH, 2] = Inr c"
    "mem_mul [layers, f mod 4, INDEX_WIDTH, 2] = Inr p"
    "kvarn_record_tiles_per_qsa_layer g = record_tiles f"
    "qsa_index_complete_groups_per_layer g = f div 4"
    "total_logical_bytes g = r + c + p"
    unfolding growing_session_payload_def record_tiles_def Let_def COMPRESS_RATIO_def
    by (auto simp: result_simps)
  then show "f \<le> m" "kvarn_record_tiles_per_qsa_layer g = record_tiles f"
    "qsa_index_complete_groups_per_layer g = f div 4"
    "total_logical_bytes g = layers * record_tiles f * TILE_RECORD_BYTES
      + layers * (f div 4) * 256 + layers * (f mod 4) * 256"
    by (auto dest!: mem_mul3_eq mem_mul4_eq simp: INDEX_WIDTH_def)
qed

lemma growing_session_bounded:
  assumes "growing_session_payload f m layers = Inr g" "growing_session_payload c m layers = Inr h" "f \<le> c"
  shows "total_logical_bytes g \<le> total_logical_bytes h + layers * QSA_DEVICE_INDEX_FIXED_CAPACITY_BYTES"
proof -
  have "layers * record_tiles f * TILE_RECORD_BYTES \<le> layers * record_tiles c * TILE_RECORD_BYTES"
    using record_tiles_mono [OF assms(3)] by simp
  moreover have "layers * (f div 4) * 256 \<le> layers * (c div 4) * 256"
    using div_le_mono [OF assms(3)] by simp
  moreover have "layers * (f mod 4) * 256 \<le> layers * ((4 + 1) * 128 * 2)"
    unfolding mult.assoc using mod_less_divisor [of 4 f] by (intro mult_le_mono) simp_all
  moreover have "a \<le> a' \<Longrightarrow> b \<le> b' \<Longrightarrow> p \<le> d \<Longrightarrow> a + b + p \<le> a' + b' + c' + d" for a b p a' b' c' d :: nat
    by linarith
  ultimately show ?thesis
    unfolding growing_session_payload_fields(4) [OF assms(1)] growing_session_payload_fields(4) [OF assms(2)]
      QSA_DEVICE_INDEX_FIXED_CAPACITY_BYTES_def COMPRESS_RATIO_def INDEX_WIDTH_def
    by blast
qed

lemma ordinary_vec_overlap_covers:
  assumes "ordinary_vec_overlap_at_context fp ctx full = Inr v"
  shows "qsa_layers fp * QSA_DEVICE_INDEX_FIXED_CAPACITY_BYTES \<le> v"
  using assms by (auto simp: ordinary_vec_overlap_at_context_def Let_def result_simps)

lemma admission_covers_session:
  assumes "admission_estimate fp ctx ov pre disk c full = Inr e"
    and "growing_session_payload_at_frontier fp f = Inr g" "f \<le> ctx"
  shows "total_logical_bytes g \<le> growing_session_logical_bytes e + vec_spare_growth_overlap_reserve_bytes e"
proof -
  obtain v input where v: "ordinary_vec_overlap_at_context fp ctx full = Inr v"
    and e: "estimate_ordinary_path_with_metadata_capacity fp input DEFAULT_ROWS c = Inr e"
    and i: "in_context_limit input = ctx" "in_vec_overlap_reserve_bytes input = Some v"
    using assms(1) unfolding admission_estimate_def by (fastforce simp: result_simps)
  obtain h where h: "growing_session_payload_at_frontier fp ctx = Inr h"
    "total_logical_bytes h = growing_session_logical_bytes e"
    using estimate_fields(6) [OF e] i by auto
  have "vec_spare_growth_overlap_reserve_bytes e = v" using estimate_fields(4) [OF e] i by simp
  with growing_session_bounded [of f "max_context_tokens fp" "qsa_layers fp" g ctx h]
    ordinary_vec_overlap_covers [OF v] h assms(2,3)
  show ?thesis by (simp add: growing_session_payload_at_frontier_def)
qed

section \<open>Upgrading the prefill width\<close>

text \<open>What every admitted tier keeps: all phases fit the same budget.\<close>

definition tier_ok :: "nat \<Rightarrow> capacity_plan \<Rightarrow> ordinary_path_estimate \<times> capacity_plan \<times> nat \<Rightarrow> bool" where
  "tier_ok per plan0 acc \<longleftrightarrow> (case acc of (e, plan, rows) \<Rightarrow>
     plan_budget_bytes plan = plan_budget_bytes plan0 \<and> slots plan \<le> slots plan0
     \<and> (slots plan0 = 512 \<longrightarrow> slots plan = 512)
     \<and> accounted_peak_bytes plan \<le> plan_budget_bytes plan
     \<and> remaining_budget_bytes plan = plan_budget_bytes plan - accounted_peak_bytes plan
     \<and> (\<forall>ph. phase_bytes_at e ph per (slots plan) \<le> plan_budget_bytes plan))"

lemma finish_upgrade_ok:
  assumes ok: "tier_ok per plan0 (e, plan, rows)"
    and w: "wide = estimate_ordinary_path_with_metadata_capacity fp input wider (slots plan)"
    and i: "in_candidate_slot_ceiling input = slots plan" and per: "per = packed_expert_bytes_per_uniform_slot fp"
    and f: "finish_optional_prefill_upgrade e plan rows wide wider per = (e', plan', rows')"
  shows "tier_ok per plan0 (e', plan', rows')"
    and "(e', plan', rows') = (e, plan, rows) \<or> rows' = wider \<and> 64 \<le> slots plan'"
proof -
  have "tier_ok per plan0 (e', plan', rows')
    \<and> ((e', plan', rows') = (e, plan, rows) \<or> rows' = wider \<and> 64 \<le> slots plan')"
  proof (cases wide)
    case (Inl m)
    with f ok show ?thesis by (simp add: finish_optional_prefill_upgrade_def)
  next
    case (Inr v)
    note est = w [symmetric, unfolded Inr]
    have vwf: "estimate_wf v" using est by (rule estimate_wf_estimate)
    have x: "expert_stream_payload_at_ceiling_bytes v = per * slots plan"
      using estimate_fields(1) [OF est] i per by (simp add: packed_expert_bytes_at_capacity_Inr)
    show ?thesis
    proof (cases "slots plan = 512")
      case True
      show ?thesis
      proof (cases "plan_budget_bytes plan < accounted_component_sum_bytes v")
        case True
        with f ok Inr \<open>slots plan = 512\<close> show ?thesis by (simp add: finish_optional_prefill_upgrade_def)
      next
        case False
        have "phase_bytes_at v ph per 512 \<le> plan_budget_bytes plan" for ph
          using estimate_wf_peaks(5) [OF vwf, of ph] expert_le_phase_bytes [of v ph] False True
          by (simp add: phase_bytes_at_def x)
        with f ok Inr True False show ?thesis
          by (auto simp: finish_optional_prefill_upgrade_def tier_ok_def)
      qed
    next
      case False
      show ?thesis
      proof (cases "plan_from_ordinary_estimate v per (slots plan) (plan_budget_bytes plan) (plan_budget_bytes plan)")
        case (Inl m)
        with f ok Inr False show ?thesis by (simp add: finish_optional_prefill_upgrade_def)
      next
        case (Inr q)
        note l = plan_from_ordinary_largest [OF Inr]
        have q: "\<forall>ph. phase_bytes_at v ph per (slots q) \<le> plan_budget_bytes plan"
          using l(5) [of "slots q"] by simp
        have f': "(e', plan', rows') = (if slots q < 64 then (e, plan, rows) else (v, q, wider))"
          using f \<open>wide = Inr v\<close> Inr False by (simp add: finish_optional_prefill_upgrade_def)
        show ?thesis
        proof (cases "slots q < 64")
          case True
          with f' ok show ?thesis by simp
        next
          case ge: False
          have "tier_ok per plan0 (v, q, wider)"
            using ok l(2,6,8,9) q False by (auto simp: tier_ok_def)
          with f' ge show ?thesis by simp
        qed
      qed
    qed
  qed
  then show "tier_ok per plan0 (e', plan', rows')"
    "(e', plan', rows') = (e, plan, rows) \<or> rows' = wider \<and> 64 \<le> slots plan'" by simp_all
qed

lemma upgrade_tiers_ok:
  assumes "tier_ok (packed_expert_bytes_per_uniform_slot fp) plan0 acc"
    and "upgrade_tiers fp ctx requested tiers acc = (e', plan', rows')"
  shows "tier_ok (packed_expert_bytes_per_uniform_slot fp) plan0 (e', plan', rows')
    \<and> (rows' = snd (snd acc) \<and> slots plan' = slots (fst (snd acc))
       \<or> rows' \<in> set tiers \<and> rows' \<le> requested \<and> 64 \<le> slots plan')"
  using assms
proof (induction tiers arbitrary: acc)
  case Nil
  then show ?case by (cases acc) auto
next
  case (Cons wider tiers)
  obtain e plan rows where acc: "acc = (e, plan, rows)" by (cases acc)
  show ?case
  proof (cases "requested < wider")
    case True
    with Cons.prems acc show ?thesis by simp
  next
    case False
    let ?in = "\<lparr> in_context_limit = ctx, in_max_prefill_rows = min ctx wider,
                in_candidate_slot_ceiling = slots plan,
                in_uncounted_core_reserve_bytes = uncounted_core_reserve_bytes e,
                in_vec_overlap_reserve_bytes = Some (vec_spare_growth_overlap_reserve_bytes e),
                in_prefix_retained_budget_bytes = prefix_retained_budget_bytes e,
                in_snapshot_overlap_reserve_bytes = Some (snapshot_capture_restore_overlap_reserve_bytes e),
                in_driver_allowance_bytes = driver_allocator_allowance_bytes e \<rparr>"
    obtain e1 plan1 rows1 where u: "finish_optional_prefill_upgrade e plan rows
        (estimate_ordinary_path_with_metadata_capacity fp ?in wider (slots plan)) wider
        (packed_expert_bytes_per_uniform_slot fp) = (e1, plan1, rows1)"
      by (cases "finish_optional_prefill_upgrade e plan rows
        (estimate_ordinary_path_with_metadata_capacity fp ?in wider (slots plan)) wider
        (packed_expert_bytes_per_uniform_slot fp)")
    note f = finish_upgrade_ok [OF Cons.prems(1) [unfolded acc] refl _ refl u]
    have ok: "tier_ok (packed_expert_bytes_per_uniform_slot fp) plan0 (e1, plan1, rows1)"
      and c: "(e1, plan1, rows1) = (e, plan, rows) \<or> rows1 = wider \<and> 64 \<le> slots plan1"
      by (rule f; simp)+
    have r: "(if rows1 \<noteq> wider then (e1, plan1, rows1) else upgrade_tiers fp ctx requested tiers (e1, plan1, rows1))
        = (e', plan', rows')"
      using Cons.prems(2) False by (simp only: acc upgrade_tiers.simps Let_def u if_False snd_conv)
    show ?thesis
    proof (cases "rows1 = wider")
      case True
      with r have "upgrade_tiers fp ctx requested tiers (e1, plan1, rows1) = (e', plan', rows')" by simp
      from Cons.IH [OF ok this] c True False acc show ?thesis by auto
    next
      case ne: False
      with r c ok acc show ?thesis by auto
    qed
  qed
qed

end
