(* ===== verification/Memory_Envelope.thy ===== *)
theory Memory_Envelope
  imports Memory_Admission
begin

text \<open>
  The control budget keeps the admission: it accepts every bounded admission, its operating
  envelope leaves room for every capacity of its extent, and a recovery's headroom covers the slots
  added and the replacement tables.
\<close>

section \<open>The admission carries over to the control budget\<close>

lemma expert_storage_metadata_bounded:
  assumes "expert_storage_metadata_bytes fp m = Inr n" "length (fp_expert_layers fp) = 48"
    "max_expert_slots fp = 512" "10 \<le> s" "s < 512" "m < 512"
  shows "expert_storage_metadata_bytes fp s = Inr n" "n = 73588 * 48"
  using assms by (auto simp: expert_storage_metadata_bytes_def result_simps mem_mul_def checked_mul_def
      mem_add_def checked_add_def u64_limit_def)

lemma admission_estimate_fields:
  assumes "admission_estimate fp ctx ov pre disk c full = Inr e"
  shows "estimate_wf e" and "length (fp_expert_layers fp) = 48"
    and "packed_expert_bytes_at_capacity fp c = Inr (expert_stream_payload_at_ceiling_bytes e)"
    and "expert_storage_metadata_bytes fp c = Inr (expert_storage_metadata_reserve_bytes e)"
  using assms estimate_wf_estimate estimate_fields(1,2,5) unfolding admission_estimate_def
  by (fastforce simp: result_simps)+

lemma from_admission_accepts:
  assumes adm: "plan_ordinary_capacity_with_cache_budgets fp ctx pb ul ov pre disk = Inr (e, plan)"
    and s: "slots plan < 512"
  shows "\<exists>b. from_admission fp e plan = Inr b
    \<and> b_initial_capacity b = slots plan \<and> b_maximum_capacity b = slots plan
    \<and> b_effective_budget_bytes b = min pb ul
    \<and> b_packed_expert_bytes_per_slot b = packed_expert_bytes_per_uniform_slot fp
    \<and> 0 < b_packed_expert_bytes_per_slot b
    \<and> b_initial_serving_peak_bytes b
        = phase_bytes_at e Serving (packed_expert_bytes_per_uniform_slot fp) (slots plan)
    \<and> b_initial_serving_peak_bytes b \<le> b_effective_budget_bytes b
    \<and> b_table_overlap_bytes b = 73584 * 48 \<and> \<not> b_operating_growth b"
  using adm
proof (cases rule: plan_ordinary_cases)
  case full
  with s show ?thesis by simp
next
  case bounded
  let ?per = "packed_expert_bytes_per_uniform_slot fp" and ?x = "expert_stream_payload_at_ceiling_bytes e"
  note f = admission_estimate_fields [OF bounded(1)]
  note l = plan_from_ordinary_largest [OF bounded(3)]
  note w = estimate_wf_peaks [OF f(1)]
  obtain phases where ph: "phase_component_sums e = Inr phases" "phase_peaks_match phases e"
    using f(1) by (auto simp: estimate_wf_def)
  have m512: "max_expert_slots fp = 512"
    using adm unfolding plan_ordinary_capacity_with_cache_budgets_def by (auto simp only: result_simps)
  have x: "?x = ?per * 511" "?per * 511 < u64_limit" "?per < u64_limit"
    using f(3) by (auto simp: packed_expert_bytes_at_capacity_Inr)
  have ps: "?per * slots plan \<le> ?x" using s unfolding x(1) by simp
  have lt: "?per * slots plan < u64_limit" using ps x(1,2) by linarith
  have sel: "packed_expert_bytes_at_capacity fp (slots plan) = Inr (?per * slots plan)"
    using s l(1) m512 x lt by (simp add: packed_expert_bytes_at_capacity_Inr)
  have md: "expert_storage_metadata_bytes fp (slots plan) = Inr (expert_storage_metadata_reserve_bytes e)"
    "expert_storage_metadata_reserve_bytes e = 73588 * 48"
    using expert_storage_metadata_bounded [OF f(4) f(2) m512 l(1) s] by simp_all
  have rd: "mem_mul [length (fp_expert_layers fp), 4] = Inr 192"
    by (simp add: f(2) mem_mul_def checked_mul_def u64_limit_def)
  have xa: "?x \<le> accounted_component_sum_bytes e" "?x \<le> serving_phase_peak_bytes e"
    using expert_le_phase_bytes [of e] by (simp_all add: w)
  have sub: "y - (?x - ?per * slots plan) = y - ?x + slots plan * ?per" if "?x \<le> y" for y
    using ps that by (simp add: mult.commute)
  have acc: "checked_sub (accounted_component_sum_bytes e) (?x - ?per * slots plan)
      = Some (accounted_peak_bytes plan)"
    using xa ps sub [OF xa(1)] l(7) w(4) by (simp add: checked_sub_def phase_bytes_at_def)
  have fit: "phase_bytes_at e Serving ?per (slots plan) \<le> min pb ul"
    using l(5) [of "slots plan"] by simp
  show ?thesis
    unfolding from_admission_def
    using s l ph sel ps acc md rd xa sub [OF xa(2)] fit w(3)
    by (simp add: checked_sub_def phase_bytes_at_def)
qed


section \<open>The operating envelope\<close>

text \<open>Serving commitments with \<open>c\<close> expert slots instead of the initial ones.\<close>

definition serving_peak_at :: "capacity_control_budget \<Rightarrow> nat \<Rightarrow> nat" where
  "serving_peak_at b c = b_initial_serving_peak_bytes b
     - b_packed_expert_bytes_per_slot b * b_initial_capacity b + b_packed_expert_bytes_per_slot b * c"

definition budget_wf :: "capacity_control_budget \<Rightarrow> bool" where
  "budget_wf b \<longleftrightarrow> 0 < b_packed_expert_bytes_per_slot b
     \<and> b_packed_expert_bytes_per_slot b * b_initial_capacity b \<le> b_initial_serving_peak_bytes b
     \<and> b_initial_serving_peak_bytes b \<le> b_effective_budget_bytes b
     \<and> 10 \<le> b_initial_capacity b \<and> b_initial_capacity b \<le> b_maximum_capacity b
     \<and> b_maximum_capacity b < 512
     \<and> (b_initial_capacity b < b_maximum_capacity b \<longrightarrow>
          serving_peak_at b (b_maximum_capacity b) + b_table_overlap_bytes b \<le> b_effective_budget_bytes b)"

lemma serving_peak_at_mono: "c \<le> d \<Longrightarrow> serving_peak_at b c \<le> serving_peak_at b d"
  by (simp add: serving_peak_at_def)

lemma serving_peak_at_growth:
  "c \<le> d \<Longrightarrow> serving_peak_at b d = serving_peak_at b c + b_packed_expert_bytes_per_slot b * (d - c)"
  by (simp add: serving_peak_at_def diff_mult_distrib2)

lemma serving_peak_at_initial:
  "budget_wf b \<Longrightarrow> serving_peak_at b (b_initial_capacity b) = b_initial_serving_peak_bytes b"
  by (simp add: serving_peak_at_def budget_wf_def)

text \<open>Every capacity in the extent keeps the serving commitments within the envelope.\<close>

lemma serving_peak_in_budget:
  assumes wf: "budget_wf b" and c: "c \<le> b_maximum_capacity b"
  shows "serving_peak_at b c \<le> b_effective_budget_bytes b"
proof (cases "b_initial_capacity b < b_maximum_capacity b")
  case True
  with wf have "serving_peak_at b (b_maximum_capacity b) \<le> b_effective_budget_bytes b"
    by (simp add: budget_wf_def)
  with serving_peak_at_mono [OF c, of b] show ?thesis by linarith
next
  case False
  with c wf have "c \<le> b_initial_capacity b" by (simp add: budget_wf_def)
  with serving_peak_at_mono [OF this, of b] serving_peak_at_initial [OF wf] wf show ?thesis
    by (simp add: budget_wf_def)
qed

lemma current_peak_eq:
  assumes p: "b_packed_expert_bytes_per_slot b * b_initial_capacity b \<le> b_initial_serving_peak_bytes b"
  shows "c \<le> b_initial_capacity b \<Longrightarrow>
      b_initial_serving_peak_bytes b - b_packed_expert_bytes_per_slot b * (b_initial_capacity b - c)
        = serving_peak_at b c"
    and "b_initial_capacity b \<le> c \<Longrightarrow>
      b_initial_serving_peak_bytes b + b_packed_expert_bytes_per_slot b * (c - b_initial_capacity b)
        = serving_peak_at b c"
proof -
  assume "c \<le> b_initial_capacity b"
  then have "b_packed_expert_bytes_per_slot b * c \<le> b_packed_expert_bytes_per_slot b * b_initial_capacity b"
    by simp
  with p show "b_initial_serving_peak_bytes b - b_packed_expert_bytes_per_slot b * (b_initial_capacity b - c)
        = serving_peak_at b c"
    by (simp add: serving_peak_at_def diff_mult_distrib2)
next
  assume "b_initial_capacity b \<le> c"
  then have "b_packed_expert_bytes_per_slot b * b_initial_capacity b \<le> b_packed_expert_bytes_per_slot b * c"
    by simp
  with p show "b_initial_serving_peak_bytes b + b_packed_expert_bytes_per_slot b * (c - b_initial_capacity b)
        = serving_peak_at b c"
    by (simp add: serving_peak_at_def diff_mult_distrib2)
qed

lemma preparation_budget_Inr:
  assumes ok: "preparation_budget_bytes b c t = Inr n" and lt: "c < t"
    and p: "b_packed_expert_bytes_per_slot b * b_initial_capacity b \<le> b_initial_serving_peak_bytes b"
  shows "n = b_effective_budget_bytes b - serving_peak_at b c"
    and "serving_peak_at b t + b_table_overlap_bytes b \<le> b_effective_budget_bytes b"
    and "b_packed_expert_bytes_per_slot b * (t - c) + b_table_overlap_bytes b \<le> n"
    and "t \<le> b_maximum_capacity b"
proof -
  from ok lt obtain cp where
    cp: "(if c \<le> b_initial_capacity b
          then bindr (mem_mul [b_packed_expert_bytes_per_slot b, b_initial_capacity b - c])
            (\<lambda>released. ok_or (checked_sub (b_initial_serving_peak_bytes b) released)
               ''released expert bytes exceed the admitted serving peak'')
          else bindr (mem_mul [b_packed_expert_bytes_per_slot b, c - b_initial_capacity b])
            (\<lambda>grown. mem_add (b_initial_serving_peak_bytes b) grown)) = Inr cp"
    and fit: "cp + (b_packed_expert_bytes_per_slot b * (t - c) + b_table_overlap_bytes b)
        \<le> b_effective_budget_bytes b"
    and n: "n = b_effective_budget_bytes b - cp" and t: "t \<le> b_maximum_capacity b"
    unfolding preparation_budget_bytes_def chunk_extent_ok_def
    by (auto simp: result_simps rust_arith)
  have cp': "cp = serving_peak_at b c"
    using cp current_peak_eq [OF p, of c] by (auto simp: result_simps rust_arith split: if_splits)
  show "n = b_effective_budget_bytes b - serving_peak_at b c" using n cp' by simp
  show "serving_peak_at b t + b_table_overlap_bytes b \<le> b_effective_budget_bytes b"
    using fit lt unfolding cp' by (simp add: serving_peak_at_growth [of c t])
  show "b_packed_expert_bytes_per_slot b * (t - c) + b_table_overlap_bytes b \<le> n"
    using fit n by simp
  show "t \<le> b_maximum_capacity b" by (rule t)
qed

lemma preparation_budget_complete:
  assumes wf: "budget_wf b" and g: "b_operating_growth b" and ct: "10 \<le> c" "c \<le> t" "t \<le> b_maximum_capacity b"
    and fit: "serving_peak_at b t + b_table_overlap_bytes b \<le> b_effective_budget_bytes b"
    and lim: "b_effective_budget_bytes b < u64_limit"
  shows "\<exists>n. preparation_budget_bytes b c t = Inr n"
proof (cases "t = c")
  case True
  with assms show ?thesis by (simp add: preparation_budget_bytes_def chunk_extent_ok_def budget_wf_def)
next
  case False
  let ?per = "b_packed_expert_bytes_per_slot b" and ?i = "b_initial_capacity b"
    and ?peak = "b_initial_serving_peak_bytes b"
  have p: "?per * ?i \<le> ?peak" and per: "0 < ?per" and i: "10 \<le> ?i" using wf by (simp_all add: budget_wf_def)
  have sp: "serving_peak_at b c + ?per * (t - c) + b_table_overlap_bytes b \<le> b_effective_budget_bytes b"
    using fit ct by (simp add: serving_peak_at_growth [of c t])
  have peak: "?peak < u64_limit" using wf lim by (simp add: budget_wf_def)
  have pi: "?per \<le> ?per * ?i" "?per * (?i - c) \<le> ?per * ?i" using i by simp_all
  have "(if c \<le> ?i
          then bindr (mem_mul [?per, ?i - c]) (\<lambda>released. ok_or (checked_sub ?peak released)
               ''released expert bytes exceed the admitted serving peak'')
          else bindr (mem_mul [?per, c - ?i]) (\<lambda>grown. mem_add ?peak grown)) = Inr (serving_peak_at b c)"
  proof (cases "c \<le> ?i")
    case True
    have "mem_mul [?per, ?i - c] = Inr (?per * (?i - c))"
      unfolding mem_mul2_eq_Inr using pi p peak by linarith
    moreover have "?per * (?i - c) \<le> ?peak" using pi p by linarith
    ultimately show ?thesis using True current_peak_eq(1) [OF p True] by (simp add: checked_sub_def)
  next
    case False
    then have e: "?peak + ?per * (c - ?i) = serving_peak_at b c" using current_peak_eq(2) [OF p, of c] by simp
    then have "mem_mul [?per, c - ?i] = Inr (?per * (c - ?i))" "mem_add ?peak (?per * (c - ?i)) = Inr (serving_peak_at b c)"
      unfolding mem_mul2_eq_Inr mem_add_eq_Inr using sp lim pi p peak by linarith+
    with False show ?thesis by simp
  qed
  moreover have "mem_mul [?per, t - c] = Inr (?per * (t - c))"
    unfolding mem_mul2_eq_Inr using sp lim pi p peak by linarith
  moreover have "mem_sum [?per * (t - c), b_table_overlap_bytes b] = Inr (?per * (t - c) + b_table_overlap_bytes b)"
    "mem_add (serving_peak_at b c) (?per * (t - c) + b_table_overlap_bytes b)
      = Inr (serving_peak_at b c + (?per * (t - c) + b_table_overlap_bytes b))"
    using sp lim by (simp_all add: result_simps)
  moreover have "chunk_extent_ok b c t" using wf g ct by (simp add: chunk_extent_ok_def budget_wf_def)
  ultimately show ?thesis
    using False per sp by (simp add: preparation_budget_bytes_def checked_sub_def)
qed

lemma with_operating_budget_wf:
  assumes ok: "with_operating_budget b fp adm ctx rows envelope = Inr b'"
    and i: "10 \<le> b_initial_capacity b" "b_initial_capacity b < 512"
    and p: "b_packed_expert_bytes_per_slot b * b_initial_capacity b \<le> b_initial_serving_peak_bytes b"
  shows "budget_wf b'" and "b_operating_growth b'" and "b_initial_capacity b' = b_initial_capacity b"
    and "b_effective_budget_bytes b' = envelope"
    and "b_initial_serving_peak_bytes b \<le> b_initial_serving_peak_bytes b'"
    and "b_table_overlap_bytes b' = b_table_overlap_bytes b"
    and "b_packed_expert_bytes_per_slot b' = b_packed_expert_bytes_per_slot b"
proof -
  let ?per = "b_packed_expert_bytes_per_slot b" and ?i = "b_initial_capacity b"
  from ok obtain selected peak where per: "0 < ?per" and sel: "packed_expert_bytes_at_capacity fp ?i = Inr selected"
    and fp: "packed_expert_bytes_per_uniform_slot fp = ?per"
    and pk: "b_initial_serving_peak_bytes b \<le> peak" "peak \<le> envelope"
    and b0: "b' = b \<lparr> b_initial_serving_peak_bytes := peak,
        b_maximum_capacity := max (min ((envelope - (peak - selected) - b_table_overlap_bytes b) div ?per) 511) ?i,
        b_effective_budget_bytes := envelope, b_operating_growth := True \<rparr>"
    unfolding with_operating_budget_def Let_def
    by (auto simp only: result_simps rust_arith intro: max.cobounded1)
  have "selected = ?per * ?i" using sel fp by (simp add: packed_expert_bytes_at_capacity_Inr)
  note b' = b0 [unfolded this]
  define room where "room = envelope - (peak - ?per * ?i) - b_table_overlap_bytes b"
  define m where "m = max (min (room div ?per) 511) ?i"
  have fit: "(peak - ?per * ?i + ?per * m) + b_table_overlap_bytes b \<le> envelope" if "?i < m"
  proof -
    have "m \<le> room div ?per" using that by (simp add: m_def)
    then have r: "?per * m \<le> room" using per by (simp add: less_eq_div_iff_mult_less_eq mult.commute)
    have "0 < ?per * m" using that per by simp
    with r show ?thesis unfolding room_def by linarith
  qed
  have m: "?i \<le> m" "m < 512" using i by (simp_all add: m_def)
  have b'': "b' = b \<lparr> b_initial_serving_peak_bytes := peak, b_maximum_capacity := m,
      b_effective_budget_bytes := envelope, b_operating_growth := True \<rparr>"
    unfolding b' m_def room_def ..
  show "budget_wf b'"
    using per pk p i m fit unfolding b'' budget_wf_def serving_peak_at_def by simp
  show "b_operating_growth b'" "b_initial_capacity b' = b_initial_capacity b"
    "b_effective_budget_bytes b' = envelope"
    "b_initial_serving_peak_bytes b \<le> b_initial_serving_peak_bytes b'"
    "b_table_overlap_bytes b' = b_table_overlap_bytes b"
    "b_packed_expert_bytes_per_slot b' = b_packed_expert_bytes_per_slot b"
    using pk by (simp_all add: b'')
qed

lemma with_prefill_width_wf:
  assumes ok: "with_prefill_width b fp ctx old new = Inr b'"
    and m: "b_maximum_capacity b < 512" and i: "10 \<le> b_initial_capacity b" "64 \<le> b_maximum_capacity b"
  shows "budget_wf b'" and "b_operating_growth b'" and "64 \<le> b_maximum_capacity b'"
    and "b_maximum_capacity b' \<le> b_maximum_capacity b" and "b_initial_capacity b' \<le> b_initial_capacity b"
    and "b_effective_budget_bytes b' = b_effective_budget_bytes b"
    and "serving_peak_at b' (b_maximum_capacity b') + b_table_overlap_bytes b' \<le> b_effective_budget_bytes b'"
proof -
  let ?per = "b_packed_expert_bytes_per_slot b"
  from ok obtain nonexpert bytes available where per: "0 < ?per"
    and av: "checked_sub (b_effective_budget_bytes b) nonexpert = Some bytes"
      "checked_sub bytes (b_table_overlap_bytes b) = Some available"
    and mx: "64 \<le> available div ?per"
    and b': "b' = b \<lparr> b_initial_capacity := min (b_initial_capacity b) (min (available div ?per) (b_maximum_capacity b)),
        b_maximum_capacity := min (available div ?per) (b_maximum_capacity b),
        b_initial_serving_peak_bytes := nonexpert
          + ?per * min (b_initial_capacity b) (min (available div ?per) (b_maximum_capacity b)),
        b_operating_growth := True \<rparr>"
    unfolding with_prefill_width_def Let_def
    by (auto simp: result_simps bind_eq_Some_conv)
  define mm where "mm = min (available div ?per) (b_maximum_capacity b)"
  have "mm \<le> available div ?per" by (simp add: mm_def)
  then have "?per * mm \<le> available" using per by (simp add: less_eq_div_iff_mult_less_eq mult.commute)
  then have fit: "nonexpert + ?per * mm + b_table_overlap_bytes b \<le> b_effective_budget_bytes b"
    using av unfolding checked_sub_eq_Some by linarith
  have "?per * min (b_initial_capacity b) mm \<le> ?per * mm" by (intro mult_le_mono2) simp
  with fit have low: "nonexpert + ?per * min (b_initial_capacity b) mm \<le> b_effective_budget_bytes b" by linarith
  have m64: "64 \<le> mm" "mm < 512" "mm \<le> b_maximum_capacity b" using mx m i by (simp_all add: mm_def)
  show "budget_wf b'" "serving_peak_at b' (b_maximum_capacity b') + b_table_overlap_bytes b' \<le> b_effective_budget_bytes b'"
    using fit low per m64 i unfolding b' mm_def [symmetric] budget_wf_def serving_peak_at_def
    by simp_all
  show "b_operating_growth b'" "64 \<le> b_maximum_capacity b'" "b_maximum_capacity b' \<le> b_maximum_capacity b"
    "b_initial_capacity b' \<le> b_initial_capacity b"
    "b_effective_budget_bytes b' = b_effective_budget_bytes b"
    using mx i by (simp_all add: b')
qed


end
