(* ===== verification/Sample_Package.thy ===== *)
theory Sample_Package
  imports Memory_Estimate Memory_Envelope
begin

text \<open>
  A concrete package of 48 layers at the released expert geometry, and its admission at a context of
  one token: 93 of 512 slots in 10 GB, an operating envelope of 12 GB that funds 114, and the wider
  prefill workspace under which 106 remain. The estimates are computed in general for the pool
  sizes used, the scan over every smaller pool included.
\<close>

definition sample_footprint :: package_footprint where
  "sample_footprint = \<lparr>
     fp_direct = \<lparr> embedding_cpu_bytes = 1000000, matrix_count = 10, matrix_packed_bytes = 50000000,
       auxiliary_count = 4, auxiliary_bytes = 20000, largest_direct_payload_bytes = 5000000 \<rparr>,
     fp_expert_layers = map (\<lambda>i. \<lparr> layer_index = i, layer_experts = 512,
       projection_bytes_per_slot = [704000, 704000, 583680], packed_bytes_per_slot = 1991680,
       full_bundle_payload_bytes = 1019740160 \<rparr>) [0..<48],
     packed_expert_bytes_per_uniform_slot = 95600640, full_expert_bundle_payload_bytes = 48947527680,
     fp_fixed_session = \<lparr> gdn_recurrent_f32 = 1000000, gdn_convolution_bf16 = 200000,
       qsa_sink_kv_bf16 = 3145728, qsa_tail_kv_bf16 = 204472320, ple_history_bf16 = 20000 \<rparr>,
     max_expert_slots = 512, max_context_tokens = 262144, qsa_layers = 12 \<rparr>"

section \<open>The scan\<close>

lemmas mem_eval = mem_sum_def mem_mul_def mem_add_def checked_add_def checked_mul_def checked_sub_def u64_limit_def

definition decode_ws :: "nat \<Rightarrow> workspace_bytes" where
  "decode_ws c = (let host = if c = 512 then 3486720 else 12534784 in
     \<lparr> ws_stage = DecodeQueuedGraph, ws_capacity_slots = c, ws_rows = 1, metal_requested_bytes = 480,
       host_logical_bytes = host, combined_component_bytes = 480 + host \<rparr>)"

lemma runtime_one_row: "runtime_workspaces 1 c 1991680 = Inr [decode_ws c]"
  by (simp add: runtime_workspaces_def expert_reader_workspace_bytes_def decode_stage_def workspace_def mem_eval
      decode_ws_def PREFILL_READ_ROWS_def PREFILL_READ_WORKERS_def PREFILL_READ_STACK_BYTES_def PREFILL_READ_CONTROL_BYTES_def
      Let_def)

lemma scan_one_capacity:
  "scan_capacity 15360 1991680 (Suc 0) ceil (m, ac, at) c =
     Inr (max m 15840, keep_larger ac (decode_ws c), if c = ceil then Some (decode_ws c) else at)"
  by (simp add: scan_capacity_def scan_rows_def runtime_one_row [unfolded One_nat_def] scan_stage_def mem_eval keep_larger_def
      upt_rec decode_ws_def Let_def)

lemma keep_decode_ws: "keep_larger (Some (decode_ws 10)) (decode_ws c) = Some (decode_ws 10)"
  by (simp add: keep_larger_def larger_def decode_ws_def Let_def)

lemma scan_capacities:
  "try_fold (scan_capacity 15360 1991680 (Suc 0) ceil) (15840, Some (decode_ws 10), at) cs
   = Inr (15840, Some (decode_ws 10), if ceil \<in> set cs then Some (decode_ws ceil) else at)"
proof (induction cs arbitrary: at)
  case (Cons c cs)
  then show ?case by (simp add: scan_one_capacity keep_decode_ws)
qed simp

lemma sample_scan: "10 < c \<Longrightarrow> scan_runtime 15360 1991680 (Suc 0) c = Inr (15840, Some (decode_ws 10), Some (decode_ws c))"
proof -
  assume c: "10 < c"
  then have "[10..<Suc c] = 10 # [11..<Suc c]" by (simp add: upt_rec)
  moreover have "keep_larger None (decode_ws 10) = Some (decode_ws 10)" by (simp add: keep_larger_def)
  ultimately show ?thesis using c by (simp add: scan_runtime_def scan_one_capacity scan_capacities keep_decode_ws)
qed

definition startup_ws :: "nat \<Rightarrow> workspace_bytes" where
  "startup_ws c = \<lparr> ws_stage = StartupExpertPool, ws_capacity_slots = c, ws_rows = 0, metal_requested_bytes = 0,
     host_logical_bytes = 704000 * c + 11743744, combined_component_bytes = 704000 * c + 11743744 \<rparr>"

definition sample_estimate :: "nat \<Rightarrow> nat \<Rightarrow> nat \<Rightarrow> ordinary_path_estimate" where
  "sample_estimate c prefill metadata = (let st = startup_ws (min c 511);
       common = 51020000 + 95600640 * c + metadata + 122522958 + 100000000 in
     \<lparr> direct_wire_payload_bytes = 51020000, expert_stream_payload_at_ceiling_bytes = 95600640 * c,
       expert_storage_metadata_reserve_bytes = metadata, fixed_session_logical_bytes = 208838048,
       growing_session_logical_bytes = 3072, minimum_snapshot_logical_bytes = 209337764,
       prefill_workspace_requested_bytes = prefill, expert_reader_workspace_across_candidates_bytes = 11039744,
       runtime_workspace_at_ceiling = decode_ws c, runtime_workspace_across_candidates = decode_ws 10,
       startup_workspace_across_candidates = st, max_workspace_across_candidates = st,
       runtime_metal_requested_upper_bytes = 15840, uncounted_core_reserve_bytes = 122522958,
       vec_spare_growth_overlap_reserve_bytes = 15360, prefix_retained_budget_bytes = 0,
       snapshot_capture_restore_overlap_reserve_bytes = 0, driver_allocator_allowance_bytes = 100000000,
       startup_phase_peak_bytes = common + combined_component_bytes st,
       engine_construction_phase_peak_bytes = common + prefill + 11039744,
       serving_phase_peak_bytes = common + prefill + 221391744, limiting_phase = Serving,
       accounted_component_sum_bytes = common + prefill + 221391744 \<rparr>)"

definition sample_inputs :: "nat \<Rightarrow> ordinary_path_inputs" where
  "sample_inputs c = \<lparr> in_context_limit = 1, in_max_prefill_rows = 1, in_candidate_slot_ceiling = c,
     in_uncounted_core_reserve_bytes = 122522958, in_vec_overlap_reserve_bytes = Some 15360,
     in_prefix_retained_budget_bytes = 0, in_snapshot_overlap_reserve_bytes = Some 0,
     in_driver_allowance_bytes = 100000000 \<rparr>"

lemma sample_layers: "list_max (map packed_bytes_per_slot (fp_expert_layers sample_footprint)) = Some 1991680"
  "list_max (concat (map projection_bytes_per_slot (fp_expert_layers sample_footprint))) = Some 704000"
  "length (fp_expert_layers sample_footprint) = 48"
  by (simp_all add: sample_footprint_def list_max_def upt_rec)

lemma sample_growing: "growing_session_payload_at_frontier sample_footprint 1 = Inr
   \<lparr> frontier_tokens = 1, kvarn_record_tiles_per_qsa_layer = 0, qsa_index_complete_groups_per_layer = 0,
     qsa_index_pending_rows_per_layer = 1, kvarn_records = 0, qsa_index_compressed_bf16 = 0,
     qsa_index_pending_bf16 = 3072, total_logical_bytes = 3072 \<rparr>"
  by (simp add: growing_session_payload_at_frontier_def growing_session_payload_def sample_footprint_def kvarn_partition_def
      kvarn_consts mem_eval Let_def)

lemma sample_prefill: "native_prefill_workspace_bytes_for_capacity 1 512 = Inr 522490766"
  "native_prefill_workspace_bytes_for_capacity 1 2048 = Inr 1273142158"
  "native_prefill_workspace_bytes_for_capacity 1 4096 = Inr 2271214478"
  by (simp_all add: native_prefill_workspace_bytes_for_capacity_def validate_capacity_def rows_consts kvarn_consts div_ceil_def Let_def)

lemma sample_metadata: "10 \<le> m \<Longrightarrow> m < 512 \<Longrightarrow> expert_storage_metadata_bytes sample_footprint m = Inr 3532224"
  "expert_storage_metadata_bytes sample_footprint 512 = Inr 0"
  by (simp_all add: expert_storage_metadata_bytes_def sample_layers mem_eval) (simp_all add: sample_footprint_def)

definition sample_metadata_bytes :: "nat \<Rightarrow> nat" where
  "sample_metadata_bytes c = (if c = 512 then 0 else 3532224)"

lemma startup_candidates:
  assumes c: "c = 512 \<or> c = 511 \<or> c = 93 \<or> c = 64"
  shows "try_fold (startup_candidate 1991680 704000 5000000) (None, 0) [c, min c 511] = Inr (Some (startup_ws (min c 511)), 11039744)"
  using c by (elim disjE)
    (simp_all add: startup_candidate_def expert_reader_workspace_bytes_def mem_eval workspace_def keep_larger_def larger_def
      PREFILL_READ_ROWS_def PREFILL_READ_WORKERS_def PREFILL_READ_STACK_BYTES_def PREFILL_READ_CONTROL_BYTES_def startup_ws_def)

lemma sample_estimated:
  assumes c: "c = 512 \<or> c = 511 \<or> c = 93 \<or> c = 64" and w: "native_prefill_workspace_bytes_for_capacity 1 rows = Inr prefill"
    and p: "200000000 < prefill" "prefill < 3000000000"
  shows "estimate_ordinary_path_with_metadata_capacity sample_footprint (sample_inputs c) rows c
    = Inr (sample_estimate c prefill (sample_metadata_bytes c))"
proof -
  have v: "validate_capacity rows = Inr ()" "512 \<le> rows"
    using w by (auto simp: native_prefill_workspace_bytes_for_capacity_def result_simps)
  have x1: "expert_storage_metadata_bytes sample_footprint c = Inr (sample_metadata_bytes c)"
    using c by (auto simp: sample_metadata sample_metadata_bytes_def)
  have x2: "packed_expert_bytes_at_capacity sample_footprint c = Inr (95600640 * c)"
    using c by (auto simp: packed_expert_bytes_at_capacity_def mem_eval sample_footprint_def)
  have n: "rows = DEFAULT_ROWS \<Longrightarrow> native_prefill_workspace_bytes (Suc 0) = Inr prefill"
    "native_prefill_workspace_bytes_for_capacity (Suc 0) rows = Inr prefill"
    using w by (auto simp: native_prefill_workspace_bytes_def)
  have c10: "10 \<le> c" "c \<le> 512" using c by auto
  have f: "mem_sum [gdn_recurrent_f32 (fp_fixed_session sample_footprint), gdn_convolution_bf16 (fp_fixed_session sample_footprint),
         qsa_sink_kv_bf16 (fp_fixed_session sample_footprint), qsa_tail_kv_bf16 (fp_fixed_session sample_footprint),
         ple_history_bf16 (fp_fixed_session sample_footprint)] = Inr 208838048"
    "mem_sum [embedding_cpu_bytes (fp_direct sample_footprint), matrix_packed_bytes (fp_direct sample_footprint),
          auxiliary_bytes (fp_direct sample_footprint)] = Inr 51020000"
    "mem_sum [208838048, 3072, 4, 496640] = Inr 209337764" "mem_mul [Suc 0, 4] = Inr 4"
    by (simp_all add: mem_eval sample_footprint_def)
  have d: "largest_direct_payload_bytes (fp_direct sample_footprint) = 5000000" "qsa_layers sample_footprint = 12"
    "max_context_tokens sample_footprint = 262144" "max_expert_slots sample_footprint = 512"
    by (simp_all add: sample_footprint_def)
  have sc: "scan_runtime 15360 1991680 1 c = Inr (15840, Some (decode_ws 10), Some (decode_ws c))"
    using c sample_scan [of c] by auto
  have lw: "larger (decode_ws 10) (startup_ws (min c 511)) = startup_ws (min c 511)"
    using c by (auto simp: larger_def decode_ws_def startup_ws_def)
  define raw where "raw = (sample_estimate c prefill (sample_metadata_bytes c))
     \<lparr> startup_phase_peak_bytes := 0, engine_construction_phase_peak_bytes := 0, serving_phase_peak_bytes := 0,
       limiting_phase := Startup, accounted_component_sum_bytes := 0 \<rparr>"
  have "estimate_ordinary_path_with_metadata_capacity sample_footprint (sample_inputs c) rows c = refresh_phase_peaks raw"
    using v c10 unfolding estimate_ordinary_path_with_metadata_capacity_def
    by (cases "rows = DEFAULT_ROWS") (simp_all add: sample_inputs_def d f sample_growing [unfolded One_nat_def] sample_layers startup_candidates [OF c, simplified]
        sc [unfolded One_nat_def] x1 x2 n lw raw_def sample_estimate_def Let_def)
  also have "refresh_phase_peaks raw = Inr (sample_estimate c prefill (sample_metadata_bytes c))"
    using c p by (auto simp: refresh_phase_peaks_def phase_component_sums_def raw_def sample_estimate_def mem_eval decode_ws_def
        startup_ws_def largest_phase_def Let_def sample_metadata_bytes_def)
  finally show ?thesis .
qed

section \<open>An admission of 93 slots in 10 GB\<close>

lemma core_buffers: "ORDINARY_CORE_BUFFER_BYTES = 122522958"
  by (simp add: ORDINARY_CORE_BUFFER_BYTES_def DEVICE_GREEDY_REQUESTED_BYTES_def DEVICE_GREEDY_HOST_BYTES_def
      SAMPLING_PREPARATION_DEVICE_BYTES_def SAMPLING_HOST_WORKSPACE_BYTES_def GENERATION_VOCABULARY_def DEVICE_SEAL_WORKSPACE_BYTES_def)

lemma sample_overlap: "ordinary_vec_overlap_at_context sample_footprint 1 full = Inr 15360"
  by (simp add: ordinary_vec_overlap_at_context_def sample_growing [unfolded One_nat_def] mem_eval kvarn_consts
      QSA_DEVICE_INDEX_FIXED_CAPACITY_BYTES_def Let_def) (simp add: sample_footprint_def)

lemma sample_admission:
  assumes "c = 512 \<or> c = 511"
  shows "admission_estimate sample_footprint 1 100000000 0 0 c full
     = Inr (sample_estimate c 522490766 (sample_metadata_bytes c))"
proof -
  have "c = 512 \<or> c = 511 \<or> c = 93 \<or> c = 64" using assms by blast
  from sample_estimated [OF this sample_prefill(1)] show ?thesis
    by (simp add: admission_estimate_def sample_overlap [unfolded One_nat_def] core_buffers sample_inputs_def rows_consts)
qed

definition sample_plan :: capacity_plan where
  "sample_plan = \<lparr> slots = 93, plan_budget_bytes = 10000000000, accounted_peak_bytes = 9911817212,
     remaining_budget_bytes = 88182788 \<rparr>"

definition bounded_estimate :: ordinary_path_estimate where
  "bounded_estimate = sample_estimate 511 522490766 3532224"

lemma sample_planned: "plan_from_ordinary_estimate bounded_estimate 95600640 511 10000000000 12000000000 = Inr sample_plan"
  by (simp add: plan_from_ordinary_estimate_def phase_component_sums_def bounded_estimate_def sample_estimate_def mem_eval decode_ws_def
      startup_ws_def phase_peaks_match_def largest_phase_def plan_capacity_def Let_def sample_plan_def)

lemma sample_admitted: "plan_ordinary_capacity_with_cache_budgets sample_footprint 1 10000000000 12000000000 100000000 0 0
    = Inr (bounded_estimate, sample_plan)"
proof -
  have "qsa_layers sample_footprint = 12" "max_expert_slots sample_footprint = 512"
    "packed_expert_bytes_per_uniform_slot sample_footprint = 95600640"
    by (simp_all add: sample_footprint_def)
  moreover have "10000000000 < accounted_component_sum_bytes (sample_estimate 512 522490766 0)"
    by (simp add: sample_estimate_def Let_def)
  ultimately show ?thesis
    by (simp add: plan_ordinary_capacity_with_cache_budgets_def sample_layers sample_admission [unfolded One_nat_def]
        sample_metadata_bytes_def not_le [symmetric] bounded_estimate_def [symmetric] sample_planned)
qed

definition admitted_budget :: capacity_control_budget where
  "admitted_budget = \<lparr> b_initial_capacity = 93, b_maximum_capacity = 93, b_startup_budget_bytes = 10000000000,
     b_effective_budget_bytes = 10000000000, b_initial_serving_peak_bytes = 9911817212,
     b_packed_expert_bytes_per_slot = 95600640, b_table_overlap_bytes = 3532032,
     b_process_overhead_bytes = 100000000, b_operating_growth = False \<rparr>"

definition operating_budget :: capacity_control_budget where
  "operating_budget = admitted_budget \<lparr> b_maximum_capacity := 114, b_effective_budget_bytes := 12000000000,
     b_operating_growth := True \<rparr>"

definition wide_budget :: capacity_control_budget where
  "wide_budget = operating_budget \<lparr> b_maximum_capacity := 106, b_initial_serving_peak_bytes := 10662468604 \<rparr>"

lemma sample_from_admission: "from_admission sample_footprint bounded_estimate sample_plan = Inr admitted_budget"
proof -
  have p: "packed_expert_bytes_at_capacity sample_footprint 93 = Inr 8890859520"
    "packed_expert_bytes_per_uniform_slot sample_footprint = 95600640"
    by (simp_all add: packed_expert_bytes_at_capacity_def mem_eval sample_footprint_def)
  show ?thesis
    by (simp add: from_admission_def p sample_metadata sample_layers sample_plan_def)
      (simp add: phase_component_sums_def bounded_estimate_def sample_estimate_def mem_eval decode_ws_def
        startup_ws_def phase_peaks_match_def largest_phase_def Let_def admitted_budget_def)
qed

lemma sample_operating: "with_operating_budget admitted_budget sample_footprint bounded_estimate 1 512 12000000000 = Inr operating_budget"
proof -
  have p: "packed_expert_bytes_at_capacity sample_footprint 93 = Inr 8890859520"
    "packed_expert_bytes_per_uniform_slot sample_footprint = 95600640"
    by (simp_all add: packed_expert_bytes_at_capacity_def mem_eval sample_footprint_def)
  have i: "\<lparr> in_context_limit = 1, in_max_prefill_rows = min 1 512, in_candidate_slot_ceiling = 511,
            in_uncounted_core_reserve_bytes = uncounted_core_reserve_bytes bounded_estimate,
            in_vec_overlap_reserve_bytes = Some (vec_spare_growth_overlap_reserve_bytes bounded_estimate),
            in_prefix_retained_budget_bytes = prefix_retained_budget_bytes bounded_estimate,
            in_snapshot_overlap_reserve_bytes = Some (snapshot_capture_restore_overlap_reserve_bytes bounded_estimate),
            in_driver_allowance_bytes = driver_allocator_allowance_bytes bounded_estimate \<rparr> = sample_inputs 511"
    by (simp add: sample_inputs_def bounded_estimate_def sample_estimate_def Let_def)
  have e: "estimate_ordinary_path_with_prefill_capacity sample_footprint (sample_inputs 511) 512 = Inr bounded_estimate"
    using sample_estimated [OF _ sample_prefill(1), of 511]
    by (simp add: estimate_ordinary_path_with_prefill_capacity_def sample_inputs_def bounded_estimate_def sample_metadata_bytes_def)
  show ?thesis
    unfolding with_operating_budget_def i e
    by (simp add: p admitted_budget_def)
      (simp add: bounded_estimate_def sample_estimate_def decode_ws_def startup_ws_def mem_eval operating_budget_def admitted_budget_def Let_def)
qed

lemma sample_fixed_capacity:
  assumes "native_prefill_workspace_bytes_for_capacity 1 rows = Inr prefill" "200000000 < prefill" "prefill < 3000000000"
    and c: "c = 93 \<or> c = 64"
  shows "estimate_fixed_capacity_prefill sample_footprint 1 c rows 100000000 = Inr (sample_estimate c prefill 3532224)"
proof -
  have "512 \<le> rows" using assms(1) by (auto simp: native_prefill_workspace_bytes_for_capacity_def result_simps)
  then have "min 1 rows = 1" by simp
  with c sample_estimated [OF _ assms(1-3), of c] show ?thesis
    by (auto simp: estimate_fixed_capacity_prefill_def sample_overlap [unfolded One_nat_def] core_buffers sample_inputs_def
        sample_metadata_bytes_def)
qed

lemma sample_wide: "with_prefill_width operating_budget sample_footprint 1 512 2048 = Inr wide_budget"
proof -
  have "packed_expert_bytes_per_uniform_slot sample_footprint = 95600640" by (simp add: sample_footprint_def)
  then show ?thesis
    by (simp add: with_prefill_width_def validate_capacity_def rows_consts operating_budget_def admitted_budget_def
        sample_fixed_capacity [OF sample_prefill(1), unfolded One_nat_def, simplified]
        sample_fixed_capacity [OF sample_prefill(2), unfolded One_nat_def, simplified])
      (simp add: sample_estimate_def nonexpert_bytes_def mem_eval wide_budget_def operating_budget_def admitted_budget_def Let_def)
qed

end
