(* ===== verification/Memory_Properties.thy ===== *)
theory Memory_Properties
  imports Sample_Package
begin

text \<open>
  The properties of the memory planner of \<open>src/memory.rs\<close>: what an admission guarantees in every
  lifetime phase, that its pool is the largest that fits, what the estimate covers, and what the
  control budget derived from it promises to the adaptive controller and to workspace phases.
\<close>

section \<open>Admission\<close>

text \<open>C34: an ordinary admission gives the largest expert pool that fits: a pool of n slots is at most the admitted one
  exactly when n is within the chosen path's ceiling and every lifetime phase (startup, construction, serving) stays
  within both the process budget and the user's limit; the admitted pool holds the top-ten minimum, and the plan
  records the limiting phase's bytes and what is left of the budget.\<close>

theorem admission_is_largest_fitting_pool:
  assumes "plan_ordinary_capacity_with_cache_budgets fp ctx pb ul overhead prefix disk = Inr (e, plan)"
  shows "10 \<le> slots plan \<and> slots plan \<le> 512 \<and> plan_budget_bytes plan = min pb ul
    \<and> accounted_peak_bytes plan + remaining_budget_bytes plan = min pb ul
    \<and> accounted_peak_bytes plan = phase_bytes_at e (limiting_phase e) (packed_expert_bytes_per_uniform_slot fp) (slots plan)
    \<and> (\<forall>n. n \<le> slots plan \<longleftrightarrow> n \<le> (if slots plan = 512 then 512 else 511)
         \<and> (\<forall>ph. phase_bytes_at e ph (packed_expert_bytes_per_uniform_slot fp) n \<le> min pb ul))"
  using assms
proof (cases rule: plan_ordinary_cases)
  case full
  with plan_from_ordinary_largest [OF full(3)] show ?thesis by simp
next
  case bounded
  with plan_from_ordinary_largest [OF bounded(3)] show ?thesis by simp
qed

lemma admission_is_largest_fitting_pool_witness:
  "slots sample_plan = 93 \<and> \<not> (\<forall>ph. phase_bytes_at bounded_estimate ph 95600640 94 \<le> 10000000000)"
proof -
  have p: "packed_expert_bytes_per_uniform_slot sample_footprint = 95600640" "slots sample_plan = 93"
    by (simp_all add: sample_footprint_def sample_plan_def)
  have "\<forall>n. n \<le> slots sample_plan \<longleftrightarrow> n \<le> (if slots sample_plan = 512 then 512 else 511)
         \<and> (\<forall>ph. phase_bytes_at bounded_estimate ph (packed_expert_bytes_per_uniform_slot sample_footprint) n
              \<le> min 10000000000 12000000000)"
    using admission_is_largest_fitting_pool [OF sample_admitted] by blast
  from this [rule_format, of 94] p show ?thesis by simp
qed

text \<open>the capacity planner refuses no budget that would do: when valid inputs fit with some pool within the
  bounds, a plan is returned, it has at least that many slots, and a pool is affordable exactly up to the plan's.\<close>

theorem planner_accepts_every_fitting_budget:
  assumes "inputs_valid i" "minimum_slots i \<le> n" "n \<le> max_slots i" "inputs_need i n \<le> inputs_budget i"
    and "inputs_budget i < u64_limit"
  shows "\<exists>plan. plan_capacity i = Inr plan \<and> n \<le> slots plan
    \<and> (\<forall>k. k \<le> slots plan \<longleftrightarrow> k \<le> max_slots i \<and> inputs_need i k \<le> inputs_budget i)"
  using plan_capacity_complete [OF assms] plan_capacity_largest by blast

definition small_inputs :: capacity_inputs where
  "small_inputs = \<lparr> process_budget_bytes = 1000, user_memory_limit_bytes = Some 900, fixed_nonexpert_bytes = 300,
     context_reserve_bytes = 50, bounded_workspace_bytes = Some 25, packed_expert_bytes_per_slot = 20,
     minimum_slots = 10, max_slots = 511 \<rparr>"

lemma planner_accepts_every_fitting_budget_witness: "\<exists>plan. plan_capacity small_inputs = Inr plan \<and> 26 \<le> slots plan"
  using planner_accepts_every_fitting_budget [of small_inputs 26]
  by (auto simp: inputs_valid_def small_inputs_def inputs_need_def inputs_fixed_def inputs_budget_def u64_limit_def)

text \<open>C35: the estimate's runtime workspace covers execution: every stage of every prefill width up to the admitted one,
  at every pool size up to the ceiling, holds at most the workspace charged to the serving phase, and its Metal
  requests with the growth reserve stay below the recorded bound.\<close>

theorem estimate_covers_every_stage:
  assumes est: "estimate_ordinary_path_with_metadata_capacity fp input prefill_rows metadata = Inr e"
    and cap: "10 \<le> cap" "cap \<le> in_candidate_slot_ceiling input" and rows: "1 \<le> rows" "rows \<le> in_max_prefill_rows input"
    and row: "list_max (map packed_bytes_per_slot (fp_expert_layers fp)) = Some row"
    and stage: "runtime_workspaces rows cap row = Inr stages" "s \<in> set stages"
  shows "combined_component_bytes s \<le> combined_component_bytes (runtime_workspace_across_candidates e)
    \<and> metal_requested_bytes s + vec_spare_growth_overlap_reserve_bytes e \<le> runtime_metal_requested_upper_bytes e"
proof -
  obtain c where "scan_runtime (vec_spare_growth_overlap_reserve_bytes e) row (in_max_prefill_rows input)
      (in_candidate_slot_ceiling input)
    = Inr (runtime_metal_requested_upper_bytes e, Some (runtime_workspace_across_candidates e), c)"
    using estimate_fields(7) [OF est] row by auto
  from scan_runtime_covers [OF this cap rows] stage show ?thesis
    by (auto simp: rows_covered_def stage_covered_def)
qed

lemma estimate_covers_every_stage_witness:
  "combined_component_bytes (decode_ws 200) \<le> combined_component_bytes (runtime_workspace_across_candidates bounded_estimate)"
proof -
  have "estimate_ordinary_path_with_metadata_capacity sample_footprint (sample_inputs 511) 512 511 = Inr bounded_estimate"
    using sample_estimated [OF _ sample_prefill(1), of 511] by (simp add: bounded_estimate_def sample_metadata_bytes_def)
  from estimate_covers_every_stage [OF this _ _ _ _ sample_layers(1) runtime_one_row [of 200]] show ?thesis
    by (simp add: sample_inputs_def)
qed

text \<open>A session never outgrows its admission: at every frontier up to the admitted context, its KVarN records and
  index rows take no more than the growing-session bytes plus the reserve charged to the serving phase.\<close>

theorem admitted_session_never_outgrows:
  assumes "admission_estimate fp ctx overhead prefix disk ceiling full = Inr e"
    and "growing_session_payload_at_frontier fp f = Inr g" "f \<le> ctx"
  shows "total_logical_bytes g \<le> growing_session_logical_bytes e + vec_spare_growth_overlap_reserve_bytes e"
  by (rule admission_covers_session [OF assms])

lemma admitted_session_never_outgrows_witness: "3072 \<le> growing_session_logical_bytes bounded_estimate + 15360"
  using admitted_session_never_outgrows [OF sample_admission [of 511 False] sample_growing]
  by (simp add: bounded_estimate_def sample_metadata_bytes_def sample_estimate_def Let_def)

lemma planned_tier:
  assumes "plan_from_ordinary_estimate e per maximum pb ul = Inr plan"
  shows "tier_ok per plan (e, plan, rows) \<and> plan_budget_bytes plan = min pb ul"
proof -
  note l = plan_from_ordinary_largest [OF assms]
  have "phase_bytes_at e ph per (slots plan) \<le> min pb ul" for ph using l(5) [of "slots plan"] by blast
  with l show ?thesis by (simp add: tier_ok_def)
qed

text \<open>widening the prefill after an admission never breaks it: whichever tier the upgrade ends at, the budget is the
  admitted one, no slot is gained, a full resident pool stays full, every lifetime phase of the resulting estimate fits
  the budget at the resulting pool, the plan's remainder is exact, and a tier beyond 512 rows is at most the requested
  one and leaves the adaptive floor of 64 slots.\<close>

theorem upgraded_admission_still_fits:
  assumes adm: "plan_ordinary_capacity_with_cache_budgets fp ctx pb ul ov prefix disk = Inr (e, plan)"
    and up: "upgrade_prefill_capacity_to fp ctx e plan requested = Inr (e', plan', rows')"
  shows "plan_budget_bytes plan' = min pb ul \<and> slots plan' \<le> slots plan \<and> (slots plan = 512 \<longrightarrow> slots plan' = 512)
    \<and> (\<forall>ph. phase_bytes_at e' ph (packed_expert_bytes_per_uniform_slot fp) (slots plan') \<le> min pb ul)
    \<and> accounted_peak_bytes plan' + remaining_budget_bytes plan' = min pb ul
    \<and> (rows' = 512 \<and> slots plan' = slots plan \<or> rows' \<in> {2048, 4096} \<and> rows' \<le> requested \<and> 64 \<le> slots plan')"
proof -
  let ?per = "packed_expert_bytes_per_uniform_slot fp"
  have ok: "tier_ok ?per plan (e, plan, DEFAULT_ROWS) \<and> plan_budget_bytes plan = min pb ul"
    using adm by (cases rule: plan_ordinary_cases) (simp_all add: planned_tier)
  have "tier_ok ?per plan (e', plan', rows') \<and> (rows' = 512 \<and> slots plan' = slots plan
      \<or> rows' \<in> {2048, 4096} \<and> rows' \<le> requested \<and> 64 \<le> slots plan')"
  proof (cases "ctx \<le> DEFAULT_ROWS")
    case True
    with up ok show ?thesis by (auto simp: upgrade_prefill_capacity_to_def result_simps DEFAULT_ROWS_def)
  next
    case False
    with up have "upgrade_tiers fp ctx requested [AUTOMATIC_ROWS, MAX_ROWS] (e, plan, DEFAULT_ROWS) = (e', plan', rows')"
      by (auto simp: upgrade_prefill_capacity_to_def result_simps)
    from upgrade_tiers_ok [OF conjunct1 [OF ok] this] show ?thesis by (auto simp: rows_consts)
  qed
  with ok show ?thesis by (auto simp: tier_ok_def)
qed

lemma upgraded_admission_still_fits_witness:
  "upgrade_prefill_capacity_to sample_footprint 1 bounded_estimate sample_plan 2048 = Inr (bounded_estimate, sample_plan, 512)
   \<and> accounted_peak_bytes sample_plan + remaining_budget_bytes sample_plan = 10000000000"
proof -
  have "upgrade_prefill_capacity_to sample_footprint 1 bounded_estimate sample_plan 2048 = Inr (bounded_estimate, sample_plan, 512)"
    using sample_prefill(1)
    by (simp add: upgrade_prefill_capacity_to_def validate_capacity_def rows_consts native_prefill_workspace_bytes_def
        bounded_estimate_def sample_estimate_def Let_def)
  with upgraded_admission_still_fits [OF sample_admitted this] show ?thesis by simp
qed

section \<open>The control budget\<close>

text \<open>every bounded admission yields a control budget, with the admitted pool as its whole extent, the admission's
  effective budget, the bytes of one slot over all layers, the serving phase's bytes at the admitted pool as its peak
  (within the budget), and the address tables of the 48 layers as the overlap of a publication.\<close>

theorem control_budget_from_every_bounded_admission:
  assumes "plan_ordinary_capacity_with_cache_budgets fp ctx pb ul ov pre disk = Inr (e, plan)" and "slots plan < 512"
  shows "\<exists>b. from_admission fp e plan = Inr b
    \<and> b_initial_capacity b = slots plan \<and> b_maximum_capacity b = slots plan \<and> b_effective_budget_bytes b = min pb ul
    \<and> b_packed_expert_bytes_per_slot b = packed_expert_bytes_per_uniform_slot fp \<and> 0 < b_packed_expert_bytes_per_slot b
    \<and> b_initial_serving_peak_bytes b = phase_bytes_at e Serving (packed_expert_bytes_per_uniform_slot fp) (slots plan)
    \<and> b_initial_serving_peak_bytes b \<le> b_effective_budget_bytes b
    \<and> b_table_overlap_bytes b = 73584 * 48 \<and> \<not> b_operating_growth b"
  by (rule from_admission_accepts [OF assms])

lemma control_budget_from_every_bounded_admission_witness:
  "\<exists>b. from_admission sample_footprint bounded_estimate sample_plan = Inr b \<and> b_initial_capacity b = 93
     \<and> b_table_overlap_bytes b = 3532032"
proof -
  have "slots sample_plan = 93" by (simp add: sample_plan_def)
  with control_budget_from_every_bounded_admission [OF sample_admitted] show ?thesis by auto
qed

text \<open>C36: the operating envelope is enough for every pool of its extent: starting from the control budget of an admission, the
  enlarged budget keeps the initial capacity, its serving commitments stay within the envelope at every pool up to the
  new maximum, and whenever the maximum exceeds the initial capacity every growth inside the extent is granted exactly
  the headroom the current pool leaves, with room for the new slots and for both generations of the address tables.\<close>

theorem operating_envelope_funds_every_growth:
  assumes adm: "plan_ordinary_capacity_with_cache_budgets fp ctx pb ul ov pre disk = Inr (e, plan)" "slots plan < 512"
    and b: "from_admission fp e plan = Inr b" and op: "with_operating_budget b fp e ctx rows envelope = Inr b'"
    and lim: "envelope < u64_limit"
  shows "b_initial_capacity b' = slots plan \<and> slots plan \<le> b_maximum_capacity b' \<and> b_maximum_capacity b' < 512
    \<and> (\<forall>c \<le> b_maximum_capacity b'. serving_peak_at b' c \<le> envelope)
    \<and> (slots plan < b_maximum_capacity b' \<longrightarrow>
         (\<forall>c t. 10 \<le> c \<longrightarrow> c < t \<longrightarrow> t \<le> b_maximum_capacity b' \<longrightarrow>
            preparation_budget_bytes b' c t = Inr (envelope - serving_peak_at b' c)
            \<and> b_packed_expert_bytes_per_slot b' * (t - c) + b_table_overlap_bytes b' \<le> envelope - serving_peak_at b' c))"
proof -
  from from_admission_accepts [OF adm] b have i: "b_initial_capacity b = slots plan"
    and p: "b_packed_expert_bytes_per_slot b * b_initial_capacity b \<le> b_initial_serving_peak_bytes b"
    by (auto simp: phase_bytes_at_def mult.commute)
  have s: "10 \<le> slots plan"
    using adm(1) by (cases rule: plan_ordinary_cases) (auto dest: plan_from_ordinary_largest)
  note w = with_operating_budget_wf [OF op, unfolded i, OF s adm(2) p [unfolded i]]
  have peak: "b_packed_expert_bytes_per_slot b' * b_initial_capacity b' \<le> b_initial_serving_peak_bytes b'"
    using w(1) by (simp add: budget_wf_def)
  have grant: "preparation_budget_bytes b' c t = Inr (envelope - serving_peak_at b' c)
      \<and> b_packed_expert_bytes_per_slot b' * (t - c) + b_table_overlap_bytes b' \<le> envelope - serving_peak_at b' c"
    if g: "slots plan < b_maximum_capacity b'" and ct: "10 \<le> c" "c < t" "t \<le> b_maximum_capacity b'" for c t
  proof -
    have "serving_peak_at b' (b_maximum_capacity b') + b_table_overlap_bytes b' \<le> b_effective_budget_bytes b'"
      using w(1) g by (simp add: budget_wf_def w(3) i)
    with serving_peak_at_mono [OF ct(3), of b']
    have "serving_peak_at b' t + b_table_overlap_bytes b' \<le> b_effective_budget_bytes b'" by linarith
    from preparation_budget_complete [OF w(1,2) ct(1) less_imp_le [OF ct(2)] ct(3) this] obtain n
      where n: "preparation_budget_bytes b' c t = Inr n" using lim w(4) by auto
    from preparation_budget_Inr [OF n ct(2) peak] n w(4) show ?thesis by simp
  qed
  have "b_initial_capacity b' = slots plan \<and> slots plan \<le> b_maximum_capacity b' \<and> b_maximum_capacity b' < 512"
    using w(1) by (simp add: budget_wf_def w(3) i)
  moreover have "\<forall>c \<le> b_maximum_capacity b'. serving_peak_at b' c \<le> envelope"
    using serving_peak_in_budget [OF w(1)] w(4) by simp
  ultimately show ?thesis using grant by blast
qed

lemma operating_envelope_funds_every_growth_witness:
  "preparation_budget_bytes operating_budget 93 112 = Inr 2088182788 \<and> serving_peak_at operating_budget 114 \<le> 12000000000"
proof -
  have f: "slots sample_plan < 512" "(12000000000 :: nat) < u64_limit" "b_maximum_capacity operating_budget = 114"
    "slots sample_plan = 93" "serving_peak_at operating_budget 93 = 9911817212"
    by (simp_all add: sample_plan_def u64_limit_def operating_budget_def admitted_budget_def serving_peak_at_def)
  note h = operating_envelope_funds_every_growth [OF sample_admitted f(1) sample_from_admission sample_operating f(2),
      unfolded f(3,4)]
  have "\<forall>c t. 10 \<le> c \<longrightarrow> c < t \<longrightarrow> t \<le> 114 \<longrightarrow>
      preparation_budget_bytes operating_budget c t = Inr (12000000000 - serving_peak_at operating_budget c)"
    using h by simp
  from this [rule_format, of 93 112] f(5) have "preparation_budget_bytes operating_budget 93 112 = Inr 2088182788" by simp
  with h show ?thesis by simp
qed

text \<open>Changing the prefill width for a request phase stays inside the operating envelope: the phase's budget keeps the
  envelope and never widens the extent, leaves at least 64 slots, and at its maximum the serving commitments with the
  phase's workspace and both generations of the address tables fit.\<close>

theorem prefill_phase_stays_in_envelope:
  assumes "with_prefill_width b fp ctx old_rows new_rows = Inr b'" and "budget_wf b" "64 \<le> b_maximum_capacity b"
  shows "budget_wf b' \<and> b_effective_budget_bytes b' = b_effective_budget_bytes b
    \<and> 64 \<le> b_maximum_capacity b' \<and> b_maximum_capacity b' \<le> b_maximum_capacity b
    \<and> b_initial_capacity b' \<le> b_initial_capacity b
    \<and> serving_peak_at b' (b_maximum_capacity b') + b_table_overlap_bytes b' \<le> b_effective_budget_bytes b"
proof -
  have "b_maximum_capacity b < 512" "10 \<le> b_initial_capacity b" using assms(2) by (simp_all add: budget_wf_def)
  from with_prefill_width_wf [OF assms(1) this assms(3)] show ?thesis by simp
qed

lemma sample_operating_wf: "budget_wf operating_budget"
  by (simp add: budget_wf_def operating_budget_def admitted_budget_def serving_peak_at_def)

lemma prefill_phase_stays_in_envelope_witness:
  "serving_peak_at wide_budget 106 + 3532032 \<le> 12000000000 \<and> b_initial_capacity wide_budget \<le> 93"
proof -
  have "64 \<le> b_maximum_capacity operating_budget" by (simp add: operating_budget_def)
  from prefill_phase_stays_in_envelope [OF sample_wide sample_operating_wf this] show ?thesis
    by (simp add: wide_budget_def operating_budget_def admitted_budget_def)
qed

text \<open>the grant for preparing another prefill workspace is exact: at a retained pool of the extent it is what the
  envelope leaves once the present workspace is dropped, so any workspace within the grant keeps the pool's serving
  commitments, with the new workspace in place of the old one, inside the envelope.\<close>

theorem workspace_grant_keeps_envelope:
  assumes ok: "workspace_budget_after_release b ctx rows capacity = Inr grant"
    and scratch: "native_prefill_workspace_bytes_for_capacity ctx rows = Inr scratch" and "new_scratch \<le> grant"
  shows "64 \<le> capacity \<and> capacity \<le> b_maximum_capacity b \<and> scratch \<le> serving_peak_at b capacity
    \<and> grant + (serving_peak_at b capacity - scratch) = b_effective_budget_bytes b
    \<and> serving_peak_at b capacity - scratch + new_scratch \<le> b_effective_budget_bytes b"
proof -
  let ?peak = "b_initial_serving_peak_bytes b" and ?per = "b_packed_expert_bytes_per_slot b"
  from ok scratch have c: "64 \<le> capacity" "capacity \<le> b_maximum_capacity b"
    and e: "?per * b_initial_capacity b \<le> ?peak" "scratch \<le> ?peak - ?per * b_initial_capacity b"
    and g: "?peak - ?per * b_initial_capacity b - scratch + ?per * capacity + grant = b_effective_budget_bytes b"
    unfolding workspace_budget_after_release_def by (auto simp: result_simps rust_arith bind_eq_Some_conv)
  from e(2) have "serving_peak_at b capacity = scratch + (?peak - ?per * b_initial_capacity b - scratch + ?per * capacity)"
    by (simp add: serving_peak_at_def)
  with c g assms(3) show ?thesis by simp
qed

lemma workspace_grant_keeps_envelope_witness:
  "serving_peak_at operating_budget 64 - 522490766 + 1273142158 \<le> 12000000000"
proof -
  have "workspace_budget_after_release operating_budget 1 512 64 = Inr 5383092114"
    using sample_prefill(1)
    by (simp add: workspace_budget_after_release_def mem_eval operating_budget_def admitted_budget_def)
  from workspace_grant_keeps_envelope [OF this sample_prefill(1), of 1273142158] show ?thesis
    by (simp add: operating_budget_def)
qed

section \<open>The context\<close>

text \<open>The partition of a committed frontier loses no token and overruns no buffer: sink, record body and exact suffix
  follow one another up to the frontier, the sink is filled first, the body is a whole number of record tiles, the suffix
  that stays exact always fits the tail ring, and at least the last 8192 tokens of a longer context stay exact.\<close>

theorem frontier_partition_sound:
  "case kvarn_partition f of (sink, body, suffix) \<Rightarrow>
     sink = min f SINK_TOKENS \<and> sink \<le> body \<and> body = suffix \<and> suffix \<le> f
     \<and> (body - SINK_TOKENS) mod TILE_TOKENS = 0 \<and> f - suffix < TAIL_CAPACITY
     \<and> suffix \<le> max (f - EXACT_SUFFIX) (min f SINK_TOKENS)"
proof -
  obtain s b e where p: "kvarn_partition f = (s, b, e)" by (cases "kvarn_partition f")
  have "s = min f SINK_TOKENS" using p by (auto simp: kvarn_partition_def Let_def)
  moreover have "b \<le> max (f - EXACT_SUFFIX) (min f SINK_TOKENS)"
  proof (cases "f \<le> SINK_TOKENS + EXACT_SUFFIX")
    case True
    with p show ?thesis by (auto simp: kvarn_partition_def kvarn_consts Let_def)
  next
    case False
    have "(f - 8320) div 128 * 128 \<le> f - 8320" by (rule div_times_less_eq_dividend)
    with False p show ?thesis by (auto simp: kvarn_partition_def kvarn_consts Let_def)
  qed
  ultimately show ?thesis using kvarn_partition_tiles [OF p] p by simp
qed

end
