(* ===== verification/Rust_Float.thy ===== *)
theory Rust_Float
  imports Complex_Main Rust_Base
begin

text \<open>
  The binary64 arithmetic the code uses on nonnegative values: conversion from \<open>u64\<close>, addition,
  division and multiplication, each the exact rational result rounded to 53 significant bits, ties to even.
  Every value the code computes this way lies between \<open>2^-30\<close> and \<open>2^100\<close> (or is zero), far
  inside the normal range, so neither subnormals nor infinities occur and a rational number
  represents the float exactly.
\<close>

definition round_ties_even :: "rat \<Rightarrow> int" where
  "round_ties_even x =
     (let f = \<lfloor>x\<rfloor>; d = x - of_int f in
      if d < 1 / 2 then f else if 1 / 2 < d then f + 1 else if even f then f else f + 1)"

text \<open>The binary exponent of a positive rational, from the bit lengths of its parts.\<close>

fun bit_length :: "nat \<Rightarrow> nat" where
  "bit_length n = (if n = 0 then 0 else Suc (bit_length (n div 2)))"

declare bit_length.simps [simp del]

definition pow2 :: "int \<Rightarrow> rat" where
  "pow2 e = (if 0 \<le> e then 2 ^ nat e else 1 / 2 ^ nat (- e))"

definition f64_exponent :: "rat \<Rightarrow> int" where
  "f64_exponent x =
     (let (p, q) = quotient_of x;
          e = int (bit_length (nat p)) - int (bit_length (nat q))
      in if pow2 e \<le> x then e else e - 1)"

definition f64_round :: "rat \<Rightarrow> rat" where
  "f64_round x =
     (if x \<le> 0 then 0
      else let ulp = pow2 (f64_exponent x - 52) in of_int (round_ties_even (x / ulp)) * ulp)"

definition f64_of_nat :: "nat \<Rightarrow> rat" where
  "f64_of_nat n = f64_round (of_nat n)"

definition f64_div :: "rat \<Rightarrow> rat \<Rightarrow> rat" where
  "f64_div x y = f64_round (x / y)"

definition f64_mul :: "rat \<Rightarrow> rat \<Rightarrow> rat" where
  "f64_mul x y = f64_round (x * y)"

text \<open>\<open>Duration::as_secs_f64\<close>: the whole seconds plus the nanosecond part over \<open>1e9\<close>.\<close>

definition as_secs_f64 :: "duration \<Rightarrow> rat" where
  "as_secs_f64 d =
     f64_round (f64_of_nat (d div 1000000000) + f64_div (f64_of_nat (d mod 1000000000)) 1000000000)"

subsection \<open>Rounding\<close>

lemma round_ties_even_ge: "of_int k \<le> x \<Longrightarrow> k \<le> round_ties_even x"
proof -
  assume "of_int k \<le> x"
  then have "k \<le> \<lfloor>x\<rfloor>" by (simp add: le_floor_iff)
  then show ?thesis by (simp add: round_ties_even_def Let_def)
qed

lemma round_ties_even_near: "\<bar>of_int (round_ties_even x) - x\<bar> \<le> 1 / 2"
  unfolding round_ties_even_def Let_def by (auto simp: abs_if) linarith+

lemma pow2_pos [simp]: "0 < pow2 e"
  by (simp add: pow2_def)

lemma pow2_add_nat: "pow2 (e + int k) = pow2 e * 2 ^ k"
proof (cases "0 \<le> e")
  case True
  then show ?thesis by (simp add: pow2_def nat_add_distrib power_add)
next
  case False
  note neg = this
  show ?thesis
  proof (cases "0 \<le> e + int k")
    case True
    with neg have "k = nat (e + int k) + nat (- e)" by simp
    then have "(2::rat) ^ k = 2 ^ nat (e + int k) * 2 ^ nat (- e)" by (metis power_add)
    with True neg show ?thesis by (simp add: pow2_def)
  next
    case False
    with neg have "nat (- e) = nat (- (e + int k)) + k" by simp
    then have "(2::rat) ^ nat (- e) = 2 ^ nat (- (e + int k)) * 2 ^ k" by (metis power_add)
    with False neg show ?thesis by (simp add: pow2_def)
  qed
qed

lemma bit_length_bounds: "0 < n \<Longrightarrow> 2 ^ (bit_length n - 1) \<le> n \<and> n < 2 ^ bit_length n"
proof (induction n rule: bit_length.induct)
  case (1 n)
  show ?case
  proof (cases "n div 2 = 0")
    case True
    with "1.prems" have "n = 1" by simp
    then show ?thesis by (simp add: bit_length.simps)
  next
    case False
    with "1" have IH: "2 ^ (bit_length (n div 2) - 1) \<le> n div 2" "n div 2 < 2 ^ bit_length (n div 2)"
      by simp_all
    moreover have "bit_length (n div 2) \<noteq> 0" using False by (simp add: bit_length.simps [of "n div 2"])
    ultimately have "2 ^ bit_length (n div 2) \<le> n" "n < 2 * 2 ^ bit_length (n div 2)"
      by (cases "bit_length (n div 2)"; auto)+
    with "1.prems" show ?thesis by (simp add: bit_length.simps [of n])
  qed
qed

lemma bit_length_pos: "0 < n \<Longrightarrow> 0 < bit_length n"
  by (simp add: bit_length.simps)


lemma pow2_minus_one: "pow2 e = 2 * pow2 (e - 1)"
  using pow2_add_nat [of "e - 1" 1] by simp

lemma pow2_nat: "pow2 (int k) = 2 ^ k"
  by (simp add: pow2_def)

lemma pow2_mono: "d \<le> e \<Longrightarrow> pow2 d \<le> pow2 e"
proof -
  assume "d \<le> e"
  then have e: "pow2 e = pow2 d * 2 ^ nat (e - d)" using pow2_add_nat [of d "nat (e - d)"] by simp
  have "1 \<le> (2::rat) ^ nat (e - d)" by simp
  then have "pow2 d * 1 \<le> pow2 d * 2 ^ nat (e - d)"
    by (rule mult_left_mono) (simp add: less_imp_le)
  with e show ?thesis by simp
qed

lemma pow2_quotient: "pow2 (int a - int b) = 2 ^ a / 2 ^ b"
proof -
  have "pow2 (int a - int b) * 2 ^ b = pow2 (int a)"
    using pow2_add_nat [of "int a - int b" b] by simp
  then show ?thesis by (simp add: pow2_nat field_simps)
qed

lemma f64_exponent_bounds:
  assumes "0 < x"
  shows "pow2 (f64_exponent x) \<le> x \<and> x < 2 * pow2 (f64_exponent x)"
proof -
  obtain p q where pq: "quotient_of x = (p, q)" by (cases "quotient_of x")
  then have q: "0 < q" and x: "x = of_int p / of_int q"
    by (auto dest: quotient_of_denom_pos quotient_of_div)
  have p: "0 < p"
    using assms x q by (simp add: zero_less_divide_iff)
  define m n a b where "m = nat p" and "n = nat q" and "a = bit_length m" and "b = bit_length n"
  have mn: "0 < m" "0 < n" using p q by (simp_all add: m_def n_def)
  have x': "x = of_nat m / of_nat n" using x p q by (simp add: m_def n_def)
  have hm: "2 ^ (a - 1) \<le> m" "m < 2 ^ a" "0 < a"
    using bit_length_bounds [OF mn(1)] bit_length_pos [OF mn(1)] by (simp_all add: a_def)
  have hn: "2 ^ (b - 1) \<le> n" "n < 2 ^ b" "0 < b"
    using bit_length_bounds [OF mn(2)] bit_length_pos [OF mn(2)] by (simp_all add: b_def)
  have "2 * m \<ge> 2 ^ a" "2 * n \<ge> 2 ^ b" using hm hn by (cases a; cases b; simp)+
  then have r: "(2::rat) ^ a \<le> 2 * of_nat m" "(of_nat m :: rat) < 2 ^ a"
    "(2::rat) ^ b \<le> 2 * of_nat n" "(of_nat n :: rat) < 2 ^ b"
    using hm(2) hn(2) by (metis of_nat_le_iff of_nat_less_iff of_nat_mult of_nat_numeral of_nat_power)+
  have npos: "(0::rat) < of_nat n" using mn by simp
  define e where "e = int a - int b"
  have pe: "pow2 e = 2 ^ a / 2 ^ b" by (simp add: e_def pow2_quotient)
  have "x * 2 ^ b < 2 * 2 ^ a"
  proof -
    have "x * 2 ^ b \<le> x * (2 * of_nat n)" using r(3) assms by (intro mult_left_mono) simp_all
    also have "\<dots> = 2 * of_nat m" using npos x' by simp
    also have "\<dots> < 2 * 2 ^ a" using r(2) by simp
    finally show ?thesis .
  qed
  then have up: "x < 2 * pow2 e" by (simp add: pe field_simps)
  have "2 ^ a \<le> 2 * (x * 2 ^ b)"
  proof -
    have "2 ^ a \<le> 2 * (of_nat m :: rat)" by (rule r(1))
    also have "\<dots> = 2 * (x * of_nat n)" using npos x' by simp
    also have "\<dots> \<le> 2 * (x * 2 ^ b)" using r(4) assms by (simp add: mult_left_mono less_imp_le)
    finally show ?thesis .
  qed
  then have lo: "pow2 e \<le> 2 * x" by (simp add: pe field_simps)
  have "f64_exponent x = (if pow2 e \<le> x then e else e - 1)"
    by (simp add: f64_exponent_def pq e_def a_def b_def m_def n_def)
  then show ?thesis using up lo pow2_minus_one [of e] by (auto split: if_splits)
qed

lemma f64_round_ge_exponent: "0 < x \<Longrightarrow> pow2 (f64_exponent x) \<le> f64_round x"
proof -
  assume x: "0 < x"
  define u where "u = pow2 (f64_exponent x - 52)"
  have e: "pow2 (f64_exponent x) = 2 ^ 52 * u"
    using pow2_add_nat [of "f64_exponent x - 52" 52] by (simp add: u_def)
  have u: "0 < u" by (simp add: u_def)
  have "2 ^ 52 * u \<le> x" using f64_exponent_bounds [OF x] e by simp
  then have "of_int (2 ^ 52) \<le> x / u" using u by (simp add: field_simps)
  then have "2 ^ 52 \<le> round_ties_even (x / u)" by (rule round_ties_even_ge)
  then have "of_int (2 ^ 52) \<le> (of_int (round_ties_even (x / u)) :: rat)" by (simp only: of_int_le_iff)
  then have "of_int (2 ^ 52) * u \<le> of_int (round_ties_even (x / u)) * u"
    using u by (intro mult_right_mono) simp_all
  with x e show ?thesis by (simp add: f64_round_def Let_def u_def)
qed

lemma f64_round_pos: "0 < x \<Longrightarrow> 0 < f64_round x"
  using f64_round_ge_exponent pow2_pos less_le_trans by blast

lemma f64_round_eq_0_iff: "f64_round x = 0 \<longleftrightarrow> x \<le> 0"
  using f64_round_pos [of x] by (cases "x \<le> 0") (auto simp: f64_round_def)

lemma f64_round_nonneg: "0 \<le> f64_round x"
  using f64_round_pos [of x] by (cases "x \<le> 0") (auto simp: f64_round_def)

text \<open>Rounding never moves a value below a power of two, so a rounded value under such a
  threshold comes from an exact value under it.\<close>

lemma f64_round_pow2_le: "pow2 k \<le> x \<Longrightarrow> pow2 k \<le> f64_round x"
proof -
  assume k: "pow2 k \<le> x"
  then have x: "0 < x" using pow2_pos less_le_trans by blast
  have "k \<le> f64_exponent x"
  proof (rule ccontr)
    assume "\<not> k \<le> f64_exponent x"
    then have "pow2 (f64_exponent x + 1) \<le> pow2 k" by (intro pow2_mono) simp
    moreover have "x < pow2 (f64_exponent x + 1)"
      using f64_exponent_bounds [OF x] pow2_add_nat [of "f64_exponent x" 1] by simp
    ultimately show False using k by simp
  qed
  then have "pow2 k \<le> pow2 (f64_exponent x)" by (rule pow2_mono)
  then show ?thesis using f64_round_ge_exponent [OF x] by simp
qed

lemma f64_of_nat_eq_0_iff [simp]: "f64_of_nat n = 0 \<longleftrightarrow> n = 0"
  by (simp add: f64_of_nat_def f64_round_eq_0_iff)

lemma f64_of_nat_0 [simp]: "f64_of_nat 0 = 0"
  by simp

lemma f64_of_nat_pos: "0 < n \<Longrightarrow> 0 < f64_of_nat n"
  by (simp add: f64_of_nat_def f64_round_pos)

lemma f64_of_nat_nonneg: "0 \<le> f64_of_nat n"
  by (simp add: f64_of_nat_def f64_round_nonneg)

lemma f64_div_eq_0_iff: "0 \<le> x \<Longrightarrow> 0 < y \<Longrightarrow> f64_div x y = 0 \<longleftrightarrow> x = 0"
  by (auto simp: f64_div_def f64_round_eq_0_iff divide_le_0_iff)

lemma as_secs_f64_pos: "0 < d \<Longrightarrow> 0 < as_secs_f64 d"
proof -
  assume d: "0 < d"
  have "0 < f64_of_nat (d div 1000000000) + f64_div (f64_of_nat (d mod 1000000000)) 1000000000"
  proof (cases "d div 1000000000 = 0")
    case True
    with d have "0 < d mod 1000000000" by (metis add.left_neutral div_mult_mod_eq mult_zero_left)
    then have "0 < f64_div (f64_of_nat (d mod 1000000000)) 1000000000"
      by (simp add: f64_div_def f64_round_pos f64_of_nat_pos)
    then show ?thesis using f64_of_nat_nonneg [of "d div 1000000000"] by linarith
  next
    case False
    then have "0 < f64_of_nat (d div 1000000000)" by (simp add: f64_of_nat_pos)
    moreover have "0 \<le> f64_div (f64_of_nat (d mod 1000000000)) 1000000000"
      by (simp add: f64_div_def f64_round_nonneg)
    ultimately show ?thesis by linarith
  qed
  then show ?thesis by (simp add: as_secs_f64_def f64_round_pos)
qed

end
