(* ===== verification/Adaptive_Policy.thy ===== *)
theory Adaptive_Policy
  imports Rust_Float
begin

text \<open>
  The policy of \<open>src/adaptive_memory.rs\<close>: how sampled memory pressure and VM counters,
  observed at inference boundaries, decide when bounded expert storage is released, kept,
  restored or grown. The record \<open>policy\<close> has the fields of \<open>struct Policy\<close>
  (\<open>capacity\<close> and \<open>state\<close> are \<open>p_capacity\<close> and \<open>p_state\<close>); every method of \<open>impl Policy\<close> is
  one definition, a method that takes \<open>&mut self\<close> returning the new policy. \<open>observe\<close> is composed
  of the consecutive parts of the method's body. Times are nanoseconds since the controller
  started. An \<open>unwrap\<close> of the elapsed time stands behind \<open>!gap\<close>, where it is present.
\<close>

section \<open>Data\<close>

definition SAMPLE_INTERVAL :: duration where "SAMPLE_INTERVAL = dur_secs 1"
definition SAMPLE_GAP_LIMIT :: duration where "SAMPLE_GAP_LIMIT = dur_secs 5"
definition RELEASE_INTERVAL :: duration where "RELEASE_INTERVAL = dur_secs 5"
definition RECOVERY_COOLDOWN :: duration where "RECOVERY_COOLDOWN = dur_secs 5"
definition ACTIVE_VALIDATION :: duration where "ACTIVE_VALIDATION = dur_secs 15"
definition COMPRESSION_VETO_BYTES_PER_SECOND :: rat where
  "COMPRESSION_VETO_BYTES_PER_SECOND = 16777216"
definition MIN_CAPACITY :: nat where "MIN_CAPACITY = 64"
definition GROWTH_STEP_SLOTS :: nat where "GROWTH_STEP_SLOTS = 16"

lemmas policy_consts = SAMPLE_INTERVAL_def SAMPLE_GAP_LIMIT_def RELEASE_INTERVAL_def
  RECOVERY_COOLDOWN_def ACTIVE_VALIDATION_def MIN_CAPACITY_def GROWTH_STEP_SLOTS_def dur_secs_def

datatype boundary = Observe | RequestStart | CompletedOperation

datatype pressure = Pressure_Normal | Pressure_Warning | Pressure_Critical

definition pressure_from_raw :: "int \<Rightarrow> pressure option" where
  "pressure_from_raw raw =
     (if raw = 1 then Some Pressure_Normal else if raw = 2 then Some Pressure_Warning
      else if raw = 4 then Some Pressure_Critical else None)"

record vm_counters =
  compressions :: nat
  decompressions :: nat
  swapins :: nat
  swapouts :: nat
  page_bytes :: nat

record observation =
  obs_pressure :: "pressure option"
  obs_counters :: "vm_counters option"

datatype vm_state = Unknown | NormalBusy | NormalQuiet | Warning | Critical

datatype action = Hold | Release nat | Rollback nat | ChurnRelease nat | Recover nat | Stop

datatype eligibility = Growth_Hold | Growth_Restore | Growth_Trial

record wphase =
  ordinary_capacity :: nat
  phase_release_epoch :: nat

record policy =
  preparation_healthy :: duration
  active_churn :: duration
  last_churn_sample_active :: bool
  validated_in_request :: "nat option"
  initial_capacity :: nat
  maximum_capacity :: nat
  p_capacity :: nat
  earned_target :: "nat option"
  trial_base :: "nat option"
  trial_capacity :: "nat option"
  last_sample :: "duration option"
  previous_counters :: "vm_counters option"
  quiet_since :: "duration option"
  request_started :: "duration option"
  last_sample_active :: bool
  last_sample_trial_active :: bool
  trial_adverse_active :: duration
  request_clean_active :: duration
  completed_clean_active :: duration
  last_release :: "duration option"
  last_capacity_change :: "duration option"
  last_increase :: "duration option"
  retry_delay :: duration
  retry_not_before :: "duration option"
  critical_at_floor :: bool
  stop_latched :: bool
  p_state :: "vm_state option"
  workspace_phase :: "wphase option"

section \<open>Counter rates\<close>

text \<open>The closure \<open>rate\<close>: \<open>None\<close> on a reset (the counter went down) or an overflow.\<close>

definition vm_rate :: "nat \<Rightarrow> nat \<Rightarrow> nat \<Rightarrow> duration \<Rightarrow> rat option" where
  "vm_rate page elapsed_after before elapsed =
     Option.bind (checked_sub elapsed_after before) (\<lambda>d.
     Option.bind (checked_mul d page) (\<lambda>bytes.
     Some (f64_div (f64_of_nat bytes) (as_secs_f64 elapsed))))"

definition counters_quiet_since :: "vm_counters \<Rightarrow> vm_counters \<Rightarrow> duration \<Rightarrow> bool option" where
  "counters_quiet_since c before elapsed =
     (if elapsed = 0 \<or> page_bytes c = 0 \<or> page_bytes c \<noteq> page_bytes before then None
      else
        Option.bind (vm_rate (page_bytes c) (compressions c) (compressions before) elapsed) (\<lambda>compression.
        Option.bind (vm_rate (page_bytes c) (decompressions c) (decompressions before) elapsed) (\<lambda>_.
        Option.bind (vm_rate (page_bytes c) (swapins c) (swapins before) elapsed) (\<lambda>_.
        Option.bind (vm_rate (page_bytes c) (swapouts c) (swapouts before) elapsed) (\<lambda>swap_out.
        Some (swap_out = 0 \<and> compression < COMPRESSION_VETO_BYTES_PER_SECOND))))))"

definition counters_churning_since :: "vm_counters \<Rightarrow> vm_counters \<Rightarrow> duration \<Rightarrow> bool option" where
  "counters_churning_since c before elapsed =
     Option.bind (counters_quiet_since c before elapsed) (\<lambda>quiet.
     if quiet then Some False
     else
       Option.bind (vm_rate (page_bytes c) (decompressions c) (decompressions before) elapsed)
         (\<lambda>decompression. Some (swapouts before < swapouts c
            \<or> COMPRESSION_VETO_BYTES_PER_SECOND \<le> decompression)))"

section \<open>The policy's methods\<close>

definition policy_init :: "nat \<Rightarrow> nat \<Rightarrow> policy" where
  "policy_init initial maximum =
     \<lparr> preparation_healthy = 0, active_churn = 0, last_churn_sample_active = False,
       validated_in_request = None, initial_capacity = initial, maximum_capacity = maximum,
       p_capacity = initial, earned_target = None, trial_base = None, trial_capacity = None,
       last_sample = None, previous_counters = None, quiet_since = None, request_started = None,
       last_sample_active = False, last_sample_trial_active = False, trial_adverse_active = 0,
       request_clean_active = 0, completed_clean_active = 0, last_release = None,
       last_capacity_change = None, last_increase = None, retry_delay = RECOVERY_COOLDOWN,
       retry_not_before = None, critical_at_floor = False, stop_latched = False, p_state = None,
       workspace_phase = None \<rparr>"

definition policy_new :: "nat \<Rightarrow> nat \<Rightarrow> policy result" where
  "policy_new initial maximum =
     ensure (MIN_CAPACITY \<le> initial \<and> initial < 512 \<and> initial \<le> maximum \<and> maximum < 512)
       ''adaptive memory requires a bounded expert ceiling of at least 64 slots''
     (Inr (policy_init initial maximum))"

definition validation_extent_matches :: "policy \<Rightarrow> nat \<Rightarrow> bool" where
  "validation_extent_matches p cap = is_none_or (\<lambda>ph. ordinary_capacity ph = cap) (workspace_phase p)"

definition clear_capacity_validation :: "policy \<Rightarrow> policy" where
  "clear_capacity_validation p = p \<lparr> preparation_healthy := 0, active_churn := 0,
     last_churn_sample_active := False, validated_in_request := None, request_clean_active := 0,
     completed_clean_active := 0, last_sample_active := False, last_sample_trial_active := False,
     trial_adverse_active := 0 \<rparr>"

definition clear_workspace_validation :: "policy \<Rightarrow> policy" where
  "clear_workspace_validation p =
     (let adverse = trial_adverse_active p; p1 = clear_capacity_validation p in
      if trial_capacity p1 \<noteq> None then p1 \<lparr> trial_adverse_active := adverse \<rparr> else p1)"

definition under_pressure :: "vm_state option \<Rightarrow> bool" where
  "under_pressure s \<longleftrightarrow> s = Some Warning \<or> s = Some Critical"

definition try_begin_workspace_phase :: "nat \<Rightarrow> nat \<Rightarrow> nat \<Rightarrow> policy \<Rightarrow> (bool \<times> policy) result" where
  "try_begin_workspace_phase cap target_cap epoch p =
     ensure (workspace_phase p = None) ''workspace phase is already active''
     (ensure (MIN_CAPACITY \<le> cap \<and> cap \<le> maximum_capacity p
          \<and> MIN_CAPACITY \<le> target_cap \<and> target_cap \<le> cap)
       ''workspace phase capacity is outside its ordinary operating extent''
     (if stop_latched p \<or> under_pressure (p_state p) then Inr (False, p)
      else
        let p1 = (if p_capacity p \<noteq> cap then (clear_capacity_validation p) \<lparr> p_capacity := cap \<rparr> else p)
        in Inr (True, p1 \<lparr> workspace_phase :=
             Some \<lparr> ordinary_capacity = cap, phase_release_epoch = epoch \<rparr> \<rparr>)))"

definition sync_planned_workspace_capacity :: "duration \<Rightarrow> nat \<Rightarrow> policy \<Rightarrow> policy result" where
  "sync_planned_workspace_capacity now cap p =
     bindr (ok_or (workspace_phase p) ''workspace phase is not active'') (\<lambda>phase.
     ensure (MIN_CAPACITY \<le> cap \<and> cap \<le> ordinary_capacity phase)
       ''planned workspace change differs from the active expert extent''
     (Inr (if p_capacity p = cap then p
       else
         let p1 = (if trial_capacity p \<noteq> None
           then clear_workspace_validation
             (p \<lparr> trial_base := map_option (\<lambda>base. min base cap) (trial_base p), trial_capacity := Some cap \<rparr>)
           else p)
         in p1 \<lparr> p_capacity := cap, quiet_since := None, last_capacity_change := Some now,
              last_sample_active := False, last_sample_trial_active := False \<rparr>)))"

definition workspace_restoration_allowed :: "duration \<Rightarrow> nat \<Rightarrow> policy \<Rightarrow> bool" where
  "workspace_restoration_allowed now epoch p = is_some_and (\<lambda>phase.
     p_capacity p < ordinary_capacity phase
     \<and> phase_release_epoch phase = epoch
     \<and> trial_capacity p = None
     \<and> \<not> stop_latched p
     \<and> p_state p = Some NormalQuiet
     \<and> is_some_and (elapsed_le now SAMPLE_INTERVAL) (last_sample p)
     \<and> is_some_and (elapsed_ge now RECOVERY_COOLDOWN) (quiet_since p)
     \<and> is_none_or (elapsed_ge now RECOVERY_COOLDOWN) (last_capacity_change p)
     \<and> is_none_or (\<lambda>until. until \<le> now) (retry_not_before p)) (workspace_phase p)"

definition finish_workspace_phase :: "policy \<Rightarrow> policy" where
  "finish_workspace_phase p =
     (case workspace_phase p of
        None \<Rightarrow> p
      | Some phase \<Rightarrow>
          let p1 = p \<lparr> workspace_phase := None \<rparr> in
          if p_capacity p1 \<noteq> ordinary_capacity phase then clear_workspace_validation p1 else p1)"

definition begin_request :: "duration \<Rightarrow> policy \<Rightarrow> policy" where
  "begin_request now p = p \<lparr> last_churn_sample_active := False, validated_in_request := None,
     request_started := Some now, request_clean_active := 0, last_sample_active := False,
     last_sample_trial_active := False \<rparr>"

text \<open>The credit a successful, freshly sampled request adds in \<open>end_request\<close>: a smaller extent
  validated during the request, then the request's clean time, then acceptance.\<close>

definition accept_validated :: "nat option \<Rightarrow> policy \<Rightarrow> policy" where
  "accept_validated validated p =
     (case opt_filter (\<lambda>target. target < p_capacity p) validated of
        None \<Rightarrow> p
      | Some target \<Rightarrow>
          let p1 = p \<lparr> earned_target := Some (max (unwrap_or 0 (earned_target p)) target) \<rparr> in
          if trial_capacity p1 = Some (p_capacity p1)
          then p1 \<lparr> trial_base := Some (max (unwrap_or target (trial_base p1)) target) \<rparr>
          else p1)"

definition accept_completed :: "policy \<Rightarrow> policy" where
  "accept_completed p =
     (let p1 = p \<lparr> completed_clean_active :=
          min (dur_saturating_add (completed_clean_active p) (request_clean_active p)) ACTIVE_VALIDATION \<rparr>
      in if ACTIVE_VALIDATION \<le> completed_clean_active p1
         then
           let accepted_trial = (trial_capacity p1 = Some (p_capacity p1));
               p2 = p1 \<lparr> earned_target := Some (max (unwrap_or 0 (earned_target p1)) (p_capacity p1)) \<rparr>;
               p3 = (if accepted_trial then p2 \<lparr> trial_base := None, trial_capacity := None,
                       trial_adverse_active := 0 \<rparr> else p2)
           in if accepted_trial then p3 \<lparr> retry_delay := RECOVERY_COOLDOWN, retry_not_before := None \<rparr>
              else p3
         else p1)"

definition end_request :: "duration \<Rightarrow> bool \<Rightarrow> policy \<Rightarrow> policy" where
  "end_request now completed p =
     (let validated = validated_in_request p;
          was_active = (request_started p \<noteq> None);
          p1 = p \<lparr> validated_in_request := None, last_churn_sample_active := False,
                 request_started := None, last_sample_active := False,
                 last_sample_trial_active := False \<rparr>;
          fresh = is_some_and (elapsed_le now SAMPLE_GAP_LIMIT) (last_sample p1);
          p2 = (if was_active \<and> completed \<and> fresh \<and> validation_extent_matches p1 (p_capacity p1)
                  \<and> (p_state p1 = Some NormalQuiet \<or> p_state p1 = Some NormalBusy)
                then accept_completed (accept_validated validated p1) else p1)
      in p2 \<lparr> request_clean_active := 0 \<rparr>)"

definition sample_due :: "duration \<Rightarrow> policy \<Rightarrow> bool" where
  "sample_due now p = is_none_or (elapsed_ge now SAMPLE_INTERVAL) (last_sample p)"

definition is_restoring :: "policy \<Rightarrow> nat \<Rightarrow> bool" where
  "is_restoring p cap = is_some_and (\<lambda>target. cap < target) (earned_target p)"

definition growth_target_of :: "policy \<Rightarrow> nat \<Rightarrow> nat" where
  "growth_target_of p cap =
     (if is_restoring p cap then the (earned_target p) else maximum_capacity p)"

definition next_capacity :: "policy \<Rightarrow> nat \<Rightarrow> nat" where
  "next_capacity p cap =
     (let target = max (min (growth_target_of p cap) (maximum_capacity p)) cap in
      if is_restoring p cap \<and> target - cap \<le> GROWTH_STEP_SLOTS then target
      else max (min ((cap div GROWTH_STEP_SLOTS + 1) * GROWTH_STEP_SLOTS) target) cap)"

definition settled :: "duration \<Rightarrow> policy \<Rightarrow> bool" where
  "settled now p \<longleftrightarrow>
     is_some_and (elapsed_ge now RECOVERY_COOLDOWN) (quiet_since p)
     \<and> is_none_or (elapsed_ge now RECOVERY_COOLDOWN) (last_capacity_change p)
     \<and> is_none_or (\<lambda>until. until \<le> now) (retry_not_before p)"

definition growth_eligibility :: "duration \<Rightarrow> nat \<Rightarrow> policy \<Rightarrow> eligibility" where
  "growth_eligibility now cap p =
     (if workspace_phase p \<noteq> None \<or> maximum_capacity p \<le> cap \<or> stop_latched p
         \<or> p_state p \<noteq> Some NormalQuiet \<or> \<not> settled now p then Growth_Hold
      else if is_restoring p cap then Growth_Restore
      else if trial_capacity p \<noteq> None
         \<and> (if request_started p \<noteq> None
            then completed_clean_active p + request_clean_active p < ACTIVE_VALIDATION
            else completed_clean_active p \<noteq> 0) then Growth_Hold
      else if trial_capacity p \<noteq> None \<and> preparation_healthy p < ACTIVE_VALIDATION then Growth_Hold
      else Growth_Trial)"

definition recovery_action :: "duration \<Rightarrow> nat \<Rightarrow> policy \<Rightarrow> action" where
  "recovery_action now cap p =
     (case growth_eligibility now cap p of
        Growth_Restore \<Rightarrow> Recover (next_capacity p cap)
      | Growth_Trial \<Rightarrow> Recover (next_capacity p cap)
      | Growth_Hold \<Rightarrow> Hold)"

definition cached_action :: "duration \<Rightarrow> nat \<Rightarrow> policy \<Rightarrow> action" where
  "cached_action now cap p =
     (if \<not> is_some_and (elapsed_le now SAMPLE_INTERVAL) (last_sample p) then Hold
      else if stop_latched p \<and> cap = MIN_CAPACITY then Stop
      else recovery_action now cap p)"

definition double_retry :: "duration \<Rightarrow> policy \<Rightarrow> policy" where
  "double_retry now p =
     (let p1 = p \<lparr> retry_delay := min (retry_delay p * 2) (dur_secs 120) \<rparr> in
      p1 \<lparr> retry_not_before := Some (dur_saturating_add now (retry_delay p1)) \<rparr>)"

definition interrupted_work :: "duration \<Rightarrow> bool \<Rightarrow> policy \<Rightarrow> policy" where
  "interrupted_work now always_backoff p =
     (let pending_trial = (trial_capacity p \<noteq> None);
          recent_increase = is_some_and (elapsed_le now ACTIVE_VALIDATION) (last_increase p);
          p1 = p \<lparr> trial_capacity := None, trial_base := None, last_increase := None \<rparr>;
          p2 = (if pending_trial \<or> recent_increase \<or> always_backoff then double_retry now p1 else p1)
      in clear_capacity_validation p2)"

definition pressure_interrupted_work :: "duration \<Rightarrow> policy \<Rightarrow> policy" where
  "pressure_interrupted_work now p = interrupted_work now False p"

definition validation_before_growth :: "policy \<Rightarrow> nat \<Rightarrow> nat option" where
  "validation_before_growth p new_cap =
     (if new_cap \<le> p_capacity p then None
      else
        let qualified =
          (if request_started p \<noteq> None \<and> validation_extent_matches p (p_capacity p)
              \<and> ACTIVE_VALIDATION \<le> completed_clean_active p + request_clean_active p
           then Some (p_capacity p) else None)
        in opt_max (validated_in_request p) qualified)"

definition capacity_changed :: "duration \<Rightarrow> nat \<Rightarrow> nat \<Rightarrow> policy \<Rightarrow> policy" where
  "capacity_changed now old_cap new_cap p =
     (let validated = validation_before_growth p new_cap;
          pending_adversity =
            (if old_cap < new_cap \<and> trial_capacity p = Some old_cap
             then Some (trial_adverse_active p) else None);
          p1 = (clear_capacity_validation (p \<lparr> p_capacity := new_cap, quiet_since := None \<rparr>))
                 \<lparr> validated_in_request := validated \<rparr>;
          p2 = (case pending_adversity of None \<Rightarrow> p1
                | Some adverse \<Rightarrow> p1 \<lparr> trial_adverse_active := adverse \<rparr>);
          p3 = p2 \<lparr> last_capacity_change := Some now \<rparr>
      in if old_cap < new_cap then
           let p4 = p3 \<lparr> last_increase := Some now \<rparr> in
           if \<not> is_some_and (\<lambda>target. new_cap \<le> target) (earned_target p4)
           then p4 \<lparr> trial_base := Some (unwrap_or old_cap (trial_base p4)), trial_capacity := Some new_cap \<rparr>
           else p4
         else if new_cap < old_cap then
           p3 \<lparr> last_release := Some now, trial_base := None, trial_capacity := None \<rparr>
         else p3)"

definition trial_interval_started :: "policy \<Rightarrow> bool" where
  "trial_interval_started p =
     (if workspace_phase p = None then True
      else is_some_and (\<lambda>started. is_some_and (\<lambda>last. started \<le> last) (last_sample p)) (request_started p))"

definition recovery_failed :: "duration \<Rightarrow> policy \<Rightarrow> policy" where
  "recovery_failed now p = double_retry now (p \<lparr> quiet_since := None \<rparr>)"

subsection \<open>Observing\<close>

definition observed_churn :: "observation \<Rightarrow> duration option \<Rightarrow> policy \<Rightarrow> bool option" where
  "observed_churn obs elapsed p =
     Option.bind (opt_zip (opt_zip (obs_counters obs) (previous_counters p)) elapsed)
       (\<lambda>((after, before), dt). counters_churning_since after before dt)"

definition observe_churn :: "boundary \<Rightarrow> observation \<Rightarrow> duration option \<Rightarrow> policy \<Rightarrow> bool \<times> policy" where
  "observe_churn b obs elapsed p =
     (let active = (b = CompletedOperation \<and> request_started p \<noteq> None);
          interval_active = (active \<and> last_churn_sample_active p
            \<and> is_some_and (\<lambda>started. is_some_and (\<lambda>last. started \<le> last) (last_sample p)) (request_started p));
          churn = observed_churn obs elapsed p;
          p1 = (if interval_active \<and> obs_pressure obs = Some Pressure_Normal then
                  let credit = min (unwrap_or 0 elapsed) SAMPLE_GAP_LIMIT in
                  p \<lparr> active_churn := (case churn of
                       Some True \<Rightarrow> min (dur_saturating_add (active_churn p) credit) ACTIVE_VALIDATION
                     | Some False \<Rightarrow> active_churn p - credit
                     | None \<Rightarrow> 0) \<rparr>
                else if \<not> active \<or> obs_pressure obs \<noteq> Some Pressure_Normal \<or> churn = None
                then p \<lparr> active_churn := 0 \<rparr> else p);
          p2 = p1 \<lparr> last_churn_sample_active := active \<rparr>
      in (ACTIVE_VALIDATION \<le> active_churn p2, p2))"

definition observed_quiet :: "observation \<Rightarrow> duration option \<Rightarrow> policy \<Rightarrow> bool option" where
  "observed_quiet obs elapsed p =
     Option.bind (opt_zip (opt_zip (obs_counters obs) (previous_counters p)) elapsed)
       (\<lambda>((after, before), dt). counters_quiet_since after before dt)"

definition classify :: "observation \<Rightarrow> bool \<Rightarrow> bool option \<Rightarrow> vm_state" where
  "classify obs gap quiet =
     (case obs_pressure obs of
        None \<Rightarrow> Unknown
      | Some Pressure_Warning \<Rightarrow> Warning
      | Some Pressure_Critical \<Rightarrow> Critical
      | Some Pressure_Normal \<Rightarrow>
          if gap then Unknown
          else (case quiet of None \<Rightarrow> Unknown | Some False \<Rightarrow> NormalBusy | Some True \<Rightarrow> NormalQuiet))"

definition observe_preparation_span :: "vm_state \<Rightarrow> duration option \<Rightarrow> bool \<Rightarrow> policy \<Rightarrow> policy" where
  "observe_preparation_span s elapsed gap p =
     (if workspace_phase p \<noteq> None \<or> s \<noteq> NormalQuiet \<or> p_state p \<noteq> Some NormalQuiet \<or> gap
         \<or> \<not> is_some_and (\<lambda>last. is_none_or (\<lambda>changed. changed \<le> last) (last_capacity_change p)) (last_sample p)
      then p
      else p \<lparr> preparation_healthy :=
        min (dur_saturating_add (preparation_healthy p) (the elapsed)) ACTIVE_VALIDATION \<rparr>)"

text \<open>Adverse time charged to the unaccepted trial.\<close>

definition observe_adverse ::
    "nat \<Rightarrow> boundary \<Rightarrow> vm_state \<Rightarrow> duration option \<Rightarrow> bool \<Rightarrow> policy \<Rightarrow> policy" where
  "observe_adverse cap b s elapsed gap p =
     (let trial_active = (workspace_phase p = None
            \<or> (request_started p \<noteq> None \<and> b = CompletedOperation));
          p1 = (if trial_capacity p = Some cap \<and> s = NormalBusy \<and> \<not> gap \<and> trial_active
                  \<and> last_sample_trial_active p \<and> trial_interval_started p
                then p \<lparr> trial_adverse_active :=
                  min (dur_saturating_add (trial_adverse_active p) (the elapsed)) ACTIVE_VALIDATION \<rparr>
                else p)
      in p1 \<lparr> last_sample_trial_active := trial_active \<rparr>)"

text \<open>The quiet interval and the request's clean active time.\<close>

definition observe_quiet_span ::
    "duration \<Rightarrow> nat \<Rightarrow> vm_state \<Rightarrow> duration option \<Rightarrow> bool \<Rightarrow> policy \<Rightarrow> policy" where
  "observe_quiet_span now cap s elapsed gap p =
     (let request_active = (request_started p \<noteq> None \<and> validation_extent_matches p cap);
          p1 = (if s \<noteq> NormalQuiet then p \<lparr> quiet_since := None \<rparr>
                else
                  let p2 = p \<lparr> quiet_since := Some (unwrap_or now (quiet_since p)) \<rparr> in
                  if request_active \<and> \<not> gap \<and> p_state p2 = Some NormalQuiet \<and> last_sample_active p2
                    \<and> is_some_and (\<lambda>started. is_some_and (\<lambda>last. started \<le> last) (last_sample p2))
                        (request_started p2)
                  then p2 \<lparr> request_clean_active :=
                    min (dur_saturating_add (request_clean_active p2) (the elapsed)) ACTIVE_VALIDATION \<rparr>
                  else p2)
      in p1 \<lparr> last_sample_active := (s = NormalQuiet \<and> request_active) \<rparr>)"

text \<open>Recording the sample: a pressure episode interrupts work when it starts, and any state but
  critical clears the stop latch.\<close>

definition observe_record :: "duration \<Rightarrow> observation \<Rightarrow> vm_state \<Rightarrow> policy \<Rightarrow> policy" where
  "observe_record now obs s p =
     (let p1 = p \<lparr> last_sample := Some now, previous_counters := obs_counters obs \<rparr>;
          p2 = (if under_pressure (Some s) \<and> \<not> under_pressure (p_state p1)
                then pressure_interrupted_work now p1 else p1);
          p3 = (if s \<noteq> Critical then p2 \<lparr> critical_at_floor := False, stop_latched := False \<rparr> else p2)
      in p3 \<lparr> p_state := Some s \<rparr>)"

definition round_down_slots :: "nat \<Rightarrow> nat" where
  "round_down_slots n = n div GROWTH_STEP_SLOTS * GROWTH_STEP_SLOTS"

definition observe_action :: "duration \<Rightarrow> nat \<Rightarrow> vm_state \<Rightarrow> bool \<Rightarrow> policy \<Rightarrow> action \<times> policy" where
  "observe_action now cap s churned p =
     (let trial_rollback = opt_filter (\<lambda>base. trial_capacity p = Some cap \<and> base < cap) (trial_base p);
          fallback = (if churned \<and> MIN_CAPACITY < cap
            then ChurnRelease (max (case opt_filter (\<lambda>base. base < cap) (trial_base p) of
                     None \<Rightarrow> round_down_slots (cap - 1) | Some base \<Rightarrow> round_down_slots base) MIN_CAPACITY)
            else Hold)
      in case s of
           Critical \<Rightarrow>
             if MIN_CAPACITY < cap then (Release MIN_CAPACITY, p \<lparr> critical_at_floor := True \<rparr>)
             else if critical_at_floor p
               then (Stop, p \<lparr> critical_at_floor := True, stop_latched := True \<rparr>)
               else (Hold, p \<lparr> critical_at_floor := True \<rparr>)
         | Warning \<Rightarrow>
             if MIN_CAPACITY < cap then
               (if is_none_or (elapsed_ge now RELEASE_INTERVAL) (last_release p)
                then Release (max (round_down_slots (cap - 1)) MIN_CAPACITY) else Hold, p)
             else (fallback, p)
         | NormalQuiet \<Rightarrow> (recovery_action now cap p, p)
         | NormalBusy \<Rightarrow>
             if ACTIVE_VALIDATION \<le> trial_adverse_active p \<and> trial_rollback \<noteq> None
             then (Rollback (max (round_down_slots (the trial_rollback)) MIN_CAPACITY), p)
             else (fallback, p)
         | Unknown \<Rightarrow> (fallback, p))"

definition observe :: "duration \<Rightarrow> nat \<Rightarrow> boundary \<Rightarrow> observation \<Rightarrow> policy \<Rightarrow> action option \<times> policy" where
  "observe now cap b obs p0 =
     (if \<not> sample_due now p0 then (None, p0)
      else
        let p1 = p0 \<lparr> p_capacity := cap \<rparr>;
            elapsed = Option.bind (last_sample p1) (checked_sub now);
            gap = is_none_or (\<lambda>dt. SAMPLE_GAP_LIMIT < dt) elapsed;
            (churned, p2) = observe_churn b obs elapsed p1;
            s = classify obs gap (observed_quiet obs elapsed p2);
            p3 = observe_adverse cap b s elapsed gap p2;
            p4 = observe_quiet_span now cap s elapsed gap p3;
            p5 = observe_preparation_span s elapsed gap p4;
            p6 = observe_record now obs s p5;
            (act, p7) = observe_action now cap s churned p6
        in (Some act, p7))"

end
