(* ===== verification/Adaptive_Invariants.thy ===== *)
theory Adaptive_Invariants
  imports Adaptive_Policy
begin

text \<open>
  What the adaptive memory policy keeps and what its actions promise: the invariant
  \<open>policy_wf\<close> and its preservation by every method, the range of every action chosen, the
  conditions under which storage grows, and the meaning of the counter rates.
\<close>

section \<open>The invariant\<close>

definition times_wf :: "policy \<Rightarrow> bool" where
  "times_wf p \<longleftrightarrow>
     preparation_healthy p \<le> ACTIVE_VALIDATION \<and> active_churn p \<le> ACTIVE_VALIDATION
     \<and> trial_adverse_active p \<le> ACTIVE_VALIDATION \<and> request_clean_active p \<le> ACTIVE_VALIDATION
     \<and> completed_clean_active p \<le> ACTIVE_VALIDATION
     \<and> RECOVERY_COOLDOWN \<le> retry_delay p \<and> retry_delay p \<le> dur_secs 120"

definition extent_wf :: "policy \<Rightarrow> bool" where
  "extent_wf p \<longleftrightarrow>
     MIN_CAPACITY \<le> initial_capacity p \<and> initial_capacity p \<le> maximum_capacity p
     \<and> maximum_capacity p < 512
     \<and> MIN_CAPACITY \<le> p_capacity p \<and> p_capacity p \<le> maximum_capacity p
     \<and> is_none_or (\<lambda>t. MIN_CAPACITY \<le> t \<and> t \<le> maximum_capacity p) (earned_target p)
     \<and> is_none_or (\<lambda>t. MIN_CAPACITY \<le> t \<and> t \<le> maximum_capacity p) (validated_in_request p)
     \<and> is_none_or (\<lambda>ph. p_capacity p \<le> ordinary_capacity ph \<and> ordinary_capacity ph \<le> maximum_capacity p)
         (workspace_phase p)"

definition trial_wf :: "policy \<Rightarrow> bool" where
  "trial_wf p \<longleftrightarrow>
     (trial_capacity p = None \<longrightarrow> trial_base p = None \<and> trial_adverse_active p = 0)
     \<and> (\<forall>c. trial_capacity p = Some c \<longrightarrow>
          c \<le> p_capacity p \<and> (\<exists>b. trial_base p = Some b \<and> MIN_CAPACITY \<le> b \<and> b \<le> c))"

text \<open>The stop latch stands only while the last sampled state is critical.\<close>

definition latch_wf :: "policy \<Rightarrow> bool" where
  "latch_wf p \<longleftrightarrow> (critical_at_floor p \<longrightarrow> p_state p = Some Critical)
     \<and> (stop_latched p \<longrightarrow> critical_at_floor p)"

definition policy_wf :: "policy \<Rightarrow> bool" where
  "policy_wf p \<longleftrightarrow> times_wf p \<and> extent_wf p \<and> trial_wf p \<and> latch_wf p"

lemmas policy_wf_defs = policy_wf_def times_wf_def extent_wf_def trial_wf_def latch_wf_def

lemma policy_new_wf: "policy_new i m = Inr p \<Longrightarrow> policy_wf p"
proof -
  assume "policy_new i m = Inr p"
  then have p: "p = policy_init i m" and b: "64 \<le> i" "i \<le> m" "m < 512"
    by (auto simp: policy_new_def result_simps MIN_CAPACITY_def)
  from b show ?thesis
    unfolding p by (simp add: policy_init_def policy_wf_defs policy_consts)
qed

lemma clear_capacity_validation_wf:
  "policy_wf p \<Longrightarrow> policy_wf (clear_capacity_validation p)"
  by (simp add: clear_capacity_validation_def policy_wf_defs)

lemma try_begin_workspace_phase_wf:
  assumes ok: "try_begin_workspace_phase cap target epoch p = Inr (b, p')" and wf: "policy_wf p"
    and cap: "cap = p_capacity p"
  shows "policy_wf p'"
proof -
  have "p' = p \<or> p' = p \<lparr> workspace_phase := Some \<lparr> ordinary_capacity = cap, phase_release_epoch = epoch \<rparr> \<rparr>"
    using ok cap by (auto simp: try_begin_workspace_phase_def result_simps split: if_splits)
  then show ?thesis using wf cap by (elim disjE) (simp_all add: policy_wf_defs)
qed

lemma sync_planned_wf:
  assumes ok: "sync_planned_workspace_capacity now cap p = Inr p'" and wf: "policy_wf p"
  shows "policy_wf p'"
proof (cases "p_capacity p = cap")
  case True
  with ok wf show ?thesis by (auto simp: sync_planned_workspace_capacity_def result_simps)
next
  case False
  from ok obtain ph where ph: "workspace_phase p = Some ph" "MIN_CAPACITY \<le> cap" "cap \<le> ordinary_capacity ph"
    by (auto simp: sync_planned_workspace_capacity_def result_simps)
  show ?thesis
  proof (cases "trial_capacity p")
    case None
    with ok False ph have "p' = p \<lparr> p_capacity := cap, quiet_since := None,
        last_capacity_change := Some now, last_sample_active := False, last_sample_trial_active := False \<rparr>"
      by (simp add: sync_planned_workspace_capacity_def Let_def)
    then show ?thesis using wf ph None by (simp add: policy_wf_defs)
  next
    case (Some c)
    with wf obtain b where b: "trial_base p = Some b" "MIN_CAPACITY \<le> b" "b \<le> c"
      by (auto simp: policy_wf_defs)
    define q where "q = clear_workspace_validation
       (p \<lparr> trial_base := Some (min b cap), trial_capacity := Some cap \<rparr>)"
    have p': "p' = q \<lparr> p_capacity := cap, quiet_since := None, last_capacity_change := Some now,
        last_sample_active := False, last_sample_trial_active := False \<rparr>"
      using ok False ph Some b by (simp add: sync_planned_workspace_capacity_def Let_def q_def)
    have q: "q = (clear_capacity_validation p) \<lparr> trial_base := Some (min b cap), trial_capacity := Some cap,
        trial_adverse_active := trial_adverse_active p \<rparr>"
      by (simp add: q_def clear_workspace_validation_def clear_capacity_validation_def)
    show ?thesis using wf ph b unfolding p' q
      by (simp add: policy_wf_defs clear_capacity_validation_def)
  qed
qed

lemma finish_workspace_phase_wf: "policy_wf p \<Longrightarrow> policy_wf (finish_workspace_phase p)"
  by (auto simp: finish_workspace_phase_def policy_wf_defs Let_def
      clear_workspace_validation_def clear_capacity_validation_def
      split: option.splits)

lemma begin_request_wf: "policy_wf p \<Longrightarrow> policy_wf (begin_request now p)"
  by (auto simp: begin_request_def policy_wf_defs split: option.splits)

lemma accept_validated_wf:
  "policy_wf p \<Longrightarrow> is_none_or (\<lambda>t. MIN_CAPACITY \<le> t \<and> t \<le> maximum_capacity p) v
    \<Longrightarrow> policy_wf (accept_validated v p)"
  by (cases v; cases "earned_target p")
    (auto simp: accept_validated_def policy_wf_defs Let_def max_def unwrap_or_def split: option.splits)

lemma accept_completed_wf: "policy_wf p \<Longrightarrow> policy_wf (accept_completed p)"
  by (cases "earned_target p")
    (auto simp: accept_completed_def policy_wf_defs Let_def max_def policy_consts split: option.splits)

lemma end_request_wf: "policy_wf p \<Longrightarrow> policy_wf (end_request now ok p)"
proof -
  assume wf: "policy_wf p"
  define p1 where "p1 = p \<lparr> validated_in_request := None, last_churn_sample_active := False,
    request_started := None, last_sample_active := False, last_sample_trial_active := False \<rparr>"
  have p1: "policy_wf p1"
    using wf by (auto simp: p1_def policy_wf_defs split: option.splits)
  have "policy_wf (accept_completed (accept_validated (validated_in_request p) p1))"
    by (intro accept_completed_wf accept_validated_wf p1)
      (use wf in \<open>simp add: policy_wf_defs p1_def\<close>)
  moreover have "policy_wf q \<Longrightarrow> policy_wf (q \<lparr> request_clean_active := 0 \<rparr>)" for q
    by (auto simp: policy_wf_defs split: option.splits)
  ultimately show ?thesis
    using p1 by (auto simp: end_request_def Let_def p1_def [symmetric])
qed

lemma double_retry_wf: "policy_wf p \<Longrightarrow> policy_wf (double_retry now p)"
  by (auto simp: double_retry_def policy_wf_defs Let_def policy_consts split: option.splits)

lemma interrupted_work_wf: "policy_wf p \<Longrightarrow> policy_wf (interrupted_work now always p)"
  by (auto simp: interrupted_work_def double_retry_def policy_wf_defs Let_def
      clear_capacity_validation_def policy_consts split: option.splits)

lemma recovery_failed_wf: "policy_wf p \<Longrightarrow> policy_wf (recovery_failed now p)"
  by (auto simp: recovery_failed_def double_retry_def policy_wf_defs Let_def policy_consts
      split: option.splits)

lemma validation_before_growth_bounds:
  assumes "extent_wf p"
  shows "is_none_or (\<lambda>t. MIN_CAPACITY \<le> t \<and> t \<le> maximum_capacity p) (validation_before_growth p n)"
proof -
  have "is_none_or (\<lambda>t. MIN_CAPACITY \<le> t \<and> t \<le> maximum_capacity p)
      (opt_max (validated_in_request p) (if b then Some (p_capacity p) else None))" for b
    by (rule is_none_or_opt_max) (use assms in \<open>auto simp: extent_wf_def\<close>)
  then show ?thesis by (auto simp: validation_before_growth_def Let_def)
qed

lemma capacity_changed_frame [simp]:
  "initial_capacity (capacity_changed now old new p) = initial_capacity p"
  "maximum_capacity (capacity_changed now old new p) = maximum_capacity p"
  "earned_target (capacity_changed now old new p) = earned_target p"
  "last_sample (capacity_changed now old new p) = last_sample p"
  "previous_counters (capacity_changed now old new p) = previous_counters p"
  "request_started (capacity_changed now old new p) = request_started p"
  "retry_delay (capacity_changed now old new p) = retry_delay p"
  "retry_not_before (capacity_changed now old new p) = retry_not_before p"
  "critical_at_floor (capacity_changed now old new p) = critical_at_floor p"
  "stop_latched (capacity_changed now old new p) = stop_latched p"
  "p_state (capacity_changed now old new p) = p_state p"
  "workspace_phase (capacity_changed now old new p) = workspace_phase p"
  by (simp_all add: capacity_changed_def Let_def clear_capacity_validation_def split: option.splits)

lemma capacity_changed_fields:
  "p_capacity (capacity_changed now old new p) = new"
  "quiet_since (capacity_changed now old new p) = None"
  "last_capacity_change (capacity_changed now old new p) = Some now"
  "preparation_healthy (capacity_changed now old new p) = 0"
  "active_churn (capacity_changed now old new p) = 0"
  "request_clean_active (capacity_changed now old new p) = 0"
  "completed_clean_active (capacity_changed now old new p) = 0"
  "validated_in_request (capacity_changed now old new p) = validation_before_growth p new"
  "trial_adverse_active (capacity_changed now old new p) =
     (if old < new \<and> trial_capacity p = Some old then trial_adverse_active p else 0)"
  "trial_capacity (capacity_changed now old new p) =
     (if old < new then
        if is_some_and (\<lambda>t. new \<le> t) (earned_target p) then trial_capacity p else Some new
      else if new < old then None else trial_capacity p)"
  "trial_base (capacity_changed now old new p) =
     (if old < new then
        if is_some_and (\<lambda>t. new \<le> t) (earned_target p) then trial_base p
        else Some (unwrap_or old (trial_base p))
      else if new < old then None else trial_base p)"
  by (simp_all add: capacity_changed_def Let_def clear_capacity_validation_def split: option.splits)

lemma capacity_changed_wf:
  assumes wf: "policy_wf p" and old: "old = p_capacity p" and new: "MIN_CAPACITY \<le> new" "new \<le> maximum_capacity p"
    and ph: "old < new \<longrightarrow> workspace_phase p = None"
  shows "policy_wf (capacity_changed now old new p)"
proof -
  let ?q = "capacity_changed now old new p"
  have v: "is_none_or (\<lambda>t. MIN_CAPACITY \<le> t \<and> t \<le> maximum_capacity p) (validation_before_growth p new)"
    using wf validation_before_growth_bounds by (simp add: policy_wf_def)
  have t: "times_wf ?q" "latch_wf ?q"
    using wf by (auto simp: policy_wf_def times_wf_def latch_wf_def capacity_changed_fields)
  have e: "extent_wf ?q"
    using wf old new ph v unfolding extent_wf_def policy_wf_def capacity_changed_fields capacity_changed_frame
    by (cases "workspace_phase p") auto
  have base: "MIN_CAPACITY \<le> old" using wf old by (simp add: policy_wf_defs)
  have "trial_wf ?q"
  proof (cases "trial_capacity p")
    case None
    with wf have "trial_base p = None" "trial_adverse_active p = 0" by (simp_all add: policy_wf_defs)
    with None base show ?thesis
      by (simp add: trial_wf_def capacity_changed_fields)
  next
    case (Some c)
    with wf obtain b where "trial_base p = Some b" "MIN_CAPACITY \<le> b" "b \<le> c" "c \<le> old"
      using old by (auto simp: policy_wf_defs)
    with Some show ?thesis by (auto simp: trial_wf_def capacity_changed_fields)
  qed
  with t e show ?thesis by (simp add: policy_wf_def)
qed

subsection \<open>Frames of the stages of observe\<close>

lemma observe_churn_frame [simp]:
  "preparation_healthy (snd (observe_churn b obs el p)) = preparation_healthy p"
  "validated_in_request (snd (observe_churn b obs el p)) = validated_in_request p"
  "initial_capacity (snd (observe_churn b obs el p)) = initial_capacity p"
  "maximum_capacity (snd (observe_churn b obs el p)) = maximum_capacity p"
  "p_capacity (snd (observe_churn b obs el p)) = p_capacity p"
  "earned_target (snd (observe_churn b obs el p)) = earned_target p"
  "trial_base (snd (observe_churn b obs el p)) = trial_base p"
  "trial_capacity (snd (observe_churn b obs el p)) = trial_capacity p"
  "last_sample (snd (observe_churn b obs el p)) = last_sample p"
  "previous_counters (snd (observe_churn b obs el p)) = previous_counters p"
  "quiet_since (snd (observe_churn b obs el p)) = quiet_since p"
  "request_started (snd (observe_churn b obs el p)) = request_started p"
  "last_sample_active (snd (observe_churn b obs el p)) = last_sample_active p"
  "last_sample_trial_active (snd (observe_churn b obs el p)) = last_sample_trial_active p"
  "trial_adverse_active (snd (observe_churn b obs el p)) = trial_adverse_active p"
  "request_clean_active (snd (observe_churn b obs el p)) = request_clean_active p"
  "completed_clean_active (snd (observe_churn b obs el p)) = completed_clean_active p"
  "last_release (snd (observe_churn b obs el p)) = last_release p"
  "last_capacity_change (snd (observe_churn b obs el p)) = last_capacity_change p"
  "last_increase (snd (observe_churn b obs el p)) = last_increase p"
  "retry_delay (snd (observe_churn b obs el p)) = retry_delay p"
  "retry_not_before (snd (observe_churn b obs el p)) = retry_not_before p"
  "critical_at_floor (snd (observe_churn b obs el p)) = critical_at_floor p"
  "stop_latched (snd (observe_churn b obs el p)) = stop_latched p"
  "p_state (snd (observe_churn b obs el p)) = p_state p"
  "workspace_phase (snd (observe_churn b obs el p)) = workspace_phase p"
  by (simp_all add: observe_churn_def Let_def split: option.splits bool.splits vm_state.splits)

lemma observe_adverse_frame [simp]:
  "preparation_healthy (observe_adverse cap b s el gap p) = preparation_healthy p"
  "active_churn (observe_adverse cap b s el gap p) = active_churn p"
  "last_churn_sample_active (observe_adverse cap b s el gap p) = last_churn_sample_active p"
  "validated_in_request (observe_adverse cap b s el gap p) = validated_in_request p"
  "initial_capacity (observe_adverse cap b s el gap p) = initial_capacity p"
  "maximum_capacity (observe_adverse cap b s el gap p) = maximum_capacity p"
  "p_capacity (observe_adverse cap b s el gap p) = p_capacity p"
  "earned_target (observe_adverse cap b s el gap p) = earned_target p"
  "trial_base (observe_adverse cap b s el gap p) = trial_base p"
  "trial_capacity (observe_adverse cap b s el gap p) = trial_capacity p"
  "last_sample (observe_adverse cap b s el gap p) = last_sample p"
  "previous_counters (observe_adverse cap b s el gap p) = previous_counters p"
  "quiet_since (observe_adverse cap b s el gap p) = quiet_since p"
  "request_started (observe_adverse cap b s el gap p) = request_started p"
  "last_sample_active (observe_adverse cap b s el gap p) = last_sample_active p"
  "request_clean_active (observe_adverse cap b s el gap p) = request_clean_active p"
  "completed_clean_active (observe_adverse cap b s el gap p) = completed_clean_active p"
  "last_release (observe_adverse cap b s el gap p) = last_release p"
  "last_capacity_change (observe_adverse cap b s el gap p) = last_capacity_change p"
  "last_increase (observe_adverse cap b s el gap p) = last_increase p"
  "retry_delay (observe_adverse cap b s el gap p) = retry_delay p"
  "retry_not_before (observe_adverse cap b s el gap p) = retry_not_before p"
  "critical_at_floor (observe_adverse cap b s el gap p) = critical_at_floor p"
  "stop_latched (observe_adverse cap b s el gap p) = stop_latched p"
  "p_state (observe_adverse cap b s el gap p) = p_state p"
  "workspace_phase (observe_adverse cap b s el gap p) = workspace_phase p"
  by (simp_all add: observe_adverse_def Let_def split: option.splits bool.splits vm_state.splits)

lemma observe_quiet_span_frame [simp]:
  "preparation_healthy (observe_quiet_span now cap s el gap p) = preparation_healthy p"
  "active_churn (observe_quiet_span now cap s el gap p) = active_churn p"
  "last_churn_sample_active (observe_quiet_span now cap s el gap p) = last_churn_sample_active p"
  "validated_in_request (observe_quiet_span now cap s el gap p) = validated_in_request p"
  "initial_capacity (observe_quiet_span now cap s el gap p) = initial_capacity p"
  "maximum_capacity (observe_quiet_span now cap s el gap p) = maximum_capacity p"
  "p_capacity (observe_quiet_span now cap s el gap p) = p_capacity p"
  "earned_target (observe_quiet_span now cap s el gap p) = earned_target p"
  "trial_base (observe_quiet_span now cap s el gap p) = trial_base p"
  "trial_capacity (observe_quiet_span now cap s el gap p) = trial_capacity p"
  "last_sample (observe_quiet_span now cap s el gap p) = last_sample p"
  "previous_counters (observe_quiet_span now cap s el gap p) = previous_counters p"
  "request_started (observe_quiet_span now cap s el gap p) = request_started p"
  "last_sample_trial_active (observe_quiet_span now cap s el gap p) = last_sample_trial_active p"
  "trial_adverse_active (observe_quiet_span now cap s el gap p) = trial_adverse_active p"
  "completed_clean_active (observe_quiet_span now cap s el gap p) = completed_clean_active p"
  "last_release (observe_quiet_span now cap s el gap p) = last_release p"
  "last_capacity_change (observe_quiet_span now cap s el gap p) = last_capacity_change p"
  "last_increase (observe_quiet_span now cap s el gap p) = last_increase p"
  "retry_delay (observe_quiet_span now cap s el gap p) = retry_delay p"
  "retry_not_before (observe_quiet_span now cap s el gap p) = retry_not_before p"
  "critical_at_floor (observe_quiet_span now cap s el gap p) = critical_at_floor p"
  "stop_latched (observe_quiet_span now cap s el gap p) = stop_latched p"
  "p_state (observe_quiet_span now cap s el gap p) = p_state p"
  "workspace_phase (observe_quiet_span now cap s el gap p) = workspace_phase p"
  by (simp_all add: observe_quiet_span_def Let_def split: option.splits bool.splits vm_state.splits)

lemma observe_preparation_span_frame [simp]:
  "active_churn (observe_preparation_span s el gap p) = active_churn p"
  "last_churn_sample_active (observe_preparation_span s el gap p) = last_churn_sample_active p"
  "validated_in_request (observe_preparation_span s el gap p) = validated_in_request p"
  "initial_capacity (observe_preparation_span s el gap p) = initial_capacity p"
  "maximum_capacity (observe_preparation_span s el gap p) = maximum_capacity p"
  "p_capacity (observe_preparation_span s el gap p) = p_capacity p"
  "earned_target (observe_preparation_span s el gap p) = earned_target p"
  "trial_base (observe_preparation_span s el gap p) = trial_base p"
  "trial_capacity (observe_preparation_span s el gap p) = trial_capacity p"
  "last_sample (observe_preparation_span s el gap p) = last_sample p"
  "previous_counters (observe_preparation_span s el gap p) = previous_counters p"
  "quiet_since (observe_preparation_span s el gap p) = quiet_since p"
  "request_started (observe_preparation_span s el gap p) = request_started p"
  "last_sample_active (observe_preparation_span s el gap p) = last_sample_active p"
  "last_sample_trial_active (observe_preparation_span s el gap p) = last_sample_trial_active p"
  "trial_adverse_active (observe_preparation_span s el gap p) = trial_adverse_active p"
  "request_clean_active (observe_preparation_span s el gap p) = request_clean_active p"
  "completed_clean_active (observe_preparation_span s el gap p) = completed_clean_active p"
  "last_release (observe_preparation_span s el gap p) = last_release p"
  "last_capacity_change (observe_preparation_span s el gap p) = last_capacity_change p"
  "last_increase (observe_preparation_span s el gap p) = last_increase p"
  "retry_delay (observe_preparation_span s el gap p) = retry_delay p"
  "retry_not_before (observe_preparation_span s el gap p) = retry_not_before p"
  "critical_at_floor (observe_preparation_span s el gap p) = critical_at_floor p"
  "stop_latched (observe_preparation_span s el gap p) = stop_latched p"
  "p_state (observe_preparation_span s el gap p) = p_state p"
  "workspace_phase (observe_preparation_span s el gap p) = workspace_phase p"
  by (simp_all add: observe_preparation_span_def Let_def split: option.splits bool.splits vm_state.splits)

lemma observe_action_frame [simp]:
  "preparation_healthy (snd (observe_action now cap s ch p)) = preparation_healthy p"
  "active_churn (snd (observe_action now cap s ch p)) = active_churn p"
  "last_churn_sample_active (snd (observe_action now cap s ch p)) = last_churn_sample_active p"
  "validated_in_request (snd (observe_action now cap s ch p)) = validated_in_request p"
  "initial_capacity (snd (observe_action now cap s ch p)) = initial_capacity p"
  "maximum_capacity (snd (observe_action now cap s ch p)) = maximum_capacity p"
  "p_capacity (snd (observe_action now cap s ch p)) = p_capacity p"
  "earned_target (snd (observe_action now cap s ch p)) = earned_target p"
  "trial_base (snd (observe_action now cap s ch p)) = trial_base p"
  "trial_capacity (snd (observe_action now cap s ch p)) = trial_capacity p"
  "last_sample (snd (observe_action now cap s ch p)) = last_sample p"
  "previous_counters (snd (observe_action now cap s ch p)) = previous_counters p"
  "quiet_since (snd (observe_action now cap s ch p)) = quiet_since p"
  "request_started (snd (observe_action now cap s ch p)) = request_started p"
  "last_sample_active (snd (observe_action now cap s ch p)) = last_sample_active p"
  "last_sample_trial_active (snd (observe_action now cap s ch p)) = last_sample_trial_active p"
  "trial_adverse_active (snd (observe_action now cap s ch p)) = trial_adverse_active p"
  "request_clean_active (snd (observe_action now cap s ch p)) = request_clean_active p"
  "completed_clean_active (snd (observe_action now cap s ch p)) = completed_clean_active p"
  "last_release (snd (observe_action now cap s ch p)) = last_release p"
  "last_capacity_change (snd (observe_action now cap s ch p)) = last_capacity_change p"
  "last_increase (snd (observe_action now cap s ch p)) = last_increase p"
  "retry_delay (snd (observe_action now cap s ch p)) = retry_delay p"
  "retry_not_before (snd (observe_action now cap s ch p)) = retry_not_before p"
  "p_state (snd (observe_action now cap s ch p)) = p_state p"
  "workspace_phase (snd (observe_action now cap s ch p)) = workspace_phase p"
  by (simp_all add: observe_action_def Let_def split: option.splits bool.splits vm_state.splits)


lemma min_validation [simp]: "min x ACTIVE_VALIDATION \<le> ACTIVE_VALIDATION"
  by simp

lemma observe_times:
  "active_churn p \<le> ACTIVE_VALIDATION \<Longrightarrow> active_churn (snd (observe_churn b obs el p)) \<le> ACTIVE_VALIDATION"
  "trial_adverse_active p \<le> ACTIVE_VALIDATION \<Longrightarrow>
     trial_adverse_active (observe_adverse cap b s el gap p) \<le> ACTIVE_VALIDATION"
  "request_clean_active p \<le> ACTIVE_VALIDATION \<Longrightarrow>
     request_clean_active (observe_quiet_span now cap s el gap p) \<le> ACTIVE_VALIDATION"
  "preparation_healthy p \<le> ACTIVE_VALIDATION \<Longrightarrow>
     preparation_healthy (observe_preparation_span s el gap p) \<le> ACTIVE_VALIDATION"
  by (auto simp: observe_churn_def observe_adverse_def observe_quiet_span_def
      observe_preparation_span_def Let_def split: option.splits bool.splits)

lemma observe_adverse_no_trial:
  "trial_capacity p = None \<Longrightarrow> trial_adverse_active (observe_adverse cap b s el gap p) = trial_adverse_active p"
  by (simp add: observe_adverse_def Let_def)

lemma observe_stages_wf:
  assumes wf: "policy_wf p"
  shows "policy_wf (snd (observe_churn b obs el p))"
    and "policy_wf (observe_adverse cap b s el gap p)"
    and "policy_wf (observe_quiet_span now cap s el gap p)"
    and "policy_wf (observe_preparation_span s el gap p)"
  using wf observe_times [of p] observe_adverse_no_trial [of p]
  by (simp_all add: policy_wf_defs)

definition times_extent_trial_wf :: "policy \<Rightarrow> bool" where
  "times_extent_trial_wf p \<longleftrightarrow> times_wf p \<and> extent_wf p \<and> trial_wf p"

lemma observe_record_wf:
  assumes wf: "policy_wf p"
  shows "times_extent_trial_wf (observe_record now obs s p)"
    and "p_state (observe_record now obs s p) = Some s"
    and "critical_at_floor (observe_record now obs s p) = (s = Critical \<and> critical_at_floor p)"
    and "stop_latched (observe_record now obs s p) = (s = Critical \<and> stop_latched p)"
proof -
  define p1 where "p1 = p \<lparr> last_sample := Some now, previous_counters := obs_counters obs \<rparr>"
  define p2 where "p2 = (if under_pressure (Some s) \<and> \<not> under_pressure (p_state p1)
                then pressure_interrupted_work now p1 else p1)"
  have p1: "policy_wf p1" using wf by (simp add: p1_def policy_wf_defs)
  then have p2: "policy_wf p2" by (simp add: p2_def pressure_interrupted_work_def interrupted_work_wf)
  have l: "critical_at_floor p2 = critical_at_floor p" "stop_latched p2 = stop_latched p"
    by (simp_all add: p2_def p1_def pressure_interrupted_work_def interrupted_work_def Let_def
        double_retry_def clear_capacity_validation_def)
  have r: "observe_record now obs s p =
     (if s \<noteq> Critical then p2 \<lparr> critical_at_floor := False, stop_latched := False \<rparr> else p2) \<lparr> p_state := Some s \<rparr>"
    by (simp add: observe_record_def Let_def p1_def p2_def)
  show "times_extent_trial_wf (observe_record now obs s p)"
    using p2 unfolding r by (simp add: times_extent_trial_wf_def policy_wf_defs)
  show "p_state (observe_record now obs s p) = Some s"
    "critical_at_floor (observe_record now obs s p) = (s = Critical \<and> critical_at_floor p)"
    "stop_latched (observe_record now obs s p) = (s = Critical \<and> stop_latched p)"
    unfolding r by (simp_all add: l)
qed

lemma observe_action_latch:
  "critical_at_floor (snd (observe_action now cap s ch p)) = (s = Critical \<or> critical_at_floor p)"
  "stop_latched (snd (observe_action now cap s ch p)) =
     (stop_latched p \<or> (s = Critical \<and> cap \<le> MIN_CAPACITY \<and> critical_at_floor p))"
  by (cases s; simp add: observe_action_def Let_def; auto)+


subsection \<open>The whole observation\<close>

text \<open>The policy after the bookkeeping of a sample and before the action is chosen.\<close>

definition sample_elapsed :: "duration \<Rightarrow> policy \<Rightarrow> duration option" where
  "sample_elapsed now p = Option.bind (last_sample p) (checked_sub now)"

definition sample_gap :: "duration \<Rightarrow> policy \<Rightarrow> bool" where
  "sample_gap now p = is_none_or (\<lambda>dt. SAMPLE_GAP_LIMIT < dt) (sample_elapsed now p)"

definition sample_state :: "duration \<Rightarrow> observation \<Rightarrow> policy \<Rightarrow> vm_state" where
  "sample_state now obs p = classify obs (sample_gap now p) (observed_quiet obs (sample_elapsed now p) p)"

definition sample_recorded :: "duration \<Rightarrow> nat \<Rightarrow> boundary \<Rightarrow> observation \<Rightarrow> policy \<Rightarrow> policy" where
  "sample_recorded now cap b obs p =
     (let el = sample_elapsed now p; gap = sample_gap now p; s = sample_state now obs p in
      observe_record now obs s (observe_preparation_span s el gap (observe_quiet_span now cap s el gap
        (observe_adverse cap b s el gap (snd (observe_churn b obs el p))))))"

lemma observe_eq:
  assumes "sample_due now p" "p_capacity p = cap"
  shows "observe now cap b obs p =
    (let r = observe_action now cap (sample_state now obs p)
               (fst (observe_churn b obs (sample_elapsed now p) p)) (sample_recorded now cap b obs p)
     in (Some (fst r), snd r))"
proof -
  have p: "p \<lparr> p_capacity := cap \<rparr> = p" using assms by (cases p) simp
  have "observed_quiet obs el (snd (observe_churn b obs el q)) = observed_quiet obs el q" for el q
    by (simp add: observed_quiet_def)
  then show ?thesis using assms(1)
    by (simp add: observe_def p Let_def split_def sample_recorded_def sample_state_def sample_gap_def
        sample_elapsed_def)
qed

lemma observe_not_due: "\<not> sample_due now p \<Longrightarrow> observe now cap b obs p = (None, p)"
  by (simp add: observe_def)

lemma observe_Some_due: "observe now cap b obs p = (Some a, p') \<Longrightarrow> sample_due now p"
  by (cases "sample_due now p") (simp_all add: observe_def)

lemma sample_recorded_wf:
  assumes "policy_wf p"
  shows "times_extent_trial_wf (sample_recorded now cap b obs p)"
    and "p_state (sample_recorded now cap b obs p) = Some (sample_state now obs p)"
    and "critical_at_floor (sample_recorded now cap b obs p)
           = (sample_state now obs p = Critical \<and> critical_at_floor p)"
    and "stop_latched (sample_recorded now cap b obs p)
           = (sample_state now obs p = Critical \<and> stop_latched p)"
proof -
  let ?el = "sample_elapsed now p" and ?gap = "sample_gap now p" and ?s = "sample_state now obs p"
  define q where "q = observe_preparation_span ?s ?el ?gap (observe_quiet_span now cap ?s ?el ?gap
        (observe_adverse cap b ?s ?el ?gap (snd (observe_churn b obs ?el p))))"
  have q: "policy_wf q" unfolding q_def by (intro observe_stages_wf assms)
  have l: "critical_at_floor q = critical_at_floor p" "stop_latched q = stop_latched p"
    by (simp_all add: q_def)
  have r: "sample_recorded now cap b obs p = observe_record now obs ?s q"
    by (simp add: sample_recorded_def q_def Let_def)
  show "times_extent_trial_wf (sample_recorded now cap b obs p)"
    "p_state (sample_recorded now cap b obs p) = Some ?s"
    "critical_at_floor (sample_recorded now cap b obs p) = (?s = Critical \<and> critical_at_floor p)"
    "stop_latched (sample_recorded now cap b obs p) = (?s = Critical \<and> stop_latched p)"
    unfolding r using observe_record_wf [OF q] l by simp_all
qed

lemma observe_action_wf:
  assumes "times_extent_trial_wf p" "p_state p = Some s"
    "critical_at_floor p \<longrightarrow> s = Critical" "stop_latched p \<longrightarrow> critical_at_floor p"
  shows "policy_wf (snd (observe_action now cap s ch p))"
  using assms by (simp add: policy_wf_def times_extent_trial_wf_def times_wf_def extent_wf_def trial_wf_def
      latch_wf_def observe_action_latch)

lemma observe_wf:
  assumes wf: "policy_wf p" and cap: "p_capacity p = cap"
  shows "policy_wf (snd (observe now cap b obs p))"
proof (cases "sample_due now p")
  case False
  then show ?thesis using wf by (simp add: observe_not_due)
next
  case True
  have "stop_latched p \<longrightarrow> critical_at_floor p" using wf by (simp add: policy_wf_defs)
  then show ?thesis
    unfolding observe_eq [OF True cap] Let_def snd_conv
    by (intro observe_action_wf) (simp_all add: sample_recorded_wf [OF wf])
qed

subsection \<open>The actions chosen\<close>

definition action_ok :: "policy \<Rightarrow> nat \<Rightarrow> action \<Rightarrow> bool" where
  "action_ok p cap a = (case a of
      Hold \<Rightarrow> True
    | Stop \<Rightarrow> cap = MIN_CAPACITY
    | Recover t \<Rightarrow> cap < t \<and> t \<le> maximum_capacity p \<and> t - cap \<le> GROWTH_STEP_SLOTS
        \<and> (t mod GROWTH_STEP_SLOTS = 0 \<or> t = maximum_capacity p \<or> earned_target p = Some t)
        \<and> workspace_phase p = None
    | Release t \<Rightarrow> MIN_CAPACITY \<le> t \<and> t < cap \<and> t mod GROWTH_STEP_SLOTS = 0
    | Rollback t \<Rightarrow> MIN_CAPACITY \<le> t \<and> t < cap \<and> t mod GROWTH_STEP_SLOTS = 0
    | ChurnRelease t \<Rightarrow> MIN_CAPACITY \<le> t \<and> t < cap \<and> t mod GROWTH_STEP_SLOTS = 0)"

lemma next_capacity_bounds:
  assumes wf: "extent_wf p" and lt: "cap < maximum_capacity p"
  shows "cap < next_capacity p cap \<and> next_capacity p cap \<le> maximum_capacity p
    \<and> next_capacity p cap - cap \<le> GROWTH_STEP_SLOTS
    \<and> (next_capacity p cap mod GROWTH_STEP_SLOTS = 0 \<or> next_capacity p cap = maximum_capacity p
       \<or> earned_target p = Some (next_capacity p cap))"
proof -
  define t where "t = max (min (growth_target_of p cap) (maximum_capacity p)) cap"
  define n where "n = (cap div 16 + 1) * 16"
  have n: "cap < n" "n - cap \<le> 16" "n mod 16 = 0" unfolding n_def by (simp_all add: algebra_simps)
  have t: "cap < t" "t \<le> maximum_capacity p" "t = maximum_capacity p \<or> earned_target p = Some t"
    using wf lt unfolding t_def growth_target_of_def is_restoring_def extent_wf_def
    by (cases "earned_target p"; auto)+
  have "next_capacity p cap = (if is_restoring p cap \<and> t - cap \<le> 16 then t else max (min n t) cap)"
    by (simp add: next_capacity_def t_def n_def Let_def GROWTH_STEP_SLOTS_def)
  with n t show ?thesis by (auto simp: GROWTH_STEP_SLOTS_def min_def max_def)
qed

lemma recovery_action_ok:
  assumes "extent_wf p"
  shows "action_ok p cap (recovery_action now cap p)"
proof (cases "growth_eligibility now cap p = Growth_Hold")
  case True
  then show ?thesis by (simp add: recovery_action_def action_ok_def)
next
  case False
  then have "recovery_action now cap p = Recover (next_capacity p cap)"
    by (cases "growth_eligibility now cap p") (simp_all add: recovery_action_def)
  moreover have "cap < maximum_capacity p" "workspace_phase p = None"
    using False by (auto simp: growth_eligibility_def split: if_splits)
  ultimately show ?thesis using next_capacity_bounds [OF assms] by (simp add: action_ok_def)
qed

lemma round_down_slots_props: "round_down_slots n \<le> n" "round_down_slots n mod 16 = 0"
  by (simp_all add: round_down_slots_def GROWTH_STEP_SLOTS_def)

lemma release_target_ok:
  assumes "n < cap" "MIN_CAPACITY < cap"
  shows "MIN_CAPACITY \<le> max (round_down_slots n) MIN_CAPACITY
    \<and> max (round_down_slots n) MIN_CAPACITY < cap
    \<and> max (round_down_slots n) MIN_CAPACITY mod GROWTH_STEP_SLOTS = 0"
  using assms round_down_slots_props [of n] by (auto simp: max_def MIN_CAPACITY_def GROWTH_STEP_SLOTS_def)

lemma action_ok_snd [simp]: "action_ok (snd (observe_action now cap s ch p)) = action_ok p"
  by (intro ext) (simp add: action_ok_def split: action.splits)

lemma observe_action_ok:
  assumes wf: "times_extent_trial_wf p" and cap: "MIN_CAPACITY \<le> cap"
  shows "action_ok p cap (fst (observe_action now cap s ch p))"
proof -
  have ex: "extent_wf p" and tr: "trial_wf p" using wf by (simp_all add: times_extent_trial_wf_def)
  have rel: "action_ok p cap (Release (max (round_down_slots n) MIN_CAPACITY))"
    "action_ok p cap (Rollback (max (round_down_slots n) MIN_CAPACITY))"
    "action_ok p cap (ChurnRelease (max (round_down_slots n) MIN_CAPACITY))"
    if "n < cap" "MIN_CAPACITY < cap" for n
    using release_target_ok [OF that] by (simp_all add: action_ok_def)
  have floor: "action_ok p cap (Release MIN_CAPACITY)" if "MIN_CAPACITY < cap"
    using that by (simp add: action_ok_def MIN_CAPACITY_def GROWTH_STEP_SLOTS_def)
  have base: "MIN_CAPACITY \<le> base" if "trial_base p = Some base" for base
    using tr that by (cases "trial_capacity p") (auto simp: trial_wf_def)
  have triv: "action_ok p cap Hold" by (simp add: action_ok_def)
  have stop: "action_ok p cap Stop" if "\<not> MIN_CAPACITY < cap" using that cap by (simp add: action_ok_def)
  have churn: "action_ok p cap (ChurnRelease (max (case opt_filter (\<lambda>base. base < cap) (trial_base p) of
       None \<Rightarrow> round_down_slots (cap - 1) | Some base \<Rightarrow> round_down_slots base) MIN_CAPACITY))"
    if "MIN_CAPACITY < cap"
    using rel [of "cap - 1"] rel that
    by (cases "opt_filter (\<lambda>base. base < cap) (trial_base p)") (auto simp: opt_filter_eq_Some)
  have roll: "action_ok p cap (Rollback (max (round_down_slots base) MIN_CAPACITY))"
    if "trial_base p = Some base" "base < cap" for base
    using rel(2) [OF that(2)] base [OF that(1)] that(2) by simp
  show ?thesis
  proof (cases s)
    case Critical
    then show ?thesis using floor stop triv by (simp add: observe_action_def Let_def)
  next
    case Warning
    then show ?thesis using rel(1) [of "cap - 1"] triv churn by (auto simp: observe_action_def Let_def)
  next
    case NormalQuiet
    then show ?thesis using recovery_action_ok [OF ex] by (simp add: observe_action_def Let_def)
  next
    case NormalBusy
    then show ?thesis using roll triv churn
      by (auto simp: observe_action_def Let_def opt_filter_eq_Some)
  next
    case Unknown
    then show ?thesis using triv churn by (auto simp: observe_action_def Let_def)
  qed
qed


lemma interrupted_work_frame [simp]:
  "initial_capacity (interrupted_work now a p) = initial_capacity p"
  "maximum_capacity (interrupted_work now a p) = maximum_capacity p"
  "p_capacity (interrupted_work now a p) = p_capacity p"
  "earned_target (interrupted_work now a p) = earned_target p"
  "workspace_phase (interrupted_work now a p) = workspace_phase p"
  "request_started (interrupted_work now a p) = request_started p"
  "last_sample (interrupted_work now a p) = last_sample p"
  "last_capacity_change (interrupted_work now a p) = last_capacity_change p"
  "quiet_since (interrupted_work now a p) = quiet_since p"
  "p_state (interrupted_work now a p) = p_state p"
  by (simp_all add: interrupted_work_def Let_def double_retry_def clear_capacity_validation_def)

lemma observe_record_frame [simp]:
  "initial_capacity (observe_record now obs s p) = initial_capacity p"
  "maximum_capacity (observe_record now obs s p) = maximum_capacity p"
  "p_capacity (observe_record now obs s p) = p_capacity p"
  "earned_target (observe_record now obs s p) = earned_target p"
  "workspace_phase (observe_record now obs s p) = workspace_phase p"
  "request_started (observe_record now obs s p) = request_started p"
  "last_capacity_change (observe_record now obs s p) = last_capacity_change p"
  "quiet_since (observe_record now obs s p) = quiet_since p"
  by (simp_all add: observe_record_def Let_def pressure_interrupted_work_def)

lemma sample_recorded_frame [simp]:
  "initial_capacity (sample_recorded now cap b obs p) = initial_capacity p"
  "maximum_capacity (sample_recorded now cap b obs p) = maximum_capacity p"
  "p_capacity (sample_recorded now cap b obs p) = p_capacity p"
  "earned_target (sample_recorded now cap b obs p) = earned_target p"
  "workspace_phase (sample_recorded now cap b obs p) = workspace_phase p"
  "request_started (sample_recorded now cap b obs p) = request_started p"
  "last_capacity_change (sample_recorded now cap b obs p) = last_capacity_change p"
  by (simp_all add: sample_recorded_def Let_def)

lemma observe_frame:
  assumes "p_capacity p = cap"
  shows "initial_capacity (snd (observe now cap b obs p)) = initial_capacity p"
    and "maximum_capacity (snd (observe now cap b obs p)) = maximum_capacity p"
    and "p_capacity (snd (observe now cap b obs p)) = p_capacity p"
    and "earned_target (snd (observe now cap b obs p)) = earned_target p"
    and "workspace_phase (snd (observe now cap b obs p)) = workspace_phase p"
    and "request_started (snd (observe now cap b obs p)) = request_started p"
  using assms by (cases "sample_due now p"; simp add: observe_not_due observe_eq Let_def)+

lemma action_ok_cong:
  "maximum_capacity q = maximum_capacity p \<Longrightarrow> earned_target q = earned_target p
    \<Longrightarrow> workspace_phase q = workspace_phase p \<Longrightarrow> action_ok q cap a = action_ok p cap a"
  by (simp add: action_ok_def split: action.splits)

lemma observe_actions_in_range:
  assumes "policy_wf p" "p_capacity p = cap" "observe now cap b obs p = (Some a, p')"
  shows "action_ok p cap a"
proof -
  note due = observe_Some_due [OF assms(3)]
  have cap: "MIN_CAPACITY \<le> cap" using assms(1,2) by (auto simp: policy_wf_defs)
  have "action_ok (sample_recorded now cap b obs p) cap a"
    using assms(3) observe_action_ok [OF sample_recorded_wf(1) [OF assms(1)] cap]
    by (auto simp: observe_eq [OF due assms(2)] Let_def)
  then show ?thesis using action_ok_cong [of "sample_recorded now cap b obs p" p] by simp
qed

lemma cached_actions_in_range:
  assumes "policy_wf p" "p_capacity p = cap"
  shows "action_ok p cap (cached_action now cap p)"
  using assms recovery_action_ok [of p cap now]
  by (auto simp: cached_action_def action_ok_def policy_wf_def)

subsection \<open>When the policy grows\<close>

lemma classify_quiet_iff:
  "classify obs gap quiet = NormalQuiet \<longleftrightarrow>
     obs_pressure obs = Some Pressure_Normal \<and> \<not> gap \<and> quiet = Some True"
  by (auto simp: classify_def split: option.splits pressure.splits bool.splits)

lemma vm_rate_eq_Some:
  "vm_rate page after before el = Some r \<longleftrightarrow> before \<le> after \<and> (after - before) * page < u64_limit
     \<and> r = f64_div (f64_of_nat ((after - before) * page)) (as_secs_f64 el)"
  by (auto simp: vm_rate_def bind_eq_Some_conv rust_arith)

lemma counters_quiet_since_True:
  "counters_quiet_since c before el = Some True \<longleftrightarrow>
     0 < el \<and> 0 < page_bytes c \<and> page_bytes c = page_bytes before
     \<and> swapouts c = swapouts before
     \<and> compressions before \<le> compressions c \<and> decompressions before \<le> decompressions c
     \<and> swapins before \<le> swapins c
     \<and> (compressions c - compressions before) * page_bytes c < u64_limit
     \<and> (decompressions c - decompressions before) * page_bytes c < u64_limit
     \<and> (swapins c - swapins before) * page_bytes c < u64_limit
     \<and> f64_div (f64_of_nat ((compressions c - compressions before) * page_bytes c)) (as_secs_f64 el)
         < COMPRESSION_VETO_BYTES_PER_SECOND"
  (is "?l = ?r")
proof (cases "el = 0 \<or> page_bytes c = 0 \<or> page_bytes c \<noteq> page_bytes before")
  case True
  then show ?thesis by (auto simp: counters_quiet_since_def)
next
  case False
  then have el: "0 < as_secs_f64 el" and pg: "0 < page_bytes c" by (simp_all add: as_secs_f64_pos)
  have z: "f64_div (f64_of_nat n) (as_secs_f64 el) = 0 \<longleftrightarrow> n = 0" for n
    by (simp add: f64_div_eq_0_iff [OF f64_of_nat_nonneg el])
  have lim: "0 < u64_limit" by (simp add: u64_limit_def)
  show ?thesis
    using False by (auto simp: counters_quiet_since_def bind_eq_Some_conv vm_rate_eq_Some z lim)
qed


text \<open>Churn: swap-outs, or compression and decompression both at the threshold.\<close>

lemma counters_churning_since_True:
  assumes "counters_churning_since c before el = Some True"
  shows "swapouts before < swapouts c
    \<or> (COMPRESSION_VETO_BYTES_PER_SECOND \<le> f64_div
          (f64_of_nat ((decompressions c - decompressions before) * page_bytes c)) (as_secs_f64 el)
       \<and> COMPRESSION_VETO_BYTES_PER_SECOND \<le> f64_div
          (f64_of_nat ((compressions c - compressions before) * page_bytes c)) (as_secs_f64 el))"
proof (cases "swapouts before < swapouts c")
  case True
  then show ?thesis by simp
next
  case False
  from assms have q: "counters_quiet_since c before el = Some False"
    by (auto simp: counters_churning_since_def bind_eq_Some_conv split: if_splits)
  from assms q False have d: "COMPRESSION_VETO_BYTES_PER_SECOND \<le> f64_div
          (f64_of_nat ((decompressions c - decompressions before) * page_bytes c)) (as_secs_f64 el)"
    by (auto simp: counters_churning_since_def bind_eq_Some_conv vm_rate_eq_Some)
  from q have "\<not> (swapouts c \<le> swapouts before \<and> f64_div
      (f64_of_nat ((compressions c - compressions before) * page_bytes c)) (as_secs_f64 el)
      < COMPRESSION_VETO_BYTES_PER_SECOND)"
    by (auto simp: counters_quiet_since_def bind_eq_Some_conv vm_rate_eq_Some f64_div_def f64_round_eq_0_iff
        split: if_splits)
  with d False show ?thesis by auto
qed

lemma observe_record_quiet:
  "observe_record now obs NormalQuiet p = p \<lparr> last_sample := Some now, previous_counters := obs_counters obs,
     critical_at_floor := False, stop_latched := False, p_state := Some NormalQuiet \<rparr>"
  by (simp add: observe_record_def under_pressure_def)

lemma recovery_action_Recover:
  "recovery_action now cap p = Recover t \<Longrightarrow>
     workspace_phase p = None \<and> cap < maximum_capacity p \<and> \<not> stop_latched p
     \<and> p_state p = Some NormalQuiet \<and> settled now p"
  by (auto simp: recovery_action_def growth_eligibility_def split: if_splits)

lemma observe_action_Recover:
  "fst (observe_action now cap s ch p) = Recover t \<Longrightarrow> s = NormalQuiet \<and> recovery_action now cap p = Recover t"
  by (cases s) (auto simp: observe_action_def Let_def split: if_splits)

lemma sample_recorded_quiet_fields:
  assumes "sample_state now obs p = NormalQuiet"
  shows "quiet_since (sample_recorded now cap b obs p) = Some (unwrap_or now (quiet_since p))"
    and "retry_not_before (sample_recorded now cap b obs p) = retry_not_before p"
  using assms by (simp_all add: sample_recorded_def Let_def observe_record_quiet observe_quiet_span_def)

lemma observe_Recover_quiet:
  assumes cap: "p_capacity p = cap" and obs: "observe now cap b obs p = (Some (Recover t), p')"
  shows "\<exists>c before last q. obs_pressure obs = Some Pressure_Normal \<and> obs_counters obs = Some c
    \<and> previous_counters p = Some before \<and> last_sample p = Some last
    \<and> last \<le> now \<and> now - last \<le> SAMPLE_GAP_LIMIT
    \<and> counters_quiet_since c before (now - last) = Some True
    \<and> workspace_phase p = None
    \<and> quiet_since p = Some q \<and> q + RECOVERY_COOLDOWN \<le> now
    \<and> is_none_or (\<lambda>ch. ch + RECOVERY_COOLDOWN \<le> now) (last_capacity_change p)
    \<and> is_none_or (\<lambda>until. until \<le> now) (retry_not_before p)"
proof -
  note due = observe_Some_due [OF obs]
  let ?q = "sample_recorded now cap b obs p"
  have a: "sample_state now obs p = NormalQuiet" "recovery_action now cap ?q = Recover t"
    using obs observe_action_Recover by (auto simp: observe_eq [OF due cap] Let_def)
  have st: "workspace_phase p = None" "settled now ?q"
    using recovery_action_Recover [OF a(2)] by simp_all
  obtain q where q: "quiet_since p = Some q" "q + RECOVERY_COOLDOWN \<le> now"
    using st(2) sample_recorded_quiet_fields(1) [OF a(1)]
    by (cases "quiet_since p") (auto simp: settled_def elapsed_ge_iff policy_consts)
  have ch: "is_none_or (\<lambda>ch. ch + RECOVERY_COOLDOWN \<le> now) (last_capacity_change p)"
    using st(2) by (cases "last_capacity_change p") (auto simp: settled_def elapsed_ge_iff)
  have rt: "is_none_or (\<lambda>until. until \<le> now) (retry_not_before p)"
    using st(2) sample_recorded_quiet_fields(2) [OF a(1)] by (simp add: settled_def)
  from a(1) have n: "obs_pressure obs = Some Pressure_Normal" "\<not> sample_gap now p"
    "observed_quiet obs (sample_elapsed now p) p = Some True"
    by (simp_all add: sample_state_def classify_quiet_iff)
  then obtain last where l: "last_sample p = Some last" "last \<le> now" "now - last \<le> SAMPLE_GAP_LIMIT"
    "sample_elapsed now p = Some (now - last)"
    by (cases "last_sample p") (auto simp: sample_gap_def sample_elapsed_def checked_sub_def split: if_splits)
  from n(3) l(4) obtain c before where "obs_counters obs = Some c" "previous_counters p = Some before"
    "counters_quiet_since c before (now - last) = Some True"
    by (auto simp: observed_quiet_def bind_eq_Some_conv opt_zip_eq_Some)
  with n l q ch rt st(1) show ?thesis by blast
qed

end
