(* ===== verification/Expert_Chunks.thy ===== *)
theory Expert_Chunks
  imports Rust_Collections
begin

text \<open>
  Bounded expert storage: the IQ_K slot layout of \<open>src/iqk.rs\<close> and the fixed chunks of
  \<open>src/experts/chunks.rs\<close>. Slots live in slabs that end at the next 16-slot boundary or at the
  capacity; release drops whole slabs, growth appends slabs and replaces the address table. Metal is
  a parameter: whether a buffer of a given length can be allocated, whether a slot's GPU addresses
  can be taken, and whether all readers have finished.
\<close>

section \<open>Slot layout\<close>

datatype codec = Iq2K | Iq3K

definition bytes_per_block :: "codec \<Rightarrow> nat" where
  "bytes_per_block c = (case c of Iq2K \<Rightarrow> 76 | Iq3K \<Rightarrow> 110)"

definition value_table_bytes :: "codec \<Rightarrow> nat" where
  "value_table_bytes c = (case c of Iq2K \<Rightarrow> 8 * 2 | Iq3K \<Rightarrow> 16 * 2)"

record geometry =
  g_codec :: codec
  in_features :: nat
  out_features :: nat

definition geometry_new :: "codec \<Rightarrow> nat \<Rightarrow> nat \<Rightarrow> geometry result" where
  "geometry_new c n m =
     ensure (n = 768 \<or> n = 2560) ''IQ_K GEMV requires stored width 768 or 2560''
     (ensure (0 < m \<and> m mod 16 = 0) ''IQ_K GEMV output rows must be a positive multiple of 16''
     (ensure (m \<le> 4294967295) ''IQ_K output width exceeds Metal dimensions''
     (Inr \<lparr> g_codec = c, in_features = n, out_features = m \<rparr>)))"

text \<open>A projection of a package layer, as far as storage depends on it.\<close>

record projection_layout =
  pl_codec :: string
  pl_out_features :: nat
  pl_logical_in_features :: nat
  pl_stored_in_features :: nat

definition codec_parse :: "string \<Rightarrow> codec result" where
  "codec_parse name =
     (if name = ''iq2_k'' then Inr Iq2K else if name = ''iq3_k'' then Inr Iq3K
      else Inl ''unsupported IQ_K GEMV codec'')"

definition geometry_from_projection :: "projection_layout \<Rightarrow> geometry result" where
  "geometry_from_projection layout =
     bindr (codec_parse (pl_codec layout)) (\<lambda>c.
     geometry_new c (pl_stored_in_features layout) (pl_out_features layout))"

definition row_bytes :: "geometry \<Rightarrow> nat" where
  "row_bytes g = in_features g div 256 * bytes_per_block (g_codec g)"

text \<open>The streams qs, qh, scl, sch, sex and dv of one row.\<close>

definition stream_lengths :: "geometry \<Rightarrow> nat list" where
  "stream_lengths g =
     (let n = in_features g in
      [n div 4, if g_codec g = Iq3K then n div 8 else 0, n div 32,
       if g_codec g = Iq3K then n div 128 else 0, n div 128, n div 256 * 2])"

record copy_span =
  row_offset :: nat
  span_row_bytes :: nat
  span_slot_bytes :: nat

record copy_plan =
  plan_row_bytes :: nat
  plan_rows :: nat
  plan_slots :: nat
  plan_spans :: "copy_span list"

definition copy_span_step :: "nat \<Rightarrow> nat \<times> copy_span list \<Rightarrow> nat \<Rightarrow> (nat \<times> copy_span list) result" where
  "copy_span_step rows acc width =
     bindr (ok_or (checked_mul rows width) ''IQ_K stream slot byte count overflow'') (\<lambda>slot_bytes.
     bindr (ok_or (checked_add (fst acc) width) ''IQ_K stream span overflow'') (\<lambda>offset.
     Inr (offset, snd acc @ [\<lparr> row_offset = fst acc, span_row_bytes = width,
       span_slot_bytes = slot_bytes \<rparr>])))"

definition relayout_copy_plan :: "geometry \<Rightarrow> nat \<Rightarrow> copy_plan result" where
  "relayout_copy_plan g n =
     ensure (0 < n) ''IQ_K copy plan requires physical slots''
     (bindr (try_fold (copy_span_step (out_features g)) (0, []) (stream_lengths g)) (\<lambda>acc.
      ensure (fst acc = row_bytes g) ''IQ_K stream spans do not fill one row''
      (Inr \<lparr> plan_row_bytes = fst acc, plan_rows = out_features g, plan_slots = n,
             plan_spans = snd acc \<rparr>)))"

definition slot_offset :: "nat \<Rightarrow> nat \<Rightarrow> copy_span \<Rightarrow> nat option result" where
  "slot_offset n slot span =
     (if span_row_bytes span = 0 then Inr None
      else bindr (ok_or (checked_mul slot (span_slot_bytes span)) ''IQ_K slot offset overflow'') (\<lambda>start.
        ensure (is_some_and (\<lambda>fin. is_some_and (\<lambda>len. fin \<le> len) (checked_mul n (span_slot_bytes span)))
            (checked_add start (span_slot_bytes span)))
          ''IQ_K slot span exceeds stream storage'' (Inr (Some start))))"

definition slot_offsets :: "copy_plan \<Rightarrow> nat \<Rightarrow> nat \<Rightarrow> nat option list result" where
  "slot_offsets p slot source_len =
     ensure (slot < plan_slots p) ''IQ_K slot out of range''
     (bindr (ok_or (checked_mul (plan_rows p) (plan_row_bytes p)) ''IQ_K projection byte count overflow'')
       (\<lambda>bytes. ensure (source_len = bytes) ''IQ_K projection payload has invalid size''
       (map_result (slot_offset (plan_slots p) slot) (plan_spans p))))"

definition slot_stream_bytes :: "geometry \<Rightarrow> nat list result" where
  "slot_stream_bytes g = bindr (relayout_copy_plan g 1) (\<lambda>p. Inr (map span_slot_bytes (plan_spans p)))"

section \<open>Slabs\<close>

definition CHUNK_SLOTS :: nat where "CHUNK_SLOTS = 16"
definition MAX_BOUNDED_SLOTS :: nat where "MAX_BOUNDED_SLOTS = 511"
definition MAX_CHUNKS :: nat where "MAX_CHUNKS = 2 * div_ceil 512 16"

lemma MAX_CHUNKS_eq: "MAX_CHUNKS = 64" by (simp add: MAX_CHUNKS_def div_ceil_def)

lemmas chunk_consts = CHUNK_SLOTS_def MAX_BOUNDED_SLOTS_def MAX_CHUNKS_eq

definition release_prefix :: "nat \<Rightarrow> nat \<Rightarrow> unit result" where
  "release_prefix capacity target =
     ensure (0 < target \<and> target mod CHUNK_SLOTS = 0 \<and> target < capacity)
       ''expert release target must be a smaller positive whole-chunk prefix'' (Inr ())"

definition growth_target :: "nat \<Rightarrow> nat \<Rightarrow> unit result" where
  "growth_target capacity target =
     ensure (capacity < target \<and> target \<le> MAX_BOUNDED_SLOTS)
       ''expert growth target must be a larger bounded capacity below 512'' (Inr ())"

lemma next_boundary: "start < (start div CHUNK_SLOTS + 1) * CHUNK_SLOTS"
  unfolding CHUNK_SLOTS_def by presburger

function growth_ranges :: "nat \<Rightarrow> nat \<Rightarrow> (nat \<times> nat) list" where
  "growth_ranges start target =
     (if target \<le> start then []
      else let fin = min ((start div CHUNK_SLOTS + 1) * CHUNK_SLOTS) target
           in (start, fin) # growth_ranges fin target)"
  by pat_completeness auto

termination
proof (relation "measure (\<lambda>(start, target). target - start)")
  fix start target fin :: nat
  assume "\<not> target \<le> start" "fin = min ((start div CHUNK_SLOTS + 1) * CHUNK_SLOTS) target"
  with next_boundary [of start] show "((fin, target), start, target) \<in> measure (\<lambda>(start, target). target - start)"
    by simp
qed simp

declare growth_ranges.simps [simp del]

text \<open>One stream of a slab: aligned to 16 bytes (\<open>& !15\<close>), absent streams keep offset zero.\<close>

definition slab_stream :: "nat \<Rightarrow> nat \<times> nat list \<Rightarrow> nat \<Rightarrow> (nat \<times> nat list) result" where
  "slab_stream n acc slot_bytes =
     (if slot_bytes = 0 then Inr (fst acc, snd acc @ [0])
      else
        bindr (ok_or (checked_add (fst acc) 15) ''chunk alignment overflow'') (\<lambda>padded.
        let aligned = padded div 16 * 16 in
        bindr (ok_or (checked_mul n slot_bytes) ''chunk stream size overflow'') (\<lambda>len.
        bindr (ok_or (checked_add aligned len) ''chunk size overflow'') (\<lambda>bytes.
        Inr (bytes, snd acc @ [aligned])))))"

definition slab_projection :: "nat \<Rightarrow> nat \<times> nat list list \<Rightarrow> geometry \<Rightarrow> (nat \<times> nat list list) result" where
  "slab_projection n acc g =
     bindr (slot_stream_bytes g) (\<lambda>streams.
     bindr (try_fold (slab_stream n) (fst acc, []) streams) (\<lambda>(bytes, offsets).
     Inr (bytes, snd acc @ [offsets])))"

definition slab_layout :: "geometry list \<Rightarrow> nat \<Rightarrow> (nat list list \<times> nat) result" where
  "slab_layout gs n =
     ensure (1 \<le> n \<and> n \<le> CHUNK_SLOTS) ''invalid fixed chunk slot extent''
     (bindr (try_fold (slab_projection n) (0, []) gs) (\<lambda>(bytes, offsets). Inr (offsets, bytes)))"

section \<open>Fixed chunks\<close>

record metal =
  m_alloc :: "nat \<Rightarrow> unit result"
  m_address :: "nat \<Rightarrow> unit result"
  m_quiescent :: "unit result"

record chunk =
  chunk_start :: nat
  chunk_end :: nat
  chunk_bytes :: nat

record fixed_chunks =
  fc_chunks :: "chunk list"
  fc_reserved :: nat
  fc_capacity :: nat
  fc_geometries :: "geometry list"
  fc_addresses_len :: nat

definition allocate_chunk :: "metal \<Rightarrow> geometry list \<Rightarrow> nat \<times> nat \<Rightarrow> chunk result" where
  "allocate_chunk m gs rg =
     bindr (slab_layout gs (snd rg - fst rg)) (\<lambda>(offsets, bytes).
     bindr (m_alloc m bytes) (\<lambda>_.
     Inr \<lparr> chunk_start = fst rg, chunk_end = snd rg, chunk_bytes = bytes \<rparr>))"

definition write_chunk_addresses :: "metal \<Rightarrow> unit \<Rightarrow> chunk \<Rightarrow> unit result" where
  "write_chunk_addresses m u c =
     try_fold (\<lambda>_ slot. m_address m slot) u [chunk_start c..<chunk_end c]"

definition startup_ranges :: "nat \<Rightarrow> (nat \<times> nat) list" where
  "startup_ranges capacity =
     map (\<lambda>i. let start = i * CHUNK_SLOTS in (start, start + min (capacity - start) CHUNK_SLOTS))
       [0..<div_ceil capacity CHUNK_SLOTS]"

definition address_table_bytes :: nat where
  "address_table_bytes = MAX_BOUNDED_SLOTS * (18 * 8)"

definition fixed_chunks_new :: "metal \<Rightarrow> geometry list \<Rightarrow> nat \<Rightarrow> fixed_chunks result" where
  "fixed_chunks_new m gs capacity =
     ensure (10 \<le> capacity \<and> capacity < 512) ''fixed chunks require bounded expert capacity''
     (bindr (map_result (\<lambda>g. m_alloc m (value_table_bytes (g_codec g))) gs) (\<lambda>_.
      bindr (map_result (allocate_chunk m gs) (startup_ranges capacity)) (\<lambda>chunks.
      bindr (m_alloc m address_table_bytes) (\<lambda>_.
      bindr (try_fold (write_chunk_addresses m) () chunks) (\<lambda>_.
      bindr (m_alloc m 4) (\<lambda>_.
      Inr \<lparr> fc_chunks = chunks, fc_reserved = MAX_CHUNKS, fc_capacity = capacity,
            fc_geometries = gs, fc_addresses_len = address_table_bytes \<rparr>))))))"

definition location :: "fixed_chunks \<Rightarrow> nat \<Rightarrow> (nat \<times> nat) result" where
  "location fc slot =
     ensure (slot < fc_capacity fc) ''expert slot exceeds fixed chunk capacity''
     (let i = length (takeWhile (\<lambda>c. chunk_end c \<le> slot) (fc_chunks fc)) in
      if length (fc_chunks fc) \<le> i then Inl ''expert slot is outside chunk ranges''
      else let c = fc_chunks fc ! i in
        ensure (chunk_start c \<le> slot \<and> slot < chunk_end c) ''expert slot is outside chunk ranges''
        (Inr (i, slot - chunk_start c)))"

definition prepare_suffix :: "fixed_chunks \<Rightarrow> nat \<Rightarrow> (nat \<times> nat) result" where
  "prepare_suffix fc target =
     bindr (release_prefix (fc_capacity fc) target) (\<lambda>_.
     bindr (ok_or (position (\<lambda>c. chunk_end c = target) (fc_chunks fc))
        ''expert release target is not a complete chunk boundary'') (\<lambda>i.
     bindr (try_fold (\<lambda>total c. ok_or (checked_add total (chunk_bytes c))
          ''released expert byte count overflow'') 0 (drop (i + 1) (fc_chunks fc))) (\<lambda>bytes.
     Inr (i + 1, bytes))))"

definition commit_suffix :: "nat \<Rightarrow> nat \<Rightarrow> fixed_chunks \<Rightarrow> fixed_chunks" where
  "commit_suffix keep target fc =
     fc \<lparr> fc_chunks := take keep (fc_chunks fc), fc_capacity := target \<rparr>"

record growth_quote =
  added_requested_bytes :: nat
  preparation_requested_bytes :: nat

text \<open>The check that the retained chunks cover the prefix: the end reached, in order.\<close>

definition prefix_step :: "nat \<Rightarrow> nat \<Rightarrow> chunk \<Rightarrow> nat result" where
  "prefix_step capacity fin c =
     ensure (chunk_start c = fin \<and> chunk_start c < chunk_end c \<and> chunk_end c \<le> capacity
         \<and> chunk_end c \<le> (chunk_start c div CHUNK_SLOTS + 1) * CHUNK_SLOTS)
       ''expert growth chunks do not cover the retained prefix'' (Inr (chunk_end c))"

definition quote_growth :: "fixed_chunks \<Rightarrow> nat \<Rightarrow> growth_quote result" where
  "quote_growth fc target =
     ensure (fc_addresses_len fc mod (18 * 8) = 0) ''expert address table extent differs''
     (bindr (growth_target (fc_capacity fc) target) (\<lambda>_.
      let ranges = growth_ranges (fc_capacity fc) target; new_chunks = length ranges in
      bindr (ok_or (checked_add (length (fc_chunks fc)) new_chunks)
        ''expert growth chunk count overflow'') (\<lambda>total.
      ensure (total \<le> MAX_CHUNKS) ''expert growth would exceed the segment storage limit''
      (bindr (try_fold (prefix_step (fc_capacity fc)) 0 (fc_chunks fc)) (\<lambda>fin.
       ensure (fc_addresses_len fc = address_table_bytes \<and> fin = fc_capacity fc
           \<and> total \<le> fc_reserved fc)
         ''expert growth prefix or retained chunk capacity differs''
       (bindr (try_fold (\<lambda>acc rg. bindr (slab_layout (fc_geometries fc) (snd rg - fst rg))
            (\<lambda>(offsets, bytes). ok_or (checked_add acc bytes) ''expert growth byte count overflow''))
          0 ranges) (\<lambda>weights.
        bindr (ok_or (checked_add weights (fc_addresses_len fc))
          ''expert growth preparation byte count overflow'') (\<lambda>preparation.
        Inr \<lparr> added_requested_bytes = weights, preparation_requested_bytes = preparation \<rparr>))))))))"

record prepared_growth =
  pg_chunks :: "chunk list"
  pg_target :: nat
  pg_quote :: growth_quote

definition prepare_growth :: "metal \<Rightarrow> fixed_chunks \<Rightarrow> nat \<Rightarrow> prepared_growth result" where
  "prepare_growth m fc target =
     bindr (quote_growth fc target) (\<lambda>quote.
     bindr (m_quiescent m) (\<lambda>_.
     bindr (map_result (allocate_chunk m (fc_geometries fc)) (growth_ranges (fc_capacity fc) target)) (\<lambda>chunks.
     bindr (m_alloc m address_table_bytes) (\<lambda>_.
     bindr (try_fold (write_chunk_addresses m) () (fc_chunks fc @ chunks)) (\<lambda>_.
     Inr \<lparr> pg_chunks = chunks, pg_target = target, pg_quote = quote \<rparr>)))))"

definition commit_growth :: "prepared_growth \<Rightarrow> fixed_chunks \<Rightarrow> fixed_chunks" where
  "commit_growth pg fc =
     fc \<lparr> fc_chunks := fc_chunks fc @ pg_chunks pg, fc_addresses_len := address_table_bytes,
          fc_capacity := pg_target pg \<rparr>"

section \<open>The chunk invariant\<close>

fun chunks_cover :: "nat \<Rightarrow> chunk list \<Rightarrow> nat \<Rightarrow> bool" where
  "chunks_cover s [] e \<longleftrightarrow> s = e"
| "chunks_cover s (c # cs) e \<longleftrightarrow>
     chunk_start c = s \<and> s < chunk_end c \<and> chunk_end c \<le> (s div CHUNK_SLOTS + 1) * CHUNK_SLOTS
     \<and> chunks_cover (chunk_end c) cs e"

definition chunk_sized :: "geometry list \<Rightarrow> chunk \<Rightarrow> bool" where
  "chunk_sized gs c \<longleftrightarrow> (\<exists>offsets. slab_layout gs (chunk_end c - chunk_start c) = Inr (offsets, chunk_bytes c))"

definition chunks_wf :: "fixed_chunks \<Rightarrow> bool" where
  "chunks_wf fc \<longleftrightarrow> chunks_cover 0 (fc_chunks fc) (fc_capacity fc)
     \<and> (\<forall>c\<in>set (fc_chunks fc). chunk_sized (fc_geometries fc) c)
     \<and> length (fc_chunks fc) \<le> MAX_CHUNKS \<and> fc_reserved fc = MAX_CHUNKS
     \<and> fc_addresses_len fc = address_table_bytes
     \<and> 10 \<le> fc_capacity fc \<and> fc_capacity fc \<le> MAX_BOUNDED_SLOTS"

lemma chunks_cover_le: "chunks_cover s cs e \<Longrightarrow> s \<le> e"
  by (induction s cs e rule: chunks_cover.induct) auto

lemma chunks_cover_append:
  "chunks_cover s (cs @ ds) e \<longleftrightarrow> (\<exists>m. chunks_cover s cs m \<and> chunks_cover m ds e)"
  by (induction cs arbitrary: s) auto

lemma chunks_cover_unique: "chunks_cover s cs e \<Longrightarrow> chunks_cover s cs f \<Longrightarrow> e = f"
  by (induction s cs e rule: chunks_cover.induct) auto

text \<open>Every 16-slot boundary of the cover is the end of a chunk.\<close>

lemma chunks_cover_boundary:
  "chunks_cover s cs e \<Longrightarrow> s < t \<Longrightarrow> t \<le> e \<Longrightarrow> t mod CHUNK_SLOTS = 0 \<Longrightarrow> \<exists>c\<in>set cs. chunk_end c = t"
proof (induction s cs e rule: chunks_cover.induct)
  case (2 s c cs e)
  show ?case
  proof (cases "t \<le> chunk_end c")
    case True
    have "t = t div CHUNK_SLOTS * CHUNK_SLOTS" using 2(5) by (metis add.right_neutral div_mult_mod_eq)
    moreover have "s div CHUNK_SLOTS < t div CHUNK_SLOTS"
    proof (rule ccontr)
      assume "\<not> s div CHUNK_SLOTS < t div CHUNK_SLOTS"
      then have "t div CHUNK_SLOTS * CHUNK_SLOTS \<le> s div CHUNK_SLOTS * CHUNK_SLOTS" by simp
      with calculation 2(3) show False by (metis div_times_less_eq_dividend leD le_less_trans)
    qed
    then have "(s div CHUNK_SLOTS + 1) * CHUNK_SLOTS \<le> t div CHUNK_SLOTS * CHUNK_SLOTS" by (intro mult_le_mono1) simp
    ultimately have "chunk_end c \<le> t" using 2(2) by simp
    with True show ?thesis by auto
  next
    case False
    with 2 show ?thesis by auto
  qed
qed simp

lemma chunks_cover_position:
  assumes "chunks_cover s cs e" "position (\<lambda>c. chunk_end c = t) cs = Some i"
  shows "chunks_cover s (take (i + 1) cs) t" "i < length cs"
proof -
  from assms(2) show i: "i < length cs" by (simp add: position_Some)
  have "take (i + 1) cs = take i cs @ [cs ! i]" using i by (simp add: take_Suc_conv_app_nth)
  moreover obtain m where "chunks_cover s (take (i + 1) cs) m"
    using assms(1) chunks_cover_append [of s "take (i + 1) cs" "drop (i + 1) cs" e] by auto
  ultimately show "chunks_cover s (take (i + 1) cs) t"
    using assms(2) by (auto simp: chunks_cover_append position_Some)
qed

text \<open>Every slot below the capacity lies in exactly the chunk the search finds.\<close>

lemma chunks_cover_find:
  "chunks_cover s cs e \<Longrightarrow> s \<le> slot \<Longrightarrow> slot < e \<Longrightarrow>
     let i = length (takeWhile (\<lambda>c. chunk_end c \<le> slot) cs)
     in i < length cs \<and> chunk_start (cs ! i) \<le> slot \<and> slot < chunk_end (cs ! i)"
  by (induction s cs e rule: chunks_cover.induct) (auto simp: Let_def)

lemma growth_ranges_cover:
  assumes "length ds = length (growth_ranges s t)" "s \<le> t"
    and "\<And>i. i < length ds \<Longrightarrow> growth_ranges s t ! i = (chunk_start (ds ! i), chunk_end (ds ! i))"
  shows "chunks_cover s ds t"
  using assms
proof (induction s t arbitrary: ds rule: growth_ranges.induct)
  case (1 start target)
  show ?case
  proof (cases "target \<le> start")
    case True
    with 1 show ?thesis by (simp add: growth_ranges.simps [of start target])
  next
    case False
    define fin where "fin = min ((start div CHUNK_SLOTS + 1) * CHUNK_SLOTS) target"
    have r: "growth_ranges start target = (start, fin) # growth_ranges fin target"
      using False by (subst growth_ranges.simps) (simp add: fin_def Let_def)
    have e: "start < fin" "fin \<le> target" using next_boundary [of start] False by (simp_all add: fin_def)
    from 1(2) r obtain c cs where ds: "ds = c # cs" by (cases ds) simp_all
    have c: "chunk_start c = start" "chunk_end c = fin" using 1(4) [of 0] by (simp_all add: ds r)
    have "chunks_cover fin cs target"
    proof (rule 1(1) [OF False fin_def])
      show "length cs = length (growth_ranges fin target)" using 1(2) by (simp add: ds r)
      show "fin \<le> target" by (rule e)
      show "growth_ranges fin target ! i = (chunk_start (cs ! i), chunk_end (cs ! i))" if "i < length cs" for i
        using 1(4) [of "Suc i"] that by (simp add: ds r)
    qed
    with c e show ?thesis by (simp add: ds fin_def)
  qed
qed

end
