(* ===== verification/Expert_Storage.thy ===== *)
theory Expert_Storage
  imports Expert_Chunks
begin

text \<open>
  Correctness of bounded expert storage: the chunk invariant through construction, release and
  growth, the slot search, and the layout of streams inside one slab.
\<close>

section \<open>Geometry\<close>

lemma geometry_spans_fill:
  assumes "geometry_new c n m = Inr g"
  shows "sum_list (stream_lengths g) = row_bytes g"
  using assms by (cases c) (auto simp: geometry_new_def result_simps stream_lengths_def row_bytes_def
      bytes_per_block_def Let_def)

text \<open>The end reached by the streams from \<open>b\<close>: each present stream starts aligned.\<close>

fun streams_placed :: "nat \<Rightarrow> nat \<Rightarrow> nat list \<Rightarrow> nat list \<Rightarrow> nat \<Rightarrow> bool" where
  "streams_placed n b [] [] e \<longleftrightarrow> b \<le> e"
| "streams_placed n b (w # ws) (off # offs) e \<longleftrightarrow>
     (if w = 0 then off = 0 \<and> streams_placed n b ws offs e
      else b \<le> off \<and> off mod 16 = 0 \<and> streams_placed n (off + n * w) ws offs e)"
| "streams_placed n b _ _ e \<longleftrightarrow> False"

lemma streams_placed_le: "streams_placed n b ws offs e \<Longrightarrow> b \<le> e"
  by (induction n b ws offs e rule: streams_placed.induct) (auto split: if_splits)

lemma streams_placed_later:
  "streams_placed n b ws offs e \<Longrightarrow> e \<le> e' \<Longrightarrow> streams_placed n b ws offs e'"
  by (induction n b ws offs e rule: streams_placed.induct) (auto split: if_splits)

lemma streams_placed_append:
  "streams_placed n b ws offs m \<Longrightarrow> streams_placed n m vs offs' e \<Longrightarrow>
     streams_placed n b (ws @ vs) (offs @ offs') e"
proof (induction n b ws offs m rule: streams_placed.induct)
  case (1 n b e0)
  then show ?case
  proof (induction n e0 vs offs' e rule: streams_placed.induct)
    case (2 n b' w ws off offs e)
    then show ?case by (auto split: if_splits)
  qed auto
qed (auto split: if_splits)

lemma align16: "(b::nat) \<le> (b + 15) div 16 * 16" "(b + 15) div 16 * 16 mod 16 = 0"
  by presburger simp

lemma slab_stream_placed:
  assumes "try_fold (slab_stream n) (b, offs) ws = Inr (e, offs')"
  shows "\<exists>new. offs' = offs @ new \<and> streams_placed n b ws new e"
  using assms
proof (induction ws arbitrary: b offs)
  case (Cons w ws)
  then obtain b1 offs1 where s: "slab_stream n (b, offs) w = Inr (b1, offs1)"
    "try_fold (slab_stream n) (b1, offs1) ws = Inr (e, offs')"
    by (auto simp: result_simps)
  from Cons.IH [OF s(2)] obtain new where new: "offs' = offs1 @ new" "streams_placed n b1 ws new e" by blast
  show ?case
  proof (cases "w = 0")
    case True
    with s(1) new show ?thesis by (intro exI [of _ "0 # new"]) (simp add: slab_stream_def)
  next
    case False
    with s(1) have "offs1 = offs @ [(b + 15) div 16 * 16]" "b1 = (b + 15) div 16 * 16 + n * w"
      by (auto simp: slab_stream_def result_simps rust_arith Let_def)
    with new False align16 [of b] show ?thesis
      by (intro exI [of _ "(b + 15) div 16 * 16 # new"]) simp
  qed
qed simp

text \<open>All present streams of a slab, in order, without overlap and within its bytes.\<close>

lemma slab_projections_placed:
  assumes "try_fold (slab_projection n) (b, os) gs = Inr (e, os')"
  shows "\<exists>new wss. os' = os @ new \<and> list_all2 (\<lambda>g ws. slot_stream_bytes g = Inr ws) gs wss
    \<and> streams_placed n b (concat wss) (concat new) e \<and> length new = length gs
    \<and> list_all2 (\<lambda>ws offs. length offs = length ws) wss new"
  using assms
proof (induction gs arbitrary: b os)
  case (Cons g gs)
  then obtain acc where f: "slab_projection n (b, os) g = Inr acc"
    "try_fold (slab_projection n) acc gs = Inr (e, os')" by (auto simp: result_simps)
  from f(1) obtain b1 offs ws where s1: "slot_stream_bytes g = Inr ws"
    "try_fold (slab_stream n) (b, []) ws = Inr (b1, offs)" "acc = (b1, os @ [offs])"
    unfolding slab_projection_def by (auto simp: result_simps)
  have s: "slot_stream_bytes g = Inr ws" "try_fold (slab_stream n) (b, []) ws = Inr (b1, offs)"
    "try_fold (slab_projection n) (b1, os @ [offs]) gs = Inr (e, os')" using s1 f(2) by simp_all
  from slab_stream_placed [OF s(2)] have p: "streams_placed n b ws offs b1" by simp
  have l: "length offs = length ws"
    using p by (induction n b ws offs b1 rule: streams_placed.induct) (auto split: if_splits)
  from Cons.IH [OF s(3)] obtain new wss where n: "os' = (os @ [offs]) @ new"
    "list_all2 (\<lambda>g ws. slot_stream_bytes g = Inr ws) gs wss"
    "streams_placed n b1 (concat wss) (concat new) e" "length new = length gs"
    "list_all2 (\<lambda>ws offs. length offs = length ws) wss new" by blast
  show ?case
    using n s(1) l streams_placed_append [OF p n(3)]
    by (intro exI [of _ "offs # new"] exI [of _ "ws # wss"]) simp
qed simp

lemma slab_layout_placed:
  assumes "slab_layout gs n = Inr (offsets, bytes)"
  shows "\<exists>wss. list_all2 (\<lambda>g ws. slot_stream_bytes g = Inr ws) gs wss
    \<and> streams_placed n 0 (concat wss) (concat offsets) bytes
    \<and> list_all2 (\<lambda>ws offs. length offs = length ws) wss offsets"
proof -
  from assms have "try_fold (slab_projection n) (0, []) gs = Inr (bytes, offsets)"
    by (auto simp: slab_layout_def result_simps)
  from slab_projections_placed [OF this] show ?thesis by auto
qed

lemma streams_placed_nth:
  assumes "streams_placed n b ws offs e" "i < length ws" "ws ! i \<noteq> 0"
  shows "b \<le> offs ! i \<and> offs ! i mod 16 = 0 \<and> offs ! i + n * (ws ! i) \<le> e
    \<and> (\<forall>j<length ws. i < j \<longrightarrow> ws ! j \<noteq> 0 \<longrightarrow> offs ! i + n * (ws ! i) \<le> offs ! j)"
  using assms
proof (induction n b ws offs e arbitrary: i rule: streams_placed.induct)
  case (2 n b w ws off offs e)
  have tail: "b' \<le> offs ! k" if "streams_placed n b' ws offs e" "k < length ws" "ws ! k \<noteq> 0"
      "\<And>k. k < length ws \<Longrightarrow> ws ! k \<noteq> 0 \<Longrightarrow> b' \<le> offs ! k \<and> offs ! k mod 16 = 0
         \<and> offs ! k + n * (ws ! k) \<le> e
         \<and> (\<forall>j<length ws. k < j \<longrightarrow> ws ! j \<noteq> 0 \<longrightarrow> offs ! k + n * (ws ! k) \<le> offs ! j)" for b' k
    using that by blast
  show ?case
  proof (cases i)
    case 0
    with 2(5) have w: "w \<noteq> 0" by simp
    with 2(3) have p: "b \<le> off" "off mod 16 = 0" "streams_placed n (off + n * w) ws offs e" by simp_all
    note ih = 2(2) [OF w p(3)]
    have "\<forall>j<length (w # ws). 0 < j \<longrightarrow> (w # ws) ! j \<noteq> 0 \<longrightarrow> off + n * w \<le> (off # offs) ! j"
      using ih by (auto simp: nth_Cons split: nat.splits)
    with 0 p streams_placed_le [OF p(3)] show ?thesis by auto
  next
    case (Suc k)
    show ?thesis
    proof (cases "w = 0")
      case True
      with 2(3) have p: "streams_placed n b ws offs e" by simp
      from 2(1) [OF True p, of k] 2(4,5) Suc show ?thesis by (auto simp: nth_Cons split: nat.splits)
    next
      case False
      with 2(3) have p: "b \<le> off" "streams_placed n (off + n * w) ws offs e" by simp_all
      from 2(2) [OF False p(2), of k] 2(4,5) Suc p(1) show ?thesis
        by (auto simp: nth_Cons split: nat.splits)
    qed
  qed
qed auto

section \<open>Chunks\<close>

lemma allocate_chunk_Inr:
  assumes "allocate_chunk m gs r = Inr c"
  shows "r = (chunk_start c, chunk_end c)" "chunk_sized gs c"
  using assms unfolding allocate_chunk_def by (auto simp: result_simps chunk_sized_def)

lemma allocate_chunks_Inr:
  assumes "map_result (allocate_chunk m gs) rs = Inr cs"
  shows "length cs = length rs" "\<And>i. i < length cs \<Longrightarrow> rs ! i = (chunk_start (cs ! i), chunk_end (cs ! i))"
    "\<forall>c\<in>set cs. chunk_sized gs c"
proof -
  from assms have a: "list_all2 (\<lambda>r c. allocate_chunk m gs r = Inr c) rs cs"
    by (simp add: map_result_eq_Inr)
  then show "length cs = length rs" by (simp add: list_all2_lengthD)
  with a show "rs ! i = (chunk_start (cs ! i), chunk_end (cs ! i))" if "i < length cs" for i
    using that allocate_chunk_Inr(1) [of m gs "rs ! i" "cs ! i"] by (simp add: list_all2_conv_all_nth)
  show "\<forall>c\<in>set cs. chunk_sized gs c"
    using a [unfolded list_all2_conv_all_nth] allocate_chunk_Inr(2) by (metis in_set_conv_nth)
qed

lemma startup_ranges_props:
  "length (startup_ranges c) = div_ceil c 16"
  "i < div_ceil c 16 \<Longrightarrow> startup_ranges c ! i = (i * 16, i * 16 + min (c - i * 16) 16)"
  by (simp_all add: startup_ranges_def CHUNK_SLOTS_def Let_def)

lemma startup_cover_from:
  assumes "length cs = div_ceil c 16"
    and "\<And>i. i < length cs \<Longrightarrow> (chunk_start (cs ! i), chunk_end (cs ! i)) = (i * 16, i * 16 + min (c - i * 16) 16)"
    and "k \<le> length cs"
  shows "chunks_cover 0 (take k cs) (min (k * 16) c)"
  using assms(3)
proof (induction k)
  case (Suc k)
  then have k: "k < length cs" by simp
  then have lt: "k * 16 < c" using assms(1) div_ceil_bounds [of 16 c] by (simp add: div_ceil_def split: if_splits)
  have t: "take (Suc k) cs = take k cs @ [cs ! k]" using k by (simp add: take_Suc_conv_app_nth)
  have c: "chunk_start (cs ! k) = k * 16" "chunk_end (cs ! k) = min (Suc k * 16) c"
    using assms(2) [OF k] lt by auto
  have "chunks_cover 0 (take k cs) (k * 16)" using Suc lt by (simp add: min_absorb1)
  then show ?case using c lt by (auto simp: t chunks_cover_append CHUNK_SLOTS_def)
qed simp

lemma fixed_chunks_new_wf:
  assumes "fixed_chunks_new m gs c = Inr fc"
  shows "chunks_wf fc" "fc_capacity fc = c" "fc_geometries fc = gs"
proof -
  from assms obtain cs where b: "10 \<le> c" "c < 512"
    and cs: "map_result (allocate_chunk m gs) (startup_ranges c) = Inr cs"
    and fc: "fc = \<lparr> fc_chunks = cs, fc_reserved = MAX_CHUNKS, fc_capacity = c,
        fc_geometries = gs, fc_addresses_len = address_table_bytes \<rparr>"
    unfolding fixed_chunks_new_def by (auto simp only: result_simps)
  note a = allocate_chunks_Inr [OF cs]
  have l: "length cs = div_ceil c 16" using a(1) by (simp add: startup_ranges_props)
  have "c \<le> div_ceil c 16 * 16" "div_ceil c 16 * 16 < c + 16" using div_ceil_bounds [of 16 c] by simp_all
  moreover have "chunks_cover 0 (take (length cs) cs) (min (length cs * 16) c)"
  proof (rule startup_cover_from [OF l _ order_refl])
    fix i assume "i < length cs"
    then show "(chunk_start (cs ! i), chunk_end (cs ! i)) = (i * 16, i * 16 + min (c - i * 16) 16)"
      using a(2) startup_ranges_props(2) l by metis
  qed
  ultimately have "chunks_cover 0 cs c" "length cs \<le> 64" using l b by (simp_all add: min_absorb2)
  with a(3) b show "chunks_wf fc" by (simp add: fc chunks_wf_def chunk_consts)
  show "fc_capacity fc = c" "fc_geometries fc = gs" by (simp_all add: fc)
qed

lemma prepare_suffix_Inr:
  assumes wf: "chunks_wf fc" and ok: "prepare_suffix fc t = Inr (keep, bytes)"
  shows "chunks_wf (commit_suffix keep t fc) \<or> t < 10"
    and "chunks_cover 0 (take keep (fc_chunks fc)) t" and "t < fc_capacity fc" and "t mod 16 = 0" and "0 < t"
    and "bytes = sum_list (map chunk_bytes (drop keep (fc_chunks fc)))"
proof -
  from ok obtain i where t: "0 < t" "t mod 16 = 0" "t < fc_capacity fc"
    and i: "position (\<lambda>c. chunk_end c = t) (fc_chunks fc) = Some i" "keep = i + 1"
    and b: "try_fold (\<lambda>total c. ok_or (checked_add total (chunk_bytes c))
          ''released expert byte count overflow'') 0 (drop (i + 1) (fc_chunks fc)) = Inr bytes"
    by (auto simp: prepare_suffix_def release_prefix_def result_simps CHUNK_SLOTS_def)
  have c: "chunks_cover 0 (fc_chunks fc) (fc_capacity fc)" using wf by (simp add: chunks_wf_def)
  note k = chunks_cover_position [OF c i(1)]
  show cv: "chunks_cover 0 (take keep (fc_chunks fc)) t" using k i(2) by simp
  show "chunks_wf (commit_suffix keep t fc) \<or> t < 10"
    using wf cv t set_take_subset [of keep "fc_chunks fc"] by (auto simp: chunks_wf_def commit_suffix_def)
  show "t < fc_capacity fc" "t mod 16 = 0" "0 < t" using t by simp_all
  show "bytes = sum_list (map chunk_bytes (drop keep (fc_chunks fc)))"
    using b i(2) by (simp add: checked_fold_sum u64_limit_def)
qed

text \<open>Whole-chunk release never fails for geometric reasons.\<close>

lemma prepare_suffix_complete:
  assumes wf: "chunks_wf fc" and t: "0 < t" "t mod 16 = 0" "t < fc_capacity fc"
    and lim: "sum_list (map chunk_bytes (fc_chunks fc)) < u64_limit"
  shows "\<exists>keep bytes. prepare_suffix fc t = Inr (keep, bytes)"
proof -
  have c: "chunks_cover 0 (fc_chunks fc) (fc_capacity fc)" using wf by (simp add: chunks_wf_def)
  have "\<exists>c\<in>set (fc_chunks fc). chunk_end c = t"
    by (rule chunks_cover_boundary [OF c]) (use t in \<open>simp_all add: CHUNK_SLOTS_def\<close>)
  then obtain i where i: "position (\<lambda>c. chunk_end c = t) (fc_chunks fc) = Some i"
    by (cases "position (\<lambda>c. chunk_end c = t) (fc_chunks fc)") (auto simp: position_None)
  have "sum_list (map chunk_bytes (take (i + 1) (fc_chunks fc))) + sum_list (map chunk_bytes (drop (i + 1) (fc_chunks fc)))
      = sum_list (map chunk_bytes (fc_chunks fc))"
    by (metis append_take_drop_id map_append sum_list_append)
  with lim have "try_fold (\<lambda>total c. ok_or (checked_add total (chunk_bytes c))
          ''released expert byte count overflow'') 0 (drop (i + 1) (fc_chunks fc))
        = Inr (sum_list (map chunk_bytes (drop (i + 1) (fc_chunks fc))))"
    by (simp add: checked_fold_sum u64_limit_def)
  with i t show ?thesis by (simp add: prepare_suffix_def release_prefix_def CHUNK_SLOTS_def)
qed

lemma location_total:
  assumes "chunks_wf fc" "slot < fc_capacity fc"
  shows "\<exists>i off. location fc slot = Inr (i, off) \<and> i < length (fc_chunks fc)
    \<and> chunk_start (fc_chunks fc ! i) + off = slot \<and> slot < chunk_end (fc_chunks fc ! i)"
proof -
  have "chunks_cover 0 (fc_chunks fc) (fc_capacity fc)" using assms by (simp add: chunks_wf_def)
  from chunks_cover_find [OF this _ assms(2)] assms(2) show ?thesis by (auto simp: location_def Let_def)
qed

lemma quote_growth_Inr:
  assumes "quote_growth fc t = Inr q"
  shows "fc_capacity fc < t" "t \<le> MAX_BOUNDED_SLOTS"
    "length (fc_chunks fc) + length (growth_ranges (fc_capacity fc) t) \<le> MAX_CHUNKS"
    "preparation_requested_bytes q = added_requested_bytes q + address_table_bytes"
  using assms unfolding quote_growth_def growth_target_def Let_def
  by (auto simp: result_simps rust_arith)

lemma prepare_growth_wf:
  assumes wf: "chunks_wf fc" and ok: "prepare_growth m fc t = Inr pg"
  shows "chunks_wf (commit_growth pg fc)" and "pg_target pg = t" and "quote_growth fc t = Inr (pg_quote pg)"
    and "take (length (fc_chunks fc)) (fc_chunks (commit_growth pg fc)) = fc_chunks fc"
    and "added_requested_bytes (pg_quote pg) = sum_list (map chunk_bytes (pg_chunks pg))"
proof -
  from ok obtain cs where q: "quote_growth fc t = Inr (pg_quote pg)"
    and cs: "map_result (allocate_chunk m (fc_geometries fc)) (growth_ranges (fc_capacity fc) t) = Inr cs"
    and pg: "pg_chunks pg = cs" "pg_target pg = t"
    unfolding prepare_growth_def by (auto simp: result_simps)
  note a = allocate_chunks_Inr [OF cs] and b = quote_growth_Inr [OF q]
  have "chunks_cover (fc_capacity fc) cs t"
    by (rule growth_ranges_cover) (use a b in simp_all)
  with wf a b show "chunks_wf (commit_growth pg fc)"
    by (auto simp: chunks_wf_def commit_growth_def pg chunks_cover_append)
  show "pg_target pg = t" "quote_growth fc t = Inr (pg_quote pg)" by (fact pg(2) q)+
  show "take (length (fc_chunks fc)) (fc_chunks (commit_growth pg fc)) = fc_chunks fc"
    by (simp add: commit_growth_def)
  have sized: "try_fold (\<lambda>acc rg. bindr (slab_layout gs (snd rg - fst rg))
      (\<lambda>(offsets, bytes). ok_or (checked_add acc bytes) ''expert growth byte count overflow'')) x rs = Inr n
      \<Longrightarrow> list_all2 (\<lambda>r c. allocate_chunk m gs r = Inr c) rs cs \<Longrightarrow> n = x + sum_list (map chunk_bytes cs)"
    for x rs cs n gs
  proof (induction rs arbitrary: x cs)
    case (Cons r rs)
    from Cons.prems(2) obtain c cs' where c: "cs = c # cs'" "allocate_chunk m gs r = Inr c"
      "list_all2 (\<lambda>r c. allocate_chunk m gs r = Inr c) rs cs'" by (auto simp: list_all2_Cons1)
    from c(2) obtain offs where l: "slab_layout gs (snd r - fst r) = Inr (offs, chunk_bytes c)"
      by (auto simp: allocate_chunk_def result_simps)
    from Cons.prems(1) l have "try_fold (\<lambda>acc rg. bindr (slab_layout gs (snd rg - fst rg))
      (\<lambda>(offsets, bytes). ok_or (checked_add acc bytes) ''expert growth byte count overflow''))
        (x + chunk_bytes c) rs = Inr n" by (auto simp: result_simps rust_arith)
    from Cons.IH [OF this c(3)] c(1) show ?case by simp
  qed simp
  show "added_requested_bytes (pg_quote pg) = sum_list (map chunk_bytes (pg_chunks pg))"
    using q sized [of "fc_geometries fc" 0 "growth_ranges (fc_capacity fc) t" _ cs]
      cs [unfolded map_result_eq_Inr]
    unfolding quote_growth_def Let_def pg by (cases "pg_quote pg") (auto simp: result_simps rust_arith)
qed

end
