(* ===== verification/Rust_State.thy ===== *)
theory Rust_State
  imports Rust_Base
begin

text \<open>
  Methods that take \<open>&mut self\<close> and return a \<open>Result\<close>: a function from the state to the outcome and
  the state left behind, also on an error. \<open>keeps I m\<close> says that the method leaves the
  invariant \<open>I\<close> true whatever it returns; the collection \<open>keeps_rules\<close> proves such facts by the
  structure of a method.
\<close>

named_theorems keeps_rules \<open>methods that keep an invariant\<close>

type_synonym ('e, 's, 'a) fallible = "'s \<Rightarrow> ('e + 'a) \<times> 's"

type_synonym ('s, 'a) stateful = "(string, 's, 'a) fallible"

definition m_return :: "'a \<Rightarrow> ('e, 's, 'a) fallible" where
  "m_return x s = (Inr x, s)"

definition m_lift :: "'e + 'a \<Rightarrow> ('e, 's, 'a) fallible" where
  "m_lift r s = (r, s)"

text \<open>A check or read that looks at the state.\<close>

definition m_get :: "('s \<Rightarrow> 'e + 'a) \<Rightarrow> ('e, 's, 'a) fallible" where
  "m_get f s = (f s, s)"

definition m_modify :: "('s \<Rightarrow> 's) \<Rightarrow> ('e, 's, unit) fallible" where
  "m_modify f s = (Inr (), f s)"

definition m_bind :: "('e, 's, 'a) fallible \<Rightarrow> ('a \<Rightarrow> ('e, 's, 'b) fallible) \<Rightarrow> ('e, 's, 'b) fallible" where
  "m_bind m f s = (case m s of (Inl e, s') \<Rightarrow> (Inl e, s') | (Inr x, s') \<Rightarrow> f x s')"

text \<open>A \<open>for\<close> loop with \<open>?\<close> in its body; the accumulator is the loop's local state.\<close>

fun m_for :: "'b list \<Rightarrow> ('b \<Rightarrow> 'a \<Rightarrow> ('e, 's, 'a) fallible) \<Rightarrow> 'a \<Rightarrow> ('e, 's, 'a) fallible" where
  "m_for [] body acc = m_return acc"
| "m_for (x # xs) body acc = m_bind (body x acc) (m_for xs body)"

lemma m_simps [simp]:
  "m_return x s = (Inr x, s)" "m_lift r s = (r, s)" "m_get f s = (f s, s)" "m_modify g s = (Inr (), g s)"
  by (simp_all add: m_return_def m_lift_def m_get_def m_modify_def)

lemma m_bind_eq_Inr [result_simps]:
  "m_bind m f s = (Inr y, s') \<longleftrightarrow> (\<exists>x t. m s = (Inr x, t) \<and> f x t = (Inr y, s'))"
  by (auto simp: m_bind_def split: prod.splits sum.splits)

lemma m_bind_Inr [simp]: "m s = (Inr x, t) \<Longrightarrow> m_bind m f s = f x t"
  by (simp add: m_bind_def)

lemma m_bind_Inl [simp]: "m s = (Inl e, t) \<Longrightarrow> m_bind m f s = (Inl e, t)"
  by (simp add: m_bind_def)

lemma m_bind_eq_Inl:
  "m_bind m f s = (Inl e, s') \<longleftrightarrow>
     m s = (Inl e, s') \<or> (\<exists>x t. m s = (Inr x, t) \<and> f x t = (Inl e, s'))"
  by (auto simp: m_bind_def split: prod.splits sum.splits)

definition keeps :: "('s \<Rightarrow> bool) \<Rightarrow> ('e, 's, 'a) fallible \<Rightarrow> bool" where
  "keeps I m \<longleftrightarrow> (\<forall>s. I s \<longrightarrow> I (snd (m s)))"

lemma keepsD: "keeps I m \<Longrightarrow> I s \<Longrightarrow> m s = (r, s') \<Longrightarrow> I s'"
  unfolding keeps_def by (metis snd_conv)

lemma keeps_basic [keeps_rules, intro]:
  "keeps I (m_return x)" "keeps I (m_lift r)" "keeps I (m_get f)"
  by (simp_all add: keeps_def)

lemma keeps_modify: "(\<And>s. I s \<Longrightarrow> I (f s)) \<Longrightarrow> keeps I (m_modify f)"
  by (simp add: keeps_def)

lemma keeps_bind [keeps_rules]: "keeps I m \<Longrightarrow> (\<And>x. keeps I (f x)) \<Longrightarrow> keeps I (m_bind m f)"
  unfolding keeps_def m_bind_def by (fastforce split: prod.splits sum.splits)

lemma keeps_for: "(\<And>x a. x \<in> set xs \<Longrightarrow> keeps I (body x a)) \<Longrightarrow> keeps I (m_for xs body acc)"
proof (induction xs arbitrary: acc)
  case (Cons x xs)
  show ?case
    by (simp, rule keeps_bind) (use Cons in auto)
qed (simp add: keeps_basic)

lemma keeps_if [keeps_rules]: "(b \<Longrightarrow> keeps I m) \<Longrightarrow> (\<not> b \<Longrightarrow> keeps I n) \<Longrightarrow> keeps I (if b then m else n)"
  by simp

lemma keeps_option [keeps_rules]:
  "(x = None \<Longrightarrow> keeps I m) \<Longrightarrow> (\<And>y. x = Some y \<Longrightarrow> keeps I (f y)) \<Longrightarrow>
     keeps I (case x of None \<Rightarrow> m | Some y \<Rightarrow> f y)"
  by (cases x) simp_all

text \<open>A loop invariant over the elements already processed, for a loop that finishes.\<close>

lemma m_for_invariant:
  assumes "m_for xs body acc s = (Inr r, s')" and "P [] s"
    and "\<And>ys x zs a b t t'. xs = ys @ x # zs \<Longrightarrow> P ys t \<Longrightarrow> body x a t = (Inr b, t') \<Longrightarrow> P (ys @ [x]) t'"
  shows "P xs s'"
proof -
  have "m_for zs body acc s = (Inr r, s') \<Longrightarrow> xs = ys @ zs \<Longrightarrow> P ys s \<Longrightarrow> P xs s'" for zs ys acc s
  proof (induction zs arbitrary: ys acc s)
    case (Cons z zs)
    then obtain b t where b: "body z acc s = (Inr b, t)" "m_for zs body b t = (Inr r, s')"
      by (auto simp: m_bind_eq_Inr)
    from assms(3) [OF Cons.prems(2) Cons.prems(3) b(1)] have "P (ys @ [z]) t" .
    from Cons.IH [OF b(2) _ this] Cons.prems(2) show ?case by simp
  qed simp
  from this [of xs acc s "[]"] assms(1,2) show ?thesis by simp
qed

text \<open>A relation between the state a method starts in and the one it leaves, on every outcome. For a
  transitive relation it composes along the method.\<close>

definition relates :: "('s \<Rightarrow> 's \<Rightarrow> bool) \<Rightarrow> ('e, 's, 'a) fallible \<Rightarrow> 's \<Rightarrow> bool" where
  "relates R m s \<longleftrightarrow> R s (snd (m s))"

lemma relatesD: "relates R m s \<Longrightarrow> m s = (r, s') \<Longrightarrow> R s s'"
  by (simp add: relates_def)

lemma relates_bind:
  assumes "transp R" "relates R m s" "\<And>x t. m s = (Inr x, t) \<Longrightarrow> relates R (f x) t"
  shows "relates R (m_bind m f) s"
proof (cases "m s")
  case (Pair r t)
  show ?thesis
  proof (cases r)
    case (Inl e)
    with Pair assms(2) show ?thesis by (simp add: relates_def m_bind_def)
  next
    case (Inr x)
    with Pair assms(2) assms(3) [of x t] show ?thesis
      by (auto simp: relates_def m_bind_def intro: transpD [OF assms(1)])
  qed
qed

lemma relates_basic:
  assumes "reflp R"
  shows "relates R (m_return x) s" "relates R (m_lift r) s" "relates R (m_get f) s"
  using assms by (simp_all add: relates_def reflpD)

lemma relates_get_bind:
  assumes "reflp R" "\<And>x. f s = Inr x \<Longrightarrow> relates R (g x) s"
  shows "relates R (m_bind (m_get f) g) s"
  using assms by (cases "f s") (simp_all add: relates_def m_bind_def reflpD)

lemma relates_lift_bind:
  assumes "reflp R" "\<And>x. r = Inr x \<Longrightarrow> relates R (g x) s"
  shows "relates R (m_bind (m_lift r) g) s"
  using assms by (cases r) (simp_all add: relates_def m_bind_def reflpD)

lemma relates_for:
  assumes "reflp R" "transp R" and "\<And>x a t. x \<in> set xs \<Longrightarrow> relates R (body x a) t"
  shows "relates R (m_for xs body acc) s"
  using assms(3)
proof (induction xs arbitrary: acc s)
  case Nil
  then show ?case using assms(1) by (simp add: relates_def reflpD)
next
  case (Cons x xs)
  then show ?case by (auto intro!: relates_bind [OF assms(2)])
qed

end
