(* ===== verification/Expert_Pool.thy ===== *)
theory Expert_Pool
  imports Expert_Storage Rust_State Rust_Float "HOL-Library.Product_Lexorder"
begin

text \<open>
  \<open>BoundedExperts\<close> of \<open>src/experts.rs\<close>: which source experts occupy the physical slots of one
  layer, how a demand loads missing sources, and how the pool is resized. A slot's content is
  the row last written completely to its three projection buffers, \<open>None\<close> after a failed write. Reading
  the package, the Metal guards and the read-ahead workers are the environment \<open>pool_env\<close>:
  each may refuse.
\<close>

section \<open>State\<close>

definition TOP_K :: nat where "TOP_K = 10"

datatype expert_storage = Contiguous | Chunked fixed_chunks

record 'r pool =
  num_experts :: nat
  e_capacity :: nat
  e_storage :: expert_storage
  slot_of :: "(nat, nat) btree_map"
  expert_at :: "nat option list"
  last_use :: "nat list"
  frequency :: "(nat, nat) btree_map"
  clock :: nat
  policy_reserved :: nat
  slot_rows :: "'r option list"

record 'r pool_env =
  read_row :: "nat \<Rightarrow> 'r result"
  writable :: "unit result"
  preflight :: "nat \<Rightarrow> unit result"
  write_slot :: "nat \<Rightarrow> unit result"
  start_reader :: "nat list \<Rightarrow> unit result"
  finish_reader :: "unit result"
  row_idle :: "unit result"
  env_metal :: metal

definition pool_new :: "nat \<Rightarrow> nat \<Rightarrow> expert_storage \<Rightarrow> 'r pool result" where
  "pool_new experts capacity storage =
     ensure (TOP_K \<le> capacity \<and> capacity \<le> experts)
       ''bounded IQ_K capacity must fit top-10 and package expert count''
     (Inr \<lparr> num_experts = experts, e_capacity = capacity, e_storage = storage, slot_of = [],
            expert_at = replicate capacity None, last_use = replicate capacity 0, frequency = [],
            clock = 0,
            policy_reserved = (case storage of Chunked _ \<Rightarrow> MAX_BOUNDED_SLOTS | Contiguous \<Rightarrow> capacity),
            slot_rows = replicate capacity None \<rparr>)"

text \<open>Opening a pool over a package layer. \<open>contiguous\<close> allocates the streams of one projection at full
  residency, \<open>pipelines\<close> compiles the kernels and allocates the scratch buffers.\<close>

record pool_layer =
  pl_num_experts :: nat
  pl_gate :: projection_layout
  pl_up :: projection_layout
  pl_down :: projection_layout

definition HIDDEN :: nat where "HIDDEN = 2560"
definition INTERMEDIATE :: nat where "INTERMEDIATE = 640"
definition DOWN_STORED :: nat where "DOWN_STORED = 768"

definition with_storage ::
    "'r pool_env \<Rightarrow> (geometry \<Rightarrow> nat \<Rightarrow> unit result) \<Rightarrow> unit result \<Rightarrow> pool_layer \<Rightarrow> nat \<Rightarrow> bool \<Rightarrow> 'r pool result" where
  "with_storage env contiguous pipelines layer capacity chunked =
     bindr (row_idle env) (\<lambda>_.
     ensure (TOP_K \<le> capacity \<and> capacity \<le> pl_num_experts layer)
       ''bounded IQ_K capacity must fit top-10 and package expert count''
     (bindr (geometry_from_projection (pl_gate layer)) (\<lambda>gate.
      bindr (geometry_from_projection (pl_up layer)) (\<lambda>up.
      bindr (geometry_from_projection (pl_down layer)) (\<lambda>down.
      ensure (in_features gate = HIDDEN \<and> pl_logical_in_features (pl_gate layer) = HIDDEN
          \<and> pl_logical_in_features (pl_up layer) = HIDDEN \<and> out_features gate = INTERMEDIATE
          \<and> up = gate \<and> in_features down = DOWN_STORED \<and> out_features down = HIDDEN)
        ''bounded Qwen expert projection geometry differs from released dimensions''
      (ensure ((g_codec gate, g_codec down) \<in> {(Iq2K, Iq2K), (Iq3K, Iq2K), (Iq3K, Iq3K)})
        ''unsupported bounded Qwen expert codec tuple''
      (ensure (pl_logical_in_features (pl_down layer) = INTERMEDIATE)
        ''bounded Qwen down projection requires logical width 640''
      (bindr (if chunked
              then bindr (fixed_chunks_new (env_metal env) [gate, up, down] capacity) (\<lambda>fc. Inr (Chunked fc))
              else bindr (map_result (\<lambda>g. contiguous g capacity) [gate, up, down]) (\<lambda>_. Inr Contiguous))
        (\<lambda>storage. bindr pipelines (\<lambda>_. pool_new (pl_num_experts layer) capacity storage))))))))))"

definition with_workspace ::
    "'r pool_env \<Rightarrow> (geometry \<Rightarrow> nat \<Rightarrow> unit result) \<Rightarrow> unit result \<Rightarrow> pool_layer \<Rightarrow> nat \<Rightarrow> 'r pool result" where
  "with_workspace env contiguous pipelines layer capacity =
     with_storage env contiguous pipelines layer capacity (capacity < 512)"

section \<open>Choosing and publishing a slot\<close>

definition eviction_candidates ::
    "nat option list \<Rightarrow> nat list \<Rightarrow> (nat, nat) btree_map \<Rightarrow> nat list \<Rightarrow> (nat \<times> nat \<times> nat) list" where
  "eviction_candidates ats uses freq protected =
     List.map_filter (\<lambda>slot. case ats ! slot of None \<Rightarrow> None
       | Some source \<Rightarrow> if source \<in> set protected then None
           else Some (slot, unwrap_or 0 (bt_get freq source), uses ! slot)) [0..<length ats]"

definition least_frequent_slot ::
    "nat option list \<Rightarrow> nat list \<Rightarrow> (nat, nat) btree_map \<Rightarrow> nat list \<Rightarrow> nat option" where
  "least_frequent_slot ats uses freq protected =
     map_option fst (min_by_key snd (eviction_candidates ats uses freq protected))"

definition choose_slot :: "nat list \<Rightarrow> 'r pool \<Rightarrow> nat result" where
  "choose_slot protected p =
     (case position (\<lambda>source. source = None) (expert_at p) of
        Some slot \<Rightarrow> Inr slot
      | None \<Rightarrow> ok_or (least_frequent_slot (expert_at p) (last_use p) (frequency p) protected)
          ''bounded IQ_K has no evictable slot'')"

text \<open>\<open>publish_replacement\<close>: the previous source is withdrawn before the write, the new one published
  after it, so a failed write leaves the slot empty.\<close>

definition withdraw :: "nat \<Rightarrow> 'r pool \<Rightarrow> 'r pool" where
  "withdraw slot p =
     (case expert_at p ! slot of
        None \<Rightarrow> p
      | Some previous \<Rightarrow> p \<lparr> expert_at := (expert_at p)[slot := None],
                            slot_of := bt_remove previous (slot_of p) \<rparr>)"

definition publish_replacement :: "nat \<Rightarrow> nat \<Rightarrow> ('r pool, unit) stateful \<Rightarrow> ('r pool, unit) stateful" where
  "publish_replacement source slot write =
     m_bind (m_modify (withdraw slot)) (\<lambda>_.
     m_bind write (\<lambda>_.
     m_modify (\<lambda>p. p \<lparr> expert_at := (expert_at p)[slot := Some source],
                       slot_of := bt_insert source slot (slot_of p) \<rparr>)))"

text \<open>Copying a row into the three projection buffers of a slot.\<close>

definition write_row :: "'r pool_env \<Rightarrow> nat \<Rightarrow> 'r \<Rightarrow> ('r pool, unit) stateful" where
  "write_row env slot row p =
     (case write_slot env slot of
        Inl e \<Rightarrow> (Inl e, p \<lparr> slot_rows := (slot_rows p)[slot := None] \<rparr>)
      | Inr u \<Rightarrow> (Inr u, p \<lparr> slot_rows := (slot_rows p)[slot := Some row] \<rparr>))"

definition projections_at :: "expert_storage \<Rightarrow> nat \<Rightarrow> unit result" where
  "projections_at storage slot =
     (case storage of Contiguous \<Rightarrow> Inr () | Chunked fc \<Rightarrow> bindr (location fc slot) (\<lambda>_. Inr ()))"

definition replace_source :: "'r pool_env \<Rightarrow> nat \<Rightarrow> nat \<Rightarrow> 'r \<Rightarrow> ('r pool, unit) stateful" where
  "replace_source env source slot row =
     m_bind (m_get (\<lambda>p. projections_at (e_storage p) slot)) (\<lambda>_.
     m_bind (m_lift (preflight env slot)) (\<lambda>_.
     publish_replacement source slot (write_row env slot row)))"

definition touch :: "nat \<Rightarrow> nat \<Rightarrow> ('r pool, unit) stateful" where
  "touch source slot p =
     (case checked_add (clock p) 1 of
        None \<Rightarrow> (Inl ''IQ_K recency counter overflow'', p)
      | Some now \<Rightarrow>
          let count = unwrap_or 0 (bt_get (frequency p) source);
              p1 = p \<lparr> clock := now, frequency := bt_insert source count (frequency p) \<rparr> in
          (case checked_add count 1 of
             None \<Rightarrow> (Inl ''IQ_K frequency counter overflow'', p1)
           | Some count' \<Rightarrow>
               let p2 = p1 \<lparr> frequency := bt_insert source count' (frequency p1),
                            last_use := (last_use p1)[slot := now] \<rparr>
               in (Inr (), if now mod 128 = 0
                           then p2 \<lparr> frequency := bt_map_values (\<lambda>c. c div 2) (frequency p2) \<rparr>
                           else p2)))"

section \<open>Loading\<close>

definition place_row :: "'r pool_env \<Rightarrow> nat \<Rightarrow> nat list \<Rightarrow> 'r \<Rightarrow> ('r pool, nat) stateful" where
  "place_row env source protected row =
     m_bind (m_get (choose_slot protected)) (\<lambda>slot.
     m_bind (replace_source env source slot row) (\<lambda>_. m_return slot))"

definition load_source :: "'r pool_env \<Rightarrow> nat \<Rightarrow> nat list \<Rightarrow> ('r pool, nat) stateful" where
  "load_source env source protected =
     m_bind (m_lift (writable env)) (\<lambda>_.
     m_bind (m_lift (row_idle env)) (\<lambda>_.
     m_bind (m_lift (read_row env source)) (\<lambda>row. place_row env source protected row)))"

text \<open>\<open>gate\<close> is the publication event of a gated load: whether it was already reached.\<close>

definition load_demand_row :: "'r pool_env \<Rightarrow> bool option \<Rightarrow> nat \<Rightarrow> 'r \<Rightarrow> nat list \<Rightarrow> ('r pool, nat) stateful" where
  "load_demand_row env gate source row protected =
     m_bind (m_lift (case gate of None \<Rightarrow> writable env
       | Some reached \<Rightarrow> ensure (\<not> reached) ''expert publication was already released'' (Inr ()))) (\<lambda>_.
     place_row env source protected row)"

definition load_read_row_disjoint ::
    "'r pool_env \<Rightarrow> nat \<Rightarrow> 'r \<Rightarrow> nat list \<Rightarrow> nat list \<Rightarrow> ('r pool, nat) stateful" where
  "load_read_row_disjoint env source row protected reader_slots =
     m_bind (m_get (choose_slot protected)) (\<lambda>slot.
     m_bind (m_lift (ensure (slot \<notin> set reader_slots) ''prefill victim has an outstanding reader'' (Inr ()))) (\<lambda>_.
     m_bind (replace_source env source slot row) (\<lambda>_. m_return slot)))"

definition validate_group :: "nat list \<Rightarrow> nat list \<Rightarrow> 'r pool \<Rightarrow> unit result" where
  "validate_group active protect p =
     ensure (active \<noteq> [] \<and> length active \<le> e_capacity p)
       ''expert demand union must be nonempty and fit capacity''
     (ensure (\<forall>id\<in>set active. id < num_experts p) ''expert demand union contains an invalid source''
     (let protected = btree_set (active @ protect) in
      ensure (length protected \<le> e_capacity p \<and> (\<forall>id\<in>set protected. id < num_experts p))
        ''expert protected union must fit capacity and source geometry'' (Inr ())))"

definition missing_of :: "nat list \<Rightarrow> 'r pool \<Rightarrow> nat list" where
  "missing_of active p = filter (\<lambda>source. bt_get (slot_of p) source = None) active"

record demand_counts =
  hits :: nat
  misses :: nat
  evictions :: nat

text \<open>One demanded source; the flag records whether the row reader was started.\<close>

definition demand_step ::
    "'r pool_env \<Rightarrow> nat list \<Rightarrow> nat list \<Rightarrow> nat \<Rightarrow> demand_counts \<times> bool
     \<Rightarrow> ('r pool, demand_counts \<times> bool) stateful" where
  "demand_step env active protected source acc =
     m_bind (m_get (\<lambda>p. Inr (bt_get (slot_of p) source))) (\<lambda>found.
     m_bind (case found of
        Some slot \<Rightarrow> m_return (slot, (fst acc) \<lparr> hits := hits (fst acc) + 1 \<rparr>, snd acc)
      | None \<Rightarrow>
          m_bind (m_get (\<lambda>p. Inr (length (slot_of p) = e_capacity p))) (\<lambda>eviction.
          m_bind (m_lift (writable env)) (\<lambda>_.
          m_bind (m_get (\<lambda>p. if snd acc then Inr () else start_reader env (missing_of active p))) (\<lambda>_.
          m_bind (m_lift (read_row env source)) (\<lambda>row.
          m_bind (load_demand_row env None source row protected) (\<lambda>slot.
          m_return (slot, (fst acc) \<lparr> misses := misses (fst acc) + 1,
            evictions := evictions (fst acc) + (if eviction then 1 else 0) \<rparr>, True)))))))
       (\<lambda>(slot, acc'). m_bind (touch source slot) (\<lambda>_. m_return acc')))"

definition ensure_group_protected ::
    "'r pool_env \<Rightarrow> nat list \<Rightarrow> nat list \<Rightarrow> ('r pool, demand_counts) stateful" where
  "ensure_group_protected env active protect =
     m_bind (m_get (validate_group active protect)) (\<lambda>_.
     m_bind (m_for active (demand_step env active (btree_set (active @ protect)))
        (\<lparr> hits = 0, misses = 0, evictions = 0 \<rparr>, False)) (\<lambda>(counts, started).
     m_bind (m_lift (if started then finish_reader env else Inr ())) (\<lambda>_. m_return counts)))"

definition ensure_group :: "'r pool_env \<Rightarrow> nat list \<Rightarrow> ('r pool, demand_counts) stateful" where
  "ensure_group env active = ensure_group_protected env active []"

definition disjoint_step ::
    "'r pool_env \<Rightarrow> nat list \<Rightarrow> nat list \<Rightarrow> nat \<Rightarrow> unit \<Rightarrow> ('r pool, unit) stateful" where
  "disjoint_step env protected reader_slots source u =
     m_bind (m_get (\<lambda>p. Inr (bt_get (slot_of p) source))) (\<lambda>found.
     m_bind (case found of
        Some slot \<Rightarrow> m_return slot
      | None \<Rightarrow> m_bind (m_lift (read_row env source)) (\<lambda>row.
          load_read_row_disjoint env source row protected reader_slots)) (\<lambda>slot. touch source slot))"

definition ensure_group_disjoint ::
    "'r pool_env \<Rightarrow> nat list \<Rightarrow> nat list \<Rightarrow> nat list \<Rightarrow> ('r pool, unit) stateful" where
  "ensure_group_disjoint env active protect reader_slots =
     m_bind (m_get (validate_group active protect)) (\<lambda>_.
     m_bind (m_get (\<lambda>p. start_reader env (missing_of active p))) (\<lambda>_.
     m_bind (m_for active (disjoint_step env (btree_set (active @ protect)) reader_slots) ()) (\<lambda>_.
     m_lift (finish_reader env))))"

definition check_sources :: "nat list \<Rightarrow> 'r pool \<Rightarrow> nat list result" where
  "check_sources sources p =
     (let selected = btree_set sources in
      ensure (length selected = TOP_K) ''routed source IDs must be distinct''
      (ensure (\<forall>id\<in>set selected. id < num_experts p)
         ''routed source ID exceeds package expert count'' (Inr selected)))"

definition gated_step ::
    "'r pool_env \<Rightarrow> bool option \<Rightarrow> nat list \<Rightarrow> nat \<Rightarrow> unit \<Rightarrow> ('r pool, unit) stateful" where
  "gated_step env gate protected source u =
     m_bind (m_get (\<lambda>p. Inr (bt_get (slot_of p) source))) (\<lambda>found.
     m_bind (case found of
        Some slot \<Rightarrow> m_return slot
      | None \<Rightarrow> m_bind (m_lift (read_row env source)) (\<lambda>row.
          load_demand_row env gate source row protected)) (\<lambda>slot. touch source slot))"

definition published_slot :: "'r pool \<Rightarrow> nat \<Rightarrow> nat result" where
  "published_slot p source =
     bindr (ok_or (bt_get (slot_of p) source) ''selected expert is not published'') (\<lambda>slot.
     ensure (expert_at p ! slot = Some source) ''stale bounded IQ_K slot mapping'' (Inr slot))"

definition ensure_with_gate :: "'r pool_env \<Rightarrow> nat list \<Rightarrow> bool option \<Rightarrow> ('r pool, nat list) stateful" where
  "ensure_with_gate env sources gate =
     m_bind (m_get (check_sources sources)) (\<lambda>protected.
     m_bind (m_get (\<lambda>p. if missing_of protected p = [] then Inr ()
        else case gate of None \<Rightarrow> writable env
          | Some reached \<Rightarrow> ensure (\<not> reached) ''expert publication was already released'' (Inr ()))) (\<lambda>_.
     m_bind (m_get (\<lambda>p. start_reader env (missing_of protected p))) (\<lambda>_.
     m_bind (m_for protected (gated_step env gate protected) ()) (\<lambda>_.
     m_bind (m_lift (finish_reader env)) (\<lambda>_.
     m_get (\<lambda>p. map_result (published_slot p) sources))))))"

definition ensure_selected :: "'r pool_env \<Rightarrow> nat list \<Rightarrow> ('r pool, nat list) stateful" where
  "ensure_selected env sources = ensure_with_gate env sources None"

text \<open>The published source-to-slot hints: 512 entries, 512 for a source without a slot.\<close>

definition residency_step :: "'r pool \<Rightarrow> nat list \<Rightarrow> nat \<times> nat \<Rightarrow> nat list result" where
  "residency_step p hints e =
     ensure (fst e < 512 \<and> snd e < e_capacity p \<and> expert_at p ! snd e = Some (fst e))
       ''bounded IQ_K residency map is inconsistent'' (Inr (hints[fst e := snd e]))"

definition residency_map :: "'r pool \<Rightarrow> nat list result" where
  "residency_map p =
     ensure (num_experts p = 512) ''cache-prior hints require 512 logical experts''
     (try_fold (residency_step p) (replicate 512 512) (slot_of p))"

section \<open>Seeding\<close>

definition seed_step :: "'r pool_env \<Rightarrow> nat list \<Rightarrow> nat \<Rightarrow> unit \<Rightarrow> ('r pool, unit) stateful" where
  "seed_step env protected source u =
     m_bind (load_source env source protected) (\<lambda>slot. touch source slot)"

definition seed_residents :: "'r pool_env \<Rightarrow> nat list \<Rightarrow> ('r pool, unit) stateful" where
  "seed_residents env sources =
     m_bind (m_get (\<lambda>p.
       ensure (slot_of p = []) ''resident seeding requires an empty pool''
       (ensure (length sources \<le> e_capacity p) ''resident seed exceeds capacity''
       (ensure (length (btree_set sources) = length sources \<and> (\<forall>id\<in>set sources. id < num_experts p))
         ''resident seed has duplicate or invalid source IDs'' (Inr ()))))) (\<lambda>_.
     m_for (btree_set sources) (seed_step env (btree_set sources)) ())"

text \<open>Descending counts, ties in ascending order of the source.\<close>

definition hot_ranking :: "(nat, nat) btree_map \<Rightarrow> nat list" where
  "hot_ranking counts = sort_key (\<lambda>id. (- int (unwrap_or 0 (bt_get counts id)), id)) (bt_keys counts)"

definition hot_scale :: "nat \<Rightarrow> nat \<Rightarrow> nat" where
  "hot_scale peak count =
     max (nat (round_ties_even (f64_mul (f64_of_nat count) (f64_div 8 (f64_of_nat peak))))) 1"

definition rescale_frequency :: "'r pool \<Rightarrow> 'r pool" where
  "rescale_frequency p =
     (let peak = foldl max 0 (bt_values (frequency p)) in
      if 8 < peak then p \<lparr> frequency := bt_map_values (hot_scale peak) (frequency p) \<rparr> else p)"

definition seed_hotlist :: "'r pool_env \<Rightarrow> (nat, nat) btree_map \<Rightarrow> ('r pool, unit) stateful" where
  "seed_hotlist env counts =
     m_bind (m_get (\<lambda>p.
       ensure (slot_of p = [] \<and> frequency p = []) ''hotlist requires an unused pool''
       (ensure (\<forall>id\<in>set (bt_keys counts). id < num_experts p) ''hotlist expert exceeds geometry''
       (Inr (take (e_capacity p) (hot_ranking counts)))))) (\<lambda>ranked.
     m_bind (m_modify (\<lambda>p. p \<lparr> frequency := counts \<rparr>)) (\<lambda>_.
     m_bind (m_for ranked (seed_step env (btree_set ranked)) ()) (\<lambda>_.
     m_modify rescale_frequency)))"

section \<open>Resizing\<close>

definition check_resize_idle :: "'r pool_env \<Rightarrow> 'r pool \<Rightarrow> unit result" where
  "check_resize_idle env p =
     bindr (row_idle env) (\<lambda>_.
     bindr (case e_storage p of Chunked fc \<Rightarrow> m_quiescent (env_metal env)
            | Contiguous \<Rightarrow> Inl ''expert resizing requires fixed chunk storage'') (\<lambda>_.
     ensure (length (expert_at p) = e_capacity p \<and> length (last_use p) = e_capacity p)
       ''expert slot policy extent differs from capacity''
     (ensure (\<forall>e\<in>set (slot_of p). fst e < num_experts p \<and> snd e < e_capacity p
          \<and> expert_at p ! snd e = Some (fst e))
       ''expert published slot map is inconsistent''
     (ensure (\<forall>slot\<in>set [0..<length (expert_at p)].
          is_none_or (\<lambda>source. bt_get (slot_of p) source = Some slot) (expert_at p ! slot))
       ''expert physical slot map is inconsistent'' (Inr ())))))"

record release_report =
  rr_old_capacity :: nat
  rr_new_capacity :: nat
  rr_released_bytes :: nat
  rr_evicted_sources :: nat

record growth_report =
  gr_old_capacity :: nat
  gr_new_capacity :: nat
  gr_added_bytes :: nat
  gr_preparation_bytes :: nat

definition prepare_release_suffix :: "'r pool_env \<Rightarrow> nat \<Rightarrow> 'r pool \<Rightarrow> (nat \<times> release_report) result" where
  "prepare_release_suffix env target p =
     ensure (TOP_K \<le> target) ''expert release target cannot fit top-ten routes''
     (case e_storage p of
        Contiguous \<Rightarrow> Inl ''expert suffix release requires fixed chunk storage''
      | Chunked fc \<Rightarrow>
          ensure (fc_capacity fc = e_capacity p) ''expert storage capacity differs from slot policy''
          (bindr (prepare_suffix fc target) (\<lambda>(keep, bytes).
           bindr (check_resize_idle env p) (\<lambda>_.
           Inr (keep, \<lparr> rr_old_capacity = e_capacity p, rr_new_capacity = target, rr_released_bytes = bytes,
             rr_evicted_sources = length (filter (\<lambda>slot. target \<le> slot) (bt_values (slot_of p))) \<rparr>)))))"

definition commit_release :: "nat \<Rightarrow> nat \<Rightarrow> 'r pool \<Rightarrow> 'r pool" where
  "commit_release keep target p =
     p \<lparr> slot_of := bt_retain (\<lambda>slot. slot < target) (slot_of p),
        expert_at := take target (expert_at p), last_use := take target (last_use p),
        slot_rows := take target (slot_rows p),
        e_storage := (case e_storage p of Contiguous \<Rightarrow> Contiguous
          | Chunked fc \<Rightarrow> Chunked (commit_suffix keep target fc)),
        e_capacity := target \<rparr>"

definition quote_growth_suffix :: "nat \<Rightarrow> 'r pool \<Rightarrow> growth_report result" where
  "quote_growth_suffix target p =
     (case e_storage p of
        Contiguous \<Rightarrow> Inl ''expert suffix growth requires fixed chunk storage''
      | Chunked fc \<Rightarrow>
          ensure (fc_capacity fc = e_capacity p \<and> target \<le> policy_reserved p)
            ''expert growth retained slot-policy capacity differs''
          (bindr (quote_growth fc target) (\<lambda>quote.
           Inr \<lparr> gr_old_capacity = e_capacity p, gr_new_capacity = target,
                 gr_added_bytes = added_requested_bytes quote,
                 gr_preparation_bytes = preparation_requested_bytes quote \<rparr>)))"

definition prepare_growth_suffix :: "'r pool_env \<Rightarrow> nat \<Rightarrow> 'r pool \<Rightarrow> (prepared_growth \<times> growth_report) result" where
  "prepare_growth_suffix env target p =
     bindr (quote_growth_suffix target p) (\<lambda>report.
     bindr (check_resize_idle env p) (\<lambda>_.
     (case e_storage p of
        Contiguous \<Rightarrow> Inl ''unreachable''
      | Chunked fc \<Rightarrow>
          bindr (prepare_growth (env_metal env) fc target) (\<lambda>growth.
          ensure (added_requested_bytes (pg_quote growth) = gr_added_bytes report
              \<and> preparation_requested_bytes (pg_quote growth) = gr_preparation_bytes report)
            ''expert growth preparation differs from quote'' (Inr (growth, report))))))"

definition resize_with :: "nat \<Rightarrow> 'a \<Rightarrow> 'a list \<Rightarrow> 'a list" where
  "resize_with n x xs = take n xs @ replicate (n - length xs) x"

definition commit_growth_suffix :: "prepared_growth \<Rightarrow> growth_report \<Rightarrow> 'r pool \<Rightarrow> 'r pool" where
  "commit_growth_suffix growth report p =
     p \<lparr> e_storage := (case e_storage p of Contiguous \<Rightarrow> Contiguous
          | Chunked fc \<Rightarrow> Chunked (commit_growth growth fc)),
        expert_at := resize_with (gr_new_capacity report) None (expert_at p),
        last_use := resize_with (gr_new_capacity report) 0 (last_use p),
        slot_rows := resize_with (gr_new_capacity report) None (slot_rows p),
        e_capacity := gr_new_capacity report \<rparr>"

end
