(* ===== verification/Expert_Residency.thy ===== *)
theory Expert_Residency
  imports Expert_Pool
begin

text \<open>
  Correctness of the expert pool: the source map and the slot table stay inverse to each other, a
  published slot holds the complete row of its source, a protected source keeps its slot through
  every demand whatever fails, the victim is the least frequent and then least recent unprotected
  source, and release and growth keep every retained slot.
\<close>

section \<open>The invariant\<close>

definition storage_wf :: "'r pool \<Rightarrow> bool" where
  "storage_wf p \<longleftrightarrow> (\<forall>fc. e_storage p = Chunked fc \<longrightarrow>
     chunks_wf fc \<and> fc_capacity fc = e_capacity p \<and> policy_reserved p = MAX_BOUNDED_SLOTS)"

definition extents_wf :: "'r pool \<Rightarrow> bool" where
  "extents_wf p \<longleftrightarrow> length (expert_at p) = e_capacity p \<and> length (last_use p) = e_capacity p
     \<and> length (slot_rows p) = e_capacity p \<and> TOP_K \<le> e_capacity p \<and> e_capacity p \<le> num_experts p"

text \<open>The source map and the slot table are inverse to each other, and a published slot holds the
  complete row of its source.\<close>

definition published_wf :: "(nat \<Rightarrow> 'r) \<Rightarrow> 'r pool \<Rightarrow> bool" where
  "published_wf content p \<longleftrightarrow> bt_wf (slot_of p)
     \<and> (\<forall>source slot. bt_get (slot_of p) source = Some slot \<longleftrightarrow>
          slot < e_capacity p \<and> expert_at p ! slot = Some source)
     \<and> (\<forall>slot source. slot < e_capacity p \<longrightarrow> expert_at p ! slot = Some source \<longrightarrow>
          source < num_experts p \<and> slot_rows p ! slot = Some (content source))"

definition recency_wf :: "'r pool \<Rightarrow> bool" where
  "recency_wf p \<longleftrightarrow> bt_wf (frequency p) \<and> (\<forall>u\<in>set (last_use p). u \<le> clock p)"

definition pool_wf :: "(nat \<Rightarrow> 'r) \<Rightarrow> 'r pool \<Rightarrow> bool" where
  "pool_wf content p \<longleftrightarrow> storage_wf p \<and> extents_wf p \<and> published_wf content p \<and> recency_wf p"

lemmas pool_wf_defs = pool_wf_def storage_wf_def extents_wf_def published_wf_def recency_wf_def

text \<open>What a demand for the sources in \<open>keep\<close> never changes, error or not.\<close>

definition pool_next :: "(nat \<Rightarrow> 'r) \<Rightarrow> nat set \<Rightarrow> 'r pool \<Rightarrow> 'r pool \<Rightarrow> bool" where
  "pool_next content keep p q \<longleftrightarrow> (pool_wf content p \<longrightarrow>
     pool_wf content q \<and> num_experts q = num_experts p \<and> e_capacity q = e_capacity p
     \<and> e_storage q = e_storage p \<and> policy_reserved q = policy_reserved p
     \<and> (\<forall>source\<in>keep. \<forall>slot. bt_get (slot_of p) source = Some slot \<longrightarrow> bt_get (slot_of q) source = Some slot))"

lemma pool_next_reflp: "reflp (pool_next content keep)"
  by (simp add: reflp_def pool_next_def)

lemma pool_next_transp: "transp (pool_next content keep)"
  unfolding transp_def pool_next_def by auto

lemmas pool_steps = relates_get_bind [OF pool_next_reflp] relates_lift_bind [OF pool_next_reflp]
  relates_basic [OF pool_next_reflp]
lemmas pool_bind = relates_bind [OF pool_next_transp]

lemma pool_new_wf: 
  assumes "pool_new n c st = Inr p" and "\<And>fc. st = Chunked fc \<Longrightarrow> chunks_wf fc \<and> fc_capacity fc = c"
  shows "pool_wf content p"
  using assms by (cases st) (auto simp: pool_new_def result_simps pool_wf_defs)

section \<open>Choosing a slot\<close>

lemma eviction_candidates_iff:
  "(slot, f, u) \<in> set (eviction_candidates ats uses freq protected) \<longleftrightarrow>
     slot < length ats \<and> u = uses ! slot
     \<and> (\<exists>source. ats ! slot = Some source \<and> source \<notin> set protected \<and> f = unwrap_or 0 (bt_get freq source))"
  by (auto simp: eviction_candidates_def List.map_filter_def image_iff split: option.splits if_splits)

lemma choose_slot_cases:
  assumes "choose_slot protected p = Inr slot"
  obtains (free) "slot < length (expert_at p)" "expert_at p ! slot = None"
    | (victim) victim where "None \<notin> set (expert_at p)" "slot < length (expert_at p)"
      "expert_at p ! slot = Some victim" "victim \<notin> set protected"
      "\<And>other rival. other < length (expert_at p) \<Longrightarrow> expert_at p ! other = Some rival \<Longrightarrow>
         rival \<notin> set protected \<Longrightarrow>
         (unwrap_or 0 (bt_get (frequency p) victim), last_use p ! slot)
           \<le> (unwrap_or 0 (bt_get (frequency p) rival), last_use p ! other)"
proof (cases "position (\<lambda>s. s = None) (expert_at p)")
  case (Some i)
  with assms show thesis by (intro free) (simp_all add: choose_slot_def position_Some)
next
  case None
  with assms obtain f u where m: "min_by_key snd (eviction_candidates (expert_at p) (last_use p) (frequency p) protected)
      = Some (slot, f, u)" by (auto simp: choose_slot_def result_simps least_frequent_slot_def)
  note min = min_by_key_Some [OF m]
  from min obtain v where v: "slot < length (expert_at p)" "u = last_use p ! slot"
    "expert_at p ! slot = Some v" "v \<notin> set protected" "f = unwrap_or 0 (bt_get (frequency p) v)"
    by (auto simp: eviction_candidates_iff)
  show thesis
  proof (rule victim [of v])
    show "None \<notin> set (expert_at p)" using None by (auto simp: position_None)
    fix other rival assume "other < length (expert_at p)" "expert_at p ! other = Some rival" "rival \<notin> set protected"
    then have "(other, unwrap_or 0 (bt_get (frequency p) rival), last_use p ! other)
      \<in> set (eviction_candidates (expert_at p) (last_use p) (frequency p) protected)"
      by (simp add: eviction_candidates_iff)
    with min v show "(unwrap_or 0 (bt_get (frequency p) v), last_use p ! slot)
         \<le> (unwrap_or 0 (bt_get (frequency p) rival), last_use p ! other)" by fastforce
  qed (use v in simp_all)
qed

lemma choose_slot_total:
  assumes wf: "pool_wf content p" and fit: "length (btree_set protected) \<le> e_capacity p"
    and src: "source \<in> set protected" "bt_get (slot_of p) source = None"
  shows "\<exists>slot. choose_slot protected p = Inr slot"
proof (cases "position (\<lambda>s. s = None) (expert_at p)")
  case (Some slot)
  then show ?thesis by (simp add: choose_slot_def)
next
  case None
  have len: "length (expert_at p) = e_capacity p" using wf by (simp add: pool_wf_defs)
  have occ: "\<exists>s. expert_at p ! i = Some s" if "i < e_capacity p" for i
  proof -
    have "expert_at p ! i \<in> set (expert_at p)" using that len by simp
    with None show ?thesis by (auto simp: position_None)
  qed
  have "\<exists>i<e_capacity p. the (expert_at p ! i) \<notin> set protected"
  proof (rule ccontr)
    assume neg: "\<not> (\<exists>i<e_capacity p. the (expert_at p ! i) \<notin> set protected)"
    have sub: "(\<lambda>i. the (expert_at p ! i)) ` {..<e_capacity p} \<subseteq> set protected - {source}"
    proof
      fix s assume "s \<in> (\<lambda>i. the (expert_at p ! i)) ` {..<e_capacity p}"
      then obtain i where i: "i < e_capacity p" "s = the (expert_at p ! i)" by auto
      with occ have "expert_at p ! i = Some s" by fastforce
      with i wf have "bt_get (slot_of p) s = Some i" by (simp add: pool_wf_def published_wf_def)
      with src(2) neg i show "s \<in> set protected - {source}" by auto
    qed
    have "inj_on (\<lambda>i. the (expert_at p ! i)) {..<e_capacity p}"
    proof (rule inj_onI)
      fix i j assume "i \<in> {..<e_capacity p}" "j \<in> {..<e_capacity p}" "the (expert_at p ! i) = the (expert_at p ! j)"
      with occ have "bt_get (slot_of p) (the (expert_at p ! i)) = Some i"
        "bt_get (slot_of p) (the (expert_at p ! i)) = Some j"
        using wf unfolding pool_wf_def published_wf_def by (metis lessThan_iff option.sel)+
      then show "i = j" by simp
    qed
    then have "e_capacity p = card ((\<lambda>i. the (expert_at p ! i)) ` {..<e_capacity p})" by (simp add: card_image)
    also have "\<dots> \<le> card (set protected - {source})" by (rule card_mono [OF _ sub]) simp
    also have "\<dots> < card (set protected)" by (rule card_Diff1_less [OF _ src(1)]) simp
    finally show False using fit by (simp add: length_btree_set)
  qed
  then obtain i s where "i < e_capacity p" "expert_at p ! i = Some s" "s \<notin> set protected"
    using occ by (metis option.sel)
  then have "(i, unwrap_or 0 (bt_get (frequency p) s), last_use p ! i)
      \<in> set (eviction_candidates (expert_at p) (last_use p) (frequency p) protected)"
    by (auto simp: eviction_candidates_iff len)
  then have "eviction_candidates (expert_at p) (last_use p) (frequency p) protected \<noteq> []" by auto
  then obtain x where "min_by_key snd (eviction_candidates (expert_at p) (last_use p) (frequency p) protected) = Some x"
    by (meson min_by_key_None not_None_eq)
  with None show ?thesis by (simp add: choose_slot_def least_frequent_slot_def)
qed

section \<open>Publishing\<close>

lemma withdraw_spec:
  assumes wf: "pool_wf content p" and s: "slot < e_capacity p"
  shows "pool_wf content (withdraw slot p)" and "expert_at (withdraw slot p) ! slot = None"
    and "expert_at (withdraw slot p) = (expert_at p)[slot := None]"
    and "bt_get (slot_of (withdraw slot p)) source
       = (if expert_at p ! slot = Some source then None else bt_get (slot_of p) source)"
    and "num_experts (withdraw slot p) = num_experts p" "e_capacity (withdraw slot p) = e_capacity p"
    and "e_storage (withdraw slot p) = e_storage p" "policy_reserved (withdraw slot p) = policy_reserved p"
    and "slot_rows (withdraw slot p) = slot_rows p"
proof -
  have len: "length (expert_at p) = e_capacity p" using wf by (simp add: pool_wf_defs)
  have inv: "bt_get (slot_of p) source = Some t \<longleftrightarrow> t < e_capacity p \<and> expert_at p ! t = Some source" for source t
    using wf by (simp add: pool_wf_def published_wf_def)
  show e: "expert_at (withdraw slot p) = (expert_at p)[slot := None]"
  proof (cases "expert_at p ! slot")
    case None
    then show ?thesis using list_update_id [of "expert_at p" slot] by (metis option.simps(4) withdraw_def)
  qed (simp add: withdraw_def)
  show "expert_at (withdraw slot p) ! slot = None" using s len by (simp add: e)
  show g: "bt_get (slot_of (withdraw slot p)) source
      = (if expert_at p ! slot = Some source then None else bt_get (slot_of p) source)" for source
    by (auto simp: withdraw_def btree_simps split: option.splits)
  show f: "num_experts (withdraw slot p) = num_experts p" "e_capacity (withdraw slot p) = e_capacity p"
    "e_storage (withdraw slot p) = e_storage p" "policy_reserved (withdraw slot p) = policy_reserved p"
    "slot_rows (withdraw slot p) = slot_rows p"
    by (simp_all add: withdraw_def split: option.splits)
  have o: "last_use (withdraw slot p) = last_use p" "clock (withdraw slot p) = clock p"
    "frequency (withdraw slot p) = frequency p" "bt_wf (slot_of (withdraw slot p))"
    using wf by (simp_all add: withdraw_def pool_wf_defs split: option.splits)
  have "published_wf content (withdraw slot p)"
    unfolding published_wf_def f e g
  proof (intro conjI allI impI o(4))
    fix source t
    show "((if expert_at p ! slot = Some source then None else bt_get (slot_of p) source) = Some t)
       = (t < e_capacity p \<and> (expert_at p)[slot := None] ! t = Some source)"
      using inv [of source t] inv [of source slot] s len by (auto simp: nth_list_update)
  next
    fix t source assume "t < e_capacity p" "(expert_at p)[slot := None] ! t = Some source"
    then show "source < num_experts p" "slot_rows p ! t = Some (content source)"
      using wf len s by (auto simp: pool_wf_def published_wf_def nth_list_update split: if_splits)
  qed
  then show "pool_wf content (withdraw slot p)"
    using wf by (simp add: pool_wf_def storage_wf_def extents_wf_def recency_wf_def f o e)
qed

lemma publish_row:
  assumes wf: "pool_wf content q" and s: "slot < e_capacity q" "expert_at q ! slot = None"
    and n: "bt_get (slot_of q) source = None" "source < num_experts q"
  shows "pool_wf content (q \<lparr> slot_rows := (slot_rows q)[slot := Some (content source)],
      expert_at := (expert_at q)[slot := Some source], slot_of := bt_insert source slot (slot_of q) \<rparr>)"
    and "pool_wf content (q \<lparr> slot_rows := (slot_rows q)[slot := r] \<rparr>)"
proof -
  have len: "length (expert_at q) = e_capacity q" "length (slot_rows q) = e_capacity q"
    using wf by (simp_all add: pool_wf_defs)
  have inv: "bt_get (slot_of q) a = Some t \<longleftrightarrow> t < e_capacity q \<and> expert_at q ! t = Some a" for a t
    using wf by (simp add: pool_wf_def published_wf_def)
  have c: "expert_at q ! t = Some a \<Longrightarrow> t < e_capacity q \<Longrightarrow> a < num_experts q \<and> slot_rows q ! t = Some (content a)" for a t
    using wf by (simp add: pool_wf_def published_wf_def)
  show "pool_wf content (q \<lparr> slot_rows := (slot_rows q)[slot := r] \<rparr>)"
    using wf s len c by (auto simp: pool_wf_defs nth_list_update)
  have "bt_wf (bt_insert source slot (slot_of q))" using wf by (simp add: pool_wf_defs)
  moreover have "(bt_get (bt_insert source slot (slot_of q)) a = Some t)
      = (t < e_capacity q \<and> (expert_at q)[slot := Some source] ! t = Some a)" for a t
    using inv [of a t] inv [of a slot] inv [of source t] s n len by (auto simp: btree_simps nth_list_update)
  moreover have "a < num_experts q \<and> (slot_rows q)[slot := Some (content source)] ! t = Some (content a)"
    if "t < e_capacity q" "(expert_at q)[slot := Some source] ! t = Some a" for a t
    using that c [of t a] n(2) len by (cases "t = slot") simp_all
  ultimately show "pool_wf content (q \<lparr> slot_rows := (slot_rows q)[slot := Some (content source)],
      expert_at := (expert_at q)[slot := Some source], slot_of := bt_insert source slot (slot_of q) \<rparr>)"
    using wf by (simp add: pool_wf_def published_wf_def storage_wf_def extents_wf_def recency_wf_def)
qed


section \<open>Loading\<close>

definition env_reads :: "'r pool_env \<Rightarrow> (nat \<Rightarrow> 'r) \<Rightarrow> bool" where
  "env_reads env content \<longleftrightarrow> (\<forall>source r. read_row env source = Inr r \<longrightarrow> r = content source)"

text \<open>Replacing a slot's source, whatever happens during it.\<close>

lemma replace_source_eq:
  "replace_source env source slot row p =
     (case projections_at (e_storage p) slot of Inl e \<Rightarrow> (Inl e, p)
      | Inr _ \<Rightarrow> (case preflight env slot of Inl e \<Rightarrow> (Inl e, p)
      | Inr _ \<Rightarrow> let w = withdraw slot p in
          (case write_slot env slot of
             Inl e \<Rightarrow> (Inl e, w \<lparr> slot_rows := (slot_rows w)[slot := None] \<rparr>)
           | Inr _ \<Rightarrow> (Inr (), w \<lparr> slot_rows := (slot_rows w)[slot := Some row],
               expert_at := (expert_at w)[slot := Some source],
               slot_of := bt_insert source slot (slot_of w) \<rparr>))))"
  by (simp add: replace_source_def publish_replacement_def m_bind_def write_row_def Let_def split: sum.splits)

lemma replace_source_spec:
  assumes wf: "pool_wf content p" and s: "slot < e_capacity p"
    and n: "bt_get (slot_of p) source = None" "source < num_experts p"
    and r: "replace_source env source slot (content source) p = (res, q)"
  shows "pool_wf content q" and "num_experts q = num_experts p" "e_capacity q = e_capacity p"
    "e_storage q = e_storage p" "policy_reserved q = policy_reserved p"
    and "\<forall>other x. expert_at p ! slot \<noteq> Some other \<longrightarrow> bt_get (slot_of p) other = Some x \<longrightarrow>
       bt_get (slot_of q) other = Some x"
    and "res = Inr () \<longrightarrow> bt_get (slot_of q) source = Some slot"
    and "\<forall>other. other \<noteq> source \<longrightarrow> bt_get (slot_of p) other = None \<longrightarrow> bt_get (slot_of q) other = None"
proof -
  note w = withdraw_spec [OF wf s]
  have n': "bt_get (slot_of (withdraw slot p)) source = None" using n by (simp add: w(4))
  note pub = publish_row [OF w(1) _ w(2) n'] 
  have s': "slot < e_capacity (withdraw slot p)" and n2: "source < num_experts (withdraw slot p)"
    using s n by (simp_all add: w)
  let ?w = "withdraw slot p"
  consider "q = p" "res \<noteq> Inr ()" | "q = ?w \<lparr> slot_rows := (slot_rows ?w)[slot := None] \<rparr>" "res \<noteq> Inr ()"
    | "q = ?w \<lparr> slot_rows := (slot_rows ?w)[slot := Some (content source)],
        expert_at := (expert_at ?w)[slot := Some source], slot_of := bt_insert source slot (slot_of ?w) \<rparr>"
    using r [symmetric] unfolding replace_source_eq Let_def
    by (cases "projections_at (e_storage p) slot"; cases "preflight env slot"; cases "write_slot env slot"; auto)
  then have "pool_wf content q \<and> num_experts q = num_experts p \<and> e_capacity q = e_capacity p
    \<and> e_storage q = e_storage p \<and> policy_reserved q = policy_reserved p
    \<and> (\<forall>other x. expert_at p ! slot \<noteq> Some other \<longrightarrow> bt_get (slot_of p) other = Some x \<longrightarrow>
       bt_get (slot_of q) other = Some x)
    \<and> (res = Inr () \<longrightarrow> bt_get (slot_of q) source = Some slot)
    \<and> (\<forall>other. other \<noteq> source \<longrightarrow> bt_get (slot_of p) other = None \<longrightarrow> bt_get (slot_of q) other = None)"
  proof cases
    case 1
    then show ?thesis using wf by simp
  next
    case 2
    then show ?thesis using pub(2) [OF s' n2, of None] by (simp add: w)
  next
    case 3
    then show ?thesis using pub(1) [OF s' n2] n by (simp add: w btree_simps)
  qed
  then show "pool_wf content q" "num_experts q = num_experts p" "e_capacity q = e_capacity p"
    "e_storage q = e_storage p" "policy_reserved q = policy_reserved p"
    "\<forall>other x. expert_at p ! slot \<noteq> Some other \<longrightarrow> bt_get (slot_of p) other = Some x \<longrightarrow>
       bt_get (slot_of q) other = Some x"
    "res = Inr () \<longrightarrow> bt_get (slot_of q) source = Some slot"
    "\<forall>other. other \<noteq> source \<longrightarrow> bt_get (slot_of p) other = None \<longrightarrow> bt_get (slot_of q) other = None"
    by blast+
qed

lemma place_row_next:
  assumes n: "bt_get (slot_of p) source = None" "source < num_experts p" and k: "keep \<subseteq> set protected"
  shows "relates (pool_next content keep) (place_row env source protected (content source)) p"
  unfolding place_row_def
proof (rule pool_steps(1))
  fix slot assume c: "choose_slot protected p = Inr slot"
  show "relates (pool_next content keep) (m_bind (replace_source env source slot (content source))
      (\<lambda>_. m_return slot)) p"
  proof (rule pool_bind)
    show "relates (pool_next content keep) (replace_source env source slot (content source)) p"
      unfolding relates_def pool_next_def
    proof (intro impI)
      assume wf: "pool_wf content p"
      have s: "slot < e_capacity p" using c wf by (cases rule: choose_slot_cases) (simp_all add: pool_wf_defs)
      obtain res q where q: "replace_source env source slot (content source) p = (res, q)" by fastforce
      note spec = replace_source_spec [OF wf s n q]
      have "expert_at p ! slot \<noteq> Some other" if "other \<in> keep" for other
        using c that k by (cases rule: choose_slot_cases) auto
      with spec show "pool_wf content (snd (replace_source env source slot (content source) p)) \<and>
        num_experts (snd (replace_source env source slot (content source) p)) = num_experts p \<and>
        e_capacity (snd (replace_source env source slot (content source) p)) = e_capacity p \<and>
        e_storage (snd (replace_source env source slot (content source) p)) = e_storage p \<and>
        policy_reserved (snd (replace_source env source slot (content source) p)) = policy_reserved p \<and>
        (\<forall>sourcea\<in>keep. \<forall>slota. bt_get (slot_of p) sourcea = Some slota \<longrightarrow>
           bt_get (slot_of (snd (replace_source env source slot (content source) p))) sourcea = Some slota)"
        unfolding q by simp
    qed
  qed (rule pool_steps)
qed

lemma place_row_Inr:
  assumes wf: "pool_wf content p" and n: "bt_get (slot_of p) source = None" "source < num_experts p"
    and r: "place_row env source protected (content source) p = (Inr slot, q)"
  shows "bt_get (slot_of q) source = Some slot"
    and "\<forall>other. other \<noteq> source \<longrightarrow> bt_get (slot_of p) other = None \<longrightarrow> bt_get (slot_of q) other = None"
proof -
  from r have c: "choose_slot protected p = Inr slot"
    and q: "replace_source env source slot (content source) p = (Inr (), q)"
    by (auto simp: place_row_def result_simps)
  have s: "slot < e_capacity p" using c wf by (cases rule: choose_slot_cases) (simp_all add: pool_wf_defs)
  from replace_source_spec [OF wf s n q] show "bt_get (slot_of q) source = Some slot"
    "\<forall>other. other \<noteq> source \<longrightarrow> bt_get (slot_of p) other = None \<longrightarrow> bt_get (slot_of q) other = None" by simp_all
qed

lemma touch_cases:
  obtains "touch source slot p = (Inl ''IQ_K recency counter overflow'', p)"
    | f where "bt_wf (frequency p) \<longrightarrow> bt_wf f"
      "touch source slot p = (Inl ''IQ_K frequency counter overflow'', p \<lparr> clock := clock p + 1, frequency := f \<rparr>)"
    | f where "bt_wf (frequency p) \<longrightarrow> bt_wf f"
      "touch source slot p = (Inr (), p \<lparr> clock := clock p + 1, frequency := f,
         last_use := (last_use p)[slot := clock p + 1] \<rparr>)"
proof (cases "clock p + 1 < u64_limit")
  case False
  then show ?thesis using that(1) by (simp add: touch_def checked_add_def)
next
  case True
  let ?c = "unwrap_or 0 (bt_get (frequency p) source)"
  let ?f = "bt_insert source (?c + 1) (bt_insert source ?c (frequency p))"
  show ?thesis
  proof (cases "?c + 1 < u64_limit")
    case False
    with True show ?thesis
      by (intro that(2) [of "bt_insert source ?c (frequency p)"]) (simp_all add: touch_def checked_add_def Let_def)
  next
    case c: True
    show ?thesis
      by (rule that(3) [of "if (clock p + 1) mod 128 = 0 then bt_map_values (\<lambda>c. c div 2) ?f else ?f"])
        (use True c in \<open>simp_all add: touch_def checked_add_def Let_def\<close>)
  qed
qed

lemma touch_next: "relates (pool_next content keep) (touch source slot) p"
proof -
  have u: "u \<le> clock p + 1" if "pool_wf content p" "u \<in> set ((last_use p)[slot := clock p + 1])" for u
    using that set_update_subset_insert [of "last_use p" slot "clock p + 1"]
    unfolding pool_wf_def recency_wf_def by (auto intro: le_SucI)
  show ?thesis
  proof (cases rule: touch_cases [of source slot p])
    case 1
    then show ?thesis by (simp add: relates_def pool_next_def)
  next
    case (2 f)
    then show ?thesis by (auto simp: relates_def pool_next_def pool_wf_defs intro: le_SucI)
  next
    case (3 f)
    then show ?thesis using u by (simp add: relates_def pool_next_def pool_wf_defs)
  qed
qed

lemma touch_frame:
  assumes "touch source slot p = (r, q)"
  shows "slot_of q = slot_of p" "expert_at q = expert_at p" "slot_rows q = slot_rows p"
    "num_experts q = num_experts p"
  using assms by (cases rule: touch_cases [of source slot p]; auto)+


section \<open>Demands\<close>

lemma found_lt: "pool_wf content p \<Longrightarrow> bt_get (slot_of p) source = Some slot \<Longrightarrow> source < num_experts p"
  unfolding pool_wf_def published_wf_def by blast

text \<open>The invariant and what a demand protects, threaded through every kind of step.\<close>

lemma load_demand_row_next:
  assumes "bt_get (slot_of p) source = None" "source < num_experts p" "keep \<subseteq> set protected"
  shows "relates (pool_next content keep) (load_demand_row env gate source (content source) protected) p"
  unfolding load_demand_row_def by (rule pool_steps(2), rule place_row_next [OF assms])

lemma demand_step_next:
  assumes e: "env_reads env content" and s: "source < num_experts p" and k: "keep \<subseteq> set protected"
  shows "relates (pool_next content keep) (demand_step env active protected source acc) p"
  unfolding demand_step_def
proof (rule pool_steps(1), rule pool_bind, goal_cases)
  case (1 found)
  show ?case
  proof (cases found)
    case (Some slot)
    then show ?thesis by (simp add: pool_steps)
  next
    case None
    with 1 have n: "bt_get (slot_of p) source = None" by simp
    have "row = content source" if "read_row env source = Inr row" for row
      using e that by (simp add: env_reads_def)
    with None load_demand_row_next [OF n s k] show ?thesis
      by (auto intro!: pool_steps pool_bind)
  qed
next
  case (2 found x t)
  then show ?case by (cases x) (auto intro!: pool_bind touch_next pool_steps)
qed

lemma gated_step_next:
  assumes e: "env_reads env content" and s: "source < num_experts p" and k: "keep \<subseteq> set protected"
  shows "relates (pool_next content keep) (gated_step env gate protected source u) p"
  unfolding gated_step_def
proof (rule pool_steps(1), rule pool_bind, goal_cases)
  case (1 found)
  show ?case
  proof (cases found)
    case (Some slot)
    then show ?thesis by (simp add: pool_steps)
  next
    case None
    with 1 have n: "bt_get (slot_of p) source = None" by simp
    have "row = content source" if "read_row env source = Inr row" for row
      using e that by (simp add: env_reads_def)
    with None load_demand_row_next [OF n s k] show ?thesis by (auto intro!: pool_steps)
  qed
qed (rule touch_next)


lemma pool_for:
  assumes wf: "pool_wf content p"
    and step: "\<And>x a t. x \<in> set xs \<Longrightarrow> pool_wf content t \<Longrightarrow> num_experts t = num_experts p \<Longrightarrow>
      e_capacity t = e_capacity p \<Longrightarrow> relates (pool_next content keep) (body x a) t"
  shows "relates (pool_next content keep) (m_for xs body acc) p"
proof -
  have "relates (pool_next content keep) (m_for ys body a) t"
    if "set ys \<subseteq> set xs" "pool_wf content t" "num_experts t = num_experts p" "e_capacity t = e_capacity p" for ys a t
    using that
  proof (induction ys arbitrary: a t)
    case Nil
    then show ?case by (simp add: relates_def pool_next_def)
  next
    case (Cons y ys)
    have y: "relates (pool_next content keep) (body y a) t" using step Cons.prems by simp
    show ?case unfolding m_for.simps
    proof (rule pool_bind [OF y])
      fix b u assume "body y a t = (Inr b, u)"
      from relatesD [OF y this] Cons.prems(2-4)
      have "pool_wf content u" "num_experts u = num_experts p" "e_capacity u = e_capacity p"
        by (simp_all add: pool_next_def)
      with Cons show "relates (pool_next content keep) (m_for ys body b) u" by simp
    qed
  qed
  from this [of xs p acc] wf show ?thesis by simp
qed

lemma validate_group_Inr:
  assumes "validate_group active protect p = Inr u"
  shows "active \<noteq> []" "\<forall>id\<in>set (active @ protect). id < num_experts p"
    "length (btree_set (active @ protect)) \<le> e_capacity p"
  using assms by (auto simp: validate_group_def result_simps Let_def)

lemma ensure_group_next:
  assumes wf: "pool_wf content p" and e: "env_reads env content" and k: "keep \<subseteq> set (active @ protect)"
  shows "relates (pool_next content keep) (ensure_group_protected env active protect) p"
  unfolding ensure_group_protected_def
proof (rule pool_steps(1), rule pool_bind, goal_cases)
  case (1 u)
  note v = validate_group_Inr [OF 1]
  show ?case
    by (rule pool_for [OF wf], rule demand_step_next [OF e]) (use v k in auto)
next
  case (2 u x t)
  then show ?case by (cases x) (auto intro!: pool_steps)
qed

lemma ensure_with_gate_next:
  assumes wf: "pool_wf content p" and e: "env_reads env content" and k: "keep \<subseteq> set sources"
  shows "relates (pool_next content keep) (ensure_with_gate env sources gate) p"
  unfolding ensure_with_gate_def
proof (rule pool_steps(1), rule pool_steps(1), rule pool_steps(1), rule pool_bind, goal_cases)
  case (1 protected u1 u2)
  then have "protected = btree_set sources" "\<forall>id\<in>set sources. id < num_experts p"
    by (auto simp: check_sources_def result_simps Let_def)
  then show ?case by (intro pool_for [OF wf] gated_step_next [OF e]) (use k in auto)
qed (auto intro!: pool_steps)

text \<open>A demand that succeeds has published every source it was asked for.\<close>

lemma demand_step_published:
  assumes "pool_wf content p" "env_reads env content" "source < num_experts p"
    and r: "demand_step env active protected source acc p = (Inr acc', q)"
  shows "\<exists>slot. bt_get (slot_of q) source = Some slot"
proof (cases "bt_get (slot_of p) source")
  case (Some slot)
  then obtain t where "touch source slot p = (Inr t, q)"
    using r by (auto simp: demand_step_def result_simps m_bind_def split: prod.splits sum.splits)
  from touch_frame(1) [OF this] Some show ?thesis by simp
next
  case None
  then obtain row slot t where row: "read_row env source = Inr row"
    and l: "load_demand_row env None source row protected p = (Inr slot, t)"
    and q: "touch source slot t = (Inr (), q)"
    using r by (auto simp: demand_step_def result_simps)
  have "row = content source" using assms(2) row by (simp add: env_reads_def)
  with l have "place_row env source protected (content source) p = (Inr slot, t)"
    by (auto simp: load_demand_row_def result_simps)
  from place_row_Inr(1) [OF assms(1) None assms(3) this] touch_frame(1) [OF q] show ?thesis by simp
qed

lemma gated_step_published:
  assumes "pool_wf content p" "env_reads env content" "source < num_experts p"
    and r: "gated_step env gate protected source u p = (Inr u', q)"
  shows "\<exists>slot. bt_get (slot_of q) source = Some slot"
proof (cases "bt_get (slot_of p) source")
  case (Some slot)
  then have "touch source slot p = (Inr u', q)"
    using r by (auto simp: gated_step_def result_simps m_bind_def split: prod.splits sum.splits)
  from touch_frame(1) [OF this] Some show ?thesis by simp
next
  case None
  then obtain row slot t where row: "read_row env source = Inr row"
    and l: "load_demand_row env gate source row protected p = (Inr slot, t)"
    and q: "touch source slot t = (Inr u', q)"
    using r by (auto simp: gated_step_def result_simps)
  have "row = content source" using assms(2) row by (simp add: env_reads_def)
  with l have "place_row env source protected (content source) p = (Inr slot, t)"
    by (auto simp: load_demand_row_def result_simps)
  from place_row_Inr(1) [OF assms(1) None assms(3) this] touch_frame(1) [OF q] show ?thesis by simp
qed

lemma pool_for_published:
  assumes wf: "pool_wf content p"
    and next_: "\<And>x a t. x \<in> set xs \<Longrightarrow> pool_wf content t \<Longrightarrow> num_experts t = num_experts p \<Longrightarrow>
      relates (pool_next content (set xs)) (body x a) t"
    and pub: "\<And>x a t b u. x \<in> set xs \<Longrightarrow> pool_wf content t \<Longrightarrow> num_experts t = num_experts p \<Longrightarrow>
      body x a t = (Inr b, u) \<Longrightarrow> \<exists>slot. bt_get (slot_of u) x = Some slot"
    and r: "m_for xs body acc p = (Inr res, q)"
  shows "\<forall>x\<in>set xs. \<exists>slot. bt_get (slot_of q) x = Some slot"
proof -
  let ?P = "\<lambda>ys t. pool_wf content t \<and> num_experts t = num_experts p
    \<and> (\<forall>x\<in>set ys. \<exists>slot. bt_get (slot_of t) x = Some slot)"
  have "?P xs q"
  proof (rule m_for_invariant [OF r])
    show "?P [] p" using wf by simp
    fix ys x zs a b t u
    assume xs: "xs = ys @ x # zs" and P: "?P ys t" and s: "body x a t = (Inr b, u)"
    have x: "x \<in> set xs" using xs by simp
    note n = relatesD [OF next_ [OF x] s]
    have "\<exists>slot. bt_get (slot_of u) y = Some slot" if "y \<in> set ys" for y
    proof -
      from P that obtain slot where "bt_get (slot_of t) y = Some slot" by blast
      moreover have "y \<in> set xs" using that xs by simp
      ultimately show ?thesis using n P by (auto simp: pool_next_def)
    qed
    with n P pub [OF x _ _ s] show "?P (ys @ [x]) u" by (auto simp: pool_next_def)
  qed
  then show ?thesis by simp
qed


lemma ensure_group_published:
  assumes wf: "pool_wf content p" and e: "env_reads env content"
    and r: "ensure_group_protected env active protect p = (Inr counts, q)"
  shows "\<forall>source\<in>set active. \<exists>slot. bt_get (slot_of q) source = Some slot"
proof -
  from r obtain u acc t where v: "validate_group active protect p = Inr u"
    and l: "m_for active (demand_step env active (btree_set (active @ protect)))
      (\<lparr> hits = 0, misses = 0, evictions = 0 \<rparr>, False) p = (Inr acc, t)" and q: "q = t"
    by (auto simp: ensure_group_protected_def result_simps m_bind_def split: prod.splits sum.splits if_splits)
  note v = validate_group_Inr [OF v]
  show ?thesis unfolding q
    by (rule pool_for_published [OF wf _ _ l])
      (use v in \<open>auto intro: demand_step_next [OF e] demand_step_published [OF _ e]\<close>)
qed

lemma ensure_with_gate_Inr:
  assumes wf: "pool_wf content p" and e: "env_reads env content"
    and r: "ensure_with_gate env sources gate p = (Inr slots, q)"
  shows "list_all2 (\<lambda>source slot. bt_get (slot_of q) source = Some slot) sources slots"
    and "length (btree_set sources) = TOP_K"
  using r by (auto simp: ensure_with_gate_def result_simps map_result_eq_Inr published_slot_def check_sources_def
      Let_def elim!: list_all2_mono)

lemma published_slot_row:
  assumes "pool_wf content p" "bt_get (slot_of p) source = Some slot"
  shows "slot < e_capacity p" "expert_at p ! slot = Some source" "slot_rows p ! slot = Some (content source)"
  using assms by (auto simp: pool_wf_def published_wf_def)

lemma published_slots_distinct:
  assumes "pool_wf content p" "bt_get (slot_of p) a = Some slot" "bt_get (slot_of p) b = Some slot"
  shows "a = b"
  using published_slot_row(2) [OF assms(1,2)] published_slot_row(2) [OF assms(1,3)] by simp

section \<open>Seeding\<close>

lemma load_source_next:
  assumes e: "env_reads env content" and n: "bt_get (slot_of p) source = None" "source < num_experts p"
    and k: "keep \<subseteq> set protected"
  shows "relates (pool_next content keep) (load_source env source protected) p"
proof -
  have "row = content source" if "read_row env source = Inr row" for row
    using e that by (simp add: env_reads_def)
  with place_row_next [OF n k] show ?thesis unfolding load_source_def by (auto intro!: pool_steps)
qed

lemma load_source_Inr:
  assumes "env_reads env content" and wf: "pool_wf content p" 
    and n: "bt_get (slot_of p) source = None" "source < num_experts p"
    and r: "load_source env source protected p = (Inr slot, q)"
  shows "bt_get (slot_of q) source = Some slot"
    and "\<forall>other. other \<noteq> source \<longrightarrow> bt_get (slot_of p) other = None \<longrightarrow> bt_get (slot_of q) other = None"
proof -
  from r obtain row where "read_row env source = Inr row" "place_row env source protected row p = (Inr slot, q)"
    by (auto simp: load_source_def result_simps)
  with assms(1) have "place_row env source protected (content source) p = (Inr slot, q)"
    by (auto simp: env_reads_def)
  from place_row_Inr [OF wf n this] show "bt_get (slot_of q) source = Some slot"
    "\<forall>other. other \<noteq> source \<longrightarrow> bt_get (slot_of p) other = None \<longrightarrow> bt_get (slot_of q) other = None" by simp_all
qed

lemma seed_loop:
  assumes e: "env_reads env content" and d: "distinct (done @ todo)"
    and v: "\<forall>id\<in>set todo. id < num_experts p" and wf: "pool_wf content p"
    and only: "\<forall>source. bt_get (slot_of p) source \<noteq> None \<longrightarrow> source \<in> set done"
    and k: "set (done @ todo) \<subseteq> set protected"
    and r: "m_for todo (seed_step env protected) u p = (res, q)"
  shows "pool_wf content q \<and> num_experts q = num_experts p \<and> e_capacity q = e_capacity p
    \<and> e_storage q = e_storage p
    \<and> (\<forall>source\<in>set done. \<forall>slot. bt_get (slot_of p) source = Some slot \<longrightarrow> bt_get (slot_of q) source = Some slot)
    \<and> (res = Inr () \<longrightarrow> (\<forall>source\<in>set todo. \<exists>slot. bt_get (slot_of q) source = Some slot))"
  using d v wf only k r
proof (induction todo arbitrary: "done" u p)
  case Nil
  then show ?case by simp
next
  case (Cons x xs)
  have n: "bt_get (slot_of p) x = None" using Cons.prems(1,4) by fastforce
  have x: "x < num_experts p" using Cons.prems(2) by simp
  have kd: "set done \<subseteq> set protected" using Cons.prems(5) by simp
  obtain res1 t where l: "load_source env x protected p = (res1, t)" by fastforce
  from relatesD [OF load_source_next [OF e n x kd] l] Cons.prems(3)
  have t: "pool_wf content t" "num_experts t = num_experts p" "e_capacity t = e_capacity p"
    "e_storage t = e_storage p"
    "\<forall>source\<in>set done. \<forall>slot. bt_get (slot_of p) source = Some slot \<longrightarrow> bt_get (slot_of t) source = Some slot"
    by (simp_all add: pool_next_def)
  show ?case
  proof (cases res1)
    case (Inl err)
    with Cons.prems(6) l t show ?thesis by (auto simp: seed_step_def m_bind_def)
  next
    case (Inr slot)
    note i = load_source_Inr [OF e Cons.prems(3) n x l [unfolded Inr]]
    obtain res2 w where w: "touch x slot t = (res2, w)" by fastforce
    note f = touch_frame [OF w]
    from relatesD [OF touch_next [of content UNIV] w] t
    have w': "pool_wf content w" "num_experts w = num_experts p" "e_capacity w = e_capacity p"
      "e_storage w = e_storage p" by (simp_all add: pool_next_def)
    show ?thesis
    proof (cases res2)
      case (Inl err)
      with Cons.prems(6) l w w' Inr t f show ?thesis by (auto simp: seed_step_def m_bind_def)
    next
      case (Inr u2)
      have only: "\<forall>source. bt_get (slot_of w) source \<noteq> None \<longrightarrow> source \<in> set (done @ [x])"
        using i(2) Cons.prems(4) f(1) by auto
      have m: "m_for xs (seed_step env protected) () w = (res, q)"
      proof -
        have "seed_step env protected x u p = (Inr (), w)"
          using l w Inr \<open>res1 = Inr slot\<close> by (simp add: seed_step_def m_bind_def)
        then show ?thesis using Cons.prems(6) by simp
      qed
      have "pool_wf content q \<and> num_experts q = num_experts w \<and> e_capacity q = e_capacity w
        \<and> e_storage q = e_storage w
        \<and> (\<forall>source\<in>set (done @ [x]). \<forall>slot. bt_get (slot_of w) source = Some slot \<longrightarrow> bt_get (slot_of q) source = Some slot)
        \<and> (res = Inr () \<longrightarrow> (\<forall>source\<in>set xs. \<exists>slot. bt_get (slot_of q) source = Some slot))"
        by (rule Cons.IH [OF _ _ w'(1) only _ m]) (use Cons.prems w' in auto)
      with w' t(5) i(1) f(1) show ?thesis by auto
    qed
  qed
qed

section \<open>Resizing\<close>

lemma pool_lengths:
  "pool_wf content p \<Longrightarrow> length (expert_at p) = e_capacity p \<and> length (last_use p) = e_capacity p
    \<and> length (slot_rows p) = e_capacity p"
  by (simp add: pool_wf_def extents_wf_def)

lemma commit_release_wf:
  assumes wf: "pool_wf content p" and ok: "prepare_release_suffix env t p = Inr (keep, rep)"
  shows "pool_wf content (commit_release keep t p)" and "TOP_K \<le> t" "t < e_capacity p"
    and "rr_old_capacity rep = e_capacity p" "rr_new_capacity rep = t"
    and "bt_get (slot_of (commit_release keep t p)) source
       = opt_filter (\<lambda>slot. slot < t) (bt_get (slot_of p) source)"
proof -
  from ok obtain fc bytes where fc: "e_storage p = Chunked fc" "TOP_K \<le> t"
    and ps: "prepare_suffix fc t = Inr (keep, bytes)"
    and rep: "rr_old_capacity rep = e_capacity p" "rr_new_capacity rep = t"
    by (auto simp: prepare_release_suffix_def result_simps split: expert_storage.splits)
  have cw: "chunks_wf fc" "fc_capacity fc = e_capacity p" "policy_reserved p = MAX_BOUNDED_SLOTS"
    using wf fc by (simp_all add: pool_wf_def storage_wf_def)
  note s = prepare_suffix_Inr [OF cw(1) ps]
  have cw': "chunks_wf (commit_suffix keep t fc)" using s(1) fc(2) by (simp add: TOP_K_def)
  have t: "t < e_capacity p" using s(3) cw(2) by simp
  have b: "bt_wf (slot_of p)" using wf by (simp add: pool_wf_def published_wf_def)
  show g: "bt_get (slot_of (commit_release keep t p)) source
       = opt_filter (\<lambda>slot. slot < t) (bt_get (slot_of p) source)" for source
    by (simp add: commit_release_def btree_simps b)
  note len = pool_lengths [OF wf]
  have inv: "bt_get (slot_of p) a = Some i \<longleftrightarrow> i < e_capacity p \<and> expert_at p ! i = Some a" for a i
    using wf by (simp add: pool_wf_def published_wf_def)
  have c: "a < num_experts p \<and> slot_rows p ! i = Some (content a)"
    if "i < e_capacity p" "expert_at p ! i = Some a" for a i
    using wf that by (simp add: pool_wf_def published_wf_def)
  have "published_wf content (commit_release keep t p)"
    unfolding published_wf_def
  proof (intro conjI allI impI)
    show "bt_wf (slot_of (commit_release keep t p))" by (simp add: commit_release_def b)
    fix a i
    show "bt_get (slot_of (commit_release keep t p)) a = Some i
      \<longleftrightarrow> i < e_capacity (commit_release keep t p) \<and> expert_at (commit_release keep t p) ! i = Some a"
      unfolding g using t inv [of a i] by (auto simp: opt_filter_eq_Some commit_release_def)
  next
    fix i a assume "i < e_capacity (commit_release keep t p)" "expert_at (commit_release keep t p) ! i = Some a"
    with c [of i a] t show "a < num_experts (commit_release keep t p)"
      "slot_rows (commit_release keep t p) ! i = Some (content a)" by (auto simp: commit_release_def)
  qed
  moreover have "storage_wf (commit_release keep t p)"
    using cw' cw(3) by (simp add: storage_wf_def commit_release_def fc(1)) (simp add: commit_suffix_def)
  moreover have "extents_wf (commit_release keep t p)" "recency_wf (commit_release keep t p)"
    using wf t fc(2) set_take_subset [of t "last_use p"]
    by (auto simp: pool_wf_def extents_wf_def recency_wf_def commit_release_def)
  ultimately show "pool_wf content (commit_release keep t p)" by (simp add: pool_wf_def)
  show "TOP_K \<le> t" "t < e_capacity p" by (fact fc(2) t)+
  show "rr_old_capacity rep = e_capacity p" "rr_new_capacity rep = t" by (fact rep)+
qed

lemma resize_with_grow: "length xs \<le> n \<Longrightarrow> resize_with n x xs = xs @ replicate (n - length xs) x"
  by (simp add: resize_with_def)

lemma commit_growth_wf:
  assumes wf: "pool_wf content p" and ok: "prepare_growth_suffix env t p = Inr (growth, rep)"
    and n: "t \<le> num_experts p"
  shows "pool_wf content (commit_growth_suffix growth rep p)" and "e_capacity p < t" "t \<le> MAX_BOUNDED_SLOTS"
    and "gr_old_capacity rep = e_capacity p" "gr_new_capacity rep = t"
    and "slot_of (commit_growth_suffix growth rep p) = slot_of p"
    and "quote_growth_suffix t p = Inr rep"
proof -
  from ok obtain fc where fc: "e_storage p = Chunked fc" and q: "quote_growth_suffix t p = Inr rep"
    and pg: "prepare_growth (env_metal env) fc t = Inr growth"
    by (cases "e_storage p") (auto simp: prepare_growth_suffix_def result_simps)
  have cw: "chunks_wf fc" "fc_capacity fc = e_capacity p" "policy_reserved p = MAX_BOUNDED_SLOTS"
    using wf fc by (simp_all add: pool_wf_def storage_wf_def)
  note g = prepare_growth_wf [OF cw(1) pg] and b = quote_growth_Inr [OF prepare_growth_wf(3) [OF cw(1) pg]]
  show t: "e_capacity p < t" "t \<le> MAX_BOUNDED_SLOTS" using b cw(2) by simp_all
  show rep: "gr_old_capacity rep = e_capacity p" "gr_new_capacity rep = t"
    using q by (auto simp: quote_growth_suffix_def fc result_simps)
  let ?q = "commit_growth_suffix growth rep p"
  note len = pool_lengths [OF wf]
  have at: "expert_at ?q = expert_at p @ replicate (t - e_capacity p) None"
    "last_use ?q = last_use p @ replicate (t - e_capacity p) 0"
    "slot_rows ?q = slot_rows p @ replicate (t - e_capacity p) None"
    using len t by (simp_all add: commit_growth_suffix_def rep resize_with_grow)
  have f: "slot_of ?q = slot_of p" "e_capacity ?q = t" "num_experts ?q = num_experts p"
    "frequency ?q = frequency p" "clock ?q = clock p" "policy_reserved ?q = policy_reserved p"
    "e_storage ?q = Chunked (commit_growth growth fc)"
    by (simp_all add: commit_growth_suffix_def rep fc)
  show "slot_of ?q = slot_of p" by (rule f)
  show "quote_growth_suffix t p = Inr rep" by (rule q)
  have inv: "bt_get (slot_of p) a = Some i \<longleftrightarrow> i < e_capacity p \<and> expert_at p ! i = Some a" for a i
    using wf by (simp add: pool_wf_def published_wf_def)
  have c: "a < num_experts p \<and> slot_rows p ! i = Some (content a)"
    if "i < e_capacity p" "expert_at p ! i = Some a" for a i
    using wf that by (simp add: pool_wf_def published_wf_def)
  have ex: "expert_at ?q ! i = Some a \<longleftrightarrow> i < e_capacity p \<and> expert_at p ! i = Some a" if "i < t" for i a
    using that len t unfolding at by (auto simp: nth_append)
  have "published_wf content ?q"
    unfolding published_wf_def f
  proof (intro conjI allI impI)
    show "bt_wf (slot_of p)" using wf by (simp add: pool_wf_def published_wf_def)
    show "bt_get (slot_of p) a = Some i \<longleftrightarrow> i < t \<and> expert_at ?q ! i = Some a" for a i
      using inv [of a i] ex [of i a] t by auto
    fix i a assume "i < t" "expert_at ?q ! i = Some a"
    with ex have "i < e_capacity p" "expert_at p ! i = Some a" by auto
    with c [of i a] len show "a < num_experts p" "slot_rows ?q ! i = Some (content a)"
      unfolding at by (auto simp: nth_append)
  qed
  moreover have "storage_wf ?q" using g(1,2) cw(3) by (simp add: storage_wf_def f commit_growth_def)
  moreover have "extents_wf ?q" "recency_wf ?q"
    using wf t n len unfolding extents_wf_def recency_wf_def f at pool_wf_def by auto
  ultimately show "pool_wf content ?q" by (simp add: pool_wf_def)
qed

end
