(* ===== verification/Expert_Capacity.thy ===== *)
theory Expert_Capacity
  imports Expert_Residency
begin

text \<open>
  Capacity changes across every routed layer, \<open>src/engine/expert_capacity.rs\<close>. The engine is its
  layers' pools, its recorded capacity and whether ordinary prefill scratch exists. All checks and
  preparations run before the first commit, so a change is made in every layer or in none.
\<close>

record 'r engine =
  en_capacity :: nat
  en_layers :: "'r pool list"
  en_workspace_ready :: bool

text \<open>What the engine asks of its environment: the row workspace, each layer's readers, each pool.\<close>

record 'r engine_env =
  ee_row_idle :: "unit result"
  ee_quiescent :: "nat \<Rightarrow> unit result"
  ee_pool :: "nat \<Rightarrow> 'r pool_env"

record recovery_report =
  er_old_capacity :: nat
  er_new_capacity :: nat
  er_added_bytes :: nat
  er_preparation_bytes :: nat

record capacity_release =
  cr_old_capacity :: nat
  cr_new_capacity :: nat
  cr_released_bytes :: nat
  cr_evicted_sources :: nat

definition quote_layer ::
    "'r engine_env \<Rightarrow> nat \<Rightarrow> nat \<Rightarrow> nat \<times> nat \<Rightarrow> nat \<times> 'r pool \<Rightarrow> (nat \<times> nat) result" where
  "quote_layer env capacity target acc layer =
     bindr (ee_quiescent env (fst layer)) (\<lambda>_.
     ensure (e_capacity (snd layer) = capacity) ''expert layers differ from engine capacity''
     (bindr (quote_growth_suffix target (snd layer)) (\<lambda>quote.
      bindr (ok_or (checked_add (fst acc) (gr_added_bytes quote)) ''expert recovery byte count overflow'') (\<lambda>added.
      bindr (ok_or (checked_add (snd acc) (gr_preparation_bytes quote))
        ''expert recovery preparation byte count overflow'') (\<lambda>preparation. Inr (added, preparation))))))"

definition prepare_layer ::
    "'r engine_env \<Rightarrow> nat \<Rightarrow> nat \<times> nat \<times> (prepared_growth \<times> growth_report) list \<Rightarrow> nat \<times> 'r pool
     \<Rightarrow> (nat \<times> nat \<times> (prepared_growth \<times> growth_report) list) result" where
  "prepare_layer env target acc layer =
     (case acc of (prepared, added, plans) \<Rightarrow>
      bindr (prepare_growth_suffix (ee_pool env (fst layer)) target (snd layer)) (\<lambda>plan.
      bindr (ok_or (checked_add prepared (gr_preparation_bytes (snd plan)))
        ''expert prepared byte count overflow'') (\<lambda>prepared'.
      bindr (ok_or (checked_add added (gr_added_bytes (snd plan)))
        ''expert prepared weight count overflow'') (\<lambda>added'.
      Inr (prepared', added', plans @ [plan])))))"

definition recover_plan ::
    "'r engine_env \<Rightarrow> nat \<Rightarrow> nat \<Rightarrow> 'r engine
     \<Rightarrow> (recovery_report \<times> (prepared_growth \<times> growth_report) list) result" where
  "recover_plan env target budget en =
     ensure (en_capacity en < target) ''expert recovery requires a larger capacity''
     (bindr (ee_row_idle env) (\<lambda>_.
      bindr (try_fold (quote_layer env (en_capacity en) target) (0, 0)
        (enumerate 0 (en_layers en))) (\<lambda>(added, preparation).
      ensure (preparation \<le> budget) ''expert recovery exceeds its requested-buffer budget''
      (bindr (try_fold (prepare_layer env target) (0, 0, []) (enumerate 0 (en_layers en)))
        (\<lambda>(prepared', added', plans).
       ensure (prepared' = preparation \<and> added' = added) ''expert recovery preparation differs from quote''
       (Inr (\<lparr> er_old_capacity = en_capacity en, er_new_capacity = target, er_added_bytes = added,
               er_preparation_bytes = preparation \<rparr>, plans)))))))"

definition recover_expert_capacity ::
    "'r engine_env \<Rightarrow> nat \<Rightarrow> nat \<Rightarrow> ('r engine, recovery_report) stateful" where
  "recover_expert_capacity env target budget en =
     (if target = en_capacity en then
        (Inr \<lparr> er_old_capacity = en_capacity en, er_new_capacity = target, er_added_bytes = 0,
               er_preparation_bytes = 0 \<rparr>, en)
      else case recover_plan env target budget en of
        Inl e \<Rightarrow> (Inl e, en)
      | Inr (report, plans) \<Rightarrow>
          (Inr report, en \<lparr> en_layers := map2 (\<lambda>plan pool. commit_growth_suffix (fst plan) (snd plan) pool)
             plans (en_layers en), en_capacity := target \<rparr>))"

definition check_layer :: "'r engine_env \<Rightarrow> nat \<Rightarrow> unit \<Rightarrow> nat \<times> 'r pool \<Rightarrow> unit result" where
  "check_layer env capacity u layer =
     bindr (ee_quiescent env (fst layer)) (\<lambda>_.
     ensure (e_capacity (snd layer) = capacity) ''expert layers differ from engine capacity'' (Inr ()))"

definition release_layer ::
    "'r engine_env \<Rightarrow> nat \<Rightarrow> nat \<times> nat \<times> (nat \<times> release_report) list \<Rightarrow> nat \<times> 'r pool
     \<Rightarrow> (nat \<times> nat \<times> (nat \<times> release_report) list) result" where
  "release_layer env target acc layer =
     (case acc of (released, evicted, plans) \<Rightarrow>
      bindr (prepare_release_suffix (ee_pool env (fst layer)) target (snd layer)) (\<lambda>plan.
      bindr (ok_or (checked_add released (rr_released_bytes (snd plan)))
        ''expert release byte count overflow'') (\<lambda>released'.
      bindr (ok_or (checked_add evicted (rr_evicted_sources (snd plan)))
        ''expert release source count overflow'') (\<lambda>evicted'.
      Inr (released', evicted', plans @ [plan])))))"

definition shrink_plan ::
    "'r engine_env \<Rightarrow> nat \<Rightarrow> 'r engine \<Rightarrow> (capacity_release \<times> (nat \<times> release_report) list) result" where
  "shrink_plan env target en =
     ensure (64 \<le> target \<and> target mod 16 = 0 \<and> target < en_capacity en)
       ''expert release requires a smaller complete chunk prefix''
     (bindr (ee_row_idle env) (\<lambda>_.
      bindr (try_fold (check_layer env (en_capacity en)) () (enumerate 0 (en_layers en))) (\<lambda>_.
      bindr (try_fold (release_layer env target) (0, 0, []) (enumerate 0 (en_layers en)))
        (\<lambda>(released, evicted, plans).
      Inr (\<lparr> cr_old_capacity = en_capacity en, cr_new_capacity = target, cr_released_bytes = released,
             cr_evicted_sources = evicted \<rparr>, plans)))))"

definition shrink_expert_capacity :: "'r engine_env \<Rightarrow> nat \<Rightarrow> ('r engine, capacity_release) stateful" where
  "shrink_expert_capacity env target en =
     (if target = en_capacity en then
        (Inr \<lparr> cr_old_capacity = en_capacity en, cr_new_capacity = target, cr_released_bytes = 0,
               cr_evicted_sources = 0 \<rparr>, en)
      else case shrink_plan env target en of
        Inl e \<Rightarrow> (Inl e, en)
      | Inr (report, plans) \<Rightarrow>
          (Inr report, en \<lparr> en_layers := map2 (\<lambda>plan pool. commit_release (fst plan) target pool)
             plans (en_layers en), en_capacity := target \<rparr>))"

section \<open>Every layer or none\<close>

definition engine_wf :: "(nat \<Rightarrow> nat \<Rightarrow> 'r) \<Rightarrow> 'r engine \<Rightarrow> bool" where
  "engine_wf content en \<longleftrightarrow> (\<forall>i<length (en_layers en).
     pool_wf (content i) (en_layers en ! i) \<and> e_capacity (en_layers en ! i) = en_capacity en
     \<and> num_experts (en_layers en ! i) = 512)"

lemma prepare_layers_Inr:
  assumes "try_fold (prepare_layer env t) acc (enumerate k layers) = Inr (x, y, plans)"
  shows "\<exists>new. plans = snd (snd acc) @ new \<and> length new = length layers
    \<and> (\<forall>i<length layers. prepare_growth_suffix (ee_pool env (k + i)) t (layers ! i) = Inr (new ! i))"
  using assms
proof (induction layers arbitrary: acc k)
  case (Cons l ls)
  then obtain acc' where a: "prepare_layer env t acc (k, l) = Inr acc'"
    "try_fold (prepare_layer env t) acc' (enumerate (Suc k) ls) = Inr (x, y, plans)"
    by (auto simp: result_simps)
  from a(1) obtain plan where p: "prepare_growth_suffix (ee_pool env k) t l = Inr plan"
    "snd (snd acc') = snd (snd acc) @ [plan]"
    by (cases acc) (auto simp: prepare_layer_def result_simps)
  from Cons.IH [OF a(2)] obtain new where "plans = snd (snd acc') @ new" "length new = length ls"
    "\<forall>i<length ls. prepare_growth_suffix (ee_pool env (Suc k + i)) t (ls ! i) = Inr (new ! i)" by blast
  with p show ?case by (intro exI [of _ "plan # new"]) (auto simp: All_less_Suc2)
qed simp

lemma release_layers_Inr:
  assumes "try_fold (release_layer env t) acc (enumerate k layers) = Inr (x, y, plans)"
  shows "\<exists>new. plans = snd (snd acc) @ new \<and> length new = length layers
    \<and> (\<forall>i<length layers. prepare_release_suffix (ee_pool env (k + i)) t (layers ! i) = Inr (new ! i))"
  using assms
proof (induction layers arbitrary: acc k)
  case (Cons l ls)
  then obtain acc' where a: "release_layer env t acc (k, l) = Inr acc'"
    "try_fold (release_layer env t) acc' (enumerate (Suc k) ls) = Inr (x, y, plans)"
    by (auto simp: result_simps)
  from a(1) obtain plan where p: "prepare_release_suffix (ee_pool env k) t l = Inr plan"
    "snd (snd acc') = snd (snd acc) @ [plan]"
    by (cases acc) (auto simp: release_layer_def result_simps)
  from Cons.IH [OF a(2)] obtain new where "plans = snd (snd acc') @ new" "length new = length ls"
    "\<forall>i<length ls. prepare_release_suffix (ee_pool env (Suc k + i)) t (ls ! i) = Inr (new ! i)" by blast
  with p show ?case by (intro exI [of _ "plan # new"]) (auto simp: All_less_Suc2)
qed simp

lemma recover_expert_capacity_Inr:
  assumes wf: "engine_wf content en" and r: "recover_expert_capacity env t b en = (Inr rep, en')"
  shows "engine_wf content en'" and "en_capacity en' = t" and "er_old_capacity rep = en_capacity en"
    and "er_new_capacity rep = t" and "en_capacity en \<le> t" and "en_workspace_ready en' = en_workspace_ready en"
    and "er_preparation_bytes rep \<le> b \<or> t = en_capacity en"
    and "length (en_layers en') = length (en_layers en)"
    and "i < length (en_layers en) \<Longrightarrow> slot_of (en_layers en' ! i) = slot_of (en_layers en ! i)"
proof -
  have "engine_wf content en' \<and> en_capacity en' = t \<and> er_old_capacity rep = en_capacity en
    \<and> er_new_capacity rep = t \<and> en_capacity en \<le> t \<and> en_workspace_ready en' = en_workspace_ready en
    \<and> (er_preparation_bytes rep \<le> b \<or> t = en_capacity en) \<and> length (en_layers en') = length (en_layers en)
    \<and> (\<forall>i<length (en_layers en). slot_of (en_layers en' ! i) = slot_of (en_layers en ! i))"
  proof (cases "t = en_capacity en")
    case True
    with r wf show ?thesis by (auto simp: recover_expert_capacity_def)
  next
    case False
    with r obtain plans where p: "recover_plan env t b en = Inr (rep, plans)"
      and en': "en' = en \<lparr> en_layers := map2 (\<lambda>plan pool. commit_growth_suffix (fst plan) (snd plan) pool)
             plans (en_layers en), en_capacity := t \<rparr>"
      by (auto simp: recover_expert_capacity_def split: sum.splits prod.splits)
    from p obtain x y where lt: "en_capacity en < t"
      and f: "try_fold (prepare_layer env t) (0, 0, []) (enumerate 0 (en_layers en)) = Inr (x, y, plans)"
      and rep: "er_old_capacity rep = en_capacity en" "er_new_capacity rep = t" "er_preparation_bytes rep \<le> b"
      by (auto simp: recover_plan_def result_simps)
    have pl: "length plans = length (en_layers en)"
      "\<And>i. i < length (en_layers en) \<Longrightarrow> prepare_growth_suffix (ee_pool env i) t (en_layers en ! i) = Inr (plans ! i)"
      using prepare_layers_Inr [OF f] by auto
    have l: "pool_wf (content i) (en_layers en' ! i) \<and> e_capacity (en_layers en' ! i) = t
        \<and> num_experts (en_layers en' ! i) = 512 \<and> slot_of (en_layers en' ! i) = slot_of (en_layers en ! i)"
      if i: "i < length (en_layers en)" for i
    proof -
      have w: "pool_wf (content i) (en_layers en ! i)" "num_experts (en_layers en ! i) = 512"
        using wf i by (simp_all add: engine_wf_def)
      have g: "prepare_growth_suffix (ee_pool env i) t (en_layers en ! i) = Inr (fst (plans ! i), snd (plans ! i))"
        using pl(2) [OF i] by simp
      have "t \<le> 511"
        using g by (cases "e_storage (en_layers en ! i)")
          (auto simp: prepare_growth_suffix_def quote_growth_suffix_def result_simps
            dest!: quote_growth_Inr(2) simp: MAX_BOUNDED_SLOTS_def)
      then have n: "t \<le> num_experts (en_layers en ! i)" using w(2) by simp
      note c = commit_growth_wf [OF w(1) g n]
      have e: "en_layers en' ! i = commit_growth_suffix (fst (plans ! i)) (snd (plans ! i)) (en_layers en ! i)"
        using i pl(1) by (simp add: en')
      show ?thesis using c w(2) unfolding e by (simp add: commit_growth_suffix_def)
    qed
    have "length (en_layers en') = length (en_layers en)" using pl(1) by (simp add: en')
    with l rep lt show ?thesis by (simp add: engine_wf_def en')
  qed
  then show "engine_wf content en'" "en_capacity en' = t" "er_old_capacity rep = en_capacity en"
    "er_new_capacity rep = t" "en_capacity en \<le> t" "en_workspace_ready en' = en_workspace_ready en"
    "er_preparation_bytes rep \<le> b \<or> t = en_capacity en"
    "length (en_layers en') = length (en_layers en)"
    "i < length (en_layers en) \<Longrightarrow> slot_of (en_layers en' ! i) = slot_of (en_layers en ! i)" by blast+
qed

lemma shrink_expert_capacity_Inr:
  assumes wf: "engine_wf content en" and r: "shrink_expert_capacity env t en = (Inr rep, en')"
  shows "engine_wf content en'" and "en_capacity en' = t" and "cr_old_capacity rep = en_capacity en"
    and "cr_new_capacity rep = t" and "t \<le> en_capacity en" and "en_workspace_ready en' = en_workspace_ready en"
    and "length (en_layers en') = length (en_layers en)"
    and "i < length (en_layers en) \<Longrightarrow> t < en_capacity en \<Longrightarrow>
       bt_get (slot_of (en_layers en' ! i)) source
         = opt_filter (\<lambda>slot. slot < t) (bt_get (slot_of (en_layers en ! i)) source)"
proof -
  have "engine_wf content en' \<and> en_capacity en' = t \<and> cr_old_capacity rep = en_capacity en
    \<and> cr_new_capacity rep = t \<and> t \<le> en_capacity en \<and> en_workspace_ready en' = en_workspace_ready en
    \<and> length (en_layers en') = length (en_layers en)
    \<and> (\<forall>i<length (en_layers en). \<forall>source. t < en_capacity en \<longrightarrow>
       bt_get (slot_of (en_layers en' ! i)) source
         = opt_filter (\<lambda>slot. slot < t) (bt_get (slot_of (en_layers en ! i)) source))"
  proof (cases "t = en_capacity en")
    case True
    with r wf show ?thesis by (auto simp: shrink_expert_capacity_def)
  next
    case False
    with r obtain plans where p: "shrink_plan env t en = Inr (rep, plans)"
      and en': "en' = en \<lparr> en_layers := map2 (\<lambda>plan pool. commit_release (fst plan) t pool)
             plans (en_layers en), en_capacity := t \<rparr>"
      by (auto simp: shrink_expert_capacity_def split: sum.splits prod.splits)
    from p obtain x y where lt: "t < en_capacity en"
      and f: "try_fold (release_layer env t) (0, 0, []) (enumerate 0 (en_layers en)) = Inr (x, y, plans)"
      and rep: "cr_old_capacity rep = en_capacity en" "cr_new_capacity rep = t"
      by (auto simp: shrink_plan_def result_simps)
    have pl: "length plans = length (en_layers en)"
      "\<And>i. i < length (en_layers en) \<Longrightarrow> prepare_release_suffix (ee_pool env i) t (en_layers en ! i) = Inr (plans ! i)"
      using release_layers_Inr [OF f] by auto
    have l: "pool_wf (content i) (en_layers en' ! i) \<and> e_capacity (en_layers en' ! i) = t
        \<and> num_experts (en_layers en' ! i) = 512
        \<and> (\<forall>source. bt_get (slot_of (en_layers en' ! i)) source
         = opt_filter (\<lambda>slot. slot < t) (bt_get (slot_of (en_layers en ! i)) source))"
      if i: "i < length (en_layers en)" for i
    proof -
      have w: "pool_wf (content i) (en_layers en ! i)" "num_experts (en_layers en ! i) = 512"
        using wf i by (simp_all add: engine_wf_def)
      have g: "prepare_release_suffix (ee_pool env i) t (en_layers en ! i) = Inr (fst (plans ! i), snd (plans ! i))"
        using pl(2) [OF i] by simp
      note c = commit_release_wf [OF w(1) g]
      have e: "en_layers en' ! i = commit_release (fst (plans ! i)) t (en_layers en ! i)"
        using i pl(1) by (simp add: en')
      show ?thesis using c(1,6) w(2) unfolding e by (simp add: commit_release_def)
    qed
    have "length (en_layers en') = length (en_layers en)" using pl(1) by (simp add: en')
    with l rep lt show ?thesis by (simp add: engine_wf_def en')
  qed
  then show "engine_wf content en'" "en_capacity en' = t" "cr_old_capacity rep = en_capacity en"
    "cr_new_capacity rep = t" "t \<le> en_capacity en" "en_workspace_ready en' = en_workspace_ready en"
    "length (en_layers en') = length (en_layers en)"
    "i < length (en_layers en) \<Longrightarrow> t < en_capacity en \<Longrightarrow>
       bt_get (slot_of (en_layers en' ! i)) source
         = opt_filter (\<lambda>slot. slot < t) (bt_get (slot_of (en_layers en ! i)) source)" by blast+
qed

lemma recover_expert_capacity_Inl:
  "recover_expert_capacity env t b en = (Inl e, en') \<Longrightarrow> en' = en"
  by (auto simp: recover_expert_capacity_def split: if_splits sum.splits prod.splits)

lemma shrink_expert_capacity_Inl:
  "shrink_expert_capacity env t en = (Inl e, en') \<Longrightarrow> en' = en"
  by (auto simp: shrink_expert_capacity_def split: if_splits sum.splits prod.splits)

end
