(* ===== verification/Adaptive_Controller.thy ===== *)
theory Adaptive_Controller
  imports Adaptive_Invariants Memory_Envelope Expert_Capacity
begin

text \<open>
  \<open>Controller\<close> of \<open>src/adaptive_memory.rs\<close>: the policy, the admitted control budget and the count of
  pressure releases, driven at the owner's serialized boundaries. The engine is used through four
  operations only; the locale \<open>capacity_engine\<close> states what the controller relies on, its lemmas are
  proved once there, and it is interpreted on the engine of \<open>Expert_Capacity\<close>. The clock reading and
  the sampled observation are arguments.
\<close>

section \<open>The controller\<close>

record 'e engine_ops =
  op_capacity :: "'e \<Rightarrow> nat"
  op_ready :: "'e \<Rightarrow> bool"
  op_recover :: "nat \<Rightarrow> nat \<Rightarrow> ('e, recovery_report) stateful"
  op_shrink :: "nat \<Rightarrow> ('e, capacity_release) stateful"

record controller =
  c_budget :: capacity_control_budget
  c_policy :: policy
  c_release_epoch :: nat

definition controller_new :: "capacity_control_budget \<Rightarrow> controller result" where
  "controller_new b =
     ensure (MIN_CAPACITY \<le> b_initial_capacity b \<and> b_initial_capacity b < 512)
       ''adaptive memory requires an initially bounded expert pool of at least 64 slots''
     (bindr (policy_new (b_initial_capacity b) (b_maximum_capacity b)) (\<lambda>p.
      Inr \<lparr> c_budget = b, c_policy = p, c_release_epoch = 0 \<rparr>))"

definition controller_try_begin_workspace_phase ::
    "'e engine_ops \<Rightarrow> 'e \<Rightarrow> nat \<Rightarrow> controller \<Rightarrow> (bool \<times> controller) result" where
  "controller_try_begin_workspace_phase ops e target c =
     bindr (try_begin_workspace_phase (op_capacity ops e) target (c_release_epoch c) (c_policy c)) (\<lambda>(b, p).
     Inr (b, c \<lparr> c_policy := p \<rparr>))"

definition controller_sync ::
    "'e engine_ops \<Rightarrow> duration \<Rightarrow> 'e \<Rightarrow> controller \<Rightarrow> controller result" where
  "controller_sync ops now e c =
     bindr (sync_planned_workspace_capacity now (op_capacity ops e) (c_policy c)) (\<lambda>p.
     Inr (c \<lparr> c_policy := p \<rparr>))"

text \<open>\<open>budget.preparation_budget_bytes(..).and_then(|bytes| engine.recover(..))\<close>.\<close>

definition prepared_recovery ::
    "'e engine_ops \<Rightarrow> capacity_control_budget \<Rightarrow> nat \<Rightarrow> nat \<Rightarrow> ('e, recovery_report) stateful" where
  "prepared_recovery ops b current target =
     m_bind (m_lift (preparation_budget_bytes b current target)) (\<lambda>bytes. op_recover ops target bytes)"

definition restore_planned ::
    "'e engine_ops \<Rightarrow> duration \<Rightarrow> nat \<Rightarrow> controller \<times> 'e \<Rightarrow> bool result \<times> controller \<times> 'e" where
  "restore_planned ops now ordinary s =
     (case prepared_recovery ops (c_budget (fst s)) (op_capacity ops (snd s)) ordinary (snd s) of
        (Inr report, e) \<Rightarrow>
          (case sync_planned_workspace_capacity now (er_new_capacity report) (c_policy (fst s)) of
             Inl m \<Rightarrow> (Inl m, fst s, e)
           | Inr p \<Rightarrow> (Inr (er_old_capacity report \<noteq> er_new_capacity report),
                      (fst s) \<lparr> c_policy := p \<rparr>, e))
      | (Inl m, e) \<Rightarrow>
          (Inr False, (fst s) \<lparr> c_policy := recovery_failed now (c_policy (fst s)) \<rparr>, e))"

definition controller_finish_workspace_phase ::
    "'e engine_ops \<Rightarrow> duration \<Rightarrow> (controller \<times> 'e, bool) stateful" where
  "controller_finish_workspace_phase ops now s =
     (case workspace_phase (c_policy (fst s)) of
        None \<Rightarrow> (Inr False, s)
      | Some phase \<Rightarrow>
          if \<not> op_ready ops (snd s) then (Inl ''ordinary prefill workspace is unavailable'', s)
          else case controller_sync ops now (snd s) (fst s) of
            Inl m \<Rightarrow> (Inl m, s)
          | Inr c \<Rightarrow>
              (case (if workspace_restoration_allowed now (c_release_epoch c) (c_policy c)
                     then restore_planned ops now (ordinary_capacity phase) (c, snd s)
                     else (Inr False, c, snd s)) of
                 (Inl m, s') \<Rightarrow> (Inl m, s')
               | (Inr changed, c', e') \<Rightarrow>
                   (Inr changed, c' \<lparr> c_policy := finish_workspace_phase (c_policy c') \<rparr>, e')))"

definition controller_begin_request :: "duration \<Rightarrow> controller \<Rightarrow> controller" where
  "controller_begin_request now c = c \<lparr> c_policy := begin_request now (c_policy c) \<rparr>"

definition controller_end_request :: "duration \<Rightarrow> bool \<Rightarrow> controller \<Rightarrow> controller" where
  "controller_end_request now completed c = c \<lparr> c_policy := end_request now completed (c_policy c) \<rparr>"

definition release_capacity ::
    "'e engine_ops \<Rightarrow> nat \<Rightarrow> action \<Rightarrow> duration \<Rightarrow> (controller \<times> 'e, bool) stateful" where
  "release_capacity ops target act now s =
     (case op_shrink ops target (snd s) of
        (Inl m, e) \<Rightarrow> (Inl m, fst s, e)
      | (Inr report, e) \<Rightarrow>
          let c = fst s;
              p = (case act of Rollback _ \<Rightarrow> pressure_interrupted_work now (c_policy c)
                   | ChurnRelease _ \<Rightarrow> interrupted_work now True (c_policy c) | _ \<Rightarrow> c_policy c)
          in (Inr True, c \<lparr> c_release_epoch := c_release_epoch c + 1,
                c_policy := capacity_changed now (cr_old_capacity report) (cr_new_capacity report) p \<rparr>, e))"

definition recover_capacity ::
    "'e engine_ops \<Rightarrow> nat \<Rightarrow> nat \<Rightarrow> duration \<Rightarrow> (controller \<times> 'e, bool) stateful" where
  "recover_capacity ops capacity target now s =
     (case prepared_recovery ops (c_budget (fst s)) capacity target (snd s) of
        (Inr report, e) \<Rightarrow>
          (Inr True, (fst s) \<lparr> c_policy := capacity_changed now (er_old_capacity report)
             (er_new_capacity report) (c_policy (fst s)) \<rparr>, e)
      | (Inl m, e) \<Rightarrow>
          (Inr False, (fst s) \<lparr> c_policy := recovery_failed now (c_policy (fst s)) \<rparr>, e))"

definition apply_action ::
    "'e engine_ops \<Rightarrow> nat \<Rightarrow> action \<Rightarrow> duration \<Rightarrow> (controller \<times> 'e, bool) stateful" where
  "apply_action ops capacity act now s =
     (case act of
        Hold \<Rightarrow> (Inr False, s)
      | Stop \<Rightarrow> (Inl ''adaptive memory: critical pressure persists at the 64-slot expert floor'', s)
      | Release target \<Rightarrow> release_capacity ops target act now s
      | Rollback target \<Rightarrow> release_capacity ops target act now s
      | ChurnRelease target \<Rightarrow> release_capacity ops target act now s
      | Recover target \<Rightarrow> recover_capacity ops capacity target now s)"

definition apply_observation ::
    "'e engine_ops \<Rightarrow> boundary \<Rightarrow> duration \<Rightarrow> observation \<Rightarrow> (controller \<times> 'e, bool) stateful" where
  "apply_observation ops b now obs s =
     (let c = fst s; capacity = op_capacity ops (snd s) in
      if \<not> (MIN_CAPACITY \<le> capacity \<and> capacity \<le> maximum_capacity (c_policy c))
      then (Inl ''adaptive memory observed an expert capacity outside its operating extent'', s)
      else
        case observe now capacity b obs (c_policy c) of
          (Some act, p) \<Rightarrow> apply_action ops capacity act now (c \<lparr> c_policy := p \<rparr>, snd s)
        | (None, p) \<Rightarrow> apply_action ops capacity (cached_action now capacity p) now (c \<lparr> c_policy := p \<rparr>, snd s))"

text \<open>The counters are sampled only when a sample is due.\<close>

definition check_boundary ::
    "'e engine_ops \<Rightarrow> boundary \<Rightarrow> duration \<Rightarrow> observation \<Rightarrow> (controller \<times> 'e, bool) stateful" where
  "check_boundary ops b now sampled s =
     apply_observation ops b now
       (if sample_due now (c_policy (fst s)) then sampled else \<lparr> obs_pressure = None, obs_counters = None \<rparr>) s"

section \<open>What the controller relies on\<close>

locale capacity_engine =
  fixes engine_inv :: "'e \<Rightarrow> bool" and ops :: "'e engine_ops"
  assumes recover_ok: "engine_inv e \<Longrightarrow> op_recover ops t b e = (Inr r, e') \<Longrightarrow>
      engine_inv e' \<and> op_capacity ops e' = t \<and> er_old_capacity r = op_capacity ops e \<and> er_new_capacity r = t
      \<and> op_capacity ops e \<le> t \<and> op_ready ops e' = op_ready ops e"
    and recover_err: "op_recover ops t b e = (Inl m, e') \<Longrightarrow> e' = e"
    and shrink_ok: "engine_inv e \<Longrightarrow> op_shrink ops t e = (Inr q, e') \<Longrightarrow>
      engine_inv e' \<and> op_capacity ops e' = t \<and> cr_old_capacity q = op_capacity ops e \<and> cr_new_capacity q = t
      \<and> t \<le> op_capacity ops e \<and> op_ready ops e' = op_ready ops e"
    and shrink_err: "op_shrink ops t e = (Inl m, e') \<Longrightarrow> e' = e"

text \<open>The policy knows the engine's capacity, and both stay inside the budget's extent.\<close>

definition controller_wf :: "nat \<Rightarrow> controller \<Rightarrow> bool" where
  "controller_wf capacity c \<longleftrightarrow> policy_wf (c_policy c) \<and> p_capacity (c_policy c) = capacity
     \<and> maximum_capacity (c_policy c) = b_maximum_capacity (c_budget c)"

lemma controller_new_wf: "controller_new b = Inr c \<Longrightarrow> controller_wf (b_initial_capacity b) c"
proof -
  assume "controller_new b = Inr c"
  then obtain p where p: "policy_new (b_initial_capacity b) (b_maximum_capacity b) = Inr p"
    and c: "c = \<lparr> c_budget = b, c_policy = p, c_release_epoch = 0 \<rparr>"
    by (auto simp: controller_new_def result_simps)
  have "p = policy_init (b_initial_capacity b) (b_maximum_capacity b)"
    using p by (auto simp: policy_new_def result_simps)
  then have "p_capacity p = b_initial_capacity b" "maximum_capacity p = b_maximum_capacity b"
    by (simp_all add: policy_init_def)
  with policy_new_wf [OF p] show ?thesis by (simp add: controller_wf_def c)
qed

lemma interrupted_work_keeps: "policy_wf p \<Longrightarrow> policy_wf (pressure_interrupted_work now p)"
  by (simp add: pressure_interrupted_work_def interrupted_work_wf)

lemma recovery_failed_frame [simp]:
  "p_capacity (recovery_failed now p) = p_capacity p"
  "maximum_capacity (recovery_failed now p) = maximum_capacity p"
  "workspace_phase (recovery_failed now p) = workspace_phase p"
  by (simp_all add: recovery_failed_def double_retry_def Let_def)

context capacity_engine
begin

lemma prepared_recovery_cases:
  assumes "engine_inv e" "prepared_recovery ops b cur t e = (r, e')"
  shows "(\<exists>m. r = Inl m \<and> e' = e)
    \<or> (\<exists>q n. r = Inr q \<and> preparation_budget_bytes b cur t = Inr n \<and> engine_inv e' \<and> op_capacity ops e' = t
        \<and> er_old_capacity q = op_capacity ops e \<and> er_new_capacity q = t \<and> op_capacity ops e \<le> t
        \<and> op_ready ops e' = op_ready ops e)"
proof (cases "preparation_budget_bytes b cur t")
  case (Inl m)
  with assms(2) show ?thesis by (auto simp: prepared_recovery_def m_bind_def)
next
  case (Inr n)
  with assms(2) have "op_recover ops t n e = (r, e')" by (simp add: prepared_recovery_def m_bind_def)
  then show ?thesis
  proof (cases r)
    case (Inl m)
    with \<open>op_recover ops t n e = (r, e')\<close> show ?thesis using recover_err by blast
  next
    case (Inr q)
    with \<open>op_recover ops t n e = (r, e')\<close> have "op_recover ops t n e = (Inr q, e')" by simp
    from recover_ok [OF assms(1) this] Inr \<open>preparation_budget_bytes b cur t = Inr n\<close> show ?thesis by blast
  qed
qed

lemma release_capacity_wf:
  assumes "engine_inv e" "controller_wf (op_capacity ops e) c" "MIN_CAPACITY \<le> t" "t \<le> op_capacity ops e"
    and "release_capacity ops t act now (c, e) = (r, c', e')"
  shows "engine_inv e' \<and> controller_wf (op_capacity ops e') c' \<and> op_ready ops e' = op_ready ops e
    \<and> (r = Inr True \<longrightarrow> op_capacity ops e' = t)"
proof -
  obtain res x where s: "op_shrink ops t e = (res, x)" by fastforce
  show ?thesis
  proof (cases res)
    case (Inl m)
    with s have "x = e" using shrink_err by simp
    with assms s Inl show ?thesis by (auto simp: release_capacity_def)
  next
    case (Inr q)
    note k = shrink_ok [OF assms(1) s [unfolded Inr]]
    define p where "p = (case act of Rollback _ \<Rightarrow> pressure_interrupted_work now (c_policy c)
       | ChurnRelease _ \<Rightarrow> interrupted_work now True (c_policy c) | _ \<Rightarrow> c_policy c)"
    have p: "policy_wf p" "p_capacity p = op_capacity ops e" "maximum_capacity p = maximum_capacity (c_policy c)"
      using assms(2) by (cases act; simp add: p_def controller_wf_def interrupted_work_keeps
          interrupted_work_wf pressure_interrupted_work_def)+
    have m: "op_capacity ops e \<le> maximum_capacity p" using p(1,2) by (simp add: policy_wf_def extent_wf_def)
    have w: "policy_wf (capacity_changed now (op_capacity ops e) t p)"
      by (rule capacity_changed_wf) (use p m assms in simp_all)
    have "c' = c \<lparr> c_release_epoch := c_release_epoch c + 1,
        c_policy := capacity_changed now (op_capacity ops e) t p \<rparr>" "e' = x" "r = Inr True"
      using assms(5) s Inr k by (auto simp: release_capacity_def Let_def p_def)
    with w k p assms(2) show ?thesis
      by (simp add: controller_wf_def capacity_changed_fields)
  qed
qed

lemma recover_capacity_wf:
  assumes "engine_inv e" "controller_wf (op_capacity ops e) c" "t \<le> maximum_capacity (c_policy c)"
    and "MIN_CAPACITY \<le> t" "workspace_phase (c_policy c) = None"
    and "recover_capacity ops (op_capacity ops e) t now (c, e) = (r, c', e')"
  shows "engine_inv e' \<and> controller_wf (op_capacity ops e') c' \<and> op_ready ops e' = op_ready ops e
    \<and> (r = Inr True \<longrightarrow> op_capacity ops e' = t \<and> (\<exists>n. preparation_budget_bytes (c_budget c) (op_capacity ops e) t = Inr n))
    \<and> (r \<noteq> Inr True \<longrightarrow> e' = e)"
proof -
  obtain res x where s: "prepared_recovery ops (c_budget c) (op_capacity ops e) t e = (res, x)" by fastforce
  have w: "policy_wf (c_policy c)" "p_capacity (c_policy c) = op_capacity ops e"
    "maximum_capacity (c_policy c) = b_maximum_capacity (c_budget c)"
    using assms(2) by (simp_all add: controller_wf_def)
  from prepared_recovery_cases [OF assms(1) s] show ?thesis
  proof (elim disjE exE conjE)
    fix m assume "res = Inl m" "x = e"
    with assms(1,6) s w show ?thesis
      by (auto simp: recover_capacity_def controller_wf_def recovery_failed_wf)
  next
    fix q n assume a: "res = Inr q" "preparation_budget_bytes (c_budget c) (op_capacity ops e) t = Inr n"
      "engine_inv x" "op_capacity ops x = t" "er_old_capacity q = op_capacity ops e" "er_new_capacity q = t"
      "op_ready ops x = op_ready ops e"
    have "policy_wf (capacity_changed now (op_capacity ops e) t (c_policy c))"
      by (rule capacity_changed_wf) (use w assms in simp_all)
    with assms(6) s a w show ?thesis
      by (auto simp: recover_capacity_def controller_wf_def capacity_changed_fields)
  qed
qed

lemma apply_action_wf:
  assumes "engine_inv e" "controller_wf (op_capacity ops e) c" "action_ok (c_policy c) (op_capacity ops e) act"
    and "apply_action ops (op_capacity ops e) act now (c, e) = (r, c', e')"
  shows "engine_inv e' \<and> controller_wf (op_capacity ops e') c' \<and> op_ready ops e' = op_ready ops e"
proof (cases act)
  case (Recover t)
  have "MIN_CAPACITY \<le> op_capacity ops e" using assms(2) by (simp add: controller_wf_def policy_wf_def extent_wf_def)
  with Recover assms recover_capacity_wf [OF assms(1,2), of t now r c' e'] show ?thesis
    by (auto simp: apply_action_def action_ok_def)
qed (use assms release_capacity_wf [OF assms(1,2), of _ act now r c' e'] in
  \<open>auto simp: apply_action_def action_ok_def\<close>)

end

text \<open>The policy's action, fresh or cached, as one function of the sampled observation.\<close>

definition chosen_action :: "duration \<Rightarrow> nat \<Rightarrow> boundary \<Rightarrow> observation \<Rightarrow> policy \<Rightarrow> action \<times> policy" where
  "chosen_action now capacity b obs p =
     (case observe now capacity b obs p of
        (Some act, q) \<Rightarrow> (act, q) | (None, q) \<Rightarrow> (cached_action now capacity q, q))"

lemma apply_observation_eq:
  assumes "controller_wf (op_capacity ops e) c"
  shows "apply_observation ops b now obs (c, e) =
     (case chosen_action now (op_capacity ops e) b obs (c_policy c) of (act, p) \<Rightarrow>
        apply_action ops (op_capacity ops e) act now (c \<lparr> c_policy := p \<rparr>, e))"
  using assms
  by (auto simp: apply_observation_def chosen_action_def controller_wf_def policy_wf_def extent_wf_def Let_def
      split: prod.splits option.splits)

lemma chosen_action_ok:
  assumes "controller_wf cap c" "chosen_action now cap b obs (c_policy c) = (act, p)"
  shows "action_ok p cap act" and "controller_wf cap (c \<lparr> c_policy := p \<rparr>)"
    and "workspace_phase p = workspace_phase (c_policy c)"
proof -
  have w: "policy_wf (c_policy c)" "p_capacity (c_policy c) = cap" using assms(1) by (simp_all add: controller_wf_def)
  obtain x q where o: "observe now cap b obs (c_policy c) = (x, q)" by fastforce
  have q: "q = p" using assms(2) o by (auto simp: chosen_action_def split: option.splits)
  note fr = observe_frame [OF w(2), of now b obs, unfolded o q snd_conv]
  have pw: "policy_wf p" using observe_wf [OF w, of now b obs] o q by simp
  show "controller_wf cap (c \<lparr> c_policy := p \<rparr>)" using pw fr assms(1) by (simp add: controller_wf_def)
  show "workspace_phase p = workspace_phase (c_policy c)" by (rule fr)
  show "action_ok p cap act"
  proof (cases x)
    case None
    with assms(2) o q have "act = cached_action now cap p" by (simp add: chosen_action_def)
    with cached_actions_in_range [OF pw] fr(3) w(2) show ?thesis by simp
  next
    case (Some a)
    with assms(2) o have "act = a" by (simp add: chosen_action_def)
    with observe_actions_in_range [OF w, of now b obs a p] o Some q fr show ?thesis
      by (simp add: action_ok_cong [of p "c_policy c"])
  qed
qed

context capacity_engine
begin

lemma apply_observation_wf:
  assumes "engine_inv e" "controller_wf (op_capacity ops e) c"
    and "apply_observation ops b now obs (c, e) = (r, c', e')"
  shows "engine_inv e' \<and> controller_wf (op_capacity ops e') c' \<and> op_ready ops e' = op_ready ops e"
proof -
  obtain act p where a: "chosen_action now (op_capacity ops e) b obs (c_policy c) = (act, p)" by fastforce
  note k = chosen_action_ok [OF assms(2) a]
  have "apply_action ops (op_capacity ops e) act now (c \<lparr> c_policy := p \<rparr>, e) = (r, c', e')"
    using assms(3) by (simp add: apply_observation_eq [OF assms(2)] a)
  from apply_action_wf [OF assms(1) k(2) _ this] k(1) show ?thesis by simp
qed

end


text \<open>Planned changes during a workspace phase.\<close>

lemma sync_planned_frame:
  assumes "sync_planned_workspace_capacity now cap p = Inr q"
  shows "p_capacity q = cap" "maximum_capacity q = maximum_capacity p" "workspace_phase q = workspace_phase p"
  using assms by (auto simp: sync_planned_workspace_capacity_def result_simps Let_def
      clear_workspace_validation_def clear_capacity_validation_def split: if_splits)

lemma sync_planned_accepts:
  "workspace_phase p = Some ph \<Longrightarrow> MIN_CAPACITY \<le> cap \<Longrightarrow> cap \<le> ordinary_capacity ph \<Longrightarrow>
     \<exists>q. sync_planned_workspace_capacity now cap p = Inr q"
  by (simp add: sync_planned_workspace_capacity_def)

lemma finish_workspace_frame [simp]:
  "p_capacity (finish_workspace_phase p) = p_capacity p"
  "maximum_capacity (finish_workspace_phase p) = maximum_capacity p"
  "workspace_phase (finish_workspace_phase p) = None"
  by (auto simp: finish_workspace_phase_def Let_def clear_workspace_validation_def
      clear_capacity_validation_def split: option.splits)

lemma request_frame [simp]:
  "p_capacity (begin_request now p) = p_capacity p" "maximum_capacity (begin_request now p) = maximum_capacity p"
  by (simp_all add: begin_request_def)

lemma end_request_frame [simp]:
  "p_capacity (end_request now ok p) = p_capacity p" "maximum_capacity (end_request now ok p) = maximum_capacity p"
  by (simp_all add: end_request_def Let_def accept_completed_def accept_validated_def split: option.splits)

lemma controller_request_wf:
  "controller_wf cap c \<Longrightarrow> controller_wf cap (controller_begin_request now c)"
  "controller_wf cap c \<Longrightarrow> controller_wf cap (controller_end_request now ok c)"
  by (simp_all add: controller_wf_def controller_begin_request_def controller_end_request_def
      begin_request_wf end_request_wf)

lemma try_begin_wf:
  assumes "controller_wf (op_capacity ops e) c"
    and "controller_try_begin_workspace_phase ops e target c = Inr (b, c')"
  shows "controller_wf (op_capacity ops e) c'"
proof -
  obtain p where p: "try_begin_workspace_phase (op_capacity ops e) target (c_release_epoch c) (c_policy c) = Inr (b, p)"
    and c': "c' = c \<lparr> c_policy := p \<rparr>"
    using assms(2) by (auto simp: controller_try_begin_workspace_phase_def result_simps)
  have cap: "op_capacity ops e = p_capacity (c_policy c)" using assms(1) by (simp add: controller_wf_def)
  have "policy_wf p" by (rule try_begin_workspace_phase_wf [OF p _ cap]) (use assms(1) in \<open>simp add: controller_wf_def\<close>)
  moreover have "p_capacity p = op_capacity ops e" "maximum_capacity p = maximum_capacity (c_policy c)"
    using p assms(1) by (auto simp: try_begin_workspace_phase_def result_simps Let_def controller_wf_def split: if_splits)
  ultimately show ?thesis using assms(1) by (simp add: controller_wf_def c')
qed

lemma controller_sync_wf:
  assumes "policy_wf (c_policy c)" "maximum_capacity (c_policy c) = b_maximum_capacity (c_budget c)"
    and "controller_sync ops now e c = Inr c'"
  shows "controller_wf (op_capacity ops e) c'" and "workspace_phase (c_policy c') = workspace_phase (c_policy c)"
    and "c_release_epoch c' = c_release_epoch c"
  using assms sync_planned_frame sync_planned_wf
  by (fastforce simp: controller_sync_def result_simps controller_wf_def)+

context capacity_engine
begin

lemma restore_planned_wf:
  assumes "engine_inv e" and w: "controller_wf (op_capacity ops e) c"
    and ph: "workspace_phase (c_policy c) = Some phase"
    and r: "restore_planned ops now (ordinary_capacity phase) (c, e) = (r, c', e')"
  shows "engine_inv e' \<and> controller_wf (op_capacity ops e') c' \<and> op_ready ops e' = op_ready ops e
    \<and> r \<in> {Inr True, Inr False}"
proof -
  let ?t = "ordinary_capacity phase"
  have pw: "policy_wf (c_policy c)" "p_capacity (c_policy c) = op_capacity ops e" using w by (simp_all add: controller_wf_def)
  then have t: "MIN_CAPACITY \<le> ?t" using ph by (simp add: policy_wf_def extent_wf_def)
  obtain res x where s: "prepared_recovery ops (c_budget c) (op_capacity ops e) ?t e = (res, x)" by fastforce
  from prepared_recovery_cases [OF assms(1) s] show ?thesis
  proof (elim disjE exE conjE)
    fix m assume "res = Inl m" "x = e"
    with assms(1) s w r show ?thesis by (auto simp: restore_planned_def controller_wf_def recovery_failed_wf)
  next
    fix q n assume a: "res = Inr q" "engine_inv x" "op_capacity ops x = ?t" "er_new_capacity q = ?t"
      "op_ready ops x = op_ready ops e"
    obtain p where p: "sync_planned_workspace_capacity now ?t (c_policy c) = Inr p"
      using sync_planned_accepts [OF ph t order_refl] by blast
    from sync_planned_frame [OF p] sync_planned_wf [OF p pw(1)] a r s p w show ?thesis
      by (auto simp: restore_planned_def controller_wf_def)
  qed
qed

lemma finish_workspace_phase_controller_wf:
  assumes "engine_inv e" and w: "controller_wf (op_capacity ops e) c"
    and r: "controller_finish_workspace_phase ops now (c, e) = (r, c', e')"
  shows "engine_inv e' \<and> controller_wf (op_capacity ops e') c' \<and> op_ready ops e' = op_ready ops e"
proof (cases "workspace_phase (c_policy c)")
  case None
  with r assms show ?thesis by (simp add: controller_finish_workspace_phase_def)
next
  case (Some phase)
  show ?thesis
  proof (cases "op_ready ops e")
    case False
    with r assms Some show ?thesis by (simp add: controller_finish_workspace_phase_def)
  next
    case True
    show ?thesis
    proof (cases "controller_sync ops now e c")
      case (Inl m)
      with r assms Some True show ?thesis by (simp add: controller_finish_workspace_phase_def)
    next
      case (Inr d)
      have d: "controller_wf (op_capacity ops e) d" "workspace_phase (c_policy d) = Some phase"
        using controller_sync_wf [OF _ _ Inr] w Some by (simp_all add: controller_wf_def)
      obtain res f x where s: "(if workspace_restoration_allowed now (c_release_epoch d) (c_policy d)
          then restore_planned ops now (ordinary_capacity phase) (d, e) else (Inr False, d, e)) = (res, f, x)"
        by (metis prod_cases3)
      have k: "engine_inv x \<and> controller_wf (op_capacity ops x) f \<and> op_ready ops x = op_ready ops e
          \<and> res \<in> {Inr True, Inr False}"
        using s restore_planned_wf [OF assms(1) d] assms(1) d(1) by (auto split: if_splits)
      obtain changed where res: "res = Inr changed" using k by auto
      from r [unfolded controller_finish_workspace_phase_def fst_conv snd_conv] Some True Inr s res
      have "c' = f \<lparr> c_policy := finish_workspace_phase (c_policy f) \<rparr>" "e' = x"
        by simp_all
      with k show ?thesis by (simp add: controller_wf_def finish_workspace_phase_wf)
    qed
  qed
qed

end

section \<open>The controller on the engine\<close>

definition engine_ops_of :: "'r engine_env \<Rightarrow> 'r engine engine_ops" where
  "engine_ops_of env = \<lparr> op_capacity = en_capacity, op_ready = en_workspace_ready,
     op_recover = recover_expert_capacity env, op_shrink = shrink_expert_capacity env \<rparr>"

interpretation ce: capacity_engine "engine_wf content" "engine_ops_of env" for content env
proof unfold_locales
  fix e t b r e' assume "engine_wf content e" "op_recover (engine_ops_of env) t b e = (Inr r, e')"
  with recover_expert_capacity_Inr(1-6) [of content e env t b r e']
  show "engine_wf content e' \<and> op_capacity (engine_ops_of env) e' = t
      \<and> er_old_capacity r = op_capacity (engine_ops_of env) e \<and> er_new_capacity r = t
      \<and> op_capacity (engine_ops_of env) e \<le> t
      \<and> op_ready (engine_ops_of env) e' = op_ready (engine_ops_of env) e"
    by (simp add: engine_ops_of_def)
next
  fix t b e m e' assume "op_recover (engine_ops_of env) t b e = (Inl m, e')"
  then show "e' = e" using recover_expert_capacity_Inl by (fastforce simp: engine_ops_of_def)
next
  fix e t q e' assume "engine_wf content e" "op_shrink (engine_ops_of env) t e = (Inr q, e')"
  with shrink_expert_capacity_Inr(1-6) [of content e env t q e']
  show "engine_wf content e' \<and> op_capacity (engine_ops_of env) e' = t
      \<and> cr_old_capacity q = op_capacity (engine_ops_of env) e \<and> cr_new_capacity q = t
      \<and> t \<le> op_capacity (engine_ops_of env) e
      \<and> op_ready (engine_ops_of env) e' = op_ready (engine_ops_of env) e"
    by (simp add: engine_ops_of_def)
next
  fix t e m e' assume "op_shrink (engine_ops_of env) t e = (Inl m, e')"
  then show "e' = e" using shrink_expert_capacity_Inl by (fastforce simp: engine_ops_of_def)
qed

text \<open>A serving process: polls at boundaries, requests, and workspace phases whose planned resizes are
  recorded, each with the environment of its moment.\<close>

inductive serving :: "(nat \<Rightarrow> nat \<Rightarrow> 'r) \<Rightarrow> controller \<times> 'r engine \<Rightarrow> controller \<times> 'r engine \<Rightarrow> bool" for content where
  start: "serving content s s"
| poll: "serving content s t \<Longrightarrow> check_boundary (engine_ops_of env) b now obs t = (r, u) \<Longrightarrow> serving content s u"
| request: "serving content s (c, e) \<Longrightarrow> serving content s (controller_begin_request now c, e)"
| request_end: "serving content s (c, e) \<Longrightarrow> serving content s (controller_end_request now ok c, e)"
| phase: "serving content s (c, e) \<Longrightarrow>
    controller_try_begin_workspace_phase (engine_ops_of env) e target c = Inr (b, c') \<Longrightarrow> serving content s (c', e)"
| planned_release: "serving content s (c, e) \<Longrightarrow> shrink_expert_capacity env target e = (Inr q, e') \<Longrightarrow>
    controller_sync (engine_ops_of env) now e' c = Inr c' \<Longrightarrow> serving content s (c', e')"
| planned_growth: "serving content s (c, e) \<Longrightarrow> recover_expert_capacity env target bytes e = (Inr q, e') \<Longrightarrow>
    controller_sync (engine_ops_of env) now e' c = Inr c' \<Longrightarrow> serving content s (c', e')"
| finish: "serving content s t \<Longrightarrow> controller_finish_workspace_phase (engine_ops_of env) now t = (r, u)
    \<Longrightarrow> serving content s u"

definition serving_wf :: "(nat \<Rightarrow> nat \<Rightarrow> 'r) \<Rightarrow> controller \<times> 'r engine \<Rightarrow> bool" where
  "serving_wf content s \<longleftrightarrow> engine_wf content (snd s) \<and> controller_wf (en_capacity (snd s)) (fst s)"

lemma engine_ops_simps [simp]:
  "op_capacity (engine_ops_of env) = en_capacity" "op_ready (engine_ops_of env) = en_workspace_ready"
  by (simp_all add: engine_ops_of_def)

lemma serving_invariant: "serving content s t \<Longrightarrow> serving_wf content s \<Longrightarrow> serving_wf content t"
proof (induction rule: serving.induct)
  case (poll s t env b now obs r u)
  obtain c e c' e' where "t = (c, e)" "u = (c', e')" by (metis prod.exhaust)
  with poll ce.apply_observation_wf [of content e env c b now _ r c' e'] show ?case
    by (auto simp: serving_wf_def check_boundary_def)
next
  case (phase s c e env target b c')
  from try_begin_wf [OF _ phase(2)] phase show ?case by (simp add: serving_wf_def)
next
  case (planned_release s c e env target q e' now c')
  from shrink_expert_capacity_Inr(1,2) [OF _ planned_release(2)] controller_sync_wf(1) [OF _ _ planned_release(3)] planned_release
  show ?case by (simp add: serving_wf_def controller_wf_def)
next
  case (planned_growth s c e env target bytes q e' now c')
  from recover_expert_capacity_Inr(1,2) [OF _ planned_growth(2)] controller_sync_wf(1) [OF _ _ planned_growth(3)] planned_growth
  show ?case by (simp add: serving_wf_def controller_wf_def)
next
  case (finish s t env now r u)
  obtain c e c' e' where "t = (c, e)" "u = (c', e')" by (metis prod.exhaust)
  with finish ce.finish_workspace_phase_controller_wf [of content e env c now r c' e'] show ?case
    by (auto simp: serving_wf_def)
qed (simp_all add: serving_wf_def controller_request_wf)

end
