(* ===== verification/Adaptive_Serving.thy ===== *)
theory Adaptive_Serving
  imports Adaptive_Controller
begin

text \<open>
  How the controller of \<open>src/adaptive_memory.rs\<close> evolves along a serving process: its budget is never
  replaced, pressure releases are only counted up, and the earned target never drops. Each
  operation of \<open>Controller\<close> is shown to keep the relation \<open>evolves\<close>, and so does \<open>serving\<close>.
\<close>

section \<open>What a serving process never takes back\<close>

definition evolves :: "controller \<Rightarrow> controller \<Rightarrow> bool" where
  "evolves c d \<longleftrightarrow> c_budget d = c_budget c \<and> c_release_epoch c \<le> c_release_epoch d
     \<and> unwrap_or 0 (earned_target (c_policy c)) \<le> unwrap_or 0 (earned_target (c_policy d))"

lemma evolves_refl [simp, intro]: "evolves c c" by (simp add: evolves_def)

lemma evolves_trans: "evolves c d \<Longrightarrow> evolves d f \<Longrightarrow> evolves c f"
  by (auto simp: evolves_def)

lemma evolves_policy:
  "earned_target p = earned_target (c_policy c) \<Longrightarrow> evolves c (c \<lparr> c_policy := p \<rparr>)"
  by (simp add: evolves_def)

lemma recovery_failed_earned [simp]: "earned_target (recovery_failed now p) = earned_target p"
  by (simp add: recovery_failed_def double_retry_def Let_def)

lemma pressure_interrupted_earned [simp]: "earned_target (pressure_interrupted_work now p) = earned_target p"
  by (simp add: pressure_interrupted_work_def)

lemma end_request_earned:
  "unwrap_or 0 (earned_target p) \<le> unwrap_or 0 (earned_target (end_request now ok p))"
proof -
  have v: "unwrap_or 0 (earned_target q) \<le> unwrap_or 0 (earned_target (accept_validated v q))" for v q
    by (auto simp: accept_validated_def Let_def split: option.splits)
  have c: "unwrap_or 0 (earned_target q) \<le> unwrap_or 0 (earned_target (accept_completed q))" for q
    by (simp add: accept_completed_def Let_def)
  define q where "q = p \<lparr> validated_in_request := None, last_churn_sample_active := False, request_started := None,
    last_sample_active := False, last_sample_trial_active := False \<rparr>"
  have "earned_target q = earned_target p" by (simp add: q_def)
  then show ?thesis
    using le_trans [OF v [of q "validated_in_request p"] c]
    by (simp add: end_request_def Let_def q_def [symmetric])
qed

lemma sync_planned_earned:
  "sync_planned_workspace_capacity now cap p = Inr q \<Longrightarrow> earned_target q = earned_target p"
  by (auto simp: sync_planned_workspace_capacity_def result_simps Let_def clear_workspace_validation_def
      clear_capacity_validation_def split: if_splits)

lemma finish_workspace_earned [simp]: "earned_target (finish_workspace_phase p) = earned_target p"
  by (simp add: finish_workspace_phase_def Let_def clear_workspace_validation_def clear_capacity_validation_def
      split: option.splits)

lemma release_evolves: "release_capacity ops t act now (c, e) = (r, d, x) \<Longrightarrow> evolves c d"
  by (auto simp: release_capacity_def Let_def evolves_def split: prod.splits sum.splits action.splits)

lemma recover_evolves: "recover_capacity ops cap t now (c, e) = (r, d, x) \<Longrightarrow> evolves c d"
  by (auto simp: recover_capacity_def evolves_def split: prod.splits sum.splits)

lemma apply_action_evolves: "apply_action ops cap act now (c, e) = (r, d, x) \<Longrightarrow> evolves c d"
  by (cases act) (auto simp: apply_action_def dest: release_evolves recover_evolves)

lemma observe_earned: "earned_target (snd (observe now cap b obs p)) = earned_target p"
proof (cases "sample_due now p")
  case True
  have "observe now cap b obs p = observe now cap b obs (p \<lparr> p_capacity := cap \<rparr>)"
    using True by (simp add: observe_def sample_due_def)
  with observe_frame(4) [of "p \<lparr> p_capacity := cap \<rparr>" cap] show ?thesis by simp
qed (simp add: observe_not_due)

lemma chosen_action_earned: "chosen_action now cap b obs p = (act, q) \<Longrightarrow> earned_target q = earned_target p"
  using observe_earned [of now cap b obs p] by (auto simp: chosen_action_def split: prod.splits option.splits)

lemma apply_observation_evolves:
  assumes "apply_observation ops b now obs (c, e) = (r, d, x)"
  shows "evolves c d"
proof (cases "MIN_CAPACITY \<le> op_capacity ops e \<and> op_capacity ops e \<le> maximum_capacity (c_policy c)")
  case False
  with assms show ?thesis by (auto simp: apply_observation_def Let_def)
next
  case True
  obtain act p where a: "chosen_action now (op_capacity ops e) b obs (c_policy c) = (act, p)" by fastforce
  have "apply_action ops (op_capacity ops e) act now (c \<lparr> c_policy := p \<rparr>, e) = (r, d, x)"
    using assms True a by (auto simp: apply_observation_def chosen_action_def Let_def split: prod.splits option.splits)
  from evolves_trans [OF evolves_policy apply_action_evolves [OF this]] chosen_action_earned [OF a]
  show ?thesis by simp
qed

lemma controller_sync_evolves: "controller_sync ops now e c = Inr d \<Longrightarrow> evolves c d"
  by (auto simp: controller_sync_def result_simps evolves_def dest!: sync_planned_earned)

lemma restore_planned_evolves: "restore_planned ops now t (c, e) = (r, d, x) \<Longrightarrow> evolves c d"
  by (auto simp: restore_planned_def evolves_def dest!: sync_planned_earned split: prod.splits sum.splits)

lemma finish_phase_evolves:
  assumes "controller_finish_workspace_phase ops now (c, e) = (r, d, x)"
  shows "evolves c d"
proof (cases "workspace_phase (c_policy c) = None \<or> \<not> op_ready ops e \<or> (\<exists>m. controller_sync ops now e c = Inl m)")
  case True
  with assms show ?thesis by (auto simp: controller_finish_workspace_phase_def split: option.splits if_splits)
next
  case False
  then obtain ph f where ph: "workspace_phase (c_policy c) = Some ph" "op_ready ops e" "controller_sync ops now e c = Inr f"
    by (cases "controller_sync ops now e c") auto
  obtain res g y where s: "(if workspace_restoration_allowed now (c_release_epoch f) (c_policy f)
      then restore_planned ops now (ordinary_capacity ph) (f, e) else (Inr False, f, e)) = (res, g, y)"
    by (metis prod_cases3)
  then have g: "evolves c g"
    using evolves_trans [OF controller_sync_evolves [OF ph(3)]] restore_planned_evolves
    by (fastforce split: if_splits)
  have "d = g \<or> d = g \<lparr> c_policy := finish_workspace_phase (c_policy g) \<rparr>"
    using assms [unfolded controller_finish_workspace_phase_def fst_conv snd_conv] ph s by (cases res) simp_all
  with g evolves_trans [OF g evolves_policy] show ?thesis by auto
qed

lemma try_begin_evolves: "controller_try_begin_workspace_phase ops e t c = Inr (b, d) \<Longrightarrow> evolves c d"
  by (auto simp: controller_try_begin_workspace_phase_def try_begin_workspace_phase_def result_simps Let_def
      evolves_def clear_capacity_validation_def split: if_splits)

lemma serving_evolves: "serving content s t \<Longrightarrow> evolves (fst s) (fst t)"
proof (induction rule: serving.induct)
  case (poll s t env b now obs r u)
  obtain c e c' e' where "t = (c, e)" "u = (c', e')" by (metis prod.exhaust)
  with poll show ?case
    by (auto simp: check_boundary_def intro: evolves_trans dest!: apply_observation_evolves)
next
  case (finish s t env now r u)
  obtain c e c' e' where "t = (c, e)" "u = (c', e')" by (metis prod.exhaust)
  with finish show ?case by (auto intro: evolves_trans dest!: finish_phase_evolves)
next
  case (request_end s c e now ok)
  then show ?case using end_request_earned [of "c_policy c" now ok]
    by (auto simp: evolves_def controller_end_request_def)
next
  case (request s c e now)
  then show ?case by (simp add: evolves_def controller_begin_request_def begin_request_def)
qed (auto intro: evolves_trans dest!: controller_sync_evolves try_begin_evolves)

section \<open>What enlarges the pool\<close>

context capacity_engine
begin

lemma release_capacity_le:
  assumes "engine_inv e" "release_capacity ops t act now (c, e) = (r, c', e')"
  shows "op_capacity ops e' \<le> op_capacity ops e"
proof -
  obtain res x where s: "op_shrink ops t e = (res, x)" by fastforce
  then have "e' = x" using assms(2) by (auto simp: release_capacity_def Let_def split: sum.splits)
  with s shrink_err shrink_ok [OF assms(1)] show ?thesis by (cases res) auto
qed

lemma action_grows_Recover:
  assumes "engine_inv e" "apply_action ops cap act now (c, e) = (r, c', e')" "op_capacity ops e < op_capacity ops e'"
  shows "\<exists>t. act = Recover t \<and> recover_capacity ops cap t now (c, e) = (r, c', e')"
  using assms(2,3) release_capacity_le [OF assms(1), of _ act now c r c' e']
  by (cases act) (auto simp: apply_action_def not_less)

lemma recover_capacity_ge:
  assumes "engine_inv e" "recover_capacity ops cap t now (c, e) = (r, c', e')"
  shows "op_capacity ops e \<le> op_capacity ops e'"
proof -
  obtain res x where s: "prepared_recovery ops (c_budget c) cap t e = (res, x)" by fastforce
  then have "e' = x" using assms(2) by (auto simp: recover_capacity_def split: sum.splits)
  with prepared_recovery_cases [OF assms(1) s] show ?thesis by auto
qed

lemma action_shrinks_release:
  assumes "engine_inv e" "apply_action ops cap act now (c, e) = (r, c', e')" "op_capacity ops e' < op_capacity ops e"
  shows "c_release_epoch c' = c_release_epoch c + 1"
proof -
  have "release_capacity ops t act now (c, e) = (r, c', e') \<Longrightarrow> c_release_epoch c' = c_release_epoch c + 1" for t
    using assms(3) shrink_err [of t e] by (auto simp: release_capacity_def Let_def split: prod.splits sum.splits)
  with assms(2,3) recover_capacity_ge [OF assms(1), of cap _ now c r c' e'] show ?thesis
    by (cases act) (auto simp: apply_action_def not_le [symmetric])
qed

end

end
