(* ===== verification/Sample_Inputs.thy ===== *)
theory Sample_Inputs
  imports Adaptive_Controller
begin

text \<open>
  Concrete inputs at which the properties are exercised: a package layer of the released geometry
  with Metal and a reader that never fail, the pool of 64 slots opened over it, an engine of one
  such layer, and the same engine grown to 80 slots.
\<close>

definition open_metal :: metal where
  "open_metal = \<lparr> m_alloc = (\<lambda>_. Inr ()), m_address = (\<lambda>_. Inr ()), m_quiescent = Inr () \<rparr>"

definition iq3_layout :: projection_layout where
  "iq3_layout = \<lparr> pl_codec = ''iq3_k'', pl_out_features = 640, pl_logical_in_features = 2560,
     pl_stored_in_features = 2560 \<rparr>"

definition iq2_layout :: projection_layout where
  "iq2_layout = \<lparr> pl_codec = ''iq2_k'', pl_out_features = 2560, pl_logical_in_features = 640,
     pl_stored_in_features = 768 \<rparr>"

definition sample_layer :: pool_layer where
  "sample_layer = \<lparr> pl_num_experts = 512, pl_gate = iq3_layout, pl_up = iq3_layout, pl_down = iq2_layout \<rparr>"

text \<open>A package whose row of an expert is its number, and Metal without a failure.\<close>

definition sample_env :: "nat pool_env" where
  "sample_env = \<lparr> read_row = Inr, writable = Inr (), preflight = (\<lambda>_. Inr ()), write_slot = (\<lambda>_. Inr ()),
     start_reader = (\<lambda>_. Inr ()), finish_reader = Inr (), row_idle = Inr (), env_metal = open_metal \<rparr>"

definition sample_geometries :: "geometry list" where
  "sample_geometries = [\<lparr> g_codec = Iq3K, in_features = 2560, out_features = 640 \<rparr>,
     \<lparr> g_codec = Iq3K, in_features = 2560, out_features = 640 \<rparr>,
     \<lparr> g_codec = Iq2K, in_features = 768, out_features = 2560 \<rparr>]"

lemmas layout_defs = slab_layout_def slab_projection_def slab_stream_def slot_stream_bytes_def relayout_copy_plan_def
    copy_span_step_def stream_lengths_def row_bytes_def bytes_per_block_def sample_geometries_def
    checked_add_def checked_mul_def u64_limit_def

lemma sample_slab: "\<exists>offsets. slab_layout sample_geometries 16 = Inr (offsets, 31866880)"
  by (simp add: layout_defs CHUNK_SLOTS_def Let_def)

definition slab :: "nat \<Rightarrow> nat \<Rightarrow> chunk" where
  "slab s e = \<lparr> chunk_start = s, chunk_end = e, chunk_bytes = 31866880 \<rparr>"

lemma sample_allocate: "e = s + 16 \<Longrightarrow> allocate_chunk open_metal sample_geometries (s, e) = Inr (slab s e)"
  using sample_slab by (auto simp: allocate_chunk_def open_metal_def slab_def)

lemma sample_addresses [simp]: "write_chunk_addresses open_metal u c = Inr ()"
proof -
  have "try_fold (\<lambda>_ slot. m_address open_metal slot) u xs = Inr ()" for xs :: "nat list"
    by (induction xs) (simp_all add: open_metal_def)
  then show ?thesis by (simp add: write_chunk_addresses_def)
qed

lemma open_alloc [simp]: "m_alloc open_metal n = Inr ()" "m_quiescent open_metal = Inr ()"
  by (simp_all add: open_metal_def)

lemma alloc_values [simp]: "map_result (\<lambda>g. Inr (f g)) gs = Inr (map f gs)"
  by (induction gs) simp_all

definition sample_chunks :: fixed_chunks where
  "sample_chunks = \<lparr> fc_chunks = [slab 0 16, slab 16 32, slab 32 48, slab 48 64], fc_reserved = 64,
     fc_capacity = 64, fc_geometries = sample_geometries, fc_addresses_len = 73584 \<rparr>"

lemma sample_chunks_new: "fixed_chunks_new open_metal sample_geometries 64 = Inr sample_chunks"
  unfolding fixed_chunks_new_def
  by (simp add: startup_ranges_def CHUNK_SLOTS_def div_ceil_def upt_rec
    sample_allocate address_table_bytes_def MAX_BOUNDED_SLOTS_def MAX_CHUNKS_eq sample_chunks_def Let_def)

definition sample_pool :: "nat pool" where
  "sample_pool = \<lparr> num_experts = 512, e_capacity = 64, e_storage = Chunked sample_chunks, slot_of = [],
     expert_at = replicate 64 None, last_use = replicate 64 0, frequency = [], clock = 0,
     policy_reserved = 511, slot_rows = replicate 64 None \<rparr>"

lemma sample_pool_new: "with_workspace sample_env (\<lambda>_ _. Inr ()) (Inr ()) sample_layer 64 = Inr sample_pool"
proof -
  have g: "geometry_from_projection iq3_layout = Inr (sample_geometries ! 0)"
    "geometry_from_projection iq2_layout = Inr (sample_geometries ! 2)"
    by (simp_all add: geometry_from_projection_def codec_parse_def geometry_new_def iq3_layout_def iq2_layout_def
        sample_geometries_def)
  have "[sample_geometries ! 0, sample_geometries ! 0, sample_geometries ! 2] = sample_geometries"
    by (simp add: sample_geometries_def)
  then show ?thesis
    by (simp add: with_workspace_def with_storage_def sample_layer_def sample_env_def g sample_chunks_new pool_new_def TOP_K_def
        sample_pool_def MAX_BOUNDED_SLOTS_def HIDDEN_def INTERMEDIATE_def DOWN_STORED_def)
      (simp add: sample_geometries_def iq3_layout_def iq2_layout_def)
qed

lemma sample_pool_wf: "pool_wf content sample_pool"
proof -
  have "pool_new 512 64 (Chunked sample_chunks) = Inr sample_pool"
    by (simp add: pool_new_def TOP_K_def sample_pool_def MAX_BOUNDED_SLOTS_def)
  with fixed_chunks_new_wf(1,2) [OF sample_chunks_new] show ?thesis by (auto intro: pool_new_wf)
qed

definition grown_chunks :: fixed_chunks where
  "grown_chunks = sample_chunks \<lparr> fc_chunks := fc_chunks sample_chunks @ [slab 64 80], fc_capacity := 80 \<rparr>"

lemma sample_ranges: "growth_ranges 64 80 = [(64, 80)]"
  by (simp add: growth_ranges.simps [of 64] growth_ranges.simps [of 80] CHUNK_SLOTS_def Let_def)

lemma sample_quote: "quote_growth sample_chunks 80 = Inr \<lparr> added_requested_bytes = 31866880, preparation_requested_bytes = 31940464 \<rparr>"
  using sample_slab
  by (auto simp: quote_growth_def sample_chunks_def growth_target_def sample_ranges chunk_consts prefix_step_def slab_def
      address_table_bytes_def checked_add_def u64_limit_def Let_def)

lemma sample_prepare_growth: "prepare_growth open_metal sample_chunks 80 = Inr \<lparr> pg_chunks = [slab 64 80], pg_target = 80,
    pg_quote = \<lparr> added_requested_bytes = 31866880, preparation_requested_bytes = 31940464 \<rparr> \<rparr>"
proof -
  have "try_fold (write_chunk_addresses open_metal) () cs = Inr ()" for cs by (induction cs) simp_all
  then show ?thesis
    by (simp add: prepare_growth_def sample_quote) (simp add: sample_chunks_def sample_ranges sample_allocate)
qed

definition grown_pool :: "nat pool" where
  "grown_pool = sample_pool \<lparr> e_capacity := 80, e_storage := Chunked grown_chunks, expert_at := replicate 80 None,
     last_use := replicate 80 0, slot_rows := replicate 80 None \<rparr>"

lemma sample_resize_idle: "check_resize_idle sample_env sample_pool = Inr ()"
  by (simp add: check_resize_idle_def sample_env_def sample_pool_def)

definition sample_engine :: "nat engine" where
  "sample_engine = \<lparr> en_capacity = 64, en_layers = [sample_pool], en_workspace_ready = True \<rparr>"

definition grown_engine :: "nat engine" where
  "grown_engine = \<lparr> en_capacity = 80, en_layers = [grown_pool], en_workspace_ready = True \<rparr>"

definition sample_engine_env :: "nat engine_env" where
  "sample_engine_env = \<lparr> ee_row_idle = Inr (), ee_quiescent = (\<lambda>_. Inr ()), ee_pool = (\<lambda>_. sample_env) \<rparr>"

lemma sample_engine_wf: "engine_wf (\<lambda>_. content) sample_engine"
  using sample_pool_wf by (simp add: engine_wf_def sample_engine_def) (simp add: sample_pool_def)

lemma sample_growth_suffix: "quote_growth_suffix 80 sample_pool = Inr \<lparr> gr_old_capacity = 64, gr_new_capacity = 80,
    gr_added_bytes = 31866880, gr_preparation_bytes = 31940464 \<rparr>"
  using sample_quote by (simp add: quote_growth_suffix_def sample_pool_def) (simp add: sample_chunks_def)

lemma sample_recover: "31940464 \<le> b \<Longrightarrow> recover_expert_capacity sample_engine_env 80 b sample_engine
    = (Inr \<lparr> er_old_capacity = 64, er_new_capacity = 80, er_added_bytes = 31866880,
         er_preparation_bytes = 31940464 \<rparr>, grown_engine)"
proof -
  assume b: "31940464 \<le> b"
  have "prepare_growth_suffix sample_env 80 sample_pool = Inr (\<lparr> pg_chunks = [slab 64 80], pg_target = 80,
      pg_quote = \<lparr> added_requested_bytes = 31866880, preparation_requested_bytes = 31940464 \<rparr> \<rparr>,
     \<lparr> gr_old_capacity = 64, gr_new_capacity = 80, gr_added_bytes = 31866880, gr_preparation_bytes = 31940464 \<rparr>)"
    using sample_prepare_growth
    by (simp add: prepare_growth_suffix_def sample_growth_suffix sample_resize_idle)
      (simp add: sample_pool_def sample_env_def)
  with b show ?thesis
    by (simp add: recover_expert_capacity_def recover_plan_def sample_engine_def sample_engine_env_def quote_layer_def
        sample_growth_suffix prepare_layer_def checked_add_def u64_limit_def grown_engine_def)
      (simp add: sample_pool_def commit_growth_suffix_def grown_pool_def commit_growth_def grown_chunks_def resize_with_def
        sample_chunks_def address_table_bytes_def MAX_BOUNDED_SLOTS_def replicate_add [symmetric])
qed


text \<open>Releasing the grown suffix again.\<close>

lemma sample_shrink: "shrink_expert_capacity sample_engine_env 64 grown_engine
    = (Inr \<lparr> cr_old_capacity = 80, cr_new_capacity = 64, cr_released_bytes = 31866880, cr_evicted_sources = 0 \<rparr>,
       sample_engine)"
proof -
  have i: "check_resize_idle sample_env grown_pool = Inr ()"
    by (simp add: check_resize_idle_def sample_env_def grown_pool_def sample_pool_def)
  have p: "prepare_suffix grown_chunks 64 = Inr (4, 31866880)"
    by (simp add: prepare_suffix_def release_prefix_def grown_chunks_def sample_chunks_def CHUNK_SLOTS_def slab_def
        checked_add_def u64_limit_def)
  have "prepare_release_suffix sample_env 64 grown_pool = Inr (4, \<lparr> rr_old_capacity = 80, rr_new_capacity = 64,
      rr_released_bytes = 31866880, rr_evicted_sources = 0 \<rparr>)"
    using i p by (simp add: prepare_release_suffix_def TOP_K_def grown_pool_def)
      (simp add: grown_chunks_def sample_pool_def bt_values_def)
  then show ?thesis
    by (simp add: shrink_expert_capacity_def shrink_plan_def grown_engine_def sample_engine_env_def check_layer_def
        release_layer_def checked_add_def u64_limit_def sample_engine_def)
      (simp add: grown_pool_def sample_pool_def commit_release_def bt_retain_def commit_suffix_def grown_chunks_def
        sample_chunks_def)
qed

end
