(* ===== verification/Sample_Serving.thy ===== *)
theory Sample_Serving
  imports Sample_Inputs
begin

text \<open>
  A concrete serving process: a new controller over a 64-slot engine whose budget funds 80 slots is
  polled at 0, 5 and 10 seconds of a quiet system, and grows the engine at the third poll.
\<close>

lemma sample_engine_fields [simp]: "en_capacity sample_engine = 64" "en_capacity grown_engine = 80"
  "en_workspace_ready sample_engine" "en_workspace_ready grown_engine"
  by (simp_all add: sample_engine_def grown_engine_def)

definition sample_budget :: capacity_control_budget where
  "sample_budget = \<lparr> b_initial_capacity = 64, b_maximum_capacity = 80, b_startup_budget_bytes = 200000000,
     b_effective_budget_bytes = 200000000, b_initial_serving_peak_bytes = 130000000,
     b_packed_expert_bytes_per_slot = 1991680, b_table_overlap_bytes = 73584,
     b_process_overhead_bytes = 0, b_operating_growth = True \<rparr>"

definition still_counters :: vm_counters where
  "still_counters = \<lparr> compressions = 0, decompressions = 0, swapins = 0, swapouts = 0, page_bytes = 16384 \<rparr>"

definition quiet_observation :: observation where
  "quiet_observation = \<lparr> obs_pressure = Some Pressure_Normal, obs_counters = Some still_counters \<rparr>"

definition critical_observation :: observation where
  "critical_observation = \<lparr> obs_pressure = Some Pressure_Critical, obs_counters = None \<rparr>"

definition new_policy :: policy where "new_policy = policy_init 64 80"

definition policy_at_0 :: policy where
  "policy_at_0 = new_policy \<lparr> last_sample := Some 0, previous_counters := Some still_counters,
     last_sample_trial_active := True, p_state := Some Unknown \<rparr>"

definition policy_at_5 :: policy where
  "policy_at_5 = policy_at_0 \<lparr> last_sample := Some (dur_secs 5), quiet_since := Some (dur_secs 5),
     p_state := Some NormalQuiet \<rparr>"

definition policy_at_10 :: policy where
  "policy_at_10 = policy_at_5 \<lparr> last_sample := Some (dur_secs 10), preparation_healthy := dur_secs 5 \<rparr>"

definition grown_policy :: policy where
  "grown_policy = capacity_changed (dur_secs 10) 64 80 policy_at_10"

definition sample_controller :: "policy \<Rightarrow> controller" where
  "sample_controller p = \<lparr> c_budget = sample_budget, c_policy = p, c_release_epoch = 0 \<rparr>"

lemmas sample_policy_defs = new_policy_def policy_init_def policy_at_0_def policy_at_5_def policy_at_10_def policy_consts

lemma sample_controller_new: "controller_new sample_budget = Inr (sample_controller new_policy)"
  by (simp add: controller_new_def sample_budget_def policy_new_def MIN_CAPACITY_def sample_controller_def new_policy_def)

lemma still_quiet: "0 < el \<Longrightarrow> counters_quiet_since still_counters still_counters el = Some True"
  by (simp add: counters_quiet_since_True still_counters_def COMPRESSION_VETO_BYTES_PER_SECOND_def u64_limit_def
      f64_div_def f64_round_def)

lemma still_not_churning: "0 < el \<Longrightarrow> counters_churning_since still_counters still_counters el = Some False"
  by (simp add: counters_churning_since_def still_quiet)

lemmas observe_defs = observe_def sample_due_def observe_churn_def observed_churn_def observed_quiet_def classify_def
  observe_adverse_def observe_quiet_span_def observe_preparation_span_def observe_record_def observe_action_def
  recovery_action_def growth_eligibility_def settled_def next_capacity_def is_restoring_def growth_target_of_def
  under_pressure_def elapsed_ge_def elapsed_le_def checked_sub_def dur_saturating_add_def dur_max_def u64_limit_def
  opt_zip_def pressure_interrupted_work_def interrupted_work_def double_retry_def clear_capacity_validation_def Let_def

lemma sample_observe_0: "observe 0 64 Observe quiet_observation new_policy = (Some Hold, policy_at_0)"
  by (simp add: observe_defs sample_policy_defs quiet_observation_def)

lemma sample_observe_5: "observe (dur_secs 5) 64 Observe quiet_observation policy_at_0 = (Some (Hold), policy_at_5)"
  by (simp add: observe_defs sample_policy_defs quiet_observation_def still_quiet still_not_churning)

lemma sample_observe_10: "observe (dur_secs 10) 64 Observe quiet_observation policy_at_5 = (Some (Recover 80), policy_at_10)"
  by (simp add: observe_defs sample_policy_defs quiet_observation_def still_quiet still_not_churning)

lemma sample_preparation: "preparation_budget_bytes sample_budget 64 80 = Inr 70000000"
  by (simp add: preparation_budget_bytes_def sample_budget_def chunk_extent_ok_def mem_mul_def mem_sum_def mem_add_def
      checked_mul_def checked_add_def checked_sub_def u64_limit_def)

lemma sample_policy_max [simp]: "maximum_capacity new_policy = 80" "maximum_capacity policy_at_0 = 80" "maximum_capacity policy_at_5 = 80"
  by (simp_all add: sample_policy_defs)

lemmas poll_defs = check_boundary_def sample_controller_def apply_observation_def apply_action_def Let_def MIN_CAPACITY_def

lemma sample_poll_0: "check_boundary (engine_ops_of sample_engine_env) Observe 0 quiet_observation
    (sample_controller new_policy, sample_engine) = (Inr False, sample_controller policy_at_0, sample_engine)"
  by (simp add: poll_defs sample_observe_0 observe_Some_due [OF sample_observe_0])

lemma sample_poll_5: "check_boundary (engine_ops_of sample_engine_env) Observe (dur_secs 5) quiet_observation
    (sample_controller policy_at_0, sample_engine) = (Inr False, sample_controller policy_at_5, sample_engine)"
  by (simp add: poll_defs sample_observe_5 observe_Some_due [OF sample_observe_5])

lemma sample_poll_10: "check_boundary (engine_ops_of sample_engine_env) Observe (dur_secs 10) quiet_observation
    (sample_controller policy_at_5, sample_engine) = (Inr True, sample_controller grown_policy, grown_engine)"
  by (simp add: poll_defs sample_observe_10 observe_Some_due [OF sample_observe_10] recover_capacity_def
      prepared_recovery_def sample_preparation)
    (simp add: engine_ops_of_def sample_recover grown_policy_def)

lemma sample_serving: "serving content (sample_controller new_policy, sample_engine) (sample_controller grown_policy, grown_engine)"
  using serving.poll [OF serving.poll [OF serving.poll [OF serving.start sample_poll_0] sample_poll_5] sample_poll_10] .

end
