(* ===== verification/Adaptive_Properties.thy ===== *)
theory Adaptive_Properties
  imports Adaptive_Serving Sample_Serving
begin

text \<open>
  The properties of the adaptive controller of \<open>src/adaptive_memory.rs\<close>: what a serving process keeps,
  when storage grows, is released, rolled back or restored, and what a request can earn. Every
  property is exercised at a concrete controller and engine.
\<close>

section \<open>Serving\<close>

text \<open>C33: from a new controller over a well-formed engine of the admitted capacity, whatever pressure is
  sampled, whatever the engine refuses and however requests and workspace phases interleave, the
  policy's record of the capacity is the engine's, every layer holds that capacity with its published
  experts complete, and the capacity stays between the 64-slot floor and the budget's maximum, below 512.\<close>

theorem serving_process_sound:
  assumes new: "controller_new b = Inr c" and en: "engine_wf content e" "en_capacity e = b_initial_capacity b"
    and run: "serving content (c, e) (c', e')"
  shows "engine_wf content e' \<and> policy_wf (c_policy c') \<and> p_capacity (c_policy c') = en_capacity e'
    \<and> c_budget c' = b
    \<and> MIN_CAPACITY \<le> en_capacity e' \<and> en_capacity e' \<le> b_maximum_capacity b \<and> b_maximum_capacity b < 512"
proof -
  have "serving_wf content (c, e)" using controller_new_wf [OF new] en by (simp add: serving_wf_def)
  from serving_invariant [OF run this] have w: "engine_wf content e'" "controller_wf (en_capacity e') c'"
    by (simp_all add: serving_wf_def)
  have "c_budget c = b" using new by (auto simp: controller_new_def result_simps)
  then have "c_budget c' = b" using serving_evolves [OF run] by (simp add: evolves_def)
  with w show ?thesis by (auto simp: controller_wf_def policy_wf_def extent_wf_def)
qed

lemma serving_process_sound_witness:
  "serving (\<lambda>_ source. source) (sample_controller new_policy, sample_engine) (sample_controller grown_policy, grown_engine)
   \<and> engine_wf (\<lambda>_ source. source) grown_engine \<and> policy_wf grown_policy \<and> en_capacity grown_engine = 80"
proof -
  have "engine_wf (\<lambda>_ source. source) sample_engine" by (rule sample_engine_wf)
  from serving_process_sound [OF sample_controller_new this _ sample_serving] show ?thesis
    by (simp add: sample_serving) (simp add: sample_budget_def sample_controller_def)
qed

text \<open>a poll that leaves a larger pool behind took the envelope's word for it: the pool grew by at most 16
  slots, the retained serving peak at the new capacity plus the replaced address tables fits the operating
  budget, and so does the current peak plus everything the engine allocated while preparing.\<close>

theorem growth_stays_in_envelope:
  assumes "engine_wf content e" and "controller_wf (en_capacity e) c" and bw: "budget_wf (c_budget c)"
    and poll: "check_boundary (engine_ops_of env) b now obs (c, e) = (r, c', e')"
    and grew: "en_capacity e < en_capacity e'"
  shows "en_capacity e' \<le> b_maximum_capacity (c_budget c)
    \<and> en_capacity e' - en_capacity e \<le> GROWTH_STEP_SLOTS
    \<and> serving_peak_at (c_budget c) (en_capacity e') + b_table_overlap_bytes (c_budget c)
        \<le> b_effective_budget_bytes (c_budget c)
    \<and> (\<exists>bytes report. recover_expert_capacity env (en_capacity e') bytes e = (Inr report, e')
        \<and> serving_peak_at (c_budget c) (en_capacity e) + er_preparation_bytes report
            \<le> b_effective_budget_bytes (c_budget c))"
proof -
  let ?o = "engine_ops_of env" and ?obs = "if sample_due now (c_policy c) then obs else \<lparr> obs_pressure = None, obs_counters = None \<rparr>"
  have w: "controller_wf (op_capacity ?o e) c" using assms(2) by simp
  obtain act p where a: "chosen_action now (en_capacity e) b ?obs (c_policy c) = (act, p)" by fastforce
  note k = chosen_action_ok [OF assms(2) a]
  have ap: "apply_action ?o (en_capacity e) act now (c \<lparr> c_policy := p \<rparr>, e) = (r, c', e')"
    using poll apply_observation_eq [OF w, of b now ?obs] a by (simp add: check_boundary_def)
  have "\<exists>t. act = Recover t \<and> recover_capacity ?o (en_capacity e) t now (c \<lparr> c_policy := p \<rparr>, e) = (r, c', e')"
    by (rule ce.action_grows_Recover [OF assms(1) ap]) (use grew in simp)
  then obtain t where t: "act = Recover t" "recover_capacity ?o (en_capacity e) t now (c \<lparr> c_policy := p \<rparr>, e) = (r, c', e')"
    by blast
  have ok: "en_capacity e < t" "t \<le> maximum_capacity p" "t - en_capacity e \<le> GROWTH_STEP_SLOTS"
    using k(1) by (auto simp: t action_ok_def)
  obtain res x where s: "prepared_recovery ?o (c_budget c) (en_capacity e) t e = (res, x)" by fastforce
  have x: "e' = x" using t(2) s by (auto simp: recover_capacity_def split: sum.splits)
  from ce.prepared_recovery_cases [OF assms(1) s] show ?thesis
  proof (elim disjE exE conjE)
    fix m assume "x = e"
    with x grew show ?thesis by simp
  next
    fix q n assume q: "res = Inr q" "preparation_budget_bytes (c_budget c) (en_capacity e) t = Inr n" "op_capacity ?o x = t"
    have rec: "recover_expert_capacity env t n e = (Inr q, e')"
      using s q(1,2) x by (simp add: prepared_recovery_def m_bind_def engine_ops_of_def)
    have "b_packed_expert_bytes_per_slot (c_budget c) * b_initial_capacity (c_budget c)
        \<le> b_initial_serving_peak_bytes (c_budget c)" using bw by (simp add: budget_wf_def)
    note pb = preparation_budget_Inr [OF q(2) ok(1) this]
    have "er_preparation_bytes q \<le> n" using recover_expert_capacity_Inr(7) [OF assms(1) rec] ok(1) by simp
    moreover have "serving_peak_at (c_budget c) (en_capacity e) \<le> b_effective_budget_bytes (c_budget c)"
      using pb(2) serving_peak_at_mono [of "en_capacity e" t "c_budget c"] ok(1) by linarith
    ultimately have "serving_peak_at (c_budget c) (en_capacity e) + er_preparation_bytes q
        \<le> b_effective_budget_bytes (c_budget c)" using pb(1) by linarith
    moreover have "en_capacity e' = t" using q(3) x by simp
    ultimately show ?thesis using pb ok rec by blast
  qed
qed

lemma sample_controller_wf: "controller_wf 64 (sample_controller policy_at_5)" "budget_wf sample_budget"
  by (simp_all add: controller_wf_def sample_controller_def sample_budget_def policy_wf_defs sample_policy_defs budget_wf_def
      serving_peak_at_def)

lemma growth_stays_in_envelope_witness:
  "en_capacity sample_engine < en_capacity grown_engine
   \<and> serving_peak_at sample_budget 80 + b_table_overlap_bytes sample_budget \<le> b_effective_budget_bytes sample_budget"
  using growth_stays_in_envelope [of "\<lambda>_ source. source" sample_engine "sample_controller policy_at_5"
      sample_engine_env Observe "dur_secs 10" quiet_observation "Inr True" "sample_controller grown_policy" grown_engine]
    sample_controller_wf sample_engine_wf [of "\<lambda>source. source"] sample_poll_10
  by (simp add: sample_controller_def)

section \<open>The policy's choices\<close>

text \<open>A sample whose outcome is to grow was taken at normal pressure within five seconds of the previous one,
  with no swap-out and every other counter monotone in between and compression below the veto rate; the system
  has been quiet and the capacity unchanged for the five-second cooldown, no workspace phase is open and any
  back-off has expired.\<close>

theorem growth_needs_quiet_system:
  assumes "p_capacity p = cap" and "observe now cap b obs p = (Some (Recover t), p')"
  shows "\<exists>c before last q. obs_pressure obs = Some Pressure_Normal \<and> obs_counters obs = Some c
    \<and> previous_counters p = Some before \<and> last_sample p = Some last
    \<and> last < now \<and> now - last \<le> SAMPLE_GAP_LIMIT
    \<and> swapouts c = swapouts before \<and> compressions before \<le> compressions c
    \<and> decompressions before \<le> decompressions c \<and> swapins before \<le> swapins c
    \<and> f64_div (f64_of_nat ((compressions c - compressions before) * page_bytes c)) (as_secs_f64 (now - last))
        < COMPRESSION_VETO_BYTES_PER_SECOND
    \<and> quiet_since p = Some q \<and> q + RECOVERY_COOLDOWN \<le> now \<and> workspace_phase p = None
    \<and> is_none_or (\<lambda>changed. changed + RECOVERY_COOLDOWN \<le> now) (last_capacity_change p)
    \<and> is_none_or (\<lambda>until. until \<le> now) (retry_not_before p)"
  using observe_Recover_quiet [OF assms] unfolding counters_quiet_since_True zero_less_diff by blast

lemma growth_needs_quiet_system_witness: "quiet_since policy_at_5 = Some (dur_secs 5)"
proof -
  have "p_capacity policy_at_5 = 64" by (simp add: sample_policy_defs)
  from growth_needs_quiet_system [OF this sample_observe_10] show ?thesis by (simp add: policy_at_5_def)
qed

text \<open>Every action chosen at a sample is one the engine can carry out within the extent: releases and
  rollbacks go to a smaller multiple of 16 slots at or above the 64-slot floor, growth goes at most 16 slots up,
  to a multiple of 16, the maximum or the earned target, never past the maximum and never inside a workspace
  phase, and refusing work happens only at the floor.\<close>

theorem chosen_actions_in_extent:
  assumes "policy_wf p" "p_capacity p = cap" and "chosen_action now cap b obs p = (act, p')"
  shows "policy_wf p' \<and> (case act of
      Hold \<Rightarrow> True
    | Stop \<Rightarrow> cap = MIN_CAPACITY
    | Recover t \<Rightarrow> cap < t \<and> t \<le> maximum_capacity p \<and> t - cap \<le> GROWTH_STEP_SLOTS
        \<and> (t mod GROWTH_STEP_SLOTS = 0 \<or> t = maximum_capacity p \<or> earned_target p = Some t)
        \<and> workspace_phase p = None
    | Release t \<Rightarrow> MIN_CAPACITY \<le> t \<and> t < cap \<and> t mod GROWTH_STEP_SLOTS = 0
    | Rollback t \<Rightarrow> MIN_CAPACITY \<le> t \<and> t < cap \<and> t mod GROWTH_STEP_SLOTS = 0
    | ChurnRelease t \<Rightarrow> MIN_CAPACITY \<le> t \<and> t < cap \<and> t mod GROWTH_STEP_SLOTS = 0)"
proof -
  define c where "c = \<lparr> c_budget = sample_budget \<lparr> b_maximum_capacity := maximum_capacity p \<rparr>, c_policy = p, c_release_epoch = 0 \<rparr>"
  have c: "controller_wf cap c" using assms(1,2) by (simp add: controller_wf_def c_def)
  have a: "chosen_action now cap b obs (c_policy c) = (act, p')" using assms(3) by (simp add: c_def)
  have f: "maximum_capacity p' = maximum_capacity p" "earned_target p' = earned_target p"
    "workspace_phase p' = workspace_phase p"
    using chosen_action_ok(2,3) [OF c a] chosen_action_earned [OF assms(3)] by (simp_all add: controller_wf_def c_def)
  from chosen_action_ok(2) [OF c a] have "policy_wf p'" by (simp add: controller_wf_def)
  moreover have "action_ok p cap act"
    using chosen_action_ok(1) [OF c a] action_ok_cong [of p' p cap act] f by simp
  ultimately show ?thesis unfolding action_ok_def by simp
qed

lemma chosen_actions_in_extent_witness: "chosen_action (dur_secs 10) 64 Observe quiet_observation policy_at_5 = (Recover 80, policy_at_10)
    \<and> policy_wf policy_at_10"
proof -
  have w: "policy_wf policy_at_5" "p_capacity policy_at_5 = 64"
    using sample_controller_wf(1) by (simp_all add: controller_wf_def sample_controller_def)
  have "chosen_action (dur_secs 10) 64 Observe quiet_observation policy_at_5 = (Recover 80, policy_at_10)"
    by (simp add: chosen_action_def sample_observe_10)
  with chosen_actions_in_extent [OF w this] show ?thesis by simp
qed

text \<open>the controller refuses work only at a pool of 64 slots whose last sample was already critical and whose
  new sample is critical again, or, between samples, while that refusal still stands.\<close>

theorem stop_needs_two_critical_samples:
  assumes "policy_wf p" "p_capacity p = cap" and "chosen_action now cap b obs p = (Stop, p')"
  shows "cap = MIN_CAPACITY \<and> p_state p = Some Critical
    \<and> (if sample_due now p then obs_pressure obs = Some Pressure_Critical else stop_latched p)"
proof (cases "sample_due now p")
  case True
  let ?q = "sample_recorded now cap b obs p"
  from assms(3) True have o: "fst (observe_action now cap (sample_state now obs p)
      (fst (observe_churn b obs (sample_elapsed now p) p)) ?q) = Stop"
    by (auto simp: chosen_action_def observe_eq [OF True assms(2)] Let_def split: option.splits)
  then have s: "sample_state now obs p = Critical" "cap \<le> MIN_CAPACITY" "critical_at_floor ?q"
    by (cases "sample_state now obs p"; auto simp: observe_action_def recovery_action_def Let_def
        split: if_splits eligibility.splits)+
  have "critical_at_floor p" using s(1,3) by (simp add: sample_recorded_wf(3) [OF assms(1)])
  then have "p_state p = Some Critical" using assms(1) by (simp add: policy_wf_defs)
  moreover have "obs_pressure obs = Some Pressure_Critical"
    using s(1) by (auto simp: sample_state_def classify_def split: option.splits pressure.splits bool.splits if_splits)
  ultimately show ?thesis using s(2) True assms(1,2) by (simp add: policy_wf_defs)
next
  case False
  with assms(3) have a: "cached_action now cap p = Stop"
    by (auto simp: chosen_action_def observe_not_due)
  then have "stop_latched p \<and> cap = MIN_CAPACITY"
    by (auto simp: cached_action_def recovery_action_def split: if_splits eligibility.splits)
  with False assms(1) show ?thesis by (simp add: policy_wf_defs)
qed

definition critical_policy :: policy where
  "critical_policy = new_policy \<lparr> last_sample := Some 0, critical_at_floor := True, p_state := Some Critical \<rparr>"

lemma critical_policy_wf: "policy_wf critical_policy" "p_capacity critical_policy = 64"
  by (simp_all add: critical_policy_def policy_wf_defs sample_policy_defs)

lemma sample_stop: "chosen_action (dur_secs 1) 64 Observe critical_observation critical_policy
    = (Stop, critical_policy \<lparr> last_sample := Some (dur_secs 1), last_sample_trial_active := True, stop_latched := True \<rparr>)"
  by (simp add: chosen_action_def observe_defs critical_policy_def sample_policy_defs critical_observation_def)

lemma stop_needs_two_critical_samples_witness:
  "p_state critical_policy = Some Critical \<and> obs_pressure critical_observation = Some Pressure_Critical"
proof -
  have "sample_due (dur_secs 1) critical_policy"
    by (simp add: critical_policy_def sample_due_def elapsed_ge_def checked_sub_def policy_consts)
  with stop_needs_two_critical_samples [OF critical_policy_wf sample_stop] show ?thesis by simp
qed

lemma classify_pressure:
  "obs_pressure obs = Some Pressure_Warning \<Longrightarrow> classify obs gap quiet = Warning"
  "obs_pressure obs = Some Pressure_Critical \<Longrightarrow> classify obs gap quiet = Critical"
  by (simp_all add: classify_def)

lemma last_release_frame [simp]: "last_release (sample_recorded now cap b obs p) = last_release p"
proof -
  have i: "last_release (interrupted_work now a q) = last_release q" for a q
    by (simp add: interrupted_work_def double_retry_def clear_capacity_validation_def Let_def)
  have "last_release (observe_record now obs s q) = last_release q" for s q
    by (simp add: observe_record_def pressure_interrupted_work_def i Let_def)
  then show ?thesis by (simp add: sample_recorded_def Let_def)
qed

text \<open>pressure is answered at once and in proportion. A critical sample releases to the 64-slot floor whatever
  came before; a warning sample gives up one 16-slot step, at most once in five seconds, and never below the
  floor.\<close>

theorem pressure_releases:
  assumes "sample_due now p" "p_capacity p = cap" "MIN_CAPACITY < cap"
  shows "(obs_pressure obs = Some Pressure_Critical \<longrightarrow>
        fst (observe now cap b obs p) = Some (Release MIN_CAPACITY))
    \<and> (obs_pressure obs = Some Pressure_Warning \<longrightarrow>
        fst (observe now cap b obs p) = Some
          (if is_none_or (\<lambda>released. released \<le> now \<and> RELEASE_INTERVAL \<le> now - released) (last_release p)
           then Release (max ((cap - 1) div GROWTH_STEP_SLOTS * GROWTH_STEP_SLOTS) MIN_CAPACITY) else Hold))"
proof -
  have "is_none_or (elapsed_ge now RELEASE_INTERVAL) (last_release p)
      = is_none_or (\<lambda>released. released \<le> now \<and> RELEASE_INTERVAL \<le> now - released) (last_release p)"
    by (cases "last_release p") (simp_all add: elapsed_ge_iff)
  then show ?thesis using assms(3)
    by (simp add: observe_eq [OF assms(1,2)] Let_def observe_action_def sample_state_def classify_pressure round_down_slots_def)
qed

lemma pressure_releases_witness:
  "fst (observe (dur_secs 15) 80 Observe critical_observation grown_policy) = Some (Release 64)"
proof -
  have "sample_due (dur_secs 15) grown_policy" "p_capacity grown_policy = 80"
    by (simp_all add: sample_due_def grown_policy_def capacity_changed_fields)
      (simp add: sample_policy_defs elapsed_ge_def checked_sub_def)
  from pressure_releases [OF this, of critical_observation] show ?thesis
    by (simp add: MIN_CAPACITY_def critical_observation_def)
qed

text \<open>growths that fail one after another are retried after 10, 20, 40, 80 and then every 120 seconds: the delay
  doubles from the five-second cooldown and stops at 120 seconds, and until it has passed since the last failure
  no sample makes the pool grow.\<close>

theorem failed_growth_backs_off:
  assumes "retry_delay p = RECOVERY_COOLDOWN" and q: "q = fold recovery_failed nows p"
  shows "retry_delay q = min (dur_secs (5 * 2 ^ length nows)) (dur_secs 120)
    \<and> (nows \<noteq> [] \<longrightarrow> t < last nows + retry_delay q \<longrightarrow> last nows + retry_delay q \<le> dur_max \<longrightarrow>
         growth_eligibility t cap q = Growth_Hold)"
proof -
  have d: "retry_delay (fold recovery_failed ns p) = min (dur_secs (5 * 2 ^ length ns)) (dur_secs 120)" for ns
  proof (induction ns rule: rev_induct)
    case Nil
    then show ?case using assms(1) by (simp add: policy_consts)
  next
    case (snoc x xs)
    then show ?case by (simp add: recovery_failed_def double_retry_def Let_def dur_secs_def min_def)
  qed
  have "growth_eligibility t cap q = Growth_Hold"
    if n: "nows \<noteq> []" "t < last nows + retry_delay q" "last nows + retry_delay q \<le> dur_max"
  proof -
    obtain xs x where x: "nows = xs @ [x]" using n(1) by (cases nows rule: rev_cases) auto
    have "retry_not_before q = Some (dur_saturating_add x (retry_delay q))"
      by (simp add: q x recovery_failed_def double_retry_def Let_def)
    then show ?thesis using n(2,3)
      by (simp add: x growth_eligibility_def settled_def dur_saturating_add_def)
  qed
  with d show ?thesis unfolding q by blast
qed

lemma failed_growth_backs_off_witness:
  "retry_delay (fold recovery_failed [0, dur_secs 10, dur_secs 30] policy_at_5) = dur_secs 40
   \<and> growth_eligibility (dur_secs 69) 64 (fold recovery_failed [0, dur_secs 10, dur_secs 30] policy_at_5) = Growth_Hold"
proof -
  have "retry_delay policy_at_5 = RECOVERY_COOLDOWN" by (simp add: sample_policy_defs)
  from failed_growth_backs_off [OF this refl, of "[0, dur_secs 10, dur_secs 30]" "dur_secs 69" 64] show ?thesis
    by (simp add: dur_secs_def dur_max_def u64_limit_def)
qed

section \<open>Requests\<close>

text \<open>A capacity is earned only by a request that succeeded with a fresh sample of a normal system, at its
  unchanged extent, and either the clean time of completed requests reaches fifteen seconds or a smaller extent
  was validated before the pool grew inside the request; an unsuccessful request leaves the earned target, the
  completed clean time and the pending trial as they were, and no request keeps its own credit.\<close>

theorem credit_needs_completed_work:
  assumes q: "q = end_request now ok p"
  shows "(\<not> ok \<longrightarrow> earned_target q = earned_target p \<and> completed_clean_active q = completed_clean_active p
        \<and> trial_capacity q = trial_capacity p \<and> trial_base q = trial_base p \<and> retry_delay q = retry_delay p)
    \<and> request_clean_active q = 0 \<and> request_started q = None
    \<and> (earned_target q \<noteq> earned_target p \<longrightarrow>
        ok \<and> request_started p \<noteq> None \<and> p_state p \<in> {Some NormalQuiet, Some NormalBusy}
        \<and> validation_extent_matches p (p_capacity p)
        \<and> (\<exists>last. last_sample p = Some last \<and> last \<le> now \<and> now - last \<le> SAMPLE_GAP_LIMIT)
        \<and> (ACTIVE_VALIDATION \<le> completed_clean_active p + request_clean_active p
           \<or> (\<exists>v. validated_in_request p = Some v \<and> v < p_capacity p)))"
proof -
  define p1 where "p1 = p \<lparr> validated_in_request := None, last_churn_sample_active := False, request_started := None,
    last_sample_active := False, last_sample_trial_active := False \<rparr>"
  define accepted where "accepted \<longleftrightarrow> request_started p \<noteq> None \<and> ok \<and> is_some_and (elapsed_le now SAMPLE_GAP_LIMIT) (last_sample p1)
     \<and> validation_extent_matches p1 (p_capacity p1) \<and> (p_state p1 = Some NormalQuiet \<or> p_state p1 = Some NormalBusy)"
  have qe: "q = (if accepted then accept_completed (accept_validated (validated_in_request p) p1) else p1)
      \<lparr> request_clean_active := 0 \<rparr>"
    unfolding q end_request_def Let_def p1_def [symmetric] accepted_def ..
  have same: "earned_target p1 = earned_target p" "completed_clean_active p1 = completed_clean_active p"
    "trial_capacity p1 = trial_capacity p" "trial_base p1 = trial_base p" "retry_delay p1 = retry_delay p"
    "request_started p1 = None" "request_clean_active p1 = request_clean_active p" "p_capacity p1 = p_capacity p"
    "last_sample p1 = last_sample p" "p_state p1 = p_state p" "workspace_phase p1 = workspace_phase p"
    by (simp_all add: p1_def)
  have ext: "validation_extent_matches p1 = validation_extent_matches p"
    by (simp add: fun_eq_iff validation_extent_matches_def same)
  have av: "earned_target (accept_validated v r) = earned_target r \<or> (\<exists>x. v = Some x \<and> x < p_capacity r)"
    "completed_clean_active (accept_validated v r) = completed_clean_active r"
    "request_clean_active (accept_validated v r) = request_clean_active r"
    "request_started (accept_validated v r) = request_started r" for v r
    by (auto simp: accept_validated_def Let_def split: option.splits simp: opt_filter_eq_Some)
  have ac: "earned_target (accept_completed r) = earned_target r
      \<or> ACTIVE_VALIDATION \<le> completed_clean_active r + request_clean_active r"
    "request_started (accept_completed r) = request_started r" for r
    by (auto simp: accept_completed_def Let_def dur_saturating_add_def policy_consts dur_max_def u64_limit_def)
  have e: "accepted" "ACTIVE_VALIDATION \<le> completed_clean_active p + request_clean_active p
      \<or> (\<exists>v. validated_in_request p = Some v \<and> v < p_capacity p)" if "earned_target q \<noteq> earned_target p"
    using that ac(1) [of "accept_validated (validated_in_request p) p1"] av(1) [of "validated_in_request p" p1]
    by (auto simp: qe av same split: if_splits)
  have r: "request_started q = None" by (simp add: qe ac(2) av(4) same)
  have "\<not> ok \<Longrightarrow> \<not> accepted" by (simp add: accepted_def)
  then have u: "\<not> ok \<longrightarrow> earned_target q = earned_target p \<and> completed_clean_active q = completed_clean_active p
        \<and> trial_capacity q = trial_capacity p \<and> trial_base q = trial_base p \<and> retry_delay q = retry_delay p"
    by (simp add: qe same)
  have "accepted \<Longrightarrow> \<exists>last. last_sample p = Some last \<and> last \<le> now \<and> now - last \<le> SAMPLE_GAP_LIMIT"
    by (cases "last_sample p") (simp_all add: accepted_def same elapsed_le_iff)
  with e u r show ?thesis by (auto simp: qe accepted_def same ext)
qed

definition working_policy :: policy where
  "working_policy = policy_at_10 \<lparr> request_started := Some 0, request_clean_active := dur_secs 15 \<rparr>"

lemma credit_needs_completed_work_witness:
  "earned_target (end_request (dur_secs 12) True working_policy) = Some 64
   \<and> ACTIVE_VALIDATION \<le> completed_clean_active working_policy + request_clean_active working_policy
   \<and> earned_target (end_request (dur_secs 12) False working_policy) = None"
proof -
  have e: "earned_target (end_request (dur_secs 12) True working_policy) = Some 64"
    by (simp add: end_request_def accept_completed_def accept_validated_def working_policy_def sample_policy_defs
        validation_extent_matches_def elapsed_le_def checked_sub_def dur_saturating_add_def dur_max_def u64_limit_def Let_def)
  have n: "earned_target working_policy = None" "validated_in_request working_policy = None"
    by (simp_all add: working_policy_def sample_policy_defs)
  from credit_needs_completed_work [OF refl, where now = "dur_secs 12" and ok = True and p = working_policy]
    credit_needs_completed_work [OF refl, where now = "dur_secs 12" and ok = False and p = working_policy] show ?thesis
    by (simp add: e n)
qed

text \<open>Along any serving process the earned target never drops and never passes the maximum: pressure,
  failed requests, releases and workspace phases cannot take back a capacity that completed work validated.\<close>

theorem earned_target_never_lost:
  assumes "serving content (c, e) (c', e')" and "serving_wf content (c, e)" and "earned_target (c_policy c) = Some t"
  shows "\<exists>t'. earned_target (c_policy c') = Some t' \<and> t \<le> t' \<and> t' \<le> maximum_capacity (c_policy c')"
proof -
  have w: "extent_wf (c_policy c)" "extent_wf (c_policy c')"
    using serving_invariant [OF assms(1,2)] assms(2) by (simp_all add: serving_wf_def controller_wf_def policy_wf_def)
  have "t \<le> unwrap_or 0 (earned_target (c_policy c'))"
    using serving_evolves [OF assms(1)] assms(3) by (simp add: evolves_def)
  moreover have "64 \<le> t" using w(1) assms(3) by (simp add: extent_wf_def MIN_CAPACITY_def)
  ultimately show ?thesis using w(2) by (cases "earned_target (c_policy c')") (simp_all add: extent_wf_def)
qed

definition earning_policy :: policy where "earning_policy = new_policy \<lparr> earned_target := Some 72 \<rparr>"

lemma earned_target_never_lost_witness:
  "\<exists>c' t'. check_boundary (engine_ops_of sample_engine_env) Observe 0 critical_observation
     (sample_controller earning_policy, sample_engine) = (Inr False, c', sample_engine)
   \<and> earned_target (c_policy c') = Some t' \<and> 72 \<le> t'"
proof -
  define p where "p = snd (observe 0 64 Observe critical_observation earning_policy)"
  have "fst (observe 0 64 Observe critical_observation earning_policy) = Some Hold"
    by (simp add: observe_defs pressure_interrupted_work_def interrupted_work_def clear_capacity_validation_def earning_policy_def sample_policy_defs critical_observation_def)
  then have o: "observe 0 64 Observe critical_observation earning_policy = (Some Hold, p)"
    by (simp add: p_def prod_eq_iff)
  have m: "maximum_capacity earning_policy = 80" by (simp add: earning_policy_def)
  have b: "check_boundary (engine_ops_of sample_engine_env) Observe 0 critical_observation
     (sample_controller earning_policy, sample_engine) = (Inr False, sample_controller p, sample_engine)"
    by (simp add: poll_defs o observe_Some_due [OF o] m)
  have w: "serving_wf (\<lambda>_ source. source) (sample_controller earning_policy, sample_engine)"
    using sample_engine_wf [of "\<lambda>source. source"]
    by (simp add: serving_wf_def controller_wf_def sample_controller_def sample_budget_def earning_policy_def policy_wf_defs
        sample_policy_defs)
  have "earned_target (c_policy (sample_controller earning_policy)) = Some 72"
    by (simp add: sample_controller_def earning_policy_def)
  from earned_target_never_lost [OF serving.poll [OF serving.start b] w this] b show ?thesis by auto
qed

section \<open>Polls and workspace phases\<close>

lemma sync_phase:
  "controller_sync ops now e c = Inr f \<Longrightarrow> workspace_phase (c_policy f) = workspace_phase (c_policy c)
     \<and> c_release_epoch f = c_release_epoch c"
  by (auto simp: controller_sync_def result_simps dest!: sync_planned_frame(3))

text \<open>Finishing a phase whose epoch has passed leaves the engine alone.\<close>

lemma finish_stale_phase:
  assumes "workspace_phase (c_policy c) = Some ph" "phase_release_epoch ph \<noteq> c_release_epoch c"
    and "controller_finish_workspace_phase ops now (c, e) = (r, d, x)"
  shows "x = e \<and> r \<noteq> Inr True"
proof (cases "op_ready ops e")
  case False
  with assms show ?thesis by (auto simp: controller_finish_workspace_phase_def)
next
  case True
  show ?thesis
  proof (cases "controller_sync ops now e c")
    case (Inl m)
    with assms True show ?thesis by (auto simp: controller_finish_workspace_phase_def)
  next
    case (Inr f)
    have "\<not> workspace_restoration_allowed now (c_release_epoch f) (c_policy f)"
      using sync_phase [OF Inr] assms(1,2) by (simp add: workspace_restoration_allowed_def)
    with assms True Inr show ?thesis by (auto simp: controller_finish_workspace_phase_def)
  qed
qed

lemma try_begin_phase:
  assumes "controller_try_begin_workspace_phase ops e t c = Inr (True, d)"
  shows "workspace_phase (c_policy d) = Some \<lparr> ordinary_capacity = op_capacity ops e, phase_release_epoch = c_release_epoch c \<rparr>"
    and "c_release_epoch d = c_release_epoch c"
  using assms by (auto simp: controller_try_begin_workspace_phase_def try_begin_workspace_phase_def result_simps Let_def
      split: if_splits)

lemma poll_action:
  assumes "controller_wf (en_capacity e) c" "check_boundary (engine_ops_of env) b now obs (c, e) = (r, c', e')"
  obtains act p where "apply_action (engine_ops_of env) (en_capacity e) act now (c \<lparr> c_policy := p \<rparr>, e) = (r, c', e')"
    "action_ok p (en_capacity e) act" "controller_wf (en_capacity e) (c \<lparr> c_policy := p \<rparr>)"
proof -
  let ?obs = "if sample_due now (c_policy c) then obs else \<lparr> obs_pressure = None, obs_counters = None \<rparr>"
  have w: "controller_wf (op_capacity (engine_ops_of env) e) c" using assms(1) by simp
  obtain act p where a: "chosen_action now (en_capacity e) b ?obs (c_policy c) = (act, p)" by fastforce
  have "apply_action (engine_ops_of env) (en_capacity e) act now (c \<lparr> c_policy := p \<rparr>, e) = (r, c', e')"
    using assms(2) apply_observation_eq [OF w, of b now ?obs] a by (simp add: check_boundary_def)
  with that chosen_action_ok(1,2) [OF assms(1) a] show ?thesis by blast
qed

text \<open>when pressure took storage back while a workspace phase was open, finishing that phase never allocates:
  whatever else happened before and after the release, the engine keeps the capacity it has.\<close>

theorem pressure_release_blocks_restoration:
  assumes wf: "serving_wf content (c, e)"
    and begun: "controller_try_begin_workspace_phase (engine_ops_of env1) e target c = Inr (True, c1)"
    and before: "serving content (c1, e) (c2, e2)"
    and poll: "check_boundary (engine_ops_of env2) b now obs (c2, e2) = (r, c3, e3)" "en_capacity e3 < en_capacity e2"
    and after: "serving content (c3, e3) (c4, e4)"
    and phase_open: "workspace_phase (c_policy c4) = workspace_phase (c_policy c1)"
    and fin: "controller_finish_workspace_phase (engine_ops_of env3) now' (c4, e4) = (r', c5, e5)"
  shows "e5 = e4 \<and> r' \<noteq> Inr True"
proof -
  have "serving content (c, e) (c1, e)" by (rule serving.phase [OF serving.start begun])
  then have w1: "serving_wf content (c1, e)" using wf by (rule serving_invariant)
  from serving_invariant [OF before this] have w2: "engine_wf content e2" "controller_wf (en_capacity e2) c2"
    by (simp_all add: serving_wf_def)
  obtain act p where "apply_action (engine_ops_of env2) (en_capacity e2) act now (c2 \<lparr> c_policy := p \<rparr>, e2) = (r, c3, e3)"
    using poll_action [OF w2(2) poll(1)] by blast
  from ce.action_shrinks_release [OF w2(1) this] poll(2) have "c_release_epoch c3 = c_release_epoch c2 + 1" by simp
  then have "c_release_epoch c < c_release_epoch c4"
    using serving_evolves [OF before] serving_evolves [OF after] try_begin_phase(2) [OF begun] by (simp add: evolves_def)
  with try_begin_phase(1) [OF begun] phase_open finish_stale_phase [OF _ _ fin] show ?thesis by auto
qed

text \<open>What a poll reports is what happened to the engine: \<open>Ok(true)\<close> means its capacity changed and the policy
  recorded the change at this instant, and on every other outcome, a refused growth or release included, the
  engine is exactly as it was.\<close>

theorem poll_reports_changes:
  assumes en: "engine_wf content e" and w: "controller_wf (en_capacity e) c"
    and poll: "check_boundary (engine_ops_of env) b now obs (c, e) = (r, c', e')"
  shows "if r = Inr True then en_capacity e' \<noteq> en_capacity e \<and> last_capacity_change (c_policy c') = Some now
      \<and> p_capacity (c_policy c') = en_capacity e' else e' = e"
proof -
  obtain act p where a: "apply_action (engine_ops_of env) (en_capacity e) act now (c \<lparr> c_policy := p \<rparr>, e) = (r, c', e')"
    and ok: "action_ok p (en_capacity e) act" and k: "controller_wf (en_capacity e) (c \<lparr> c_policy := p \<rparr>)"
    using poll_action [OF w poll] by blast
  have rel: ?thesis if t: "t < en_capacity e"
      and r: "release_capacity (engine_ops_of env) t act now (c \<lparr> c_policy := p \<rparr>, e) = (r, c', e')" for t
  proof -
    obtain res x where s: "op_shrink (engine_ops_of env) t e = (res, x)" by fastforce
    show ?thesis
    proof (cases res)
      case (Inl m)
      with s r ce.shrink_err [of env t e m x] show ?thesis by (auto simp: release_capacity_def)
    next
      case (Inr q)
      with s r ce.shrink_ok [OF en, of env t q x] t show ?thesis
        by (auto simp: release_capacity_def Let_def capacity_changed_fields)
    qed
  qed
  have rec: ?thesis if t: "en_capacity e < t"
      and r: "recover_capacity (engine_ops_of env) (en_capacity e) t now (c \<lparr> c_policy := p \<rparr>, e) = (r, c', e')" for t
  proof -
    obtain res x where s: "prepared_recovery (engine_ops_of env) (c_budget c) (en_capacity e) t e = (res, x)" by fastforce
    from ce.prepared_recovery_cases [OF en s] r s t show ?thesis
      by (auto simp: recover_capacity_def capacity_changed_fields)
  qed
  show ?thesis using a ok rel rec by (cases act) (auto simp: apply_action_def action_ok_def)
qed

lemma poll_reports_changes_witness: "en_capacity grown_engine \<noteq> en_capacity sample_engine
    \<and> last_capacity_change grown_policy = Some (dur_secs 10)"
proof -
  have "controller_wf (en_capacity sample_engine) (sample_controller policy_at_5)"
    by (simp add: controller_wf_def sample_controller_def sample_budget_def policy_wf_defs sample_policy_defs)
  from poll_reports_changes [OF sample_engine_wf this sample_poll_10] show ?thesis
    by (simp add: sample_controller_def)
qed

section \<open>Pressure during a workspace phase\<close>

definition phase_policy :: policy where
  "phase_policy = grown_policy \<lparr> workspace_phase := Some \<lparr> ordinary_capacity = 80, phase_release_epoch = 0 \<rparr> \<rparr>"

lemma sample_phase: "controller_try_begin_workspace_phase (engine_ops_of sample_engine_env) grown_engine 64 (sample_controller grown_policy)
    = Inr (True, sample_controller phase_policy)"
proof -
  have g: "workspace_phase grown_policy = None" "maximum_capacity grown_policy = 80" "stop_latched grown_policy = False"
    "p_state grown_policy = Some NormalQuiet" "p_capacity grown_policy = 80"
    by (simp_all add: grown_policy_def capacity_changed_fields) (simp_all add: sample_policy_defs)
  show ?thesis
    by (simp add: controller_try_begin_workspace_phase_def try_begin_workspace_phase_def sample_controller_def g
        under_pressure_def MIN_CAPACITY_def Let_def phase_policy_def)
qed

lemma sample_phase_release: "\<exists>c3. check_boundary (engine_ops_of sample_engine_env) Observe (dur_secs 15) critical_observation
    (sample_controller phase_policy, grown_engine) = (Inr True, c3, sample_engine)
   \<and> workspace_phase (c_policy c3) = workspace_phase phase_policy"
proof -
  define q where "q = snd (observe (dur_secs 15) 80 Observe critical_observation phase_policy)"
  have p: "sample_due (dur_secs 15) phase_policy" "p_capacity phase_policy = 80" "maximum_capacity phase_policy = 80"
    by (simp_all add: sample_due_def phase_policy_def grown_policy_def capacity_changed_fields)
      (simp_all add: sample_policy_defs elapsed_ge_def checked_sub_def)
  have "fst (observe (dur_secs 15) 80 Observe critical_observation phase_policy) = Some (Release 64)"
    by (simp add: observe_eq [OF p(1,2)] Let_def observe_action_def sample_state_def classify_def critical_observation_def MIN_CAPACITY_def)
  then have o: "observe (dur_secs 15) 80 Observe critical_observation phase_policy = (Some (Release 64), q)"
    by (simp add: q_def prod_eq_iff)
  have "workspace_phase q = workspace_phase phase_policy" unfolding q_def by (rule observe_frame [OF p(2)])
  then show ?thesis
    by (simp add: poll_defs p o release_capacity_def) (simp add: engine_ops_of_def sample_shrink)
qed

lemma pressure_release_blocks_restoration_witness:
  "\<exists>c3 r c5 x. check_boundary (engine_ops_of sample_engine_env) Observe (dur_secs 15) critical_observation
      (sample_controller phase_policy, grown_engine) = (Inr True, c3, sample_engine)
    \<and> controller_finish_workspace_phase (engine_ops_of sample_engine_env) (dur_secs 30) (c3, sample_engine) = (r, c5, x)
    \<and> x = sample_engine \<and> r \<noteq> Inr True"
proof -
  obtain c3 where c3: "check_boundary (engine_ops_of sample_engine_env) Observe (dur_secs 15) critical_observation
      (sample_controller phase_policy, grown_engine) = (Inr True, c3, sample_engine)"
    "workspace_phase (c_policy c3) = workspace_phase phase_policy"
    using sample_phase_release by blast
  obtain r c5 x where f: "controller_finish_workspace_phase (engine_ops_of sample_engine_env) (dur_secs 30) (c3, sample_engine) = (r, c5, x)"
    by (metis prod_cases3)
  have "serving_wf (\<lambda>_ source. source) (sample_controller new_policy, sample_engine)"
    using sample_engine_wf [of "\<lambda>source. source"] controller_new_wf [OF sample_controller_new]
    by (simp add: serving_wf_def) (simp add: sample_budget_def)
  then have w: "serving_wf (\<lambda>_ source. source) (sample_controller grown_policy, grown_engine)"
    by (rule serving_invariant [OF sample_serving])
  from pressure_release_blocks_restoration [OF w sample_phase serving.start c3(1) _ serving.start _ f] c3 f show ?thesis
    by (auto simp: sample_controller_def)
qed

section \<open>Trials\<close>

lemma trial_capacity_recorded:
  assumes "p_capacity p = cap" "sample_state now obs p = NormalBusy" 
  shows "trial_capacity (sample_recorded now cap b obs p) = trial_capacity p"
    and "trial_base (sample_recorded now cap b obs p) = trial_base p"
    and "trial_adverse_active (sample_recorded now cap b obs p) \<le> trial_adverse_active p + unwrap_or 0 (sample_elapsed now p)"
proof -
  have r: "observe_record now obs NormalBusy q = q \<lparr> last_sample := Some now, previous_counters := obs_counters obs,
     critical_at_floor := False, stop_latched := False, p_state := Some NormalBusy \<rparr>" for q
    by (simp add: observe_record_def under_pressure_def)
  show "trial_capacity (sample_recorded now cap b obs p) = trial_capacity p"
    "trial_base (sample_recorded now cap b obs p) = trial_base p"
    by (simp_all add: sample_recorded_def Let_def assms(2) r)
  let ?el = "sample_elapsed now p" and ?gap = "sample_gap now p"
  have a: "trial_adverse_active (observe_adverse cap b s el gap q) \<le> trial_adverse_active q + unwrap_or 0 el"
    if "el = None \<longrightarrow> gap" for s el gap q
    using that by (cases el) (auto simp: observe_adverse_def dur_saturating_add_def Let_def)
  have "?el = None \<longrightarrow> ?gap" by (simp add: sample_gap_def)
  from a [OF this, of NormalBusy "snd (observe_churn b obs ?el p)"]
  show "trial_adverse_active (sample_recorded now cap b obs p) \<le> trial_adverse_active p + unwrap_or 0 ?el"
    by (simp add: sample_recorded_def Let_def assms(2) r)
qed

text \<open>An unaccepted trial is rolled back only when the pool still has the trial's size, pressure is normal, and
  fifteen seconds of adverse work have been observed at it, this sample's interval included; the rollback ends
  at or below the size the trial started from, or at the floor.\<close>

theorem rollback_needs_sustained_adversity:
  assumes "p_capacity p = cap" and "observe now cap b obs p = (Some (Rollback t), p')"
  shows "\<exists>base. trial_capacity p = Some cap \<and> trial_base p = Some base \<and> base < cap \<and> t \<le> max base MIN_CAPACITY
    \<and> obs_pressure obs = Some Pressure_Normal
    \<and> ACTIVE_VALIDATION \<le> trial_adverse_active p + unwrap_or 0 (sample_elapsed now p)"
proof -
  note due = observe_Some_due [OF assms(2)]
  let ?q = "sample_recorded now cap b obs p" and ?s = "sample_state now obs p"
  from assms(2) have o: "fst (observe_action now cap ?s (fst (observe_churn b obs (sample_elapsed now p) p)) ?q) = Rollback t"
    by (simp add: observe_eq [OF due assms(1)] Let_def)
  then have s: "?s = NormalBusy"
    by (cases ?s; auto simp: observe_action_def recovery_action_def Let_def split: if_splits eligibility.splits)+
  note k = trial_capacity_recorded [OF assms(1) s]
  define tr where "tr = opt_filter (\<lambda>base. trial_capacity ?q = Some cap \<and> base < cap) (trial_base ?q)"
  from o s have a: "ACTIVE_VALIDATION \<le> trial_adverse_active ?q" "tr \<noteq> None"
    "t = max (round_down_slots (the tr)) MIN_CAPACITY"
    by (auto simp: observe_action_def Let_def tr_def split: if_splits)
  then obtain base where b: "tr = Some base" by blast
  then have "trial_base ?q = Some base" "trial_capacity ?q = Some cap" "base < cap"
    by (simp_all add: tr_def opt_filter_eq_Some)
  moreover have "t \<le> max base MIN_CAPACITY" using a(3) round_down_slots_props(1) [of base] by (simp add: b)
  moreover have "obs_pressure obs = Some Pressure_Normal"
    using s by (auto simp: sample_state_def classify_def split: option.splits pressure.splits bool.splits if_splits)
  ultimately show ?thesis using k(1,2) [of b] le_trans [OF a(1) k(3)] by simp
qed

definition swapping_counters :: vm_counters where
  "swapping_counters = \<lparr> compressions = 0, decompressions = 0, swapins = 0, swapouts = 1, page_bytes = 16384 \<rparr>"

definition swapping_observation :: observation where
  "swapping_observation = \<lparr> obs_pressure = Some Pressure_Normal, obs_counters = Some swapping_counters \<rparr>"

definition adverse_policy :: policy where
  "adverse_policy = (policy_init 64 80) \<lparr> p_capacity := 80, trial_base := Some 64, trial_capacity := Some 80,
     trial_adverse_active := dur_secs 13, last_sample := Some 0, previous_counters := Some still_counters,
     last_sample_trial_active := True, p_state := Some NormalBusy \<rparr>"

lemma swapping_busy: "counters_quiet_since swapping_counters still_counters 2000000000 = Some False"
proof -
  have "f64_div (f64_of_nat 16384) (as_secs_f64 2000000000) \<noteq> 0"
    using f64_div_eq_0_iff [OF f64_of_nat_nonneg as_secs_f64_pos, of 2000000000 16384] by simp
  then show ?thesis
    by (simp add: counters_quiet_since_def vm_rate_def still_counters_def swapping_counters_def checked_sub_def checked_mul_def u64_limit_def)
qed

lemma sample_rollback: "fst (observe (dur_secs 2) 80 Observe swapping_observation adverse_policy) = Some (Rollback 64)"
proof -
  have "counters_churning_since swapping_counters still_counters 2000000000 = Some True"
    by (simp add: counters_churning_since_def swapping_busy)
      (simp add: vm_rate_def still_counters_def swapping_counters_def checked_sub_def checked_mul_def u64_limit_def)
  then show ?thesis
    by (simp add: observe_defs sample_policy_defs adverse_policy_def swapping_observation_def swapping_busy round_down_slots_def
        trial_interval_started_def)
qed

lemma rollback_needs_sustained_adversity_witness:
  "\<exists>base. trial_base adverse_policy = Some base \<and> base < 80
    \<and> ACTIVE_VALIDATION \<le> trial_adverse_active adverse_policy + unwrap_or 0 (sample_elapsed (dur_secs 2) adverse_policy)"
proof -
  have "observe (dur_secs 2) 80 Observe swapping_observation adverse_policy
      = (Some (Rollback 64), snd (observe (dur_secs 2) 80 Observe swapping_observation adverse_policy))"
    using sample_rollback by (simp add: prod_eq_iff)
  moreover have "p_capacity adverse_policy = 80" by (simp add: adverse_policy_def)
  ultimately show ?thesis using rollback_needs_sustained_adversity by blast
qed

end
