(* ===== verification/Prefill_Scope.thy ===== *)
theory Prefill_Scope
  imports Expert_Residency
begin

text \<open>
  \<open>PrefillLoadScope\<close> of \<open>src/experts.rs\<close>: while the GPU reads one group of experts, the next group
  is loaded into slots no reader uses. A group records the slots captured for its sources when it
  was loaded and stays recorded until its command completes. The stream is the environment: a
  submission and a wait may fail; a failed scope drains the stream and refuses further steps.
\<close>

section \<open>The scope\<close>

record prefill_group =
  group_sources :: "nat list"
  group_slots :: "nat list"
  group_map :: "nat list"
  group_submitted :: bool

record 'r scope =
  sc_pool :: "'r pool"
  sc_groups :: "prefill_group list"
  sc_failed :: bool

definition capture_step ::
    "nat list \<Rightarrow> nat \<Rightarrow> nat list \<times> nat list \<Rightarrow> nat \<Rightarrow> (nat list \<times> nat list) result" where
  "capture_step published capacity acc source =
     bindr (if source < length published then Inr (published ! source) else Inl ''prefill source is invalid'') (\<lambda>slot.
     ensure (slot < capacity \<and> slot \<notin> set (fst acc))
       ''prefill reader map contains missing or aliased slots''
       (Inr (slot # fst acc, (snd acc)[source := slot])))"

definition group_capture :: "nat list \<Rightarrow> nat list \<Rightarrow> nat \<Rightarrow> prefill_group result" where
  "group_capture sources published capacity =
     ensure (sources \<noteq> []) ''prefill reader group is empty''
     (bindr (try_fold (capture_step published capacity) ([], replicate 512 512) sources) (\<lambda>acc.
      Inr \<lparr> group_sources = sources, group_slots = btree_set (fst acc), group_map = snd acc,
            group_submitted = False \<rparr>))"

definition scope_new :: "'r pool_env \<Rightarrow> 'r pool \<Rightarrow> 'r scope result" where
  "scope_new env p =
     bindr (writable env) (\<lambda>_. Inr \<lparr> sc_pool = p, sc_groups = [], sc_failed = False \<rparr>)"

definition scope_step :: "('r scope, 'a) stateful \<Rightarrow> ('r scope, 'a) stateful" where
  "scope_step action s =
     (if sc_failed s then (Inl ''prefill scope has already failed'', s)
      else case action s of (Inl e, s') \<Rightarrow> (Inl e, s' \<lparr> sc_failed := True \<rparr>) | (Inr x, s') \<Rightarrow> (Inr x, s'))"

text \<open>A method of the pool as a method of the scope.\<close>

definition on_pool :: "('r pool, 'a) stateful \<Rightarrow> ('r scope, 'a) stateful" where
  "on_pool m s = (case m (sc_pool s) of (r, p) \<Rightarrow> (r, s \<lparr> sc_pool := p \<rparr>))"

definition retire_previous :: "unit result \<Rightarrow> ('r scope, unit) stateful" where
  "retire_previous wait = scope_step (
     m_bind (m_get (\<lambda>s. Inr (length (sc_groups s) = 2))) (\<lambda>two.
     if two then
       m_bind (m_get (\<lambda>s. ensure (group_submitted (sc_groups s ! 0))
         ''prefill previous group is unsubmitted'' (Inr ()))) (\<lambda>_.
       m_bind (m_lift wait) (\<lambda>_.
       m_modify (\<lambda>s. s \<lparr> sc_groups := tl (sc_groups s) \<rparr>)))
     else m_return ()))"

definition load_group :: "'r pool_env \<Rightarrow> nat list \<Rightarrow> ('r scope, unit) stateful" where
  "load_group env active = scope_step (
     m_bind (m_get (\<lambda>s. ensure (length (sc_groups s) < 2 \<and> (\<forall>g\<in>set (sc_groups s). group_submitted g))
       ''prefill load requires submitted current and retired previous groups''
       (Inr (btree_set (concat (map group_sources (sc_groups s))),
             btree_set (concat (map group_slots (sc_groups s))))))) (\<lambda>(protect, reader_slots).
     m_bind (on_pool (ensure_group_disjoint env active protect reader_slots)) (\<lambda>_.
     m_bind (m_get (\<lambda>s. bindr (residency_map (sc_pool s)) (\<lambda>published.
       group_capture active published (e_capacity (sc_pool s))))) (\<lambda>group.
     m_modify (\<lambda>s. s \<lparr> sc_groups := sc_groups s @ [group] \<rparr>)))))"

definition submit_group :: "(nat list \<Rightarrow> unit result) \<Rightarrow> ('r scope, unit) stateful" where
  "submit_group encode = scope_step (
     m_bind (m_get (\<lambda>s. if sc_groups s = [] then Inl ''prefill has no loaded group''
       else ensure (\<not> group_submitted (last (sc_groups s))) ''prefill group was already submitted''
         (encode (group_map (last (sc_groups s)))))) (\<lambda>_.
     m_modify (\<lambda>s. s \<lparr> sc_groups := butlast (sc_groups s)
       @ [(last (sc_groups s)) \<lparr> group_submitted := True \<rparr>] \<rparr>)))"

definition scope_finish :: "'r scope \<Rightarrow> unit result" where
  "scope_finish s =
     ensure (\<not> sc_failed s \<and> (\<forall>g\<in>set (sc_groups s). group_submitted g))
       ''prefill cannot finish with an unsubmitted reader'' (Inr ())"

text \<open>A prefill interleaves the three steps in any order and with any outcome; the sources of a group
  are a set.\<close>

inductive scope_run :: "(nat \<Rightarrow> 'r) \<Rightarrow> 'r scope \<Rightarrow> 'r scope \<Rightarrow> bool" for content where
  start: "scope_run content s s"
| load: "scope_run content s t \<Longrightarrow> env_reads env content \<Longrightarrow> distinct active \<Longrightarrow> load_group env active t = (r, u)
    \<Longrightarrow> scope_run content s u"
| submit: "scope_run content s t \<Longrightarrow> submit_group encode t = (r, u) \<Longrightarrow> scope_run content s u"
| retire: "scope_run content s t \<Longrightarrow> retire_previous wait t = (r, u) \<Longrightarrow> scope_run content s u"

section \<open>Recorded readers keep their rows\<close>

definition group_wf :: "'r pool \<Rightarrow> prefill_group \<Rightarrow> bool" where
  "group_wf p g \<longleftrightarrow> (\<forall>source\<in>set (group_sources g).
       source < length (group_map g) \<and> bt_get (slot_of p) source = Some (group_map g ! source))
     \<and> set (group_slots g) = (\<lambda>source. group_map g ! source) ` set (group_sources g)"

definition scope_wf :: "(nat \<Rightarrow> 'r) \<Rightarrow> 'r scope \<Rightarrow> bool" where
  "scope_wf content s \<longleftrightarrow> pool_wf content (sc_pool s)
     \<and> (\<forall>g\<in>set (sc_groups s). group_wf (sc_pool s) g) \<and> length (sc_groups s) \<le> 2"

lemma group_wf_next:
  assumes "group_wf p g" "pool_wf content p" "pool_next content keep p q" "set (group_sources g) \<subseteq> keep"
  shows "group_wf q g"
  using assms unfolding group_wf_def pool_next_def by blast

text \<open>A reader's slot is never the slot chosen for a new source: the check never fails.\<close>

lemma reader_slot_not_chosen:
  assumes wf: "pool_wf content p" and g: "\<forall>g\<in>set groups. group_wf p g"
    and k: "\<forall>g\<in>set groups. set (group_sources g) \<subseteq> set protected"
    and c: "choose_slot protected p = Inr slot"
  shows "slot \<notin> set (concat (map group_slots groups))"
proof
  assume "slot \<in> set (concat (map group_slots groups))"
  then obtain grp source where gs: "grp \<in> set groups" "source \<in> set (group_sources grp)"
    "slot = group_map grp ! source" using g by (auto simp: group_wf_def)
  with g have "bt_get (slot_of p) source = Some slot" by (simp add: group_wf_def)
  then have "expert_at p ! slot = Some source" using published_slot_row [OF wf] by blast
  moreover have "source \<in> set protected" using k gs by blast
  ultimately have r: "expert_at p ! slot = Some source" "source \<in> set protected" by simp_all
  from c show False by (cases rule: choose_slot_cases) (use r in auto)
qed

lemma load_disjoint_next:
  assumes n: "bt_get (slot_of p) source = None" "source < num_experts p" and k: "keep \<subseteq> set protected"
  shows "relates (pool_next content keep)
    (load_read_row_disjoint env source (content source) protected reader_slots) p"
proof (cases "choose_slot protected p")
  case (Inl e)
  then show ?thesis by (simp add: load_read_row_disjoint_def relates_def m_bind_def pool_next_def)
next
  case (Inr slot)
  have "relates (pool_next content keep) (place_row env source protected (content source)) p"
    by (rule place_row_next [OF n k])
  then show ?thesis using Inr
    by (cases "slot \<in> set reader_slots")
      (auto simp: load_read_row_disjoint_def place_row_def relates_def m_bind_def pool_next_def
        split: prod.splits sum.splits)
qed

lemma disjoint_step_next:
  assumes e: "env_reads env content" and s: "source < num_experts p" and k: "keep \<subseteq> set protected"
  shows "relates (pool_next content keep) (disjoint_step env protected reader_slots source u) p"
  unfolding disjoint_step_def
proof (rule pool_steps(1), rule pool_bind, goal_cases)
  case (1 found)
  show ?case
  proof (cases found)
    case (Some slot)
    then show ?thesis by (simp add: pool_steps)
  next
    case None
    with 1 have n: "bt_get (slot_of p) source = None" by simp
    have "row = content source" if "read_row env source = Inr row" for row
      using e that by (simp add: env_reads_def)
    with None load_disjoint_next [OF n s k] show ?thesis by (auto intro!: pool_steps)
  qed
qed (rule touch_next)

lemma ensure_disjoint_next:
  assumes wf: "pool_wf content p" and e: "env_reads env content" and k: "keep \<subseteq> set (active @ protect)"
  shows "relates (pool_next content keep) (ensure_group_disjoint env active protect reader_slots) p"
  unfolding ensure_group_disjoint_def
proof (rule pool_steps(1), rule pool_steps(1), rule pool_bind, goal_cases)
  case (1 u v)
  note v = validate_group_Inr [OF 1(1)]
  show ?case by (rule pool_for [OF wf], rule disjoint_step_next [OF e]) (use v k in auto)
qed (rule pool_steps)

lemma residency_fold:
  assumes "try_fold (residency_step p) m es = Inr m'" and "length m = 512"
    and "sorted_wrt (<) (map fst es)"
  shows "length m' = 512" and "\<And>source. source < 512 \<Longrightarrow> m' ! source = unwrap_or (m ! source) (map_of es source)"
  using assms
proof (induction es arbitrary: m)
  case Nil
  { case 1 then show ?case by simp next case 2 then show ?case by simp }
next
  case (Cons e es)
  have step: "try_fold (residency_step p) m (e # es) = Inr m' \<Longrightarrow>
      fst e < 512 \<and> try_fold (residency_step p) (m[fst e := snd e]) es = Inr m'" for m m'
    by (auto simp: result_simps residency_step_def)
  { case (1 m) then show ?case using step [OF 1(1)] Cons.IH(1) [of "m[fst e := snd e]"] by simp }
  { case (2 source m)
    with step [OF 2(2)] Cons.IH(2) [of source "m[fst e := snd e]"] have
      "m' ! source = unwrap_or (m[fst e := snd e] ! source) (map_of es source)" by simp
    moreover have "source = fst e \<Longrightarrow> map_of es source = None"
      using 2(4) by (auto simp: map_of_eq_None_iff)
    ultimately show ?case using 2 by (cases e) (auto simp: nth_list_update split: option.splits) }
qed

lemma residency_map_Inr:
  assumes "pool_wf content p" "residency_map p = Inr m"
  shows "length m = 512" and "source < 512 \<Longrightarrow> m ! source = unwrap_or 512 (bt_get (slot_of p) source)"
proof -
  have "sorted_wrt (<) (map fst (slot_of p))" using assms(1) by (simp add: pool_wf_def published_wf_def bt_wf_def)
  with assms(2) residency_fold [of p "replicate 512 512" "slot_of p" m]
  show "length m = 512" "source < 512 \<Longrightarrow> m ! source = unwrap_or 512 (bt_get (slot_of p) source)"
    by (auto simp: residency_map_def result_simps bt_get_def)
qed

lemma capture_fold:
  assumes "try_fold (capture_step published cap) (slots, m) sources = Inr (slots', m')"
    and "distinct sources" "length m = 512" "length published = 512"
  shows "length m' = 512"
    and "\<forall>source\<in>set sources. source < 512 \<and> m' ! source = published ! source \<and> published ! source < cap"
    and "\<forall>source. source \<notin> set sources \<longrightarrow> m' ! source = m ! source"
    and "set slots' = set slots \<union> (\<lambda>source. published ! source) ` set sources"
  using assms
proof (induction sources arbitrary: slots m)
  case Nil
  { case 1 then show ?case by simp next case 2 then show ?case by simp
    next case 3 then show ?case by simp next case 4 then show ?case by simp }
next
  case (Cons x xs)
  have step: "try_fold (capture_step published cap) (slots, m) (x # xs) = Inr (slots', m') \<Longrightarrow>
      x < length published \<and> published ! x < cap
      \<and> try_fold (capture_step published cap) (published ! x # slots, m[x := published ! x]) xs = Inr (slots', m')" for slots m slots' m'
    by (auto simp: result_simps capture_step_def split: if_splits)
  { case (1 slots m) then show ?case using step [OF 1(1)] Cons.IH(1) [of "published ! x # slots" "m[x := published ! x]"] by simp }
  { case (2 slots m) then show ?case using step [OF 2(1)] Cons.IH(2,3) [of "published ! x # slots" "m[x := published ! x]"] by simp }
  { case (3 slots m) then show ?case using step [OF 3(1)] Cons.IH(3) [of "published ! x # slots" "m[x := published ! x]"] by simp }
  { case (4 slots m) then show ?case using step [OF 4(1)] Cons.IH(4) [of "published ! x # slots" "m[x := published ! x]"] by auto }
qed

lemma group_capture_wf:
  assumes wf: "pool_wf content p" and m: "residency_map p = Inr published"
    and c: "group_capture sources published (e_capacity p) = Inr g" and d: "distinct sources"
  shows "group_wf p g" "group_sources g = sources"
proof -
  from c obtain slots m' where f: "try_fold (capture_step published (e_capacity p)) ([], replicate 512 512) sources
      = Inr (slots, m')" and g: "g = \<lparr> group_sources = sources, group_slots = btree_set slots, group_map = m',
            group_submitted = False \<rparr>"
    by (auto simp: group_capture_def result_simps)
  note r = residency_map_Inr [OF wf m]
  note k = capture_fold [OF f d _ r(1)]
  have cap: "e_capacity p \<le> 512"
    using wf m by (auto simp: residency_map_def result_simps pool_wf_def extents_wf_def)
  have "bt_get (slot_of p) source = Some (m' ! source)" if "source \<in> set sources" for source
    using k(2) r(2) [of source] that cap by (cases "bt_get (slot_of p) source") auto
  with k show "group_wf p g" by (auto simp: group_wf_def g image_iff)
  show "group_sources g = sources" by (simp add: g)
qed


section \<open>Steps of the scope\<close>

lemma scope_step_cases:
  assumes "scope_step action s = (r, u)"
  shows "u = s \<or> (\<exists>t. action s = (r, t) \<and> (u = t \<or> u = t \<lparr> sc_failed := True \<rparr>))"
  using assms by (auto simp: scope_step_def split: if_splits prod.splits sum.splits)

lemma scope_wf_failed [simp]: "scope_wf content (s \<lparr> sc_failed := b \<rparr>) = scope_wf content s"
  by (simp add: scope_wf_def)

lemma scope_wf_drop:
  "scope_wf content s \<Longrightarrow> set gs \<subseteq> set (sc_groups s) \<Longrightarrow> length gs \<le> 2 \<Longrightarrow>
     scope_wf content (s \<lparr> sc_groups := gs \<rparr>)"
  by (auto simp: scope_wf_def)

lemma retire_previous_wf:
  assumes wf: "scope_wf content s" and r: "retire_previous wait s = (r, u)"
  shows "scope_wf content u"
proof -
  have "scope_wf content (s \<lparr> sc_groups := tl (sc_groups s) \<rparr>)" if "length (sc_groups s) = 2"
    by (rule scope_wf_drop [OF wf]) (use that in \<open>cases "sc_groups s"; auto\<close>)+
  then show ?thesis
    using scope_step_cases [OF r [unfolded retire_previous_def]] wf
    by (auto simp: m_bind_def split: if_splits sum.splits prod.splits)
qed

lemma submit_group_wf:
  assumes wf: "scope_wf content s" and r: "submit_group encode s = (r, u)"
  shows "scope_wf content u"
proof -
  have "scope_wf content (s \<lparr> sc_groups := butlast (sc_groups s) @ [(last (sc_groups s)) \<lparr> group_submitted := True \<rparr>] \<rparr>)"
    if "sc_groups s \<noteq> []"
    using wf that by (auto simp: scope_wf_def group_wf_def in_set_butlastD)
  then show ?thesis
    using scope_step_cases [OF r [unfolded submit_group_def]] wf
    by (auto simp: m_bind_def split: if_splits sum.splits prod.splits)
qed

lemma load_group_wf:
  assumes wf: "scope_wf content s" and e: "env_reads env content" and d: "distinct active"
    and r: "load_group env active s = (r, u)"
  shows "scope_wf content u"
proof -
  let ?protect = "btree_set (concat (map group_sources (sc_groups s)))"
    and ?slots = "btree_set (concat (map group_slots (sc_groups s)))"
  obtain res q where q: "ensure_group_disjoint env active ?protect ?slots (sc_pool s) = (res, q)" by fastforce
  have pw: "pool_wf content (sc_pool s)" using wf by (simp add: scope_wf_def)
  note n = relatesD [OF ensure_disjoint_next [OF pw e order_refl] q]
  have qw: "pool_wf content q" using n pw by (simp add: pool_next_def)
  have sq: "scope_wf content (s \<lparr> sc_pool := q \<rparr>)"
    using wf qw n pw group_wf_next [of "sc_pool s" _ content "set (active @ ?protect)" q]
    by (fastforce simp: scope_wf_def)
  have new: "scope_wf content (s \<lparr> sc_pool := q, sc_groups := sc_groups s @ [g] \<rparr>)"
    if "residency_map q = Inr published" "group_capture active published (e_capacity q) = Inr g"
      "length (sc_groups s) < 2" for published g
    using sq group_capture_wf(1) [OF qw that(1,2) d] that(3) by (auto simp: scope_wf_def)
  from scope_step_cases [OF r [unfolded load_group_def]] show ?thesis
  proof (elim disjE exE conjE)
    assume "u = s"
    with wf show ?thesis by simp
  next
    fix t assume a: "m_bind (m_get (\<lambda>s. ensure (length (sc_groups s) < 2 \<and> (\<forall>g\<in>set (sc_groups s). group_submitted g))
       ''prefill load requires submitted current and retired previous groups''
       (Inr (btree_set (concat (map group_sources (sc_groups s))),
             btree_set (concat (map group_slots (sc_groups s))))))) (\<lambda>(protect, reader_slots).
     m_bind (on_pool (ensure_group_disjoint env active protect reader_slots)) (\<lambda>_.
     m_bind (m_get (\<lambda>s. bindr (residency_map (sc_pool s)) (\<lambda>published.
       group_capture active published (e_capacity (sc_pool s))))) (\<lambda>group.
     m_modify (\<lambda>s. s \<lparr> sc_groups := sc_groups s @ [group] \<rparr>)))) s = (r, t)"
    have "scope_wf content t"
    proof (cases "length (sc_groups s) < 2 \<and> (\<forall>g\<in>set (sc_groups s). group_submitted g)")
      case False
      with a wf show ?thesis by (simp add: m_bind_def ensure_def)
    next
      case True
      note a' = a [unfolded m_bind_def m_get_def on_pool_def, simplified True ensure_def]
      show ?thesis
      proof (cases res)
        case (Inl m)
        with a' True q sq show ?thesis by auto
      next
        case (Inr v)
        show ?thesis
        proof (cases "bindr (residency_map q) (\<lambda>published. group_capture active published (e_capacity q))")
          case (Inl m)
          with a' True q sq Inr show ?thesis by auto
        next
          case (Inr g)
          with a' True q \<open>res = Inr v\<close> have "t = s \<lparr> sc_pool := q, sc_groups := sc_groups s @ [g] \<rparr>" by auto
          with new Inr True show ?thesis by (auto simp: result_simps)
        qed
      qed
    qed
    then show "u = t \<Longrightarrow> ?thesis" "u = t \<lparr> sc_failed := True \<rparr> \<Longrightarrow> ?thesis" by simp_all
  qed
qed


lemma scope_run_wf: "scope_run content s t \<Longrightarrow> scope_wf content s \<Longrightarrow> scope_wf content t"
  by (induction rule: scope_run.induct) (auto intro: load_group_wf submit_group_wf retire_previous_wf)

lemma scope_new_wf: "scope_new env p = Inr s \<Longrightarrow> pool_wf content p \<Longrightarrow> scope_wf content s"
  by (auto simp: scope_new_def result_simps scope_wf_def)

text \<open>A slot with a recorded reader holds the row captured for that reader.\<close>

lemma scope_reader_row:
  assumes "scope_wf content s" "g \<in> set (sc_groups s)" "source \<in> set (group_sources g)"
  shows "expert_at (sc_pool s) ! (group_map g ! source) = Some source"
    and "slot_rows (sc_pool s) ! (group_map g ! source) = Some (content source)"
    and "group_map g ! source < e_capacity (sc_pool s)"
proof -
  have "pool_wf content (sc_pool s)" "bt_get (slot_of (sc_pool s)) source = Some (group_map g ! source)"
    using assms by (auto simp: scope_wf_def group_wf_def)
  from published_slot_row [OF this] show "expert_at (sc_pool s) ! (group_map g ! source) = Some source"
    "slot_rows (sc_pool s) ! (group_map g ! source) = Some (content source)"
    "group_map g ! source < e_capacity (sc_pool s)" by simp_all
qed

end
