(* ===== verification/Expert_Properties.thy ===== *)
theory Expert_Properties
  imports Prefill_Scope Sample_Inputs
begin

text \<open>
  The properties of the expert storage of \<open>src/experts.rs\<close>, \<open>src/experts/chunks.rs\<close> and
  \<open>src/engine/expert_capacity.rs\<close>: the slab layout, growth and release of the chunk suffix, the slots a
  demand chooses, what a demand publishes, the readers of a prefill, and the joint resize of all layers.
\<close>

section \<open>Chunk storage\<close>

text \<open>the streams of a slab never overlap: in the layout of a chunk of \<open>n\<close> slots every nonempty stream of every
  projection starts at a multiple of 16 bytes, holds \<open>n\<close> slots of its per-slot size, ends before the next one starts
  and inside the allocated bytes.\<close>

theorem slab_streams_disjoint:
  assumes "slab_layout gs n = Inr (offsets, bytes)"
  shows "\<exists>sizes. list_all2 (\<lambda>g ws. slot_stream_bytes g = Inr ws) gs sizes
    \<and> list_all2 (\<lambda>ws offs. length offs = length ws) sizes offsets
    \<and> (\<forall>i < length (concat sizes). concat sizes ! i \<noteq> 0 \<longrightarrow>
         concat offsets ! i mod 16 = 0 \<and> concat offsets ! i + n * (concat sizes ! i) \<le> bytes
         \<and> (\<forall>j < length (concat sizes). i < j \<longrightarrow> concat sizes ! j \<noteq> 0 \<longrightarrow>
              concat offsets ! i + n * (concat sizes ! i) \<le> concat offsets ! j))"
proof -
  obtain sizes where s: "list_all2 (\<lambda>g ws. slot_stream_bytes g = Inr ws) gs sizes"
    "streams_placed n 0 (concat sizes) (concat offsets) bytes"
    "list_all2 (\<lambda>ws offs. length offs = length ws) sizes offsets"
    using slab_layout_placed [OF assms] by blast
  with streams_placed_nth [OF s(2)] show ?thesis by blast
qed

lemma slab_streams_disjoint_witness:
  "\<exists>(offsets :: nat list list) sizes. list_all2 (\<lambda>g ws. slot_stream_bytes g = Inr ws) sample_geometries sizes
     \<and> list_all2 (\<lambda>ws offs. length offs = length ws) sizes offsets"
proof -
  obtain offsets where "slab_layout sample_geometries 16 = Inr (offsets, 31866880)" using sample_slab by blast
  from slab_streams_disjoint [OF this] obtain sizes
    where "list_all2 (\<lambda>g ws. slot_stream_bytes g = Inr ws) sample_geometries sizes"
      "list_all2 (\<lambda>ws offs. length offs = length ws) sizes offsets" by (elim exE conjE)
  then show ?thesis by (intro exI conjI) assumption+
qed

text \<open>Every slot of the pool has one home: a slot within the capacity is located in exactly the chunk whose range
  holds it, at its distance from that range's start, so no two slots share a place, and a slot beyond the capacity is
  refused.\<close>

theorem slot_location_exact:
  assumes "chunks_wf fc"
  shows "(\<forall>slot < fc_capacity fc. \<exists>i off. location fc slot = Inr (i, off) \<and> i < length (fc_chunks fc)
      \<and> chunk_start (fc_chunks fc ! i) + off = slot \<and> slot < chunk_end (fc_chunks fc ! i))
    \<and> (\<forall>slot other. slot < fc_capacity fc \<longrightarrow> location fc slot = location fc other \<longrightarrow> slot = other)
    \<and> (\<forall>slot \<ge> fc_capacity fc. \<exists>e. location fc slot = Inl e)"
proof -
  have out: "\<exists>e. location fc slot = Inl e" if "fc_capacity fc \<le> slot" for slot
    using that by (auto simp: location_def)
  have "slot = other" if s: "slot < fc_capacity fc" "location fc slot = location fc other" for slot other
  proof -
    obtain i off where l: "location fc slot = Inr (i, off)" "chunk_start (fc_chunks fc ! i) + off = slot"
      using location_total [OF assms s(1)] by blast
    have "other < fc_capacity fc" using out [of other] l(1) s(2) by (auto simp: not_less [symmetric])
    with location_total [OF assms this] l s(2) show ?thesis by auto
  qed
  with location_total [OF assms] out show ?thesis by blast
qed

lemma sample_chunks_wf: "chunks_wf sample_chunks"
  by (rule fixed_chunks_new_wf [OF sample_chunks_new])

lemma slot_location_exact_witness: "(\<exists>i off. location sample_chunks 17 = Inr (i, off)) \<and> (\<exists>e. location sample_chunks 64 = Inl e)"
proof -
  have "fc_capacity sample_chunks = 64" by (simp add: sample_chunks_def)
  with slot_location_exact [OF sample_chunks_wf] show ?thesis
    by (metis order.refl numeral_less_iff semiring_norm(76) semiring_norm(78) semiring_norm(81))
qed

lemma chunks_cover_take_unique:
  "chunks_cover s cs e \<Longrightarrow> chunks_cover s (take k (cs @ ds)) e \<Longrightarrow> chunks_cover e ds f \<Longrightarrow> take k (cs @ ds) = cs"
proof (induction cs arbitrary: s k)
  case Nil
  then show ?case
  proof (cases "take k ds")
    case (Cons d rest)
    with Nil have "e < chunk_end d" "chunks_cover (chunk_end d) rest e" by simp_all
    with chunks_cover_le show ?thesis by fastforce
  qed simp
next
  case (Cons c cs)
  then show ?case
  proof (cases k)
    case 0
    with Cons.prems chunks_cover_le [of "chunk_end c" cs e] show ?thesis by auto
  next
    case (Suc m)
    with Cons.prems Cons.IH [of "chunk_end c" m] show ?thesis by (simp del: take_append)
  qed
qed

text \<open>Growth and release of the chunk suffix undo each other: releasing a grown storage back to its previous
  capacity yields the storage there was before, chunk by chunk, and frees exactly the bytes the growth was quoted and
  allocated; and a release to any smaller positive multiple of 16 slots is never refused.\<close>

theorem growth_release_roundtrip:
  assumes wf: "chunks_wf fc" and grow: "prepare_growth m fc target = Inr pg" and c: "fc_capacity fc mod 16 = 0"
    and lim: "sum_list (map chunk_bytes (fc_chunks (commit_growth pg fc))) < u64_limit"
  shows "\<exists>keep. prepare_suffix (commit_growth pg fc) (fc_capacity fc) = Inr (keep, added_requested_bytes (pg_quote pg))
    \<and> commit_suffix keep (fc_capacity fc) (commit_growth pg fc) = fc"
proof -
  let ?g = "commit_growth pg fc"
  note w = prepare_growth_wf [OF wf grow]
  have f: "fc_chunks ?g = fc_chunks fc @ pg_chunks pg" "fc_capacity ?g = target"
    using w(2) by (simp_all add: commit_growth_def)
  have t: "0 < fc_capacity fc" "fc_capacity fc < fc_capacity ?g"
    using wf quote_growth_Inr(1) [OF w(3)] f(2) by (simp_all add: chunks_wf_def)
  obtain keep bytes where r: "prepare_suffix ?g (fc_capacity fc) = Inr (keep, bytes)"
    using prepare_suffix_complete [OF w(1) t(1) c t(2) lim] by blast
  note s = prepare_suffix_Inr [OF w(1) r]
  have cov: "chunks_cover 0 (fc_chunks fc) (fc_capacity fc)" using wf by (simp add: chunks_wf_def)
  have "chunks_cover 0 (fc_chunks fc @ pg_chunks pg) target" using w(1) f by (simp add: chunks_wf_def)
  with chunks_cover_unique [OF cov] have "chunks_cover (fc_capacity fc) (pg_chunks pg) target"
    by (auto simp: chunks_cover_append)
  from chunks_cover_take_unique [OF cov s(2) [unfolded f] this]
  have take: "take keep (fc_chunks fc @ pg_chunks pg) = fc_chunks fc" .
  have "drop keep (fc_chunks fc @ pg_chunks pg) = pg_chunks pg"
    using append_take_drop_id [of keep "fc_chunks fc @ pg_chunks pg"] unfolding take by simp
  with s(6) w(5) have "bytes = added_requested_bytes (pg_quote pg)" by (simp add: f del: drop_append)
  moreover have "fc_addresses_len fc = address_table_bytes" using wf by (simp add: chunks_wf_def)
  with take f have "commit_suffix keep (fc_capacity fc) ?g = fc"
    by (simp add: commit_suffix_def commit_growth_def)
  ultimately show ?thesis using r by blast
qed

lemma growth_release_roundtrip_witness:
  "\<exists>keep. prepare_suffix grown_chunks 64 = Inr (keep, 31866880) \<and> commit_suffix keep 64 grown_chunks = sample_chunks"
proof -
  have "fc_capacity sample_chunks = 64" "commit_growth \<lparr> pg_chunks = [slab 64 80], pg_target = 80,
      pg_quote = \<lparr> added_requested_bytes = 31866880, preparation_requested_bytes = 31940464 \<rparr> \<rparr> sample_chunks = grown_chunks"
    by (simp_all add: sample_chunks_def grown_chunks_def commit_growth_def address_table_bytes_def MAX_BOUNDED_SLOTS_def)
  moreover have "sum_list (map chunk_bytes (fc_chunks grown_chunks)) < u64_limit"
    by (simp add: grown_chunks_def sample_chunks_def slab_def u64_limit_def)
  ultimately show ?thesis using growth_release_roundtrip [OF sample_chunks_wf sample_prepare_growth] by simp
qed

section \<open>Slots\<close>

text \<open>a pool opens empty and consistent: whatever kernels, storage and limits its package layer has, a pool that opens
  has the capacity asked for, between the ten routed experts and the package's experts, every slot empty, no expert
  published, chunked storage of that capacity below 512 slots and contiguous storage at full residency.\<close>

theorem pool_opens_empty:
  assumes "with_workspace env contiguous pipelines layer capacity = Inr p"
  shows "pool_wf content p \<and> e_capacity p = capacity \<and> TOP_K \<le> capacity \<and> capacity \<le> pl_num_experts layer
    \<and> slot_of p = [] \<and> set (expert_at p) \<subseteq> {None} \<and> frequency p = []
    \<and> (case e_storage p of Chunked fc \<Rightarrow> capacity < 512 \<and> fc_capacity fc = capacity | Contiguous \<Rightarrow> 512 \<le> capacity)"
proof -
  have "\<exists>storage gs. pool_new (pl_num_experts layer) capacity storage = Inr p
    \<and> (if capacity < 512 then (\<exists>fc. fixed_chunks_new (env_metal env) gs capacity = Inr fc \<and> storage = Chunked fc)
       else storage = Contiguous)"
  proof (cases "capacity < 512")
    case True
    from assms obtain gate up down fc where "fixed_chunks_new (env_metal env) [gate, up, down] capacity = Inr fc"
      "pool_new (pl_num_experts layer) capacity (Chunked fc) = Inr p"
      unfolding with_workspace_def with_storage_def by (auto simp only: True if_True result_simps)
    with True show ?thesis by auto
  next
    case False
    from assms have "pool_new (pl_num_experts layer) capacity Contiguous = Inr p"
      unfolding with_workspace_def with_storage_def by (auto simp only: False if_False result_simps)
    with False show ?thesis by auto
  qed
  then obtain storage gs where n: "pool_new (pl_num_experts layer) capacity storage = Inr p"
    and s: "if capacity < 512 then (\<exists>fc. fixed_chunks_new (env_metal env) gs capacity = Inr fc \<and> storage = Chunked fc)
      else storage = Contiguous" by blast
  have fc: "chunks_wf fc \<and> fc_capacity fc = capacity \<and> capacity < 512" if "storage = Chunked fc" for fc
    using s that fixed_chunks_new_wf(1,2) [of _ gs capacity fc] by (auto split: if_splits)
  then have "pool_wf content p" using pool_new_wf [OF n] by blast
  with n s fc show ?thesis by (cases storage) (auto simp: pool_new_def result_simps split: if_splits)
qed

lemma pool_opens_empty_witness: "pool_wf (\<lambda>x. x) sample_pool \<and> e_capacity sample_pool = 64"
  using pool_opens_empty [OF sample_pool_new, of "\<lambda>x. x"] by blast

text \<open>a demand never waits for a slot and never evicts what it still needs: while the protected experts fit the
  capacity, a slot is always found for a missing one of them. It is the first empty slot, or, in a full pool, the slot
  of an unprotected expert, the least frequently used and among those the least recently used.\<close>

theorem victim_is_coldest:
  assumes wf: "pool_wf content p" and fit: "length (btree_set protected) \<le> e_capacity p"
    and src: "source \<in> set protected" "bt_get (slot_of p) source = None"
  shows "\<exists>slot. choose_slot protected p = Inr slot \<and> slot < e_capacity p
    \<and> (if None \<in> set (expert_at p) then expert_at p ! slot = None \<and> (\<forall>i < slot. expert_at p ! i \<noteq> None)
       else \<exists>victim. expert_at p ! slot = Some victim \<and> victim \<notin> set protected
         \<and> (\<forall>other rival. other < e_capacity p \<longrightarrow> expert_at p ! other = Some rival \<longrightarrow> rival \<notin> set protected \<longrightarrow>
              (unwrap_or 0 (bt_get (frequency p) victim), last_use p ! slot)
                \<le> (unwrap_or 0 (bt_get (frequency p) rival), last_use p ! other)))"
proof -
  obtain slot where c: "choose_slot protected p = Inr slot" using choose_slot_total [OF wf fit src] by blast
  have len: "length (expert_at p) = e_capacity p" using wf by (simp add: pool_wf_defs)
  show ?thesis
  proof (cases "position (\<lambda>s. s = None) (expert_at p)")
    case (Some i)
    then have "slot = i" using c by (simp add: choose_slot_def)
    with Some c len show ?thesis by (auto simp: position_Some in_set_conv_nth)
  next
    case None
    then have n: "None \<notin> set (expert_at p)" by (auto simp: position_None)
    from c show ?thesis
    proof (cases rule: choose_slot_cases)
      case free
      with n show ?thesis by (metis nth_mem)
    next
      case (victim v)
      with c len n show ?thesis by auto
    qed
  qed
qed

definition full_pool :: "nat pool" where
  "full_pool = \<lparr> num_experts = 20, e_capacity = 10, e_storage = Contiguous,
     slot_of = map (\<lambda>i. (i, i)) [0..<10], expert_at = map Some [0..<10], last_use = [9, 8, 7, 6, 5, 4, 3, 2, 1, 0],
     frequency = map (\<lambda>i. (i, 1)) [0..<8], clock = 9, policy_reserved = 10, slot_rows = map Some [0..<10] \<rparr>"

lemma full_pool_fields [simp]:
  "num_experts full_pool = 20" "e_capacity full_pool = 10" "e_storage full_pool = Contiguous"
  "bt_get (slot_of full_pool) source = (if source < 10 then Some source else None)"
  "slot < 10 \<Longrightarrow> expert_at full_pool ! slot = Some slot" "None \<notin> set (expert_at full_pool)"
  by (auto simp: full_pool_def bt_get_def map_of_map_restrict restrict_map_def)

lemma full_pool_wf: "pool_wf (\<lambda>x. x) full_pool"
proof -
  have "bt_wf (slot_of full_pool)" "bt_wf (frequency full_pool)" "length (expert_at full_pool) = 10"
    "length (last_use full_pool) = 10" "length (slot_rows full_pool) = 10" "\<forall>u\<in>set (last_use full_pool). u \<le> clock full_pool"
    "\<And>slot. slot < 10 \<Longrightarrow> slot_rows full_pool ! slot = Some slot"
    by (simp_all add: full_pool_def bt_wf_def sorted_wrt_map)
  then show ?thesis by (auto simp: pool_wf_defs TOP_K_def split: if_splits)
qed

lemma victim_is_coldest_witness:
  "\<exists>slot. choose_slot [1, 9, 12] full_pool = Inr slot \<and> slot < 10 \<and> slot \<noteq> 1 \<and> slot \<noteq> 9"
proof -
  have "length (btree_set [1, 9, 12 :: nat]) \<le> e_capacity full_pool" by (simp add: btree_set_def)
  from victim_is_coldest [OF full_pool_wf this, of 12] show ?thesis by auto
qed

section \<open>Demands\<close>

text \<open>C37: a demand for a group of experts keeps the pool consistent however it ends: after a success and after a failure of
  any read, write, reader or counter, published experts and slots are inverse to each other with complete rows, the
  capacity is unchanged, and every expert of the group or of the protected set that was resident still is, in the same
  slot; after a success every expert of the group is resident with its own row.\<close>

theorem demand_keeps_pool_consistent:
  assumes wf: "pool_wf content p" and reads: "env_reads env content"
    and run: "ensure_group_protected env active protect p = (res, q)"
  shows "pool_wf content q \<and> e_capacity q = e_capacity p \<and> e_storage q = e_storage p
    \<and> (\<forall>source \<in> set (active @ protect). \<forall>slot.
         bt_get (slot_of p) source = Some slot \<longrightarrow> bt_get (slot_of q) source = Some slot)
    \<and> (\<forall>counts. res = Inr counts \<longrightarrow> (\<forall>source \<in> set active. \<exists>slot < e_capacity q.
         bt_get (slot_of q) source = Some slot \<and> slot_rows q ! slot = Some (content source)))"
proof -
  from relatesD [OF ensure_group_next [OF wf reads order.refl] run] wf
  have next_: "pool_wf content q" "e_capacity q = e_capacity p" "e_storage q = e_storage p"
    "\<forall>source \<in> set (active @ protect). \<forall>slot.
       bt_get (slot_of p) source = Some slot \<longrightarrow> bt_get (slot_of q) source = Some slot"
    by (simp_all add: pool_next_def)
  have "\<exists>slot < e_capacity q. bt_get (slot_of q) source = Some slot \<and> slot_rows q ! slot = Some (content source)"
    if "res = Inr counts" "source \<in> set active" for counts source
    using ensure_group_published [OF wf reads run [unfolded that(1)]] that(2) published_slot_row [OF next_(1)] by blast
  with next_ show ?thesis by blast
qed

lemma sample_env_reads: "env_reads sample_env (\<lambda>x. x)"
  by (simp add: env_reads_def sample_env_def)

lemma demand_keeps_pool_consistent_witness:
  "pool_wf (\<lambda>x. x) (snd (ensure_group_protected sample_env [3, 12] [1] full_pool))
   \<and> bt_get (slot_of (snd (ensure_group_protected sample_env [3, 12] [1] full_pool))) 1 = Some 1"
proof -
  have "ensure_group_protected sample_env [3, 12] [1] full_pool = (fst (ensure_group_protected sample_env [3, 12] [1] full_pool),
      snd (ensure_group_protected sample_env [3, 12] [1] full_pool))" by simp
  from demand_keeps_pool_consistent [OF full_pool_wf sample_env_reads this] show ?thesis by simp
qed

text \<open>The collaborators do not fail.\<close>

definition env_serves :: "'r pool_env \<Rightarrow> (nat \<Rightarrow> 'r) \<Rightarrow> bool" where
  "env_serves env content \<longleftrightarrow> (\<forall>source. read_row env source = Inr (content source)) \<and> writable env = Inr ()
     \<and> (\<forall>slot. preflight env slot = Inr ()) \<and> (\<forall>slot. write_slot env slot = Inr ())
     \<and> (\<forall>sources. start_reader env sources = Inr ()) \<and> finish_reader env = Inr ()"

definition use_at_most :: "nat \<Rightarrow> 'r pool \<Rightarrow> bool" where
  "use_at_most n p \<longleftrightarrow> clock p \<le> n \<and> (\<forall>source. unwrap_or 0 (bt_get (frequency p) source) \<le> n)"

lemma touch_serves:
  assumes "use_at_most n p" "n + 1 < u64_limit"
  shows "\<exists>q. touch source slot p = (Inr (), q) \<and> use_at_most (n + 1) q"
proof -
  have c: "checked_add (clock p) 1 = Some (clock p + 1)"
    "checked_add (unwrap_or 0 (bt_get (frequency p) source)) 1 = Some (unwrap_or 0 (bt_get (frequency p) source) + 1)"
    using assms by (auto simp: use_at_most_def checked_add_def dest: spec [of _ source])
  have u: "unwrap_or 0 (bt_get (frequency p) other) \<le> n" for other using assms(1) by (simp add: use_at_most_def)
  have "unwrap_or 0 (bt_get (frequency p) other) \<le> n + 1" for other using u [of other] by simp
  moreover have "unwrap_or 0 (map_option (\<lambda>c. c div 2) (bt_get (frequency p) other)) \<le> n + 1" for other
    using u [of other] by (cases "bt_get (frequency p) other") auto
  moreover have "(unwrap_or 0 (bt_get (frequency p) source) + 1) div 2 \<le> n + 1"
    by (rule order.trans [OF div_le_dividend]) (use u [of source] in simp)
  moreover have "unwrap_or 0 (bt_get (frequency p) source) + 1 \<le> n + 1" "clock p + 1 \<le> n + 1"
    using u [of source] assms(1) by (simp_all add: use_at_most_def)
  ultimately show ?thesis
    using c by (simp add: touch_def Let_def use_at_most_def btree_simps del: One_nat_def)
qed

lemma replace_source_serves:
  assumes wf: "pool_wf content p" and s: "slot < e_capacity p" and e: "env_serves env content"
  shows "\<exists>q. replace_source env source slot row p = (Inr (), q) \<and> clock q = clock p \<and> frequency q = frequency p"
proof -
  have l: "\<exists>x. location fc slot = Inr x" if "e_storage p = Chunked fc" for fc
    using wf that s location_total [of fc slot] by (auto simp: pool_wf_defs)
  have "projections_at (e_storage p) slot = Inr ()"
    by (cases "e_storage p") (auto simp: projections_at_def dest: l)
  with e show ?thesis
    by (auto simp: replace_source_eq env_serves_def Let_def withdraw_def split: option.splits)
qed

lemma demand_step_serves:
  assumes wf: "pool_wf content p" and e: "env_serves env content" and n: "use_at_most n p" "n + 1 < u64_limit"
    and s: "source \<in> set protected" "length (btree_set protected) \<le> e_capacity p"
  shows "\<exists>acc' q. demand_step env active protected source acc p = (Inr acc', q) \<and> use_at_most (n + 1) q
    \<and> hits (fst acc') + misses (fst acc') = hits (fst acc) + misses (fst acc) + 1"
proof (cases "bt_get (slot_of p) source")
  case (Some slot)
  from touch_serves [OF n] obtain q where "touch source slot p = (Inr (), q)" "use_at_most (n + 1) q" by blast
  with Some show ?thesis by (simp add: demand_step_def)
next
  case None
  obtain slot where c: "choose_slot protected p = Inr slot" using choose_slot_total [OF wf s(2,1) None] by blast
  have "slot < e_capacity p" using c wf by (cases rule: choose_slot_cases) (simp_all add: pool_wf_defs)
  from replace_source_serves [OF wf this e] obtain t
    where t: "replace_source env source slot (content source) p = (Inr (), t)" "clock t = clock p" "frequency t = frequency p"
    by blast
  have "use_at_most n t" using n(1) t by (simp add: use_at_most_def)
  from touch_serves [OF this n(2)] obtain q where "touch source slot t = (Inr (), q)" "use_at_most (n + 1) q" by blast
  with None c t(1) e show ?thesis
    by (simp add: demand_step_def load_demand_row_def place_row_def env_serves_def)
qed

lemma demand_loop_serves:
  assumes "pool_wf content p" and e: "env_serves env content" and "use_at_most n p" "n + length xs < u64_limit"
    and "set xs \<subseteq> set protected" "length (btree_set protected) \<le> e_capacity p" "\<forall>x\<in>set xs. x < num_experts p"
  shows "\<exists>acc' q. m_for xs (demand_step env active protected) acc p = (Inr acc', q)
    \<and> hits (fst acc') + misses (fst acc') = hits (fst acc) + misses (fst acc) + length xs"
  using assms
proof (induction xs arbitrary: p acc n)
  case (Cons x xs)
  have r: "env_reads env content" using e by (simp add: env_reads_def env_serves_def)
  have "n + 1 < u64_limit" "x \<in> set protected" using Cons.prems(4,5) by simp_all
  from demand_step_serves [OF Cons.prems(1) e Cons.prems(3) this(1) this(2) Cons.prems(6), of active acc]
  obtain acc1 t where s: "demand_step env active protected x acc p = (Inr acc1, t)" "use_at_most (n + 1) t"
    "hits (fst acc1) + misses (fst acc1) = hits (fst acc) + misses (fst acc) + 1" by blast
  have "x < num_experts p" using Cons.prems(7) by simp
  from relatesD [OF demand_step_next [OF r this order.refl] s(1)] Cons.prems(1)
  have t: "pool_wf content t" "e_capacity t = e_capacity p" "num_experts t = num_experts p" by (simp_all add: pool_next_def)
  have "\<exists>acc' q. m_for xs (demand_step env active protected) acc1 t = (Inr acc', q)
    \<and> hits (fst acc') + misses (fst acc') = hits (fst acc1) + misses (fst acc1) + length xs"
    by (rule Cons.IH [OF t(1) e s(2)]) (use Cons.prems t in simp_all)
  with s show ?case by auto
qed simp

text \<open>C38: a valid demand is always met: when no collaborator fails, the group and the protected experts fit the pool and
  no counter is within the group's size of its limit, the demand returns, every expert of the group is resident with
  its own row, and each of them was counted once, as a hit or as a miss.\<close>

theorem valid_demand_is_met:
  assumes wf: "pool_wf content p" and e: "env_serves env content"
    and group: "active \<noteq> []" "length active \<le> e_capacity p" "length (btree_set (active @ protect)) \<le> e_capacity p"
      "\<forall>id \<in> set (active @ protect). id < num_experts p"
    and lim: "use_at_most n p" "n + length active < u64_limit"
  shows "\<exists>counts q. ensure_group_protected env active protect p = (Inr counts, q)
    \<and> hits counts + misses counts = length active
    \<and> (\<forall>source \<in> set active. \<exists>slot < e_capacity q.
         bt_get (slot_of q) source = Some slot \<and> slot_rows q ! slot = Some (content source))"
proof -
  have v: "validate_group active protect p = Inr ()"
    using group by (auto simp: validate_group_def Let_def)
  have "\<exists>acc q. m_for active (demand_step env active (btree_set (active @ protect))) (\<lparr> hits = 0, misses = 0, evictions = 0 \<rparr>, False) p
      = (Inr acc, q) \<and> hits (fst acc) + misses (fst acc) = hits \<lparr> hits = 0, misses = 0, evictions = 0 \<rparr>
        + misses \<lparr> hits = 0, misses = 0, evictions = 0 \<rparr> + length active"
    using demand_loop_serves [OF wf e lim, of "btree_set (active @ protect)" active "(\<lparr> hits = 0, misses = 0, evictions = 0 \<rparr>, False)"]
      group by (simp add: length_btree_set)
  then obtain counts started q where q: "m_for active (demand_step env active (btree_set (active @ protect)))
      (\<lparr> hits = 0, misses = 0, evictions = 0 \<rparr>, False) p = (Inr (counts, started), q)"
    "hits counts + misses counts = length active" by auto
  have fr: "finish_reader env = Inr ()" using e by (simp add: env_serves_def)
  have r: "ensure_group_protected env active protect p = (Inr counts, q)"
    using q(1) v fr by (cases started) (simp_all add: ensure_group_protected_def)
  have reads: "env_reads env content" using e by (simp add: env_reads_def env_serves_def)
  from relatesD [OF ensure_group_next [OF wf reads order.refl] r] wf have "pool_wf content q" by (simp add: pool_next_def)
  from published_slot_row [OF this] ensure_group_published [OF wf reads r] q(2) r show ?thesis by blast
qed

lemma sample_env_serves: "env_serves sample_env (\<lambda>x. x)"
  by (simp add: env_serves_def sample_env_def)

lemma valid_demand_is_met_witness:
  "\<exists>counts q. ensure_group_protected sample_env [3, 12] [1] full_pool = (Inr counts, q) \<and> hits counts + misses counts = 2"
proof -
  have "use_at_most 9 full_pool"
    by (auto simp: use_at_most_def full_pool_def bt_get_def map_of_map_restrict restrict_map_def)
  moreover have "length (btree_set [3, 12, 1 :: nat]) = 3" "(11 :: nat) < u64_limit"
    by (simp_all add: btree_set_def u64_limit_def)
  ultimately show ?thesis
    using valid_demand_is_met [OF full_pool_wf sample_env_serves, of "[3, 12]" "[1]" 9] by fastforce
qed

text \<open>C39: a routed selection gets its own experts: when a selection of ten sources succeeds, the sources are distinct, each
  answer is a slot within the capacity holding exactly the row of its source, and no two sources share a slot.\<close>

theorem selection_reads_right_experts:
  assumes wf: "pool_wf content p" and reads: "env_reads env content" and ten: "length sources = TOP_K"
    and run: "ensure_selected env sources p = (Inr chosen, q)"
  shows "pool_wf content q \<and> length chosen = TOP_K \<and> distinct sources \<and> distinct chosen
    \<and> (\<forall>i < TOP_K. chosen ! i < e_capacity q \<and> expert_at q ! (chosen ! i) = Some (sources ! i)
         \<and> slot_rows q ! (chosen ! i) = Some (content (sources ! i)))"
proof -
  note r = run [unfolded ensure_selected_def]
  from relatesD [OF ensure_with_gate_next [OF wf reads order.refl] r] wf
  have q: "pool_wf content q" by (simp add: pool_next_def)
  note p = ensure_with_gate_Inr [OF wf reads r]
  have get: "bt_get (slot_of q) (sources ! i) = Some (chosen ! i)" if "i < TOP_K" for i
    using p(1) that ten by (auto simp: list_all2_conv_all_nth)
  have len: "length chosen = TOP_K" using p(1) ten by (auto simp: list_all2_lengthD)
  have "card (set sources) = length sources" using p(2) ten by (simp add: length_btree_set)
  then have d: "distinct sources" by (rule card_distinct)
  have "distinct chosen"
    unfolding distinct_conv_nth
  proof (intro allI impI)
    fix i j assume ij: "i < length chosen" "j < length chosen" "i \<noteq> j"
    then have "sources ! i \<noteq> sources ! j" using d len ten by (simp add: nth_eq_iff_index_eq)
    with get [of i] get [of j] published_slots_distinct [OF q] ij len show "chosen ! i \<noteq> chosen ! j" by metis
  qed
  with q len d published_slot_row [OF q get] show ?thesis by blast
qed

lemma selection_reads_right_experts_witness:
  "\<exists>chosen q. ensure_selected sample_env [9, 0, 1, 2, 3, 4, 5, 6, 7, 8] full_pool = (Inr chosen, q) \<and> distinct chosen
     \<and> slot_rows q ! (chosen ! 0) = Some 9"
proof -
  have "\<exists>q. ensure_selected sample_env [9, 0, 1, 2, 3, 4, 5, 6, 7, 8] full_pool = (Inr [9, 0, 1, 2, 3, 4, 5, 6, 7, 8], q)"
    by (simp add: ensure_selected_def ensure_with_gate_def check_sources_def btree_set_def TOP_K_def missing_of_def sample_env_def
        m_bind_def gated_step_def touch_def Let_def checked_add_def u64_limit_def btree_simps full_pool_def bt_get_def upt_rec
        published_slot_def)
  then obtain q where "ensure_selected sample_env [9, 0, 1, 2, 3, 4, 5, 6, 7, 8] full_pool = (Inr [9, 0, 1, 2, 3, 4, 5, 6, 7, 8], q)" ..
  moreover from selection_reads_right_experts [OF full_pool_wf sample_env_reads _ this]
  have h: "\<forall>i < 10. slot_rows q ! ([9, 0, 1, 2, 3, 4, 5, 6, 7, 8] ! i) = Some ([9, 0, 1, 2, 3, 4, 5, 6, 7, 8] ! i)"
    "distinct [9, 0, 1, 2, 3, 4, 5, 6, 7, 8 :: nat]" by (simp_all add: TOP_K_def)
  moreover have "slot_rows q ! 9 = Some 9" using h(1) [rule_format, of 0] by simp
  ultimately show ?thesis by auto
qed

text \<open>seeding makes exactly the asked experts resident: from an empty pool, a seeding that succeeds publishes every
  asked expert with its own row, and however it ends the pool is consistent and its capacity unchanged.\<close>

theorem seeding_publishes_residents:
  assumes wf: "pool_wf content p" and reads: "env_reads env content" and run: "seed_residents env sources p = (res, q)"
  shows "pool_wf content q \<and> e_capacity q = e_capacity p
    \<and> (res = Inr () \<longrightarrow> slot_of p = [] \<and> distinct sources \<and> length sources \<le> e_capacity p
         \<and> (\<forall>source \<in> set sources. \<exists>slot < e_capacity q.
              expert_at q ! slot = Some source \<and> slot_rows q ! slot = Some (content source)))"
proof (cases "slot_of p = [] \<and> length sources \<le> e_capacity p \<and> length (btree_set sources) = length sources
    \<and> (\<forall>id\<in>set sources. id < num_experts p)")
  case False
  then have "\<exists>e. seed_residents env sources p = (Inl e, p)"
    by (auto simp: seed_residents_def m_bind_def ensure_def)
  with run wf show ?thesis by auto
next
  case True
  then have "m_for (btree_set sources) (seed_step env (btree_set sources)) () p = (res, q)"
    using run by (simp add: seed_residents_def m_bind_def ensure_def)
  from seed_loop [OF reads _ _ wf _ _ this, of "[]"] True
  have s: "pool_wf content q" "e_capacity q = e_capacity p"
    "res = Inr () \<longrightarrow> (\<forall>source\<in>set sources. \<exists>slot. bt_get (slot_of q) source = Some slot)" by auto
  have "card (set sources) = length sources" using True by (simp add: length_btree_set)
  then have "distinct sources" by (rule card_distinct)
  with s True published_slot_row [OF s(1)] show ?thesis by blast
qed


definition empty_pool :: "nat pool" where
  "empty_pool = \<lparr> num_experts = 20, e_capacity = 10, e_storage = Contiguous, slot_of = [], 
     expert_at = [None, None, None, None, None, None, None, None, None, None],
     last_use = [0, 0, 0, 0, 0, 0, 0, 0, 0, 0], frequency = [], clock = 0, policy_reserved = 10,
     slot_rows = [None, None, None, None, None, None, None, None, None, None] \<rparr>"

lemma empty_pool_wf: "pool_wf content empty_pool"
proof -
  have "pool_new 20 10 Contiguous = Inr empty_pool" by (simp add: pool_new_def TOP_K_def empty_pool_def numeral_eq_Suc)
  then show ?thesis by (auto intro: pool_new_wf)
qed

lemma seeding_publishes_residents_witness:
  "\<exists>q. seed_residents sample_env [12, 3] empty_pool = (Inr (), q) \<and> (\<exists>slot < 10. slot_rows q ! slot = Some 12)"
proof -
  have "\<exists>q. seed_residents sample_env [12, 3] empty_pool = (Inr (), q)"
    by (simp add: seed_residents_def m_bind_def btree_set_def empty_pool_def seed_step_def load_source_def sample_env_def place_row_def
        choose_slot_def replace_source_def projections_at_def publish_replacement_def withdraw_def write_row_def
        touch_def Let_def checked_add_def u64_limit_def bt_get_def)
  then obtain q where q: "seed_residents sample_env [12, 3] empty_pool = (Inr (), q)" ..
  from seeding_publishes_residents [OF empty_pool_wf sample_env_reads q] have
    "\<exists>slot < e_capacity q. slot_rows q ! slot = Some 12" "e_capacity q = 10" by (auto simp: empty_pool_def)
  with q show ?thesis by auto
qed

section \<open>Prefill readers\<close>

text \<open>C40: a group that a prefill still reads is never overwritten: along any interleaving of loads, submissions and
  retirements with any failures, every recorded group finds each of its experts at the slot of its own map, inside the
  capacity and with its own complete row, at most two groups are recorded, and the pool is consistent.\<close>

theorem prefill_readers_undisturbed:
  assumes "scope_new env p = Inr s" "pool_wf content p" and run: "scope_run content s t"
  shows "pool_wf content (sc_pool t) \<and> length (sc_groups t) \<le> 2
    \<and> (\<forall>g \<in> set (sc_groups t). \<forall>source \<in> set (group_sources g).
         group_map g ! source < e_capacity (sc_pool t)
         \<and> expert_at (sc_pool t) ! (group_map g ! source) = Some source
         \<and> slot_rows (sc_pool t) ! (group_map g ! source) = Some (content source))"
proof -
  have w: "scope_wf content t" by (rule scope_run_wf [OF run scope_new_wf [OF assms(1,2)]])
  with scope_reader_row [OF w] show ?thesis by (simp add: scope_wf_def)
qed

definition opened_scope :: "nat scope" where
  "opened_scope = \<lparr> sc_pool = full_pool, sc_groups = [], sc_failed = False \<rparr>"

lemma opened_scope_new: "scope_new sample_env full_pool = Inr opened_scope"
  by (simp add: scope_new_def sample_env_def opened_scope_def)

lemma prefill_readers_undisturbed_witness:
  "\<exists>t. load_group sample_env [3, 12] opened_scope = t \<and> pool_wf (\<lambda>x. x) (sc_pool (snd t))"
proof -
  have "scope_run (\<lambda>x. x) opened_scope (snd (load_group sample_env [3, 12] opened_scope))"
    by (rule scope_run.load [OF scope_run.start sample_env_reads _ prod.collapse [symmetric]]) simp
  from prefill_readers_undisturbed [OF opened_scope_new full_pool_wf this] show ?thesis by simp
qed

text \<open>the check against outstanding readers is a safeguard that never fires: a victim chosen while a prefill has
  groups recorded is not a slot any of them reads, so a load is never refused for an outstanding reader.\<close>

theorem prefill_victim_never_read:
  assumes "scope_new env p = Inr s" "pool_wf content p" "scope_run content s t"
    and "choose_slot (btree_set (active @ btree_set (concat (map group_sources (sc_groups t))))) (sc_pool t) = Inr slot"
  shows "slot \<notin> set (btree_set (concat (map group_slots (sc_groups t))))"
proof -
  have w: "scope_wf content t" by (rule scope_run_wf [OF assms(3) scope_new_wf [OF assms(1,2)]])
  have "\<forall>g\<in>set (sc_groups t). set (group_sources g)
      \<subseteq> set (btree_set (active @ btree_set (concat (map group_sources (sc_groups t)))))" by auto
  from reader_slot_not_chosen [OF _ _ this assms(4), of content] w show ?thesis by (simp add: scope_wf_def)
qed

lemma prefill_victim_never_read_witness:
  "\<exists>slot. choose_slot (btree_set ([1, 12] @ btree_set (concat (map group_sources (sc_groups opened_scope))))) (sc_pool opened_scope)
     = Inr slot \<and> slot \<notin> set (btree_set (concat (map group_slots (sc_groups opened_scope))))"
proof -
  have "length (btree_set [1, 12 :: nat]) \<le> e_capacity full_pool" by (simp add: btree_set_def)
  from choose_slot_total [OF full_pool_wf, of "[1, 12]" 12] obtain slot where "choose_slot [1, 12] full_pool = Inr slot"
    by (auto simp: btree_set_def)
  then have "choose_slot (btree_set ([1, 12] @ btree_set (concat (map group_sources (sc_groups opened_scope)))))
      (sc_pool opened_scope) = Inr slot" by (simp add: opened_scope_def btree_set_def)
  with prefill_victim_never_read [OF opened_scope_new full_pool_wf scope_run.start this] show ?thesis by blast
qed

section \<open>Resizing the engine\<close>

text \<open>a change of the expert capacity is all or nothing over the layers: a growth or a release that fails leaves the
  engine as it was; one that succeeds leaves every layer consistent at the target capacity, reports the capacities
  before and after, and a growth prepared within the bytes it was granted.\<close>

theorem capacity_change_all_or_nothing:
  assumes wf: "engine_wf content e"
  shows "(\<forall>res e'. recover_expert_capacity env target granted e = (res, e') \<longrightarrow> (case res of
       Inl _ \<Rightarrow> e' = e
     | Inr r \<Rightarrow> engine_wf content e' \<and> en_capacity e' = target \<and> en_capacity e \<le> target
         \<and> er_old_capacity r = en_capacity e \<and> er_new_capacity r = target
         \<and> (er_preparation_bytes r \<le> granted \<or> target = en_capacity e)))
    \<and> (\<forall>res e'. shrink_expert_capacity env target e = (res, e') \<longrightarrow> (case res of
       Inl _ \<Rightarrow> e' = e
     | Inr r \<Rightarrow> engine_wf content e' \<and> en_capacity e' = target \<and> target \<le> en_capacity e
         \<and> cr_old_capacity r = en_capacity e \<and> cr_new_capacity r = target))"
  using recover_expert_capacity_Inr [OF wf] recover_expert_capacity_Inl shrink_expert_capacity_Inr [OF wf]
    shrink_expert_capacity_Inl by (auto split: sum.splits)

lemma capacity_change_all_or_nothing_witness:
  "\<exists>r e'. recover_expert_capacity sample_engine_env 80 40000000 sample_engine = (Inr r, e')
     \<and> engine_wf (\<lambda>_ x. x) e' \<and> en_capacity e' = 80 \<and> er_preparation_bytes r \<le> 40000000"
proof -
  have "31940464 \<le> (40000000 :: nat)" by simp
  note s = sample_recover [OF this]
  from capacity_change_all_or_nothing [OF sample_engine_wf [where content = "\<lambda>x. x"], where env = sample_engine_env
      and target = 80 and granted = 40000000] s
  show ?thesis by (auto simp: sample_engine_def)
qed

text \<open>Growing the pools and releasing the growth again disturbs no resident expert: after a recovery to a larger
  capacity followed by a release back to the old one, every layer maps every expert to the slot it had before.\<close>

theorem growth_release_keeps_residents:
  assumes wf: "engine_wf content e" and grow: "recover_expert_capacity env1 target granted e = (Inr r1, e1)"
    and release: "shrink_expert_capacity env2 (en_capacity e) e1 = (Inr r2, e2)" and i: "i < length (en_layers e)"
  shows "en_capacity e2 = en_capacity e
    \<and> bt_get (slot_of (en_layers e2 ! i)) source = bt_get (slot_of (en_layers e ! i)) source"
proof -
  note g = recover_expert_capacity_Inr [OF wf grow]
  note s = shrink_expert_capacity_Inr [OF g(1) release]
  have p: "pool_wf (content i) (en_layers e ! i)" "e_capacity (en_layers e ! i) = en_capacity e"
    using wf i by (simp_all add: engine_wf_def)
  show ?thesis
  proof (cases "en_capacity e < en_capacity e1")
    case True
    have "bt_get (slot_of (en_layers e2 ! i)) source = opt_filter (\<lambda>slot. slot < en_capacity e) (bt_get (slot_of (en_layers e ! i)) source)"
      using s(8) [of i source] i g(8,9) True by simp
    moreover have "opt_filter (\<lambda>slot. slot < en_capacity e) (bt_get (slot_of (en_layers e ! i)) source)
        = bt_get (slot_of (en_layers e ! i)) source"
      using published_slot_row(1) [OF p(1), of source] p(2)
      by (cases "bt_get (slot_of (en_layers e ! i)) source") auto
    ultimately show ?thesis using s(2) by simp
  next
    case False
    then have eq: "en_capacity e1 = en_capacity e" using s(5) by simp
    then have "e2 = e1" "e1 = e"
      using release grow g(2) by (auto simp: shrink_expert_capacity_def recover_expert_capacity_def Let_def m_bind_def
        shrink_plan_def recover_plan_def split: if_splits sum.splits)
    then show ?thesis by simp
  qed
qed

lemma growth_release_keeps_residents_witness:
  "shrink_expert_capacity sample_engine_env 64 grown_engine = (Inr \<lparr> cr_old_capacity = 80, cr_new_capacity = 64,
     cr_released_bytes = 31866880, cr_evicted_sources = 0 \<rparr>, sample_engine) \<and> en_capacity sample_engine = 64"
proof -
  have b: "31940464 \<le> (40000000 :: nat)" and c: "en_capacity sample_engine = 64" "0 < length (en_layers sample_engine)"
    by (simp_all add: sample_engine_def)
  from growth_release_keeps_residents [OF sample_engine_wf [where content = "\<lambda>x. x"] sample_recover [OF b]
      sample_shrink [folded c(1)] c(2), of 0] sample_shrink c(1)
  show ?thesis by simp
qed

end
