(* ===== verification/Rust_Bytes.thy ===== *)
theory Rust_Bytes
  imports Rust_Base "HOL-Library.Word"
begin

text \<open>
  Byte slices: little-endian integers (\<open>to_le_bytes\<close>, \<open>from_le_bytes\<close>), \<open>as_chunks\<close>, and which
  bit patterns of the 16 and 32-bit floating formats are finite.
\<close>

type_synonym byte = "8 word"

section \<open>Little-endian integers\<close>

fun le_bytes :: "nat \<Rightarrow> nat \<Rightarrow> byte list" where
  "le_bytes 0 x = []"
| "le_bytes (Suc n) x = word_of_nat x # le_bytes n (x div 256)"

fun le_value :: "byte list \<Rightarrow> nat" where
  "le_value [] = 0"
| "le_value (b # bs) = unat b + 256 * le_value bs"

lemma length_le_bytes [simp]: "length (le_bytes n x) = n"
  by (induction n x rule: le_bytes.induct) simp_all

lemma le_value_le_bytes [simp]: "x < 256 ^ n \<Longrightarrow> le_value (le_bytes n x) = x"
proof (induction n x rule: le_bytes.induct)
  case (2 n x)
  then have "x div 256 < 256 ^ n" by (simp add: less_mult_imp_div_less mult.commute)
  with 2 have "le_value (le_bytes n (x div 256)) = x div 256" by blast
  moreover have "unat (word_of_nat x :: byte) = x mod 256" by (simp add: unat_of_nat)
  ultimately show ?case by simp
qed simp

lemma le_value_bound: "le_value bs < 256 ^ length bs"
proof (induction bs)
  case (Cons b bs)
  have "unat b < 256" using unsigned_less [of b] by simp
  with Cons show ?case by simp
qed simp

lemma le_bytes_le_value [simp]: "length bs = n \<Longrightarrow> le_bytes n (le_value bs) = bs"
proof (induction bs arbitrary: n)
  case (Cons b bs)
  have "unat b < 256" using unsigned_less [of b] by simp
  then have "(unat b + 256 * le_value bs) div 256 = le_value bs" by simp
  moreover have "(word_of_nat (unat b + 256 * le_value bs) :: byte) = b"
    unfolding word_unat_eq_iff unat_of_nat using \<open>unat b < 256\<close> by simp
  ultimately show ?case using Cons by auto
qed simp

lemma le_value_replicate_0 [simp]: "le_value (replicate n 0) = 0"
  by (induction n) simp_all

lemma le_bytes_inject: "x < 256 ^ n \<Longrightarrow> y < 256 ^ n \<Longrightarrow> le_bytes n x = le_bytes n y \<longleftrightarrow> x = y"
  by (metis le_value_le_bytes)

section \<open>Chunks of a slice\<close>

text \<open>\<open>as_chunks::<n>().0\<close>: the whole chunks, a shorter rest dropped.\<close>

definition as_chunks :: "nat \<Rightarrow> 'a list \<Rightarrow> 'a list list" where
  "as_chunks n xs = map (\<lambda>i. take n (drop (i * n) xs)) [0..<length xs div n]"

text \<open>\<open>chunks(n)\<close>: the last one may be shorter. The offsets are those of \<open>(0..len).step_by(n)\<close>.\<close>

definition step_by :: "nat \<Rightarrow> nat \<Rightarrow> nat list" where
  "step_by n len = map (\<lambda>i. i * n) [0..<div_ceil len n]"

definition chunks :: "nat \<Rightarrow> 'a list \<Rightarrow> 'a list list" where
  "chunks n xs = map (\<lambda>i. take n (drop i xs)) (step_by n (length xs))"

lemma step_by_0 [simp]: "step_by n 0 = []"
  by (simp add: step_by_def div_ceil_def)

lemma step_by_Suc:
  assumes "0 < n" "0 < len"
  shows "step_by n len = 0 # map (\<lambda>i. n + i) (step_by n (len - n))"
proof -
  have d: "div_ceil len n = Suc (div_ceil (len - n) n)"
  proof (cases "n \<le> len")
    case True
    then obtain k where "len = n + k" using le_Suc_ex by blast
    moreover have "(n + k) div n = k div n + 1" using assms(1) div_add_self1 [of n k] by simp
    ultimately show ?thesis by (simp add: div_ceil_def)
  next
    case False
    then have "(len + n - 1) div n = 1"
      using assms by (intro div_nat_eqI) simp_all
    with False assms show ?thesis by (simp add: div_ceil_def)
  qed
  show ?thesis unfolding step_by_def d
    by (simp add: upt_conv_Cons map_Suc_upt [symmetric] comp_def del: upt_Suc)
qed

lemma step_by_lt: "0 < n \<Longrightarrow> i \<in> set (step_by n len) \<Longrightarrow> i < len"
proof -
  assume n: "0 < n" and "i \<in> set (step_by n len)"
  then obtain k where k: "i = k * n" "k < div_ceil len n" by (auto simp: step_by_def)
  then have "Suc k * n \<le> div_ceil len n * n" by (intro mult_le_mono1) simp
  with div_ceil_bounds [OF n, of len] k(1) show "i < len" by simp
qed

lemma chunks_Nil [simp]: "chunks n [] = []"
  by (simp add: chunks_def)

lemma chunks_step: "0 < n \<Longrightarrow> xs \<noteq> [] \<Longrightarrow> chunks n xs = take n xs # chunks n (drop n xs)"
  by (simp add: chunks_def step_by_Suc comp_def add.commute)

lemma concat_chunks [simp]: "0 < n \<Longrightarrow> concat (chunks n xs) = xs"
proof (induction "length xs" arbitrary: xs rule: less_induct)
  case less
  show ?case
  proof (cases "xs = []")
    case False
    with less have "concat (chunks n (drop n xs)) = drop n xs" by simp
    then show ?thesis using chunks_step [OF less.prems False] by simp
  qed simp
qed

section \<open>Finite floating-point values\<close>

definition bf16_finite :: "nat \<Rightarrow> bool" where
  "bf16_finite w \<longleftrightarrow> w div 128 mod 256 \<noteq> 255"

definition f16_finite :: "nat \<Rightarrow> bool" where
  "f16_finite w \<longleftrightarrow> w div 1024 mod 32 \<noteq> 31"

definition f32_finite :: "nat \<Rightarrow> bool" where
  "f32_finite w \<longleftrightarrow> w div 8388608 mod 256 \<noteq> 255"

definition all_finite :: "nat \<Rightarrow> (nat \<Rightarrow> bool) \<Rightarrow> byte list \<Rightarrow> bool" where
  "all_finite n fin bs \<longleftrightarrow> (\<forall>w\<in>set (as_chunks n bs). fin (le_value w))"

lemma finite_0 [simp]: "bf16_finite 0" "f16_finite 0" "f32_finite 0"
  by (simp_all add: bf16_finite_def f16_finite_def f32_finite_def)

lemma all_finite_zeros [simp]: "fin 0 \<Longrightarrow> all_finite n fin (replicate k 0)"
  by (auto simp: all_finite_def as_chunks_def)

lemma as_chunks_append:
  assumes "0 < n" "length xs mod n = 0"
  shows "as_chunks n (xs @ ys) = as_chunks n xs @ as_chunks n ys"
proof -
  obtain k where k: "length xs = k * n" using assms(2) by (metis mod_0_imp_dvd dvd_def mult.commute)
  have l: "(k * n + length ys) div n = k + length ys div n" using assms(1) by simp
  have "[0..<k + length ys div n] = [0..<k] @ map (\<lambda>i. i + k) [0..<length ys div n]"
    using upt_add_eq_append [of 0 k "length ys div n"] map_add_upt [of k "length ys div n"] by (simp add: add.commute)
  moreover have "take n (drop (i * n) (xs @ ys)) = take n (drop (i * n) xs)" if "i < k" for i
  proof -
    have "i * n + n \<le> k * n" using that by (metis Suc_leI add.commute mult_Suc mult_le_mono1)
    with k show ?thesis by simp
  qed
  moreover have "take n (drop ((i + k) * n) (xs @ ys)) = take n (drop (i * n) ys)" for i
    using k by (simp add: algebra_simps)
  ultimately show ?thesis using k l assms(1) by (simp add: as_chunks_def comp_def)
qed

lemma all_finite_append:
  "0 < n \<Longrightarrow> length xs mod n = 0 \<Longrightarrow> all_finite n fin (xs @ ys) \<longleftrightarrow> all_finite n fin xs \<and> all_finite n fin ys"
  by (auto simp: all_finite_def as_chunks_append)

lemma all_finite_take_drop:
  assumes "0 < n" "k mod n = 0" "all_finite n fin xs"
  shows "all_finite n fin (take k xs)" "all_finite n fin (drop k xs)"
proof -
  have "all_finite n fin (take k xs) \<and> all_finite n fin (drop k xs)"
  proof (cases "k \<le> length xs")
    case True
    then have "length (take k xs) mod n = 0" using assms(2) by (simp add: min_absorb2)
    from all_finite_append [OF assms(1) this, of fin "drop k xs"] assms(3) show ?thesis by simp
  next
    case False
    then show ?thesis using assms(3) by (simp add: all_finite_def as_chunks_def)
  qed
  then show "all_finite n fin (take k xs)" "all_finite n fin (drop k xs)" by simp_all
qed

section \<open>Loops over the chunks\<close>

lemma step_by_below: "0 < n \<Longrightarrow> i < div_ceil len n \<Longrightarrow> i * n < len"
  using step_by_lt [of n "i * n" len] by (auto simp: step_by_def)

lemma step_by_upto:
  assumes "0 < n" "i < div_ceil len n" "P (min (i * n) len) a"
  shows "P (i * n) a" "min (Suc i * n) len = min (i * n + n) len"
  using step_by_below [OF assms(1,2)] assms(3) by (simp_all add: min_def add.commute)

lemma step_by_fold_Inr:
  assumes run: "try_fold f acc (step_by n len) = Inr r" and n: "0 < n" and "P 0 acc"
    and step: "\<And>start a a'. start < len \<Longrightarrow> P start a \<Longrightarrow> f a start = Inr a' \<Longrightarrow> P (min (start + n) len) a'"
  shows "P len r"
proof -
  have "k \<le> div_ceil len n \<Longrightarrow> try_fold f acc (map (\<lambda>i. i * n) [0..<k]) = Inr a \<Longrightarrow> P (min (k * n) len) a" for k a
  proof (induction k arbitrary: a)
    case 0
    then show ?case using assms(3) by simp
  next
    case (Suc k)
    then obtain b where b: "try_fold f acc (map (\<lambda>i. i * n) [0..<k]) = Inr b" "f b (k * n) = Inr a"
      by (auto simp: bindr_eq_Inr)
    have k: "k < div_ceil len n" using Suc.prems by simp
    have "P (min (k * n) len) b" using Suc.IH b(1) Suc.prems(1) by simp
    from step_by_upto [OF n k, of P, OF this] step [OF step_by_below [OF n k] _ b(2)] show ?case by simp
  qed
  from this [of "div_ceil len n" r] run div_ceil_bounds [OF n, of len] show ?thesis by (simp add: step_by_def)
qed

lemma step_by_fold_total:
  assumes n: "0 < n" and "P 0 acc"
    and step: "\<And>start a. start < len \<Longrightarrow> P start a \<Longrightarrow> \<exists>a'. f a start = Inr a' \<and> P (min (start + n) len) a'"
  shows "\<exists>r. try_fold f acc (step_by n len) = Inr r \<and> P len r"
proof -
  have "k \<le> div_ceil len n \<Longrightarrow> \<exists>a. try_fold f acc (map (\<lambda>i. i * n) [0..<k]) = Inr a \<and> P (min (k * n) len) a" for k
  proof (induction k)
    case 0
    then show ?case using assms(2) by simp
  next
    case (Suc k)
    then obtain b where b: "try_fold f acc (map (\<lambda>i. i * n) [0..<k]) = Inr b" "P (min (k * n) len) b" by auto
    have k: "k < div_ceil len n" using Suc.prems by simp
    from step_by_upto [OF n k, of P, OF b(2)] step [OF step_by_below [OF n k], of b] b(1) show ?case by auto
  qed
  from this [of "div_ceil len n"] div_ceil_bounds [OF n, of len] show ?thesis by (simp add: step_by_def)
qed

section \<open>Words of two bytes\<close>

definition words_of :: "byte list \<Rightarrow> nat list" where
  "words_of bs = map le_value (as_chunks 2 bs)"

definition bytes_of :: "nat list \<Rightarrow> byte list" where
  "bytes_of ws = concat (map (le_bytes 2) ws)"

lemma as_chunks_short [simp]: "length xs < n \<Longrightarrow> as_chunks n xs = []"
  by (simp add: as_chunks_def)

lemma as_chunks_cons: "0 < n \<Longrightarrow> length c = n \<Longrightarrow> as_chunks n (c @ xs) = c # as_chunks n xs"
  using as_chunks_append [of n c xs] by (simp add: as_chunks_def)

lemma length_bytes_of [simp]: "length (bytes_of ws) = length ws * 2"
  by (induction ws) (simp_all add: bytes_of_def)

lemma length_words_of [simp]: "length (words_of bs) = length bs div 2"
  by (simp add: words_of_def as_chunks_def)

lemma bytes_of_words_of: "length bs mod 2 = 0 \<Longrightarrow> bytes_of (words_of bs) = bs"
proof (induction "length bs" arbitrary: bs rule: less_induct)
  case less
  show ?case
  proof (cases bs rule: remdups_adj.cases)
    case (3 x y r)
    have m: "length r mod 2 = 0" using less.prems 3 by simp
    have "bytes_of (words_of r) = r" by (rule less.hyps) (use 3 m in simp_all)
    moreover have "words_of bs = le_value [x, y] # words_of r"
      using as_chunks_cons [of 2 "[x, y]" r] 3 by (simp add: words_of_def)
    moreover have "le_bytes 2 (le_value [x, y]) = [x, y]" by (rule le_bytes_le_value) simp
    ultimately show ?thesis using 3 by (simp add: bytes_of_def)
  qed (use less.prems in \<open>simp_all add: words_of_def bytes_of_def\<close>)
qed

lemma words_of_bytes_of: "\<forall>w\<in>set ws. w < 65536 \<Longrightarrow> words_of (bytes_of ws) = ws"
proof (induction ws)
  case (Cons w ws)
  then show ?case by (simp add: words_of_def bytes_of_def as_chunks_cons)
qed (simp add: words_of_def bytes_of_def)

lemma words_of_append: "length xs mod 2 = 0 \<Longrightarrow> words_of (xs @ ys) = words_of xs @ words_of ys"
  by (simp add: words_of_def as_chunks_append)

lemma words_of_bounded: "w \<in> set (words_of bs) \<Longrightarrow> w < 65536"
proof -
  assume "w \<in> set (words_of bs)"
  then obtain c where c: "w = le_value c" "length c \<le> 2" by (auto simp: words_of_def as_chunks_def)
  have "(256::nat) ^ length c \<le> 256 ^ 2" using c(2) by (intro power_increasing) simp_all
  with le_value_bound [of c] c(1) show "w < 65536" by simp
qed

lemma all_finite_words: "all_finite 2 fin bs \<longleftrightarrow> (\<forall>w\<in>set (words_of bs). fin w)"
  by (simp add: all_finite_def words_of_def)

lemma bytes_of_append [simp]: "bytes_of (xs @ ys) = bytes_of xs @ bytes_of ys"
  by (simp add: bytes_of_def)

lemma bytes_of_Cons: "bytes_of (w # ws) = le_bytes 2 w @ bytes_of ws"
  by (simp add: bytes_of_def)

lemma bytes_of_take: "bytes_of (take n ws) = take (n * 2) (bytes_of ws)"
proof (induction ws arbitrary: n)
  case (Cons w ws)
  show ?case
  proof (cases n)
    case (Suc m)
    have "le_bytes 2 w @ take (m * 2) (bytes_of ws) = take (2 + m * 2) (le_bytes 2 w @ bytes_of ws)"
      unfolding take_append by simp
    with Suc Cons.IH [of m] show ?thesis by (simp add: bytes_of_Cons del: take_append)
  qed (simp add: bytes_of_def)
qed (simp add: bytes_of_def)

lemma bytes_of_drop: "bytes_of (drop n ws) = drop (n * 2) (bytes_of ws)"
proof (induction ws arbitrary: n)
  case (Cons w ws)
  show ?case
  proof (cases n)
    case (Suc m)
    have "drop (m * 2) (bytes_of ws) = drop (2 + m * 2) (le_bytes 2 w @ bytes_of ws)"
      unfolding drop_append by simp
    with Suc Cons.IH [of m] show ?thesis by (simp add: bytes_of_Cons del: drop_append)
  qed simp
qed (simp add: bytes_of_def)

end
