(* ===== verification/Session_State.thy ===== *)
theory Session_State
  imports Memory_Footprint Rust_Bytes Rust_State
begin

text \<open>
  The committed state of one conversation (\<open>Session\<close> of \<open>src/engine.rs\<close>): token lineage, producer
  spans, last logits and the device state of every layer (\<open>src/gdn.rs\<close>, \<open>src/decoder.rs\<close>,
  \<open>src/qsa_index.rs\<close>, \<open>src/kvarn/device.rs\<close>, \<open>src/ple.rs\<close>), with the checks under which it counts as
  committed and the imports of completed device buffers. A Metal buffer is its bytes and whether a
  command batch holds it; allocation is a parameter that may fail and whose contents are arbitrary.
\<close>

definition VOCAB :: nat where "VOCAB = 248320"
definition PLE_WORDS :: nat where "PLE_WORDS = 9 * 10240"
definition GDN_CONV_BYTES :: nat where "GDN_CONV_BYTES = 3 * 10240 * 2"
definition GDN_RECURRENT_BYTES :: nat where "GDN_RECURRENT_BYTES = 48 * 128 * 128 * 4"
definition SINK_BYTES :: nat where "SINK_BYTES = SINK_TOKENS * TOKEN_BYTES"
definition TAIL_BYTES :: nat where "TAIL_BYTES = TAIL_CAPACITY * TOKEN_BYTES"
definition MAX_POSITIONS :: nat where "MAX_POSITIONS = 262144"
definition MAX_CONTEXT_TOKENS :: nat where "MAX_CONTEXT_TOKENS = 262144"

lemmas session_consts = VOCAB_def PLE_WORDS_def GDN_CONV_BYTES_def GDN_RECURRENT_BYTES_def SINK_BYTES_def TAIL_BYTES_def
  MAX_POSITIONS_def MAX_CONTEXT_TOKENS_def

section \<open>Device buffers\<close>

record buffer =
  buf_bytes :: "byte list"
  buf_reserved :: bool

definition byte_len :: "buffer \<Rightarrow> nat" where
  "byte_len b = length (buf_bytes b)"

definition check_host_access :: "buffer \<Rightarrow> nat \<Rightarrow> nat \<Rightarrow> unit result" where
  "check_host_access b off len =
     ensure (\<not> buf_reserved b) ''Metal buffer is reserved by a command batch''
     (ensure (off \<le> byte_len b \<and> len \<le> byte_len b - off) ''Metal buffer byte range exceeds allocation'' (Inr ()))"

definition read_bytes :: "buffer \<Rightarrow> nat \<Rightarrow> nat \<Rightarrow> byte list result" where
  "read_bytes b off len = bindr (check_host_access b off len) (\<lambda>_. Inr (take len (drop off (buf_bytes b))))"

definition write_bytes :: "nat \<Rightarrow> byte list \<Rightarrow> buffer \<Rightarrow> buffer result" where
  "write_bytes off bs b =
     bindr (check_host_access b off (length bs)) (\<lambda>_.
     Inr (b \<lparr> buf_bytes := take off (buf_bytes b) @ bs @ drop (off + length bs) (buf_bytes b) \<rparr>))"

definition shared_buffer :: "(nat \<Rightarrow> byte list result) \<Rightarrow> nat \<Rightarrow> buffer result" where
  "shared_buffer alloc len =
     ensure (len \<noteq> 0) ''Metal buffer length must be nonzero''
     (bindr (alloc len) (\<lambda>bs. Inr \<lparr> buf_bytes = bs, buf_reserved = False \<rparr>))"

text \<open>What Metal documents of an allocation: it has the length asked for.\<close>

definition metal_allocates :: "(nat \<Rightarrow> byte list result) \<Rightarrow> bool" where
  "metal_allocates alloc \<longleftrightarrow> (\<forall>n bs. alloc n = Inr bs \<longrightarrow> length bs = n)"

section \<open>Layer state\<close>

record gdn_layer =
  gdn_conv :: buffer
  gdn_recurrent :: buffer
  gdn_state_frontier :: nat
  gdn_state_valid :: bool
  gdn_layer_valid :: bool

record qsa_index_state =
  qi_max_positions :: nat
  qi_frontier :: nat
  qi_valid :: bool
  qi_compressed :: buffer
  qi_pending :: buffer

record kvarn_state =
  kv_max_context :: nat
  kv_frontier :: nat
  kv_valid :: bool
  kv_records :: buffer
  kv_sink_keys :: buffer
  kv_sink_values :: buffer
  kv_tail_keys :: buffer
  kv_tail_values :: buffer

datatype layer_state = Gdn_State gdn_layer | Qsa_State qsa_index_state kvarn_state

record ple_state =
  ple_context :: "nat \<times> nat"
  ple_conv :: buffer
  ple_offset :: nat

definition gdn_frontier :: "gdn_layer \<Rightarrow> nat result" where
  "gdn_frontier s =
     ensure (gdn_layer_valid s) ''decoder state has an incomplete token''
     (ensure (gdn_state_valid s) ''GDN state has an unpublished or failed update'' (Inr (gdn_state_frontier s)))"

definition qsa_frontier :: "qsa_index_state \<Rightarrow> nat result" where
  "qsa_frontier s = ensure (qi_valid s) ''QSA device index has an uncommitted append'' (Inr (qi_frontier s))"

definition kvarn_frontier :: "kvarn_state \<Rightarrow> nat result" where
  "kvarn_frontier s = ensure (kv_valid s) ''KVarN state contains an incomplete append'' (Inr (kv_frontier s))"

definition layer_frontier :: "layer_state \<Rightarrow> nat result" where
  "layer_frontier l =
     (case l of
        Gdn_State s \<Rightarrow> gdn_frontier s
      | Qsa_State i k \<Rightarrow>
          bindr (qsa_frontier i) (\<lambda>fi. bindr (kvarn_frontier k) (\<lambda>fk.
          ensure (fi = fk) ''QSA index and KV frontiers differ'' (kvarn_frontier k))))"

definition logical_parts_byte_lengths :: "qsa_index_state \<Rightarrow> (nat \<times> nat) result" where
  "logical_parts_byte_lengths s =
     bindr (qsa_frontier s) (\<lambda>f. Inr (f div COMPRESS_RATIO * INDEX_WIDTH * 2, f mod COMPRESS_RATIO * INDEX_WIDTH * 2))"

definition record_bytes :: "kvarn_state \<Rightarrow> nat" where
  "record_bytes s = (fst (snd (kvarn_partition (kv_frontier s))) - SINK_TOKENS) div TILE_TOKENS * TILE_RECORD_BYTES"

definition kvarn_buffers :: "kvarn_state \<Rightarrow> (buffer \<times> nat) list result" where
  "kvarn_buffers s = bindr (kvarn_frontier s) (\<lambda>_.
     Inr [(kv_records s, record_bytes s), (kv_sink_keys s, SINK_BYTES), (kv_sink_values s, SINK_BYTES),
          (kv_tail_keys s, TAIL_BYTES), (kv_tail_values s, TAIL_BYTES)])"

definition checkpoint_buffers :: "qsa_index_state \<Rightarrow> (buffer \<times> nat) list result" where
  "checkpoint_buffers s = bindr (logical_parts_byte_lengths s) (\<lambda>(compressed, pending).
     Inr [(qi_compressed s, compressed), (qi_pending s, pending)])"

text \<open>Importing completed buffers; the empty read checks that no command batch holds them.\<close>

definition gdn_from_buffers :: "buffer \<Rightarrow> buffer \<Rightarrow> nat \<Rightarrow> gdn_layer result" where
  "gdn_from_buffers conv recurrent frontier =
     ensure (byte_len conv = GDN_CONV_BYTES \<and> byte_len recurrent = GDN_RECURRENT_BYTES)
       ''GDN candidate state buffer geometry differs''
     (bindr (read_bytes conv 0 0) (\<lambda>_. bindr (read_bytes recurrent 0 0) (\<lambda>_.
      Inr \<lparr> gdn_conv = conv, gdn_recurrent = recurrent, gdn_state_frontier = frontier, gdn_state_valid = True,
            gdn_layer_valid = True \<rparr>)))"

definition qsa_from_buffers :: "nat \<Rightarrow> buffer \<Rightarrow> buffer \<Rightarrow> nat \<Rightarrow> qsa_index_state result" where
  "qsa_from_buffers frontier compressed pending max_positions =
     ensure (0 < max_positions \<and> max_positions \<le> MAX_POSITIONS \<and> frontier \<le> max_positions)
       ''QSA restored frontier exceeds context''
     (ensure (byte_len compressed = max (frontier div COMPRESS_RATIO * INDEX_WIDTH * 2) (INDEX_WIDTH * 2)
         \<and> byte_len pending = COMPRESS_RATIO * INDEX_WIDTH * 2)
       ''QSA restored buffer geometry differs''
     (bindr (read_bytes compressed 0 0) (\<lambda>_. bindr (read_bytes pending 0 0) (\<lambda>_.
      Inr \<lparr> qi_max_positions = max_positions, qi_frontier = frontier, qi_valid = True,
            qi_compressed = compressed, qi_pending = pending \<rparr>))))"

definition check_kvarn_buffer :: "unit \<Rightarrow> buffer \<times> nat \<Rightarrow> unit result" where
  "check_kvarn_buffer u e =
     ensure (byte_len (fst e) = snd e) ''KVarN restored buffer geometry differs''
     (bindr (read_bytes (fst e) 0 0) (\<lambda>_. Inr ()))"

definition kvarn_from_buffers ::
    "nat \<Rightarrow> nat \<Rightarrow> buffer \<Rightarrow> buffer \<Rightarrow> buffer \<Rightarrow> buffer \<Rightarrow> buffer \<Rightarrow> kvarn_state result" where
  "kvarn_from_buffers max_context frontier records sink_keys sink_values tail_keys tail_values =
     ensure (1 \<le> max_context \<and> max_context \<le> MAX_CONTEXT_TOKENS \<and> frontier \<le> max_context)
       ''KVarN restored frontier exceeds context''
     (let records_bytes = (fst (snd (kvarn_partition frontier)) - SINK_TOKENS) div TILE_TOKENS * TILE_RECORD_BYTES in
      bindr (try_fold check_kvarn_buffer () [(records, max records_bytes 2), (sink_keys, SINK_BYTES),
          (sink_values, SINK_BYTES), (tail_keys, TAIL_BYTES), (tail_values, TAIL_BYTES)]) (\<lambda>_.
      Inr \<lparr> kv_max_context = max_context, kv_frontier = frontier, kv_valid = True, kv_records = records,
            kv_sink_keys = sink_keys, kv_sink_values = sink_values, kv_tail_keys = tail_keys,
            kv_tail_values = tail_values \<rparr>))"

text \<open>The two most recent tokens, the end-of-sequence token before the first.\<close>

definition ple_expected :: "nat list \<Rightarrow> nat \<Rightarrow> nat \<times> nat" where
  "ple_expected consumed eos =
     (case consumed of [] \<Rightarrow> (eos, eos) | [t] \<Rightarrow> (eos, t)
      | _ \<Rightarrow> (consumed ! (length consumed - 2), consumed ! (length consumed - 1)))"

definition ple_validate_committed :: "nat list \<Rightarrow> nat \<Rightarrow> ple_state \<Rightarrow> unit result" where
  "ple_validate_committed consumed eos s =
     ensure (ple_offset s = length consumed) ''PLE offset differs from consumed token count''
     (ensure (byte_len (ple_conv s) = PLE_WORDS * 2) ''invalid PLE device convolution history''
     (ensure (\<forall>t\<in>set consumed. t < VOCAB) ''consumed token ID exceeds released Qwen vocabulary''
     (ensure (ple_context s = ple_expected consumed eos) ''PLE token history differs from consumed tokens'' (Inr ()))))"

definition ple_from_buffer :: "buffer \<Rightarrow> nat list \<Rightarrow> nat \<Rightarrow> ple_state result" where
  "ple_from_buffer conv consumed eos =
     (let s = \<lparr> ple_context = ple_expected consumed eos, ple_conv = conv, ple_offset = length consumed \<rparr> in
      bindr (read_bytes conv 0 0) (\<lambda>_. bindr (ple_validate_committed consumed eos s) (\<lambda>_. Inr s)))"

section \<open>The session\<close>

datatype routing_mode = CachePrior | Unbiased

datatype producer_span = Span_Prefill nat | Span_Steps routing_mode nat | Span_Restored nat

fun span_width :: "producer_span \<Rightarrow> nat" where
  "span_width (Span_Prefill w) = w"
| "span_width (Span_Steps mode n) = n"
| "span_width (Span_Restored n) = n"

record session =
  se_owner :: nat
  se_cache_origin :: nat
  se_frontier :: nat
  se_valid :: bool
  se_layers :: "layer_state list"
  se_ple :: ple_state
  se_eos :: nat
  se_tokens :: "nat list"
  se_logits :: buffer
  se_last_logits :: "nat list option"
  se_spans :: "producer_span list"

definition session_frontier :: "session \<Rightarrow> nat result" where
  "session_frontier s = ensure (se_valid s) ''session contains an incomplete token'' (Inr (se_frontier s))"

definition sum_spans :: "producer_span list \<Rightarrow> nat result" where
  "sum_spans spans = try_fold (\<lambda>total span.
     ensure (0 < span_width span) ''empty numerical producer span''
     (ok_or (checked_add total (span_width span)) ''producer span overflow'')) 0 spans"

definition validate_committed :: "session \<Rightarrow> unit result" where
  "validate_committed s =
     bindr (session_frontier s) (\<lambda>frontier.
     ensure (length (se_tokens s) = frontier) ''consumed token count differs from session frontier''
     (bindr (sum_spans (se_spans s)) (\<lambda>span_total.
      ensure (span_total = frontier) ''numerical producer spans differ from session frontier''
     (bindr (if frontier = 0
             then ensure (se_last_logits s = None) ''empty session contains last-row logits'' (Inr ())
             else ensure (byte_len (se_logits s) = VOCAB * 2) ''committed device logits have invalid shape''
               (ensure (is_none_or (\<lambda>logits. length logits = VOCAB \<and> (\<forall>v\<in>set logits. bf16_finite v)) (se_last_logits s))
                 ''committed logits have invalid shape or values'' (Inr ()))) (\<lambda>_.
      bindr (ple_validate_committed (se_tokens s) (se_eos s) (se_ple s)) (\<lambda>_.
      ensure (ple_offset (se_ple s) = frontier) ''PLE differs from session frontier''
     (try_fold (\<lambda>u layer. bindr (layer_frontier layer) (\<lambda>f.
        ensure (f = frontier) ''layer differs from session frontier'' (Inr ()))) () (se_layers s))))))))"

text \<open>Consecutive single steps of one routing mode share a span.\<close>

definition push_span :: "producer_span \<Rightarrow> producer_span list \<Rightarrow> producer_span list" where
  "push_span producer spans =
     (case (spans, producer) of
        (_ # _, Span_Steps mode n) \<Rightarrow>
          (case last spans of
             Span_Steps previous count \<Rightarrow>
               if n = 1 \<and> previous = mode then butlast spans @ [Span_Steps mode (count + 1)] else spans @ [producer]
           | _ \<Rightarrow> spans @ [producer])
      | _ \<Rightarrow> spans @ [producer])"

definition commit_device_output :: "nat list \<Rightarrow> producer_span \<Rightarrow> nat \<Rightarrow> (session, unit) stateful" where
  "commit_device_output tokens producer next =
     m_bind (m_get (\<lambda>s.
       ensure (\<not> se_valid s) ''cannot recommit a completed session''
       (ensure (span_width producer = length tokens \<and> checked_add (se_frontier s) (length tokens) = Some next
           \<and> (\<forall>t\<in>set tokens. t < VOCAB)) ''committed producer width differs from token frontier''
       (ensure (byte_len (se_logits s) = VOCAB * 2) ''committed device logits have invalid shape'' (Inr ()))))) (\<lambda>_.
     m_modify (\<lambda>s. s \<lparr> se_tokens := se_tokens s @ tokens, se_last_logits := None,
       se_spans := push_span producer (se_spans s), se_frontier := next, se_valid := True \<rparr>))"

text \<open>The engine, as far as committed state depends on it. The identities stand for \<open>Rc\<close> pointers.\<close>

record host_engine =
  he_identity :: nat
  he_cache_identity :: nat
  he_manifest :: "byte list"
  he_layers :: "mixer_kind list"
  he_eps_bits :: nat
  he_eos :: nat
  he_max_positions :: nat
  he_max_context :: nat
  he_prefill_rows :: nat

definition validate_snapshot_source :: "host_engine \<Rightarrow> session \<Rightarrow> unit result" where
  "validate_snapshot_source en s =
     ensure (he_identity en = se_owner s) ''session belongs to another engine''
     (bindr (validate_committed s) (\<lambda>_.
      ensure (0 < se_frontier s) ''cannot snapshot an empty session''
      (ensure (se_frontier s \<le> he_max_context en \<and> length (se_layers s) = length (he_layers en))
        ''session geometry differs from engine'' (Inr ()))))"

section \<open>Lemmas\<close>

lemma length_write_bytes: "write_bytes off bs b = Inr b' \<Longrightarrow> byte_len b' = byte_len b \<and> buf_reserved b' = buf_reserved b"
  by (auto simp: write_bytes_def check_host_access_def byte_len_def result_simps)

lemma layer_loop_Inr:
  "try_fold (\<lambda>u layer. bindr (layer_frontier layer) (\<lambda>f.
      ensure (f = frontier) msg (Inr ()))) () layers = Inr u \<longleftrightarrow> (\<forall>l\<in>set layers. layer_frontier l = Inr frontier)"
  by (induction layers) (auto simp: result_simps)

lemma sum_spans_acc:
  "try_fold (\<lambda>total span. ensure (0 < span_width span) msg
     (ok_or (checked_add total (span_width span)) msg')) acc spans = Inr n
    \<Longrightarrow> n = acc + sum_list (map span_width spans) \<and> (\<forall>s\<in>set spans. 0 < span_width s)"
proof (induction spans arbitrary: acc)
  case (Cons a spans)
  from Cons.prems have a: "0 < span_width a"
    and r: "try_fold (\<lambda>total span. ensure (0 < span_width span) msg
       (ok_or (checked_add total (span_width span)) msg')) (acc + span_width a) spans = Inr n"
    by (simp_all add: bindr_eq_Inr ensure_eq_Inr ok_or_eq_Inr checked_add_eq_Some)
  from Cons.IH [OF r] a show ?case by (simp add: add.assoc)
qed simp

lemma sum_spans_Inr:
  "sum_spans spans = Inr n \<Longrightarrow> n = sum_list (map span_width spans) \<and> (\<forall>s\<in>set spans. 0 < span_width s)"
  using sum_spans_acc [of _ _ 0 spans n] by (simp add: sum_spans_def)

lemma push_span_snoc:
  "push_span p (xs @ [x]) =
     (case (x, p) of (Span_Steps previous count, Span_Steps mode n) \<Rightarrow>
        if n = 1 \<and> previous = mode then xs @ [Span_Steps mode (count + 1)] else xs @ [x, p]
      | _ \<Rightarrow> xs @ [x, p])"
  by (cases xs; cases p; cases x) (simp_all add: push_span_def)

lemma sum_push_span: "sum_list (map span_width (push_span p spans)) = sum_list (map span_width spans) + span_width p"
proof (cases spans rule: rev_cases)
  case (snoc xs x)
  then show ?thesis by (cases x; cases p) (simp_all add: push_span_snoc)
qed (cases p, simp_all add: push_span_def)

end
