(* ===== verification/Session_Snapshot.thy ===== *)
theory Session_Snapshot
  imports Session_State
begin

text \<open>
  Host copies of committed sessions (\<open>src/engine/snapshot.rs\<close>): capture under a byte budget, the
  retained charge of a copy, the checks before a restore, and the restore that uploads the copy to
  new device buffers. A \<open>Vec\<close> is its items and its capacity, which the allocator chooses; type sizes
  that the compiler chooses are parameters.
\<close>

section \<open>Vectors and chunked transfers\<close>

record 'a hvec =
  hv_items :: "'a list"
  hv_capacity :: nat

text \<open>The 16 KiB staging loops of \<open>to_host\<close>, \<open>export_host\<close>, \<open>write_words\<close> and \<open>zero_buffer\<close>.\<close>

definition STAGING :: nat where
  "STAGING = 16384"

definition read_staged :: "buffer \<Rightarrow> nat \<Rightarrow> nat list result" where
  "read_staged b count = try_fold (\<lambda>acc start.
     bindr (read_bytes b start (min STAGING (count - start))) (\<lambda>bs. Inr (acc @ words_of bs))) [] (step_by STAGING count)"

definition write_words :: "nat list \<Rightarrow> buffer \<Rightarrow> buffer result" where
  "write_words ws b = try_fold (\<lambda>b start.
     let end_word = min (start + STAGING div 2) (length ws) in
     write_bytes (start * 2) (bytes_of (take (end_word - start) (drop start ws))) b) b (step_by (STAGING div 2) (length ws))"

definition zero_buffer :: "(nat \<Rightarrow> byte list result) \<Rightarrow> nat \<Rightarrow> buffer result" where
  "zero_buffer alloc len =
     bindr (shared_buffer alloc (max len 2)) (\<lambda>b. try_fold (\<lambda>b start.
       write_bytes start (replicate (min STAGING (byte_len b - start)) 0) b) b (step_by STAGING (byte_len b)))"

definition uploaded :: "(nat \<Rightarrow> byte list result) \<Rightarrow> byte list \<Rightarrow> buffer result" where
  "uploaded alloc bs = bindr (shared_buffer alloc (length bs)) (write_bytes 0 bs)"

section \<open>Validation of host copies\<close>

definition CODES_BYTES :: nat where "CODES_BYTES = TILE_TOKENS * HEAD_DIM div 2"
definition K_SCALE :: nat where "K_SCALE = CODES_BYTES"
definition K_ZERO :: nat where "K_ZERO = K_SCALE + HEAD_DIM * 2"
definition K_TOKEN_SCALE :: nat where "K_TOKEN_SCALE = K_ZERO + HEAD_DIM * 2"
definition V_CODES :: nat where "V_CODES = K_TOKEN_SCALE + TILE_TOKENS * 2"
definition V_CHANNEL_SCALE :: nat where "V_CHANNEL_SCALE = V_CODES + CODES_BYTES"

definition finite_record_metadata :: "byte list \<Rightarrow> unit result" where
  "finite_record_metadata records =
     ensure (length records mod TILE_RECORD_BYTES = 0) ''KVarN records contain a partial tile''
     (try_fold (\<lambda>u head. try_fold (\<lambda>u (first, last).
        ensure (all_finite 2 f16_finite (take (last - first) (drop first head)))
          ''KVarN record metadata contains nonfinite FP16 values'' (Inr ())) u
        [(K_SCALE, K_TOKEN_SCALE + TILE_TOKENS * 2), (V_CHANNEL_SCALE, HEAD_RECORD_BYTES)])
      () (as_chunks HEAD_RECORD_BYTES records))"

definition finite_bf16 :: "byte list \<Rightarrow> unit result" where
  "finite_bf16 bs =
     ensure (length bs mod 2 = 0) ''partial BF16 word''
     (ensure (all_finite 2 bf16_finite bs) ''nonfinite BF16 values'' (Inr ()))"

definition kvarn_validate_parts ::
    "nat \<Rightarrow> nat \<Rightarrow> byte list \<Rightarrow> byte list \<Rightarrow> byte list \<Rightarrow> byte list \<Rightarrow> byte list \<Rightarrow> unit result" where
  "kvarn_validate_parts max_context frontier records sink_keys sink_values tail_keys tail_values =
     ensure (1 \<le> max_context \<and> max_context \<le> MAX_CONTEXT_TOKENS)
       ''KVarN context capacity is outside the released range''
     (ensure (frontier \<le> max_context) ''KVarN frontier exceeds context capacity''
     (let expected = (fst (snd (kvarn_partition frontier)) - SINK_TOKENS) div TILE_TOKENS in
      ensure (length records = expected * TILE_RECORD_BYTES) ''KVarN record count differs from frontier''
     (bindr (finite_record_metadata records) (\<lambda>_.
      ensure (length sink_keys = SINK_BYTES \<and> length sink_values = SINK_BYTES) ''KVarN sink geometry differs''
     (ensure (length tail_keys = TAIL_BYTES \<and> length tail_values = TAIL_BYTES) ''KVarN tail ring geometry differs''
     (bindr (finite_bf16 sink_keys) (\<lambda>_. bindr (finite_bf16 sink_values) (\<lambda>_.
      bindr (finite_bf16 tail_keys) (\<lambda>_. finite_bf16 tail_values)))))))))"

definition gdn_validate_parts :: "byte list \<Rightarrow> byte list \<Rightarrow> unit result" where
  "gdn_validate_parts conv recurrent =
     ensure (length conv = GDN_CONV_BYTES) ''BF16 byte count differs from geometry''
     (ensure (all_finite 2 bf16_finite conv) ''GDN convolution state contains nonfinite BF16 values''
     (ensure (length recurrent = GDN_RECURRENT_BYTES) ''GDN recurrent state byte count differs from geometry''
     (ensure (all_finite 4 f32_finite recurrent) ''GDN recurrent state contains nonfinite FP32 values'' (Inr ()))))"

definition qsa_validate_parts :: "nat \<Rightarrow> nat list \<Rightarrow> nat list \<Rightarrow> unit result" where
  "qsa_validate_parts frontier compressed pending =
     ensure (frontier \<le> MAX_POSITIONS) ''QSA index frontier exceeds supported context''
     (ensure (length compressed = frontier div COMPRESS_RATIO * INDEX_WIDTH
         \<and> length pending = frontier mod COMPRESS_RATIO * INDEX_WIDTH)
       ''QSA index snapshot lengths differ from frontier''
     (ensure ((\<forall>v\<in>set compressed. bf16_finite v) \<and> (\<forall>v\<in>set pending. bf16_finite v))
       ''QSA index snapshot contains nonfinite values'' (Inr ())))"

record ple_host =
  ph_context :: "nat \<times> nat"
  ph_conv :: "nat hvec"
  ph_offset :: nat

definition ple_host_validate_committed :: "nat list \<Rightarrow> nat \<Rightarrow> ple_host \<Rightarrow> unit result" where
  "ple_host_validate_committed consumed eos p =
     ensure (ph_offset p = length consumed) ''PLE offset differs from consumed token count''
     (ensure (length (hv_items (ph_conv p)) = PLE_WORDS) ''invalid PLE convolution history''
     (ensure (\<forall>v\<in>set (hv_items (ph_conv p)). bf16_finite v) ''PLE convolution history contains nonfinite values''
     (ensure (\<forall>t\<in>set consumed. t < VOCAB) ''consumed token ID exceeds released Qwen vocabulary''
     (ensure (ph_context p = ple_expected consumed eos) ''PLE token history differs from consumed tokens'' (Inr ())))))"

section \<open>The copy and its byte charge\<close>

record saved_gdn =
  sg_frontier :: nat
  sg_conv :: "byte hvec"
  sg_recurrent :: "byte hvec"

record saved_kvarn =
  sk_frontier :: nat
  sk_records :: "byte hvec"
  sk_sink_keys :: "byte hvec"
  sk_sink_values :: "byte hvec"
  sk_tail_keys :: "byte hvec"
  sk_tail_values :: "byte hvec"

record saved_qsa =
  sq_index_frontier :: nat
  sq_compressed :: "nat hvec"
  sq_pending :: "nat hvec"
  sq_kv :: saved_kvarn

datatype saved_layer = Saved_Gdn saved_gdn | Saved_Qsa saved_qsa

record session_snapshot =
  sn_owner :: nat
  sn_cache_origin :: nat
  sn_producer_version :: nat
  sn_prefill_capacity :: nat
  sn_max_context :: nat
  sn_eos :: nat
  sn_frontier :: nat
  sn_tokens :: "nat hvec"
  sn_logits :: "nat hvec"
  sn_spans :: "producer_span hvec"
  sn_ple :: ple_host
  sn_layers :: "saved_layer list"
  sn_layer_capacity :: nat

definition PRODUCER_VERSION :: nat where
  "PRODUCER_VERSION = 4"

text \<open>Sizes chosen by the compiler, the capacity the allocator gives for a length, and device memory.\<close>

record snapshot_env =
  sz_snapshot :: nat
  sz_span :: nat
  sz_layer :: nat
  vec_capacity :: "nat \<Rightarrow> nat \<Rightarrow> nat"
  device_alloc :: "nat \<Rightarrow> byte list result"

definition charge_add :: "nat \<Rightarrow> nat \<Rightarrow> nat result" where
  "charge_add used n = ok_or (checked_add used n) ''snapshot byte charge overflow''"

definition vector_charge :: "nat \<Rightarrow> nat \<Rightarrow> nat result" where
  "vector_charge width capacity = ok_or (checked_mul capacity width) ''snapshot vector capacity overflow''"

definition length_charge :: "nat \<Rightarrow> nat \<Rightarrow> nat result" where
  "length_charge width len = ok_or (checked_mul len width) ''snapshot payload length overflow''"

text \<open>\<open>total = add(total, charge?)?\<close> over the parts in order.\<close>

definition charge_all :: "nat \<Rightarrow> nat result list \<Rightarrow> nat result" where
  "charge_all used parts = try_fold (\<lambda>t part. bindr part (charge_add t)) used parts"

fun retained_layer :: "saved_layer \<Rightarrow> nat result list" where
  "retained_layer (Saved_Gdn g) =
     [vector_charge 1 (hv_capacity (sg_conv g)), vector_charge 1 (hv_capacity (sg_recurrent g))]"
| "retained_layer (Saved_Qsa q) =
     [vector_charge 2 (hv_capacity (sq_compressed q)), vector_charge 2 (hv_capacity (sq_pending q))]
     @ map (\<lambda>v. vector_charge 1 (hv_capacity v))
         [sk_records (sq_kv q), sk_sink_keys (sq_kv q), sk_sink_values (sq_kv q), sk_tail_keys (sq_kv q), sk_tail_values (sq_kv q)]"

definition retained_capacity_bytes :: "snapshot_env \<Rightarrow> session_snapshot \<Rightarrow> nat result" where
  "retained_capacity_bytes env s = charge_all (sz_snapshot env)
     ([vector_charge 4 (hv_capacity (sn_tokens s)), vector_charge 2 (hv_capacity (sn_logits s)),
       vector_charge (sz_span env) (hv_capacity (sn_spans s)), vector_charge 2 (hv_capacity (ph_conv (sn_ple s))),
       vector_charge (sz_layer env) (sn_layer_capacity s)]
      @ concat (map retained_layer (sn_layers s)))"

definition gdn_buffers :: "gdn_layer \<Rightarrow> (buffer \<times> buffer) result" where
  "gdn_buffers g = bindr (gdn_frontier g) (\<lambda>_. Inr (gdn_conv g, gdn_recurrent g))"

text \<open>The least a copy of a live layer can cost.\<close>

fun minimum_layer :: "mixer_kind \<times> layer_state \<Rightarrow> nat result list" where
  "minimum_layer (Gdn, Gdn_State g) =
     [bindr (gdn_buffers g) (\<lambda>(conv, _). Inr (byte_len conv)), bindr (gdn_buffers g) (\<lambda>(_, recurrent). Inr (byte_len recurrent))]"
| "minimum_layer (Qsa, Qsa_State i k) =
     [bindr (logical_parts_byte_lengths i) (\<lambda>(compressed, _). Inr compressed),
      bindr (logical_parts_byte_lengths i) (\<lambda>(_, pending). Inr pending)]
     @ (case kvarn_buffers k of Inl e \<Rightarrow> [Inl e] | Inr bs \<Rightarrow> map (\<lambda>(_, len). Inr len) bs)"
| "minimum_layer _ = [Inl ''session layer type differs from engine'']"

definition snapshot_minimum_retained_bytes :: "snapshot_env \<Rightarrow> host_engine \<Rightarrow> session \<Rightarrow> nat result" where
  "snapshot_minimum_retained_bytes env en s =
     bindr (validate_snapshot_source en s) (\<lambda>_.
     charge_all (sz_snapshot env)
       ([length_charge 4 (length (se_tokens s)), length_charge 2 VOCAB, length_charge (sz_span env) (length (se_spans s)),
         Inr (byte_len (ple_conv (se_ple s))), length_charge (sz_layer env) (length (se_layers s))]
        @ concat (map minimum_layer (zip (he_layers en) (se_layers s)))))"

section \<open>The budget of a capture\<close>

record snapshot_budget =
  sb_limit :: nat
  sb_charged :: nat

text \<open>A step of the capture: an error, a refusal (\<open>Ok(None)\<close>), or a value and the budget after it.\<close>

type_synonym 'a taking = "snapshot_budget \<Rightarrow> ('a \<times> snapshot_budget) option result"

definition t_return :: "'a \<Rightarrow> 'a taking" where
  "t_return x b = Inr (Some (x, b))"

definition t_lift :: "'a result \<Rightarrow> 'a taking" where
  "t_lift r b = bindr r (\<lambda>x. Inr (Some (x, b)))"

definition t_bind :: "'a taking \<Rightarrow> ('a \<Rightarrow> 'b taking) \<Rightarrow> 'b taking" where
  "t_bind m f b = bindr (m b) (\<lambda>r. case r of None \<Rightarrow> Inr None | Some (x, b') \<Rightarrow> f x b')"

definition can_fit :: "nat \<Rightarrow> unit taking" where
  "can_fit n b = bindr (charge_add (sb_charged b) n) (\<lambda>next.
     Inr (if next \<le> sb_limit b then Some ((), b) else None))"

definition charge :: "nat \<Rightarrow> unit taking" where
  "charge n b = bindr (charge_add (sb_charged b) n) (\<lambda>next.
     Inr (if sb_limit b < next then None else Some ((), b \<lparr> sb_charged := next \<rparr>)))"

definition budget_new :: "snapshot_env \<Rightarrow> nat \<Rightarrow> snapshot_budget option" where
  "budget_new env limit =
     (if sz_snapshot env \<le> limit then Some \<lparr> sb_limit = limit, sb_charged = sz_snapshot env \<rparr> else None)"

definition allocated :: "snapshot_env \<Rightarrow> nat \<Rightarrow> 'a list \<Rightarrow> 'a hvec" where
  "allocated env width items = \<lparr> hv_items = items, hv_capacity = vec_capacity env width (length items) \<rparr>"

definition charge_vec :: "nat \<Rightarrow> 'a hvec \<Rightarrow> unit taking" where
  "charge_vec width v = t_bind (t_lift (vector_charge width (hv_capacity v))) charge"

definition budget_copy :: "snapshot_env \<Rightarrow> nat \<Rightarrow> 'a list \<Rightarrow> 'a hvec taking" where
  "budget_copy env width source =
     t_bind (t_lift (length_charge width (length source))) (\<lambda>least.
     t_bind (can_fit least) (\<lambda>_.
     let copy = allocated env width source in
     t_bind (charge_vec width copy) (\<lambda>_. t_return copy)))"

definition budget_read_buffer :: "snapshot_env \<Rightarrow> buffer \<times> nat \<Rightarrow> byte hvec taking" where
  "budget_read_buffer env source =
     t_bind (t_lift (length_charge 1 (snd source))) (\<lambda>least.
     t_bind (can_fit least) (\<lambda>_.
     t_bind (t_lift (vector_charge 1 (vec_capacity env 1 (snd source)))) (\<lambda>n.
     t_bind (charge n) (\<lambda>_.
     t_bind (t_lift (read_bytes (fst source) 0 (snd source))) (\<lambda>bs. t_return (allocated env 1 bs))))))"

section \<open>Capture\<close>

definition read_logits_bf16_transient :: "session \<Rightarrow> nat list result" where
  "read_logits_bf16_transient s =
     bindr (session_frontier s) (\<lambda>f. ensure (0 < f) ''empty session has no last-row logits''
     (bindr (read_bytes (se_logits s) 0 (VOCAB * 2)) (\<lambda>bs.
      ensure (\<forall>v\<in>set (words_of bs). bf16_finite v) ''committed logits have nonfinite values'' (Inr (words_of bs)))))"

definition last_logits_bf16 :: "session \<Rightarrow> nat list result" where
  "last_logits_bf16 s =
     bindr (validate_committed s) (\<lambda>_. ensure (0 < se_frontier s) ''empty session has no last-row logits''
     (case se_last_logits s of Some row \<Rightarrow> Inr row | None \<Rightarrow> read_logits_bf16_transient s))"

definition ple_to_host :: "snapshot_env \<Rightarrow> ple_state \<Rightarrow> ple_host result" where
  "ple_to_host env p =
     bindr (read_staged (ple_conv p) (PLE_WORDS * 2)) (\<lambda>words.
     ensure (\<forall>v\<in>set words. bf16_finite v) ''PLE device history contains nonfinite values''
     (Inr \<lparr> ph_context = ple_context p, ph_conv = allocated env 2 words, ph_offset = ple_offset p \<rparr>))"

definition gdn_snapshot :: "gdn_layer \<Rightarrow> (byte list \<times> byte list) result" where
  "gdn_snapshot g =
     bindr (gdn_frontier g) (\<lambda>_.
     bindr (read_bytes (gdn_conv g) 0 GDN_CONV_BYTES) (\<lambda>conv.
     bindr (read_bytes (gdn_recurrent g) 0 GDN_RECURRENT_BYTES) (\<lambda>recurrent. Inr (conv, recurrent))))"

definition qsa_export_host :: "qsa_index_state \<Rightarrow> (nat \<times> nat list \<times> nat list) result" where
  "qsa_export_host i =
     bindr (logical_parts_byte_lengths i) (\<lambda>(compressed_bytes, pending_bytes).
     bindr (read_staged (qi_compressed i) compressed_bytes) (\<lambda>compressed.
     bindr (read_staged (qi_pending i) pending_bytes) (\<lambda>pending.
     bindr (qsa_validate_parts (qi_frontier i) compressed pending) (\<lambda>_. Inr (qi_frontier i, compressed, pending)))))"

fun capture_layer :: "snapshot_env \<Rightarrow> mixer_kind \<times> layer_state \<Rightarrow> saved_layer taking" where
  "capture_layer env (Gdn, Gdn_State g) =
     t_bind (t_lift (gdn_buffers g)) (\<lambda>(conv, recurrent).
     t_bind (t_lift (charge_add (byte_len conv) (byte_len recurrent))) (\<lambda>least.
     t_bind (can_fit least) (\<lambda>_.
     t_bind (t_lift (gdn_snapshot g)) (\<lambda>(c, r).
     let c' = allocated env 1 c; r' = allocated env 1 r in
     t_bind (charge_vec 1 c') (\<lambda>_. t_bind (charge_vec 1 r') (\<lambda>_.
     t_bind (t_lift (gdn_frontier g)) (\<lambda>f.
     t_return (Saved_Gdn \<lparr> sg_frontier = f, sg_conv = c', sg_recurrent = r' \<rparr>))))))))"
| "capture_layer env (Qsa, Qsa_State i k) =
     t_bind (t_lift (logical_parts_byte_lengths i)) (\<lambda>(compressed_bytes, pending_bytes).
     t_bind (t_lift (charge_add compressed_bytes pending_bytes)) (\<lambda>least.
     t_bind (can_fit least) (\<lambda>_.
     t_bind (t_lift (qsa_export_host i)) (\<lambda>(fi, c, p).
     let c' = allocated env 2 c; p' = allocated env 2 p in
     t_bind (charge_vec 2 c') (\<lambda>_. t_bind (charge_vec 2 p') (\<lambda>_.
     t_bind (t_lift (kvarn_frontier k)) (\<lambda>_.
     t_bind (budget_read_buffer env (kv_records k, record_bytes k)) (\<lambda>records.
     t_bind (budget_read_buffer env (kv_sink_keys k, SINK_BYTES)) (\<lambda>sink_keys.
     t_bind (budget_read_buffer env (kv_sink_values k, SINK_BYTES)) (\<lambda>sink_values.
     t_bind (budget_read_buffer env (kv_tail_keys k, TAIL_BYTES)) (\<lambda>tail_keys.
     t_bind (budget_read_buffer env (kv_tail_values k, TAIL_BYTES)) (\<lambda>tail_values.
     t_bind (t_lift (kvarn_frontier k)) (\<lambda>fk.
     t_return (Saved_Qsa \<lparr> sq_index_frontier = fi, sq_compressed = c', sq_pending = p',
       sq_kv = \<lparr> sk_frontier = fk, sk_records = records, sk_sink_keys = sink_keys, sk_sink_values = sink_values,
                 sk_tail_keys = tail_keys, sk_tail_values = tail_values \<rparr> \<rparr>))))))))))))))"
| "capture_layer env _ = t_lift (Inl ''session layer type differs from engine'')"

fun t_map :: "('a \<Rightarrow> 'b taking) \<Rightarrow> 'a list \<Rightarrow> 'b list taking" where
  "t_map f [] = t_return []"
| "t_map f (x # xs) = t_bind (f x) (\<lambda>y. t_bind (t_map f xs) (\<lambda>ys. t_return (y # ys)))"


definition layer_matches :: "nat \<Rightarrow> mixer_kind \<times> saved_layer \<Rightarrow> unit result" where
  "layer_matches frontier e =
     (case e of
        (Gdn, Saved_Gdn g) \<Rightarrow> ensure (sg_frontier g = frontier) ''snapshot GDN frontier differs'' (Inr ())
      | (Qsa, Saved_Qsa q) \<Rightarrow> ensure (sq_index_frontier q = frontier \<and> sk_frontier (sq_kv q) = frontier)
          ''snapshot QSA frontiers differ'' (Inr ())
      | _ \<Rightarrow> Inl ''snapshot layer type differs from engine'')"

definition validate_metadata :: "session_snapshot \<Rightarrow> host_engine \<Rightarrow> unit result" where
  "validate_metadata s en =
     ensure (sn_owner s = he_cache_identity en) ''snapshot belongs to another engine''
     (ensure (sn_producer_version s = PRODUCER_VERSION \<and> sn_max_context s = he_max_context en \<and> sn_eos s = he_eos en)
       ''snapshot producer or engine geometry differs''
     (bindr (validate_capacity (sn_prefill_capacity s)) (\<lambda>_.
      bindr (validate_capacity (he_prefill_rows en)) (\<lambda>_.
      ensure (0 < sn_frontier s \<and> sn_frontier s \<le> he_max_context en) ''snapshot frontier is empty or exceeds context limit''
     (ensure (length (hv_items (sn_tokens s)) = sn_frontier s \<and> (\<forall>t\<in>set (hv_items (sn_tokens s)). t < VOCAB))
       ''snapshot consumed tokens differ from frontier or vocabulary''
     (ensure (length (hv_items (sn_logits s)) = VOCAB \<and> (\<forall>v\<in>set (hv_items (sn_logits s)). bf16_finite v))
       ''snapshot last-row logits have invalid shape or values''
     (bindr (try_fold (\<lambda>sum span.
         ensure (0 < span_width span) ''empty snapshot producer span''
         (ok_or (checked_add sum (span_width span)) ''snapshot producer span overflow'')) 0 (hv_items (sn_spans s))) (\<lambda>produced.
      ensure (produced = sn_frontier s) ''snapshot producer spans differ from frontier''
     (bindr (ple_host_validate_committed (hv_items (sn_tokens s)) (sn_eos s) (sn_ple s)) (\<lambda>_.
      ensure (length (sn_layers s) = length (he_layers en)) ''snapshot layer count differs from engine''
     (try_fold (\<lambda>_. layer_matches (sn_frontier s)) () (zip (he_layers en) (sn_layers s)))))))))))))"

definition capture :: "snapshot_env \<Rightarrow> host_engine \<Rightarrow> session \<Rightarrow> session_snapshot taking" where
  "capture env en s =
     t_bind (budget_copy env 4 (se_tokens s)) (\<lambda>tokens.
     t_bind (t_lift (last_logits_bf16 s)) (\<lambda>row.
     t_bind (budget_copy env 2 row) (\<lambda>logits.
     t_bind (budget_copy env (sz_span env) (se_spans s)) (\<lambda>spans.
     t_bind (t_lift (ple_to_host env (se_ple s))) (\<lambda>ple.
     t_bind (charge_vec 2 (ph_conv ple)) (\<lambda>_.
     t_bind (t_lift (length_charge (sz_layer env) (length (se_layers s)))) (\<lambda>least.
     t_bind (can_fit least) (\<lambda>_.
     let layer_capacity = vec_capacity env (sz_layer env) (length (se_layers s)) in
     t_bind (t_lift (vector_charge (sz_layer env) layer_capacity)) (\<lambda>n.
     t_bind (charge n) (\<lambda>_.
     t_bind (t_map (capture_layer env) (zip (he_layers en) (se_layers s))) (\<lambda>layers.
     t_return \<lparr> sn_owner = he_cache_identity en, sn_cache_origin = se_cache_origin s,
       sn_producer_version = PRODUCER_VERSION, sn_prefill_capacity = he_prefill_rows en,
       sn_max_context = he_max_context en, sn_eos = he_eos en, sn_frontier = se_frontier s,
       sn_tokens = tokens, sn_logits = logits, sn_spans = spans, sn_ple = ple, sn_layers = layers,
       sn_layer_capacity = layer_capacity \<rparr>)))))))))))"

text \<open>\<open>Ok(None)\<close> is the refusal of a copy that does not fit.\<close>

definition snapshot_inner :: "snapshot_env \<Rightarrow> host_engine \<Rightarrow> session \<Rightarrow> nat \<Rightarrow> session_snapshot option result" where
  "snapshot_inner env en s limit =
     bindr (snapshot_minimum_retained_bytes env en s) (\<lambda>least.
     if limit < least then Inr None
     else case budget_new env limit of None \<Rightarrow> Inr None
     | Some b0 \<Rightarrow> bindr (capture env en s b0) (\<lambda>r. case r of None \<Rightarrow> Inr None
       | Some (snap, b) \<Rightarrow>
           bindr (validate_metadata snap en) (\<lambda>_.
           bindr (retained_capacity_bytes env snap) (\<lambda>n.
           ensure (n = sb_charged b) ''snapshot retained charge differs from admission accounting'' (Inr (Some snap))))))"

definition engine_snapshot :: "snapshot_env \<Rightarrow> host_engine \<Rightarrow> session \<Rightarrow> session_snapshot result" where
  "engine_snapshot env en s =
     bindr (snapshot_inner env en s (u64_limit - 1)) (\<lambda>r. ok_or r ''snapshot exceeds retained byte address space'')"

section \<open>Restore\<close>

definition gdn_from_bytes :: "snapshot_env \<Rightarrow> byte list \<Rightarrow> byte list \<Rightarrow> nat \<Rightarrow> gdn_layer result" where
  "gdn_from_bytes env conv recurrent frontier =
     bindr (gdn_validate_parts conv recurrent) (\<lambda>_.
     bindr (uploaded (device_alloc env) conv) (\<lambda>c. bindr (uploaded (device_alloc env) recurrent) (\<lambda>r.
     Inr \<lparr> gdn_conv = c, gdn_recurrent = r, gdn_state_frontier = frontier, gdn_state_valid = True, gdn_layer_valid = True \<rparr>)))"

definition qsa_from_parts :: "snapshot_env \<Rightarrow> nat \<Rightarrow> nat list \<Rightarrow> nat list \<Rightarrow> nat \<Rightarrow> qsa_index_state result" where
  "qsa_from_parts env frontier compressed pending max_positions =
     ensure (0 < max_positions \<and> max_positions \<le> MAX_POSITIONS \<and> frontier \<le> max_positions)
       ''QSA device index context limit differs''
     (bindr (qsa_validate_parts frontier compressed pending) (\<lambda>_.
      bindr (shared_buffer (device_alloc env) (max (length compressed) INDEX_WIDTH * 2)) (\<lambda>c0.
      bindr (write_words compressed c0) (\<lambda>c.
      bindr (shared_buffer (device_alloc env) (COMPRESS_RATIO * INDEX_WIDTH * 2)) (\<lambda>p0.
      bindr (write_words pending p0) (\<lambda>p.
      Inr \<lparr> qi_max_positions = max_positions, qi_frontier = frontier, qi_valid = True,
            qi_compressed = c, qi_pending = p \<rparr>))))))"

definition kvarn_upload :: "snapshot_env \<Rightarrow> byte list \<Rightarrow> buffer result" where
  "kvarn_upload env bs = bindr (zero_buffer (device_alloc env) (length bs)) (write_bytes 0 bs)"

definition kvarn_restore ::
    "snapshot_env \<Rightarrow> nat \<Rightarrow> nat \<Rightarrow> byte list \<Rightarrow> byte list \<Rightarrow> byte list \<Rightarrow> byte list \<Rightarrow> byte list \<Rightarrow> kvarn_state result" where
  "kvarn_restore env max_context frontier records sink_keys sink_values tail_keys tail_values =
     bindr (kvarn_validate_parts max_context frontier records sink_keys sink_values tail_keys tail_values) (\<lambda>_.
     bindr (kvarn_upload env records) (\<lambda>r. bindr (kvarn_upload env sink_keys) (\<lambda>sk.
     bindr (kvarn_upload env sink_values) (\<lambda>sv. bindr (kvarn_upload env tail_keys) (\<lambda>tk.
     bindr (kvarn_upload env tail_values) (\<lambda>tv.
     Inr \<lparr> kv_max_context = max_context, kv_frontier = frontier, kv_valid = True, kv_records = r,
           kv_sink_keys = sk, kv_sink_values = sv, kv_tail_keys = tk, kv_tail_values = tv \<rparr>))))))"

fun restore_layer :: "snapshot_env \<Rightarrow> host_engine \<Rightarrow> saved_layer \<Rightarrow> layer_state result" where
  "restore_layer env en (Saved_Gdn g) =
     bindr (gdn_from_bytes env (hv_items (sg_conv g)) (hv_items (sg_recurrent g)) (sg_frontier g)) (\<lambda>l. Inr (Gdn_State l))"
| "restore_layer env en (Saved_Qsa q) =
     bindr (qsa_from_parts env (sq_index_frontier q) (hv_items (sq_compressed q)) (hv_items (sq_pending q))
       (he_max_context en)) (\<lambda>i.
     bindr (kvarn_restore env (he_max_context en) (sk_frontier (sq_kv q)) (hv_items (sk_records (sq_kv q)))
       (hv_items (sk_sink_keys (sq_kv q))) (hv_items (sk_sink_values (sq_kv q)))
       (hv_items (sk_tail_keys (sq_kv q))) (hv_items (sk_tail_values (sq_kv q)))) (\<lambda>k.
     Inr (Qsa_State i k)))"

definition ple_from_host :: "snapshot_env \<Rightarrow> ple_host \<Rightarrow> ple_state result" where
  "ple_from_host env p =
     ensure (fst (ph_context p) < VOCAB \<and> snd (ph_context p) < VOCAB \<and> length (hv_items (ph_conv p)) = PLE_WORDS
         \<and> (\<forall>v\<in>set (hv_items (ph_conv p)). bf16_finite v)) ''invalid PLE state for device import''
     (bindr (shared_buffer (device_alloc env) (PLE_WORDS * 2)) (\<lambda>b.
      bindr (write_bytes 0 (bytes_of (hv_items (ph_conv p))) b) (\<lambda>b.
      Inr \<lparr> ple_context = ph_context p, ple_conv = b, ple_offset = ph_offset p \<rparr>)))"

definition restore_inner :: "snapshot_env \<Rightarrow> host_engine \<Rightarrow> session_snapshot \<Rightarrow> session result" where
  "restore_inner env en s =
     bindr (validate_metadata s en) (\<lambda>_.
     bindr (map_result (restore_layer env en) (sn_layers s)) (\<lambda>layers.
     bindr (shared_buffer (device_alloc env) (VOCAB * 2)) (\<lambda>b.
     bindr (write_bytes 0 (bytes_of (hv_items (sn_logits s))) b) (\<lambda>logits.
     bindr (ple_from_host env (sn_ple s)) (\<lambda>ple.
     Inr \<lparr> se_owner = he_identity en, se_cache_origin = sn_cache_origin s, se_frontier = sn_frontier s,
           se_valid = True, se_layers = layers, se_ple = ple, se_eos = sn_eos s,
           se_tokens = hv_items (sn_tokens s), se_logits = logits,
           se_last_logits = Some (hv_items (sn_logits s)), se_spans = hv_items (sn_spans s) \<rparr>)))))"

section \<open>Device transfers\<close>

definition readable :: "buffer \<Rightarrow> nat \<Rightarrow> bool" where
  "readable b n \<longleftrightarrow> \<not> buf_reserved b \<and> n \<le> byte_len b"

lemma read_bytes_0 [result_simps]: "read_bytes b 0 n = Inr bs \<longleftrightarrow> readable b n \<and> bs = take n (buf_bytes b)"
  by (auto simp: read_bytes_def check_host_access_def readable_def result_simps)

lemma read_bytes_eq:
  "read_bytes b off n = Inr bs \<longleftrightarrow> readable b (off + n) \<and> bs = take n (drop off (buf_bytes b))"
  by (auto simp: read_bytes_def check_host_access_def readable_def result_simps)

lemma readable_mono: "readable b n \<Longrightarrow> m \<le> n \<Longrightarrow> readable b m"
  by (simp add: readable_def)

lemma length_take_readable: "readable b n \<Longrightarrow> length (take n (buf_bytes b)) = n"
  by (simp add: readable_def byte_len_def)

lemma STAGING_pos [simp]: "0 < STAGING" "0 < STAGING div 2" "STAGING mod 2 = 0"
  by (simp_all add: STAGING_def)

lemma take_min_step: "take (min (start + n) len) xs = take start xs @ take (min n (len - start)) (drop start xs)" if "start < len"
proof -
  have "min (start + n) len = start + min n (len - start)" using that by simp
  then show ?thesis by (simp only: take_add)
qed

lemma read_staged_eq:
  "read_staged b n = Inr ws \<longleftrightarrow> (n = 0 \<or> readable b n) \<and> ws = words_of (take n (buf_bytes b))"
proof
  have even: "length (take start (buf_bytes b)) mod 2 = 0" if "start mod STAGING = 0" "readable b start" for start
    unfolding length_take_readable [OF that(2)] using that mod_mod_cancel [of 2 STAGING start]
    by (simp add: STAGING_def)
  have step: "words_of (take start (buf_bytes b)) @ words_of (take (min STAGING (n - start)) (drop start (buf_bytes b)))
      = words_of (take (min (start + STAGING) n) (buf_bytes b))" if "start < n" "start mod STAGING = 0" "readable b start" for start
    using words_of_append [OF even [OF that(2,3)]] take_min_step [OF that(1), of STAGING "buf_bytes b"] by simp
  let ?f = "\<lambda>acc start. bindr (read_bytes b start (min STAGING (n - start))) (\<lambda>bs. Inr (acc @ words_of bs))"
  {
    assume "read_staged b n = Inr ws"
    then have run: "try_fold ?f [] (step_by STAGING n) = Inr ws" by (simp add: read_staged_def)
    have "(n = 0 \<or> readable b n) \<and> (n < n \<longrightarrow> n mod STAGING = 0) \<and> ws = words_of (take n (buf_bytes b))"
    proof (rule step_by_fold_Inr [OF run, where P = "\<lambda>p a. (p = 0 \<or> readable b p) \<and> (p < n \<longrightarrow> p mod STAGING = 0)
            \<and> a = words_of (take p (buf_bytes b))"])
      fix start a a' assume s: "start < n"
        and p: "(start = 0 \<or> readable b start) \<and> (start < n \<longrightarrow> start mod STAGING = 0) \<and> a = words_of (take start (buf_bytes b))"
        and f: "?f a start = Inr a'"
      from f have r: "readable b (start + min STAGING (n - start))"
        and a': "a' = a @ words_of (take (min STAGING (n - start)) (drop start (buf_bytes b)))"
        by (auto simp: bindr_eq_Inr read_bytes_eq)
      have e: "start + min STAGING (n - start) = min (start + STAGING) n" using s by simp
      have "readable b start" by (rule readable_mono [OF r]) simp
      with step [OF s] p s a' have "a' = words_of (take (min (start + STAGING) n) (buf_bytes b))" by simp
      with r p s show "(min (start + STAGING) n = 0 \<or> readable b (min (start + STAGING) n))
          \<and> (min (start + STAGING) n < n \<longrightarrow> min (start + STAGING) n mod STAGING = 0)
          \<and> a' = words_of (take (min (start + STAGING) n) (buf_bytes b))" unfolding e by (simp add: min_def)
    qed (simp_all add: words_of_def)
    then show "(n = 0 \<or> readable b n) \<and> ws = words_of (take n (buf_bytes b))" by simp
  }
  assume r: "(n = 0 \<or> readable b n) \<and> ws = words_of (take n (buf_bytes b))"
  have "\<exists>r. try_fold ?f [] (step_by STAGING n) = Inr r \<and> (n < n \<longrightarrow> n mod STAGING = 0) \<and> r = words_of (take n (buf_bytes b))"
  proof (rule step_by_fold_total [where P = "\<lambda>p a. (p < n \<longrightarrow> p mod STAGING = 0) \<and> a = words_of (take p (buf_bytes b))"])
    fix start a assume s: "start < n" "(start < n \<longrightarrow> start mod STAGING = 0) \<and> a = words_of (take start (buf_bytes b))"
    then have "readable b (start + min STAGING (n - start))" "readable b start" using r by (auto simp: readable_def)
    then have "read_bytes b start (min STAGING (n - start)) = Inr (take (min STAGING (n - start)) (drop start (buf_bytes b)))"
      by (simp add: read_bytes_eq)
    with s step [of start] \<open>readable b start\<close>
    show "\<exists>a'. ?f a start = Inr a' \<and> (min (start + STAGING) n < n \<longrightarrow> min (start + STAGING) n mod STAGING = 0)
        \<and> a' = words_of (take (min (start + STAGING) n) (buf_bytes b))" by (simp add: min_def)
  qed (simp_all add: words_of_def)
  with r show "read_staged b n = Inr ws" by (auto simp: read_staged_def)
qed

lemma shared_buffer_Inr:
  assumes "metal_allocates alloc" "shared_buffer alloc n = Inr b"
  shows "byte_len b = n \<and> \<not> buf_reserved b \<and> 0 < n"
  using assms by (auto simp: shared_buffer_def metal_allocates_def result_simps byte_len_def)

lemma write_bytes_Inr:
  "write_bytes off bs b = Inr b' \<longleftrightarrow> readable b (off + length bs)
     \<and> b' = b \<lparr> buf_bytes := take off (buf_bytes b) @ bs @ drop (off + length bs) (buf_bytes b) \<rparr>"
  by (auto simp: write_bytes_def check_host_access_def readable_def result_simps)

lemma write_words_Inr:
  assumes "write_words ws b = Inr b'"
  shows "take (length ws * 2) (buf_bytes b') = bytes_of ws \<and> byte_len b' = byte_len b
    \<and> buf_reserved b' = buf_reserved b \<and> length ws * 2 \<le> byte_len b'"
proof -
  let ?n = "length ws" and ?S = "STAGING div 2"
  let ?f = "\<lambda>b start. let end_word = min (start + ?S) ?n in
     write_bytes (start * 2) (bytes_of (take (end_word - start) (drop start ws))) b"
  have run: "try_fold ?f b (step_by ?S ?n) = Inr b'" using assms by (simp add: write_words_def)
  let ?P = "\<lambda>p c. take (p * 2) (buf_bytes c) = bytes_of (take p ws) \<and> byte_len c = byte_len b
    \<and> buf_reserved c = buf_reserved b \<and> p * 2 \<le> byte_len c"
  have "?P ?n b'"
  proof (rule step_by_fold_Inr [OF run])
    fix start c c' assume s: "start < ?n" and p: "?P start c" and f: "?f c start = Inr c'"
    let ?e = "min (start + ?S) ?n"
    let ?w = "bytes_of (take (?e - start) (drop start ws))"
    have lw: "length ?w = (?e - start) * 2" using s by (auto simp: min_def)
    have "start + (?e - start) = ?e" using s by simp
    then have e: "start * 2 + (?e - start) * 2 = ?e * 2" by (metis add_mult_distrib)
    from f have r: "readable c (?e * 2)" and c': "c' = c \<lparr> buf_bytes := take (start * 2) (buf_bytes c) @ ?w
        @ drop (?e * 2) (buf_bytes c) \<rparr>"
      unfolding Let_def write_bytes_Inr lw e by simp_all
    have l: "length (take (start * 2) (buf_bytes c)) = start * 2" using p s by (simp add: byte_len_def)
    have "take (?e * 2) (buf_bytes c') = take (start * 2) (buf_bytes c) @ ?w"
      unfolding e [symmetric] using c' l lw by simp
    also have "\<dots> = bytes_of (take start ws @ take (?e - start) (drop start ws))" using p by simp
    also have "take start ws @ take (?e - start) (drop start ws) = take ?e ws"
      using take_add [of start "?e - start" ws] \<open>start + (?e - start) = ?e\<close> by metis
    finally have "take (?e * 2) (buf_bytes c') = bytes_of (take ?e ws)" .
    moreover have "byte_len c' = byte_len c"
    proof -
      have "length (buf_bytes c') = length (take (start * 2) (buf_bytes c)) + (length ?w + length (drop (?e * 2) (buf_bytes c)))"
        unfolding c' by simp
      also have "\<dots> = ?e * 2 + length (drop (?e * 2) (buf_bytes c))" unfolding l lw e [symmetric] by (simp only: add.assoc)
      also have "\<dots> = length (buf_bytes c)" using r by (simp add: readable_def byte_len_def)
      finally show ?thesis by (simp add: byte_len_def)
    qed
    ultimately show "?P ?e c'" using r p c' by (simp add: readable_def)
  qed (simp_all add: bytes_of_def)
  then show ?thesis by simp
qed

lemma uploaded_Inr:
  assumes "metal_allocates alloc" "uploaded alloc bs = Inr b"
  shows "buf_bytes b = bs \<and> \<not> buf_reserved b"
proof -
  obtain b0 where b0: "shared_buffer alloc (length bs) = Inr b0" "write_bytes 0 bs b0 = Inr b"
    using assms(2) by (auto simp: uploaded_def bindr_eq_Inr)
  with shared_buffer_Inr [OF assms(1) b0(1)] show ?thesis
    by (auto simp: write_bytes_Inr readable_def byte_len_def)
qed

lemma zero_buffer_Inr:
  assumes "metal_allocates alloc" "zero_buffer alloc n = Inr b"
  shows "byte_len b = max n 2 \<and> \<not> buf_reserved b"
proof -
  obtain b0 where b0: "shared_buffer alloc (max n 2) = Inr b0"
    and run: "try_fold (\<lambda>b start. write_bytes start (replicate (min STAGING (byte_len b - start)) 0) b) b0
       (step_by STAGING (byte_len b0)) = Inr b"
    using assms(2) by (auto simp: zero_buffer_def bindr_eq_Inr)
  have "byte_len b = byte_len b0 \<and> buf_reserved b = buf_reserved b0"
    by (rule step_by_fold_Inr [OF run, where P = "\<lambda>p c. byte_len c = byte_len b0 \<and> buf_reserved c = buf_reserved b0"])
      (use length_write_bytes in fastforce)+
  with shared_buffer_Inr [OF assms(1) b0] show ?thesis by simp
qed

lemma kvarn_upload_Inr:
  assumes "metal_allocates (device_alloc env)" "kvarn_upload env bs = Inr b"
  shows "take (length bs) (buf_bytes b) = bs \<and> \<not> buf_reserved b \<and> byte_len b = max (length bs) 2"
proof -
  obtain b0 where b0: "zero_buffer (device_alloc env) (length bs) = Inr b0" "write_bytes 0 bs b0 = Inr b"
    using assms(2) by (auto simp: kvarn_upload_def bindr_eq_Inr)
  from zero_buffer_Inr [OF assms(1) b0(1)] b0(2) show ?thesis
    by (auto simp: write_bytes_Inr readable_def byte_len_def)
qed

section \<open>Accounting\<close>

text \<open>A step paid exactly these charges and stayed within the limit.\<close>

definition paid :: "nat result list \<Rightarrow> snapshot_budget \<Rightarrow> snapshot_budget \<Rightarrow> bool" where
  "paid parts b b' \<longleftrightarrow> charge_all (sb_charged b) parts = Inr (sb_charged b') \<and> sb_limit b' = sb_limit b
     \<and> (sb_charged b \<le> sb_limit b \<longrightarrow> sb_charged b' \<le> sb_limit b)"

lemma paid_Nil [simp]: "paid [] b b"
  by (simp add: paid_def charge_all_def)

lemma paid_append: "paid xs b b1 \<Longrightarrow> paid ys b1 b2 \<Longrightarrow> paid (xs @ ys) b b2"
  by (auto simp: paid_def charge_all_def)

lemma paid_Cons: "paid [x] b b1 \<Longrightarrow> paid ys b1 b2 \<Longrightarrow> paid (x # ys) b b2"
  using paid_append [of "[x]" b b1 ys b2] by simp

lemma t_bind_Some [result_simps]:
  "t_bind m f b = Inr (Some (y, b')) \<longleftrightarrow> (\<exists>x b1. m b = Inr (Some (x, b1)) \<and> f x b1 = Inr (Some (y, b')))"
  by (auto simp: t_bind_def bindr_eq_Inr split: option.splits)

lemma t_simps [result_simps]:
  "t_return x b = Inr (Some (y, b')) \<longleftrightarrow> y = x \<and> b' = b"
  "t_lift r b = Inr (Some (y, b')) \<longleftrightarrow> r = Inr y \<and> b' = b"
  "can_fit n b = Inr (Some (u, b')) \<longleftrightarrow> b' = b \<and> sb_charged b + n < u64_limit \<and> sb_charged b + n \<le> sb_limit b"
  by (auto simp: t_return_def t_lift_def can_fit_def charge_add_def bindr_eq_Inr ok_or_eq_Inr checked_add_eq_Some
      split: if_splits)

lemma charge_paid: "charge n b = Inr (Some (u, b')) \<Longrightarrow> paid [Inr n] b b'"
  by (auto simp: paid_def charge_all_def charge_def bindr_eq_Inr split: if_splits)

lemma charge_vec_paid: "charge_vec width v b = Inr (Some (u, b')) \<Longrightarrow> paid [vector_charge width (hv_capacity v)] b b'"
  using charge_paid by (fastforce simp: charge_vec_def result_simps)

lemma budget_copy_paid:
  "budget_copy env width src b = Inr (Some (v, b')) \<Longrightarrow>
     v = allocated env width src \<and> paid [vector_charge width (hv_capacity v)] b b'"
  by (auto simp: budget_copy_def Let_def result_simps dest!: charge_vec_paid)

lemma budget_read_buffer_paid:
  assumes "budget_read_buffer env (src, n) b = Inr (Some (v, b'))"
  shows "readable src n \<and> v = allocated env 1 (take n (buf_bytes src)) \<and> paid [vector_charge 1 (hv_capacity v)] b b'"
proof -
  obtain c where c: "vector_charge 1 (vec_capacity env 1 n) = Inr c" "charge c b = Inr (Some ((), b'))"
    and v: "readable src n" "v = allocated env 1 (take n (buf_bytes src))"
    using assms by (auto simp: budget_read_buffer_def result_simps)
  have "hv_capacity v = vec_capacity env 1 n"
    using v(2) length_take_readable [OF v(1)] by (simp only: allocated_def hvec.select_convs)
  with c(1) charge_paid [OF c(2)] v show ?thesis by simp
qed

text \<open>The bytes of a layer that a copy carries.\<close>

fun layer_content :: "layer_state \<Rightarrow> nat list \<times> byte list list" where
  "layer_content (Gdn_State g) = ([gdn_state_frontier g],
     [take GDN_CONV_BYTES (buf_bytes (gdn_conv g)), take GDN_RECURRENT_BYTES (buf_bytes (gdn_recurrent g))])"
| "layer_content (Qsa_State i k) = ([qi_frontier i, kv_frontier k],
     [take (qi_frontier i div COMPRESS_RATIO * INDEX_WIDTH * 2) (buf_bytes (qi_compressed i)),
      take (qi_frontier i mod COMPRESS_RATIO * INDEX_WIDTH * 2) (buf_bytes (qi_pending i)),
      take (record_bytes k) (buf_bytes (kv_records k)),
      take SINK_BYTES (buf_bytes (kv_sink_keys k)), take SINK_BYTES (buf_bytes (kv_sink_values k)),
      take TAIL_BYTES (buf_bytes (kv_tail_keys k)), take TAIL_BYTES (buf_bytes (kv_tail_values k))])"

fun saved_content :: "saved_layer \<Rightarrow> nat list \<times> byte list list" where
  "saved_content (Saved_Gdn g) = ([sg_frontier g], [hv_items (sg_conv g), hv_items (sg_recurrent g)])"
| "saved_content (Saved_Qsa q) = ([sq_index_frontier q, sk_frontier (sq_kv q)],
     [bytes_of (hv_items (sq_compressed q)), bytes_of (hv_items (sq_pending q)),
      hv_items (sk_records (sq_kv q)), hv_items (sk_sink_keys (sq_kv q)), hv_items (sk_sink_values (sq_kv q)),
      hv_items (sk_tail_keys (sq_kv q)), hv_items (sk_tail_values (sq_kv q))])"

lemma staged_bytes:
  "read_staged b (n * 2) = Inr ws \<Longrightarrow> bytes_of ws = take (n * 2) (buf_bytes b)"
proof -
  assume r: "read_staged b (n * 2) = Inr ws"
  then have ws: "ws = words_of (take (n * 2) (buf_bytes b))" and "n = 0 \<or> readable b (n * 2)"
    by (simp_all add: read_staged_eq)
  then have "length (take (n * 2) (buf_bytes b)) mod 2 = 0" using length_take_readable [of b "n * 2"] by auto
  from bytes_of_words_of [OF this] ws show "bytes_of ws = take (n * 2) (buf_bytes b)" by simp
qed

lemma capture_gdn:
  assumes "capture_layer env (Gdn, Gdn_State g) b = Inr (Some (saved, b'))"
  shows "paid (retained_layer saved) b b' \<and> saved_content saved = layer_content (Gdn_State g)"
proof -
  obtain c r b1 u where v: "gdn_snapshot g = Inr (c, r)" "gdn_frontier g = Inr u"
    and p: "charge_vec 1 (allocated env 1 c) b = Inr (Some ((), b1))" "charge_vec 1 (allocated env 1 r) b1 = Inr (Some ((), b'))"
    and s: "saved = Saved_Gdn \<lparr> sg_frontier = u, sg_conv = allocated env 1 c, sg_recurrent = allocated env 1 r \<rparr>"
    using assms by (auto simp: Let_def result_simps)
  from v have "u = gdn_state_frontier g" "c = take GDN_CONV_BYTES (buf_bytes (gdn_conv g))"
    "r = take GDN_RECURRENT_BYTES (buf_bytes (gdn_recurrent g))"
    by (auto simp: gdn_snapshot_def gdn_frontier_def result_simps)
  with s have "saved_content saved = layer_content (Gdn_State g)" by (simp add: allocated_def)
  with paid_Cons [OF charge_vec_paid [OF p(1)] charge_vec_paid [OF p(2)]] s show ?thesis by simp
qed

lemma capture_qsa:
  assumes "capture_layer env (Qsa, Qsa_State i k) b = Inr (Some (saved, b'))"
  shows "paid (retained_layer saved) b b' \<and> saved_content saved = layer_content (Qsa_State i k)"
proof -
  obtain fi c p fk b1 b2 records b3 sk b4 sv b5 tk b6 tv where
    x: "qsa_export_host i = Inr (fi, c, p)" "kvarn_frontier k = Inr fk"
    and p1: "charge_vec 2 (allocated env 2 c) b = Inr (Some ((), b1))"
    and p2: "charge_vec 2 (allocated env 2 p) b1 = Inr (Some ((), b2))"
    and r1: "budget_read_buffer env (kv_records k, record_bytes k) b2 = Inr (Some (records, b3))"
    and r2: "budget_read_buffer env (kv_sink_keys k, SINK_BYTES) b3 = Inr (Some (sk, b4))"
    and r3: "budget_read_buffer env (kv_sink_values k, SINK_BYTES) b4 = Inr (Some (sv, b5))"
    and r4: "budget_read_buffer env (kv_tail_keys k, TAIL_BYTES) b5 = Inr (Some (tk, b6))"
    and r5: "budget_read_buffer env (kv_tail_values k, TAIL_BYTES) b6 = Inr (Some (tv, b'))"
    and s: "saved = Saved_Qsa \<lparr> sq_index_frontier = fi, sq_compressed = allocated env 2 c, sq_pending = allocated env 2 p,
       sq_kv = \<lparr> sk_frontier = fk, sk_records = records, sk_sink_keys = sk, sk_sink_values = sv,
                 sk_tail_keys = tk, sk_tail_values = tv \<rparr> \<rparr>"
    using assms by (auto simp: Let_def result_simps)
  have fi: "fi = qi_frontier i" "fk = kv_frontier k"
    using x by (auto simp: qsa_export_host_def kvarn_frontier_def result_simps)
  have cp: "read_staged (qi_compressed i) (fi div COMPRESS_RATIO * INDEX_WIDTH * 2) = Inr c"
    "read_staged (qi_pending i) (fi mod COMPRESS_RATIO * INDEX_WIDTH * 2) = Inr p"
    using x(1) fi by (auto simp: qsa_export_host_def logical_parts_byte_lengths_def qsa_frontier_def result_simps)
  note reads = budget_read_buffer_paid [OF r1] budget_read_buffer_paid [OF r2] budget_read_buffer_paid [OF r3]
    budget_read_buffer_paid [OF r4] budget_read_buffer_paid [OF r5]
  note pay = reads [THEN conjunct2, THEN conjunct2]
  have "saved_content saved = layer_content (Qsa_State i k)"
    using s fi reads staged_bytes [OF cp(1)] staged_bytes [OF cp(2)] by (simp add: allocated_def)
  moreover have "paid (retained_layer saved) b b'"
    using paid_Cons [OF charge_vec_paid [OF p1] paid_Cons [OF charge_vec_paid [OF p2]
      paid_Cons [OF pay(1) paid_Cons [OF pay(2) paid_Cons [OF pay(3) paid_Cons [OF pay(4) pay(5)]]]]]] s
    by simp
  ultimately show ?thesis by simp
qed

lemma capture_layer_Inr:
  assumes "capture_layer env (kind, layer) b = Inr (Some (saved, b'))"
  shows "paid (retained_layer saved) b b' \<and> saved_content saved = layer_content layer"
  using assms capture_gdn capture_qsa by (cases kind; cases layer) (auto simp: t_simps simp del: capture_layer.simps(1,2))

lemma capture_layers_Inr:
  "t_map (capture_layer env) xs b = Inr (Some (ys, b')) \<Longrightarrow>
     paid (concat (map retained_layer ys)) b b' \<and> map saved_content ys = map (layer_content \<circ> snd) xs"
proof (induction xs arbitrary: b ys)
  case (Cons x xs)
  then obtain y b1 zs where y: "capture_layer env x b = Inr (Some (y, b1))"
    and zs: "t_map (capture_layer env) xs b1 = Inr (Some (zs, b'))" "ys = y # zs" by (auto simp: result_simps)
  from Cons.IH [OF zs(1)] capture_layer_Inr [of env "fst x" "snd x" b y b1] y zs(2) show ?case
    by (auto intro: paid_append)
qed (simp add: t_simps)

lemma capture_Inr:
  assumes "capture env en s b = Inr (Some (snap, b'))"
  shows "sb_charged b = sz_snapshot env \<longrightarrow> retained_capacity_bytes env snap = Inr (sb_charged b')"
    and "sb_limit b' = sb_limit b \<and> (sb_charged b \<le> sb_limit b \<longrightarrow> sb_charged b' \<le> sb_limit b)"
    and "hv_items (sn_tokens snap) = se_tokens s \<and> last_logits_bf16 s = Inr (hv_items (sn_logits snap))
      \<and> hv_items (sn_spans snap) = se_spans s \<and> ple_to_host env (se_ple s) = Inr (sn_ple snap)
      \<and> map saved_content (sn_layers snap) = map layer_content (map snd (zip (he_layers en) (se_layers s)))
      \<and> sn_frontier snap = se_frontier s \<and> sn_cache_origin snap = se_cache_origin s \<and> sn_eos snap = he_eos en"
proof -
  obtain tokens b1 row logits b2 spans b3 ple b4 n b5 layers where
    1: "budget_copy env 4 (se_tokens s) b = Inr (Some (tokens, b1))" and row: "last_logits_bf16 s = Inr row"
    and 2: "budget_copy env 2 row b1 = Inr (Some (logits, b2))"
    and 3: "budget_copy env (sz_span env) (se_spans s) b2 = Inr (Some (spans, b3))"
    and ple: "ple_to_host env (se_ple s) = Inr ple" and 4: "charge_vec 2 (ph_conv ple) b3 = Inr (Some ((), b4))"
    and n: "vector_charge (sz_layer env) (vec_capacity env (sz_layer env) (length (se_layers s))) = Inr n"
    and 5: "charge n b4 = Inr (Some ((), b5))"
    and 6: "t_map (capture_layer env) (zip (he_layers en) (se_layers s)) b5 = Inr (Some (layers, b'))"
    and snap: "snap = \<lparr> sn_owner = he_cache_identity en, sn_cache_origin = se_cache_origin s,
       sn_producer_version = PRODUCER_VERSION, sn_prefill_capacity = he_prefill_rows en,
       sn_max_context = he_max_context en, sn_eos = he_eos en, sn_frontier = se_frontier s,
       sn_tokens = tokens, sn_logits = logits, sn_spans = spans, sn_ple = ple, sn_layers = layers,
       sn_layer_capacity = vec_capacity env (sz_layer env) (length (se_layers s)) \<rparr>"
    using assms by (auto simp: capture_def Let_def result_simps)
  have p: "paid ([vector_charge 4 (hv_capacity tokens), vector_charge 2 (hv_capacity logits),
       vector_charge (sz_span env) (hv_capacity spans), vector_charge 2 (hv_capacity (ph_conv ple)), Inr n]
       @ concat (map retained_layer layers)) b b'"
    using paid_append [OF paid_Cons [OF budget_copy_paid [OF 1, THEN conjunct2]
      paid_Cons [OF budget_copy_paid [OF 2, THEN conjunct2] paid_Cons [OF budget_copy_paid [OF 3, THEN conjunct2]
      paid_Cons [OF charge_vec_paid [OF 4] charge_paid [OF 5]]]]] capture_layers_Inr [OF 6, THEN conjunct1]] .
  then show "sb_charged b = sz_snapshot env \<longrightarrow> retained_capacity_bytes env snap = Inr (sb_charged b')"
    by (auto simp: retained_capacity_bytes_def paid_def snap n)
  from p show "sb_limit b' = sb_limit b \<and> (sb_charged b \<le> sb_limit b \<longrightarrow> sb_charged b' \<le> sb_limit b)"
    by (simp add: paid_def)
  show "hv_items (sn_tokens snap) = se_tokens s \<and> last_logits_bf16 s = Inr (hv_items (sn_logits snap))
      \<and> hv_items (sn_spans snap) = se_spans s \<and> ple_to_host env (se_ple s) = Inr (sn_ple snap)
      \<and> map saved_content (sn_layers snap) = map layer_content (map snd (zip (he_layers en) (se_layers s)))
      \<and> sn_frontier snap = se_frontier s \<and> sn_cache_origin snap = se_cache_origin s \<and> sn_eos snap = he_eos en"
    using snap row ple budget_copy_paid [OF 1] budget_copy_paid [OF 2] budget_copy_paid [OF 3] capture_layers_Inr [OF 6]
    by (simp add: allocated_def)
qed

section \<open>Restored layers\<close>

lemma write_whole:
  assumes "shared_buffer alloc n = Inr b0" "write_bytes 0 bs b0 = Inr b" "length bs = n" "metal_allocates alloc"
  shows "buf_bytes b = bs \<and> \<not> buf_reserved b"
  using shared_buffer_Inr [OF assms(4,1)] assms(2,3) by (auto simp: write_bytes_Inr readable_def byte_len_def)

lemma gdn_from_bytes_Inr:
  assumes "metal_allocates (device_alloc env)" "gdn_from_bytes env conv recurrent f = Inr g"
  shows "layer_content (Gdn_State g) = ([f], [conv, recurrent]) \<and> layer_frontier (Gdn_State g) = Inr f"
  using assms(2) uploaded_Inr [OF assms(1)]
  by (fastforce simp: gdn_from_bytes_def gdn_validate_parts_def result_simps layer_frontier_def gdn_frontier_def)

lemma qsa_from_parts_Inr:
  assumes m: "metal_allocates (device_alloc env)" and r: "qsa_from_parts env f c p mp = Inr i"
  shows "qi_frontier i = f \<and> qi_valid i
    \<and> take (f div COMPRESS_RATIO * INDEX_WIDTH * 2) (buf_bytes (qi_compressed i)) = bytes_of c
    \<and> take (f mod COMPRESS_RATIO * INDEX_WIDTH * 2) (buf_bytes (qi_pending i)) = bytes_of p
    \<and> readable (qi_compressed i) (f div COMPRESS_RATIO * INDEX_WIDTH * 2)
    \<and> readable (qi_pending i) (f mod COMPRESS_RATIO * INDEX_WIDTH * 2)"
proof -
  obtain c0 c1 p0 p1 where v: "qsa_validate_parts f c p = Inr ()"
    and c: "shared_buffer (device_alloc env) (max (length c) INDEX_WIDTH * 2) = Inr c0" "write_words c c0 = Inr c1"
    and p: "shared_buffer (device_alloc env) (COMPRESS_RATIO * INDEX_WIDTH * 2) = Inr p0" "write_words p p0 = Inr p1"
    and i: "i = \<lparr> qi_max_positions = mp, qi_frontier = f, qi_valid = True, qi_compressed = c1, qi_pending = p1 \<rparr>"
    using r by (auto simp: qsa_from_parts_def result_simps)
  from v have l: "length c = f div COMPRESS_RATIO * INDEX_WIDTH" "length p = f mod COMPRESS_RATIO * INDEX_WIDTH"
    by (auto simp: qsa_validate_parts_def result_simps)
  show ?thesis
    using shared_buffer_Inr [OF m c(1)] shared_buffer_Inr [OF m p(1)] write_words_Inr [OF c(2)] write_words_Inr [OF p(2)] i
    by (simp add: l readable_def)
qed

lemma kvarn_restore_Inr:
  assumes m: "metal_allocates (device_alloc env)" and r: "kvarn_restore env mc f r0 sk sv tk tv = Inr k"
  shows "kv_frontier k = f \<and> kv_valid k
    \<and> take (record_bytes k) (buf_bytes (kv_records k)) = r0 \<and> readable (kv_records k) (record_bytes k)
    \<and> take SINK_BYTES (buf_bytes (kv_sink_keys k)) = sk \<and> take SINK_BYTES (buf_bytes (kv_sink_values k)) = sv
    \<and> take TAIL_BYTES (buf_bytes (kv_tail_keys k)) = tk \<and> take TAIL_BYTES (buf_bytes (kv_tail_values k)) = tv"
proof -
  have v: "kvarn_validate_parts mc f r0 sk sv tk tv = Inr ()" using r by (auto simp: kvarn_restore_def result_simps)
  then have l: "length r0 = (fst (snd (kvarn_partition f)) - SINK_TOKENS) div TILE_TOKENS * TILE_RECORD_BYTES"
    "length sk = SINK_BYTES" "length sv = SINK_BYTES" "length tk = TAIL_BYTES" "length tv = TAIL_BYTES"
    by (auto simp: kvarn_validate_parts_def Let_def result_simps)
  then have e: "length sv = length sk" "length tv = length tk" by simp_all
  show ?thesis
    using r kvarn_upload_Inr [OF m, of r0] kvarn_upload_Inr [OF m, of sk] kvarn_upload_Inr [OF m, of sv]
      kvarn_upload_Inr [OF m, of tk] kvarn_upload_Inr [OF m, of tv]
    unfolding l(1,2,4) [symmetric] record_bytes_def e by (auto simp: kvarn_restore_def result_simps readable_def l(1) [symmetric])
qed

lemma restore_layer_Inr:
  assumes m: "metal_allocates (device_alloc env)" and r: "restore_layer env en saved = Inr layer"
    and ok: "layer_matches f (kind, saved) = Inr ()"
  shows "layer_content layer = saved_content saved \<and> layer_frontier layer = Inr f"
proof (cases saved)
  case (Saved_Gdn g)
  with r ok gdn_from_bytes_Inr [OF m] show ?thesis
    by (cases kind) (fastforce simp: layer_matches_def result_simps)+
next
  case (Saved_Qsa q)
  then obtain i k where i: "qsa_from_parts env (sq_index_frontier q) (hv_items (sq_compressed q)) (hv_items (sq_pending q))
       (he_max_context en) = Inr i"
    and k: "kvarn_restore env (he_max_context en) (sk_frontier (sq_kv q)) (hv_items (sk_records (sq_kv q)))
       (hv_items (sk_sink_keys (sq_kv q))) (hv_items (sk_sink_values (sq_kv q)))
       (hv_items (sk_tail_keys (sq_kv q))) (hv_items (sk_tail_values (sq_kv q))) = Inr k"
    and layer: "layer = Qsa_State i k" using r by (auto simp: result_simps)
  have f: "sq_index_frontier q = f" "sk_frontier (sq_kv q) = f"
    using ok Saved_Qsa by (cases kind; auto simp: layer_matches_def result_simps)+
  show ?thesis using qsa_from_parts_Inr [OF m i] kvarn_restore_Inr [OF m k] Saved_Qsa layer f
    by (simp add: layer_frontier_def qsa_frontier_def kvarn_frontier_def)
qed

section \<open>The round trip\<close>

text \<open>What a conversation continues from.\<close>

definition session_content where
  "session_content s = (se_tokens s, se_spans s, se_frontier s, se_cache_origin s,
     ple_context (se_ple s), ple_offset (se_ple s), take (PLE_WORDS * 2) (buf_bytes (ple_conv (se_ple s))),
     map layer_content (se_layers s))"

lemma snapshot_inner_Inr:
  assumes "snapshot_inner env en s limit = Inr (Some snap)"
  obtains b where "capture env en s \<lparr> sb_limit = limit, sb_charged = sz_snapshot env \<rparr> = Inr (Some (snap, b))"
    and "sz_snapshot env \<le> limit" "validate_snapshot_source en s = Inr ()" "validate_metadata snap en = Inr ()"
    and "retained_capacity_bytes env snap = Inr (sb_charged b)"
  using assms that
  by (auto simp: snapshot_inner_def snapshot_minimum_retained_bytes_def budget_new_def result_simps
      split: if_splits option.splits)

lemma capture_charge:
  assumes "capture env en s \<lparr> sb_limit = limit, sb_charged = sz_snapshot env \<rparr> = Inr (Some (snap, b))" "sz_snapshot env \<le> limit"
  shows "retained_capacity_bytes env snap = Inr (sb_charged b) \<and> sb_charged b \<le> limit"
  using capture_Inr(1,2) [OF assms(1)] assms(2) by simp

lemma session_content_saved:
  assumes "capture env en s b = Inr (Some (snap, b'))" and "validate_snapshot_source en s = Inr ()"
    and "validate_metadata snap en = Inr ()"
  shows "session_content s = (hv_items (sn_tokens snap), hv_items (sn_spans snap), sn_frontier snap, sn_cache_origin snap,
       ph_context (sn_ple snap), ph_offset (sn_ple snap), bytes_of (hv_items (ph_conv (sn_ple snap))),
       map saved_content (sn_layers snap))"
proof -
  have len: "length (se_layers s) = length (he_layers en)"
    using assms(2) by (auto simp: validate_snapshot_source_def result_simps)
  note c = capture_Inr(3) [OF assms(1)]
  from c obtain ws where ws: "read_staged (ple_conv (se_ple s)) (PLE_WORDS * 2) = Inr ws"
    and ple: "sn_ple snap = \<lparr> ph_context = ple_context (se_ple s), ph_conv = allocated env 2 ws, ph_offset = ple_offset (se_ple s) \<rparr>"
    by (auto simp: ple_to_host_def result_simps)
  show ?thesis using c len staged_bytes [OF ws] ple by (simp add: session_content_def allocated_def)
qed

lemma restored_layers:
  assumes "metal_allocates (device_alloc env)" "map_result (restore_layer env en) saved = Inr layers"
    and "length kinds = length saved" "try_fold (\<lambda>_. layer_matches f) () (zip kinds saved) = Inr ()"
  shows "map layer_content layers = map saved_content saved \<and> (\<forall>l\<in>set layers. layer_frontier l = Inr f)"
  using assms(3,2,4)
proof (induction kinds saved arbitrary: layers rule: list_induct2)
  case (Cons kind kinds x xs)
  then obtain l ls where l: "restore_layer env en x = Inr l" "map_result (restore_layer env en) xs = Inr ls" "layers = l # ls"
    and ok: "layer_matches f (kind, x) = Inr ()" "try_fold (\<lambda>_. layer_matches f) () (zip kinds xs) = Inr ()"
    by (auto simp: result_simps)
  from restore_layer_Inr [OF assms(1) l(1) ok(1)] Cons.IH [OF l(2) ok(2)] l(3) show ?case by simp
qed simp

lemma sum_spans_msgs:
  "try_fold (\<lambda>n span. ensure (0 < span_width span) m1 (ok_or (checked_add n (span_width span)) m2)) acc spans = Inr k \<Longrightarrow>
   try_fold (\<lambda>n span. ensure (0 < span_width span) m3 (ok_or (checked_add n (span_width span)) m4)) acc spans = Inr k"
proof (induction spans arbitrary: acc)
  case (Cons a spans)
  from Cons.prems obtain b where "checked_add acc (span_width a) = Some b" "0 < span_width a"
    by (auto simp: bindr_eq_Inr ensure_eq_Inr ok_or_eq_Inr)
  with Cons show ?case by simp
qed simp

lemma validate_metadata_Inr:
  assumes "validate_metadata s en = Inr ()"
  shows "sn_eos s = he_eos en \<and> 0 < sn_frontier s \<and> sn_frontier s \<le> he_max_context en
    \<and> length (hv_items (sn_tokens s)) = sn_frontier s \<and> length (hv_items (sn_logits s)) = VOCAB
    \<and> (\<forall>v\<in>set (hv_items (sn_logits s)). bf16_finite v)
    \<and> ple_host_validate_committed (hv_items (sn_tokens s)) (sn_eos s) (sn_ple s) = Inr ()
    \<and> length (sn_layers s) = length (he_layers en)
    \<and> try_fold (\<lambda>_. layer_matches (sn_frontier s)) () (zip (he_layers en) (sn_layers s)) = Inr ()"
    and "sum_spans (hv_items (sn_spans s)) = Inr (sn_frontier s)"
proof -
  from assms have m: "sn_eos s = he_eos en" "0 < sn_frontier s \<and> sn_frontier s \<le> he_max_context en"
    "length (hv_items (sn_tokens s)) = sn_frontier s"
    "length (hv_items (sn_logits s)) = VOCAB \<and> (\<forall>v\<in>set (hv_items (sn_logits s)). bf16_finite v)"
    "ple_host_validate_committed (hv_items (sn_tokens s)) (sn_eos s) (sn_ple s) = Inr ()"
    "length (sn_layers s) = length (he_layers en)"
    "try_fold (\<lambda>_. layer_matches (sn_frontier s)) () (zip (he_layers en) (sn_layers s)) = Inr ()"
    and spans: "try_fold (\<lambda>sum span.
         ensure (0 < span_width span) ''empty snapshot producer span''
         (ok_or (checked_add sum (span_width span)) ''snapshot producer span overflow'')) 0 (hv_items (sn_spans s))
       = Inr (sn_frontier s)"
    by (auto simp: validate_metadata_def bindr_eq_Inr ensure_eq_Inr)
  then show "sn_eos s = he_eos en \<and> 0 < sn_frontier s \<and> sn_frontier s \<le> he_max_context en
    \<and> length (hv_items (sn_tokens s)) = sn_frontier s \<and> length (hv_items (sn_logits s)) = VOCAB
    \<and> (\<forall>v\<in>set (hv_items (sn_logits s)). bf16_finite v)
    \<and> ple_host_validate_committed (hv_items (sn_tokens s)) (sn_eos s) (sn_ple s) = Inr ()
    \<and> length (sn_layers s) = length (he_layers en)
    \<and> try_fold (\<lambda>_. layer_matches (sn_frontier s)) () (zip (he_layers en) (sn_layers s)) = Inr ()" by blast
  from sum_spans_msgs [OF spans] show "sum_spans (hv_items (sn_spans s)) = Inr (sn_frontier s)"
    by (simp add: sum_spans_def)
qed

lemma restored_session:
  assumes m: "metal_allocates (device_alloc env)" and r: "restore_inner env en snap = Inr s"
  shows "validate_snapshot_source en s = Inr () \<and> last_logits_bf16 s = Inr (hv_items (sn_logits snap))
    \<and> session_content s = (hv_items (sn_tokens snap), hv_items (sn_spans snap), sn_frontier snap, sn_cache_origin snap,
       ph_context (sn_ple snap), ph_offset (sn_ple snap), bytes_of (hv_items (ph_conv (sn_ple snap))),
       map saved_content (sn_layers snap))"
proof -
  obtain layers b logits ple where v: "validate_metadata snap en = Inr ()"
    and layers: "map_result (restore_layer env en) (sn_layers snap) = Inr layers"
    and b: "shared_buffer (device_alloc env) (VOCAB * 2) = Inr b" "write_bytes 0 (bytes_of (hv_items (sn_logits snap))) b = Inr logits"
    and ple: "ple_from_host env (sn_ple snap) = Inr ple"
    and s: "s = \<lparr> se_owner = he_identity en, se_cache_origin = sn_cache_origin snap, se_frontier = sn_frontier snap,
           se_valid = True, se_layers = layers, se_ple = ple, se_eos = sn_eos snap,
           se_tokens = hv_items (sn_tokens snap), se_logits = logits,
           se_last_logits = Some (hv_items (sn_logits snap)), se_spans = hv_items (sn_spans snap) \<rparr>"
    using r by (auto simp: restore_inner_def bindr_eq_Inr)
  note meta = validate_metadata_Inr [OF v]
  have logits: "buf_bytes logits = bytes_of (hv_items (sn_logits snap))"
    using write_whole [OF b _ m] meta(1) by simp
  obtain p0 p1 where p: "shared_buffer (device_alloc env) (PLE_WORDS * 2) = Inr p0"
      "write_bytes 0 (bytes_of (hv_items (ph_conv (sn_ple snap)))) p0 = Inr p1"
    and pv: "length (hv_items (ph_conv (sn_ple snap))) = PLE_WORDS"
    and ple_eq: "ple = \<lparr> ple_context = ph_context (sn_ple snap), ple_conv = p1, ple_offset = ph_offset (sn_ple snap) \<rparr>"
    using ple by (auto simp: ple_from_host_def bindr_eq_Inr ensure_eq_Inr)
  have p1: "buf_bytes p1 = bytes_of (hv_items (ph_conv (sn_ple snap)))"
    using write_whole [OF p _ m] pv by simp
  note layer = restored_layers [OF m layers _ meta(1) [THEN conjunct2, THEN conjunct2, THEN conjunct2, THEN conjunct2,
    THEN conjunct2, THEN conjunct2, THEN conjunct2, THEN conjunct2]]
  have lens: "length (he_layers en) = length (sn_layers snap)" "length layers = length (sn_layers snap)"
    using meta(1) layers by (auto simp: map_result_eq_Inr list_all2_lengthD)
  have committed: "validate_committed s = Inr ()"
    using meta s logits pv p1 ple_eq layer [OF lens(1)]
    by (auto simp: validate_committed_def session_frontier_def ple_validate_committed_def ple_host_validate_committed_def
        byte_len_def result_simps layer_loop_Inr)
  then have "validate_snapshot_source en s = Inr ()"
    using meta s lens by (simp add: validate_snapshot_source_def)
  moreover have "last_logits_bf16 s = Inr (hv_items (sn_logits snap))"
    using committed meta s by (simp add: last_logits_bf16_def)
  moreover have "session_content s = (hv_items (sn_tokens snap), hv_items (sn_spans snap), sn_frontier snap, sn_cache_origin snap,
       ph_context (sn_ple snap), ph_offset (sn_ple snap), bytes_of (hv_items (ph_conv (sn_ple snap))),
       map saved_content (sn_layers snap))"
    using s ple_eq p1 pv layer [OF lens(1)] by (simp add: session_content_def)
  ultimately show ?thesis by blast
qed

end
