(* ===== verification/Snapshot_Properties.thy ===== *)
theory Snapshot_Properties
  imports Session_Snapshot
begin

text \<open>
  The properties of session copies, with a small session that satisfies their hypotheses: one token
  consumed, one layer of each kind, every state byte zero, and an allocator without spare capacity.
\<close>

section \<open>A sample session\<close>

definition zeros :: "nat \<Rightarrow> byte list" where
  "zeros n = replicate n 0"

definition zero_words :: "nat \<Rightarrow> nat list" where
  "zero_words n = replicate n 0"

definition sample_buffer :: "nat \<Rightarrow> buffer" where
  "sample_buffer n = \<lparr> buf_bytes = zeros n, buf_reserved = False \<rparr>"

definition sample_session :: session where
  "sample_session = \<lparr> se_owner = 1, se_cache_origin = 2, se_frontier = 1, se_valid = True,
     se_layers = [
       Gdn_State \<lparr> gdn_conv = sample_buffer GDN_CONV_BYTES, gdn_recurrent = sample_buffer GDN_RECURRENT_BYTES,
         gdn_state_frontier = 1, gdn_state_valid = True, gdn_layer_valid = True \<rparr>,
       Qsa_State \<lparr> qi_max_positions = 16, qi_frontier = 1, qi_valid = True, qi_compressed = sample_buffer 256,
           qi_pending = sample_buffer 1024 \<rparr>
         \<lparr> kv_max_context = 16, kv_frontier = 1, kv_valid = True, kv_records = sample_buffer 2,
           kv_sink_keys = sample_buffer SINK_BYTES, kv_sink_values = sample_buffer SINK_BYTES,
           kv_tail_keys = sample_buffer TAIL_BYTES, kv_tail_values = sample_buffer TAIL_BYTES \<rparr>],
     se_ple = \<lparr> ple_context = (9, 7), ple_conv = sample_buffer (PLE_WORDS * 2), ple_offset = 1 \<rparr>,
     se_eos = 9, se_tokens = [7], se_logits = sample_buffer (VOCAB * 2), se_last_logits = None,
     se_spans = [Span_Prefill 1] \<rparr>"

definition sample_host :: host_engine where
  "sample_host = \<lparr> he_identity = 1, he_cache_identity = 2, he_manifest = [], he_layers = [Gdn, Qsa],
     he_eps_bits = 0, he_eos = 9, he_max_positions = 16, he_max_context = 16, he_prefill_rows = 512 \<rparr>"

definition sample_senv :: snapshot_env where
  "sample_senv = \<lparr> sz_snapshot = 400, sz_span = 16, sz_layer = 200, vec_capacity = (\<lambda>_ len. len),
     device_alloc = (\<lambda>n. Inr (zeros n)) \<rparr>"

lemma zeros_simps [simp]:
  "length (zeros n) = n" "take k (zeros n) = zeros (min k n)" "drop k (zeros n) = zeros (n - k)"
  "length (zero_words n) = n" "\<forall>v\<in>set (zero_words n). bf16_finite v" "words_of (zeros n) = zero_words (n div 2)"
  "bytes_of (zero_words n) = zeros (n * 2)" "zeros n @ zeros m = zeros (n + m)"
  "take k (zero_words n) = zero_words (min k n)" "drop k (zero_words n) = zero_words (n - k)"
proof -
  show "words_of (zeros n) = zero_words (n div 2)"
    by (rule nth_equalityI) (auto simp: words_of_def as_chunks_def zeros_def zero_words_def min_def)
  have "le_bytes 2 0 = zeros 2" by (simp add: zeros_def numeral_2_eq_2)
  then show "bytes_of (zero_words n) = zeros (n * 2)"
    by (induction n) (simp_all add: bytes_of_def zero_words_def zeros_def replicate_add [symmetric])
qed (simp_all add: zeros_def zero_words_def replicate_add min_def)

lemma zeros_0 [simp]: "zeros 0 = []" "zero_words 0 = []"
  by (simp_all add: zeros_def zero_words_def)

lemma sample_buffer_simps [simp]: "buf_bytes (sample_buffer n) = zeros n" "\<not> buf_reserved (sample_buffer n)"
  "byte_len (sample_buffer n) = n"
  by (simp_all add: sample_buffer_def byte_len_def)

lemma sample_read [simp]: "k \<le> n \<Longrightarrow> read_bytes (sample_buffer n) 0 k = Inr (zeros k)"
  by (simp add: read_bytes_0 readable_def min_absorb1)

lemma sample_staged: "k \<le> n \<Longrightarrow> read_staged (sample_buffer n) k = Inr (zero_words (k div 2))"
  by (simp add: read_staged_eq readable_def min_absorb1)

lemma sample_committed: "validate_committed sample_session = Inr ()"
  by (simp add: validate_committed_def session_frontier_def sample_session_def sum_spans_def checked_add_def u64_limit_def
     ple_validate_committed_def ple_expected_def session_consts layer_frontier_def gdn_frontier_def qsa_frontier_def
     kvarn_frontier_def)

lemma sample_source: "validate_snapshot_source sample_host sample_session = Inr ()"
  by (simp add: validate_snapshot_source_def sample_committed) (simp add: sample_session_def sample_host_def)

lemma sample_records: "kv_frontier k = 1 \<Longrightarrow> record_bytes k = 0"
  by (simp add: record_bytes_def kvarn_partition_def kvarn_consts)

lemmas charge_defs = charge_all_def charge_add_def length_charge_def vector_charge_def checked_mul_def checked_add_def
  u64_limit_def t_bind_def t_lift_def t_return_def charge_def can_fit_def charge_vec_def budget_copy_def budget_read_buffer_def
  allocated_def

lemmas layer_defs = gdn_buffers_def gdn_snapshot_def gdn_frontier_def logical_parts_byte_lengths_def qsa_export_host_def
  qsa_frontier_def kvarn_frontier_def kvarn_buffers_def qsa_validate_parts_def sample_records sample_staged

lemma sample_minimum: "snapshot_minimum_retained_bytes sample_senv sample_host sample_session = Inr 21190708"
  by (simp add: snapshot_minimum_retained_bytes_def sample_source)
    (simp add: sample_session_def sample_host_def sample_senv_def charge_defs layer_defs session_consts kvarn_consts)

lemma sample_logits: "last_logits_bf16 sample_session = Inr (zero_words VOCAB)"
  by (simp add: last_logits_bf16_def sample_committed)
   (simp add: sample_session_def read_logits_bf16_transient_def session_frontier_def)

definition exact_vec :: "'a list \<Rightarrow> 'a hvec" where
  "exact_vec xs = \<lparr> hv_items = xs, hv_capacity = length xs \<rparr>"

definition sample_copy :: session_snapshot where
  "sample_copy = \<lparr> sn_owner = 2, sn_cache_origin = 2, sn_producer_version = PRODUCER_VERSION, sn_prefill_capacity = 512,
     sn_max_context = 16, sn_eos = 9, sn_frontier = 1, sn_tokens = exact_vec [7], sn_logits = exact_vec (zero_words VOCAB),
     sn_spans = exact_vec [Span_Prefill 1],
     sn_ple = \<lparr> ph_context = (9, 7), ph_conv = exact_vec (zero_words PLE_WORDS), ph_offset = 1 \<rparr>,
     sn_layers = [
       Saved_Gdn \<lparr> sg_frontier = 1, sg_conv = exact_vec (zeros GDN_CONV_BYTES), sg_recurrent = exact_vec (zeros GDN_RECURRENT_BYTES) \<rparr>,
       Saved_Qsa \<lparr> sq_index_frontier = 1, sq_compressed = exact_vec [], sq_pending = exact_vec (zero_words 128),
         sq_kv = \<lparr> sk_frontier = 1, sk_records = exact_vec [], sk_sink_keys = exact_vec (zeros SINK_BYTES),
           sk_sink_values = exact_vec (zeros SINK_BYTES), sk_tail_keys = exact_vec (zeros TAIL_BYTES),
           sk_tail_values = exact_vec (zeros TAIL_BYTES) \<rparr> \<rparr>],
     sn_layer_capacity = 2 \<rparr>"

lemma sample_capture_at: "21190708 \<le> limit \<Longrightarrow> capture sample_senv sample_host sample_session \<lparr> sb_limit = limit, sb_charged = 400 \<rparr>
    = Inr (Some (sample_copy, \<lparr> sb_limit = limit, sb_charged = 21190708 \<rparr>))"
  apply (simp add: capture_def sample_logits charge_defs sample_senv_def)
  apply (simp add: ple_to_host_def sample_session_def sample_host_def sample_staged allocated_def session_consts)
  apply (simp add: charge_defs layer_defs session_consts kvarn_consts sample_copy_def exact_vec_def)
  done

lemma sample_capture: "capture sample_senv sample_host sample_session \<lparr> sb_limit = 30000000, sb_charged = 400 \<rparr>
    = Inr (Some (sample_copy, \<lparr> sb_limit = 30000000, sb_charged = 21190708 \<rparr>))"
  by (rule sample_capture_at) simp

lemma sample_copy_metadata: "validate_metadata sample_copy sample_host = Inr ()"
  by (simp add: validate_metadata_def sample_copy_def sample_host_def exact_vec_def validate_capacity_def rows_consts
      ple_host_validate_committed_def ple_expected_def session_consts checked_add_def u64_limit_def layer_matches_def)

lemma sample_snapshot_at: "snapshot_inner sample_senv sample_host sample_session limit
    = Inr (if limit < 21190708 then None else Some sample_copy)"
proof (cases "limit < 21190708")
  case False
  have "sz_snapshot sample_senv = 400" by (simp add: sample_senv_def)
  with capture_charge [of sample_senv sample_host sample_session limit sample_copy "\<lparr> sb_limit = limit, sb_charged = 21190708 \<rparr>"]
    sample_capture_at False
  show ?thesis by (simp add: snapshot_inner_def sample_minimum budget_new_def sample_copy_metadata)
qed (simp add: snapshot_inner_def sample_minimum)

lemma sample_snapshot: "snapshot_inner sample_senv sample_host sample_session 30000000 = Inr (Some sample_copy)"
  by (simp add: sample_snapshot_at)

section \<open>Restoring the sample\<close>

lemma sample_write [simp]: "n \<le> m \<Longrightarrow> write_bytes 0 (zeros n) (sample_buffer m) = Inr (sample_buffer m)"
  by (simp add: write_bytes_Inr readable_def sample_buffer_def byte_len_def)

lemma sample_write_at: "off + n \<le> m \<Longrightarrow> write_bytes off (zeros n) (sample_buffer m) = Inr (sample_buffer m)"
  by (simp add: write_bytes_Inr readable_def sample_buffer_def byte_len_def min_absorb1)

lemma sample_shared [simp]: "0 < n \<Longrightarrow> shared_buffer (device_alloc sample_senv) n = Inr (sample_buffer n)"
  by (simp add: shared_buffer_def sample_senv_def sample_buffer_def)

lemma sample_write_words: "n * 2 \<le> m \<Longrightarrow> write_words (zero_words n) (sample_buffer m) = Inr (sample_buffer m)"
proof -
  assume n: "n * 2 \<le> m"
  have "\<exists>r. write_words (zero_words n) (sample_buffer m) = Inr r \<and> r = sample_buffer m"
    unfolding write_words_def zeros_simps(4)
  proof (rule step_by_fold_total [where P = "\<lambda>_ a. a = sample_buffer m"])
    fix start a assume s: "start < n" "a = sample_buffer m"
    let ?e = "min (start + STAGING div 2) n"
    have "start * 2 + (?e - start) * 2 \<le> m" using n s(1) by auto
    with s sample_write_at [of "start * 2" "(?e - start) * 2" m]
    show "\<exists>a'. (let end_word = ?e in write_bytes (start * 2) (bytes_of (take (end_word - start) (drop start (zero_words n)))) a) = Inr a'
        \<and> a' = sample_buffer m" by (simp add: Let_def min_absorb1)
  qed simp_all
  then show ?thesis by simp
qed

lemma sample_zero_buffer: "zero_buffer (device_alloc sample_senv) n = Inr (sample_buffer (max n 2))"
proof -
  have "\<exists>r. try_fold (\<lambda>b start. write_bytes start (replicate (min STAGING (byte_len b - start)) 0) b)
      (sample_buffer (max n 2)) (step_by STAGING (max n 2)) = Inr r \<and> r = sample_buffer (max n 2)"
  proof (rule step_by_fold_total [where P = "\<lambda>_ a. a = sample_buffer (max n 2)"])
    fix start a assume s: "start < max n 2" "a = sample_buffer (max n 2)"
    have "start + min STAGING (max n 2 - start) \<le> max n 2" using s(1) by simp
    with sample_write_at [OF this] s
    show "\<exists>a'. write_bytes start (replicate (min STAGING (byte_len a - start)) 0) a = Inr a' \<and> a' = sample_buffer (max n 2)"
      by (simp add: zeros_def)
  qed simp_all
  then show ?thesis by (simp add: zero_buffer_def)
qed

lemma sample_finite [simp]: "fin 0 \<Longrightarrow> all_finite n fin (zeros k)"
  by (simp add: zeros_def)

lemma sample_restore: "\<exists>s. restore_inner sample_senv sample_host sample_copy = Inr s"
proof -
  have k: "kvarn_upload sample_senv (zeros n) = Inr (sample_buffer (max n 2))" for n
    by (simp add: kvarn_upload_def sample_zero_buffer)
  have u: "uploaded (device_alloc sample_senv) (zeros n) = Inr (sample_buffer n)" if "0 < n" for n
    using that by (simp add: uploaded_def)
  have p: "fst (snd (kvarn_partition (Suc 0))) = 1" by (simp add: kvarn_partition_def kvarn_consts)
  have v: "kvarn_validate_parts 16 1 [] (zeros SINK_BYTES) (zeros SINK_BYTES) (zeros TAIL_BYTES) (zeros TAIL_BYTES) = Inr ()"
    by (simp add: kvarn_validate_parts_def p finite_record_metadata_def finite_bf16_def)
      (simp add: session_consts kvarn_consts as_chunks_def)
  have kv: "\<exists>kv. kvarn_restore sample_senv 16 1 [] (zeros SINK_BYTES) (zeros SINK_BYTES) (zeros TAIL_BYTES) (zeros TAIL_BYTES) = Inr kv"
    using k [of 0] by (simp add: kvarn_restore_def v [unfolded One_nat_def] k)
  have w: "write_words [] (sample_buffer m) = Inr (sample_buffer m)" for m using sample_write_words [of 0 m] by simp
  have q: "\<exists>i. qsa_from_parts sample_senv 1 [] (zero_words 128) 16 = Inr i"
    by (simp add: qsa_from_parts_def qsa_validate_parts_def kvarn_consts session_consts sample_write_words w)
  have g: "\<exists>g. gdn_from_bytes sample_senv (zeros GDN_CONV_BYTES) (zeros GDN_RECURRENT_BYTES) 1 = Inr g"
    by (simp add: gdn_from_bytes_def gdn_validate_parts_def u session_consts)
  have pl: "\<exists>p. ple_from_host sample_senv \<lparr> ph_context = (9, 7), ph_conv = exact_vec (zero_words PLE_WORDS), ph_offset = 1 \<rparr> = Inr p"
    by (simp add: ple_from_host_def exact_vec_def session_consts)
  show ?thesis
    using kv q g pl
    by (auto simp: restore_inner_def sample_copy_metadata) (auto simp: sample_copy_def exact_vec_def sample_host_def VOCAB_def)
qed

section \<open>Properties\<close>

text \<open>C32: A capture charges its budget exactly what the finished copy retains: the retained bytes of the copy are the charged
  bytes and never exceed the limit, so the accounting check at the end of a capture never rejects a valid copy.\<close>

theorem capture_charge_is_retained_size:
  assumes "capture env en s \<lparr> sb_limit = limit, sb_charged = sz_snapshot env \<rparr> = Inr (Some (snap, b))"
    and "sz_snapshot env \<le> limit"
  shows "retained_capacity_bytes env snap = Inr (sb_charged b) \<and> sb_charged b \<le> limit
    \<and> (snapshot_minimum_retained_bytes env en s = Inr least \<longrightarrow> least \<le> limit \<longrightarrow> validate_metadata snap en = Inr () \<longrightarrow>
         snapshot_inner env en s limit = Inr (Some snap))"
  using capture_charge [OF assms] assms by (auto simp: snapshot_inner_def budget_new_def)

lemma capture_charge_is_retained_size_witness:
  "retained_capacity_bytes sample_senv sample_copy = Inr 21190708 \<and> (21190708::nat) \<le> 30000000"
  using capture_charge_is_retained_size [of sample_senv sample_host sample_session 30000000 sample_copy
      "\<lparr> sb_limit = 30000000, sb_charged = 21190708 \<rparr>"] sample_capture
  by (simp add: sample_senv_def)

text \<open>C1: Restoring a copy gives a committed session of this engine with the captured content: tokens, producer spans,
  last logits, PLE history and the logical bytes of every layer.\<close>

theorem snapshot_restore_roundtrip:
  assumes "metal_allocates (device_alloc env)" and snap: "snapshot_inner env en s limit = Inr (Some snap)"
    and rest: "restore_inner env en snap = Inr s'"
  shows "session_content s' = session_content s \<and> last_logits_bf16 s' = last_logits_bf16 s
    \<and> validate_snapshot_source en s' = Inr ()"
proof -
  obtain b where c: "capture env en s \<lparr> sb_limit = limit, sb_charged = sz_snapshot env \<rparr> = Inr (Some (snap, b))"
    and v: "validate_snapshot_source en s = Inr ()" "validate_metadata snap en = Inr ()"
    using snapshot_inner_Inr [OF snap] by metis
  from restored_session [OF assms(1) rest] session_content_saved [OF c v] capture_Inr(3) [OF c] show ?thesis by simp
qed

lemma snapshot_restore_roundtrip_witness:
  "\<exists>s. restore_inner sample_senv sample_host sample_copy = Inr s \<and> session_content s = session_content sample_session"
proof -
  have "metal_allocates (device_alloc sample_senv)" by (simp add: metal_allocates_def sample_senv_def)
  with sample_restore snapshot_restore_roundtrip [of sample_senv, OF _ sample_snapshot] show ?thesis by blast
qed

end
