(* ===== verification/Prefix_Cache.thy ===== *)
theory Prefix_Cache
  imports Session_Snapshot Rust_Collections "HOL-Library.Multiset"
begin

text \<open>
  The cache of completed conversation states (\<open>src/engine/prefix_cache.rs\<close>): the longest exact prefix
  of a request, and offers of new states under a byte budget and an entry limit. The copy of a session
  that an offer takes is an argument of the loop, which the engine supplies (\<open>snapshot_inner\<close>); what the
  cache relies on is the locale \<open>session_copies\<close>.
\<close>

section \<open>The cache\<close>

datatype frontier_kind = Anchor | Prompt | Generated

record cache_entry =
  ce_snapshot :: session_snapshot
  ce_retained_bytes :: nat
  ce_kind :: frontier_kind

record prefix_cache =
  pc_owner :: nat
  pc_budget_bytes :: nat
  pc_entries :: "cache_entry list"

definition MAX_ENTRIES :: nat where
  "MAX_ENTRIES = 32"

abbreviation entry_tokens :: "cache_entry \<Rightarrow> nat list" where
  "entry_tokens e \<equiv> hv_items (sn_tokens (ce_snapshot e))"

definition starts_with :: "'a list \<Rightarrow> 'a list \<Rightarrow> bool" where
  "starts_with xs p \<longleftrightarrow> length p \<le> length xs \<and> take (length p) xs = p"

definition exact_prefix_match :: "nat list \<Rightarrow> nat list \<Rightarrow> bool" where
  "exact_prefix_match saved requested \<longleftrightarrow> saved \<noteq> [] \<and> starts_with requested saved"

definition prefix_cache_new :: "host_engine \<Rightarrow> nat \<Rightarrow> prefix_cache" where
  "prefix_cache_new en budget = \<lparr> pc_owner = he_cache_identity en, pc_budget_bytes = budget, pc_entries = [] \<rparr>"

definition retained_bytes :: "prefix_cache \<Rightarrow> nat result" where
  "retained_bytes c = try_fold (\<lambda>sum e.
     ok_or (checked_add sum (ce_retained_bytes e)) ''prompt cache retained byte count overflow'') 0 (pc_entries c)"

text \<open>\<open>Iterator::max_by_key\<close> returns the last of equal maxima.\<close>

definition max_by_key :: "('a \<Rightarrow> nat) \<Rightarrow> 'a list \<Rightarrow> 'a option" where
  "max_by_key f xs = fold (\<lambda>x best. case best of None \<Rightarrow> Some x | Some y \<Rightarrow> if f y \<le> f x then Some x else Some y) xs None"

text \<open>\<open>remove(index)\<close> and \<open>push_back\<close>.\<close>

definition remove_at :: "nat \<Rightarrow> 'a list \<Rightarrow> 'a list" where
  "remove_at i xs = take i xs @ drop (Suc i) xs"

definition refresh :: "nat \<Rightarrow> prefix_cache \<Rightarrow> prefix_cache" where
  "refresh i c = c \<lparr> pc_entries := remove_at i (pc_entries c) @ [pc_entries c ! i] \<rparr>"

text \<open>The hit: the copy, and whether it covers the whole request.\<close>

definition best_match :: "host_engine \<Rightarrow> nat list \<Rightarrow> prefix_cache \<Rightarrow> (session_snapshot \<times> bool) option \<times> prefix_cache" where
  "best_match en rendered c =
     (if pc_owner c \<noteq> he_cache_identity en \<or> he_max_context en < length rendered then (None, c)
      else case max_by_key (\<lambda>i. sn_frontier (ce_snapshot (pc_entries c ! i)))
          (filter (\<lambda>i. exact_prefix_match (entry_tokens (pc_entries c ! i)) rendered) [0..<length (pc_entries c)]) of
        None \<Rightarrow> (None, c)
      | Some i \<Rightarrow> let snap = ce_snapshot (pc_entries c ! i) in
          (Some (snap, sn_frontier snap = length rendered), refresh i c))"

section \<open>Offers\<close>

definition superseded :: "nat list \<Rightarrow> frontier_kind \<Rightarrow> cache_entry \<Rightarrow> bool" where
  "superseded tokens kind e \<longleftrightarrow> starts_with tokens (entry_tokens e)
     \<and> (ce_kind e = kind \<or> (kind = Prompt \<and> ce_kind e = Generated))"

text \<open>The entry to give up: the oldest that is not a completed prompt, or for a prompt the oldest of all.\<close>

definition eviction :: "frontier_kind \<Rightarrow> cache_entry list \<Rightarrow> nat option" where
  "eviction kind entries =
     (case position (\<lambda>e. ce_kind e \<noteq> Prompt) entries of
        Some i \<Rightarrow> Some i
      | None \<Rightarrow> if kind = Prompt \<and> entries \<noteq> [] then Some 0 else None)"

lemma eviction_lt: "eviction kind entries = Some i \<Longrightarrow> i < length entries"
  by (auto simp: eviction_def position_Some split: option.splits if_splits)

text \<open>One attempt of the loop: the outcome when it is decided, or nothing when an entry has to go.\<close>

definition admit ::
    "(nat \<Rightarrow> session_snapshot option result) \<Rightarrow> (session_snapshot \<Rightarrow> nat result) \<Rightarrow> frontier_kind \<Rightarrow> nat
     \<Rightarrow> prefix_cache \<Rightarrow> (bool \<times> prefix_cache) option result" where
  "admit copy retained kind least c =
     bindr (retained_bytes c) (\<lambda>used.
     let available = pc_budget_bytes c - used in
     if \<not> (length (pc_entries c) < MAX_ENTRIES \<and> least \<le> available) then Inr None
     else bindr (copy available) (\<lambda>r. case r of None \<Rightarrow> Inr None
       | Some snap \<Rightarrow> bindr (retained snap) (\<lambda>n.
           ensure (n \<le> available) ''snapshot exceeded cache admission''
           (Inr (Some (True, c \<lparr> pc_entries := pc_entries c @
              [\<lparr> ce_snapshot = snap, ce_retained_bytes = n, ce_kind = kind \<rparr>] \<rparr>))))))"

function offer_loop ::
    "(nat \<Rightarrow> session_snapshot option result) \<Rightarrow> (session_snapshot \<Rightarrow> nat result) \<Rightarrow> frontier_kind \<Rightarrow> nat
     \<Rightarrow> (prefix_cache, bool) stateful" where
  "offer_loop copy retained kind least c =
     (case admit copy retained kind least c of
        Inl e \<Rightarrow> (Inl e, c)
      | Inr (Some (done, c')) \<Rightarrow> (Inr done, c')
      | Inr None \<Rightarrow>
          (case eviction kind (pc_entries c) of
             None \<Rightarrow> (Inr False, c)
           | Some i \<Rightarrow> offer_loop copy retained kind least (c \<lparr> pc_entries := remove_at i (pc_entries c) \<rparr>)))"
  by pat_completeness auto
termination
  by (relation "measure (\<lambda>(copy, retained, kind, least, c). length (pc_entries c))")
    (auto simp: remove_at_def dest: eviction_lt)

declare offer_loop.simps [simp del]

definition offer :: "snapshot_env \<Rightarrow> host_engine \<Rightarrow> session \<Rightarrow> frontier_kind \<Rightarrow> (prefix_cache, bool) stateful" where
  "offer env en s kind c =
     (if pc_owner c \<noteq> he_cache_identity en then (Inl ''prompt cache belongs to another engine'', c)
      else case validate_snapshot_source en s of Inl e \<Rightarrow> (Inl e, c)
      | Inr _ \<Rightarrow>
         (case position (\<lambda>e. entry_tokens e = se_tokens s) (pc_entries c) of
            Some i \<Rightarrow> (Inr False, refresh i c)
          | None \<Rightarrow>
             (case snapshot_minimum_retained_bytes env en s of Inl e \<Rightarrow> (Inl e, c)
              | Inr least \<Rightarrow>
                 if pc_budget_bytes c < least then (Inr False, c)
                 else offer_loop (snapshot_inner env en s) (retained_capacity_bytes env) kind least
                   (c \<lparr> pc_entries := filter (\<lambda>e. \<not> superseded (se_tokens s) kind e) (pc_entries c) \<rparr>))))"

definition offer_prompt_checkpoint ::
    "snapshot_env \<Rightarrow> host_engine \<Rightarrow> session \<Rightarrow> nat list \<Rightarrow> (prefix_cache, bool) stateful" where
  "offer_prompt_checkpoint env en s rendered c =
     (if length rendered \<le> he_max_context en \<and> exact_prefix_match (se_tokens s) rendered
      then offer env en s (if se_frontier s = length rendered then Prompt else Anchor) c
      else (Inl ''prompt checkpoint tokens differ from rendered request'', c))"

definition offer_generated_checkpoint ::
    "snapshot_env \<Rightarrow> host_engine \<Rightarrow> session \<Rightarrow> nat list \<Rightarrow> (prefix_cache, bool) stateful" where
  "offer_generated_checkpoint env en s prompt c =
     (if \<not> exact_prefix_match prompt (se_tokens s) then (Inl ''generated checkpoint differs from request lineage'', c)
      else if se_frontier s \<le> length prompt then (Inr False, c)
      else offer env en s Generated c)"

section \<open>Lists of entries\<close>

lemma remove_at_props:
  assumes "i < length xs"
  shows "set (remove_at i xs) \<subseteq> set xs" "length (remove_at i xs) = length xs - 1"
    "mset (remove_at i xs) = mset xs - {#xs ! i#}"
    "distinct (map f xs) \<Longrightarrow> distinct (map f (remove_at i xs))"
    "\<not> P (xs ! i) \<Longrightarrow> filter P (remove_at i xs) = filter P xs"
proof -
  have xs: "xs = take i xs @ xs ! i # drop (Suc i) xs" using assms by (rule id_take_nth_drop)
  show "set (remove_at i xs) \<subseteq> set xs" by (auto simp: remove_at_def dest: in_set_takeD in_set_dropD)
  show "length (remove_at i xs) = length xs - 1" using assms by (simp add: remove_at_def)
  show "mset (remove_at i xs) = mset xs - {#xs ! i#}" by (subst (2) xs) (simp add: remove_at_def)
  show "distinct (map f (remove_at i xs))" if "distinct (map f xs)"
    using that by (subst (asm) xs) (simp add: remove_at_def)
  show "filter P (remove_at i xs) = filter P xs" if "\<not> P (xs ! i)"
    by (subst (2) xs) (simp add: remove_at_def that)
qed

lemma mset_refresh: "i < length (pc_entries c) \<Longrightarrow> mset (pc_entries (refresh i c)) = mset (pc_entries c)"
  by (simp add: refresh_def remove_at_props(3))

lemma starts_with_iff: "starts_with xs p \<longleftrightarrow> (\<exists>rest. xs = p @ rest)"
  by (metis append_eq_conv_conj append_take_drop_id length_append le_add1 starts_with_def)

lemma max_by_key_props:
  "max_by_key f xs = None \<longleftrightarrow> xs = []"
  "max_by_key f xs = Some y \<Longrightarrow> y \<in> set xs \<and> (\<forall>x\<in>set xs. f x \<le> f y)"
proof -
  let ?g = "\<lambda>x best. case best of None \<Rightarrow> Some x | Some y \<Rightarrow> if f y \<le> f x then Some x else Some y"
  have "(fold ?g xs None = None \<longleftrightarrow> xs = []) \<and> (\<forall>y. fold ?g xs None = Some y \<longrightarrow> y \<in> set xs \<and> (\<forall>x\<in>set xs. f x \<le> f y))"
  proof (induction xs rule: rev_induct)
    case (snoc x xs)
    then show ?case by (cases "fold ?g xs None") (fastforce split: if_splits)+
  qed simp
  then show "max_by_key f xs = None \<longleftrightarrow> xs = []"
    "max_by_key f xs = Some y \<Longrightarrow> y \<in> set xs \<and> (\<forall>x\<in>set xs. f x \<le> f y)"
    by (simp_all add: max_by_key_def)
qed

section \<open>The invariant\<close>

text \<open>Retained bytes within the budget, at most 32 entries, no token history twice, and the recorded size of
  every entry is the size of its copy.\<close>

definition cache_wf :: "(session_snapshot \<Rightarrow> nat result) \<Rightarrow> prefix_cache \<Rightarrow> bool" where
  "cache_wf retained c \<longleftrightarrow> pc_budget_bytes c < u64_limit
     \<and> sum_list (map ce_retained_bytes (pc_entries c)) \<le> pc_budget_bytes c
     \<and> length (pc_entries c) \<le> MAX_ENTRIES \<and> distinct (map entry_tokens (pc_entries c))
     \<and> (\<forall>e\<in>set (pc_entries c). retained (ce_snapshot e) = Inr (ce_retained_bytes e)
          \<and> sn_frontier (ce_snapshot e) = length (entry_tokens e))"

lemma cache_wf_mset:
  assumes "mset (pc_entries c) = mset (pc_entries d)" "pc_budget_bytes c = pc_budget_bytes d" "cache_wf retained d"
  shows "cache_wf retained c"
proof -
  have "sum_list (map ce_retained_bytes (pc_entries c)) = sum_list (map ce_retained_bytes (pc_entries d))"
    by (metis assms(1) mset_map sum_mset_sum_list)
  moreover have "distinct (map entry_tokens (pc_entries c)) = distinct (map entry_tokens (pc_entries d))"
    using assms(1) by (metis mset_eq_imp_distinct_iff mset_map)
  moreover have "set (pc_entries c) = set (pc_entries d)" "length (pc_entries c) = length (pc_entries d)"
    using assms(1) by (metis set_mset_mset, metis size_mset)
  ultimately show ?thesis using assms by (simp add: cache_wf_def)
qed

lemma cache_wf_refresh: "i < length (pc_entries c) \<Longrightarrow> cache_wf retained c \<Longrightarrow> cache_wf retained (refresh i c)"
  by (rule cache_wf_mset [OF mset_refresh]) (simp_all add: refresh_def)

lemma cache_wf_fewer:
  assumes "cache_wf retained c" "mset es \<subseteq># mset (pc_entries c)"
  shows "cache_wf retained (c \<lparr> pc_entries := es \<rparr>)"
proof -
  obtain rest where m: "mset (pc_entries c) = mset es + mset rest"
    using assms(2) by (metis ex_mset subset_mset.le_iff_add)
  then have "cache_wf retained (c \<lparr> pc_entries := es @ rest \<rparr>)"
    by (intro cache_wf_mset [OF _ _ assms(1)]) simp_all
  then show ?thesis by (auto simp: cache_wf_def)
qed

lemma retained_bytes_wf: "cache_wf retained c \<Longrightarrow> retained_bytes c = Inr (sum_list (map ce_retained_bytes (pc_entries c)))"
  using checked_fold_sum [of 0 ce_retained_bytes _ "pc_entries c" "sum_list (map ce_retained_bytes (pc_entries c))"]
  by (simp add: retained_bytes_def cache_wf_def u64_limit_def)

section \<open>What the cache needs of the copies it is given\<close>

locale session_copies =
  fixes copy :: "nat \<Rightarrow> session_snapshot option result"
    and retained :: "session_snapshot \<Rightarrow> nat result"
    and tokens :: "nat list"
  assumes copy_tokens: "copy limit = Inr (Some snap) \<Longrightarrow> hv_items (sn_tokens snap) = tokens \<and> sn_frontier snap = length tokens"
    and copy_retained: "copy limit = Inr (Some snap) \<Longrightarrow> \<exists>n \<le> limit. retained snap = Inr n"
begin

lemma admit_True:
  assumes wf: "cache_wf retained c" and new: "\<forall>e\<in>set (pc_entries c). entry_tokens e \<noteq> tokens"
    and "admit copy retained kind least c = Inr (Some (done, c'))"
  shows "done \<and> cache_wf retained c' \<and> (\<exists>e. pc_entries c' = pc_entries c @ [e] \<and> entry_tokens e = tokens \<and> ce_kind e = kind)
    \<and> pc_budget_bytes c' = pc_budget_bytes c \<and> pc_owner c' = pc_owner c"
proof -
  let ?used = "sum_list (map ce_retained_bytes (pc_entries c))"
  obtain snap n where s: "copy (pc_budget_bytes c - ?used) = Inr (Some snap)" "retained snap = Inr n"
      "n \<le> pc_budget_bytes c - ?used" "length (pc_entries c) < MAX_ENTRIES" "done"
      "c' = c \<lparr> pc_entries := pc_entries c @ [\<lparr> ce_snapshot = snap, ce_retained_bytes = n, ce_kind = kind \<rparr>] \<rparr>"
    using assms(3) by (auto simp: admit_def retained_bytes_wf [OF wf] result_simps Let_def split: if_splits option.splits)
  then show ?thesis using wf new copy_tokens [OF s(1)] by (auto simp: cache_wf_def)
qed

lemma offer_loop_wf:
  assumes "cache_wf retained c" "\<forall>e\<in>set (pc_entries c). entry_tokens e \<noteq> tokens"
    and "offer_loop copy retained kind least c = (r, c')"
  shows "cache_wf retained c' \<and> (r = Inr True \<longrightarrow> (\<exists>es e. pc_entries c' = es @ [e] \<and> entry_tokens e = tokens \<and> ce_kind e = kind))
    \<and> (\<forall>e\<in>set (pc_entries c'). e \<in> set (pc_entries c) \<or> r = Inr True \<and> entry_tokens e = tokens \<and> ce_kind e = kind)
    \<and> (kind \<noteq> Prompt \<longrightarrow> (\<forall>e\<in>set (pc_entries c). ce_kind e = Prompt \<longrightarrow> e \<in> set (pc_entries c')))
    \<and> (kind = Prompt \<longrightarrow> (\<exists>e\<in>set (pc_entries c). ce_kind e = Prompt \<and> e \<notin> set (pc_entries c')) \<longrightarrow>
         (\<forall>e\<in>set (pc_entries c'). ce_kind e = Prompt))"
  using assms
proof (induction "length (pc_entries c)" arbitrary: c rule: less_induct)
  case less
  note wf = less.prems(1) and new = less.prems(2) and run = less.prems(3)
  show ?case
  proof (cases "admit copy retained kind least c")
    case (Inl e)
    with run wf show ?thesis by (auto simp: offer_loop.simps)
  next
    case (Inr a)
    show ?thesis
    proof (cases a)
      case (Some d)
      with Inr run have "(r, c') = (Inr (fst d), snd d)" by (simp add: offer_loop.simps split: prod.splits)
      with admit_True [OF wf new, of kind least "fst d" "snd d"] Some Inr show ?thesis by auto
    next
      case None
      show ?thesis
      proof (cases "eviction kind (pc_entries c)")
        case None
        with \<open>a = None\<close> Inr run wf show ?thesis by (auto simp: offer_loop.simps)
      next
        case (Some i)
        let ?d = "c \<lparr> pc_entries := remove_at i (pc_entries c) \<rparr>"
        have i: "i < length (pc_entries c)" by (rule eviction_lt [OF Some])
        note rm = remove_at_props [OF i]
        have wfd: "cache_wf retained ?d" by (rule cache_wf_fewer [OF wf]) (simp add: rm(3))
        have "offer_loop copy retained kind least ?d = (r, c')"
          using \<open>a = None\<close> Inr run Some by (simp add: offer_loop.simps [of _ _ _ _ c])
        from less.hyps [OF _ wfd _ this] i rm(1,2) new have IH:
          "cache_wf retained c'" "r = Inr True \<longrightarrow> (\<exists>es e. pc_entries c' = es @ [e] \<and> entry_tokens e = tokens \<and> ce_kind e = kind)"
          "\<forall>e\<in>set (pc_entries c'). e \<in> set (pc_entries ?d) \<or> r = Inr True \<and> entry_tokens e = tokens \<and> ce_kind e = kind"
          "kind \<noteq> Prompt \<longrightarrow> (\<forall>e\<in>set (pc_entries ?d). ce_kind e = Prompt \<longrightarrow> e \<in> set (pc_entries c'))"
          "kind = Prompt \<longrightarrow> (\<exists>e\<in>set (pc_entries ?d). ce_kind e = Prompt \<and> e \<notin> set (pc_entries c')) \<longrightarrow>
             (\<forall>e\<in>set (pc_entries c'). ce_kind e = Prompt)"
          by (simp_all add: subset_iff)
        have pos: "position (\<lambda>e. ce_kind e \<noteq> Prompt) (pc_entries c) = Some i
          \<or> (kind = Prompt \<and> (\<forall>e\<in>set (pc_entries c). ce_kind e = Prompt))"
          using Some by (auto simp: eviction_def position_None split: option.splits if_splits)
        then show ?thesis
        proof
          assume "position (\<lambda>e. ce_kind e \<noteq> Prompt) (pc_entries c) = Some i"
          then have "\<not> ce_kind (pc_entries c ! i) = Prompt" by (simp add: position_Some)
          from arg_cong [OF rm(5) [of "\<lambda>e. ce_kind e = Prompt", OF this], of set]
          have "e \<in> set (pc_entries c) \<Longrightarrow> ce_kind e = Prompt \<Longrightarrow> e \<in> set (remove_at i (pc_entries c))" for e
            by (auto simp: set_eq_iff)
          with IH rm(1) show ?thesis by (simp add: subset_iff) blast
        next
          assume all: "kind = Prompt \<and> (\<forall>e\<in>set (pc_entries c). ce_kind e = Prompt)"
          with IH rm(1) show ?thesis by (simp add: subset_iff) blast
        qed
      qed
    qed
  qed
qed

text \<open>An offer of a completed prompt that fits an empty cache is accepted.\<close>

lemma offer_loop_accepts:
  assumes "cache_wf retained c" "\<forall>e\<in>set (pc_entries c). entry_tokens e \<noteq> tokens"
    and "\<forall>limit e. copy limit \<noteq> Inl e" "copy (pc_budget_bytes c) = Inr (Some snap)" "least \<le> pc_budget_bytes c"
  shows "fst (offer_loop copy retained Prompt least c) = Inr True"
  using assms
proof (induction "length (pc_entries c)" arbitrary: c rule: less_induct)
  case less
  note wf = less.prems(1)
  let ?avail = "pc_budget_bytes c - sum_list (map ce_retained_bytes (pc_entries c))"
  have no_error: "\<exists>a. admit copy retained Prompt least c = Inr a"
  proof (cases "copy ?avail")
    case (Inr s)
    then show ?thesis
      using copy_retained [of ?avail] by (cases s) (auto simp: admit_def retained_bytes_wf [OF wf] Let_def)
  qed (use less.prems(3) in blast)
  then obtain a where a: "admit copy retained Prompt least c = Inr a" ..
  show ?case
  proof (cases a)
    case (Some d)
    then obtain dn c' where "d = (dn, c')" by fastforce
    with admit_True [OF wf less.prems(2), of Prompt least dn c'] Some a show ?thesis by (simp add: offer_loop.simps)
  next
    case None
    have "pc_entries c \<noteq> []"
    proof
      assume "pc_entries c = []"
      then have "admit copy retained Prompt least c \<noteq> Inr None"
        using less.prems(4,5) copy_retained [OF less.prems(4)]
        by (auto simp: admit_def retained_bytes_wf [OF wf] Let_def MAX_ENTRIES_def)
      with a None show False by simp
    qed
    then obtain i where i: "eviction Prompt (pc_entries c) = Some i"
      by (cases "position (\<lambda>e. ce_kind e \<noteq> Prompt) (pc_entries c)") (auto simp: eviction_def)
    let ?d = "c \<lparr> pc_entries := remove_at i (pc_entries c) \<rparr>"
    note lt = eviction_lt [OF i]
    note rm = remove_at_props [OF lt]
    have "cache_wf retained ?d" by (rule cache_wf_fewer [OF wf]) (simp add: rm(3))
    then have "fst (offer_loop copy retained Prompt least ?d) = Inr True"
      using less.prems rm(1,2) lt by (intro less.hyps) auto
    with a None i show ?thesis by (simp add: offer_loop.simps [of _ _ _ _ c])
  qed
qed

end

lemma snapshot_copies_session:
  assumes "snapshot_inner env en s limit = Inr (Some snap)"
  shows "hv_items (sn_tokens snap) = se_tokens s \<and> sn_frontier snap = length (se_tokens s)"
    and "\<exists>n \<le> limit. retained_capacity_bytes env snap = Inr n"
proof -
  obtain b where c: "capture env en s \<lparr> sb_limit = limit, sb_charged = sz_snapshot env \<rparr> = Inr (Some (snap, b))"
    and l: "sz_snapshot env \<le> limit" and v: "validate_metadata snap en = Inr ()"
    using snapshot_inner_Inr [OF assms] by metis
  from capture_Inr(3) [OF c] validate_metadata_Inr(1) [OF v]
  show "hv_items (sn_tokens snap) = se_tokens s \<and> sn_frontier snap = length (se_tokens s)" by simp
  from capture_charge [OF c l] show "\<exists>n \<le> limit. retained_capacity_bytes env snap = Inr n" by blast
qed

interpretation ec: session_copies "snapshot_inner env en s" "retained_capacity_bytes env" "se_tokens s" for env en s
  by unfold_locales (simp_all add: snapshot_copies_session)

end
