(* ===== verification/Cache_Properties.thy ===== *)
theory Cache_Properties
  imports Prefix_Cache Snapshot_Properties
begin

text \<open>
  The properties of the prefix cache: what a lookup returns, what every offer keeps, which entries an
  offer may give up, and when a prompt is accepted.
\<close>

lemma offer_cases:
  assumes wf: "cache_wf (retained_capacity_bytes env) c" and run: "offer env en s kind c = (r, c')"
  shows "cache_wf (retained_capacity_bytes env) c'
    \<and> (r = Inr True \<longrightarrow> (\<exists>es e. pc_entries c' = es @ [e] \<and> entry_tokens e = se_tokens s \<and> ce_kind e = kind))
    \<and> (\<forall>e\<in>set (pc_entries c'). e \<in> set (pc_entries c) \<or> r = Inr True \<and> entry_tokens e = se_tokens s \<and> ce_kind e = kind)
    \<and> (kind \<noteq> Prompt \<longrightarrow> (\<forall>e\<in>set (pc_entries c). ce_kind e = Prompt \<longrightarrow> e \<in> set (pc_entries c')))
    \<and> (kind = Prompt \<longrightarrow> (\<exists>e\<in>set (pc_entries c). ce_kind e = Prompt \<and> e \<notin> set (pc_entries c')
           \<and> \<not> starts_with (se_tokens s) (entry_tokens e)) \<longrightarrow> (\<forall>e\<in>set (pc_entries c'). ce_kind e = Prompt))"
    (is "?wf \<and> ?last \<and> ?from \<and> ?keep \<and> ?only")
proof (cases "c' = c \<and> r \<noteq> Inr True")
  case True
  with wf show ?thesis by auto
next
  case changed: False
  show ?thesis
  proof (cases "position (\<lambda>e. entry_tokens e = se_tokens s) (pc_entries c)")
    case (Some i)
    with run changed have r: "r = Inr False" "c' = refresh i c"
      by (auto simp: offer_def split: if_splits sum.splits)
    have i: "i < length (pc_entries c)" using Some by (simp add: position_Some)
    have "set (pc_entries c') = set (pc_entries c)" unfolding r by (metis i mset_refresh set_mset_mset)
    with cache_wf_refresh [OF i wf] r show ?thesis by auto
  next
    case None
    let ?d = "c \<lparr> pc_entries := filter (\<lambda>e. \<not> superseded (se_tokens s) kind e) (pc_entries c) \<rparr>"
    have new: "\<forall>e\<in>set (pc_entries ?d). entry_tokens e \<noteq> se_tokens s" using None by (auto simp: position_None)
    have wfd: "cache_wf (retained_capacity_bytes env) ?d"
      by (rule cache_wf_fewer [OF wf]) (simp add: multiset_filter_subset)
    obtain least where "offer_loop (snapshot_inner env en s) (retained_capacity_bytes env) kind least ?d = (r, c')"
      using run changed None by (auto simp: offer_def split: if_splits sum.splits)
    from ec.offer_loop_wf [OF wfd new this] have L: ?wf ?last
      "\<forall>e\<in>set (pc_entries c'). e \<in> set (pc_entries ?d) \<or> r = Inr True \<and> entry_tokens e = se_tokens s \<and> ce_kind e = kind"
      "kind \<noteq> Prompt \<longrightarrow> (\<forall>e\<in>set (pc_entries ?d). ce_kind e = Prompt \<longrightarrow> e \<in> set (pc_entries c'))"
      "kind = Prompt \<longrightarrow> (\<exists>e\<in>set (pc_entries ?d). ce_kind e = Prompt \<and> e \<notin> set (pc_entries c')) \<longrightarrow>
         (\<forall>e\<in>set (pc_entries c'). ce_kind e = Prompt)" by blast+
    then have ?from by auto
    moreover have ?keep using L(4) by (auto simp: superseded_def)
    moreover have ?only
    proof (intro impI)
      assume k: "kind = Prompt" and "\<exists>e\<in>set (pc_entries c). ce_kind e = Prompt \<and> e \<notin> set (pc_entries c')
           \<and> \<not> starts_with (se_tokens s) (entry_tokens e)"
      then have "\<exists>e\<in>set (pc_entries ?d). ce_kind e = Prompt \<and> e \<notin> set (pc_entries c')"
        by (auto simp: superseded_def)
      with L(5) k show "\<forall>e\<in>set (pc_entries c'). ce_kind e = Prompt" by blast
    qed
    ultimately show ?thesis using L(1,2) by blast
  qed
qed

lemma offers_are_offers:
  "offer_prompt_checkpoint env en s rendered c = (r, c') \<Longrightarrow> (c' = c \<and> r \<noteq> Inr True)
     \<or> offer env en s (if se_frontier s = length rendered then Prompt else Anchor) c = (r, c')"
  "offer_generated_checkpoint env en s rendered c = (r, c') \<Longrightarrow> (c' = c \<and> r \<noteq> Inr True) \<or> offer env en s Generated c = (r, c')"
  by (auto simp: offer_prompt_checkpoint_def offer_generated_checkpoint_def split: if_splits)

section \<open>A sample cache\<close>

definition sample_entry :: cache_entry where
  "sample_entry = \<lparr> ce_snapshot = sample_copy, ce_retained_bytes = 21190708, ce_kind = Prompt \<rparr>"

definition sample_cache :: "cache_entry list \<Rightarrow> prefix_cache" where
  "sample_cache es = \<lparr> pc_owner = 2, pc_budget_bytes = 30000000, pc_entries = es \<rparr>"

lemma sample_cache_wf: "cache_wf (retained_capacity_bytes sample_senv) (sample_cache [sample_entry])"
  "cache_wf (retained_capacity_bytes sample_senv) (sample_cache [])"
proof -
  have "retained_capacity_bytes sample_senv sample_copy = Inr 21190708"
    using capture_charge [of sample_senv sample_host sample_session 30000000 sample_copy] sample_capture
    by (simp add: sample_senv_def)
  then show "cache_wf (retained_capacity_bytes sample_senv) (sample_cache [sample_entry])"
    "cache_wf (retained_capacity_bytes sample_senv) (sample_cache [])"
    by (simp_all add: cache_wf_def sample_cache_def sample_entry_def u64_limit_def MAX_ENTRIES_def sample_copy_def exact_vec_def)
qed

lemma sample_match: "best_match sample_host [7, 8] (sample_cache [sample_entry]) = (Some (sample_copy, False), sample_cache [sample_entry])"
  by (simp add: best_match_def sample_cache_def sample_host_def sample_entry_def sample_copy_def exact_vec_def
      exact_prefix_match_def starts_with_def max_by_key_def refresh_def remove_at_def Let_def)

section \<open>Properties\<close>

text \<open>C31: A lookup returns the longest cached history that is a prefix of the request, exactly when one exists for this
  engine, moves that entry to the most recent place, and neither adds nor drops an entry; a hit is complete exactly when nothing
  of the request is left to compute.\<close>

theorem best_match_is_longest_prefix:
  assumes wf: "cache_wf retained c" and run: "best_match en rendered c = (hit, c')"
  shows "mset (pc_entries c') = mset (pc_entries c) \<and> cache_wf retained c'
    \<and> (hit = None \<longleftrightarrow> pc_owner c \<noteq> he_cache_identity en \<or> he_max_context en < length rendered
         \<or> (\<forall>e\<in>set (pc_entries c). \<not> exact_prefix_match (entry_tokens e) rendered))
    \<and> (\<forall>snap complete. hit = Some (snap, complete) \<longrightarrow>
         (\<exists>e rest. ce_snapshot e = snap \<and> last (pc_entries c') = e \<and> e \<in> set (pc_entries c) \<and> entry_tokens e \<noteq> []
            \<and> rendered = entry_tokens e @ rest \<and> (complete \<longleftrightarrow> rest = [])
            \<and> (\<forall>e'\<in>set (pc_entries c). exact_prefix_match (entry_tokens e') rendered \<longrightarrow>
                 length (entry_tokens e') \<le> length (entry_tokens e))))"
proof (cases "pc_owner c \<noteq> he_cache_identity en \<or> he_max_context en < length rendered")
  case True
  with wf run show ?thesis by (auto simp: best_match_def)
next
  case False
  let ?idx = "filter (\<lambda>i. exact_prefix_match (entry_tokens (pc_entries c ! i)) rendered) [0..<length (pc_entries c)]"
  let ?key = "\<lambda>i. sn_frontier (ce_snapshot (pc_entries c ! i))"
  have idx: "i \<in> set ?idx \<longleftrightarrow> i < length (pc_entries c) \<and> exact_prefix_match (entry_tokens (pc_entries c ! i)) rendered" for i
    by auto
  show ?thesis
  proof (cases "max_by_key ?key ?idx")
    case None
    then have "?idx = []" by (simp add: max_by_key_props(1))
    then have "\<forall>e\<in>set (pc_entries c). \<not> exact_prefix_match (entry_tokens e) rendered"
      by (auto simp: filter_empty_conv in_set_conv_nth)
    with None wf run False show ?thesis by (auto simp: best_match_def)
  next
    case (Some i)
    let ?e = "pc_entries c ! i"
    from max_by_key_props(2) [OF Some] have i: "i < length (pc_entries c)" "exact_prefix_match (entry_tokens ?e) rendered"
      and best: "\<forall>j\<in>set ?idx. ?key j \<le> ?key i" by auto
    have key: "?key j = length (entry_tokens (pc_entries c ! j))" if "j < length (pc_entries c)" for j
      using wf nth_mem [OF that] by (auto simp: cache_wf_def)
    have hit: "hit = Some (ce_snapshot ?e, sn_frontier (ce_snapshot ?e) = length rendered)" "c' = refresh i c"
      using run False Some by (simp_all add: best_match_def Let_def)
    obtain rest where rest: "rendered = entry_tokens ?e @ rest" "entry_tokens ?e \<noteq> []"
      using i(2) by (auto simp: exact_prefix_match_def starts_with_iff)
    have longest: "length (entry_tokens e') \<le> length (entry_tokens ?e)"
      if "e' \<in> set (pc_entries c)" "exact_prefix_match (entry_tokens e') rendered" for e'
    proof -
      obtain j where "j < length (pc_entries c)" "pc_entries c ! j = e'" using \<open>e' \<in> _\<close> by (auto simp: in_set_conv_nth)
      with best idx [of j] that(2) key i(1) show ?thesis by fastforce
    qed
    have "last (pc_entries c') = ?e" by (simp add: hit refresh_def)
    moreover have "(sn_frontier (ce_snapshot ?e) = length rendered) = (rest = [])" using key [OF i(1)] rest by simp
    ultimately show ?thesis
      using hit rest longest mset_refresh [OF i(1)] cache_wf_refresh [OF i(1) wf] i False nth_mem [OF i(1)] by auto
  qed
qed

lemma best_match_is_longest_prefix_witness:
  "\<exists>e rest. ce_snapshot e = sample_copy \<and> [7, 8] = entry_tokens e @ rest \<and> rest \<noteq> []"
  using best_match_is_longest_prefix [OF sample_cache_wf(1) sample_match] by blast

text \<open>C30: Whatever an offer answers, the cache stays within its byte budget and entry limit, holds no token history twice
  and records true sizes; an accepted offer leaves the session's history as the most recent entry, and no entry appears that was
  neither there before nor offered.\<close>

theorem offers_keep_cache_bounded:
  assumes wf: "cache_wf (retained_capacity_bytes env) c"
    and run: "(r, c') \<in> {offer_prompt_checkpoint env en s rendered c, offer_generated_checkpoint env en s rendered c}"
  shows "cache_wf (retained_capacity_bytes env) c'
    \<and> (r = Inr True \<longrightarrow> (\<exists>es e. pc_entries c' = es @ [e] \<and> entry_tokens e = se_tokens s))
    \<and> (\<forall>e\<in>set (pc_entries c'). e \<in> set (pc_entries c) \<or> r = Inr True \<and> entry_tokens e = se_tokens s)"
proof -
  consider "c' = c \<and> r \<noteq> Inr True" | kind where "offer env en s kind c = (r, c')"
    using run offers_are_offers [of env en s rendered c r c'] by (auto dest: sym)
  then show ?thesis
  proof cases
    case 1
    with wf show ?thesis by simp
  next
    case 2
    from offer_cases [OF wf 2] show ?thesis by blast
  qed
qed

lemma offers_keep_cache_bounded_witness:
  "cache_wf (retained_capacity_bytes sample_senv) (snd (offer_prompt_checkpoint sample_senv sample_host sample_session [7] (sample_cache [sample_entry])))"
  using offers_keep_cache_bounded [OF sample_cache_wf(1),
      where r = "fst (offer_prompt_checkpoint sample_senv sample_host sample_session [7] (sample_cache [sample_entry]))"
        and c' = "snd (offer_prompt_checkpoint sample_senv sample_host sample_session [7] (sample_cache [sample_entry]))"
        and en = sample_host and s = sample_session and rendered = "[7]"] by simp

text \<open>The completed prompt of another conversation is never the price of an anchor or of generated text: such offers
  keep every prompt entry, and a prompt offer gives up an unrelated prompt only when nothing but prompts is left.\<close>

theorem completed_prompts_protected:
  assumes wf: "cache_wf (retained_capacity_bytes env) c" and e: "e \<in> set (pc_entries c)" "ce_kind e = Prompt"
  shows "(\<forall>r c'. offer_generated_checkpoint env en s rendered c = (r, c') \<longrightarrow> e \<in> set (pc_entries c'))
    \<and> (\<forall>r c'. se_frontier s \<noteq> length rendered \<longrightarrow> offer_prompt_checkpoint env en s rendered c = (r, c') \<longrightarrow> e \<in> set (pc_entries c'))
    \<and> (\<forall>r c'. offer_prompt_checkpoint env en s rendered c = (r, c') \<longrightarrow> e \<in> set (pc_entries c')
         \<or> starts_with (se_tokens s) (entry_tokens e) \<or> (\<forall>e'\<in>set (pc_entries c'). ce_kind e' = Prompt))"
proof -
  have G: "e \<in> set (pc_entries c')" if "offer_generated_checkpoint env en s rendered c = (r, c')" for r c'
    using offers_are_offers(2) [OF that] offer_cases [OF wf] e by fastforce
  have P: "e \<in> set (pc_entries c') \<or> se_frontier s = length rendered \<and> (starts_with (se_tokens s) (entry_tokens e)
      \<or> (\<forall>e'\<in>set (pc_entries c'). ce_kind e' = Prompt))"
    if run: "offer_prompt_checkpoint env en s rendered c = (r, c')" for r c'
  proof (cases "c' = c")
    case False
    then have o: "offer env en s (if se_frontier s = length rendered then Prompt else Anchor) c = (r, c')"
      using offers_are_offers(1) [OF run] by blast
    from offer_cases [OF wf o] e show ?thesis by (auto split: if_splits)
  qed (simp add: e)
  from G P show ?thesis by blast
qed

lemma completed_prompts_protected_witness:
  "sample_entry \<in> set (pc_entries (snd (offer_generated_checkpoint sample_senv sample_host sample_session [7] (sample_cache [sample_entry]))))"
  using completed_prompts_protected [OF sample_cache_wf(1), of sample_entry sample_host sample_session "[7]"]
  by (auto simp: sample_cache_def sample_entry_def prod_eq_iff)

text \<open>A completed prompt is remembered whenever it can be: if its history is not cached yet, its least size fits the
  budget, and a copy into the whole budget succeeds without device errors, the offer is accepted.\<close>

theorem fitting_prompt_is_accepted:
  assumes wf: "cache_wf (retained_capacity_bytes env) c" and own: "pc_owner c = he_cache_identity en"
    and valid: "validate_snapshot_source en s = Inr ()" and req: "se_tokens s = rendered" "length rendered \<le> he_max_context en"
    and new: "\<forall>e\<in>set (pc_entries c). entry_tokens e \<noteq> se_tokens s"
    and least: "snapshot_minimum_retained_bytes env en s = Inr least" "least \<le> pc_budget_bytes c"
    and copies: "\<forall>limit e. snapshot_inner env en s limit \<noteq> Inl e" "snapshot_inner env en s (pc_budget_bytes c) = Inr (Some snap)"
  shows "fst (offer_prompt_checkpoint env en s rendered c) = Inr True"
proof -
  have f: "se_frontier s = length rendered" "se_tokens s \<noteq> []"
    using valid req(1) by (auto simp: validate_snapshot_source_def validate_committed_def session_frontier_def result_simps)
  let ?d = "c \<lparr> pc_entries := filter (\<lambda>e. \<not> superseded (se_tokens s) Prompt e) (pc_entries c) \<rparr>"
  have "cache_wf (retained_capacity_bytes env) ?d"
    by (rule cache_wf_fewer [OF wf]) (simp add: multiset_filter_subset)
  with ec.offer_loop_accepts [of env ?d s en snap least] new copies least(2)
  have "fst (offer_loop (snapshot_inner env en s) (retained_capacity_bytes env) Prompt least ?d) = Inr True" by simp
  moreover have "position (\<lambda>e. entry_tokens e = se_tokens s) (pc_entries c) = None" using new by (simp add: position_None)
  ultimately show ?thesis using f req own valid least
    by (simp add: offer_prompt_checkpoint_def offer_def exact_prefix_match_def starts_with_def)
qed

lemma fitting_prompt_is_accepted_witness:
  "fst (offer_prompt_checkpoint sample_senv sample_host sample_session [7] (sample_cache [])) = Inr True"
proof (rule fitting_prompt_is_accepted [where least = 21190708 and snap = sample_copy])
  show "cache_wf (retained_capacity_bytes sample_senv) (sample_cache [])" by (rule sample_cache_wf(2))
  show "\<forall>limit e. snapshot_inner sample_senv sample_host sample_session limit \<noteq> Inl e"
    by (auto simp: sample_snapshot_at)
  show "snapshot_inner sample_senv sample_host sample_session (pc_budget_bytes (sample_cache [])) = Inr (Some sample_copy)"
    by (simp add: sample_snapshot_at sample_cache_def)
  show "validate_snapshot_source sample_host sample_session = Inr ()" by (rule sample_source)
  show "snapshot_minimum_retained_bytes sample_senv sample_host sample_session = Inr 21190708" by (rule sample_minimum)
qed (simp_all add: sample_cache_def sample_host_def sample_session_def)

end
