(* ===== verification/Kvarn_Store.thy ===== *)
theory Kvarn_Store
  imports Session_Snapshot
begin

text \<open>
  The host key/value store of an attention layer (\<open>KvarnState\<close> of \<open>src/kvarn.rs\<close>): the exact sink of the
  first tokens, the ring of recent exact rows, and the packed records of sealed tiles. The tile encoder
  runs on the GPU and is a parameter; so is the allocator, which gives a capacity or fails.
\<close>

record kvarn_host =
  kh_max_context :: nat
  kh_frontier :: nat
  kh_records :: "byte list"
  kh_capacity :: nat
  kh_sink_keys :: "byte list"
  kh_sink_values :: "byte list"
  kh_tail_keys :: "byte list"
  kh_tail_values :: "byte list"

section \<open>Growth of the record backing\<close>

definition record_growth_target :: "nat \<Rightarrow> nat \<Rightarrow> nat \<Rightarrow> nat option result" where
  "record_growth_target required_records capacity_bytes max_records =
     ensure (required_records \<le> max_records) ''KVarN record count exceeds context capacity''
     (bindr (ok_or (checked_mul required_records TILE_RECORD_BYTES) ''KVarN record byte count overflow'') (\<lambda>required_bytes.
      if required_bytes \<le> capacity_bytes then Inr None
      else
        bindr (ok_or (checked_mul (max (capacity_bytes div TILE_RECORD_BYTES) 1) 2) ''KVarN record growth overflow'') (\<lambda>doubled.
        bindr (ok_or (checked_mul (max required_records (min doubled max_records)) TILE_RECORD_BYTES)
          ''KVarN record reservation overflow'') (\<lambda>target_bytes. Inr (Some target_bytes)))))"

definition record_growth_at_frontier :: "nat \<Rightarrow> nat \<Rightarrow> nat \<Rightarrow> nat option result" where
  "record_growth_at_frontier next capacity_bytes max_context =
     ensure (next \<le> max_context) ''KVarN context capacity is exhausted''
     (record_growth_target (record_tiles next) capacity_bytes (record_tiles max_context))"

section \<open>Opening a store\<close>

definition kvarn_zero :: "nat \<Rightarrow> kvarn_host result" where
  "kvarn_zero max_context =
     ensure (1 \<le> max_context \<and> max_context \<le> MAX_CONTEXT_TOKENS)
       ''KVarN context capacity is outside the released range''
     (Inr \<lparr> kh_max_context = max_context, kh_frontier = 0, kh_records = [], kh_capacity = 0,
            kh_sink_keys = replicate SINK_BYTES 0, kh_sink_values = replicate SINK_BYTES 0,
            kh_tail_keys = replicate TAIL_BYTES 0, kh_tail_values = replicate TAIL_BYTES 0 \<rparr>)"

definition kvarn_host_restore :: "(nat \<Rightarrow> nat result) \<Rightarrow> nat \<Rightarrow> nat \<Rightarrow> byte list \<Rightarrow> byte list \<Rightarrow> byte list \<Rightarrow> byte list
    \<Rightarrow> byte list \<Rightarrow> kvarn_host result" where
  "kvarn_host_restore reserve max_context frontier records sink_keys sink_values tail_keys tail_values =
     bindr (kvarn_validate_parts max_context frontier records sink_keys sink_values tail_keys tail_values) (\<lambda>_.
     bindr (kvarn_zero max_context) (\<lambda>st.
     bindr (reserve (length records)) (\<lambda>capacity.
     Inr (st \<lparr> kh_frontier := frontier, kh_records := records, kh_capacity := capacity, kh_sink_keys := sink_keys,
               kh_sink_values := sink_values, kh_tail_keys := tail_keys, kh_tail_values := tail_values \<rparr>))))"

definition record_count :: "kvarn_host \<Rightarrow> nat" where
  "record_count st = length (kh_records st) div TILE_RECORD_BYTES"

definition safe_chunk_tokens :: "nat \<Rightarrow> kvarn_host \<Rightarrow> nat result" where
  "safe_chunk_tokens requested st =
     ensure (0 < requested) ''KVarN append width must be positive''
     (let next_seal = SINK_TOKENS + EXACT_SUFFIX + (record_count st + 1) * TILE_TOKENS
      in Inr (min requested (next_seal - kh_frontier st)))"

section \<open>Appending a chunk\<close>

text \<open>One row is the 512 bytes of one head and token; a chunk holds them head by head.\<close>

definition ROW_BYTES :: nat where "ROW_BYTES = HEAD_DIM * 2"

definition row :: "nat \<Rightarrow> byte list \<Rightarrow> byte list" where
  "row i buf = take ROW_BYTES (drop (i * ROW_BYTES) buf)"

definition put_row :: "nat \<Rightarrow> byte list \<Rightarrow> byte list \<Rightarrow> byte list" where
  "put_row i bs buf = take (i * ROW_BYTES) buf @ bs @ drop (i * ROW_BYTES + ROW_BYTES) buf"

definition tail_index :: "nat \<Rightarrow> nat \<Rightarrow> nat" where
  "tail_index logical head = head * TAIL_CAPACITY + (logical - SINK_TOKENS) mod TAIL_CAPACITY"

text \<open>The two bytes of one channel of a tile, from the ring or from the chunk.\<close>

definition tile_pair :: "nat \<Rightarrow> nat \<Rightarrow> byte list \<Rightarrow> byte list \<Rightarrow> nat \<Rightarrow> nat \<Rightarrow> nat \<Rightarrow> byte list" where
  "tile_pair frontier tokens tail chunk logical head channel =
     (if logical < frontier
      then take 2 (drop (tail_index logical head * HEAD_DIM * 2 + channel * 2) tail)
      else take 2 (drop ((head * tokens * HEAD_DIM + (logical - frontier) * HEAD_DIM + channel) * 2) chunk))"

definition gather_tile :: "nat \<Rightarrow> nat \<Rightarrow> nat \<Rightarrow> byte list \<Rightarrow> byte list \<Rightarrow> byte list" where
  "gather_tile frontier tokens tile_start tail chunk =
     concat (map (\<lambda>tile_token. concat (map (\<lambda>head. concat (map (\<lambda>channel.
       tile_pair frontier tokens tail chunk (tile_start + tile_token) head channel) [0..<HEAD_DIM])) [0..<KV_HEADS]))
       [0..<TILE_TOKENS])"

definition store_row :: "nat \<Rightarrow> nat \<Rightarrow> byte list \<Rightarrow> nat \<times> nat \<Rightarrow> byte list \<times> byte list \<Rightarrow> byte list \<times> byte list" where
  "store_row frontier tokens chunk p bufs =
     (let (token, head) = p; (sink, tail) = bufs; logical = frontier + token; bs = row (head * tokens + token) chunk in
      if logical < SINK_TOKENS then (put_row (head * SINK_TOKENS + logical) bs sink, tail)
      else (sink, put_row (tail_index logical head) bs tail))"

definition store_rows :: "nat \<Rightarrow> nat \<Rightarrow> byte list \<Rightarrow> byte list \<times> byte list \<Rightarrow> byte list \<times> byte list" where
  "store_rows frontier tokens chunk bufs =
     fold (store_row frontier tokens chunk) (List.product [0..<tokens] [0..<KV_HEADS]) bufs"

definition append_checks :: "byte list \<Rightarrow> byte list \<Rightarrow> kvarn_host \<Rightarrow> (nat \<times> nat \<times> nat) result" where
  "append_checks keys values st =
     ensure (keys \<noteq> [] \<and> length keys mod TOKEN_BYTES = 0) ''KVarN append keys must contain complete tokens''
     (ensure (length values = length keys) ''KVarN append values differ in shape''
     (bindr (finite_bf16 keys) (\<lambda>_. bindr (finite_bf16 values) (\<lambda>_.
      let tokens = length keys div TOKEN_BYTES in
      bindr (ok_or (checked_add (kh_frontier st) tokens) ''KVarN frontier overflow'') (\<lambda>next.
      ensure (next \<le> kh_max_context st) ''KVarN context capacity is exhausted''
     (bindr (safe_chunk_tokens tokens st) (\<lambda>safe.
      ensure (tokens \<le> safe) ''KVarN append crosses a tile seal; split at safe_chunk_tokens''
     (ensure (record_tiles next \<le> record_count st + 1) ''KVarN append crosses multiple tile seals''
       (Inr (tokens, next, record_tiles next))))))))))"

text \<open>The record backing is reserved before the tile is encoded, and nothing can fail after that.\<close>

definition kvarn_append ::
    "(byte list \<Rightarrow> byte list \<Rightarrow> byte list result) \<Rightarrow> (nat \<Rightarrow> nat result) \<Rightarrow> byte list \<Rightarrow> byte list
     \<Rightarrow> (kvarn_host, unit) stateful" where
  "kvarn_append encode_tile reserve keys values =
     m_bind (m_get (append_checks keys values)) (\<lambda>(tokens, next, next_records).
     m_bind (m_get (\<lambda>st. record_growth_target next_records (kh_capacity st) (record_tiles (kh_max_context st)))) (\<lambda>target.
     m_bind (case target of None \<Rightarrow> m_return ()
       | Some target_bytes \<Rightarrow>
           m_bind (m_get (\<lambda>st. bindr (ok_or (checked_sub target_bytes (length (kh_records st)))
             ''KVarN record reservation is below the occupied length'') (\<lambda>_. reserve target_bytes))) (\<lambda>capacity.
           m_modify (\<lambda>st. st \<lparr> kh_capacity := capacity \<rparr>))) (\<lambda>_.
     m_bind (m_get (\<lambda>st.
       if record_count st < next_records
       then let tile_start = SINK_TOKENS + record_count st * TILE_TOKENS in
         bindr (encode_tile (gather_tile (kh_frontier st) tokens tile_start (kh_tail_keys st) keys)
                  (gather_tile (kh_frontier st) tokens tile_start (kh_tail_values st) values)) (\<lambda>record.
         ensure (length record = TILE_RECORD_BYTES) ''KVarN encoder returned an incomplete tile record'' (Inr record))
       else Inr [])) (\<lambda>record.
     m_modify (\<lambda>st.
       let (sink_keys, tail_keys) = store_rows (kh_frontier st) tokens keys (kh_sink_keys st, kh_tail_keys st);
           (sink_values, tail_values) = store_rows (kh_frontier st) tokens values (kh_sink_values st, kh_tail_values st)
       in st \<lparr> kh_sink_keys := sink_keys, kh_tail_keys := tail_keys, kh_sink_values := sink_values,
               kh_tail_values := tail_values, kh_records := kh_records st @ record, kh_frontier := next \<rparr>)))))"

section \<open>Rows of a buffer\<close>

lemma ROW_BYTES_pos: "0 < ROW_BYTES"
  by (simp add: ROW_BYTES_def HEAD_DIM_def)

lemma row_index_end: "i < n \<Longrightarrow> i * ROW_BYTES + ROW_BYTES \<le> n * ROW_BYTES"
  by (metis Suc_leI add.commute mult_Suc mult_le_mono1)

lemma length_row: "length buf = n * ROW_BYTES \<Longrightarrow> i < n \<Longrightarrow> length (row i buf) = ROW_BYTES"
  using row_index_end [of i n] by (simp add: row_def)

lemma length_put_row:
  "length buf = n * ROW_BYTES \<Longrightarrow> i < n \<Longrightarrow> length bs = ROW_BYTES \<Longrightarrow> length (put_row i bs buf) = n * ROW_BYTES"
  using row_index_end [of i n] by (simp add: put_row_def)

lemma row_put_row:
  assumes "length buf = n * ROW_BYTES" "i < n" "j < n" "length bs = ROW_BYTES"
  shows "row j (put_row i bs buf) = (if j = i then bs else row j buf)"
proof -
  note e = row_index_end [OF assms(2)] row_index_end [OF assms(3)]
  consider "j = i" | "j < i" | "i < j" by linarith
  then show ?thesis
  proof cases
    case 1
    with assms e show ?thesis by (simp add: row_def put_row_def)
  next
    case 2
    then have "j * ROW_BYTES + ROW_BYTES \<le> i * ROW_BYTES" by (rule row_index_end)
    then have "min ROW_BYTES (i * ROW_BYTES - j * ROW_BYTES) = ROW_BYTES" by simp
    with 2 assms e show ?thesis by (simp add: row_def put_row_def drop_take)
  next
    case 3
    then have l: "i * ROW_BYTES + ROW_BYTES \<le> j * ROW_BYTES" by (rule row_index_end)
    have "i * ROW_BYTES + ROW_BYTES + (j * ROW_BYTES - i * ROW_BYTES - ROW_BYTES) = j * ROW_BYTES" using l by simp
    with 3 assms e l show ?thesis by (simp add: row_def put_row_def)
  qed
qed

lemma fold_put_row:
  assumes "distinct (map f ps)" "\<forall>p\<in>set ps. f p < n \<and> length (g p) = ROW_BYTES" "length buf = n * ROW_BYTES"
  shows "length (fold (\<lambda>p. put_row (f p) (g p)) ps buf) = n * ROW_BYTES
    \<and> (\<forall>p\<in>set ps. row (f p) (fold (\<lambda>p. put_row (f p) (g p)) ps buf) = g p)
    \<and> (\<forall>j<n. j \<notin> f ` set ps \<longrightarrow> row j (fold (\<lambda>p. put_row (f p) (g p)) ps buf) = row j buf)"
  using assms
proof (induction ps rule: rev_induct)
  case (snoc p ps)
  let ?b = "fold (\<lambda>p. put_row (f p) (g p)) ps buf"
  from snoc have IH: "length ?b = n * ROW_BYTES" "\<forall>p\<in>set ps. row (f p) ?b = g p"
    "\<forall>j<n. j \<notin> f ` set ps \<longrightarrow> row j ?b = row j buf" by auto
  have p: "f p < n" "length (g p) = ROW_BYTES" using snoc.prems(2) by auto
  note put = row_put_row [OF IH(1) p(1) _ p(2)]
  have "f q < n \<and> f q \<noteq> f p" if "q \<in> set ps" for q using snoc.prems(1,2) that by (auto simp: rev_image_eqI)
  then show ?case using IH put p length_put_row [OF IH(1) p] by auto
qed simp

section \<open>What a store represents\<close>

text \<open>The history of one side (keys or values): the row of every token and head. Appending a chunk extends it.\<close>

type_synonym history = "nat \<Rightarrow> nat \<Rightarrow> byte list"

definition extend :: "history \<Rightarrow> nat \<Rightarrow> nat \<Rightarrow> byte list \<Rightarrow> history" where
  "extend h f n chunk t head = (if t < f then h t head else row (head * n + (t - f)) chunk)"

definition exact_from :: "nat \<Rightarrow> nat" where
  "exact_from f = SINK_TOKENS + record_tiles f * TILE_TOKENS"

text \<open>The sink holds the first rows and the ring every row after the last sealed tile.\<close>

definition holds :: "history \<Rightarrow> nat \<Rightarrow> byte list \<times> byte list \<Rightarrow> bool" where
  "holds h f bufs \<longleftrightarrow> length (fst bufs) = SINK_BYTES \<and> length (snd bufs) = TAIL_BYTES
     \<and> (\<forall>head<KV_HEADS. (\<forall>t<min f SINK_TOKENS. row (head * SINK_TOKENS + t) (fst bufs) = h t head)
          \<and> (\<forall>t. exact_from f \<le> t \<longrightarrow> t < f \<longrightarrow> row (tail_index t head) (snd bufs) = h t head))"

text \<open>The bytes a sealed tile is encoded from.\<close>

definition tile_of :: "history \<Rightarrow> nat \<Rightarrow> byte list" where
  "tile_of h i = concat (map (\<lambda>tt. concat (map (\<lambda>head. h (SINK_TOKENS + i * TILE_TOKENS + tt) head) [0..<KV_HEADS]))
     [0..<TILE_TOKENS])"

definition kvarn_rep :: "(byte list \<Rightarrow> byte list \<Rightarrow> byte list result) \<Rightarrow> history \<Rightarrow> history \<Rightarrow> kvarn_host \<Rightarrow> bool" where
  "kvarn_rep encode hk hv st \<longleftrightarrow>
     holds hk (kh_frontier st) (kh_sink_keys st, kh_tail_keys st)
     \<and> holds hv (kh_frontier st) (kh_sink_values st, kh_tail_values st)
     \<and> kh_frontier st \<le> kh_max_context st
     \<and> (\<exists>tiles. kh_records st = concat tiles \<and> length tiles = record_tiles (kh_frontier st)
          \<and> (\<forall>i<length tiles. length (tiles ! i) = TILE_RECORD_BYTES
               \<and> encode (tile_of hk i) (tile_of hv i) = Inr (tiles ! i)))"

section \<open>Writing a chunk\<close>

lemma store_rows_fold:
  "fold (store_row f n c) ps (s, t) =
     (fold (\<lambda>p. put_row (snd p * SINK_TOKENS + (f + fst p)) (row (snd p * n + fst p) c)) (filter (\<lambda>p. f + fst p < SINK_TOKENS) ps) s,
      fold (\<lambda>p. put_row (tail_index (f + fst p) (snd p)) (row (snd p * n + fst p) c)) (filter (\<lambda>p. \<not> f + fst p < SINK_TOKENS) ps) t)"
proof (induction ps arbitrary: s t)
  case (Cons p ps)
  then show ?case by (cases p) (simp add: store_row_def Let_def)
qed simp

lemma mod_window_le:
  fixes x y m :: nat
  assumes "x mod m = y mod m" "x \<le> y" "y - x < m"
  shows "x = y"
proof -
  have "m dvd y - x" using mod_eq_dvd_iff_nat [OF assms(2), of m] assms(1) by simp
  with assms(3) have "y - x = 0" by (metis nat_dvd_not_less neq0_conv)
  with assms(2) show ?thesis by simp
qed

lemma mod_window:
  fixes a b lo m :: nat
  assumes "a mod m = b mod m" "lo \<le> a" "a < lo + m" "lo \<le> b" "b < lo + m"
  shows "a = b"
proof (cases "a \<le> b")
  case True
  with assms show ?thesis by (intro mod_window_le [of a m b]) simp_all
next
  case False
  with assms have "b = a" by (intro mod_window_le [of b m a]) simp_all
  then show ?thesis by simp
qed

lemma div_mod_unique_nat:
  fixes h k x y m :: nat
  assumes "h * m + x = k * m + y" "x < m" "y < m"
  shows "h = k \<and> x = y"
proof -
  have "(h * m + x) div m = h" "(k * m + y) div m = k" using assms(2,3) by simp_all
  with assms(1) show ?thesis by simp
qed

lemma tail_index_inj:
  assumes "tail_index a h = tail_index b k" "SINK_TOKENS \<le> lo" "lo \<le> a" "a < lo + TAIL_CAPACITY" "lo \<le> b" "b < lo + TAIL_CAPACITY"
  shows "a = b \<and> h = k"
proof -
  have "(x mod TAIL_CAPACITY) < TAIL_CAPACITY" for x by (simp add: kvarn_consts)
  with div_mod_unique_nat [OF assms(1) [unfolded tail_index_def]]
  have "h = k" "(a - SINK_TOKENS) mod TAIL_CAPACITY = (b - SINK_TOKENS) mod TAIL_CAPACITY" by blast+
  moreover from mod_window [OF this(2), of "lo - SINK_TOKENS"] assms have "a - SINK_TOKENS = b - SINK_TOKENS" by auto
  ultimately show ?thesis using assms by simp
qed

lemma tail_index_lt: "head < KV_HEADS \<Longrightarrow> tail_index t head < KV_HEADS * TAIL_CAPACITY"
proof -
  assume "head < KV_HEADS"
  then have "head * TAIL_CAPACITY + TAIL_CAPACITY \<le> KV_HEADS * TAIL_CAPACITY" by (metis Suc_leI add.commute mult_Suc mult_le_mono1)
  moreover have "(t - SINK_TOKENS) mod TAIL_CAPACITY < TAIL_CAPACITY" by (simp add: kvarn_consts)
  ultimately show ?thesis by (simp add: tail_index_def)
qed

lemma buffer_rows:
  "SINK_BYTES = (KV_HEADS * SINK_TOKENS) * ROW_BYTES" "TAIL_BYTES = (KV_HEADS * TAIL_CAPACITY) * ROW_BYTES"
  "n * TOKEN_BYTES = (KV_HEADS * n) * ROW_BYTES"
  by (simp_all add: SINK_BYTES_def TAIL_BYTES_def ROW_BYTES_def TOKEN_BYTES_def)

lemma record_tiles_bounds:
  "record_tiles f \<le> record_tiles (f + n)" "0 < record_tiles f \<Longrightarrow> exact_from f + EXACT_SUFFIX \<le> f" "SINK_TOKENS \<le> exact_from f"
  "exact_from f \<le> exact_from (f + n)"
proof -
  show m: "record_tiles f \<le> record_tiles (f + n)" by (rule record_tiles_mono) simp
  then show "exact_from f \<le> exact_from (f + n)" by (simp add: exact_from_def)
  show "SINK_TOKENS \<le> exact_from f" by (simp add: exact_from_def)
  show "exact_from f + EXACT_SUFFIX \<le> f" if "0 < record_tiles f"
  proof -
    have "8320 \<le> f" using that by (cases "8320 \<le> f") (simp_all add: record_tiles_eq)
    moreover have "(f - 8320) div 128 * 128 \<le> f - 8320" by simp
    ultimately have "8320 + (f - 8320) div 128 * 128 \<le> f" by linarith
    then show ?thesis by (simp add: exact_from_def record_tiles_eq kvarn_consts)
  qed
qed

lemma head_index: "head < KV_HEADS \<Longrightarrow> i < n \<Longrightarrow> head * n + i < KV_HEADS * n"
proof -
  assume "head < KV_HEADS" "i < n"
  then have "head * n + n \<le> KV_HEADS * n" by (metis Suc_leI add.commute mult_Suc mult_le_mono1)
  with \<open>i < n\<close> show ?thesis by simp
qed

lemma store_rows_holds:
  assumes h: "holds h f (s, t)" and c: "length c = n * TOKEN_BYTES" and w: "f + n \<le> exact_from f + TAIL_CAPACITY"
    and st: "store_rows f n c (s, t) = (s', t')"
  shows "holds (extend h f n c) (f + n) (s', t')"
proof -
  let ?ps = "List.product [0..<n] [0..<KV_HEADS]"
  let ?g = "\<lambda>p. row (snd p * n + fst p) c"
  let ?fs = "\<lambda>p. snd p * SINK_TOKENS + (f + fst p)" and ?ft = "\<lambda>p. tail_index (f + fst p) (snd p)"
  let ?qs = "filter (\<lambda>p. f + fst p < SINK_TOKENS) ?ps" and ?qt = "filter (\<lambda>p. \<not> f + fst p < SINK_TOKENS) ?ps"
  have s': "s' = fold (\<lambda>p. put_row (?fs p) (?g p)) ?qs s" and t': "t' = fold (\<lambda>p. put_row (?ft p) (?g p)) ?qt t"
    using st by (simp_all add: store_rows_def store_rows_fold)
  have g: "length (?g p) = ROW_BYTES" if "p \<in> set ?ps" for p
    using that c head_index by (intro length_row [where n = "KV_HEADS * n"]) (auto simp: buffer_rows(3))
  have ls: "length s = (KV_HEADS * SINK_TOKENS) * ROW_BYTES" and lt: "length t = (KV_HEADS * TAIL_CAPACITY) * ROW_BYTES"
    using h by (simp_all add: holds_def buffer_rows(1,2))
  have d: "distinct ?ps" by (intro distinct_product) simp_all
  have "inj_on ?fs (set ?qs)"
  proof (rule inj_onI)
    fix p q assume p: "p \<in> set ?qs" "q \<in> set ?qs" and e: "?fs p = ?fs q"
    have "snd p = snd q"
      using p arg_cong [OF e, of "\<lambda>x. x div SINK_TOKENS"] by (simp add: SINK_TOKENS_def)
    with e show "p = q" by (simp add: prod_eq_iff)
  qed
  then have ds: "distinct (map ?fs ?qs)" using d by (simp add: distinct_map)
  have "inj_on ?ft (set ?qt)"
  proof (rule inj_onI)
    fix p q assume p: "p \<in> set ?qt" "q \<in> set ?qt" and e: "?ft p = ?ft q"
    show "p = q"
    proof (cases "record_tiles f = 0")
      case True
      then have "exact_from f = SINK_TOKENS" by (simp add: exact_from_def)
      with tail_index_inj [OF e, of SINK_TOKENS] p w show ?thesis by (auto simp: prod_eq_iff)
    next
      case False
      with record_tiles_bounds(2) [of f] have "exact_from f \<le> f" by simp
      with tail_index_inj [OF e record_tiles_bounds(3) [of f]] p w show ?thesis by (auto simp: prod_eq_iff)
    qed
  qed
  then have dt: "distinct (map ?ft ?qt)" using d by (simp add: distinct_map)
  have "\<forall>p\<in>set ?qs. ?fs p < KV_HEADS * SINK_TOKENS \<and> length (?g p) = ROW_BYTES" using g head_index by auto
  note S = fold_put_row [OF ds this ls, folded s']
  have "\<forall>p\<in>set ?qt. ?ft p < KV_HEADS * TAIL_CAPACITY \<and> length (?g p) = ROW_BYTES" using g tail_index_lt by auto
  note T = fold_put_row [OF dt this lt, folded t']
  have sink: "row (head * SINK_TOKENS + i) s' = extend h f n c i head" if "head < KV_HEADS" "i < min (f + n) SINK_TOKENS" for head i
  proof (cases "i < f")
    case True
    have "head * SINK_TOKENS + i \<notin> ?fs ` set ?qs"
    proof
      assume "head * SINK_TOKENS + i \<in> ?fs ` set ?qs"
      then obtain p where p: "p \<in> set ?qs" "head * SINK_TOKENS + i = ?fs p" by auto
      have "head = snd p" using p that arg_cong [OF p(2), of "\<lambda>x. x div SINK_TOKENS"] by (simp add: SINK_TOKENS_def)
      with p(2) True show False by simp
    qed
    with S head_index [OF that(1), of i SINK_TOKENS] that True h show ?thesis by (simp add: holds_def extend_def)
  next
    case False
    then have "(i - f, head) \<in> set ?qs" using that by auto
    with S False have "row (?fs (i - f, head)) s' = ?g (i - f, head)" by blast
    with False show ?thesis by (simp add: extend_def)
  qed
  have tail: "row (tail_index i head) t' = extend h f n c i head"
    if "head < KV_HEADS" "exact_from (f + n) \<le> i" "i < f + n" for head i
  proof (cases "i < f")
    case True
    have lo: "exact_from f \<le> i" using record_tiles_bounds(4) [of f n] that(2) by simp
    have "tail_index i head \<notin> ?ft ` set ?qt"
    proof
      assume "tail_index i head \<in> ?ft ` set ?qt"
      then obtain p where p: "p \<in> set ?qt" "tail_index i head = ?ft p" by auto
      from tail_index_inj [OF p(2) record_tiles_bounds(3) lo] True lo w p(1) show False by auto
    qed
    with T tail_index_lt [OF that(1)] True lo h that(1) show ?thesis by (simp add: holds_def extend_def)
  next
    case False
    then have "(i - f, head) \<in> set ?qt" using that record_tiles_bounds(3) [of "f + n"] by auto
    with T False have "row (?ft (i - f, head)) t' = ?g (i - f, head)" by blast
    with False show ?thesis by (simp add: extend_def)
  qed
  show ?thesis using S T sink tail by (simp add: holds_def buffer_rows(1,2))
qed

section \<open>Sealing a tile\<close>

lemma concat_pairs: "concat (map (\<lambda>i. take 2 (drop (base + i * 2) buf)) [0..<k]) = take (k * 2) (drop base buf)"
proof (induction k)
  case (Suc k)
  have "take (k * 2 + 2) (drop base buf) = take (k * 2) (drop base buf) @ take 2 (drop (k * 2) (drop base buf))"
    by (rule take_add)
  with Suc show ?case by (simp add: add.commute)
qed simp

lemma gather_pairs:
  assumes "holds h f (s, t)" "head < KV_HEADS" "exact_from f \<le> l"
  shows "concat (map (\<lambda>channel. tile_pair f n t c l head channel) [0..<HEAD_DIM]) = extend h f n c l head"
proof (cases "l < f")
  case True
  with assms have "row (tail_index l head) t = h l head" by (simp add: holds_def)
  with True show ?thesis
    using concat_pairs [of "tail_index l head * HEAD_DIM * 2" t HEAD_DIM]
    by (simp add: tile_pair_def extend_def row_def ROW_BYTES_def mult.assoc)
next
  case False
  have "(head * n * HEAD_DIM + (l - f) * HEAD_DIM + ch) * 2 = (head * n + (l - f)) * (HEAD_DIM * 2) + ch * 2" for ch
    by (simp add: algebra_simps)
  with False show ?thesis
    using concat_pairs [of "(head * n + (l - f)) * (HEAD_DIM * 2)" c HEAD_DIM]
    by (simp add: tile_pair_def extend_def row_def ROW_BYTES_def)
qed

lemma gather_tile_of:
  assumes "holds h f (s, t)"
  shows "gather_tile f n (SINK_TOKENS + record_tiles f * TILE_TOKENS) t c = tile_of (extend h f n c) (record_tiles f)"
proof -
  have "concat (map (\<lambda>channel. tile_pair f n t c (SINK_TOKENS + record_tiles f * TILE_TOKENS + tt) head channel) [0..<HEAD_DIM])
      = extend h f n c (SINK_TOKENS + record_tiles f * TILE_TOKENS + tt) head" if "head \<in> set [0..<KV_HEADS]" for tt head
    by (rule gather_pairs [OF assms]) (use that in \<open>simp_all add: exact_from_def\<close>)
  then have "map (\<lambda>head. concat (map (\<lambda>channel. tile_pair f n t c (SINK_TOKENS + record_tiles f * TILE_TOKENS + tt) head channel)
        [0..<HEAD_DIM])) [0..<KV_HEADS]
      = map (\<lambda>head. extend h f n c (SINK_TOKENS + record_tiles f * TILE_TOKENS + tt) head) [0..<KV_HEADS]" for tt
    by (intro map_cong) simp_all
  then show ?thesis by (simp only: gather_tile_def tile_of_def)
qed

text \<open>Tiles sealed earlier keep their rows.\<close>

lemma tile_of_extend:
  assumes "i < record_tiles f"
  shows "tile_of (extend h f n c) i = tile_of h i"
proof -
  have "Suc i * TILE_TOKENS \<le> record_tiles f * TILE_TOKENS" using assms by (intro mult_le_mono1) simp
  moreover have "exact_from f \<le> f" using record_tiles_bounds(2) [of f] assms by linarith
  ultimately have "SINK_TOKENS + i * TILE_TOKENS + tt < f" if "tt < TILE_TOKENS" for tt
    using that by (simp add: exact_from_def)
  then have "map (\<lambda>tt. concat (map (\<lambda>head. extend h f n c (SINK_TOKENS + i * TILE_TOKENS + tt) head) [0..<KV_HEADS])) [0..<TILE_TOKENS]
      = map (\<lambda>tt. concat (map (\<lambda>head. h (SINK_TOKENS + i * TILE_TOKENS + tt) head) [0..<KV_HEADS])) [0..<TILE_TOKENS]"
    by (intro map_cong) (simp_all add: extend_def)
  then show ?thesis by (simp only: tile_of_def)
qed

lemma kvarn_rep_record_count: "kvarn_rep encode hk hv st \<Longrightarrow> record_count st = record_tiles (kh_frontier st)"
proof -
  assume "kvarn_rep encode hk hv st"
  then obtain tiles where t: "kh_records st = concat tiles" "length tiles = record_tiles (kh_frontier st)"
    "\<forall>i<length tiles. length (tiles ! i) = TILE_RECORD_BYTES" by (auto simp: kvarn_rep_def)
  then have "map length tiles = replicate (length tiles) TILE_RECORD_BYTES" by (intro nth_equalityI) simp_all
  then have "length (kh_records st) = length tiles * TILE_RECORD_BYTES"
    using t(1) by (simp add: length_concat sum_list_replicate)
  then show ?thesis using t(2) by (simp add: record_count_def kvarn_consts)
qed

lemma append_checks_Inr:
  assumes rep: "kvarn_rep encode hk hv st" and "append_checks keys values st = Inr (tokens, next, next_records)"
  shows "length keys = tokens * TOKEN_BYTES \<and> length values = tokens * TOKEN_BYTES \<and> next = kh_frontier st + tokens
    \<and> next \<le> kh_max_context st \<and> next \<le> exact_from (kh_frontier st) + TAIL_CAPACITY
    \<and> next_records = record_tiles next \<and> next_records \<le> record_tiles (kh_frontier st) + 1"
proof -
  obtain safe where c: "length keys mod TOKEN_BYTES = 0" "length values = length keys" "tokens = length keys div TOKEN_BYTES"
    "checked_add (kh_frontier st) tokens = Some next" "next \<le> kh_max_context st" "next_records = record_tiles next"
    "record_tiles next \<le> record_count st + 1" and safe: "safe_chunk_tokens tokens st = Inr safe" "tokens \<le> safe"
    using assms(2) by (auto simp: append_checks_def Let_def bindr_eq_Inr ensure_eq_Inr ok_or_eq_Inr)
  note count = kvarn_rep_record_count [OF rep]
  have n: "next = kh_frontier st + tokens" using c(4) by (simp add: checked_add_eq_Some)
  have len: "length keys = tokens * TOKEN_BYTES" using c(1,3) by (metis add.right_neutral div_mult_mod_eq)
  have "tokens \<le> SINK_TOKENS + EXACT_SUFFIX + (record_count st + 1) * TILE_TOKENS - kh_frontier st" "0 < tokens"
    using safe by (auto simp: safe_chunk_tokens_def ensure_eq_Inr Let_def)
  then have "kh_frontier st + tokens \<le> SINK_TOKENS + EXACT_SUFFIX + (record_tiles (kh_frontier st) + 1) * TILE_TOKENS"
    unfolding count by linarith
  then have "next \<le> exact_from (kh_frontier st) + TAIL_CAPACITY" by (simp add: n exact_from_def TAIL_CAPACITY_def)
  with c(2,5,6,7) n len count show ?thesis by simp
qed

lemma same_capacity [simp]: "\<exists>capacity. st = st \<lparr> kh_capacity := capacity \<rparr>"
  by (rule exI [of _ "kh_capacity st"]) simp

text \<open>The store after a chunk: the same backing, maybe with more capacity, and the chunk written.\<close>

lemma kvarn_append_cases:
  assumes "kvarn_append encode reserve keys values st = (r, st')"
  shows "(case r of
      Inl _ \<Rightarrow> \<exists>capacity. st' = st \<lparr> kh_capacity := capacity \<rparr>
    | Inr _ \<Rightarrow> \<exists>tokens next next_records capacity record sk tk sv tv.
        append_checks keys values st = Inr (tokens, next, next_records)
        \<and> (if record_count st < next_records
           then encode (gather_tile (kh_frontier st) tokens (SINK_TOKENS + record_count st * TILE_TOKENS) (kh_tail_keys st) keys)
                  (gather_tile (kh_frontier st) tokens (SINK_TOKENS + record_count st * TILE_TOKENS) (kh_tail_values st) values)
                = Inr record \<and> length record = TILE_RECORD_BYTES
           else record = [])
        \<and> store_rows (kh_frontier st) tokens keys (kh_sink_keys st, kh_tail_keys st) = (sk, tk)
        \<and> store_rows (kh_frontier st) tokens values (kh_sink_values st, kh_tail_values st) = (sv, tv)
        \<and> st' = st \<lparr> kh_capacity := capacity, kh_sink_keys := sk, kh_tail_keys := tk, kh_sink_values := sv,
               kh_tail_values := tv, kh_records := kh_records st @ record, kh_frontier := next \<rparr>)"
proof (cases "append_checks keys values st")
  case (Inl e)
  with assms show ?thesis by (auto simp: kvarn_append_def m_bind_def)
next
  case (Inr a)
  obtain tokens nxt next_records where a: "a = (tokens, nxt, next_records)" by (cases a)
  show ?thesis
  proof (cases "record_growth_target next_records (kh_capacity st) (record_tiles (kh_max_context st))")
    case (Inl e)
    with assms Inr a show ?thesis by (auto simp: kvarn_append_def m_bind_def)
  next
    case target: (Inr target)
    let ?grow = "case target of None \<Rightarrow> m_return ()
       | Some target_bytes \<Rightarrow>
           m_bind (m_get (\<lambda>st. bindr (ok_or (checked_sub target_bytes (length (kh_records st)))
             ''KVarN record reservation is below the occupied length'') (\<lambda>_. reserve target_bytes))) (\<lambda>capacity.
           m_modify (\<lambda>st. st \<lparr> kh_capacity := capacity \<rparr>))"
    obtain g st1 where g: "?grow st = (g, st1)" by fastforce
    have st1: "\<exists>capacity. st1 = st \<lparr> kh_capacity := capacity \<rparr>"
      using g by (cases target) (auto simp: m_bind_def split: sum.splits)
    show ?thesis
    proof (cases g)
      case (Inl e)
      with assms \<open>append_checks keys values st = Inr a\<close> a target g st1 show ?thesis
        by (auto simp: kvarn_append_def m_bind_def)
    next
      case (Inr u)
      with assms \<open>append_checks keys values st = Inr a\<close> a target g st1 show ?thesis
        by (fastforce simp: kvarn_append_def m_bind_def Let_def record_count_def result_simps split: if_splits sum.splits prod.splits)
    qed
  qed
qed

section \<open>Properties\<close>

text \<open>C29: The host KV store is a refinement of the token history: if the sink, ring and records of a store represent a history,
  then appending a chunk either fails and leaves the represented state as it was, or moves the frontier by the chunk's tokens and
  represents the history extended by exactly the chunk's rows, every tile sealed on the way being encoded from the rows of its own
  128 tokens.\<close>

theorem kvarn_append_refines_history:
  assumes rep: "kvarn_rep encode hk hv st" and run: "kvarn_append encode reserve keys values st = (r, st')"
  shows "case r of
      Inl _ \<Rightarrow> (\<exists>capacity. st' = st \<lparr> kh_capacity := capacity \<rparr>) \<and> kvarn_rep encode hk hv st'
    | Inr _ \<Rightarrow> \<exists>tokens. length keys = tokens * TOKEN_BYTES \<and> length values = tokens * TOKEN_BYTES
        \<and> kh_frontier st' = kh_frontier st + tokens
        \<and> kvarn_rep encode (extend hk (kh_frontier st) tokens keys) (extend hv (kh_frontier st) tokens values) st'"
proof (cases r)
  case (Inl e)
  with kvarn_append_cases [OF run] rep show ?thesis by (auto simp: kvarn_rep_def)
next
  case (Inr u)
  let ?f = "kh_frontier st"
  obtain tokens nxt next_records capacity rec sk tk sv tv where
    ok: "append_checks keys values st = Inr (tokens, nxt, next_records)"
    and rec: "if record_count st < next_records
           then encode (gather_tile ?f tokens (SINK_TOKENS + record_count st * TILE_TOKENS) (kh_tail_keys st) keys)
                  (gather_tile ?f tokens (SINK_TOKENS + record_count st * TILE_TOKENS) (kh_tail_values st) values)
                = Inr rec \<and> length rec = TILE_RECORD_BYTES
           else rec = []"
    and k: "store_rows ?f tokens keys (kh_sink_keys st, kh_tail_keys st) = (sk, tk)"
    and v: "store_rows ?f tokens values (kh_sink_values st, kh_tail_values st) = (sv, tv)"
    and st': "st' = st \<lparr> kh_capacity := capacity, kh_sink_keys := sk, kh_tail_keys := tk, kh_sink_values := sv,
               kh_tail_values := tv, kh_records := kh_records st @ rec, kh_frontier := nxt \<rparr>"
    using kvarn_append_cases [OF run] Inr by auto
  note c = append_checks_Inr [OF rep ok] and count = kvarn_rep_record_count [OF rep]
  let ?hk = "extend hk ?f tokens keys" and ?hv = "extend hv ?f tokens values"
  from rep have hk: "holds hk ?f (kh_sink_keys st, kh_tail_keys st)" and hv: "holds hv ?f (kh_sink_values st, kh_tail_values st)"
    by (simp_all add: kvarn_rep_def)
  have w: "?f + tokens \<le> exact_from ?f + TAIL_CAPACITY" using c by simp
  obtain tiles where t: "kh_records st = concat tiles" "length tiles = record_tiles ?f"
    "\<forall>i<length tiles. length (tiles ! i) = TILE_RECORD_BYTES \<and> encode (tile_of hk i) (tile_of hv i) = Inr (tiles ! i)"
    using rep by (auto simp: kvarn_rep_def)
  let ?new = "if record_count st < next_records then [rec] else []"
  have "kh_records st' = concat (tiles @ ?new)" using st' t(1) rec by simp
  moreover have "length (tiles @ ?new) = record_tiles nxt"
    using c t(2) count record_tiles_bounds(1) [of ?f tokens] by (auto split: if_splits)
  moreover have "\<forall>i<length (tiles @ ?new). length ((tiles @ ?new) ! i) = TILE_RECORD_BYTES
      \<and> encode (tile_of ?hk i) (tile_of ?hv i) = Inr ((tiles @ ?new) ! i)"
  proof (intro allI impI)
    fix i assume i: "i < length (tiles @ ?new)"
    show "length ((tiles @ ?new) ! i) = TILE_RECORD_BYTES \<and> encode (tile_of ?hk i) (tile_of ?hv i) = Inr ((tiles @ ?new) ! i)"
    proof (cases "i < length tiles")
      case True
      with t tile_of_extend [of i ?f] show ?thesis by (simp add: nth_append)
    next
      case False
      with i have "i = record_tiles ?f" "record_count st < next_records" using t(2) by (auto split: if_splits)
      with rec t(2) gather_tile_of [OF hk, of tokens keys] gather_tile_of [OF hv, of tokens "values"] count show ?thesis
        by (simp add: nth_append)
    qed
  qed
  ultimately have "kvarn_rep encode ?hk ?hv st'"
    using store_rows_holds [OF hk _ w k] store_rows_holds [OF hv _ w v] c st'
    unfolding kvarn_rep_def by (intro conjI exI [of _ "tiles @ ?new"]) simp_all
  with c st' Inr show ?thesis by auto
qed

definition token_zeros :: "byte list" where
  "token_zeros = replicate TOKEN_BYTES 0"

definition fresh_store :: kvarn_host where
  "fresh_store = \<lparr> kh_max_context = 16, kh_frontier = 0, kh_records = [], kh_capacity = 0,
     kh_sink_keys = replicate SINK_BYTES 0, kh_sink_values = replicate SINK_BYTES 0,
     kh_tail_keys = replicate TAIL_BYTES 0, kh_tail_values = replicate TAIL_BYTES 0 \<rparr>"

lemma fresh_store_zero: "kvarn_zero 16 = Inr fresh_store"
  by (simp add: kvarn_zero_def fresh_store_def session_consts)

lemma fresh_store_rep: "kvarn_rep encode hk hv fresh_store"
  by (simp add: kvarn_rep_def holds_def fresh_store_def record_tiles_eq)

lemma record_growth_target_Inr:
  assumes "required \<le> maximum" "maximum \<le> 2048" "capacity < u64_limit"
  shows "\<exists>target. record_growth_target required capacity maximum = Inr target
    \<and> is_none_or (\<lambda>n. required * TILE_RECORD_BYTES \<le> n \<and> n \<le> maximum * TILE_RECORD_BYTES \<and> capacity < n) target"
proof -
  have t: "TILE_RECORD_BYTES = 70144" by (simp add: kvarn_consts)
  have r: "checked_mul required TILE_RECORD_BYTES = Some (required * TILE_RECORD_BYTES)"
    using assms(1,2) by (simp add: checked_mul_def u64_limit_def t)
  show ?thesis
  proof (cases "required * TILE_RECORD_BYTES \<le> capacity")
    case True
    with assms(1) r show ?thesis by (simp add: record_growth_target_def)
  next
    case False
    have d: "max (capacity div TILE_RECORD_BYTES) 1 * 2 < u64_limit"
      using assms(3) by (simp add: u64_limit_def t)
    let ?target = "max required (min (max (capacity div TILE_RECORD_BYTES) 1 * 2) maximum)"
    have b: "?target \<le> maximum" "required \<le> ?target" using assms(1) by simp_all
    then have m: "?target * TILE_RECORD_BYTES < u64_limit" using assms(2) by (simp add: u64_limit_def t)
    have "record_growth_target required capacity maximum = Inr (Some (?target * TILE_RECORD_BYTES))"
      using assms(1) r False d m by (simp add: record_growth_target_def checked_mul_def)
    moreover have "required * TILE_RECORD_BYTES \<le> ?target * TILE_RECORD_BYTES" "?target * TILE_RECORD_BYTES \<le> maximum * TILE_RECORD_BYTES"
      using b by (simp_all only: mult_le_mono1)
    moreover from this(1) False have "capacity < ?target * TILE_RECORD_BYTES" by linarith
    ultimately show ?thesis by (intro exI [of _ "Some (?target * TILE_RECORD_BYTES)"]) (simp only: is_none_or_simps simp_thms)
  qed
qed

text \<open>Splitting at \<open>safe_chunk_tokens\<close> is enough: a finite, complete chunk no wider than the safe width and inside the
  context is never refused, given that the encoder returns whole tiles and the allocator serves the reservation.\<close>

theorem safe_chunk_always_appends:
  assumes rep: "kvarn_rep encode hk hv st" and ctx: "kh_max_context st \<le> MAX_CONTEXT_TOKENS" "kh_capacity st < u64_limit"
    and chunk: "length keys = tokens * TOKEN_BYTES" "length values = tokens * TOKEN_BYTES" "0 < tokens"
    and fin: "finite_bf16 keys = Inr ()" "finite_bf16 values = Inr ()"
    and fits: "kh_frontier st + tokens \<le> kh_max_context st" "safe_chunk_tokens tokens st = Inr tokens"
    and enc: "\<forall>k v. \<exists>rec. encode k v = Inr rec \<and> length rec = TILE_RECORD_BYTES"
    and alloc: "\<forall>n \<le> record_tiles MAX_CONTEXT_TOKENS * TILE_RECORD_BYTES. \<exists>c. reserve n = Inr c"
  shows "fst (kvarn_append encode reserve keys values st) = Inr ()"
proof -
  let ?f = "kh_frontier st" and ?next = "kh_frontier st + tokens"
  note count = kvarn_rep_record_count [OF rep]
  have tb: "TOKEN_BYTES = 1024" by (simp add: kvarn_consts)
  have "?next \<le> SINK_TOKENS + EXACT_SUFFIX + (record_count st + 1) * TILE_TOKENS"
    using fits(2) chunk(3) by (simp add: safe_chunk_tokens_def Let_def)
  then have tiles: "record_tiles ?next \<le> record_count st + 1"
    unfolding record_tiles_eq by (simp add: kvarn_consts)
  have mx: "kh_max_context st \<le> 262144" using ctx(1) by (simp add: MAX_CONTEXT_TOKENS_def)
  have nonempty: "keys \<noteq> []" using chunk(1,3) tb by auto
  have checks: "append_checks keys values st = Inr (tokens, ?next, record_tiles ?next)"
    using chunk fin fits tiles mx nonempty by (auto simp: append_checks_def tb checked_add_def u64_limit_def Let_def)
  have mono: "record_tiles ?next \<le> record_tiles (kh_max_context st)" "record_tiles (kh_max_context st) \<le> record_tiles MAX_CONTEXT_TOKENS"
    using fits(1) ctx(1) record_tiles_mono by simp_all
  have le: "record_tiles MAX_CONTEXT_TOKENS \<le> 2048" by (simp add: record_tiles_eq MAX_CONTEXT_TOKENS_def)
  obtain target where target: "record_growth_target (record_tiles ?next) (kh_capacity st) (record_tiles (kh_max_context st)) = Inr target"
    and tb: "is_none_or (\<lambda>n. record_tiles ?next * TILE_RECORD_BYTES \<le> n
       \<and> n \<le> record_tiles (kh_max_context st) * TILE_RECORD_BYTES \<and> kh_capacity st < n) target"
    using record_growth_target_Inr [OF mono(1) order_trans [OF mono(2) le] ctx(2)] by auto
  have len: "length (kh_records st) \<le> record_tiles ?next * TILE_RECORD_BYTES"
  proof -
    obtain ts where ts: "kh_records st = concat ts" "length ts = record_tiles ?f"
      "\<forall>i<length ts. length (ts ! i) = TILE_RECORD_BYTES" using rep by (auto simp: kvarn_rep_def)
    then have "map length ts = replicate (length ts) TILE_RECORD_BYTES" by (intro nth_equalityI) simp_all
    then have "length (kh_records st) = record_tiles ?f * TILE_RECORD_BYTES"
      using ts(1,2) by (simp add: length_concat sum_list_replicate)
    with record_tiles_bounds(1) [of ?f tokens] show ?thesis by simp
  qed
  have grow: "\<exists>c. (case target of None \<Rightarrow> m_return ()
       | Some target_bytes \<Rightarrow>
           m_bind (m_get (\<lambda>st. bindr (ok_or (checked_sub target_bytes (length (kh_records st)))
             ''KVarN record reservation is below the occupied length'') (\<lambda>_. reserve target_bytes))) (\<lambda>capacity.
           m_modify (\<lambda>st. st \<lparr> kh_capacity := capacity \<rparr>))) st = (Inr (), st \<lparr> kh_capacity := c \<rparr>)"
  proof (cases target)
    case None
    then show ?thesis by (simp add: exI [of _ "kh_capacity st"])
  next
    case (Some n)
    with tb len have n: "length (kh_records st) \<le> n" "n \<le> record_tiles (kh_max_context st) * TILE_RECORD_BYTES" by auto
    then have "n \<le> record_tiles MAX_CONTEXT_TOKENS * TILE_RECORD_BYTES"
      using mult_le_mono1 [OF mono(2), of TILE_RECORD_BYTES] by linarith
    then obtain c where "reserve n = Inr c" using alloc by blast
    with Some n(1) show ?thesis by (auto simp: m_bind_def checked_sub_def)
  qed
  then obtain c where c: "(case target of None \<Rightarrow> m_return ()
       | Some target_bytes \<Rightarrow>
           m_bind (m_get (\<lambda>st. bindr (ok_or (checked_sub target_bytes (length (kh_records st)))
             ''KVarN record reservation is below the occupied length'') (\<lambda>_. reserve target_bytes))) (\<lambda>capacity.
           m_modify (\<lambda>st. st \<lparr> kh_capacity := capacity \<rparr>))) st = (Inr (), st \<lparr> kh_capacity := c \<rparr>)" ..
  obtain rec where "encode (gather_tile ?f tokens (SINK_TOKENS + record_count st * TILE_TOKENS) (kh_tail_keys st) keys)
      (gather_tile ?f tokens (SINK_TOKENS + record_count st * TILE_TOKENS) (kh_tail_values st) values) = Inr rec"
    "length rec = TILE_RECORD_BYTES" using enc by blast
  then show ?thesis
    by (simp add: kvarn_append_def m_bind_def checks target c record_count_def Let_def)
qed

definition sample_encode :: "byte list \<Rightarrow> byte list \<Rightarrow> byte list result" where
  "sample_encode k v = Inr (replicate TILE_RECORD_BYTES 0)"

lemma token_zeros_finite: "finite_bf16 token_zeros = Inr ()" "length token_zeros = 1 * TOKEN_BYTES"
  by (simp_all add: finite_bf16_def token_zeros_def kvarn_consts)

lemma safe_chunk_always_appends_witness:
  "fst (kvarn_append sample_encode Inr token_zeros token_zeros fresh_store) = Inr ()"
  by (rule safe_chunk_always_appends [OF fresh_store_rep [of sample_encode "\<lambda>_ _. []" "\<lambda>_ _. []"] _ _
      token_zeros_finite(2,2) _ token_zeros_finite(1,1)])
    (simp_all add: fresh_store_def session_consts u64_limit_def safe_chunk_tokens_def record_count_def kvarn_consts sample_encode_def)

lemma kvarn_append_refines_history_witness:
  "case kvarn_append sample_encode Inr token_zeros token_zeros fresh_store of
     (Inl _, _) \<Rightarrow> True
   | (Inr _, st') \<Rightarrow> \<exists>tokens. length token_zeros = tokens * TOKEN_BYTES \<and> kh_frontier st' = tokens"
  using kvarn_append_refines_history [OF fresh_store_rep [of sample_encode "\<lambda>_ _. []" "\<lambda>_ _. []"],
      of Inr token_zeros token_zeros]
  by (auto simp: fresh_store_def split: sum.splits prod.splits)

end
