(* ===== verification/Checkpoint_Wire.thy ===== *)
theory Checkpoint_Wire
  imports Session_Snapshot
begin

text \<open>
  The native checkpoint file (\<open>src/engine/snapshot/disk.rs\<close>, \<open>src/engine/snapshot/disk/stream.rs\<close>):
  its layout, header and sections, the writer that streams a committed session through one bounded
  staging buffer, and the reader that rebuilds a session from the file. SHA-256, the allocators and the
  success of file reads and writes are parameters. \<open>Invalid_Checkpoint\<close> is the error type the store uses
  to recognise a damaged file; every other error is a \<open>Failure\<close>.
\<close>

section \<open>Constants and errors\<close>

datatype ckpt_error = Invalid_Checkpoint string | Failure string

type_synonym 'a ckpt = "ckpt_error + 'a"

definition failing :: "'a result \<Rightarrow> 'a ckpt" where
  "failing r = (case r of Inl e \<Rightarrow> Inl (Failure e) | Inr x \<Rightarrow> Inr x)"

definition invalid_unless :: "bool \<Rightarrow> string \<Rightarrow> 'a ckpt \<Rightarrow> 'a ckpt" where
  "invalid_unless b msg k = ensure b (Invalid_Checkpoint msg) k"

definition ascii :: "string \<Rightarrow> byte list" where
  "ascii s = map of_char s"

definition MAGIC :: "byte list" where "MAGIC = ascii ''MOESP4NATIVECHK1''"
definition WIRE_VERSION :: nat where "WIRE_VERSION = 2"
definition HEADER_BYTES :: nat where "HEADER_BYTES = 120"
definition SECTION_HEADER_BYTES :: nat where "SECTION_HEADER_BYTES = 12"
definition TRAILER_BYTES :: nat where "TRAILER_BYTES = 32"
definition CHUNK_BYTES :: nat where "CHUNK_BYTES = 8192"
definition IO_BUFFER_BYTES :: nat where "IO_BUFFER_BYTES = 8388608"

definition TOKENS :: nat where "TOKENS = 1"
definition LOGITS :: nat where "LOGITS = 2"
definition PLE :: nat where "PLE = 3"
definition GDN_CONV :: nat where "GDN_CONV = 4"
definition GDN_RECURRENT :: nat where "GDN_RECURRENT = 5"
definition QSA_COMPRESSED :: nat where "QSA_COMPRESSED = 6"
definition QSA_PENDING :: nat where "QSA_PENDING = 7"
definition KVARN_RECORDS :: nat where "KVARN_RECORDS = 8"
definition KVARN_SINK_KEYS :: nat where "KVARN_SINK_KEYS = 9"
definition KVARN_SINK_VALUES :: nat where "KVARN_SINK_VALUES = 10"
definition KVARN_TAIL_KEYS :: nat where "KVARN_TAIL_KEYS = 11"
definition KVARN_TAIL_VALUES :: nat where "KVARN_TAIL_VALUES = 12"

lemmas wire_consts = WIRE_VERSION_def HEADER_BYTES_def SECTION_HEADER_BYTES_def TRAILER_BYTES_def
lemmas section_kinds = TOKENS_def LOGITS_def PLE_def GDN_CONV_def GDN_RECURRENT_def QSA_COMPRESSED_def QSA_PENDING_def
  KVARN_RECORDS_def KVARN_SINK_KEYS_def KVARN_SINK_VALUES_def KVARN_TAIL_KEYS_def KVARN_TAIL_VALUES_def

record disk_limits =
  max_file_bytes :: nat
  max_io_buffer_bytes :: nat

text \<open>The hash, whether a transfer that ends at an offset succeeds, and the two allocators.\<close>

record checkpoint_env =
  sha256 :: "byte list \<Rightarrow> byte list"
  io_write :: "nat \<Rightarrow> bool"
  io_read :: "nat \<Rightarrow> bool"
  reserve_exact :: "nat \<Rightarrow> nat result"
  metal_alloc :: "nat \<Rightarrow> byte list result"

section \<open>Identity of a checkpoint\<close>

definition hash_part :: "byte list \<Rightarrow> byte list" where
  "hash_part bs = le_bytes 8 (length bs) @ bs"

definition kind_byte :: "mixer_kind \<Rightarrow> byte" where
  "kind_byte k = (case k of Gdn \<Rightarrow> 1 | Qsa \<Rightarrow> 2)"

definition checkpoint_scope :: "checkpoint_env \<Rightarrow> host_engine \<Rightarrow> byte list \<times> byte list \<Rightarrow> byte list ckpt" where
  "checkpoint_scope env en identity =
     (let (manifest, assets) = identity in
      ensure (manifest = he_manifest en) (Failure ''tokenizer belongs to another package'')
      (Inr (sha256 env (concat (map hash_part
        ([ascii ''moespresso-native-qwen4-checkpoint-scope-v4'', manifest, assets, le_bytes 4 WIRE_VERSION,
          le_bytes 4 PRODUCER_VERSION, le_bytes 4 (he_eos en), le_bytes 4 (he_eps_bits en), le_bytes 8 (he_max_positions en)]
         @ map (\<lambda>k. [kind_byte k]) (he_layers en)))))))"

definition token_bytes :: "nat list \<Rightarrow> byte list" where
  "token_bytes tokens = concat (map (le_bytes 4) tokens)"

definition prefix_hash :: "checkpoint_env \<Rightarrow> nat list \<Rightarrow> byte list" where
  "prefix_hash env tokens = sha256 env (token_bytes tokens)"

section \<open>Layout\<close>

definition ckpt_add :: "nat \<Rightarrow> nat \<Rightarrow> nat result" where
  "ckpt_add l r = ok_or (checked_add l r) ''checkpoint byte count overflow''"

definition ckpt_bytes :: "nat \<Rightarrow> nat \<Rightarrow> nat result" where
  "ckpt_bytes count width = ok_or (checked_mul count width) ''checkpoint section size overflow''"

definition ring_payload_bytes :: "nat \<Rightarrow> nat \<times> nat" where
  "ring_payload_bytes frontier =
     (min frontier SINK_TOKENS * TOKEN_BYTES, min (frontier - SINK_TOKENS) TAIL_CAPACITY * TOKEN_BYTES)"

definition more_sections :: "nat \<Rightarrow> nat \<Rightarrow> nat result" where
  "more_sections sections n = ensure (sections + n < 2 ^ 32) ''checkpoint section count overflow'' (Inr (sections + n))"

definition layout_layer :: "nat list \<Rightarrow> nat \<times> nat \<Rightarrow> mixer_kind \<Rightarrow> (nat \<times> nat) result" where
  "layout_layer qsa_bytes acc kind =
     (case kind of
        Gdn \<Rightarrow> bindr (ckpt_add (fst acc) (GDN_CONV_BYTES + GDN_RECURRENT_BYTES)) (\<lambda>payload.
               bindr (more_sections (snd acc) 2) (\<lambda>sections. Inr (payload, sections)))
      | Qsa \<Rightarrow> bindr (try_fold ckpt_add (fst acc) qsa_bytes) (\<lambda>payload.
               bindr (more_sections (snd acc) 7) (\<lambda>sections. Inr (payload, sections))))"

definition expected_layout :: "host_engine \<Rightarrow> nat \<Rightarrow> nat \<Rightarrow> (nat \<times> nat \<times> nat) result" where
  "expected_layout en max_context frontier =
     ensure (0 < frontier \<and> frontier \<le> max_context \<and> frontier \<le> he_max_positions en)
       ''checkpoint frontier is empty or exceeds context''
     (bindr (ckpt_bytes frontier 4) (\<lambda>token_part. bindr (ckpt_bytes VOCAB 2) (\<lambda>logit_part.
      bindr (ckpt_add token_part logit_part) (\<lambda>payload0.
      bindr (ckpt_bytes PLE_WORDS 2) (\<lambda>ple_part. bindr (ckpt_add payload0 ple_part) (\<lambda>payload1.
      bindr (ckpt_bytes (record_tiles frontier) TILE_RECORD_BYTES) (\<lambda>record_part.
      bindr (ckpt_bytes (frontier div COMPRESS_RATIO * INDEX_WIDTH) 2) (\<lambda>compressed_part.
      bindr (ckpt_bytes (frontier mod COMPRESS_RATIO * INDEX_WIDTH) 2) (\<lambda>pending_part.
      let (sink, tail) = ring_payload_bytes frontier in
      bindr (try_fold (layout_layer [compressed_part, pending_part, record_part, sink, sink, tail, tail]) (payload1, 3)
        (he_layers en)) (\<lambda>(payload, sections).
      bindr (ok_or (checked_mul sections SECTION_HEADER_BYTES) ''checkpoint framing overflow'') (\<lambda>framing.
      bindr (ckpt_add HEADER_BYTES framing) (\<lambda>head_part.
      bindr (ckpt_add payload TRAILER_BYTES) (\<lambda>body_part.
      bindr (ckpt_add head_part body_part) (\<lambda>file_bytes.
      Inr (file_bytes, sections, payload)))))))))))))))"

definition header :: "checkpoint_env \<Rightarrow> byte list \<Rightarrow> nat list \<Rightarrow> host_engine \<Rightarrow> nat \<Rightarrow> nat \<Rightarrow> byte list ckpt" where
  "header env scope tokens en file_bytes sections =
     ensure (he_max_context en < 2 ^ 32) (Failure ''integer conversion'')
     (Inr (MAGIC @ le_bytes 4 WIRE_VERSION @ scope @ prefix_hash env tokens @ le_bytes 8 (length tokens)
       @ le_bytes 8 file_bytes @ le_bytes 4 sections @ replicate 4 0 @ le_bytes 4 (he_max_context en)
       @ le_bytes 4 PRODUCER_VERSION @ le_bytes 4 (he_eos en)))"

definition field :: "byte list \<Rightarrow> nat \<Rightarrow> nat \<Rightarrow> nat" where
  "field bs start width = le_value (take width (drop start bs))"

definition validate_header_geometry :: "byte list \<Rightarrow> nat \<Rightarrow> nat \<Rightarrow> nat \<Rightarrow> nat \<Rightarrow> unit ckpt" where
  "validate_header_geometry head file_bytes expected sections eos =
     invalid_unless (field head 92 8 = expected \<and> file_bytes = expected \<and> field head 100 4 = sections
         \<and> field head 104 4 = 0 \<and> field head 84 8 \<le> field head 108 4 \<and> field head 112 4 = PRODUCER_VERSION
         \<and> field head 116 4 = eos) ''checkpoint header geometry differs'' (Inr ())"

section \<open>Values and spans\<close>

text \<open>The staging buffer is its length; every use overwrites the bytes it then transfers.\<close>

definition staging_new :: "checkpoint_env \<Rightarrow> nat \<Rightarrow> nat ckpt" where
  "staging_new env limit =
     (let bytes = min limit IO_BUFFER_BYTES in
      ensure (TILE_RECORD_BYTES \<le> bytes) (Failure ''checkpoint I/O buffer is too small'')
      (bindr (failing (reserve_exact env bytes)) (\<lambda>capacity.
       ensure (capacity \<le> limit) (Failure ''checkpoint I/O allocation exceeds allowance'') (Inr bytes))))"

definition alignment :: "nat \<Rightarrow> nat" where
  "alignment kind = (if kind = KVARN_RECORDS then TILE_RECORD_BYTES else 4)"

definition staged_chunk :: "nat \<Rightarrow> nat \<Rightarrow> nat" where
  "staged_chunk staging kind = staging div alignment kind * alignment kind"

definition valid_values :: "nat \<Rightarrow> byte list \<Rightarrow> bool" where
  "valid_values kind bs =
     (if kind = KVARN_RECORDS then is_ok (finite_record_metadata bs)
      else if kind = GDN_RECURRENT then length bs mod 4 = 0 \<and> all_finite 4 f32_finite bs
      else length bs mod 2 = 0 \<and> all_finite 2 bf16_finite bs)"

definition validate_values :: "nat \<Rightarrow> byte list \<Rightarrow> unit ckpt" where
  "validate_values kind bs = invalid_unless (valid_values kind bs) ''checkpoint tensor contains invalid values'' (Inr ())"

text \<open>The physical ranges of a tensor that hold live rows.\<close>

definition spans :: "nat \<Rightarrow> nat \<Rightarrow> nat \<Rightarrow> (nat \<times> nat) list" where
  "spans frontier kind bytes =
     (case (if kind = KVARN_SINK_KEYS \<or> kind = KVARN_SINK_VALUES then Some (SINK_TOKENS, min frontier SINK_TOKENS)
            else if kind = KVARN_TAIL_KEYS \<or> kind = KVARN_TAIL_VALUES
              then Some (TAIL_CAPACITY, min (frontier - SINK_TOKENS) TAIL_CAPACITY)
            else None) of
        Some (stride, live) \<Rightarrow> map (\<lambda>head. (head * stride * HEAD_DIM * 2, live * HEAD_DIM * 2)) [0..<KV_HEADS]
      | None \<Rightarrow> [(0, bytes)])"

definition span_total :: "(nat \<times> nat) list \<Rightarrow> nat" where
  "span_total ss = sum_list (map snd ss)"

section \<open>Writing\<close>

record hash_writer =
  hw_out :: "byte list"
  hw_written :: nat

type_synonym 'a writing = "(ckpt_error, hash_writer, 'a) fallible"

definition w_write :: "checkpoint_env \<Rightarrow> byte list \<Rightarrow> unit writing" where
  "w_write env bs =
     m_bind (m_get (\<lambda>w. ensure (io_write env (length (hw_out w) + length bs)) (Failure ''write failed'')
       (failing (ckpt_add (hw_written w) (length bs))))) (\<lambda>written.
     m_modify (\<lambda>w. \<lparr> hw_out = hw_out w @ bs, hw_written = written \<rparr>))"

definition section_header :: "nat \<Rightarrow> nat \<Rightarrow> nat \<Rightarrow> byte list" where
  "section_header kind layer bytes = le_bytes 2 kind @ le_bytes 2 layer @ le_bytes 8 bytes"

definition w_section :: "checkpoint_env \<Rightarrow> nat \<Rightarrow> nat \<Rightarrow> nat \<Rightarrow> unit writing" where
  "w_section env kind layer bytes = w_write env (section_header kind layer bytes)"

definition words32 :: "checkpoint_env \<Rightarrow> nat list \<Rightarrow> unit writing" where
  "words32 env words = m_for (chunks (CHUNK_BYTES div 4) words) (\<lambda>block u. w_write env (token_bytes block)) ()"

definition u32_section :: "checkpoint_env \<Rightarrow> nat \<Rightarrow> nat \<Rightarrow> nat list \<Rightarrow> nat \<Rightarrow> unit writing" where
  "u32_section env kind layer words expected =
     m_bind (m_lift (failing (ckpt_bytes (length words) 4))) (\<lambda>n.
     m_bind (m_lift (ensure (n = expected) (Failure ''checkpoint source section shape differs'') (Inr ()))) (\<lambda>_.
     m_bind (w_section env kind layer expected) (\<lambda>_. words32 env words)))"

text \<open>One staged transfer, one span of a tensor, and the whole section.\<close>

definition write_chunk :: "checkpoint_env \<Rightarrow> nat \<Rightarrow> nat \<Rightarrow> buffer \<Rightarrow> nat \<Rightarrow> nat \<Rightarrow> nat \<Rightarrow> unit writing" where
  "write_chunk env staging kind buf start len offset =
     m_bind (m_lift (failing (read_bytes buf (start + offset) (min (len - offset) (staged_chunk staging kind))))) (\<lambda>scratch.
     m_bind (m_lift (validate_values kind scratch)) (\<lambda>_. w_write env scratch))"

definition write_span :: "checkpoint_env \<Rightarrow> nat \<Rightarrow> nat \<Rightarrow> buffer \<Rightarrow> nat \<times> nat \<Rightarrow> unit writing" where
  "write_span env staging kind buf span =
     (let (start, len) = span in
      m_bind (m_lift (ensure (start \<le> byte_len buf \<and> len \<le> byte_len buf - start)
        (Failure ''checkpoint source span exceeds tensor'') (Inr ()))) (\<lambda>_.
      m_for (step_by (staged_chunk staging kind) len) (\<lambda>offset _. write_chunk env staging kind buf start len offset) ()))"

definition write_buffer ::
    "checkpoint_env \<Rightarrow> nat \<Rightarrow> nat \<Rightarrow> nat \<Rightarrow> nat \<Rightarrow> buffer \<times> nat \<Rightarrow> unit writing" where
  "write_buffer env staging frontier kind layer source =
     (let (buf, bytes) = source; ss = spans frontier kind bytes in
      m_bind (w_section env kind layer (span_total ss)) (\<lambda>_.
      m_for ss (\<lambda>span _. write_span env staging kind buf span) ()))"

text \<open>The tensors of a layer in file order.\<close>

definition write_sources ::
    "checkpoint_env \<Rightarrow> nat \<Rightarrow> nat \<Rightarrow> nat \<Rightarrow> nat list \<Rightarrow> (buffer \<times> nat) list result \<Rightarrow> unit writing" where
  "write_sources env staging frontier index kinds sources =
     m_bind (m_lift (failing sources)) (\<lambda>ss.
     m_for (zip kinds ss) (\<lambda>(kind, source) _. write_buffer env staging frontier kind index source) ())"

definition INDEX_KINDS :: "nat list" where
  "INDEX_KINDS = [QSA_COMPRESSED, QSA_PENDING]"

definition KVARN_KINDS :: "nat list" where
  "KVARN_KINDS = [KVARN_RECORDS, KVARN_SINK_KEYS, KVARN_SINK_VALUES, KVARN_TAIL_KEYS, KVARN_TAIL_VALUES]"

definition write_layer :: "checkpoint_env \<Rightarrow> nat \<Rightarrow> nat \<Rightarrow> nat \<times> layer_state \<Rightarrow> unit writing" where
  "write_layer env staging frontier entry =
     (let (index, layer) = entry in
      m_bind (m_lift (ensure (index < 2 ^ 16) (Failure ''integer conversion'') (Inr ()))) (\<lambda>_.
      case layer of
        Gdn_State g \<Rightarrow> write_sources env staging frontier index [GDN_CONV, GDN_RECURRENT]
          (bindr (gdn_buffers g) (\<lambda>(conv, recurrent). Inr [(conv, GDN_CONV_BYTES), (recurrent, GDN_RECURRENT_BYTES)]))
      | Qsa_State i k \<Rightarrow>
          m_bind (write_sources env staging frontier index INDEX_KINDS (checkpoint_buffers i)) (\<lambda>_.
          write_sources env staging frontier index KVARN_KINDS (kvarn_buffers k))))"

definition write_session ::
    "checkpoint_env \<Rightarrow> host_engine \<Rightarrow> session \<Rightarrow> byte list \<Rightarrow> nat \<Rightarrow> nat \<Rightarrow> nat \<Rightarrow> unit writing" where
  "write_session env en s scope expected sections limit =
     m_bind (m_lift (failing (validate_snapshot_source en s))) (\<lambda>_.
     m_bind (m_lift (staging_new env limit)) (\<lambda>staging.
     m_bind (m_lift (header env scope (se_tokens s) en expected sections)) (\<lambda>head.
     m_bind (w_write env head) (\<lambda>_.
     m_bind (m_lift (failing (ckpt_bytes (se_frontier s) 4))) (\<lambda>n.
     m_bind (u32_section env TOKENS 0 (se_tokens s) n) (\<lambda>_.
     m_bind (write_buffer env staging (se_frontier s) LOGITS 0 (se_logits s, VOCAB * 2)) (\<lambda>_.
     m_bind (write_buffer env staging (se_frontier s) PLE 0 (ple_conv (se_ple s), PLE_WORDS * 2)) (\<lambda>_.
     m_bind (m_for (zip [0..<length (se_layers s)] (se_layers s)) (\<lambda>entry _. write_layer env staging (se_frontier s) entry) ()) (\<lambda>_.
     m_bind (m_get (\<lambda>w. ensure (hw_written w = expected - TRAILER_BYTES) (Failure ''checkpoint writer length differs'') (Inr ()))) (\<lambda>_.
     m_bind (m_get (\<lambda>w. ensure (io_write env (length (hw_out w) + 32)) (Failure ''write failed'') (Inr ()))) (\<lambda>_.
     m_modify (\<lambda>w. w \<lparr> hw_out := hw_out w @ sha256 env (hw_out w) \<rparr>))))))))))))"

section \<open>Reading\<close>

record hash_reader =
  hr_rest :: "byte list"
  hr_hashed :: "byte list"

type_synonym 'a reading = "(ckpt_error, hash_reader, 'a) fallible"

definition read_exact :: "checkpoint_env \<Rightarrow> nat \<Rightarrow> byte list reading" where
  "read_exact env n =
     m_bind (m_get (\<lambda>r. ensure (io_read env (length (hr_hashed r) + n) \<and> n \<le> length (hr_rest r)) (Failure ''read failed'')
       (Inr (take n (hr_rest r))))) (\<lambda>bs.
     m_bind (m_modify (\<lambda>r. r \<lparr> hr_rest := drop n (hr_rest r) \<rparr>)) (\<lambda>_. m_return bs))"

definition r_read :: "checkpoint_env \<Rightarrow> nat \<Rightarrow> byte list reading" where
  "r_read env n =
     m_bind (read_exact env n) (\<lambda>bs.
     m_bind (m_modify (\<lambda>r. r \<lparr> hr_hashed := hr_hashed r @ bs \<rparr>)) (\<lambda>_. m_return bs))"

definition r_section :: "checkpoint_env \<Rightarrow> nat \<Rightarrow> nat \<Rightarrow> nat \<Rightarrow> unit reading" where
  "r_section env kind layer bytes =
     m_bind (r_read env SECTION_HEADER_BYTES) (\<lambda>h.
     m_lift (invalid_unless (field h 0 2 = kind \<and> field h 2 2 = layer \<and> field h 4 8 = bytes)
       ''checkpoint section type, order or length differs'' (Inr ())))"

definition r_finish :: "checkpoint_env \<Rightarrow> unit reading" where
  "r_finish env =
     m_bind (read_exact env 32) (\<lambda>trailer.
     m_bind (m_get (\<lambda>r. invalid_unless (trailer = sha256 env (hr_hashed r)) ''checkpoint digest differs'' (Inr ()))) (\<lambda>_.
     m_get (\<lambda>r. ensure (io_read env (length (hr_hashed r) + 33)) (Failure ''read failed'')
       (invalid_unless (hr_rest r = []) ''checkpoint has trailing bytes'' (Inr ())))))"

definition zero_fill :: "nat \<Rightarrow> buffer \<Rightarrow> buffer result" where
  "zero_fill staging b =
     (let zero_bytes = min (byte_len b) staging in
      try_fold (\<lambda>b start. write_bytes start (replicate (min (byte_len b - start) zero_bytes) 0) b) b (step_by zero_bytes (byte_len b)))"

definition read_chunk :: "checkpoint_env \<Rightarrow> nat \<Rightarrow> nat \<Rightarrow> nat \<Rightarrow> nat \<Rightarrow> nat \<Rightarrow> buffer \<Rightarrow> buffer reading" where
  "read_chunk env staging kind start len offset b =
     m_bind (r_read env (min (len - offset) (staged_chunk staging kind))) (\<lambda>scratch.
     m_bind (m_lift (validate_values kind scratch)) (\<lambda>_.
     m_lift (failing (write_bytes (start + offset) scratch b))))"

definition read_span :: "checkpoint_env \<Rightarrow> nat \<Rightarrow> nat \<Rightarrow> nat \<times> nat \<Rightarrow> buffer \<Rightarrow> buffer reading" where
  "read_span env staging kind span b =
     (let (start, len) = span in
      m_bind (m_lift (ensure (start \<le> byte_len b \<and> len \<le> byte_len b - start)
        (Failure ''checkpoint target span exceeds tensor'') (Inr ()))) (\<lambda>_.
      m_for (step_by (staged_chunk staging kind) len) (read_chunk env staging kind start len) b))"

definition read_buffer ::
    "checkpoint_env \<Rightarrow> nat \<Rightarrow> nat \<Rightarrow> nat \<Rightarrow> nat \<Rightarrow> nat \<Rightarrow> nat \<Rightarrow> buffer reading" where
  "read_buffer env staging frontier kind layer bytes allocation =
     (let ss = spans frontier kind bytes in
      m_bind (r_section env kind layer (span_total ss)) (\<lambda>_.
      m_bind (m_lift (failing (shared_buffer (metal_alloc env) (max allocation 2)))) (\<lambda>b.
      m_bind (m_lift (failing (if span_total ss < byte_len b then zero_fill staging b else Inr b))) (\<lambda>b.
      m_for ss (read_span env staging kind) b))))"

definition read_tokens :: "checkpoint_env \<Rightarrow> nat \<Rightarrow> nat \<Rightarrow> nat list \<Rightarrow> nat list reading" where
  "read_tokens env staging frontier requested =
     m_for (step_by (staging div 4) frontier) (\<lambda>offset consumed.
       m_bind (r_read env (min (frontier - offset) (staging div 4) * 4)) (\<lambda>bs.
       m_for (zip (as_chunks 4 bs) (drop offset requested)) (\<lambda>(word, expected) consumed.
         m_lift (invalid_unless (le_value word < VOCAB \<and> le_value word = expected) ''checkpoint token lineage differs''
           (Inr (consumed @ [le_value word])))) consumed)) []"

definition read_layer :: "checkpoint_env \<Rightarrow> host_engine \<Rightarrow> nat \<Rightarrow> nat \<Rightarrow> nat \<times> mixer_kind \<Rightarrow> layer_state reading" where
  "read_layer env en staging frontier entry =
     (let (index, kind) = entry;
          compressed = frontier div COMPRESS_RATIO * INDEX_WIDTH * 2;
          pending = frontier mod COMPRESS_RATIO * INDEX_WIDTH * 2;
          records = record_tiles frontier * TILE_RECORD_BYTES;
          read = read_buffer env staging frontier in
      m_bind (m_lift (ensure (index < 2 ^ 16) (Failure ''integer conversion'') (Inr ()))) (\<lambda>_.
      case kind of
        Gdn \<Rightarrow>
          m_bind (read GDN_CONV index GDN_CONV_BYTES GDN_CONV_BYTES) (\<lambda>conv.
          m_bind (read GDN_RECURRENT index GDN_RECURRENT_BYTES GDN_RECURRENT_BYTES) (\<lambda>recurrent.
          m_lift (failing (bindr (gdn_from_buffers conv recurrent frontier) (\<lambda>g. Inr (Gdn_State g))))))
      | Qsa \<Rightarrow>
          m_bind (read QSA_COMPRESSED index compressed (max compressed (INDEX_WIDTH * 2))) (\<lambda>c.
          m_bind (read QSA_PENDING index pending (COMPRESS_RATIO * INDEX_WIDTH * 2)) (\<lambda>p.
          m_bind (m_lift (failing (qsa_from_buffers frontier c p (he_max_context en)))) (\<lambda>i.
          m_bind (read KVARN_RECORDS index records (max records 2)) (\<lambda>r.
          m_bind (read KVARN_SINK_KEYS index SINK_BYTES SINK_BYTES) (\<lambda>sk.
          m_bind (read KVARN_SINK_VALUES index SINK_BYTES SINK_BYTES) (\<lambda>sv.
          m_bind (read KVARN_TAIL_KEYS index TAIL_BYTES TAIL_BYTES) (\<lambda>tk.
          m_bind (read KVARN_TAIL_VALUES index TAIL_BYTES TAIL_BYTES) (\<lambda>tv.
          m_lift (failing (bindr (kvarn_from_buffers (he_max_context en) frontier r sk sv tk tv) (\<lambda>k.
            Inr (Qsa_State i k))))))))))))))"

definition read_layers :: "checkpoint_env \<Rightarrow> host_engine \<Rightarrow> nat \<Rightarrow> nat \<Rightarrow> layer_state list reading" where
  "read_layers env en staging frontier =
     m_for (zip [0..<length (he_layers en)] (he_layers en)) (\<lambda>entry layers.
       m_bind (read_layer env en staging frontier entry) (\<lambda>layer. m_return (layers @ [layer]))) []"

text \<open>The body of a file whose header names this prefix.\<close>

definition read_body :: "checkpoint_env \<Rightarrow> host_engine \<Rightarrow> nat list \<Rightarrow> disk_limits \<Rightarrow> nat \<Rightarrow> session reading" where
  "read_body env en requested limits frontier =
     m_bind (m_lift (staging_new env (max_io_buffer_bytes limits))) (\<lambda>staging.
     m_bind (m_lift (failing (ckpt_bytes frontier 4))) (\<lambda>n.
     m_bind (r_section env TOKENS 0 n) (\<lambda>_.
     m_bind (m_lift (failing (reserve_exact env (frontier * 4)))) (\<lambda>_.
     m_bind (read_tokens env staging frontier requested) (\<lambda>consumed.
     m_bind (read_buffer env staging frontier LOGITS 0 (VOCAB * 2) (VOCAB * 2)) (\<lambda>logits.
     m_bind (read_buffer env staging frontier PLE 0 (PLE_WORDS * 2) (PLE_WORDS * 2)) (\<lambda>ple_buffer.
     m_bind (m_lift (failing (ple_from_buffer ple_buffer consumed (he_eos en)))) (\<lambda>ple.
     m_bind (read_layers env en staging frontier) (\<lambda>layers.
     m_bind (r_finish env) (\<lambda>_.
     let s = \<lparr> se_owner = he_identity en, se_cache_origin = he_cache_identity en, se_frontier = frontier, se_valid = True,
               se_layers = layers, se_ple = ple, se_eos = he_eos en, se_tokens = consumed, se_logits = logits,
               se_last_logits = None, se_spans = [Span_Restored frontier] \<rparr> in
     m_bind (m_lift (failing (validate_snapshot_source en s))) (\<lambda>_. m_return s)))))))))))"

definition read_session ::
    "checkpoint_env \<Rightarrow> host_engine \<Rightarrow> byte list \<Rightarrow> nat list \<Rightarrow> disk_limits \<Rightarrow> byte list \<Rightarrow> session option ckpt" where
  "read_session env en scope requested limits file =
     invalid_unless (HEADER_BYTES + TRAILER_BYTES \<le> length file \<and> length file \<le> max_file_bytes limits)
       ''checkpoint file size is outside admission''
     (fst (m_bind (r_read env HEADER_BYTES) (\<lambda>head.
       m_bind (m_lift (invalid_unless (take 16 head = MAGIC \<and> field head 16 4 = WIRE_VERSION)
         ''checkpoint wire version differs'' (Inr ()))) (\<lambda>_.
       if take 32 (drop 20 head) \<noteq> scope then m_return None
       else let frontier = field head 84 8 in
         m_bind (m_lift (failing (expected_layout en (he_max_context en) frontier))) (\<lambda>(expected, sections, _).
         m_bind (m_lift (validate_header_geometry head (length file) expected sections (he_eos en))) (\<lambda>_.
         if length requested < frontier \<or> take 32 (drop 52 head) \<noteq> prefix_hash env (take frontier requested) then m_return None
         else m_bind (read_body env en requested limits frontier) (\<lambda>s. m_return (Some s))))))
       \<lparr> hr_rest = file, hr_hashed = [] \<rparr>))"

end
