(* ===== verification/Checkpoint_Roundtrip.thy ===== *)
theory Checkpoint_Roundtrip
  imports Checkpoint_Wire
begin

text \<open>
  What the checkpoint writer leaves in the file and what the reader makes of it: each tensor section is
  described by the live bytes of its buffer, and the loops of both sides are shown to transfer exactly those.
\<close>

section \<open>Loops with state\<close>

definition stepped :: "('b \<Rightarrow> 'a \<Rightarrow> ('e, 's, 'a) fallible) \<Rightarrow> 'a \<times> 's \<Rightarrow> 'b \<Rightarrow> 'e + 'a \<times> 's" where
  "stepped body as x = (case body x (fst as) (snd as) of (Inl e, _) \<Rightarrow> Inl e | (Inr a, s) \<Rightarrow> Inr (a, s))"

lemma stepped_Inr: "stepped body as x = Inr bt \<longleftrightarrow> body x (fst as) (snd as) = (Inr (fst bt), snd bt)"
  by (auto simp: stepped_def split: prod.splits sum.splits)

lemma m_for_Inr: "m_for xs body a s = (Inr r, t) \<longleftrightarrow> try_fold (stepped body) (a, s) xs = Inr (r, t)"
proof (induction xs arbitrary: a s)
  case (Cons x xs)
  show ?case
  proof (cases "body x a s")
    case (Pair q s')
    with Cons.IH show ?thesis by (cases q) (simp_all add: stepped_def)
  qed
qed auto

lemma m_for_steps:
  assumes "m_for (step_by n len) body a s = (Inr r, t)" "0 < n" "P 0 a s"
    and "\<And>start a s a' s'. start < len \<Longrightarrow> P start a s \<Longrightarrow> body start a s = (Inr a', s') \<Longrightarrow> P (min (start + n) len) a' s'"
  shows "P len r t"
proof -
  have "case (r, t) of (r, t) \<Rightarrow> P len r t"
    by (rule step_by_fold_Inr [where P = "\<lambda>p as. case as of (a, s) \<Rightarrow> P p a s", OF assms(1) [unfolded m_for_Inr] assms(2)])
      (use assms(3,4) in \<open>auto simp: stepped_Inr\<close>)
  then show ?thesis by simp
qed

lemma m_for_steps_total:
  assumes "0 < n" "P 0 a s"
    and "\<And>start a s. start < len \<Longrightarrow> P start a s \<Longrightarrow> \<exists>a' s'. body start a s = (Inr a', s') \<and> P (min (start + n) len) a' s'"
  shows "\<exists>r t. m_for (step_by n len) body a s = (Inr r, t) \<and> P len r t"
proof -
  have "\<exists>rt. try_fold (stepped body) (a, s) (step_by n len) = Inr rt \<and> (case rt of (r, t) \<Rightarrow> P len r t)"
  proof (rule step_by_fold_total [where P = "\<lambda>p as. case as of (a, s) \<Rightarrow> P p a s", OF assms(1)])
    fix start as assume "start < len" "case as of (a, s) \<Rightarrow> P start a s"
    then obtain a s where as: "as = (a, s)" "P start a s" by (cases as) auto
    from assms(3) [OF \<open>start < len\<close> as(2)] obtain a' s' where "body start a s = (Inr a', s')" "P (min (start + n) len) a' s'" by blast
    with as(1) show "\<exists>as'. stepped body as start = Inr as' \<and> (case as' of (a, s) \<Rightarrow> P (min (start + n) len) a s)"
      by (intro exI [of _ "(a', s')"]) (simp add: stepped_Inr)
  qed (use assms(2) in simp)
  then show ?thesis by (auto simp: m_for_Inr)
qed

text \<open>A loop over a list whose elements are handled one after the other.\<close>

lemma m_for_Cons_Inr [result_simps]:
  "m_for (x # xs) body a s = (Inr r, t) \<longleftrightarrow> (\<exists>b u. body x a s = (Inr b, u) \<and> m_for xs body b u = (Inr r, t))"
  "m_for [] body a s = (Inr r, t) \<longleftrightarrow> r = a \<and> t = s"
  by (auto simp: m_bind_eq_Inr)

section \<open>Valid values in pieces\<close>

lemma failing_simps [simp]: "failing (Inl e) = Inl (Failure e)" "failing (Inr x) = Inr x"
  by (simp_all add: failing_def)

lemma failing_Inr [result_simps]: "failing r = Inr x \<longleftrightarrow> r = Inr x"
  by (cases r) simp_all

lemma invalid_unless_Inr [result_simps]: "invalid_unless b msg k = Inr x \<longleftrightarrow> b \<and> k = Inr x"
  by (simp add: invalid_unless_def ensure_eq_Inr)

definition record_head_ok :: "byte list \<Rightarrow> bool" where
  "record_head_ok head \<longleftrightarrow>
     all_finite 2 f16_finite (take (K_TOKEN_SCALE + TILE_TOKENS * 2 - K_SCALE) (drop K_SCALE head))
     \<and> all_finite 2 f16_finite (take (HEAD_RECORD_BYTES - V_CHANNEL_SCALE) (drop V_CHANNEL_SCALE head))"

lemma try_fold_unit: "is_ok (try_fold f u xs) \<longleftrightarrow> (\<forall>x\<in>set xs. is_ok (f () x))" for u :: unit
  by (induction xs) (auto simp: is_ok_iff bindr_eq_Inr)

lemma finite_record_metadata_ok:
  "is_ok (finite_record_metadata bs) \<longleftrightarrow> length bs mod TILE_RECORD_BYTES = 0 \<and> (\<forall>head\<in>set (as_chunks HEAD_RECORD_BYTES bs). record_head_ok head)"
proof (cases "length bs mod TILE_RECORD_BYTES = 0")
  case True
  let ?f = "\<lambda>(u::unit) head. try_fold (\<lambda>u (first, last).
        ensure (all_finite 2 f16_finite (take (last - first) (drop first head)))
          ''KVarN record metadata contains nonfinite FP16 values'' (Inr ())) u
        [(K_SCALE, K_TOKEN_SCALE + TILE_TOKENS * 2), (V_CHANNEL_SCALE, HEAD_RECORD_BYTES)]"
  have f: "is_ok (?f () head) = record_head_ok head" for head
    by (auto simp: record_head_ok_def is_ok_iff bindr_eq_Inr ensure_eq_Inr)
  have "finite_record_metadata bs = try_fold ?f () (as_chunks HEAD_RECORD_BYTES bs)"
    by (simp only: finite_record_metadata_def True ensure_simps simp_thms)
  then have "is_ok (finite_record_metadata bs) = (\<forall>head\<in>set (as_chunks HEAD_RECORD_BYTES bs). is_ok (?f () head))"
    using try_fold_unit [of ?f "()"] by (simp only:)
  with True f show ?thesis by (simp only: simp_thms)
qed (simp add: finite_record_metadata_def)

lemma alignment_pos: "0 < alignment kind"
  by (simp add: alignment_def kvarn_consts)

lemma valid_values_append:
  assumes "length xs mod alignment kind = 0"
  shows "valid_values kind (xs @ ys) \<longleftrightarrow> valid_values kind xs \<and> valid_values kind ys"
proof (cases "kind = KVARN_RECORDS")
  case True
  then have m: "length xs mod TILE_RECORD_BYTES = 0" using assms by (simp add: alignment_def)
  have "HEAD_RECORD_BYTES dvd TILE_RECORD_BYTES" by (simp add: TILE_RECORD_BYTES_def)
  then have "length xs mod HEAD_RECORD_BYTES = 0" using m by (metis dvd_trans mod_0_imp_dvd mod_eq_0_iff_dvd)
  moreover have "0 < HEAD_RECORD_BYTES" by (simp add: HEAD_RECORD_BYTES_def)
  moreover have "length (xs @ ys) mod TILE_RECORD_BYTES = length ys mod TILE_RECORD_BYTES"
    using m by (metis add.left_neutral length_append mod_add_left_eq)
  ultimately show ?thesis using m True
    by (auto simp: valid_values_def finite_record_metadata_ok as_chunks_append)
next
  case False
  then have 4: "length xs mod 4 = 0" using assms by (simp add: alignment_def)
  then have 2: "length xs mod 2 = 0" using mod_mod_cancel [of 2 4 "length xs"] by simp
  have "(length xs + length ys) mod 4 = length ys mod 4" "(length xs + length ys) mod 2 = length ys mod 2"
    using 4 2 by (metis add.left_neutral mod_add_left_eq)+
  with 4 2 False show ?thesis by (auto simp: valid_values_def all_finite_append)
qed

lemma valid_values_Nil [simp]: "valid_values kind []"
  by (simp add: valid_values_def finite_record_metadata_ok all_finite_def as_chunks_def)

lemma valid_values_take_drop:
  assumes "valid_values kind xs" "k mod alignment kind = 0"
  shows "valid_values kind (take k xs)" "valid_values kind (drop k xs)"
proof -
  have "valid_values kind (take k xs) \<and> valid_values kind (drop k xs)"
  proof (cases "k \<le> length xs")
    case True
    then have "length (take k xs) mod alignment kind = 0" using assms(2) by (simp add: min_absorb2)
    from valid_values_append [OF this, of "drop k xs"] assms(1) show ?thesis by simp
  qed (use assms in simp)
  then show "valid_values kind (take k xs)" "valid_values kind (drop k xs)" by simp_all
qed

lemma staged_chunk_props:
  assumes "TILE_RECORD_BYTES \<le> staging"
  shows "0 < staged_chunk staging kind" "staged_chunk staging kind mod alignment kind = 0"
proof -
  have "alignment kind \<le> staging" using assms by (auto simp: alignment_def kvarn_consts)
  then have "0 < staging div alignment kind" using alignment_pos by (simp add: div_greater_zero_iff)
  then show "0 < staged_chunk staging kind" using alignment_pos by (simp add: staged_chunk_def)
  show "staged_chunk staging kind mod alignment kind = 0" by (simp add: staged_chunk_def)
qed

text \<open>The position of a loop over the chunks of a span: aligned until the end.\<close>

lemma chunk_position:
  fixes p n len a :: nat
  assumes "p < len \<longrightarrow> p mod a = 0" "n mod a = 0" "p < len"
  shows "min (p + n) len < len \<longrightarrow> min (p + n) len mod a = 0"
proof
  assume "min (p + n) len < len"
  then have "min (p + n) len = p + n" by (cases "p + n \<le> len") simp_all
  moreover have "(p + n) mod a = 0" using assms mod_add_eq [of p a n] by simp
  ultimately show "min (p + n) len mod a = 0" by simp
qed

section \<open>Writing\<close>

lemma w_write_Inr [result_simps]:
  "w_write env bs w = (Inr u, w') \<longleftrightarrow> io_write env (length (hw_out w) + length bs)
     \<and> hw_written w + length bs < u64_limit \<and> w' = \<lparr> hw_out = hw_out w @ bs, hw_written = hw_written w + length bs \<rparr>"
  by (auto simp: w_write_def m_bind_eq_Inr ensure_eq_Inr failing_Inr ckpt_add_def ok_or_eq_Inr checked_add_eq_Some)

definition live_bytes :: "nat \<Rightarrow> nat \<Rightarrow> buffer \<times> nat \<Rightarrow> byte list" where
  "live_bytes frontier kind source =
     concat (map (\<lambda>(start, len). take len (drop start (buf_bytes (fst source)))) (spans frontier kind (snd source)))"

text \<open>The spans of a source lie in its buffer and hold valid values.\<close>

definition source_ok :: "nat \<Rightarrow> nat \<Rightarrow> buffer \<times> nat \<Rightarrow> bool" where
  "source_ok frontier kind source \<longleftrightarrow>
     (\<forall>(start, len)\<in>set (spans frontier kind (snd source)). start + len \<le> byte_len (fst source)
        \<and> valid_values kind (take len (drop start (buf_bytes (fst source)))))"

definition section_bytes :: "nat \<Rightarrow> nat \<Rightarrow> byte list \<Rightarrow> byte list" where
  "section_bytes kind layer payload = section_header kind layer (length payload) @ payload"

lemma length_section_header [simp]: "length (section_header kind layer n) = 12"
  by (simp add: section_header_def)

definition appended :: "byte list \<Rightarrow> hash_writer \<Rightarrow> hash_writer \<Rightarrow> bool" where
  "appended bs w w' \<longleftrightarrow> hw_out w' = hw_out w @ bs \<and> hw_written w' = hw_written w + length bs"

lemma appended_trans: "appended xs w1 w2 \<Longrightarrow> appended ys w2 w3 \<Longrightarrow> appended (xs @ ys) w1 w3"
  by (simp add: appended_def)

lemma w_write_appended: "w_write env bs w = (Inr u, w') \<Longrightarrow> appended bs w w'"
  by (simp add: w_write_Inr appended_def)

lemma write_chunk_Inr:
  "write_chunk env staging kind buf start len p w = (Inr u, w') \<Longrightarrow>
     appended (take (min (staged_chunk staging kind) (len - p)) (drop p (drop start (buf_bytes buf)))) w w'
     \<and> valid_values kind (take (min (staged_chunk staging kind) (len - p)) (drop p (drop start (buf_bytes buf))))"
  by (auto simp: write_chunk_def m_bind_eq_Inr failing_Inr read_bytes_eq validate_values_def invalid_unless_Inr w_write_appended
      min.commute add.commute)

lemma write_chunks:
  assumes run: "m_for (step_by (staged_chunk staging kind) len) (\<lambda>offset _. write_chunk env staging kind buf start len offset) () w
      = (Inr u, w')"
    and st: "TILE_RECORD_BYTES \<le> staging" and fit: "start + len \<le> byte_len buf"
  shows "appended (take len (drop start (buf_bytes buf))) w w' \<and> valid_values kind (take len (drop start (buf_bytes buf)))"
proof -
  let ?n = "staged_chunk staging kind" and ?xs = "drop start (buf_bytes buf)"
  note n = staged_chunk_props [OF st, of kind]
  have "appended (take len ?xs) w w' \<and> valid_values kind (take len ?xs) \<and> (len < len \<longrightarrow> len mod alignment kind = 0)"
  proof (rule m_for_steps [OF run n(1), where P = "\<lambda>p _ s. appended (take p ?xs) w s \<and> valid_values kind (take p ?xs)
        \<and> (p < len \<longrightarrow> p mod alignment kind = 0)"])
    fix p :: nat and a s and a' :: unit and s'
    assume p: "p < len" and P: "appended (take p ?xs) w s \<and> valid_values kind (take p ?xs) \<and> (p < len \<longrightarrow> p mod alignment kind = 0)"
      and step: "write_chunk env staging kind buf start len p s = (Inr a', s')"
    let ?c = "take (min ?n (len - p)) (drop p ?xs)"
    note c = write_chunk_Inr [OF step]
    have t: "take (min (p + ?n) len) ?xs = take p ?xs @ ?c" by (rule take_min_step [OF p])
    have "length (take p ?xs) = p" using fit p by (simp add: byte_len_def)
    then have "valid_values kind (take (min (p + ?n) len) ?xs)"
      unfolding t using valid_values_append [of "take p ?xs" kind ?c] P p c by simp
    moreover have "appended (take (min (p + ?n) len) ?xs) w s'"
      unfolding t using appended_trans c P by blast
    ultimately show "appended (take (min (p + ?n) len) ?xs) w s' \<and> valid_values kind (take (min (p + ?n) len) ?xs)
        \<and> (min (p + ?n) len < len \<longrightarrow> min (p + ?n) len mod alignment kind = 0)"
      using chunk_position [OF _ n(2) p] P by blast
  qed (simp_all add: appended_def)
  then show ?thesis by simp
qed

lemma write_span_Inr:
  assumes "write_span env staging kind buf (start, len) w = (Inr u, w')" "TILE_RECORD_BYTES \<le> staging"
  shows "appended (take len (drop start (buf_bytes buf))) w w' \<and> start + len \<le> byte_len buf
    \<and> valid_values kind (take len (drop start (buf_bytes buf)))"
proof -
  have fit: "start + len \<le> byte_len buf"
    using assms(1) by (auto simp: write_span_def m_bind_eq_Inr ensure_eq_Inr)
  have "m_for (step_by (staged_chunk staging kind) len) (\<lambda>offset _. write_chunk env staging kind buf start len offset) () w
      = (Inr u, w')"
    using assms(1) by (auto simp: write_span_def m_bind_eq_Inr ensure_eq_Inr)
  from write_chunks [OF this assms(2) fit] fit show ?thesis by simp
qed

lemma write_spans_Inr:
  assumes "m_for ss (\<lambda>span _. write_span env staging kind buf span) () w = (Inr u, w')" and st: "TILE_RECORD_BYTES \<le> staging"
  shows "appended (concat (map (\<lambda>(start, len). take len (drop start (buf_bytes buf))) ss)) w w'
    \<and> (\<forall>(start, len)\<in>set ss. start + len \<le> byte_len buf \<and> valid_values kind (take len (drop start (buf_bytes buf))))"
  using assms(1)
proof (induction ss arbitrary: w)
  case (Cons span ss)
  obtain start len where span: "span = (start, len)" by fastforce
  from Cons.prems obtain w1 where one: "write_span env staging kind buf (start, len) w = (Inr (), w1)"
    and rest: "m_for ss (\<lambda>span _. write_span env staging kind buf span) () w1 = (Inr u, w')"
    unfolding span m_for_Cons_Inr by auto
  from write_span_Inr [OF one st] Cons.IH [OF rest] span show ?case
    using appended_trans by fastforce
qed (simp add: appended_def)

lemma length_live:
  "\<forall>(start, len)\<in>set ss. start + len \<le> length bs \<Longrightarrow>
     length (concat (map (\<lambda>(start, len). take len (drop start bs)) ss)) = span_total ss"
  by (induction ss) (auto simp: span_total_def min_absorb2)

lemma source_ok_length: "source_ok frontier kind source \<Longrightarrow> length (live_bytes frontier kind source) = span_total (spans frontier kind (snd source))"
  unfolding live_bytes_def by (rule length_live) (auto simp: source_ok_def byte_len_def)

lemma write_buffer_Inr:
  assumes "write_buffer env staging frontier kind layer source w = (Inr u, w')" and "TILE_RECORD_BYTES \<le> staging"
  shows "appended (section_bytes kind layer (live_bytes frontier kind source)) w w' \<and> source_ok frontier kind source"
proof -
  obtain buf bytes where source: "source = (buf, bytes)" by fastforce
  let ?ss = "spans frontier kind bytes"
  obtain w1 where w1: "appended (section_header kind layer (span_total ?ss)) w w1"
    and run: "m_for ?ss (\<lambda>span _. write_span env staging kind buf span) () w1 = (Inr u, w')"
    using assms(1) by (auto simp: write_buffer_def source Let_def m_bind_eq_Inr w_section_def dest: w_write_appended)
  note w2 = write_spans_Inr [OF run assms(2)]
  then have ok: "source_ok frontier kind source" by (auto simp: source_ok_def source)
  have live: "live_bytes frontier kind source = concat (map (\<lambda>(start, len). take len (drop start (buf_bytes buf))) ?ss)"
    by (simp add: live_bytes_def source)
  from appended_trans [OF w1 conjunct1 [OF w2]] source_ok_length [OF ok] ok show ?thesis
    unfolding section_bytes_def live [symmetric] by (simp add: source)
qed

section \<open>Reading\<close>

definition consumes :: "byte list \<Rightarrow> hash_reader \<Rightarrow> hash_reader \<Rightarrow> bool" where
  "consumes bs r r' \<longleftrightarrow> hr_rest r = bs @ hr_rest r' \<and> hr_hashed r' = hr_hashed r @ bs"

lemma consumes_trans: "consumes xs r1 r2 \<Longrightarrow> consumes ys r2 r3 \<Longrightarrow> consumes (xs @ ys) r1 r3"
  by (simp add: consumes_def)

lemma consumes_Nil [simp]: "consumes [] r r"
  by (simp add: consumes_def)

lemma r_read_Inr [result_simps]:
  "r_read env n r = (Inr bs, r') \<longleftrightarrow> io_read env (length (hr_hashed r) + n) \<and> consumes bs r r' \<and> length bs = n"
proof
  assume "r_read env n r = (Inr bs, r')"
  then show "io_read env (length (hr_hashed r) + n) \<and> consumes bs r r' \<and> length bs = n"
    by (auto simp: r_read_def read_exact_def m_bind_eq_Inr ensure_eq_Inr consumes_def)
next
  assume "io_read env (length (hr_hashed r) + n) \<and> consumes bs r r' \<and> length bs = n"
  then show "r_read env n r = (Inr bs, r')"
    by (cases r, cases r') (auto simp: r_read_def read_exact_def m_bind_def consumes_def)
qed

lemma r_read_total:
  assumes "\<forall>n. io_read env n" "hr_rest r = bs @ later" "length bs = n"
  shows "\<exists>r'. r_read env n r = (Inr bs, r') \<and> consumes bs r r' \<and> hr_rest r' = later"
  using assms by (intro exI [of _ "\<lparr> hr_rest = later, hr_hashed = hr_hashed r @ bs \<rparr>"]) (simp add: r_read_Inr consumes_def)

definition splice :: "nat \<Rightarrow> byte list \<Rightarrow> byte list \<Rightarrow> byte list" where
  "splice off bs xs = take off xs @ bs @ drop (off + length bs) xs"

lemma length_splice: "off + length bs \<le> length xs \<Longrightarrow> length (splice off bs xs) = length xs"
  by (simp add: splice_def)

lemma splice_at: "off + length bs \<le> length xs \<Longrightarrow> take (length bs) (drop off (splice off bs xs)) = bs"
  by (simp add: splice_def)

lemma take_splice: "n \<le> off \<Longrightarrow> off + length bs \<le> length xs \<Longrightarrow> take n (splice off bs xs) = take n xs"
  by (simp add: splice_def min_absorb1)

lemma splice_Nil [simp]: "splice off [] xs = xs"
  by (simp add: splice_def)

lemma splice_append:
  assumes "off + length bs \<le> length xs"
  shows "splice (off + length bs) cs (splice off bs xs) = splice off (bs @ cs) xs"
proof -
  have "length (take off xs @ bs) = off + length bs" using assms by simp
  then have t: "take (off + length bs) (splice off bs xs) = take off xs @ bs"
    by (simp add: splice_def)
  have "drop (off + length bs + length cs) (splice off bs xs) = drop (off + length bs + length cs) xs"
    using assms by (simp add: splice_def) (simp add: add.commute add.left_commute)
  with t show ?thesis by (simp add: splice_def add.assoc)
qed

lemma write_bytes_splice:
  "readable b (off + length bs) \<Longrightarrow> write_bytes off bs b = Inr (b \<lparr> buf_bytes := splice off bs (buf_bytes b) \<rparr>)"
  by (simp add: write_bytes_Inr splice_def)

lemma read_span_total:
  assumes io: "\<forall>n. io_read env n" and st: "TILE_RECORD_BYTES \<le> staging" and fit: "readable b (start + len)"
    and rest: "hr_rest r = piece @ later" "length piece = len" "valid_values kind piece"
  shows "\<exists>r'. read_span env staging kind (start, len) b r = (Inr (b \<lparr> buf_bytes := splice start piece (buf_bytes b) \<rparr>), r')
    \<and> consumes piece r r' \<and> hr_rest r' = later"
proof -
  let ?n = "staged_chunk staging kind" and ?xs = "buf_bytes b"
  note n = staged_chunk_props [OF st, of kind]
  have len: "start + len \<le> length ?xs" using fit by (simp add: readable_def byte_len_def)
  let ?P = "\<lambda>p c s. c = b \<lparr> buf_bytes := splice start (take p piece) ?xs \<rparr> \<and> consumes (take p piece) r s
      \<and> hr_rest s = drop p piece @ later \<and> (p < len \<longrightarrow> p mod alignment kind = 0)"
  have "\<exists>c s. m_for (step_by ?n len) (read_chunk env staging kind start len) b r = (Inr c, s) \<and> ?P len c s"
  proof (rule m_for_steps_total [OF n(1), where P = ?P])
    fix p c s assume p: "p < len" and P: "?P p c s"
    let ?c = "take (min ?n (len - p)) (drop p piece)"
    have lc: "length ?c = min (len - p) ?n" using rest(2) by simp
    have split: "take (min (p + ?n) len) piece = take p piece @ ?c" by (rule take_min_step [OF p])
    have d: "drop p piece = ?c @ drop (min (p + ?n) len) piece"
    proof -
      have "min (p + ?n) len = p + min ?n (len - p)" using p by simp
      then have "drop (min (p + ?n) len) piece = drop (min ?n (len - p)) (drop p piece)" by (simp add: add.commute)
      then show ?thesis by (simp only: append_take_drop_id)
    qed
    obtain s' where s': "r_read env (min (len - p) ?n) s = (Inr ?c, s')" "consumes ?c s s'"
      "hr_rest s' = drop (min (p + ?n) len) piece @ later"
      using r_read_total [OF io, of s ?c "drop (min (p + ?n) len) piece @ later" "min (len - p) ?n"] P lc d by auto
    have pm: "p mod alignment kind = 0" using P p by blast
    have "?n mod alignment kind = 0" by (rule n(2))
    have vc: "valid_values kind ?c"
    proof (cases "?n \<le> len - p")
      case True
      then show ?thesis
        using valid_values_take_drop [OF valid_values_take_drop(2) [OF rest(3) pm] n(2)] by (simp add: min_absorb1)
    next
      case False
      then show ?thesis using valid_values_take_drop(2) [OF rest(3) pm] rest(2) by (simp add: min_absorb2)
    qed
    have lp: "length (take p piece) = p" using p rest(2) by simp
    have l2: "length (splice start (take p piece) ?xs) = length ?xs" using len p lp by (intro length_splice) simp
    have "p + length ?c \<le> len" using lc p by simp
    then have "readable c (start + p + length ?c)"
      using P fit l2 len by (simp add: readable_def byte_len_def del: length_take)
    then have "write_bytes (start + p) ?c c = Inr (c \<lparr> buf_bytes := splice (start + p) ?c (buf_bytes c) \<rparr>)"
      by (rule write_bytes_splice)
    moreover have "splice (start + p) ?c (splice start (take p piece) ?xs) = splice start (take (min (p + ?n) len) piece) ?xs"
      using splice_append [of start "take p piece" ?xs ?c] lp len p unfolding split by simp
    ultimately have w: "write_bytes (start + p) ?c c = Inr (b \<lparr> buf_bytes := splice start (take (min (p + ?n) len) piece) ?xs \<rparr>)"
      using P by simp
    have "read_chunk env staging kind start len p c s = (Inr (b \<lparr> buf_bytes := splice start (take (min (p + ?n) len) piece) ?xs \<rparr>), s')"
      using s'(1) vc w by (simp add: read_chunk_def m_bind_def validate_values_def invalid_unless_def)
    moreover have "consumes (take (min (p + ?n) len) piece) r s'" unfolding split using P s'(2) consumes_trans by blast
    ultimately show "\<exists>c' s''. read_chunk env staging kind start len p c s = (Inr c', s'') \<and> ?P (min (p + ?n) len) c' s''"
      using s'(3) chunk_position [of p len "alignment kind" ?n] n(2) p pm
      by (intro exI [of _ "b \<lparr> buf_bytes := splice start (take (min (p + ?n) len) piece) ?xs \<rparr>"] exI [of _ s'] conjI) simp_all
  qed (use rest(1) in simp)
  then obtain s where s: "m_for (step_by ?n len) (read_chunk env staging kind start len) b r
      = (Inr (b \<lparr> buf_bytes := splice start piece ?xs \<rparr>), s)" "consumes piece r s" "hr_rest s = later"
    using rest(2) by auto
  have "start \<le> byte_len b \<and> len \<le> byte_len b - start" using fit by (auto simp: readable_def)
  then have "read_span env staging kind (start, len) b r = m_for (step_by ?n len) (read_chunk env staging kind start len) b r"
    by (simp add: read_span_def m_bind_def)
  with s show ?thesis by auto
qed

text \<open>Several spans, in ascending order.\<close>

definition ascending :: "(nat \<times> nat) list \<Rightarrow> bool" where
  "ascending ss \<longleftrightarrow> sorted_wrt (\<lambda>a b. fst a + snd a \<le> fst b) ss"

definition splices :: "(nat \<times> nat) list \<Rightarrow> byte list list \<Rightarrow> byte list \<Rightarrow> byte list" where
  "splices ss pieces xs = fold (\<lambda>(span, piece). splice (fst span) piece) (zip ss pieces) xs"

lemma read_spans_total:
  assumes io: "\<forall>n. io_read env n" and st: "TILE_RECORD_BYTES \<le> staging" and res: "\<not> buf_reserved b" "byte_len b = n"
    and "list_all2 (\<lambda>span piece. length piece = snd span \<and> valid_values kind piece \<and> fst span + snd span \<le> n) ss pieces"
    and "hr_rest r = concat pieces @ later"
  shows "\<exists>r'. m_for ss (read_span env staging kind) b r = (Inr (b \<lparr> buf_bytes := splices ss pieces (buf_bytes b) \<rparr>), r')
    \<and> consumes (concat pieces) r r' \<and> hr_rest r' = later"
  using assms(5) res assms(6)
proof (induction ss pieces arbitrary: b r rule: list_all2_induct)
  case Nil
  then show ?case by (simp add: splices_def)
next
  case (Cons span ss piece pieces)
  obtain start len where span: "span = (start, len)" by fastforce
  have fit: "readable b (start + len)" and piece: "length piece = len" "valid_values kind piece"
    using Cons.hyps Cons.prems(1,2) span by (simp_all add: readable_def)
  obtain r1 where r1: "read_span env staging kind (start, len) b r = (Inr (b \<lparr> buf_bytes := splice start piece (buf_bytes b) \<rparr>), r1)"
      "consumes piece r r1" "hr_rest r1 = concat pieces @ later"
    using read_span_total [OF io st fit _ piece, of r "concat pieces @ later"] Cons.prems(3) by auto
  let ?b = "b \<lparr> buf_bytes := splice start piece (buf_bytes b) \<rparr>"
  have "byte_len ?b = n" using fit piece(1) Cons.prems(2) by (simp add: byte_len_def readable_def length_splice)
  with Cons.IH [of ?b r1] Cons.prems(1) r1(3) obtain r2 where
    "m_for ss (read_span env staging kind) ?b r1 = (Inr (?b \<lparr> buf_bytes := splices ss pieces (buf_bytes ?b) \<rparr>), r2)"
    "consumes (concat pieces) r1 r2" "hr_rest r2 = later" by auto
  with r1 span consumes_trans [OF r1(2)] show ?case by (auto simp: splices_def)
qed

lemma length_splices:
  "list_all2 (\<lambda>span piece. length piece = snd span \<and> fst span + snd span \<le> n) ss pieces \<Longrightarrow> length xs = n \<Longrightarrow>
     length (splices ss pieces xs) = n"
proof (induction ss pieces arbitrary: xs rule: list_all2_induct)
  case (Cons span ss piece pieces)
  then have "length (splice (fst span) piece xs) = n" by (simp add: length_splice)
  with Cons.IH [of "splice (fst span) piece xs"] show ?case by (simp add: splices_def)
qed (simp add: splices_def)

lemma splices_live:
  assumes "list_all2 (\<lambda>span piece. length piece = snd span \<and> fst span + snd span \<le> n) ss pieces" "ascending ss" "length xs = n"
  shows "(\<forall>k. (\<forall>span\<in>set ss. k \<le> fst span) \<longrightarrow> take k (splices ss pieces xs) = take k xs)
    \<and> map (\<lambda>(start, len). take len (drop start (splices ss pieces xs))) ss = pieces"
  using assms
proof (induction ss pieces arbitrary: xs rule: list_all2_induct)
  case (Cons span ss piece pieces)
  obtain start len where span: "span = (start, len)" by fastforce
  let ?xs = "splice start piece xs"
  have fit: "start + length piece \<le> length xs" "length piece = len" using Cons.hyps Cons.prems(2) span by simp_all
  have l: "length ?xs = n" using length_splice [OF fit(1)] Cons.prems(2) by simp
  have asc: "ascending ss" "\<forall>s\<in>set ss. start + len \<le> fst s" using Cons.prems(1) span by (simp_all add: ascending_def)
  from Cons.IH [OF asc(1) l] have IH:
    "\<forall>k. (\<forall>span\<in>set ss. k \<le> fst span) \<longrightarrow> take k (splices ss pieces ?xs) = take k ?xs"
    "map (\<lambda>(start, len). take len (drop start (splices ss pieces ?xs))) ss = pieces" by auto
  have s: "splices (span # ss) (piece # pieces) xs = splices ss pieces ?xs" by (simp add: splices_def span)
  have "take (start + len) (splices ss pieces ?xs) = take (start + len) ?xs" using IH(1) asc(2) by blast
  then have "take len (drop start (splices ss pieces ?xs)) = take len (drop start ?xs)"
    by (metis add.commute take_drop)
  also have "\<dots> = piece" using splice_at [OF fit(1)] fit(2) by simp
  finally have first: "take len (drop start (splices ss pieces ?xs)) = piece" .
  have "take k (splices ss pieces ?xs) = take k xs" if "\<forall>s\<in>set (span # ss). k \<le> fst s" for k
    using IH(1) that take_splice [of k start piece xs] fit(1) span by auto
  with first IH(2) show ?case unfolding s by (simp add: span)
qed (simp add: splices_def)

lemma spans_ascending: "ascending (spans frontier kind bytes)"
proof -
  have two: "[0..<KV_HEADS] = [0, 1]" by (simp add: KV_HEADS_def upt_rec)
  show ?thesis
    by (simp add: spans_def ascending_def two HEAD_DIM_def SINK_TOKENS_def TAIL_CAPACITY_def EXACT_SUFFIX_def TILE_TOKENS_def)
qed

lemma zero_fill_total:
  assumes "\<not> buf_reserved b" "0 < staging" "0 < byte_len b"
  shows "zero_fill staging b = Inr (b \<lparr> buf_bytes := replicate (byte_len b) 0 \<rparr>)"
proof -
  let ?n = "byte_len b" and ?z = "min (byte_len b) staging"
  let ?P = "\<lambda>p c. c = b \<lparr> buf_bytes := splice 0 (replicate p 0) (buf_bytes b) \<rparr>"
  have "\<exists>c. try_fold (\<lambda>b start. write_bytes start (replicate (min (byte_len b - start) ?z) 0) b) b (step_by ?z ?n) = Inr c \<and> ?P ?n c"
  proof (rule step_by_fold_total [where P = ?P])
    fix p c assume p: "p < ?n" and P: "?P p c"
    have lc: "byte_len c = ?n" using P p by (simp add: byte_len_def length_splice)
    let ?w = "min (?n - p) ?z"
    have "readable c (p + length (replicate ?w (0::byte)))" using P lc p assms(1) by (simp add: readable_def)
    then have "write_bytes p (replicate (min (byte_len c - p) ?z) 0) c = Inr (c \<lparr> buf_bytes := splice p (replicate ?w 0) (buf_bytes c) \<rparr>)"
      unfolding lc by (rule write_bytes_splice)
    moreover have "splice p (replicate ?w 0) (splice 0 (replicate p 0) (buf_bytes b)) = splice 0 (replicate (min (p + ?z) ?n) 0) (buf_bytes b)"
    proof -
      have "min (p + ?z) ?n = p + ?w" using p by (cases "?z \<le> ?n - p") simp_all
      then have "replicate (min (p + ?z) ?n) (0::byte) = replicate p 0 @ replicate ?w 0" by (simp add: replicate_add)
      with splice_append [of 0 "replicate p 0" "buf_bytes b" "replicate ?w 0"] p show ?thesis by (simp add: byte_len_def)
    qed
    ultimately show "\<exists>c'. write_bytes p (replicate (min (byte_len c - p) ?z) 0) c = Inr c' \<and> ?P (min (p + ?z) ?n) c'"
      using P by simp
  qed (use assms in simp_all)
  then show ?thesis by (simp add: zero_fill_def Let_def splice_def byte_len_def)
qed

lemma read_section_total:
  assumes io: "\<forall>n. io_read env n" and b: "kind < 2 ^ 16" "layer < 2 ^ 16" "n < 2 ^ 64"
    and rest: "hr_rest r = section_header kind layer n @ later"
  shows "\<exists>r'. r_section env kind layer n r = (Inr (), r') \<and> consumes (section_header kind layer n) r r' \<and> hr_rest r' = later"
proof -
  obtain r' where r': "r_read env SECTION_HEADER_BYTES r = (Inr (section_header kind layer n), r')"
    "consumes (section_header kind layer n) r r'" "hr_rest r' = later"
    using r_read_total [OF io rest, of SECTION_HEADER_BYTES] by (auto simp: SECTION_HEADER_BYTES_def)
  have "field (section_header kind layer n) 0 2 = kind" "field (section_header kind layer n) 2 2 = layer"
    "field (section_header kind layer n) 4 8 = n"
    using b by (simp_all add: field_def section_header_def)
  with r' show ?thesis by (simp add: r_section_def m_bind_def invalid_unless_def)
qed

lemma live_bytes_cong:
  "map (\<lambda>(start, len). take len (drop start (buf_bytes b))) (spans f kind n) = pieces \<Longrightarrow> live_bytes f kind (b, n) = concat pieces"
  by (simp add: live_bytes_def)

lemma read_buffer_total:
  assumes io: "\<forall>n. io_read env n" and st: "TILE_RECORD_BYTES \<le> staging"
    and alloc: "metal_allocates (metal_alloc env)" "\<forall>n. \<exists>bs. metal_alloc env n = Inr bs"
    and ok: "source_ok f kind src" "\<forall>(start, len)\<in>set (spans f kind (snd src)). start + len \<le> allocation"
    and b: "kind < 2 ^ 16" "layer < 2 ^ 16" "span_total (spans f kind (snd src)) < 2 ^ 64"
    and rest: "hr_rest r = section_bytes kind layer (live_bytes f kind src) @ later"
  shows "\<exists>b' r'. read_buffer env staging f kind layer (snd src) allocation r = (Inr b', r')
    \<and> consumes (section_bytes kind layer (live_bytes f kind src)) r r' \<and> hr_rest r' = later
    \<and> byte_len b' = max allocation 2 \<and> \<not> buf_reserved b' \<and> live_bytes f kind (b', snd src) = live_bytes f kind src"
proof -
  let ?ss = "spans f kind (snd src)" and ?n = "max allocation 2"
  let ?pieces = "map (\<lambda>(start, len). take len (drop start (buf_bytes (fst src)))) ?ss"
  have len: "length (live_bytes f kind src) = span_total ?ss" by (rule source_ok_length [OF ok(1)])
  obtain r1 where r1: "r_section env kind layer (span_total ?ss) r = (Inr (), r1)"
      "consumes (section_header kind layer (span_total ?ss)) r r1" "hr_rest r1 = live_bytes f kind src @ later"
    using read_section_total [OF io b, of r] rest len by (auto simp: section_bytes_def)
  obtain bs where bs1: "metal_alloc env ?n = Inr bs" using alloc(2) by blast
  with alloc(1) have bs: "metal_alloc env ?n = Inr bs" "length bs = ?n" unfolding metal_allocates_def by blast+
  let ?b0 = "\<lparr> buf_bytes = bs, buf_reserved = False \<rparr>"
  have b0: "shared_buffer (metal_alloc env) ?n = Inr ?b0" using bs(1) by (simp add: shared_buffer_def)
  have l0: "byte_len ?b0 = ?n" using bs(2) by (simp add: byte_len_def)
  have s0: "0 < staging" using st by (simp add: kvarn_consts)
  obtain b1 where b1: "(if span_total ?ss < byte_len ?b0 then zero_fill staging ?b0 else Inr ?b0) = Inr b1"
    "\<not> buf_reserved b1" "byte_len b1 = ?n"
  proof -
    have "zero_fill staging ?b0 = Inr (?b0 \<lparr> buf_bytes := replicate ?n 0 \<rparr>)"
      using zero_fill_total [of ?b0 staging] l0 s0 by simp
    with that [of "?b0 \<lparr> buf_bytes := replicate ?n 0 \<rparr>"] that [of ?b0] l0 show thesis
      by (cases "span_total ?ss < byte_len ?b0") (simp_all add: byte_len_def)
  qed
  have all: "list_all2 (\<lambda>span piece. length piece = snd span \<and> valid_values kind piece \<and> fst span + snd span \<le> ?n) ?ss ?pieces"
    using ok by (auto simp: list_all2_map2 list_all2_same source_ok_def byte_len_def case_prod_beta)
  have pieces: "concat ?pieces = live_bytes f kind src" by (simp add: live_bytes_def)
  let ?b' = "b1 \<lparr> buf_bytes := splices ?ss ?pieces (buf_bytes b1) \<rparr>"
  obtain r2 where r2: "m_for ?ss (read_span env staging kind) b1 r1 = (Inr ?b', r2)" "consumes (live_bytes f kind src) r1 r2"
      "hr_rest r2 = later"
    using read_spans_total [OF io st b1(2,3) all, of r1 later] r1(3) pieces by auto
  have all': "list_all2 (\<lambda>span piece. length piece = snd span \<and> fst span + snd span \<le> ?n) ?ss ?pieces"
    using all by (rule list_all2_mono) simp
  have lb: "length (buf_bytes b1) = ?n" using b1(3) by (simp add: byte_len_def)
  have "map (\<lambda>(start, len). take len (drop start (buf_bytes ?b'))) ?ss = ?pieces"
    using splices_live [OF all' spans_ascending lb] by simp
  from live_bytes_cong [OF this] pieces have "live_bytes f kind (?b', snd src) = live_bytes f kind src" by simp
  moreover have "byte_len ?b' = ?n" using length_splices [OF all' lb] by (simp add: byte_len_def)
  moreover have "consumes (section_bytes kind layer (live_bytes f kind src)) r r2"
    using consumes_trans [OF r1(2) r2(2)] len by (simp add: section_bytes_def)
  moreover have "read_buffer env staging f kind layer (snd src) allocation r = (Inr ?b', r2)"
    unfolding read_buffer_def Let_def m_bind_def r1(1) by (simp only: prod.case sum.case fst_conv snd_conv b0 m_lift_def failing_simps b1(1) r2(1))
  ultimately show ?thesis using b1(2) r2(3) by (intro exI [of _ ?b'] exI [of _ r2]) simp
qed

section \<open>Tokens\<close>

lemma length_token_bytes [simp]: "length (token_bytes ts) = length ts * 4"
  by (induction ts) (simp_all add: token_bytes_def)

lemma token_bytes_append: "token_bytes (xs @ ys) = token_bytes xs @ token_bytes ys"
  by (simp add: token_bytes_def)

lemma as_chunks_token_bytes: "as_chunks 4 (token_bytes ts) = map (le_bytes 4) ts"
proof (induction ts)
  case (Cons t ts)
  then show ?case by (simp add: token_bytes_def as_chunks_cons)
qed (simp add: token_bytes_def)

lemma words32_Inr: "words32 env ws w = (Inr u, w') \<Longrightarrow> appended (token_bytes ws) w w'"
proof -
  have "m_for bs (\<lambda>block u. w_write env (token_bytes block)) () w = (Inr u, w') \<Longrightarrow> appended (token_bytes (concat bs)) w w'" for bs
  proof (induction bs arbitrary: w)
    case (Cons b bs)
    then obtain v w1 where "w_write env (token_bytes b) w = (Inr v, w1)"
      "m_for bs (\<lambda>block u. w_write env (token_bytes block)) () w1 = (Inr u, w')"
      unfolding m_for_Cons_Inr by auto
    with Cons.IH appended_trans w_write_appended show ?case by (fastforce simp: token_bytes_append)
  qed (simp add: appended_def token_bytes_def)
  from this [of "chunks (CHUNK_BYTES div 4) ws"] show "words32 env ws w = (Inr u, w') \<Longrightarrow> appended (token_bytes ws) w w'"
    by (simp add: words32_def CHUNK_BYTES_def)
qed

lemma read_words_total:
  assumes "\<forall>t\<in>set ts. t < VOCAB"
  shows "m_for (zip (map (le_bytes 4) ts) (ts @ later)) (\<lambda>(word, expected) consumed.
         m_lift (invalid_unless (le_value word < VOCAB \<and> le_value word = expected) ''checkpoint token lineage differs''
           (Inr (consumed @ [le_value word])))) acc r = (Inr (acc @ ts), r)"
  using assms
proof (induction ts arbitrary: acc)
  case (Cons t ts)
  then have "t < 256 ^ 4" by (simp add: VOCAB_def)
  then have "le_value (le_bytes 4 t) = t" by (rule le_value_le_bytes)
  with Cons show ?case by (simp add: m_bind_def invalid_unless_def)
qed simp

lemma read_tokens_total:
  assumes io: "\<forall>n. io_read env n" and st: "TILE_RECORD_BYTES \<le> staging"
    and req: "requested = tokens @ extra" "\<forall>t\<in>set tokens. t < VOCAB" "length tokens = frontier"
    and rest: "hr_rest r = token_bytes tokens @ later"
  shows "\<exists>r'. read_tokens env staging frontier requested r = (Inr tokens, r') \<and> consumes (token_bytes tokens) r r' \<and> hr_rest r' = later"
proof -
  let ?n = "staging div 4"
  have n: "0 < ?n" using st by (simp add: kvarn_consts div_greater_zero_iff)
  let ?P = "\<lambda>p c s. c = take p tokens \<and> consumes (token_bytes (take p tokens)) r s \<and> hr_rest s = token_bytes (drop p tokens) @ later"
  have "\<exists>c s. read_tokens env staging frontier requested r = (Inr c, s) \<and> ?P frontier c s"
    unfolding read_tokens_def
  proof (rule m_for_steps_total [OF n, where P = ?P])
    fix p c s assume p: "p < frontier" and P: "?P p c s"
    let ?k = "min ?n (frontier - p)" and ?ts = "take (min ?n (frontier - p)) (drop p tokens)"
    have split: "take (min (p + ?n) frontier) tokens = take p tokens @ ?ts" by (rule take_min_step [OF p])
    have e: "min (p + ?n) frontier = p + ?k" using p by simp
    have d: "drop p tokens = ?ts @ drop (min (p + ?n) frontier) tokens"
    proof -
      have "drop (p + ?k) tokens = drop ?k (drop p tokens)" by (simp add: add.commute)
      then show ?thesis unfolding e by (simp only: append_take_drop_id)
    qed
    have l: "length (token_bytes ?ts) = min (frontier - p) ?n * 4" using req(3) by (simp add: min.commute)
    have "hr_rest s = token_bytes ?ts @ token_bytes (drop (min (p + ?n) frontier) tokens) @ later"
      using P by (metis append.assoc d token_bytes_append)
    from r_read_total [OF io this l] obtain s' where s': "r_read env (min (frontier - p) ?n * 4) s = (Inr (token_bytes ?ts), s')"
      "consumes (token_bytes ?ts) s s'" "hr_rest s' = token_bytes (drop (min (p + ?n) frontier) tokens) @ later" by blast
    have v: "\<forall>t\<in>set ?ts. t < VOCAB" using req(2) by (meson in_set_dropD in_set_takeD)
    have dr: "drop p requested = ?ts @ (drop (min (p + ?n) frontier) tokens @ extra)"
      using d req p by simp
    have "consumes (token_bytes (take (min (p + ?n) frontier) tokens)) r s'"
      unfolding split token_bytes_append using consumes_trans P s'(2) by blast
    with s' P read_words_total [OF v, of "drop (min (p + ?n) frontier) tokens @ extra" "take p tokens" s']
    show "\<exists>c' s''. m_bind (r_read env (min (frontier - p) ?n * 4)) (\<lambda>bs.
       m_for (zip (as_chunks 4 bs) (drop p requested)) (\<lambda>(word, expected) consumed.
         m_lift (invalid_unless (le_value word < VOCAB \<and> le_value word = expected) ''checkpoint token lineage differs''
           (Inr (consumed @ [le_value word])))) c) s = (Inr c', s'') \<and> ?P (min (p + ?n) frontier) c' s''"
      unfolding dr split by (intro exI [of _ "take p tokens @ ?ts"] exI [of _ s']) (simp add: as_chunks_token_bytes)
  qed (use rest req in \<open>simp_all add: token_bytes_def\<close>)
  then show ?thesis using req(3) by (auto simp: token_bytes_def)
qed

end
