(* ===== verification/Checkpoint_Session.thy ===== *)
theory Checkpoint_Session
  imports Checkpoint_Roundtrip
begin

text \<open>
  Whole checkpoint files: the file a finished writer leaves is the header, the sections in order and the
  digest of both; the reader consumes a file of that form completely and rebuilds the live bytes of every section.
\<close>

section \<open>The sections of a session\<close>

fun layer_sources :: "layer_state \<Rightarrow> (nat \<times> (buffer \<times> nat)) list" where
  "layer_sources (Gdn_State g) =
     [(GDN_CONV, gdn_conv g, GDN_CONV_BYTES), (GDN_RECURRENT, gdn_recurrent g, GDN_RECURRENT_BYTES)]"
| "layer_sources (Qsa_State i k) =
     [(QSA_COMPRESSED, qi_compressed i, qi_frontier i div COMPRESS_RATIO * INDEX_WIDTH * 2),
      (QSA_PENDING, qi_pending i, qi_frontier i mod COMPRESS_RATIO * INDEX_WIDTH * 2),
      (KVARN_RECORDS, kv_records k, record_bytes k), (KVARN_SINK_KEYS, kv_sink_keys k, SINK_BYTES),
      (KVARN_SINK_VALUES, kv_sink_values k, SINK_BYTES), (KVARN_TAIL_KEYS, kv_tail_keys k, TAIL_BYTES),
      (KVARN_TAIL_VALUES, kv_tail_values k, TAIL_BYTES)]"

definition sources_bytes :: "nat \<Rightarrow> nat \<Rightarrow> (nat \<times> (buffer \<times> nat)) list \<Rightarrow> byte list" where
  "sources_bytes frontier index sources =
     concat (map (\<lambda>(kind, source). section_bytes kind index (live_bytes frontier kind source)) sources)"

definition sources_ok :: "nat \<Rightarrow> (nat \<times> (buffer \<times> nat)) list \<Rightarrow> bool" where
  "sources_ok frontier sources \<longleftrightarrow> (\<forall>(kind, source)\<in>set sources. source_ok frontier kind source)"

lemma sources_simps [simp]:
  "sources_bytes f i [] = []"
  "sources_bytes f i ((kind, source) # ss) = section_bytes kind i (live_bytes f kind source) @ sources_bytes f i ss"
  "sources_ok f []" "sources_ok f ((kind, source) # ss) \<longleftrightarrow> source_ok f kind source \<and> sources_ok f ss"
  by (simp_all add: sources_bytes_def sources_ok_def)

lemma sources_append: "sources_bytes f i (xs @ ys) = sources_bytes f i xs @ sources_bytes f i ys"
  "sources_ok f (xs @ ys) \<longleftrightarrow> sources_ok f xs \<and> sources_ok f ys"
  by (auto simp: sources_bytes_def sources_ok_def)

fun layers_bytes :: "nat \<Rightarrow> nat \<Rightarrow> layer_state list \<Rightarrow> byte list" where
  "layers_bytes f i [] = []"
| "layers_bytes f i (l # ls) = sources_bytes f i (layer_sources l) @ layers_bytes f (Suc i) ls"

definition session_sections :: "session \<Rightarrow> byte list" where
  "session_sections s = section_bytes TOKENS 0 (token_bytes (se_tokens s))
     @ section_bytes LOGITS 0 (live_bytes (se_frontier s) LOGITS (se_logits s, VOCAB * 2))
     @ section_bytes PLE 0 (live_bytes (se_frontier s) PLE (ple_conv (se_ple s), PLE_WORDS * 2))
     @ layers_bytes (se_frontier s) 0 (se_layers s)"

definition header_bytes :: "checkpoint_env \<Rightarrow> byte list \<Rightarrow> nat list \<Rightarrow> host_engine \<Rightarrow> nat \<Rightarrow> nat \<Rightarrow> byte list" where
  "header_bytes env scope tokens en file_bytes sections =
     MAGIC @ le_bytes 4 WIRE_VERSION @ scope @ prefix_hash env tokens @ le_bytes 8 (length tokens)
       @ le_bytes 8 file_bytes @ le_bytes 4 sections @ replicate 4 0 @ le_bytes 4 (he_max_context en)
       @ le_bytes 4 PRODUCER_VERSION @ le_bytes 4 (he_eos en)"

text \<open>Every live byte of a session and what the file keeps of the rest.\<close>

definition session_live :: "session \<Rightarrow> nat \<times> nat list \<times> byte list \<times> byte list \<times> byte list list list" where
  "session_live s = (se_frontier s, se_tokens s, live_bytes (se_frontier s) LOGITS (se_logits s, VOCAB * 2),
     live_bytes (se_frontier s) PLE (ple_conv (se_ple s), PLE_WORDS * 2),
     map (\<lambda>l. map (\<lambda>(kind, source). live_bytes (se_frontier s) kind source) (layer_sources l)) (se_layers s))"

section \<open>What the writer leaves\<close>

lemma write_sections_Inr:
  assumes "m_for ss (\<lambda>(kind, source) _. write_buffer env staging f kind i source) () w = (Inr u, w')" "TILE_RECORD_BYTES \<le> staging"
  shows "appended (sources_bytes f i ss) w w' \<and> sources_ok f ss"
  using assms(1)
proof (induction ss arbitrary: w)
  case (Cons e ss)
  obtain kind source where e: "e = (kind, source)" by (cases e) blast
  from Cons.prems obtain v w1 where one: "write_buffer env staging f kind i source w = (Inr v, w1)"
    and rest: "m_for ss (\<lambda>(kind, source) _. write_buffer env staging f kind i source) () w1 = (Inr u, w')"
    unfolding e m_for_Cons_Inr by auto
  from write_buffer_Inr [OF one assms(2)] Cons.IH [OF rest] show ?case
    unfolding e using appended_trans by fastforce
qed (simp add: appended_def)

lemma write_layer_Inr:
  assumes "write_layer env staging f (i, l) w = (Inr u, w')" "TILE_RECORD_BYTES \<le> staging"
  shows "appended (sources_bytes f i (layer_sources l)) w w' \<and> sources_ok f (layer_sources l) \<and> i < 2 ^ 16"
proof (cases l)
  case (Gdn_State g)
  with assms(1) have "m_for (layer_sources l) (\<lambda>(kind, source) _. write_buffer env staging f kind i source) () w = (Inr u, w')"
    and "i < 2 ^ 16"
    by (auto simp: write_layer_def write_sources_def gdn_buffers_def m_bind_eq_Inr failing_Inr bindr_eq_Inr ensure_eq_Inr)
  with write_sections_Inr [OF _ assms(2)] show ?thesis by blast
next
  case (Qsa_State q k)
  let ?a = "take 2 (layer_sources l)" and ?b = "drop 2 (layer_sources l)"
  from assms(1) Qsa_State obtain w1 where
    a: "m_for ?a (\<lambda>(kind, source) _. write_buffer env staging f kind i source) () w = (Inr (), w1)" and
    b: "m_for ?b (\<lambda>(kind, source) _. write_buffer env staging f kind i source) () w1 = (Inr u, w')" and i: "i < 2 ^ 16"
    by (auto simp: write_layer_def write_sources_def checkpoint_buffers_def logical_parts_byte_lengths_def qsa_frontier_def
        kvarn_buffers_def INDEX_KINDS_def KVARN_KINDS_def m_bind_eq_Inr failing_Inr bindr_eq_Inr ensure_eq_Inr)
  from write_sections_Inr [OF a assms(2)] write_sections_Inr [OF b assms(2)] i
    appended_trans [of "sources_bytes f i ?a" w w1 "sources_bytes f i ?b" w']
    sources_append(1) [of f i ?a ?b] sources_append(2) [of f ?a ?b]
  show ?thesis by (simp only: append_take_drop_id)
qed

lemma write_layers_Inr:
  assumes "m_for (zip [k..<k + length ls] ls) (\<lambda>entry _. write_layer env staging f entry) () w = (Inr u, w')"
    and "TILE_RECORD_BYTES \<le> staging"
  shows "appended (layers_bytes f k ls) w w' \<and> (\<forall>l\<in>set ls. sources_ok f (layer_sources l)) \<and> (ls \<noteq> [] \<longrightarrow> k + length ls \<le> 2 ^ 16)"
  using assms(1)
proof (induction ls arbitrary: k w)
  case (Cons l ls)
  have "[k..<k + length (l # ls)] = k # [Suc k..<Suc k + length ls]" by (simp add: upt_rec)
  with Cons.prems obtain v w1 where one: "write_layer env staging f (k, l) w = (Inr v, w1)"
    and rest: "m_for (zip [Suc k..<Suc k + length ls] ls) (\<lambda>entry _. write_layer env staging f entry) () w1 = (Inr u, w')"
    by (auto simp: m_bind_eq_Inr)
  from write_layer_Inr [OF one assms(2)] Cons.IH [OF rest]
    appended_trans [of "sources_bytes f k (layer_sources l)" w w1 "layers_bytes f (Suc k) ls" w']
  show ?case by (cases ls) auto
qed (simp add: appended_def)

lemma staging_new_Inr: "staging_new env limit = Inr staging \<Longrightarrow> TILE_RECORD_BYTES \<le> staging \<and> staging = min limit IO_BUFFER_BYTES"
  by (auto simp: staging_new_def Let_def ensure_eq_Inr bindr_eq_Inr)

definition session_sources_ok :: "session \<Rightarrow> bool" where
  "session_sources_ok s \<longleftrightarrow> source_ok (se_frontier s) LOGITS (se_logits s, VOCAB * 2)
     \<and> source_ok (se_frontier s) PLE (ple_conv (se_ple s), PLE_WORDS * 2)
     \<and> (\<forall>l\<in>set (se_layers s). sources_ok (se_frontier s) (layer_sources l)) \<and> length (se_layers s) \<le> 2 ^ 16"

theorem write_session_Inr:
  assumes "write_session env en s scope expected sections limit \<lparr> hw_out = [], hw_written = 0 \<rparr> = (Inr u, w)"
  shows "hw_out w = header_bytes env scope (se_tokens s) en expected sections @ session_sections s
       @ sha256 env (header_bytes env scope (se_tokens s) en expected sections @ session_sections s)"
    and "length (header_bytes env scope (se_tokens s) en expected sections @ session_sections s) = expected - TRAILER_BYTES"
    and "session_sources_ok s" "validate_snapshot_source en s = Inr ()" "he_max_context en < 2 ^ 32"
proof -
  let ?w0 = "\<lparr> hw_out = [], hw_written = 0 \<rparr>" and ?f = "se_frontier s" and ?H = "header_bytes env scope (se_tokens s) en expected sections"
  from assms obtain staging w1 w2 w3 w4 w5 where valid: "validate_snapshot_source en s = Inr ()" "he_max_context en < 2 ^ 32"
    and st: "staging_new env limit = Inr staging"
    and w1: "w_write env ?H ?w0 = (Inr (), w1)"
    and w2: "u32_section env TOKENS 0 (se_tokens s) (?f * 4) w1 = (Inr (), w2)"
    and w3: "write_buffer env staging ?f LOGITS 0 (se_logits s, VOCAB * 2) w2 = (Inr (), w3)"
    and w4: "write_buffer env staging ?f PLE 0 (ple_conv (se_ple s), PLE_WORDS * 2) w3 = (Inr (), w4)"
    and w5: "m_for (zip [0..<length (se_layers s)] (se_layers s)) (\<lambda>entry _. write_layer env staging ?f entry) () w4 = (Inr (), w5)"
    and len: "hw_written w5 = expected - TRAILER_BYTES" and w: "w = w5 \<lparr> hw_out := hw_out w5 @ sha256 env (hw_out w5) \<rparr>"
    by (auto simp: write_session_def m_bind_eq_Inr failing_Inr ensure_eq_Inr header_def header_bytes_def ckpt_bytes_def
        ok_or_eq_Inr checked_mul_eq_Some)
  note st = conjunct1 [OF staging_new_Inr [OF st]]
  from w2 obtain v where v: "w_section env TOKENS 0 (length (token_bytes (se_tokens s))) w1 = (Inr (), v)" "words32 env (se_tokens s) v = (Inr (), w2)"
    by (auto simp: u32_section_def m_bind_eq_Inr failing_Inr ensure_eq_Inr ckpt_bytes_def ok_or_eq_Inr checked_mul_eq_Some)
  have a2: "appended (section_bytes TOKENS 0 (token_bytes (se_tokens s))) w1 w2"
    using appended_trans [OF w_write_appended words32_Inr, OF v [unfolded w_section_def]] by (simp add: section_bytes_def)
  note a3 = write_buffer_Inr [OF w3 st] and a4 = write_buffer_Inr [OF w4 st]
  note a5 = write_layers_Inr [of 0, unfolded add_0, OF w5 st]
  have a: "appended (?H @ session_sections s) ?w0 w5"
    unfolding session_sections_def
    by (intro appended_trans [OF w_write_appended [OF w1]] appended_trans [OF a2] appended_trans [OF conjunct1 [OF a3]]
        appended_trans [OF conjunct1 [OF a4]] conjunct1 [OF a5])
  with w show "hw_out w = ?H @ session_sections s @ sha256 env (?H @ session_sections s)" by (simp add: appended_def)
  show "length (?H @ session_sections s) = expected - TRAILER_BYTES" using a len by (simp add: appended_def)
  show "session_sources_ok s" using a3 a4 a5 by (cases "se_layers s") (auto simp: session_sources_ok_def)
  show "validate_snapshot_source en s = Inr ()" "he_max_context en < 2 ^ 32" by (rule valid)+
qed

section \<open>What the reader rebuilds\<close>

definition reads_well :: "checkpoint_env \<Rightarrow> bool" where
  "reads_well env \<longleftrightarrow> (\<forall>n. io_read env n) \<and> metal_allocates (metal_alloc env) \<and> (\<forall>n. \<exists>bs. metal_alloc env n = Inr bs)"

lemma spans_fit:
  assumes "kind \<in> {KVARN_SINK_KEYS, KVARN_SINK_VALUES} \<Longrightarrow> SINK_BYTES \<le> allocation"
    and "kind \<in> {KVARN_TAIL_KEYS, KVARN_TAIL_VALUES} \<Longrightarrow> TAIL_BYTES \<le> allocation" and "bytes \<le> allocation"
  shows "\<forall>(start, len)\<in>set (spans f kind bytes). start + len \<le> allocation"
proof -
  have two: "[0..<KV_HEADS] = [0, 1]" by (simp add: KV_HEADS_def upt_rec)
  have s: "SINK_TOKENS * 1024 = SINK_BYTES" "TAIL_CAPACITY * 1024 = TAIL_BYTES"
    by (simp_all add: SINK_BYTES_def TAIL_BYTES_def TOKEN_BYTES_def KV_HEADS_def HEAD_DIM_def)
  show ?thesis
    using assms s by (auto simp: spans_def two HEAD_DIM_def)
qed

lemma span_total_spans:
  assumes "kind \<in> {KVARN_SINK_KEYS, KVARN_SINK_VALUES} \<Longrightarrow> SINK_BYTES \<le> allocation"
    and "kind \<in> {KVARN_TAIL_KEYS, KVARN_TAIL_VALUES} \<Longrightarrow> TAIL_BYTES \<le> allocation" and "bytes \<le> allocation"
  shows "span_total (spans f kind bytes) \<le> allocation"
proof -
  have two: "[0..<KV_HEADS] = [0, 1]" by (simp add: KV_HEADS_def upt_rec)
  have s: "SINK_TOKENS * 1024 = SINK_BYTES" "TAIL_CAPACITY * 1024 = TAIL_BYTES"
    by (simp_all add: SINK_BYTES_def TAIL_BYTES_def TOKEN_BYTES_def KV_HEADS_def HEAD_DIM_def)
  show ?thesis
    using assms s by (auto simp: spans_def span_total_def two HEAD_DIM_def)
qed

text \<open>One section read back, with the buffer size the reader allocates for it.\<close>

lemma read_section_back:
  assumes env: "reads_well env" and st: "TILE_RECORD_BYTES \<le> staging" and ok: "source_ok f kind (b, bytes)"
    and fit: "kind \<in> {KVARN_SINK_KEYS, KVARN_SINK_VALUES} \<Longrightarrow> SINK_BYTES \<le> allocation"
      "kind \<in> {KVARN_TAIL_KEYS, KVARN_TAIL_VALUES} \<Longrightarrow> TAIL_BYTES \<le> allocation" "bytes \<le> allocation"
    and bounds: "kind \<le> 12" "layer < 2 ^ 16" "allocation < 2 ^ 64"
    and rest: "hr_rest r = section_bytes kind layer (live_bytes f kind (b, bytes)) @ later"
  obtains b' r' where "read_buffer env staging f kind layer bytes allocation r = (Inr b', r')"
    "consumes (section_bytes kind layer (live_bytes f kind (b, bytes))) r r'" "hr_rest r' = later"
    "byte_len b' = max allocation 2" "\<not> buf_reserved b'" "live_bytes f kind (b', bytes) = live_bytes f kind (b, bytes)"
proof -
  have total: "span_total (spans f kind bytes) < 2 ^ 64" using span_total_spans [OF fit] bounds(3) by (rule le_less_trans)
  have kind: "kind < 2 ^ 16" using bounds(1) by simp
  from read_buffer_total [of env staging f kind "(b, bytes)" allocation layer r later] env st ok spans_fit [OF fit] kind bounds(2) total rest that
  show thesis by (auto simp: reads_well_def)
qed

text \<open>The reader at a position of the file, and a buffer that got its live bytes back.\<close>

definition positioned :: "byte list \<Rightarrow> byte list \<Rightarrow> hash_reader \<Rightarrow> bool" where
  "positioned whole rest r \<longleftrightarrow> hr_hashed r @ rest = whole \<and> hr_rest r = rest"

definition read_back :: "nat \<Rightarrow> nat \<Rightarrow> nat \<Rightarrow> nat \<Rightarrow> buffer \<Rightarrow> buffer \<Rightarrow> bool" where
  "read_back f kind bytes allocation b b' \<longleftrightarrow> byte_len b' = max allocation 2 \<and> \<not> buf_reserved b'
     \<and> live_bytes f kind (b', bytes) = live_bytes f kind (b, bytes)"

definition section_fits :: "nat \<Rightarrow> nat \<Rightarrow> nat \<Rightarrow> bool" where
  "section_fits kind bytes allocation \<longleftrightarrow>
     (kind \<in> {KVARN_SINK_KEYS, KVARN_SINK_VALUES} \<longrightarrow> SINK_BYTES \<le> allocation)
     \<and> (kind \<in> {KVARN_TAIL_KEYS, KVARN_TAIL_VALUES} \<longrightarrow> TAIL_BYTES \<le> allocation)
     \<and> bytes \<le> allocation \<and> kind \<le> 12 \<and> allocation < 2 ^ 64"

lemma section_step:
  assumes "reads_well env" "TILE_RECORD_BYTES \<le> staging" "i < 2 ^ 16" "section_fits kind bytes allocation"
    and "positioned whole (section_bytes kind i (live_bytes f kind (b, bytes)) @ later) r" "source_ok f kind (b, bytes)"
    and k: "\<And>b' r'. positioned whole later r' \<Longrightarrow> read_back f kind bytes allocation b b' \<Longrightarrow> \<exists>x s. k b' r' = (Inr x, s) \<and> Q x s"
  shows "\<exists>x s. m_bind (read_buffer env staging f kind i bytes allocation) k r = (Inr x, s) \<and> Q x s"
proof -
  obtain b' r' where b': "read_buffer env staging f kind i bytes allocation r = (Inr b', r')" "hr_rest r' = later"
    "consumes (section_bytes kind i (live_bytes f kind (b, bytes))) r r'" "read_back f kind bytes allocation b b'"
    by (rule read_section_back [OF assms(1,2,6), of allocation i r later])
      (use assms(3,4,5) in \<open>auto simp: section_fits_def positioned_def read_back_def\<close>)
  have "positioned whole later r'" using b'(2,3) assms(5) by (auto simp: positioned_def consumes_def)
  with k [OF this b'(4)] b'(1) show ?thesis by simp
qed

lemma fixed_sections_fit:
  "section_fits GDN_CONV GDN_CONV_BYTES GDN_CONV_BYTES" "section_fits GDN_RECURRENT GDN_RECURRENT_BYTES GDN_RECURRENT_BYTES"
  "section_fits LOGITS (VOCAB * 2) (VOCAB * 2)" "section_fits PLE (PLE_WORDS * 2) (PLE_WORDS * 2)"
  "section_fits KVARN_SINK_KEYS SINK_BYTES SINK_BYTES" "section_fits KVARN_SINK_VALUES SINK_BYTES SINK_BYTES"
  "section_fits KVARN_TAIL_KEYS TAIL_BYTES TAIL_BYTES" "section_fits KVARN_TAIL_VALUES TAIL_BYTES TAIL_BYTES"
  by (simp_all add: section_fits_def section_kinds session_consts kvarn_consts)

lemma frontier_sections_fit:
  assumes "f \<le> MAX_POSITIONS"
  shows "section_fits QSA_COMPRESSED (f div COMPRESS_RATIO * INDEX_WIDTH * 2) (max (f div COMPRESS_RATIO * INDEX_WIDTH * 2) (INDEX_WIDTH * 2))"
    "section_fits QSA_PENDING (f mod COMPRESS_RATIO * INDEX_WIDTH * 2) (COMPRESS_RATIO * INDEX_WIDTH * 2)"
    "section_fits KVARN_RECORDS (record_tiles f * TILE_RECORD_BYTES) (max (record_tiles f * TILE_RECORD_BYTES) 2)"
proof -
  have k: "QSA_COMPRESSED = 6" "QSA_PENDING = 7" "KVARN_RECORDS = 8" "KVARN_SINK_KEYS = 9" "KVARN_SINK_VALUES = 10"
    "KVARN_TAIL_KEYS = 11" "KVARN_TAIL_VALUES = 12" by (simp_all add: section_kinds)
  have "f div COMPRESS_RATIO \<le> f" by simp
  then have "f div COMPRESS_RATIO \<le> 262144" using assms unfolding MAX_POSITIONS_def by (rule le_trans)
  then show "section_fits QSA_COMPRESSED (f div COMPRESS_RATIO * INDEX_WIDTH * 2) (max (f div COMPRESS_RATIO * INDEX_WIDTH * 2) (INDEX_WIDTH * 2))"
    by (simp add: section_fits_def k INDEX_WIDTH_def)
  show "section_fits QSA_PENDING (f mod COMPRESS_RATIO * INDEX_WIDTH * 2) (COMPRESS_RATIO * INDEX_WIDTH * 2)"
    using mod_less_divisor [of COMPRESS_RATIO f] by (simp add: section_fits_def k COMPRESS_RATIO_def INDEX_WIDTH_def)
  have "record_tiles f \<le> f" by (simp add: record_tiles_eq)
  then show "section_fits KVARN_RECORDS (record_tiles f * TILE_RECORD_BYTES) (max (record_tiles f * TILE_RECORD_BYTES) 2)"
    using assms by (simp add: section_fits_def k kvarn_consts MAX_POSITIONS_def)
qed

definition layer_kind :: "layer_state \<Rightarrow> mixer_kind" where
  "layer_kind l = (case l of Gdn_State _ \<Rightarrow> Gdn | Qsa_State _ _ \<Rightarrow> Qsa)"

definition layer_live :: "nat \<Rightarrow> layer_state \<Rightarrow> byte list list" where
  "layer_live f l = map (\<lambda>(kind, source). live_bytes f kind source) (layer_sources l)"

lemma m_bind_lift_Inr: "m_bind (m_lift (Inr x)) k s = k x s"
  by simp

lemma empty_read: "\<not> buf_reserved b \<Longrightarrow> read_bytes b 0 0 = Inr []"
  by (simp add: read_bytes_0 readable_def)

lemma gdn_from_back:
  assumes "read_back f GDN_CONV GDN_CONV_BYTES GDN_CONV_BYTES c0 c" "read_back f GDN_RECURRENT GDN_RECURRENT_BYTES GDN_RECURRENT_BYTES r0 r"
  shows "gdn_from_buffers c r f = Inr \<lparr> gdn_conv = c, gdn_recurrent = r, gdn_state_frontier = f, gdn_state_valid = True, gdn_layer_valid = True \<rparr>"
  using assms by (simp add: read_back_def gdn_from_buffers_def empty_read GDN_CONV_BYTES_def GDN_RECURRENT_BYTES_def)

lemma qsa_from_back:
  assumes "read_back f QSA_COMPRESSED n (max (f div COMPRESS_RATIO * INDEX_WIDTH * 2) (INDEX_WIDTH * 2)) c0 c"
    and "read_back f QSA_PENDING m (COMPRESS_RATIO * INDEX_WIDTH * 2) p0 p" and "0 < f" "f \<le> ctx" "ctx \<le> MAX_POSITIONS"
  shows "qsa_from_buffers f c p ctx
    = Inr \<lparr> qi_max_positions = ctx, qi_frontier = f, qi_valid = True, qi_compressed = c, qi_pending = p \<rparr>"
proof -
  have "2 \<le> INDEX_WIDTH * 2" "2 \<le> COMPRESS_RATIO * INDEX_WIDTH * 2" by (simp_all add: kvarn_consts)
  with assms show ?thesis by (simp add: read_back_def qsa_from_buffers_def empty_read max_absorb1)
qed

lemma kvarn_from_back:
  assumes "read_back f KVARN_RECORDS n (max (record_tiles f * TILE_RECORD_BYTES) 2) r0 r"
    and "read_back f KVARN_SINK_KEYS SINK_BYTES SINK_BYTES sk0 sk" "read_back f KVARN_SINK_VALUES SINK_BYTES SINK_BYTES sv0 sv"
    and "read_back f KVARN_TAIL_KEYS TAIL_BYTES TAIL_BYTES tk0 tk" "read_back f KVARN_TAIL_VALUES TAIL_BYTES TAIL_BYTES tv0 tv"
    and "0 < f" "f \<le> ctx" "ctx \<le> MAX_POSITIONS"
  shows "kvarn_from_buffers ctx f r sk sv tk tv = Inr \<lparr> kv_max_context = ctx, kv_frontier = f, kv_valid = True, kv_records = r,
      kv_sink_keys = sk, kv_sink_values = sv, kv_tail_keys = tk, kv_tail_values = tv \<rparr>"
proof -
  have "2 \<le> SINK_BYTES" "2 \<le> TAIL_BYTES" by (simp_all add: session_consts kvarn_consts)
  with assms show ?thesis
    by (simp add: read_back_def kvarn_from_buffers_def check_kvarn_buffer_def empty_read max_absorb1 record_tiles_def [symmetric]
        MAX_POSITIONS_def MAX_CONTEXT_TOKENS_def)
qed

text \<open>A layer whose device state is committed at the frontier.\<close>

definition layer_at :: "nat \<Rightarrow> layer_state \<Rightarrow> bool" where
  "layer_at f l \<longleftrightarrow> (case l of Gdn_State _ \<Rightarrow> True | Qsa_State q k \<Rightarrow> qi_frontier q = f \<and> kv_frontier k = f)"

lemma record_bytes_tiles: "record_bytes k = record_tiles (kv_frontier k) * TILE_RECORD_BYTES"
  by (simp add: record_bytes_def record_tiles_def)

lemma read_layer_total:
  assumes env: "reads_well env" "TILE_RECORD_BYTES \<le> staging" "i < 2 ^ 16"
    and ctx: "0 < f" "f \<le> he_max_context en" "he_max_context en \<le> MAX_POSITIONS" and "at": "layer_at f l"
    and ok: "sources_ok f (layer_sources l)" and pos: "positioned whole (sources_bytes f i (layer_sources l) @ later) r"
  shows "\<exists>l' r'. read_layer env en staging f (i, layer_kind l) r = (Inr l', r')
    \<and> positioned whole later r' \<and> layer_frontier l' = Inr f \<and> layer_live f l' = layer_live f l \<and> layer_kind l' = layer_kind l"
proof (cases l)
  case (Gdn_State g)
  note src = pos [unfolded Gdn_State layer_sources.simps sources_simps append_assoc]
  have "\<exists>l' r'. m_bind (read_buffer env staging f GDN_CONV i GDN_CONV_BYTES GDN_CONV_BYTES) (\<lambda>conv.
      m_bind (read_buffer env staging f GDN_RECURRENT i GDN_RECURRENT_BYTES GDN_RECURRENT_BYTES) (\<lambda>recurrent.
      m_lift (failing (bindr (gdn_from_buffers conv recurrent f) (\<lambda>g. Inr (Gdn_State g)))))) r = (Inr l', r')
    \<and> positioned whole later r' \<and> layer_frontier l' = Inr f \<and> layer_live f l' = layer_live f l \<and> layer_kind l' = layer_kind l"
    apply (rule section_step [OF env fixed_sections_fit(1) src], use ok Gdn_State in simp)
    apply (rule section_step [OF env fixed_sections_fit(2)], assumption, use ok Gdn_State in simp)
    apply (simp add: gdn_from_back Gdn_State layer_frontier_def gdn_frontier_def layer_live_def layer_kind_def read_back_def)
    done
  then show ?thesis using env(3) by (simp add: read_layer_def Let_def layer_kind_def Gdn_State)
next
  case (Qsa_State q k)
  then have fr: "qi_frontier q = f" "kv_frontier k = f" using "at" by (simp_all add: layer_at_def)
  have f: "f \<le> MAX_POSITIONS" using ctx by simp
  note src = pos [unfolded Qsa_State layer_sources.simps sources_simps append_assoc record_bytes_tiles fr]
  note fits = fixed_sections_fit frontier_sections_fit [OF f]
  have ok': "source_ok f QSA_COMPRESSED (qi_compressed q, f div COMPRESS_RATIO * INDEX_WIDTH * 2)"
    "source_ok f QSA_PENDING (qi_pending q, f mod COMPRESS_RATIO * INDEX_WIDTH * 2)"
    "source_ok f KVARN_RECORDS (kv_records k, record_tiles f * TILE_RECORD_BYTES)"
    "source_ok f KVARN_SINK_KEYS (kv_sink_keys k, SINK_BYTES)" "source_ok f KVARN_SINK_VALUES (kv_sink_values k, SINK_BYTES)"
    "source_ok f KVARN_TAIL_KEYS (kv_tail_keys k, TAIL_BYTES)" "source_ok f KVARN_TAIL_VALUES (kv_tail_values k, TAIL_BYTES)"
    using ok fr Qsa_State by (simp_all add: record_bytes_tiles)
  show ?thesis
    unfolding read_layer_def layer_kind_def Qsa_State Let_def prod.case layer_state.case mixer_kind.case
    apply (simp only: env(3) ensure_simps m_bind_lift_Inr)
    apply (rule section_step [OF env fits(9) src ok'(1)])
    apply (rule section_step [OF env fits(10) _ ok'(2)], assumption)
    apply (simp only: qsa_from_back [OF _ _ ctx] failing_simps m_bind_lift_Inr)
    apply (rule section_step [OF env fits(11) _ ok'(3)], assumption)
    apply (rule section_step [OF env fits(5) _ ok'(4)], assumption)
    apply (rule section_step [OF env fits(6) _ ok'(5)], assumption)
    apply (rule section_step [OF env fits(7) _ ok'(6)], assumption)
    apply (rule section_step [OF env fits(8) _ ok'(7)], assumption)
    apply (simp only: kvarn_from_back [OF _ _ _ _ _ ctx] failing_simps bindr_simps m_lift_def)
    apply (simp add: layer_frontier_def qsa_frontier_def kvarn_frontier_def layer_live_def read_back_def fr record_bytes_tiles)
    done
qed

lemma read_layers_total:
  assumes env: "reads_well env" "TILE_RECORD_BYTES \<le> staging"
    and ctx: "0 < f" "f \<le> he_max_context en" "he_max_context en \<le> MAX_POSITIONS"
    and ls: "\<forall>l\<in>set ls. layer_at f l \<and> sources_ok f (layer_sources l)" "k + length ls \<le> 2 ^ 16"
    and pos: "positioned whole (layers_bytes f k ls @ later) r"
  shows "\<exists>ls' r'. m_for (zip [k..<k + length ls] (map layer_kind ls)) (\<lambda>entry layers.
       m_bind (read_layer env en staging f entry) (\<lambda>layer. m_return (layers @ [layer]))) acc r = (Inr (acc @ ls'), r')
    \<and> positioned whole later r' \<and> (\<forall>l\<in>set ls'. layer_frontier l = Inr f) \<and> map (layer_live f) ls' = map (layer_live f) ls
    \<and> map layer_kind ls' = map layer_kind ls"
  using ls pos
proof (induction ls arbitrary: k acc r)
  case (Cons l ls)
  have k: "[k..<k + length (l # ls)] = k # [Suc k..<Suc k + length ls]" by (simp add: upt_rec)
  have "k < 2 ^ 16" using Cons.prems(2) by simp
  from read_layer_total [OF env this ctx, where l = l and whole = whole and later = "layers_bytes f (Suc k) ls @ later" and r = r] Cons.prems obtain l' r1 where
    one: "read_layer env en staging f (k, layer_kind l) r = (Inr l', r1)" "positioned whole (layers_bytes f (Suc k) ls @ later) r1"
      "layer_frontier l' = Inr f" "layer_live f l' = layer_live f l" "layer_kind l' = layer_kind l" by auto
  have p: "\<forall>l\<in>set ls. layer_at f l \<and> sources_ok f (layer_sources l)" "Suc k + length ls \<le> 2 ^ 16" using Cons.prems(1,2) by simp_all
  from Cons.IH [OF p one(2), of "acc @ [l']"] obtain ls' r' where
    rest: "m_for (zip [Suc k..<Suc k + length ls] (map layer_kind ls)) (\<lambda>entry layers.
       m_bind (read_layer env en staging f entry) (\<lambda>layer. m_return (layers @ [layer]))) (acc @ [l']) r1 = (Inr ((acc @ [l']) @ ls'), r')"
      "positioned whole later r'" "\<forall>l\<in>set ls'. layer_frontier l = Inr f" "map (layer_live f) ls' = map (layer_live f) ls"
      "map layer_kind ls' = map layer_kind ls" by blast
  have "m_bind (read_layer env en staging f (k, layer_kind l)) (\<lambda>layer. m_return (acc @ [layer])) r = (Inr (acc @ [l']), r1)"
    using one(1) by simp
  with one(3-5) rest show ?case
    unfolding k by (intro exI [of _ "l' # ls'"] exI [of _ r']) (simp del: upt_Suc m_simps)
qed auto

text \<open>What a committed session of the engine says about its layers and tokens.\<close>

lemma committed_layers:
  assumes "validate_committed s = Inr ()"
  shows "\<forall>l\<in>set (se_layers s). layer_at (se_frontier s) l" "length (se_tokens s) = se_frontier s" "\<forall>t\<in>set (se_tokens s). t < VOCAB"
proof -
  have all: "try_fold (\<lambda>u layer. bindr (layer_frontier layer) (\<lambda>f.
        ensure (f = F) msg (Inr ()))) () ls = Inr u \<Longrightarrow> \<forall>l\<in>set ls. layer_frontier l = Inr F" for ls F u and msg :: string
    by (induction ls) (auto simp: bindr_eq_Inr ensure_eq_Inr)
  have "layer_at f l" if "layer_frontier l = Inr f" for f l
    using that by (cases l) (auto simp: layer_frontier_def layer_at_def qsa_frontier_def kvarn_frontier_def bindr_eq_Inr ensure_eq_Inr)
  with assms show "\<forall>l\<in>set (se_layers s). layer_at (se_frontier s) l" "length (se_tokens s) = se_frontier s" "\<forall>t\<in>set (se_tokens s). t < VOCAB"
    by (auto simp: validate_committed_def session_frontier_def ple_validate_committed_def bindr_eq_Inr ensure_eq_Inr dest!: all)
qed

lemma layers_committed:
  "\<forall>l\<in>set ls. layer_frontier l = Inr f \<Longrightarrow> try_fold (\<lambda>u layer. bindr (layer_frontier layer) (\<lambda>g.
        ensure (g = f) msg (Inr ()))) () ls = Inr ()" for msg :: string
  by (induction ls) auto

lemma expected_layout_Inr:
  assumes "expected_layout en ctx f = Inr (file_bytes, sections, payload)"
  shows "0 < f" "f \<le> ctx" "f \<le> he_max_positions en" "HEADER_BYTES + TRAILER_BYTES \<le> file_bytes" "file_bytes < 2 ^ 64" "sections < 2 ^ 64"
  using assms
  by (auto simp: expected_layout_def Let_def ensure_eq_Inr bindr_eq_Inr ok_or_eq_Inr ckpt_add_def ckpt_bytes_def checked_add_eq_Some
      checked_mul_eq_Some u64_limit_pow wire_consts split: prod.splits)

lemma sections_bound:
  assumes "try_fold (layout_layer qs) acc kinds = Inr r" "snd acc < 2 ^ 32"
  shows "snd r < 2 ^ 32"
  using assms
proof (induction kinds arbitrary: acc)
  case (Cons kind kinds)
  then obtain acc' where a: "layout_layer qs acc kind = Inr acc'" "try_fold (layout_layer qs) acc' kinds = Inr r" by (auto simp: bindr_eq_Inr)
  have "snd acc' < 2 ^ 32"
    using a(1) by (cases kind) (auto simp: layout_layer_def bindr_eq_Inr more_sections_def ensure_eq_Inr)
  with Cons.IH a(2) show ?case by blast
qed simp

text \<open>The reader accepts the header that the writer wrote.\<close>

lemma field_after: "length xs = k \<Longrightarrow> field (xs @ ys) (k + n) w = field ys n w"
  by (simp add: field_def)

lemma field_next:
  assumes "\<And>n. field h (m + n) w = field (xs @ ys) n w" "length xs = k"
  shows "field h (m + k + n) w = field ys n w"
  using assms(1) [of "k + n"] field_after [OF assms(2), of ys n w] by (simp only: add.assoc)

lemma field_at: "x < 256 ^ w \<Longrightarrow> field (le_bytes w x @ ys) 0 w = x"
  by (simp add: field_def)

lemma header_fields:
  assumes "length scope = 32" "length (prefix_hash env tokens) = 32" "length tokens < 2 ^ 64" "file_bytes < 2 ^ 64" "sections < 2 ^ 32"
    "he_max_context en < 2 ^ 32" "he_eos en < 2 ^ 32"
  defines "h \<equiv> header_bytes env scope tokens en file_bytes sections"
  shows "length h = HEADER_BYTES" "take 16 h = MAGIC" "field h 16 4 = WIRE_VERSION" "take 32 (drop 20 h) = scope"
    "take 32 (drop 52 h) = prefix_hash env tokens" "field h 84 8 = length tokens" "field h 92 8 = file_bytes" "field h 100 4 = sections"
    "field h 104 4 = 0" "field h 108 4 = he_max_context en" "field h 112 4 = PRODUCER_VERSION" "field h 116 4 = he_eos en"
proof -
  have m: "length MAGIC = 16" by (simp add: MAGIC_def ascii_def)
  let ?p = "prefix_hash env tokens" and ?e = "le_bytes 4 (he_eos en)"
  let ?t6 = "le_bytes 4 PRODUCER_VERSION @ ?e" let ?t5 = "le_bytes 4 (he_max_context en) @ ?t6"
  let ?t4 = "replicate 4 0 @ ?t5" let ?t3 = "le_bytes 4 sections @ ?t4" let ?t2 = "le_bytes 8 file_bytes @ ?t3"
  let ?t1 = "le_bytes 8 (length tokens) @ ?t2" let ?t0 = "scope @ ?p @ ?t1"
  have h: "h = MAGIC @ le_bytes 4 WIRE_VERSION @ ?t0" by (simp add: h_def header_bytes_def)
  have b: "length tokens < 256 ^ 8" "file_bytes < 256 ^ 8" "sections < 256 ^ 4" "he_max_context en < 256 ^ 4" "he_eos en < 256 ^ 4"
    "WIRE_VERSION < 256 ^ 4" "PRODUCER_VERSION < 256 ^ 4"
    using assms(3-7) by (simp_all add: WIRE_VERSION_def PRODUCER_VERSION_def)
  show "length h = HEADER_BYTES" using m assms(1,2) by (simp add: h HEADER_BYTES_def)
  show "take 16 h = MAGIC" using m by (simp add: h)
  show "take 32 (drop 20 h) = scope" using m assms(1) by (simp add: h)
  show "take 32 (drop 52 h) = ?p" using m assms(1,2) by (simp add: h)
  show "field h 16 4 = WIRE_VERSION" using m field_at [OF b(6), of ?t0] by (simp add: h field_def)
  have t1: "field h (84 + n) w = field ?t1 n w" for n w
    using field_after [of "MAGIC @ le_bytes 4 WIRE_VERSION @ scope @ ?p" 84 ?t1 n w] m assms(1,2) by (simp add: h)
  have t2: "field h (92 + n) w = field ?t2 n w" for n w using field_next [OF t1, where k = 8 and n = n and w = w] by simp
  have t3: "field h (100 + n) w = field ?t3 n w" for n w using field_next [OF t2, where k = 8 and n = n and w = w] by simp
  have t4: "field h (104 + n) w = field ?t4 n w" for n w using field_next [OF t3, where k = 4 and n = n and w = w] by simp
  have t5: "field h (108 + n) w = field ?t5 n w" for n w using field_next [OF t4, where k = 4 and n = n and w = w] by simp
  have t6: "field h (112 + n) w = field ?t6 n w" for n w using field_next [OF t5, where k = 4 and n = n and w = w] by simp
  have t7: "field h (116 + n) w = field ?e n w" for n w using field_next [OF t6, where k = 4 and n = n and w = w] by simp
  show "field h 84 8 = length tokens" using t1 [of 0 8] field_at [OF b(1)] by simp
  show "field h 92 8 = file_bytes" using t2 [of 0 8] field_at [OF b(2)] by simp
  show "field h 100 4 = sections" using t3 [of 0 4] field_at [OF b(3)] by simp
  show "field h 104 4 = 0" using t4 [of 0 4] by (simp add: field_def)
  show "field h 108 4 = he_max_context en" using t5 [of 0 4] field_at [OF b(4)] by simp
  show "field h 112 4 = PRODUCER_VERSION" using t6 [of 0 4] field_at [OF b(7)] by simp
  show "field h 116 4 = he_eos en" using t7 [of 0 4] field_at [OF b(5), of "[]"] by simp
qed

section \<open>The whole file\<close>

lemma consumes_positioned: "positioned whole (xs @ later) r \<Longrightarrow> consumes xs r r' \<Longrightarrow> positioned whole later r'"
  by (auto simp: positioned_def consumes_def)

lemma read_token_section:
  assumes env: "reads_well env" "TILE_RECORD_BYTES \<le> staging"
    and toks: "requested = tokens @ extra" "\<forall>t\<in>set tokens. t < VOCAB" "length tokens = f" "f \<le> MAX_POSITIONS"
    and pos: "positioned whole (section_bytes TOKENS 0 (token_bytes tokens) @ later) r"
  obtains r1 r2 where "r_section env TOKENS 0 (f * 4) r = (Inr (), r1)" "read_tokens env staging f requested r1 = (Inr tokens, r2)"
    "positioned whole later r2"
proof -
  have io: "\<forall>n. io_read env n" using env(1) by (simp add: reads_well_def)
  have n: "f * 4 < 2 ^ 64" using toks(4) by (simp add: MAX_POSITIONS_def)
  have pos': "positioned whole (section_header TOKENS 0 (f * 4) @ token_bytes tokens @ later) r"
    using pos toks(3) by (simp add: section_bytes_def)
  then have "hr_rest r = section_header TOKENS 0 (f * 4) @ token_bytes tokens @ later" by (simp add: positioned_def)
  from read_section_total [OF io _ _ n this] obtain r1 where r1: "r_section env TOKENS 0 (f * 4) r = (Inr (), r1)"
    "consumes (section_header TOKENS 0 (f * 4)) r r1" by (auto simp: TOKENS_def)
  note p1 = consumes_positioned [OF pos' r1(2)]
  then have "hr_rest r1 = token_bytes tokens @ later" by (simp add: positioned_def)
  from read_tokens_total [OF io env(2) toks(1-3) this] obtain r2 where
    r2: "read_tokens env staging f requested r1 = (Inr tokens, r2)" "consumes (token_bytes tokens) r1 r2" by auto
  from that [OF r1(1) r2(1) consumes_positioned [OF p1 r2(2)]] show thesis .
qed

lemma finish_total:
  assumes "reads_well env" "\<forall>x. length (sha256 env x) = 32" "positioned (body @ sha256 env body) (sha256 env body) r"
  shows "\<exists>r'. r_finish env r = (Inr (), r')"
  using assms by (auto simp: r_finish_def read_exact_def m_bind_def reads_well_def positioned_def invalid_unless_def)

lemma ple_from_back:
  assumes "read_back f PLE (PLE_WORDS * 2) (PLE_WORDS * 2) p0 p" "\<forall>t\<in>set tokens. t < VOCAB"
  shows "ple_from_buffer p tokens eos = Inr \<lparr> ple_context = ple_expected tokens eos, ple_conv = p, ple_offset = length tokens \<rparr>"
  using assms by (simp add: ple_from_buffer_def read_back_def empty_read ple_validate_committed_def PLE_WORDS_def)

text \<open>The session that the reader assembles.\<close>

definition restored :: "host_engine \<Rightarrow> nat \<Rightarrow> nat list \<Rightarrow> buffer \<Rightarrow> buffer \<Rightarrow> layer_state list \<Rightarrow> session" where
  "restored en f tokens logits p layers = \<lparr> se_owner = he_identity en, se_cache_origin = he_cache_identity en, se_frontier = f,
     se_valid = True, se_layers = layers,
     se_ple = \<lparr> ple_context = ple_expected tokens (he_eos en), ple_conv = p, ple_offset = length tokens \<rparr>,
     se_eos = he_eos en, se_tokens = tokens, se_logits = logits, se_last_logits = None, se_spans = [Span_Restored f] \<rparr>"

lemma restored_valid:
  assumes "0 < f" "f \<le> he_max_context en" "f \<le> MAX_POSITIONS" "length tokens = f" "\<forall>t\<in>set tokens. t < VOCAB"
    and "read_back f LOGITS (VOCAB * 2) (VOCAB * 2) l0 logits" "read_back f PLE (PLE_WORDS * 2) (PLE_WORDS * 2) p0 p"
    and "\<forall>l\<in>set layers. layer_frontier l = Inr f" "length layers = length (he_layers en)"
  shows "validate_snapshot_source en (restored en f tokens logits p layers) = Inr ()"
proof -
  have "checked_add 0 f = Some f" using assms(3) by (simp add: checked_add_def u64_limit_pow MAX_POSITIONS_def)
  moreover have "byte_len logits = VOCAB * 2" "byte_len p = PLE_WORDS * 2"
    using assms(6,7) by (simp_all add: read_back_def VOCAB_def PLE_WORDS_def)
  ultimately have "validate_committed (restored en f tokens logits p layers) = Inr ()"
    using assms layers_committed [OF assms(8)]
    by (simp add: restored_def validate_committed_def session_frontier_def sum_spans_def ple_validate_committed_def)
  with assms show ?thesis by (simp add: validate_snapshot_source_def) (simp add: restored_def)
qed

lemma restored_live:
  assumes "read_back (se_frontier s) LOGITS (VOCAB * 2) (VOCAB * 2) (se_logits s) logits"
    "read_back (se_frontier s) PLE (PLE_WORDS * 2) (PLE_WORDS * 2) (ple_conv (se_ple s)) p"
    and "map (layer_live (se_frontier s)) layers = map (layer_live (se_frontier s)) (se_layers s)"
  shows "session_live (restored en (se_frontier s) (se_tokens s) logits p layers) = session_live s"
  using assms by (simp add: session_live_def restored_def read_back_def layer_live_def [abs_def])

text \<open>The restored session is committed and has the frontier, the tokens and every live byte of the saved one.\<close>

lemma read_body_total:
  assumes env: "reads_well env" "\<forall>x. length (sha256 env x) = 32" "\<forall>n. \<exists>c. reserve_exact env n = Inr c"
    and st: "staging_new env (max_io_buffer_bytes limits) = Inr staging"
    and ctx: "he_max_context en \<le> MAX_POSITIONS" and valid: "validate_snapshot_source en s = Inr ()"
    and ok: "session_sources_ok s" and kinds: "map layer_kind (se_layers s) = he_layers en"
    and req: "requested = se_tokens s @ extra"
    and pos: "positioned (H @ session_sections s @ sha256 env (H @ session_sections s)) (session_sections s @ sha256 env (H @ session_sections s)) r"
  shows "\<exists>s' r'. read_body env en requested limits (se_frontier s) r = (Inr s', r') \<and> session_live s' = session_live s
    \<and> validate_snapshot_source en s' = Inr ()"
proof -
  let ?f = "se_frontier s" and ?sha = "sha256 env (H @ session_sections s)"
  note stg = conjunct1 [OF staging_new_Inr [OF st]]
  have com: "validate_committed s = Inr ()" and f: "0 < ?f" "?f \<le> he_max_context en"
    using valid by (auto simp: validate_snapshot_source_def bindr_eq_Inr ensure_eq_Inr)
  note c = committed_layers [OF com]
  have fm: "?f \<le> MAX_POSITIONS" using f(2) ctx by simp
  from read_token_section [OF env(1) stg req c(3,2) fm pos [unfolded session_sections_def append_assoc, folded session_sections_def]]
  obtain r1 r2 where tok: "r_section env TOKENS 0 (?f * 4) r = (Inr (), r1)" "read_tokens env staging ?f requested r1 = (Inr (se_tokens s), r2)"
    and p2: "positioned (H @ session_sections s @ ?sha) (section_bytes LOGITS 0 (live_bytes ?f LOGITS (se_logits s, VOCAB * 2))
      @ section_bytes PLE 0 (live_bytes ?f PLE (ple_conv (se_ple s), PLE_WORDS * 2)) @ layers_bytes ?f 0 (se_layers s) @ ?sha) r2"
    by (simp add: session_sections_def) metis
  have n4: "ckpt_bytes ?f 4 = Inr (?f * 4)" using fm by (simp add: ckpt_bytes_def checked_mul_def u64_limit_pow MAX_POSITIONS_def)
  obtain cap where cap: "reserve_exact env (?f * 4) = Inr cap" using env(3) by blast
  have ls: "\<forall>l\<in>set (se_layers s). layer_at ?f l \<and> sources_ok ?f (layer_sources l)" "0 + length (se_layers s) \<le> 2 ^ 16"
    using c(1) ok by (simp_all add: session_sources_ok_def)
  have n: "length (he_layers en) = length (se_layers s)" using kinds by (metis length_map)
  have assemble: "\<exists>s' r'. m_bind (m_lift (failing (ple_from_buffer p (se_tokens s) (he_eos en)))) (\<lambda>ple.
     m_bind (read_layers env en staging ?f) (\<lambda>layers.
     m_bind (r_finish env) (\<lambda>_.
     let s = \<lparr> se_owner = he_identity en, se_cache_origin = he_cache_identity en, se_frontier = ?f, se_valid = True,
               se_layers = layers, se_ple = ple, se_eos = he_eos en, se_tokens = se_tokens s, se_logits = logits,
               se_last_logits = None, se_spans = [Span_Restored ?f] \<rparr> in
     m_bind (m_lift (failing (validate_snapshot_source en s))) (\<lambda>_. m_return s)))) r0 = (Inr s', r')
    \<and> session_live s' = session_live s \<and> validate_snapshot_source en s' = Inr ()"
    if logits: "read_back ?f LOGITS (VOCAB * 2) (VOCAB * 2) (se_logits s) logits"
      and p: "read_back ?f PLE (PLE_WORDS * 2) (PLE_WORDS * 2) (ple_conv (se_ple s)) p"
      and r0: "positioned (H @ session_sections s @ ?sha) (layers_bytes ?f 0 (se_layers s) @ ?sha) r0" for logits p r0
  proof -
    from read_layers_total [OF env(1) stg f ctx ls r0, of "[]"] obtain layers r1 where
      lay: "read_layers env en staging ?f r0 = (Inr layers, r1)" "positioned (H @ session_sections s @ ?sha) ?sha r1"
        "\<forall>l\<in>set layers. layer_frontier l = Inr ?f" "map (layer_live ?f) layers = map (layer_live ?f) (se_layers s)"
        "map layer_kind layers = he_layers en"
      unfolding read_layers_def n by (auto simp: kinds)
    from finish_total [OF env(1,2), of "H @ session_sections s" r1] lay(2) obtain r2 where fin: "r_finish env r1 = (Inr (), r2)" by auto
    have "length layers = length (he_layers en)" using lay(5) by (metis length_map)
    from restored_valid [OF f fm c(2,3) logits p lay(3) this] restored_live [OF logits p lay(4), of en] show ?thesis
      using c(2) by (intro exI [of _ "restored en ?f (se_tokens s) logits p layers"] exI [of _ r2])
        (simp add: ple_from_back [OF p c(3)] lay(1) fin restored_def Let_def)
  qed
  show ?thesis
    unfolding read_body_def
    apply (simp only: st n4 failing_simps m_bind_lift_Inr m_bind_Inr tok(1) cap tok(2))
    apply (rule section_step [OF env(1) stg _ fixed_sections_fit(3) p2], simp, use ok in \<open>simp add: session_sources_ok_def\<close>)
    apply (rule section_step [OF env(1) stg _ fixed_sections_fit(4)], simp, assumption, use ok in \<open>simp add: session_sources_ok_def\<close>)
    apply (rule assemble)
    apply assumption+
    done
qed

end
