(* ===== verification/Checkpoint_Writing.thy ===== *)
theory Checkpoint_Writing
  imports Checkpoint_Session
begin

text \<open>
  The writer finishes: for a committed session whose buffers hold valid values, and file writes that succeed, the
  sections have exactly the lengths the layout adds up, so that the length check at the end of the file holds.
\<close>

text \<open>A writer step that appends known bytes whenever the byte count stays below 64 bits.\<close>

definition writes :: "unit writing \<Rightarrow> byte list \<Rightarrow> bool" where
  "writes m bs \<longleftrightarrow> (\<forall>w. hw_written w + length bs < u64_limit \<longrightarrow> (\<exists>w'. m w = (Inr (), w') \<and> appended bs w w'))"

lemma writesD: "writes m bs \<Longrightarrow> hw_written w + length bs < u64_limit \<Longrightarrow> \<exists>w'. m w = (Inr (), w') \<and> appended bs w w'"
  by (simp add: writes_def)

lemma writes_bind: "writes m xs \<Longrightarrow> writes k ys \<Longrightarrow> writes (m_bind m (\<lambda>_. k)) (xs @ ys)"
  unfolding writes_def
proof (intro allI impI)
  fix w :: hash_writer assume m: "\<forall>w. hw_written w + length xs < u64_limit \<longrightarrow> (\<exists>w'. m w = (Inr (), w') \<and> appended xs w w')"
    and k: "\<forall>w. hw_written w + length ys < u64_limit \<longrightarrow> (\<exists>w'. k w = (Inr (), w') \<and> appended ys w w')"
    and b: "hw_written w + length (xs @ ys) < u64_limit"
  from m [rule_format, of w] b obtain w1 where w1: "m w = (Inr (), w1)" "appended xs w w1" by auto
  then have "hw_written w1 + length ys < u64_limit" using b by (simp add: appended_def)
  with k obtain w2 where "k w1 = (Inr (), w2)" "appended ys w1 w2" by blast
  with w1 appended_trans show "\<exists>w'. m_bind m (\<lambda>_. k) w = (Inr (), w') \<and> appended (xs @ ys) w w'" by (intro exI [of _ w2]) auto
qed

lemma writes_lift: "r = Inr x \<Longrightarrow> writes (k x) ys \<Longrightarrow> writes (m_bind (m_lift r) k) ys"
  by (simp add: writes_def m_bind_def)

lemma writes_return: "writes (m_return ()) []"
  by (simp add: writes_def appended_def)

lemma writes_for:
  "list_all2 (\<lambda>x bs. writes (body x) bs) xs bss \<Longrightarrow> writes (m_for xs (\<lambda>x _. body x) ()) (concat bss)"
proof (induction xs bss rule: list_all2_induct)
  case Nil
  show ?case by (simp only: m_for.simps concat.simps writes_return)
next
  case (Cons x xs bs bss)
  have "m_for xs (\<lambda>x _. body x) = (\<lambda>_. m_for xs (\<lambda>x _. body x) ())" by (rule ext) simp
  with writes_bind [OF Cons.hyps(1) Cons.IH] show ?case by (metis (no_types, lifting) concat.simps(2) m_for.simps(2))
qed

lemma writes_w_write: "\<forall>n. io_write env n \<Longrightarrow> writes (w_write env bs) bs"
  unfolding writes_def
proof (intro allI impI)
  fix w :: hash_writer assume "\<forall>n. io_write env n" "hw_written w + length bs < u64_limit"
  then have "w_write env bs w = (Inr (), \<lparr> hw_out = hw_out w @ bs, hw_written = hw_written w + length bs \<rparr>)"
    by (simp add: w_write_Inr u64_limit_pow)
  then show "\<exists>w'. w_write env bs w = (Inr (), w') \<and> appended bs w w'" by (auto simp: appended_def)
qed

lemma writes_span:
  assumes io: "\<forall>n. io_write env n" and st: "TILE_RECORD_BYTES \<le> staging" and fit: "\<not> buf_reserved buf" "start + len \<le> byte_len buf"
    and ok: "valid_values kind (take len (drop start (buf_bytes buf)))"
  shows "writes (write_span env staging kind buf (start, len)) (take len (drop start (buf_bytes buf)))"
proof -
  let ?n = "staged_chunk staging kind" and ?xs = "take len (drop start (buf_bytes buf))"
  note n = staged_chunk_props [OF st, of kind]
  have l: "length ?xs = len" using fit(2) by (simp add: byte_len_def)
  have "writes (write_chunk env staging kind buf start len p) (take ?n (drop p ?xs))" if "p \<in> set (step_by ?n len)" for p
  proof -
    have p: "p < len" by (rule step_by_lt [OF n(1) that])
    have "p mod ?n = 0" using that by (auto simp: step_by_def)
    then have pm: "p mod alignment kind = 0" using n(2) by (metis dvd_trans mod_0_imp_dvd mod_eq_0_iff_dvd)
    have c: "take (min (len - p) ?n) (drop (start + p) (buf_bytes buf)) = take ?n (drop p ?xs)"
      using p by (simp add: drop_take min.commute add.commute)
    have "readable buf (start + p + min (len - p) ?n)" using fit p by (simp add: readable_def)
    then have r: "read_bytes buf (start + p) (min (len - p) ?n) = Inr (take ?n (drop p ?xs))" unfolding read_bytes_eq c by simp
    have v: "valid_values kind (take ?n (drop p ?xs))"
      by (rule valid_values_take_drop(1) [OF valid_values_take_drop(2) [OF ok pm] n(2)])
    show ?thesis unfolding write_chunk_def r failing_simps
      by (rule writes_lift [OF refl], rule writes_lift) (use v io in \<open>auto simp: validate_values_def invalid_unless_def writes_w_write\<close>)
  qed
  then have "list_all2 (\<lambda>p bs. writes (write_chunk env staging kind buf start len p) bs) (step_by ?n len) (chunks ?n ?xs)"
    unfolding chunks_def l by (simp add: list_all2_map2 list_all2_same)
  from writes_for [OF this] have "writes (m_for (step_by ?n len) (\<lambda>p _. write_chunk env staging kind buf start len p) ()) ?xs"
    using n(1) by simp
  then show ?thesis unfolding write_span_def Let_def prod.case by (intro writes_lift [where x = "()"]) (use fit in \<open>simp_all add: ensure_def\<close>)
qed

lemma writes_buffer:
  assumes io: "\<forall>n. io_write env n" and st: "TILE_RECORD_BYTES \<le> staging" and ok: "\<not> buf_reserved (fst source)" "source_ok f kind source"
  shows "writes (write_buffer env staging f kind layer source) (section_bytes kind layer (live_bytes f kind source))"
proof -
  obtain buf bytes where s: "source = (buf, bytes)" by fastforce
  let ?ss = "spans f kind bytes"
  have len: "length (live_bytes f kind source) = span_total ?ss" using source_ok_length [OF ok(2)] s by simp
  have "list_all2 (\<lambda>span bs. writes (write_span env staging kind buf span) bs) ?ss
      (map (\<lambda>(start, len). take len (drop start (buf_bytes buf))) ?ss)"
    using ok writes_span [OF io st] s by (auto simp: list_all2_map2 list_all2_same source_ok_def)
  from writes_for [OF this] have "writes (m_for ?ss (\<lambda>span _. write_span env staging kind buf span) ()) (live_bytes f kind source)"
    by (simp add: live_bytes_def s)
  with writes_w_write [OF io] show ?thesis
    unfolding write_buffer_def s Let_def prod.case section_bytes_def w_section_def len [symmetric, unfolded s] by (intro writes_bind)
qed

text \<open>The whole session.\<close>

definition unreserved :: "(nat \<times> (buffer \<times> nat)) list \<Rightarrow> bool" where
  "unreserved sources \<longleftrightarrow> (\<forall>(kind, source)\<in>set sources. \<not> buf_reserved (fst source))"

definition session_unreserved :: "session \<Rightarrow> bool" where
  "session_unreserved s \<longleftrightarrow> \<not> buf_reserved (se_logits s) \<and> \<not> buf_reserved (ple_conv (se_ple s))
     \<and> (\<forall>l\<in>set (se_layers s). unreserved (layer_sources l))"

lemma writes_sources:
  assumes "\<forall>n. io_write env n" "TILE_RECORD_BYTES \<le> staging" "unreserved (zip kinds ss)" "sources_ok f (zip kinds ss)"
  shows "writes (write_sources env staging f i kinds (Inr ss)) (sources_bytes f i (zip kinds ss))"
proof -
  have "list_all2 (\<lambda>e bs. writes (case e of (kind, source) \<Rightarrow> write_buffer env staging f kind i source) bs) (zip kinds ss)
      (map (\<lambda>(kind, source). section_bytes kind i (live_bytes f kind source)) (zip kinds ss))"
    unfolding list_all2_map2 list_all2_same
  proof
    fix e assume "e \<in> set (zip kinds ss)"
    then show "writes (case e of (kind, source) \<Rightarrow> write_buffer env staging f kind i source)
        (case e of (kind, source) \<Rightarrow> section_bytes kind i (live_bytes f kind source))"
      using assms(3,4) by (cases e) (auto simp: unreserved_def sources_ok_def intro!: writes_buffer [OF assms(1,2)])
  qed
  from writes_for [OF this] show ?thesis
    unfolding write_sources_def sources_bytes_def failing_simps
    by (intro writes_lift [OF refl]) (simp add: case_prod_unfold)
qed

lemma writes_layer:
  assumes io: "\<forall>n. io_write env n" "TILE_RECORD_BYTES \<le> staging" and l: "layer_frontier l = Inr f" "i < 2 ^ 16"
    and ok: "unreserved (layer_sources l)" "sources_ok f (layer_sources l)"
  shows "writes (write_layer env staging f (i, l)) (sources_bytes f i (layer_sources l))"
proof (cases l)
  case (Gdn_State g)
  then have "gdn_buffers g = Inr (gdn_conv g, gdn_recurrent g)" using l(1) by (simp add: layer_frontier_def gdn_buffers_def)
  with writes_sources [OF io, of "[GDN_CONV, GDN_RECURRENT]" "[(gdn_conv g, GDN_CONV_BYTES), (gdn_recurrent g, GDN_RECURRENT_BYTES)]"]
    ok Gdn_State show ?thesis
    unfolding write_layer_def Let_def prod.case by (intro writes_lift [where x = "()"]) (use l in auto)
next
  case (Qsa_State q k)
  then have f: "qsa_frontier q = Inr f" "kvarn_frontier k = Inr f" "qi_frontier q = f" "kv_frontier k = f"
    using l(1) by (auto simp: layer_frontier_def bindr_eq_Inr ensure_eq_Inr qsa_frontier_def kvarn_frontier_def)
  let ?a = "[(qi_compressed q, f div COMPRESS_RATIO * INDEX_WIDTH * 2), (qi_pending q, f mod COMPRESS_RATIO * INDEX_WIDTH * 2)]"
  let ?b = "[(kv_records k, record_bytes k), (kv_sink_keys k, SINK_BYTES), (kv_sink_values k, SINK_BYTES),
      (kv_tail_keys k, TAIL_BYTES), (kv_tail_values k, TAIL_BYTES)]"
  have b: "checkpoint_buffers q = Inr ?a" "kvarn_buffers k = Inr ?b"
    using f by (simp_all add: checkpoint_buffers_def logical_parts_byte_lengths_def kvarn_buffers_def)
  have s: "layer_sources l = zip INDEX_KINDS ?a @ zip KVARN_KINDS ?b" using f Qsa_State by (simp add: INDEX_KINDS_def KVARN_KINDS_def)
  have u: "unreserved (zip INDEX_KINDS ?a)" "unreserved (zip KVARN_KINDS ?b)" using ok(1) unfolding s unreserved_def by auto
  note o = ok(2) [unfolded s sources_append]
  from writes_bind [OF writes_sources [OF io u(1) conjunct1 [OF o]] writes_sources [OF io u(2) conjunct2 [OF o]], of i i]
  show ?thesis
    unfolding write_layer_def Let_def prod.case Qsa_State layer_state.case b
    by (intro writes_lift [where x = "()"]) (use l s Qsa_State in \<open>auto simp: sources_append(1)\<close>)
qed

lemma writes_layers:
  assumes io: "\<forall>n. io_write env n" "TILE_RECORD_BYTES \<le> staging"
    and ls: "\<forall>l\<in>set ls. layer_frontier l = Inr f \<and> unreserved (layer_sources l) \<and> sources_ok f (layer_sources l)" "k + length ls \<le> 2 ^ 16"
  shows "writes (m_for (zip [k..<k + length ls] ls) (\<lambda>entry _. write_layer env staging f entry) ()) (layers_bytes f k ls)"
  using ls
proof (induction ls arbitrary: k)
  case (Cons l ls)
  have k: "[k..<k + length (l # ls)] = k # [Suc k..<Suc k + length ls]" by (simp add: upt_rec)
  have rest: "\<forall>l\<in>set ls. layer_frontier l = Inr f \<and> unreserved (layer_sources l) \<and> sources_ok f (layer_sources l)" "Suc k + length ls \<le> 2 ^ 16"
    using Cons.prems by simp_all
  have "writes (write_layer env staging f (k, l)) (sources_bytes f k (layer_sources l))"
    using Cons.prems by (intro writes_layer [OF io]) simp_all
  from writes_bind [OF this Cons.IH [OF rest]] show ?case unfolding k by (simp del: upt_Suc)
qed (simp only: layers_bytes.simps list.size add_0_right upt_rec [of k k] less_irrefl if_False zip.simps m_for.simps writes_return)


section \<open>The length of the file\<close>

lemma length_section: "source_ok f kind (b, bytes) \<Longrightarrow> length (section_bytes kind i (live_bytes f kind (b, bytes))) = 12 + span_total (spans f kind bytes)"
  using source_ok_length [of f kind "(b, bytes)"] by (simp add: section_bytes_def)

lemma span_totals:
  "kind \<in> {KVARN_SINK_KEYS, KVARN_SINK_VALUES} \<Longrightarrow> span_total (spans f kind n) = fst (ring_payload_bytes f)"
  "kind \<in> {KVARN_TAIL_KEYS, KVARN_TAIL_VALUES} \<Longrightarrow> span_total (spans f kind n) = snd (ring_payload_bytes f)"
  "kind \<notin> {KVARN_SINK_KEYS, KVARN_SINK_VALUES, KVARN_TAIL_KEYS, KVARN_TAIL_VALUES} \<Longrightarrow> span_total (spans f kind n) = n"
proof -
  have two: "[0..<KV_HEADS] = [0, 1]" by (simp add: KV_HEADS_def upt_rec)
  have t: "TOKEN_BYTES = 1024" by (simp add: TOKEN_BYTES_def KV_HEADS_def HEAD_DIM_def)
  show "kind \<in> {KVARN_SINK_KEYS, KVARN_SINK_VALUES} \<Longrightarrow> span_total (spans f kind n) = fst (ring_payload_bytes f)"
    "kind \<in> {KVARN_TAIL_KEYS, KVARN_TAIL_VALUES} \<Longrightarrow> span_total (spans f kind n) = snd (ring_payload_bytes f)"
    "kind \<notin> {KVARN_SINK_KEYS, KVARN_SINK_VALUES, KVARN_TAIL_KEYS, KVARN_TAIL_VALUES} \<Longrightarrow> span_total (spans f kind n) = n"
    by (auto simp: spans_def span_total_def ring_payload_bytes_def two t HEAD_DIM_def section_kinds)
qed

definition qsa_payload :: "nat \<Rightarrow> nat list" where
  "qsa_payload f = [f div COMPRESS_RATIO * INDEX_WIDTH * 2, f mod COMPRESS_RATIO * INDEX_WIDTH * 2, record_tiles f * TILE_RECORD_BYTES,
     fst (ring_payload_bytes f), fst (ring_payload_bytes f), snd (ring_payload_bytes f), snd (ring_payload_bytes f)]"

definition kind_payload :: "nat \<Rightarrow> mixer_kind \<Rightarrow> nat" where
  "kind_payload f kind = (case kind of Gdn \<Rightarrow> GDN_CONV_BYTES + GDN_RECURRENT_BYTES | Qsa \<Rightarrow> sum_list (qsa_payload f))"

definition kind_sections :: "mixer_kind \<Rightarrow> nat" where
  "kind_sections kind = (case kind of Gdn \<Rightarrow> 2 | Qsa \<Rightarrow> 7)"

lemma length_layer:
  assumes "layer_frontier l = Inr f" "sources_ok f (layer_sources l)"
  shows "length (sources_bytes f i (layer_sources l)) = kind_payload f (layer_kind l) + 12 * kind_sections (layer_kind l)"
proof (cases l)
  case (Gdn_State g)
  with assms show ?thesis
    by (simp add: length_section span_totals section_kinds kind_payload_def kind_sections_def layer_kind_def)
next
  case (Qsa_State q k)
  then have f: "qi_frontier q = f" "kv_frontier k = f"
    using assms(1) by (auto simp: layer_frontier_def bindr_eq_Inr ensure_eq_Inr qsa_frontier_def kvarn_frontier_def)
  have t: "span_total (spans f QSA_COMPRESSED n) = n" "span_total (spans f QSA_PENDING n) = n" "span_total (spans f KVARN_RECORDS n) = n"
    "span_total (spans f KVARN_SINK_KEYS n) = fst (ring_payload_bytes f)" "span_total (spans f KVARN_SINK_VALUES n) = fst (ring_payload_bytes f)"
    "span_total (spans f KVARN_TAIL_KEYS n) = snd (ring_payload_bytes f)" "span_total (spans f KVARN_TAIL_VALUES n) = snd (ring_payload_bytes f)" for n
    by (rule span_totals; simp add: section_kinds)+
  from assms(2) Qsa_State f show ?thesis
    by (simp add: length_section t kind_payload_def kind_sections_def layer_kind_def qsa_payload_def record_bytes_tiles)
qed

lemma length_layers:
  "\<forall>l\<in>set ls. layer_frontier l = Inr f \<and> sources_ok f (layer_sources l) \<Longrightarrow> length (layers_bytes f i ls)
     = sum_list (map (kind_payload f \<circ> layer_kind) ls) + 12 * sum_list (map (kind_sections \<circ> layer_kind) ls)"
  by (induction ls arbitrary: i) (simp_all add: length_layer)

lemma try_fold_add: "try_fold ckpt_add acc ns = Inr r \<Longrightarrow> r = acc + sum_list ns"
proof (induction ns arbitrary: acc)
  case (Cons n ns)
  then obtain acc' where "ckpt_add acc n = Inr acc'" "try_fold ckpt_add acc' ns = Inr r" by (auto simp: bindr_eq_Inr)
  moreover from this(1) have "acc' = acc + n" by (simp add: ckpt_add_def ok_or_eq_Inr checked_add_eq_Some)
  ultimately show ?case using Cons.IH [of acc'] by simp
qed simp

lemma layout_layers:
  assumes "try_fold (layout_layer (qsa_payload f)) acc kinds = Inr r"
  shows "r = (fst acc + sum_list (map (kind_payload f) kinds), snd acc + sum_list (map kind_sections kinds))"
  using assms
proof (induction kinds arbitrary: acc)
  case (Cons kind kinds)
  then obtain acc' where a: "layout_layer (qsa_payload f) acc kind = Inr acc'" "try_fold (layout_layer (qsa_payload f)) acc' kinds = Inr r"
    by (auto simp: bindr_eq_Inr)
  have "acc' = (fst acc + kind_payload f kind, snd acc + kind_sections kind)"
    using a(1) try_fold_add
    by (cases kind) (auto simp: layout_layer_def bindr_eq_Inr more_sections_def ensure_eq_Inr ckpt_add_def ok_or_eq_Inr checked_add_eq_Some
        kind_payload_def kind_sections_def)
  with Cons.IH [OF a(2)] show ?case by simp
qed simp

lemma expected_length:
  assumes "expected_layout en ctx f = Inr (expected, sections, payload)"
  shows "payload = f * 4 + VOCAB * 2 + PLE_WORDS * 2 + sum_list (map (kind_payload f) (he_layers en))"
    "sections = 3 + sum_list (map kind_sections (he_layers en))" "expected = HEADER_BYTES + 12 * sections + payload + TRAILER_BYTES"
proof -
  obtain p0 r where run: "try_fold (layout_layer (qsa_payload f)) (p0, 3) (he_layers en) = Inr (payload, sections)"
    and p0: "p0 = f * 4 + VOCAB * 2 + PLE_WORDS * 2" and e: "expected = HEADER_BYTES + 12 * sections + payload + TRAILER_BYTES"
    using assms
    by (auto simp: expected_layout_def ring_payload_bytes_def qsa_payload_def Let_def ensure_eq_Inr bindr_eq_Inr ckpt_bytes_def ckpt_add_def
        ok_or_eq_Inr checked_mul_eq_Some checked_add_eq_Some SECTION_HEADER_BYTES_def)
  from layout_layers [OF run] p0 e show "payload = f * 4 + VOCAB * 2 + PLE_WORDS * 2 + sum_list (map (kind_payload f) (he_layers en))"
    "sections = 3 + sum_list (map kind_sections (he_layers en))" "expected = HEADER_BYTES + 12 * sections + payload + TRAILER_BYTES"
    by simp_all
qed


section \<open>The session is written\<close>

lemma committed_frontiers:
  assumes "validate_committed s = Inr ()"
  shows "\<forall>l\<in>set (se_layers s). layer_frontier l = Inr (se_frontier s)"
proof -
  have all: "try_fold (\<lambda>u layer. bindr (layer_frontier layer) (\<lambda>f.
        ensure (f = F) msg (Inr ()))) () ls = Inr u \<Longrightarrow> \<forall>l\<in>set ls. layer_frontier l = Inr F" for ls F u and msg :: string
    by (induction ls) (auto simp: bindr_eq_Inr ensure_eq_Inr)
  from assms show ?thesis
    by (auto simp: validate_committed_def session_frontier_def ple_validate_committed_def bindr_eq_Inr ensure_eq_Inr dest!: all)
qed

lemma session_length:
  assumes valid: "validate_committed s = Inr ()" and ok: "session_sources_ok s" and kinds: "map layer_kind (se_layers s) = he_layers en"
    and layout: "expected_layout en ctx (se_frontier s) = Inr (expected, sections, payload)"
  shows "length (session_sections s) = expected - HEADER_BYTES - TRAILER_BYTES"
proof -
  have ls: "\<forall>l\<in>set (se_layers s). layer_frontier l = Inr (se_frontier s) \<and> sources_ok (se_frontier s) (layer_sources l)"
    using committed_frontiers [OF valid] ok by (simp add: session_sources_ok_def)
  have k: "map (kind_payload f \<circ> layer_kind) (se_layers s) = map (kind_payload f) (he_layers en)"
    "map (kind_sections \<circ> layer_kind) (se_layers s) = map kind_sections (he_layers en)" for f
    using kinds by (metis map_map)+
  have t: "span_total (spans f LOGITS n) = n" "span_total (spans f PLE n) = n" for f n
    by (rule span_totals; simp add: section_kinds)+
  from expected_length [OF layout] length_layers [OF ls, of 0] ok committed_layers(2) [OF valid] show ?thesis
    by (simp add: session_sections_def session_sources_ok_def length_section t k section_bytes_def [of TOKENS])
qed

lemma write_session_total:
  assumes io: "\<forall>n. io_write env n" and st: "staging_new env limit = Inr staging" and sha: "\<forall>x. length (sha256 env x) = 32" "length scope = 32"
    and valid: "validate_snapshot_source en s = Inr ()" "session_sources_ok s" "session_unreserved s" "map layer_kind (se_layers s) = he_layers en"
    and layout: "expected_layout en (he_max_context en) (se_frontier s) = Inr (expected, sections, payload)" "he_max_context en < 2 ^ 32"
  shows "\<exists>w. write_session env en s scope expected sections limit \<lparr> hw_out = [], hw_written = 0 \<rparr> = (Inr (), w)"
proof -
  let ?H = "header_bytes env scope (se_tokens s) en expected sections" and ?f = "se_frontier s" and ?w0 = "\<lparr> hw_out = [], hw_written = 0 \<rparr>"
  note stg = conjunct1 [OF staging_new_Inr [OF st]]
  have com: "validate_committed s = Inr ()" using valid(1) by (auto simp: validate_snapshot_source_def bindr_eq_Inr ensure_eq_Inr)
  note c = committed_layers [OF com]
  note lay = expected_layout_Inr [OF layout(1)]
  have h: "header env scope (se_tokens s) en expected sections = Inr ?H" using layout(2) by (simp add: header_def header_bytes_def)
  have lH: "length ?H = HEADER_BYTES" using sha by (simp add: header_bytes_def prefix_hash_def HEADER_BYTES_def MAGIC_def ascii_def)
  have n4: "ckpt_bytes ?f 4 = Inr (?f * 4)" using lay(2) layout(2) by (simp add: ckpt_bytes_def checked_mul_def u64_limit_pow)
  have toks: "writes (u32_section env TOKENS 0 (se_tokens s) (?f * 4)) (section_bytes TOKENS 0 (token_bytes (se_tokens s)))"
  proof -
    have "list_all2 (\<lambda>block bs. writes (w_write env (token_bytes block)) bs) bs (map token_bytes bs)" for bs
      using writes_w_write [OF io] by (simp add: list_all2_map2 list_all2_same)
    from writes_for [OF this, of "chunks (CHUNK_BYTES div 4) (se_tokens s)"] have "writes (words32 env (se_tokens s))
        (concat (map token_bytes (chunks (CHUNK_BYTES div 4) (se_tokens s))))" by (simp add: words32_def)
    moreover have "concat (map token_bytes bs) = token_bytes (concat bs)" for bs
      by (induction bs) (simp_all add: token_bytes_append, simp add: token_bytes_def)
    ultimately have w: "writes (words32 env (se_tokens s)) (token_bytes (se_tokens s))" by (simp add: CHUNK_BYTES_def)
    show ?thesis
      unfolding u32_section_def c(2) n4 failing_simps
      by (rule writes_lift [OF refl], rule writes_lift [where x = "()"])
        (use w io c(2) in \<open>auto simp: w_section_def section_bytes_def intro!: writes_bind writes_w_write\<close>)
  qed
  have ls: "\<forall>l\<in>set (se_layers s). layer_frontier l = Inr ?f \<and> unreserved (layer_sources l) \<and> sources_ok ?f (layer_sources l)"
    "0 + length (se_layers s) \<le> 2 ^ 16"
    using committed_frontiers [OF com] valid(2,3) by (simp_all add: session_sources_ok_def session_unreserved_def)
  have parts: "source_ok ?f LOGITS (se_logits s, VOCAB * 2)" "source_ok ?f PLE (ple_conv (se_ple s), PLE_WORDS * 2)"
    "\<not> buf_reserved (fst (se_logits s, VOCAB * 2))" "\<not> buf_reserved (fst (ple_conv (se_ple s), PLE_WORDS * 2))"
    using valid(2,3) by (simp_all add: session_sources_ok_def session_unreserved_def)
  let ?body = "m_bind (w_write env ?H) (\<lambda>_. m_bind (u32_section env TOKENS 0 (se_tokens s) (?f * 4)) (\<lambda>_.
     m_bind (write_buffer env staging ?f LOGITS 0 (se_logits s, VOCAB * 2)) (\<lambda>_.
     m_bind (write_buffer env staging ?f PLE 0 (ple_conv (se_ple s), PLE_WORDS * 2)) (\<lambda>_.
     m_for (zip [0..<length (se_layers s)] (se_layers s)) (\<lambda>entry _. write_layer env staging ?f entry) ()))))"
  have body: "writes ?body (?H @ session_sections s)"
    unfolding session_sections_def
    by (intro writes_bind writes_w_write [OF io] toks writes_buffer [OF io stg] parts writes_layers [OF io stg ls, unfolded add_0])
  have len: "length (?H @ session_sections s) = expected - TRAILER_BYTES"
    using session_length [OF com valid(2,4) layout(1)] lH lay(4) by simp
  have "hw_written ?w0 + length (?H @ session_sections s) < u64_limit" unfolding len using lay(5) by (simp add: u64_limit_pow)
  from writesD [OF body this] obtain w where w: "?body ?w0 = (Inr (), w)" "appended (?H @ session_sections s) ?w0 w" by blast
  have "hw_written w = expected - TRAILER_BYTES" using w(2) len by (simp add: appended_def)
  with w(1) io have "write_session env en s scope expected sections limit ?w0 = (Inr (), w \<lparr> hw_out := hw_out w @ sha256 env (hw_out w) \<rparr>)"
    by (auto simp: write_session_def m_bind_eq_Inr valid(1) st h n4 ensure_eq_Inr)
  then show ?thesis by blast
qed

end
