(* ===== verification/Checkpoint_Properties.thy ===== *)
theory Checkpoint_Properties
  imports Checkpoint_Writing Snapshot_Properties
begin

text \<open>
  Properties of checkpoint files: what a finished file is, that reading it back gives the saved session, and what
  an accepted file must be.
\<close>

section \<open>Reading a written file\<close>

lemma layout_sections:
  assumes "expected_layout en ctx f = Inr (file_bytes, sections, payload)"
  shows "sections < 2 ^ 32"
proof -
  obtain qs p0 r where "try_fold (layout_layer qs) (p0, 3) (he_layers en) = Inr r" "sections = snd r"
    using assms by (auto simp: expected_layout_def ring_payload_bytes_def Let_def ensure_eq_Inr bindr_eq_Inr)
  then show ?thesis using sections_bound [of qs "(p0, 3)" "he_layers en" r] by simp
qed

lemma read_session_total:
  assumes env: "reads_well env" "\<forall>x. length (sha256 env x) = 32" "\<forall>n. \<exists>c. reserve_exact env n = Inr c"
    and st: "staging_new env (max_io_buffer_bytes limits) = Inr staging"
    and layout: "expected_layout en (he_max_context en) (se_frontier s) = Inr (expected, sections, payload)"
    and en: "length scope = 32" "he_eos en < 2 ^ 32" "he_max_context en \<le> MAX_POSITIONS"
    and valid: "validate_snapshot_source en s = Inr ()" "session_sources_ok s" "map layer_kind (se_layers s) = he_layers en"
    and H: "H = header_bytes env scope (se_tokens s) en expected sections"
    and bytes: "length (H @ session_sections s) = expected - TRAILER_BYTES" "expected \<le> max_file_bytes limits"
  shows "\<exists>s'. read_session env en scope (se_tokens s @ extra) limits (H @ session_sections s @ sha256 env (H @ session_sections s)) = Inr (Some s')
    \<and> session_live s' = session_live s \<and> validate_snapshot_source en s' = Inr ()"
proof -
  let ?all = "H @ session_sections s @ sha256 env (H @ session_sections s)" and ?f = "se_frontier s"
  let ?r0 = "\<lparr> hr_rest = ?all, hr_hashed = [] \<rparr>"
  note lay = expected_layout_Inr [OF layout]
  have len: "length ?all = expected" using bytes(1) env(2) lay(4) by (simp add: wire_consts)
  have com: "validate_committed s = Inr ()" using valid(1) by (auto simp: validate_snapshot_source_def bindr_eq_Inr ensure_eq_Inr)
  note c = committed_layers [OF com]
  have ph: "length (prefix_hash env (se_tokens s)) = 32" using env(2) by (simp add: prefix_hash_def)
  have bnd: "length (se_tokens s) < 2 ^ 64" "he_max_context en < 2 ^ 32" using c(2) lay(2) en(3) by (simp_all add: MAX_POSITIONS_def)
  note h = header_fields [OF en(1) ph bnd(1) lay(5) layout_sections [OF layout] bnd(2) en(2), folded H]
  have io: "\<forall>n. io_read env n" using env(1) by (simp add: reads_well_def)
  have "hr_rest ?r0 = H @ (session_sections s @ sha256 env (H @ session_sections s))" by simp
  from r_read_total [OF io this h(1)] obtain r1 where r1: "r_read env HEADER_BYTES ?r0 = (Inr H, r1)" "consumes H ?r0 r1" by blast
  have "positioned ?all ?all ?r0" by (simp add: positioned_def)
  from consumes_positioned [OF this r1(2)] have p1: "positioned ?all (session_sections s @ sha256 env (H @ session_sections s)) r1" .
  from read_body_total [OF env st en(3) valid refl p1] obtain s' r' where
    b: "read_body env en (se_tokens s @ extra) limits ?f r1 = (Inr s', r')" "session_live s' = session_live s"
      "validate_snapshot_source en s' = Inr ()" by blast
  have size: "HEADER_BYTES + TRAILER_BYTES \<le> length ?all \<and> length ?all \<le> max_file_bytes limits" using len lay(4) bytes(2) by simp
  have geo: "validate_header_geometry H (length ?all) expected sections (he_eos en) = Inr ()"
    using h len c(2) lay(2) by (simp add: validate_header_geometry_def invalid_unless_def)
  have "take ?f (se_tokens s @ extra) = se_tokens s" "\<not> length (se_tokens s @ extra) < ?f" using c(2) by simp_all
  with h c(2) b(1) layout geo size have "read_session env en scope (se_tokens s @ extra) limits ?all = Inr (Some s')"
    by (simp add: read_session_def invalid_unless_def r1(1) Let_def)
  with b show ?thesis by blast
qed

text \<open>C2: A checkpoint that was written completely restores: reading the file for any request that extends the saved tokens
  gives a committed session of this engine with the frontier, the tokens and every live byte of the saved session, and the
  file has exactly the length its layout names.\<close>

theorem checkpoint_roundtrip:
  assumes wrote: "write_session env en s scope expected sections limit \<lparr> hw_out = [], hw_written = 0 \<rparr> = (Inr u, w)"
    and layout: "expected_layout en (he_max_context en) (se_frontier s) = Inr (expected, sections, payload)"
    and env: "reads_well env" "\<forall>x. length (sha256 env x) = 32" "\<forall>n. \<exists>c. reserve_exact env n = Inr c"
    and staging: "staging_new env (max_io_buffer_bytes limits) = Inr staging" "expected \<le> max_file_bytes limits"
    and engine: "length scope = 32" "he_eos en < 2 ^ 32" "he_max_context en \<le> MAX_POSITIONS" "map layer_kind (se_layers s) = he_layers en"
  shows "length (hw_out w) = expected \<and> (\<exists>s'. read_session env en scope (se_tokens s @ extra) limits (hw_out w) = Inr (Some s')
    \<and> session_live s' = session_live s \<and> validate_snapshot_source en s' = Inr ())"
proof -
  note w = write_session_Inr [OF wrote]
  have "length (hw_out w) = expected" using w(1,2) env(2) expected_layout_Inr(4) [OF layout] by (simp add: wire_consts)
  with read_session_total [OF env staging(1) layout engine(1-3) w(4,3) engine(4) refl w(2) staging(2)] w(1) show ?thesis by simp
qed

section \<open>What an accepted file is\<close>

lemma keeps_r_read: "keeps (\<lambda>r. hr_hashed r @ hr_rest r = whole) (r_read env n)"
  unfolding keeps_def r_read_def read_exact_def
  by (auto simp: m_bind_def ensure_def split: sum.splits prod.splits)

lemma keeps_reading:
  "keeps (\<lambda>r. hr_hashed r @ hr_rest r = whole) (r_section env kind layer n)"
  "keeps (\<lambda>r. hr_hashed r @ hr_rest r = whole) (read_buffer env staging f kind layer n allocation)"
  "keeps (\<lambda>r. hr_hashed r @ hr_rest r = whole) (read_tokens env staging f requested)"
proof -
  have s: "keeps (\<lambda>r. hr_hashed r @ hr_rest r = whole) (r_section env kind layer n)" for kind layer n
    unfolding r_section_def by (intro keeps_rules keeps_r_read)
  then show "keeps (\<lambda>r. hr_hashed r @ hr_rest r = whole) (r_section env kind layer n)" .
  have c: "keeps (\<lambda>r. hr_hashed r @ hr_rest r = whole) (read_chunk env staging kind start len offset b)" for start len offset b
    unfolding read_chunk_def by (intro keeps_rules keeps_r_read)
  have "keeps (\<lambda>r. hr_hashed r @ hr_rest r = whole) (read_span env staging kind span b)" for span b
    unfolding read_span_def Let_def by (cases span) (auto intro!: keeps_rules keeps_for c)
  then show "keeps (\<lambda>r. hr_hashed r @ hr_rest r = whole) (read_buffer env staging f kind layer n allocation)"
    unfolding read_buffer_def Let_def by (intro keeps_rules keeps_for s)
  show "keeps (\<lambda>r. hr_hashed r @ hr_rest r = whole) (read_tokens env staging f requested)"
    unfolding read_tokens_def by (auto intro!: keeps_rules keeps_for keeps_r_read split: prod.splits)
qed

lemma keeps_layers: "keeps (\<lambda>r. hr_hashed r @ hr_rest r = whole) (read_layers env en staging f)"
proof -
  have "keeps (\<lambda>r. hr_hashed r @ hr_rest r = whole) (read_layer env en staging f entry)" for entry
    unfolding read_layer_def Let_def by (cases entry; cases "snd entry") (auto intro!: keeps_rules keeps_reading)
  then show ?thesis unfolding read_layers_def by (intro keeps_rules keeps_for)
qed

text \<open>The tokens a reader returns are those of the request.\<close>

lemma read_words_Inr:
  assumes "m_for (zip ws es) (\<lambda>(word, expected) consumed.
         m_lift (invalid_unless (le_value word < VOCAB \<and> le_value word = expected) msg (Inr (consumed @ [le_value word])))) acc r = (Inr c, r')"
    and "length ws \<le> length es"
  shows "c = acc @ take (length ws) es \<and> r' = r"
  using assms
proof (induction ws arbitrary: es acc)
  case (Cons word ws)
  then obtain e es' where es: "es = e # es'" by (cases es) auto
  from Cons.prems(1) [unfolded es zip_Cons_Cons m_for_Cons_Inr prod.case] obtain b u where
    b: "m_lift (invalid_unless (le_value word < VOCAB \<and> le_value word = e) msg (Inr (acc @ [le_value word]))) r = (Inr b, u)"
    and rest': "m_for (zip ws es') (\<lambda>(word, expected) consumed.
         m_lift (invalid_unless (le_value word < VOCAB \<and> le_value word = expected) msg (Inr (consumed @ [le_value word])))) b u = (Inr c, r')"
    by blast
  from b have "e = le_value word" "b = acc @ [le_value word]" "u = r" by (auto simp: invalid_unless_Inr)
  with rest' have rest: "m_for (zip ws es') (\<lambda>(word, expected) consumed.
         m_lift (invalid_unless (le_value word < VOCAB \<and> le_value word = expected) msg (Inr (consumed @ [le_value word]))))
       (acc @ [le_value word]) r = (Inr c, r')" by (simp only:)
  from Cons.IH [OF rest] Cons.prems(2) es \<open>e = le_value word\<close> show ?case by simp
qed simp

lemma length_as_chunks: "0 < n \<Longrightarrow> length bs = k * n \<Longrightarrow> length (as_chunks n bs) = k"
  by (simp add: as_chunks_def)

lemma read_tokens_Inr:
  assumes run: "read_tokens env staging f requested r = (Inr tokens, r')" and "TILE_RECORD_BYTES \<le> staging" "f \<le> length requested"
  shows "tokens = take f requested"
proof -
  let ?n = "staging div 4"
  have n: "0 < ?n" using assms(2) by (simp add: kvarn_consts div_greater_zero_iff)
  show ?thesis
  proof (rule m_for_steps [OF run [unfolded read_tokens_def] n, where P = "\<lambda>p c s. c = take p requested"])
    fix p c s c' s' assume p: "p < f" and c: "c = take p requested"
      and step: "m_bind (r_read env (min (f - p) ?n * 4)) (\<lambda>bs.
       m_for (zip (as_chunks 4 bs) (drop p requested)) (\<lambda>(word, expected) consumed.
         m_lift (invalid_unless (le_value word < VOCAB \<and> le_value word = expected) ''checkpoint token lineage differs''
           (Inr (consumed @ [le_value word])))) c) s = (Inr c', s')"
    then obtain bs s1 where bs: "length bs = min (f - p) ?n * 4"
      and loop: "m_for (zip (as_chunks 4 bs) (drop p requested)) (\<lambda>(word, expected) consumed.
         m_lift (invalid_unless (le_value word < VOCAB \<and> le_value word = expected) ''checkpoint token lineage differs''
           (Inr (consumed @ [le_value word])))) c s1 = (Inr c', s')"
      by (auto simp: m_bind_eq_Inr r_read_Inr)
    have l: "length (as_chunks 4 bs) = min (f - p) ?n" using bs by (simp add: length_as_chunks)
    have "length (as_chunks 4 bs) \<le> length (drop p requested)" using l p assms(3) by simp
    from read_words_Inr [OF loop this] l c take_min_step [OF p, of ?n requested] show "c' = take (min (p + ?n) f) requested"
      by (simp add: min.commute)
  qed simp
qed

lemma r_finish_Inr:
  assumes "r_finish env r = (Inr u, r')"
  shows "hr_rest r = sha256 env (hr_hashed r) \<and> length (hr_rest r) = 32"
  using assms
  by (auto simp: r_finish_def read_exact_def m_bind_eq_Inr ensure_eq_Inr invalid_unless_Inr)

lemma read_body_Inr:
  assumes run: "read_body env en requested limits f r = (Inr s, r')" and len: "f \<le> length requested"
    and whole: "hr_hashed r @ hr_rest r = whole"
  shows "(\<exists>body. whole = body @ sha256 env body \<and> length (sha256 env body) = 32) \<and> se_frontier s = f
    \<and> se_tokens s = take f requested \<and> validate_snapshot_source en s = Inr ()"
proof -
  let ?I = "\<lambda>r. hr_hashed r @ hr_rest r = whole"
  from run obtain staging n r1 r2 r3 r4 r5 r6 consumed logits p ple layers where
    st: "staging_new env (max_io_buffer_bytes limits) = Inr staging"
    and 1: "r_section env TOKENS 0 n r = (Inr (), r1)" and 2: "read_tokens env staging f requested r1 = (Inr consumed, r2)"
    and 3: "read_buffer env staging f LOGITS 0 (VOCAB * 2) (VOCAB * 2) r2 = (Inr logits, r3)"
    and 4: "read_buffer env staging f PLE 0 (PLE_WORDS * 2) (PLE_WORDS * 2) r3 = (Inr p, r4)"
    and 5: "read_layers env en staging f r4 = (Inr layers, r5)" and 6: "r_finish env r5 = (Inr (), r6)"
    and s: "se_frontier s = f" "se_tokens s = consumed" "validate_snapshot_source en s = Inr ()"
    unfolding read_body_def by (auto simp: m_bind_eq_Inr failing_Inr Let_def)
  have "?I r5"
    using keepsD [OF keeps_layers _ 5] keepsD [OF keeps_reading(2) _ 4] keepsD [OF keeps_reading(2) _ 3]
      keepsD [OF keeps_reading(3) _ 2] keepsD [OF keeps_reading(1) _ 1] whole by blast
  with r_finish_Inr [OF 6] have "whole = hr_hashed r5 @ sha256 env (hr_hashed r5)" "length (sha256 env (hr_hashed r5)) = 32" by metis+
  with s read_tokens_Inr [OF 2 conjunct1 [OF staging_new_Inr [OF st]] len] show ?thesis by blast
qed

text \<open>C3: A file that the reader accepts is intact and belongs to the request: its header names this scope, its length is the
  length of the layout of its frontier, its last 32 bytes are the digest of all others, the restored tokens are the first
  frontier tokens of the request, and the restored session is committed for this engine.\<close>

theorem accepted_file_is_intact:
  assumes "read_session env en scope requested limits whole = Inr (Some s)"
  shows "\<exists>body expected sections payload. whole = body @ sha256 env body \<and> length (sha256 env body) = 32
    \<and> take 16 whole = MAGIC \<and> take 32 (drop 20 whole) = scope \<and> se_frontier s = field whole 84 8
    \<and> expected_layout en (he_max_context en) (se_frontier s) = Inr (expected, sections, payload) \<and> length whole = expected
    \<and> se_tokens s = take (se_frontier s) requested \<and> se_frontier s \<le> length requested \<and> validate_snapshot_source en s = Inr ()"
proof -
  let ?r0 = "\<lparr> hr_rest = whole, hr_hashed = [] \<rparr>"
  from assms obtain head r1 r2 expected sections payload where head: "r_read env HEADER_BYTES ?r0 = (Inr head, r1)"
    and h: "take 16 head = MAGIC" "take 32 (drop 20 head) = scope"
      "expected_layout en (he_max_context en) (field head 84 8) = Inr (expected, sections, payload)"
      "length whole = expected" "field head 84 8 \<le> length requested"
    and body: "read_body env en requested limits (field head 84 8) r1 = (Inr s, r2)"
    by (auto simp: read_session_def Let_def invalid_unless_Inr m_bind_eq_Inr failing_Inr validate_header_geometry_def not_less
        dest!: eq_fst_iff [THEN iffD1, OF sym] split: if_splits prod.splits)
  have c: "consumes head ?r0 r1" "length head = HEADER_BYTES" using head by (simp_all add: r_read_Inr)
  have t: "take k (drop n whole) = take k (drop n head)" if "n + k \<le> 120" for n k
    using c that by (auto simp: consumes_def HEADER_BYTES_def)
  have "take 16 whole = take 16 head" "take 32 (drop 20 whole) = take 32 (drop 20 head)" "field whole 84 8 = field head 84 8"
    using t [of 0 16] t [of 20 32] t [of 84 8] by (simp_all add: field_def)
  moreover have "hr_hashed r1 @ hr_rest r1 = whole" using c by (simp add: consumes_def)
  ultimately show ?thesis using read_body_Inr [OF body h(5)] h by auto
qed


text \<open>C4: A committed session with valid, unreserved buffers is always written when file writes succeed: the sections have
  exactly the lengths that the layout adds up, so the length check before the digest cannot fail.\<close>

theorem valid_session_is_written:
  assumes "\<forall>n. io_write env n" "staging_new env limit = Inr staging" "\<forall>x. length (sha256 env x) = 32" "length scope = 32"
    and "validate_snapshot_source en s = Inr ()" "session_sources_ok s" "session_unreserved s" "map layer_kind (se_layers s) = he_layers en"
    and "expected_layout en (he_max_context en) (se_frontier s) = Inr (expected, sections, payload)" "he_max_context en < 2 ^ 32"
  shows "\<exists>w. write_session env en s scope expected sections limit \<lparr> hw_out = [], hw_written = 0 \<rparr> = (Inr (), w)"
  by (rule write_session_total [OF assms])

section \<open>A sample file\<close>

definition sample_cenv :: checkpoint_env where
  "sample_cenv = \<lparr> sha256 = (\<lambda>bs. le_bytes 32 (length bs)), io_write = (\<lambda>_. True), io_read = (\<lambda>_. True), reserve_exact = Inr,
     metal_alloc = (\<lambda>n. Inr (zeros n)) \<rparr>"

definition sample_limits :: disk_limits where
  "sample_limits = \<lparr> max_file_bytes = 30000000, max_io_buffer_bytes = 8388608 \<rparr>"

lemma sample_cenv_ok: "reads_well sample_cenv" "\<forall>n. io_write sample_cenv n" "\<forall>x. length (sha256 sample_cenv x) = 32"
  "\<forall>n. \<exists>c. reserve_exact sample_cenv n = Inr c"
  by (simp_all add: reads_well_def sample_cenv_def metal_allocates_def)

lemma sample_staging: "staging_new sample_cenv 8388608 = Inr 8388608"
  by (simp add: staging_new_def sample_cenv_def IO_BUFFER_BYTES_def kvarn_consts)

lemma sample_values: "valid_values kind (zeros n)" if "n mod 4 = 0" "kind \<noteq> KVARN_RECORDS"
  using that mod_mod_cancel [of 2 4 n] by (simp add: valid_values_def)

lemma sample_layout: "expected_layout sample_host 16 1 = Inr (3890732, 12, 3890436)"
  by (simp add: expected_layout_def sample_host_def ckpt_bytes_def ckpt_add_def checked_mul_def checked_add_def u64_limit_def
      ring_payload_bytes_def record_tiles_eq layout_layer_def more_sections_def session_consts kvarn_consts wire_consts)

lemma sample_sources_ok: "session_sources_ok sample_session"
proof -
  have two: "[0..<KV_HEADS] = [0, 1]" by (simp add: KV_HEADS_def upt_rec)
  have k: "valid_values KVARN_RECORDS (zeros 0)" by simp
  show ?thesis
    by (simp add: session_sources_ok_def sample_session_def source_ok_def spans_def two sample_values section_kinds sample_records
        session_consts kvarn_consts)
qed

lemma sample_unreserved: "session_unreserved sample_session"
  by (simp add: session_unreserved_def sample_session_def unreserved_def)

lemma sample_written: "\<exists>w. write_session sample_cenv sample_host sample_session (zeros 32) 3890732 12 8388608
    \<lparr> hw_out = [], hw_written = 0 \<rparr> = (Inr (), w)"
  using write_session_total [OF sample_cenv_ok(2) sample_staging sample_cenv_ok(3) _ sample_source sample_sources_ok sample_unreserved,
      of "zeros 32" 3890732 12 3890436] sample_layout
  by (simp add: sample_session_def sample_host_def layer_kind_def)

lemma valid_session_is_written_witness:
  "\<exists>w. write_session sample_cenv sample_host sample_session (zeros 32) 3890732 12 8388608 \<lparr> hw_out = [], hw_written = 0 \<rparr> = (Inr (), w)"
  using valid_session_is_written [OF sample_cenv_ok(2) sample_staging sample_cenv_ok(3) _ sample_source sample_sources_ok sample_unreserved,
      of "zeros 32" 3890732 12 3890436] sample_layout
  by (simp add: sample_session_def sample_host_def layer_kind_def)

lemma sample_facts: "se_frontier sample_session = 1" "se_tokens sample_session = [7]" "he_max_context sample_host = 16" "he_eos sample_host = 9"
  "map layer_kind (se_layers sample_session) = he_layers sample_host" "max_file_bytes sample_limits = 30000000"
  "max_io_buffer_bytes sample_limits = 8388608" "(16::nat) \<le> MAX_POSITIONS"
  by (simp_all add: sample_session_def sample_host_def sample_limits_def layer_kind_def MAX_POSITIONS_def)

lemma sample_file:
  obtains w where "write_session sample_cenv sample_host sample_session (zeros 32) 3890732 12 8388608 \<lparr> hw_out = [], hw_written = 0 \<rparr> = (Inr (), w)"
  using sample_written by blast

lemma checkpoint_roundtrip_witness:
  "\<exists>(w :: hash_writer) s. length (hw_out w) = 3890732 \<and> read_session sample_cenv sample_host (zeros 32) [7, 8] sample_limits (hw_out w) = Inr (Some s)
    \<and> session_live s = session_live sample_session"
proof -
  obtain w where w: "write_session sample_cenv sample_host sample_session (zeros 32) 3890732 12 8388608 \<lparr> hw_out = [], hw_written = 0 \<rparr> = (Inr (), w)"
    by (rule sample_file)
  from checkpoint_roundtrip [OF w _ sample_cenv_ok(1,3,4), of 3890436 sample_limits 8388608 "[8]", unfolded sample_facts]
    sample_layout sample_staging sample_facts(8) show ?thesis by auto
qed

lemma accepted_file_is_intact_witness:
  "\<exists>whole s body. read_session sample_cenv sample_host (zeros 32) [7, 8] sample_limits whole = Inr (Some s)
    \<and> whole = body @ sha256 sample_cenv body \<and> length whole = 3890732 \<and> se_tokens s = [7]"
proof -
  obtain w where w: "write_session sample_cenv sample_host sample_session (zeros 32) 3890732 12 8388608 \<lparr> hw_out = [], hw_written = 0 \<rparr> = (Inr (), w)"
    by (rule sample_file)
  note out = write_session_Inr [OF w]
  have "\<exists>s. read_session sample_cenv sample_host (zeros 32) ([7] @ [8]) sample_limits (hw_out w) = Inr (Some s) \<and> se_frontier s = 1"
    using read_session_total [OF sample_cenv_ok(1,3,4), of sample_limits 8388608 sample_host sample_session 3890732 12 3890436 "zeros 32"
        "header_bytes sample_cenv (zeros 32) (se_tokens sample_session) sample_host 3890732 12" "[8]"]
      sample_layout sample_staging out(1,2) sample_source sample_sources_ok
    unfolding sample_facts by (auto simp: session_live_def sample_facts)
  then obtain s where s: "read_session sample_cenv sample_host (zeros 32) ([7] @ [8]) sample_limits (hw_out w) = Inr (Some s)" "se_frontier s = 1"
    by blast
  from accepted_file_is_intact [OF s(1), unfolded s(2) sample_facts] obtain body where
    "hw_out w = body @ sha256 sample_cenv body" "length (hw_out w) = 3890732" "se_tokens s = [7]"
    using sample_layout by auto
  with s(1) show ?thesis by (intro exI [of _ "hw_out w"] exI [of _ s] exI [of _ body]) simp
qed

end
