(* ===== verification/Rust_Triples.thy ===== *)
theory Rust_Triples
  imports Rust_State
begin

text \<open>
  Calls matched on their result, errors mapped to another type, and triples for methods that return a
  \<open>Result\<close>: from a state in \<open>P\<close> a value leaves a state in \<open>Q\<close> and an error one in \<open>E\<close>.
\<close>

named_theorems triple_rules \<open>triples by the structure of a method\<close>

definition map_err :: "('e \<Rightarrow> 'f) \<Rightarrow> ('e, 's, 'a) fallible \<Rightarrow> ('f, 's, 'a) fallible" where
  "map_err f m s = (case m s of (Inl e, t) \<Rightarrow> (Inl (f e), t) | (Inr x, t) \<Rightarrow> (Inr x, t))"

text \<open>A \<open>match\<close> on the result of a call.\<close>

definition m_try :: "('e, 's, 'a) fallible \<Rightarrow> ('f, 's, 'e + 'a) fallible" where
  "m_try m s = (let (r, t) = m s in (Inr r, t))"

lemma keeps_try [keeps_rules]: "keeps I m \<Longrightarrow> keeps I (m_try m)"
  by (simp add: keeps_def m_try_def case_prod_beta)

definition triple :: "('s \<Rightarrow> bool) \<Rightarrow> ('e, 's, 'a) fallible \<Rightarrow> ('a \<Rightarrow> 's \<Rightarrow> bool) \<Rightarrow> ('e \<Rightarrow> 's \<Rightarrow> bool) \<Rightarrow> bool" where
  "triple P m Q E \<longleftrightarrow> (\<forall>s. P s \<longrightarrow> (case m s of (Inl e, t) \<Rightarrow> E e t | (Inr x, t) \<Rightarrow> Q x t))"

lemma tripleI: "(\<And>s e t. P s \<Longrightarrow> m s = (Inl e, t) \<Longrightarrow> E e t) \<Longrightarrow> (\<And>s x t. P s \<Longrightarrow> m s = (Inr x, t) \<Longrightarrow> Q x t) \<Longrightarrow> triple P m Q E"
  unfolding triple_def by (auto split: prod.splits sum.splits)

lemma triple_at: "triple P m Q E \<Longrightarrow> P s \<Longrightarrow> (case m s of (Inl e, t) \<Rightarrow> E e t | (Inr x, t) \<Rightarrow> Q x t)"
  unfolding triple_def by iprover

lemma triple_Inr:
  assumes "triple P m Q E" "P s" "m s = (Inr x, t)"
  shows "Q x t"
  using triple_at [OF assms(1,2)] unfolding assms(3) by simp

lemma triple_Inl:
  assumes "triple P m Q E" "P s" "m s = (Inl e, t)"
  shows "E e t"
  using triple_at [OF assms(1,2)] unfolding assms(3) by simp

lemma triple_mono:
  assumes t: "triple P m Q E" and p: "\<And>s. P' s \<Longrightarrow> P s" and q: "\<And>x s. Q x s \<Longrightarrow> Q' x s" and e: "\<And>x s. E x s \<Longrightarrow> E' x s"
  shows "triple P' m Q' E'"
  by (rule tripleI) (rule e [OF triple_Inl [OF t p]] q [OF triple_Inr [OF t p]]; assumption)+

lemma triple_pre: "triple P m Q E \<Longrightarrow> (\<And>s. P' s \<Longrightarrow> P s) \<Longrightarrow> triple P' m Q E"
  by (rule triple_mono)

lemma triple_assume:
  assumes "F \<Longrightarrow> triple P m Q E"
  shows "triple (\<lambda>s. F \<and> P s) m Q E"
  by (cases F) (use assms in \<open>simp_all add: triple_def\<close>)

lemma triple_bind [triple_rules]:
  assumes m: "triple P m R E" and f: "\<And>x. triple (R x) (f x) Q E"
  shows "triple P (m_bind m f) Q E"
proof (rule tripleI)
  fix s e t assume "P s" "m_bind m f s = (Inl e, t)"
  then show "E e t" using triple_Inl [OF m] triple_Inr [OF m] triple_Inl [OF f] by (fastforce simp: m_bind_eq_Inl)
next
  fix s x t assume "P s" "m_bind m f s = (Inr x, t)"
  then show "Q x t" using triple_Inr [OF m] triple_Inr [OF f] by (fastforce simp: m_bind_eq_Inr)
qed

lemma triple_return: "(\<And>s. P s \<Longrightarrow> Q x s) \<Longrightarrow> triple P (m_return x) Q E"
  by (simp add: triple_def)

lemma triple_lift: "(\<And>x s. r = Inr x \<Longrightarrow> P s \<Longrightarrow> Q x s) \<Longrightarrow> (\<And>e s. r = Inl e \<Longrightarrow> P s \<Longrightarrow> E e s) \<Longrightarrow> triple P (m_lift r) Q E"
  by (cases r) (auto simp: triple_def)

lemma triple_lift_bind:
  "(\<And>x. r = Inr x \<Longrightarrow> triple P (f x) Q E) \<Longrightarrow> (\<And>e s. P s \<Longrightarrow> E e s) \<Longrightarrow> triple P (m_bind (m_lift r) f) Q E"
  by (cases r) (auto simp: triple_def m_bind_def)

lemma triple_get_bind:
  "(\<And>x. triple (\<lambda>s. P s \<and> f s = Inr x) (g x) Q E) \<Longrightarrow> (\<And>e s. P s \<Longrightarrow> E e s) \<Longrightarrow> triple P (m_bind (m_get f) g) Q E"
  by (rule triple_bind [where R = "\<lambda>x s. P s \<and> f s = Inr x"]) (auto intro!: tripleI)

lemma triple_modify: "(\<And>s. P s \<Longrightarrow> Q () (f s)) \<Longrightarrow> triple P (m_modify f) Q E"
  by (simp add: triple_def)

lemma triple_if: "(b \<Longrightarrow> triple P m Q E) \<Longrightarrow> (\<not> b \<Longrightarrow> triple P n Q E) \<Longrightarrow> triple P (if b then m else n) Q E"
  by simp

lemma triple_option:
  "(x = None \<Longrightarrow> triple P m Q E) \<Longrightarrow> (\<And>y. x = Some y \<Longrightarrow> triple P (f y) Q E) \<Longrightarrow>
     triple P (case x of None \<Rightarrow> m | Some y \<Rightarrow> f y) Q E"
  by (cases x) simp_all

lemma triple_try:
  assumes "triple P m (\<lambda>x. Q (Inr x)) (\<lambda>e. Q (Inl e))"
  shows "triple P (m_try m) Q E"
proof (rule tripleI)
  fix s x t assume "P s" "m_try m s = (Inr x, t)"
  then show "Q x t"
    using triple_at [OF assms, of s] by (cases x) (auto simp: m_try_def split: prod.splits)
qed (simp add: m_try_def split: prod.splits)

lemma triple_map_err: "triple P m Q (\<lambda>e. E (f e)) \<Longrightarrow> triple P (map_err f m) Q E"
  by (rule tripleI) (auto simp: map_err_def dest: triple_Inr triple_Inl split: prod.splits sum.splits)

lemma triple_for:
  assumes "\<And>x a. x \<in> set xs \<Longrightarrow> triple (P a) (body x a) P E"
  shows "triple (P acc) (m_for xs body acc) P E"
  using assms
proof (induction xs arbitrary: acc)
  case (Cons x xs)
  have "triple (P acc) (m_bind (body x acc) (m_for xs body)) P E"
    using Cons by (intro triple_bind) auto
  then show ?case by simp
qed (simp add: triple_return)

text \<open>A loop whose accumulator covers the elements already visited.\<close>

lemma triple_for_visited:
  assumes "\<And>ys x zs a. xs = ys @ x # zs \<Longrightarrow> triple (P ys a) (body x a) (P (ys @ [x])) E"
  shows "triple (P [] acc) (m_for xs body acc) (P xs) E"
proof -
  have "triple (P ys a) (m_for zs body a) (P xs) E" if "xs = ys @ zs" for ys zs a
    using that
  proof (induction zs arbitrary: ys a)
    case (Cons z zs)
    have "triple (P ys a) (m_bind (body z a) (m_for zs body)) (P xs) E"
      by (rule triple_bind [OF assms [OF Cons.prems]]) (rule Cons.IH, use Cons.prems in simp)
    then show ?case by simp
  qed (simp add: triple_return)
  from this [of "[]" xs acc] show ?thesis by simp
qed

lemma triple_keeps:
  assumes "triple I m (\<lambda>_. I) (\<lambda>_. I)"
  shows "keeps I m"
proof -
  have "I (snd (m s))" if "I s" for s
    using triple_at [OF assms that] by (cases "m s"; cases "fst (m s)") auto
  then show ?thesis by (simp add: keeps_def)
qed

end
