(* ===== verification/Checkpoint_Store.thy ===== *)
theory Checkpoint_Store
  imports Checkpoint_Wire Rust_Triples "HOL-Library.Product_Lexorder"
begin

text \<open>
  The directory of checkpoint files (\<open>src/engine/snapshot/disk/store.rs\<close>): an index of at most 64 payload
  slots, published by writing a temporary leaf and renaming it, and the payloads it refers to. The
  directory is its leaves and the number of system calls made; whether a call succeeds, what a failed write
  leaves, the JSON codec of the index and the reservation of the shared cache are parameters, so every
  statement holds for every schedule of failures. Opening and locking the directory itself are two calls.
\<close>

section \<open>The index\<close>

definition INDEX_VERSION :: nat where "INDEX_VERSION = 1"
definition INDEX_MAX_ENTRIES :: nat where "INDEX_MAX_ENTRIES = 64"
definition PAYLOAD_SLOTS :: nat where "PAYLOAD_SLOTS = INDEX_MAX_ENTRIES + 1"
definition MAX_INDEX_BYTES :: nat where "MAX_INDEX_BYTES = 32 * 1024"
definition MAX_INDEXED_FILE_BYTES :: nat where "MAX_INDEXED_FILE_BYTES = 8 * 1024 * 1024 * 1024"

lemmas index_consts = INDEX_VERSION_def INDEX_MAX_ENTRIES_def PAYLOAD_SLOTS_def MAX_INDEX_BYTES_def MAX_INDEXED_FILE_BYTES_def

datatype disk_cache_mode = Prefix_Mode | Full_Mode

record store_limits =
  sl_mode :: disk_cache_mode
  sl_max_entries :: nat
  sl_max_payload_bytes :: nat
  sl_checkpoint :: disk_limits

definition limits_validate :: "store_limits \<Rightarrow> unit result" where
  "limits_validate l =
     ensure (1 \<le> sl_max_entries l \<and> sl_max_entries l \<le> INDEX_MAX_ENTRIES \<and> 0 < sl_max_payload_bytes l
         \<and> HEADER_BYTES + TRAILER_BYTES < max_file_bytes (sl_checkpoint l)
         \<and> max_file_bytes (sl_checkpoint l) \<le> MAX_INDEXED_FILE_BYTES
         \<and> TILE_RECORD_BYTES \<le> max_io_buffer_bytes (sl_checkpoint l))
       ''checkpoint store limits are outside supported bounds'' (Inr ())"

record index_entry =
  ie_slot :: nat
  ie_scope :: "byte list"
  ie_prefix :: "byte list"
  ie_frontier :: nat
  ie_file_bytes :: nat
  ie_recency :: nat

record index_file =
  ix_version :: nat
  ix_next_recency :: nat
  ix_entries :: "index_entry list"

definition index_empty :: index_file where
  "index_empty = \<lparr> ix_version = INDEX_VERSION, ix_next_recency = 1, ix_entries = [] \<rparr>"

type_synonym index_seen = "nat set \<times> (byte list \<times> nat \<times> byte list) set \<times> nat set"

definition entry_geometry :: "nat \<Rightarrow> index_entry \<Rightarrow> bool" where
  "entry_geometry next_recency e \<longleftrightarrow> ie_slot e < PAYLOAD_SLOTS \<and> 0 < ie_frontier e \<and> ie_frontier e \<le> 262144
     \<and> HEADER_BYTES + TRAILER_BYTES \<le> ie_file_bytes e \<and> ie_file_bytes e \<le> MAX_INDEXED_FILE_BYTES
     \<and> 0 < ie_recency e \<and> ie_recency e < next_recency"

definition check_entry :: "nat \<Rightarrow> index_seen \<Rightarrow> index_entry \<Rightarrow> index_seen result" where
  "check_entry next_recency seen e =
     (let (used, keys, times) = seen; key = (ie_scope e, ie_frontier e, ie_prefix e) in
      ensure (entry_geometry next_recency e) ''checkpoint index entry is outside fixed geometry''
     (ensure (ie_slot e \<notin> used) ''checkpoint index repeats a payload slot''
     (ensure (key \<notin> keys) ''checkpoint index repeats a prefix identity''
     (ensure (ie_recency e \<notin> times) ''checkpoint index repeats recency''
       (Inr (insert (ie_slot e) used, insert key keys, insert (ie_recency e) times))))))"

definition index_validate :: "index_file \<Rightarrow> unit result" where
  "index_validate ix =
     ensure (ix_version ix = INDEX_VERSION) ''checkpoint index version differs''
     (ensure (0 < ix_next_recency ix \<and> length (ix_entries ix) \<le> INDEX_MAX_ENTRIES) ''checkpoint index geometry differs''
     (bindr (try_fold (check_entry (ix_next_recency ix)) ({}, {}, {}) (ix_entries ix)) (\<lambda>_. Inr ())))"

definition index_live_bytes :: "index_file \<Rightarrow> nat result" where
  "index_live_bytes ix = try_fold (\<lambda>total e.
     ok_or (checked_add total (ie_file_bytes e)) ''checkpoint index byte sum overflow'') 0 (ix_entries ix)"

definition next_time :: "index_file \<Rightarrow> (nat \<times> index_file) result" where
  "next_time ix = bindr (ok_or (checked_add (ix_next_recency ix) 1) ''checkpoint index recency overflow'') (\<lambda>n.
     Inr (ix_next_recency ix, ix \<lparr> ix_next_recency := n \<rparr>))"

definition without :: "nat list \<Rightarrow> index_file \<Rightarrow> index_file" where
  "without gone ix = ix \<lparr> ix_entries := filter (\<lambda>e. ie_slot e \<notin> set gone) (ix_entries ix) \<rparr>"

definition entry_matches :: "checkpoint_env \<Rightarrow> byte list \<Rightarrow> nat list \<Rightarrow> index_entry \<Rightarrow> bool" where
  "entry_matches env scope tokens e \<longleftrightarrow> ie_scope e = scope \<and> ie_frontier e \<le> length tokens
     \<and> ie_prefix e = prefix_hash env (take (ie_frontier e) tokens)"

text \<open>The longest frontier first, the most recent first among equals; the sort is stable.\<close>

definition matching :: "checkpoint_env \<Rightarrow> byte list \<Rightarrow> nat list \<Rightarrow> nat set \<Rightarrow> index_file \<Rightarrow> index_entry list" where
  "matching env scope tokens dead ix =
     sort_key (\<lambda>e. (- int (ie_frontier e), - int (ie_recency e)))
       (filter (\<lambda>e. entry_matches env scope tokens e \<and> ie_slot e \<notin> dead) (ix_entries ix))"

definition contains_key :: "byte list \<Rightarrow> nat \<Rightarrow> byte list \<Rightarrow> index_file \<Rightarrow> bool" where
  "contains_key scope frontier prefix ix \<longleftrightarrow>
     (\<exists>e\<in>set (ix_entries ix). ie_scope e = scope \<and> ie_frontier e = frontier \<and> ie_prefix e = prefix)"

definition store_superseded :: "checkpoint_env \<Rightarrow> byte list \<Rightarrow> nat list \<Rightarrow> index_file \<Rightarrow> nat list" where
  "store_superseded env scope tokens ix = map ie_slot (drop 2 (matching env scope tokens {} ix))"

fun victims_loop :: "nat \<Rightarrow> nat \<Rightarrow> nat \<Rightarrow> nat \<Rightarrow> index_entry list \<Rightarrow> nat list result" where
  "victims_loop max_entries max_bytes incoming bytes retained =
     (if max_entries \<le> length retained \<or> is_none_or (\<lambda>sum. max_bytes < sum) (checked_add bytes incoming)
      then case retained of
          [] \<Rightarrow> Inl ''checkpoint cannot fit within store byte budget''
        | oldest # rest \<Rightarrow>
            bindr (victims_loop max_entries max_bytes incoming (bytes - ie_file_bytes oldest) rest) (\<lambda>vs. Inr (ie_slot oldest # vs))
      else Inr [])"

declare victims_loop.simps [simp del]

definition by_age :: "index_entry list \<Rightarrow> index_entry list" where
  "by_age es = sort_key (\<lambda>e. (ie_recency e, ie_slot e)) es"

definition victims :: "nat \<Rightarrow> nat \<Rightarrow> nat \<Rightarrow> index_file \<Rightarrow> nat list result" where
  "victims max_entries max_bytes incoming ix =
     bindr (index_live_bytes ix) (\<lambda>bytes. victims_loop max_entries max_bytes incoming bytes (by_age (ix_entries ix)))"

section \<open>The directory\<close>

datatype leaf = Regular "byte list" | Foreign

datatype leaf_name = Index_Leaf | Index_Temp | Payload_Temp | Payload nat | Slot_Leaf | Slot_Temp

record store_root =
  rt_leaves :: "leaf_name \<Rightarrow> leaf option"
  rt_calls :: nat

record store_env =
  sv_wire :: checkpoint_env
  sv_ok :: "nat \<Rightarrow> bool"
  sv_transfer :: "nat \<Rightarrow> nat \<Rightarrow> bool"
  sv_partial :: "byte list \<Rightarrow> byte list"
  to_json :: "index_file \<Rightarrow> byte list"
  from_json :: "byte list \<Rightarrow> index_file option"

type_synonym 'a rooted = "(ckpt_error, store_root, 'a) fallible"

text \<open>A system call at its place in the schedule.\<close>

definition syscall :: "store_env \<Rightarrow> ((leaf_name \<Rightarrow> leaf option) \<Rightarrow> ('a \<times> (leaf_name \<Rightarrow> leaf option)) ckpt) \<Rightarrow> 'a rooted" where
  "syscall env f r =
     (let r' = r \<lparr> rt_calls := rt_calls r + 1 \<rparr> in
      if \<not> sv_ok env (rt_calls r) then (Inl (Failure ''system call failed''), r')
      else case f (rt_leaves r) of Inl e \<Rightarrow> (Inl e, r') | Inr (x, leaves) \<Rightarrow> (Inr x, r' \<lparr> rt_leaves := leaves \<rparr>))"

text \<open>A call that only looks at an open file, or makes its contents durable.\<close>

definition file_call :: "store_env \<Rightarrow> unit rooted" where
  "file_call env = syscall env (\<lambda>leaves. Inr ((), leaves))"

abbreviation sync_all :: "store_env \<Rightarrow> unit rooted" where "sync_all \<equiv> file_call"
abbreviation metadata :: "store_env \<Rightarrow> unit rooted" where "metadata \<equiv> file_call"
abbreviation seek_start :: "store_env \<Rightarrow> unit rooted" where "seek_start \<equiv> file_call"
abbreviation open_root :: "store_env \<Rightarrow> unit rooted" where "open_root \<equiv> file_call"
abbreviation open_lock :: "store_env \<Rightarrow> unit rooted" where "open_lock \<equiv> file_call"
abbreviation try_lock :: "store_env \<Rightarrow> unit rooted" where "try_lock \<equiv> file_call"

definition read_leaf :: "store_env \<Rightarrow> byte list \<Rightarrow> nat \<Rightarrow> byte list rooted" where
  "read_leaf env file n =
     m_bind (file_call env) (\<lambda>_. m_lift (ensure (n \<le> length file) (Failure ''read failed'') (Inr (take n file))))"

text \<open>A whole checkpoint file read or written, with the transfers that succeed at this point of the schedule.\<close>

definition wire_at :: "store_env \<Rightarrow> nat \<Rightarrow> checkpoint_env" where
  "wire_at env n = (sv_wire env) \<lparr> io_write := sv_transfer env n, io_read := sv_transfer env n \<rparr>"

definition transfer :: "store_env \<Rightarrow> (checkpoint_env \<Rightarrow> 'a ckpt) \<Rightarrow> 'a rooted" where
  "transfer env f r = (f (wire_at env (rt_calls r)), r \<lparr> rt_calls := rt_calls r + 1 \<rparr>)"

definition existing_leaf :: "store_env \<Rightarrow> leaf_name \<Rightarrow> byte list option rooted" where
  "existing_leaf env name = syscall env (\<lambda>leaves. case leaves name of
       None \<Rightarrow> Inr (None, leaves)
     | Some Foreign \<Rightarrow> Inl (Failure ''invalid checkpoint leaf'')
     | Some (Regular bs) \<Rightarrow> Inr (Some bs, leaves))"

definition unlink_leaf :: "store_env \<Rightarrow> leaf_name \<Rightarrow> bool rooted" where
  "unlink_leaf env name =
     m_bind (existing_leaf env name) (\<lambda>found. case found of
       None \<Rightarrow> m_return False
     | Some _ \<Rightarrow> m_bind (syscall env (\<lambda>leaves. Inr ((), leaves(name := None)))) (\<lambda>_. m_return True))"

definition rename_leaf :: "store_env \<Rightarrow> leaf_name \<Rightarrow> leaf_name \<Rightarrow> unit rooted" where
  "rename_leaf env source target = syscall env (\<lambda>leaves. case leaves source of
       None \<Rightarrow> Inl (Failure ''checkpoint leaf rename failed'')
     | Some l \<Rightarrow> Inr ((), leaves(source := None, target := Some l)))"

text \<open>\<open>open_leaf\<close> with \<open>O_CREAT | O_EXCL\<close>, and a write to the leaf just created.\<close>

definition create_leaf :: "store_env \<Rightarrow> leaf_name \<Rightarrow> unit rooted" where
  "create_leaf env name =
     m_bind (syscall env (\<lambda>leaves. case leaves name of
       None \<Rightarrow> Inr ((), leaves(name := Some (Regular [])))
     | Some _ \<Rightarrow> Inl (Failure ''checkpoint leaf exists''))) (\<lambda>_. metadata env)"

definition write_leaf :: "store_env \<Rightarrow> leaf_name \<Rightarrow> byte list \<Rightarrow> unit rooted" where
  "write_leaf env name bs r =
     (let ok = sv_ok env (rt_calls r) in
      (if ok then Inr () else Inl (Failure ''write failed''),
       r \<lparr> rt_calls := rt_calls r + 1,
           rt_leaves := (rt_leaves r)(name := Some (Regular (if ok then bs else sv_partial env bs))) \<rparr>))"

definition read_index :: "store_env \<Rightarrow> index_file option rooted" where
  "read_index env =
     m_bind (existing_leaf env Index_Leaf) (\<lambda>found. case found of
       None \<Rightarrow> m_return None
     | Some bs \<Rightarrow>
         m_bind (metadata env) (\<lambda>_.
         m_bind (m_lift (ensure (0 < length bs \<and> length bs \<le> MAX_INDEX_BYTES)
           (Failure ''checkpoint index size exceeds admission'') (failing (reserve_exact (sv_wire env) (length bs))))) (\<lambda>_.
         m_bind (read_leaf env bs (length bs)) (\<lambda>bs.
         m_bind (m_lift (ok_or (from_json env bs) (Failure ''checkpoint index JSON is malformed''))) (\<lambda>ix.
         m_bind (m_lift (failing (index_validate ix))) (\<lambda>_. m_return (Some ix)))))))"

datatype publish_error = Before ckpt_error | After ckpt_error

definition publish_index :: "store_env \<Rightarrow> index_file \<Rightarrow> (publish_error, store_root, unit) fallible" where
  "publish_index env candidate =
     m_bind (map_err Before (
       m_bind (m_lift (failing (index_validate candidate))) (\<lambda>_.
       m_bind (m_lift (ensure (length (to_json env candidate) \<le> MAX_INDEX_BYTES)
         (Failure ''checkpoint index serialization exceeds admission'') (Inr ()))) (\<lambda>_.
       m_bind (unlink_leaf env Index_Temp) (\<lambda>_.
       m_bind (create_leaf env Index_Temp) (\<lambda>_.
       m_bind (write_leaf env Index_Temp (to_json env candidate)) (\<lambda>_.
       m_bind (sync_all env) (\<lambda>_.
       m_bind (existing_leaf env Index_Leaf) (\<lambda>_.
       rename_leaf env Index_Temp Index_Leaf))))))))) (\<lambda>_.
     map_err After (sync_all env))"

definition publish_payload :: "store_env \<Rightarrow> nat \<Rightarrow> nat \<Rightarrow> (publish_error, store_root, unit) fallible" where
  "publish_payload env slot expected =
     m_bind (map_err Before (
       m_bind (existing_leaf env Payload_Temp) (\<lambda>temporary.
       m_bind (m_lift (ok_or temporary (Failure ''checkpoint payload temporary is missing''))) (\<lambda>bs.
       m_bind (metadata env) (\<lambda>_.
       m_bind (m_lift (ensure (length bs = expected) (Failure ''checkpoint payload temporary length differs'') (Inr ()))) (\<lambda>_.
       m_bind (existing_leaf env (Payload slot)) (\<lambda>old.
       m_bind (m_lift (ensure (old = None) (Failure ''checkpoint spare payload leaf is occupied'') (Inr ()))) (\<lambda>_.
       rename_leaf env Payload_Temp (Payload slot)))))))) ) (\<lambda>_.
     map_err After (sync_all env))"

text \<open>Either kind of failure as an error of the caller.\<close>

definition unpublished :: "publish_error \<Rightarrow> ckpt_error" where
  "unpublished e = (case e of Before e \<Rightarrow> e | After e \<Rightarrow> e)"

end
