(* ===== verification/Checkpoint_Retention.thy ===== *)
theory Checkpoint_Retention
  imports Checkpoint_Store
begin

text \<open>
  The owner of a checkpoint directory (\<open>src/engine/snapshot/disk/store.rs\<close>): opening with reconciliation and
  pruning, the longest-prefix restore with its removal of damaged entries and recency touch, and the save
  with size admission, eviction, publication and cleanup. A method returns its outcome and the owner left
  behind, so the flags that disable writes or restores after a failure are visible. The reservation of a
  shared cache is a function of the call number and of the retained, incoming and limit bytes.
\<close>

section \<open>Sweeping and reconciling a directory\<close>

definition remove_payload :: "store_env \<Rightarrow> nat \<Rightarrow> unit rooted" where
  "remove_payload env slot = m_bind (unlink_leaf env (Payload slot)) (\<lambda>_. m_return ())"

definition cleanup_unindexed :: "store_env \<Rightarrow> index_file \<Rightarrow> unit rooted" where
  "cleanup_unindexed env ix =
     m_bind (unlink_leaf env Payload_Temp) (\<lambda>a.
     m_bind (unlink_leaf env Index_Temp) (\<lambda>b.
     m_bind (m_for [0..<PAYLOAD_SLOTS] (\<lambda>slot removed.
       if slot \<in> ie_slot ` set (ix_entries ix) then m_return removed
       else m_bind (unlink_leaf env (Payload slot)) (\<lambda>c. m_return (removed \<or> c))) (a \<or> b)) (\<lambda>removed.
     if removed then sync_all env else m_return ())))"

definition initialize_or_read_index :: "store_env \<Rightarrow> index_file rooted" where
  "initialize_or_read_index env =
     m_bind (read_index env) (\<lambda>found. case found of
       Some ix \<Rightarrow> m_return ix
     | None \<Rightarrow>
         m_bind (m_for [0..<PAYLOAD_SLOTS] (\<lambda>slot _.
           m_bind (existing_leaf env (Payload slot)) (\<lambda>old.
           m_lift (ensure (old = None) (Failure ''checkpoint index is missing while payloads exist'') (Inr ())))) ()) (\<lambda>_.
         m_bind (existing_leaf env Payload_Temp) (\<lambda>temporary.
         m_bind (m_lift (ensure (temporary = None) (Failure ''checkpoint index is missing while a payload temporary exists'') (Inr ()))) (\<lambda>_.
         m_bind (unlink_leaf env Index_Temp) (\<lambda>_.
         m_bind (map_err unpublished (publish_index env index_empty)) (\<lambda>_. m_return index_empty))))))"

definition missing_payloads :: "store_env \<Rightarrow> index_file \<Rightarrow> nat list rooted" where
  "missing_payloads env ix =
     m_for (ix_entries ix) (\<lambda>e invalid.
       m_bind (existing_leaf env (Payload (ie_slot e))) (\<lambda>found. case found of
         Some bs \<Rightarrow> m_bind (metadata env) (\<lambda>_. m_return (if length bs = ie_file_bytes e then invalid else invalid @ [ie_slot e]))
       | None \<Rightarrow> m_return (invalid @ [ie_slot e]))) []"

text \<open>The index without some entries, and only then their payloads removed.\<close>

definition install_pruned :: "store_env \<Rightarrow> index_file \<Rightarrow> nat list \<Rightarrow> index_file rooted" where
  "install_pruned env candidate gone =
     m_bind (map_err unpublished (publish_index env candidate)) (\<lambda>_.
     m_bind (m_for gone (\<lambda>slot _. remove_payload env slot) ()) (\<lambda>_.
     m_bind (sync_all env) (\<lambda>_. m_return candidate)))"

definition oversized :: "store_limits \<Rightarrow> index_entry \<Rightarrow> bool" where
  "oversized limits e \<longleftrightarrow> max_file_bytes (sl_checkpoint limits) < ie_file_bytes e"

definition over_limits :: "store_limits \<Rightarrow> nat \<Rightarrow> index_entry list \<Rightarrow> bool" where
  "over_limits limits bytes es \<longleftrightarrow> sl_max_entries limits < length es \<or> sl_max_payload_bytes limits < bytes \<or> list_ex (oversized limits) es"

definition oldest_entry :: "index_entry list \<Rightarrow> index_entry option" where
  "oldest_entry es = (if es = [] then None else Some (arg_min_list (\<lambda>e. (ie_recency e, ie_slot e)) es))"

definition prune_victim :: "store_limits \<Rightarrow> index_entry list \<Rightarrow> index_entry option" where
  "prune_victim limits es =
     (case oldest_entry (filter (oversized limits) es) of Some e \<Rightarrow> Some e | None \<Rightarrow> oldest_entry es)"

lemma oldest_entry_in: "oldest_entry es = Some e \<Longrightarrow> e \<in> set es"
  by (auto simp: oldest_entry_def intro: arg_min_list_in split: if_splits)

lemma prune_victim_in: "prune_victim limits es = Some e \<Longrightarrow> e \<in> set es"
  by (auto simp: prune_victim_def dest!: oldest_entry_in split: option.splits)

function prune_loop :: "store_limits \<Rightarrow> nat \<Rightarrow> index_entry list \<Rightarrow> (index_entry list \<times> nat list) result" where
  "prune_loop limits bytes es =
     (if over_limits limits bytes es
      then case prune_victim limits es of
          None \<Rightarrow> Inl ''checkpoint index cannot be pruned''
        | Some v \<Rightarrow>
            bindr (prune_loop limits (bytes - ie_file_bytes v) (filter (\<lambda>e. ie_slot e \<noteq> ie_slot v) es)) (\<lambda>(kept, vs).
            Inr (kept, ie_slot v # vs))
      else Inr (es, []))"
  by pat_completeness auto

termination prune_loop
proof (relation "measure (\<lambda>(limits, bytes, es). length es)", goal_cases)
  case (2 limits bytes es v)
  from 2(2) have "v \<in> set es" by (rule prune_victim_in)
  then show ?case by (auto intro: length_filter_less)
qed simp

declare prune_loop.simps [simp del]

definition reconcile_and_prune :: "store_env \<Rightarrow> index_file \<Rightarrow> store_limits \<Rightarrow> index_file rooted" where
  "reconcile_and_prune env ix limits =
     m_bind (missing_payloads env ix) (\<lambda>invalid.
     m_bind (if invalid = [] then m_return ix else install_pruned env (without invalid ix) invalid) (\<lambda>ix.
     m_bind (m_lift (failing (index_live_bytes ix))) (\<lambda>bytes.
     m_bind (if \<not> over_limits limits bytes (ix_entries ix) then m_return ix
             else m_bind (m_lift (failing (prune_loop limits bytes (ix_entries ix)))) (\<lambda>(kept, gone).
                  install_pruned env (ix \<lparr> ix_entries := kept \<rparr>) gone)) (\<lambda>ix.
     m_bind (cleanup_unindexed env ix) (\<lambda>_. m_return ix)))))"

section \<open>The owner\<close>

type_synonym reserve_fn = "nat \<Rightarrow> nat \<Rightarrow> nat \<Rightarrow> nat \<Rightarrow> nat ckpt"

record disk_store =
  ds_root :: store_root
  ds_owner :: nat
  ds_scope :: "byte list"
  ds_limits :: store_limits
  ds_index :: index_file
  ds_dead :: "nat set"
  ds_writes_disabled :: bool
  ds_restores_disabled :: bool
  ds_managed :: "reserve_fn option"

type_synonym 'a stored = "(ckpt_error, disk_store, 'a) fallible"

definition on_root :: "('e, store_root, 'a) fallible \<Rightarrow> ('e, disk_store, 'a) fallible" where
  "on_root m d = (let (r, root) = m (ds_root d) in (r, d \<lparr> ds_root := root \<rparr>))"

definition disable_writes :: "unit stored" where
  "disable_writes = m_modify (\<lambda>d. d \<lparr> ds_writes_disabled := True \<rparr>)"

definition disable_restores :: "unit stored" where
  "disable_restores = m_modify (\<lambda>d. d \<lparr> ds_restores_disabled := True \<rparr>)"

text \<open>A call whose failure runs \<open>h\<close> and is returned.\<close>

definition on_failure :: "unit stored \<Rightarrow> 'a stored \<Rightarrow> 'a stored" where
  "on_failure h m = m_bind (m_try m) (\<lambda>r. case r of Inr x \<Rightarrow> m_return x | Inl e \<Rightarrow> m_bind h (\<lambda>_. m_lift (Inl e)))"

definition reserve_managed :: "store_env \<Rightarrow> reserve_fn option \<Rightarrow> nat \<Rightarrow> index_file \<Rightarrow> nat \<Rightarrow> nat rooted" where
  "reserve_managed env managed maximum ix incoming =
     (case managed of
        None \<Rightarrow> m_return maximum
      | Some reserve \<Rightarrow>
          m_bind (m_lift (failing (index_live_bytes ix))) (\<lambda>live.
          m_bind (m_get (\<lambda>r. reserve (rt_calls r) live incoming maximum)) (\<lambda>allowance.
          m_bind (metadata env) (\<lambda>_. m_return allowance))))"

definition open_index :: "store_env \<Rightarrow> store_limits \<Rightarrow> index_file rooted" where
  "open_index env limits =
     m_bind (open_root env) (\<lambda>_.
     m_bind (open_lock env) (\<lambda>_.
     m_bind (try_lock env) (\<lambda>_.
     m_bind (initialize_or_read_index env) (\<lambda>ix. reconcile_and_prune env ix limits))))"

definition opened_store :: "host_engine \<Rightarrow> byte list \<Rightarrow> store_limits \<Rightarrow> reserve_fn option \<Rightarrow> index_file \<Rightarrow> store_root \<Rightarrow> disk_store" where
  "opened_store en scope limits managed ix root =
     \<lparr> ds_root = root, ds_owner = he_cache_identity en, ds_scope = scope, ds_limits = limits, ds_index = ix, ds_dead = {},
       ds_writes_disabled = False, ds_restores_disabled = False, ds_managed = managed \<rparr>"

definition store_open :: "store_env \<Rightarrow> host_engine \<Rightarrow> byte list \<times> byte list \<Rightarrow> store_limits \<Rightarrow> disk_store rooted" where
  "store_open env en identity limits =
     m_bind (m_lift (failing (limits_validate limits))) (\<lambda>_.
     m_bind (m_lift (checkpoint_scope (sv_wire env) en identity)) (\<lambda>scope.
     m_bind (open_index env limits) (\<lambda>ix.
     m_get (\<lambda>root. Inr (opened_store en scope limits None ix root)))))"

definition hex_digit :: "char \<Rightarrow> bool" where
  "hex_digit c \<longleftrightarrow> c \<in> set ''0123456789abcdef''"

definition managed_root :: "string list \<Rightarrow> string list \<Rightarrow> bool" where
  "managed_root base root \<longleftrightarrow> root \<noteq> [] \<and> butlast root = base @ [''v4'', ''disk_kv''] \<and> length (last root) = 64
     \<and> list_all hex_digit (last root)"

definition open_managed ::
    "store_env \<Rightarrow> reserve_fn \<Rightarrow> string list \<Rightarrow> string list \<Rightarrow> host_engine \<Rightarrow> byte list \<times> byte list \<Rightarrow> store_limits \<Rightarrow> disk_store rooted" where
  "open_managed env reserve base root en identity limits =
     m_bind (m_lift (ensure (managed_root base root)
       (Failure ''managed root must be a native package directory below its cache base'') (Inr ()))) (\<lambda>_.
     m_bind (store_open env en identity limits) (\<lambda>d.
     m_bind (open_root env) (\<lambda>_.
     m_bind (reserve_managed env (Some reserve) (sl_max_payload_bytes limits) (ds_index d) 0) (\<lambda>allowance.
     m_bind (reconcile_and_prune env (ds_index d) (limits \<lparr> sl_max_payload_bytes := allowance \<rparr>)) (\<lambda>ix.
     m_get (\<lambda>root. Inr (d \<lparr> ds_root := root, ds_index := ix, ds_managed := Some reserve \<rparr>)))))))"

definition check_owner :: "host_engine \<Rightarrow> unit stored" where
  "check_owner en = m_get (\<lambda>d. ensure (ds_owner d = he_cache_identity en) (Failure ''checkpoint store belongs to another engine'') (Inr ()))"

text \<open>After a failed directory sync the rename is visible: the candidate is the index, and old payloads stay.\<close>

definition install_index :: "store_env \<Rightarrow> index_file \<Rightarrow> unit stored" where
  "install_index env candidate =
     m_bind (m_try (on_root (publish_index env candidate))) (\<lambda>r. case r of
       Inr _ \<Rightarrow> m_modify (\<lambda>d. d \<lparr> ds_index := candidate \<rparr>)
     | Inl (Before e) \<Rightarrow> m_lift (Inl e)
     | Inl (After e) \<Rightarrow>
         m_bind (m_modify (\<lambda>d. d \<lparr> ds_index := candidate, ds_writes_disabled := True \<rparr>)) (\<lambda>_. m_lift (Inl e)))"

section \<open>Restoring\<close>

definition remove_invalid :: "store_env \<Rightarrow> index_entry \<Rightarrow> unit stored" where
  "remove_invalid env e =
     m_bind (m_modify (\<lambda>d. d \<lparr> ds_dead := insert (ie_slot e) (ds_dead d) \<rparr>)) (\<lambda>_.
     m_bind (m_get Inr) (\<lambda>d.
     if ds_writes_disabled d then m_return ()
     else
       m_bind (on_failure disable_writes (install_index env (without [ie_slot e] (ds_index d)))) (\<lambda>_.
       m_bind (on_failure disable_writes (on_root (m_bind (remove_payload env (ie_slot e)) (\<lambda>_. sync_all env)))) (\<lambda>_.
       m_modify (\<lambda>d. d \<lparr> ds_dead := ds_dead d - {ie_slot e} \<rparr>)))))"

fun retime :: "nat \<Rightarrow> nat \<Rightarrow> index_entry list \<Rightarrow> index_entry list option" where
  "retime slot time [] = None"
| "retime slot time (e # es) =
     (if ie_slot e = slot then Some (e \<lparr> ie_recency := time \<rparr> # es) else map_option ((#) e) (retime slot time es))"

definition touch_after_restore :: "store_env \<Rightarrow> index_entry \<Rightarrow> unit stored" where
  "touch_after_restore env e =
     m_bind (m_get Inr) (\<lambda>d.
     if ds_writes_disabled d then m_return ()
     else case next_time (ds_index d) of
         Inl _ \<Rightarrow> disable_writes
       | Inr (time, candidate) \<Rightarrow>
           (case retime (ie_slot e) time (ix_entries candidate) of
              None \<Rightarrow> m_return ()
            | Some es \<Rightarrow>
                m_bind (m_try (install_index env (candidate \<lparr> ix_entries := es \<rparr>))) (\<lambda>r. case r of
                  Inr _ \<Rightarrow> m_return ()
                | Inl _ \<Rightarrow> disable_writes)))"

definition has_match_beyond :: "store_env \<Rightarrow> host_engine \<Rightarrow> nat list \<Rightarrow> nat \<Rightarrow> bool stored" where
  "has_match_beyond env en requested frontier =
     m_bind (check_owner en) (\<lambda>_.
     m_get (\<lambda>d. Inr (\<not> ds_restores_disabled d \<and> list_ex (\<lambda>e. entry_matches (sv_wire env) (ds_scope d) requested e
       \<and> ie_slot e \<notin> ds_dead d \<and> frontier < ie_frontier e) (ix_entries (ds_index d)))))"

definition header_matches :: "host_engine \<Rightarrow> index_entry \<Rightarrow> byte list \<Rightarrow> nat \<times> nat \<times> nat \<Rightarrow> bool" where
  "header_matches en e head layout \<longleftrightarrow>
     take 16 head = MAGIC \<and> field head 16 4 = WIRE_VERSION \<and> take 32 (drop 20 head) = ie_scope e \<and> take 32 (drop 52 head) = ie_prefix e
     \<and> field head 84 8 = ie_frontier e \<and> field head 92 8 = ie_file_bytes e \<and> ie_file_bytes e = fst layout
     \<and> field head 100 4 = fst (snd layout) \<and> field head 104 4 = 0 \<and> ie_frontier e \<le> field head 108 4
     \<and> field head 112 4 = PRODUCER_VERSION \<and> field head 116 4 = he_eos en"

definition validate_selected_header :: "store_env \<Rightarrow> host_engine \<Rightarrow> index_entry \<Rightarrow> byte list \<Rightarrow> unit rooted" where
  "validate_selected_header env en e file =
     m_bind (metadata env) (\<lambda>_.
     m_bind (m_lift (invalid_unless (length file = ie_file_bytes e) ''indexed checkpoint file length differs'' (Inr ()))) (\<lambda>_.
     m_bind (read_leaf env file HEADER_BYTES) (\<lambda>head.
     m_bind (m_lift (case expected_layout en (he_max_context en) (ie_frontier e) of
         Inl _ \<Rightarrow> Inl (Invalid_Checkpoint ''indexed checkpoint frontier differs from engine'')
       | Inr layout \<Rightarrow> Inr layout)) (\<lambda>layout.
     m_bind (m_lift (invalid_unless (header_matches en e head layout) ''indexed checkpoint metadata differs from payload'' (Inr ()))) (\<lambda>_.
     seek_start env)))))"

definition read_payload :: "store_env \<Rightarrow> host_engine \<Rightarrow> nat list \<Rightarrow> index_entry \<Rightarrow> byte list \<Rightarrow> session option stored" where
  "read_payload env en requested e file =
     m_bind (on_root (validate_selected_header env en e file)) (\<lambda>_.
     m_bind (m_get Inr) (\<lambda>d.
     on_root (transfer env (\<lambda>wire. read_session wire en (ds_scope d) requested (sl_checkpoint (ds_limits d)) file))))"

fun load_loop :: "store_env \<Rightarrow> host_engine \<Rightarrow> nat list \<Rightarrow> index_entry list \<Rightarrow> session option stored" where
  "load_loop env en requested [] = m_return None"
| "load_loop env en requested (e # es) =
     m_bind (on_failure disable_restores (on_root (existing_leaf env (Payload (ie_slot e))))) (\<lambda>opened. case opened of
       None \<Rightarrow> m_bind (remove_invalid env e) (\<lambda>_. load_loop env en requested es)
     | Some file \<Rightarrow>
         m_bind (m_try (read_payload env en requested e file)) (\<lambda>r. case r of
           Inr (Some s) \<Rightarrow> m_bind (touch_after_restore env e) (\<lambda>_. m_return (Some s))
         | Inr None \<Rightarrow> m_bind (remove_invalid env e) (\<lambda>_. load_loop env en requested es)
         | Inl (Invalid_Checkpoint _) \<Rightarrow> m_bind (remove_invalid env e) (\<lambda>_. load_loop env en requested es)
         | Inl (Failure msg) \<Rightarrow> m_bind disable_restores (\<lambda>_. m_lift (Inl (Failure msg)))))"

definition load_match :: "store_env \<Rightarrow> host_engine \<Rightarrow> nat list \<Rightarrow> session option stored" where
  "load_match env en requested =
     m_bind (check_owner en) (\<lambda>_.
     m_bind (m_get Inr) (\<lambda>d.
     if ds_restores_disabled d then m_return None
     else load_loop env en requested (matching (sv_wire env) (ds_scope d) requested (ds_dead d) (ds_index d))))"

section \<open>Saving\<close>

definition spare_slot :: "index_file \<Rightarrow> nat option" where
  "spare_slot ix = List.find (\<lambda>slot. slot \<notin> ie_slot ` set (ix_entries ix)) [0..<PAYLOAD_SLOTS]"

text \<open>The index with the new entry at the current time.\<close>

definition with_entry :: "nat \<Rightarrow> byte list \<Rightarrow> byte list \<Rightarrow> nat \<Rightarrow> nat \<Rightarrow> index_file \<Rightarrow> index_file result" where
  "with_entry slot scope key frontier expected ix =
     bindr (next_time ix) (\<lambda>(time, ix).
     ensure (frontier < 2 ^ 32) ''integer conversion''
     (let candidate = ix \<lparr> ix_entries := ix_entries ix @ [\<lparr> ie_slot = slot, ie_scope = scope, ie_prefix = key, ie_frontier = frontier,
         ie_file_bytes = expected, ie_recency = time \<rparr>] \<rparr> in
      bindr (index_validate candidate) (\<lambda>_. Inr candidate)))"

definition write_payload :: "store_env \<Rightarrow> host_engine \<Rightarrow> session \<Rightarrow> byte list \<Rightarrow> nat \<Rightarrow> nat \<Rightarrow> nat \<Rightarrow> unit rooted" where
  "write_payload env en s scope expected sections limit r =
     (let (result, w) = write_session (wire_at env (rt_calls r)) en s scope expected sections limit \<lparr> hw_out = [], hw_written = 0 \<rparr> in
      (result, r \<lparr> rt_calls := rt_calls r + 1,
         rt_leaves := (rt_leaves r)(Payload_Temp := Some (Regular (if is_ok result then hw_out w else sv_partial env (hw_out w)))) \<rparr>))"

text \<open>The payload under its temporary name, complete on disk.\<close>

definition stage_payload :: "store_env \<Rightarrow> host_engine \<Rightarrow> session \<Rightarrow> byte list \<Rightarrow> nat \<Rightarrow> nat \<Rightarrow> nat \<Rightarrow> unit rooted" where
  "stage_payload env en s scope expected sections limit =
     m_bind (unlink_leaf env Payload_Temp) (\<lambda>_.
     m_bind (create_leaf env Payload_Temp) (\<lambda>_.
     m_bind (write_payload env en s scope expected sections limit) (\<lambda>_. sync_all env)))"

text \<open>An index that was not installed leaves the new payload unreferenced; an installed one leaves the victims so.\<close>

definition discard_payload :: "store_env \<Rightarrow> nat \<Rightarrow> unit stored" where
  "discard_payload env slot =
     m_bind (m_get Inr) (\<lambda>d.
     if ds_writes_disabled d then m_return ()
     else m_bind (m_try (on_root (remove_payload env slot))) (\<lambda>_.
          m_bind (m_try (on_root (sync_all env))) (\<lambda>_. m_return ())))"

definition remove_victims :: "store_env \<Rightarrow> nat list \<Rightarrow> unit stored" where
  "remove_victims env gone =
     m_bind (m_for gone (\<lambda>victim _. on_failure disable_writes (on_root (remove_payload env victim))) ()) (\<lambda>_.
     on_failure disable_writes (on_root (sync_all env)))"

definition install_saved :: "store_env \<Rightarrow> nat \<Rightarrow> index_file \<Rightarrow> nat list \<Rightarrow> bool stored" where
  "install_saved env slot candidate gone =
     m_bind (m_try (install_index env candidate)) (\<lambda>installed. case installed of
       Inl e \<Rightarrow> m_bind (discard_payload env slot) (\<lambda>_. m_lift (Inl e))
     | Inr _ \<Rightarrow> m_bind (remove_victims env gone) (\<lambda>_. m_return True))"

text \<open>The new payload made visible, then the index.\<close>

definition commit_payload :: "store_env \<Rightarrow> nat \<Rightarrow> nat \<Rightarrow> index_file \<Rightarrow> nat list \<Rightarrow> bool stored" where
  "commit_payload env slot expected candidate gone =
     m_bind (m_try (on_root (publish_payload env slot expected))) (\<lambda>r. case r of
       Inl (Before e) \<Rightarrow> m_lift (Inl e)
     | Inl (After e) \<Rightarrow> m_bind disable_writes (\<lambda>_. m_lift (Inl e))
     | Inr _ \<Rightarrow> install_saved env slot candidate gone)"

text \<open>Victims, slot, index and payload of an admitted save.\<close>

definition save_admitted ::
    "store_env \<Rightarrow> host_engine \<Rightarrow> session \<Rightarrow> byte list \<Rightarrow> nat \<Rightarrow> nat \<Rightarrow> nat \<Rightarrow> nat list \<Rightarrow> index_file \<Rightarrow> bool stored" where
  "save_admitted env en s key expected sections allowance gone0 candidate =
     m_bind (m_get Inr) (\<lambda>d.
     m_bind (m_lift (failing (victims (sl_max_entries (ds_limits d)) allowance expected candidate))) (\<lambda>vs.
     m_bind (m_lift (ok_or (spare_slot (ds_index d)) (Failure ''checkpoint spare payload slot is unavailable''))) (\<lambda>slot.
     m_bind (on_root (existing_leaf env (Payload slot))) (\<lambda>old.
     m_bind (m_lift (ensure (old = None) (Failure ''checkpoint spare payload leaf is occupied'') (Inr ()))) (\<lambda>_.
     m_bind (m_lift (failing (with_entry slot (ds_scope d) key (se_frontier s) expected (without (gone0 @ vs) candidate)))) (\<lambda>candidate.
     m_bind (m_lift (ensure (length (to_json env candidate) \<le> MAX_INDEX_BYTES)
       (Failure ''checkpoint index candidate exceeds admission'') (Inr ()))) (\<lambda>_.
     m_bind (on_root (stage_payload env en s (ds_scope d) expected sections (max_io_buffer_bytes (sl_checkpoint (ds_limits d))))) (\<lambda>_.
     commit_payload env slot expected candidate (gone0 @ vs)))))))))"

text \<open>The entries a save supersedes, the reservation, and the save or a trim to a smaller allowance.\<close>

definition save_reserved :: "store_env \<Rightarrow> host_engine \<Rightarrow> session \<Rightarrow> byte list \<Rightarrow> nat \<Rightarrow> nat \<Rightarrow> disk_store \<Rightarrow> bool stored" where
  "save_reserved env en s key expected sections d =
     (let limits = ds_limits d;
          gone = (case sl_mode limits of
              Prefix_Mode \<Rightarrow> []
            | Full_Mode \<Rightarrow> store_superseded (sv_wire env) (ds_scope d) (se_tokens s) (ds_index d));
          candidate = without gone (ds_index d) in
      m_bind (on_root (reserve_managed env (ds_managed d) (sl_max_payload_bytes limits) candidate expected)) (\<lambda>allowance.
      if allowance < expected then
        m_bind (on_root (reconcile_and_prune env (ds_index d) (limits \<lparr> sl_max_payload_bytes := allowance \<rparr>))) (\<lambda>ix.
        m_bind (m_modify (\<lambda>d. d \<lparr> ds_index := ix \<rparr>)) (\<lambda>_. m_return False))
      else save_admitted env en s key expected sections allowance gone candidate))"

definition save_sized :: "store_env \<Rightarrow> host_engine \<Rightarrow> session \<Rightarrow> nat \<Rightarrow> nat \<Rightarrow> disk_store \<Rightarrow> bool stored" where
  "save_sized env en s expected sections d =
     (let key = prefix_hash (sv_wire env) (se_tokens s); limits = ds_limits d in
      if contains_key (ds_scope d) (se_frontier s) key (ds_index d) then m_return False
      else if max_file_bytes (sl_checkpoint limits) < expected \<or> sl_max_payload_bytes limits < expected then m_return False
      else
        m_bind (on_failure disable_writes (on_root (cleanup_unindexed env (ds_index d)))) (\<lambda>_.
        save_reserved env en s key expected sections d))"

definition save :: "store_env \<Rightarrow> host_engine \<Rightarrow> session \<Rightarrow> bool stored" where
  "save env en s =
     m_bind (check_owner en) (\<lambda>_.
     m_bind (m_get Inr) (\<lambda>d.
     if ds_writes_disabled d then m_return False
     else
       m_bind (m_lift (failing (validate_snapshot_source en s))) (\<lambda>_.
       m_bind (m_lift (ensure (se_cache_origin s = he_cache_identity en) (Failure ''session cache producer differs from engine'') (Inr ()))) (\<lambda>_.
       m_bind (m_lift (failing (expected_layout en (he_max_context en) (se_frontier s)))) (\<lambda>layout.
       save_sized env en s (fst layout) (fst (snd layout)) d)))))"

end
