(* ===== verification/Checkpoint_Directory.thy ===== *)
theory Checkpoint_Directory
  imports Checkpoint_Retention Checkpoint_Roundtrip
begin

text \<open>
  What the calls on a checkpoint directory promise, for every schedule of failures: triples over the
  leaves, the invariant that the index on disk is readable and every entry has its payload, and its
  preservation by publication, reconciliation, pruning and sweeping.
\<close>

section \<open>Triples over the leaves\<close>

type_synonym leaves = "leaf_name \<Rightarrow> leaf option"

definition on_leaves :: "(leaves \<Rightarrow> bool) \<Rightarrow> store_root \<Rightarrow> bool" where
  "on_leaves P r \<longleftrightarrow> P (rt_leaves r)"

definition rooted :: "(leaves \<Rightarrow> bool) \<Rightarrow> ('e, store_root, 'a) fallible \<Rightarrow> ('a \<Rightarrow> leaves \<Rightarrow> bool) \<Rightarrow> ('e \<Rightarrow> leaves \<Rightarrow> bool) \<Rightarrow> bool" where
  "rooted P m Q E \<longleftrightarrow> triple (on_leaves P) m (\<lambda>x. on_leaves (Q x)) (\<lambda>e. on_leaves (E e))"

lemma rootedI:
  assumes "\<And>r e t. P (rt_leaves r) \<Longrightarrow> m r = (Inl e, t) \<Longrightarrow> E e (rt_leaves t)"
    and "\<And>r x t. P (rt_leaves r) \<Longrightarrow> m r = (Inr x, t) \<Longrightarrow> Q x (rt_leaves t)"
  shows "rooted P m Q E"
  unfolding rooted_def by (rule tripleI) (use assms in \<open>simp_all add: on_leaves_def\<close>)

lemma rooted_Inr: "rooted P m Q E \<Longrightarrow> P (rt_leaves r) \<Longrightarrow> m r = (Inr x, t) \<Longrightarrow> Q x (rt_leaves t)"
  unfolding rooted_def by (drule triple_Inr) (simp_all add: on_leaves_def)

lemma rooted_Inl: "rooted P m Q E \<Longrightarrow> P (rt_leaves r) \<Longrightarrow> m r = (Inl e, t) \<Longrightarrow> E e (rt_leaves t)"
  unfolding rooted_def by (drule triple_Inl) (simp_all add: on_leaves_def)

lemma rooted_mono:
  assumes "rooted P m Q E" "\<And>L. P' L \<Longrightarrow> P L" "\<And>x L. Q x L \<Longrightarrow> Q' x L" "\<And>e L. E e L \<Longrightarrow> E' e L"
  shows "rooted P' m Q' E'"
  using assms(1) unfolding rooted_def by (rule triple_mono) (use assms(2-) in \<open>simp_all add: on_leaves_def\<close>)

lemma rooted_bind: "rooted P m R E \<Longrightarrow> (\<And>x. rooted (R x) (f x) Q E) \<Longrightarrow> rooted P (m_bind m f) Q E"
  unfolding rooted_def by (rule triple_bind)

lemma rooted_step:
  assumes "rooted P m R F" "\<And>e L. F e L \<Longrightarrow> E e L" "\<And>x. rooted (R x) (f x) Q E"
  shows "rooted P (m_bind m f) Q E"
  by (rule rooted_bind [OF rooted_mono [OF assms(1)] assms(3)]) (use assms(2) in auto)

lemma rooted_return: "(\<And>L. P L \<Longrightarrow> Q x L) \<Longrightarrow> rooted P (m_return x) Q E"
  unfolding rooted_def by (rule triple_return) (simp add: on_leaves_def)

lemma rooted_lift_bind:
  "(\<And>x. r = Inr x \<Longrightarrow> rooted P (f x) Q E) \<Longrightarrow> (\<And>e L. P L \<Longrightarrow> E e L) \<Longrightarrow> rooted P (m_bind (m_lift r) f) Q E"
  unfolding rooted_def by (rule triple_lift_bind) (auto simp: on_leaves_def)

lemma rooted_lift: "(\<And>x L. r = Inr x \<Longrightarrow> P L \<Longrightarrow> Q x L) \<Longrightarrow> (\<And>e L. P L \<Longrightarrow> E e L) \<Longrightarrow> rooted P (m_lift r) Q E"
  unfolding rooted_def by (rule triple_lift) (auto simp: on_leaves_def)

lemma rooted_map_err: "rooted P m Q (\<lambda>e. E (f e)) \<Longrightarrow> rooted P (map_err f m) Q E"
  unfolding rooted_def by (rule triple_map_err)

lemma rooted_if: "(b \<Longrightarrow> rooted P m Q E) \<Longrightarrow> (\<not> b \<Longrightarrow> rooted P n Q E) \<Longrightarrow> rooted P (if b then m else n) Q E"
  by simp

lemma rooted_option:
  "(x = None \<Longrightarrow> rooted P m Q E) \<Longrightarrow> (\<And>y. x = Some y \<Longrightarrow> rooted P (f y) Q E) \<Longrightarrow> rooted P (case x of None \<Rightarrow> m | Some y \<Rightarrow> f y) Q E"
  by (cases x) simp_all

lemma rooted_for: "(\<And>x a. x \<in> set xs \<Longrightarrow> rooted (P a) (body x a) P E) \<Longrightarrow> rooted (P acc) (m_for xs body acc) P E"
  unfolding rooted_def by (rule triple_for [where P = "\<lambda>a. on_leaves (P a)"])

lemma rooted_assume: "(F \<Longrightarrow> rooted P m Q E) \<Longrightarrow> rooted (\<lambda>L. F \<and> P L) m Q E"
  by (cases F) (simp_all add: rooted_def triple_def on_leaves_def)

section \<open>System calls\<close>

lemma rooted_syscall:
  assumes "\<And>L e. P L \<Longrightarrow> E e L" "\<And>L x L'. P L \<Longrightarrow> f L = Inr (x, L') \<Longrightarrow> Q x L'"
  shows "rooted P (syscall env f) Q E"
  by (rule rootedI) (use assms in \<open>auto simp: syscall_def Let_def split: if_splits sum.splits\<close>)

lemma rooted_file_call: "rooted P (file_call env) (\<lambda>_. P) (\<lambda>_. P)"
  unfolding file_call_def by (rule rooted_syscall) auto

lemma rooted_read_leaf: "rooted P (read_leaf env file n) (\<lambda>bs L. P L \<and> n \<le> length file \<and> bs = take n file) (\<lambda>_. P)"
  unfolding read_leaf_def
  by (rule rooted_bind [OF rooted_file_call]) (rule rooted_lift, auto simp: ensure_eq_Inr)

definition found_leaf :: "byte list option \<Rightarrow> leaf option \<Rightarrow> bool" where
  "found_leaf res l \<longleftrightarrow> (case res of None \<Rightarrow> l = None | Some bs \<Rightarrow> l = Some (Regular bs))"

lemma found_leaf_simps [simp]: "found_leaf None l \<longleftrightarrow> l = None" "found_leaf (Some bs) l \<longleftrightarrow> l = Some (Regular bs)"
  by (simp_all add: found_leaf_def)

lemma rooted_existing_leaf: "rooted P (existing_leaf env name) (\<lambda>res L. P L \<and> found_leaf res (L name)) (\<lambda>_. P)"
  unfolding existing_leaf_def by (rule rooted_syscall) (auto split: option.splits leaf.splits)

lemma rooted_unlink_leaf:
  assumes "\<And>L. P L \<Longrightarrow> Q (L(name := None))"
  shows "rooted P (unlink_leaf env name) (\<lambda>_ L. Q L \<and> L name = None) (\<lambda>_. P)"
  unfolding unlink_leaf_def
proof (rule rooted_bind [OF rooted_existing_leaf])
  show "rooted (\<lambda>L. P L \<and> found_leaf res (L name))
      (case res of None \<Rightarrow> m_return False
       | Some _ \<Rightarrow> m_bind (syscall env (\<lambda>leaves. Inr ((), leaves(name := None)))) (\<lambda>_. m_return True))
      (\<lambda>_ L. Q L \<and> L name = None) (\<lambda>_. P)" for res
  proof (rule rooted_option)
    assume "res = None"
    then show "rooted (\<lambda>L. P L \<and> found_leaf res (L name)) (m_return False) (\<lambda>_ L. Q L \<and> L name = None) (\<lambda>_. P)"
      using assms by (auto intro!: rooted_return) (metis fun_upd_triv)
  next
    fix bs
    show "rooted (\<lambda>L. P L \<and> found_leaf res (L name))
       (m_bind (syscall env (\<lambda>leaves. Inr ((), leaves(name := None)))) (\<lambda>_. m_return True)) (\<lambda>_ L. Q L \<and> L name = None) (\<lambda>_. P)"
      by (rule rooted_bind [where R = "\<lambda>_ L. Q L \<and> L name = None"]) (use assms in \<open>auto intro!: rooted_syscall rooted_return\<close>)
  qed
qed

lemma rooted_create_leaf:
  assumes "\<And>L. P L \<Longrightarrow> P (L(name := Some (Regular [])))"
  shows "rooted P (create_leaf env name) (\<lambda>_. P) (\<lambda>_. P)"
  unfolding create_leaf_def
  by (rule rooted_bind [OF _ rooted_file_call]) (use assms in \<open>auto intro!: rooted_syscall split: option.splits\<close>)

lemma rooted_write_leaf:
  assumes "\<And>L l. P L \<Longrightarrow> P (L(name := l))"
  shows "rooted P (write_leaf env name bs) (\<lambda>_ L. P L \<and> L name = Some (Regular bs)) (\<lambda>_. P)"
  by (rule rootedI) (use assms in \<open>auto simp: write_leaf_def Let_def split: if_splits\<close>)

lemma rooted_rename_leaf:
  assumes "\<And>L. P L \<Longrightarrow> Q (L(source := None, target := L source))"
  shows "rooted P (rename_leaf env source target) (\<lambda>_. Q) (\<lambda>_. P)"
  unfolding rename_leaf_def by (rule rooted_syscall) (use assms in \<open>force split: option.splits\<close>)+

section \<open>The index on disk\<close>

definition codec_ok :: "store_env \<Rightarrow> bool" where
  "codec_ok env \<longleftrightarrow> (\<forall>ix. index_validate ix = Inr () \<longrightarrow> from_json env (to_json env ix) = Some ix \<and> to_json env ix \<noteq> [])"

definition indexed :: "store_env \<Rightarrow> index_file \<Rightarrow> leaf option \<Rightarrow> bool" where
  "indexed env ix l \<longleftrightarrow> (\<exists>bs. l = Some (Regular bs) \<and> from_json env bs = Some ix \<and> bs \<noteq> [] \<and> length bs \<le> MAX_INDEX_BYTES)"

text \<open>Every entry has the payload that \<open>B\<close> asks for, and the index on disk is this one.\<close>

type_synonym backing = "index_entry \<Rightarrow> leaf option \<Rightarrow> bool"

definition backed :: "backing \<Rightarrow> index_file \<Rightarrow> leaves \<Rightarrow> bool" where
  "backed B ix L \<longleftrightarrow> (\<forall>e\<in>set (ix_entries ix). B e (L (Payload (ie_slot e))))"

definition intact :: "backing \<Rightarrow> store_env \<Rightarrow> index_file \<Rightarrow> leaves \<Rightarrow> bool" where
  "intact B env ix L \<longleftrightarrow> indexed env ix (L Index_Leaf) \<and> backed B ix L"

lemma backed_frame:
  "name \<notin> (\<lambda>e. Payload (ie_slot e)) ` set (ix_entries ix) \<Longrightarrow> backed B ix (L(name := l)) \<longleftrightarrow> backed B ix L"
  unfolding backed_def by (metis fun_upd_other imageI)

lemma intact_frame:
  "name \<noteq> Index_Leaf \<Longrightarrow> name \<notin> (\<lambda>e. Payload (ie_slot e)) ` set (ix_entries ix) \<Longrightarrow> intact B env ix (L(name := l)) \<longleftrightarrow> intact B env ix L"
  by (simp add: intact_def backed_frame)

lemma frame_simps [simp]:
  "backed B ix (L(Index_Temp := l)) \<longleftrightarrow> backed B ix L" "backed B ix (L(Payload_Temp := l)) \<longleftrightarrow> backed B ix L"
  "backed B ix (L(Index_Leaf := l)) \<longleftrightarrow> backed B ix L"
  "intact B env ix (L(Index_Temp := l)) \<longleftrightarrow> intact B env ix L" "intact B env ix (L(Payload_Temp := l)) \<longleftrightarrow> intact B env ix L"
  by (simp_all add: backed_def intact_def)

lemma frame_payload [simp]:
  assumes "slot \<notin> ie_slot ` set (ix_entries ix)"
  shows "backed B ix (L(Payload slot := l)) \<longleftrightarrow> backed B ix L" "intact B env ix (L(Payload slot := l)) \<longleftrightarrow> intact B env ix L"
  by (rule backed_frame intact_frame; use assms in auto)+

lemma rooted_publish_index:
  assumes codec: "codec_ok env"
    and temp: "\<And>L l. P L \<Longrightarrow> P (L(Index_Temp := l))"
    and rename: "\<And>L l. P L \<Longrightarrow> indexed env candidate l \<Longrightarrow> index_validate candidate = Inr () \<Longrightarrow> Q (L(Index_Temp := None, Index_Leaf := l))"
  shows "rooted P (publish_index env candidate) (\<lambda>_. Q) (\<lambda>e. case e of Before _ \<Rightarrow> P | After _ \<Rightarrow> Q)"
  unfolding publish_index_def
proof (rule rooted_bind [where R = "\<lambda>_. Q"], rule rooted_map_err)
  let ?written = "\<lambda>L. P L \<and> L Index_Temp = Some (Regular (to_json env candidate))"
  show "rooted Q (map_err After (sync_all env)) (\<lambda>_. Q) (\<lambda>e. case e of Before _ \<Rightarrow> P | After _ \<Rightarrow> Q)"
    by (rule rooted_map_err) (simp add: rooted_file_call)
  show "rooted P (m_bind (m_lift (failing (index_validate candidate))) (\<lambda>_.
       m_bind (m_lift (ensure (length (to_json env candidate) \<le> MAX_INDEX_BYTES)
         (Failure ''checkpoint index serialization exceeds admission'') (Inr ()))) (\<lambda>_.
       m_bind (unlink_leaf env Index_Temp) (\<lambda>_.
       m_bind (create_leaf env Index_Temp) (\<lambda>_.
       m_bind (write_leaf env Index_Temp (to_json env candidate)) (\<lambda>_.
       m_bind (sync_all env) (\<lambda>_.
       m_bind (existing_leaf env Index_Leaf) (\<lambda>_.
       rename_leaf env Index_Temp Index_Leaf)))))))) (\<lambda>_. Q) (\<lambda>e. case Before e of Before _ \<Rightarrow> P | After _ \<Rightarrow> Q)"
    unfolding publish_error.case
  proof (intro rooted_lift_bind)
    fix u v assume "failing (index_validate candidate) = Inr u"
      and "ensure (length (to_json env candidate) \<le> MAX_INDEX_BYTES) (Failure ''checkpoint index serialization exceeds admission'') (Inr ()) = Inr v"
    then have valid: "index_validate candidate = Inr ()" and len: "length (to_json env candidate) \<le> MAX_INDEX_BYTES"
      by (simp_all add: failing_Inr ensure_eq_Inr)
    have json: "indexed env candidate (Some (Regular (to_json env candidate)))"
      using codec valid len by (simp add: codec_ok_def indexed_def)
    have unlink: "rooted P (unlink_leaf env Index_Temp) (\<lambda>_. P) (\<lambda>_. P)"
      by (rule rooted_mono [OF rooted_unlink_leaf [where Q = P and P = P]]) (use temp in auto)
    have move: "rooted (\<lambda>L. ?written L \<and> found_leaf res (L Index_Leaf)) (rename_leaf env Index_Temp Index_Leaf) (\<lambda>_. Q) (\<lambda>_. P)" for res
      by (rule rooted_mono [OF rooted_rename_leaf [where Q = Q and P = ?written]]) (use rename [OF _ json valid] in auto)
    have create: "rooted P (create_leaf env Index_Temp) (\<lambda>_. P) (\<lambda>_. P)"
      by (rule rooted_create_leaf) (rule temp)
    have writing: "rooted P (write_leaf env Index_Temp (to_json env candidate)) (\<lambda>_. ?written) (\<lambda>_. P)"
      by (rule rooted_write_leaf) (rule temp)
    show "rooted P (m_bind (unlink_leaf env Index_Temp) (\<lambda>_. m_bind (create_leaf env Index_Temp) (\<lambda>_.
       m_bind (write_leaf env Index_Temp (to_json env candidate)) (\<lambda>_. m_bind (sync_all env) (\<lambda>_.
       m_bind (existing_leaf env Index_Leaf) (\<lambda>_. rename_leaf env Index_Temp Index_Leaf)))))) (\<lambda>_. Q) (\<lambda>_. P)"
      by (rule rooted_step [OF unlink], assumption, rule rooted_step [OF create], assumption,
          rule rooted_step [OF writing], assumption,
          rule rooted_step [OF rooted_file_call], simp, rule rooted_step [OF rooted_existing_leaf _ move], simp)
  qed
qed

definition published :: "(leaves \<Rightarrow> bool) \<Rightarrow> (leaves \<Rightarrow> bool) \<Rightarrow> publish_error \<Rightarrow> leaves \<Rightarrow> bool" where
  "published P Q e = (case e of Before _ \<Rightarrow> P | After _ \<Rightarrow> Q)"

lemma published_simps [simp]: "published P Q (Before x) = P" "published P Q (After x) = Q"
  by (simp_all add: published_def)

lemma rooted_publish_intact:
  assumes "codec_ok env"
  shows "rooted (\<lambda>L. intact B env ix L \<and> backed B' candidate L) (publish_index env candidate)
     (\<lambda>_ L. intact B' env candidate L \<and> index_validate candidate = Inr ())
     (published (\<lambda>L. intact B env ix L \<and> backed B' candidate L) (\<lambda>L. intact B' env candidate L \<and> index_validate candidate = Inr ()))"
  unfolding published_def by (rule rooted_publish_index [OF assms]) (auto simp: intact_def)

lemma rooted_publish_payload:
  assumes temp: "\<And>L. P L \<Longrightarrow> L Payload_Temp = Some (Regular bs)"
    and place: "\<And>L. P L \<Longrightarrow> Q (L(Payload_Temp := None, Payload slot := Some (Regular bs)))"
  shows "rooted P (publish_payload env slot expected) (\<lambda>_ L. Q L \<and> length bs = expected) (published P (\<lambda>L. Q L \<and> length bs = expected))"
  unfolding publish_payload_def
proof (rule rooted_step [where R = "\<lambda>_ L. Q L \<and> length bs = expected" and F = "published P (\<lambda>L. Q L \<and> length bs = expected)"], rule rooted_map_err)
  show "rooted (\<lambda>L. Q L \<and> length bs = expected) (map_err After (sync_all env)) (\<lambda>_ L. Q L \<and> length bs = expected)
      (published P (\<lambda>L. Q L \<and> length bs = expected))"
    by (rule rooted_map_err) (simp add: rooted_file_call)
  have move: "rooted (\<lambda>L. (P L \<and> length bs = expected) \<and> found_leaf old (L (Payload slot))) (rename_leaf env Payload_Temp (Payload slot))
      (\<lambda>_ L. Q L \<and> length bs = expected) (\<lambda>_. P)" for old
    by (rule rooted_mono [OF rooted_rename_leaf [where P = "\<lambda>L. P L \<and> length bs = expected" and Q = "\<lambda>L. Q L \<and> length bs = expected"]])
      (use temp place in auto)
  show "rooted P (m_bind (existing_leaf env Payload_Temp) (\<lambda>temporary.
       m_bind (m_lift (ok_or temporary (Failure ''checkpoint payload temporary is missing''))) (\<lambda>bs.
       m_bind (metadata env) (\<lambda>_.
       m_bind (m_lift (ensure (length bs = expected) (Failure ''checkpoint payload temporary length differs'') (Inr ()))) (\<lambda>_.
       m_bind (existing_leaf env (Payload slot)) (\<lambda>old.
       m_bind (m_lift (ensure (old = None) (Failure ''checkpoint spare payload leaf is occupied'') (Inr ()))) (\<lambda>_.
       rename_leaf env Payload_Temp (Payload slot))))))))
     (\<lambda>_ L. Q L \<and> length bs = expected) (\<lambda>e. published P (\<lambda>L. Q L \<and> length bs = expected) (Before e))"
    unfolding published_simps
  proof (rule rooted_step [OF rooted_existing_leaf], assumption, rule rooted_lift_bind)
    fix temporary :: "byte list option" and bs'
    assume "ok_or temporary (Failure ''checkpoint payload temporary is missing'') = Inr bs'"
    then have t: "temporary = Some bs'" by (simp add: ok_or_eq_Inr)
    have pre: "rooted (\<lambda>L. P L \<and> found_leaf temporary (L Payload_Temp)) (metadata env) (\<lambda>_ L. P L \<and> bs' = bs) (\<lambda>_. P)"
      by (rule rooted_mono [OF rooted_file_call [where P = "\<lambda>L. P L \<and> found_leaf temporary (L Payload_Temp)"]]) (use t in \<open>auto dest!: temp\<close>)
    show "rooted (\<lambda>L. P L \<and> found_leaf temporary (L Payload_Temp)) (m_bind (metadata env) (\<lambda>_.
       m_bind (m_lift (ensure (length bs' = expected) (Failure ''checkpoint payload temporary length differs'') (Inr ()))) (\<lambda>_.
       m_bind (existing_leaf env (Payload slot)) (\<lambda>old.
       m_bind (m_lift (ensure (old = None) (Failure ''checkpoint spare payload leaf is occupied'') (Inr ()))) (\<lambda>_.
       rename_leaf env Payload_Temp (Payload slot)))))) (\<lambda>_ L. Q L \<and> length bs = expected) (\<lambda>_. P)"
    proof (rule rooted_step [OF pre], assumption, rule rooted_lift_bind)
      fix u assume "ensure (length bs' = expected) (Failure ''checkpoint payload temporary length differs'') (Inr ()) = Inr u"
      then have len: "length bs' = expected" by (simp add: ensure_eq_Inr)
      have old: "rooted (\<lambda>L. P L \<and> bs' = bs) (existing_leaf env (Payload slot))
          (\<lambda>old L. (P L \<and> length bs = expected) \<and> found_leaf old (L (Payload slot))) (\<lambda>_. P)"
        by (rule rooted_mono [OF rooted_existing_leaf [where P = "\<lambda>L. P L \<and> bs' = bs"]]) (use len in auto)
      show "rooted (\<lambda>L. P L \<and> bs' = bs) (m_bind (existing_leaf env (Payload slot)) (\<lambda>old.
         m_bind (m_lift (ensure (old = None) (Failure ''checkpoint spare payload leaf is occupied'') (Inr ()))) (\<lambda>_.
         rename_leaf env Payload_Temp (Payload slot)))) (\<lambda>_ L. Q L \<and> length bs = expected) (\<lambda>_. P)"
        by (rule rooted_step [OF old], assumption, rule rooted_lift_bind [OF move]) simp
    qed auto
  qed auto
qed auto

end
