(* ===== verification/Checkpoint_Index.thy ===== *)
theory Checkpoint_Index
  imports Checkpoint_Retention Checkpoint_Roundtrip "HOL-Library.Multiset"
begin

text \<open>
  Facts about the index of a checkpoint directory: when it validates, the byte sum, which entries a save
  evicts, which a narrower limit prunes, and which entry a request selects first.
\<close>

section \<open>Validation\<close>

definition entry_key :: "index_entry \<Rightarrow> byte list \<times> nat \<times> byte list" where
  "entry_key e = (ie_scope e, ie_frontier e, ie_prefix e)"

lemma check_entries_Inr:
  "try_fold (check_entry n) (used, keys, ages) es = Inr acc \<Longrightarrow>
     (\<forall>e\<in>set es. entry_geometry n e \<and> ie_slot e \<notin> used \<and> entry_key e \<notin> keys \<and> ie_recency e \<notin> ages)
     \<and> distinct (map ie_slot es) \<and> distinct (map entry_key es) \<and> distinct (map ie_recency es)"
proof (induction es arbitrary: used keys ages)
  case (Cons e es)
  have one: "check_entry n (used, keys, ages) e = Inr acc' \<longleftrightarrow> entry_geometry n e \<and> ie_slot e \<notin> used \<and> entry_key e \<notin> keys
      \<and> ie_recency e \<notin> ages \<and> acc' = (insert (ie_slot e) used, insert (entry_key e) keys, insert (ie_recency e) ages)" for acc'
    by (auto simp: check_entry_def Let_def ensure_eq_Inr entry_key_def)
  from Cons.prems have e: "entry_geometry n e" "ie_slot e \<notin> used" "entry_key e \<notin> keys" "ie_recency e \<notin> ages"
    and rest: "try_fold (check_entry n) (insert (ie_slot e) used, insert (entry_key e) keys, insert (ie_recency e) ages) es = Inr acc"
    by (simp_all add: bindr_eq_Inr one)
  note ih = Cons.IH [OF rest]
  have "ie_slot e \<notin> ie_slot ` set es" "entry_key e \<notin> entry_key ` set es" "ie_recency e \<notin> ie_recency ` set es"
    using ih by (metis (no_types, lifting) imageE insertI1)+
  then show ?case using ih e by simp
qed simp

lemma check_entries_ok:
  "\<lbrakk> \<forall>e\<in>set es. entry_geometry n e \<and> ie_slot e \<notin> used \<and> entry_key e \<notin> keys \<and> ie_recency e \<notin> ages;
     distinct (map ie_slot es); distinct (map entry_key es); distinct (map ie_recency es) \<rbrakk> \<Longrightarrow>
   \<exists>acc. try_fold (check_entry n) (used, keys, ages) es = Inr acc"
proof (induction es arbitrary: used keys ages)
  case (Cons e es)
  have "\<exists>acc. try_fold (check_entry n) (insert (ie_slot e) used, insert (entry_key e) keys, insert (ie_recency e) ages) es = Inr acc"
    by (rule Cons.IH) (use Cons.prems in \<open>auto simp: image_iff\<close>)
  moreover have "check_entry n (used, keys, ages) e = Inr (insert (ie_slot e) used, insert (entry_key e) keys, insert (ie_recency e) ages)"
    using Cons.prems(1) by (simp add: check_entry_def ensure_def entry_key_def)
  ultimately show ?case by simp
qed simp

lemma index_validate_iff:
  "index_validate ix = Inr () \<longleftrightarrow> ix_version ix = INDEX_VERSION \<and> 0 < ix_next_recency ix \<and> length (ix_entries ix) \<le> INDEX_MAX_ENTRIES
     \<and> (\<forall>e\<in>set (ix_entries ix). entry_geometry (ix_next_recency ix) e) \<and> distinct (map ie_slot (ix_entries ix))
     \<and> distinct (map entry_key (ix_entries ix)) \<and> distinct (map ie_recency (ix_entries ix))"
  (is "_ \<longleftrightarrow> ?R")
proof
  assume "index_validate ix = Inr ()"
  then show ?R by (auto simp: index_validate_def ensure_eq_Inr bindr_eq_Inr dest!: check_entries_Inr)
next
  assume ?R
  then obtain acc where "try_fold (check_entry (ix_next_recency ix)) ({}, {}, {}) (ix_entries ix) = Inr acc"
    using check_entries_ok [of "ix_entries ix" "ix_next_recency ix" "{}" "{}" "{}"] by auto
  with \<open>?R\<close> show "index_validate ix = Inr ()" by (simp add: index_validate_def ensure_def)
qed

lemma index_validate_filter:
  "index_validate ix = Inr () \<Longrightarrow> index_validate (ix \<lparr> ix_entries := filter P (ix_entries ix) \<rparr>) = Inr ()"
  unfolding index_validate_iff by (auto simp: distinct_map_filter intro: le_trans [OF length_filter_le])

lemma index_validate_empty: "index_validate index_empty = Inr ()"
  by (simp add: index_validate_iff index_empty_def index_consts)

definition entry_bytes :: "index_entry list \<Rightarrow> nat" where
  "entry_bytes es = sum_list (map ie_file_bytes es)"

lemma entry_bytes_simps [simp]: "entry_bytes [] = 0" "entry_bytes (e # es) = ie_file_bytes e + entry_bytes es"
  "entry_bytes (xs @ ys) = entry_bytes xs + entry_bytes ys"
  by (simp_all add: entry_bytes_def)

lemma live_bytes_loop:
  "try_fold (\<lambda>total e. ok_or (checked_add total (ie_file_bytes e)) msg) acc es = Inr n \<Longrightarrow> n = acc + entry_bytes es"
  by (induction es arbitrary: acc) (fastforce simp: bindr_eq_Inr ok_or_eq_Inr checked_add_eq_Some)+

lemma index_live_bytes_Inr: "index_live_bytes ix = Inr n \<Longrightarrow> n = entry_bytes (ix_entries ix)"
  unfolding index_live_bytes_def by (drule live_bytes_loop) simp

lemma entry_bytes_filter_slot:
  assumes "distinct (map ie_slot es)" "v \<in> set es"
  shows "entry_bytes es = ie_file_bytes v + entry_bytes (filter (\<lambda>e. ie_slot e \<noteq> ie_slot v) es)"
  using assms
proof (induction es)
  case (Cons e es)
  show ?case
  proof (cases "e = v")
    case True
    with Cons.prems have "filter (\<lambda>e. ie_slot e \<noteq> ie_slot v) es = es"
      by (auto simp: filter_id_conv image_iff)
    with True show ?thesis by simp
  next
    case False
    with Cons have "ie_slot e \<noteq> ie_slot v" "v \<in> set es" by auto
    with Cons show ?thesis by simp
  qed
qed simp

lemma entry_bytes_filter_le: "entry_bytes (filter P es) \<le> entry_bytes es"
  by (induction es) auto

section \<open>Pruning\<close>

lemma prune_loop_Inr:
  "\<lbrakk> prune_loop limits bytes es = Inr (kept, gone); bytes = entry_bytes es; distinct (map ie_slot es) \<rbrakk> \<Longrightarrow>
     \<not> over_limits limits (entry_bytes kept) kept \<and> (\<exists>P. kept = filter P es) \<and> (\<forall>e\<in>set kept. ie_slot e \<notin> set gone)"
proof (induction limits bytes es arbitrary: kept gone rule: prune_loop.induct)
  case (1 limits bytes es)
  show ?case
  proof (cases "over_limits limits bytes es")
    case True
    with 1(2) obtain v rest where v: "prune_victim limits es = Some v"
      and rest: "prune_loop limits (bytes - ie_file_bytes v) (filter (\<lambda>e. ie_slot e \<noteq> ie_slot v) es) = Inr (kept, rest)"
      and gone: "gone = ie_slot v # rest"
      by (subst (asm) prune_loop.simps) (auto simp: bindr_eq_Inr split: option.splits)
    have "bytes - ie_file_bytes v = entry_bytes (filter (\<lambda>e. ie_slot e \<noteq> ie_slot v) es)"
      using entry_bytes_filter_slot [OF 1(4) prune_victim_in [OF v]] 1(3) by simp
    from 1(1) [OF True v rest this distinct_map_filter [OF 1(4)]] obtain P where
      "\<not> over_limits limits (entry_bytes kept) kept" "kept = filter P (filter (\<lambda>e. ie_slot e \<noteq> ie_slot v) es)"
      "\<forall>e\<in>set kept. ie_slot e \<notin> set rest" by blast
    then show ?thesis unfolding gone by (auto simp: filter_filter)
  next
    case False
    with 1(2,3) have "kept = filter (\<lambda>_. True) es" "gone = []" by (subst (asm) (1) prune_loop.simps, simp)+
    with False 1(3) show ?thesis by (auto intro: exI [of _ "\<lambda>_. True"])
  qed
qed

section \<open>Eviction\<close>

definition fits :: "nat \<Rightarrow> nat \<Rightarrow> nat \<Rightarrow> index_entry list \<Rightarrow> bool" where
  "fits max_entries max_bytes incoming es \<longleftrightarrow>
     length es < max_entries \<and> entry_bytes es + incoming \<le> max_bytes \<and> entry_bytes es + incoming < 2 ^ 64"

lemma victims_loop_Inr:
  "\<lbrakk> victims_loop max_entries max_bytes incoming bytes es = Inr vs; bytes = entry_bytes es \<rbrakk> \<Longrightarrow>
     \<exists>k\<le>length es. vs = map ie_slot (take k es) \<and> fits max_entries max_bytes incoming (drop k es)
       \<and> (\<forall>j<k. \<not> fits max_entries max_bytes incoming (drop j es))"
proof (induction es arbitrary: bytes vs)
  case Nil
  then show ?case
    by (subst (asm) victims_loop.simps) (auto simp: fits_def is_none_or_def checked_add_def u64_limit_def split: if_splits)
next
  case (Cons e es)
  show ?case
  proof (cases "fits max_entries max_bytes incoming (e # es)")
    case True
    with Cons.prems have "vs = []"
      by (subst (asm) victims_loop.simps) (auto simp: fits_def is_none_or_def checked_add_def u64_limit_def split: if_splits)
    with True show ?thesis by (intro exI [of _ 0]) simp
  next
    case False
    with Cons.prems obtain ws where w: "victims_loop max_entries max_bytes incoming (bytes - ie_file_bytes e) es = Inr ws" "vs = ie_slot e # ws"
      by (subst (asm) victims_loop.simps)
        (auto simp: fits_def is_none_or_def checked_add_def u64_limit_def bindr_eq_Inr split: if_splits)
    have "bytes - ie_file_bytes e = entry_bytes es" using Cons.prems(2) by simp
    from Cons.IH [OF w(1) this] obtain k where k: "k \<le> length es" "ws = map ie_slot (take k es)"
      "fits max_entries max_bytes incoming (drop k es)" "\<forall>j<k. \<not> fits max_entries max_bytes incoming (drop j es)" by blast
    then show ?thesis
      using w(2) False by (intro exI [of _ "Suc k"]) (auto simp: less_Suc_eq_0_disj)
  qed
qed

lemma entry_bytes_by_age: "entry_bytes (by_age es) = entry_bytes es" "length (by_age es) = length es"
  "set (by_age es) = set es" "distinct (map ie_slot (by_age es)) \<longleftrightarrow> distinct (map ie_slot es)"
proof -
  have m: "mset (by_age es) = mset es" by (simp add: by_age_def)
  show "entry_bytes (by_age es) = entry_bytes es"
    unfolding entry_bytes_def by (metis m mset_map sum_mset_sum_list)
  show "length (by_age es) = length es" "set (by_age es) = set es"
    by (simp_all add: by_age_def)
  show "distinct (map ie_slot (by_age es)) \<longleftrightarrow> distinct (map ie_slot es)"
    by (metis m mset_map mset_eq_imp_distinct_iff)
qed

text \<open>What stays after the victims leave is the rest of the age order.\<close>

lemma without_victims:
  assumes "victims max_entries max_bytes incoming ix = Inr vs" "distinct (map ie_slot (ix_entries ix))"
  obtains k where "k \<le> length (ix_entries ix)" "vs = map ie_slot (take k (by_age (ix_entries ix)))"
    "mset (ix_entries (without vs ix)) = mset (drop k (by_age (ix_entries ix)))"
    "fits max_entries max_bytes incoming (ix_entries (without vs ix))"
    "\<forall>j<k. \<not> fits max_entries max_bytes incoming (drop j (by_age (ix_entries ix)))"
proof -
  let ?es = "ix_entries ix" and ?as = "by_age (ix_entries ix)"
  from assms(1) obtain bytes where b: "index_live_bytes ix = Inr bytes" "victims_loop max_entries max_bytes incoming bytes ?as = Inr vs"
    by (auto simp: victims_def bindr_eq_Inr)
  have "bytes = entry_bytes ?as" using index_live_bytes_Inr [OF b(1)] by (simp add: entry_bytes_by_age)
  from victims_loop_Inr [OF b(2) this] obtain k where k: "k \<le> length ?es" "vs = map ie_slot (take k ?as)"
    "fits max_entries max_bytes incoming (drop k ?as)" "\<forall>j<k. \<not> fits max_entries max_bytes incoming (drop j ?as)"
    by (auto simp: entry_bytes_by_age)
  have d: "distinct (map ie_slot (take k ?as) @ map ie_slot (drop k ?as))"
    using assms(2) by (simp flip: map_append add: entry_bytes_by_age)
  have "filter (\<lambda>e. ie_slot e \<notin> set vs) ?as = filter (\<lambda>e. ie_slot e \<notin> set vs) (take k ?as @ drop k ?as)" by simp
  also have "\<dots> = drop k ?as"
    using d unfolding filter_append k(2) by (subst filter_False) (force simp: filter_id_conv)+
  finally have f: "filter (\<lambda>e. ie_slot e \<notin> set vs) ?as = drop k ?as" .
  have "mset ?as = mset ?es" by (simp add: by_age_def)
  then have m: "mset (ix_entries (without vs ix)) = mset (drop k ?as)"
    using f by (metis mset_filter without_def index_file.select_convs(3) index_file.surjective index_file.update_convs(3))
  then have "fits max_entries max_bytes incoming (ix_entries (without vs ix))"
    using k(3) unfolding fits_def entry_bytes_def by (metis mset_map size_mset sum_mset_sum_list)
  with k m that show thesis by blast
qed

end
