(* ===== verification/Checkpoint_Opening.thy ===== *)
theory Checkpoint_Opening
  imports Checkpoint_Directory Checkpoint_Index
begin

text \<open>
  Opening a checkpoint directory: reading or creating the index, dropping entries whose payload is missing
  or has another length, pruning to the limits and sweeping unindexed leaves. Whatever fails on the way, an
  opening that returns an index returns one that validates, is the one on disk, is within the limits, and
  has every payload.
\<close>

definition has_length :: backing where
  "has_length e l \<longleftrightarrow> (\<exists>bs. l = Some (Regular bs) \<and> length bs = ie_file_bytes e)"

definition both :: "backing \<Rightarrow> backing \<Rightarrow> backing" where
  "both A B e l \<longleftrightarrow> A e l \<and> B e l"

lemma backed_subset: "set (ix_entries ix') \<subseteq> set (ix_entries ix) \<Longrightarrow> backed B ix L \<Longrightarrow> backed B ix' L"
  by (auto simp: backed_def)

lemma backed_both: "backed (both A B) ix L \<longleftrightarrow> backed A ix L \<and> backed B ix L"
  by (auto simp: backed_def both_def)

text \<open>If the index can be read, its entries have their payloads.\<close>

definition openable :: "backing \<Rightarrow> store_env \<Rightarrow> leaves \<Rightarrow> bool" where
  "openable B env L \<longleftrightarrow> (\<forall>ix. indexed env ix (L Index_Leaf) \<longrightarrow> backed B ix L)"

lemma openable_temp [simp]: "openable B env (L(Index_Temp := l)) \<longleftrightarrow> openable B env L"
  by (simp add: openable_def)

lemma intact_openable: "intact B env ix L \<Longrightarrow> openable B env L"
  by (auto simp: intact_def openable_def indexed_def)

lemma openable_mono: "openable A env L \<Longrightarrow> (\<And>e l. A e l \<Longrightarrow> B e l) \<Longrightarrow> openable B env L"
  by (auto simp: openable_def backed_def)

lemma rooted_err: "rooted P m Q (\<lambda>_. P) \<Longrightarrow> (\<And>L. P L \<Longrightarrow> E L) \<Longrightarrow> rooted P m Q (\<lambda>_. E)"
  by (erule rooted_mono) auto

lemma rooted_for_visited:
  "(\<And>ys x zs a. xs = ys @ x # zs \<Longrightarrow> rooted (P ys a) (body x a) (P (ys @ [x])) E) \<Longrightarrow> rooted (P [] acc) (m_for xs body acc) (P xs) E"
  unfolding rooted_def by (rule triple_for_visited [where P = "\<lambda>ys a. on_leaves (P ys a)"])

lemma rooted_conj_pure:
  assumes "rooted P m (\<lambda>_. P) E"
  shows "rooted (\<lambda>L. P L \<and> F) m (\<lambda>_ L. P L \<and> F) E"
  by (cases F) (use assms in \<open>simp_all add: rooted_def triple_def on_leaves_def\<close>)

lemma rooted_remove_payload:
  assumes "\<And>L. P L \<Longrightarrow> P (L(Payload slot := None))"
  shows "rooted P (remove_payload env slot) (\<lambda>_ L. P L \<and> L (Payload slot) = None) (\<lambda>_. P)"
  unfolding remove_payload_def
  by (rule rooted_bind [OF rooted_unlink_leaf [where Q = P]]) (use assms in \<open>auto intro: rooted_return\<close>)

lemma rooted_cleanup_unindexed:
  "rooted (intact B env ix) (cleanup_unindexed env ix) (\<lambda>_. intact B env ix) (\<lambda>_. intact B env ix)"
proof -
  have u: "rooted (intact B env ix) (unlink_leaf env name) (\<lambda>_. intact B env ix) (\<lambda>_. intact B env ix)"
    if "\<And>L. intact B env ix L \<Longrightarrow> intact B env ix (L(name := None))" for name
    by (rule rooted_mono [OF rooted_unlink_leaf [where P = "intact B env ix" and Q = "intact B env ix"]]) (use that in auto)
  show ?thesis
    unfolding cleanup_unindexed_def
  proof (intro rooted_bind)
    show "rooted (intact B env ix) (unlink_leaf env Payload_Temp) (\<lambda>_. intact B env ix) (\<lambda>_. intact B env ix)"
      and "rooted (intact B env ix) (unlink_leaf env Index_Temp) (\<lambda>_. intact B env ix) (\<lambda>_. intact B env ix)"
      by (rule u; simp)+
    show "rooted (intact B env ix) (m_for [0..<PAYLOAD_SLOTS] (\<lambda>slot removed.
       if slot \<in> ie_slot ` set (ix_entries ix) then m_return removed
       else m_bind (unlink_leaf env (Payload slot)) (\<lambda>c. m_return (removed \<or> c))) start) (\<lambda>_. intact B env ix) (\<lambda>_. intact B env ix)" for start
      by (rule rooted_for [where P = "\<lambda>_. intact B env ix"])
        (auto intro!: rooted_if rooted_return rooted_bind [OF u])
    show "rooted (intact B env ix) (if removed then sync_all env else m_return ()) (\<lambda>_. intact B env ix) (\<lambda>_. intact B env ix)" for removed
      by (auto intro!: rooted_if rooted_file_call rooted_return)
  qed
qed

lemma rooted_weaken_error: "rooted P m Q E \<Longrightarrow> rooted P m Q (\<lambda>_ _. True)"
  by (erule rooted_mono) auto

lemma rooted_publish_any:
  assumes "codec_ok env" "\<And>e l. B' e l \<Longrightarrow> B e l"
  shows "rooted (\<lambda>L. intact B env ix L \<and> backed B' candidate L) (map_err unpublished (publish_index env candidate))
     (\<lambda>_ L. intact B' env candidate L \<and> index_validate candidate = Inr ()) (\<lambda>_. openable B env)"
  by (rule rooted_map_err, rule rooted_mono [OF rooted_publish_intact [OF assms(1)]])
    (auto simp: published_def intro: intact_openable openable_mono [OF intact_openable assms(2)] split: publish_error.splits)

lemma rooted_install_pruned:
  assumes "codec_ok env" "set gone \<inter> ie_slot ` set (ix_entries candidate) = {}" "\<And>e l. B' e l \<Longrightarrow> B e l"
  shows "rooted (\<lambda>L. intact B env ix L \<and> backed B' candidate L) (install_pruned env candidate gone)
     (\<lambda>x L. x = candidate \<and> intact B' env candidate L \<and> index_validate candidate = Inr ()) (\<lambda>_. openable B env)"
proof -
  let ?P = "\<lambda>L. intact B' env candidate L \<and> index_validate candidate = Inr ()"
  have o: "?P L \<Longrightarrow> openable B env L" for L by (rule openable_mono [OF intact_openable assms(3)]) auto
  have r: "rooted ?P (remove_payload env slot) (\<lambda>_. ?P) (\<lambda>_. openable B env)" if "slot \<in> set gone" for slot
    by (rule rooted_mono [OF rooted_remove_payload [where P = ?P]]) (use that assms(2) o in \<open>auto simp: disjoint_iff\<close>)
  show ?thesis
    unfolding install_pruned_def
    by (rule rooted_bind [OF rooted_publish_any [OF assms(1,3)]], assumption, rule rooted_bind, rule rooted_for [where P = "\<lambda>_. ?P"],
        erule r, rule rooted_bind [OF rooted_err [OF rooted_file_call o]], assumption, rule rooted_return) simp
qed

text \<open>Entries with a payload of their length are not reported.\<close>

lemma rooted_missing_payloads:
  "rooted (intact B env ix) (missing_payloads env ix)
     (\<lambda>invalid L. intact B env ix L \<and> (\<forall>e\<in>set (ix_entries ix). ie_slot e \<in> set invalid \<or> has_length e (L (Payload (ie_slot e))))) (\<lambda>_. openable B env)"
proof -
  define P where "P ys invalid L \<longleftrightarrow> intact B env ix L
      \<and> (\<forall>e\<in>set ys. ie_slot e \<in> set invalid \<or> has_length e (L (Payload (ie_slot e))))" for ys invalid L
  have o: "P ys a L \<Longrightarrow> openable B env L" for ys a L by (auto simp: P_def intro: intact_openable)
  have "rooted (P [] []) (missing_payloads env ix) (P (ix_entries ix)) (\<lambda>_. openable B env)"
    unfolding missing_payloads_def
  proof (rule rooted_for_visited, rule rooted_bind [OF rooted_err [OF rooted_existing_leaf o]], assumption, rule rooted_option)
    fix ys e a and found :: "byte list option" assume "found = None"
    show "rooted (\<lambda>L. P ys a L \<and> found_leaf found (L (Payload (ie_slot e)))) (m_return (a @ [ie_slot e])) (P (ys @ [e])) (\<lambda>_. openable B env)"
      by (rule rooted_return) (auto simp: P_def)
  next
    fix ys e a and found :: "byte list option" and bs :: "byte list" assume found: "found = Some bs"
    show "rooted (\<lambda>L. P ys a L \<and> found_leaf found (L (Payload (ie_slot e))))
       (m_bind (metadata env) (\<lambda>_. m_return (if length bs = ie_file_bytes e then a else a @ [ie_slot e]))) (P (ys @ [e])) (\<lambda>_. openable B env)"
      by (rule rooted_bind [OF rooted_err [OF rooted_file_call]], erule o [OF conjunct1], rule rooted_return)
        (use found in \<open>auto simp: P_def has_length_def\<close>)
  qed
  then show ?thesis by (rule rooted_mono) (auto simp: P_def)
qed

definition within_limits :: "store_limits \<Rightarrow> index_file \<Rightarrow> bool" where
  "within_limits limits ix \<longleftrightarrow> \<not> over_limits limits (entry_bytes (ix_entries ix)) (ix_entries ix)"

theorem rooted_reconcile_and_prune:
  assumes codec: "codec_ok env" and valid: "index_validate ix = Inr ()"
  shows "rooted (intact B env ix) (reconcile_and_prune env ix limits)
     (\<lambda>ix' L. intact (both B has_length) env ix' L \<and> index_validate ix' = Inr () \<and> within_limits limits ix'
        \<and> set (ix_entries ix') \<subseteq> set (ix_entries ix)) (\<lambda>_. openable B env)"
proof -
  let ?B = "both B has_length"
  define S where "S ix' L \<longleftrightarrow> intact ?B env ix' L \<and> index_validate ix' = Inr () \<and> set (ix_entries ix') \<subseteq> set (ix_entries ix)" for ix' L
  have o: "S ix' L \<Longrightarrow> openable B env L" for ix' L by (auto simp: S_def both_def intro!: openable_mono [OF intact_openable, where A = ?B])
  have one: "rooted (\<lambda>L. intact B env ix L \<and> (\<forall>e\<in>set (ix_entries ix). ie_slot e \<in> set invalid \<or> has_length e (L (Payload (ie_slot e)))))
      (if invalid = [] then m_return ix else install_pruned env (without invalid ix) invalid) S (\<lambda>_. openable B env)" for invalid
  proof (rule rooted_if)
    assume "invalid = []"
    then show "rooted (\<lambda>L. intact B env ix L \<and> (\<forall>e\<in>set (ix_entries ix). ie_slot e \<in> set invalid \<or> has_length e (L (Payload (ie_slot e)))))
        (m_return ix) S (\<lambda>_. openable B env)"
      by (intro rooted_return) (use valid in \<open>auto simp: S_def intact_def backed_def both_def\<close>)
  next
    show "rooted (\<lambda>L. intact B env ix L \<and> (\<forall>e\<in>set (ix_entries ix). ie_slot e \<in> set invalid \<or> has_length e (L (Payload (ie_slot e)))))
        (install_pruned env (without invalid ix) invalid) S (\<lambda>_. openable B env)"
      by (rule rooted_mono [OF rooted_install_pruned [OF codec, where B = B and B' = ?B]])
        (auto simp: S_def without_def intact_def backed_def both_def)
  qed
  have two: "rooted (S ix1) (if \<not> over_limits limits bytes (ix_entries ix1) then m_return ix1
             else m_bind (m_lift (failing (prune_loop limits bytes (ix_entries ix1)))) (\<lambda>(kept, gone).
                  install_pruned env (ix1 \<lparr> ix_entries := kept \<rparr>) gone)) (\<lambda>ix' L. S ix' L \<and> within_limits limits ix') (\<lambda>_. openable B env)"
    if bytes: "index_live_bytes ix1 = Inr bytes" for ix1 bytes
  proof (rule rooted_if)
    assume "\<not> over_limits limits bytes (ix_entries ix1)"
    then show "rooted (S ix1) (m_return ix1) (\<lambda>ix' L. S ix' L \<and> within_limits limits ix') (\<lambda>_. openable B env)"
      by (intro rooted_return) (use index_live_bytes_Inr [OF bytes] in \<open>auto simp: within_limits_def\<close>)
  next
    show "rooted (S ix1) (m_bind (m_lift (failing (prune_loop limits bytes (ix_entries ix1)))) (\<lambda>(kept, gone).
                  install_pruned env (ix1 \<lparr> ix_entries := kept \<rparr>) gone)) (\<lambda>ix' L. S ix' L \<and> within_limits limits ix') (\<lambda>_. openable B env)"
    proof (rule rooted_lift_bind)
      fix x assume "failing (prune_loop limits bytes (ix_entries ix1)) = Inr x"
      then obtain kept gone where x: "x = (kept, gone)" "prune_loop limits bytes (ix_entries ix1) = Inr (kept, gone)"
        by (cases x) (simp add: failing_Inr)
      show "rooted (S ix1) (case x of (kept, gone) \<Rightarrow> install_pruned env (ix1 \<lparr> ix_entries := kept \<rparr>) gone)
          (\<lambda>ix' L. S ix' L \<and> within_limits limits ix') (\<lambda>_. openable B env)"
      proof (cases "distinct (map ie_slot (ix_entries ix1)) \<and> set (ix_entries ix1) \<subseteq> set (ix_entries ix)")
        case True
        note loop = prune_loop_Inr [OF x(2) index_live_bytes_Inr [OF bytes] conjunct1 [OF True]]
        then obtain P where "kept = filter P (ix_entries ix1)" by blast
        then have p: "\<not> over_limits limits (entry_bytes kept) kept" "set kept \<subseteq> set (ix_entries ix1)" using loop by auto
        have disj: "set gone \<inter> ie_slot ` set kept = {}" using loop by (auto simp: disjoint_iff)
        show ?thesis
          unfolding x prod.case
          by (rule rooted_mono [OF rooted_install_pruned [OF codec, where B = ?B and B' = ?B and ix = ix1]])
            (use p disj True in \<open>auto simp: S_def intact_def backed_def within_limits_def both_def intro: openable_mono [where A = ?B]\<close>)
      next
        case False
        then have "\<not> S ix1 L" for L by (auto simp: S_def index_validate_iff)
        then show ?thesis by (simp add: rooted_def triple_def on_leaves_def)
      qed
    qed (rule o)
  qed
  show ?thesis
    unfolding reconcile_and_prune_def
  proof (rule rooted_bind [OF rooted_missing_payloads], rule rooted_bind [OF one], rule rooted_lift_bind)
    fix ix1 bytes assume "failing (index_live_bytes ix1) = Inr bytes"
    then have bytes: "index_live_bytes ix1 = Inr bytes" by (simp add: failing_Inr)
    have "rooted (\<lambda>L. S ix2 L \<and> within_limits limits ix2) (m_bind (cleanup_unindexed env ix2) (\<lambda>_. m_return ix2))
        (\<lambda>ix' L. S ix' L \<and> within_limits limits ix') (\<lambda>_. openable B env)" for ix2
    proof (rule rooted_bind [where R = "\<lambda>_ L. S ix2 L \<and> within_limits limits ix2"])
      have "rooted (intact ?B env ix2) (cleanup_unindexed env ix2) (\<lambda>_. intact ?B env ix2) (\<lambda>_. openable B env)"
        by (rule rooted_err [OF rooted_cleanup_unindexed]) (auto simp: both_def intro: openable_mono [OF intact_openable])
      then show "rooted (\<lambda>L. S ix2 L \<and> within_limits limits ix2) (cleanup_unindexed env ix2)
          (\<lambda>_ L. S ix2 L \<and> within_limits limits ix2) (\<lambda>_. openable B env)"
        unfolding S_def conj_assoc by (rule rooted_conj_pure)
    qed (rule rooted_return)
    from rooted_bind [OF two [OF bytes] this]
    show "rooted (S ix1) (m_bind (if \<not> over_limits limits bytes (ix_entries ix1) then m_return ix1
             else m_bind (m_lift (failing (prune_loop limits bytes (ix_entries ix1)))) (\<lambda>(kept, gone).
                  install_pruned env (ix1 \<lparr> ix_entries := kept \<rparr>) gone)) (\<lambda>ix. m_bind (cleanup_unindexed env ix) (\<lambda>_. m_return ix)))
     (\<lambda>ix' L. intact ?B env ix' L \<and> index_validate ix' = Inr () \<and> within_limits limits ix'
        \<and> set (ix_entries ix') \<subseteq> set (ix_entries ix)) (\<lambda>_. openable B env)"
      by (rule rooted_mono) (auto simp: S_def)
  qed (rule o)
qed

section \<open>From a directory to an index\<close>

lemma rooted_read_index:
  "rooted (openable B env) (read_index env)
     (\<lambda>found L. openable B env L \<and> (\<forall>ix. found = Some ix \<longrightarrow> intact B env ix L \<and> index_validate ix = Inr ())) (\<lambda>_. openable B env)"
  unfolding read_index_def
proof (rule rooted_bind [OF rooted_existing_leaf], rule rooted_option)
  fix found :: "byte list option" and bs assume found: "found = Some bs"
  let ?P = "\<lambda>L. openable B env L \<and> L Index_Leaf = Some (Regular bs)"
  have m: "rooted (\<lambda>L. openable B env L \<and> found_leaf found (L Index_Leaf)) (metadata env) (\<lambda>_. ?P) (\<lambda>_. openable B env)"
    by (rule rooted_mono [OF rooted_file_call [where P = ?P]]) (use found in auto)
  show "rooted (\<lambda>L. openable B env L \<and> found_leaf found (L Index_Leaf)) (m_bind (metadata env) (\<lambda>_.
         m_bind (m_lift (ensure (0 < length bs \<and> length bs \<le> MAX_INDEX_BYTES)
           (Failure ''checkpoint index size exceeds admission'') (failing (reserve_exact (sv_wire env) (length bs))))) (\<lambda>_.
         m_bind (read_leaf env bs (length bs)) (\<lambda>bs.
         m_bind (m_lift (ok_or (from_json env bs) (Failure ''checkpoint index JSON is malformed''))) (\<lambda>ix.
         m_bind (m_lift (failing (index_validate ix))) (\<lambda>_. m_return (Some ix)))))))
     (\<lambda>found L. openable B env L \<and> (\<forall>ix. found = Some ix \<longrightarrow> intact B env ix L \<and> index_validate ix = Inr ())) (\<lambda>_. openable B env)"
    by (rule rooted_bind [OF m], rule rooted_lift_bind, rule rooted_bind [OF rooted_err [OF rooted_read_leaf]], erule conjunct1,
        rule rooted_lift_bind, rule rooted_lift_bind, rule rooted_return)
      (auto simp: ensure_eq_Inr ok_or_eq_Inr failing_Inr openable_def intact_def indexed_def)
qed (auto intro: rooted_return)

theorem rooted_initialize_or_read_index:
  assumes codec: "codec_ok env"
  shows "rooted (openable B env) (initialize_or_read_index env) (\<lambda>ix L. intact B env ix L \<and> index_validate ix = Inr ()) (\<lambda>_. openable B env)"
  unfolding initialize_or_read_index_def
proof (rule rooted_bind [OF rooted_read_index], rule rooted_option)
  fix found :: "index_file option" assume "found = None"
  let ?P = "openable B env"
  have p: "rooted ?P (map_err unpublished (publish_index env index_empty)) (\<lambda>_ L. indexed env index_empty (L Index_Leaf)) (\<lambda>_. openable B env)"
    by (rule rooted_map_err, rule rooted_mono [OF rooted_publish_index [OF codec, where P = ?P and Q = "\<lambda>L. indexed env index_empty (L Index_Leaf)"]])
      (auto simp: openable_def indexed_def backed_def index_empty_def split: publish_error.splits)
  have u: "rooted ?P (unlink_leaf env Index_Temp) (\<lambda>_. ?P) (\<lambda>_. openable B env)"
    by (rule rooted_mono [OF rooted_unlink_leaf [where P = ?P and Q = ?P]]) auto
  have e: "rooted ?P (existing_leaf env name) (\<lambda>_. ?P) (\<lambda>_. openable B env)" for name
    by (rule rooted_mono [OF rooted_existing_leaf [where P = ?P]]) auto
  have f: "rooted ?P (m_for [0..<PAYLOAD_SLOTS] (\<lambda>slot _.
           m_bind (existing_leaf env (Payload slot)) (\<lambda>old.
           m_lift (ensure (old = None) (Failure ''checkpoint index is missing while payloads exist'') (Inr ())))) ()) (\<lambda>_. ?P) (\<lambda>_. openable B env)"
    by (rule rooted_for [where P = "\<lambda>_. ?P"]) (auto intro!: rooted_bind [OF e] rooted_lift)
  have "rooted ?P (m_bind (m_for [0..<PAYLOAD_SLOTS] (\<lambda>slot _.
           m_bind (existing_leaf env (Payload slot)) (\<lambda>old.
           m_lift (ensure (old = None) (Failure ''checkpoint index is missing while payloads exist'') (Inr ())))) ()) (\<lambda>_.
         m_bind (existing_leaf env Payload_Temp) (\<lambda>temporary.
         m_bind (m_lift (ensure (temporary = None) (Failure ''checkpoint index is missing while a payload temporary exists'') (Inr ()))) (\<lambda>_.
         m_bind (unlink_leaf env Index_Temp) (\<lambda>_.
         m_bind (map_err unpublished (publish_index env index_empty)) (\<lambda>_. m_return index_empty))))))
     (\<lambda>ix L. intact B env ix L \<and> index_validate ix = Inr ()) (\<lambda>_. openable B env)"
    by (rule rooted_bind [OF f], rule rooted_bind [OF e], rule rooted_lift_bind, rule rooted_bind [OF u], rule rooted_bind [OF p], rule rooted_return)
      (simp add: intact_def backed_def index_validate_empty, simp_all add: index_empty_def)
  then show "rooted (\<lambda>L. openable B env L \<and> (\<forall>ix. found = Some ix \<longrightarrow> intact B env ix L \<and> index_validate ix = Inr ()))
     (m_bind (m_for [0..<PAYLOAD_SLOTS] (\<lambda>slot _.
           m_bind (existing_leaf env (Payload slot)) (\<lambda>old.
           m_lift (ensure (old = None) (Failure ''checkpoint index is missing while payloads exist'') (Inr ())))) ()) (\<lambda>_.
         m_bind (existing_leaf env Payload_Temp) (\<lambda>temporary.
         m_bind (m_lift (ensure (temporary = None) (Failure ''checkpoint index is missing while a payload temporary exists'') (Inr ()))) (\<lambda>_.
         m_bind (unlink_leaf env Index_Temp) (\<lambda>_.
         m_bind (map_err unpublished (publish_index env index_empty)) (\<lambda>_. m_return index_empty))))))
     (\<lambda>ix L. intact B env ix L \<and> index_validate ix = Inr ()) (\<lambda>_. openable B env)"
    by (rule rooted_mono) auto
qed (auto intro: rooted_return)

theorem rooted_open_index:
  assumes codec: "codec_ok env"
  shows "rooted (openable B env) (open_index env limits)
     (\<lambda>ix L. intact (both B has_length) env ix L \<and> index_validate ix = Inr () \<and> within_limits limits ix) (\<lambda>_. openable B env)"
proof -
  have r: "rooted (\<lambda>L. intact B env ix L \<and> index_validate ix = Inr ()) (reconcile_and_prune env ix limits)
      (\<lambda>ix L. intact (both B has_length) env ix L \<and> index_validate ix = Inr () \<and> within_limits limits ix) (\<lambda>_. openable B env)" for ix
  proof (cases "index_validate ix = Inr ()")
    case True
    show ?thesis by (rule rooted_mono [OF rooted_reconcile_and_prune [OF codec True]]) auto
  qed (simp add: rooted_def triple_def on_leaves_def)
  show ?thesis
    unfolding open_index_def
    by (intro rooted_bind [OF rooted_file_call] rooted_bind [OF rooted_initialize_or_read_index [OF codec]] r)
qed

end
