(* ===== verification/Checkpoint_Owner.thy ===== *)
theory Checkpoint_Owner
  imports Checkpoint_Opening
begin

text \<open>
  The invariant of an open checkpoint directory: the index in memory validates, is within the limits and is
  the one on disk, every entry has its payload, and no slot is dead unless writes are disabled. Every
  method keeps it on every outcome and for every schedule of failures.
\<close>

section \<open>States of an owner\<close>

definition sans :: "disk_store \<Rightarrow> disk_store" where
  "sans d = d \<lparr> ds_root := \<lparr> rt_leaves = (\<lambda>_. None), rt_calls = 0 \<rparr> \<rparr>"

text \<open>An owner that differs from \<open>s\<close> only in its directory, whose leaves are in \<open>P\<close>.\<close>

definition owns :: "disk_store \<Rightarrow> (leaves \<Rightarrow> bool) \<Rightarrow> disk_store \<Rightarrow> bool" where
  "owns s P d \<longleftrightarrow> sans d = sans s \<and> P (rt_leaves (ds_root d))"

lemma sans_fields [simp]:
  "ds_index (sans d) = ds_index d" "ds_owner (sans d) = ds_owner d" "ds_scope (sans d) = ds_scope d" "ds_limits (sans d) = ds_limits d"
  "ds_dead (sans d) = ds_dead d" "ds_writes_disabled (sans d) = ds_writes_disabled d"
  "ds_restores_disabled (sans d) = ds_restores_disabled d" "ds_managed (sans d) = ds_managed d" "sans (sans d) = sans d"
  "sans (d \<lparr> ds_root := r \<rparr>) = sans d"
  by (simp_all add: sans_def)

lemma sans_eqD:
  assumes "sans d = sans s"
  shows "ds_index d = ds_index s" "ds_owner d = ds_owner s" "ds_scope d = ds_scope s" "ds_limits d = ds_limits s" "ds_dead d = ds_dead s"
    "ds_writes_disabled d = ds_writes_disabled s" "ds_restores_disabled d = ds_restores_disabled s" "ds_managed d = ds_managed s"
  using assms sans_fields by metis+

lemma triple_on_root: "rooted P m Q E \<Longrightarrow> triple (owns s P) (on_root m) (\<lambda>x. owns s (Q x)) (\<lambda>e. owns s (E e))"
  by (rule tripleI) (auto simp: owns_def on_root_def split: prod.splits dest: rooted_Inr rooted_Inl)

lemma triple_owns_modify:
  assumes "\<And>d r. f (d \<lparr> ds_root := r \<rparr>) = f d \<lparr> ds_root := r \<rparr>"
  shows "triple (owns s P) (m_modify f) (\<lambda>_. owns (f s) P) E"
proof (rule triple_modify)
  fix d assume "owns s P d"
  moreover have "sans (f d) = f (sans d)" for d unfolding sans_def by (rule assms [symmetric])
  moreover have "ds_root (f d) = ds_root d" 
    using arg_cong [OF assms [where d = d and r = "ds_root d"], of ds_root] by simp
  ultimately show "owns (f s) P (f d)" by (simp add: owns_def)
qed

lemma triple_get_state: "(\<And>x. triple (\<lambda>s. P s \<and> s = x) (g x) Q E) \<Longrightarrow> triple P (m_bind (m_get Inr) g) Q E"
  by (simp add: triple_def m_bind_def)

lemma triple_owns_get:
  assumes "\<And>d. sans d = sans s \<Longrightarrow> triple (owns s P) (f d) Q E"
  shows "triple (owns s P) (m_bind (m_get Inr) f) Q E"
proof (rule triple_get_state)
  fix d
  show "triple (\<lambda>t. owns s P t \<and> t = d) (f d) Q E"
  proof (cases "sans d = sans s")
    case True
    show ?thesis by (rule triple_pre [OF assms [OF True]]) simp
  next
    case False
    then show ?thesis by (auto simp: triple_def owns_def)
  qed
qed

section \<open>The invariant\<close>

type_synonym owner_static = "nat \<times> byte list \<times> store_limits \<times> reserve_fn option"

definition statics :: "disk_store \<Rightarrow> owner_static" where
  "statics d = (ds_owner d, ds_scope d, ds_limits d, ds_managed d)"

text \<open>The part that does not look at the directory, with and without the clause on dead slots.\<close>

definition sound :: "owner_static \<Rightarrow> disk_store \<Rightarrow> bool" where
  "sound c d \<longleftrightarrow> index_validate (ds_index d) = Inr () \<and> within_limits (ds_limits d) (ds_index d) \<and> statics d = c"

definition flagged :: "disk_store \<Rightarrow> bool" where
  "flagged d \<longleftrightarrow> ds_writes_disabled d \<or> ds_dead d = {}"

definition good :: "backing \<Rightarrow> store_env \<Rightarrow> owner_static \<Rightarrow> disk_store \<Rightarrow> bool" where
  "good B env c d \<longleftrightarrow> intact B env (ds_index d) (rt_leaves (ds_root d)) \<and> sound c d \<and> flagged d"

lemma sound_sans [simp]: "sound c (sans d) \<longleftrightarrow> sound c d" "flagged (sans d) \<longleftrightarrow> flagged d" "statics (sans d) = statics d"
  by (simp_all add: sound_def flagged_def statics_def)

lemma owns_good:
  assumes "owns s P d" "\<And>L. P L \<Longrightarrow> intact B env (ds_index s) L" "sound c s" "flagged s"
  shows "good B env c d"
proof -
  from assms(1) have d: "sans d = sans s" "P (rt_leaves (ds_root d))" by (auto simp: owns_def)
  note f = sans_eqD [OF d(1)]
  show ?thesis
    using assms(2) [OF d(2)] assms(3,4) by (simp add: good_def sound_def flagged_def statics_def f)
qed

lemma triple_good:
  assumes "\<And>s. sound c s \<Longrightarrow> flagged s \<Longrightarrow> triple (owns s (intact B env (ds_index s))) m Q E"
  shows "triple (good B env c) m Q E"
proof (rule tripleI)
  fix s e t assume s: "good B env c s" "m s = (Inl e, t)"
  then show "E e t" by (intro triple_Inl [OF assms _ s(2)]) (auto simp: good_def owns_def)
next
  fix s x t assume s: "good B env c s" "m s = (Inr x, t)"
  then show "Q x t" by (intro triple_Inr [OF assms _ s(2)]) (auto simp: good_def owns_def)
qed

lemma keeps_good:
  assumes "\<And>s. sound c s \<Longrightarrow> flagged s \<Longrightarrow> triple (owns s (intact B env (ds_index s))) m (\<lambda>_. good B env c) (\<lambda>_. good B env c)"
  shows "keeps (good B env c) m"
  by (rule triple_keeps [OF triple_good [OF assms]])

lemma keeps_triple: "keeps I m \<Longrightarrow> triple I m (\<lambda>_. I) (\<lambda>_. I)"
  by (rule tripleI; erule (2) keepsD)

lemma keeps_on_failure [keeps_rules]: "keeps I m \<Longrightarrow> keeps I h \<Longrightarrow> keeps I (on_failure h m)"
  unfolding on_failure_def by (intro keeps_rules) (auto intro: keeps_rules split: sum.splits)

lemma keeps_good_root:
  assumes "\<And>ix. rooted (intact B env ix) m (\<lambda>_. intact B env ix) (\<lambda>_. intact B env ix)"
  shows "keeps (good B env c) (on_root m)"
  by (rule keeps_good, rule triple_mono [OF triple_on_root [OF assms]]) (auto intro: owns_good)

lemma keeps_good_flags [keeps_rules]: "keeps (good B env c) disable_writes" "keeps (good B env c) disable_restores"
  unfolding disable_writes_def disable_restores_def
  by (rule keeps_modify; simp add: good_def sound_def flagged_def statics_def)+

section \<open>Restoring\<close>

lemma keeps_good_existing: "keeps (good B env c) (on_root (existing_leaf env name))"
  by (rule keeps_good_root, rule rooted_mono [OF rooted_existing_leaf]) auto

lemma rooted_transfer: "rooted P (transfer env f) (\<lambda>_. P) (\<lambda>_. P)"
  by (rule rootedI) (auto simp: transfer_def)

lemma keeps_good_read_payload: "keeps (good B env c) (read_payload env en requested e file)"
proof -
  have c: "rooted P (file_call env) (\<lambda>_. P) (\<lambda>_. P)" for P by (rule rooted_file_call)
  have h: "rooted P (read_leaf env file n) (\<lambda>_. P) (\<lambda>_. P)" for P n by (rule rooted_mono [OF rooted_read_leaf [where P = P]]) auto
  have v: "rooted P (validate_selected_header env en e file) (\<lambda>_. P) (\<lambda>_. P)" for P
    unfolding validate_selected_header_def
    by (rule rooted_bind [OF c], rule rooted_lift_bind, rule rooted_bind [OF h], rule rooted_lift_bind, rule rooted_lift_bind, rule c)
  show ?thesis
    unfolding read_payload_def by (intro keeps_rules keeps_good_root v rooted_transfer)
qed

lemma triple_install_index:
  assumes codec: "codec_ok env" and limits: "within_limits (ds_limits s) candidate"
  shows "triple (owns s (\<lambda>L. intact B env (ds_index s) L \<and> backed B candidate L)) (install_index env candidate)
     (\<lambda>_ d. owns (s \<lparr> ds_index := candidate \<rparr>) (intact B env candidate) d \<and> index_validate candidate = Inr ())
     (\<lambda>_ d. owns s (\<lambda>L. intact B env (ds_index s) L \<and> backed B candidate L) d
        \<or> owns (s \<lparr> ds_index := candidate, ds_writes_disabled := True \<rparr>) (intact B env candidate) d \<and> index_validate candidate = Inr ())"
  (is "triple ?P _ ?Q ?E")
proof -
  let ?I = "\<lambda>L. intact B env candidate L \<and> index_validate candidate = Inr ()"
  define R where "R r = (case r of Inr _ \<Rightarrow> owns s ?I | Inl e \<Rightarrow>
      owns s (published (\<lambda>L. intact B env (ds_index s) L \<and> backed B candidate L) ?I e))" for r :: "publish_error + unit"
  have "triple ?P (m_try (on_root (publish_index env candidate))) R ?E"
    by (rule triple_try, rule triple_mono [OF triple_on_root [OF rooted_publish_intact [OF codec]]]) (auto simp: R_def)
  moreover have "triple (R r) (case r of
       Inr _ \<Rightarrow> m_modify (\<lambda>d. d \<lparr> ds_index := candidate \<rparr>)
     | Inl (Before e) \<Rightarrow> m_lift (Inl e)
     | Inl (After e) \<Rightarrow>
         m_bind (m_modify (\<lambda>d. d \<lparr> ds_index := candidate, ds_writes_disabled := True \<rparr>)) (\<lambda>_. m_lift (Inl e))) ?Q ?E" for r
  proof (cases r)
    case (Inr u)
    then show ?thesis
      by (simp add: R_def, intro triple_mono [OF triple_owns_modify [where s = s and P = ?I]]) (auto simp: owns_def)
  next
    case (Inl pe)
    show ?thesis
    proof (cases pe)
      case (Before e)
      with Inl show ?thesis by (auto simp: R_def intro!: triple_lift)
    next
      case (After e)
      have "triple (owns s ?I) (m_modify (\<lambda>d. d \<lparr> ds_index := candidate, ds_writes_disabled := True \<rparr>))
          (\<lambda>_. owns (s \<lparr> ds_index := candidate, ds_writes_disabled := True \<rparr>) ?I) ?E"
        by (rule triple_owns_modify) simp
      with Inl After show ?thesis
        by (simp add: R_def) (rule triple_bind, assumption, rule triple_lift, auto simp: owns_def)
    qed
  qed
  ultimately show ?thesis unfolding install_index_def by (rule triple_bind)
qed

lemma owns_mono: "owns s P d \<Longrightarrow> (\<And>L. P L \<Longrightarrow> Q L) \<Longrightarrow> owns s Q d"
  by (auto simp: owns_def)

lemma owns_disabled:
  assumes "owns s P d" "\<And>L. P L \<Longrightarrow> intact B env (ds_index s) L" "sound c s"
  shows "good B env c (d \<lparr> ds_writes_disabled := True \<rparr>)"
proof -
  from assms(1) have d: "sans d = sans s" "P (rt_leaves (ds_root d))" by (auto simp: owns_def)
  note f = sans_eqD [OF d(1)]
  show ?thesis using assms(2) [OF d(2)] assms(3) by (simp add: good_def sound_def flagged_def statics_def f)
qed

lemma triple_disable:
  assumes "\<And>d. P d \<Longrightarrow> \<exists>s Q. owns s Q d \<and> (\<forall>L. Q L \<longrightarrow> intact B env (ds_index s) L) \<and> sound c s"
  shows "triple P disable_writes (\<lambda>_. good B env c) E"
  unfolding disable_writes_def by (rule triple_modify) (use assms owns_disabled in blast)

lemma triple_on_failure:
  assumes m: "triple P m Q R" and h: "\<And>e. triple (R e) h (\<lambda>_. E e) (\<lambda>e. E e)"
  shows "triple P (on_failure h m) Q E"
  unfolding on_failure_def
proof (rule triple_bind [OF triple_try [where Q = "\<lambda>r. case r of Inr x \<Rightarrow> Q x | Inl e \<Rightarrow> R e"]])
  show "triple P m (\<lambda>x. case Inr x of Inr x \<Rightarrow> Q x | Inl e \<Rightarrow> R e) (\<lambda>e. case Inl e of Inr x \<Rightarrow> Q x | Inl e \<Rightarrow> R e)"
    using m by simp
  show "triple (case r of Inr x \<Rightarrow> Q x | Inl e \<Rightarrow> R e) (case r of Inl e \<Rightarrow> m_bind h (\<lambda>_. m_lift (Inl e)) | Inr x \<Rightarrow> m_return x) Q E" for r
    by (cases r) (auto intro!: triple_return triple_bind [OF h] triple_lift)
qed

lemma within_limits_filter:
  "within_limits limits ix \<Longrightarrow> within_limits limits (ix \<lparr> ix_entries := filter P (ix_entries ix) \<rparr>)"
  using entry_bytes_filter_le [of P "ix_entries ix"]
  by (auto simp: within_limits_def over_limits_def list_ex_iff not_less intro: le_trans [OF length_filter_le])

lemma sound_index:
  "sound c s \<Longrightarrow> within_limits (ds_limits s) candidate \<Longrightarrow> index_validate candidate = Inr () \<Longrightarrow> sound c (s \<lparr> ds_index := candidate \<rparr>)"
  "sound c s \<Longrightarrow> within_limits (ds_limits s) candidate \<Longrightarrow> index_validate candidate = Inr ()
     \<Longrightarrow> sound c (s \<lparr> ds_index := candidate, ds_writes_disabled := w \<rparr>)"
  "sound c s \<Longrightarrow> sound c (s \<lparr> ds_dead := dead \<rparr>)"
  by (simp_all add: sound_def statics_def)

text \<open>After a failed installation either index is on disk with its payloads, so disabling writes is safe.\<close>

lemma triple_install_or_disable:
  assumes codec: "codec_ok env" and c: "sound c s" and limits: "within_limits (ds_limits s) candidate"
  shows "triple (owns s (\<lambda>L. intact B env (ds_index s) L \<and> backed B candidate L)) (on_failure disable_writes (install_index env candidate))
     (\<lambda>_ d. owns (s \<lparr> ds_index := candidate \<rparr>) (intact B env candidate) d \<and> index_validate candidate = Inr ()) (\<lambda>_. good B env c)"
proof (rule triple_on_failure [OF triple_install_index [OF codec limits]], rule triple_disable)
  fix d
  assume "owns s (\<lambda>L. intact B env (ds_index s) L \<and> backed B candidate L) d
      \<or> owns (s \<lparr> ds_index := candidate, ds_writes_disabled := True \<rparr>) (intact B env candidate) d \<and> index_validate candidate = Inr ()"
  then show "\<exists>s Q. owns s Q d \<and> (\<forall>L. Q L \<longrightarrow> intact B env (ds_index s) L) \<and> sound c s"
  proof
    assume "owns s (\<lambda>L. intact B env (ds_index s) L \<and> backed B candidate L) d"
    then show ?thesis using c by (intro exI [of _ s] exI [of _ "\<lambda>L. intact B env (ds_index s) L \<and> backed B candidate L"]) simp
  next
    let ?s = "s \<lparr> ds_index := candidate, ds_writes_disabled := True \<rparr>"
    assume "owns ?s (intact B env candidate) d \<and> index_validate candidate = Inr ()"
    then show ?thesis
      using sound_index(2) [OF c limits] by (intro exI [of _ ?s] exI [of _ "intact B env candidate"]) simp
  qed
qed

lemma keeps_good_remove_invalid:
  assumes codec: "codec_ok env"
  shows "keeps (good B env c) (remove_invalid env e)"
proof (rule keeps_good)
  fix s assume s: "sound c s" "flagged s"
  let ?s = "s \<lparr> ds_dead := insert (ie_slot e) (ds_dead s) \<rparr>" and ?c = "without [ie_slot e] (ds_index s)"
  have limits: "within_limits (ds_limits ?s) ?c"
    unfolding without_def using s(1) by (simp add: sound_def within_limits_filter)
  have gone: "ie_slot e \<notin> ie_slot ` set (ix_entries ?c)" by (auto simp: without_def)
  have mark: "triple (owns s (intact B env (ds_index s))) (m_modify (\<lambda>d. d \<lparr> ds_dead := insert (ie_slot e) (ds_dead d) \<rparr>))
      (\<lambda>_. owns ?s (intact B env (ds_index s))) (\<lambda>_. good B env c)"
    by (rule triple_owns_modify) simp
  have drop: "triple (owns (?s \<lparr> ds_index := ?c \<rparr>) (intact B env ?c))
      (on_failure disable_writes (on_root (m_bind (remove_payload env (ie_slot e)) (\<lambda>_. sync_all env))))
      (\<lambda>_. owns (?s \<lparr> ds_index := ?c \<rparr>) (intact B env ?c)) (\<lambda>_. good B env c)" if v: "index_validate ?c = Inr ()"
  proof (rule triple_on_failure, rule triple_on_root)
    show "rooted (intact B env ?c) (m_bind (remove_payload env (ie_slot e)) (\<lambda>_. sync_all env)) (\<lambda>_. intact B env ?c) (\<lambda>_. intact B env ?c)"
      by (rule rooted_bind [OF rooted_mono [OF rooted_remove_payload [where P = "intact B env ?c"]] rooted_file_call])
        (use frame_payload [OF gone] in auto)
    show "triple (owns (?s \<lparr> ds_index := ?c \<rparr>) (intact B env ?c)) disable_writes (\<lambda>_. good B env c) (\<lambda>_. good B env c)"
      using sound_index(1) [OF sound_index(3) [OF s(1)] limits v]
      by (intro triple_disable exI [of _ "?s \<lparr> ds_index := ?c \<rparr>"] exI [of _ "intact B env ?c"]) simp
  qed
  have unmark: "triple (owns (?s \<lparr> ds_index := ?c \<rparr>) (intact B env ?c)) (m_modify (\<lambda>d. d \<lparr> ds_dead := ds_dead d - {ie_slot e} \<rparr>))
      (\<lambda>_. good B env c) (\<lambda>_. good B env c)" if v: "index_validate ?c = Inr ()" and w: "\<not> ds_writes_disabled s"
  proof (rule triple_mono [OF triple_owns_modify])
    fix d assume d: "owns (?s \<lparr> ds_index := ?c \<rparr> \<lparr> ds_dead := ds_dead (?s \<lparr> ds_index := ?c \<rparr>) - {ie_slot e} \<rparr>) (intact B env ?c) d"
    have "ds_dead s = {}" using s(2) w by (simp add: flagged_def)
    then show "good B env c d"
      using sound_index(1) [OF sound_index(3) [OF s(1)] limits v]
      by (intro owns_good [OF d]) (simp_all add: flagged_def sound_def statics_def)
  qed auto
  show "triple (owns s (intact B env (ds_index s))) (remove_invalid env e) (\<lambda>_. good B env c) (\<lambda>_. good B env c)"
    unfolding remove_invalid_def
  proof (rule triple_bind [OF mark], rule triple_owns_get, rule triple_if)
    fix d assume d: "sans d = sans ?s" "ds_writes_disabled d"
    then show "triple (owns ?s (intact B env (ds_index s))) (m_return ()) (\<lambda>_. good B env c) (\<lambda>_. good B env c)"
      using sound_index(3) [OF s(1)] sans_eqD(6) [OF d(1)]
      by (intro triple_return) (auto intro: owns_good simp: flagged_def)
  next
    fix d assume d: "sans d = sans ?s" "\<not> ds_writes_disabled d"
    then have w: "\<not> ds_writes_disabled s" and ix: "ds_index d = ds_index s" using sans_eqD [OF d(1)] by auto
    have pre: "owns ?s (intact B env (ds_index s)) t \<Longrightarrow> owns ?s (\<lambda>L. intact B env (ds_index ?s) L \<and> backed B ?c L) t" for t
      by (erule owns_mono) (auto simp: intact_def backed_def without_def)
    show "triple (owns ?s (intact B env (ds_index s)))
       (m_bind (on_failure disable_writes (install_index env (without [ie_slot e] (ds_index d)))) (\<lambda>_.
       m_bind (on_failure disable_writes (on_root (m_bind (remove_payload env (ie_slot e)) (\<lambda>_. sync_all env)))) (\<lambda>_.
       m_modify (\<lambda>d. d \<lparr> ds_dead := ds_dead d - {ie_slot e} \<rparr>)))) (\<lambda>_. good B env c) (\<lambda>_. good B env c)"
      unfolding ix
    proof (rule triple_bind [OF triple_pre [OF triple_install_or_disable [OF codec sound_index(3) [OF s(1)] limits] pre]])
      show "triple (\<lambda>d. owns (?s \<lparr> ds_index := ?c \<rparr>) (intact B env ?c) d \<and> index_validate ?c = Inr ())
       (m_bind (on_failure disable_writes (on_root (m_bind (remove_payload env (ie_slot e)) (\<lambda>_. sync_all env)))) (\<lambda>_.
       m_modify (\<lambda>d. d \<lparr> ds_dead := ds_dead d - {ie_slot e} \<rparr>))) (\<lambda>_. good B env c) (\<lambda>_. good B env c)"
      proof (cases "index_validate ?c = Inr ()")
        case True
        show ?thesis by (rule triple_bind [OF triple_pre [OF drop [OF True]] unmark [OF True w]]) simp
      qed (simp add: triple_def)
    qed
  qed
qed

lemma triple_handle:
  assumes m: "triple P m Q R" and x: "\<And>x. triple (Q x) (f (Inr x)) Q' E" and e: "\<And>e. triple (R e) (f (Inl e)) Q' E"
  shows "triple P (m_bind (m_try m) f) Q' E"
proof (rule triple_bind [OF triple_try [where Q = "\<lambda>r. case r of Inr x \<Rightarrow> Q x | Inl e \<Rightarrow> R e"]])
  show "triple P m (\<lambda>x. case Inr x of Inr x \<Rightarrow> Q x | Inl e \<Rightarrow> R e) (\<lambda>e. case Inl e of Inr x \<Rightarrow> Q x | Inl e \<Rightarrow> R e)"
    using m by simp
  show "triple (case r of Inr x \<Rightarrow> Q x | Inl e \<Rightarrow> R e) (f r) Q' E" for r
    by (cases r) (simp_all add: x e)
qed

lemma retime_Some:
  "retime slot time es = Some es' \<Longrightarrow> \<exists>xs e ys. es = xs @ e # ys \<and> es' = xs @ e \<lparr> ie_recency := time \<rparr> # ys \<and> ie_slot e = slot"
proof (induction es arbitrary: es')
  case (Cons e es)
  show ?case
  proof (cases "ie_slot e = slot")
    case True
    with Cons.prems show ?thesis by (intro exI [of _ "[]"] exI [of _ e] exI [of _ es]) auto
  next
    case False
    with Cons obtain xs f ys where "es = xs @ f # ys" "es' = (e # xs) @ f \<lparr> ie_recency := time \<rparr> # ys" "ie_slot f = slot" by auto
    then show ?thesis by (intro exI [of _ "e # xs"] exI [of _ f] exI [of _ ys]) auto
  qed
qed simp

definition recency_free :: "backing \<Rightarrow> bool" where
  "recency_free B \<longleftrightarrow> (\<forall>e t l. B (e \<lparr> ie_recency := t \<rparr>) l = B e l)"

lemma keeps_good_touch:
  assumes codec: "codec_ok env" and B: "recency_free B"
  shows "keeps (good B env c) (touch_after_restore env e)"
proof (rule keeps_good)
  fix s assume s: "sound c s" "flagged s"
  let ?P = "owns s (intact B env (ds_index s))"
  have ret: "triple ?P (m_return ()) (\<lambda>_. good B env c) (\<lambda>_. good B env c)"
    by (rule triple_return) (use s in \<open>auto intro: owns_good\<close>)
  have dis: "triple ?P disable_writes (\<lambda>_. good B env c) (\<lambda>_. good B env c)"
    by (rule triple_disable) (use s in auto)
  have ins: "triple ?P (m_bind (m_try (install_index env candidate)) (\<lambda>r. case r of Inr _ \<Rightarrow> m_return () | Inl _ \<Rightarrow> disable_writes))
      (\<lambda>_. good B env c) (\<lambda>_. good B env c)"
    if limits: "within_limits (ds_limits s) candidate" and b: "\<And>L. backed B (ds_index s) L \<Longrightarrow> backed B candidate L" for candidate
  proof (rule triple_handle [OF triple_pre [OF triple_install_index [OF codec limits, where B = B]]])
    fix d assume "owns s (intact B env (ds_index s)) d"
    then show "owns s (\<lambda>L. intact B env (ds_index s) L \<and> backed B candidate L) d"
      by (rule owns_mono) (auto simp: intact_def b)
  next
    show "triple (\<lambda>d. owns (s \<lparr> ds_index := candidate \<rparr>) (intact B env candidate) d \<and> index_validate candidate = Inr ())
        (case Inr x of Inr _ \<Rightarrow> m_return () | Inl _ \<Rightarrow> disable_writes) (\<lambda>_. good B env c) (\<lambda>_. good B env c)" for x :: unit
      using s sound_index(1) [OF s(1) limits] by (auto intro!: triple_return intro: owns_good simp: flagged_def)
  next
    fix err :: ckpt_error
    show "triple (\<lambda>d. owns s (\<lambda>L. intact B env (ds_index s) L \<and> backed B candidate L) d
        \<or> owns (s \<lparr> ds_index := candidate, ds_writes_disabled := True \<rparr>) (intact B env candidate) d \<and> index_validate candidate = Inr ())
        (case Inl err of Inr (_ :: unit) \<Rightarrow> m_return () | Inl _ \<Rightarrow> disable_writes) (\<lambda>_. good B env c) (\<lambda>_. good B env c)"
      unfolding sum.case
    proof (rule triple_disable)
      fix d
      assume d: "owns s (\<lambda>L. intact B env (ds_index s) L \<and> backed B candidate L) d
          \<or> owns (s \<lparr> ds_index := candidate, ds_writes_disabled := True \<rparr>) (intact B env candidate) d \<and> index_validate candidate = Inr ()"
      let ?s = "s \<lparr> ds_index := candidate, ds_writes_disabled := True \<rparr>"
      show "\<exists>s Q. owns s Q d \<and> (\<forall>L. Q L \<longrightarrow> intact B env (ds_index s) L) \<and> sound c s"
        using d s sound_index(2) [OF s(1) limits]
        by (elim disjE) (rule exI [of _ s], auto, rule exI [of _ ?s], rule exI [of _ "intact B env candidate"], simp)
    qed
  qed
  show "triple ?P (touch_after_restore env e) (\<lambda>_. good B env c) (\<lambda>_. good B env c)"
    unfolding touch_after_restore_def
  proof (rule triple_owns_get, rule triple_if [OF ret])
    fix d assume "sans d = sans s"
    then have ix: "ds_index d = ds_index s" by (rule sans_eqD(1))
    show "triple ?P (case next_time (ds_index d) of
         Inl _ \<Rightarrow> disable_writes
       | Inr (time, candidate) \<Rightarrow>
           (case retime (ie_slot e) time (ix_entries candidate) of
              None \<Rightarrow> m_return ()
            | Some es \<Rightarrow>
                m_bind (m_try (install_index env (candidate \<lparr> ix_entries := es \<rparr>))) (\<lambda>r. case r of
                  Inr _ \<Rightarrow> m_return ()
                | Inl _ \<Rightarrow> disable_writes))) (\<lambda>_. good B env c) (\<lambda>_. good B env c)"
    proof (cases "next_time (ds_index d)")
      case (Inr r)
      then obtain time candidate where r: "r = (time, candidate)" "ix_entries candidate = ix_entries (ds_index s)"
        by (auto simp: next_time_def ix bindr_eq_Inr)
      show ?thesis
        unfolding Inr r(1) sum.case prod.case
      proof (rule triple_option [OF ret])
        fix es assume es: "retime (ie_slot e) time (ix_entries candidate) = Some es"
        then obtain xs f ys where f: "ix_entries (ds_index s) = xs @ f # ys" "es = xs @ f \<lparr> ie_recency := time \<rparr> # ys"
          using retime_Some r(2) by metis
        show "triple ?P (m_bind (m_try (install_index env (candidate \<lparr> ix_entries := es \<rparr>))) (\<lambda>r. case r of
                  Inr _ \<Rightarrow> m_return () | Inl _ \<Rightarrow> disable_writes)) (\<lambda>_. good B env c) (\<lambda>_. good B env c)"
        proof (rule ins)
          show "within_limits (ds_limits s) (candidate \<lparr> ix_entries := es \<rparr>)"
            using s(1) f by (simp add: sound_def within_limits_def over_limits_def oversized_def)
          show "backed B (candidate \<lparr> ix_entries := es \<rparr>) L" if "backed B (ds_index s) L" for L
            using that f B by (simp add: backed_def recency_free_def)
        qed
      qed
    qed (simp add: dis)
  qed
qed

theorem keeps_good_load_match:
  assumes codec: "codec_ok env" and B: "recency_free B"
  shows "keeps (good B env c) (load_match env en requested)"
proof -
  have loop: "keeps (good B env c) (load_loop env en requested es)" for es
  proof (induction es)
    case (Cons e es)
    note rest = keeps_bind [OF keeps_good_remove_invalid [OF codec] Cons.IH]
    have "keeps (good B env c) (case r of
           Inr (Some s) \<Rightarrow> m_bind (touch_after_restore env e) (\<lambda>_. m_return (Some s))
         | Inr None \<Rightarrow> m_bind (remove_invalid env e) (\<lambda>_. load_loop env en requested es)
         | Inl (Invalid_Checkpoint _) \<Rightarrow> m_bind (remove_invalid env e) (\<lambda>_. load_loop env en requested es)
         | Inl (Failure msg) \<Rightarrow> m_bind disable_restores (\<lambda>_. m_lift (Inl (Failure msg))))" for r
      by (auto intro!: rest keeps_rules keeps_good_touch [OF codec B] split: sum.splits option.splits ckpt_error.splits)
    then show ?case
      by (auto intro!: keeps_rules keeps_good_existing keeps_good_read_payload rest)
  qed (simp add: keeps_def)
  show ?thesis
    unfolding load_match_def check_owner_def by (auto intro!: keeps_rules loop)
qed

end
