(* ===== verification/Checkpoint_Saving.thy ===== *)
theory Checkpoint_Saving
  imports Checkpoint_Owner
begin

text \<open>
  Saving into a checkpoint directory: the candidate index of an admitted save, its publication, and the
  invariant on every outcome. A save that reports success has its entry in the index, with the written
  file as its payload.
\<close>

section \<open>The candidate index\<close>

text \<open>A file that the writer finished for this entry.\<close>

definition written :: "store_env \<Rightarrow> host_engine \<Rightarrow> session \<Rightarrow> byte list \<Rightarrow> nat \<Rightarrow> byte list \<Rightarrow> bool" where
  "written env en s scope limit bs \<longleftrightarrow> (\<exists>n expected sections payload w.
     expected_layout en (he_max_context en) (se_frontier s) = Inr (expected, sections, payload)
     \<and> write_session (wire_at env n) en s scope expected sections limit \<lparr> hw_out = [], hw_written = 0 \<rparr> = (Inr (), w)
     \<and> bs = hw_out w \<and> length bs = expected)"

definition accepts :: "backing \<Rightarrow> store_env \<Rightarrow> host_engine \<Rightarrow> session \<Rightarrow> disk_store \<Rightarrow> bool" where
  "accepts B env en s d \<longleftrightarrow> (\<forall>e bs. entry_key e = (ds_scope d, se_frontier s, prefix_hash (sv_wire env) (se_tokens s))
     \<and> length bs = ie_file_bytes e \<and> written env en s (ds_scope d) (max_io_buffer_bytes (sl_checkpoint (ds_limits d))) bs \<longrightarrow> B e (Some (Regular bs)))"

lemma with_entry_Inr:
  assumes "with_entry slot scope key frontier expected ix = Inr candidate"
  shows "\<exists>e. ix_entries candidate = ix_entries ix @ [e] \<and> ie_slot e = slot \<and> entry_key e = (scope, frontier, key) \<and> ie_file_bytes e = expected
     \<and> ie_recency e = ix_next_recency ix \<and> ix_next_recency candidate = ix_next_recency ix + 1 \<and> index_validate candidate = Inr ()"
  using assms by (auto simp: with_entry_def bindr_eq_Inr ensure_eq_Inr next_time_def Let_def entry_key_def ok_or_eq_Inr checked_add_eq_Some)

lemma spare_slot_Some: "spare_slot ix = Some slot \<Longrightarrow> slot \<notin> ie_slot ` set (ix_entries ix) \<and> slot < PAYLOAD_SLOTS"
  by (auto simp: spare_slot_def find_Some_iff)

lemma without_without: "without gone' (without gone ix) = without (gone @ gone') ix"
  by (simp add: without_def conj_commute)

text \<open>The index a save installs: the retained entries and the new one.\<close>

definition admitted :: "store_limits \<Rightarrow> index_file \<Rightarrow> nat list \<Rightarrow> nat \<Rightarrow> byte list \<times> nat \<times> byte list \<Rightarrow> nat \<Rightarrow> index_file \<Rightarrow> bool" where
  "admitted limits ix gone slot key expected candidate \<longleftrightarrow>
     (\<exists>e. ix_entries candidate = filter (\<lambda>e. ie_slot e \<notin> set gone) (ix_entries ix) @ [e] \<and> ie_slot e = slot \<and> entry_key e = key
       \<and> ie_file_bytes e = expected \<and> ie_recency e = ix_next_recency ix \<and> index_validate candidate = Inr ()
       \<and> within_limits limits candidate)
     \<and> ix_next_recency candidate = ix_next_recency ix + 1 \<and> set gone \<subseteq> ie_slot ` set (ix_entries ix)"

lemma admitted_candidate:
  assumes gone: "set gone \<subseteq> ie_slot ` set (ix_entries ix)"
    and vs: "victims (sl_max_entries limits) (sl_max_payload_bytes limits) expected (without gone ix) = Inr vs"
    and c: "with_entry slot scope key frontier expected (without (gone @ vs) (without gone ix)) = Inr candidate"
    and valid: "index_validate ix = Inr ()" and within: "within_limits limits ix" and size: "expected \<le> max_file_bytes (sl_checkpoint limits)"
  shows "admitted limits ix (gone @ vs) slot (scope, frontier, key) expected candidate"
proof -
  have ix: "without (gone @ vs) (without gone ix) = without vs (without gone ix)"
    by (simp add: without_without) (simp add: without_def)
  let ?kept = "without vs (without gone ix)"
  from with_entry_Inr [OF c] obtain e where e: "ix_entries candidate = ix_entries ?kept @ [e]" "ie_slot e = slot"
    "entry_key e = (scope, frontier, key)" "ie_file_bytes e = expected" "ie_recency e = ix_next_recency ?kept"
    "ix_next_recency candidate = ix_next_recency ?kept + 1" "index_validate candidate = Inr ()" unfolding ix by blast
  have age: "ix_next_recency ?kept = ix_next_recency ix" by (simp add: without_def)
  have "distinct (map ie_slot (ix_entries (without gone ix)))"
    using valid by (auto simp: index_validate_iff without_def distinct_map_filter)
  from without_victims [OF vs this] obtain k where fit: "fits (sl_max_entries limits) (sl_max_payload_bytes limits) expected (ix_entries ?kept)"
    and k: "vs = map ie_slot (take k (by_age (ix_entries (without gone ix))))" by blast
  have "set vs \<subseteq> ie_slot ` set (ix_entries ix)"
    unfolding k by (auto dest!: in_set_takeD simp: entry_bytes_by_age without_def)
  have kept: "ix_entries ?kept = filter (\<lambda>e. ie_slot e \<notin> set (gone @ vs)) (ix_entries ix)"
    by (simp add: without_def conj_commute)
  have "\<forall>e\<in>set (ix_entries ?kept). \<not> oversized limits e"
    using within by (auto simp: kept within_limits_def over_limits_def list_ex_iff)
  then have "within_limits limits candidate"
    using fit e(1,4) size by (auto simp: within_limits_def over_limits_def list_ex_iff fits_def oversized_def)
  with e kept age gone \<open>set vs \<subseteq> _\<close> show ?thesis by (auto simp: admitted_def)
qed

section \<open>Publication\<close>

lemma triple_ex:
  assumes "\<And>x. triple (P x) m Q E"
  shows "triple (\<lambda>s. \<exists>x. P x s) m Q E"
  using assms unfolding triple_def by iprover

lemma triple_disj: "triple P m Q E \<Longrightarrow> triple P' m Q E \<Longrightarrow> triple (\<lambda>s. P s \<or> P' s) m Q E"
  by (simp add: triple_def)

lemma rooted_stage_payload:
  assumes layout: "expected_layout en (he_max_context en) (se_frontier s) = Inr (expected, sections, payload)"
  shows "rooted (intact B env ix) (stage_payload env en s scope expected sections limit)
     (\<lambda>_ L. \<exists>bs. intact B env ix L \<and> L Payload_Temp = Some (Regular bs) \<and> (length bs = expected \<longrightarrow> written env en s scope limit bs)) (\<lambda>_. intact B env ix)"
proof -
  let ?P = "intact B env ix"
  let ?Q = "\<lambda>L. \<exists>bs. ?P L \<and> L Payload_Temp = Some (Regular bs) \<and> (length bs = expected \<longrightarrow> written env en s scope limit bs)"
  have u: "rooted ?P (unlink_leaf env Payload_Temp) (\<lambda>_. ?P) (\<lambda>_. ?P)"
    by (rule rooted_mono [OF rooted_unlink_leaf [where P = ?P and Q = ?P]]) auto
  have w: "rooted ?P (write_payload env en s scope expected sections limit) (\<lambda>_. ?Q) (\<lambda>_. ?P)"
  proof (rule rootedI)
    fix r x t assume "?P (rt_leaves r)" "write_payload env en s scope expected sections limit r = (Inr x, t)"
    then show "?Q (rt_leaves t)"
      using layout by (auto simp: write_payload_def Let_def written_def split: prod.splits intro!: exI)
  qed (auto simp: write_payload_def Let_def split: prod.splits)
  have f: "rooted ?Q (sync_all env) (\<lambda>_. ?Q) (\<lambda>_. ?P)"
    by (rule rooted_mono [OF rooted_file_call [where P = ?Q]]) auto
  have c: "rooted ?P (create_leaf env Payload_Temp) (\<lambda>_. ?P) (\<lambda>_. ?P)"
    by (rule rooted_create_leaf) simp
  show ?thesis
    unfolding stage_payload_def by (intro rooted_bind [OF u] rooted_bind [OF c] rooted_bind [OF w] f)
qed

text \<open>The outcomes of a commit: the new index, or the old one, or the new one with writes disabled.\<close>

definition committed :: "backing \<Rightarrow> store_env \<Rightarrow> owner_static \<Rightarrow> index_file \<Rightarrow> disk_store \<Rightarrow> bool" where
  "committed B env c candidate d \<longleftrightarrow> good B env c d \<and> ds_index d = candidate"

definition aborted :: "backing \<Rightarrow> store_env \<Rightarrow> owner_static \<Rightarrow> index_file \<Rightarrow> index_file \<Rightarrow> disk_store \<Rightarrow> bool" where
  "aborted B env c ix candidate d \<longleftrightarrow> good B env c d \<and> (ds_index d = ix \<or> ds_index d = candidate \<and> ds_writes_disabled d)"

lemma owns_index: "owns s P d \<Longrightarrow> ds_index d = ds_index s"
  unfolding owns_def by (rule sans_eqD(1)) (rule conjunct1)

lemma owns_committed:
  assumes "owns s P d" "\<And>L. P L \<Longrightarrow> intact B env (ds_index s) L" "sound c s" "flagged s"
  shows "committed B env c (ds_index s) d"
  using owns_good [OF assms] owns_index [OF assms(1)] by (simp add: committed_def)

lemma owns_disabled_committed:
  assumes "owns s P d" "\<And>L. P L \<Longrightarrow> intact B env (ds_index s) L" "sound c s"
  shows "committed B env c (ds_index s) (d \<lparr> ds_writes_disabled := True \<rparr>)"
  using owns_disabled [OF assms] owns_index [OF assms(1)] by (simp add: committed_def)

lemma triple_discard_payload:
  assumes "slot \<notin> ie_slot ` set (ix_entries (ds_index s))"
  shows "triple (owns s (intact B env (ds_index s))) (discard_payload env slot) (\<lambda>_. owns s (intact B env (ds_index s))) E"
proof -
  let ?I = "intact B env (ds_index s)"
  have r: "triple (owns s ?I) (m_try (on_root m)) (\<lambda>_. owns s ?I) E" if "rooted ?I m (\<lambda>_. ?I) (\<lambda>_. ?I)" for m :: "unit rooted"
    by (rule triple_try) (rule triple_on_root [OF that])
  have p: "rooted ?I (remove_payload env slot) (\<lambda>_. ?I) (\<lambda>_. ?I)"
    by (rule rooted_mono [OF rooted_remove_payload [where P = ?I]]) (use frame_payload [OF assms] in auto)
  show ?thesis
    unfolding discard_payload_def
    by (rule triple_owns_get, rule triple_if, rule triple_return, assumption, rule triple_bind [OF r [OF p]],
        rule triple_bind [OF r [OF rooted_file_call]], rule triple_return, assumption)
qed

lemma triple_remove_victims:
  assumes s: "sound c s" and gone: "set gone \<inter> ie_slot ` set (ix_entries (ds_index s)) = {}"
  shows "triple (owns s (intact B env (ds_index s))) (remove_victims env gone) (\<lambda>_. owns s (intact B env (ds_index s)))
     (\<lambda>_ d. committed B env c (ds_index s) d \<and> ds_writes_disabled d)"
proof -
  let ?I = "intact B env (ds_index s)"
  have r: "triple (owns s ?I) (on_failure disable_writes (on_root m)) (\<lambda>_. owns s ?I) (\<lambda>_ d. committed B env c (ds_index s) d \<and> ds_writes_disabled d)"
    if "rooted ?I m (\<lambda>_. ?I) (\<lambda>_. ?I)" for m :: "unit rooted"
  proof (rule triple_on_failure [OF triple_on_root [OF that]])
    show "triple (owns s ?I) disable_writes (\<lambda>_ d. committed B env c (ds_index s) d \<and> ds_writes_disabled d)
        (\<lambda>_ d. committed B env c (ds_index s) d \<and> ds_writes_disabled d)" for err :: ckpt_error
      unfolding disable_writes_def
      by (rule triple_modify) (simp add: owns_disabled_committed [OF _ _ s])
  qed
  have p: "rooted ?I (remove_payload env v) (\<lambda>_. ?I) (\<lambda>_. ?I)" if "v \<in> set gone" for v
    by (rule rooted_mono [OF rooted_remove_payload [where P = ?I]]) (use that gone in \<open>auto simp: disjoint_iff\<close>)
  show ?thesis
    unfolding remove_victims_def
    by (rule triple_bind [OF triple_for [where P = "\<lambda>_. owns s ?I"]], rule r, erule p, rule r, rule rooted_file_call)
qed

lemma triple_install_saved:
  assumes codec: "codec_ok env" and s: "sound c s" "flagged s" and spare: "slot \<notin> ie_slot ` set (ix_entries (ds_index s))"
    and adm: "admitted (ds_limits s) (ds_index s) gone slot key expected candidate"
  shows "triple (owns s (\<lambda>L. intact B env (ds_index s) L \<and> backed B candidate L)) (install_saved env slot candidate gone)
     (\<lambda>ok d. ok \<and> committed B env c candidate d) (\<lambda>_. aborted B env c (ds_index s) candidate)"
  unfolding install_saved_def
proof (rule triple_handle [OF triple_install_index [OF codec, where B = B]])
  let ?s1 = "s \<lparr> ds_index := candidate \<rparr>" and ?s2 = "s \<lparr> ds_index := candidate, ds_writes_disabled := True \<rparr>"
  let ?I = "intact B env (ds_index s)" and ?C = "intact B env candidate"
  from adm have valid: "index_validate candidate = Inr ()" and limits: "within_limits (ds_limits s) candidate" by (auto simp: admitted_def)
  then show "within_limits (ds_limits s) candidate" by simp
  note c1 = sound_index(1) [OF s(1) limits valid] and c2 = sound_index(2) [OF s(1) limits valid]
  have disj: "set gone \<inter> ie_slot ` set (ix_entries candidate) = {}"
    using adm spare by (auto simp: admitted_def)
  show "triple (\<lambda>d. owns ?s1 ?C d \<and> index_validate candidate = Inr ())
     (case Inr u of Inl e \<Rightarrow> m_bind (discard_payload env slot) (\<lambda>_. m_lift (Inl e))
        | Inr _ \<Rightarrow> m_bind (remove_victims env gone) (\<lambda>_. m_return True))
     (\<lambda>ok d. ok \<and> committed B env c candidate d) (\<lambda>_. aborted B env c (ds_index s) candidate)" for u :: unit
  proof -
    have v: "triple (owns ?s1 ?C) (remove_victims env gone) (\<lambda>_. owns ?s1 ?C) (\<lambda>_. aborted B env c (ds_index s) candidate)"
      by (rule triple_mono [OF triple_remove_victims [where s = ?s1 and c = c and gone = gone and B = B]])
        (use c1 disj in \<open>auto simp: aborted_def committed_def\<close>)
    have "triple (owns ?s1 ?C) (m_bind (remove_victims env gone) (\<lambda>_. m_return True))
       (\<lambda>ok d. ok \<and> committed B env c candidate d) (\<lambda>_. aborted B env c (ds_index s) candidate)"
    proof (rule triple_bind [OF v], rule triple_return)
      fix d assume "owns ?s1 ?C d"
      from owns_committed [OF this, of B env c] c1 s(2) show "True \<and> committed B env c candidate d" by (simp add: flagged_def)
    qed
    then show ?thesis unfolding sum.case by (rule triple_pre) simp
  qed
  fix err
  have "triple (\<lambda>d. owns s (\<lambda>L. ?I L \<and> backed B candidate L) d \<or> owns ?s2 ?C d \<and> index_validate candidate = Inr ())
      (discard_payload env slot) (\<lambda>_. aborted B env c (ds_index s) candidate) (\<lambda>_. aborted B env c (ds_index s) candidate)"
  proof (rule triple_disj)
    show "triple (owns s (\<lambda>L. ?I L \<and> backed B candidate L)) (discard_payload env slot)
        (\<lambda>_. aborted B env c (ds_index s) candidate) (\<lambda>_. aborted B env c (ds_index s) candidate)"
    proof (rule triple_mono [OF triple_discard_payload [OF spare, where B = B and env = env]])
      fix d assume "owns s ?I d"
      from owns_committed [OF this, of B env c] s show "aborted B env c (ds_index s) candidate d"
        by (simp add: aborted_def committed_def)
    qed (auto elim: owns_mono)
    show "triple (\<lambda>d. owns ?s2 ?C d \<and> index_validate candidate = Inr ()) (discard_payload env slot)
        (\<lambda>_. aborted B env c (ds_index s) candidate) (\<lambda>_. aborted B env c (ds_index s) candidate)"
    proof (rule triple_pre, unfold discard_payload_def, rule triple_owns_get, rule triple_if)
      fix d assume "sans d = sans ?s2"
      show "triple (owns ?s2 ?C) (m_return ()) (\<lambda>_. aborted B env c (ds_index s) candidate) (\<lambda>_. aborted B env c (ds_index s) candidate)"
      proof (rule triple_return)
        fix t assume t: "owns ?s2 ?C t"
        then have "ds_writes_disabled t" by (auto simp: owns_def dest: sans_eqD(6))
        with owns_committed [OF t, of B env c] c2 show "aborted B env c (ds_index s) candidate t"
          by (simp add: flagged_def aborted_def committed_def)
      qed
    next
      fix d assume "sans d = sans ?s2" "\<not> ds_writes_disabled d"
      then show "triple (owns ?s2 ?C) (m_bind (m_try (on_root (remove_payload env slot))) (\<lambda>_.
          m_bind (m_try (on_root (sync_all env))) (\<lambda>_. m_return ())))
          (\<lambda>_. aborted B env c (ds_index s) candidate) (\<lambda>_. aborted B env c (ds_index s) candidate)"
        by (auto dest: sans_eqD(6))
    qed auto
  qed
  then show "triple (\<lambda>d. owns s (\<lambda>L. ?I L \<and> backed B candidate L) d \<or> owns ?s2 ?C d \<and> index_validate candidate = Inr ())
     (case Inl err of Inl e \<Rightarrow> m_bind (discard_payload env slot) (\<lambda>_. m_lift (Inl e))
        | Inr _ \<Rightarrow> m_bind (remove_victims env gone) (\<lambda>_. m_return True))
     (\<lambda>ok d. ok \<and> committed B env c candidate d) (\<lambda>_. aborted B env c (ds_index s) candidate)"
    unfolding sum.case by (rule triple_bind) (rule triple_lift, auto)
qed

lemma triple_commit_payload:
  assumes codec: "codec_ok env" and s: "sound c s" "flagged s" and spare: "slot \<notin> ie_slot ` set (ix_entries (ds_index s))"
    and adm: "admitted (ds_limits s) (ds_index s) gone slot key expected candidate"
    and new: "\<And>e. ie_slot e = slot \<Longrightarrow> entry_key e = key \<Longrightarrow> ie_file_bytes e = expected \<Longrightarrow> length bs = expected \<Longrightarrow> B e (Some (Regular bs))"
  shows "triple (owns s (\<lambda>L. intact B env (ds_index s) L \<and> L Payload_Temp = Some (Regular bs))) (commit_payload env slot expected candidate gone)
     (\<lambda>ok d. ok \<and> committed B env c candidate d) (\<lambda>_. aborted B env c (ds_index s) candidate)"
proof -
  let ?P = "\<lambda>L. intact B env (ds_index s) L \<and> L Payload_Temp = Some (Regular bs)"
  let ?N = "\<lambda>L. intact B env (ds_index s) L \<and> L (Payload slot) = Some (Regular bs)"
  let ?Q = "\<lambda>L. intact B env (ds_index s) L \<and> backed B candidate L"
  have move: "?N (L(Payload_Temp := None, Payload slot \<mapsto> Regular bs))" if "?P L" for L
    using that frame_payload [OF spare] by simp
  have cand: "?Q L" if "?N L" "length bs = expected" for L
  proof -
    from adm obtain e where e: "ix_entries candidate = filter (\<lambda>e. ie_slot e \<notin> set gone) (ix_entries (ds_index s)) @ [e]"
      "ie_slot e = slot" "entry_key e = key" "ie_file_bytes e = expected" by (auto simp: admitted_def)
    have "B e (L (Payload (ie_slot e)))" using that new [OF e(2-4)] e(2) by simp
    with that(1) show ?thesis by (auto simp: intact_def backed_def e(1))
  qed
  have place: "rooted ?P (publish_payload env slot expected) (\<lambda>_. ?Q) (published ?P ?Q)"
  proof (rule rooted_mono [OF rooted_publish_payload [where P = ?P and bs = bs and Q = ?N]])
    show "published ?P (\<lambda>L. ?N L \<and> length bs = expected) e L \<Longrightarrow> published ?P ?Q e L" for e L
      by (cases e) (simp_all add: cand)
  qed (use move cand in simp_all)
  have stay: "aborted B env c (ds_index s) candidate d" if "owns s P d" "\<And>L. P L \<Longrightarrow> intact B env (ds_index s) L" for P d
    using owns_committed [OF that s] by (simp add: aborted_def committed_def)
  show ?thesis
    unfolding commit_payload_def
  proof (rule triple_handle [OF triple_on_root [OF place]])
    show "triple (owns s ?Q) (case Inr u of Inl (Before e) \<Rightarrow> m_lift (Inl e) | Inl (After e) \<Rightarrow> m_bind disable_writes (\<lambda>_. m_lift (Inl e))
        | Inr _ \<Rightarrow> install_saved env slot candidate gone)
        (\<lambda>ok d. ok \<and> committed B env c candidate d) (\<lambda>_. aborted B env c (ds_index s) candidate)" for u :: unit
      unfolding sum.case by (rule triple_install_saved [OF codec s spare adm])
    fix err
    show "triple (owns s (published ?P ?Q err)) (case Inl err of Inl (Before e) \<Rightarrow> m_lift (Inl e)
        | Inl (After e) \<Rightarrow> m_bind disable_writes (\<lambda>_. m_lift (Inl e)) | Inr _ \<Rightarrow> install_saved env slot candidate gone)
        (\<lambda>ok d. ok \<and> committed B env c candidate d) (\<lambda>_. aborted B env c (ds_index s) candidate)"
    proof (cases err)
      case (Before e)
      have "triple (owns s ?P) (m_lift (Inl e)) (\<lambda>ok d. ok \<and> committed B env c candidate d) (\<lambda>_. aborted B env c (ds_index s) candidate)"
        by (rule triple_lift) (use stay [of ?P] in auto)
      with Before show ?thesis by simp
    next
      case (After e)
      have "triple (owns s ?Q) disable_writes (\<lambda>_. aborted B env c (ds_index s) candidate) (\<lambda>_. aborted B env c (ds_index s) candidate)"
        unfolding disable_writes_def
        by (rule triple_modify, drule owns_disabled_committed [OF _ _ s(1), where B = B and env = env]) (auto simp: aborted_def committed_def)
      then have "triple (owns s ?Q) (m_bind disable_writes (\<lambda>_. m_lift (Inl e))) (\<lambda>ok d. ok \<and> committed B env c candidate d)
          (\<lambda>_. aborted B env c (ds_index s) candidate)"
        by (rule triple_bind) (rule triple_lift, auto)
      with After show ?thesis by simp
    qed
  qed
qed

section \<open>Saving\<close>

text \<open>The index after a save: the entries that were kept and the new one, within the limits.\<close>

definition saved :: "store_limits \<Rightarrow> index_file \<Rightarrow> byte list \<times> nat \<times> byte list \<Rightarrow> index_file \<Rightarrow> bool" where
  "saved limits ix key ix' \<longleftrightarrow> (\<exists>gone slot expected. admitted limits ix gone slot key expected ix')"

definition save_done :: "backing \<Rightarrow> store_env \<Rightarrow> owner_static \<Rightarrow> disk_store \<Rightarrow> byte list \<times> nat \<times> byte list \<Rightarrow> bool \<Rightarrow> disk_store \<Rightarrow> bool" where
  "save_done B env c s key ok d \<longleftrightarrow> good B env c d \<and> (if ok then saved (ds_limits s) (ds_index s) key (ds_index d) else ds_index d = ds_index s)"

definition save_failed :: "backing \<Rightarrow> store_env \<Rightarrow> owner_static \<Rightarrow> disk_store \<Rightarrow> byte list \<times> nat \<times> byte list \<Rightarrow> disk_store \<Rightarrow> bool" where
  "save_failed B env c s key d \<longleftrightarrow> good B env c d
     \<and> (ds_index d = ds_index s \<or> saved (ds_limits s) (ds_index s) key (ds_index d) \<and> ds_writes_disabled d)"

lemma unchanged_failed:
  assumes "owns s P d" "\<And>L. P L \<Longrightarrow> intact B env (ds_index s) L" "sound c s" "flagged s"
  shows "save_failed B env c s key d" "save_done B env c s key False d"
  using owns_committed [OF assms] by (simp_all add: save_failed_def save_done_def committed_def)

definition session_key :: "store_env \<Rightarrow> disk_store \<Rightarrow> session \<Rightarrow> byte list \<times> nat \<times> byte list" where
  "session_key env d s = (ds_scope d, se_frontier s, prefix_hash (sv_wire env) (se_tokens s))"

lemma owns_lift_bind:
  assumes "sound c s" "flagged s" "\<And>L. P L \<Longrightarrow> intact B env (ds_index s) L" "\<And>x. r = Inr x \<Longrightarrow> triple (owns s P) (f x) Q (\<lambda>_. save_failed B env c s key)"
  shows "triple (owns s P) (m_bind (m_lift r) f) Q (\<lambda>_. save_failed B env c s key)"
  by (rule triple_lift_bind [OF assms(4)]) (use unchanged_failed(1) [OF _ assms(3,1,2)] in auto)

lemma triple_save_admitted:
  assumes codec: "codec_ok env" and s: "sound c s" "flagged s" and acc: "accepts B env en sess s"
    and layout: "expected_layout en (he_max_context en) (se_frontier sess) = Inr (expected, sections, payload)"
    and key: "key = prefix_hash (sv_wire env) (se_tokens sess)"
    and size: "expected \<le> max_file_bytes (sl_checkpoint (ds_limits s))" and gone: "set gone \<subseteq> ie_slot ` set (ix_entries (ds_index s))"
  shows "triple (owns s (intact B env (ds_index s)))
     (save_admitted env en sess key expected sections (sl_max_payload_bytes (ds_limits s)) gone (without gone (ds_index s)))
     (save_done B env c s (session_key env s sess)) (\<lambda>_. save_failed B env c s (session_key env s sess))"
  unfolding save_admitted_def
proof (rule triple_owns_get, rule owns_lift_bind [OF s], assumption, rule owns_lift_bind [OF s], assumption)
  fix d vs slot
  let ?I = "intact B env (ds_index s)" and ?key = "session_key env s sess"
  assume d: "sans d = sans s" and vs: "failing (victims (sl_max_entries (ds_limits d)) (sl_max_payload_bytes (ds_limits s)) expected
      (without gone (ds_index s))) = Inr vs"
    and slot: "ok_or (spare_slot (ds_index d)) (Failure ''checkpoint spare payload slot is unavailable'') = Inr slot"
  note f = sans_eqD [OF d]
  have spare: "slot \<notin> ie_slot ` set (ix_entries (ds_index s))" using slot spare_slot_Some by (auto simp: ok_or_eq_Inr f)
  have old: "triple (owns s ?I) (on_root (existing_leaf env (Payload slot))) (\<lambda>_. owns s ?I) (\<lambda>_. save_failed B env c s ?key)"
    by (rule triple_mono [OF triple_on_root [OF rooted_existing_leaf [where P = ?I]]])
      (auto elim: owns_mono intro: unchanged_failed(1) [OF _ _ s])
  show "triple (owns s ?I) (m_bind (on_root (existing_leaf env (Payload slot))) (\<lambda>old.
     m_bind (m_lift (ensure (old = None) (Failure ''checkpoint spare payload leaf is occupied'') (Inr ()))) (\<lambda>_.
     m_bind (m_lift (failing (with_entry slot (ds_scope d) key (se_frontier sess) expected (without (gone @ vs) (without gone (ds_index s)))))) (\<lambda>candidate.
     m_bind (m_lift (ensure (length (to_json env candidate) \<le> MAX_INDEX_BYTES)
       (Failure ''checkpoint index candidate exceeds admission'') (Inr ()))) (\<lambda>_.
     m_bind (on_root (stage_payload env en sess (ds_scope d) expected sections (max_io_buffer_bytes (sl_checkpoint (ds_limits d))))) (\<lambda>_.
     commit_payload env slot expected candidate (gone @ vs)))))))
     (save_done B env c s ?key) (\<lambda>_. save_failed B env c s ?key)"
  proof (rule triple_bind [OF old], rule owns_lift_bind [OF s], assumption, rule owns_lift_bind [OF s], assumption,
      rule owns_lift_bind [OF s], assumption)
    fix candidate
    assume "failing (with_entry slot (ds_scope d) key (se_frontier sess) expected (without (gone @ vs) (without gone (ds_index s)))) = Inr candidate"
    then have adm: "admitted (ds_limits s) (ds_index s) (gone @ vs) slot ?key expected candidate"
      unfolding session_key_def
      using gone vs s(1) size by (intro admitted_candidate) (simp_all add: failing_Inr f key sound_def)
    let ?W = "written env en sess (ds_scope s) (max_io_buffer_bytes (sl_checkpoint (ds_limits s)))"
    let ?S = "\<lambda>bs L. ?I L \<and> L Payload_Temp = Some (Regular bs) \<and> (length bs = expected \<longrightarrow> ?W bs)"
    have stage: "triple (owns s ?I) (on_root (stage_payload env en sess (ds_scope d) expected sections (max_io_buffer_bytes (sl_checkpoint (ds_limits d)))))
        (\<lambda>_ t. \<exists>bs. owns s (?S bs) t) (\<lambda>_. save_failed B env c s ?key)"
      unfolding f
      by (rule triple_mono [OF triple_on_root [OF rooted_stage_payload [OF layout, where B = B and ix = "ds_index s"]]])
        (auto simp: owns_def intro: unchanged_failed(1) [OF _ _ s])
    have commit: "triple (owns s (?S bs)) (commit_payload env slot expected candidate (gone @ vs))
        (save_done B env c s ?key) (\<lambda>_. save_failed B env c s ?key)" for bs
    proof (cases "length bs = expected \<longrightarrow> ?W bs")
      case True
      have new: "B e (Some (Regular bs))" if "entry_key e = ?key" "ie_file_bytes e = expected" "length bs = expected" for e
        using acc that True by (simp add: accepts_def session_key_def)
      show ?thesis
        by (rule triple_mono [OF triple_commit_payload [where B = B and bs = bs, OF codec s spare adm]])
          (use adm new in \<open>auto elim: owns_mono simp: save_done_def save_failed_def committed_def aborted_def saved_def\<close>)
    qed (auto simp: triple_def owns_def)
    show "triple (owns s ?I) (m_bind (on_root (stage_payload env en sess (ds_scope d) expected sections (max_io_buffer_bytes (sl_checkpoint (ds_limits d))))) (\<lambda>_.
       commit_payload env slot expected candidate (gone @ vs))) (save_done B env c s ?key) (\<lambda>_. save_failed B env c s ?key)"
      by (rule triple_bind [OF stage triple_ex [OF commit]])
  qed
qed

theorem triple_save:
  assumes codec: "codec_ok env" and s: "sound c s" "flagged s" and acc: "accepts B env en sess s" and unmanaged: "ds_managed s = None"
  shows "triple (owns s (intact B env (ds_index s))) (save env en sess)
     (save_done B env c s (session_key env s sess)) (\<lambda>_. save_failed B env c s (session_key env s sess))"
proof -
  let ?I = "intact B env (ds_index s)" and ?key = "session_key env s sess"
  let ?D = "save_done B env c s ?key" and ?F = "\<lambda>_. save_failed B env c s ?key"
  have no: "triple (owns s ?I) (m_return False) ?D ?F"
    by (rule triple_return) (use unchanged_failed(2) [OF _ _ s] in auto)
  have own: "triple (owns s ?I) (check_owner en) (\<lambda>_. owns s ?I) ?F"
    unfolding check_owner_def
    by (rule tripleI) (auto simp: ensure_def split: if_splits intro: unchanged_failed(1) [OF _ _ s])
  have sweep: "triple (owns s ?I) (on_failure disable_writes (on_root (cleanup_unindexed env (ds_index s)))) (\<lambda>_. owns s ?I) ?F"
  proof (rule triple_on_failure [OF triple_on_root [OF rooted_cleanup_unindexed]])
    show "triple (owns s ?I) disable_writes (\<lambda>_. save_failed B env c s ?key) (\<lambda>_. save_failed B env c s ?key)" for err :: ckpt_error
      unfolding disable_writes_def
      by (rule triple_modify, drule owns_disabled_committed [OF _ _ s(1), where B = B and env = env]) (auto simp: save_failed_def committed_def)
  qed
  have sized: "triple (owns s ?I) (save_sized env en sess expected sections d) ?D ?F"
    if layout: "expected_layout en (he_max_context en) (se_frontier sess) = Inr (expected, sections, payload)" and d: "sans d = sans s"
    for expected sections payload d
  proof -
    note f = sans_eqD [OF d]
    have super: "set (store_superseded (sv_wire env) scope tokens (ds_index s)) \<subseteq> ie_slot ` set (ix_entries (ds_index s))" for scope tokens
      by (auto simp: store_superseded_def matching_def dest: in_set_dropD)
    have reserved: "triple (owns s ?I) (save_reserved env en sess (prefix_hash (sv_wire env) (se_tokens sess)) expected sections d) ?D ?F"
      if size: "\<not> (max_file_bytes (sl_checkpoint (ds_limits s)) < expected \<or> sl_max_payload_bytes (ds_limits s) < expected)"
      unfolding save_reserved_def f unmanaged Let_def
    proof (rule triple_bind [where R = "\<lambda>allowance t. allowance = sl_max_payload_bytes (ds_limits s) \<and> owns s ?I t"])
      fix candidate
      show "triple (owns s ?I) (on_root (reserve_managed env None (sl_max_payload_bytes (ds_limits s)) candidate expected))
          (\<lambda>allowance t. allowance = sl_max_payload_bytes (ds_limits s) \<and> owns s ?I t) ?F"
        by (rule tripleI) (auto simp: reserve_managed_def on_root_def owns_def split: prod.splits)
    next
      fix allowance
      let ?gone = "case sl_mode (ds_limits s) of Prefix_Mode \<Rightarrow> []
          | Full_Mode \<Rightarrow> store_superseded (sv_wire env) (ds_scope s) (se_tokens sess) (ds_index s)"
      have "set ?gone \<subseteq> ie_slot ` set (ix_entries (ds_index s))" using super by (cases "sl_mode (ds_limits s)") simp_all
      from triple_save_admitted [OF codec s acc layout refl _ this] size
      show "triple (\<lambda>t. allowance = sl_max_payload_bytes (ds_limits s) \<and> owns s ?I t) (if allowance < expected then
        m_bind (on_root (reconcile_and_prune env (ds_index s) (ds_limits s \<lparr> sl_max_payload_bytes := allowance \<rparr>))) (\<lambda>ix.
        m_bind (m_modify (\<lambda>d. d \<lparr> ds_index := ix \<rparr>)) (\<lambda>_. m_return False))
        else save_admitted env en sess (prefix_hash (sv_wire env) (se_tokens sess)) expected sections allowance ?gone (without ?gone (ds_index s))) ?D ?F"
        by (intro triple_assume) simp
    qed
    show ?thesis
      unfolding save_sized_def f Let_def
      by (rule triple_if [OF no], rule triple_if [OF no], rule triple_bind [OF sweep], erule reserved)
  qed
  show ?thesis
    unfolding save_def
  proof (rule triple_bind [OF own], rule triple_owns_get, rule triple_if [OF no],
      rule owns_lift_bind [OF s], assumption, rule owns_lift_bind [OF s], assumption, rule owns_lift_bind [OF s], assumption)
    fix d layout assume "sans d = sans s" "failing (expected_layout en (he_max_context en) (se_frontier sess)) = Inr layout"
    then show "triple (owns s ?I) (save_sized env en sess (fst layout) (fst (snd layout)) d) ?D ?F"
      by (cases layout) (simp add: failing_Inr sized)
  qed
qed

end
