(* ===== verification/Checkpoint_Liveness.thy ===== *)
theory Checkpoint_Liveness
  imports Checkpoint_Saving Checkpoint_Properties
begin

text \<open>
  A checkpoint directory without failures: triples whose error postcondition is false say that a method
  returns a value. Opening an empty directory, saving an admissible session and reopening always succeed
  when every call succeeds and no leaf is foreign.
\<close>

section \<open>Calls that cannot fail\<close>

definition faultless :: "store_env \<Rightarrow> bool" where
  "faultless env \<longleftrightarrow> (\<forall>n. sv_ok env n) \<and> (\<forall>n k. sv_transfer env n k)"

definition plain :: "leaves \<Rightarrow> bool" where
  "plain L \<longleftrightarrow> (\<forall>n. L n \<noteq> Some Foreign)"

definition surely :: "(leaves \<Rightarrow> bool) \<Rightarrow> ('e, store_root, 'a) fallible \<Rightarrow> ('a \<Rightarrow> leaves \<Rightarrow> bool) \<Rightarrow> bool" where
  "surely P m Q \<longleftrightarrow> rooted P m Q (\<lambda>_ _. False)"

lemma plain_upd: "plain L \<Longrightarrow> l \<noteq> Some Foreign \<Longrightarrow> plain (L(n := l))"
  by (simp add: plain_def)

lemma surelyI:
  assumes "\<And>r. P (rt_leaves r) \<Longrightarrow> \<exists>x t. m r = (Inr x, t) \<and> Q x (rt_leaves t)"
  shows "surely P m Q"
  unfolding surely_def
proof (rule rootedI)
  fix r e t assume "P (rt_leaves r)" "m r = (Inl e, t)"
  then show False using assms [of r] by auto
next
  fix r x t assume "P (rt_leaves r)" "m r = (Inr x, t)"
  then show "Q x (rt_leaves t)" using assms [of r] by auto
qed

lemma surelyE:
  assumes "surely P m Q" "P (rt_leaves r)"
  obtains x t where "m r = (Inr x, t)" "Q x (rt_leaves t)"
proof (cases "m r")
  case (Pair v t)
  then show thesis
    using rooted_Inl [OF assms(1) [unfolded surely_def] assms(2)] rooted_Inr [OF assms(1) [unfolded surely_def] assms(2)] that
    by (cases v) auto
qed

lemma surely_bind: "surely P m R \<Longrightarrow> (\<And>x. surely (R x) (f x) Q) \<Longrightarrow> surely P (m_bind m f) Q"
  unfolding surely_def by (rule rooted_bind)

lemma surely_mono: "surely P m Q \<Longrightarrow> (\<And>L. P' L \<Longrightarrow> P L) \<Longrightarrow> (\<And>x L. Q x L \<Longrightarrow> Q' x L) \<Longrightarrow> surely P' m Q'"
  unfolding surely_def by (erule rooted_mono) auto

lemma surely_return: "(\<And>L. P L \<Longrightarrow> Q x L) \<Longrightarrow> surely P (m_return x) Q"
  unfolding surely_def by (rule rooted_return)

lemma surely_lift_bind:
  assumes "\<And>L. P L \<Longrightarrow> \<exists>x. r = Inr x" "\<And>x. r = Inr x \<Longrightarrow> surely P (f x) Q"
  shows "surely P (m_bind (m_lift r) f) Q"
proof (cases r)
  case (Inl e)
  with assms(1) have "\<not> P L" for L by auto
  then show ?thesis by (simp add: surely_def rooted_def triple_def on_leaves_def)
next
  case (Inr x)
  from assms(2) [OF this] show ?thesis by (simp add: surely_def rooted_def triple_def m_bind_def Inr)
qed

lemma surely_map_err: "surely P m Q \<Longrightarrow> surely P (map_err f m) Q"
  unfolding surely_def by (rule rooted_map_err)

lemma m_bind_return: "m_bind (m_return x) f = f x"
  by (rule ext) (simp add: m_bind_def)

lemma surely_for: "(\<And>x a. x \<in> set xs \<Longrightarrow> surely (P a) (body x a) P) \<Longrightarrow> surely (P acc) (m_for xs body acc) P"
  unfolding surely_def by (rule rooted_for)

lemma surely_for_visited:
  "(\<And>ys x zs a. xs = ys @ x # zs \<Longrightarrow> surely (P ys a) (body x a) (P (ys @ [x]))) \<Longrightarrow> surely (P [] acc) (m_for xs body acc) (P xs)"
  unfolding surely_def by (rule rooted_for_visited)

lemma surely_assume: "(F \<Longrightarrow> surely P m Q) \<Longrightarrow> surely (\<lambda>L. P L \<and> F) m Q"
  by (cases F) (simp_all add: surely_def rooted_def triple_def on_leaves_def)

lemma surely_if: "(b \<Longrightarrow> surely P m Q) \<Longrightarrow> (\<not> b \<Longrightarrow> surely P n Q) \<Longrightarrow> surely P (if b then m else n) Q"
  by simp

lemma surely_syscall:
  assumes "faultless env" "\<And>L. P L \<Longrightarrow> \<exists>x L'. f L = Inr (x, L') \<and> Q x L'"
  shows "surely P (syscall env f) Q"
proof (rule surelyI)
  fix r :: store_root assume "P (rt_leaves r)"
  from assms(2) [OF this] show "\<exists>x t. syscall env f r = (Inr x, t) \<and> Q x (rt_leaves t)"
    using assms(1) by (auto simp: syscall_def faultless_def)
qed

lemma surely_file_call: "faultless env \<Longrightarrow> surely P (file_call env) (\<lambda>_. P)"
  unfolding file_call_def by (rule surely_syscall) auto

lemma surely_existing_leaf:
  assumes "faultless env" "\<And>L. P L \<Longrightarrow> plain L"
  shows "surely P (existing_leaf env name) (\<lambda>res L. P L \<and> found_leaf res (L name))"
  unfolding existing_leaf_def
proof (rule surely_syscall [OF assms(1)])
  fix L assume "P L"
  then show "\<exists>x L'. (case L name of None \<Rightarrow> Inr (None, L) | Some Foreign \<Rightarrow> Inl (Failure ''invalid checkpoint leaf'')
     | Some (Regular bs) \<Rightarrow> Inr (Some bs, L)) = Inr (x, L') \<and> P L' \<and> found_leaf x (L' name)"
    using assms(2) [of L] by (auto simp: plain_def split: option.split leaf.split)
qed

lemma surely_unlink_leaf:
  assumes "faultless env" "\<And>L. P L \<Longrightarrow> plain L" "\<And>L. P L \<Longrightarrow> Q (L(name := None))"
  shows "surely P (unlink_leaf env name) (\<lambda>_ L. Q L \<and> L name = None)"
  unfolding unlink_leaf_def
proof (rule surely_bind [OF surely_existing_leaf [OF assms(1,2)]])
  show "surely (\<lambda>L. P L \<and> found_leaf res (L name)) (case res of None \<Rightarrow> m_return False
       | Some _ \<Rightarrow> m_bind (syscall env (\<lambda>leaves. Inr ((), leaves(name := None)))) (\<lambda>_. m_return True)) (\<lambda>_ L. Q L \<and> L name = None)" for res
  proof (cases res)
    case None
    have "Q L" if "P L" "L name = None" for L using assms(3) [OF that(1)] that(2) by (metis fun_upd_triv)
    with None show ?thesis by (auto intro: surely_return)
  next
    case (Some bs)
    show ?thesis
      unfolding Some option.case
      by (rule surely_bind [OF surely_syscall [OF assms(1), where Q = "\<lambda>_ L. Q L \<and> L name = None"]])
        (use assms(3) in \<open>auto intro: surely_return\<close>)
  qed
qed

lemma surely_create_leaf:
  assumes "faultless env" "\<And>L. P L \<Longrightarrow> L name = None" "\<And>L. P L \<Longrightarrow> Q (L(name := Some (Regular [])))"
  shows "surely P (create_leaf env name) (\<lambda>_. Q)"
  unfolding create_leaf_def
  by (rule surely_bind [OF surely_syscall [OF assms(1), where Q = "\<lambda>_. Q"] surely_file_call [OF assms(1)]])
    (simp add: assms(2,3))

lemma surely_write_leaf:
  assumes "faultless env" "\<And>L. P L \<Longrightarrow> Q (L(name := Some (Regular bs)))"
  shows "surely P (write_leaf env name bs) (\<lambda>_. Q)"
  by (rule surelyI) (use assms in \<open>auto simp: write_leaf_def faultless_def\<close>)

lemma surely_rename_leaf:
  assumes "faultless env" "\<And>L. P L \<Longrightarrow> L source \<noteq> None" "\<And>L. P L \<Longrightarrow> Q (L(source := None, target := L source))"
  shows "surely P (rename_leaf env source target) (\<lambda>_. Q)"
  unfolding rename_leaf_def
proof (rule surely_syscall [OF assms(1)])
  fix L assume "P L"
  with assms(2,3) [OF this] show "\<exists>x L'. (case L source of None \<Rightarrow> Inl (Failure ''checkpoint leaf rename failed'')
      | Some l \<Rightarrow> Inr ((), L(source := None, target := Some l))) = Inr (x, L') \<and> Q L'"
    by (cases "L source") auto
qed

lemma surely_publish_index:
  assumes f: "faultless env" and valid: "index_validate candidate = Inr ()" and len: "length (to_json env candidate) \<le> MAX_INDEX_BYTES"
    and plain: "\<And>L. P L \<Longrightarrow> plain L" and temp: "\<And>L l. P L \<Longrightarrow> l \<noteq> Some Foreign \<Longrightarrow> P (L(Index_Temp := l))"
    and rename: "\<And>L. P L \<Longrightarrow> Q (L(Index_Temp := None, Index_Leaf := Some (Regular (to_json env candidate))))"
  shows "surely P (publish_index env candidate) (\<lambda>_. Q)"
  unfolding publish_index_def
proof (rule surely_bind [OF surely_map_err surely_map_err])
  let ?W = "\<lambda>L. P L \<and> L Index_Temp = Some (Regular (to_json env candidate))"
  show "surely Q (sync_all env) (\<lambda>_. Q)" by (rule surely_file_call [OF f])
  have move: "surely (\<lambda>L. ?W L \<and> found_leaf res (L Index_Leaf)) (rename_leaf env Index_Temp Index_Leaf) (\<lambda>_. Q)" for res
    by (rule surely_rename_leaf [OF f]) (use rename in auto)
  have w: "surely P (write_leaf env Index_Temp (to_json env candidate)) (\<lambda>_. ?W)"
    by (rule surely_write_leaf [OF f]) (use temp in auto)
  have c: "surely (\<lambda>L. P L \<and> L Index_Temp = None) (create_leaf env Index_Temp) (\<lambda>_. P)"
    by (rule surely_create_leaf [OF f]) (use temp in auto)
  have u: "surely P (unlink_leaf env Index_Temp) (\<lambda>_ L. P L \<and> L Index_Temp = None)"
    by (rule surely_unlink_leaf [OF f]) (simp_all add: plain temp)
  have e: "surely ?W (existing_leaf env Index_Leaf) (\<lambda>res L. ?W L \<and> found_leaf res (L Index_Leaf))"
    by (rule surely_existing_leaf [OF f]) (use plain in auto)
  show "surely P (m_bind (m_lift (failing (index_validate candidate))) (\<lambda>_.
       m_bind (m_lift (ensure (length (to_json env candidate) \<le> MAX_INDEX_BYTES)
         (Failure ''checkpoint index serialization exceeds admission'') (Inr ()))) (\<lambda>_.
       m_bind (unlink_leaf env Index_Temp) (\<lambda>_. m_bind (create_leaf env Index_Temp) (\<lambda>_.
       m_bind (write_leaf env Index_Temp (to_json env candidate)) (\<lambda>_. m_bind (sync_all env) (\<lambda>_.
       m_bind (existing_leaf env Index_Leaf) (\<lambda>_. rename_leaf env Index_Temp Index_Leaf)))))))) (\<lambda>_. Q)"
    by (rule surely_lift_bind, use valid in \<open>simp add: failing_def\<close>, rule surely_lift_bind, use len in \<open>simp add: ensure_def\<close>,
        rule surely_bind [OF u], rule surely_bind [OF c], rule surely_bind [OF w], rule surely_bind [OF surely_file_call [OF f]],
        rule surely_bind [OF e move])
qed

lemma surely_publish_payload:
  assumes f: "faultless env" and temp: "\<And>L. P L \<Longrightarrow> plain L \<and> L Payload_Temp = Some (Regular bs) \<and> L (Payload slot) = None" and len: "length bs = expected"
    and place: "\<And>L. P L \<Longrightarrow> Q (L(Payload_Temp := None, Payload slot := Some (Regular bs)))"
  shows "surely P (publish_payload env slot expected) (\<lambda>_. Q)"
  unfolding publish_payload_def
proof (rule surely_bind [OF surely_map_err surely_map_err])
  show "surely Q (sync_all env) (\<lambda>_. Q)" by (rule surely_file_call [OF f])
  have e: "surely P (existing_leaf env name) (\<lambda>res L. P L \<and> found_leaf res (L name))" for name
    by (rule surely_existing_leaf [OF f]) (use temp in blast)
  have t: "surely P (existing_leaf env Payload_Temp) (\<lambda>res L. P L \<and> res = Some bs)"
    by (rule surely_mono [OF e]) (auto dest!: temp simp: found_leaf_def split: option.splits)
  have s: "surely P (existing_leaf env (Payload slot)) (\<lambda>res L. P L \<and> res = None)"
    by (rule surely_mono [OF e]) (auto dest!: temp simp: found_leaf_def split: option.splits)
  have mv: "surely P (rename_leaf env Payload_Temp (Payload slot)) (\<lambda>_. Q)"
    by (rule surely_rename_leaf [OF f]) (use temp place in \<open>auto dest: temp\<close>)
  show "surely P (m_bind (existing_leaf env Payload_Temp) (\<lambda>temporary.
       m_bind (m_lift (ok_or temporary (Failure ''checkpoint payload temporary is missing''))) (\<lambda>bs.
       m_bind (metadata env) (\<lambda>_.
       m_bind (m_lift (ensure (length bs = expected) (Failure ''checkpoint payload temporary length differs'') (Inr ()))) (\<lambda>_.
       m_bind (existing_leaf env (Payload slot)) (\<lambda>old.
       m_bind (m_lift (ensure (old = None) (Failure ''checkpoint spare payload leaf is occupied'') (Inr ()))) (\<lambda>_.
       rename_leaf env Payload_Temp (Payload slot)))))))) (\<lambda>_. Q)"
  proof (rule surely_bind [OF t], rule surely_assume)
    fix temporary assume t: "temporary = Some bs"
    have "surely P (m_bind (existing_leaf env (Payload slot)) (\<lambda>old.
       m_bind (m_lift (ensure (old = None) (Failure ''checkpoint spare payload leaf is occupied'') (Inr ()))) (\<lambda>_.
       rename_leaf env Payload_Temp (Payload slot)))) (\<lambda>_. Q)"
      by (rule surely_bind [OF s], rule surely_assume, rule surely_lift_bind) (simp_all add: ensure_def mv)
    then show "surely P (m_bind (m_lift (ok_or temporary (Failure ''checkpoint payload temporary is missing''))) (\<lambda>bs.
       m_bind (metadata env) (\<lambda>_.
       m_bind (m_lift (ensure (length bs = expected) (Failure ''checkpoint payload temporary length differs'') (Inr ()))) (\<lambda>_.
       m_bind (existing_leaf env (Payload slot)) (\<lambda>old.
       m_bind (m_lift (ensure (old = None) (Failure ''checkpoint spare payload leaf is occupied'') (Inr ()))) (\<lambda>_.
       rename_leaf env Payload_Temp (Payload slot))))))) (\<lambda>_. Q)"
      by (intro surely_lift_bind surely_bind [OF surely_file_call [OF f]]) (use t len in \<open>auto simp: ok_or_def ensure_def\<close>)
  qed
qed

section \<open>Opening without failures\<close>

definition swept :: "index_file \<Rightarrow> leaves \<Rightarrow> bool" where
  "swept ix L \<longleftrightarrow> L Payload_Temp = None \<and> L Index_Temp = None
     \<and> (\<forall>slot<PAYLOAD_SLOTS. slot \<notin> ie_slot ` set (ix_entries ix) \<longrightarrow> L (Payload slot) = None)"

lemma surely_cleanup_unindexed:
  assumes f: "faultless env"
  shows "surely (\<lambda>L. intact B env ix L \<and> plain L) (cleanup_unindexed env ix) (\<lambda>_ L. intact B env ix L \<and> plain L \<and> swept ix L)"
proof -
  let ?P = "\<lambda>L. intact B env ix L \<and> plain L"
  let ?T = "\<lambda>L. ?P L \<and> L Payload_Temp = None \<and> L Index_Temp = None"
  let ?V = "\<lambda>ys removed L. ?T L \<and> (\<forall>slot\<in>set ys. slot \<notin> ie_slot ` set (ix_entries ix) \<longrightarrow> L (Payload slot) = None)"
  have a: "surely ?P (unlink_leaf env Payload_Temp) (\<lambda>_ L. ?P L \<and> L Payload_Temp = None)"
    by (rule surely_unlink_leaf [OF f]) (auto intro: plain_upd)
  have b: "surely (\<lambda>L. ?P L \<and> L Payload_Temp = None) (unlink_leaf env Index_Temp) (\<lambda>_. ?T)"
    by (rule surely_mono [OF surely_unlink_leaf [OF f, where P = "\<lambda>L. ?P L \<and> L Payload_Temp = None" and Q = "\<lambda>L. ?P L \<and> L Payload_Temp = None"]])
      (auto intro: plain_upd)
  have l: "surely (?V [] r0) (m_for [0..<PAYLOAD_SLOTS] (\<lambda>slot removed.
       if slot \<in> ie_slot ` set (ix_entries ix) then m_return removed
       else m_bind (unlink_leaf env (Payload slot)) (\<lambda>c. m_return (removed \<or> c))) r0) (?V [0..<PAYLOAD_SLOTS])" for r0
  proof (rule surely_for_visited [where P = ?V], rule surely_if)
    fix ys slot zs r assume "slot \<in> ie_slot ` set (ix_entries ix)"
    then show "surely (?V ys r) (m_return r) (?V (ys @ [slot]))" by (intro surely_return) auto
  next
    fix ys slot zs r assume i: "slot \<notin> ie_slot ` set (ix_entries ix)"
    have u: "surely (?V ys r) (unlink_leaf env (Payload slot)) (\<lambda>_ L. ?V ys r L \<and> L (Payload slot) = None)"
      by (rule surely_unlink_leaf [OF f]) (use frame_payload [OF i] in \<open>auto intro: plain_upd\<close>)
    show "surely (?V ys r) (m_bind (unlink_leaf env (Payload slot)) (\<lambda>c. m_return (r \<or> c))) (?V (ys @ [slot]))"
      by (rule surely_bind [OF u], rule surely_return) auto
  qed
  have "surely (?V [0..<PAYLOAD_SLOTS] r) (if r then sync_all env else m_return ()) (\<lambda>_ L. intact B env ix L \<and> plain L \<and> swept ix L)" for r
    by (rule surely_if; rule surely_mono [OF surely_file_call [OF f, where P = "?V [0..<PAYLOAD_SLOTS] r"]] surely_return) (auto simp: swept_def)
  from surely_bind [OF l this]
  show ?thesis
    unfolding cleanup_unindexed_def
    by (intro surely_bind [OF a] surely_bind [OF b]) (simp add: list.set)
qed

text \<open>An index that has every payload and is within the limits passes reconciliation unchanged.\<close>

lemma surely_reconcile:
  assumes f: "faultless env" and within: "within_limits limits ix" and bytes: "index_live_bytes ix = Inr (entry_bytes (ix_entries ix))"
  shows "surely (\<lambda>L. intact (both B has_length) env ix L \<and> plain L) (reconcile_and_prune env ix limits)
     (\<lambda>ix' L. ix' = ix \<and> intact (both B has_length) env ix L \<and> plain L \<and> swept ix L)"
proof -
  let ?P = "\<lambda>L. intact (both B has_length) env ix L \<and> plain L"
  have m: "surely ?P (missing_payloads env ix) (\<lambda>invalid L. ?P L \<and> invalid = [])"
    unfolding missing_payloads_def
  proof (rule surely_mono [OF surely_for [where P = "\<lambda>invalid L. ?P L \<and> invalid = []"]])
    fix e and invalid :: "nat list" assume e: "e \<in> set (ix_entries ix)"
    have ex: "surely (\<lambda>L. ?P L \<and> invalid = []) (existing_leaf env (Payload (ie_slot e)))
        (\<lambda>res L. (?P L \<and> invalid = []) \<and> (\<exists>bs. res = Some bs \<and> length bs = ie_file_bytes e))"
    proof (rule surely_mono [OF surely_existing_leaf [OF f, where P = "\<lambda>L. ?P L \<and> invalid = []"]])
      fix res L assume "(?P L \<and> invalid = []) \<and> found_leaf res (L (Payload (ie_slot e)))"
      then show "(?P L \<and> invalid = []) \<and> (\<exists>bs. res = Some bs \<and> length bs = ie_file_bytes e)"
        using e by (auto simp: intact_def backed_def both_def has_length_def found_leaf_def split: option.splits)
    qed auto
    show "surely (\<lambda>L. ?P L \<and> invalid = []) (m_bind (existing_leaf env (Payload (ie_slot e))) (\<lambda>found. case found of
         Some bs \<Rightarrow> m_bind (metadata env) (\<lambda>_. m_return (if length bs = ie_file_bytes e then invalid else invalid @ [ie_slot e]))
       | None \<Rightarrow> m_return (invalid @ [ie_slot e]))) (\<lambda>invalid L. ?P L \<and> invalid = [])"
    proof (rule surely_bind [OF ex], rule surely_assume)
      fix found :: "byte list option" assume "\<exists>bs. found = Some bs \<and> length bs = ie_file_bytes e"
      then obtain bs where bs: "found = Some bs" "length bs = ie_file_bytes e" by blast
      show "surely (\<lambda>L. ?P L \<and> invalid = []) (case found of
         Some bs \<Rightarrow> m_bind (metadata env) (\<lambda>_. m_return (if length bs = ie_file_bytes e then invalid else invalid @ [ie_slot e]))
       | None \<Rightarrow> m_return (invalid @ [ie_slot e])) (\<lambda>invalid L. ?P L \<and> invalid = [])"
        unfolding bs(1) option.case by (rule surely_bind [OF surely_file_call [OF f]], rule surely_return) (use bs in auto)
    qed
  qed auto
  have "surely ?P (m_bind (m_lift (failing (index_live_bytes ix))) (\<lambda>bytes.
     m_bind (if \<not> over_limits limits bytes (ix_entries ix) then m_return ix
             else m_bind (m_lift (failing (prune_loop limits bytes (ix_entries ix)))) (\<lambda>(kept, gone).
                  install_pruned env (ix \<lparr> ix_entries := kept \<rparr>) gone)) (\<lambda>ix.
     m_bind (cleanup_unindexed env ix) (\<lambda>_. m_return ix)))) (\<lambda>ix' L. ix' = ix \<and> ?P L \<and> swept ix L)"
  proof (rule surely_lift_bind)
    fix b assume "failing (index_live_bytes ix) = Inr b"
    then have b: "b = entry_bytes (ix_entries ix)" using bytes by (simp add: failing_def)
    have r: "surely ?P (m_return ix) (\<lambda>ix' L. ?P L \<and> ix' = ix)" by (rule surely_return) simp
    have "surely (\<lambda>L. ?P L \<and> ix' = ix) (m_bind (cleanup_unindexed env ix') (\<lambda>_. m_return ix')) (\<lambda>ix' L. ix' = ix \<and> ?P L \<and> swept ix L)" for ix'
      by (rule surely_assume) (auto intro!: surely_bind [OF surely_cleanup_unindexed [OF f]] surely_return)
    from surely_bind [OF r this] within
    show "surely ?P (m_bind (if \<not> over_limits limits b (ix_entries ix) then m_return ix
             else m_bind (m_lift (failing (prune_loop limits b (ix_entries ix)))) (\<lambda>(kept, gone).
                  install_pruned env (ix \<lparr> ix_entries := kept \<rparr>) gone)) (\<lambda>ix.
     m_bind (cleanup_unindexed env ix) (\<lambda>_. m_return ix))) (\<lambda>ix' L. ix' = ix \<and> ?P L \<and> swept ix L)"
      by (simp add: within_limits_def b)
  qed (simp add: bytes failing_def)
  then have "surely ?P (m_bind (if invalid = [] then m_return ix else install_pruned env (without invalid ix) invalid) (\<lambda>ix.
     m_bind (m_lift (failing (index_live_bytes ix))) (\<lambda>bytes.
     m_bind (if \<not> over_limits limits bytes (ix_entries ix) then m_return ix
             else m_bind (m_lift (failing (prune_loop limits bytes (ix_entries ix)))) (\<lambda>(kept, gone).
                  install_pruned env (ix \<lparr> ix_entries := kept \<rparr>) gone)) (\<lambda>ix.
     m_bind (cleanup_unindexed env ix) (\<lambda>_. m_return ix))))) (\<lambda>ix' L. ix' = ix \<and> ?P L \<and> swept ix L)" if "invalid = []" for invalid
    using that by (simp add: m_bind_return del: m_simps)
  then show ?thesis
    unfolding reconcile_and_prune_def by (intro surely_bind [OF m] surely_assume) (simp add: conj_assoc)
qed

lemma live_bytes_total:
  "acc + entry_bytes es < u64_limit \<Longrightarrow>
     try_fold (\<lambda>total e. ok_or (checked_add total (ie_file_bytes e)) msg) acc es = Inr (acc + entry_bytes es)"
  by (induction es arbitrary: acc) (auto simp: checked_add_def ok_or_def)

lemma index_live_bytes_total: "entry_bytes (ix_entries ix) < u64_limit \<Longrightarrow> index_live_bytes ix = Inr (entry_bytes (ix_entries ix))"
  unfolding index_live_bytes_def using live_bytes_total [of 0] by simp

lemma within_limits_bytes: "within_limits limits ix \<Longrightarrow> sl_max_payload_bytes limits < u64_limit \<Longrightarrow> entry_bytes (ix_entries ix) < u64_limit"
  by (auto simp: within_limits_def over_limits_def)

text \<open>Reopening, and opening an empty directory.\<close>

lemma surely_read_index:
  assumes f: "faultless env" and valid: "index_validate ix = Inr ()" and alloc: "\<forall>n. \<exists>c. reserve_exact (sv_wire env) n = Inr c"
  shows "surely (\<lambda>L. intact B env ix L \<and> plain L) (read_index env) (\<lambda>found L. (intact B env ix L \<and> plain L) \<and> found = Some ix)"
proof -
  let ?P = "\<lambda>L. intact B env ix L \<and> plain L"
  let ?ok = "\<lambda>bs. from_json env bs = Some ix \<and> bs \<noteq> [] \<and> length bs \<le> MAX_INDEX_BYTES"
  have e: "surely ?P (existing_leaf env Index_Leaf) (\<lambda>res L. ?P L \<and> (\<exists>bs. res = Some bs \<and> ?ok bs))"
    by (rule surely_mono [OF surely_existing_leaf [OF f, where P = ?P]])
      (auto simp: intact_def indexed_def found_leaf_def split: option.splits)
  show ?thesis
    unfolding read_index_def
  proof (rule surely_bind [OF e], rule surely_assume)
    fix found assume "\<exists>bs. found = Some bs \<and> ?ok bs"
    then obtain bs where bs: "found = Some bs" "?ok bs" by blast
    obtain cap where cap: "reserve_exact (sv_wire env) (length bs) = Inr cap" using alloc by blast
    have rd: "surely ?P (read_leaf env bs (length bs)) (\<lambda>bs' L. ?P L \<and> bs' = bs)"
      unfolding read_leaf_def by (rule surely_bind [OF surely_file_call [OF f]]) (simp add: surely_def rooted_def triple_def ensure_def)
    have tail: "surely (\<lambda>L. ?P L \<and> bs' = bs) (m_bind (m_lift (ok_or (from_json env bs') (Failure ''checkpoint index JSON is malformed''))) (\<lambda>ix.
         m_bind (m_lift (failing (index_validate ix))) (\<lambda>_. m_return (Some ix)))) (\<lambda>found L. ?P L \<and> found = Some ix)" for bs'
      by (intro surely_assume surely_lift_bind surely_return) (use bs valid in \<open>auto simp: ok_or_def failing_def\<close>)
    show "surely ?P (case found of None \<Rightarrow> m_return None | Some bs \<Rightarrow>
         m_bind (metadata env) (\<lambda>_.
         m_bind (m_lift (ensure (0 < length bs \<and> length bs \<le> MAX_INDEX_BYTES)
           (Failure ''checkpoint index size exceeds admission'') (failing (reserve_exact (sv_wire env) (length bs))))) (\<lambda>_.
         m_bind (read_leaf env bs (length bs)) (\<lambda>bs.
         m_bind (m_lift (ok_or (from_json env bs) (Failure ''checkpoint index JSON is malformed''))) (\<lambda>ix.
         m_bind (m_lift (failing (index_validate ix))) (\<lambda>_. m_return (Some ix))))))) (\<lambda>found L. ?P L \<and> found = Some ix)"
      unfolding bs(1) option.case
      by (rule surely_bind [OF surely_file_call [OF f]], rule surely_lift_bind, use bs cap in \<open>simp add: ensure_def failing_def\<close>,
          rule surely_bind [OF rd tail])
  qed
qed

theorem surely_reopen:
  assumes f: "faultless env" and valid: "index_validate ix = Inr ()" and alloc: "\<forall>n. \<exists>c. reserve_exact (sv_wire env) n = Inr c"
    and within: "within_limits limits ix" "sl_max_payload_bytes limits < u64_limit"
  shows "surely (\<lambda>L. intact (both B has_length) env ix L \<and> plain L) (open_index env limits)
     (\<lambda>ix' L. ix' = ix \<and> intact (both B has_length) env ix L \<and> plain L \<and> swept ix L)"
proof -
  let ?P = "\<lambda>L. intact (both B has_length) env ix L \<and> plain L"
  have i: "surely ?P (initialize_or_read_index env) (\<lambda>ix' L. ?P L \<and> ix' = ix)"
    unfolding initialize_or_read_index_def
    by (rule surely_bind [OF surely_read_index [OF f valid alloc]], rule surely_assume) (simp add: surely_return del: m_simps)
  note bytes = index_live_bytes_total [OF within_limits_bytes [OF within]]
  show ?thesis
    unfolding open_index_def
    by (intro surely_bind [OF surely_file_call [OF f]] surely_bind [OF i] surely_assume) (simp add: surely_reconcile [OF f within(1) bytes])
qed

theorem surely_open_empty:
  assumes f: "faultless env" and codec: "codec_ok env" and fits: "length (to_json env index_empty) \<le> MAX_INDEX_BYTES"
  shows "surely (\<lambda>L. L = (\<lambda>_. None)) (open_index env limits) (\<lambda>ix L. ix = index_empty \<and> intact B env index_empty L \<and> plain L)"
proof -
  let ?E = "\<lambda>L :: leaves. \<forall>n. n \<noteq> Index_Temp \<longrightarrow> L n = None" and ?P = "\<lambda>L. intact (both B has_length) env index_empty L \<and> plain L"
  let ?F = "\<lambda>L. ?E L \<and> plain L"
  have e: "surely ?F (existing_leaf env name) (\<lambda>res L. ?F L \<and> res = None)" if "name \<noteq> Index_Temp" for name
    by (rule surely_mono [OF surely_existing_leaf [OF f, where P = ?F]]) (use that in \<open>auto simp: found_leaf_def split: option.splits\<close>)
  have r: "surely ?F (read_index env) (\<lambda>found L. ?F L \<and> found = None)"
    unfolding read_index_def
    by (rule surely_bind [OF e], simp, rule surely_assume) (simp add: surely_return del: m_simps)
  have l: "surely ?F (m_for [0..<PAYLOAD_SLOTS] (\<lambda>slot _.
           m_bind (existing_leaf env (Payload slot)) (\<lambda>old.
           m_lift (ensure (old = None) (Failure ''checkpoint index is missing while payloads exist'') (Inr ())))) ()) (\<lambda>_. ?F)"
    by (rule surely_for [where P = "\<lambda>_. ?F"], rule surely_bind [OF e], simp, rule surely_assume) (simp add: surely_def rooted_def triple_def ensure_def)
  have u: "surely ?F (unlink_leaf env Index_Temp) (\<lambda>_ L. ?F L \<and> L Index_Temp = None)"
    by (rule surely_unlink_leaf [OF f]) (auto intro: plain_upd)
  have x: "indexed env index_empty (Some (Regular (to_json env index_empty)))"
    using codec fits index_validate_empty by (simp add: indexed_def codec_ok_def)
  have p: "surely (\<lambda>L. ?F L \<and> L Index_Temp = None) (publish_index env index_empty) (\<lambda>_. ?P)"
  proof (rule surely_mono [OF surely_publish_index [OF f index_validate_empty fits, where P = ?F and Q = ?P]])
    fix L assume "?F L"
    then show "?P (L(Index_Temp := None, Index_Leaf \<mapsto> Regular (to_json env index_empty)))"
      using x by (simp add: intact_def backed_def index_empty_def plain_upd)
  qed (auto intro: plain_upd)
  have i: "surely ?F (initialize_or_read_index env) (\<lambda>ix L. ?P L \<and> ix = index_empty)"
    unfolding initialize_or_read_index_def
    by (rule surely_bind [OF r], rule surely_assume, simp only: option.case, rule surely_bind [OF l], rule surely_bind [OF e], simp,
        rule surely_assume, rule surely_lift_bind, simp add: ensure_def, rule surely_bind [OF u],
        rule surely_bind [OF surely_map_err [OF p]], rule surely_return) simp
  have within: "within_limits limits index_empty" "index_live_bytes index_empty = Inr (entry_bytes (ix_entries index_empty))"
    by (simp_all add: within_limits_def over_limits_def index_empty_def index_live_bytes_def)
  have "surely ?F (open_index env limits) (\<lambda>ix' L. ix' = index_empty \<and> ?P L \<and> swept index_empty L)"
    unfolding open_index_def
    by (intro surely_bind [OF surely_file_call [OF f]] surely_bind [OF i] surely_assume) (simp add: surely_reconcile [OF f within])
  then show ?thesis
    by (rule surely_mono) (auto simp: plain_def intact_def backed_def index_empty_def)
qed

end
