(* ===== verification/Checkpoint_Save_Total.thy ===== *)
theory Checkpoint_Save_Total
  imports Checkpoint_Liveness
begin

text \<open>
  A save that nothing hinders: without failures, foreign leaves or limits in the way, an admissible
  session that is not yet indexed is saved, and the entry it leaves restores the session.
\<close>

section \<open>Room for one more entry\<close>

lemma victims_loop_total:
  "\<lbrakk> 0 < max_entries; incoming \<le> max_bytes; max_bytes < u64_limit; bytes = entry_bytes es \<rbrakk> \<Longrightarrow>
     \<exists>vs. victims_loop max_entries max_bytes incoming bytes es = Inr vs"
proof (induction es arbitrary: bytes)
  case Nil
  then show ?case by (subst victims_loop.simps) (simp add: is_none_or_def checked_add_def)
next
  case (Cons e es)
  have "bytes - ie_file_bytes e = entry_bytes es" using Cons.prems(4) by simp
  from Cons.IH [OF Cons.prems(1-3) this] show ?case
    by (subst victims_loop.simps) auto
qed

lemma victims_total:
  assumes "0 < max_entries" "incoming \<le> max_bytes" "max_bytes < u64_limit" "entry_bytes (ix_entries ix) < u64_limit"
  shows "\<exists>vs. victims max_entries max_bytes incoming ix = Inr vs"
  using victims_loop_total [OF assms(1-3), of "entry_bytes (ix_entries ix)" "by_age (ix_entries ix)"] index_live_bytes_total [OF assms(4)]
  by (simp add: victims_def entry_bytes_by_age)

lemma spare_slot_total:
  assumes "index_validate ix = Inr ()"
  shows "\<exists>slot. spare_slot ix = Some slot"
proof (rule ccontr)
  assume "\<nexists>slot. spare_slot ix = Some slot"
  then have "set [0..<PAYLOAD_SLOTS] \<subseteq> ie_slot ` set (ix_entries ix)"
    by (auto simp: spare_slot_def find_None_iff)
  from card_mono [OF _ this] have "PAYLOAD_SLOTS \<le> card (ie_slot ` set (ix_entries ix))" by simp
  also have "\<dots> \<le> length (ix_entries ix)" by (metis card_length length_map set_map)
  also have "\<dots> \<le> INDEX_MAX_ENTRIES" using assms by (simp add: index_validate_iff)
  finally show False by (simp add: PAYLOAD_SLOTS_def)
qed

lemma with_entry_total:
  assumes valid: "index_validate ix = Inr ()" and next_ok: "ix_next_recency ix + 1 < u64_limit"
    and room: "length (ix_entries ix) < INDEX_MAX_ENTRIES" and slot: "slot \<notin> ie_slot ` set (ix_entries ix)" "slot < PAYLOAD_SLOTS"
    and key: "(scope, frontier, key) \<notin> entry_key ` set (ix_entries ix)"
    and geometry: "0 < frontier" "frontier \<le> 262144" "HEADER_BYTES + TRAILER_BYTES \<le> expected" "expected \<le> MAX_INDEXED_FILE_BYTES"
  shows "\<exists>candidate. with_entry slot scope key frontier expected ix = Inr candidate"
proof -
  let ?e = "\<lparr> ie_slot = slot, ie_scope = scope, ie_prefix = key, ie_frontier = frontier, ie_file_bytes = expected, ie_recency = ix_next_recency ix \<rparr>"
  let ?c = "ix \<lparr> ix_next_recency := ix_next_recency ix + 1, ix_entries := ix_entries ix @ [?e] \<rparr>"
  have g: "entry_geometry (ix_next_recency ix + 1) e" if "e \<in> set (ix_entries ix)" for e
    using valid that by (force simp: index_validate_iff entry_geometry_def)
  have fresh: "ix_next_recency ix \<notin> ie_recency ` set (ix_entries ix)"
    using valid by (force simp: index_validate_iff entry_geometry_def)
  have new: "entry_geometry (ix_next_recency ix + 1) ?e"
    using geometry slot(2) valid by (simp add: entry_geometry_def index_validate_iff)
  have k: "entry_key ?e = (scope, frontier, key)" by (simp add: entry_key_def)
  have "index_validate ?c = Inr ()"
    unfolding index_validate_iff using valid room slot(1) key fresh g new
    by (simp add: index_validate_iff k)
  then show ?thesis
    using next_ok geometry(2) by (simp add: with_entry_def next_time_def checked_add_def ok_or_def ensure_def Let_def)
qed

lemma contains_key_iff: "contains_key scope frontier key ix \<longleftrightarrow> (scope, frontier, key) \<in> entry_key ` set (ix_entries ix)"
  by (auto simp: contains_key_def entry_key_def image_iff)

section \<open>The save\<close>

definition always :: "(disk_store \<Rightarrow> bool) \<Rightarrow> ('e, disk_store, 'a) fallible \<Rightarrow> ('a \<Rightarrow> disk_store \<Rightarrow> bool) \<Rightarrow> bool" where
  "always P m Q \<longleftrightarrow> triple P m Q (\<lambda>_ _. False)"

lemma always_bind: "always P m R \<Longrightarrow> (\<And>x. always (R x) (f x) Q) \<Longrightarrow> always P (m_bind m f) Q"
  unfolding always_def by (rule triple_bind)

lemma always_return: "(\<And>d. P d \<Longrightarrow> Q x d) \<Longrightarrow> always P (m_return x) Q"
  unfolding always_def by (rule triple_return)

lemma always_lift_bind: "r = Inr x \<Longrightarrow> always P (f x) Q \<Longrightarrow> always P (m_bind (m_lift r) f) Q"
  by (simp add: always_def triple_def m_bind_def)

lemma always_on_root: "surely P m Q \<Longrightarrow> always (owns s P) (on_root m) (\<lambda>x. owns s (Q x))"
  unfolding always_def surely_def by (erule triple_mono [OF triple_on_root]) (auto simp: owns_def)

lemma always_owns_get: "(\<And>d. sans d = sans s \<Longrightarrow> always (owns s P) (f d) Q) \<Longrightarrow> always (owns s P) (m_bind (m_get Inr) f) Q"
  unfolding always_def by (rule triple_owns_get)

lemma always_mono: "always P m Q \<Longrightarrow> (\<And>d. P' d \<Longrightarrow> P d) \<Longrightarrow> (\<And>x d. Q x d \<Longrightarrow> Q' x d) \<Longrightarrow> always P' m Q'"
  unfolding always_def by (erule triple_mono) auto

lemma always_handle: "always P m R \<Longrightarrow> (\<And>x. always (R x) (f (Inr x)) Q) \<Longrightarrow> always P (m_bind (m_try m) f) Q"
  unfolding always_def by (erule triple_handle) (simp_all add: triple_def)

lemma always_on_failure: "always P m Q \<Longrightarrow> always P (on_failure h m) Q"
  unfolding always_def by (erule triple_on_failure) (simp add: triple_def)

lemma always_for: "(\<And>x a. x \<in> set xs \<Longrightarrow> always (P a) (body x a) P) \<Longrightarrow> always (P acc) (m_for xs body acc) P"
  unfolding always_def by (rule triple_for)

lemma alwaysE:
  assumes "always P m Q" "P d"
  obtains x d' where "m d = (Inr x, d')" "Q x d'"
proof (cases "m d")
  case (Pair v t)
  then show thesis
    using triple_Inl [OF assms(1) [unfolded always_def] assms(2)] triple_Inr [OF assms(1) [unfolded always_def] assms(2)] that
    by (cases v) auto
qed

text \<open>What the session and its file must satisfy.\<close>

definition saveable :: "store_env \<Rightarrow> host_engine \<Rightarrow> session \<Rightarrow> disk_store \<Rightarrow> bool" where
  "saveable env en s d \<longleftrightarrow>
     \<not> ds_writes_disabled d \<and> validate_snapshot_source en s = Inr () \<and> se_cache_origin s = he_cache_identity en
     \<and> session_sources_ok s \<and> session_unreserved s \<and> map layer_kind (se_layers s) = he_layers en
     \<and> session_key env d s \<notin> entry_key ` set (ix_entries (ds_index d)) \<and> ix_next_recency (ds_index d) + 1 < u64_limit
     \<and> (\<exists>expected sections payload. expected_layout en (he_max_context en) (se_frontier s) = Inr (expected, sections, payload)
          \<and> expected \<le> max_file_bytes (sl_checkpoint (ds_limits d)) \<and> expected \<le> sl_max_payload_bytes (ds_limits d))"

text \<open>The index codec and the writer's side of a device on which nothing fails: any valid index of 32-byte hashes fits its file.\<close>

definition digests :: "index_file \<Rightarrow> bool" where
  "digests ix \<longleftrightarrow> (\<forall>e\<in>set (ix_entries ix). length (ie_scope e) = 32 \<and> length (ie_prefix e) = 32)"

definition codec_fits :: "store_env \<Rightarrow> bool" where
  "codec_fits env \<longleftrightarrow> (\<forall>ix. index_validate ix = Inr () \<and> ix_next_recency ix < u64_limit \<and> digests ix
     \<longrightarrow> length (to_json env ix) \<le> MAX_INDEX_BYTES)"

definition writable_device :: "store_env \<Rightarrow> store_limits \<Rightarrow> bool" where
  "writable_device env limits \<longleftrightarrow> faultless env \<and> codec_fits env \<and> (\<forall>x. length (sha256 (sv_wire env) x) = 32)
     \<and> (\<exists>staging. staging_new (sv_wire env) (max_io_buffer_bytes (sl_checkpoint limits)) = Inr staging)"

lemma write_session_length:
  assumes dev: "writable_device env limits" and ok: "saveable env en s d" and scope: "length scope = 32" and ctx: "he_max_context en \<le> MAX_POSITIONS"
    and layout: "expected_layout en (he_max_context en) (se_frontier s) = Inr (expected, sections, payload)"
  shows "\<exists>w. write_session (wire_at env n) en s scope expected sections (max_io_buffer_bytes (sl_checkpoint limits))
      \<lparr> hw_out = [], hw_written = 0 \<rparr> = (Inr (), w) \<and> length (hw_out w) = expected"
proof -
  from dev obtain staging where st: "staging_new (wire_at env n) (max_io_buffer_bytes (sl_checkpoint limits)) = Inr staging"
    by (auto simp: writable_device_def staging_new_def wire_at_def)
  have wire: "\<forall>k. io_write (wire_at env n) k" "\<forall>x. length (sha256 (wire_at env n) x) = 32"
    using dev by (auto simp: writable_device_def faultless_def wire_at_def)
  have "he_max_context en < 2 ^ 32" using ctx by (simp add: MAX_POSITIONS_def)
  from write_session_total [OF wire(1) st wire(2) scope _ _ _ _ layout this] ok obtain w where
    w: "write_session (wire_at env n) en s scope expected sections (max_io_buffer_bytes (sl_checkpoint limits)) \<lparr> hw_out = [], hw_written = 0 \<rparr> = (Inr (), w)"
    by (auto simp: saveable_def)
  from write_session_Inr(1,2) [OF w] wire(2) expected_layout_Inr(4) [OF layout] have "length (hw_out w) = expected"
    by (simp add: wire_consts)
  with w show ?thesis by blast
qed

lemma surely_stage_payload:
  assumes f: "faultless env" and wrote: "\<And>n. \<exists>w. write_session (wire_at env n) en s scope expected sections limit
      \<lparr> hw_out = [], hw_written = 0 \<rparr> = (Inr (), w) \<and> length (hw_out w) = expected"
    and plain: "\<And>L. P L \<Longrightarrow> plain L" and temp: "\<And>L l. P L \<Longrightarrow> l \<noteq> Some Foreign \<Longrightarrow> P (L(Payload_Temp := l))"
  shows "surely P (stage_payload env en s scope expected sections limit)
     (\<lambda>_ L. P L \<and> (\<exists>bs. L Payload_Temp = Some (Regular bs) \<and> length bs = expected))"
proof -
  let ?Q = "\<lambda>L. P L \<and> (\<exists>bs. L Payload_Temp = Some (Regular bs) \<and> length bs = expected)"
  have u: "surely P (unlink_leaf env Payload_Temp) (\<lambda>_ L. P L \<and> L Payload_Temp = None)"
    by (rule surely_unlink_leaf [OF f]) (simp_all add: plain temp)
  have c: "surely (\<lambda>L. P L \<and> L Payload_Temp = None) (create_leaf env Payload_Temp) (\<lambda>_. P)"
    by (rule surely_create_leaf [OF f]) (use temp in auto)
  have w: "surely P (write_payload env en s scope expected sections limit) (\<lambda>_. ?Q)"
  proof (rule surelyI)
    fix r :: store_root assume P: "P (rt_leaves r)"
    obtain w where "write_session (wire_at env (rt_calls r)) en s scope expected sections limit \<lparr> hw_out = [], hw_written = 0 \<rparr> = (Inr (), w)"
      "length (hw_out w) = expected" using wrote by blast
    then show "\<exists>x t. write_payload env en s scope expected sections limit r = (Inr x, t) \<and> ?Q (rt_leaves t)"
      using temp [OF P] by (simp add: write_payload_def)
  qed
  show ?thesis
    unfolding stage_payload_def by (intro surely_bind [OF u] surely_bind [OF c] surely_bind [OF w] surely_file_call [OF f])
qed

lemma always_install_index:
  assumes f: "faultless env" and codec: "codec_ok env" and valid: "index_validate candidate = Inr ()" and len: "length (to_json env candidate) \<le> MAX_INDEX_BYTES"
  shows "always (owns s (\<lambda>L. backed B candidate L \<and> plain L)) (install_index env candidate)
     (\<lambda>_. owns (s \<lparr> ds_index := candidate \<rparr>) (\<lambda>L. intact B env candidate L \<and> plain L))"
proof -
  let ?P = "\<lambda>L. backed B candidate L \<and> plain L" and ?Q = "\<lambda>L. intact B env candidate L \<and> plain L"
  have x: "indexed env candidate (Some (Regular (to_json env candidate)))"
    using codec valid len by (simp add: indexed_def codec_ok_def)
  have p: "surely ?P (publish_index env candidate) (\<lambda>_. ?Q)"
    by (rule surely_publish_index [OF f valid len]) (use x in \<open>auto simp: intact_def intro: plain_upd\<close>)
  have m: "always (owns s ?Q) (m_modify (\<lambda>d. d \<lparr> ds_index := candidate \<rparr>)) (\<lambda>_. owns (s \<lparr> ds_index := candidate \<rparr>) ?Q)"
    unfolding always_def by (rule triple_owns_modify) simp
  show ?thesis
    unfolding install_index_def by (rule always_handle [OF always_on_root [OF p]]) (simp add: m)
qed

lemma always_commit_payload:
  assumes f: "faultless env" and codec: "codec_ok env" and len: "length (to_json env candidate) \<le> MAX_INDEX_BYTES"
    and spare: "slot \<notin> ie_slot ` set (ix_entries (ds_index s))" and adm: "admitted (ds_limits s) (ds_index s) gone slot key expected candidate"
  shows "always (owns s (\<lambda>L. intact has_length env (ds_index s) L \<and> plain L \<and> L (Payload slot) = None
       \<and> (\<exists>bs. L Payload_Temp = Some (Regular bs) \<and> length bs = expected))) (commit_payload env slot expected candidate gone)
     (\<lambda>ok d. ok \<and> plain (rt_leaves (ds_root d)))"
proof -
  from adm obtain e where e: "ix_entries candidate = filter (\<lambda>e. ie_slot e \<notin> set gone) (ix_entries (ds_index s)) @ [e]"
    "ie_slot e = slot" "ie_file_bytes e = expected" and valid: "index_validate candidate = Inr ()" by (auto simp: admitted_def)
  let ?s = "s \<lparr> ds_index := candidate \<rparr>"
  let ?P = "\<lambda>bs L. intact has_length env (ds_index s) L \<and> plain L \<and> L (Payload slot) = None \<and> L Payload_Temp = Some (Regular bs)"
  let ?Q = "\<lambda>L. backed has_length candidate L \<and> plain L" and ?C = "\<lambda>L. intact has_length env candidate L \<and> plain L"
  have p: "surely (?P bs) (publish_payload env slot expected) (\<lambda>_. ?Q)" if len: "length bs = expected" for bs
  proof (rule surely_publish_payload [OF f _ len])
    fix L assume L: "?P bs L"
    have "has_length e (Some (Regular bs))" using len e(3) by (simp add: has_length_def)
    moreover have "ie_slot x \<noteq> slot" if "x \<in> set (ix_entries (ds_index s))" for x using spare that by auto
    ultimately show "?Q (L(Payload_Temp := None, Payload slot \<mapsto> Regular bs))"
      using L e by (auto simp: intact_def backed_def intro!: plain_upd)
  qed auto
  have r: "always (owns ?s ?C) (on_failure disable_writes (on_root (remove_payload env victim))) (\<lambda>_. owns ?s ?C)" if v: "victim \<in> set gone" for victim
  proof (rule always_on_failure [OF always_on_root])
    have "victim \<notin> ie_slot ` set (ix_entries candidate)" using v e(1,2) adm spare by (auto simp: admitted_def)
    from frame_payload [OF this] show "surely ?C (remove_payload env victim) (\<lambda>_. ?C)"
      unfolding remove_payload_def
      by (intro surely_bind [OF surely_unlink_leaf [OF f, where P = ?C and Q = ?C]]) (auto intro: plain_upd surely_return)
  qed
  have i: "always (owns s ?Q) (install_saved env slot candidate gone) (\<lambda>ok d. ok \<and> plain (rt_leaves (ds_root d)))"
    unfolding install_saved_def remove_victims_def
    by (rule always_handle [OF always_install_index [OF f codec valid len]], simp only: sum.case, rule always_bind,
        rule always_bind [OF always_for [where P = "\<lambda>_. owns ?s ?C"]], erule r, rule always_on_failure [OF always_on_root [OF surely_file_call [OF f]]],
        rule always_return) (auto simp: owns_def)
  have c: "always (owns s (?P bs)) (commit_payload env slot expected candidate gone) (\<lambda>ok d. ok \<and> plain (rt_leaves (ds_root d)))" if "length bs = expected" for bs
    unfolding commit_payload_def by (rule always_handle [OF always_on_root [OF p [OF that]]]) (simp add: i)
  have "triple (owns s (\<lambda>L. ?P bs L \<and> length bs = expected)) (commit_payload env slot expected candidate gone)
      (\<lambda>ok d. ok \<and> plain (rt_leaves (ds_root d))) (\<lambda>_ _. False)" for bs
    by (cases "length bs = expected") (use c [unfolded always_def] in \<open>simp_all add: triple_def owns_def\<close>)
  then show ?thesis unfolding always_def by (rule triple_pre [OF triple_ex]) (auto simp: owns_def)
qed

theorem always_save:
  assumes dev: "writable_device env (ds_limits s)" and codec: "codec_ok env" and s: "sound (he_cache_identity en, scope, limits, None) s"
    and hashes: "length (ds_scope s) = 32" "digests (ds_index s)" and ctx: "he_max_context en \<le> MAX_POSITIONS"
    and limits: "limits_validate (ds_limits s) = Inr ()" "sl_max_payload_bytes (ds_limits s) < u64_limit" and ok: "saveable env en sess s"
  shows "always (owns s (\<lambda>L. intact has_length env (ds_index s) L \<and> plain L)) (save env en sess) (\<lambda>ok d. ok \<and> plain (rt_leaves (ds_root d)))"
proof -
  let ?I = "\<lambda>L. intact has_length env (ds_index s) L \<and> plain L" and ?limits = "ds_limits s"
  let ?S = "\<lambda>L. intact has_length env (ds_index s) L \<and> plain L \<and> swept (ds_index s) L"
  let ?D = "\<lambda>ok d. ok \<and> plain (rt_leaves (ds_root d))"
  from ok obtain expected sections payload where layout: "expected_layout en (he_max_context en) (se_frontier sess) = Inr (expected, sections, payload)"
    and size: "expected \<le> max_file_bytes (sl_checkpoint ?limits)" "expected \<le> sl_max_payload_bytes ?limits"
    by (auto simp: saveable_def)
  note lay = expected_layout_Inr [OF layout]
  have f: "faultless env" using dev by (simp add: writable_device_def)
  have owner: "ds_owner s = he_cache_identity en" "ds_managed s = None" using s by (simp_all add: sound_def statics_def)
  from s have valid: "index_validate (ds_index s) = Inr ()" and within: "within_limits ?limits (ds_index s)" by (auto simp: sound_def)
  let ?gone = "case sl_mode ?limits of Prefix_Mode \<Rightarrow> [] | Full_Mode \<Rightarrow> store_superseded (sv_wire env) (ds_scope s) (se_tokens sess) (ds_index s)"
  have gone: "set ?gone \<subseteq> ie_slot ` set (ix_entries (ds_index s))"
    by (cases "sl_mode ?limits") (auto simp: store_superseded_def matching_def dest: in_set_dropD)
  from limits size have bytes: "0 < sl_max_entries ?limits" "sl_max_entries ?limits \<le> INDEX_MAX_ENTRIES" "expected \<le> sl_max_payload_bytes ?limits"
    "sl_max_payload_bytes ?limits < u64_limit" "expected \<le> max_file_bytes (sl_checkpoint ?limits)" "expected \<le> MAX_INDEXED_FILE_BYTES"
    by (auto simp: limits_validate_def ensure_eq_Inr)
  let ?base = "without ?gone (ds_index s)"
  have base: "index_validate ?base = Inr ()" unfolding without_def by (rule index_validate_filter [OF valid])
  have "entry_bytes (ix_entries ?base) < u64_limit"
    using within_limits_bytes [OF within bytes(4)] entry_bytes_filter_le [of _ "ix_entries (ds_index s)"]
    by (auto simp: without_def intro: le_less_trans)
  from victims_total [OF bytes(1,3,4) this] obtain vs where
    vs: "victims (sl_max_entries ?limits) (sl_max_payload_bytes ?limits) expected ?base = Inr vs" by blast
  from spare_slot_total [OF valid] obtain slot where slot: "spare_slot (ds_index s) = Some slot" by blast
  note spare = spare_slot_Some [OF slot]
  let ?kept = "without (?gone @ vs) ?base" and ?key = "prefix_hash (sv_wire env) (se_tokens sess)"
  have kept: "?kept = without vs ?base" by (simp add: without_def)
  have "distinct (map ie_slot (ix_entries ?base))" using base by (simp add: index_validate_iff)
  from without_victims [OF vs this] have "length (ix_entries ?kept) < sl_max_entries ?limits" unfolding kept fits_def by blast
  moreover have v: "index_validate ?kept = Inr ()" unfolding kept without_def [of vs] by (rule index_validate_filter [OF base])
  moreover have sub: "set (ix_entries ?kept) \<subseteq> set (ix_entries (ds_index s))" by (auto simp: without_def)
  moreover have "ix_next_recency ?kept = ix_next_recency (ds_index s)" by (simp add: without_def)
  moreover have "se_frontier sess \<le> 262144" using lay(2) ctx by (simp add: MAX_POSITIONS_def)
  ultimately obtain candidate where cand: "with_entry slot (ds_scope s) ?key (se_frontier sess) expected ?kept = Inr candidate"
    using with_entry_total [of ?kept slot "ds_scope s" "se_frontier sess" ?key expected] ok spare bytes lay(1,4)
    by (fastforce simp: saveable_def session_key_def)
  have adm: "admitted ?limits (ds_index s) (?gone @ vs) slot (ds_scope s, se_frontier sess, ?key) expected candidate"
    by (rule admitted_candidate [OF gone vs cand valid within bytes(5)])
  have "length ?key = 32" using dev by (simp add: writable_device_def prefix_hash_def)
  then have "digests candidate" using adm hashes by (auto simp: admitted_def digests_def entry_key_def)
  then have len: "length (to_json env candidate) \<le> MAX_INDEX_BYTES"
    using dev adm ok by (auto simp: writable_device_def codec_fits_def admitted_def saveable_def)
  have own: "always (owns s P) (check_owner en) (\<lambda>_. owns s P)" for P
    unfolding always_def check_owner_def
    by (rule tripleI) (use owner in \<open>auto simp: ensure_def owns_def dest: sans_eqD(2) split: if_splits\<close>)
  have admit: "always (owns s ?S) (save_admitted env en sess ?key expected sections (sl_max_payload_bytes ?limits) ?gone ?base) ?D"
    unfolding save_admitted_def
  proof (rule always_owns_get)
    fix d assume "sans d = sans s"
    note fd = sans_eqD [OF this]
    let ?N = "\<lambda>L. intact has_length env (ds_index s) L \<and> plain L \<and> L (Payload slot) = None"
    have old: "surely ?S (existing_leaf env (Payload slot)) (\<lambda>old L. ?N L \<and> old = None)"
      by (rule surely_mono [OF surely_existing_leaf [OF f, where P = ?S]])
        (use spare in \<open>auto simp: swept_def found_leaf_def split: option.splits\<close>)
    have st: "surely ?N (stage_payload env en sess (ds_scope s) expected sections (max_io_buffer_bytes (sl_checkpoint ?limits)))
        (\<lambda>_ L. ?N L \<and> (\<exists>bs. L Payload_Temp = Some (Regular bs) \<and> length bs = expected))"
      by (rule surely_stage_payload [OF f write_session_length [OF dev ok hashes(1) ctx layout]]) (auto intro: plain_upd)
    have cm: "always (owns s (\<lambda>L. ?N L \<and> (\<exists>bs. L Payload_Temp = Some (Regular bs) \<and> length bs = expected)))
        (commit_payload env slot expected candidate (?gone @ vs)) ?D"
      by (rule always_mono [OF always_commit_payload [OF f codec len conjunct1 [OF spare] adm]]) (auto elim: owns_mono)
    have "always (owns s ?N) (m_bind (m_lift (failing (with_entry slot (ds_scope s) ?key (se_frontier sess) expected ?kept))) (\<lambda>candidate.
     m_bind (m_lift (ensure (length (to_json env candidate) \<le> MAX_INDEX_BYTES)
       (Failure ''checkpoint index candidate exceeds admission'') (Inr ()))) (\<lambda>_.
     m_bind (on_root (stage_payload env en sess (ds_scope s) expected sections (max_io_buffer_bytes (sl_checkpoint ?limits)))) (\<lambda>_.
     commit_payload env slot expected candidate (?gone @ vs))))) ?D"
      by (rule always_lift_bind, simp add: cand failing_def, rule always_lift_bind, simp add: len ensure_def,
          rule always_bind [OF always_on_root [OF st] cm])
    then have tail: "always (owns s (\<lambda>L. ?N L \<and> old = None)) (m_bind (m_lift (ensure (old = None) (Failure ''checkpoint spare payload leaf is occupied'') (Inr ()))) (\<lambda>_.
     m_bind (m_lift (failing (with_entry slot (ds_scope s) ?key (se_frontier sess) expected ?kept))) (\<lambda>candidate.
     m_bind (m_lift (ensure (length (to_json env candidate) \<le> MAX_INDEX_BYTES)
       (Failure ''checkpoint index candidate exceeds admission'') (Inr ()))) (\<lambda>_.
     m_bind (on_root (stage_payload env en sess (ds_scope s) expected sections (max_io_buffer_bytes (sl_checkpoint ?limits)))) (\<lambda>_.
     commit_payload env slot expected candidate (?gone @ vs)))))) ?D" for old :: "byte list option"
      by (cases "old = None") (auto simp: always_def triple_def owns_def ensure_def m_bind_def [where m = "m_lift (Inr ())"])
    show "always (owns s ?S) (m_bind (m_lift (failing (victims (sl_max_entries (ds_limits d)) (sl_max_payload_bytes ?limits) expected ?base))) (\<lambda>vs.
     m_bind (m_lift (ok_or (spare_slot (ds_index d)) (Failure ''checkpoint spare payload slot is unavailable''))) (\<lambda>slot.
     m_bind (on_root (existing_leaf env (Payload slot))) (\<lambda>old.
     m_bind (m_lift (ensure (old = None) (Failure ''checkpoint spare payload leaf is occupied'') (Inr ()))) (\<lambda>_.
     m_bind (m_lift (failing (with_entry slot (ds_scope d) ?key (se_frontier sess) expected (without (?gone @ vs) ?base)))) (\<lambda>candidate.
     m_bind (m_lift (ensure (length (to_json env candidate) \<le> MAX_INDEX_BYTES)
       (Failure ''checkpoint index candidate exceeds admission'') (Inr ()))) (\<lambda>_.
     m_bind (on_root (stage_payload env en sess (ds_scope d) expected sections (max_io_buffer_bytes (sl_checkpoint (ds_limits d))))) (\<lambda>_.
     commit_payload env slot expected candidate (?gone @ vs))))))))) ?D"
      unfolding fd
      by (rule always_lift_bind, simp add: vs failing_def, rule always_lift_bind, simp add: slot ok_or_def,
          rule always_bind [OF always_on_root [OF old] tail])
  qed
  have sized: "always (owns s ?I) (save_sized env en sess expected sections d) ?D" if "sans d = sans s" for d
  proof -
    note fd = sans_eqD [OF that]
    have "always (owns s ?S) (save_reserved env en sess ?key expected sections d) ?D"
      unfolding save_reserved_def fd Let_def
      by (rule always_bind [where R = "\<lambda>allowance t. allowance = sl_max_payload_bytes ?limits \<and> owns s ?S t"])
        (use owner(2) admit bytes(3) in \<open>auto simp: reserve_managed_def on_root_def owns_def always_def triple_def\<close>)
    then show ?thesis
      unfolding save_sized_def Let_def fd
      using ok size always_bind [OF always_on_failure [OF always_on_root [OF surely_cleanup_unindexed [OF f]]]]
      by (auto simp: contains_key_iff saveable_def session_key_def not_less)
  qed
  show ?thesis
    unfolding save_def
  proof (rule always_bind [OF own], rule always_owns_get)
    fix d assume "sans d = sans s"
    note sized = sized [OF this] and fd = sans_eqD [OF this]
    have "always (owns s ?I) (m_bind (m_lift (failing (validate_snapshot_source en sess))) (\<lambda>_.
       m_bind (m_lift (ensure (se_cache_origin sess = he_cache_identity en) (Failure ''session cache producer differs from engine'') (Inr ()))) (\<lambda>_.
       m_bind (m_lift (failing (expected_layout en (he_max_context en) (se_frontier sess)))) (\<lambda>layout.
       save_sized env en sess (fst layout) (fst (snd layout)) d)))) ?D"
      by (rule always_lift_bind, use ok in \<open>simp add: saveable_def failing_def\<close>, rule always_lift_bind,
          use ok in \<open>simp add: saveable_def ensure_def\<close>, rule always_lift_bind, simp add: layout failing_def, simp add: sized)
    then show "always (owns s ?I) (if ds_writes_disabled d then m_return False
     else m_bind (m_lift (failing (validate_snapshot_source en sess))) (\<lambda>_.
       m_bind (m_lift (ensure (se_cache_origin sess = he_cache_identity en) (Failure ''session cache producer differs from engine'') (Inr ()))) (\<lambda>_.
       m_bind (m_lift (failing (expected_layout en (he_max_context en) (se_frontier sess)))) (\<lambda>layout.
       save_sized env en sess (fst layout) (fst (snd layout)) d)))) ?D"
      using ok by (simp add: fd saveable_def)
  qed
qed

end
