(* ===== verification/Store_Properties.thy ===== *)
theory Store_Properties
  imports Checkpoint_Save_Total
begin

text \<open>
  Properties of the checkpoint directory over whole histories of a store opened directly
  (\<open>DiskCheckpointStore::open\<close>): any sequence of openings, failed ones included, saves and restores, each under
  its own schedule of failures, on one device. Stores of a managed cache, which may also trim their own index in a
  save, are not part of these histories.
\<close>

section \<open>Files and histories\<close>

text \<open>The complete checkpoint file of a session.\<close>

definition file_of :: "checkpoint_env \<Rightarrow> host_engine \<Rightarrow> byte list \<Rightarrow> session \<Rightarrow> byte list \<Rightarrow> bool" where
  "file_of env en scope s bs \<longleftrightarrow> (\<exists>expected sections payload.
     expected_layout en (he_max_context en) (se_frontier s) = Inr (expected, sections, payload)
     \<and> bs = header_bytes env scope (se_tokens s) en expected sections @ session_sections s
          @ sha256 env (header_bytes env scope (se_tokens s) en expected sections @ session_sections s)
     \<and> length (header_bytes env scope (se_tokens s) en expected sections @ session_sections s) = expected - TRAILER_BYTES
     \<and> session_sources_ok s \<and> validate_snapshot_source en s = Inr () \<and> length bs = expected)"

definition sealed :: "checkpoint_env \<Rightarrow> host_engine \<Rightarrow> byte list \<Rightarrow> backing" where
  "sealed env en scope e l \<longleftrightarrow> (\<exists>s bs. l = Some (Regular bs) \<and> length bs = ie_file_bytes e
     \<and> entry_key e = (scope, se_frontier s, prefix_hash env (se_tokens s)) \<and> file_of env en scope s bs)"

text \<open>The same hash and index codec; failures and allocators may differ from call to call.\<close>

definition same_device :: "store_env \<Rightarrow> store_env \<Rightarrow> bool" where
  "same_device base env \<longleftrightarrow> sha256 (sv_wire env) = sha256 (sv_wire base) \<and> to_json env = to_json base \<and> from_json env = from_json base"

text \<open>Attempts to open a directory that fail, one after the other, and what they leave of it.\<close>

inductive failed_opens :: "store_env \<Rightarrow> host_engine \<Rightarrow> byte list \<times> byte list \<Rightarrow> store_limits \<Rightarrow> store_root \<Rightarrow> store_root \<Rightarrow> bool"
  for base en identity limits r where
  no_attempt: "failed_opens base en identity limits r r"
| one_attempt: "failed_opens base en identity limits r r1 \<Longrightarrow> same_device base env \<Longrightarrow> store_open env en identity limits r1 = (Inl e, r2)
     \<Longrightarrow> failed_opens base en identity limits r r2"

text \<open>Histories of a store opened directly, as \<open>DiskCheckpointStore::open\<close> does, on a directory that had no index.\<close>

inductive store_run :: "store_env \<Rightarrow> host_engine \<Rightarrow> byte list \<times> byte list \<Rightarrow> store_limits \<Rightarrow> disk_store \<Rightarrow> bool"
  for base en identity limits where
  run_create: "rt_leaves r0 Index_Leaf = None \<Longrightarrow> failed_opens base en identity limits r0 r \<Longrightarrow> same_device base env
     \<Longrightarrow> store_open env en identity limits r = (Inr d, r') \<Longrightarrow> store_run base en identity limits d"
| run_reopen: "store_run base en identity limits d \<Longrightarrow> failed_opens base en identity limits (ds_root d) r \<Longrightarrow> same_device base env
     \<Longrightarrow> store_open env en identity limits r = (Inr d', r') \<Longrightarrow> store_run base en identity limits d'"
| run_save: "store_run base en identity limits d \<Longrightarrow> same_device base env \<Longrightarrow> save env en s d = (res, d') \<Longrightarrow> store_run base en identity limits d'"
| run_load: "store_run base en identity limits d \<Longrightarrow> same_device base env \<Longrightarrow> load_match env en requested d = (found, d')
     \<Longrightarrow> store_run base en identity limits d'"

lemma same_device_simps:
  assumes "same_device base env"
  shows "prefix_hash (sv_wire env) = prefix_hash (sv_wire base)" "codec_ok env = codec_ok base" "indexed env = indexed base"
    "intact B env = intact B base" "good B env c = good B base c" "checkpoint_scope (sv_wire env) en identity = checkpoint_scope (sv_wire base) en identity"
    "session_key env d s = session_key base d s"
proof -
  show p: "prefix_hash (sv_wire env) = prefix_hash (sv_wire base)" using assms by (auto simp: same_device_def prefix_hash_def)
  show "codec_ok env = codec_ok base" using assms by (auto simp: same_device_def codec_ok_def)
  show i: "indexed env = indexed base" using assms by (intro ext) (auto simp: same_device_def indexed_def)
  show j: "intact B env = intact B base" by (intro ext) (simp add: intact_def i)
  show "good B env c = good B base c" by (intro ext) (simp add: good_def j)
  show "checkpoint_scope (sv_wire env) en identity = checkpoint_scope (sv_wire base) en identity"
    using assms by (auto simp: same_device_def checkpoint_scope_def split: prod.splits)
  show "session_key env d s = session_key base d s" by (simp add: session_key_def p)
qed

lemma sha256_wire_at [simp]: "sha256 (wire_at env n) = sha256 (sv_wire env)"
  by (simp add: wire_at_def)

lemma header_bytes_cong: "sha256 env = sha256 env' \<Longrightarrow> header_bytes env = header_bytes env'"
  by (intro ext) (simp add: header_bytes_def prefix_hash_def)

lemma file_of_cong: "sha256 env = sha256 env' \<Longrightarrow> file_of env = file_of env'"
  by (intro ext) (simp add: file_of_def header_bytes_cong [of env env'])

lemma header_bytes_wire_at [simp]: "header_bytes (wire_at env n) = header_bytes (sv_wire env)"
  by (rule header_bytes_cong) simp

lemma written_file_of:
  assumes "written env en s scope limit bs"
  shows "file_of (sv_wire env) en scope s bs"
proof -
  from assms obtain n expected sections payload w where
    w: "expected_layout en (he_max_context en) (se_frontier s) = Inr (expected, sections, payload)"
      "write_session (wire_at env n) en s scope expected sections limit \<lparr> hw_out = [], hw_written = 0 \<rparr> = (Inr (), w)"
      "bs = hw_out w" "length bs = expected" unfolding written_def by blast
  from write_session_Inr [OF w(2), unfolded header_bytes_wire_at sha256_wire_at] w show ?thesis by (auto simp: file_of_def)
qed

lemma recency_free_sealed: "recency_free (sealed env en scope)"
  by (simp add: recency_free_def sealed_def entry_key_def)

lemma accepts_sealed_file:
  assumes "same_device base env" "ds_scope d = scope"
  shows "accepts (\<lambda>e l. \<exists>bs. l = Some (Regular bs) \<and> length bs = ie_file_bytes e \<and> file_of (sv_wire base) en scope s bs) env en s d"
  unfolding accepts_def
proof (intro allI impI)
  fix e bs
  assume e: "entry_key e = (ds_scope d, se_frontier s, prefix_hash (sv_wire env) (se_tokens s)) \<and> length bs = ie_file_bytes e
      \<and> written env en s (ds_scope d) (max_io_buffer_bytes (sl_checkpoint (ds_limits d))) bs"
  have "sha256 (sv_wire env) = sha256 (sv_wire base)" using assms(1) by (simp add: same_device_def)
  then have "file_of (sv_wire base) en scope s bs" using written_file_of e assms(2) by (metis file_of_cong)
  with e show "\<exists>bs'. Some (Regular bs) = Some (Regular bs') \<and> length bs' = ie_file_bytes e \<and> file_of (sv_wire base) en scope s bs'" by simp
qed

lemma accepts_sealed:
  assumes "same_device base env" "ds_scope d = scope"
  shows "accepts (sealed (sv_wire base) en scope) env en s d"
  using accepts_sealed_file [OF assms, of en s] assms(2)
  by (auto simp: accepts_def sealed_def same_device_simps(1) [OF assms(1)])

section \<open>The invariant over histories\<close>

lemma store_open_Inr:
  assumes "store_open env en identity limits r = (Inr d, r')"
  shows "\<exists>scope ix. limits_validate limits = Inr () \<and> checkpoint_scope (sv_wire env) en identity = Inr scope
     \<and> open_index env limits r = (Inr ix, r') \<and> d = opened_store en scope limits None ix r'"
  using assms by (auto simp: store_open_def m_bind_eq_Inr failing_Inr)

lemma opened_good:
  assumes "codec_ok env" "openable B env (rt_leaves r)" "store_open env en identity limits r = (Inr d, r')"
  shows "\<exists>scope. checkpoint_scope (sv_wire env) en identity = Inr scope \<and> good (both B has_length) env (he_cache_identity en, scope, limits, None) d"
proof -
  from store_open_Inr [OF assms(3)] obtain scope ix where o: "checkpoint_scope (sv_wire env) en identity = Inr scope"
    "open_index env limits r = (Inr ix, r')" "d = opened_store en scope limits None ix r'" by blast
  from rooted_Inr [OF rooted_open_index [OF assms(1), where limits = limits] assms(2) o(2)] o show ?thesis
    by (auto simp: good_def sound_def flagged_def statics_def opened_store_def)
qed

text \<open>An opening that fails leaves a directory that a later one accepts.\<close>

lemma failed_open_openable:
  assumes "codec_ok env" "openable B env (rt_leaves r)" "store_open env en identity limits r = (Inl e, r')"
  shows "openable B env (rt_leaves r')"
  using assms(2,3)
  by (auto simp: store_open_def m_bind_eq_Inl elim: rooted_Inl [OF rooted_open_index [OF assms(1), where limits = limits]])

lemma failed_opens_openable:
  assumes "failed_opens base en identity limits r r'" "codec_ok base" "openable B base (rt_leaves r)"
  shows "openable B base (rt_leaves r')"
  using assms(1)
proof induction
  case (one_attempt r1 env e r2)
  note dev = same_device_simps [OF one_attempt(2)]
  have "openable B env = openable B base" by (intro ext) (simp add: openable_def dev(3))
  with failed_open_openable [OF _ _ one_attempt(3), of B] one_attempt(4) assms(2) show ?case by (simp add: dev(2))
qed (rule assms(3))

lemma good_mono: "good B env c d \<Longrightarrow> (\<And>e l. B e l \<Longrightarrow> B' e l) \<Longrightarrow> good B' env c d"
  by (auto simp: good_def intact_def backed_def)

lemma good_openable: "good B env c d \<Longrightarrow> openable B env (rt_leaves (ds_root d))"
  by (auto simp: good_def intact_def openable_def indexed_def)

definition run_static :: "store_env \<Rightarrow> host_engine \<Rightarrow> byte list \<times> byte list \<Rightarrow> store_limits \<Rightarrow> byte list \<Rightarrow> owner_static \<Rightarrow> bool" where
  "run_static base en identity limits scope c \<longleftrightarrow> checkpoint_scope (sv_wire base) en identity = Inr scope
     \<and> c = (he_cache_identity en, scope, limits, None)"

lemma good_fields:
  assumes "good B env (owner, scope, limits, managed) d"
  shows "ds_owner d = owner" "ds_scope d = scope" "ds_limits d = limits" "ds_managed d = managed"
  using assms by (auto simp: good_def sound_def statics_def)

lemma save_outcome:
  assumes codec: "codec_ok env" and good: "good B env c d" and acc: "accepts B env en s d" and unmanaged: "ds_managed d = None"
    and run: "save env en s d = (res, d')"
  shows "case res of Inl e \<Rightarrow> save_failed B env c d (session_key env d s) d' | Inr ok \<Rightarrow> save_done B env c d (session_key env d s) ok d'"
proof -
  have c: "sound c d" "flagged d" and o: "owns d (intact B env (ds_index d)) d" using good by (auto simp: good_def owns_def)
  note t = triple_save [OF codec c acc unmanaged]
  show ?thesis using triple_Inl [OF t o] triple_Inr [OF t o] run by (cases res) auto
qed

lemma save_good:
  assumes "codec_ok env" "good B env c d" "accepts B env en s d" "ds_managed d = None" "save env en s d = (res, d')"
  shows "good B env c d'"
  using save_outcome [OF assms] by (cases res) (auto simp: save_done_def save_failed_def)

theorem store_run_good:
  assumes codec: "codec_ok base" and run: "store_run base en identity limits d"
  shows "\<exists>scope. checkpoint_scope (sv_wire base) en identity = Inr scope
     \<and> good (sealed (sv_wire base) en scope) base (he_cache_identity en, scope, limits, None) d"
  using run
proof induction
  case (run_create r0 r env d r')
  note dev = same_device_simps [OF run_create(3)]
  have "openable (\<lambda>_ _. False) base (rt_leaves r0)" using run_create(1) by (simp add: openable_def indexed_def)
  from failed_opens_openable [OF run_create(2) codec this] have "openable (\<lambda>_ _. False) env (rt_leaves r)"
    by (simp add: openable_def dev(3))
  from opened_good [OF _ this run_create(4)] obtain scope where
    s: "checkpoint_scope (sv_wire base) en identity = Inr scope" "good (both (\<lambda>_ _. False) has_length) base (he_cache_identity en, scope, limits, None) d"
    using codec by (auto simp: dev)
  have "good (sealed (sv_wire base) en scope) base (he_cache_identity en, scope, limits, None) d"
    by (rule good_mono [OF s(2)]) (simp add: both_def)
  with s(1) show ?case by blast
next
  case (run_reopen d r env d' r')
  note dev = same_device_simps [OF run_reopen(3)]
  from run_reopen(5) obtain scope where s: "checkpoint_scope (sv_wire base) en identity = Inr scope"
    "good (sealed (sv_wire base) en scope) base (he_cache_identity en, scope, limits, None) d" by blast
  then have "openable (sealed (sv_wire base) en scope) base (rt_leaves (ds_root d))" using good_openable by metis
  from failed_opens_openable [OF run_reopen(2) codec this] have "openable (sealed (sv_wire base) en scope) env (rt_leaves r)"
    by (simp add: openable_def dev(3))
  from opened_good [OF _ this run_reopen(4)] s(1)
  have "good (both (sealed (sv_wire base) en scope) has_length) base (he_cache_identity en, scope, limits, None) d'"
    using codec by (auto simp: dev)
  from good_mono [OF this] s(1) show ?case by (auto simp: both_def)
next
  case (run_save d env s res d')
  note dev = same_device_simps [OF run_save(2)]
  from run_save(4) obtain scope where s: "checkpoint_scope (sv_wire base) en identity = Inr scope"
    "good (sealed (sv_wire base) en scope) base (he_cache_identity en, scope, limits, None) d" by blast
  note f = good_fields [OF s(2)]
  from save_good [OF _ _ accepts_sealed [OF run_save(2) f(2)] f(4) run_save(3)] s codec show ?case by (auto simp: dev)
next
  case (run_load d env requested found d')
  note dev = same_device_simps [OF run_load(2)]
  from run_load(4) obtain scope where s: "checkpoint_scope (sv_wire base) en identity = Inr scope"
    "good (sealed (sv_wire base) en scope) base (he_cache_identity en, scope, limits, None) d" by blast
  have "keeps (good (sealed (sv_wire base) en scope) env c) (load_match env en requested)" for c
    by (rule keeps_good_load_match) (use codec dev(2) recency_free_sealed in auto)
  from keepsD [OF this _ run_load(3)] s show ?case by (auto simp: dev)
qed

text \<open>C5: For a store opened directly, not through a managed cache, whatever call fails the directory stays intact: after any sequence
  of openings, successful or failed, saves and restores the index in memory validates and is the one a reader finds on disk, every entry
  has its payload, a complete checkpoint file of a session with this scope, frontier and prefix, and the entries and their bytes are
  within the limits.\<close>

theorem directory_always_intact:
  assumes "codec_ok base" "store_run base en identity limits d"
  shows "index_validate (ds_index d) = Inr () \<and> indexed base (ds_index d) (rt_leaves (ds_root d) Index_Leaf)
     \<and> (\<forall>e\<in>set (ix_entries (ds_index d)). sealed (sv_wire base) en (ds_scope d) e (rt_leaves (ds_root d) (Payload (ie_slot e))))
     \<and> length (ix_entries (ds_index d)) \<le> sl_max_entries limits \<and> entry_bytes (ix_entries (ds_index d)) \<le> sl_max_payload_bytes limits"
proof -
  from store_run_good [OF assms] obtain scope where g: "good (sealed (sv_wire base) en scope) base (he_cache_identity en, scope, limits, None) d" by blast
  with good_fields [OF g] show ?thesis
    by (auto simp: good_def sound_def intact_def backed_def within_limits_def over_limits_def)
qed

text \<open>C7: A save to a store opened directly is atomic: it reports success only when the new index is installed with the kept entries and the
  new one; when it declines the old index stays; when it fails the old index stays too, or the new index stands and writes are disabled,
  if only what follows its rename failed. In every case the index in memory is the one on disk, with all its payloads. (A store of a
  managed cache that declines for lack of room may trim its own index first; such stores are not covered.)\<close>

theorem save_is_atomic:
  assumes codec: "codec_ok base" and run: "store_run base en identity limits d" and dev: "same_device base env" and sv: "save env en s d = (res, d')"
  shows "(case res of
       Inr True \<Rightarrow> saved limits (ds_index d) (session_key base d s) (ds_index d')
     | Inr False \<Rightarrow> ds_index d' = ds_index d
     | Inl _ \<Rightarrow> ds_index d' = ds_index d \<or> saved limits (ds_index d) (session_key base d s) (ds_index d') \<and> ds_writes_disabled d')
     \<and> indexed base (ds_index d') (rt_leaves (ds_root d') Index_Leaf)
     \<and> (\<forall>e\<in>set (ix_entries (ds_index d')). sealed (sv_wire base) en (ds_scope d') e (rt_leaves (ds_root d') (Payload (ie_slot e))))"
proof -
  from store_run_good [OF codec run] obtain scope where
    g: "good (sealed (sv_wire base) en scope) base (he_cache_identity en, scope, limits, None) d" by blast
  note f = good_fields [OF g] and d = same_device_simps [OF dev]
  let ?B = "sealed (sv_wire base) en scope" and ?c = "(he_cache_identity en, scope, limits, None)"
  note out = save_outcome [OF _ _ accepts_sealed [OF dev f(2)] f(4) sv, where c = ?c, unfolded d, OF codec g]
  have g': "good ?B base ?c d'"
    using out by (cases res) (auto simp: save_done_def save_failed_def d)
  then show ?thesis
    using out f(3) good_fields [OF g']
    by (cases res) (auto simp: save_done_def save_failed_def good_def intact_def backed_def d split: bool.split)
qed

text \<open>C14: Eviction for room takes the oldest entries and no more than needed: the victims are the entries before some point of the
  age order, what stays fits the entry limit and the byte budget with the new file, and no shorter prefix would have been enough.\<close>

theorem eviction_is_oldest_first:
  assumes "victims max_entries max_bytes incoming ix = Inr vs" "index_validate ix = Inr ()"
  shows "\<exists>k. vs = map ie_slot (take k (by_age (ix_entries ix)))
     \<and> (\<forall>v\<in>set (take k (by_age (ix_entries ix))). \<forall>e\<in>set (drop k (by_age (ix_entries ix))). ie_recency v \<le> ie_recency e)
     \<and> fits max_entries max_bytes incoming (ix_entries (without vs ix))
     \<and> (\<forall>j<k. \<not> fits max_entries max_bytes incoming (drop j (by_age (ix_entries ix))))"
proof -
  let ?a = "by_age (ix_entries ix)" and ?f = "\<lambda>e. (ie_recency e, ie_slot e)"
  have "distinct (map ie_slot (ix_entries ix))" using assms(2) by (simp add: index_validate_iff)
  from without_victims [OF assms(1) this] obtain k where k: "vs = map ie_slot (take k ?a)" "fits max_entries max_bytes incoming (ix_entries (without vs ix))"
    "\<forall>j<k. \<not> fits max_entries max_bytes incoming (drop j ?a)" by metis
  have "sorted (map ?f ?a)" by (simp add: by_age_def)
  then have "sorted (map ?f (take k ?a) @ map ?f (drop k ?a))" by (simp flip: map_append)
  then have "\<forall>v\<in>set (take k ?a). \<forall>e\<in>set (drop k ?a). ?f v \<le> ?f e" by (simp add: sorted_append)
  moreover have "ie_recency v \<le> ie_recency e" if "?f v \<le> ?f e" for v e using that by (auto simp: less_eq_prod_def)
  ultimately have "\<forall>v\<in>set (take k ?a). \<forall>e\<in>set (drop k ?a). ie_recency v \<le> ie_recency e" by blast
  with k show ?thesis by blast
qed

section \<open>Restores\<close>

lemma read_payload_Inr:
  assumes "read_payload env en requested e file d = (Inr (Some s), d')"
  shows "se_tokens s = take (se_frontier s) requested \<and> se_frontier s \<le> length requested \<and> se_frontier s = ie_frontier e
     \<and> validate_snapshot_source en s = Inr ()"
proof -
  from assms obtain n where h: "take 8 (drop 84 (take HEADER_BYTES file)) = take 8 (drop 84 file)" "field (take HEADER_BYTES file) 84 8 = ie_frontier e"
    and r: "read_session (wire_at env n) en (ds_scope d) requested (sl_checkpoint (ds_limits d)) file = Inr (Some s)"
    by (auto simp: read_payload_def validate_selected_header_def m_bind_eq_Inr on_root_def transfer_def read_leaf_def invalid_unless_Inr
        ensure_eq_Inr header_matches_def HEADER_BYTES_def take_drop min_def split: prod.splits)
  from accepted_file_is_intact [OF r] h show ?thesis by (auto simp: field_def)
qed

lemma m_try_bind: "m s = (r, t) \<Longrightarrow> m_bind (m_try m) f s = f r t"
  by (simp add: m_try_def m_bind_def)

lemma load_loop_Inr:
  "load_loop env en requested es d = (Inr (Some s), d') \<Longrightarrow>
     \<exists>e\<in>set es. se_tokens s = take (se_frontier s) requested \<and> se_frontier s \<le> length requested \<and> se_frontier s = ie_frontier e
       \<and> validate_snapshot_source en s = Inr ()"
proof (induction es arbitrary: d)
  case (Cons e es)
  have rest: ?case if "m_bind (remove_invalid env e) (\<lambda>_. load_loop env en requested es) t = (Inr (Some s), d')" for t
    using that Cons.IH by (fastforce simp: m_bind_eq_Inr)
  from Cons.prems obtain opened t where t: "(case opened of
       None \<Rightarrow> m_bind (remove_invalid env e) (\<lambda>_. load_loop env en requested es)
     | Some file \<Rightarrow>
         m_bind (m_try (read_payload env en requested e file)) (\<lambda>r. case r of
           Inr (Some s) \<Rightarrow> m_bind (touch_after_restore env e) (\<lambda>_. m_return (Some s))
         | Inr None \<Rightarrow> m_bind (remove_invalid env e) (\<lambda>_. load_loop env en requested es)
         | Inl (Invalid_Checkpoint _) \<Rightarrow> m_bind (remove_invalid env e) (\<lambda>_. load_loop env en requested es)
         | Inl (Failure msg) \<Rightarrow> m_bind disable_restores (\<lambda>_. m_lift (Inl (Failure msg))))) t = (Inr (Some s), d')"
    unfolding load_loop.simps m_bind_eq_Inr [of "on_failure _ _"] by blast
  show ?case
  proof (cases opened)
    case None
    with t rest show ?thesis by simp
  next
    case (Some contents)
    obtain r u where r: "read_payload env en requested e contents t = (r, u)" by (cases "read_payload env en requested e contents t")
    note t' = t [unfolded Some option.case m_try_bind [where m = "read_payload env en requested e contents" and s = t, OF r]]
    show ?thesis
    proof (cases r)
      case (Inl err)
      with t' rest show ?thesis by (cases err) (auto simp: m_bind_eq_Inr)
    next
      case (Inr found)
      show ?thesis
      proof (cases found)
        case None
        with t' rest Inr show ?thesis by simp
      next
        case (Some s')
        with t' Inr have "s' = s" by (auto simp: m_bind_eq_Inr)
        with r Inr Some have "read_payload env en requested e contents t = (Inr (Some s), u)" by simp
        from read_payload_Inr [OF this] show ?thesis by (intro bexI [of _ e]) auto
      qed
    qed
  qed
qed simp

text \<open>C8: A restore answers the request: the session it returns is committed for this engine, its tokens are a prefix of the request,
  and its frontier is that of an indexed entry of this scope, not marked dead, whose prefix hash is the one of those tokens.\<close>

theorem restored_session_extends_request:
  assumes "load_match env en requested d = (Inr (Some s), d')"
  shows "se_tokens s = take (se_frontier s) requested \<and> se_frontier s \<le> length requested \<and> validate_snapshot_source en s = Inr ()
     \<and> ds_owner d = he_cache_identity en \<and> \<not> ds_restores_disabled d
     \<and> (\<exists>e\<in>set (ix_entries (ds_index d)). entry_key e = (ds_scope d, se_frontier s, prefix_hash (sv_wire env) (se_tokens s)) \<and> ie_slot e \<notin> ds_dead d)"
proof -
  from assms have o: "ds_owner d = he_cache_identity en" "\<not> ds_restores_disabled d"
    and l: "load_loop env en requested (matching (sv_wire env) (ds_scope d) requested (ds_dead d) (ds_index d)) d = (Inr (Some s), d')"
    by (auto simp: load_match_def check_owner_def m_bind_eq_Inr ensure_eq_Inr split: if_splits)
  from load_loop_Inr [OF l] obtain e where "e \<in> set (matching (sv_wire env) (ds_scope d) requested (ds_dead d) (ds_index d))"
    "se_tokens s = take (se_frontier s) requested" "se_frontier s \<le> length requested" "se_frontier s = ie_frontier e"
    "validate_snapshot_source en s = Inr ()" by blast
  with o show ?thesis by (auto simp: matching_def entry_matches_def entry_key_def)
qed

lemma keeps_on_root_flags: "keeps (\<lambda>d. ds_dead d = D \<and> ds_restores_disabled d = R) (on_root m)"
  by (simp add: keeps_def on_root_def split: prod.splits)

lemma keeps_flags_save: "keeps (\<lambda>d. ds_dead d = D \<and> ds_restores_disabled d = R) (save env en s)"
proof -
  let ?K = "\<lambda>d. ds_dead d = D \<and> ds_restores_disabled d = R"
  have w: "keeps ?K disable_writes" unfolding disable_writes_def by (rule keeps_modify) simp
  note rules = keeps_rules keeps_on_root_flags w
  have i: "keeps ?K (install_index env candidate)" for candidate
    unfolding install_index_def
    by (intro rules) (auto intro!: keeps_modify rules split: sum.splits publish_error.splits)
  have c: "keeps ?K (commit_payload env slot expected candidate gone)" for slot expected candidate gone
    unfolding commit_payload_def install_saved_def discard_payload_def remove_victims_def
    by (intro rules) (auto intro!: rules i keeps_for split: sum.splits publish_error.splits)
  show ?thesis
    unfolding save_def save_sized_def save_reserved_def save_admitted_def check_owner_def Let_def
    by (intro rules keeps_modify c) auto
qed

text \<open>The entry with the whole request as its prefix is tried first.\<close>

lemma matching_whole_request:
  assumes valid: "index_validate ix = Inr ()" and e: "e \<in> set (ix_entries ix)" and key: "entry_key e = (scope, length tokens, prefix_hash env tokens)"
    and live: "ie_slot e \<notin> dead"
  shows "\<exists>rest. matching env scope tokens dead ix = e # rest"
proof -
  let ?f = "\<lambda>e. (- int (ie_frontier e), - int (ie_recency e))" and ?m = "matching env scope tokens dead ix"
  have set: "set ?m = {e \<in> set (ix_entries ix). entry_matches env scope tokens e \<and> ie_slot e \<notin> dead}" by (auto simp: matching_def)
  have "e \<in> set ?m" using e key live by (auto simp: set entry_matches_def entry_key_def)
  then obtain h rest where m: "?m = h # rest" by (cases ?m) auto
  have "sorted (map ?f ?m)" by (simp add: matching_def)
  with m \<open>e \<in> set ?m\<close> have "?f h \<le> ?f e" by auto
  then have "ie_frontier e \<le> ie_frontier h" by (auto simp: less_eq_prod_def)
  moreover have h: "h \<in> set (ix_entries ix)" "entry_matches env scope tokens h" using m set by (metis (mono_tags, lifting) list.set_intros(1) mem_Collect_eq)+
  ultimately have "entry_key h = entry_key e" using key by (auto simp: entry_matches_def entry_key_def)
  moreover have "inj_on entry_key (set (ix_entries ix))" using valid by (simp add: index_validate_iff distinct_map)
  ultimately have "h = e" using h(1) e by (auto dest: inj_onD)
  with m show ?thesis by blast
qed

section \<open>A saved session comes back\<close>

lemma save_True_new:
  assumes "save env en s d = (Inr True, d')"
  shows "session_key env d s \<notin> entry_key ` set (ix_entries (ds_index d))" "\<not> ds_writes_disabled d" "ds_owner d = he_cache_identity en"
    "validate_snapshot_source en s = Inr ()"
    "\<exists>expected sections payload. expected_layout en (he_max_context en) (se_frontier s) = Inr (expected, sections, payload)
       \<and> expected \<le> max_file_bytes (sl_checkpoint (ds_limits d))"
proof -
  from assms have o: "ds_owner d = he_cache_identity en" "\<not> ds_writes_disabled d" and v: "validate_snapshot_source en s = Inr ()"
    and sz: "\<exists>layout. expected_layout en (he_max_context en) (se_frontier s) = Inr layout \<and> save_sized env en s (fst layout) (fst (snd layout)) d d = (Inr True, d')"
    by (auto simp: save_def check_owner_def m_bind_eq_Inr failing_Inr ensure_eq_Inr split: if_splits)
  then obtain expected sections payload where l: "expected_layout en (he_max_context en) (se_frontier s) = Inr (expected, sections, payload)"
    and z: "save_sized env en s expected sections d d = (Inr True, d')" by auto
  from z have "\<not> contains_key (ds_scope d) (se_frontier s) (prefix_hash (sv_wire env) (se_tokens s)) (ds_index d)"
    "expected \<le> max_file_bytes (sl_checkpoint (ds_limits d))"
    by (auto simp: save_sized_def Let_def split: if_splits)
  with o v l show "session_key env d s \<notin> entry_key ` set (ix_entries (ds_index d))" "\<not> ds_writes_disabled d" "ds_owner d = he_cache_identity en"
    "validate_snapshot_source en s = Inr ()"
    "\<exists>expected sections payload. expected_layout en (he_max_context en) (se_frontier s) = Inr (expected, sections, payload)
       \<and> expected \<le> max_file_bytes (sl_checkpoint (ds_limits d))"
    by (auto simp: contains_key_iff session_key_def)
qed

lemma touch_Inr: "\<exists>d'. touch_after_restore env e d = (Inr (), d')"
proof -
  have i: "\<exists>d'. m_bind (m_try (install_index env c)) (\<lambda>r. case r of Inr _ \<Rightarrow> m_return () | Inl _ \<Rightarrow> disable_writes) d = (Inr (), d')" for c d
    by (cases "install_index env c d"; cases "fst (install_index env c d)") (auto simp: m_try_bind disable_writes_def)
  have dis: "\<exists>d'. disable_writes d = (Inr (), d')" by (simp add: disable_writes_def)
  have get: "touch_after_restore env e d = (if ds_writes_disabled d then m_return ()
     else case next_time (ds_index d) of
         Inl _ \<Rightarrow> disable_writes
       | Inr (time, candidate) \<Rightarrow>
           (case retime (ie_slot e) time (ix_entries candidate) of
              None \<Rightarrow> m_return ()
            | Some es \<Rightarrow>
                m_bind (m_try (install_index env (candidate \<lparr> ix_entries := es \<rparr>))) (\<lambda>r. case r of
                  Inr _ \<Rightarrow> m_return ()
                | Inl _ \<Rightarrow> disable_writes))) d"
    by (simp only: touch_after_restore_def m_bind_Inr [where m = "m_get Inr" and s = d and x = d and t = d] m_simps)
  show ?thesis
  proof (cases "next_time (ds_index d)")
    case (Inl err)
    then show ?thesis unfolding get by (simp add: dis)
  next
    case (Inr r)
    obtain time candidate where r: "r = (time, candidate)" by (cases r)
    show ?thesis
      unfolding get Inr r sum.case prod.case
      by (cases "retime (ie_slot e) time (ix_entries candidate)"; cases "ds_writes_disabled d") (simp_all only: if_True if_False option.case m_simps i, auto)
  qed
qed

text \<open>The reader's side of a device on which nothing fails.\<close>

definition readable_device :: "store_env \<Rightarrow> host_engine \<Rightarrow> disk_limits \<Rightarrow> bool" where
  "readable_device env en limits \<longleftrightarrow> faultless env \<and> metal_allocates (metal_alloc (sv_wire env)) \<and> (\<forall>n. \<exists>bs. metal_alloc (sv_wire env) n = Inr bs)
     \<and> (\<forall>x. length (sha256 (sv_wire env) x) = 32) \<and> (\<forall>n. \<exists>c. reserve_exact (sv_wire env) n = Inr c)
     \<and> (\<exists>staging. staging_new (sv_wire env) (max_io_buffer_bytes limits) = Inr staging)
     \<and> he_eos en < 2 ^ 32 \<and> he_max_context en \<le> MAX_POSITIONS"

lemma readable_wire_at:
  assumes "readable_device env en limits"
  shows "reads_well (wire_at env n)" "\<forall>x. length (sha256 (wire_at env n) x) = 32" "\<forall>k. \<exists>c. reserve_exact (wire_at env n) k = Inr c"
    "\<exists>staging. staging_new (wire_at env n) (max_io_buffer_bytes limits) = Inr staging"
  using assms by (auto simp: readable_device_def reads_well_def wire_at_def faultless_def staging_new_def)

lemma read_payload_total:
  assumes dev: "readable_device env en (sl_checkpoint (ds_limits d))" and f: "file_of (sv_wire env) en (ds_scope d) s contents"
    and e: "ie_file_bytes e = length contents" "entry_key e = (ds_scope d, se_frontier s, prefix_hash (sv_wire env) (se_tokens s))"
    and scope: "length (ds_scope d) = 32" and kinds: "map layer_kind (se_layers s) = he_layers en"
    and size: "length contents \<le> max_file_bytes (sl_checkpoint (ds_limits d))"
  shows "\<exists>s' d'. read_payload env en (se_tokens s) e contents d = (Inr (Some s'), d') \<and> session_live s' = session_live s
    \<and> validate_snapshot_source en s' = Inr ()"
proof -
  let ?w = "sv_wire env"
  from f obtain expected sections payload where l: "expected_layout en (he_max_context en) (se_frontier s) = Inr (expected, sections, payload)"
    and contents: "contents = header_bytes ?w (ds_scope d) (se_tokens s) en expected sections @ session_sections s
          @ sha256 ?w (header_bytes ?w (ds_scope d) (se_tokens s) en expected sections @ session_sections s)"
    and len: "length (header_bytes ?w (ds_scope d) (se_tokens s) en expected sections @ session_sections s) = expected - TRAILER_BYTES"
    and ok: "session_sources_ok s" "validate_snapshot_source en s = Inr ()" and total: "length contents = expected"
    unfolding file_of_def by blast
  define H where "H = header_bytes ?w (ds_scope d) (se_tokens s) en expected sections"
  note lay = expected_layout_Inr [OF l]
  have com: "validate_committed s = Inr ()" using ok(2) by (auto simp: validate_snapshot_source_def bindr_eq_Inr ensure_eq_Inr)
  note c = committed_layers [OF com]
  have bnd: "length (se_tokens s) < 2 ^ 64" "he_max_context en < 2 ^ 32" "he_eos en < 2 ^ 32" "length (prefix_hash ?w (se_tokens s)) = 32"
    "he_max_context en \<le> MAX_POSITIONS"
    using c(2) lay(2) dev by (auto simp: MAX_POSITIONS_def readable_device_def prefix_hash_def)
  note h = header_fields [OF scope bnd(4,1) lay(5) layout_sections [OF l] bnd(2,3), folded H_def]
  have head: "take HEADER_BYTES contents = H" "HEADER_BYTES \<le> length contents" using h(1) by (simp_all add: contents H_def)
  have fr: "se_frontier s = length (se_tokens s)" "se_frontier s \<le> he_max_context en" using c(2) lay(2) by simp_all
  have match: "header_matches en e H (expected, sections, payload)"
    using h fr e total by (simp add: header_matches_def entry_key_def)
  have ok_calls: "sv_ok env n" for n using dev by (simp add: readable_device_def faultless_def)
  have fc: "file_call env r = (Inr (), r \<lparr> rt_calls := rt_calls r + 1 \<rparr>)" for r
    using ok_calls by (simp add: file_call_def syscall_def)
  have v: "\<exists>r'. validate_selected_header env en e contents r = (Inr (), r')" for r
    using match l e head by (simp add: validate_selected_header_def m_bind_def fc read_leaf_def invalid_unless_def ensure_def entry_key_def)
  obtain staging where st: "staging_new (wire_at env n) (max_io_buffer_bytes (sl_checkpoint (ds_limits d))) = Inr staging" for n
    using dev by (auto simp: readable_device_def staging_new_def wire_at_def)
  have r: "\<exists>s'. read_session (wire_at env n) en (ds_scope d) (se_tokens s) (sl_checkpoint (ds_limits d)) contents = Inr (Some s')
      \<and> session_live s' = session_live s \<and> validate_snapshot_source en s' = Inr ()" for n
    using read_session_total [OF readable_wire_at(1-3) [OF dev] st l scope bnd(3,5) ok(2,1) kinds refl, of n "[]"] len total size
    by (simp add: contents)
  obtain r1 where r1: "validate_selected_header env en e contents (ds_root d) = (Inr (), r1)" using v by blast
  obtain s' where s': "read_session (wire_at env (rt_calls r1)) en (ds_scope d) (se_tokens s) (sl_checkpoint (ds_limits d)) contents = Inr (Some s')"
    "session_live s' = session_live s" "validate_snapshot_source en s' = Inr ()" using r by blast
  then show ?thesis by (simp add: read_payload_def m_bind_def on_root_def r1 transfer_def)
qed

lemma restores_saved:
  assumes codec: "codec_ok base" and run: "store_run base en identity limits d" and dev: "same_device base env" and sv: "save env en s d = (Inr True, d')"
    and restores: "\<not> ds_restores_disabled d" and dev': "same_device base env'" and reads: "readable_device env' en (sl_checkpoint limits)"
    and kinds: "map layer_kind (se_layers s) = he_layers en"
  shows "\<exists>s' d''. load_match env' en (se_tokens s) d' = (Inr (Some s'), d'') \<and> session_live s' = session_live s
    \<and> validate_snapshot_source en s' = Inr ()"
proof -
  from store_run_good [OF codec run] obtain scope where sc: "checkpoint_scope (sv_wire base) en identity = Inr scope"
    and g: "good (sealed (sv_wire base) en scope) base (he_cache_identity en, scope, limits, None) d" by blast
  note f = good_fields [OF g] and dv = same_device_simps [OF dev] and dv' = same_device_simps [OF dev'] and new = save_True_new [OF sv]
  let ?c = "(he_cache_identity en, scope, limits, None)"
  define B :: backing where "B e l \<longleftrightarrow> (entry_key e = session_key base d s \<longrightarrow>
      (\<exists>bs. l = Some (Regular bs) \<and> length bs = ie_file_bytes e \<and> file_of (sv_wire base) en scope s bs))" for e l
  have "entry_key e \<noteq> session_key base d s" if "e \<in> set (ix_entries (ds_index d))" for e
    using new(1) that unfolding dv(7) by (metis imageI)
  then have "good B base ?c d"
    using g by (simp add: good_def intact_def backed_def B_def)
  moreover have "accepts B env en s d"
    using accepts_sealed_file [OF dev f(2)] by (auto simp: accepts_def B_def)
  ultimately have out: "save_done B env ?c d (session_key env d s) True d'"
    using save_outcome [OF _ _ _ f(4) sv, of B ?c] codec by (simp add: dv)
  then have g': "good B base ?c d'" and "saved limits (ds_index d) (session_key base d s) (ds_index d')"
    by (auto simp: save_done_def dv f(3))
  then obtain gone e where "ix_entries (ds_index d') = filter (\<lambda>e. ie_slot e \<notin> set gone) (ix_entries (ds_index d)) @ [e]"
    "entry_key e = session_key base d s" unfolding saved_def admitted_def by blast
  then have e: "e \<in> set (ix_entries (ds_index d'))" "entry_key e = session_key base d s" by auto
  from e obtain bs where bs: "rt_leaves (ds_root d') (Payload (ie_slot e)) = Some (Regular bs)" "length bs = ie_file_bytes e"
    "file_of (sv_wire base) en scope s bs"
    using g' by (auto simp: good_def intact_def backed_def B_def)
  have valid: "index_validate (ds_index d') = Inr ()" using g' by (simp add: good_def sound_def)
  note f' = good_fields [OF g']
  have "ds_dead d = {}" using g new(2) by (simp add: good_def flagged_def)
  then have dead: "ds_dead d' = {}" "\<not> ds_restores_disabled d'"
    using keepsD [OF keeps_flags_save [of "ds_dead d" "ds_restores_disabled d" env en s] _ sv] restores by auto
  have tokens: "se_frontier s = length (se_tokens s)"
    using new(4) by (auto simp: validate_snapshot_source_def bindr_eq_Inr ensure_eq_Inr dest!: committed_layers(2))
  have key: "entry_key e = (scope, length (se_tokens s), prefix_hash (sv_wire env') (se_tokens s))"
    using e(2) f(2) tokens by (simp add: session_key_def dv'(1))
  from matching_whole_request [OF valid e(1) key, of "{}"] obtain rest where
    m: "matching (sv_wire env') scope (se_tokens s) {} (ds_index d') = e # rest" by auto
  have calls: "sv_ok env' n" for n using reads by (simp add: readable_device_def faultless_def)
  define d1 where "d1 = d' \<lparr> ds_root := (ds_root d') \<lparr> rt_calls := rt_calls (ds_root d') + 1 \<rparr> \<rparr>"
  have ex: "on_failure disable_restores (on_root (existing_leaf env' (Payload (ie_slot e)))) d' = (Inr (Some bs), d1)"
    using bs(1) calls by (simp add: on_failure_def m_try_def m_bind_def on_root_def existing_leaf_def syscall_def d1_def)
  have d1: "ds_scope d1 = scope" "ds_limits d1 = limits" using f' by (simp_all add: d1_def)
  have sha: "sha256 (sv_wire env') = sha256 (sv_wire base)" using dev' by (simp add: same_device_def)
  have contents: "file_of (sv_wire env') en (ds_scope d1) s bs" using bs(3) file_of_cong [OF sha] by (simp add: d1)
  have "length scope = 32" using sc reads by (auto simp: checkpoint_scope_def ensure_eq_Inr readable_device_def sha split: prod.splits)
  moreover have "length bs \<le> max_file_bytes (sl_checkpoint limits)" using bs(3) new(5) f(3) by (auto simp: file_of_def)
  ultimately obtain s' d2 where s': "read_payload env' en (se_tokens s) e bs d1 = (Inr (Some s'), d2)" "session_live s' = session_live s"
    "validate_snapshot_source en s' = Inr ()"
    using read_payload_total [of env' en d1 s bs e] reads contents kinds bs(2) key tokens by (auto simp: d1)
  obtain d3 where d3: "touch_after_restore env' e d2 = (Inr (), d3)" using touch_Inr by blast
  have "load_loop env' en (se_tokens s) (e # rest) d' = (Inr (Some s'), d3)"
    by (simp add: m_bind_def [of "on_failure _ _"] ex m_try_bind [where m = "read_payload env' en (se_tokens s) e bs", OF s'(1)] m_bind_def [of "touch_after_restore _ _"] d3)
  then have "load_match env' en (se_tokens s) d' = (Inr (Some s'), d3)"
    using f' dead m by (simp add: load_match_def check_owner_def m_bind_def [of "m_get _"] ensure_def)
  with s' show ?thesis by blast
qed

text \<open>C6: What was saved is restored: after a save that reported success, on a store opened directly whose restores no earlier failure has
  disabled, of a session whose layers are the engine's, a request for exactly the saved tokens, with no failing call, working
  allocators, a 32-byte hash and a context within the maximum number of positions, returns a committed session with the tokens and every
  live byte of the saved one. Calls before the save may have failed in any other way.\<close>

theorem saved_session_is_restored:
  assumes codec: "codec_ok base" and run: "store_run base en identity limits d" and dev: "same_device base env" and sv: "save env en s d = (Inr True, d')"
    and restores: "\<not> ds_restores_disabled d" and dev': "same_device base env'" and reads: "readable_device env' en (sl_checkpoint limits)"
    and kinds: "map layer_kind (se_layers s) = he_layers en"
  shows "\<exists>s' d''. load_match env' en (se_tokens s) d' = (Inr (Some s'), d'') \<and> session_live s' = session_live s
    \<and> validate_snapshot_source en s' = Inr ()"
  by (rule restores_saved [OF assms])

lemma store_run_limits: "store_run base en identity limits d \<Longrightarrow> limits_validate limits = Inr ()"
  by (induction rule: store_run.induct) (auto dest: store_open_Inr)

lemma sealed_has_length: "sealed env en scope e l \<Longrightarrow> has_length e l"
  by (auto simp: sealed_def has_length_def)

text \<open>No checkpoint is lost over a restart: after any history, opening the directory again on a device where nothing fails succeeds and
  gives an owner with the same index, every payload in place.\<close>

theorem reopening_keeps_every_checkpoint:
  assumes codec: "codec_ok base" and run: "store_run base en identity limits d" and dev: "same_device base env" and f: "faultless env"
    and plain: "plain (rt_leaves (ds_root d))" and alloc: "\<forall>n. \<exists>c. reserve_exact (sv_wire env) n = Inr c"
    and small: "sl_max_payload_bytes limits < u64_limit"
  shows "\<exists>d' r'. store_open env en identity limits (ds_root d) = (Inr d', r') \<and> ds_index d' = ds_index d
     \<and> (\<forall>e\<in>set (ix_entries (ds_index d')). sealed (sv_wire base) en (ds_scope d') e (rt_leaves (ds_root d') (Payload (ie_slot e))))"
proof -
  from store_run_good [OF codec run] obtain scope where sc: "checkpoint_scope (sv_wire base) en identity = Inr scope"
    and g: "good (sealed (sv_wire base) en scope) base (he_cache_identity en, scope, limits, None) d" by blast
  note dv = same_device_simps [OF dev]
  let ?B = "sealed (sv_wire base) en scope"
  have valid: "index_validate (ds_index d) = Inr ()" and within: "within_limits limits (ds_index d)"
    using g good_fields [OF g] by (auto simp: good_def sound_def)
  have "intact (both ?B has_length) env (ds_index d) (rt_leaves (ds_root d)) \<and> plain (rt_leaves (ds_root d))"
    using g plain by (auto simp: good_def intact_def backed_def both_def dv(3) intro: sealed_has_length)
  from surelyE [OF surely_reopen [OF f valid alloc within small] this] obtain ix r' where
    o: "open_index env limits (ds_root d) = (Inr ix, r')" "ix = ds_index d" "intact (both ?B has_length) env ix (rt_leaves r')" by metis
  have "store_open env en identity limits (ds_root d) = (Inr (opened_store en scope limits None ix r'), r')"
    using store_run_limits [OF run] sc o(1) by (simp add: store_open_def dv(6) failing_def m_bind_def)
  with o(2,3) show ?thesis by (auto simp: opened_store_def intact_def backed_def both_def)
qed

lemma store_run_digests:
  assumes "codec_ok base" "store_run base en identity limits d" "\<forall>x. length (sha256 (sv_wire base) x) = 32"
  shows "length (ds_scope d) = 32" "digests (ds_index d)"
proof -
  from store_run_good [OF assms(1,2)] obtain scope where sc: "checkpoint_scope (sv_wire base) en identity = Inr scope"
    and g: "good (sealed (sv_wire base) en scope) base (he_cache_identity en, scope, limits, None) d" by blast
  have l: "length scope = 32" using sc assms(3) by (auto simp: checkpoint_scope_def ensure_eq_Inr split: prod.splits)
  with good_fields(2) [OF g] show "length (ds_scope d) = 32" by simp
  show "digests (ds_index d)"
    using g l assms(3) by (fastforce simp: digests_def good_def intact_def backed_def sealed_def entry_key_def prefix_hash_def)
qed

text \<open>C9: On a store opened directly, a committed session of this engine and cache, with valid, unreserved buffers and a prefix that is
  not indexed yet, whose file fits the file limit and the byte budget, is saved, unless an earlier failure disabled writes or the
  recency counter is used up: retention makes room in the index and the budget and always finds a spare slot. No call fails from here on,
  no leaf is foreign, the hash has 32 bytes, the staging buffer can be had, the context is at most the maximum number of
  positions, the byte budget is a 64-bit number and the serializer keeps every valid index of such hashes within 32 KiB.\<close>

theorem admissible_session_is_saved:
  assumes codec: "codec_ok base" and run: "store_run base en identity limits d" and dev: "same_device base env" and writes: "writable_device env limits"
    and plain: "plain (rt_leaves (ds_root d))" and ctx: "he_max_context en \<le> MAX_POSITIONS" and small: "sl_max_payload_bytes limits < u64_limit"
    and ok: "saveable env en s d"
  shows "\<exists>d'. save env en s d = (Inr True, d')"
proof -
  from store_run_good [OF codec run] obtain scope where
    g: "good (sealed (sv_wire base) en scope) base (he_cache_identity en, scope, limits, None) d" by blast
  note dv = same_device_simps [OF dev]
  have c: "codec_ok env" using codec dv(2) by simp
  have lim: "ds_limits d = limits" using good_fields [OF g] by simp
  have "\<forall>x. length (sha256 (sv_wire base) x) = 32" using writes dev by (simp add: writable_device_def same_device_def)
  note h = store_run_digests [OF codec run this]
  have own: "owns d (\<lambda>L. intact has_length env (ds_index d) L \<and> plain L) d"
    using g plain by (auto simp: owns_def good_def intact_def backed_def dv(3) intro: sealed_has_length)
  have sound: "sound (he_cache_identity en, scope, limits, None) d" using g by (simp add: good_def)
  show ?thesis
    by (rule alwaysE [OF always_save [OF _ c sound h ctx _ _ ok, unfolded lim, OF writes store_run_limits [OF run] small] own]) auto
qed

end
