(* ===== verification/Store_Witnesses.thy ===== *)
theory Store_Witnesses
  imports Store_Properties
begin

text \<open>
  A concrete device: the index codec writes its numbers in base 128 with length-prefixed byte strings, and
  no call fails. On it an empty directory opens, a session is saved, reopened and restored.
\<close>

section \<open>A codec for the index\<close>

fun enc_nat :: "nat \<Rightarrow> byte list" where
  "enc_nat n = (if n < 128 then [of_nat n] else of_nat (128 + n mod 128) # enc_nat (n div 128))"

declare enc_nat.simps [simp del]

fun dec_nat :: "byte list \<Rightarrow> (nat \<times> byte list) option" where
  "dec_nat [] = None"
| "dec_nat (b # bs) =
     (if unat b < 128 then Some (unat b, bs)
      else case dec_nat bs of None \<Rightarrow> None | Some (n, rest) \<Rightarrow> Some (unat b - 128 + 128 * n, rest))"

lemma dec_enc_nat: "dec_nat (enc_nat n @ rest) = Some (n, rest)"
proof (induction n rule: enc_nat.induct)
  case (1 n)
  show ?case
  proof (cases "n < 128")
    case True
    then show ?thesis by (subst enc_nat.simps) (simp add: unat_of_nat)
  next
    case False
    have "(128 + n mod 128) mod 256 = 128 + n mod 128" by (rule mod_less) (use mod_less_divisor [of 128 n] in linarith)
    moreover from 1 False have "dec_nat (enc_nat (n div 128) @ rest) = Some (n div 128, rest)" by simp
    moreover have "n mod 128 + 128 * (n div 128) = n" by simp
    ultimately show ?thesis using False by (subst enc_nat.simps) (simp add: unat_of_nat del: of_nat_add)
  qed
qed

lemma length_enc_nat: "n < 128 ^ Suc k \<Longrightarrow> length (enc_nat n) \<le> Suc k"
proof (induction k arbitrary: n)
  case 0
  then show ?case by (subst enc_nat.simps) simp
next
  case (Suc k)
  have "n div 128 < 128 ^ Suc k" using Suc.prems by (simp add: div_less_iff_less_mult mult.commute)
  from Suc.IH [OF this] show ?case by (subst enc_nat.simps) auto
qed

definition enc_bytes :: "byte list \<Rightarrow> byte list" where
  "enc_bytes bs = enc_nat (length bs) @ bs"

definition dec_bytes :: "byte list \<Rightarrow> (byte list \<times> byte list) option" where
  "dec_bytes xs = (case dec_nat xs of None \<Rightarrow> None
     | Some (n, rest) \<Rightarrow> if n \<le> length rest then Some (take n rest, drop n rest) else None)"

lemma dec_enc_bytes: "dec_bytes (enc_bytes bs @ rest) = Some (bs, rest)"
  by (simp add: dec_bytes_def enc_bytes_def dec_enc_nat)

definition enc_entry :: "index_entry \<Rightarrow> byte list" where
  "enc_entry e = enc_nat (ie_slot e) @ enc_bytes (ie_scope e) @ enc_bytes (ie_prefix e) @ enc_nat (ie_frontier e)
     @ enc_nat (ie_file_bytes e) @ enc_nat (ie_recency e)"

definition dec_entry :: "byte list \<Rightarrow> (index_entry \<times> byte list) option" where
  "dec_entry xs =
     Option.bind (dec_nat xs) (\<lambda>(slot, xs). Option.bind (dec_bytes xs) (\<lambda>(scope, xs). Option.bind (dec_bytes xs) (\<lambda>(prefix, xs).
     Option.bind (dec_nat xs) (\<lambda>(frontier, xs). Option.bind (dec_nat xs) (\<lambda>(bytes, xs). Option.bind (dec_nat xs) (\<lambda>(recency, xs).
     Some (\<lparr> ie_slot = slot, ie_scope = scope, ie_prefix = prefix, ie_frontier = frontier, ie_file_bytes = bytes, ie_recency = recency \<rparr>, xs)))))))"

lemma dec_enc_entry: "dec_entry (enc_entry e @ rest) = Some (e, rest)"
  by (simp add: dec_entry_def enc_entry_def dec_enc_nat dec_enc_bytes)

primrec dec_entries :: "nat \<Rightarrow> byte list \<Rightarrow> index_entry list option" where
  "dec_entries 0 xs = Some []"
| "dec_entries (Suc n) xs = (case dec_entry xs of None \<Rightarrow> None | Some (e, xs) \<Rightarrow> map_option ((#) e) (dec_entries n xs))"

lemma dec_enc_entries: "dec_entries (length es) (concat (map enc_entry es)) = Some es"
  by (induction es) (simp_all add: dec_enc_entry)

definition sample_to_json :: "index_file \<Rightarrow> byte list" where
  "sample_to_json ix = enc_nat (ix_version ix) @ enc_nat (ix_next_recency ix) @ enc_nat (length (ix_entries ix)) @ concat (map enc_entry (ix_entries ix))"

definition sample_from_json :: "byte list \<Rightarrow> index_file option" where
  "sample_from_json xs =
     Option.bind (dec_nat xs) (\<lambda>(version, xs). Option.bind (dec_nat xs) (\<lambda>(next_recency, xs). Option.bind (dec_nat xs) (\<lambda>(n, xs).
     map_option (\<lambda>es. \<lparr> ix_version = version, ix_next_recency = next_recency, ix_entries = es \<rparr>) (dec_entries n xs))))"

lemma sample_json: "sample_from_json (sample_to_json ix) = Some ix" "sample_to_json ix \<noteq> []"
proof -
  have "enc_nat n \<noteq> []" for n by (subst enc_nat.simps) simp
  then show "sample_to_json ix \<noteq> []" by (simp add: sample_to_json_def)
  show "sample_from_json (sample_to_json ix) = Some ix"
    by (simp add: sample_from_json_def sample_to_json_def dec_enc_nat dec_enc_entries)
qed

section \<open>A device and a directory\<close>

definition sample_store_env :: store_env where
  "sample_store_env = \<lparr> sv_wire = sample_cenv, sv_ok = (\<lambda>_. True), sv_transfer = (\<lambda>_ _. True), sv_partial = (\<lambda>bs. bs),
     to_json = sample_to_json, from_json = sample_from_json \<rparr>"

definition sample_store_limits :: store_limits where
  "sample_store_limits = \<lparr> sl_mode = Full_Mode, sl_max_entries = 4, sl_max_payload_bytes = 30000000, sl_checkpoint = sample_limits \<rparr>"

lemma sample_env_facts: "codec_ok sample_store_env" "faultless sample_store_env" "same_device sample_store_env sample_store_env"
  "wire_at sample_store_env n = sample_cenv" "sv_wire sample_store_env = sample_cenv" "to_json sample_store_env = sample_to_json"
  by (simp_all add: codec_ok_def sample_store_env_def sample_json faultless_def same_device_def wire_at_def sample_cenv_def)

lemma sample_limits_ok: "limits_validate sample_store_limits = Inr ()"
  by (simp add: limits_validate_def sample_store_limits_def sample_limits_def ensure_def index_consts wire_consts kvarn_consts)

lemma sample_small: "sl_max_payload_bytes sample_store_limits < u64_limit"
  by (simp add: sample_store_limits_def u64_limit_def)

lemma sample_store:
  obtains d scope where "store_run sample_store_env sample_host (he_manifest sample_host, []) sample_store_limits d" "plain (rt_leaves (ds_root d))"
    "d = opened_store sample_host scope sample_store_limits None index_empty (ds_root d)" "length scope = 32"
proof -
  let ?r = "\<lparr> rt_leaves = (\<lambda>_. None), rt_calls = 0 \<rparr>"
  have fits: "length (to_json sample_store_env index_empty) \<le> MAX_INDEX_BYTES"
    by (simp add: sample_env_facts sample_to_json_def index_empty_def index_consts enc_nat.simps)
  from surelyE [OF surely_open_empty [OF sample_env_facts(2,1) fits, where B = has_length], of ?r] obtain r' where
    o: "open_index sample_store_env sample_store_limits ?r = (Inr index_empty, r')" "plain (rt_leaves r')" by (metis store_root.select_convs(1))
  obtain scope where scope: "checkpoint_scope sample_cenv sample_host (he_manifest sample_host, []) = Inr scope" "length scope = 32"
    using sample_cenv_ok(3) by (simp add: checkpoint_scope_def ensure_def)
  let ?d = "opened_store sample_host scope sample_store_limits None index_empty r'"
  have "store_open sample_store_env sample_host (he_manifest sample_host, []) sample_store_limits ?r = (Inr ?d, r')"
    using scope o(1) sample_limits_ok by (simp add: store_open_def sample_env_facts failing_def m_bind_def)
  from run_create [OF _ no_attempt sample_env_facts(3) this] show thesis
    using that [of ?d scope] o(2) scope(2) by (simp add: opened_store_def)
qed

text \<open>Every valid index of 32-byte hashes fits: at most 64 entries of at most 90 bytes.\<close>

lemma length_enc_entry:
  assumes "length (ie_scope e) = 32" "length (ie_prefix e) = 32" "entry_geometry next_recency e" "next_recency < u64_limit"
  shows "length (enc_entry e) \<le> 90"
proof -
  have "length (enc_nat (ie_file_bytes e)) \<le> Suc 4" "length (enc_nat (ie_slot e)) \<le> Suc 0" "length (enc_nat (ie_frontier e)) \<le> Suc 2"
    "length (enc_nat (ie_recency e)) \<le> Suc 9"
    by (rule length_enc_nat; use assms(3,4) in \<open>simp add: entry_geometry_def index_consts u64_limit_def\<close>)+
  then show ?thesis using assms(1,2) by (simp add: enc_entry_def enc_bytes_def enc_nat.simps [of 32])
qed

lemma sample_codec_fits: "codec_fits sample_store_env"
  unfolding codec_fits_def
proof (intro allI impI)
  fix ix assume ix: "index_validate ix = Inr () \<and> ix_next_recency ix < u64_limit \<and> digests ix"
  have "length (enc_entry e) \<le> 90" if "e \<in> set (ix_entries ix)" for e
    using length_enc_entry [of e "ix_next_recency ix"] ix that by (auto simp: digests_def index_validate_iff)
  then have "sum_list (map (length \<circ> enc_entry) (ix_entries ix)) \<le> sum_list (map (\<lambda>_. 90) (ix_entries ix))"
    by (intro sum_list_mono) simp
  moreover have "length (ix_entries ix) \<le> 64" "ix_version ix = 1" using ix by (auto simp: index_validate_iff index_consts)
  moreover have "length (enc_nat (ix_next_recency ix)) \<le> Suc 9" by (rule length_enc_nat) (use ix in \<open>simp add: u64_limit_def\<close>)
  ultimately show "length (to_json sample_store_env ix) \<le> MAX_INDEX_BYTES"
    by (simp add: sample_env_facts sample_to_json_def length_concat sum_list_triv enc_nat.simps [of "Suc 0"] enc_nat.simps [of "length (ix_entries ix)"] MAX_INDEX_BYTES_def comp_def)
qed

lemma sample_writable: "writable_device sample_store_env sample_store_limits"
  using sample_codec_fits sample_cenv_ok(3) sample_staging
  by (simp add: writable_device_def sample_env_facts sample_store_limits_def sample_facts)

lemma sample_saveable:
  assumes "d = opened_store sample_host scope sample_store_limits None index_empty r"
  shows "saveable sample_store_env sample_host sample_session d"
  unfolding saveable_def
  using sample_layout sample_source sample_sources_ok sample_unreserved
  by (simp add: assms opened_store_def sample_facts index_empty_def sample_store_limits_def u64_limit_def)
    (simp add: sample_session_def sample_host_def)

lemma sample_saved:
  obtains d d' where "store_run sample_store_env sample_host (he_manifest sample_host, []) sample_store_limits d" "plain (rt_leaves (ds_root d))"
    "saveable sample_store_env sample_host sample_session d" "\<not> ds_restores_disabled d" "ds_index d = index_empty"
    "save sample_store_env sample_host sample_session d = (Inr True, d')" "saved sample_store_limits (ds_index d) (session_key sample_store_env d sample_session) (ds_index d')"
proof -
  obtain d scope where d: "store_run sample_store_env sample_host (he_manifest sample_host, []) sample_store_limits d" "plain (rt_leaves (ds_root d))"
    "d = opened_store sample_host scope sample_store_limits None index_empty (ds_root d)" "length scope = 32"
    by (rule sample_store)
  note ok = sample_saveable [OF d(3)]
  have fields: "ds_limits d = sample_store_limits" "ds_index d = index_empty" "length (ds_scope d) = 32"
    using d(4) by (subst d(3), simp add: opened_store_def)+
  have ctx: "he_max_context sample_host \<le> MAX_POSITIONS" by (simp add: sample_facts MAX_POSITIONS_def)
  have dig: "digests (ds_index d)" by (simp add: fields digests_def index_empty_def)
  have own: "owns d (\<lambda>L. intact has_length sample_store_env (ds_index d) L \<and> plain L) d"
    using store_run_good [OF sample_env_facts(1) d(1)] d(2)
    by (auto simp: owns_def good_def intact_def backed_def intro: sealed_has_length)
  obtain c where sound: "sound (he_cache_identity sample_host, c, sample_store_limits, None) d"
    using store_run_good [OF sample_env_facts(1) d(1)] by (auto simp: good_def)
  obtain ok' d' where "save sample_store_env sample_host sample_session d = (Inr ok', d')" "ok'"
    by (rule alwaysE [OF always_save [OF _ sample_env_facts(1) sound fields(3) dig ctx _ _ ok, unfolded fields(1), OF sample_writable sample_limits_ok sample_small] own]) blast
  moreover have "\<not> ds_restores_disabled d" "ds_index d = index_empty"
    by (subst d(3), simp add: opened_store_def)+
  moreover obtain sc where g: "good (sealed sample_cenv sample_host sc) sample_store_env (he_cache_identity sample_host, sc, sample_store_limits, None) d"
    using store_run_good [OF sample_env_facts(1) d(1)] by (auto simp: sample_env_facts)
  note f = good_fields [OF g]
  have "saved sample_store_limits (ds_index d) (session_key sample_store_env d sample_session) (ds_index d')"
    using save_outcome [OF sample_env_facts(1) g _ f(4) \<open>save _ _ _ d = _\<close>] accepts_sealed [OF sample_env_facts(3) f(2), of sample_host sample_session] \<open>ok'\<close> f(3)
    by (simp add: save_done_def sample_env_facts)
  ultimately show thesis using that d(1,2) ok by auto
qed

section \<open>The properties on the sample\<close>

lemma sample_restorable: "readable_device sample_store_env sample_host (sl_checkpoint sample_store_limits)"
  using sample_cenv_ok sample_staging
  by (auto simp: readable_device_def sample_env_facts sample_store_limits_def sample_facts reads_well_def MAX_POSITIONS_def)

lemma directory_always_intact_witness:
  "\<exists>d. store_run sample_store_env sample_host (he_manifest sample_host, []) sample_store_limits d \<and> ix_entries (ds_index d) \<noteq> []
     \<and> (\<forall>e\<in>set (ix_entries (ds_index d)). sealed sample_cenv sample_host (ds_scope d) e (rt_leaves (ds_root d) (Payload (ie_slot e))))"
proof -
  obtain d d' where d: "store_run sample_store_env sample_host (he_manifest sample_host, []) sample_store_limits d"
    "save sample_store_env sample_host sample_session d = (Inr True, d')"
    "saved sample_store_limits (ds_index d) (session_key sample_store_env d sample_session) (ds_index d')" by (rule sample_saved)
  note r = run_save [OF d(1) sample_env_facts(3) d(2)]
  have "ix_entries (ds_index d') \<noteq> []" using d(3) by (auto simp: saved_def admitted_def)
  with directory_always_intact [OF sample_env_facts(1) r] r show ?thesis by (auto simp: sample_env_facts)
qed

lemma save_is_atomic_witness:
  "\<exists>d d'. save sample_store_env sample_host sample_session d = (Inr True, d')
     \<and> saved sample_store_limits (ds_index d) (session_key sample_store_env d sample_session) (ds_index d')"
proof -
  obtain d d' where d: "store_run sample_store_env sample_host (he_manifest sample_host, []) sample_store_limits d"
    "save sample_store_env sample_host sample_session d = (Inr True, d')" by (rule sample_saved)
  from save_is_atomic [OF sample_env_facts(1) d(1) sample_env_facts(3) d(2)] d show ?thesis by auto
qed

lemma saved_session_is_restored_witness:
  "\<exists>d s d'. load_match sample_store_env sample_host [7] d = (Inr (Some s), d') \<and> session_live s = session_live sample_session"
proof -
  obtain d d' where d: "store_run sample_store_env sample_host (he_manifest sample_host, []) sample_store_limits d"
    "\<not> ds_restores_disabled d" "save sample_store_env sample_host sample_session d = (Inr True, d')" by (rule sample_saved)
  from saved_session_is_restored [OF sample_env_facts(1) d(1) sample_env_facts(3) d(3,2) sample_env_facts(3) sample_restorable sample_facts(5)]
  show ?thesis unfolding sample_facts by blast
qed

lemma restored_session_extends_request_witness:
  "\<exists>d s d'. load_match sample_store_env sample_host [7] d = (Inr (Some s), d') \<and> se_tokens s = take (se_frontier s) [7]"
proof -
  obtain d d' where d: "store_run sample_store_env sample_host (he_manifest sample_host, []) sample_store_limits d"
    "\<not> ds_restores_disabled d" "save sample_store_env sample_host sample_session d = (Inr True, d')" by (rule sample_saved)
  obtain s d'' where l: "load_match sample_store_env sample_host [7] d' = (Inr (Some s), d'')"
    using restores_saved [OF sample_env_facts(1) d(1) sample_env_facts(3) d(3,2) sample_env_facts(3) sample_restorable sample_facts(5)]
    unfolding sample_facts by blast
  from restored_session_extends_request [OF l] l show ?thesis by blast
qed

lemma reopening_keeps_every_checkpoint_witness:
  "\<exists>(d :: disk_store) d' r. store_open sample_store_env sample_host (he_manifest sample_host, []) sample_store_limits (ds_root d) = (Inr d', r) \<and> ds_index d' = ds_index d"
proof -
  obtain d where d: "store_run sample_store_env sample_host (he_manifest sample_host, []) sample_store_limits d" "plain (rt_leaves (ds_root d))"
    by (rule sample_saved)
  have alloc: "\<forall>n. \<exists>c. reserve_exact (sv_wire sample_store_env) n = Inr c" using sample_cenv_ok(4) by (simp add: sample_env_facts)
  show ?thesis
    using reopening_keeps_every_checkpoint [OF sample_env_facts(1) d(1) sample_env_facts(3,2) d(2) alloc sample_small] by blast
qed

lemma admissible_session_is_saved_witness: "\<exists>d d'. ds_index d = index_empty \<and> save sample_store_env sample_host sample_session d = (Inr True, d')"
proof -
  obtain d where d: "store_run sample_store_env sample_host (he_manifest sample_host, []) sample_store_limits d" "plain (rt_leaves (ds_root d))"
    "saveable sample_store_env sample_host sample_session d" "ds_index d = index_empty" by (rule sample_saved)
  have ctx: "he_max_context sample_host \<le> MAX_POSITIONS" by (simp add: sample_facts MAX_POSITIONS_def)
  from admissible_session_is_saved [OF sample_env_facts(1) d(1) sample_env_facts(3) sample_writable d(2) ctx sample_small d(3)] d(4) show ?thesis by blast
qed

definition sample_index :: index_file where
  "sample_index = \<lparr> ix_version = 1, ix_next_recency = 9, ix_entries = map (\<lambda>(slot, age). \<lparr> ie_slot = slot, ie_scope = [], ie_prefix = [],
     ie_frontier = slot + 1, ie_file_bytes = 1000, ie_recency = age \<rparr>) [(0, 5), (1, 2), (2, 7)] \<rparr>"

lemma eviction_is_oldest_first_witness:
  "victims 3 2500 1000 sample_index = Inr [1, 0] \<and> fits 3 2500 1000 (ix_entries (without [1, 0] sample_index))"
proof -
  have v: "victims 3 2500 1000 sample_index = Inr [1, 0]"
    by (simp add: victims_def sample_index_def index_live_bytes_def by_age_def victims_loop.simps checked_add_def u64_limit_def ok_or_def is_none_or_def)
  have "index_validate sample_index = Inr ()"
    by (simp add: index_validate_iff sample_index_def index_consts entry_geometry_def wire_consts entry_key_def)
  from eviction_is_oldest_first [OF v this] v show ?thesis by blast
qed

end
