(* ===== verification/Stream_Text.thy ===== *)
theory Stream_Text
  imports Rust_Base "HOL-Library.Sublist"
begin

text \<open>
  The operations of \<open>str\<close> the response stream uses. A text is the list of its Unicode scalar values; the markers
  searched for are ASCII, so a byte index that the code computes from a match is the index of the same character.
  Where the code compares lengths in bytes the model sums the UTF-8 lengths.
\<close>

type_synonym chars = "nat list"

definition ascii :: "string \<Rightarrow> chars" where "ascii s = map of_char s"

definition newline :: nat where "newline = 10"

definition utf8_bytes :: "nat \<Rightarrow> nat" where
  "utf8_bytes c = (if c < 0x80 then 1 else if c < 0x800 then 2 else if c < 0x10000 then 3 else 4)"

definition byte_length :: "chars \<Rightarrow> nat" where "byte_length t = sum_list (map utf8_bytes t)"

text \<open>\<open>char::is_whitespace\<close>: the Unicode property \<open>White_Space\<close>.\<close>

definition whitespace :: "nat \<Rightarrow> bool" where
  "whitespace c \<longleftrightarrow> 9 \<le> c \<and> c \<le> 13 \<or> c = 32 \<or> c = 0x85 \<or> c = 0xA0 \<or> c = 0x1680 \<or> 0x2000 \<le> c \<and> c \<le> 0x200A
     \<or> c = 0x2028 \<or> c = 0x2029 \<or> c = 0x202F \<or> c = 0x205F \<or> c = 0x3000"

definition trim_start :: "(nat \<Rightarrow> bool) \<Rightarrow> chars \<Rightarrow> chars" where "trim_start P t = dropWhile P t"

definition trim_end :: "(nat \<Rightarrow> bool) \<Rightarrow> chars \<Rightarrow> chars" where "trim_end P t = rev (dropWhile P (rev t))"

definition trim :: "chars \<Rightarrow> chars" where "trim t = trim_end whitespace (trim_start whitespace t)"

definition strip_prefix_of :: "chars \<Rightarrow> chars \<Rightarrow> chars option" where
  "strip_prefix_of m t = (if prefix m t then Some (drop (length m) t) else None)"

definition strip_suffix_of :: "chars \<Rightarrow> chars \<Rightarrow> chars option" where
  "strip_suffix_of m t = (if suffix m t then Some (take (length t - length m) t) else None)"

text \<open>\<open>str::find\<close>: where the first occurrence starts.\<close>

fun find_text :: "'a list \<Rightarrow> 'a list \<Rightarrow> nat option" where
  "find_text m [] = (if m = [] then Some 0 else None)"
| "find_text m (x # t) = (if prefix m (x # t) then Some 0 else map_option Suc (find_text m t))"

definition contains_text :: "chars \<Rightarrow> chars \<Rightarrow> bool" where "contains_text m t \<longleftrightarrow> find_text m t \<noteq> None"

definition split_once :: "chars \<Rightarrow> chars \<Rightarrow> (chars \<times> chars) option" where
  "split_once m t = map_option (\<lambda>i. (take i t, drop (i + length m) t)) (find_text m t)"

text \<open>\<open>str::match_indices\<close> for a nonempty pattern: the occurrences from the left that do not overlap.\<close>

function match_indices_from :: "nat \<Rightarrow> 'a list \<Rightarrow> 'a list \<Rightarrow> nat list" where
  "match_indices_from k m t =
     (if m = [] \<or> t = [] then []
      else if prefix m t then k # match_indices_from (k + length m) m (drop (length m) t)
      else match_indices_from (k + 1) m (tl t))"
  by pat_completeness auto
termination by (relation "measure (\<lambda>(k, m, t). length t)") auto

declare match_indices_from.simps [simp del]

definition match_indices :: "'a list \<Rightarrow> 'a list \<Rightarrow> nat list" where "match_indices m t = match_indices_from 0 m t"

text \<open>\<open>str::split_inclusive('\n')\<close>: the lines with their terminators.\<close>

function split_lines :: "chars \<Rightarrow> chars list" where
  "split_lines t =
     (if t = [] then []
      else let n = length (takeWhile (\<lambda>c. c \<noteq> newline) t) + 1 in take n t # split_lines (drop n t))"
  by pat_completeness auto
termination by (relation "measure length") auto

declare split_lines.simps [simp del]

text \<open>\<open>usize\<close> in decimal.\<close>

fun decimal :: "nat \<Rightarrow> chars" where
  "decimal n = (if n < 10 then [48 + n] else decimal (n div 10) @ [48 + n mod 10])"

declare decimal.simps [simp del]

definition ascii_digit :: "nat \<Rightarrow> bool" where "ascii_digit c \<longleftrightarrow> 48 \<le> c \<and> c \<le> 57"

definition ascii_alphanumeric :: "nat \<Rightarrow> bool" where
  "ascii_alphanumeric c \<longleftrightarrow> ascii_digit c \<or> 65 \<le> c \<and> c \<le> 90 \<or> 97 \<le> c \<and> c \<le> 122"

definition ascii_lowercase :: "chars \<Rightarrow> chars" where
  "ascii_lowercase t = map (\<lambda>c. if 65 \<le> c \<and> c \<le> 90 then c + 32 else c) t"

section \<open>Lengths and trimming\<close>

lemma byte_length_simps [simp]: "byte_length [] = 0" "byte_length (c # t) = utf8_bytes c + byte_length t"
  "byte_length (s @ t) = byte_length s + byte_length t"
  by (simp_all add: byte_length_def)

lemma utf8_bytes_pos: "0 < utf8_bytes c" by (simp add: utf8_bytes_def)

lemma text_length_le_bytes: "length t \<le> byte_length t"
proof (induction t)
  case (Cons c t)
  then show ?case using utf8_bytes_pos [of c] by simp
qed simp

lemma byte_length_drop: "byte_length (drop n t) \<le> byte_length t"
  by (metis append_take_drop_id byte_length_simps(3) le_add2)

lemma byte_length_take: "byte_length (take n t) \<le> byte_length t"
  by (metis append_take_drop_id byte_length_simps(3) le_add1)

lemma byte_length_ascii: "(\<And>c. c \<in> set t \<Longrightarrow> c < 128) \<Longrightarrow> byte_length t = length t"
  by (induction t) (auto simp: utf8_bytes_def)

lemma trim_end_split: "t = trim_end P t @ drop (length (trim_end P t)) t"
proof -
  have "t = rev (dropWhile P (rev t)) @ rev (takeWhile P (rev t))"
    by (metis rev_append rev_rev_ident takeWhile_dropWhile_id)
  then show ?thesis unfolding trim_end_def by (metis append_eq_conv_conj)
qed

lemma trim_end_rest: "drop (length (trim_end P t)) t = rev (takeWhile P (rev t))"
  unfolding trim_end_def
  by (metis append_eq_conv_conj rev_append rev_rev_ident takeWhile_dropWhile_id)

lemma trim_end_append: "trim_end P (s @ t) = (if list_all P t then trim_end P s else s @ trim_end P t)"
  by (auto simp: trim_end_def dropWhile_append list_all_iff)

lemma trim_end_eq_Nil: "trim_end P t = [] \<longleftrightarrow> list_all P t"
  by (auto simp: trim_end_def list_all_iff)

section \<open>Searching\<close>

lemma find_text_Some_iff: "find_text m t = Some i \<longleftrightarrow> i \<le> length t \<and> prefix m (drop i t) \<and> (\<forall>j<i. \<not> prefix m (drop j t))"
proof (induction t arbitrary: i)
  case (Cons x t)
  show ?case
  proof (cases i)
    case (Suc j)
    have "(\<forall>k<Suc j. \<not> prefix m (drop k (x # t))) \<longleftrightarrow> \<not> prefix m (x # t) \<and> (\<forall>k<j. \<not> prefix m (drop k t))"
      by (auto simp: less_Suc_eq_0_disj)
    with Cons Suc show ?thesis by auto
  qed auto
qed auto

lemma prefix_iff_take: "prefix m t \<longleftrightarrow> take (length m) t = m"
  by (metis append_eq_conv_conj prefix_def take_is_prefix)

lemma find_text_None_iff: "find_text m t = None \<longleftrightarrow> (\<forall>i\<le>length t. \<not> prefix m (drop i t))"
proof (induction t)
  case (Cons x t)
  have "(\<forall>i\<le>length (x # t). \<not> prefix m (drop i (x # t))) \<longleftrightarrow> \<not> prefix m (x # t) \<and> (\<forall>i\<le>length t. \<not> prefix m (drop i t))"
    using All_less_Suc2 [of "Suc (length t)"] by (simp add: less_Suc_eq_le [symmetric])
  with Cons show ?case by simp
qed auto

lemma find_text_fits: "find_text m t = Some i \<Longrightarrow> i + length m \<le> length t"
  by (auto simp: find_text_Some_iff dest!: prefix_length_le)

lemma find_text_split: "find_text m t = Some i \<Longrightarrow> t = take i t @ m @ drop (i + length m) t"
  by (metis add.commute append_take_drop_id append_eq_conv_conj drop_drop find_text_Some_iff prefix_def)

lemma prefix_drop_append: "prefix m (drop i t) \<Longrightarrow> prefix m (drop i (t @ u))"
  by (auto simp: prefix_def)

lemma prefix_within: "prefix m (drop i (t @ u)) \<Longrightarrow> i + length m \<le> length t \<Longrightarrow> prefix m (drop i t)"
  unfolding prefix_iff_take by simp

lemma find_text_append: "find_text m t = Some i \<Longrightarrow> find_text m (t @ u) = Some i"
proof -
  assume found: "find_text m t = Some i"
  then have fits: "i + length m \<le> length t" by (rule find_text_fits)
  have "\<not> prefix m (drop j (t @ u))" if "j < i" for j
    using that found fits prefix_within [of m j t u] by (auto simp: find_text_Some_iff)
  with found show ?thesis by (auto simp: find_text_Some_iff intro: prefix_drop_append)
qed

section \<open>A marker cut by the end of the buffer\<close>

text \<open>\<open>suffix_prefix_len\<close>: the longest proper prefix of the marker that the text ends with.\<close>

definition suffix_prefix_len :: "chars \<Rightarrow> chars \<Rightarrow> nat" where
  "suffix_prefix_len t m =
     (let limit = min (byte_length t) (length m - 1) in
      case List.find (\<lambda>l. suffix (take l m) t) (rev [1..<limit + 1]) of Some l \<Rightarrow> l | None \<Rightarrow> 0)"

lemma suffix_take_le: "suffix (take l m) t \<Longrightarrow> l \<le> length m \<Longrightarrow> l \<le> length t"
  by (auto dest!: suffix_length_le)

lemma find_rev_upto:
  "(case List.find P (rev [1..<n + 1]) of Some l \<Rightarrow> l | None \<Rightarrow> 0) = k
     \<longleftrightarrow> k \<le> n \<and> (k = 0 \<or> P k) \<and> (\<forall>l. k < l \<and> l \<le> n \<longrightarrow> \<not> P l)" for n :: nat
proof (induction n)
  case (Suc n)
  show ?case
  proof (cases "P (Suc n)")
    case False
    with Suc show ?thesis by (auto simp: le_Suc_eq)
  next
    case True
    then have "(\<forall>l. k < l \<and> l \<le> Suc n \<longrightarrow> \<not> P l) \<longrightarrow> \<not> k < Suc n" by auto
    with True show ?thesis by auto
  qed
qed auto

lemma suffix_prefix_len_iff:
  assumes "m \<noteq> []"
  shows "suffix_prefix_len t m = k \<longleftrightarrow> k < length m \<and> suffix (take k m) t \<and> (\<forall>l. k < l \<and> l < length m \<longrightarrow> \<not> suffix (take l m) t)"
proof -
  have len: "0 < length m" using assms by simp
  have bound: "l \<le> byte_length t" if "suffix (take l m) t" "l < length m" for l
    using suffix_take_le [OF that(1)] that(2) text_length_le_bytes [of t] by simp
  have limit: "l \<le> min (byte_length t) (length m - 1) \<longleftrightarrow> l \<le> byte_length t \<and> l < length m" for l using len by (cases m) auto
  have zero: "k = 0 \<or> suffix (take k m) t \<longleftrightarrow> suffix (take k m) t" by auto
  show ?thesis
    unfolding suffix_prefix_len_def Let_def find_rev_upto limit zero using bound by blast
qed

definition held :: "chars \<Rightarrow> chars \<Rightarrow> chars" where
  "held t m = drop (length t - suffix_prefix_len t m) t"

definition released :: "chars \<Rightarrow> chars \<Rightarrow> chars" where
  "released t m = take (length t - suffix_prefix_len t m) t"

lemma released_held: "t = released t m @ held t m" by (simp add: released_def held_def)

lemma suffix_prefix_len_le: "m \<noteq> [] \<Longrightarrow> suffix_prefix_len t m \<le> length t"
  using suffix_prefix_len_iff [of m t "suffix_prefix_len t m"] by (auto dest!: suffix_length_le)

lemma cut_marker_held:
  assumes "m \<noteq> []" "prefix (drop j t) m" "drop j t \<noteq> m" "j \<le> length t"
  shows "length t - j \<le> suffix_prefix_len t m"
proof (rule ccontr)
  assume "\<not> ?thesis"
  moreover from assms(2,3) have "length (drop j t) < length m"
    by (intro prefix_length_less) (simp add: strict_prefix_def)
  moreover have "take (length t - j) m = drop j t" using assms(2) by (auto simp: prefix_def)
  ultimately show False
    using suffix_prefix_len_iff [OF assms(1), of t "suffix_prefix_len t m"] by (metis length_drop not_le suffix_drop)
qed

lemma find_text_shift:
  "(\<And>j. j < n \<Longrightarrow> \<not> prefix m (drop j t)) \<Longrightarrow> n \<le> length t \<Longrightarrow> find_text m t = map_option ((+) n) (find_text m (drop n t))"
proof (induction n arbitrary: t)
  case (Suc n)
  then obtain x u where t: "t = x # u" by (cases t) auto
  have "find_text m u = map_option ((+) n) (find_text m (drop n u))"
    using Suc.prems t by (intro Suc.IH) force+
  moreover have "\<not> prefix m (x # u)" using Suc.prems(1) [of 0] t by simp
  ultimately show ?case using t by (simp add: option.map_comp comp_def)
qed (simp add: map_option_case split: option.split)

lemma no_match_in_released:
  assumes "m \<noteq> []" "find_text m t = None" "j < length (released t m)"
  shows "\<not> prefix m (drop j (t @ u))"
proof
  assume match: "prefix m (drop j (t @ u))"
  have j: "j < length t - suffix_prefix_len t m" using assms(3) by (simp add: released_def)
  with assms(2) have "\<not> prefix m (drop j t)" by (auto simp: find_text_None_iff)
  with match j have "prefix (drop j t) m" by (auto simp: prefix_def append_eq_append_conv2)
  moreover have "drop j t \<noteq> m" using \<open>\<not> prefix m (drop j t)\<close> by auto
  ultimately have "length t - j \<le> suffix_prefix_len t m" using cut_marker_held [OF assms(1), of j t] j by simp
  with j show False by linarith
qed

lemma find_text_continue:
  assumes "m \<noteq> []" "find_text m t = None"
  shows "find_text m (t @ u) = map_option ((+) (length (released t m))) (find_text m (held t m @ u))"
proof -
  have "drop (length (released t m)) (t @ u) = held t m @ u"
    by (metis append.assoc append_eq_conv_conj released_held)
  moreover have "length (released t m) \<le> length (t @ u)" by (simp add: released_def)
  ultimately show ?thesis using find_text_shift [OF no_match_in_released [OF assms]] by metis
qed

lemma suffix_prefix_len_continue:
  assumes m: "m \<noteq> []"
  shows "suffix_prefix_len (t @ u) m = suffix_prefix_len (held t m @ u) m"
proof -
  define n where "n = suffix_prefix_len (t @ u) m"
  note spec = suffix_prefix_len_iff [OF m]
  have n: "n < length m" "suffix (take n m) (t @ u)" "\<And>l. n < l \<Longrightarrow> l < length m \<Longrightarrow> \<not> suffix (take l m) (t @ u)"
    using spec [of "t @ u" n] by (auto simp: n_def)
  have up: "suffix (held t m @ u) (t @ u)" by (simp add: held_def suffix_drop)
  have "suffix (take n m) (held t m @ u)"
  proof (cases "n \<le> length (held t m @ u)")
    case True
    then show ?thesis using suffix_length_suffix [OF n(2) up] n(1) by simp
  next
    case False
    then have "length u < length (take n m)" using n(1) by simp
    then have "\<not> suffix (take n m) u" using suffix_length_le linorder_not_le by blast
    then obtain p where p: "take n m = p @ u" "suffix p t" using n(2) unfolding suffix_append by blast
    have len: "n = length p + length u" using arg_cong [OF p(1), of length] n(1) by simp
    have "take (length p) (take n m) = p" using p(1) by simp
    then have "p = take (length p) m" using len by simp
    then have "\<not> suffix_prefix_len t m < length p"
      using spec [of t "suffix_prefix_len t m"] p(2) len n(1) by auto
    moreover have "length (held t m) = suffix_prefix_len t m" using suffix_prefix_len_le [OF m, of t] by (simp add: held_def)
    ultimately show ?thesis using False len by simp
  qed
  moreover have "\<not> suffix (take l m) (held t m @ u)" if "n < l" "l < length m" for l
    using n(3) [OF that] up suffix_order.trans by blast
  ultimately show ?thesis using spec [of "held t m @ u" n] n(1) by (simp add: n_def)
qed

lemma take_drop_suffix:
  "k \<le> length x \<Longrightarrow> take (length (p @ x) - k) (p @ x) = p @ take (length x - k) x"
  "k \<le> length x \<Longrightarrow> drop (length (p @ x) - k) (p @ x) = drop (length x - k) x"
  by simp_all

lemma released_continue: "m \<noteq> [] \<Longrightarrow> released (t @ u) m = released t m @ released (held t m @ u) m"
  and held_continue: "m \<noteq> [] \<Longrightarrow> held (t @ u) m = held (held t m @ u) m"
  using take_drop_suffix [of "suffix_prefix_len (t @ u) m" "held t m @ u" "released t m"]
    suffix_prefix_len_continue [of m t u] suffix_prefix_len_le [of m "held t m @ u"] released_held [of t m]
  by (simp_all add: released_def [of "t @ u"] held_def [of "t @ u"] released_def [of "held t m @ u"] held_def [of "held t m @ u"]
      flip: append.assoc del: take_append drop_append)

end
