(* ===== verification/Tool_Blocks.thy ===== *)
theory Tool_Blocks
  imports Stream_Text
begin

text \<open>
  Reading a tool call out of the text of a response (\<open>src/server/stream.rs\<close>): the strict structure of a block, the
  arguments typed by the declared schema, and the repairs tried in turn on a malformed block. A JSON value is the
  data type of \<open>serde_json\<close> with objects in insertion order; its parser, its printer and its numbers are parameters.
\<close>

section \<open>JSON values\<close>

datatype 'n json = J_Null | J_Bool bool | J_Number 'n | J_String chars | J_Array "'n json list" | J_Object "(chars \<times> 'n json) list"

record 'n json_env =
  js_parse :: "chars \<Rightarrow> 'n json option"
  js_print :: "'n json \<Rightarrow> chars"
  js_integral :: "'n \<Rightarrow> bool"

definition json_get :: "chars \<Rightarrow> 'n json \<Rightarrow> 'n json option" where
  "json_get key v = (case v of J_Object kvs \<Rightarrow> map_of kvs key | _ \<Rightarrow> None)"

definition as_str :: "'n json \<Rightarrow> chars option" where
  "as_str v = (case v of J_String s \<Rightarrow> Some s | _ \<Rightarrow> None)"

section \<open>Arguments\<close>

definition json_type_matches :: "'n json_env \<Rightarrow> 'n json \<Rightarrow> chars \<Rightarrow> bool" where
  "json_type_matches env v kind =
     (if kind = ascii ''integer'' then (case v of J_Number n \<Rightarrow> js_integral env n | _ \<Rightarrow> False)
      else if kind = ascii ''number'' then (case v of J_Number _ \<Rightarrow> True | _ \<Rightarrow> False)
      else if kind = ascii ''boolean'' then (case v of J_Bool _ \<Rightarrow> True | _ \<Rightarrow> False)
      else if kind = ascii ''array'' then (case v of J_Array _ \<Rightarrow> True | _ \<Rightarrow> False)
      else if kind = ascii ''object'' then (case v of J_Object _ \<Rightarrow> True | _ \<Rightarrow> False)
      else if kind = ascii ''null'' then (case v of J_Null \<Rightarrow> True | _ \<Rightarrow> False)
      else if kind = ascii ''string'' then (case v of J_String _ \<Rightarrow> True | _ \<Rightarrow> False)
      else False)"

definition is_known_json_type :: "chars \<Rightarrow> bool" where
  "is_known_json_type kind \<longleftrightarrow> kind \<in> set (map ascii [''integer'', ''number'', ''boolean'', ''array'', ''object''])"

text \<open>\<open>7.00\<close> as \<open>7\<close>.\<close>

definition integral_decimal :: "chars \<Rightarrow> chars option" where
  "integral_decimal t =
     (case split_once (ascii ''.'') t of
        None \<Rightarrow> None
      | Some (integer, fractional) \<Rightarrow>
          (let digits = (case strip_prefix_of (ascii ''-'') integer of Some d \<Rightarrow> d | None \<Rightarrow> integer) in
           if digits \<noteq> [] \<and> list_all ascii_digit digits \<and> list_all (\<lambda>c. c = 48) fractional then Some integer else None))"

definition unquote :: "nat \<Rightarrow> chars \<Rightarrow> chars" where
  "unquote quote t = (if 2 \<le> length t \<and> hd t = quote \<and> last t = quote then butlast (tl t) else t)"

definition respelled :: "chars \<Rightarrow> chars \<Rightarrow> chars list" where
  "respelled kind candidate =
     (let lower = ascii_lowercase (trim candidate); digits = filter (\<lambda>c. c \<noteq> 44) candidate in
      (if kind = ascii ''boolean'' then
         if lower \<in> set (map ascii [''true'', ''yes'', ''on'']) then [ascii ''true'']
         else if lower \<in> set (map ascii [''false'', ''no'', ''off'']) then [ascii ''false'']
         else []
       else []) @
      (if kind = ascii ''integer'' \<or> kind = ascii ''number'' then
         (if digits \<noteq> candidate then [digits] else []) @
         (if kind = ascii ''integer'' then (case integral_decimal digits of Some integer \<Rightarrow> [integer] | None \<Rightarrow> []) else [])
       else []))"

fun find_map :: "('a \<Rightarrow> 'b option) \<Rightarrow> 'a list \<Rightarrow> 'b option" where
  "find_map f [] = None"
| "find_map f (x # xs) = (case f x of Some y \<Rightarrow> Some y | None \<Rightarrow> find_map f xs)"

definition lenient_value :: "'n json_env \<Rightarrow> chars \<Rightarrow> chars \<Rightarrow> 'n json option" where
  "lenient_value env raw kind =
     (if \<not> is_known_json_type kind then None
      else
        let unquoted = unquote 34 (unquote 39 raw);
            candidates = raw # (if unquoted \<noteq> raw then [unquoted] else []);
            candidates = candidates @ concat (map (respelled kind) candidates) in
        find_map (\<lambda>candidate. case js_parse env candidate of
            Some decoded \<Rightarrow> if json_type_matches env decoded kind then Some decoded else None
          | None \<Rightarrow> None) candidates)"

definition declared_types :: "'n json \<Rightarrow> (chars list \<times> bool) option" where
  "declared_types declaration =
     (case declaration of
        J_String kind \<Rightarrow> Some (if kind = ascii ''null'' then ([], True) else ([kind], False))
      | J_Array types \<Rightarrow> Some (filter (\<lambda>kind. kind \<noteq> ascii ''null'') (List.map_filter as_str types),
                             list_ex (\<lambda>v. as_str v = Some (ascii ''null'')) types)
      | _ \<Rightarrow> None)"

definition decode_typed :: "'n json_env \<Rightarrow> chars \<Rightarrow> chars list \<Rightarrow> bool \<Rightarrow> 'n json option" where
  "decode_typed env raw types accepts_raw =
     (let otherwise = (if accepts_raw then Some (J_String raw) else None) in
      case js_parse env raw of
        Some decoded \<Rightarrow>
          if list_ex (\<lambda>kind. kind \<noteq> ascii ''string'' \<and> json_type_matches env decoded kind) types then Some decoded else otherwise
      | None \<Rightarrow> otherwise)"

definition typed_argument :: "'n json_env \<Rightarrow> chars \<Rightarrow> 'n json option \<Rightarrow> bool \<Rightarrow> 'n json option" where
  "typed_argument env raw declaration lenient =
     (case Option.bind declaration declared_types of
        None \<Rightarrow> Some (J_String raw)
      | Some (types, nullable) \<Rightarrow>
          if nullable \<and> raw = ascii ''null'' then Some J_Null
          else if types = [] then (if nullable then None else Some (J_String raw))
          else
            let accepts_raw = list_ex (\<lambda>kind. kind = ascii ''string'' \<or> \<not> is_known_json_type kind) types in
            case (if lenient \<and> \<not> accepts_raw then find_map (lenient_value env (trim raw)) types else None) of
              Some v \<Rightarrow> Some v
            | None \<Rightarrow> decode_typed env raw types accepts_raw)"

section \<open>The strict structure of a block\<close>

definition TOOL_OPEN :: chars where "TOOL_OPEN = ascii ''<tool_call>''"
definition TOOL_CLOSE :: chars where "TOOL_CLOSE = ascii ''</tool_call>''"
definition FUNCTION_OPEN :: chars where "FUNCTION_OPEN = ascii ''<function=''"
definition FUNCTION_CLOSE :: chars where "FUNCTION_CLOSE = ascii ''</function>''"
definition MAX_TOOL_BLOCK :: nat where "MAX_TOOL_BLOCK = 256 * 1024"

definition PARAMETER_OPEN :: chars where "PARAMETER_OPEN = ascii ''<parameter=''"
definition PARAMETER_CLOSE :: chars where "PARAMETER_CLOSE = ascii ''</parameter>''"

text \<open>The schemas by function name, a later declaration of a name replacing an earlier one.\<close>

type_synonym 'n schemas = "chars \<Rightarrow> 'n json option"

definition tool_schema :: "'n json \<Rightarrow> (chars \<times> 'n json) option" where
  "tool_schema tool =
     Option.bind (json_get (ascii ''function'') tool) (\<lambda>function.
     Option.bind (json_get (ascii ''name'') function) (\<lambda>name.
     Option.bind (as_str name) (\<lambda>name.
     Some (name, case json_get (ascii ''parameters'') function of Some v \<Rightarrow> v | None \<Rightarrow> J_Null))))"

definition tool_schemas :: "'n json list \<Rightarrow> 'n schemas" where
  "tool_schemas tools = map_of (rev (List.map_filter tool_schema tools))"

definition opens_nested_parameter :: "chars \<Rightarrow> bool" where
  "opens_nested_parameter raw = list_ex (\<lambda>i. i = 0 \<or> raw ! (i - 1) = newline) (match_indices PARAMETER_OPEN raw)"

definition strip_newlines :: "chars \<Rightarrow> chars" where
  "strip_newlines raw =
     (let raw = (case strip_prefix_of [newline] raw of Some r \<Rightarrow> r | None \<Rightarrow> raw) in
      case strip_suffix_of [newline] raw of Some r \<Rightarrow> r | None \<Rightarrow> raw)"

text \<open>One parameter: its key, its raw value and the text after its closer.\<close>

definition take_parameter :: "chars \<Rightarrow> (chars \<times> chars \<times> chars) option" where
  "take_parameter rest =
     Option.bind (strip_prefix_of PARAMETER_OPEN rest) (\<lambda>after.
     Option.bind (split_once (ascii ''>'') after) (\<lambda>(key, after).
     if key = [] \<or> newline \<in> set key then None
     else Option.bind (split_once PARAMETER_CLOSE after) (\<lambda>(raw, tail). Some (key, raw, tail))))"

lemma split_once_length: "split_once m t = Some (a, b) \<Longrightarrow> length a + length m + length b = length t"
  by (auto simp: split_once_def dest: find_text_fits)

lemma length_trim_le: "length (trim t) \<le> length t"
  unfolding trim_def trim_end_def trim_start_def by (metis length_dropWhile_le length_rev order.trans)

lemma take_parameter_length: "take_parameter rest = Some (key, raw, tail) \<Longrightarrow> length tail < length rest"
  by (auto simp: take_parameter_def bind_eq_Some_conv strip_prefix_of_def PARAMETER_OPEN_def ascii_def
    dest!: split_once_length split: if_splits)

function parse_parameters ::
    "'n json_env \<Rightarrow> 'n json option \<Rightarrow> bool \<Rightarrow> chars \<Rightarrow> (chars \<times> 'n json) list \<Rightarrow> (chars \<times> 'n json) list option" where
  "parse_parameters env properties lenient rest arguments =
     (if rest = [] then Some arguments
      else case take_parameter rest of
          None \<Rightarrow> None
        | Some (key, raw, tail) \<Rightarrow>
            if key \<in> fst ` set arguments \<or> opens_nested_parameter raw then None
            else
              let declaration = Option.bind (Option.bind properties (json_get key)) (json_get (ascii ''type'')) in
              case typed_argument env (strip_newlines raw) declaration lenient of
                None \<Rightarrow> None
              | Some v \<Rightarrow> parse_parameters env properties lenient (trim tail) (arguments @ [(key, v)]))"
  by pat_completeness auto
termination
proof (relation "measure (\<lambda>(env, properties, lenient, rest, arguments). length rest)", goal_cases)
  case (2 env properties lenient rest arguments x key y raw tail)
  then show ?case using take_parameter_length [of rest key raw tail] length_trim_le [of tail] by simp
qed simp

declare parse_parameters.simps [simp del]

definition inner_block :: "chars \<Rightarrow> bool \<Rightarrow> chars option" where
  "inner_block block naked =
     (if naked then Some block
      else Option.bind (strip_prefix_of TOOL_OPEN block) (\<lambda>t. map_option trim (strip_suffix_of TOOL_CLOSE t)))"

definition parse_tool_block :: "'n json_env \<Rightarrow> chars \<Rightarrow> bool \<Rightarrow> 'n schemas \<Rightarrow> bool \<Rightarrow> (chars \<times> (chars \<times> 'n json) list) option" where
  "parse_tool_block env block naked schemas lenient =
     Option.bind (inner_block block naked) (\<lambda>inner.
     Option.bind (strip_prefix_of FUNCTION_OPEN inner) (\<lambda>after_open.
     Option.bind (split_once (ascii ''>'') after_open) (\<lambda>(name, body).
     if name = [] \<or> newline \<in> set name then None
     else
       Option.bind (strip_suffix_of FUNCTION_CLOSE body) (\<lambda>body.
       if contains_text FUNCTION_OPEN body then None
       else
         let properties = Option.bind (schemas name) (json_get (ascii ''properties'')) in
         map_option (Pair name) (parse_parameters env properties lenient (trim body) [])))))"

section \<open>Repairs\<close>

definition next_named_closer :: "chars \<Rightarrow> (nat \<times> chars \<times> chars) option" where
  "next_named_closer rest =
     (let f = map_option (\<lambda>i. (i, ascii ''function'', FUNCTION_CLOSE)) (find_text (ascii ''</function='') rest);
          p = map_option (\<lambda>i. (i, ascii ''parameter'', PARAMETER_CLOSE)) (find_text (ascii ''</parameter='') rest) in
      case (f, p) of
        (Some a, Some b) \<Rightarrow> Some (if fst b < fst a then b else a)
      | (Some a, None) \<Rightarrow> Some a
      | (None, q) \<Rightarrow> q)"

lemma next_named_closer_fits: "next_named_closer rest = Some (i, kind, canonical) \<Longrightarrow> i + (length kind + 3) \<le> length rest"
  by (auto simp: next_named_closer_def Let_def ascii_def dest!: find_text_fits split: option.splits if_splits)

function normalize_named_closers :: "chars \<Rightarrow> chars" where
  "normalize_named_closers rest =
     (case next_named_closer rest of
        None \<Rightarrow> rest
      | Some (i, kind, canonical) \<Rightarrow>
          (let marker_len = length kind + 3; after = drop (i + marker_len) rest in
           case find_text (ascii ''>'') after of
             Some stop \<Rightarrow>
               if newline \<notin> set (take stop after) then take i rest @ canonical @ normalize_named_closers (drop (stop + 1) after)
               else take (i + marker_len) rest @ normalize_named_closers after
           | None \<Rightarrow> take (i + marker_len) rest @ normalize_named_closers after))"
  by pat_completeness auto
termination
  by (relation "measure length") (auto dest!: next_named_closer_fits)

declare normalize_named_closers.simps [simp del]

definition close_one :: "chars \<Rightarrow> chars \<Rightarrow> chars \<Rightarrow> chars option" where
  "close_one opener closer t =
     (let deficit = length (match_indices opener t) - length (match_indices closer t) in
      Option.bind (checked_mul deficit (length closer + 1)) (\<lambda>appended.
      Option.bind (checked_add (byte_length t) appended) (\<lambda>total_bytes.
      if MAX_TOOL_BLOCK < total_bytes then None else Some (t @ concat (replicate deficit (newline # closer))))))"

definition close_dangling :: "chars \<Rightarrow> chars option" where
  "close_dangling t =
     Option.bind (close_one PARAMETER_OPEN PARAMETER_CLOSE t) (\<lambda>t.
     Option.bind (close_one FUNCTION_OPEN FUNCTION_CLOSE t) (\<lambda>t. close_one TOOL_OPEN TOOL_CLOSE t))"

definition fence_line :: "chars \<Rightarrow> bool" where
  "fence_line line =
     (let body = (case strip_suffix_of [newline] line of Some b \<Rightarrow> b | None \<Rightarrow> line) in
      case strip_prefix_of (ascii ''```'') body of
        None \<Rightarrow> False
      | Some rest \<Rightarrow> list_all (\<lambda>c. ascii_alphanumeric c \<or> c = 95 \<or> c = 45) (trim_end (\<lambda>c. c = 32 \<or> c = 9) rest))"

definition drop_fence_lines :: "chars \<Rightarrow> chars" where
  "drop_fence_lines t = concat (filter (\<lambda>line. \<not> fence_line line) (split_lines t))"

definition or_else :: "'a option \<Rightarrow> 'a option \<Rightarrow> 'a option" where
  "or_else a b = (case a of Some x \<Rightarrow> Some x | None \<Rightarrow> b)"

text \<open>A naked function is wrapped only when it has a complete closer.\<close>

definition wrap_naked :: "chars \<Rightarrow> bool \<Rightarrow> chars option" where
  "wrap_naked candidate naked =
     (if \<not> naked then Some candidate
      else if contains_text FUNCTION_CLOSE candidate then Some (TOOL_OPEN @ newline # candidate @ newline # TOOL_CLOSE)
      else None)"

definition repair_tool_block :: "'n json_env \<Rightarrow> chars \<Rightarrow> bool \<Rightarrow> bool \<Rightarrow> 'n schemas \<Rightarrow> (chars \<times> (chars \<times> 'n json) list) option" where
  "repair_tool_block env block naked terminal schemas =
     (let unfenced = drop_fence_lines block; normal = normalize_named_closers unfenced in
      or_else (parse_tool_block env block naked schemas False)
      (or_else (parse_tool_block env unfenced naked schemas False)
      (or_else (parse_tool_block env normal naked schemas False)
      (Option.bind (wrap_naked normal naked) (\<lambda>candidate.
       Option.bind (if terminal then close_dangling candidate else Some candidate) (\<lambda>candidate.
       or_else (parse_tool_block env candidate False schemas False) (parse_tool_block env candidate False schemas True)))))))"

end
