(* ===== verification/Response_Stream.thy ===== *)
theory Response_Stream
  imports Tool_Blocks
begin

text \<open>
  The incremental shaping of a response (\<open>src/server/stream.rs\<close>): \<open>ReasoningSplitter\<close> separates reasoning from content at
  the think markers, \<open>ToolStream\<close> takes tool calls out of the content, \<open>ResponseShaper\<close> joins them and accumulates the
  response. A method returns its outputs and the state it leaves.
\<close>

definition THINK_OPEN :: chars where "THINK_OPEN = ascii ''<think>''"
definition THINK_CLOSE :: chars where "THINK_CLOSE = ascii ''</think>''"

datatype channel = Reasoning | Content

section \<open>Reasoning and content\<close>

record splitter =
  rs_mode :: channel
  rs_at_start :: bool
  rs_buffer :: chars

type_synonym pieces = "(channel \<times> chars) list"

definition splitter_new :: "bool \<Rightarrow> splitter" where
  "splitter_new thinking = \<lparr> rs_mode = (if thinking then Reasoning else Content), rs_at_start = True, rs_buffer = [] \<rparr>"

definition publish :: "channel \<Rightarrow> chars \<Rightarrow> pieces" where
  "publish mode t = (if t = [] then [] else [(mode, t)])"

text \<open>The text that cannot be the start of a marker any more, and what is kept.\<close>

definition release :: "chars \<Rightarrow> splitter \<Rightarrow> pieces \<times> splitter" where
  "release marker s =
     (let stop = length (rs_buffer s) - suffix_prefix_len (rs_buffer s) marker in
      (publish (rs_mode s) (take stop (rs_buffer s)), s \<lparr> rs_buffer := drop stop (rs_buffer s) \<rparr>))"

function split_loop :: "splitter \<Rightarrow> pieces \<times> splitter" where
  "split_loop s =
     (if rs_buffer s = [] then ([], s)
      else case rs_mode s of
        Reasoning \<Rightarrow>
          if rs_at_start s \<and> prefix (rs_buffer s) THINK_OPEN \<and> length (rs_buffer s) < length THINK_OPEN then ([], s)
          else if rs_at_start s \<and> prefix THINK_OPEN (rs_buffer s)
            then split_loop (s \<lparr> rs_buffer := drop (length THINK_OPEN) (rs_buffer s), rs_at_start := False \<rparr>)
          else
            (case find_text THINK_CLOSE (rs_buffer s) of
               Some i \<Rightarrow>
                 (let (out, s') = split_loop (s \<lparr> rs_mode := Content, rs_at_start := False, rs_buffer := drop (i + length THINK_CLOSE) (rs_buffer s) \<rparr>) in
                  (publish Reasoning (take i (rs_buffer s)) @ out, s'))
             | None \<Rightarrow> release THINK_CLOSE (s \<lparr> rs_at_start := False \<rparr>))
      | Content \<Rightarrow>
          (case find_text THINK_OPEN (rs_buffer s) of
             Some i \<Rightarrow>
               (let (out, s') = split_loop (s \<lparr> rs_mode := Reasoning, rs_at_start := False, rs_buffer := drop (i + length THINK_OPEN) (rs_buffer s) \<rparr>) in
                (publish Content (take i (rs_buffer s)) @ out, s'))
           | None \<Rightarrow> release THINK_OPEN s))"
  by pat_completeness auto
termination
  by (relation "measure (length \<circ> rs_buffer)")
    (auto simp: THINK_OPEN_def THINK_CLOSE_def ascii_def dest: find_text_fits prefix_length_le)

declare split_loop.simps [simp del]

definition split_push :: "chars \<Rightarrow> splitter \<Rightarrow> pieces \<times> splitter" where
  "split_push t s = split_loop (s \<lparr> rs_buffer := rs_buffer s @ t \<rparr>)"

definition split_finish :: "splitter \<Rightarrow> pieces \<times> splitter" where
  "split_finish s = (publish (rs_mode s) (rs_buffer s), s \<lparr> rs_buffer := [] \<rparr>)"

section \<open>Tool calls in the content\<close>

datatype 'n delta = Reasoning_Delta chars | Content_Delta chars | Tool_Delta nat "'n json"

datatype tool_kind = Tagged | Naked

definition open_marker :: "tool_kind \<Rightarrow> chars" where
  "open_marker k = (case k of Tagged \<Rightarrow> TOOL_OPEN | Naked \<Rightarrow> FUNCTION_OPEN)"

definition close_marker :: "tool_kind \<Rightarrow> chars" where
  "close_marker k = (case k of Tagged \<Rightarrow> TOOL_CLOSE | Naked \<Rightarrow> FUNCTION_CLOSE)"

record 'n tool_stream =
  ts_schemas :: "'n schemas"
  ts_id_prefix :: chars
  ts_buffer :: chars
  ts_held_ws :: chars
  ts_line_start :: bool
  ts_active :: "tool_kind option"
  ts_content :: chars
  ts_calls :: "'n json list"

definition tool_stream_new :: "'n json list \<Rightarrow> chars \<Rightarrow> 'n tool_stream" where
  "tool_stream_new tools id_prefix =
     \<lparr> ts_schemas = tool_schemas tools, ts_id_prefix = id_prefix, ts_buffer = [], ts_held_ws = [], ts_line_start = True,
       ts_active = None, ts_content = [], ts_calls = [] \<rparr>"

definition consume :: "nat \<Rightarrow> 'n tool_stream \<Rightarrow> chars \<times> 'n tool_stream" where
  "consume stop s =
     (let consumed = take stop (ts_buffer s) in
      (consumed, s \<lparr> ts_buffer := drop stop (ts_buffer s),
                     ts_line_start := (if consumed \<noteq> [] then last consumed = newline else ts_line_start s) \<rparr>))"

definition emit_content :: "chars \<Rightarrow> 'n tool_stream \<Rightarrow> 'n delta list \<times> 'n tool_stream" where
  "emit_content t s =
     (if t = [] then ([], s)
      else
        let combined = ts_held_ws s @ t; visible = trim_end whitespace combined in
        if visible = [] then ([], s \<lparr> ts_held_ws := combined \<rparr>)
        else ([Content_Delta visible],
              s \<lparr> ts_held_ws := drop (length visible) combined, ts_content := ts_content s @ visible \<rparr>))"

definition at_line_start :: "'n tool_stream \<Rightarrow> nat \<Rightarrow> bool" where
  "at_line_start s i = (if i = 0 then ts_line_start s else ts_buffer s ! (i - 1) = newline)"

definition first_open :: "tool_kind \<Rightarrow> 'n tool_stream \<Rightarrow> nat option" where
  "first_open k s = List.find (at_line_start s) (match_indices (open_marker k) (ts_buffer s))"

definition find_open :: "'n tool_stream \<Rightarrow> (nat \<times> tool_kind) option" where
  "find_open s =
     (case (first_open Tagged s, first_open Naked s) of
        (Some i, Some j) \<Rightarrow> Some (if j < i then (j, Naked) else (i, Tagged))
      | (Some i, None) \<Rightarrow> Some (i, Tagged)
      | (None, j) \<Rightarrow> map_option (\<lambda>j. (j, Naked)) j)"

definition hold_marker :: "tool_kind \<Rightarrow> 'n tool_stream \<Rightarrow> nat" where
  "hold_marker k s =
     (let len = suffix_prefix_len (ts_buffer s) (open_marker k) in
      if 0 < len \<and> at_line_start s (length (ts_buffer s) - len) then len else 0)"

definition hold_len :: "'n tool_stream \<Rightarrow> nat" where
  "hold_len s = max (hold_marker Tagged s) (hold_marker Naked s)"

definition call_entry :: "'n json_env \<Rightarrow> chars \<Rightarrow> nat \<Rightarrow> chars \<Rightarrow> (chars \<times> 'n json) list \<Rightarrow> 'n json" where
  "call_entry env id_prefix i name arguments =
     J_Object [(ascii ''id'', J_String (ascii ''call_'' @ id_prefix @ ascii ''_'' @ decimal i)),
               (ascii ''type'', J_String (ascii ''function'')),
               (ascii ''function'', J_Object [(ascii ''name'', J_String name),
                  (ascii ''arguments'', J_String (js_print env (J_Object arguments)))])]"

definition handle_block :: "'n json_env \<Rightarrow> chars \<Rightarrow> tool_kind \<Rightarrow> bool \<Rightarrow> 'n tool_stream \<Rightarrow> 'n delta list \<times> 'n tool_stream" where
  "handle_block env block k terminal s =
     (case repair_tool_block env block (k = Naked) terminal (ts_schemas s) of
        Some (name, arguments) \<Rightarrow>
          (let i = length (ts_calls s); entry = call_entry env (ts_id_prefix s) i name arguments in
           ([Tool_Delta i entry], s \<lparr> ts_calls := ts_calls s @ [entry] \<rparr>))
      | None \<Rightarrow> emit_content block s)"

text \<open>What \<open>push\<close> does with an open block: a complete one is handled, one past the limit becomes content.\<close>

definition close_block :: "'n json_env \<Rightarrow> tool_kind \<Rightarrow> nat \<Rightarrow> 'n tool_stream \<Rightarrow> 'n delta list \<times> 'n tool_stream" where
  "close_block env k i s =
     (let (block, s) = consume (i + length (close_marker k)) s;
          (out, s) = handle_block env block k False (s \<lparr> ts_active := None \<rparr>) in
      (out, s \<lparr> ts_line_start := True \<rparr>))"

definition overflow_block :: "'n tool_stream \<Rightarrow> 'n delta list \<times> 'n tool_stream" where
  "overflow_block s =
     (if MAX_TOOL_BLOCK < byte_length (ts_buffer s) then
        (let (raw, s) = consume (length (ts_buffer s)) s in emit_content raw (s \<lparr> ts_active := None \<rparr>))
      else ([], s))"

definition open_block :: "tool_kind \<Rightarrow> nat \<Rightarrow> 'n tool_stream \<Rightarrow> 'n delta list \<times> 'n tool_stream" where
  "open_block k i s =
     (let (lead, s) = consume i s; (out, s) = emit_content lead s in (out, s \<lparr> ts_active := Some k \<rparr>))"

definition emit_released :: "'n tool_stream \<Rightarrow> 'n delta list \<times> 'n tool_stream" where
  "emit_released s = (let (lead, s) = consume (length (ts_buffer s) - hold_len s) s in emit_content lead s)"

definition stream_rank :: "'n tool_stream \<Rightarrow> nat" where
  "stream_rank s = 2 * length (ts_buffer s) + (if ts_active s = None then 1 else 0)"

lemma emit_content_frame [simp]:
  "ts_buffer (snd (emit_content t s)) = ts_buffer s" "ts_active (snd (emit_content t s)) = ts_active s"
  "ts_line_start (snd (emit_content t s)) = ts_line_start s" "ts_schemas (snd (emit_content t s)) = ts_schemas s"
  "ts_calls (snd (emit_content t s)) = ts_calls s" "ts_id_prefix (snd (emit_content t s)) = ts_id_prefix s"
  by (simp_all add: emit_content_def Let_def)

lemma handle_block_frame [simp]:
  "ts_buffer (snd (handle_block env b k f s)) = ts_buffer s" "ts_active (snd (handle_block env b k f s)) = ts_active s"
  "ts_schemas (snd (handle_block env b k f s)) = ts_schemas s" "ts_id_prefix (snd (handle_block env b k f s)) = ts_id_prefix s"
  by (simp_all add: handle_block_def Let_def split: option.splits prod.splits)

lemma stream_rank_close: "ts_active s = Some k \<Longrightarrow> find_text (close_marker k) (ts_buffer s) = Some i
    \<Longrightarrow> stream_rank (snd (close_block env k i s)) < stream_rank s"
  using find_text_fits [of "close_marker k" "ts_buffer s" i]
  by (cases k) (auto simp: close_block_def stream_rank_def consume_def Let_def case_prod_beta close_marker_def TOOL_CLOSE_def
    FUNCTION_CLOSE_def ascii_def)

lemma stream_rank_open: "ts_active s = None \<Longrightarrow> stream_rank (snd (open_block k i s)) < stream_rank s"
  by (auto simp: open_block_def stream_rank_def consume_def Let_def case_prod_beta)

function tool_loop :: "'n json_env \<Rightarrow> 'n tool_stream \<Rightarrow> 'n delta list \<times> 'n tool_stream" where
  "tool_loop env s =
     (case ts_active s of
        Some k \<Rightarrow>
          (case find_text (close_marker k) (ts_buffer s) of
             Some i \<Rightarrow>
               (let (out, s) = close_block env k i s; (rest, s) = tool_loop env s in (out @ rest, s))
           | None \<Rightarrow> overflow_block s)
      | None \<Rightarrow>
          (case find_open s of
             Some (i, k) \<Rightarrow>
               (let (out, s) = open_block k i s; (rest, s) = tool_loop env s in (out @ rest, s))
           | None \<Rightarrow> emit_released s))"
  by pat_completeness auto
termination
proof (relation "measure (stream_rank \<circ> snd)", goal_cases)
  case (2 env s p i k q out s')
  then have "s' = snd (open_block k i s)" by (metis snd_conv)
  then show ?case using 2 stream_rank_open [of s k i] by simp
next
  case (3 env s k i q out s')
  then have "s' = snd (close_block env k i s)" by (metis snd_conv)
  then show ?case using 3 stream_rank_close [of s k i env] by simp
qed simp

declare tool_loop.simps [simp del]

definition tool_push :: "'n json_env \<Rightarrow> chars \<Rightarrow> 'n tool_stream \<Rightarrow> 'n delta list \<times> 'n tool_stream" where
  "tool_push env t s = tool_loop env (s \<lparr> ts_buffer := ts_buffer s @ t \<rparr>)"

text \<open>At the end of the stream an open block is still tried, unless the response was cut off.\<close>

definition finish_block :: "'n json_env \<Rightarrow> bool \<Rightarrow> 'n tool_stream \<Rightarrow> 'n delta list \<times> 'n tool_stream" where
  "finish_block env truncated s =
     (case ts_active s of
        Some k \<Rightarrow>
          if truncated then ([], s)
          else (let (raw, s) = consume (length (ts_buffer s)) s in handle_block env raw k True (s \<lparr> ts_active := None \<rparr>))
      | None \<Rightarrow> ([], s))"

definition tool_finish :: "'n json_env \<Rightarrow> bool \<Rightarrow> 'n tool_stream \<Rightarrow> 'n delta list \<times> 'n tool_stream" where
  "tool_finish env truncated s =
     (let (out, s) = finish_block env truncated s;
          (raw, s) = consume (length (ts_buffer s)) s;
          (rest, s) = emit_content raw (s \<lparr> ts_active := None \<rparr>) in
      if ts_calls s = [] \<and> ts_held_ws s \<noteq> [] then
        (out @ rest @ [Content_Delta (ts_held_ws s)], s \<lparr> ts_held_ws := [], ts_content := ts_content s @ ts_held_ws s \<rparr>)
      else (out @ rest, s))"

section \<open>The response\<close>

record 'n shaper =
  sh_splitter :: splitter
  sh_tools :: "'n tool_stream option"
  sh_reasoning :: chars
  sh_content :: chars
  sh_calls :: "'n json list"

definition shaper_new :: "bool \<Rightarrow> 'n json list option \<Rightarrow> chars \<Rightarrow> 'n shaper" where
  "shaper_new thinking tools id_prefix =
     \<lparr> sh_splitter = splitter_new thinking, sh_tools = map_option (\<lambda>ts. tool_stream_new ts id_prefix) tools,
       sh_reasoning = [], sh_content = [], sh_calls = [] \<rparr>"

definition route_piece :: "'n json_env \<Rightarrow> channel \<times> chars \<Rightarrow> 'n shaper \<Rightarrow> 'n delta list \<times> 'n shaper" where
  "route_piece env p s =
     (case p of
        (Reasoning, t) \<Rightarrow> ([Reasoning_Delta t], s \<lparr> sh_reasoning := sh_reasoning s @ t \<rparr>)
      | (Content, t) \<Rightarrow>
          (case sh_tools s of
             Some tools \<Rightarrow> (let (out, tools) = tool_push env t tools in (out, s \<lparr> sh_tools := Some tools \<rparr>))
           | None \<Rightarrow> ([Content_Delta t], s \<lparr> sh_content := sh_content s @ t \<rparr>)))"

fun route :: "'n json_env \<Rightarrow> pieces \<Rightarrow> 'n shaper \<Rightarrow> 'n delta list \<times> 'n shaper" where
  "route env [] s = ([], s)"
| "route env (p # ps) s = (let (out, s) = route_piece env p s; (rest, s) = route env ps s in (out @ rest, s))"

definition shaper_push :: "'n json_env \<Rightarrow> chars \<Rightarrow> 'n shaper \<Rightarrow> 'n delta list \<times> 'n shaper" where
  "shaper_push env t s =
     (let (ps, splitter) = split_push t (sh_splitter s) in route env ps (s \<lparr> sh_splitter := splitter \<rparr>))"

definition shaper_finish :: "'n json_env \<Rightarrow> bool \<Rightarrow> 'n shaper \<Rightarrow> 'n delta list \<times> 'n shaper" where
  "shaper_finish env truncated s =
     (let (ps, splitter) = split_finish (sh_splitter s);
          (out, s) = route env ps (s \<lparr> sh_splitter := splitter \<rparr>) in
      case sh_tools s of
        Some tools \<Rightarrow>
          (let (rest, tools) = tool_finish env truncated tools in
           (out @ rest, s \<lparr> sh_tools := Some tools, sh_content := ts_content tools, sh_calls := ts_calls tools \<rparr>))
      | None \<Rightarrow> (out, s))"

end
