(* ===== verification/Response_Chunks.thy ===== *)
theory Response_Chunks
  imports Response_Stream
begin

text \<open>
  The splitter does not depend on how the decoded text is cut into pieces: pushing two pieces one after the other
  leaves the same state and publishes the same characters on the same channels as pushing them at once.
\<close>

definition flat :: "pieces \<Rightarrow> (channel \<times> nat) list" where
  "flat ps = concat (map (\<lambda>(c, t). map (Pair c) t) ps)"

lemma flat_simps [simp]: "flat [] = []" "flat ((c, t) # ps) = map (Pair c) t @ flat ps" "flat (ps @ qs) = flat ps @ flat qs"
  by (simp_all add: flat_def)

lemma flat_publish [simp]: "flat (publish c t) = map (Pair c) t" by (simp add: publish_def)

definition mode_marker :: "splitter \<Rightarrow> chars" where
  "mode_marker s = (case rs_mode s of Reasoning \<Rightarrow> THINK_CLOSE | Content \<Rightarrow> THINK_OPEN)"

definition other_channel :: "channel \<Rightarrow> channel" where
  "other_channel c = (case c of Reasoning \<Rightarrow> Content | Content \<Rightarrow> Reasoning)"

definition switched :: "nat \<Rightarrow> splitter \<Rightarrow> splitter" where
  "switched i s = s \<lparr> rs_mode := other_channel (rs_mode s), rs_at_start := False, rs_buffer := drop (i + length (mode_marker s)) (rs_buffer s) \<rparr>"

definition running :: "splitter \<Rightarrow> bool" where "running s \<longleftrightarrow> (rs_mode s = Reasoning \<longrightarrow> \<not> rs_at_start s)"

definition more_text :: "chars \<Rightarrow> splitter \<Rightarrow> splitter" where "more_text t s = s \<lparr> rs_buffer := rs_buffer s @ t \<rparr>"

lemma mode_marker_nonempty [simp]: "mode_marker s \<noteq> []"
  by (simp add: mode_marker_def THINK_OPEN_def THINK_CLOSE_def ascii_def split: channel.split)

lemma running_switched [simp]: "running (switched i s)" by (simp add: running_def switched_def)

lemma more_text_simps [simp]:
  "rs_mode (more_text t s) = rs_mode s" "rs_at_start (more_text t s) = rs_at_start s" "rs_buffer (more_text t s) = rs_buffer s @ t"
  "mode_marker (more_text t s) = mode_marker s" "running (more_text t s) = running s"
  by (simp_all add: more_text_def mode_marker_def running_def)

lemma release_eq:
  "release m s = (publish (rs_mode s) (released (rs_buffer s) m), s \<lparr> rs_buffer := held (rs_buffer s) m \<rparr>)"
  by (simp add: release_def released_def held_def Let_def)

lemma split_running:
  assumes "running s"
  shows "split_loop s =
    (case find_text (mode_marker s) (rs_buffer s) of
       Some i \<Rightarrow> (publish (rs_mode s) (take i (rs_buffer s)) @ fst (split_loop (switched i s)), snd (split_loop (switched i s)))
     | None \<Rightarrow> release (mode_marker s) s)"
proof (cases "rs_buffer s = []")
  case True
  then have "release (mode_marker s) s = ([], s)" by (simp add: release_eq released_def held_def publish_def)
  with True show ?thesis by (simp add: split_loop.simps [of s])
next
  case False
  show ?thesis
  proof (cases "rs_mode s")
    case Reasoning
    then have start: "\<not> rs_at_start s" using assms by (simp add: running_def)
    then have same: "s \<lparr> rs_at_start := False \<rparr> = s" by simp
    show ?thesis
      unfolding split_loop.simps [of s] using False Reasoning start
      by (simp add: same mode_marker_def switched_def other_channel_def case_prod_beta split: option.split)
  next
    case Content
    then show ?thesis
      unfolding split_loop.simps [of s] using False
      by (simp add: mode_marker_def switched_def other_channel_def case_prod_beta split: option.split)
  qed
qed

lemma split_resume_running:
  "running s \<Longrightarrow>
     flat (fst (split_loop (more_text t s))) = flat (fst (split_loop s)) @ flat (fst (split_loop (more_text t (snd (split_loop s)))))
   \<and> snd (split_loop (more_text t s)) = snd (split_loop (more_text t (snd (split_loop s))))"
proof (induction "length (rs_buffer s)" arbitrary: s rule: less_induct)
  case less
  let ?m = "mode_marker s" and ?b = "rs_buffer s"
  show ?case
  proof (cases "find_text ?m ?b")
    case (Some i)
    then have fits: "i + length ?m \<le> length ?b" by (rule find_text_fits)
    have "switched i (more_text t s) = more_text t (switched i s)"
      using fits by (simp add: switched_def more_text_def mode_marker_def)
    moreover have "length (rs_buffer (switched i s)) < length ?b"
      using fits mode_marker_nonempty [of s] by (cases ?m) (auto simp: switched_def)
    ultimately show ?thesis
      using less.hyps [of "switched i s"] less.prems Some fits find_text_append [OF Some, of t]
      by (simp add: split_running [of s] split_running [of "more_text t s"])
  next
    case None
    let ?p = "released ?b ?m" and ?s = "s \<lparr> rs_buffer := held ?b ?m \<rparr>"
    have s1: "split_loop s = (publish (rs_mode s) ?p, ?s)"
      using None less.prems by (simp add: split_running release_eq)
    have b: "?b @ t = ?p @ held ?b ?m @ t" using released_held [of ?b ?m] by simp
    have run: "running (more_text t ?s)" "mode_marker (more_text t ?s) = ?m" "rs_mode (more_text t ?s) = rs_mode s"
      using less.prems by (simp_all add: running_def mode_marker_def)
    have find: "find_text ?m (?b @ t) = map_option ((+) (length ?p)) (find_text ?m (held ?b ?m @ t))"
      using None by (intro find_text_continue) auto
    show ?thesis
    proof (cases "find_text ?m (held ?b ?m @ t)")
      case (Some i)
      have "drop (length ?p + i + length ?m) (?b @ t) = drop (i + length ?m) (held ?b ?m @ t)" by (subst b) simp
      then have "switched (length ?p + i) (more_text t s) = switched i (more_text t ?s)"
        using run by (simp add: switched_def del: drop_append)
      moreover have "take (length ?p + i) (?b @ t) = ?p @ take i (held ?b ?m @ t)" by (subst b) simp
      ultimately show ?thesis
        using Some find less.prems run s1 by (simp add: split_running [of "more_text t s"] split_running [of "more_text t ?s"])
    next
      case none: None
      have "released (?b @ t) ?m = ?p @ released (held ?b ?m @ t) ?m" "held (?b @ t) ?m = held (held ?b ?m @ t) ?m"
        by (rule released_continue held_continue, simp)+
      then show ?thesis
        using none find less.prems run s1
        by (simp add: split_running [of "more_text t s"] split_running [of "more_text t ?s"] release_eq)
    qed
  qed
qed

lemma not_prefix_append: "\<not> prefix b m \<Longrightarrow> \<not> prefix m b \<Longrightarrow> \<not> prefix (b @ t) m \<and> \<not> prefix m (b @ t)"
  by (meson append_prefixD prefix_same_cases prefixI)

lemma split_not_running:
  assumes "rs_mode s = Reasoning" "rs_at_start s"
  shows "prefix (rs_buffer s) THINK_OPEN \<Longrightarrow> length (rs_buffer s) < length THINK_OPEN \<Longrightarrow> split_loop s = ([], s)"
    and "prefix THINK_OPEN (rs_buffer s) \<Longrightarrow>
      split_loop s = split_loop (s \<lparr> rs_buffer := drop (length THINK_OPEN) (rs_buffer s), rs_at_start := False \<rparr>)"
    and "\<not> prefix (rs_buffer s) THINK_OPEN \<Longrightarrow> \<not> prefix THINK_OPEN (rs_buffer s) \<Longrightarrow> split_loop s = split_loop (s \<lparr> rs_at_start := False \<rparr>)"
proof -
  show "split_loop s = ([], s)" if "prefix (rs_buffer s) THINK_OPEN" "length (rs_buffer s) < length THINK_OPEN"
    using assms that by (simp add: split_loop.simps [of s])
  show "split_loop s = split_loop (s \<lparr> rs_buffer := drop (length THINK_OPEN) (rs_buffer s), rs_at_start := False \<rparr>)"
    if "prefix THINK_OPEN (rs_buffer s)"
  proof -
    have "rs_buffer s \<noteq> []" using that by (auto simp: THINK_OPEN_def ascii_def)
    with assms that prefix_length_le [OF that] show ?thesis by (simp add: split_loop.simps [of s])
  qed
  show "split_loop s = split_loop (s \<lparr> rs_at_start := False \<rparr>)"
    if "\<not> prefix (rs_buffer s) THINK_OPEN" "\<not> prefix THINK_OPEN (rs_buffer s)"
  proof -
    have "rs_buffer s \<noteq> []" using that by auto
    with assms that have "split_loop s = (case find_text THINK_CLOSE (rs_buffer s) of
        Some i \<Rightarrow> (publish Reasoning (take i (rs_buffer s)) @ fst (split_loop (switched i s)), snd (split_loop (switched i s)))
      | None \<Rightarrow> release THINK_CLOSE (s \<lparr> rs_at_start := False \<rparr>))"
      by (simp add: split_loop.simps [of s] mode_marker_def switched_def other_channel_def case_prod_beta split: option.split)
    moreover have "switched i (s \<lparr> rs_at_start := False \<rparr>) = switched i s" for i by (simp add: switched_def mode_marker_def)
    ultimately show ?thesis using assms split_running [of "s \<lparr> rs_at_start := False \<rparr>"] by (simp add: running_def mode_marker_def split: option.split)
  qed
qed

lemma split_resume:
  "flat (fst (split_loop (more_text t s))) = flat (fst (split_loop s)) @ flat (fst (split_loop (more_text t (snd (split_loop s)))))
   \<and> snd (split_loop (more_text t s)) = snd (split_loop (more_text t (snd (split_loop s))))"
proof (cases "running s")
  case False
  then have start: "rs_mode s = Reasoning" "rs_at_start s" by (auto simp: running_def)
  have start': "rs_mode (more_text t s) = Reasoning" "rs_at_start (more_text t s)" using start by simp_all
  note now = split_not_running [OF start] and later = split_not_running [OF start']
  consider "prefix THINK_OPEN (rs_buffer s)" | "prefix (rs_buffer s) THINK_OPEN" "length (rs_buffer s) < length THINK_OPEN"
    | "\<not> prefix (rs_buffer s) THINK_OPEN" "\<not> prefix THINK_OPEN (rs_buffer s)"
    by (metis linorder_not_le prefix_length_le prefix_length_prefix prefix_order.refl)
  then show ?thesis
  proof cases
    case 1
    let ?s = "s \<lparr> rs_buffer := drop (length THINK_OPEN) (rs_buffer s), rs_at_start := False \<rparr>"
    have "running ?s" by (simp add: running_def)
    moreover have "(more_text t s) \<lparr> rs_buffer := drop (length THINK_OPEN) (rs_buffer (more_text t s)), rs_at_start := False \<rparr> = more_text t ?s"
      using prefix_length_le [OF 1] by (simp add: more_text_def)
    moreover have "prefix THINK_OPEN (rs_buffer (more_text t s))" using 1 by (simp add: prefix_def) (metis append.assoc)
    ultimately show ?thesis using now(2) [OF 1] later(2) split_resume_running [of ?s t] by simp
  next
    case 2
    then show ?thesis using now(1) by simp
  next
    case 3
    let ?s = "s \<lparr> rs_at_start := False \<rparr>"
    have "running ?s" by (simp add: running_def)
    moreover have same: "(more_text t s) \<lparr> rs_at_start := False \<rparr> = more_text t ?s" by (simp add: more_text_def)
    ultimately show ?thesis
      using now(3) [OF 3] later(3) not_prefix_append [OF 3, of t] split_resume_running [of ?s t] by (simp add: same)
  qed
qed (rule split_resume_running)

lemma split_push_append:
  "flat (fst (split_push (t @ u) s)) = flat (fst (split_push t s)) @ flat (fst (split_push u (snd (split_push t s))))"
  "snd (split_push (t @ u) s) = snd (split_push u (snd (split_push t s)))"
  using split_resume [of u "more_text t s"] by (simp_all add: split_push_def more_text_def)

end
