(* ===== verification/Tool_Chunks.thy ===== *)
theory Tool_Chunks
  imports Response_Chunks
begin

text \<open>
  The tool stream does not depend on the cuts either, as long as no block passes the size limit: where an opener
  starts, and how much of the buffer could still become one, are facts about positions of the text.
\<close>

section \<open>Openers\<close>

definition open_rest :: "tool_kind \<Rightarrow> chars" where
  "open_rest k = (case k of Tagged \<Rightarrow> ascii ''tool_call>'' | Naked \<Rightarrow> ascii ''function='')"

lemma open_marker_eq: "open_marker k = 60 # open_rest k" and open_rest_clean: "60 \<notin> set (open_rest k)"
  by (cases k; simp add: open_marker_def open_rest_def TOOL_OPEN_def FUNCTION_OPEN_def ascii_def)+

lemma open_markers_differ: "prefix (open_marker j) t \<Longrightarrow> prefix (open_marker k) t \<Longrightarrow> j = k"
  by (cases j; cases k) (auto simp: open_marker_def TOOL_OPEN_def FUNCTION_OPEN_def ascii_def prefix_def)

lemma match_indices_from_clean:
  "x \<notin> set m \<Longrightarrow> match_indices_from k (x # m) t = map ((+) k) (filter (\<lambda>i. prefix (x # m) (drop i t)) [0..<length t])"
proof (induction "length t" arbitrary: k t rule: less_induct)
  case less
  have shift: "filter (\<lambda>i. prefix (x # m) (drop i t)) [n..<length t] = map ((+) n) (filter (\<lambda>i. prefix (x # m) (drop i (drop n t))) [0..<length t - n])"
    if "n \<le> length t" for n
  proof -
    have "[n..<length t] = map ((+) n) [0..<length t - n]" using that by (auto intro: nth_equalityI)
    then show ?thesis by (simp add: filter_map comp_def add.commute)
  qed
  show ?case
  proof (cases "prefix (x # m) t")
    case True
    let ?n = "length (x # m)"
    have n: "?n \<le> length t" using True by (rule prefix_length_le)
    have clean: "\<not> prefix (x # m) (drop i t)" if "0 < i" "i < ?n" for i
    proof
      assume "prefix (x # m) (drop i t)"
      then have "t ! i = x" using that n by (auto simp: prefix_def) (metis drop_eq_Nil hd_drop_conv_nth linorder_not_le list.sel(1) list.simps(3))
      moreover have "t ! i = m ! (i - 1)" using True that by (auto simp: prefix_def nth_append nth_Cons')
      ultimately show False using less.prems that by auto
    qed
    then have "filter (\<lambda>i. prefix (x # m) (drop i t)) [1..<?n] = []" by (intro filter_False ballI clean) auto
    moreover have "[0..<length t] = [0..<?n] @ [?n..<length t]"
      using upt_add_eq_append [of 0 ?n "length t - ?n"] n by (simp only: le_add_diff_inverse)
    moreover have "[0..<?n] = 0 # [1..<?n]" by (simp add: upt_conv_Cons del: upt_Suc)
    ultimately have "filter (\<lambda>i. prefix (x # m) (drop i t)) [0..<length t] = 0 # filter (\<lambda>i. prefix (x # m) (drop i t)) [?n..<length t]"
      using True by (simp del: upt_Suc length_Cons)
    moreover have "t \<noteq> []" using True by auto
    ultimately show ?thesis
      using True n less.hyps [of "drop ?n t" "k + ?n"] less.prems shift [OF n]
      by (simp add: match_indices_from.simps [of k] comp_def add.assoc)
  next
    case False
    show ?thesis
    proof (cases t)
      case (Cons c u)
      then have "filter (\<lambda>i. prefix (x # m) (drop i t)) [0..<length t] = filter (\<lambda>i. prefix (x # m) (drop i t)) [1..<length t]"
        using False by (simp add: upt_conv_Cons del: upt_Suc)
      moreover have "drop 1 t = u" "length t - 1 = length u" "1 \<le> length t" using Cons by simp_all
      ultimately have pick: "filter (\<lambda>i. prefix (x # m) (drop i t)) [0..<length t] = map ((+) 1) (filter (\<lambda>i. prefix (x # m) (drop i u)) [0..<length u])"
        using shift [of 1] by simp
      have "match_indices_from k (x # m) t = match_indices_from (k + 1) (x # m) u"
        using Cons False by (subst match_indices_from.simps) auto
      also have "\<dots> = map ((+) (k + 1)) (filter (\<lambda>i. prefix (x # m) (drop i u)) [0..<length u])"
        using Cons less.prems by (intro less.hyps) auto
      finally show ?thesis unfolding pick by (simp add: comp_def del: upt_Suc)
    qed (simp add: match_indices_from.simps)
  qed
qed

lemma match_indices_open: "match_indices (open_marker k) t = filter (\<lambda>i. prefix (open_marker k) (drop i t)) [0..<length t]"
  using match_indices_from_clean [OF open_rest_clean, of 0 k t] by (simp add: match_indices_def open_marker_eq map_idI)

definition is_open :: "tool_kind \<Rightarrow> 'n tool_stream \<Rightarrow> nat \<Rightarrow> bool" where
  "is_open k s i \<longleftrightarrow> prefix (open_marker k) (drop i (ts_buffer s)) \<and> at_line_start s i"

lemma find_filter: "List.find P (filter Q xs) = List.find (\<lambda>x. Q x \<and> P x) xs"
  by (induction xs) auto

lemma find_upt_iff:
  "List.find P [0..<n] = Some i \<longleftrightarrow> i < n \<and> P i \<and> (\<forall>j<i. \<not> P j)"
  "List.find P [0..<n] = None \<longleftrightarrow> (\<forall>i<n. \<not> P i)" for n :: nat
  by (auto simp: find_Some_iff find_None_iff)

lemma is_open_bound: "is_open k s i \<Longrightarrow> i < length (ts_buffer s)"
  by (rule ccontr) (simp add: is_open_def open_marker_eq)

lemma first_open_iff:
  "first_open k s = Some i \<longleftrightarrow> is_open k s i \<and> (\<forall>j<i. \<not> is_open k s j)"
  "first_open k s = None \<longleftrightarrow> (\<forall>i. \<not> is_open k s i)"
  using is_open_bound [of k s]
  by (auto simp: first_open_def match_indices_open find_filter find_upt_iff is_open_def)

lemma find_open_iff:
  "find_open s = Some (i, k) \<longleftrightarrow> is_open k s i \<and> (\<forall>j<i. \<forall>l. \<not> is_open l s j)"
  "find_open s = None \<longleftrightarrow> (\<forall>i k. \<not> is_open k s i)"
proof -
  have two: "(\<forall>l. P l) \<longleftrightarrow> P Tagged \<and> P Naked" for P by (metis tool_kind.exhaust)
  have same: "is_open Tagged s i \<Longrightarrow> is_open Naked s i \<Longrightarrow> False" for i
    using open_markers_differ [of Tagged _ Naked] by (auto simp: is_open_def)
  show "find_open s = None \<longleftrightarrow> (\<forall>i k. \<not> is_open k s i)"
    using first_open_iff(2) [of Tagged s] first_open_iff(2) [of Naked s]
    by (auto simp: find_open_def two split: option.splits)
  show "find_open s = Some (i, k) \<longleftrightarrow> is_open k s i \<and> (\<forall>j<i. \<forall>l. \<not> is_open l s j)"
  proof (cases "first_open Tagged s")
    case None
    then have "\<not> is_open Tagged s j" for j by (simp add: first_open_iff)
    moreover have "find_open s = map_option (\<lambda>j. (j, Naked)) (first_open Naked s)" using None by (simp add: find_open_def)
    ultimately show ?thesis using first_open_iff(1) [of Naked s i] by (cases k) (auto simp: two)
  next
    case tagged: (Some a)
    then have a: "is_open Tagged s a" "\<And>j. j < a \<Longrightarrow> \<not> is_open Tagged s j" by (simp_all add: first_open_iff)
    show ?thesis
    proof (cases "first_open Naked s")
      case None
      then have "\<not> is_open Naked s j" for j by (simp add: first_open_iff)
      moreover have "find_open s = Some (a, Tagged)" using tagged None by (simp add: find_open_def)
      ultimately show ?thesis using first_open_iff(1) [of Tagged s i] tagged by (cases k) (auto simp: two)
    next
      case (Some b)
      then have b: "is_open Naked s b" "\<And>j. j < b \<Longrightarrow> \<not> is_open Naked s j" by (simp_all add: first_open_iff)
      have "find_open s = Some (if b < a then (b, Naked) else (a, Tagged))" using tagged Some by (simp add: find_open_def)
      moreover have "a \<noteq> b" using same a(1) b(1) by blast
      moreover have "is_open Tagged s i \<Longrightarrow> a \<le> i" "is_open Naked s i \<Longrightarrow> b \<le> i" using a(2) b(2) linorder_not_le by blast+
      ultimately show ?thesis using a b by (cases k) (auto simp: two dest: le_neq_implies_less not_less_iff_gr_or_eq [THEN iffD1])
    qed
  qed
qed

section \<open>What is held back\<close>

text \<open>A position from which the buffer is a proper prefix of an opener.\<close>

definition cut_open :: "tool_kind \<Rightarrow> 'n tool_stream \<Rightarrow> nat \<Rightarrow> bool" where
  "cut_open k s i \<longleftrightarrow> i < length (ts_buffer s) \<and> strict_prefix (drop i (ts_buffer s)) (open_marker k) \<and> at_line_start s i"

lemma prefix_nth: "prefix xs ys \<Longrightarrow> i < length xs \<Longrightarrow> ys ! i = xs ! i"
  by (auto simp: prefix_def nth_append)

lemma opener_overlap:
  assumes "prefix (drop i b) (open_marker k) \<or> prefix (open_marker k) (drop i b)" "i < j" "j < length b" "j < i + length (open_marker k)"
  shows "b ! j \<noteq> 60"
proof -
  have "drop i b ! (j - i) = open_marker k ! (j - i)"
    using assms prefix_nth [of "drop i b" "open_marker k" "j - i"] prefix_nth [of "open_marker k" "drop i b" "j - i"] by auto
  then have "b ! j = open_marker k ! (j - i)" using assms by simp
  moreover have "open_rest k ! (j - Suc i) \<in> set (open_rest k)" using assms by (intro nth_mem) (simp add: open_marker_eq)
  ultimately show ?thesis using open_rest_clean [of k] assms(2) by (auto simp: open_marker_eq nth_Cons')
qed

lemma opener_head: "i < length b \<Longrightarrow> prefix (drop i b) (open_marker k) \<or> prefix (open_marker k) (drop i b) \<Longrightarrow> b ! i = 60"
  using prefix_nth [of "drop i b" "open_marker k" 0] prefix_nth [of "open_marker k" "drop i b" 0] by (auto simp: open_marker_eq)

lemma opener_positions_agree:
  assumes "i < length b" "prefix (drop i b) (open_marker k)" "j < length b" "prefix (drop j b) (open_marker l)"
  shows "i = j"
proof (rule ccontr)
  have len: "length b - i \<le> length (open_marker k)" "length b - j \<le> length (open_marker l)"
    using assms(2,4) by (auto dest!: prefix_length_le)
  assume "i \<noteq> j"
  then consider "i < j" | "j < i" by linarith
  then show False
  proof cases
    case 1
    then have "j < i + length (open_marker k)" using len(1) assms(3) by linarith
    then show False using 1 opener_overlap [of i b k j] opener_head [of j b l] assms by simp
  next
    case 2
    then have "i < j + length (open_marker l)" using len(2) assms(1) by linarith
    then show False using 2 opener_overlap [of j b l i] opener_head [of i b k] assms by simp
  qed
qed

lemma suffix_prefix_len_cut:
  assumes "0 < suffix_prefix_len b (open_marker k)"
  shows "length b - suffix_prefix_len b (open_marker k) < length b"
    "strict_prefix (drop (length b - suffix_prefix_len b (open_marker k)) b) (open_marker k)"
proof -
  let ?n = "suffix_prefix_len b (open_marker k)"
  have n: "?n < length (open_marker k)" "suffix (take ?n (open_marker k)) b"
    using suffix_prefix_len_iff [of "open_marker k" b ?n] by (auto simp: open_marker_eq)
  then have le: "?n \<le> length b" by (auto dest!: suffix_length_le)
  show "length b - ?n < length b" using assms le by simp
  obtain zs where zs: "b = zs @ take ?n (open_marker k)" using n(2) by (auto simp: suffix_def)
  then have "length b = length zs + ?n" using n(1) by (metis length_append length_take min.absorb4)
  then have "drop (length b - ?n) b = drop (length zs) b" by simp
  then have "drop (length b - ?n) b = take ?n (open_marker k)" using zs by (metis append_eq_conv_conj)
  with n(1) show "strict_prefix (drop (length b - ?n) b) (open_marker k)"
    by (simp add: strict_prefix_def take_is_prefix)
qed

lemma hold_marker_cut: "0 < hold_marker k s \<Longrightarrow> cut_open k s (length (ts_buffer s) - hold_marker k s)"
  using suffix_prefix_len_cut [of "ts_buffer s" k] by (auto simp: hold_marker_def cut_open_def Let_def split: if_splits)

lemma cut_hold_marker:
  assumes "cut_open k s i"
  shows "hold_marker k s = length (ts_buffer s) - i"
proof -
  let ?b = "ts_buffer s" and ?n = "suffix_prefix_len (ts_buffer s) (open_marker k)"
  have cut: "i < length ?b" "strict_prefix (drop i ?b) (open_marker k)" "at_line_start s i" using assms by (auto simp: cut_open_def)
  have "length ?b - i \<le> ?n"
    using cut by (intro cut_marker_held) (auto simp: strict_prefix_def open_marker_eq)
  then have pos: "0 < ?n" using cut(1) by simp
  have "length ?b - ?n = i"
    using opener_positions_agree [of "length ?b - ?n" ?b k i k] suffix_prefix_len_cut [OF pos] cut by (auto simp: strict_prefix_def)
  with cut pos show ?thesis using suffix_prefix_len_le [of "open_marker k" ?b] by (auto simp: hold_marker_def open_marker_eq)
qed

lemma hold_len_cut: "cut_open k s i \<Longrightarrow> hold_len s = length (ts_buffer s) - i"
proof -
  assume cut: "cut_open k s i"
  have "hold_marker l s \<le> length (ts_buffer s) - i" for l
  proof (cases "0 < hold_marker l s")
    case True
    then have "cut_open l s (length (ts_buffer s) - hold_marker l s)" by (rule hold_marker_cut)
    then have "length (ts_buffer s) - hold_marker l s = i"
      using cut opener_positions_agree [of i "ts_buffer s" k "length (ts_buffer s) - hold_marker l s" l]
      by (auto simp: cut_open_def strict_prefix_def)
    moreover have "hold_marker l s \<le> length (ts_buffer s)"
      by (auto simp: hold_marker_def Let_def open_marker_eq intro: suffix_prefix_len_le)
    ultimately show ?thesis by simp
  qed simp
  then show ?thesis
    using cut_hold_marker [OF cut] unfolding hold_len_def by (cases k) (metis le_antisym max.absorb1 max.absorb2)+
qed

lemma no_cut_hold_len: "(\<And>k i. \<not> cut_open k s i) \<Longrightarrow> hold_len s = 0"
  unfolding hold_len_def using hold_marker_cut [of Tagged s] hold_marker_cut [of Naked s] by auto

section \<open>Pushing in two pieces\<close>

datatype 'n event = Reasoning_Char nat | Content_Char nat | Call_Event nat "'n json"

fun delta_events :: "'n delta \<Rightarrow> 'n event list" where
  "delta_events (Reasoning_Delta t) = map Reasoning_Char t"
| "delta_events (Content_Delta t) = map Content_Char t"
| "delta_events (Tool_Delta i entry) = [Call_Event i entry]"

definition events :: "'n delta list \<Rightarrow> 'n event list" where "events ds = concat (map delta_events ds)"

lemma events_simps [simp]: "events [] = []" "events (d # ds) = delta_events d @ events ds" "events (ds @ es) = events ds @ events es"
  by (simp_all add: events_def)

definition placed :: "chars \<Rightarrow> bool \<Rightarrow> 'n tool_stream \<Rightarrow> 'n tool_stream" where
  "placed b l s = s \<lparr> ts_buffer := b, ts_line_start := l \<rparr>"

definition line_after :: "chars \<Rightarrow> bool \<Rightarrow> bool" where "line_after t l = (if t \<noteq> [] then last t = newline else l)"

definition more_tool :: "chars \<Rightarrow> 'n tool_stream \<Rightarrow> 'n tool_stream" where
  "more_tool t s = placed (ts_buffer s @ t) (ts_line_start s) s"

lemma placed_simps [simp]:
  "ts_buffer (placed b l s) = b" "ts_line_start (placed b l s) = l" "ts_active (placed b l s) = ts_active s"
  "placed b l (placed b' l' s) = placed b l s" "ts_schemas (placed b l s) = ts_schemas s" "ts_calls (placed b l s) = ts_calls s"
  "ts_id_prefix (placed b l s) = ts_id_prefix s" "ts_content (placed b l s) = ts_content s" "ts_held_ws (placed b l s) = ts_held_ws s" "(placed b l s) \<lparr> ts_active := a \<rparr> = placed b l (s \<lparr> ts_active := a \<rparr>)"
  "(placed b l s) \<lparr> ts_line_start := l' \<rparr> = placed b l' s" "placed (ts_buffer s) (ts_line_start s) s = s"
  "(placed b l s) \<lparr> ts_calls := c \<rparr> = placed b l (s \<lparr> ts_calls := c \<rparr>)"
  by (simp_all add: placed_def)

lemma line_after_append: "line_after (t @ u) l = line_after u (line_after t l)" by (simp add: line_after_def)

lemma consume_eq: "consume n s = (take n (ts_buffer s), placed (drop n (ts_buffer s)) (line_after (take n (ts_buffer s)) (ts_line_start s)) s)"
  by (simp add: consume_def placed_def line_after_def Let_def)

lemma emit_Nil [simp]: "emit_content [] s = ([], s)" by (simp add: emit_content_def)

lemma emit_placed: "emit_content t (placed b l s) = (fst (emit_content t s), placed b l (snd (emit_content t s)))"
  by (simp add: emit_content_def placed_def Let_def)

lemma handle_placed: "handle_block env t k f (placed b l s) = (fst (handle_block env t k f s), placed b l (snd (handle_block env t k f s)))"
  by (simp add: handle_block_def emit_placed Let_def split: option.split prod.split)

lemma emit_active: "emit_content t (s \<lparr> ts_active := a \<rparr>) = (fst (emit_content t s), (snd (emit_content t s)) \<lparr> ts_active := a \<rparr>)"
  by (simp add: emit_content_def Let_def)

lemma trim_end_continue:
  fixes t u :: chars and P
  defines "v \<equiv> trim_end P t"
  defines "w \<equiv> drop (length v) t @ u"
  shows "trim_end P (t @ u) = v @ trim_end P w" "drop (length (trim_end P (t @ u))) (t @ u) = drop (length (trim_end P w)) w"
proof -
  have t: "t = v @ drop (length v) t" unfolding v_def by (rule trim_end_split)
  have clean: "list_all P (drop (length v) t)"
    unfolding v_def trim_end_rest by (auto simp: list_all_iff dest: set_takeWhileD)
  have w: "t @ u = v @ w" unfolding w_def by (metis t append.assoc)
  show trim: "trim_end P (t @ u) = v @ trim_end P w"
  proof (cases "list_all P u")
    case True
    then have "list_all P w" using clean by (simp add: w_def)
    moreover have "trim_end P (t @ u) = v" using True by (simp add: trim_end_append v_def)
    ultimately show ?thesis using trim_end_eq_Nil [of P w] by simp
  next
    case False
    then have "\<not> list_all P w" by (simp add: w_def)
    then show ?thesis unfolding w by (simp add: trim_end_append)
  qed
  show "drop (length (trim_end P (t @ u))) (t @ u) = drop (length (trim_end P w)) w" unfolding trim unfolding w by simp
qed

lemma emit_append:
  "events (fst (emit_content (t @ u) s)) = events (fst (emit_content t s)) @ events (fst (emit_content u (snd (emit_content t s))))
   \<and> snd (emit_content (t @ u) s) = snd (emit_content u (snd (emit_content t s)))"
proof (cases "t = [] \<or> u = []")
  case True
  then show ?thesis by auto
next
  case False
  let ?v = "trim_end whitespace (ts_held_ws s @ t)"
  have whole: "trim_end whitespace (ts_held_ws s @ t @ u) = ?v @ trim_end whitespace (drop (length ?v) (ts_held_ws s @ t) @ u)"
    "drop (length (trim_end whitespace (ts_held_ws s @ t @ u))) (ts_held_ws s @ t @ u)
       = drop (length (trim_end whitespace (drop (length ?v) (ts_held_ws s @ t) @ u))) (drop (length ?v) (ts_held_ws s @ t) @ u)"
    using trim_end_continue [of whitespace "ts_held_ws s @ t" u] by (simp_all del: drop_append)
  show ?thesis
  proof (cases "?v = []")
    case True
    then show ?thesis using False by (simp add: emit_content_def Let_def)
  next
    case v: False
    show ?thesis
      using False v whole by (cases "trim_end whitespace (drop (length ?v) (ts_held_ws s @ t) @ u) = []")
        (simp_all add: emit_content_def Let_def del: drop_append)
  qed
qed

lemma find_open_more:
  assumes "find_open s = Some (i, k)"
  shows "find_open (more_tool t s) = Some (i, k)"
proof -
  let ?b = "ts_buffer s"
  have i: "is_open k s i" "\<And>j l. j < i \<Longrightarrow> \<not> is_open l s j" using assms by (auto simp: find_open_iff)
  have ib: "i < length ?b" using i(1) by (rule is_open_bound)
  have line: "at_line_start (more_tool t s) j = at_line_start s j" if "j \<le> length ?b" for j
    using that by (auto simp: at_line_start_def more_tool_def nth_append)
  have "is_open k (more_tool t s) i"
    using i(1) ib line [of i] by (auto simp: is_open_def more_tool_def intro: prefix_drop_append)
  moreover have "\<not> is_open l (more_tool t s) j" if j: "j < i" for l j
  proof
    assume op: "is_open l (more_tool t s) j"
    then have pre: "prefix (open_marker l) (drop j (?b @ t))" by (simp add: is_open_def more_tool_def)
    have "(?b @ t) ! i = 60"
      using opener_head [of i ?b k] i(1) ib by (simp add: is_open_def nth_append)
    then have "j + length (open_marker l) \<le> i"
      using opener_overlap [of j "?b @ t" l i] pre ib j by (metis length_append linorder_not_le trans_less_add1)
    then have "prefix (open_marker l) (drop j ?b)" using pre ib prefix_within [of "open_marker l" j ?b t] by simp
    moreover have "at_line_start s j" using op line [of j] j ib by (simp add: is_open_def)
    ultimately show False using i(2) [OF j] by (simp add: is_open_def)
  qed
  ultimately show ?thesis by (simp add: find_open_iff)
qed

text \<open>The stream after it has emitted what cannot become an opener.\<close>

definition rest_of :: "'n tool_stream \<Rightarrow> 'n tool_stream" where
  "rest_of s = (let p = take (length (ts_buffer s) - hold_len s) (ts_buffer s) in
     placed (drop (length p) (ts_buffer s)) (line_after p (ts_line_start s)) s)"

lemma at_line_start_rest:
  assumes "n = length (ts_buffer s) - hold_len s"
  shows "at_line_start (more_tool t (rest_of s)) j = at_line_start (more_tool t s) (n + j)"
proof -
  have n: "n \<le> length (ts_buffer s)" using assms by simp
  then have rest: "rest_of s = placed (drop n (ts_buffer s)) (line_after (take n (ts_buffer s)) (ts_line_start s)) s"
    using assms by (simp add: rest_of_def Let_def)
  show ?thesis
  proof (cases j)
    case 0
    show ?thesis
    proof (cases n)
      case (Suc m)
      then have "last (take n (ts_buffer s)) = ts_buffer s ! m" using n by (subst last_conv_nth) auto
      then show ?thesis using 0 Suc n by (auto simp: rest at_line_start_def more_tool_def line_after_def nth_append)
    qed (simp add: 0 rest at_line_start_def more_tool_def line_after_def)
  next
    case (Suc m)
    have "(drop n (ts_buffer s) @ t) ! m = (ts_buffer s @ t) ! (n + m)" using n by (auto simp: nth_append add.commute)
    then show ?thesis using Suc by (simp add: rest at_line_start_def more_tool_def)
  qed
qed

lemma rest_buffer: "n = length (ts_buffer s) - hold_len s \<Longrightarrow> ts_buffer (more_tool t (rest_of s)) = drop n (ts_buffer s @ t)"
  by (simp add: rest_of_def more_tool_def Let_def)

lemma at_line_start_view: "ts_buffer s = ts_buffer s' \<Longrightarrow> ts_line_start s = ts_line_start s' \<Longrightarrow> at_line_start s = at_line_start s'"
  by (rule ext) (simp add: at_line_start_def)

lemma find_open_view: "ts_buffer s = ts_buffer s' \<Longrightarrow> ts_line_start s = ts_line_start s' \<Longrightarrow> find_open s = find_open s'"
  using at_line_start_view [of s s'] by (simp add: find_open_def first_open_def)

lemma hold_len_view: "ts_buffer s = ts_buffer s' \<Longrightarrow> ts_line_start s = ts_line_start s' \<Longrightarrow> hold_len s = hold_len s'"
  using at_line_start_view [of s s'] by (simp add: hold_len_def hold_marker_def)

lemma no_open_before:
  assumes "find_open s = None" "n = length (ts_buffer s) - hold_len s" "j < n"
  shows "\<not> is_open k (more_tool t s) j" "\<not> cut_open k (more_tool t s) j"
proof -
  let ?b = "ts_buffer s"
  have j: "j < length ?b" using assms(2,3) by simp
  have line: "at_line_start (more_tool t s) j = at_line_start s j"
    using j by (auto simp: at_line_start_def more_tool_def nth_append)
  have no_cut: "\<not> cut_open k s j" using hold_len_cut [of k s j] assms(2,3) j by auto
  have no_open: "\<not> is_open k s j" using assms(1) by (simp add: find_open_iff)
  have split: "prefix (drop j ?b) (open_marker k) \<or> prefix (open_marker k) (drop j ?b)"
    if "prefix (drop j (?b @ t)) (open_marker k) \<or> prefix (open_marker k) (drop j (?b @ t))"
  proof -
    have "drop j (?b @ t) = drop j ?b @ t" using j by simp
    then have "prefix (drop j ?b) (drop j (?b @ t))" by simp
    with that show ?thesis using prefix_same_cases prefix_order.trans by blast
  qed
  show "\<not> is_open k (more_tool t s) j"
  proof
    assume op: "is_open k (more_tool t s) j"
    then consider "prefix (open_marker k) (drop j ?b)" | "strict_prefix (drop j ?b) (open_marker k)"
      using split by (cases "drop j ?b = open_marker k") (auto simp: is_open_def more_tool_def strict_prefix_def)
    then show False using op line no_open no_cut j by cases (auto simp: is_open_def cut_open_def)
  qed
  show "\<not> cut_open k (more_tool t s) j"
  proof
    assume op: "cut_open k (more_tool t s) j"
    then have "strict_prefix (drop j ?b @ t) (open_marker k)" using j by (simp add: cut_open_def more_tool_def)
    then have "prefix (drop j ?b) (open_marker k)" "drop j ?b \<noteq> open_marker k"
      by (auto simp: strict_prefix_def dest: append_prefixD)
    then have "strict_prefix (drop j ?b) (open_marker k)" by (simp add: strict_prefix_def)
    with op line no_cut j show False by (simp add: cut_open_def)
  qed
qed

lemma is_open_rest: "n = length (ts_buffer s) - hold_len s \<Longrightarrow> is_open k (more_tool t (rest_of s)) j = is_open k (more_tool t s) (n + j)"
  using at_line_start_rest [of n s t j] rest_buffer [of n s t] by (simp add: is_open_def more_tool_def add.commute del: drop_append)

lemma cut_open_rest: "n = length (ts_buffer s) - hold_len s \<Longrightarrow> cut_open k (more_tool t (rest_of s)) j = cut_open k (more_tool t s) (n + j)"
  using at_line_start_rest [of n s t j] rest_buffer [of n s t] by (auto simp: cut_open_def more_tool_def add.commute less_diff_conv simp del: drop_append)

lemma find_open_rest:
  assumes "find_open s = None" "n = length (ts_buffer s) - hold_len s"
  shows "find_open (more_tool t s) = map_option (\<lambda>(i, k). (n + i, k)) (find_open (more_tool t (rest_of s)))"
proof -
  note before = no_open_before(1) [OF assms] and shift = is_open_rest [OF assms(2)]
  show ?thesis
  proof (cases "find_open (more_tool t (rest_of s))")
    case None
    then have "\<not> is_open k (more_tool t s) i" for i k
      using before [of i k t] shift [of k t "i - n"] by (cases "i < n") (auto simp: find_open_iff)
    then show ?thesis using None by (simp add: find_open_iff(2) [THEN iffD2])
  next
    case (Some p)
    then obtain i k where p: "p = (i, k)" and open_i: "is_open k (more_tool t s) (n + i)"
        and first: "\<And>j l. j < i \<Longrightarrow> \<not> is_open l (more_tool t s) (n + j)"
      using shift by (cases p) (auto simp: find_open_iff)
    have "\<not> is_open l (more_tool t s) j" if "j < n + i" for j l
      using that before [of j l t] first [of "j - n" l] by (cases "j < n") auto
    then show ?thesis using Some p open_i by (simp add: find_open_iff(1) [THEN iffD2])
  qed
qed

lemma hold_len_rest:
  assumes "find_open s = None" "n = length (ts_buffer s) - hold_len s"
  shows "hold_len (more_tool t s) = hold_len (more_tool t (rest_of s))" "n + hold_len (more_tool t s) \<le> length (ts_buffer (more_tool t s))"
proof -
  note shift = cut_open_rest [OF assms(2)] and before = no_open_before(2) [OF assms]
  have len: "length (ts_buffer (more_tool t (rest_of s))) = length (ts_buffer s @ t) - n"
    using rest_buffer [OF assms(2), of t] by simp
  have "hold_len (more_tool t s) = hold_len (more_tool t (rest_of s)) \<and> n + hold_len (more_tool t s) \<le> length (ts_buffer (more_tool t s))"
  proof (cases "\<exists>k i. cut_open k (more_tool t s) i")
    case True
    then obtain k i where cut: "cut_open k (more_tool t s) i" by blast
    then have "n \<le> i" using before linorder_not_le by blast
    then have "cut_open k (more_tool t (rest_of s)) (i - n)" using cut shift by simp
    then show ?thesis using hold_len_cut [OF cut] hold_len_cut [of k "more_tool t (rest_of s)" "i - n"] len \<open>n \<le> i\<close> cut
      by (auto simp: cut_open_def more_tool_def)
  next
    case False
    then have "hold_len (more_tool t s) = 0" "hold_len (more_tool t (rest_of s)) = 0"
      using shift by (auto intro!: no_cut_hold_len)
    then show ?thesis using assms(2) by (simp add: more_tool_def)
  qed
  then show "hold_len (more_tool t s) = hold_len (more_tool t (rest_of s))" "n + hold_len (more_tool t s) \<le> length (ts_buffer (more_tool t s))"
    by simp_all
qed

lemma emit_released_eq: "emit_released s =
    (let n = length (ts_buffer s) - hold_len s; p = take n (ts_buffer s) in
     (fst (emit_content p s), placed (drop n (ts_buffer s)) (line_after p (ts_line_start s)) (snd (emit_content p s))))"
  by (simp add: emit_released_def consume_eq emit_placed Let_def)

lemma open_block_eq: "open_block k i s =
    (let p = take i (ts_buffer s) in
     (fst (emit_content p s), placed (drop i (ts_buffer s)) (line_after p (ts_line_start s)) ((snd (emit_content p s)) \<lparr> ts_active := Some k \<rparr>)))"
  by (simp add: open_block_def consume_eq emit_placed Let_def)

lemma close_block_eq: "close_block env k i s =
    (let b = take (i + length (close_marker k)) (ts_buffer s); r = handle_block env b k False (s \<lparr> ts_active := None \<rparr>) in
     (fst r, placed (drop (i + length (close_marker k)) (ts_buffer s)) True (snd r)))"
  by (simp add: close_block_def consume_eq handle_placed case_prod_beta Let_def)

lemma overflow_block_eq: "overflow_block s =
    (if MAX_TOOL_BLOCK < byte_length (ts_buffer s) then
       (fst (emit_content (ts_buffer s) s), placed [] (line_after (ts_buffer s) (ts_line_start s)) ((snd (emit_content (ts_buffer s) s)) \<lparr> ts_active := None \<rparr>))
     else ([], s))"
  by (simp add: overflow_block_def consume_eq emit_placed emit_active Let_def)

lemma close_block_more:
  assumes "find_text (close_marker k) (ts_buffer s) = Some i"
  shows "close_block env k i (more_tool t s) = (fst (close_block env k i s), more_tool t (snd (close_block env k i s)))"
  using find_text_fits [OF assms]
  by (simp add: close_block_def consume_eq handle_placed more_tool_def case_prod_beta Let_def)

lemma open_block_more:
  assumes "i \<le> length (ts_buffer s)"
  shows "open_block k i (more_tool t s) = (fst (open_block k i s), more_tool t (snd (open_block k i s)))"
  using assms by (simp add: open_block_eq more_tool_def emit_placed Let_def)

lemma close_block_buffer: "ts_buffer (snd (close_block env k i s)) = drop (i + length (close_marker k)) (ts_buffer s)"
  by (simp add: close_block_def consume_eq case_prod_beta Let_def)

lemma open_block_buffer: "ts_buffer (snd (open_block k i s)) = drop i (ts_buffer s)"
  by (simp add: open_block_eq Let_def)

lemma tool_loop_close: "ts_active s = Some k \<Longrightarrow> find_text (close_marker k) (ts_buffer s) = Some i \<Longrightarrow> tool_loop env s =
    (fst (close_block env k i s) @ fst (tool_loop env (snd (close_block env k i s))), snd (tool_loop env (snd (close_block env k i s))))"
  by (subst tool_loop.simps) (simp add: case_prod_beta)

lemma tool_loop_open: "ts_active s = None \<Longrightarrow> find_open s = Some (i, k) \<Longrightarrow> tool_loop env s =
    (fst (open_block k i s) @ fst (tool_loop env (snd (open_block k i s))), snd (tool_loop env (snd (open_block k i s))))"
  by (subst tool_loop.simps) (simp add: case_prod_beta)

lemma tool_loop_overflow: "ts_active s = Some k \<Longrightarrow> find_text (close_marker k) (ts_buffer s) = None \<Longrightarrow> tool_loop env s = overflow_block s"
  and tool_loop_release: "ts_active s = None \<Longrightarrow> find_open s = None \<Longrightarrow> tool_loop env s = emit_released s"
  by (subst tool_loop.simps, simp)+

lemmas tool_loop_steps = tool_loop_close tool_loop_open tool_loop_overflow tool_loop_release

text \<open>The four ways a loop goes on or ends.\<close>

lemma stream_cases:
  obtains (at_close) k i where "ts_active s = Some k" "find_text (close_marker k) (ts_buffer s) = Some i"
  | (waits) k where "ts_active s = Some k" "find_text (close_marker k) (ts_buffer s) = None"
  | (at_open) i k where "ts_active s = None" "find_open s = Some (i, k)"
  | (idles) "ts_active s = None" "find_open s = None"
  by (metis not_None_eq surj_pair)

lemma resume_release:
  assumes idle: "ts_active s = None" and none: "find_open s = None"
  shows "events (fst (tool_loop env (more_tool t s)))
       = events (fst (tool_loop env s)) @ events (fst (tool_loop env (more_tool t (snd (tool_loop env s)))))
   \<and> snd (tool_loop env (more_tool t s)) = snd (tool_loop env (more_tool t (snd (tool_loop env s))))"
proof -
  have idle': "ts_active (more_tool t s) = None" using idle by (simp add: more_tool_def)
  define n where "n = length (ts_buffer s) - hold_len s"
  let ?p = "take n (ts_buffer s)" and ?r = "more_tool t (rest_of s)"
  define e where "e = emit_content ?p s"
  have first: "tool_loop env s = (fst e, placed (ts_buffer (rest_of s)) (ts_line_start (rest_of s)) (snd e))"
    using idle none by (subst tool_loop.simps) (simp add: emit_released_eq rest_of_def n_def e_def Let_def)
  let ?q = "more_tool t (snd (tool_loop env s))"
  have q: "?q = placed (ts_buffer ?r) (ts_line_start ?r) (snd e)"
    by (simp add: first more_tool_def)
  have idle_q: "ts_active ?q = None" unfolding q using idle by (simp add: e_def)
  have same: "find_open ?q = find_open ?r" "hold_len ?q = hold_len ?r"
    unfolding q by (rule find_open_view hold_len_view; simp)+
  have nb: "n \<le> length (ts_buffer s)" by (simp add: n_def)
  have buf: "ts_buffer ?r = drop n (ts_buffer s @ t)" using rest_buffer n_def by blast
  have line: "ts_line_start ?r = line_after ?p (ts_line_start s)" using nb by (simp add: more_tool_def rest_of_def n_def Let_def)
  show ?thesis
  proof (cases "find_open ?r")
    case (Some f)
    then obtain i k where found: "find_open ?r = Some (i, k)" by (cases f) auto
    then have found': "find_open (more_tool t s) = Some (n + i, k)" using find_open_rest [OF none n_def, of t] by simp
    have split: "take (n + i) (ts_buffer s @ t) = ?p @ take i (ts_buffer ?r)" unfolding buf take_add using nb by simp
    have "open_block k (n + i) (more_tool t s) = (fst (emit_content (?p @ take i (ts_buffer ?r)) s),
        placed (drop i (ts_buffer ?r)) (line_after (?p @ take i (ts_buffer ?r)) (ts_line_start s))
          ((snd (emit_content (?p @ take i (ts_buffer ?r)) s)) \<lparr> ts_active := Some k \<rparr>))"
      using split unfolding open_block_eq buf
      by (simp add: more_tool_def emit_placed Let_def add.commute del: drop_append take_append)
    moreover have "open_block k i ?q = (fst (emit_content (take i (ts_buffer ?r)) (snd e)),
        placed (drop i (ts_buffer ?r)) (line_after (take i (ts_buffer ?r)) (ts_line_start ?r))
          ((snd (emit_content (take i (ts_buffer ?r)) (snd e))) \<lparr> ts_active := Some k \<rparr>))"
      unfolding q open_block_eq by (simp add: emit_placed Let_def)
    ultimately have step: "events (fst (open_block k (n + i) (more_tool t s))) = events (fst e) @ events (fst (open_block k i ?q))"
      "snd (open_block k (n + i) (more_tool t s)) = snd (open_block k i ?q)"
      using emit_append [of ?p "take i (ts_buffer ?r)" s] line by (simp_all add: e_def line_after_append)
    have whole: "tool_loop env (more_tool t s) = (fst (open_block k (n + i) (more_tool t s)) @ fst (tool_loop env (snd (open_block k i ?q))), snd (tool_loop env (snd (open_block k i ?q))))"
      using idle' found' step(2) by (subst tool_loop.simps) (simp add: case_prod_beta)
    have later: "tool_loop env ?q = (fst (open_block k i ?q) @ fst (tool_loop env (snd (open_block k i ?q))), snd (tool_loop env (snd (open_block k i ?q))))"
      using idle_q found same(1) by (subst tool_loop.simps) (simp add: case_prod_beta)
    show ?thesis unfolding whole later using step(1) by (simp add: first)
  next
    case None
    then have "find_open (more_tool t s) = None" using find_open_rest [OF none n_def, of t] by simp
    then have whole: "tool_loop env (more_tool t s) = emit_released (more_tool t s)"
      using idle' by (subst tool_loop.simps) simp
    have later: "tool_loop env ?q = emit_released ?q"
      using idle_q None same(1) by (subst tool_loop.simps) simp
    define h where "h = hold_len ?r"
    have h: "hold_len (more_tool t s) = h" "n + h \<le> length (ts_buffer s @ t)"
      using hold_len_rest [OF none n_def, of t] by (simp_all add: h_def more_tool_def)
    define x where "x = take (length (ts_buffer ?r) - h) (ts_buffer ?r)"
    define y where "y = drop (length (ts_buffer ?r) - h) (ts_buffer ?r)"
    have split: "take (length (ts_buffer s @ t) - h) (ts_buffer s @ t) = ?p @ x" "drop (length (ts_buffer s @ t) - h) (ts_buffer s @ t) = y"
    proof -
      have "ts_buffer s @ t = ?p @ ts_buffer ?r" unfolding buf using nb by simp
      moreover have "h \<le> length (ts_buffer ?r)" unfolding buf using h(2) nb by simp
      ultimately show "take (length (ts_buffer s @ t) - h) (ts_buffer s @ t) = ?p @ x" "drop (length (ts_buffer s @ t) - h) (ts_buffer s @ t) = y"
        using take_drop_suffix [of h "ts_buffer ?r" ?p] by (simp_all add: x_def y_def del: take_append drop_append)
    qed
    have "emit_released (more_tool t s) = (fst (emit_content (?p @ x) s), placed y (line_after (?p @ x) (ts_line_start s)) (snd (emit_content (?p @ x) s)))"
      unfolding emit_released_eq h(1) split [symmetric]
      by (simp add: more_tool_def emit_placed Let_def del: take_append drop_append)
    moreover have "emit_released ?q = (fst (emit_content x (snd e)), placed y (line_after x (ts_line_start ?r)) (snd (emit_content x (snd e))))"
      unfolding emit_released_eq same(2) h_def [symmetric] unfolding q x_def y_def by (simp add: emit_placed Let_def)
    ultimately show ?thesis
      unfolding whole later using emit_append [of ?p x s] line by (simp add: first e_def line_after_append)
  qed
qed

lemma tool_resume:
  "byte_length (ts_buffer s @ t) \<le> MAX_TOOL_BLOCK \<Longrightarrow>
     events (fst (tool_loop env (more_tool t s)))
       = events (fst (tool_loop env s)) @ events (fst (tool_loop env (more_tool t (snd (tool_loop env s)))))
   \<and> snd (tool_loop env (more_tool t s)) = snd (tool_loop env (more_tool t (snd (tool_loop env s))))"
proof (induction "stream_rank s" arbitrary: s rule: less_induct)
  case less
  have small: "byte_length (drop n (ts_buffer s) @ t) \<le> MAX_TOOL_BLOCK" for n
    using less.prems byte_length_drop [of n "ts_buffer s"] by simp
  show ?case
  proof (cases "ts_active s")
    case active: (Some k)
    show ?thesis
    proof (cases "find_text (close_marker k) (ts_buffer s)")
      case None
      then have "tool_loop env s = ([], s)"
        using active less.prems by (simp add: tool_loop.simps [of env s] overflow_block_def)
      then show ?thesis by simp
    next
      case (Some i)
      let ?s = "snd (close_block env k i s)"
      have whole: "tool_loop env (more_tool t s) = (fst (close_block env k i s) @ fst (tool_loop env (more_tool t ?s)), snd (tool_loop env (more_tool t ?s)))"
        using tool_loop_close [of "more_tool t s" k i env] active find_text_append [OF Some, of t] close_block_more [OF Some, of env t]
        by (simp add: more_tool_def)
      have first: "tool_loop env s = (fst (close_block env k i s) @ fst (tool_loop env ?s), snd (tool_loop env ?s))"
        using active Some by (rule tool_loop_close)
      have "stream_rank ?s < stream_rank s" using active Some by (rule stream_rank_close)
      then show ?thesis using less.hyps [of ?s] small by (simp add: whole first close_block_buffer)
    qed
  next
    case idle: None
    then have idle': "ts_active (more_tool t s) = None" by (simp add: more_tool_def)
    show ?thesis
    proof (cases "find_open s")
      case (Some p)
      then obtain i k where found: "find_open s = Some (i, k)" by (cases p) auto
      then have i: "i \<le> length (ts_buffer s)" using is_open_bound [of k s i] by (simp add: find_open_iff)
      let ?s = "snd (open_block k i s)"
      have whole: "tool_loop env (more_tool t s) = (fst (open_block k i s) @ fst (tool_loop env (more_tool t ?s)), snd (tool_loop env (more_tool t ?s)))"
        using idle' find_open_more [OF found] open_block_more [OF i, of k t] by (subst tool_loop.simps) (simp add: case_prod_beta)
      have first: "tool_loop env s = (fst (open_block k i s) @ fst (tool_loop env ?s), snd (tool_loop env ?s))"
        using idle found by (subst tool_loop.simps) (simp add: case_prod_beta)
      have "stream_rank ?s < stream_rank s" using idle by (rule stream_rank_open)
      then show ?thesis using less.hyps [of ?s] small by (simp add: whole first open_block_buffer)
    next
      case None
      then show ?thesis using idle by (intro resume_release)
    qed
  qed
qed

text \<open>A relation between a stream and the outputs and state an operation leaves holds for a whole \<open>push\<close> when it holds
  for each of its steps and composes.\<close>

locale stream_relation =
  fixes R :: "'n tool_stream \<Rightarrow> 'n delta list \<times> 'n tool_stream \<Rightarrow> bool" and env :: "'n json_env"
  assumes step_trans: "R s (out, s') \<Longrightarrow> R s' (rest, s'') \<Longrightarrow> R s (out @ rest, s'')"
    and close_step: "ts_active s = Some k \<Longrightarrow> find_text (close_marker k) (ts_buffer s) = Some i \<Longrightarrow> R s (close_block env k i s)"
    and overflow_step: "ts_active s = Some k \<Longrightarrow> R s (overflow_block s)"
    and open_step: "ts_active s = None \<Longrightarrow> find_open s = Some (i, k) \<Longrightarrow> R s (open_block k i s)"
    and release_step: "ts_active s = None \<Longrightarrow> find_open s = None \<Longrightarrow> R s (emit_released s)"
begin

lemma trans_pair: "R s r \<Longrightarrow> R (snd r) q \<Longrightarrow> R s (fst r @ fst q, snd q)"
  using step_trans [of s "fst r" "snd r" "fst q" "snd q"] by simp

lemma loop_related: "R s (tool_loop env s)"
proof (induction "stream_rank s" arbitrary: s rule: less_induct)
  case less
  show ?case
  proof (cases rule: stream_cases [of s])
    case (at_close k i)
    then show ?thesis
      using trans_pair [OF close_step [OF at_close] less.hyps [OF stream_rank_close [OF at_close, of env]]] by (simp add: tool_loop_close)
  next
    case (at_open i k)
    then show ?thesis
      using trans_pair [OF open_step [OF at_open] less.hyps [OF stream_rank_open [OF at_open(1), of k i]]] by (simp add: tool_loop_open)
  qed (simp_all add: tool_loop_steps overflow_step release_step)
qed

end

lemma tool_push_append:
  assumes "byte_length (ts_buffer s @ t @ u) \<le> MAX_TOOL_BLOCK"
  shows "events (fst (tool_push env (t @ u) s)) = events (fst (tool_push env t s)) @ events (fst (tool_push env u (snd (tool_push env t s))))"
    and "snd (tool_push env (t @ u) s) = snd (tool_push env u (snd (tool_push env t s)))"
proof -
  have push: "tool_push env t s = tool_loop env (more_tool t s)" for t s by (simp add: tool_push_def more_tool_def placed_def)
  have "more_tool (t @ u) s = more_tool u (more_tool t s)" by (simp add: more_tool_def)
  then show "events (fst (tool_push env (t @ u) s)) = events (fst (tool_push env t s)) @ events (fst (tool_push env u (snd (tool_push env t s))))"
    "snd (tool_push env (t @ u) s) = snd (tool_push env u (snd (tool_push env t s)))"
    using tool_resume [of "more_tool t s" u env] assms by (simp_all add: push) (simp_all add: more_tool_def)
qed

end
