(* ===== verification/Response_Properties.thy ===== *)
theory Response_Properties
  imports Tool_Chunks
begin

text \<open>
  Results on the response stream: the response does not depend on how the decoded text arrives, what was streamed is
  what the finished response holds, nothing is lost when no call is read, and little is held back.
\<close>

section \<open>Pieces one character at a time\<close>

definition singles :: "(channel \<times> nat) list \<Rightarrow> pieces" where "singles cs = map (\<lambda>(c, x). (c, [x])) cs"

definition tool_buffer :: "'n shaper \<Rightarrow> chars" where
  "tool_buffer s = (case sh_tools s of Some ts \<Rightarrow> ts_buffer ts | None \<Rightarrow> [])"

definition content_bytes :: "(channel \<times> nat) list \<Rightarrow> nat" where
  "content_bytes cs = byte_length (map snd (filter (\<lambda>p. fst p = Content) cs))"

definition fits_block :: "'n shaper \<Rightarrow> (channel \<times> nat) list \<Rightarrow> bool" where
  "fits_block s cs \<longleftrightarrow> (sh_tools s \<noteq> None \<longrightarrow> byte_length (tool_buffer s) + content_bytes cs \<le> MAX_TOOL_BLOCK)"

lemma content_bytes_simps [simp]:
  "content_bytes [] = 0" "content_bytes (cs @ ds) = content_bytes cs + content_bytes ds"
  "content_bytes ((Content, x) # cs) = utf8_bytes x + content_bytes cs" "content_bytes ((Reasoning, x) # cs) = content_bytes cs"
  by (simp_all add: content_bytes_def)

lemma content_bytes_map [simp]: "content_bytes (map (Pair Content) t) = byte_length t" "content_bytes (map (Pair Reasoning) t) = 0"
  by (induction t) simp_all

lemma content_bytes_le: "content_bytes cs \<le> byte_length (map snd cs)"
proof (induction cs)
  case (Cons p cs)
  then show ?case by (cases p; cases "fst p") auto
qed simp

text \<open>No operation makes the buffer longer.\<close>

interpretation shrinking: stream_relation "\<lambda>s r. byte_length (ts_buffer (snd r)) \<le> byte_length (ts_buffer s)" env for env
  by unfold_locales
    (auto simp: close_block_buffer open_block_buffer emit_released_eq overflow_block_eq Let_def intro: byte_length_drop)

lemma tool_push_buffer_le: "byte_length (ts_buffer (snd (tool_push env t s))) \<le> byte_length (ts_buffer s) + byte_length t"
  using shrinking.loop_related [of env "s \<lparr> ts_buffer := ts_buffer s @ t \<rparr>"] by (simp add: tool_push_def)

lemma route_fits: "fits_block s (map (Pair c) t @ cs) \<Longrightarrow> fits_block (snd (route_piece env (c, t) s)) cs"
  using tool_push_buffer_le [of env t "the (sh_tools s)"]
  by (cases c) (auto simp: fits_block_def tool_buffer_def route_piece_def case_prod_beta Let_def split: option.splits)

lemma route_piece_Cons:
  assumes "fits_block s (map (Pair c) (x # t))"
  shows "events (fst (route_piece env (c, x # t) s)) = events (fst (route_piece env (c, [x]) s)) @ events (fst (route_piece env (c, t) (snd (route_piece env (c, [x]) s))))"
    and "snd (route_piece env (c, x # t) s) = snd (route_piece env (c, t) (snd (route_piece env (c, [x]) s)))"
proof -
  have "events (fst (route_piece env (c, x # t) s)) = events (fst (route_piece env (c, [x]) s)) @ events (fst (route_piece env (c, t) (snd (route_piece env (c, [x]) s))))
      \<and> snd (route_piece env (c, x # t) s) = snd (route_piece env (c, t) (snd (route_piece env (c, [x]) s)))"
  proof (cases "sh_tools s")
    case (Some ts)
    show ?thesis
    proof (cases c)
      case Content
      then have "byte_length (ts_buffer ts @ [x] @ t) \<le> MAX_TOOL_BLOCK" using assms Some by (simp add: fits_block_def tool_buffer_def)
      then show ?thesis using Some Content tool_push_append [of ts "[x]" t env] by (simp add: route_piece_def case_prod_beta Let_def)
    qed (simp add: route_piece_def)
  qed (cases c; simp add: route_piece_def)
  then show "events (fst (route_piece env (c, x # t) s)) = events (fst (route_piece env (c, [x]) s)) @ events (fst (route_piece env (c, t) (snd (route_piece env (c, [x]) s))))"
    "snd (route_piece env (c, x # t) s) = snd (route_piece env (c, t) (snd (route_piece env (c, [x]) s)))" by simp_all
qed

lemma route_simp: "route env (p # ps) s = (fst (route_piece env p s) @ fst (route env ps (snd (route_piece env p s))), snd (route env ps (snd (route_piece env p s))))"
  by (simp add: case_prod_beta)

lemma route_append: "route env (ps @ qs) s = (fst (route env ps s) @ fst (route env qs (snd (route env ps s))), snd (route env qs (snd (route env ps s))))"
  by (induction ps arbitrary: s) (simp_all del: route.simps(2) add: route_simp)

definition published :: "pieces \<Rightarrow> bool" where "published ps \<longleftrightarrow> (\<forall>p\<in>set ps. snd p \<noteq> [])"

lemma route_piece_singles:
  "t \<noteq> [] \<Longrightarrow> fits_block s (map (Pair c) t) \<Longrightarrow>
     events (fst (route env (singles (map (Pair c) t)) s)) = events (fst (route_piece env (c, t) s))
   \<and> snd (route env (singles (map (Pair c) t)) s) = snd (route_piece env (c, t) s)"
proof (induction t arbitrary: s)
  case (Cons x t)
  show ?case
  proof (cases "t = []")
    case False
    then have "fits_block (snd (route_piece env (c, [x]) s)) (map (Pair c) t)"
      using Cons.prems(2) by (intro route_fits) simp
    then show ?thesis
      using Cons.IH [of "snd (route_piece env (c, [x]) s)"] False route_piece_Cons [OF Cons.prems(2), of env]
      by (simp add: singles_def route_simp del: route.simps(2))
  qed (simp add: singles_def route_simp del: route.simps(2))
qed simp

lemma route_singles:
  "published ps \<Longrightarrow> fits_block s (flat ps) \<Longrightarrow>
     events (fst (route env ps s)) = events (fst (route env (singles (flat ps)) s)) \<and> snd (route env ps s) = snd (route env (singles (flat ps)) s)"
proof (induction ps arbitrary: s)
  case (Cons p ps)
  obtain c t where p: "p = (c, t)" by (cases p)
  have t: "t \<noteq> []" "published ps" using Cons.prems(1) p by (auto simp: published_def)
  have "fits_block s (map (Pair c) t)" using Cons.prems(2) p by (auto simp: fits_block_def)
  moreover have "fits_block (snd (route_piece env (c, t) s)) (flat ps)" using Cons.prems(2) p by (intro route_fits) simp
  ultimately show ?case
    using Cons.IH [of "snd (route_piece env (c, t) s)"] t route_piece_singles [OF t(1), of s c env] p
    by (simp add: singles_def route_append route_simp del: route.simps(2))
qed (simp add: singles_def)

section \<open>The whole response\<close>

lemma segment_published_simps [simp]: "published []" "published (publish c t)" "published (ps @ qs) \<longleftrightarrow> published ps \<and> published qs"
  by (auto simp: published_def publish_def)

lemma split_loop_published: "published (fst (split_loop s))"
proof (induction s rule: split_loop.induct)
  case (1 s)
  then show ?case
    by (subst split_loop.simps) (auto simp: release_eq case_prod_beta split: channel.split option.split)
qed

definition text_bytes :: "pieces \<Rightarrow> nat" where "text_bytes ps = byte_length (map snd (flat ps))"

lemma text_bytes_simps [simp]: "text_bytes [] = 0" "text_bytes (publish c t) = byte_length t" "text_bytes (ps @ qs) = text_bytes ps + text_bytes qs"
  by (simp_all add: text_bytes_def comp_def)

lemma byte_length_split: "byte_length (take n t) + byte_length (drop n t) = byte_length t"
  by (metis append_take_drop_id byte_length_simps(3))

lemma split_loop_bytes_running:
  "running s \<Longrightarrow> text_bytes (fst (split_loop s)) + byte_length (rs_buffer (snd (split_loop s))) \<le> byte_length (rs_buffer s)"
proof (induction "length (rs_buffer s)" arbitrary: s rule: less_induct)
  case less
  show ?case
  proof (cases "find_text (mode_marker s) (rs_buffer s)")
    case None
    then show ?thesis
      using less.prems byte_length_split [of _ "rs_buffer s"] by (simp add: split_running release_eq released_def held_def)
  next
    case (Some i)
    have "length (rs_buffer (switched i s)) < length (rs_buffer s)"
      using find_text_fits [OF Some] mode_marker_nonempty [of s] by (cases "mode_marker s") (auto simp: switched_def)
    moreover have "rs_buffer (switched i s) = drop (length (mode_marker s)) (drop i (rs_buffer s))" by (simp add: switched_def add.commute)
    ultimately have "text_bytes (fst (split_loop (switched i s))) + byte_length (rs_buffer (snd (split_loop (switched i s)))) \<le> byte_length (drop i (rs_buffer s))"
      using less.hyps [of "switched i s"] byte_length_drop [of "length (mode_marker s)" "drop i (rs_buffer s)"] running_switched [of i s]
      by (simp del: drop_drop)
    then show ?thesis
      using less.prems Some byte_length_split [of i "rs_buffer s"] by (simp add: split_running [of s])
  qed
qed

lemma split_loop_bytes: "text_bytes (fst (split_loop s)) + byte_length (rs_buffer (snd (split_loop s))) \<le> byte_length (rs_buffer s)"
proof (cases "running s")
  case False
  then have start: "rs_mode s = Reasoning" "rs_at_start s" by (auto simp: running_def)
  note by_start = split_not_running [OF start]
  let ?s = "s \<lparr> rs_buffer := drop (length THINK_OPEN) (rs_buffer s), rs_at_start := False \<rparr>" and ?t = "s \<lparr> rs_at_start := False \<rparr>"
  have run: "running ?s" "running ?t" by (simp_all add: running_def)
  consider "prefix THINK_OPEN (rs_buffer s)" | "prefix (rs_buffer s) THINK_OPEN" "length (rs_buffer s) < length THINK_OPEN"
    | "\<not> prefix (rs_buffer s) THINK_OPEN" "\<not> prefix THINK_OPEN (rs_buffer s)"
    by (metis linorder_not_le prefix_length_le prefix_length_prefix prefix_order.refl)
  then show ?thesis
  proof cases
    case 1
    then show ?thesis
      using by_start(2) split_loop_bytes_running [OF run(1)] byte_length_drop [of "length THINK_OPEN" "rs_buffer s"] by simp
  next
    case 2
    then show ?thesis using by_start(1) by simp
  next
    case 3
    then show ?thesis using by_start(3) split_loop_bytes_running [OF run(2)] by simp
  qed
qed (rule split_loop_bytes_running)

lemma route_piece_splitter:
  "route_piece env p (s \<lparr> sh_splitter := sp \<rparr>) = (fst (route_piece env p s), (snd (route_piece env p s)) \<lparr> sh_splitter := sp \<rparr>)"
  by (cases p; cases "fst p") (simp_all add: route_piece_def case_prod_beta Let_def split: option.split)

lemma route_splitter: "route env ps (s \<lparr> sh_splitter := sp \<rparr>) = (fst (route env ps s), (snd (route env ps s)) \<lparr> sh_splitter := sp \<rparr>)"
  by (induction ps arbitrary: s) (simp_all add: route_simp route_piece_splitter del: route.simps(2))

lemma route_keeps: "sh_splitter (snd (route env ps s)) = sh_splitter s" "sh_tools (snd (route env ps s)) = None \<longleftrightarrow> sh_tools s = None"
proof -
  have "sh_splitter (snd (route_piece env p s)) = sh_splitter s \<and> (sh_tools (snd (route_piece env p s)) = None \<longleftrightarrow> sh_tools s = None)" for p s
    by (cases p; cases "fst p") (auto simp: route_piece_def case_prod_beta Let_def split: option.split)
  then have "sh_splitter (snd (route env ps s)) = sh_splitter s \<and> (sh_tools (snd (route env ps s)) = None \<longleftrightarrow> sh_tools s = None)"
    by (induction ps arbitrary: s) (simp_all add: route_simp del: route.simps(2))
  then show "sh_splitter (snd (route env ps s)) = sh_splitter s" "sh_tools (snd (route env ps s)) = None \<longleftrightarrow> sh_tools s = None" by simp_all
qed

text \<open>How many bytes the shaper may still turn into content.\<close>

definition pending_bytes :: "'n shaper \<Rightarrow> nat" where
  "pending_bytes s = byte_length (tool_buffer s) + byte_length (rs_buffer (sh_splitter s))"

lemma tool_buffer_splitter [simp]: "tool_buffer (s \<lparr> sh_splitter := sp \<rparr>) = tool_buffer s" by (simp add: tool_buffer_def)

lemma route_piece_pending: "byte_length (tool_buffer (snd (route_piece env (c, t) s))) \<le> byte_length (tool_buffer s) + byte_length t"
  using tool_push_buffer_le [of env t "the (sh_tools s)"]
  by (cases c) (auto simp: tool_buffer_def route_piece_def case_prod_beta Let_def split: option.splits)

lemma route_pending: "byte_length (tool_buffer (snd (route env ps s))) \<le> byte_length (tool_buffer s) + text_bytes ps"
proof (induction ps arbitrary: s)
  case (Cons p ps)
  obtain c t where p: "p = (c, t)" by (cases p)
  show ?case
    using Cons [of "snd (route_piece env (c, t) s)"] route_piece_pending [of env c t s] p
    by (simp add: route_simp text_bytes_def comp_def del: route.simps(2))
qed simp

lemma shaper_push_eq:
  "shaper_push env t s = (let r = split_push t (sh_splitter s) in
     (fst (route env (fst r) s), (snd (route env (fst r) s)) \<lparr> sh_splitter := snd r \<rparr>))"
  by (simp add: shaper_push_def case_prod_beta Let_def route_splitter)

lemma split_push_bytes: "text_bytes (fst (split_push t s)) + byte_length (rs_buffer (snd (split_push t s))) \<le> byte_length (rs_buffer s) + byte_length t"
  using split_loop_bytes [of "s \<lparr> rs_buffer := rs_buffer s @ t \<rparr>"] by (simp add: split_push_def)

lemma split_push_published: "published (fst (split_push t s))" by (simp add: split_push_def split_loop_published)

lemma shaper_push_pending: "pending_bytes (snd (shaper_push env t s)) \<le> pending_bytes s + byte_length t"
  using split_push_bytes [of t "sh_splitter s"] route_pending [of env "fst (split_push t (sh_splitter s))" s]
  by (simp add: shaper_push_eq pending_bytes_def Let_def)

lemma split_fits:
  assumes "pending_bytes s + byte_length t \<le> MAX_TOOL_BLOCK"
  shows "fits_block s (flat (fst (split_push t (sh_splitter s))))"
  using assms split_push_bytes [of t "sh_splitter s"] content_bytes_le [of "flat (fst (split_push t (sh_splitter s)))"]
  by (simp add: fits_block_def pending_bytes_def text_bytes_def)

text \<open>Without tools no block is ever held.\<close>

definition within_block :: "'n shaper \<Rightarrow> nat \<Rightarrow> bool" where
  "within_block s n \<longleftrightarrow> (sh_tools s \<noteq> None \<longrightarrow> pending_bytes s + n \<le> MAX_TOOL_BLOCK)"

lemma within_fits: "within_block s (byte_length t) \<Longrightarrow> fits_block s (flat (fst (split_push t (sh_splitter s))))"
  using split_fits [of s t] by (auto simp: within_block_def fits_block_def)

lemma shaper_push_append:
  assumes "within_block s (byte_length (t @ u))"
  shows "events (fst (shaper_push env (t @ u) s)) = events (fst (shaper_push env t s)) @ events (fst (shaper_push env u (snd (shaper_push env t s))))"
    and "snd (shaper_push env (t @ u) s) = snd (shaper_push env u (snd (shaper_push env t s)))"
proof -
  let ?sp = "sh_splitter s"
  let ?tu = "split_push (t @ u) ?sp" and ?t = "split_push t ?sp"
  let ?u = "split_push u (snd ?t)"
  let ?s = "snd (route env (fst ?t) s)"
  have flat: "flat (fst ?tu) = flat (fst ?t) @ flat (fst ?u)" "snd ?tu = snd ?u" by (rule split_push_append)+
  have fit: "fits_block s (flat (fst ?tu))" using assms by (rule within_fits)
  have fit_t: "fits_block s (flat (fst ?t))" using fit flat(1) by (auto simp: fits_block_def)
  have whole: "events (fst (route env (fst ?tu) s)) = events (fst (route env (singles (flat (fst ?tu))) s)) \<and> snd (route env (fst ?tu) s) = snd (route env (singles (flat (fst ?tu))) s)"
    using split_push_published fit by (rule route_singles)
  have first: "events (fst (route env (fst ?t) s)) = events (fst (route env (singles (flat (fst ?t))) s)) \<and> ?s = snd (route env (singles (flat (fst ?t))) s)"
    using split_push_published fit_t by (rule route_singles)
  have push_t: "shaper_push env t s = (fst (route env (fst ?t) s), ?s \<lparr> sh_splitter := snd ?t \<rparr>)" by (simp add: shaper_push_eq Let_def)
  have "within_block (?s \<lparr> sh_splitter := snd ?t \<rparr>) (byte_length u)"
    using assms shaper_push_pending [of env t s] route_keeps(2) [of env "fst ?t" s] by (auto simp: within_block_def push_t)
  then have "fits_block ?s (flat (fst ?u))" using within_fits [of "?s \<lparr> sh_splitter := snd ?t \<rparr>" u] by (simp add: fits_block_def)
  then have second: "events (fst (route env (fst ?u) ?s)) = events (fst (route env (singles (flat (fst ?u))) ?s)) \<and> snd (route env (fst ?u) ?s) = snd (route env (singles (flat (fst ?u))) ?s)"
    using split_push_published by (intro route_singles)
  have parts: "singles (flat (fst ?tu)) = singles (flat (fst ?t)) @ singles (flat (fst ?u))" by (simp add: flat(1) singles_def)
  have push_u: "shaper_push env u (?s \<lparr> sh_splitter := snd ?t \<rparr>) = (fst (route env (fst ?u) ?s), (snd (route env (fst ?u) ?s)) \<lparr> sh_splitter := snd ?u \<rparr>)"
    by (simp add: shaper_push_eq Let_def route_splitter)
  have joined: "events (fst (route env (fst ?tu) s)) = events (fst (route env (fst ?t) s)) @ events (fst (route env (fst ?u) ?s))"
    "snd (route env (fst ?tu) s) = snd (route env (fst ?u) ?s)"
    using whole first second by (simp_all add: parts route_append)
  have later: "shaper_push env u (snd (shaper_push env t s)) = (fst (route env (fst ?u) ?s), (snd (route env (fst ?u) ?s)) \<lparr> sh_splitter := snd ?u \<rparr>)"
    unfolding push_t by (simp only: snd_conv push_u)
  show "events (fst (shaper_push env (t @ u) s)) = events (fst (shaper_push env t s)) @ events (fst (shaper_push env u (snd (shaper_push env t s))))"
    unfolding later unfolding shaper_push_eq [of env "t @ u"] Let_def push_t fst_conv by (rule joined(1))
  show "snd (shaper_push env (t @ u) s) = snd (shaper_push env u (snd (shaper_push env t s)))"
    unfolding later unfolding shaper_push_eq [of env "t @ u"] Let_def snd_conv flat(2) joined(2) by (rule refl)
qed

section \<open>Independence of the cuts\<close>

fun pushes :: "'n json_env \<Rightarrow> chars list \<Rightarrow> 'n shaper \<Rightarrow> 'n delta list \<times> 'n shaper" where
  "pushes env [] s = ([], s)"
| "pushes env (t # ts) s = (let (out, s) = shaper_push env t s; (rest, s) = pushes env ts s in (out @ rest, s))"

text \<open>The whole life of a shaper: every decoded piece, then the end of the response.\<close>

definition respond :: "'n json_env \<Rightarrow> bool \<Rightarrow> chars list \<Rightarrow> 'n shaper \<Rightarrow> 'n delta list \<times> 'n shaper" where
  "respond env truncated ts s =
     (let (out, s) = pushes env ts s; (rest, s) = shaper_finish env truncated s in (out @ rest, s))"

lemma pushes_simp: "pushes env (t # ts) s = (fst (shaper_push env t s) @ fst (pushes env ts (snd (shaper_push env t s))), snd (pushes env ts (snd (shaper_push env t s))))"
  by (simp add: case_prod_beta)

lemma pushes_join:
  "within_block s (byte_length (concat (t # ts))) \<Longrightarrow>
     events (fst (pushes env (t # ts) s)) = events (fst (shaper_push env (concat (t # ts)) s)) \<and> snd (pushes env (t # ts) s) = snd (shaper_push env (concat (t # ts)) s)"
proof (induction ts arbitrary: t s)
  case (Cons u ts)
  let ?s = "snd (shaper_push env t s)"
  have "within_block ?s (byte_length (concat (u # ts)))"
    using Cons.prems shaper_push_pending [of env t s] route_keeps(2) [of env "fst (split_push t (sh_splitter s))" s]
    by (auto simp: within_block_def shaper_push_eq Let_def)
  then have "events (fst (pushes env (u # ts) ?s)) = events (fst (shaper_push env (concat (u # ts)) ?s)) \<and> snd (pushes env (u # ts) ?s) = snd (shaper_push env (concat (u # ts)) ?s)"
    by (rule Cons.IH)
  moreover have "within_block s (byte_length (t @ concat (u # ts)))" using Cons.prems by simp
  ultimately show ?case
    unfolding pushes_simp [of env t] using shaper_push_append [of s t "concat (u # ts)" env] by (simp del: pushes.simps)
qed (simp add: pushes_simp del: pushes.simps(2))

lemma push_nothing: "shaper_push env [] (shaper_new thinking tools id_prefix) = ([], shaper_new thinking tools id_prefix)"
  by (simp add: shaper_push_def split_push_def shaper_new_def splitter_new_def split_loop.simps)

lemma pushes_once:
  assumes "within_block (shaper_new thinking tools id_prefix) (byte_length (concat ts))"
  defines "s \<equiv> shaper_new thinking tools id_prefix"
  shows "events (fst (pushes env ts s)) = events (fst (shaper_push env (concat ts) s)) \<and> snd (pushes env ts s) = snd (shaper_push env (concat ts) s)"
proof (cases ts)
  case Nil
  then show ?thesis by (simp add: s_def push_nothing)
next
  case (Cons t us)
  then show ?thesis using pushes_join [of s t us env] assms(1) by (simp add: s_def del: pushes.simps concat.simps)
qed

text \<open>C15: The response does not depend on how the decoded text arrives: cut in any way into pieces, it streams the same characters on
  the same channels and the same calls in the same order, and leaves the same reasoning, content and calls, as long as no more text
  than the limit of one tool block is pushed, or the request has no tools.\<close>

theorem response_ignores_cuts:
  assumes "concat ts = concat us"
    and "tools \<noteq> None \<longrightarrow> byte_length (concat ts) \<le> MAX_TOOL_BLOCK"
  shows "events (fst (respond env truncated ts (shaper_new thinking tools id_prefix))) = events (fst (respond env truncated us (shaper_new thinking tools id_prefix)))
    \<and> snd (respond env truncated ts (shaper_new thinking tools id_prefix)) = snd (respond env truncated us (shaper_new thinking tools id_prefix))"
proof -
  have "within_block (shaper_new thinking tools id_prefix) (byte_length (concat ts))"
    using assms(2) by (cases tools) (auto simp: within_block_def pending_bytes_def shaper_new_def tool_buffer_def tool_stream_new_def splitter_new_def)
  then show ?thesis
    using pushes_once [of thinking tools id_prefix ts env] pushes_once [of thinking tools id_prefix us env] assms(1)
    by (simp add: respond_def case_prod_beta Let_def)
qed

section \<open>What is streamed is what the response holds\<close>

fun reasoning_of :: "'n delta list \<Rightarrow> chars" where
  "reasoning_of [] = []"
| "reasoning_of (d # ds) = (case d of Reasoning_Delta t \<Rightarrow> t | _ \<Rightarrow> []) @ reasoning_of ds"

fun content_of :: "'n delta list \<Rightarrow> chars" where
  "content_of [] = []"
| "content_of (d # ds) = (case d of Content_Delta t \<Rightarrow> t | _ \<Rightarrow> []) @ content_of ds"

fun calls_of :: "'n delta list \<Rightarrow> (nat \<times> 'n json) list" where
  "calls_of [] = []"
| "calls_of (d # ds) = (case d of Tool_Delta i entry \<Rightarrow> [(i, entry)] | _ \<Rightarrow> []) @ calls_of ds"

lemma parts_append [simp]:
  "reasoning_of (ds @ es) = reasoning_of ds @ reasoning_of es" "content_of (ds @ es) = content_of ds @ content_of es"
  "calls_of (ds @ es) = calls_of ds @ calls_of es"
  by (induction ds) simp_all

text \<open>The calls a list of deltas adds after the first \<open>n\<close>.\<close>

definition numbered :: "nat \<Rightarrow> 'a list \<Rightarrow> (nat \<times> 'a) list" where "numbered n xs = zip [n..<n + length xs] xs"

lemma numbered_append: "numbered n (xs @ ys) = numbered n xs @ numbered (n + length xs) ys"
  using upt_add_eq_append [of n "n + length xs" "length ys"] by (simp add: numbered_def add.assoc)

text \<open>An operation of the tool stream streams what it adds.\<close>

definition streams :: "'n tool_stream \<Rightarrow> 'n delta list \<times> 'n tool_stream \<Rightarrow> bool" where
  "streams s r \<longleftrightarrow> reasoning_of (fst r) = [] \<and> ts_content (snd r) = ts_content s @ content_of (fst r)
     \<and> (\<exists>new. ts_calls (snd r) = ts_calls s @ new \<and> calls_of (fst r) = numbered (length (ts_calls s)) new)"

lemma streams_refl: "streams s ([], s)" by (auto simp: streams_def numbered_def)

lemma streams_trans: "streams s (out, s') \<Longrightarrow> streams s' (rest, s'') \<Longrightarrow> streams s (out @ rest, s'')"
proof -
  assume "streams s (out, s')" "streams s' (rest, s'')"
  then obtain a b where "reasoning_of out = []" "ts_content s' = ts_content s @ content_of out" "ts_calls s' = ts_calls s @ a"
      "calls_of out = numbered (length (ts_calls s)) a" "reasoning_of rest = []" "ts_content s'' = ts_content s' @ content_of rest"
      "ts_calls s'' = ts_calls s' @ b" "calls_of rest = numbered (length (ts_calls s')) b"
    unfolding streams_def fst_conv snd_conv by blast
  then show "streams s (out @ rest, s'')"
    unfolding streams_def fst_conv snd_conv by (intro conjI exI [of _ "a @ b"]) (simp_all add: numbered_append)
qed

lemma streams_view [simp]:
  "streams s (out, placed b l t) = streams s (out, t)" "streams s (out, t \<lparr> ts_active := a \<rparr>) = streams s (out, t)"
  "streams (s \<lparr> ts_active := a \<rparr>) r = streams s r" "streams (placed b l s) r = streams s r" "streams s (fst r, snd r) = streams s r"
  by (simp_all add: streams_def placed_def)

lemma emit_streams: "streams s (emit_content t s)"
  by (auto simp: streams_def emit_content_def Let_def numbered_def)

lemma handle_streams: "streams s (handle_block env t k f s)"
proof (cases "repair_tool_block env t (k = Naked) f (ts_schemas s)")
  case None
  then show ?thesis by (simp add: handle_block_def emit_streams)
next
  case (Some p)
  then show ?thesis by (cases p) (auto simp: handle_block_def streams_def Let_def numbered_def)
qed

lemma handle_streams_idle: "streams s (handle_block env t k f (s \<lparr> ts_active := None \<rparr>))"
  using handle_streams [of "s \<lparr> ts_active := None \<rparr>" env t k f] by simp

interpretation streaming: stream_relation streams env for env
  by unfold_locales
    (auto simp: close_block_eq open_block_eq emit_released_eq overflow_block_eq Let_def streams_refl emit_streams handle_streams_idle
      intro: streams_trans)

lemma finish_block_streams: "streams s (finish_block env truncated s)"
  by (auto simp: finish_block_def consume_eq handle_placed Let_def streams_refl handle_streams_idle split: option.split)

lemma tool_push_streams: "streams s (tool_push env t s)"
proof -
  have "tool_push env t s = tool_loop env (placed (ts_buffer s @ t) (ts_line_start s) s)" by (simp add: tool_push_def placed_def)
  then show ?thesis using streaming.loop_related [of "placed (ts_buffer s @ t) (ts_line_start s) s" env] by simp
qed

lemma tool_finish_streams: "streams s (tool_finish env truncated s)"
proof -
  define a where "a = finish_block env truncated s"
  define b where "b = emit_content (ts_buffer (snd a)) (snd a)"
  have ab: "streams s (fst a @ fst b, snd b)"
    using streams_trans [of s "fst a" "snd a" "fst b" "snd b"] finish_block_streams [of s env truncated] emit_streams [of "snd a"]
    by (simp add: a_def b_def)
  let ?done = "if ts_calls (snd b) = [] \<and> ts_held_ws (snd b) \<noteq> []
      then (fst a @ fst b @ [Content_Delta (ts_held_ws (snd b))],
        placed [] (line_after (ts_buffer (snd a)) (ts_line_start (snd a)))
          ((snd b) \<lparr> ts_active := None, ts_held_ws := [], ts_content := ts_content (snd b) @ ts_held_ws (snd b) \<rparr>))
      else (fst a @ fst b, placed [] (line_after (ts_buffer (snd a)) (ts_line_start (snd a))) ((snd b) \<lparr> ts_active := None \<rparr>))"
  have "ts_calls (snd b) = ts_calls (snd a)" by (simp add: b_def)
  then have "tool_finish env truncated s = ?done"
    by (simp add: tool_finish_def consume_eq emit_placed emit_active case_prod_beta Let_def flip: a_def b_def)
  moreover have "streams s ?done" using ab by (auto simp: streams_def placed_def)
  ultimately show ?thesis by simp
qed

text \<open>The response so far is what was streamed so far.\<close>

definition accounted :: "'n delta list \<Rightarrow> 'n shaper \<Rightarrow> bool" where
  "accounted out s \<longleftrightarrow> sh_reasoning s = reasoning_of out \<and>
     (case sh_tools s of
        Some ts \<Rightarrow> ts_content ts = content_of out \<and> calls_of out = numbered 0 (ts_calls ts)
      | None \<Rightarrow> sh_content s = content_of out \<and> calls_of out = [] \<and> sh_calls s = [])"

lemma route_piece_accounted: "accounted out s \<Longrightarrow> accounted (out @ fst (route_piece env p s)) (snd (route_piece env p s))"
proof -
  assume acc: "accounted out s"
  obtain c t where p: "p = (c, t)" by (cases p)
  show ?thesis
  proof (cases c)
    case Content
    show ?thesis
    proof (cases "sh_tools s")
      case (Some ts)
      have "streams ts (tool_push env t ts)" by (rule tool_push_streams)
      then show ?thesis using acc Some Content p
        by (auto simp: accounted_def route_piece_def streams_def case_prod_beta Let_def numbered_append)
    qed (use acc Content p in \<open>simp add: accounted_def route_piece_def\<close>)
  qed (use acc p in \<open>simp add: accounted_def route_piece_def split: option.splits\<close>)
qed

lemma route_accounted: "accounted out s \<Longrightarrow> accounted (out @ fst (route env ps s)) (snd (route env ps s))"
proof (induction ps arbitrary: out s)
  case (Cons p ps)
  then show ?case using Cons.IH [OF route_piece_accounted [OF Cons.prems, of env p]] by (simp add: route_simp del: route.simps(2))
qed simp

lemma accounted_splitter [simp]: "accounted out (s \<lparr> sh_splitter := sp \<rparr>) = accounted out s" by (simp add: accounted_def split: option.split)

lemma shaper_push_accounted: "accounted out s \<Longrightarrow> accounted (out @ fst (shaper_push env t s)) (snd (shaper_push env t s))"
  by (simp add: shaper_push_eq Let_def route_accounted)

lemma pushes_accounted: "accounted out s \<Longrightarrow> accounted (out @ fst (pushes env ts s)) (snd (pushes env ts s))"
proof (induction ts arbitrary: out s)
  case (Cons t ts)
  then show ?case using Cons.IH [OF shaper_push_accounted [OF Cons.prems, of env t]] by (simp add: pushes_simp del: pushes.simps(2))
qed simp

text \<open>C18: What was streamed is what the finished response holds: its reasoning and its content are the concatenated deltas of their
  channels, and its calls are the streamed calls, in order and numbered from zero.\<close>

theorem response_is_what_was_streamed:
  "case respond env truncated ts (shaper_new thinking tools id_prefix) of (out, s) \<Rightarrow>
     sh_reasoning s = reasoning_of out \<and> sh_content s = content_of out \<and> calls_of out = numbered 0 (sh_calls s)"
proof -
  have start: "accounted [] (shaper_new thinking tools id_prefix)"
    by (simp add: accounted_def shaper_new_def tool_stream_new_def numbered_def split: option.split)
  have finish: "sh_reasoning (snd (shaper_finish env truncated s)) = reasoning_of (out @ fst (shaper_finish env truncated s))
      \<and> sh_content (snd (shaper_finish env truncated s)) = content_of (out @ fst (shaper_finish env truncated s))
      \<and> calls_of (out @ fst (shaper_finish env truncated s)) = numbered 0 (sh_calls (snd (shaper_finish env truncated s)))"
    if acc: "accounted out s" for out s
  proof -
    define q where "q = route env (fst (split_finish (sh_splitter s))) s"
    have acc': "accounted (out @ fst q) (snd q)" unfolding q_def using acc by (rule route_accounted)
    have eq: "shaper_finish env truncated s = (case sh_tools (snd q) of
        Some tools \<Rightarrow> (fst q @ fst (tool_finish env truncated tools),
          (snd q) \<lparr> sh_splitter := snd (split_finish (sh_splitter s)), sh_tools := Some (snd (tool_finish env truncated tools)),
            sh_content := ts_content (snd (tool_finish env truncated tools)), sh_calls := ts_calls (snd (tool_finish env truncated tools)) \<rparr>)
      | None \<Rightarrow> (fst q, (snd q) \<lparr> sh_splitter := snd (split_finish (sh_splitter s)) \<rparr>))"
      by (simp add: shaper_finish_def q_def route_splitter case_prod_beta Let_def split: option.split)
    show ?thesis
    proof (cases "sh_tools (snd q)")
      case (Some tools)
      have "streams tools (tool_finish env truncated tools)" by (rule tool_finish_streams)
      then show ?thesis using acc' Some by (auto simp: eq accounted_def streams_def numbered_append)
    qed (use acc' in \<open>simp add: eq accounted_def numbered_def\<close>)
  qed
  show ?thesis
    using finish [OF pushes_accounted [OF start, of env ts]] by (simp add: respond_def case_prod_beta Let_def)
qed

section \<open>Nothing is lost\<close>

text \<open>Everything a stream has taken in, as long as it has read no call.\<close>

definition taken_in :: "'n tool_stream \<Rightarrow> chars" where "taken_in s = ts_content s @ ts_held_ws s @ ts_buffer s"

definition loses_nothing :: "'n tool_stream \<Rightarrow> 'n delta list \<times> 'n tool_stream \<Rightarrow> bool" where
  "loses_nothing s r \<longleftrightarrow> (ts_calls (snd r) = [] \<longrightarrow> ts_calls s = [] \<and> taken_in (snd r) = taken_in s)"

lemma emit_taken: "ts_content (snd (emit_content t s)) @ ts_held_ws (snd (emit_content t s)) = ts_content s @ ts_held_ws s @ t"
proof -
  have "trim_end whitespace (ts_held_ws s @ t) @ drop (length (trim_end whitespace (ts_held_ws s @ t))) (ts_held_ws s @ t) = ts_held_ws s @ t"
    by (rule trim_end_split [symmetric])
  then show ?thesis by (simp add: emit_content_def Let_def)
qed

lemma handle_taken:
  "ts_calls (snd (handle_block env t k f s)) = [] \<Longrightarrow> ts_calls s = []
     \<and> ts_content (snd (handle_block env t k f s)) @ ts_held_ws (snd (handle_block env t k f s)) = ts_content s @ ts_held_ws s @ t"
  using emit_taken [of t s] by (auto simp: handle_block_def Let_def split: option.splits prod.splits)

lemma placed_taken [simp]: "taken_in (placed b l s) = ts_content s @ ts_held_ws s @ b" by (simp add: taken_in_def placed_def)

lemma active_taken [simp]: "taken_in (s \<lparr> ts_active := a \<rparr>) = taken_in s" by (simp add: taken_in_def)

lemma taken_rest: "x @ y = u @ v @ take n w \<Longrightarrow> x @ y @ drop n w = u @ v @ w"
  by (metis append.assoc append_take_drop_id)

interpretation lossless: stream_relation loses_nothing env for env :: "'n json_env"
proof
  fix s :: "'n tool_stream" and k i
  let ?n = "i + length (close_marker k)"
  let ?r = "handle_block env (take ?n (ts_buffer s)) k False (s \<lparr> ts_active := None \<rparr>)"
  have "ts_calls (snd ?r) = [] \<Longrightarrow> ts_calls s = [] \<and> ts_content (snd ?r) @ ts_held_ws (snd ?r) @ drop ?n (ts_buffer s) = taken_in s"
    using handle_taken [of env "take ?n (ts_buffer s)" k False "s \<lparr> ts_active := None \<rparr>"]
    by (simp add: taken_in_def taken_rest)
  then show "loses_nothing s (close_block env k i s)" by (simp add: loses_nothing_def close_block_eq Let_def)
next
  fix s :: "'n tool_stream"
  show "loses_nothing s (overflow_block s)"
    using emit_taken [of "ts_buffer s" s] by (simp add: loses_nothing_def overflow_block_eq taken_in_def)
  show "loses_nothing s (emit_released s)"
    using taken_rest [OF emit_taken [of "take (length (ts_buffer s) - hold_len s) (ts_buffer s)" s]]
    by (simp add: loses_nothing_def emit_released_eq Let_def taken_in_def)
next
  fix s :: "'n tool_stream" and k i
  show "loses_nothing s (open_block k i s)"
    using taken_rest [OF emit_taken [of "take i (ts_buffer s)" s]] by (simp add: loses_nothing_def open_block_eq Let_def taken_in_def)
qed (auto simp: loses_nothing_def)

lemma tool_push_taken: "ts_calls (snd (tool_push env t s)) = [] \<Longrightarrow> ts_calls s = [] \<and> taken_in (snd (tool_push env t s)) = taken_in s @ t"
  using lossless.loop_related [of "s \<lparr> ts_buffer := ts_buffer s @ t \<rparr>" env] by (simp add: tool_push_def loses_nothing_def taken_in_def)

lemma tool_finish_taken:
  assumes "ts_calls (snd (tool_finish env truncated s)) = []"
  shows "ts_calls s = []" "ts_content (snd (tool_finish env truncated s)) = taken_in s"
proof -
  define a where "a = snd (finish_block env truncated s)"
  have finish: "snd (tool_finish env truncated s) =
      (let b = snd (emit_content (ts_buffer a) a) in
       if ts_calls b = [] \<and> ts_held_ws b \<noteq> [] then
         placed [] (line_after (ts_buffer a) (ts_line_start a)) (b \<lparr> ts_active := None, ts_held_ws := [], ts_content := ts_content b @ ts_held_ws b \<rparr>)
       else placed [] (line_after (ts_buffer a) (ts_line_start a)) (b \<lparr> ts_active := None \<rparr>))"
    by (simp add: tool_finish_def consume_eq emit_placed emit_active case_prod_beta Let_def flip: a_def)
  have calls: "ts_calls a = []" using assms unfolding finish by (auto simp: Let_def placed_def split: if_splits)
  have content: "ts_content (snd (tool_finish env truncated s)) = ts_content a @ ts_held_ws a @ ts_buffer a"
    using emit_taken [of "ts_buffer a" a] calls unfolding finish by (auto simp: Let_def placed_def split: if_splits)
  have block: "loses_nothing s (finish_block env truncated s)"
    using handle_taken [of env "ts_buffer s" _ True "s \<lparr> ts_active := None \<rparr>"]
    by (auto simp: loses_nothing_def finish_block_def consume_eq handle_placed Let_def taken_in_def split: option.split)
  then show "ts_calls s = []" "ts_content (snd (tool_finish env truncated s)) = taken_in s"
    using calls content by (simp_all add: loses_nothing_def a_def taken_in_def)
qed

text \<open>A shaper with tools beside one without, fed the same pieces.\<close>

definition beside :: "'n shaper \<Rightarrow> 'n shaper \<Rightarrow> bool" where
  "beside s p \<longleftrightarrow> sh_splitter s = sh_splitter p \<and> sh_tools p = None \<and> sh_reasoning s = sh_reasoning p \<and>
     (\<exists>ts. sh_tools s = Some ts \<and> (ts_calls ts = [] \<longrightarrow> taken_in ts = sh_content p))"

lemma route_piece_beside: "beside s p \<Longrightarrow> beside (snd (route_piece env q s)) (snd (route_piece env q p))"
proof -
  assume "beside s p"
  then obtain ts where ts: "sh_tools s = Some ts" "ts_calls ts = [] \<longrightarrow> taken_in ts = sh_content p"
      and rest: "sh_splitter s = sh_splitter p" "sh_tools p = None" "sh_reasoning s = sh_reasoning p"
    by (auto simp: beside_def)
  obtain c t where q: "q = (c, t)" by (cases q)
  show ?thesis
    using ts rest tool_push_taken [of env t ts] q by (cases c) (auto simp: beside_def route_piece_def case_prod_beta Let_def)
qed

lemma route_beside: "beside s p \<Longrightarrow> beside (snd (route env ps s)) (snd (route env ps p))"
proof (induction ps arbitrary: s p)
  case (Cons q ps)
  then show ?case using Cons.IH [OF route_piece_beside [OF Cons.prems, of env q]] by (simp add: route_simp del: route.simps(2))
qed simp

lemma beside_splitter: "beside s p \<Longrightarrow> beside (s \<lparr> sh_splitter := sp \<rparr>) (p \<lparr> sh_splitter := sp \<rparr>)" by (simp add: beside_def)

lemma shaper_push_beside: "beside s p \<Longrightarrow> beside (snd (shaper_push env t s)) (snd (shaper_push env t p))"
proof -
  assume b: "beside s p"
  then have "sh_splitter s = sh_splitter p" by (simp add: beside_def)
  with b show ?thesis by (simp add: shaper_push_eq Let_def beside_splitter route_beside)
qed

lemma pushes_beside: "beside s p \<Longrightarrow> beside (snd (pushes env ts s)) (snd (pushes env ts p))"
proof (induction ts arbitrary: s p)
  case (Cons t ts)
  then show ?case using Cons.IH [OF shaper_push_beside [OF Cons.prems, of env t]] by (simp add: pushes_simp del: pushes.simps(2))
qed simp

text \<open>C17: Offering tools loses no text: when a response ends without a call, its content and its reasoning are exactly those of the
  same decoded text shaped without tools, block markup, held whitespace and unfinished calls included.\<close>

theorem tools_lose_no_text:
  assumes "sh_calls (snd (respond env truncated ts (shaper_new thinking (Some tools) id_prefix))) = []"
  shows "sh_content (snd (respond env truncated ts (shaper_new thinking (Some tools) id_prefix)))
        = sh_content (snd (respond env truncated ts (shaper_new thinking None id_prefix)))
    \<and> sh_reasoning (snd (respond env truncated ts (shaper_new thinking (Some tools) id_prefix)))
        = sh_reasoning (snd (respond env truncated ts (shaper_new thinking None id_prefix)))"
proof -
  let ?s = "snd (pushes env ts (shaper_new thinking (Some tools) id_prefix))" and ?p = "snd (pushes env ts (shaper_new thinking None id_prefix))"
  have "beside (shaper_new thinking (Some tools) id_prefix) (shaper_new thinking None id_prefix)"
    by (simp add: beside_def shaper_new_def tool_stream_new_def taken_in_def)
  then have b: "beside ?s ?p" by (rule pushes_beside)
  then have same: "sh_splitter ?s = sh_splitter ?p" by (simp add: beside_def)
  define ps where "ps = fst (split_finish (sh_splitter ?p))"
  have "beside (snd (route env ps ?s)) (snd (route env ps ?p))" using b by (rule route_beside)
  then obtain tools' where tools': "sh_tools (snd (route env ps ?s)) = Some tools'" "sh_tools (snd (route env ps ?p)) = None"
      "sh_reasoning (snd (route env ps ?s)) = sh_reasoning (snd (route env ps ?p))"
      "ts_calls tools' = [] \<longrightarrow> taken_in tools' = sh_content (snd (route env ps ?p))"
    by (auto simp: beside_def)
  have "sh_calls (snd (shaper_finish env truncated ?s)) = ts_calls (snd (tool_finish env truncated tools'))"
    "sh_content (snd (shaper_finish env truncated ?s)) = ts_content (snd (tool_finish env truncated tools'))"
    "sh_reasoning (snd (shaper_finish env truncated ?s)) = sh_reasoning (snd (route env ps ?s))"
    "sh_content (snd (shaper_finish env truncated ?p)) = sh_content (snd (route env ps ?p))"
    "sh_reasoning (snd (shaper_finish env truncated ?p)) = sh_reasoning (snd (route env ps ?p))"
    using tools'(1,2) by (simp_all add: shaper_finish_def same case_prod_beta Let_def route_splitter flip: ps_def)
  then show ?thesis
    using assms tools'(3,4) tool_finish_taken [of env truncated tools'] by (simp add: respond_def case_prod_beta Let_def)
qed

section \<open>How much is held back\<close>

lemma split_loop_held: "length (rs_buffer (snd (split_loop s))) \<le> 7"
proof -
  have run: "length (rs_buffer (snd (split_loop s))) \<le> 7" if "running s" for s
    using that
  proof (induction "length (rs_buffer s)" arbitrary: s rule: less_induct)
    case less
    have marker: "length (mode_marker s) \<le> 8" by (simp add: mode_marker_def THINK_OPEN_def THINK_CLOSE_def ascii_def split: channel.split)
    show ?case
    proof (cases "find_text (mode_marker s) (rs_buffer s)")
      case None
      have "suffix_prefix_len (rs_buffer s) (mode_marker s) < length (mode_marker s)"
        using suffix_prefix_len_iff [of "mode_marker s" "rs_buffer s" "suffix_prefix_len (rs_buffer s) (mode_marker s)"] by simp
      then show ?thesis using None less.prems marker by (simp add: split_running release_eq held_def)
    next
      case (Some i)
      have "length (rs_buffer (switched i s)) < length (rs_buffer s)"
        using find_text_fits [OF Some] mode_marker_nonempty [of s] by (cases "mode_marker s") (auto simp: switched_def)
      then show ?thesis using less.hyps [of "switched i s"] less.prems Some by (simp add: split_running [of s])
    qed
  qed
  show ?thesis
  proof (cases "running s")
    case False
    then have start: "rs_mode s = Reasoning" "rs_at_start s" by (auto simp: running_def)
    consider "prefix THINK_OPEN (rs_buffer s)" | "prefix (rs_buffer s) THINK_OPEN" "length (rs_buffer s) < length THINK_OPEN"
      | "\<not> prefix (rs_buffer s) THINK_OPEN" "\<not> prefix THINK_OPEN (rs_buffer s)"
      by (metis linorder_not_le prefix_length_le prefix_length_prefix prefix_order.refl)
    then show ?thesis
    proof cases
      case 2
      moreover have "length THINK_OPEN = 7" by (simp add: THINK_OPEN_def ascii_def)
      ultimately show ?thesis using split_not_running(1) [OF start] by simp
    qed (use split_not_running(2,3) [OF start] run in \<open>simp_all add: running_def\<close>)
  qed (rule run)
qed

lemma tool_loop_ends:
  "\<exists>t k. ts_active t = Some k \<and> snd (tool_loop env s) = snd (overflow_block t) \<or> snd (tool_loop env s) = snd (emit_released t)"
proof (induction "stream_rank s" arbitrary: s rule: less_induct)
  case less
  show ?case
  proof (cases rule: stream_cases [of s])
    case (at_close k i)
    then show ?thesis using less.hyps [OF stream_rank_close [OF at_close, of env]] by (simp add: tool_loop_close)
  next
    case (at_open i k)
    then show ?thesis using less.hyps [OF stream_rank_open [OF at_open(1), of k i]] by (simp add: tool_loop_open)
  qed (auto simp: tool_loop_steps)
qed

lemma released_held_bytes: "byte_length (ts_buffer (snd (emit_released s))) \<le> 11"
proof -
  have marker: "length (open_marker k) \<le> 11" "c \<in> set (open_marker k) \<Longrightarrow> c < 128" for k c
    by (cases k; auto simp: open_marker_def TOOL_OPEN_def FUNCTION_OPEN_def ascii_def)+
  have buffer: "ts_buffer (snd (emit_released s)) = drop (length (ts_buffer s) - hold_len s) (ts_buffer s)"
    by (simp add: emit_released_eq Let_def)
  show ?thesis
  proof (cases "\<exists>k i. cut_open k s i")
    case True
    then obtain k i where cut: "cut_open k s i" by blast
    then have "prefix (drop i (ts_buffer s)) (open_marker k)" "i \<le> length (ts_buffer s)" by (auto simp: cut_open_def strict_prefix_def)
    moreover from this have "set (drop i (ts_buffer s)) \<subseteq> set (open_marker k)" by (auto dest: set_mono_prefix)
    moreover from this have "byte_length (drop i (ts_buffer s)) = length (drop i (ts_buffer s))"
      by (intro byte_length_ascii) (use marker(2) in blast)
    ultimately show ?thesis
      using marker(1) [of k] hold_len_cut [OF cut] prefix_length_le [of "drop i (ts_buffer s)" "open_marker k"] by (simp add: buffer)
  next
    case False
    then show ?thesis using no_cut_hold_len [of s] by (simp add: buffer)
  qed
qed

lemma tool_push_held: "byte_length (ts_buffer (snd (tool_push env t s))) \<le> MAX_TOOL_BLOCK"
proof -
  obtain u k where "ts_active u = Some k \<and> snd (tool_push env t s) = snd (overflow_block u) \<or> snd (tool_push env t s) = snd (emit_released u)"
    using tool_loop_ends [of env "s \<lparr> ts_buffer := ts_buffer s @ t \<rparr>"] by (auto simp: tool_push_def)
  then show ?thesis using released_held_bytes [of u] by (auto simp: overflow_block_eq MAX_TOOL_BLOCK_def)
qed

text \<open>Besides the block the tool stream keeps the whitespace that ended the content so far; that is all it keeps.\<close>

definition tool_spaces :: "'n shaper \<Rightarrow> chars" where
  "tool_spaces s = (case sh_tools s of Some ts \<Rightarrow> ts_held_ws ts | None \<Rightarrow> [])"

lemma tool_spaces_splitter [simp]: "tool_spaces (s\<lparr>sh_splitter := q\<rparr>) = tool_spaces s"
  by (simp add: tool_spaces_def)

abbreviation blank :: "'n tool_stream \<Rightarrow> bool" where "blank s \<equiv> list_all whitespace (ts_held_ws s)"

lemma emit_blank: "blank s \<Longrightarrow> blank (snd (emit_content t s))"
  by (auto simp: emit_content_def Let_def trim_end_eq_Nil trim_end_rest list_all_iff simp del: drop_append dest: set_takeWhileD)

lemma block_blank:
  "blank s \<Longrightarrow> blank (snd (close_block env k i s))" "blank s \<Longrightarrow> blank (snd (open_block k i s))"
  "blank s \<Longrightarrow> blank (snd (overflow_block s))" "blank s \<Longrightarrow> blank (snd (emit_released s))"
  by (auto simp: close_block_def handle_block_def open_block_def overflow_block_def emit_released_def consume_def Let_def case_prod_beta
      emit_blank split: option.split)

lemma tool_loop_blank: "blank s \<Longrightarrow> blank (snd (tool_loop env s))"
proof (induction "stream_rank s" arbitrary: s rule: less_induct)
  case less
  show ?case
  proof (cases rule: stream_cases [of s])
    case (at_close k i)
    then show ?thesis
      using less.hyps [OF stream_rank_close [OF at_close, of env]] less.prems by (simp add: tool_loop_close block_blank)
  next
    case (at_open i k)
    then show ?thesis
      using less.hyps [OF stream_rank_open [OF at_open(1), of k i]] less.prems by (simp add: tool_loop_open block_blank)
  qed (use less.prems in \<open>simp_all add: tool_loop_steps block_blank\<close>)
qed

definition small_held :: "'n shaper \<Rightarrow> bool" where
  "small_held s \<longleftrightarrow> length (rs_buffer (sh_splitter s)) \<le> 7 \<and> byte_length (tool_buffer s) \<le> MAX_TOOL_BLOCK \<and>
     list_all whitespace (tool_spaces s)"

lemma route_held: "byte_length (tool_buffer s) \<le> MAX_TOOL_BLOCK \<Longrightarrow> byte_length (tool_buffer (snd (route env ps s))) \<le> MAX_TOOL_BLOCK"
proof (induction ps arbitrary: s)
  case (Cons p ps)
  have "byte_length (tool_buffer (snd (route_piece env p s))) \<le> MAX_TOOL_BLOCK"
    using Cons.prems tool_push_held [of env _ _]
    by (cases p; cases "fst p") (auto simp: route_piece_def tool_buffer_def case_prod_beta Let_def split: option.splits)
  then show ?case using Cons.IH by (simp add: route_simp del: route.simps(2))
qed simp

lemma route_blank: "list_all whitespace (tool_spaces s) \<Longrightarrow> list_all whitespace (tool_spaces (snd (route env ps s)))"
proof (induction ps arbitrary: s)
  case (Cons p ps)
  have "list_all whitespace (tool_spaces (snd (route_piece env p s)))"
    using Cons.prems
    by (cases p; cases "fst p")
      (auto simp: route_piece_def tool_push_def tool_spaces_def case_prod_beta Let_def intro!: tool_loop_blank split: option.splits)
  then show ?case using Cons.IH by (simp add: route_simp del: route.simps(2))
qed simp

lemma shaper_push_held: "small_held s \<Longrightarrow> small_held (snd (shaper_push env t s))"
  using split_loop_held [of "(sh_splitter s) \<lparr> rs_buffer := rs_buffer (sh_splitter s) @ t \<rparr>"]
  by (simp add: small_held_def shaper_push_eq Let_def route_held route_blank split_push_def)

lemma pushes_held: "small_held s \<Longrightarrow> small_held (snd (pushes env ts s))"
  by (induction ts arbitrary: s) (simp_all add: pushes_simp shaper_push_held del: pushes.simps(2))

text \<open>C19: What a shaper has received and not yet passed on is limited to three things: after any pieces the splitter holds back at most
  the seven characters of an unfinished marker, the buffer of the tool stream holds at most the 256 KiB of one block, and what the tool
  stream keeps besides is only whitespace that follows the content so far, of any length.\<close>

theorem held_back_text_is_bounded:
  "length (rs_buffer (sh_splitter (snd (pushes env ts (shaper_new thinking tools id_prefix))))) \<le> 7
   \<and> byte_length (tool_buffer (snd (pushes env ts (shaper_new thinking tools id_prefix)))) \<le> MAX_TOOL_BLOCK
   \<and> list_all whitespace (tool_spaces (snd (pushes env ts (shaper_new thinking tools id_prefix))))"
  using pushes_held [of "shaper_new thinking tools id_prefix" env ts]
  by (simp add: small_held_def shaper_new_def splitter_new_def tool_buffer_def tool_spaces_def tool_stream_new_def split: option.split)

end
