(* ===== verification/Tool_Roundtrip.thy ===== *)
theory Tool_Roundtrip
  imports Response_Properties
begin

text \<open>
  A tool call written in the native form is read back, alone and out of a stream: the name, and for every parameter the
  value its declared type gives its text.
\<close>

section \<open>Writing a call\<close>

text \<open>The native form of a call: one parameter per element, key, value and closers on lines of their own.\<close>

fun render_parameters :: "(chars \<times> chars) list \<Rightarrow> chars" where
  "render_parameters [] = []"
| "render_parameters ((key, raw) # ps) =
     PARAMETER_OPEN @ key @ ascii ''>'' @ newline # raw @ newline # PARAMETER_CLOSE @ newline # render_parameters ps"

definition render_function :: "chars \<Rightarrow> (chars \<times> chars) list \<Rightarrow> chars" where
  "render_function name ps = FUNCTION_OPEN @ name @ ascii ''>'' @ newline # render_parameters ps @ FUNCTION_CLOSE"

definition render_call :: "chars \<Rightarrow> (chars \<times> chars) list \<Rightarrow> chars" where
  "render_call name ps = TOOL_OPEN @ newline # render_function name ps @ newline # TOOL_CLOSE"

text \<open>A name or key that fits between its delimiters, and a value that does not hold its own closer.\<close>

definition plain_name :: "chars \<Rightarrow> bool" where
  "plain_name t \<longleftrightarrow> t \<noteq> [] \<and> newline \<notin> set t \<and> 62 \<notin> set t"

definition plain_value :: "chars \<Rightarrow> bool" where
  "plain_value raw \<longleftrightarrow> \<not> contains_text PARAMETER_CLOSE raw \<and> \<not> opens_nested_parameter (newline # raw @ [newline])"

definition plain_call :: "chars \<Rightarrow> (chars \<times> chars) list \<Rightarrow> bool" where
  "plain_call name ps \<longleftrightarrow> plain_name name \<and> (\<forall>(key, raw)\<in>set ps. plain_name key \<and> plain_value raw) \<and> distinct (map fst ps)
     \<and> \<not> contains_text FUNCTION_OPEN (newline # render_parameters ps)"

definition declared_type :: "'n schemas \<Rightarrow> chars \<Rightarrow> chars \<Rightarrow> 'n json option" where
  "declared_type schemas name key =
     Option.bind (Option.bind (Option.bind (schemas name) (json_get (ascii ''properties''))) (json_get key)) (json_get (ascii ''type''))"

section \<open>Reading it back\<close>

lemma whitespace_simps [simp]: "whitespace newline" "\<not> whitespace 60" "\<not> whitespace 62"
  by (simp_all add: whitespace_def newline_def)

lemma trim_end_keep: "\<not> P c \<Longrightarrow> trim_end P (s @ c # t) = s @ c # trim_end P t"
  by (simp add: trim_end_def dropWhile_append3)

lemma trim_space: "trim (newline # t) = trim t" by (simp add: trim_def trim_start_def)

lemma trim_visible: "\<not> whitespace c \<Longrightarrow> trim (c # t) = c # trim_end whitespace t"
  using trim_end_keep [of whitespace c "[]" t] by (simp add: trim_def trim_start_def)

lemma trim_end_idem: "trim_end P (trim_end P t) = trim_end P t"
  unfolding trim_end_def by (simp add: dropWhile_idem)

lemma trim_start_end: "trim_start P (trim_end P t) = trim_end P (trim_start P t)"
proof (induction t)
  case (Cons c t)
  show ?case
  proof (cases "P c")
    case True
    have "trim_end P (c # t) = (if list_all P t then [] else c # trim_end P t)"
      using trim_end_append [of P "[c]" t] True by (simp add: trim_end_def)
    moreover have "list_all P t \<Longrightarrow> trim_start P t = []" by (simp add: trim_start_def list_all_iff)
    moreover have "trim_end P [] = []" by (simp add: trim_end_def)
    ultimately show ?thesis using Cons True by (cases "list_all P t") (simp_all add: trim_start_def del: dropWhile_eq_Nil_conv)
  next
    case False
    then show ?thesis using trim_end_keep [of P c "[]" t] by (simp add: trim_start_def)
  qed
qed (simp add: trim_start_def trim_end_def)

lemma trim_of_end: "trim (trim_end whitespace t) = trim t"
  by (simp add: trim_def trim_start_end trim_end_idem)

lemma find_text_after:
  assumes "\<And>j. j < length a \<Longrightarrow> \<not> prefix m (drop j (a @ m @ t))"
  shows "find_text m (a @ m @ t) = Some (length a)"
  using assms by (auto simp: find_text_Some_iff)

lemma find_char: "c \<notin> set a \<Longrightarrow> find_text [c] (a @ c # t) = Some (length a)"
proof (induction a)
  case (Cons x a)
  then show ?case by simp
qed simp

lemma split_char: "c \<notin> set a \<Longrightarrow> split_once [c] (a @ c # t) = Some (a, t)"
  by (simp add: split_once_def find_char)

text \<open>A value ends at the closer written after it.\<close>

lemma find_closer:
  assumes "\<not> contains_text PARAMETER_CLOSE raw"
  shows "find_text PARAMETER_CLOSE (newline # raw @ newline # PARAMETER_CLOSE @ t) = Some (length raw + 2)"
proof -
  let ?m = PARAMETER_CLOSE and ?a = "newline # raw @ [newline]"
  have m: "?m = 60 # tl ?m" "newline \<notin> set ?m" "60 \<notin> set (tl ?m)" "?m \<noteq> []" by (simp_all add: PARAMETER_CLOSE_def ascii_def newline_def)
  have "\<not> prefix ?m (drop j (?a @ ?m @ t))" if "j < length ?a" for j
  proof
    assume pre: "prefix ?m (drop j (?a @ ?m @ t))"
    have at: "(?a @ ?m @ t) ! (j + i) = ?m ! i" if "i < length ?m" for i
      using prefix_nth [OF pre that] nth_drop [of j "?a @ ?m @ t" i] \<open>j < length ?a\<close> by simp
    have "j + length ?m \<le> length raw + 1"
    proof (rule ccontr)
      assume "\<not> ?thesis"
      then have "length raw + 1 - j < length ?m" "j \<le> length raw + 1" using that by auto
      moreover have "(?a @ ?m @ t) ! (length raw + 1) = newline" by (simp add: nth_append)
      ultimately have "?m ! (length raw + 1 - j) = newline" using at [of "length raw + 1 - j"] by simp
      then show False using m(2) \<open>length raw + 1 - j < length ?m\<close> nth_mem by metis
    qed
    moreover have "?m ! 0 = 60" using m(1) by (metis nth_Cons_0)
    then have "j \<noteq> 0" using at [of 0] m(4) by (intro notI) (simp add: newline_def)
    ultimately have "prefix ?m (drop (j - 1) raw)"
      using pre prefix_within [of ?m "j - 1" raw "newline # ?m @ t"] by (cases j) auto
    moreover have "j - 1 \<le> length raw" using that by simp
    ultimately show False using assms by (auto simp: contains_text_def find_text_None_iff)
  qed
  from find_text_after [OF this] show ?thesis by simp
qed

lemma strip_newlines_inverse: "strip_newlines (newline # raw @ [newline]) = raw"
  by (simp add: strip_newlines_def strip_prefix_of_def strip_suffix_of_def suffix_def)

lemma take_parameter_rendered:
  assumes "plain_name key" "plain_value raw"
  shows "take_parameter (PARAMETER_OPEN @ key @ ascii ''>'' @ newline # raw @ newline # PARAMETER_CLOSE @ t)
    = Some (key, newline # raw @ [newline], t)"
proof -
  have "split_once PARAMETER_CLOSE (newline # raw @ newline # PARAMETER_CLOSE @ t) = Some (newline # raw @ [newline], t)"
    using find_closer [of raw t] assms(2) unfolding split_once_def plain_value_def by (simp del: find_text.simps)
  then show ?thesis
    using assms(1) split_char [of 62 key "newline # raw @ newline # PARAMETER_CLOSE @ t"]
    by (simp add: take_parameter_def strip_prefix_of_def plain_name_def ascii_def)
qed

lemma parameter_open_head: "PARAMETER_OPEN = 60 # tl PARAMETER_OPEN" and parameter_close_last: "PARAMETER_CLOSE = butlast PARAMETER_CLOSE @ [62]"
  by (simp_all add: PARAMETER_OPEN_def PARAMETER_CLOSE_def ascii_def)

lemma trim_rendered:
  "trim (render_parameters ((key, raw) # ps)) =
     PARAMETER_OPEN @ key @ ascii ''>'' @ newline # raw @ newline # PARAMETER_CLOSE @ trim_end whitespace (newline # render_parameters ps)"
proof -
  obtain x where "PARAMETER_OPEN @ key @ ascii ''>'' @ newline # raw @ newline # PARAMETER_CLOSE = 60 # x @ [62]"
    using parameter_open_head parameter_close_last by (metis append.assoc append_Cons)
  then have x: "PARAMETER_OPEN @ key @ ascii ''>'' @ newline # raw @ newline # PARAMETER_CLOSE @ r = 60 # x @ 62 # r" for r
    by (metis append.assoc append_Cons append_Nil)
  show ?thesis unfolding render_parameters.simps x by (simp add: trim_visible trim_end_keep)
qed

lemma parse_rendered_parameters:
  "(\<forall>(key, raw)\<in>set ps. plain_name key \<and> plain_value raw) \<Longrightarrow> distinct (map fst ps) \<Longrightarrow> fst ` set acc \<inter> fst ` set ps = {} \<Longrightarrow>
   list_all2 (\<lambda>(key, raw) (k, v). k = key \<and> typed_argument env raw (Option.bind (Option.bind properties (json_get key)) (json_get (ascii ''type''))) lenient = Some v) ps vs
   \<Longrightarrow> parse_parameters env properties lenient (trim (newline # render_parameters ps)) acc = Some (acc @ vs)"
proof (induction ps arbitrary: acc vs)
  case Nil
  then show ?case by (simp add: parse_parameters.simps trim_def trim_start_def trim_end_def)
next
  case (Cons p ps)
  obtain key raw where p: "p = (key, raw)" by (cases p)
  obtain v ws where vs: "vs = (key, v) # ws" and
      v: "typed_argument env raw (Option.bind (Option.bind properties (json_get key)) (json_get (ascii ''type''))) lenient = Some v"
    and ws: "list_all2 (\<lambda>(key, raw) (k, v). k = key \<and> typed_argument env raw (Option.bind (Option.bind properties (json_get key)) (json_get (ascii ''type''))) lenient = Some v) ps ws"
    using Cons.prems(4) p by (cases vs) auto
  have plain: "plain_name key" "plain_value raw" using Cons.prems(1) p by auto
  have "parse_parameters env properties lenient (trim (newline # render_parameters ps)) (acc @ [(key, v)]) = Some ((acc @ [(key, v)]) @ ws)"
    using Cons.prems p ws by (intro Cons.IH) auto
  moreover have "key \<notin> fst ` set acc" using Cons.prems(3) p by auto
  moreover have "\<not> opens_nested_parameter (newline # raw @ [newline])" using plain(2) by (simp add: plain_value_def)
  ultimately show ?case
    using v plain take_parameter_rendered [OF plain, of "trim_end whitespace (newline # render_parameters ps)"]
    unfolding p trim_space [of "render_parameters ((key, raw) # ps)"] trim_rendered vs
    by (subst parse_parameters.simps)
      (simp add: strip_newlines_inverse trim_of_end trim_space PARAMETER_OPEN_def ascii_def)
qed

definition typed_values :: "'n json_env \<Rightarrow> 'n schemas \<Rightarrow> chars \<Rightarrow> (chars \<times> chars) list \<Rightarrow> (chars \<times> 'n json) list \<Rightarrow> bool" where
  "typed_values env schemas name ps vs \<longleftrightarrow>
     list_all2 (\<lambda>(key, raw) (k, v). k = key \<and> typed_argument env raw (declared_type schemas name key) False = Some v) ps vs"

lemma strip_prefix_append [simp]: "strip_prefix_of m (m @ t) = Some t" by (simp add: strip_prefix_of_def)

lemma strip_suffix_append [simp]: "strip_suffix_of m (t @ m) = Some t" by (simp add: strip_suffix_of_def suffix_def)

lemma trim_function: "trim (newline # render_function name ps @ [newline]) = render_function name ps"
proof -
  have "FUNCTION_OPEN = 60 # tl FUNCTION_OPEN" "FUNCTION_CLOSE = butlast FUNCTION_CLOSE @ [62]"
    by (simp_all add: FUNCTION_OPEN_def FUNCTION_CLOSE_def ascii_def)
  then obtain x where x: "render_function name ps = 60 # x @ [62]"
    unfolding render_function_def by (metis append.assoc append_Cons)
  show ?thesis
    using trim_end_keep [of whitespace 62 x "[newline]"] by (simp add: trim_space x trim_visible) (simp add: trim_end_def)
qed

theorem rendered_block_is_read:
  assumes "plain_call name ps" "typed_values env schemas name ps vs"
  shows "parse_tool_block env (render_call name ps) False schemas False = Some (name, vs)"
proof -
  have inner: "inner_block (render_call name ps) False = Some (render_function name ps)"
  proof -
    have "strip_suffix_of TOOL_CLOSE (newline # render_function name ps @ newline # TOOL_CLOSE) = Some (newline # render_function name ps @ [newline])"
      using strip_suffix_append [of TOOL_CLOSE "newline # render_function name ps @ [newline]"] by simp
    then show ?thesis by (simp add: inner_block_def render_call_def trim_function)
  qed
  have name: "split_once (ascii ''>'') (name @ ascii ''>'' @ newline # render_parameters ps @ FUNCTION_CLOSE) = Some (name, newline # render_parameters ps @ FUNCTION_CLOSE)"
    using assms(1) split_char [of 62 name "newline # render_parameters ps @ FUNCTION_CLOSE"] by (simp add: plain_call_def plain_name_def ascii_def)
  have body: "strip_suffix_of FUNCTION_CLOSE (newline # render_parameters ps @ FUNCTION_CLOSE) = Some (newline # render_parameters ps)"
    using strip_suffix_append [of FUNCTION_CLOSE "newline # render_parameters ps"] by simp
  have "parse_parameters env (Option.bind (schemas name) (json_get (ascii ''properties''))) False (trim (newline # render_parameters ps)) [] = Some ([] @ vs)"
    using assms by (intro parse_rendered_parameters) (auto simp: plain_call_def typed_values_def declared_type_def)
  then show ?thesis
    using assms(1) name body
    by (simp add: parse_tool_block_def inner plain_call_def plain_name_def) (simp add: render_function_def)
qed

section \<open>Out of a stream\<close>

lemma released_all: "m \<noteq> [] \<Longrightarrow> last t \<notin> set (butlast m) \<Longrightarrow> suffix_prefix_len t m = 0"
proof -
  assume m: "m \<noteq> []" and last: "last t \<notin> set (butlast m)"
  let ?n = "suffix_prefix_len t m"
  have n: "?n < length m" "suffix (take ?n m) t" using suffix_prefix_len_iff [OF m, of t ?n] by simp_all
  show "?n = 0"
  proof (rule ccontr)
    assume pos: "?n \<noteq> 0"
    then have ne: "take ?n m \<noteq> []" using m by simp
    obtain zs where "t = zs @ take ?n m" using n(2) by (auto simp: suffix_def)
    then have "last t = last (take ?n m)" using ne by (metis last_appendR)
    also have "\<dots> \<in> set (take ?n m)" using ne by (rule last_in_set)
    also have "set (take ?n m) \<subseteq> set (butlast m)" using n(1) by (simp add: butlast_conv_take set_take_subset_set_take)
    finally show False using last by simp
  qed
qed

lemma call_ends: "\<exists>x. render_call name ps = x @ [62]" "render_call name ps \<noteq> []"
proof -
  have "TOOL_CLOSE = butlast TOOL_CLOSE @ [62]" by (simp add: TOOL_CLOSE_def ascii_def)
  then show "\<exists>x. render_call name ps = x @ [62]" unfolding render_call_def by (metis append.assoc append_Cons)
  then show "render_call name ps \<noteq> []" by auto
qed

lemma split_rendered:
  assumes "\<not> contains_text THINK_OPEN (render_call name ps)"
  shows "split_push (render_call name ps) (splitter_new False) = ([(Content, render_call name ps)], splitter_new False)"
proof -
  let ?s = "(splitter_new False) \<lparr> rs_buffer := render_call name ps \<rparr>"
  have run: "running ?s" "mode_marker ?s = THINK_OPEN" by (simp_all add: running_def mode_marker_def splitter_new_def)
  have "last (render_call name ps) = 62" using call_ends(1) [of name ps] by auto
  then have "suffix_prefix_len (render_call name ps) THINK_OPEN = 0"
    by (intro released_all) (simp_all add: THINK_OPEN_def ascii_def)
  then have "split_loop ?s = ([(Content, render_call name ps)], splitter_new False)"
    using assms run call_ends(2) [of name ps]
    by (simp add: split_running release_eq released_def held_def publish_def contains_text_def) (simp add: splitter_new_def)
  then show ?thesis by (simp add: split_push_def) (simp add: splitter_new_def)
qed

lemma tool_push_rendered:
  fixes id_prefix :: chars
  assumes "repair_tool_block env (render_call name ps) False False (tool_schemas tools) = Some (name, vs)"
    and "find_text TOOL_CLOSE (render_call name ps) = Some (length (render_call name ps) - length TOOL_CLOSE)"
  defines "entry \<equiv> call_entry env id_prefix 0 name vs"
  shows "tool_push env (render_call name ps) (tool_stream_new tools id_prefix)
    = ([Tool_Delta 0 entry], (tool_stream_new tools id_prefix) \<lparr> ts_calls := [entry] \<rparr>)"
proof -
  let ?c = "render_call name ps" and ?new = "tool_stream_new tools id_prefix :: 'a tool_stream"
  let ?s = "?new \<lparr> ts_buffer := ?c \<rparr>"
  have idle: "ts_active ?s = None" "ts_line_start ?s" "ts_buffer ?s = ?c" by (simp_all add: tool_stream_new_def)
  have "is_open Tagged ?s 0" using idle by (simp add: is_open_def at_line_start_def open_marker_def render_call_def)
  then have found: "find_open ?s = Some (0, Tagged)" by (simp add: find_open_iff)
  have opened: "open_block Tagged 0 ?s = ([], ?s \<lparr> ts_active := Some Tagged \<rparr>)"
    by (simp add: open_block_eq line_after_def Let_def)
  let ?t = "?s \<lparr> ts_active := Some Tagged \<rparr>"
  have close: "ts_active ?t = Some Tagged" "find_text (close_marker Tagged) (ts_buffer ?t) = Some (length ?c - length TOOL_CLOSE)"
    using assms(2) by (simp_all add: close_marker_def)
  have all: "length ?c - length TOOL_CLOSE + length TOOL_CLOSE = length ?c" by (simp add: render_call_def)
  have closed: "close_block env Tagged (length ?c - length TOOL_CLOSE) ?t = ([Tool_Delta 0 entry], ?new \<lparr> ts_calls := [entry] \<rparr>)"
    using assms(1) all by (simp add: close_block_eq close_marker_def handle_block_def entry_def Let_def) (simp add: placed_def tool_stream_new_def Let_def)
  have ended: "tool_loop env (?new \<lparr> ts_calls := [entry] \<rparr>) = ([], ?new \<lparr> ts_calls := [entry] \<rparr>)"
  proof -
    have "find_open (?new \<lparr> ts_calls := [entry] \<rparr>) = None"
      by (auto simp: find_open_iff is_open_def tool_stream_new_def open_marker_eq)
    then show ?thesis
      by (subst tool_loop_release) (simp_all add: emit_released_eq line_after_def tool_stream_new_def placed_def)
  qed
  show ?thesis
    unfolding tool_push_def using tool_loop_open [OF idle(1) found, of env] tool_loop_close [OF close, of env] opened closed ended
    by (simp add: tool_stream_new_def)
qed

text \<open>C16: A call written in the native form (of at most the block size, without an opening reasoning tag, its closing tag only at its
  end) comes out as that call: however its text is cut, a response without reasoning streams one call and nothing else, with the name
  and with the values the declared types give the parameters' texts.\<close>

theorem native_call_is_streamed:
  assumes "plain_call name ps" "typed_values env (tool_schemas tools) name ps vs"
    and "\<not> contains_text THINK_OPEN (render_call name ps)"
    and "find_text TOOL_CLOSE (render_call name ps) = Some (length (render_call name ps) - length TOOL_CLOSE)"
    and "concat ts = render_call name ps" "byte_length (render_call name ps) \<le> MAX_TOOL_BLOCK"
  shows "case respond env truncated ts (shaper_new False (Some tools) id_prefix) of (out, s) \<Rightarrow>
    events out = [Call_Event 0 (call_entry env id_prefix 0 name vs)]
    \<and> sh_calls s = [call_entry env id_prefix 0 name vs] \<and> sh_content s = [] \<and> sh_reasoning s = []"
proof -
  let ?c = "render_call name ps" and ?new = "shaper_new False (Some tools) id_prefix" and ?entry = "call_entry env id_prefix 0 name vs"
  let ?tl = "(tool_stream_new tools id_prefix) \<lparr> ts_calls := [?entry] \<rparr>"
  have "repair_tool_block env ?c False False (tool_schemas tools) = Some (name, vs)"
    using rendered_block_is_read [OF assms(1,2)] by (simp add: repair_tool_block_def or_else_def Let_def)
  then have tool: "tool_push env ?c (tool_stream_new tools id_prefix) = ([Tool_Delta 0 ?entry], ?tl)"
    using assms(4) by (rule tool_push_rendered)
  have "shaper_push env ?c ?new = ([Tool_Delta 0 ?entry], ?new \<lparr> sh_tools := Some ?tl \<rparr>)"
    using split_rendered [OF assms(3)] tool by (simp add: shaper_push_def shaper_new_def route_piece_def)
  moreover have "within_block ?new (byte_length (concat ts))"
    using assms(5,6) by (simp add: within_block_def pending_bytes_def shaper_new_def tool_buffer_def tool_stream_new_def splitter_new_def)
  ultimately have pushed: "events (fst (pushes env ts ?new)) = [Call_Event 0 ?entry]" "snd (pushes env ts ?new) = ?new \<lparr> sh_tools := Some ?tl \<rparr>"
    using pushes_once [of False "Some tools" id_prefix ts env] assms(5) by simp_all
  have "shaper_finish env truncated (?new \<lparr> sh_tools := Some ?tl \<rparr>)
      = ([], ?new \<lparr> sh_tools := Some ?tl, sh_content := [], sh_calls := [?entry] \<rparr>)"
    by (simp add: shaper_finish_def split_finish_def publish_def shaper_new_def splitter_new_def tool_finish_def finish_block_def consume_def
        emit_content_def tool_stream_new_def)
  then show ?thesis using pushed by (simp add: respond_def case_prod_beta Let_def) (simp add: shaper_new_def)
qed

end
