(* ===== verification/Response_Samples.thy ===== *)
theory Response_Samples
  imports Tool_Roundtrip "HOL-Library.Code_Target_Nat"
begin

text \<open>Small responses on which the results of the response stream are evaluated.\<close>

definition sample_json :: "nat json_env" where
  "sample_json = \<lparr> js_parse = (\<lambda>_. None), js_print = (\<lambda>_. ascii ''{}''), js_integral = (\<lambda>_. True) \<rparr>"

lemma response_ignores_cuts_witness:
  "concat (map ascii [''a<thi'', ''nk>b'']) = concat (map ascii [''a<think>'', ''b'']) \<and>
   snd (respond sample_json False (map ascii [''a<thi'', ''nk>b'']) (shaper_new False None []))
     = snd (respond sample_json False (map ascii [''a<think>'', ''b'']) (shaper_new False None []))"
  using response_ignores_cuts [of "map ascii [''a<thi'', ''nk>b'']" "map ascii [''a<think>'', ''b'']" None sample_json False False "[]"]
  by (simp add: ascii_def)

lemma tools_lose_no_text_witness:
  "sh_content (snd (respond sample_json True (map ascii [''<tool_ca'', ''ll>x'']) (shaper_new False (Some []) [])))
     = sh_content (snd (respond sample_json True (map ascii [''<tool_ca'', ''ll>x'']) (shaper_new False None [])))"
proof -
  have "sh_calls (snd (respond sample_json True (map ascii [''<tool_ca'', ''ll>x'']) (shaper_new False (Some []) []))) = []"
    by code_simp
  from tools_lose_no_text [OF this] show ?thesis by (rule conjunct1)
qed

lemma native_call_is_streamed_witness:
  "sh_calls (snd (respond sample_json False [render_call (ascii ''f'') [(ascii ''k'', ascii ''v'')]] (shaper_new False (Some []) (ascii ''i''))))
     = [call_entry sample_json (ascii ''i'') 0 (ascii ''f'') [(ascii ''k'', J_String (ascii ''v''))]]"
proof -
  let ?c = "render_call (ascii ''f'') [(ascii ''k'', ascii ''v'')]"
  have "plain_call (ascii ''f'') [(ascii ''k'', ascii ''v'')]" by code_simp
  moreover have "typed_values sample_json (tool_schemas []) (ascii ''f'') [(ascii ''k'', ascii ''v'')] [(ascii ''k'', J_String (ascii ''v''))]"
    by (simp add: typed_values_def typed_argument_def declared_type_def tool_schemas_def)
  moreover have "\<not> contains_text THINK_OPEN ?c" by code_simp
  moreover have "find_text TOOL_CLOSE ?c = Some (length ?c - length TOOL_CLOSE)" by code_simp
  moreover have "concat [?c] = ?c" by simp
  moreover have "byte_length ?c \<le> MAX_TOOL_BLOCK" by code_simp
  ultimately show ?thesis
    using native_call_is_streamed [where ts = "[?c]" and truncated = False and id_prefix = "ascii ''i''" and tools = "[]" and env = sample_json and ps = "[(ascii ''k'', ascii ''v'')]" and name = "ascii ''f''" and vs = "[(ascii ''k'', J_String (ascii ''v''))]"]
    by (simp add: case_prod_beta)
qed

end
