(* ===== verification/Ieee_Float.thy ===== *)
theory Ieee_Float
  imports "HOL-Library.Word" Rust_Float
begin

text \<open>
  IEEE 754 values for the code that meets infinities, signed zeros and NaN: a value is NaN, an infinity
  or a sign with a rational magnitude. Every operation is the exact result rounded to nearest, ties to even, at
  the precision \<open>p\<close>, least exponent and greatest exponent of its format, with gradual underflow
  and overflow to infinity; the comparisons are false on NaN. The bfloat16 words of the vocabulary
  rows decode to such values.
\<close>

datatype ieee = NaN | Inf bool | Fin bool rat

section \<open>Formats and rounding\<close>

datatype float_format = Float_Format (precision: nat) (least: int) (greatest: int)

definition binary32 :: float_format where "binary32 = Float_Format 24 (- 149) 127"

definition binary64 :: float_format where "binary64 = Float_Format 53 (- 1074) 1023"

definition bfloat16 :: float_format where "bfloat16 = Float_Format 8 (- 133) 127"

text \<open>The rounding of a magnitude: the unit in the last place never falls under the least exponent.\<close>

definition fl_round :: "float_format \<Rightarrow> bool \<Rightarrow> rat \<Rightarrow> ieee" where
  "fl_round t s x =
     (if x \<le> 0 then Fin s 0
      else let ulp = pow2 (max (least t) (f64_exponent x + 1 - int (precision t)));
               y = of_int (round_ties_even (x / ulp)) * ulp
           in if y < pow2 (greatest t + 1) then Fin s y else Inf s)"

fun fl_convert :: "float_format \<Rightarrow> ieee \<Rightarrow> ieee" where
  "fl_convert t NaN = NaN"
| "fl_convert t (Inf s) = Inf s"
| "fl_convert t (Fin s x) = fl_round t s x"

fun fl_value :: "ieee \<Rightarrow> rat" where
  "fl_value (Fin s x) = (if s then - x else x)"
| "fl_value _ = 0"

text \<open>An exact sum of zero is positive unless both operands are negative zeros.\<close>

fun fl_add :: "float_format \<Rightarrow> ieee \<Rightarrow> ieee \<Rightarrow> ieee" where
  "fl_add t NaN _ = NaN"
| "fl_add t (Inf s) y = (case y of NaN \<Rightarrow> NaN | Inf r \<Rightarrow> if s = r then Inf s else NaN | Fin _ _ \<Rightarrow> Inf s)"
| "fl_add t (Fin s x) y =
     (case y of NaN \<Rightarrow> NaN | Inf r \<Rightarrow> Inf r
      | Fin r z \<Rightarrow> let v = fl_value (Fin s x) + fl_value (Fin r z)
                   in if v = 0 then Fin (s \<and> r) 0 else fl_round t (v < 0) \<bar>v\<bar>)"

fun fl_neg :: "ieee \<Rightarrow> ieee" where
  "fl_neg NaN = NaN"
| "fl_neg (Inf s) = Inf (\<not> s)"
| "fl_neg (Fin s x) = Fin (\<not> s) x"

definition fl_sub :: "float_format \<Rightarrow> ieee \<Rightarrow> ieee \<Rightarrow> ieee" where
  "fl_sub t x y = fl_add t x (fl_neg y)"

fun fl_mul :: "float_format \<Rightarrow> ieee \<Rightarrow> ieee \<Rightarrow> ieee" where
  "fl_mul t NaN _ = NaN"
| "fl_mul t (Inf s) y = (case y of NaN \<Rightarrow> NaN | Inf r \<Rightarrow> Inf (s \<noteq> r) | Fin r z \<Rightarrow> if z = 0 then NaN else Inf (s \<noteq> r))"
| "fl_mul t (Fin s x) y =
     (case y of NaN \<Rightarrow> NaN | Inf r \<Rightarrow> if x = 0 then NaN else Inf (s \<noteq> r) | Fin r z \<Rightarrow> fl_round t (s \<noteq> r) (x * z))"

fun fl_div :: "float_format \<Rightarrow> ieee \<Rightarrow> ieee \<Rightarrow> ieee" where
  "fl_div t NaN _ = NaN"
| "fl_div t (Inf s) y = (case y of NaN \<Rightarrow> NaN | Inf _ \<Rightarrow> NaN | Fin r _ \<Rightarrow> Inf (s \<noteq> r))"
| "fl_div t (Fin s x) y =
     (case y of NaN \<Rightarrow> NaN | Inf r \<Rightarrow> Fin (s \<noteq> r) 0
      | Fin r z \<Rightarrow> if z = 0 then if x = 0 then NaN else Inf (s \<noteq> r) else fl_round t (s \<noteq> r) (x / z))"

definition fl_of_nat :: "float_format \<Rightarrow> nat \<Rightarrow> ieee" where
  "fl_of_nat t n = fl_round t False (of_nat n)"

section \<open>Comparison\<close>

fun fl_class :: "ieee \<Rightarrow> int" where
  "fl_class (Inf s) = (if s then - 1 else 1)"
| "fl_class _ = 0"

definition is_nan :: "ieee \<Rightarrow> bool" where
  "is_nan x = (case x of NaN \<Rightarrow> True | _ \<Rightarrow> False)"

definition is_finite :: "ieee \<Rightarrow> bool" where
  "is_finite x = (case x of Fin _ _ \<Rightarrow> True | _ \<Rightarrow> False)"

definition fl_less :: "ieee \<Rightarrow> ieee \<Rightarrow> bool" where
  "fl_less x y \<longleftrightarrow>
     \<not> is_nan x \<and> \<not> is_nan y \<and> (fl_class x < fl_class y \<or> fl_class x = fl_class y \<and> fl_value x < fl_value y)"

definition fl_eq :: "ieee \<Rightarrow> ieee \<Rightarrow> bool" where
  "fl_eq x y \<longleftrightarrow> \<not> is_nan x \<and> \<not> is_nan y \<and> fl_class x = fl_class y \<and> fl_value x = fl_value y"

definition fl_le :: "ieee \<Rightarrow> ieee \<Rightarrow> bool" where
  "fl_le x y \<longleftrightarrow> fl_less x y \<or> fl_eq x y"

text \<open>\<open>f32::max\<close> ignores a NaN; of two equal values (zeros of either sign) the first is kept, which is one of the
  results its contract allows.\<close>

definition fl_max :: "ieee \<Rightarrow> ieee \<Rightarrow> ieee" where
  "fl_max x y = (if is_nan x then y else if is_nan y then x else if fl_less x y then y else x)"

lemma fl_simps [simp]:
  "is_nan NaN" "\<not> is_nan (Inf s)" "\<not> is_nan (Fin s r)"
  "\<not> is_finite NaN" "\<not> is_finite (Inf s)" "is_finite (Fin s r)"
  by (simp_all add: is_nan_def is_finite_def)

lemma is_finite_not_nan: "is_finite x \<Longrightarrow> \<not> is_nan x"
  by (cases x) simp_all

lemma fl_less_irrefl [simp]: "\<not> fl_less x x"
  by (simp add: fl_less_def)

lemma fl_less_trans: "fl_less x y \<Longrightarrow> fl_less y z \<Longrightarrow> fl_less x z"
  by (auto simp: fl_less_def)

lemma fl_less_asym: "fl_less x y \<Longrightarrow> \<not> fl_less y x"
  by (auto simp: fl_less_def)

lemma fl_trichotomy: "\<not> is_nan x \<Longrightarrow> \<not> is_nan y \<Longrightarrow> fl_less x y \<or> fl_eq x y \<or> fl_less y x"
  by (auto simp: fl_less_def fl_eq_def)

lemma fl_not_le: "\<not> is_nan x \<Longrightarrow> \<not> is_nan y \<Longrightarrow> \<not> fl_le x y \<longleftrightarrow> fl_less y x"
  by (auto simp: fl_less_def fl_eq_def fl_le_def)

lemma fl_not_less: "\<not> is_nan x \<Longrightarrow> \<not> is_nan y \<Longrightarrow> \<not> fl_less x y \<longleftrightarrow> fl_le y x"
  by (auto simp: fl_less_def fl_eq_def fl_le_def)

lemma fl_max_not_nan: "\<not> is_nan x \<Longrightarrow> \<not> is_nan (fl_max x y)"
  by (simp add: fl_max_def)

section \<open>bfloat16 words\<close>

text \<open>Of the 16 bits one is the sign, eight are the exponent and seven the significand. The magnitude as a
  function of the low fifteen bits is strictly increasing up to infinity.\<close>

definition bf16_magnitude :: "nat \<Rightarrow> rat" where
  "bf16_magnitude n =
     (if n div 128 = 0 then of_nat n * pow2 (- 133)
      else of_nat (128 + n mod 128) * pow2 (int (n div 128) - 134))"

definition bf16_low :: "16 word \<Rightarrow> nat" where
  "bf16_low w = unat w mod 32768"

definition bf16_negative :: "16 word \<Rightarrow> bool" where
  "bf16_negative w \<longleftrightarrow> 32768 \<le> unat w"

definition bf16_value :: "16 word \<Rightarrow> ieee" where
  "bf16_value w =
     (if bf16_low w < 32640 then Fin (bf16_negative w) (bf16_magnitude (bf16_low w))
      else if bf16_low w = 32640 then Inf (bf16_negative w) else NaN)"

lemma bf16_magnitude_Suc: "bf16_magnitude n < bf16_magnitude (Suc n)"
proof -
  consider (inner) "Suc n mod 128 \<noteq> 0" | (carry) "Suc n mod 128 = 0" by blast
  then show ?thesis
  proof cases
    case inner
    then have d: "Suc n div 128 = n div 128" "Suc n mod 128 = Suc (n mod 128)"
      by (simp_all add: div_Suc mod_Suc split: if_splits)
    show ?thesis unfolding bf16_magnitude_def d
      by (cases "n div 128 = 0") (simp_all add: mult_strict_right_mono)
  next
    case carry
    then have d: "Suc n div 128 = Suc (n div 128)" "n mod 128 = 127"
      by (simp_all add: div_Suc mod_Suc split: if_splits)
    have n: "n = 128 * (n div 128) + 127" using d(2) mult_div_mod_eq [of 128 n] by linarith
    show ?thesis
    proof (cases "n div 128 = 0")
      case True
      with n have "n = 127" by simp
      then show ?thesis by (simp add: bf16_magnitude_def)
    next
      case False
      have "pow2 (int (Suc (n div 128)) - 134) = 2 * pow2 (int (n div 128) - 134)"
        using pow2_minus_one [of "int (Suc (n div 128)) - 134"] by simp
      with False d carry show ?thesis by (simp add: bf16_magnitude_def)
    qed
  qed
qed

lemma bf16_magnitude_less: "m < n \<Longrightarrow> bf16_magnitude m < bf16_magnitude n"
  by (rule lift_Suc_mono_less [of bf16_magnitude]) (simp_all add: bf16_magnitude_Suc)

lemma bf16_magnitude_less_iff [simp]: "bf16_magnitude m < bf16_magnitude n \<longleftrightarrow> m < n"
  using bf16_magnitude_less [of m n] bf16_magnitude_less [of n m] by (cases m n rule: linorder_cases) auto

lemma bf16_magnitude_inj [simp]: "bf16_magnitude m = bf16_magnitude n \<longleftrightarrow> m = n"
  using bf16_magnitude_less_iff [of m n] bf16_magnitude_less_iff [of n m] by (metis less_irrefl linorder_neqE_nat)

lemma bf16_magnitude_0 [simp]: "bf16_magnitude 0 = 0"
  by (simp add: bf16_magnitude_def)

lemma bf16_magnitude_pos [simp]: "0 < bf16_magnitude n \<longleftrightarrow> 0 < n"
  using bf16_magnitude_less_iff [of 0 n] by simp

lemma bf16_magnitude_nonneg [simp]: "0 \<le> bf16_magnitude n"
  using bf16_magnitude_pos [of n] by (cases n) (simp_all add: less_imp_le)

text \<open>The signed magnitude as an integer orders the words that are not NaN.\<close>

definition bf16_rank :: "16 word \<Rightarrow> int" where
  "bf16_rank w = (if bf16_negative w then - int (bf16_low w) else int (bf16_low w))"

lemma bf16_nan_iff: "is_nan (bf16_value w) \<longleftrightarrow> 32640 < bf16_low w"
  by (simp add: bf16_value_def)

lemma bf16_less_iff:
  assumes "\<not> is_nan (bf16_value v)" "\<not> is_nan (bf16_value w)"
  shows "fl_less (bf16_value v) (bf16_value w) \<longleftrightarrow> bf16_rank v < bf16_rank w"
proof -
  have less: "- bf16_magnitude m < bf16_magnitude n \<longleftrightarrow> 0 < m \<or> 0 < n" for m n
    using bf16_magnitude_nonneg [of m] bf16_magnitude_nonneg [of n] bf16_magnitude_pos [of m] bf16_magnitude_pos [of n]
    by linarith
  have not: "\<not> bf16_magnitude m < - bf16_magnitude n" for m n
    using bf16_magnitude_nonneg [of m] bf16_magnitude_nonneg [of n] by linarith
  show ?thesis using assms
    by (auto simp: fl_less_def bf16_value_def bf16_rank_def less not)
qed

lemma bf16_eq_iff:
  assumes "\<not> is_nan (bf16_value v)" "\<not> is_nan (bf16_value w)"
  shows "fl_eq (bf16_value v) (bf16_value w) \<longleftrightarrow> bf16_rank v = bf16_rank w"
  using assms bf16_less_iff [of v w] bf16_less_iff [of w v] fl_trichotomy [OF assms] fl_less_asym
  by (metis fl_eq_def fl_less_def less_irrefl linorder_neq_iff)

end
