(* ===== verification/Sampling.thy ===== *)
theory Sampling
  imports Ieee_Float Rust_State Rust_Collections
begin

text \<open>
  The sampling policy over one vocabulary row (\<open>sampling.rs\<close>): options and their validation, the presence
  penalty, the reference filters of the diagnostic path and the filters of the production path with their
  retained workspace, row preparation on both paths, and the draw of one token.

  The \<open>half\<close> crate's conversions, \<open>exp\<close> and \<open>ln\<close> of the platform, the ChaCha generator and the reductions behind
  \<open>PreparationMath\<close> (a device or a test double, with a state of its own) are parameters. A panic is an error value.
\<close>

type_synonym bf16 = "16 word"

record 'g sampling_env =
  to_f32 :: "bf16 \<Rightarrow> ieee"
  from_f32 :: "ieee \<Rightarrow> bf16"
  f64_exp :: "ieee \<Rightarrow> ieee"
  f64_ln :: "ieee \<Rightarrow> ieee"
  next_u64 :: "'g \<Rightarrow> nat \<times> 'g"

record 'm preparation_math =
  logsumexp_bf16 :: "bf16 list \<Rightarrow> (string, 'm, bf16) fallible"
  exp_bf16 :: "bf16 list \<Rightarrow> (string, 'm, bf16 list) fallible"
  cumulative_bf16 :: "bf16 list \<Rightarrow> (string, 'm, bf16 list) fallible"

definition NEG_INF :: bf16 where "NEG_INF = 0xff80"

definition f64_one :: ieee where "f64_one = Fin False 1"

definition f64_zero :: ieee where "f64_zero = Fin False 0"

abbreviation u32_limit :: nat where "u32_limit \<equiv> 4294967296"

definition round_bf16 :: "'g sampling_env \<Rightarrow> ieee \<Rightarrow> bf16" where
  "round_bf16 env x = from_f32 env x"

definition scalar :: "'g sampling_env \<Rightarrow> ieee \<Rightarrow> ieee" where
  "scalar env x = to_f32 env (round_bf16 env (fl_convert binary32 x))"

section \<open>Options\<close>

record sampling_options =
  so_temperature :: ieee
  so_top_p :: ieee
  so_min_p :: ieee
  so_top_k :: nat
  so_presence_penalty :: ieee
  so_presence_context_size :: nat

definition default_options :: sampling_options where
  "default_options =
     \<lparr>so_temperature = fl_round binary64 False (7 / 10), so_top_p = f64_one, so_min_p = f64_zero, so_top_k = 0,
      so_presence_penalty = f64_zero, so_presence_context_size = 20\<rparr>"

definition in_unit :: "ieee \<Rightarrow> bool" where
  "in_unit x \<longleftrightarrow> is_finite x \<and> fl_le f64_zero x \<and> fl_le x f64_one"

definition options_validate :: "'g sampling_env \<Rightarrow> sampling_options \<Rightarrow> unit result" where
  "options_validate env so =
     ensure (is_finite (so_temperature so) \<and> fl_le f64_zero (so_temperature so)) ''temperature must be finite and nonnegative''
    (ensure (fl_less f64_zero (so_temperature so) \<longrightarrow> is_finite (scalar env (fl_div binary64 f64_one (so_temperature so))))
       ''temperature reciprocal is not representable as finite BF16''
    (ensure (in_unit (so_top_p so)) ''top_p must be finite and between zero and one''
    (ensure (in_unit (so_min_p so)) ''min_p must be finite and between zero and one''
    (ensure (is_finite (so_presence_penalty so) \<and> is_finite (scalar env (so_presence_penalty so)))
       ''presence penalty must be finite in BF16'' (Inr ())))))"

section \<open>Presence penalty\<close>

definition presence_start :: "sampling_options \<Rightarrow> nat list \<Rightarrow> nat" where
  "presence_start so history =
     (if so_presence_context_size so = 0 then 0 else length history - so_presence_context_size so)"

definition penalised :: "'g sampling_env \<Rightarrow> sampling_options \<Rightarrow> bf16 \<Rightarrow> bf16" where
  "penalised env so w = round_bf16 env (fl_sub binary32 (to_f32 env w) (scalar env (so_presence_penalty so)))"

definition presence_step :: "'g sampling_env \<Rightarrow> sampling_options \<Rightarrow> bf16 list \<Rightarrow> nat \<Rightarrow> bf16 list result" where
  "presence_step env so logits token =
     ensure (token < length logits) ''presence history token exceeds vocabulary''
       (Inr (logits[token := penalised env so (logits ! token)]))"

definition presence :: "'g sampling_env \<Rightarrow> bf16 list \<Rightarrow> nat list \<Rightarrow> sampling_options \<Rightarrow> bf16 list result" where
  "presence env logits history so =
     (if fl_eq (so_presence_penalty so) f64_zero then Inr logits
      else try_fold (presence_step env so) logits (btree_set (drop (presence_start so history) history)))"

section \<open>The reference filters\<close>

text \<open>\<open>sort_unstable_by\<close> with a comparator that orders distinct ids strictly has one result, the insertion sort's.
  Both comparators unwrap \<open>partial_cmp\<close>, so a NaN in a row of two or more words panics.\<close>

fun insert_by :: "('a \<Rightarrow> 'a \<Rightarrow> bool) \<Rightarrow> 'a \<Rightarrow> 'a list \<Rightarrow> 'a list" where
  "insert_by precedes x [] = [x]"
| "insert_by precedes x (y # ys) = (if precedes y x then y # insert_by precedes x ys else x # y # ys)"

definition sort_by :: "('a \<Rightarrow> 'a \<Rightarrow> bool) \<Rightarrow> 'a list \<Rightarrow> 'a list" where
  "sort_by precedes xs = foldr (insert_by precedes) xs []"

definition ascending_ids :: "'g sampling_env \<Rightarrow> bf16 list \<Rightarrow> nat \<Rightarrow> nat \<Rightarrow> bool" where
  "ascending_ids env row a b \<longleftrightarrow>
     fl_less (to_f32 env (row ! a)) (to_f32 env (row ! b)) \<or>
     fl_eq (to_f32 env (row ! a)) (to_f32 env (row ! b)) \<and> a < b"

definition descending_ids :: "'g sampling_env \<Rightarrow> bf16 list \<Rightarrow> nat \<Rightarrow> nat \<Rightarrow> bool" where
  "descending_ids env row a b \<longleftrightarrow>
     fl_less (to_f32 env (row ! b)) (to_f32 env (row ! a)) \<or>
     fl_eq (to_f32 env (row ! b)) (to_f32 env (row ! a)) \<and> a < b"

definition sort_ids :: "'g sampling_env \<Rightarrow> (nat \<Rightarrow> nat \<Rightarrow> bool) \<Rightarrow> bf16 list \<Rightarrow> nat list result" where
  "sort_ids env precedes row =
     ensure (length row < 2 \<or> list_all (\<lambda>w. \<not> is_nan (to_f32 env w)) row) ''panicked: partial_cmp of a NaN''
       (Inr (sort_by precedes [0..<length row]))"

text \<open>Masking every id outside a set of kept ids.\<close>

definition keep_ids :: "nat list \<Rightarrow> bf16 list \<Rightarrow> bf16 list" where
  "keep_ids kept row = map (\<lambda>(i, w). if i \<in> set kept then w else NEG_INF) (enumerate 0 row)"

definition top_p_filter ::
    "'g sampling_env \<Rightarrow> 'm preparation_math \<Rightarrow> ieee \<Rightarrow> bf16 list \<Rightarrow>
      (string, 'm, bf16 list \<times> (bf16 list \<times> bf16 list) option) fallible" where
  "top_p_filter env math top_p row =
     (if fl_le top_p f64_zero \<or> fl_le f64_one top_p then m_return (row, None)
      else m_bind (exp_bf16 math row) (\<lambda>exponentials.
        m_bind (m_lift (ensure (length exponentials = length row) ''top-p exp length differs'' (Inr ()))) (\<lambda>_.
        m_bind (m_lift (sort_ids env (ascending_ids env row) row)) (\<lambda>order.
        m_bind (cumulative_bf16 math (map ((!) exponentials) order)) (\<lambda>cumulative.
        m_bind (m_lift (ensure (length cumulative = length row) ''top-p scan length differs'' (Inr ()))) (\<lambda>_.
        let threshold = scalar env (fl_sub binary64 f64_one top_p);
            kept = [i. (i, c) \<leftarrow> zip order cumulative, fl_less threshold (to_f32 env c)]
        in m_return (keep_ids kept row, Some (exponentials, cumulative))))))))"

definition row_maximum :: "'g sampling_env \<Rightarrow> bf16 list \<Rightarrow> ieee" where
  "row_maximum env row = foldl fl_max (Inf True) (map (to_f32 env) row)"

definition min_p_filter :: "'g sampling_env \<Rightarrow> ieee \<Rightarrow> bf16 list \<Rightarrow> bf16 list" where
  "min_p_filter env min_p row =
     (if fl_eq min_p f64_zero then row
      else let threshold = to_f32 env (round_bf16 env
                             (fl_add binary32 (row_maximum env row) (scalar env (f64_ln env min_p))))
           in map (\<lambda>w. if fl_less (to_f32 env w) threshold then NEG_INF else w) row)"

definition top_k_filter :: "'g sampling_env \<Rightarrow> nat \<Rightarrow> bf16 list \<Rightarrow> bf16 list result" where
  "top_k_filter env top_k row =
     (if top_k = 0 then Inr row
      else ensure (top_k < length row) ''top_k must be below vocabulary size''
        (bindr (sort_ids env (descending_ids env row) row) (\<lambda>order. Inr (keep_ids (take top_k order) row))))"

definition sampling_host_workspace_bytes :: "nat \<Rightarrow> nat result" where
  "sampling_host_workspace_bytes vocabulary =
     ok_or (Option.bind (checked_mul vocabulary 27) (\<lambda>bytes. checked_add bytes (65536 * 4)))
       ''sampling host workspace byte count overflow''"

section \<open>The production filters\<close>

record filter_workspace =
  fw_exponentials :: "bf16 list"
  fw_sorted_exponentials :: "bf16 list"
  fw_cumulative :: "bf16 list"
  fw_order :: "nat list"
  fw_buckets :: "nat list"

record sampling_workspace =
  sw_adjusted :: "bf16 list"
  sw_logprobs :: "bf16 list"
  sw_presence_seen :: "nat list"
  sw_filter :: filter_workspace
  sw_weights :: "ieee list"

definition vec_resize :: "nat \<Rightarrow> 'a \<Rightarrow> 'a list \<Rightarrow> 'a list" where
  "vec_resize n x xs = take n xs @ replicate (n - length xs) x"

definition vec_fill :: "'a \<Rightarrow> 'a list \<Rightarrow> 'a list" where
  "vec_fill x xs = map (\<lambda>_. x) xs"

unbundle bit_operations_syntax

definition bf16_is_nan :: "bf16 \<Rightarrow> bool" where
  "bf16_is_nan w \<longleftrightarrow> w AND 0x7f80 = 0x7f80 \<and> w AND 0x007f \<noteq> 0"

definition bf16_order_key :: "bf16 \<Rightarrow> nat" where
  "bf16_order_key w =
     (let normalized = (if w AND 0x7fff = 0 then 0 else w)
      in unat (if normalized AND 0x8000 \<noteq> 0 then NOT normalized else normalized XOR 0x8000))"

definition checked_add_u32 :: "nat \<Rightarrow> nat \<Rightarrow> nat option" where
  "checked_add_u32 a b = (if a + b < u32_limit then Some (a + b) else None)"

definition count_key :: "bf16 \<Rightarrow> unit \<Rightarrow> (string, nat list, unit) fallible" where
  "count_key w _ buckets =
     (let k = bf16_order_key w in
      if \<not> k < length buckets then (Inl ''panicked: index out of bounds'', buckets)
      else case checked_add_u32 (buckets ! k) 1 of
        None \<Rightarrow> (Inl ''sampling key count overflow'', buckets)
      | Some c \<Rightarrow> (Inr (), buckets[k := c]))"

definition count_score_keys :: "bf16 list \<Rightarrow> (string, nat list, unit) fallible" where
  "count_score_keys row =
     m_bind (m_lift (ensure (list_all (\<lambda>w. \<not> bf16_is_nan w) row) ''sampling log probabilities contain NaN'' (Inr ()))) (\<lambda>_.
     m_bind (m_modify (\<lambda>buckets. vec_fill 0 (vec_resize 65536 0 buckets))) (\<lambda>_.
     m_for row count_key ()))"

fun bucket_offsets :: "nat \<Rightarrow> nat list \<Rightarrow> nat result \<times> nat list" where
  "bucket_offsets k [] = (Inr k, [])"
| "bucket_offsets k (c # cs) =
     (case checked_add_u32 k c of
        None \<Rightarrow> (Inl ''sampling key offset overflow'', k # cs)
      | Some k' \<Rightarrow> (let (r, ks) = bucket_offsets k' cs in (r, k # ks)))"

definition place_id :: "nat \<times> bf16 \<Rightarrow> unit \<Rightarrow> (string, filter_workspace, unit) fallible" where
  "place_id p _ fw =
     (let (i, w) = p; k = bf16_order_key w; slot = fw_buckets fw ! k in
      if \<not> i < u32_limit then (Inl ''out of range integral type conversion attempted'', fw)
      else if \<not> slot < length (fw_order fw) then (Inl ''panicked: index out of bounds'', fw)
      else (Inr (), fw\<lparr>fw_order := (fw_order fw)[slot := i], fw_buckets := (fw_buckets fw)[k := slot + 1]\<rparr>))"

definition on_buckets :: "(string, nat list, 'a) fallible \<Rightarrow> (string, filter_workspace, 'a) fallible" where
  "on_buckets m fw = (case m (fw_buckets fw) of (r, buckets) \<Rightarrow> (r, fw\<lparr>fw_buckets := buckets\<rparr>))"

definition stable_ascending_order :: "bf16 list \<Rightarrow> (string, filter_workspace, unit) fallible" where
  "stable_ascending_order row =
     m_bind (on_buckets (count_score_keys row)) (\<lambda>_.
     m_bind (on_buckets (bucket_offsets 0)) (\<lambda>counted.
     m_bind (m_lift (ensure (counted = length row) ''sampling key count differs'' (Inr ()))) (\<lambda>_.
     m_bind (m_modify (\<lambda>fw. fw\<lparr>fw_order := vec_resize (length row) 0 (fw_order fw)\<rparr>)) (\<lambda>_.
     m_for (enumerate 0 row) place_id ()))))"

text \<open>The state of a filter: the device's, the row being filtered and the workspace.\<close>

type_synonym 'm filter_state = "'m \<times> bf16 list \<times> filter_workspace"

definition on_math :: "(string, 'm, 'a) fallible \<Rightarrow> (string, 'm filter_state, 'a) fallible" where
  "on_math f s = (case s of (m, rest) \<Rightarrow> case f m of (r, m') \<Rightarrow> (r, (m', rest)))"

definition on_workspace :: "(string, filter_workspace, 'a) fallible \<Rightarrow> (string, 'm filter_state, 'a) fallible" where
  "on_workspace f s = (case s of (m, row, fw) \<Rightarrow> case f fw of (r, fw') \<Rightarrow> (r, (m, row, fw')))"

definition mask_at :: "'g sampling_env \<Rightarrow> ieee \<Rightarrow> bf16 list \<Rightarrow> nat \<times> nat \<Rightarrow> bf16 list \<Rightarrow> bf16 list" where
  "mask_at env threshold cumulative p row =
     (if fl_le (to_f32 env (cumulative ! fst p)) threshold then row[snd p := NEG_INF] else row)"

text \<open>The order is a permutation of the ids of the row, so no index below leaves its vector.\<close>

definition top_p_filter_id :: "'g sampling_env \<Rightarrow> 'm preparation_math \<Rightarrow> ieee \<Rightarrow> (string, 'm filter_state, unit) fallible" where
  "top_p_filter_id env math top_p s =
     (let row = fst (snd s) in
      if fl_le top_p f64_zero \<or> fl_le f64_one top_p then (Inr (), s)
      else m_bind (on_math (exp_bf16 math row)) (\<lambda>exponentials.
        m_bind (on_workspace (m_modify (\<lambda>fw. fw\<lparr>fw_exponentials := exponentials\<rparr>))) (\<lambda>_.
        m_bind (m_lift (ensure (length exponentials = length row) ''top-p exp length differs'' (Inr ()))) (\<lambda>_.
        m_bind (on_workspace (stable_ascending_order row)) (\<lambda>_.
        m_bind (on_workspace (m_modify (\<lambda>fw. fw\<lparr>fw_sorted_exponentials := map ((!) (fw_exponentials fw)) (fw_order fw)\<rparr>))) (\<lambda>_.
        m_bind (on_workspace (m_get (\<lambda>fw. Inr (fw_sorted_exponentials fw)))) (\<lambda>sorted_exponentials.
        m_bind (on_math (cumulative_bf16 math sorted_exponentials)) (\<lambda>cumulative.
        m_bind (on_workspace (m_modify (\<lambda>fw. fw\<lparr>fw_cumulative := cumulative\<rparr>))) (\<lambda>_.
        m_bind (m_lift (ensure (length cumulative = length row) ''top-p scan length differs'' (Inr ()))) (\<lambda>_.
        m_modify (\<lambda>(m, row, fw).
          (m, fold (mask_at env (scalar env (fl_sub binary64 f64_one top_p)) (fw_cumulative fw))
                (enumerate 0 (fw_order fw)) row, fw))))))))))) s)"

fun score_cutoff :: "nat \<Rightarrow> (nat \<times> nat) list \<Rightarrow> nat option \<times> nat" where
  "score_cutoff remaining [] = (None, remaining)"
| "score_cutoff remaining ((k, c) # ks) =
     (if remaining \<le> c then (Some k, remaining) else score_cutoff (remaining - c) ks)"

fun mask_below :: "nat \<Rightarrow> nat \<Rightarrow> bf16 list \<Rightarrow> bf16 list" where
  "mask_below cutoff remaining [] = []"
| "mask_below cutoff remaining (w # ws) =
     (let k = bf16_order_key w in
      if k < cutoff \<or> k = cutoff \<and> remaining = 0 then NEG_INF # mask_below cutoff remaining ws
      else if k = cutoff then w # mask_below cutoff (remaining - 1) ws
      else w # mask_below cutoff remaining ws)"

definition top_k_filter_id :: "nat \<Rightarrow> (string, 'm filter_state, unit) fallible" where
  "top_k_filter_id top_k s =
     (let row = fst (snd s) in
      if top_k = 0 then (Inr (), s)
      else m_bind (m_lift (ensure (top_k < length row) ''top_k must be below vocabulary size'' (Inr ()))) (\<lambda>_.
        m_bind (on_workspace (on_buckets (count_score_keys row))) (\<lambda>_.
        m_bind (m_lift (ensure (top_k < u32_limit) ''out of range integral type conversion attempted'' (Inr ()))) (\<lambda>_.
        m_bind (on_workspace (m_get (\<lambda>fw. Inr (score_cutoff top_k (rev (enumerate 0 (fw_buckets fw))))))) (\<lambda>(found, remaining).
        m_bind (m_lift (ok_or found ''top-k score cutoff missing'')) (\<lambda>cutoff.
        m_modify (\<lambda>(m, row, fw). (m, mask_below cutoff remaining row, fw))))))) s)"

end
