(* ===== verification/Sampling_Filters.thy ===== *)
theory Sampling_Filters
  imports Sampling
begin

text \<open>
  The order of bfloat16 words behind the counting sort: the integer keys of the production filters agree with the
  comparison of the decoded values, and the order by key and id has the ranks that the bucket offsets compute.
\<close>

section \<open>Keys\<close>

unbundle bit_operations_syntax

lemma unat_low_bits: "unat (take_bit n w) = unat w mod 2 ^ n" for w :: bf16
  unfolding unsigned_take_bit_eq by (rule take_bit_eq_mod)

lemma word_low: "w AND 0x7fff = 0 \<longleftrightarrow> bf16_low w = 0" for w :: bf16
proof -
  have m: "(0x7fff :: bf16) = mask 15" by (simp add: mask_eq_exp_minus_1)
  have "w AND 0x7fff = take_bit 15 w" by (simp only: m take_bit_eq_mask)
  then have "w AND 0x7fff = 0 \<longleftrightarrow> unat (take_bit 15 w) = 0" by (simp only: unat_eq_0)
  then show ?thesis unfolding unat_low_bits by (simp add: bf16_low_def)
qed

lemma word_sign: "w AND 0x8000 \<noteq> 0 \<longleftrightarrow> bf16_negative w" for w :: bf16
proof -
  have "bit w 15 \<longleftrightarrow> w AND 0x8000 \<noteq> 0"
    using and_exp_eq_0_iff_not_bit [of w 15] by simp
  moreover have "bit w 15 \<longleftrightarrow> odd (unat w div 2 ^ 15)"
    using bit_iff_odd [of "unat w" 15] by (simp add: bit_unsigned_iff del: One_nat_def)
  moreover have "unat w < 65536" using unsigned_less [of w] by simp
  moreover have "odd (unat w div 32768) \<longleftrightarrow> 32768 \<le> unat w" if "unat w < 65536"
  proof -
    have "unat w div 32768 = 0 \<or> unat w div 32768 = 1" using that by linarith
    then show ?thesis using that by (auto simp: div_eq_0_iff)
  qed
  ultimately show ?thesis by (simp add: bf16_negative_def)
qed

lemma unat_not_bf16: "unat (NOT w) = 65535 - unat w" for w :: bf16
proof -
  have "NOT w = - 1 - w" by (simp add: not_eq_complement)
  moreover have "unat (- 1 - w) = unat (- 1 :: bf16) - unat w"
    by (rule unat_sub) simp
  ultimately show ?thesis by (simp add: unsigned_minus_1_eq_mask mask_eq_exp_minus_1)
qed

lemma unat_flip_sign: "\<not> bf16_negative w \<Longrightarrow> unat (w XOR 0x8000) = unat w + 32768"
proof -
  assume n: "\<not> bf16_negative w"
  then have z: "w AND 0x8000 = 0" using word_sign [of w] by simp
  then have "w XOR 0x8000 = w + 0x8000"
    by (metis disjunctive_xor_eq_or disjunctive_add_eq_or)
  moreover have "unat w + unat (0x8000 :: bf16) < 2 ^ 16" using n by (simp add: bf16_negative_def)
  ultimately show ?thesis by (simp add: unat_word_ariths)
qed

lemma bf16_order_key_rank: "bf16_order_key w = (if bf16_rank w < 0 then nat (32767 + bf16_rank w) else nat (32768 + bf16_rank w))"
proof -
  have n: "unat w < 65536" using unsigned_less [of w] by simp
  have r: "bf16_rank w = (if bf16_negative w then - int (unat w mod 32768) else int (unat w mod 32768))"
    by (simp add: bf16_rank_def bf16_low_def)
  show ?thesis
  proof (cases "bf16_low w = 0")
    case True
    then have "bf16_order_key w = 32768"
      by (simp add: bf16_order_key_def word_low)
    with True show ?thesis by (simp add: bf16_rank_def)
  next
    case low: False
    then have k: "bf16_order_key w = (if bf16_negative w then unat (NOT w) else unat (w XOR 0x8000))"
      using word_low [of w] word_sign [of w] by (simp add: bf16_order_key_def Let_def)
    show ?thesis
    proof (cases "bf16_negative w")
      case True
      with n have "unat w mod 32768 = unat w - 32768" by (simp add: bf16_negative_def mod_if)
      with True k r low n show ?thesis
        by (auto simp: unat_not_bf16 bf16_low_def bf16_negative_def nat_diff_distrib nat_eq_iff of_nat_diff
            simp del: of_nat_unat)
    next
      case False
      then have "unat w mod 32768 = unat w" by (simp add: bf16_negative_def)
      with False k r show ?thesis
        by (simp add: unat_flip_sign nat_add_distrib del: of_nat_unat)
    qed
  qed
qed

lemma bf16_is_nan_value: "bf16_is_nan w \<longleftrightarrow> is_nan (bf16_value w)"
proof -
  define n where "n = unat w"
  have n: "n < 65536" using unsigned_less [of w] by (simp add: n_def)
  have e: "(0x7f80 :: bf16) = push_bit 7 (mask 8)" by (simp add: mask_eq_exp_minus_1)
  have m: "(0x007f :: bf16) = mask 7" by (simp add: mask_eq_exp_minus_1)
  have exponent: "w AND 0x7f80 = push_bit 7 (take_bit 8 (drop_bit 7 w))"
    unfolding e by (rule bit_eqI) (auto simp: bit_simps)
  have "unat (w AND 0x7f80) = n div 128 mod 256 * 128"
  proof -
    have "n div 128 mod 256 * 128 < 2 ^ 16" using pos_mod_bound by (simp add: mult_less_cancel2)
    moreover have "unat (take_bit 8 (drop_bit 7 w)) = n div 128 mod 256"
      unfolding unat_low_bits unat_drop_bit_eq n_def by (simp add: drop_bit_eq_div)
    ultimately have "take_bit 16 (push_bit 7 (unat (take_bit 8 (drop_bit 7 w)))) = n div 128 mod 256 * 128"
      by (simp only: push_bit_eq_mult take_bit_eq_mod) simp
    then show ?thesis unfolding exponent unsigned_push_bit_eq by simp
  qed
  moreover have "w AND 0x7f80 = 0x7f80 \<longleftrightarrow> unat (w AND 0x7f80) = 32640"
    by (simp add: word_unat_eq_iff)
  moreover have "w AND 0x007f = 0 \<longleftrightarrow> n mod 128 = 0"
    unfolding m take_bit_eq_mask [symmetric] using unat_low_bits [of 7 w] by (simp add: n_def unat_eq_0 [symmetric] del: unat_eq_0)
  moreover have "n mod 32768 = n div 128 mod 256 * 128 + n mod 128"
    using mod_mult2_eq [of n 128 256] by simp
  ultimately show ?thesis by (auto simp: bf16_is_nan_def bf16_nan_iff bf16_low_def n_def [symmetric])
qed

lemma order_key_bound: "bf16_order_key w < 65536"
  by (simp add: bf16_order_key_def Let_def unsigned_less [where 'b = 16, simplified])

lemma order_key_less: "bf16_order_key v < bf16_order_key w \<longleftrightarrow> bf16_rank v < bf16_rank w"
proof -
  have "- 32767 \<le> bf16_rank u" for u using mod_less_divisor [of 32768 "unat u"] by (simp add: bf16_rank_def bf16_low_def del: mod_less_divisor)
  from this [of v] this [of w] show ?thesis by (auto simp: bf16_order_key_rank)
qed

lemma order_key_eq: "bf16_order_key v = bf16_order_key w \<longleftrightarrow> bf16_rank v = bf16_rank w"
  using order_key_less [of v w] order_key_less [of w v] by (metis linorder_neqE_nat less_irrefl linorder_neqE)

section \<open>Orders and ranks\<close>

text \<open>A strict order on ids. The sorted list of a set of ids has every id at the number of ids before it.\<close>

locale strict_order =
  fixes precedes :: "'a \<Rightarrow> 'a \<Rightarrow> bool"
  assumes irrefl: "\<not> precedes x x"
    and trans: "precedes x y \<Longrightarrow> precedes y z \<Longrightarrow> precedes x z"
    and total: "x \<noteq> y \<Longrightarrow> precedes x y \<or> precedes y x"
begin

lemma asym: "precedes x y \<Longrightarrow> \<not> precedes y x"
  using irrefl trans by blast

lemma set_insert_by [simp]: "set (insert_by precedes x ys) = insert x (set ys)"
  by (induction ys) auto

lemma distinct_insert_by: "distinct ys \<Longrightarrow> x \<notin> set ys \<Longrightarrow> distinct (insert_by precedes x ys)"
  by (induction ys) auto

lemma length_insert_by [simp]: "length (insert_by precedes x ys) = Suc (length ys)"
  by (induction ys) auto

lemma sorted_insert_by: "sorted_wrt precedes ys \<Longrightarrow> x \<notin> set ys \<Longrightarrow> sorted_wrt precedes (insert_by precedes x ys)"
proof (induction ys)
  case (Cons y ys)
  then show ?case using total [of x y] trans [of x y] by auto
qed simp

lemma sort_by_simps: "sort_by precedes [] = []" "sort_by precedes (x # xs) = insert_by precedes x (sort_by precedes xs)"
  by (simp_all add: sort_by_def)

lemma set_sort_by [simp]: "set (sort_by precedes xs) = set xs"
  by (induction xs) (simp_all add: sort_by_simps)

lemma length_sort_by [simp]: "length (sort_by precedes xs) = length xs"
  by (induction xs) (simp_all add: sort_by_simps)

lemma sort_by_sorted:
  "distinct xs \<Longrightarrow> sorted_wrt precedes (sort_by precedes xs) \<and> distinct (sort_by precedes xs)"
  by (induction xs) (simp_all add: sort_by_simps sorted_insert_by distinct_insert_by)

definition rank :: "'a set \<Rightarrow> 'a \<Rightarrow> nat" where
  "rank A x = card {y \<in> A. precedes y x}"

lemma rank_less: "finite A \<Longrightarrow> x \<in> A \<Longrightarrow> rank A x < card A"
  unfolding rank_def using irrefl by (intro psubset_card_mono) auto

lemma rank_mono: "finite A \<Longrightarrow> x \<in> A \<Longrightarrow> precedes x y \<Longrightarrow> rank A x < rank A y"
  unfolding rank_def
proof (rule psubset_card_mono)
  assume "finite A" "x \<in> A" "precedes x y"
  then have "x \<in> {z \<in> A. precedes z y} - {z \<in> A. precedes z x}" using irrefl by simp
  moreover have "{z \<in> A. precedes z x} \<subseteq> {z \<in> A. precedes z y}" using \<open>precedes x y\<close> trans by auto
  ultimately show "{z \<in> A. precedes z x} \<subset> {z \<in> A. precedes z y}" by blast
qed simp

lemma rank_inj: "finite A \<Longrightarrow> inj_on (rank A) A"
  using rank_mono total by (intro inj_onI) (metis less_irrefl)

lemma rank_image: "finite A \<Longrightarrow> rank A ` A = {..<card A}"
  using rank_less rank_inj by (intro card_subset_eq) (auto simp: card_image)

lemma sorted_rank:
  assumes "sorted_wrt precedes T" "distinct T" "p < length T"
  shows "rank (set T) (T ! p) = p"
proof -
  have "{y \<in> set T. precedes y (T ! p)} = set (take p T)"
  proof (intro set_eqI iffI)
    fix y
    assume "y \<in> {y \<in> set T. precedes y (T ! p)}"
    then obtain q where q: "q < length T" "y = T ! q" "precedes (T ! q) (T ! p)"
      by (auto simp: in_set_conv_nth)
    have "q < p"
    proof (rule ccontr)
      assume "\<not> q < p"
      then have "q = p \<or> precedes (T ! p) (T ! q)"
        using sorted_wrt_nth_less [OF assms(1), of p q] q(1) by (cases "q = p") auto
      then show False using q(3) irrefl asym by metis
    qed
    then show "y \<in> set (take p T)" using q by (auto simp: in_set_conv_nth)
  next
    fix y
    assume "y \<in> set (take p T)"
    then obtain q where "q < p" "y = T ! q" using assms(3) by (auto simp: in_set_conv_nth)
    then show "y \<in> {y \<in> set T. precedes y (T ! p)}"
      using sorted_wrt_nth_less [OF assms(1), of q p] assms(3) by simp
  qed
  then show ?thesis using assms(2,3) by (simp add: rank_def distinct_card)
qed

text \<open>A list that has every id at its rank is the sorted list.\<close>

lemma ranked_is_sorted:
  assumes "distinct xs" "length ys = length xs" "\<And>x. x \<in> set xs \<Longrightarrow> ys ! rank (set xs) x = x"
  shows "ys = sort_by precedes xs"
proof (rule nth_equalityI)
  show "length ys = length (sort_by precedes xs)" using assms(2) by simp
  fix p
  assume p: "p < length ys"
  define x where "x = sort_by precedes xs ! p"
  have "x \<in> set xs" using p assms(2) nth_mem [of p "sort_by precedes xs"] by (simp add: x_def)
  moreover have "rank (set xs) x = p"
    using sorted_rank [of "sort_by precedes xs" p] sort_by_sorted [OF assms(1)] p assms(2) by (simp add: x_def)
  ultimately show "ys ! p = sort_by precedes xs ! p" using assms(3) x_def by metis
qed

lemma take_sorted_iff:
  assumes "distinct xs" "x \<in> set xs"
  shows "x \<in> set (take k (sort_by precedes xs)) \<longleftrightarrow> rank (set xs) x < k"
proof -
  let ?T = "sort_by precedes xs"
  obtain p where p: "p < length ?T" "?T ! p = x" using assms(2) by (metis in_set_conv_nth set_sort_by)
  then have "rank (set xs) x = p"
    using sorted_rank [of ?T p] sort_by_sorted [OF assms(1)] by simp
  moreover have "x \<in> set (take k ?T) \<longleftrightarrow> p < k"
    using p sort_by_sorted [OF assms(1)] by (auto simp: in_set_conv_nth nth_eq_iff_index_eq)
  ultimately show ?thesis by simp
qed

end

lemma insert_by_cong:
  "(\<And>a b. a \<in> insert x (set ys) \<Longrightarrow> b \<in> insert x (set ys) \<Longrightarrow> f a b = g a b) \<Longrightarrow> insert_by f x ys = insert_by g x ys"
  by (induction ys) auto

lemma set_insert_by_subset: "set (insert_by f x ys) = insert x (set ys)"
  by (induction ys) auto

lemma set_sort_by_all: "set (sort_by f xs) = set xs"
  by (induction xs) (simp_all add: sort_by_def set_insert_by_subset)

lemma sort_by_cong: "(\<And>a b. a \<in> set xs \<Longrightarrow> b \<in> set xs \<Longrightarrow> f a b = g a b) \<Longrightarrow> sort_by f xs = sort_by g xs"
proof (induction xs)
  case (Cons x xs)
  then have "sort_by f xs = sort_by g xs" by simp
  moreover have "insert_by f x (sort_by g xs) = insert_by g x (sort_by g xs)"
    using Cons.prems by (intro insert_by_cong) (auto simp: set_sort_by_all)
  ultimately show ?case by (simp add: sort_by_def)
qed (simp add: sort_by_def)

text \<open>Ids in the order of their keys, ties by id.\<close>

definition precedes_by :: "'k::linorder list \<Rightarrow> nat \<Rightarrow> nat \<Rightarrow> bool" where
  "precedes_by ks a b \<longleftrightarrow> ks ! a < ks ! b \<or> ks ! a = ks ! b \<and> a < b"

interpretation keyed: strict_order "precedes_by ks" for ks
  by unfold_locales (auto simp: precedes_by_def)

definition key_rank :: "'k::linorder list \<Rightarrow> nat \<Rightarrow> nat" where
  "key_rank ks i = length (filter (\<lambda>k. k < ks ! i) ks) + length (filter (\<lambda>k. k = ks ! i) (take i ks))"

lemma key_rank_eq:
  assumes "i < length ks"
  shows "strict_order.rank (precedes_by ks) {0..<length ks} i = key_rank ks i"
proof -
  have "{j \<in> {0..<length ks}. precedes_by ks j i} =
      {j. j < length ks \<and> ks ! j < ks ! i} \<union> {j. j < i \<and> take i ks ! j = ks ! i}"
    using assms by (auto simp: precedes_by_def)
  moreover have "card {j. j < length ks \<and> ks ! j < ks ! i} = length (filter (\<lambda>k. k < ks ! i) ks)"
    by (simp add: length_filter_conv_card)
  moreover have "card {j. j < i \<and> take i ks ! j = ks ! i} = length (filter (\<lambda>k. k = ks ! i) (take i ks))"
    using assms by (simp add: length_filter_conv_card min_absorb2 less_imp_le)
  moreover have "{j. j < length ks \<and> ks ! j < ks ! i} \<inter> {j. j < i \<and> take i ks ! j = ks ! i} = {}"
    by auto
  ultimately show ?thesis by (simp add: keyed.rank_def key_rank_def card_Un_disjoint)
qed

lemma key_rank_less: "i < length ks \<Longrightarrow> key_rank ks i < length ks"
  using keyed.rank_less [of "{0..<length ks}" i ks] by (simp add: key_rank_eq)

lemma key_rank_inj: "i < length ks \<Longrightarrow> j < length ks \<Longrightarrow> key_rank ks i = key_rank ks j \<Longrightarrow> i = j"
  using keyed.rank_inj [of "{0..<length ks}" ks] by (auto simp: inj_on_def key_rank_eq)

lemma ranked_by_keys:
  assumes "length ys = length ks" "\<And>i. i < length ks \<Longrightarrow> ys ! key_rank ks i = i"
  shows "ys = sort_by (precedes_by ks) [0..<length ks]"
  using assms by (intro keyed.ranked_is_sorted) (simp_all add: key_rank_eq)

lemma taken_by_keys:
  "i < length ks \<Longrightarrow> i \<in> set (take k (sort_by (precedes_by ks) [0..<length ks])) \<longleftrightarrow> key_rank ks i < k"
  by (subst keyed.take_sorted_iff) (simp_all add: key_rank_eq)

text \<open>
  The counting sort and the score cutoff of the production filters compute the order of the reference
  filters: the buckets count keys, their offsets are ranks, and the cutoff separates the best ids from the rest.
\<close>

section \<open>Counting\<close>

definition key_count :: "bf16 list \<Rightarrow> nat \<Rightarrow> nat" where
  "key_count row k = length (filter (\<lambda>w. bf16_order_key w = k) row)"

definition keys_below :: "bf16 list \<Rightarrow> nat \<Rightarrow> nat" where
  "keys_below row k = length (filter (\<lambda>w. bf16_order_key w < k) row)"

definition key_total :: nat where "key_total = 65536"

definition histogram :: "bf16 list \<Rightarrow> nat list" where
  "histogram row = map (key_count row) [0..<key_total]"

lemma histogram_simps [simp]:
  "length (histogram row) = key_total" "k < key_total \<Longrightarrow> histogram row ! k = key_count row k"
  by (simp_all add: histogram_def)

lemma order_key_less_total [simp]: "bf16_order_key w < key_total"
  using order_key_bound [of w] by (simp add: key_total_def)

lemma key_count_simps [simp]:
  "key_count [] k = 0" "key_count (w # ws) k = (if bf16_order_key w = k then Suc (key_count ws k) else key_count ws k)"
  "key_count (vs @ ws) k = key_count vs k + key_count ws k"
  by (simp_all add: key_count_def)

lemma key_count_le: "key_count row k \<le> length row"
  by (simp add: key_count_def)

lemma keys_below_Suc: "keys_below row (Suc k) = keys_below row k + key_count row k"
  by (induction row) (auto simp: keys_below_def less_Suc_eq)

lemma keys_below_0 [simp]: "keys_below row 0 = 0"
  by (simp add: keys_below_def)

lemma keys_below_total [simp]: "keys_below row key_total = length row"
  by (simp add: keys_below_def)

lemma keys_below_le: "keys_below row k \<le> length row"
  by (simp add: keys_below_def)

lemma cleared_buckets: "vec_fill 0 (vec_resize 65536 0 buckets) = histogram []"
  by (rule nth_equalityI) (auto simp: vec_fill_def vec_resize_def nth_append key_total_def [symmetric])

lemma count_key_histogram:
  "length pre + 1 < u32_limit \<Longrightarrow> count_key w () (histogram pre) = (Inr (), histogram (pre @ [w]))"
proof -
  assume "length pre + 1 < u32_limit"
  then have "key_count pre (bf16_order_key w) + 1 < u32_limit"
    using key_count_le [of pre "bf16_order_key w"] by simp
  moreover have "(histogram pre)[bf16_order_key w := Suc (key_count pre (bf16_order_key w))] = histogram (pre @ [w])"
    by (rule nth_equalityI) (auto simp: nth_list_update)
  ultimately show ?thesis by (simp add: count_key_def checked_add_u32_def Let_def)
qed

lemma count_loop:
  "length (pre @ row) < u32_limit \<Longrightarrow> m_for row count_key () (histogram pre) = (Inr (), histogram (pre @ row))"
proof (induction row arbitrary: pre)
  case (Cons w row)
  then show ?case using Cons.IH [of "pre @ [w]"] by (simp add: count_key_histogram [simplified])
qed simp

lemma count_score_keys_ok:
  "list_all (\<lambda>w. \<not> bf16_is_nan w) row \<Longrightarrow> length row < u32_limit \<Longrightarrow>
    count_score_keys row buckets = (Inr (), histogram row)"
  using count_loop [of "[]" row] by (simp add: count_score_keys_def cleared_buckets)

lemma bucket_offsets_ok:
  "k + sum_list cs < u32_limit \<Longrightarrow>
    bucket_offsets k cs = (Inr (k + sum_list cs), map (\<lambda>i. k + sum_list (take i cs)) [0..<length cs])"
proof (induction cs arbitrary: k)
  case (Cons c cs)
  then have "bucket_offsets (k + c) cs =
      (Inr (k + c + sum_list cs), map (\<lambda>i. k + c + sum_list (take i cs)) [0..<length cs])" by simp
  moreover have "checked_add_u32 k c = Some (k + c)" using Cons.prems by (simp add: checked_add_u32_def)
  ultimately show ?case by (simp add: upt_conv_Cons map_Suc_upt [symmetric] add.assoc del: upt_Suc)
qed simp

lemma histogram_prefix: "k \<le> key_total \<Longrightarrow> sum_list (take k (histogram row)) = keys_below row k"
proof (induction k)
  case (Suc k)
  then have "take (Suc k) (histogram row) = take k (histogram row) @ [key_count row k]"
    by (simp add: take_Suc_conv_app_nth)
  with Suc show ?case by (simp add: keys_below_Suc)
qed simp

section \<open>Placing the ids\<close>

abbreviation row_keys :: "bf16 list \<Rightarrow> nat list" where "row_keys row \<equiv> map bf16_order_key row"

lemma key_rank_offset:
  "key_rank (row_keys (pre @ w # rest)) (length pre) =
     keys_below (pre @ w # rest) (bf16_order_key w) + key_count pre (bf16_order_key w)"
proof -
  have "row_keys (pre @ w # rest) ! length pre = bf16_order_key w"
    by (simp add: nth_append del: map_append)
  then show ?thesis by (simp add: key_rank_def keys_below_def key_count_def filter_map o_def)
qed

lemma place_loop:
  assumes "row = pre @ rest" "length row < u32_limit"
    and "length order = length row"
    and "\<And>i. i < length pre \<Longrightarrow> order ! key_rank (row_keys row) i = i"
    and "fw_order fw = order" "fw_buckets fw = map (\<lambda>k. keys_below row k + key_count pre k) [0..<key_total]"
  shows "\<exists>order' buckets'. m_for (enumerate (length pre) rest) place_id () fw =
      (Inr (), fw\<lparr>fw_order := order', fw_buckets := buckets'\<rparr>) \<and>
      length order' = length row \<and> (\<forall>i < length row. order' ! key_rank (row_keys row) i = i)"
  using assms
proof (induction rest arbitrary: pre order fw)
  case Nil
  then show ?case by (intro exI [of _ "fw_order fw"] exI [of _ "fw_buckets fw"]) auto
next
  case (Cons w rest)
  let ?k = "bf16_order_key w" and ?i = "length pre" and ?rank = "key_rank (row_keys row)"
  have i: "?i < length row" using Cons.prems(1) by simp
  have slot: "fw_buckets fw ! ?k = ?rank ?i"
    using Cons.prems(1,6) key_rank_offset [of pre w rest] by simp
  have inside: "?rank ?i < length row" using key_rank_less [of ?i "row_keys row"] i by simp
  define order1 where "order1 = order[?rank ?i := ?i]"
  define buckets1 where "buckets1 = map (\<lambda>k. keys_below row k + key_count (pre @ [w]) k) [0..<key_total]"
  define fw1 where "fw1 = fw\<lparr>fw_order := order1, fw_buckets := buckets1\<rparr>"
  have "(fw_buckets fw)[?k := Suc (?rank ?i)] = buckets1"
    using Cons.prems(1,6) key_rank_offset [of pre w rest]
    by (intro nth_equalityI) (auto simp: buckets1_def nth_list_update)
  then have step: "place_id (?i, w) () fw = (Inr (), fw1)"
    using i inside Cons.prems(2,3,5) slot by (simp add: place_id_def Let_def order1_def fw1_def)
  have placed: "order1 ! ?rank j = j" if "j < length (pre @ [w])" for j
  proof (cases "j = ?i")
    case True
    then show ?thesis using inside Cons.prems(3) by (simp add: order1_def)
  next
    case False
    with that have j: "j < length pre" by simp
    then have "?rank j \<noteq> ?rank ?i" using key_rank_inj [of j "row_keys row" ?i] i by auto
    then show ?thesis using Cons.prems(4) [OF j] by (simp add: order1_def)
  qed
  have "\<exists>order' buckets'. m_for (enumerate (length (pre @ [w])) rest) place_id () fw1 =
      (Inr (), fw1\<lparr>fw_order := order', fw_buckets := buckets'\<rparr>) \<and>
      length order' = length row \<and> (\<forall>i < length row. order' ! ?rank i = i)"
    using Cons.prems(1-3) placed
    by (intro Cons.IH [of "pre @ [w]" order1 fw1]) (simp_all add: order1_def fw1_def buckets1_def)
  then show ?case using step by (auto simp: fw1_def)
qed

lemma stable_ascending_order_ok:
  assumes "list_all (\<lambda>w. \<not> bf16_is_nan w) row" "length row < u32_limit"
  shows "\<exists>buckets. stable_ascending_order row fw =
      (Inr (), fw\<lparr>fw_order := sort_by (precedes_by (row_keys row)) [0..<length row], fw_buckets := buckets\<rparr>)"
proof -
  let ?offsets = "map (\<lambda>k. keys_below row k + key_count [] k) [0..<key_total]"
  have counted: "on_buckets (count_score_keys row) fw = (Inr (), fw\<lparr>fw_buckets := histogram row\<rparr>)"
    using assms by (simp add: on_buckets_def count_score_keys_ok)
  have "map (\<lambda>i. sum_list (take i (histogram row))) [0..<key_total] = ?offsets"
    by (simp add: histogram_prefix)
  moreover have sum: "sum_list (histogram row) = length row"
    using histogram_prefix [of key_total row] by simp
  ultimately have offsets: "bucket_offsets 0 (histogram row) = (Inr (length row), ?offsets)"
    using bucket_offsets_ok [of 0 "histogram row"] assms(2) by simp
  define fw1 where "fw1 = fw\<lparr>fw_buckets := ?offsets, fw_order := vec_resize (length row) 0 (fw_order fw)\<rparr>"
  have "length (fw_order fw1) = length row" by (simp add: fw1_def vec_resize_def)
  then obtain order buckets where
    placed: "m_for (enumerate 0 row) place_id () fw1 = (Inr (), fw1\<lparr>fw_order := order, fw_buckets := buckets\<rparr>)"
      "length order = length row" "\<forall>i < length row. order ! key_rank (row_keys row) i = i"
    using place_loop [of row "[]" row "fw_order fw1" fw1] assms(2) by (auto simp: fw1_def)
  then have "order = sort_by (precedes_by (row_keys row)) [0..<length row]"
    using ranked_by_keys [of order "row_keys row"] by simp
  then show ?thesis
    using counted offsets placed(1)
    by (auto simp: stable_ascending_order_def on_buckets_def [of "bucket_offsets 0"] fw1_def)
qed

section \<open>The score cutoff\<close>

lemma enumerate_snoc: "enumerate n (xs @ [x]) = enumerate n xs @ [(n + length xs, x)]"
  by (simp add: enumerate_append_eq)

text \<open>Going down from the greatest key, the scan stops at the bucket that holds the last id to keep.\<close>

lemma score_cutoff_found:
  assumes "j \<le> key_total" "0 < k" "k \<le> keys_below row j"
  shows "\<exists>c r. score_cutoff k (rev (enumerate 0 (take j (histogram row)))) = (Some c, r) \<and> c < j \<and>
      0 < r \<and> r \<le> key_count row c \<and> k + keys_below row (Suc c) = r + keys_below row j"
  using assms
proof (induction j arbitrary: k)
  case (Suc j)
  then have split: "rev (enumerate 0 (take (Suc j) (histogram row))) =
      (j, key_count row j) # rev (enumerate 0 (take j (histogram row)))"
    by (simp add: take_Suc_conv_app_nth enumerate_snoc min_absorb2)
  show ?case
  proof (cases "k \<le> key_count row j")
    case True
    with Suc.prems split show ?thesis by (auto simp: keys_below_Suc)
  next
    case False
    have "j \<le> key_total" "0 < k - key_count row j" "k - key_count row j \<le> keys_below row j"
      using False Suc.prems by (simp_all add: keys_below_Suc)
    from Suc.IH [OF this] obtain c r where "score_cutoff (k - key_count row j) (rev (enumerate 0 (take j (histogram row)))) = (Some c, r)"
        "c < j" "0 < r" "r \<le> key_count row c" "k - key_count row j + keys_below row (Suc c) = r + keys_below row j"
      by blast
    with False split show ?thesis by (auto simp: keys_below_Suc)
  qed
qed simp

lemma score_cutoff_ok:
  assumes "0 < k" "k \<le> length row"
  shows "\<exists>c r. score_cutoff k (rev (enumerate 0 (histogram row))) = (Some c, r) \<and>
      0 < r \<and> r \<le> key_count row c \<and> k + keys_below row (Suc c) = r + length row"
  using score_cutoff_found [of key_total k row] assms by auto

lemma mask_below_loop:
  "row = pre @ rest \<Longrightarrow> mask_below c (r - key_count pre c) rest =
     map (\<lambda>(i, w). if c < bf16_order_key w \<or> bf16_order_key w = c \<and> key_count (take i row) c < r then w else NEG_INF)
       (enumerate (length pre) rest)"
proof (induction rest arbitrary: pre)
  case (Cons w rest)
  then have IH: "mask_below c (r - key_count (pre @ [w]) c) rest =
      map (\<lambda>(i, w). if c < bf16_order_key w \<or> bf16_order_key w = c \<and> key_count (take i row) c < r then w else NEG_INF)
        (enumerate (Suc (length pre)) rest)" by simp
  have pre: "take (length pre) row = pre" using Cons.prems by simp
  consider "c < bf16_order_key w" | "bf16_order_key w < c" | "bf16_order_key w = c" by linarith
  then show ?case
  proof cases
    case 3
    have "r - key_count (pre @ [w]) c = r - key_count pre c - 1" using 3 by simp
    with IH have "mask_below c (r - key_count pre c - 1) rest =
      map (\<lambda>(i, w). if c < bf16_order_key w \<or> bf16_order_key w = c \<and> key_count (take i row) c < r then w else NEG_INF)
        (enumerate (Suc (length pre)) rest)" by simp
    with 3 pre show ?thesis by (cases "r - key_count pre c = 0") simp_all
  qed (use IH in simp_all)
qed simp

text \<open>Best scores first, ties to the smaller id.\<close>

abbreviation score_order :: "bf16 list \<Rightarrow> int list" where
  "score_order row \<equiv> map (\<lambda>w. - int (bf16_order_key w)) row"

lemma score_rank:
  assumes "i < length row"
  shows "key_rank (score_order row) i =
      length row - keys_below row (Suc (bf16_order_key (row ! i))) + key_count (take i row) (bf16_order_key (row ! i))"
proof -
  let ?k = "bf16_order_key (row ! i)"
  have "length (filter (\<lambda>w. ?k < bf16_order_key w) row) + keys_below row (Suc ?k) = length row"
    using sum_length_filter_compl [of "\<lambda>w. ?k < bf16_order_key w" row]
    by (simp add: keys_below_def not_less less_Suc_eq_le)
  moreover have "key_rank (score_order row) i =
      length (filter (\<lambda>w. ?k < bf16_order_key w) row) + key_count (take i row) ?k"
    using assms by (simp add: key_rank_def filter_map o_def take_map key_count_def)
  ultimately show ?thesis by simp
qed

lemma keys_below_mono: "j \<le> k \<Longrightarrow> keys_below row j \<le> keys_below row k"
  by (rule lift_Suc_mono_le [of "keys_below row"]) (simp_all add: keys_below_Suc)

lemma key_count_before: "i < length row \<Longrightarrow> key_count (take i row) (bf16_order_key (row ! i)) < key_count row (bf16_order_key (row ! i))"
proof -
  assume "i < length row"
  then have "row = take i row @ row ! i # drop (Suc i) row" by (simp add: id_take_nth_drop)
  then have "key_count row k = key_count (take i row) k + key_count (row ! i # drop (Suc i) row) k" for k
    by (metis key_count_simps(3))
  then show ?thesis by simp
qed

lemma cutoff_rank:
  assumes "i < length row" "0 < r" "r \<le> key_count row c" "k + keys_below row (Suc c) = r + length row"
  shows "key_rank (score_order row) i < k \<longleftrightarrow>
      c < bf16_order_key (row ! i) \<or> bf16_order_key (row ! i) = c \<and> key_count (take i row) c < r"
proof -
  let ?k = "bf16_order_key (row ! i)"
  have le: "keys_below row j \<le> length row" for j by (rule keys_below_le)
  have before: "key_count (take i row) ?k < key_count row ?k" by (rule key_count_before [OF assms(1)])
  consider "c < ?k" | "?k = c" | "?k < c" by linarith
  then show ?thesis
  proof cases
    case 1
    then have "keys_below row (Suc c) \<le> keys_below row ?k" by (intro keys_below_mono) simp
    then have "key_rank (score_order row) i < k"
      using before le [of "Suc ?k"] le [of "Suc c"] assms by (simp add: score_rank keys_below_Suc)
    with 1 show ?thesis by simp
  next
    case 2
    then show ?thesis using le [of "Suc c"] assms by (auto simp: score_rank)
  next
    case 3
    then have "keys_below row (Suc ?k) \<le> keys_below row c" by (intro keys_below_mono) simp
    then have "k \<le> key_rank (score_order row) i"
      using le [of "Suc c"] assms by (simp add: score_rank keys_below_Suc)
    with 3 show ?thesis by simp
  qed
qed

lemma mask_below_keeps_best:
  assumes "0 < r" "r \<le> key_count row c" "k + keys_below row (Suc c) = r + length row"
  shows "mask_below c r row = keep_ids (take k (sort_by (precedes_by (score_order row)) [0..<length row])) row"
proof -
  have "mask_below c r row =
      map (\<lambda>(i, w). if c < bf16_order_key w \<or> bf16_order_key w = c \<and> key_count (take i row) c < r then w else NEG_INF)
        (enumerate 0 row)"
    using mask_below_loop [of row "[]" row c r] by simp
  also have "\<dots> = keep_ids (take k (sort_by (precedes_by (score_order row)) [0..<length row])) row"
    unfolding keep_ids_def
  proof (rule map_cong [OF refl])
    fix p
    assume "p \<in> set (enumerate 0 row)"
    then obtain i where "i < length row" "p = (i, row ! i)" by (auto simp: in_set_enumerate_eq)
    then show "(case p of (i, w) \<Rightarrow> if c < bf16_order_key w \<or> bf16_order_key w = c \<and> key_count (take i row) c < r then w else NEG_INF) =
        (case p of (i, w) \<Rightarrow> if i \<in> set (take k (sort_by (precedes_by (score_order row)) [0..<length row])) then w else NEG_INF)"
      using cutoff_rank [OF _ assms, of i] taken_by_keys [of i "score_order row" k] by simp
  qed
  finally show ?thesis .
qed

end
