(* ===== verification/Sampler.thy ===== *)
theory Sampler
  imports Sampling
begin

text \<open>
  Preparing a row and drawing a token (\<open>sampling.rs\<close>): \<open>prepare_with_math\<close> keeps every stage for the diagnostic
  path, \<open>prepare_id_with_math\<close> works in the retained workspace of the production path; both are followed by the same
  categorical draw or greedy choice.
\<close>

section \<open>Preparation with every stage kept\<close>

record sampling_stages =
  ss_adjusted_logits :: "bf16 list"
  ss_logsumexp :: bf16
  ss_logprobs :: "bf16 list"
  ss_top_p_exp :: "bf16 list option"
  ss_top_p_cumulative :: "bf16 list option"
  ss_top_p :: "bf16 list"
  ss_min_p :: "bf16 list"
  ss_filtered :: "bf16 list"
  ss_scaled :: "bf16 list option"

definition stochastic :: "sampling_options \<Rightarrow> bool" where
  "stochastic so \<longleftrightarrow> fl_less f64_zero (so_temperature so)"

definition normalised :: "'g sampling_env \<Rightarrow> bf16 \<Rightarrow> bf16 \<Rightarrow> bf16" where
  "normalised env normalizer w = round_bf16 env (fl_sub binary32 (to_f32 env w) (to_f32 env normalizer))"

definition scaled_row :: "'g sampling_env \<Rightarrow> sampling_options \<Rightarrow> bf16 list \<Rightarrow> bf16 list" where
  "scaled_row env so row =
     (let reciprocal = scalar env (fl_div binary64 f64_one (so_temperature so))
      in map (\<lambda>w. round_bf16 env (fl_mul binary32 (to_f32 env w) reciprocal)) row)"

definition prepare_with_math ::
    "'g sampling_env \<Rightarrow> 'm preparation_math \<Rightarrow> bf16 list \<Rightarrow> nat list \<Rightarrow> sampling_options \<Rightarrow>
      (string, 'm, sampling_stages) fallible" where
  "prepare_with_math env math logits history so =
     m_bind (m_lift (bindr (options_validate env so) (\<lambda>_.
        ensure (logits \<noteq> []) ''sampling needs a vocabulary row''
       (ensure (list_all (\<lambda>w. is_finite (to_f32 env w)) logits) ''sampling logits must be finite BF16''
         (presence env logits history so))))) (\<lambda>adjusted.
     m_bind (logsumexp_bf16 math adjusted) (\<lambda>normalizer.
     let logprobs = map (normalised env normalizer) adjusted in
     m_bind (if stochastic so then top_p_filter env math (so_top_p so) logprobs else m_return (logprobs, None)) (\<lambda>(top_p, intermediates).
     let min_p = (if stochastic so then min_p_filter env (so_min_p so) top_p else top_p) in
     m_bind (m_lift (if stochastic so then top_k_filter env (so_top_k so) min_p else Inr min_p)) (\<lambda>filtered.
     m_return
       \<lparr>ss_adjusted_logits = adjusted, ss_logsumexp = normalizer, ss_logprobs = logprobs,
        ss_top_p_exp = map_option fst intermediates, ss_top_p_cumulative = map_option snd intermediates,
        ss_top_p = top_p, ss_min_p = min_p, ss_filtered = filtered,
        ss_scaled = (if stochastic so then Some (scaled_row env so filtered) else None)\<rparr>))))"

section \<open>Preparation in the workspace\<close>

type_synonym 'm row_state = "'m \<times> sampling_workspace"

definition update_workspace :: "(sampling_workspace \<Rightarrow> sampling_workspace) \<Rightarrow> (string, 'm row_state, unit) fallible" where
  "update_workspace f = m_modify (\<lambda>(m, sw). (m, f sw))"

definition read_workspace :: "(sampling_workspace \<Rightarrow> 'a) \<Rightarrow> (string, 'm row_state, 'a) fallible" where
  "read_workspace f = m_get (\<lambda>(m, sw). Inr (f sw))"

definition on_row :: "(string, 'm filter_state, 'a) fallible \<Rightarrow> (string, 'm row_state, 'a) fallible" where
  "on_row f s =
     (case s of (m, sw) \<Rightarrow> case f (m, sw_logprobs sw, sw_filter sw) of
        (r, (m', row, fw)) \<Rightarrow> (r, (m', sw\<lparr>sw_logprobs := row, sw_filter := fw\<rparr>)))"

definition on_device :: "(string, 'm, 'a) fallible \<Rightarrow> (string, 'm row_state, 'a) fallible" where
  "on_device f s = (case s of (m, sw) \<Rightarrow> case f m of (r, m') \<Rightarrow> (r, (m', sw)))"

definition mark_seen :: "nat \<Rightarrow> unit \<Rightarrow> (string, 'm row_state, unit) fallible" where
  "mark_seen token _ s =
     (case s of (m, sw) \<Rightarrow>
        if token < length (sw_presence_seen sw)
        then (Inr (), (m, sw\<lparr>sw_presence_seen := (sw_presence_seen sw)[token := 1]\<rparr>))
        else (Inl ''presence history token exceeds vocabulary'', s))"

definition penalise_seen :: "'g sampling_env \<Rightarrow> sampling_options \<Rightarrow> nat list \<Rightarrow> bf16 list \<Rightarrow> bf16 list" where
  "penalise_seen env so seen row =
     fold (\<lambda>(i, mark) row. if mark \<noteq> 0 then row[i := penalised env so (row ! i)] else row) (enumerate 0 seen) row"

definition presence_id :: "'g sampling_env \<Rightarrow> nat list \<Rightarrow> sampling_options \<Rightarrow> nat \<Rightarrow> (string, 'm row_state, unit) fallible" where
  "presence_id env history so vocabulary =
     (if fl_eq (so_presence_penalty so) f64_zero then m_return ()
      else
        m_bind (update_workspace (\<lambda>sw. sw\<lparr>sw_presence_seen := vec_fill 0 (vec_resize vocabulary 0 (sw_presence_seen sw))\<rparr>)) (\<lambda>_.
        m_bind (m_for (drop (presence_start so history) history) mark_seen ()) (\<lambda>_.
        update_workspace (\<lambda>sw. sw\<lparr>sw_adjusted := penalise_seen env so (sw_presence_seen sw) (sw_adjusted sw)\<rparr>))))"

definition prepare_id_with_math ::
    "'g sampling_env \<Rightarrow> 'm preparation_math \<Rightarrow> bf16 list \<Rightarrow> nat list \<Rightarrow> sampling_options \<Rightarrow>
      (string, 'm row_state, unit) fallible" where
  "prepare_id_with_math env math logits history so =
     m_bind (m_lift (bindr (options_validate env so) (\<lambda>_.
        ensure (logits \<noteq> []) ''sampling needs a vocabulary row''
       (ensure (list_all (\<lambda>w. is_finite (to_f32 env w)) logits) ''sampling logits must be finite BF16''
       (ensure (length logits < u32_limit) ''sampling vocabulary exceeds u32'' (Inr ())))))) (\<lambda>_.
     m_bind (update_workspace (\<lambda>sw. sw\<lparr>sw_adjusted := logits\<rparr>)) (\<lambda>_.
     m_bind (presence_id env history so (length logits)) (\<lambda>_.
     m_bind (read_workspace sw_adjusted) (\<lambda>adjusted.
     m_bind (on_device (logsumexp_bf16 math adjusted)) (\<lambda>normalizer.
     m_bind (update_workspace (\<lambda>sw. sw\<lparr>sw_logprobs := map (normalised env normalizer) (sw_adjusted sw)\<rparr>)) (\<lambda>_.
     m_bind (m_get (\<lambda>(m, sw). ensure (list_all (\<lambda>w. \<not> bf16_is_nan w) (sw_logprobs sw)) ''sampling log probabilities contain NaN'' (Inr ()))) (\<lambda>_.
     if \<not> stochastic so then m_return ()
     else
       m_bind (on_row (top_p_filter_id env math (so_top_p so))) (\<lambda>_.
       m_bind (update_workspace (\<lambda>sw. sw\<lparr>sw_logprobs := min_p_filter env (so_min_p so) (sw_logprobs sw)\<rparr>)) (\<lambda>_.
       m_bind (on_row (top_k_filter_id (so_top_k so))) (\<lambda>_.
       update_workspace (\<lambda>sw. sw\<lparr>sw_logprobs := scaled_row env so (sw_logprobs sw)\<rparr>)))))))))))"

section \<open>The draw\<close>

definition token_weights :: "'g sampling_env \<Rightarrow> ieee \<Rightarrow> bf16 list \<Rightarrow> ieee list" where
  "token_weights env maximum row = map (\<lambda>w. f64_exp env (fl_sub binary32 (to_f32 env w) maximum)) row"

definition weight_total :: "ieee list \<Rightarrow> ieee" where
  "weight_total weights = foldl (fl_add binary64) f64_zero weights"

text \<open>The top 53 bits of the generator's word as a number below one.\<close>

definition unit_draw :: "nat \<Rightarrow> ieee" where
  "unit_draw word =
     fl_mul binary64 (fl_of_nat binary64 (word div 2 ^ 11)) (fl_div binary64 f64_one (fl_of_nat binary64 (2 ^ 53)))"

fun choose_weight :: "ieee \<Rightarrow> ieee \<Rightarrow> nat option \<Rightarrow> (nat \<times> ieee) list \<Rightarrow> nat option" where
  "choose_weight target cumulative chosen [] = chosen"
| "choose_weight target cumulative chosen ((i, w) # ws) =
     (if fl_eq w f64_zero then choose_weight target cumulative chosen ws
      else let cumulative' = fl_add binary64 cumulative w
           in if fl_less target cumulative' then Some i else choose_weight target cumulative' (Some i) ws)"

definition categorical :: "'g sampling_env \<Rightarrow> ieee list \<Rightarrow> (string, 'g, nat) fallible" where
  "categorical env weights =
     m_bind (m_lift (ensure (is_finite (weight_total weights) \<and> fl_less f64_zero (weight_total weights))
               ''invalid categorical weights'' (Inr ()))) (\<lambda>_.
     m_bind (\<lambda>g. case next_u64 env g of (x, g') \<Rightarrow> (Inr x, g')) (\<lambda>x.
     m_lift (ok_or (choose_weight (fl_mul binary64 (unit_draw x) (weight_total weights)) f64_zero None (enumerate 0 weights))
               ''categorical distribution has no positive weight'')))"

definition check_maximum :: "'g sampling_env \<Rightarrow> bf16 list \<Rightarrow> ieee result" where
  "check_maximum env row =
     ensure (is_finite (row_maximum env row)) ''sampling filters removed the entire vocabulary'' (Inr (row_maximum env row))"

text \<open>The production path keeps the first word no later word exceeds.\<close>

fun greedy_scan :: "'g sampling_env \<Rightarrow> nat \<Rightarrow> ieee \<Rightarrow> (nat \<times> bf16) list \<Rightarrow> nat" where
  "greedy_scan env best score [] = best"
| "greedy_scan env best score ((i, w) # ws) =
     (if fl_less score (to_f32 env w) then greedy_scan env i (to_f32 env w) ws else greedy_scan env best score ws)"

text \<open>\<open>Iterator::max_by\<close> keeps the later of two equal elements; the comparator makes equal scores fall to
  the smaller id and unwraps \<open>partial_cmp\<close>.\<close>

fun max_by :: "('a \<Rightarrow> 'a \<Rightarrow> bool) \<Rightarrow> 'a \<Rightarrow> 'a list \<Rightarrow> 'a" where
  "max_by precedes x [] = x"
| "max_by precedes x (y # ys) = max_by precedes (if precedes x y then y else x) ys"

definition greedy_reference :: "'g sampling_env \<Rightarrow> bf16 list \<Rightarrow> nat result" where
  "greedy_reference env row =
     ensure (length row < 2 \<or> list_all (\<lambda>w. \<not> is_nan (to_f32 env w)) row) ''panicked: partial_cmp of a NaN''
       (case [0..<length row] of
          [] \<Rightarrow> Inl ''greedy sampling row is empty''
        | i # is \<Rightarrow> Inr (max_by (\<lambda>a b. descending_ids env row b a) i is))"

definition token_id :: "nat \<Rightarrow> nat result" where
  "token_id i = ensure (i < u32_limit) ''sampled token ID exceeds u32'' (Inr i)"

record 'g sampler =
  sp_options :: sampling_options
  sp_rng :: 'g
  sp_workspace :: sampling_workspace

definition default_workspace :: sampling_workspace where
  "default_workspace =
     \<lparr>sw_adjusted = [], sw_logprobs = [], sw_presence_seen = [],
      sw_filter = \<lparr>fw_exponentials = [], fw_sorted_exponentials = [], fw_cumulative = [], fw_order = [], fw_buckets = []\<rparr>,
      sw_weights = []\<rparr>"

text \<open>\<open>rng\<close> is the generator seeded with the given seed.\<close>

definition sampler_new :: "'g sampling_env \<Rightarrow> sampling_options \<Rightarrow> 'g \<Rightarrow> 'g sampler result" where
  "sampler_new env so rng =
     bindr (options_validate env so) (\<lambda>_. Inr \<lparr>sp_options = so, sp_rng = rng, sp_workspace = default_workspace\<rparr>)"

record sampled_token =
  st_id :: nat
  st_logprobs :: "bf16 list"

definition draw_prepared :: "'g sampling_env \<Rightarrow> sampling_stages \<Rightarrow> (string, 'g, sampled_token) fallible" where
  "draw_prepared env stages =
     m_bind (case ss_scaled stages of
         Some scaled \<Rightarrow>
           m_bind (m_lift (check_maximum env scaled)) (\<lambda>maximum. categorical env (token_weights env maximum scaled))
       | None \<Rightarrow> m_lift (greedy_reference env (ss_logprobs stages))) (\<lambda>i.
     m_bind (m_lift (token_id i)) (\<lambda>token.
     m_return \<lparr>st_id = token, st_logprobs = ss_logprobs stages\<rparr>))"

type_synonym ('m, 'g) sampler_state = "'m \<times> 'g sampler"

definition on_rng :: "(string, 'g, 'a) fallible \<Rightarrow> (string, ('m, 'g) sampler_state, 'a) fallible" where
  "on_rng f s = (case s of (m, sp) \<Rightarrow> case f (sp_rng sp) of (r, g) \<Rightarrow> (r, (m, sp\<lparr>sp_rng := g\<rparr>)))"

definition on_sampler_row :: "(string, 'm row_state, 'a) fallible \<Rightarrow> (string, ('m, 'g) sampler_state, 'a) fallible" where
  "on_sampler_row f s =
     (case s of (m, sp) \<Rightarrow> case f (m, sp_workspace sp) of (r, (m', sw)) \<Rightarrow> (r, (m', sp\<lparr>sp_workspace := sw\<rparr>)))"

definition sample_stages ::
    "'g sampling_env \<Rightarrow> 'm preparation_math \<Rightarrow> bf16 list \<Rightarrow> nat list \<Rightarrow> (string, ('m, 'g) sampler_state, sampled_token) fallible" where
  "sample_stages env math logits history s =
     m_bind (\<lambda>(m, sp). case prepare_with_math env math logits history (sp_options sp) m of (r, m') \<Rightarrow> (r, (m', sp)))
       (\<lambda>stages. on_rng (draw_prepared env stages)) s"

definition sample_id_with_math ::
    "'g sampling_env \<Rightarrow> 'm preparation_math \<Rightarrow> bf16 list \<Rightarrow> nat list \<Rightarrow> (string, ('m, 'g) sampler_state, nat) fallible" where
  "sample_id_with_math env math logits history s =
     (let so = sp_options (snd s) in
      m_bind (on_sampler_row (prepare_id_with_math env math logits history so)) (\<lambda>_.
      m_bind (on_sampler_row (read_workspace sw_logprobs)) (\<lambda>row.
      m_bind
        (if stochastic so
         then m_bind (m_lift (check_maximum env row)) (\<lambda>maximum.
              m_bind (on_sampler_row (update_workspace (\<lambda>sw. sw\<lparr>sw_weights := token_weights env maximum row\<rparr>))) (\<lambda>_.
              on_rng (categorical env (token_weights env maximum row))))
         else m_return (greedy_scan env 0 (to_f32 env (row ! 0)) (drop 1 (enumerate 0 row)))) (\<lambda>i.
      m_lift (token_id i)))) s)"

end
