(* ===== verification/Sampling_Equivalence.thy ===== *)
theory Sampling_Equivalence
  imports Sampling_Filters Sampler
begin

text \<open>
  The production path computes what the diagnostic path computes: the presence penalty, every filter and the greedy choice
  agree on rows without NaN, whatever the retained workspace held before.

  What the code relies on of the \<open>half\<close> crate: its words decode as bfloat16 and rounding is to nearest, ties to even.
\<close>

locale half_crate =
  fixes env :: "'g sampling_env"
  assumes decode: "to_f32 env w = bf16_value w"
    and encode: "bf16_value (from_f32 env x) = fl_convert bfloat16 x"

lemma NEG_INF_value: "bf16_value NEG_INF = Inf True"
  by (simp add: NEG_INF_def bf16_value_def bf16_low_def bf16_negative_def)

lemma fl_round_not_nan [simp]: "\<not> is_nan (fl_round t s x)"
  by (simp add: fl_round_def Let_def)

lemma fl_convert_nan [simp]: "is_nan (fl_convert t x) \<longleftrightarrow> is_nan x"
  by (cases x) simp_all

lemma one_minus_not_nan: "\<not> is_nan x \<Longrightarrow> \<not> is_nan (fl_sub t f64_one x)"
  by (cases x) (simp_all add: fl_sub_def f64_one_def Let_def)

abbreviation numbers :: "bf16 list \<Rightarrow> bool" where
  "numbers row \<equiv> list_all (\<lambda>w. \<not> bf16_is_nan w) row"

lemma length_keep_ids [simp]: "length (keep_ids kept row) = length row"
  by (simp add: keep_ids_def)

lemma nth_keep_ids: "i < length row \<Longrightarrow> keep_ids kept row ! i = (if i \<in> set kept then row ! i else NEG_INF)"
  by (simp add: keep_ids_def nth_enumerate_eq)

lemma NEG_INF_not_nan [simp]: "\<not> bf16_is_nan NEG_INF"
  by (simp add: bf16_is_nan_value NEG_INF_value)

lemma numbers_keep_ids: "numbers row \<Longrightarrow> numbers (keep_ids kept row)"
  by (simp add: list_all_length nth_keep_ids)

lemma numbers_min_p: "numbers row \<Longrightarrow> numbers (min_p_filter env p row)"
  by (simp add: min_p_filter_def Let_def list_all_length)

lemma length_min_p [simp]: "length (min_p_filter env p row) = length row"
  by (simp add: min_p_filter_def Let_def)

text \<open>
  What is relied on of the kernels behind \<open>PreparationMath\<close>: the exponentials of numbers are not negative, and a scan of words that
  are not negative is free of NaN. A scan that reads NaN, or infinities of both signs, may write NaN.
\<close>

definition nonnegative :: "bf16 list \<Rightarrow> bool" where
  "nonnegative row \<longleftrightarrow> list_all (\<lambda>w. fl_le f64_zero (bf16_value w)) row"

definition probability_kernels :: "'m preparation_math \<Rightarrow> bool" where
  "probability_kernels math \<longleftrightarrow>
     (\<forall>row m es m'. exp_bf16 math row m = (Inr es, m') \<longrightarrow> numbers row \<longrightarrow> nonnegative es) \<and>
     (\<forall>xs m ys m'. cumulative_bf16 math xs m = (Inr ys, m') \<longrightarrow> nonnegative xs \<longrightarrow> numbers ys)"

text \<open>The scan on the host that stands in for the device, and that it keeps its half of the contract.\<close>

fun cpu_scan_from :: "'g sampling_env \<Rightarrow> ieee \<Rightarrow> bf16 list \<Rightarrow> bf16 list" where
  "cpu_scan_from env acc [] = []"
| "cpu_scan_from env acc (w # ws) =
     (let acc = fl_add binary32 acc (to_f32 env w) in round_bf16 env acc # cpu_scan_from env acc ws)"

definition cpu_bf16_scan :: "'g sampling_env \<Rightarrow> bf16 list \<Rightarrow> bf16 list result" where
  "cpu_bf16_scan env ws = Inr (cpu_scan_from env (Fin False 0) ws)"

lemma fl_round_nonnegative: "fl_le f64_zero (fl_round t False x)"
proof (cases "x \<le> 0")
  case False
  then have "0 \<le> x / pow2 k" for k by (simp add: less_imp_le)
  then have "0 \<le> round_ties_even (x / pow2 k)" for k by (intro round_ties_even_ge) simp
  then have "0 \<le> of_int (round_ties_even (x / pow2 k)) * pow2 k" for k by (intro mult_nonneg_nonneg) (simp_all add: less_imp_le)
  with False show ?thesis by (auto simp: fl_round_def Let_def fl_le_def fl_less_def fl_eq_def f64_zero_def le_less)
qed (simp add: fl_round_def fl_le_def fl_eq_def f64_zero_def)

lemma nonnegative_simps:
  "fl_le f64_zero (Fin s y) \<longleftrightarrow> 0 \<le> fl_value (Fin s y)" "fl_le f64_zero (Inf s) \<longleftrightarrow> \<not> s" "\<not> fl_le f64_zero NaN"
  by (auto simp: fl_le_def fl_less_def fl_eq_def f64_zero_def)

lemma fl_add_nonnegative:
  assumes "fl_le f64_zero x" "fl_le f64_zero y"
  shows "fl_le f64_zero (fl_add t x y)"
proof (cases "\<exists>s a r b. x = Fin s a \<and> y = Fin r b")
  case True
  then obtain s a r b where xy: "x = Fin s a" "y = Fin r b" by blast
  then have "0 \<le> fl_value x + fl_value y" using assms by (simp add: nonnegative_simps del: fl_value.simps)
  then have "\<not> fl_value x + fl_value y < 0" by simp
  then show ?thesis unfolding xy by (simp add: Let_def nonnegative_simps fl_round_nonnegative del: fl_value.simps) simp
next
  case False
  then show ?thesis using assms by (cases x; cases y) (auto simp: nonnegative_simps)
qed

lemma scan_of_probabilities:
  assumes "half_crate env"
  shows "nonnegative ws \<Longrightarrow> fl_le f64_zero acc \<Longrightarrow> numbers (cpu_scan_from env acc ws)"
proof (induction ws arbitrary: acc)
  case (Cons w ws)
  then have acc: "fl_le f64_zero (fl_add binary32 acc (bf16_value w))"
    by (intro fl_add_nonnegative) (simp_all add: nonnegative_def)
  then have "\<not> is_nan (fl_add binary32 acc (bf16_value w))" by (auto simp: fl_le_def fl_less_def fl_eq_def)
  with acc Cons show ?case
    by (simp add: nonnegative_def Let_def bf16_is_nan_value round_bf16_def half_crate.decode [OF assms] half_crate.encode [OF assms])
qed simp

lemma top_p_shape:
  "top_p_filter env math p row m = (Inr (row', x), m') \<Longrightarrow> length row' = length row \<and> (numbers row \<longrightarrow> numbers row')"
  by (auto simp: top_p_filter_def m_bind_eq_Inr Let_def numbers_keep_ids split: if_splits)

context half_crate
begin

lemma number: "is_nan (to_f32 env w) \<longleftrightarrow> bf16_is_nan w"
  by (simp add: decode bf16_is_nan_value)

lemma scalar_number: "\<not> is_nan x \<Longrightarrow> \<not> is_nan (scalar env x)"
  by (simp add: scalar_def round_bf16_def decode encode)

lemma less_keys: "\<not> bf16_is_nan v \<Longrightarrow> \<not> bf16_is_nan w \<Longrightarrow>
    fl_less (to_f32 env v) (to_f32 env w) \<longleftrightarrow> bf16_order_key v < bf16_order_key w"
  by (simp add: decode bf16_less_iff order_key_less bf16_is_nan_value)

lemma eq_keys: "\<not> bf16_is_nan v \<Longrightarrow> \<not> bf16_is_nan w \<Longrightarrow>
    fl_eq (to_f32 env v) (to_f32 env w) \<longleftrightarrow> bf16_order_key v = bf16_order_key w"
  by (simp add: decode bf16_eq_iff order_key_eq bf16_is_nan_value)

lemma ascending_keys:
  "numbers row \<Longrightarrow> a < length row \<Longrightarrow> b < length row \<Longrightarrow> ascending_ids env row a b \<longleftrightarrow> precedes_by (row_keys row) a b"
  by (simp add: ascending_ids_def precedes_by_def list_all_length less_keys eq_keys)

lemma descending_keys:
  "numbers row \<Longrightarrow> a < length row \<Longrightarrow> b < length row \<Longrightarrow> descending_ids env row a b \<longleftrightarrow> precedes_by (score_order row) a b"
  by (auto simp: descending_ids_def precedes_by_def list_all_length less_keys eq_keys)

lemma sort_ids_ascending:
  "numbers row \<Longrightarrow> sort_ids env (ascending_ids env row) row = Inr (sort_by (precedes_by (row_keys row)) [0..<length row])"
proof -
  assume "numbers row"
  moreover from this have "sort_by (ascending_ids env row) [0..<length row] = sort_by (precedes_by (row_keys row)) [0..<length row]"
    by (intro sort_by_cong) (simp add: ascending_keys)
  ultimately show ?thesis by (simp add: sort_ids_def number)
qed

lemma sort_ids_descending:
  "numbers row \<Longrightarrow> sort_ids env (descending_ids env row) row = Inr (sort_by (precedes_by (score_order row)) [0..<length row])"
proof -
  assume "numbers row"
  moreover from this have "sort_by (descending_ids env row) [0..<length row] = sort_by (precedes_by (score_order row)) [0..<length row]"
    by (intro sort_by_cong) (simp add: descending_keys)
  ultimately show ?thesis by (simp add: sort_ids_def number)
qed

section \<open>Filters\<close>

lemma top_k_agrees:
  assumes "numbers row" "length row < u32_limit"
  shows "\<exists>fw'. top_k_filter_id k (m, row, fw) =
      (case top_k_filter env k row of Inl e \<Rightarrow> (Inl e, (m, row, fw')) | Inr row' \<Rightarrow> (Inr (), (m, row', fw')))"
proof (cases "k = 0 \<or> \<not> k < length row")
  case True
  then show ?thesis by (auto simp: top_k_filter_id_def top_k_filter_def m_bind_def)
next
  case False
  then have k: "0 < k" "k < length row" by simp_all
  obtain c r where cut: "score_cutoff k (rev (enumerate 0 (histogram row))) = (Some c, r)"
      "0 < r" "r \<le> key_count row c" "k + keys_below row (Suc c) = r + length row"
    using score_cutoff_ok [of k row] k by auto
  have "top_k_filter env k row = Inr (mask_below c r row)"
    using k assms mask_below_keeps_best [OF cut(2-4)] by (simp add: top_k_filter_def sort_ids_descending)
  moreover have "top_k_filter_id k (m, row, fw) = (Inr (), (m, mask_below c r row, fw\<lparr>fw_buckets := histogram row\<rparr>))"
    using k assms cut(1)
    by (simp add: top_k_filter_id_def on_workspace_def on_buckets_def count_score_keys_ok m_bind_def ok_or_def)
  ultimately show ?thesis by auto
qed

lemma fold_mask_at:
  "length (fold (mask_at env t cum) ps row) = length row \<and>
   (i < length row \<longrightarrow> fold (mask_at env t cum) ps row ! i =
      (if \<exists>p. (p, i) \<in> set ps \<and> fl_le (to_f32 env (cum ! p)) t then NEG_INF else row ! i))"
proof (induction ps arbitrary: row)
  case (Cons q ps)
  obtain a b where q: "q = (a, b)" by (cases q)
  show ?case
  proof (cases "b = i")
    case True
    then show ?thesis using Cons.IH [of "mask_at env t cum q row"] q by (auto simp: mask_at_def)
  next
    case False
    then show ?thesis using Cons.IH [of "mask_at env t cum q row"] q by (auto simp: mask_at_def)
  qed
qed simp

lemma mask_order_keeps:
  assumes "distinct order" "set order = {0..<length row}" "length cum = length row" "\<not> is_nan t" "numbers cum"
  shows "fold (mask_at env t cum) (enumerate 0 order) row =
      keep_ids [i. (i, c) \<leftarrow> zip order cum, fl_less t (to_f32 env c)] row"
proof (rule nth_equalityI)
  show "length (fold (mask_at env t cum) (enumerate 0 order) row) =
      length (keep_ids [i. (i, c) \<leftarrow> zip order cum, fl_less t (to_f32 env c)] row)"
    by (simp add: fold_mask_at)
  have len: "length order = length row" using assms(1,2) by (metis card_atLeastLessThan diff_zero distinct_card)
  fix i
  assume "i < length (fold (mask_at env t cum) (enumerate 0 order) row)"
  then have i: "i < length row" by (simp add: fold_mask_at)
  then obtain p where p: "p < length row" "order ! p = i"
    using assms(2) len by (metis atLeastLessThan_iff in_set_conv_nth le0)
  then have only: "q = p" if "q < length row" "order ! q = i" for q
    using that p assms(1) len nth_eq_iff_index_eq [of order q p] by simp
  have at: "(q, i) \<in> set (enumerate 0 order) \<longleftrightarrow> q = p" for q
    unfolding in_set_enumerate_eq using p only [of q] len by force
  have zipped: "(i, c) \<in> set (zip order cum) \<longleftrightarrow> c = cum ! p" for c
  proof
    assume "(i, c) \<in> set (zip order cum)"
    then obtain q where "q < length row" "order ! q = i" "c = cum ! q"
      using len assms(3) by (auto simp: in_set_zip)
    with only show "c = cum ! p" by metis
  next
    assume "c = cum ! p"
    with p len assms(3) show "(i, c) \<in> set (zip order cum)" by (auto simp: in_set_zip)
  qed
  have masked: "(\<exists>q. (q, i) \<in> set (enumerate 0 order) \<and> fl_le (to_f32 env (cum ! q)) t) \<longleftrightarrow> fl_le (to_f32 env (cum ! p)) t"
    by (simp add: at)
  have kept: "i \<in> set [i. (i, c) \<leftarrow> zip order cum, fl_less t (to_f32 env c)] \<longleftrightarrow> fl_less t (to_f32 env (cum ! p))"
    using zipped by auto
  have "\<not> is_nan (to_f32 env (cum ! p))" using assms(3,5) p by (simp add: number list_all_length)
  then show "fold (mask_at env t cum) (enumerate 0 order) row ! i =
      keep_ids [i. (i, c) \<leftarrow> zip order cum, fl_less t (to_f32 env c)] row ! i"
    using i kept masked fl_not_le [of "to_f32 env (cum ! p)" t] assms(4) by (auto simp: fold_mask_at nth_keep_ids)
qed

lemma top_p_agrees:
  assumes "numbers row" "length row < u32_limit" "\<not> is_nan p" "probability_kernels math"
  shows "\<exists>fw'. top_p_filter_id env math p (m, row, fw) =
      (case top_p_filter env math p row m of
        (Inl e, m') \<Rightarrow> (Inl e, (m', row, fw'))
      | (Inr (row', _), m') \<Rightarrow> (Inr (), (m', row', fw')))"
proof (cases "fl_le p f64_zero \<or> fl_le f64_one p")
  case True
  then show ?thesis by (auto simp: top_p_filter_id_def top_p_filter_def)
next
  case active: False
  let ?order = "sort_by (precedes_by (row_keys row)) [0..<length row]"
  obtain r m1 where exp: "exp_bf16 math row m = (r, m1)" by force
  show ?thesis
  proof (cases r)
    case (Inl e)
    with active exp show ?thesis by (auto simp: top_p_filter_id_def top_p_filter_def on_math_def m_bind_def)
  next
    case (Inr es)
    show ?thesis
    proof (cases "length es = length row")
      case False
      with active exp Inr show ?thesis
        by (auto simp: top_p_filter_id_def top_p_filter_def on_math_def on_workspace_def m_bind_def)
    next
      case True
      obtain buckets where order: "stable_ascending_order row (fw\<lparr>fw_exponentials := es\<rparr>) =
          (Inr (), fw\<lparr>fw_exponentials := es, fw_order := ?order, fw_buckets := buckets\<rparr>)"
        using stable_ascending_order_ok [OF assms(1,2), of "fw\<lparr>fw_exponentials := es\<rparr>"] by auto
      obtain q m2 where scan: "cumulative_bf16 math (map ((!) es) ?order) m1 = (q, m2)" by force
      note steps = top_p_filter_id_def top_p_filter_def on_math_def on_workspace_def m_bind_def
        active exp Inr True order scan sort_ids_ascending [OF assms(1)]
      show ?thesis
      proof (cases q)
        case (Inl e)
        then show ?thesis by (auto simp: steps)
      next
        case (Inr cum)
        show ?thesis
        proof (cases "length cum = length row")
          case False
          with Inr show ?thesis by (auto simp: steps)
        next
          case length: True
          have "nonnegative es" using exp \<open>r = Inr es\<close> assms(1,4) by (auto simp: probability_kernels_def)
          then have "nonnegative (map ((!) es) ?order)"
            using True keyed.sort_by_sorted [of "[0..<length row]" "row_keys row"] by (auto simp: nonnegative_def list_all_iff)
          then have "numbers cum" using scan Inr assms(4) unfolding probability_kernels_def by blast
          moreover have "distinct ?order" "set ?order = {0..<length row}"
            using keyed.sort_by_sorted [of "[0..<length row]" "row_keys row"] by simp_all
          moreover have "\<not> is_nan (scalar env (fl_sub binary64 f64_one p))"
            using assms(3) by (intro scalar_number one_minus_not_nan)
          ultimately have "fold (mask_at env (scalar env (fl_sub binary64 f64_one p)) cum) (enumerate 0 ?order) row =
              keep_ids [i. (i, c) \<leftarrow> zip ?order cum, fl_less (scalar env (fl_sub binary64 f64_one p)) (to_f32 env c)] row"
            using length by (intro mask_order_keeps) simp_all
          with Inr length show ?thesis by (auto simp: steps Let_def)
        qed
      qed
    qed
  qed
qed

section \<open>Presence penalty\<close>

end

text \<open>Both paths penalise each token seen in the window of the history once.\<close>

definition penalise :: "'g sampling_env \<Rightarrow> sampling_options \<Rightarrow> nat set \<Rightarrow> bf16 list \<Rightarrow> bf16 list" where
  "penalise env so seen row = map (\<lambda>(i, w). if i \<in> seen then penalised env so w else w) (enumerate 0 row)"

lemma penalise_simps [simp]:
  "length (penalise env so seen row) = length row"
  "i < length row \<Longrightarrow> penalise env so seen row ! i = (if i \<in> seen then penalised env so (row ! i) else row ! i)"
  by (simp_all add: penalise_def nth_enumerate_eq)

lemma penalise_none [simp]: "penalise env so {} row = row"
  by (rule nth_equalityI) simp_all

lemma penalise_insert:
  "t \<notin> seen \<Longrightarrow> t < length row \<Longrightarrow>
    (penalise env so seen row)[t := penalised env so (penalise env so seen row ! t)] = penalise env so (insert t seen) row"
  by (rule nth_equalityI) (auto simp: nth_list_update)

lemma presence_fold:
  "distinct ts \<Longrightarrow> set ts \<inter> seen = {} \<Longrightarrow> list_all (\<lambda>t. t < length row) ts \<Longrightarrow>
    try_fold (presence_step env so) (penalise env so seen row) ts = Inr (penalise env so (seen \<union> set ts) row)"
proof (induction ts arbitrary: seen)
  case (Cons t ts)
  have "presence_step env so (penalise env so seen row) t = Inr (penalise env so (insert t seen) row)"
    using Cons.prems penalise_insert [of t seen row env so] by (simp add: presence_step_def)
  then show ?case using Cons.IH [of "insert t seen"] Cons.prems by simp
qed simp

lemma presence_fold_fails:
  "\<not> list_all (\<lambda>t. t < length row) ts \<Longrightarrow>
    try_fold (presence_step env so) row ts = Inl ''presence history token exceeds vocabulary''"
  by (induction ts arbitrary: row) (auto simp: presence_step_def ensure_def)

definition presence_result :: "'g sampling_env \<Rightarrow> bf16 list \<Rightarrow> nat list \<Rightarrow> sampling_options \<Rightarrow> bf16 list result" where
  "presence_result env logits history so =
     (let window = drop (presence_start so history) history in
      if fl_eq (so_presence_penalty so) f64_zero then Inr logits
      else ensure (list_all (\<lambda>t. t < length logits) window) ''presence history token exceeds vocabulary''
             (Inr (penalise env so (set window) logits)))"

lemma presence_eq: "presence env logits history so = presence_result env logits history so"
proof -
  let ?window = "drop (presence_start so history) history"
  have "list_all (\<lambda>t. t < length logits) (btree_set ?window) = list_all (\<lambda>t. t < length logits) ?window"
    by (simp add: list_all_iff)
  then show ?thesis
    using presence_fold [of "btree_set ?window" "{}" logits env so]
      presence_fold_fails [of logits "btree_set ?window" env so]
    by (auto simp: presence_def presence_result_def Let_def ensure_def)
qed

text \<open>The marks of the retained row after the loop over the window.\<close>

lemma mark_loop:
  "list_all (\<lambda>t. t < length (sw_presence_seen sw)) ts \<Longrightarrow>
    \<exists>seen. m_for ts mark_seen () (m, sw) = (Inr (), (m, sw\<lparr>sw_presence_seen := seen\<rparr>)) \<and>
      length seen = length (sw_presence_seen sw) \<and>
      (\<forall>i < length seen. seen ! i = (if i \<in> set ts then 1 else sw_presence_seen sw ! i))"
proof (induction ts arbitrary: sw)
  case Nil
  then show ?case by (intro exI [of _ "sw_presence_seen sw"]) simp
next
  case (Cons t ts)
  define sw1 where "sw1 = sw\<lparr>sw_presence_seen := (sw_presence_seen sw)[t := 1]\<rparr>"
  obtain seen where "m_for ts mark_seen () (m, sw1) = (Inr (), (m, sw1\<lparr>sw_presence_seen := seen\<rparr>))"
      "length seen = length (sw_presence_seen sw)"
      "\<forall>i < length seen. seen ! i = (if i \<in> set ts then 1 else sw_presence_seen sw1 ! i)"
    using Cons.IH [of sw1] Cons.prems by (auto simp: sw1_def)
  moreover have "mark_seen t () (m, sw) = (Inr (), (m, sw1))"
    using Cons.prems by (simp add: mark_seen_def sw1_def)
  ultimately show ?case
    using Cons.prems by (intro exI [of _ seen]) (auto simp: sw1_def nth_list_update)
qed

lemma mark_loop_fails:
  "\<not> list_all (\<lambda>t. t < length (sw_presence_seen sw)) ts \<Longrightarrow>
    \<exists>seen. m_for ts mark_seen () (m, sw) =
      (Inl ''presence history token exceeds vocabulary'', (m, sw\<lparr>sw_presence_seen := seen\<rparr>))"
proof (induction ts arbitrary: sw)
  case (Cons t ts)
  show ?case
  proof (cases "t < length (sw_presence_seen sw)")
    case True
    define sw1 where "sw1 = sw\<lparr>sw_presence_seen := (sw_presence_seen sw)[t := 1]\<rparr>"
    have "mark_seen t () (m, sw) = (Inr (), (m, sw1))" using True by (simp add: mark_seen_def sw1_def)
    then show ?thesis using Cons.IH [of sw1] Cons.prems True by (auto simp: sw1_def)
  next
    case False
    then show ?thesis by (intro exI [of _ "sw_presence_seen sw"]) (simp add: mark_seen_def m_bind_def)
  qed
qed simp

lemma penalise_seen_eq:
  "length seen \<le> length row \<Longrightarrow>
    penalise_seen env so seen row = penalise env so {i. i < length seen \<and> seen ! i \<noteq> 0} row"
proof (induction seen rule: rev_induct)
  case Nil
  then show ?case by (simp add: penalise_seen_def)
next
  case (snoc mark seen)
  let ?S = "{i. i < length seen \<and> seen ! i \<noteq> 0}"
  have "penalise_seen env so (seen @ [mark]) row =
      (let row' = penalise env so ?S row
       in if mark \<noteq> 0 then row'[length seen := penalised env so (row' ! length seen)] else row')"
    using snoc by (simp add: penalise_seen_def enumerate_append_eq Let_def)
  moreover have "{i. i < length (seen @ [mark]) \<and> (seen @ [mark]) ! i \<noteq> 0} = (if mark \<noteq> 0 then insert (length seen) ?S else ?S)"
    by (auto simp: nth_append less_Suc_eq)
  ultimately show ?case
    using snoc.prems penalise_insert [of "length seen" ?S row env so] by (simp add: Let_def)
qed

lemma presence_id_eq:
  assumes "sw_adjusted sw = logits"
  shows "\<exists>seen. presence_id env history so (length logits) (m, sw) =
      (case presence_result env logits history so of
        Inl e \<Rightarrow> (Inl e, (m, sw\<lparr>sw_presence_seen := seen\<rparr>))
      | Inr row \<Rightarrow> (Inr (), (m, sw\<lparr>sw_adjusted := row, sw_presence_seen := seen\<rparr>)))"
proof (cases "fl_eq (so_presence_penalty so) f64_zero")
  case True
  with assms show ?thesis
    by (intro exI [of _ "sw_presence_seen sw"]) (simp add: presence_id_def presence_result_def)
next
  case False
  let ?window = "drop (presence_start so history) history"
  define sw1 where "sw1 = sw\<lparr>sw_presence_seen := vec_fill 0 (vec_resize (length logits) 0 (sw_presence_seen sw))\<rparr>"
  have len: "length (sw_presence_seen sw1) = length logits" by (simp add: sw1_def vec_fill_def vec_resize_def)
  have zero: "sw_presence_seen sw1 ! i = 0" if "i < length logits" for i
    using that len by (simp add: sw1_def vec_fill_def)
  show ?thesis
  proof (cases "list_all (\<lambda>t. t < length logits) ?window")
    case True
    then obtain seen where seen: "m_for ?window mark_seen () (m, sw1) = (Inr (), (m, sw1\<lparr>sw_presence_seen := seen\<rparr>))"
        "length seen = length logits" "\<forall>i < length seen. seen ! i = (if i \<in> set ?window then 1 else sw_presence_seen sw1 ! i)"
      using mark_loop [of sw1 ?window m] len by auto
    have "{i. i < length seen \<and> seen ! i \<noteq> 0} = set ?window"
      using seen(2,3) zero True by (auto simp: list_all_iff split: if_splits)
    then have "penalise_seen env so seen logits = penalise env so (set ?window) logits"
      using seen(2) by (simp add: penalise_seen_eq)
    with False True seen(1) assms show ?thesis
      by (intro exI [of _ seen]) (simp add: presence_id_def presence_result_def update_workspace_def sw1_def)
  next
    case fails: False
    then obtain seen where "m_for ?window mark_seen () (m, sw1) =
        (Inl ''presence history token exceeds vocabulary'', (m, sw1\<lparr>sw_presence_seen := seen\<rparr>))"
      using mark_loop_fails [of sw1 ?window m] len by auto
    with False fails show ?thesis
      by (intro exI [of _ seen]) (simp add: presence_id_def presence_result_def update_workspace_def sw1_def m_bind_def)
  qed
qed

lemma presence_result_length: "presence_result env logits history so = Inr row \<Longrightarrow> length row = length logits"
  by (auto simp: presence_result_def Let_def ensure_def split: if_splits)

end
