(* ===== verification/Sampling_Properties.thy ===== *)
theory Sampling_Properties
  imports Sampling_Equivalence
begin

text \<open>
  The two paths as a whole: preparation in the workspace leaves the row the diagnostic stages end with, the greedy scan
  chooses what \<open>max_by\<close> chooses, and a drawn token has a weight.
\<close>

definition prepared_row :: "sampling_stages \<Rightarrow> bf16 list" where
  "prepared_row st = (case ss_scaled st of Some row \<Rightarrow> row | None \<Rightarrow> ss_logprobs st)"

lemma top_k_shape:
  "top_k_filter env k row = Inr row' \<Longrightarrow> length row' = length row \<and> (numbers row \<longrightarrow> numbers row')"
  by (auto simp: top_k_filter_def bindr_eq_Inr ensure_eq_Inr numbers_keep_ids split: if_splits)

lemma validated_top_p: "options_validate env so = Inr () \<Longrightarrow> \<not> is_nan (so_top_p so)"
  by (auto simp: options_validate_def ensure_eq_Inr in_unit_def is_finite_not_nan)

text \<open>The filters of the production path, from a row of numbers.\<close>

definition filters_id :: "'g sampling_env \<Rightarrow> 'm preparation_math \<Rightarrow> sampling_options \<Rightarrow> (string, 'm row_state, unit) fallible" where
  "filters_id env math so =
     m_bind (on_row (top_p_filter_id env math (so_top_p so))) (\<lambda>_.
     m_bind (update_workspace (\<lambda>sw. sw\<lparr>sw_logprobs := min_p_filter env (so_min_p so) (sw_logprobs sw)\<rparr>)) (\<lambda>_.
     m_bind (on_row (top_k_filter_id (so_top_k so))) (\<lambda>_.
     update_workspace (\<lambda>sw. sw\<lparr>sw_logprobs := scaled_row env so (sw_logprobs sw)\<rparr>))))"

definition filters :: "'g sampling_env \<Rightarrow> 'm preparation_math \<Rightarrow> sampling_options \<Rightarrow> bf16 list \<Rightarrow> (string, 'm, bf16 list) fallible" where
  "filters env math so row =
     m_bind (top_p_filter env math (so_top_p so) row) (\<lambda>(top_p, _).
     m_bind (m_lift (top_k_filter env (so_top_k so) (min_p_filter env (so_min_p so) top_p))) (\<lambda>filtered.
     m_return (scaled_row env so filtered)))"

context half_crate
begin

lemma filters_agree:
  assumes "numbers (sw_logprobs sw)" "length (sw_logprobs sw) < u32_limit" "\<not> is_nan (so_top_p so)" "probability_kernels math"
  shows "\<exists>sw'. filters_id env math so (m, sw) =
      (case filters env math so (sw_logprobs sw) m of
        (Inl e, m') \<Rightarrow> (Inl e, (m', sw'))
      | (Inr row, m') \<Rightarrow> (Inr (), (m', sw'\<lparr>sw_logprobs := row\<rparr>)))"
proof -
  let ?row = "sw_logprobs sw"
  obtain fw where top_p: "top_p_filter_id env math (so_top_p so) (m, ?row, sw_filter sw) =
      (case top_p_filter env math (so_top_p so) ?row m of
        (Inl e, m') \<Rightarrow> (Inl e, (m', ?row, fw)) | (Inr (row', _), m') \<Rightarrow> (Inr (), (m', row', fw)))"
    using top_p_agrees [OF assms, of m "sw_filter sw"] by blast
  obtain r m1 where reference: "top_p_filter env math (so_top_p so) ?row m = (r, m1)" by force
  show ?thesis
  proof (cases r)
    case (Inl e)
    with top_p reference show ?thesis by (auto simp: filters_id_def filters_def on_row_def m_bind_def)
  next
    case (Inr q)
    obtain row1 x where q: "q = (row1, x)" by (cases q)
    let ?min_p = "min_p_filter env (so_min_p so) row1"
    have "length row1 = length ?row" "numbers row1" using top_p_shape [of env math _ ?row m row1 x m1] reference Inr q assms(1) by simp_all
    then have "numbers ?min_p" "length ?min_p < u32_limit" using assms(2) by (simp_all add: numbers_min_p)
    then obtain fw' where "top_k_filter_id (so_top_k so) (m1, ?min_p, fw) =
        (case top_k_filter env (so_top_k so) ?min_p of Inl e \<Rightarrow> (Inl e, (m1, ?min_p, fw')) | Inr row' \<Rightarrow> (Inr (), (m1, row', fw')))"
      using top_k_agrees [of ?min_p "so_top_k so" m1 fw] by blast
    with Inr q top_p reference show ?thesis
      by (cases "top_k_filter env (so_top_k so) ?min_p")
        (auto simp: filters_id_def filters_def on_row_def update_workspace_def m_bind_def)
  qed
qed

lemma prepare_agrees:
  assumes "length logits < u32_limit" "stochastic so \<Longrightarrow> probability_kernels math"
  shows "\<exists>m' sw'. prepare_id_with_math env math logits history so (m, sw) =
        (Inl ''sampling log probabilities contain NaN'', (m', sw')) \<and>
      (\<forall>st. fst (prepare_with_math env math logits history so m) = Inr st \<longrightarrow> \<not> numbers (ss_logprobs st)) \<or>
      prepare_id_with_math env math logits history so (m, sw) =
        (case prepare_with_math env math logits history so m of
          (Inl e, m') \<Rightarrow> (Inl e, (m', sw'))
        | (Inr st, m') \<Rightarrow> (Inr (), (m', sw'\<lparr>sw_logprobs := prepared_row st\<rparr>))) \<and>
      (\<forall>st. fst (prepare_with_math env math logits history so m) = Inr st \<longrightarrow>
        numbers (ss_logprobs st) \<and> ss_logprobs st \<noteq> [] \<and> (ss_scaled st = None \<longleftrightarrow> \<not> stochastic so))"
proof (cases "options_validate env so = Inr () \<and> logits \<noteq> [] \<and> list_all (\<lambda>w. is_finite (to_f32 env w)) logits")
  case False
  then show ?thesis using assms(1)
    by (cases "options_validate env so") (auto simp: prepare_id_with_math_def prepare_with_math_def m_bind_def ensure_def)
next
  case checked: True
  then have top_p: "\<not> is_nan (so_top_p so)" using validated_top_p by blast
  obtain seen where presence: "presence_id env history so (length logits) (m, sw\<lparr>sw_adjusted := logits\<rparr>) =
      (case presence_result env logits history so of
        Inl e \<Rightarrow> (Inl e, (m, sw\<lparr>sw_adjusted := logits, sw_presence_seen := seen\<rparr>))
      | Inr row \<Rightarrow> (Inr (), (m, sw\<lparr>sw_adjusted := row, sw_presence_seen := seen\<rparr>)))"
    using presence_id_eq [of "sw\<lparr>sw_adjusted := logits\<rparr>" logits env history so m]
    by (cases "presence_result env logits history so") auto
  note head = checked assms(1) presence prepare_id_with_math_def prepare_with_math_def presence_eq update_workspace_def
    read_workspace_def on_device_def m_bind_def Let_def
  show ?thesis
  proof (cases "presence_result env logits history so")
    case (Inl e)
    then show ?thesis by (auto simp: head)
  next
    case (Inr adjusted)
    then have nonempty: "adjusted \<noteq> []" "length adjusted < u32_limit"
      using presence_result_length [OF Inr] checked assms(1) by auto
    obtain r m1 where lse: "logsumexp_bf16 math adjusted m = (r, m1)" by force
    show ?thesis
    proof (cases r)
      case (Inl e)
      with Inr lse show ?thesis by (auto simp: head)
    next
      case r: (Inr normalizer)
      let ?logprobs = "map (normalised env normalizer) adjusted"
      define sw1 where "sw1 = sw\<lparr>sw_adjusted := adjusted, sw_presence_seen := seen, sw_logprobs := ?logprobs\<rparr>"
      have start: "prepare_id_with_math env math logits history so (m, sw) =
          (if \<not> numbers ?logprobs then (Inl ''sampling log probabilities contain NaN'', (m1, sw1))
           else if \<not> stochastic so then (Inr (), (m1, sw1))
           else filters_id env math so (m1, sw1))"
        using Inr lse r by (simp add: head sw1_def filters_id_def)
      show ?thesis
      proof (cases "numbers ?logprobs")
        case False
        with Inr lse r have "\<not> numbers (ss_logprobs st)" if "fst (prepare_with_math env math logits history so m) = Inr st" for st
          using that by (auto simp: head split: if_splits sum.splits prod.splits)
        with start False show ?thesis by auto
      next
        case numbers: True
        show ?thesis
        proof (cases "stochastic so")
          case False
          with start numbers nonempty Inr lse r show ?thesis
            by (intro exI [of _ m1] exI [of _ sw1] disjI2) (auto simp: head prepared_row_def sw1_def)
        next
          case True
          obtain sw' where "filters_id env math so (m1, sw1) =
              (case filters env math so ?logprobs m1 of
                (Inl e, m') \<Rightarrow> (Inl e, (m', sw')) | (Inr row, m') \<Rightarrow> (Inr (), (m', sw'\<lparr>sw_logprobs := row\<rparr>)))"
            using filters_agree [of sw1 so math m1] numbers nonempty top_p assms(2) True by (auto simp: sw1_def)
          with True start numbers nonempty Inr lse r show ?thesis
            by (intro exI [of _ m1] exI [of _ sw'] disjI2)
              (auto simp: head prepared_row_def filters_def split: sum.splits prod.splits)
        qed
      qed
    qed
  qed
qed

lemma greedy_scan_max:
  "numbers row \<Longrightarrow> b < length row \<Longrightarrow> list_all (\<lambda>i. b < i \<and> i < length row) is \<Longrightarrow> sorted_wrt (<) is \<Longrightarrow>
    greedy_scan env b (to_f32 env (row ! b)) (map (\<lambda>i. (i, row ! i)) is) = max_by (\<lambda>a b. descending_ids env row b a) b is"
proof (induction "is" arbitrary: b)
  case (Cons i "is")
  have "descending_ids env row i b \<longleftrightarrow> fl_less (to_f32 env (row ! b)) (to_f32 env (row ! i))"
    using Cons.prems by (auto simp: descending_ids_def)
  moreover have "list_all (\<lambda>j. b < j \<and> j < length row) is" "list_all (\<lambda>j. i < j \<and> j < length row) is"
    using Cons.prems by (auto simp: list_all_iff)
  ultimately show ?case using Cons.IH [of b] Cons.IH [of i] Cons.prems by simp
qed simp

lemma greedy_agrees:
  assumes "numbers row" "row \<noteq> []"
  shows "greedy_reference env row = Inr (greedy_scan env 0 (to_f32 env (row ! 0)) (drop 1 (enumerate 0 row)))"
proof -
  have "enumerate 0 row = map (\<lambda>i. (i, row ! i)) [0..<length row]"
    by (rule nth_equalityI) (simp_all add: nth_enumerate_eq)
  moreover have split: "[0..<length row] = 0 # [1..<length row]" using assms(2) by (simp add: upt_conv_Cons)
  ultimately have "drop 1 (enumerate 0 row) = map (\<lambda>i. (i, row ! i)) [1..<length row]" by simp
  then have "greedy_scan env 0 (to_f32 env (row ! 0)) (drop 1 (enumerate 0 row)) =
      max_by (\<lambda>a b. descending_ids env row b a) 0 [1..<length row]"
    using greedy_scan_max [of row 0 "[1..<length row]"] assms by (simp add: list_all_iff)
  moreover have "list_all (\<lambda>w. \<not> is_nan (to_f32 env w)) row" using assms(1) by (simp add: number)
  ultimately show ?thesis by (simp add: greedy_reference_def split)
qed

lemma sample_id_agrees:
  assumes "length logits < u32_limit" "stochastic (sp_options sp) \<Longrightarrow> probability_kernels math"
    and "sp_options sp = sp_options sp'" "sp_rng sp = sp_rng sp'"
    and "sample_stages env math logits history (m, sp') = (r, (m1, sp1))"
  shows "\<exists>m2 sw. sample_id_with_math env math logits history (m, sp) =
        (Inl ''sampling log probabilities contain NaN'', (m2, sp\<lparr>sp_workspace := sw\<rparr>)) \<and>
      (\<forall>st. fst (prepare_with_math env math logits history (sp_options sp) m) = Inr st \<longrightarrow> \<not> numbers (ss_logprobs st)) \<or>
      sample_id_with_math env math logits history (m, sp) = (map_sum id st_id r, (m1, sp1\<lparr>sp_workspace := sw\<rparr>)) \<and>
      (\<forall>st m'. prepare_with_math env math logits history (sp_options sp) m = (Inr st, m') \<longrightarrow>
         sw_logprobs sw = prepared_row st \<and> numbers (ss_logprobs st))"
proof -
  let ?so = "sp_options sp"
  obtain p m3 where prepared: "prepare_with_math env math logits history ?so m = (p, m3)" by force
  obtain m4 sw where agree: "prepare_id_with_math env math logits history ?so (m, sp_workspace sp) =
        (Inl ''sampling log probabilities contain NaN'', (m4, sw)) \<and>
      (\<forall>st. fst (prepare_with_math env math logits history ?so m) = Inr st \<longrightarrow> \<not> numbers (ss_logprobs st)) \<or>
      prepare_id_with_math env math logits history ?so (m, sp_workspace sp) =
        (case p of Inl e \<Rightarrow> (Inl e, (m3, sw)) | Inr st \<Rightarrow> (Inr (), (m3, sw\<lparr>sw_logprobs := prepared_row st\<rparr>))) \<and>
      (\<forall>st. p = Inr st \<longrightarrow> numbers (ss_logprobs st) \<and> ss_logprobs st \<noteq> [] \<and> (ss_scaled st = None \<longleftrightarrow> \<not> stochastic ?so))"
    (is "?nan \<or> ?same")
    using prepare_agrees [OF assms(1), of ?so math history m "sp_workspace sp"] assms(2) prepared by (auto simp: prepared)
  note unfold = sample_id_with_math_def sample_stages_def on_sampler_row_def on_rng_def read_workspace_def
    update_workspace_def m_bind_def Let_def prepared [unfolded assms(3)] assms(3,4) draw_prepared_def
  from agree show ?thesis
  proof
    assume ?nan
    then show ?thesis by (intro exI [of _ m4] exI [of _ sw] disjI1) (simp add: unfold)
  next
    assume same: ?same
    show ?thesis
    proof (cases p)
      case (Inl e)
      with same assms(5) prepared show ?thesis
        by (intro exI [of _ m4] exI [of _ sw] disjI2) (auto simp: unfold)
    next
      case (Inr st)
      show ?thesis
      proof (cases "ss_scaled st")
        case None
        then have "greedy_reference env (ss_logprobs st) =
            Inr (greedy_scan env 0 (to_f32 env (ss_logprobs st ! 0)) (drop 1 (enumerate 0 (ss_logprobs st))))"
          using same Inr by (intro greedy_agrees) auto
        with None same Inr assms(5) prepared show ?thesis
          by (intro exI [of _ m4] exI [of _ "sw\<lparr>sw_logprobs := prepared_row st\<rparr>"] disjI2)
            (auto simp: unfold prepared_row_def token_id_def ensure_def split: if_splits)
      next
        case (Some row)
        obtain c g where draw: "categorical env (token_weights env (row_maximum env row) row) (sp_rng sp') = (c, g)" by force
        show ?thesis
        proof (cases "is_finite (row_maximum env row)")
          case False
          with Some same Inr assms(5) prepared show ?thesis
            by (intro exI [of _ m4] exI [of _ "sw\<lparr>sw_logprobs := prepared_row st\<rparr>"] disjI2)
              (auto simp: unfold prepared_row_def check_maximum_def)
        next
          case True
          with Some same Inr assms(5) draw prepared show ?thesis
            by (intro exI [of _ m4]
                exI [of _ "sw\<lparr>sw_logprobs := row, sw_weights := token_weights env (row_maximum env row) row\<rparr>"] disjI2)
              (auto simp: unfold prepared_row_def check_maximum_def token_id_def ensure_def split: sum.splits if_splits)
        qed
      qed
    qed
  qed
qed

end

text \<open>
  What the sampler guarantees: both paths draw alike, a drawn token passed every filter, and the greedy choice is the first
  best score.
\<close>

section \<open>Shapes of the stages\<close>

lemma prepare_stages:
  assumes "prepare_with_math env math logits history so m = (Inr st, m')"
  shows "options_validate env so = Inr ()" "length (ss_logprobs st) = length logits" "length (ss_min_p st) = length logits"
    "ss_scaled st = (if stochastic so then Some (scaled_row env so (ss_filtered st)) else None)"
    "stochastic so \<Longrightarrow> top_k_filter env (so_top_k so) (ss_min_p st) = Inr (ss_filtered st)"
    "stochastic so \<Longrightarrow> numbers (ss_logprobs st) \<Longrightarrow> numbers (ss_min_p st)"
proof -
  obtain adjusted normalizer m1 m2 top_p x filtered where parts:
      "options_validate env so = Inr ()" "presence env logits history so = Inr adjusted"
      "logsumexp_bf16 math adjusted m = (Inr normalizer, m1)"
      "(if stochastic so then top_p_filter env math (so_top_p so) (map (normalised env normalizer) adjusted)
        else m_return (map (normalised env normalizer) adjusted, None)) m1 = (Inr (top_p, x), m2)"
      "(if stochastic so then top_k_filter env (so_top_k so) (if stochastic so then min_p_filter env (so_min_p so) top_p else top_p)
        else Inr (if stochastic so then min_p_filter env (so_min_p so) top_p else top_p)) = Inr filtered"
      "ss_logprobs st = map (normalised env normalizer) adjusted"
      "ss_min_p st = (if stochastic so then min_p_filter env (so_min_p so) top_p else top_p)"
      "ss_filtered st = filtered" "ss_scaled st = (if stochastic so then Some (scaled_row env so filtered) else None)"
    using assms unfolding prepare_with_math_def Let_def
    by (auto simp: m_bind_eq_Inr bindr_eq_Inr ensure_eq_Inr simp del: if_split split: prod.splits)
  have len: "length adjusted = length logits"
    using parts(2) presence_result_length by (simp add: presence_eq)
  have top: "length top_p = length adjusted \<and> (numbers (map (normalised env normalizer) adjusted) \<longrightarrow> numbers top_p)"
    using parts(4) top_p_shape [of env math "so_top_p so" _ m1 top_p x m2] by (cases "stochastic so") auto
  show "options_validate env so = Inr ()" by (rule parts(1))
  show "length (ss_logprobs st) = length logits" using parts(6) len by simp
  show "length (ss_min_p st) = length logits" using parts(7) top len by simp
  show "ss_scaled st = (if stochastic so then Some (scaled_row env so (ss_filtered st)) else None)" using parts(8,9) by simp
  show "stochastic so \<Longrightarrow> top_k_filter env (so_top_k so) (ss_min_p st) = Inr (ss_filtered st)" using parts(5,7,8) by simp
  show "stochastic so \<Longrightarrow> numbers (ss_logprobs st) \<Longrightarrow> numbers (ss_min_p st)" using parts(6,7) top by (simp add: numbers_min_p)
qed

section \<open>The draw\<close>

text \<open>What is relied on of \<open>exp\<close> outside the numbers.\<close>

definition exp_at_limits :: "'g sampling_env \<Rightarrow> bool" where
  "exp_at_limits env \<longleftrightarrow> fl_eq (f64_exp env (Inf True)) f64_zero \<and> is_nan (f64_exp env NaN)"

lemma choose_weight_index:
  "choose_weight target cumulative chosen ws = Some i \<Longrightarrow>
    chosen = Some i \<or> (\<exists>w. (i, w) \<in> set ws \<and> \<not> fl_eq w f64_zero)"
  by (induction target cumulative chosen ws rule: choose_weight.induct) (auto simp: Let_def split: if_splits)

lemma fl_add_nan [simp]: "is_nan x \<or> is_nan y \<Longrightarrow> is_nan (fl_add t x y)"
  by (cases x; cases y) simp_all

lemma total_nan: "is_nan c \<or> list_ex is_nan ws \<Longrightarrow> is_nan (foldl (fl_add t) c ws)"
  by (induction ws arbitrary: c) auto

lemma categorical_positive:
  assumes "categorical env ws g = (Inr i, g')"
  shows "i < length ws \<and> \<not> fl_eq (ws ! i) f64_zero \<and> \<not> is_nan (ws ! i)"
proof -
  from assms obtain x where total: "is_finite (weight_total ws)"
    and "choose_weight (fl_mul binary64 (unit_draw x) (weight_total ws)) f64_zero None (enumerate 0 ws) = Some i"
    by (auto simp: categorical_def m_bind_eq_Inr ensure_eq_Inr ok_or_def split: option.splits)
  then obtain w where w: "(i, w) \<in> set (enumerate 0 ws)" "\<not> fl_eq w f64_zero" using choose_weight_index by blast
  have "\<not> list_ex is_nan ws" using total total_nan [of f64_zero ws binary64] is_finite_not_nan by (auto simp: weight_total_def)
  with w show ?thesis by (auto simp: in_set_enumerate_eq list_ex_length)
qed

lemma fl_round_sign: "fl_round t s x = Inf s \<or> (\<exists>y. fl_round t s x = Fin s y)"
  by (simp add: fl_round_def Let_def)

lemma fl_convert_sign: "x = Inf s \<or> (\<exists>y. x = Fin s y) \<Longrightarrow> fl_convert t x = Inf s \<or> (\<exists>y. fl_convert t x = Fin s y)"
  by (elim disjE exE) (simp, simp only: fl_convert.simps, rule fl_round_sign)

context half_crate
begin

text \<open>A masked word never gets a weight: scaled it is an infinity or, when the reciprocal underflowed, NaN.\<close>

lemma masked_weight:
  assumes "options_validate env so = Inr ()" "stochastic so" "exp_at_limits env" "is_finite maximum"
    and "v = round_bf16 env (fl_mul binary32 (to_f32 env NEG_INF) (scalar env (fl_div binary64 f64_one (so_temperature so))))"
  shows "let w = f64_exp env (fl_sub binary32 (to_f32 env v) maximum) in fl_eq w f64_zero \<or> is_nan w"
proof -
  let ?r = "scalar env (fl_div binary64 f64_one (so_temperature so))"
  obtain s x where temperature: "so_temperature so = Fin s x" "s \<longleftrightarrow> x < 0" "x \<noteq> 0"
    using assms(2) by (cases "so_temperature so")
      (use assms(1) in \<open>auto simp: options_validate_def stochastic_def ensure_eq_Inr fl_less_def f64_zero_def split: if_splits\<close>)
  have finite: "is_finite ?r" using assms(1,2) by (simp add: options_validate_def stochastic_def ensure_eq_Inr)
  have r_def: "?r = fl_convert bfloat16 (fl_convert binary32 (fl_round binary64 s (1 / x)))"
    using temperature by (simp add: scalar_def round_bf16_def decode encode f64_one_def)
  obtain y where r: "?r = Fin s y" "s \<Longrightarrow> y = 0"
  proof (cases s)
    case True
    with temperature have "?r = Fin s 0" unfolding r_def by (simp add: fl_round_def)
    with that show ?thesis by blast
  next
    case False
    have "?r = Inf False \<or> (\<exists>y. ?r = Fin False y)"
      unfolding r_def using False by (simp only:) (intro fl_convert_sign fl_round_sign)
    with finite False that show ?thesis by auto
  qed
  have "bf16_value v = fl_convert bfloat16 (fl_mul binary32 (Inf True) (Fin s y))"
    using assms(5) r by (simp add: round_bf16_def decode encode NEG_INF_value)
  then have v: "to_f32 env v = (if y = 0 then NaN else Inf True)" using r(2) by (auto simp: decode)
  obtain q z where "maximum = Fin q z" using assms(4) by (cases maximum) simp_all
  with v assms(3) show ?thesis by (simp add: fl_sub_def exp_at_limits_def)
qed

lemma drawn_from_filtered:
  assumes "exp_at_limits env" "stochastic so" "prepare_with_math env math logits history so m = (Inr st, m')"
    and "draw_prepared env st g = (Inr tok, g')"
  shows "st_id tok < length (ss_filtered st) \<and> ss_filtered st ! st_id tok \<noteq> NEG_INF"
proof -
  note stages = prepare_stages [OF assms(3)]
  let ?row = "scaled_row env so (ss_filtered st)"
  let ?max = "row_maximum env ?row"
  have scaled: "ss_scaled st = Some ?row" using stages(4) assms(2) by simp
  then obtain g1 where draw: "categorical env (token_weights env ?max ?row) g = (Inr (st_id tok), g1)" "is_finite ?max"
    using assms(4)
    by (auto simp: draw_prepared_def m_bind_eq_Inr check_maximum_def token_id_def ensure_eq_Inr)
  have "st_id tok < length (token_weights env ?max ?row)"
    and weight: "\<not> fl_eq (token_weights env ?max ?row ! st_id tok) f64_zero" "\<not> is_nan (token_weights env ?max ?row ! st_id tok)"
    using categorical_positive [OF draw(1)] by simp_all
  then have t: "st_id tok < length (ss_filtered st)" by (simp add: token_weights_def scaled_row_def Let_def)
  have at: "token_weights env ?max ?row ! st_id tok =
      f64_exp env (fl_sub binary32 (to_f32 env (round_bf16 env (fl_mul binary32 (to_f32 env (ss_filtered st ! st_id tok))
        (scalar env (fl_div binary64 f64_one (so_temperature so)))))) ?max)"
    using t by (simp add: token_weights_def scaled_row_def Let_def)
  have "ss_filtered st ! st_id tok \<noteq> NEG_INF"
  proof
    assume masked: "ss_filtered st ! st_id tok = NEG_INF"
    show False
      using masked_weight [OF stages(1) assms(2,1) draw(2) refl] weight unfolding at masked
      by (simp add: Let_def)
  qed
  with t show ?thesis by simp
qed

lemma top_k_rank:
  assumes "numbers row" "top_k_filter env k row = Inr filtered" "0 < k" "t < length row" "filtered ! t \<noteq> NEG_INF"
  shows "card {j \<in> {0..<length row}. descending_ids env row j t} < k"
proof -
  have "filtered = keep_ids (take k (sort_by (precedes_by (score_order row)) [0..<length row])) row"
    using assms(1-3) by (auto simp: top_k_filter_def ensure_eq_Inr sort_ids_descending)
  then have "t \<in> set (take k (sort_by (precedes_by (score_order row)) [0..<length row]))"
    using assms(4,5) by (auto simp: nth_keep_ids split: if_splits)
  then have "key_rank (score_order row) t < k" using taken_by_keys [of t "score_order row" k] assms(4) by simp
  moreover have "{j \<in> {0..<length row}. descending_ids env row j t} = {j \<in> {0..<length row}. precedes_by (score_order row) j t}"
    using descending_keys [OF assms(1)] assms(4) by auto
  ultimately show ?thesis using key_rank_eq [of t "score_order row"] assms(4) by (simp add: keyed.rank_def)
qed

lemma greedy_scan_first:
  assumes "numbers row"
  shows "b < k \<Longrightarrow> k \<le> length row \<Longrightarrow> (\<forall>j<k. \<not> fl_less (to_f32 env (row ! b)) (to_f32 env (row ! j))) \<Longrightarrow>
    (\<forall>j<b. fl_less (to_f32 env (row ! j)) (to_f32 env (row ! b))) \<Longrightarrow>
    t = greedy_scan env b (to_f32 env (row ! b)) (map (\<lambda>i. (i, row ! i)) [k..<length row]) \<Longrightarrow>
    t < length row \<and> (\<forall>j<length row. \<not> fl_less (to_f32 env (row ! t)) (to_f32 env (row ! j))) \<and>
    (\<forall>j<t. fl_less (to_f32 env (row ! j)) (to_f32 env (row ! t)))"
proof (induction "length row - k" arbitrary: k b)
  case 0
  then show ?case by auto
next
  case (Suc n)
  then have step: "[k..<length row] = k # [Suc k..<length row]" by (simp add: upt_conv_Cons)
  have num: "\<not> is_nan (to_f32 env (row ! j))" if "j < length row" for j
    using that assms by (simp add: number list_all_length)
  show ?case
  proof (cases "fl_less (to_f32 env (row ! b)) (to_f32 env (row ! k))")
    case True
    have below: "fl_less (to_f32 env (row ! j)) (to_f32 env (row ! k))" if "j < k" for j
    proof -
      have "fl_le (to_f32 env (row ! j)) (to_f32 env (row ! b))"
        using Suc.prems(1-3) that num [of j] num [of b] fl_not_less by auto
      then show ?thesis using True by (auto simp: fl_le_def fl_less_def fl_eq_def)
    qed
    show ?thesis
      using Suc.hyps True Suc.prems below fl_less_asym by (intro Suc.hyps(1) [of "Suc k" k]) (auto simp: step less_Suc_eq)
  next
    case False
    then show ?thesis using Suc.hyps Suc.prems by (intro Suc.hyps(1) [of "Suc k" b]) (auto simp: step less_Suc_eq)
  qed
qed

end

lemma sampled_parts:
  assumes "sample_stages env math logits history (m, sp) = (Inr tok, s)"
  shows "\<exists>st m' g. prepare_with_math env math logits history (sp_options sp) m = (Inr st, m') \<and>
      draw_prepared env st (sp_rng sp) = (Inr tok, g)"
proof -
  obtain p m' where p: "prepare_with_math env math logits history (sp_options sp) m = (p, m')" by force
  show ?thesis
  proof (cases p)
    case (Inl e)
    with assms p show ?thesis by (simp add: sample_stages_def m_bind_def)
  next
    case (Inr st)
    obtain q g where "draw_prepared env st (sp_rng sp) = (q, g)" by force
    with assms p Inr show ?thesis by (simp add: sample_stages_def m_bind_def on_rng_def)
  qed
qed

text \<open>The draw itself never reports a NaN, so a diagnostic run that does had a preparation that failed.\<close>

lemma draw_prepared_error:
  assumes "draw_prepared env st g = (Inl e, g')"
  shows "e \<noteq> ''sampling log probabilities contain NaN''"
proof (cases "ss_scaled st")
  case None
  with assms show ?thesis
    by (auto simp: draw_prepared_def m_bind_def m_lift_def m_return_def greedy_reference_def token_id_def ensure_def
        split: if_splits list.splits)
next
  case (Some scaled)
  with assms show ?thesis
    by (auto simp: draw_prepared_def m_bind_def m_lift_def m_return_def check_maximum_def categorical_def token_id_def
        ensure_def ok_or_def split: if_splits prod.splits option.splits)
qed

lemma sample_stages_error:
  assumes "sample_stages env math logits history (m, sp) = (Inl ''sampling log probabilities contain NaN'', s)"
  shows "\<exists>e. fst (prepare_with_math env math logits history (sp_options sp) m) = Inl e"
  using assms draw_prepared_error
  by (cases "prepare_with_math env math logits history (sp_options sp) m")
    (fastforce simp: sample_stages_def m_bind_def on_rng_def split: sum.splits prod.splits)

section \<open>Properties\<close>

text \<open>C20: The production sampler, which works in a workspace kept from earlier rows, returns the token or the error that the
  diagnostic sampler returns, leaves the device and the generator where it leaves them, and does so whatever the
  workspace held. It differs in that it refuses log probabilities that contain NaN, and it does so only where
  the diagnostic preparation fails or yields such a row. The two paths also compare the cumulative row with the threshold in
  opposite ways, so they would part on a NaN in that row. This is excluded by what is relied on of the kernels, which are a
  parameter: the exponentials of a row of numbers are not negative, and a scan of words that are not negative is free of NaN.\<close>

theorem production_draws_as_diagnostics:
  assumes "half_crate env" "probability_kernels math" "length logits < u32_limit"
    and "sp_options sp = sp_options sp'" "sp_rng sp = sp_rng sp'"
  shows "case (sample_id_with_math env math logits history (m, sp), sample_stages env math logits history (m, sp')) of
      ((production, m2, sp2), (diagnostic, m1, sp1)) \<Rightarrow>
        if production = Inl ''sampling log probabilities contain NaN''
        then (case fst (prepare_with_math env math logits history (sp_options sp) m) of
                Inl _ \<Rightarrow> True
              | Inr st \<Rightarrow> \<exists>w\<in>set (ss_logprobs st). bf16_is_nan w)
        else production = map_sum id st_id diagnostic \<and> m2 = m1 \<and> sp_rng sp2 = sp_rng sp1 \<and> sp_options sp2 = sp_options sp1"
proof -
  obtain r m1 sp1 where d: "sample_stages env math logits history (m, sp') = (r, (m1, sp1))" by (metis prod.exhaust)
  let ?prepared = "prepare_with_math env math logits history (sp_options sp) m"
  obtain m2 sw where "sample_id_with_math env math logits history (m, sp) =
        (Inl ''sampling log probabilities contain NaN'', (m2, sp\<lparr>sp_workspace := sw\<rparr>)) \<and>
      (\<forall>st. fst ?prepared = Inr st \<longrightarrow> \<not> numbers (ss_logprobs st)) \<or>
      sample_id_with_math env math logits history (m, sp) = (map_sum id st_id r, (m1, sp1\<lparr>sp_workspace := sw\<rparr>))"
    using half_crate.sample_id_agrees [OF assms(1,3,2,4,5) d] by blast
  then show ?thesis
  proof (elim disjE conjE)
    assume refused: "sample_id_with_math env math logits history (m, sp) =
        (Inl ''sampling log probabilities contain NaN'', (m2, sp\<lparr>sp_workspace := sw\<rparr>))"
      and rows: "\<forall>st. fst ?prepared = Inr st \<longrightarrow> \<not> numbers (ss_logprobs st)"
    then show ?thesis by (simp add: refused d list_all_iff split: sum.split)
  next
    assume same: "sample_id_with_math env math logits history (m, sp) = (map_sum id st_id r, (m1, sp1\<lparr>sp_workspace := sw\<rparr>))"
    show ?thesis
    proof (cases "r = Inl ''sampling log probabilities contain NaN''")
      case True
      from sample_stages_error [OF d [unfolded this]] assms(4) obtain e where "fst ?prepared = Inl e" by auto
      then show ?thesis by (simp add: same d True)
    next
      case False
      then have "map_sum id st_id r \<noteq> Inl ''sampling log probabilities contain NaN''" by (cases r) simp_all
      then show ?thesis by (simp add: same d)
    qed
  qed
qed

text \<open>C25: A token drawn at a positive temperature is in the vocabulary and its word was masked by no filter; when
  \<open>top_k\<close> is set, fewer than \<open>top_k\<close> ids had a better score, or an equal score and a smaller id, among the words
  the min-p filter left. Of the kernels it is relied on that the exponentials of numbers are not negative and that a scan of
  words that are not negative is free of NaN.\<close>

theorem drawn_token_survives_filters:
  assumes "half_crate env" "exp_at_limits env" "probability_kernels math" "length logits < u32_limit" "stochastic (sp_options sp)"
    and "sample_id_with_math env math logits history (m, sp) = (Inr t, s')"
  shows "\<exists>st m1. prepare_with_math env math logits history (sp_options sp) m = (Inr st, m1) \<and>
      t < length logits \<and> ss_filtered st ! t \<noteq> NEG_INF \<and>
      (0 < so_top_k (sp_options sp) \<longrightarrow>
        card {j \<in> {0..<length logits}. descending_ids env (ss_min_p st) j t} < so_top_k (sp_options sp))"
proof -
  obtain r m1 sp1 where d: "sample_stages env math logits history (m, sp) = (r, (m1, sp1))" by (metis prod.exhaust)
  from half_crate.sample_id_agrees [OF assms(1,4,3) refl refl d] assms(6)
  obtain sw where r: "Inr t = map_sum id st_id r"
    and numbers: "\<And>st m'. prepare_with_math env math logits history (sp_options sp) m = (Inr st, m') \<Longrightarrow> numbers (ss_logprobs st)"
    by auto
  then obtain tok where tok: "r = Inr tok" "t = st_id tok" by (cases r) auto
  with d obtain st m' g where st: "prepare_with_math env math logits history (sp_options sp) m = (Inr st, m')"
    and draw: "draw_prepared env st (sp_rng sp) = (Inr tok, g)"
    using sampled_parts [of env math logits history m sp tok "(m1, sp1)"] by auto
  note stages = prepare_stages [OF st]
  have k: "top_k_filter env (so_top_k (sp_options sp)) (ss_min_p st) = Inr (ss_filtered st)" by (rule stages(5) [OF assms(5)])
  have drawn: "t < length logits" "ss_filtered st ! t \<noteq> NEG_INF"
    using half_crate.drawn_from_filtered [OF assms(1,2,5) st draw] top_k_shape [OF k] stages(3) tok(2) by simp_all
  with half_crate.top_k_rank [OF assms(1) _ k, of t] stages(3) stages(6) [OF assms(5) numbers [OF st]] st
  show ?thesis by auto
qed

text \<open>C28: At temperature zero the sampler returns the first of the best scores: no log probability exceeds that of the
  returned id and every earlier one is strictly less.\<close>

theorem greedy_takes_first_best:
  assumes "half_crate env" "length logits < u32_limit" "\<not> stochastic (sp_options sp)"
    and "sample_id_with_math env math logits history (m, sp) = (Inr t, (m', sp'))"
  shows "let row = sw_logprobs (sp_workspace sp') in
      length row = length logits \<and> t < length logits \<and>
      (\<forall>j<length logits. \<not> fl_less (to_f32 env (row ! t)) (to_f32 env (row ! j))) \<and>
      (\<forall>j<t. fl_less (to_f32 env (row ! j)) (to_f32 env (row ! t)))"
proof -
  obtain r m1 sp1 where d: "sample_stages env math logits history (m, sp) = (r, (m1, sp1))" by (metis prod.exhaust)
  from half_crate.sample_id_agrees [OF assms(1,2) _ refl refl d] assms(3,4)
  obtain sw where r: "Inr t = map_sum id st_id r" and sp': "sp' = sp1\<lparr>sp_workspace := sw\<rparr>"
    and prepared: "\<And>st m'. prepare_with_math env math logits history (sp_options sp) m = (Inr st, m') \<Longrightarrow>
        sw_logprobs sw = prepared_row st \<and> numbers (ss_logprobs st)"
    by auto
  then obtain tok where tok: "r = Inr tok" "t = st_id tok" by (cases r) auto
  with d obtain st m2 g where st: "prepare_with_math env math logits history (sp_options sp) m = (Inr st, m2)"
    and draw: "draw_prepared env st (sp_rng sp) = (Inr tok, g)"
    using sampled_parts [of env math logits history m sp tok "(m1, sp1)"] by auto
  let ?row = "ss_logprobs st"
  note stages = prepare_stages [OF st]
  have unscaled: "ss_scaled st = None" using stages(4) assms(3) by simp
  then have row: "sw_logprobs sw = ?row" "numbers ?row" using prepared [OF st] by (simp_all add: prepared_row_def)
  have greedy: "greedy_reference env ?row = Inr t"
    using draw unscaled tok(2) by (auto simp: draw_prepared_def m_bind_eq_Inr token_id_def ensure_eq_Inr)
  then have nonempty: "?row \<noteq> []" by (auto simp: greedy_reference_def ensure_def split: if_splits)
  have "drop 1 (enumerate 0 ?row) = map (\<lambda>i. (i, ?row ! i)) [1..<length ?row]"
    by (rule nth_equalityI) (simp_all add: nth_enumerate_eq)
  then have scan: "t = greedy_scan env 0 (to_f32 env (?row ! 0)) (map (\<lambda>i. (i, ?row ! i)) [1..<length ?row])"
    using half_crate.greedy_agrees [OF assms(1) row(2) nonempty] greedy by simp
  have "logits \<noteq> []" using nonempty stages(2) by auto
  with half_crate.greedy_scan_first [OF assms(1) row(2) _ _ _ _ scan] nonempty stages(2)
  have "t < length logits \<and> (\<forall>j<length logits. \<not> fl_less (to_f32 env (?row ! t)) (to_f32 env (?row ! j))) \<and>
      (\<forall>j<t. fl_less (to_f32 env (?row ! j)) (to_f32 env (?row ! t)))"
    by (auto simp: Suc_le_eq)
  then show ?thesis using row(1) sp' stages(2) by (simp add: Let_def Suc_le_eq)
qed

end
