(* ===== verification/Sampling_Options.thy ===== *)
theory Sampling_Options
  imports Sampling_Equivalence Tool_Blocks
begin

text \<open>
  Reading the sampling defaults of a package (\<open>SamplingOptions::from_generation_config\<close>) and a concrete \<open>half\<close> crate. The numbers of
  \<open>serde_json\<close> are parameters: what each reads as a float and as an unsigned integer.
\<close>

record 'n number_env =
  num_f64 :: "'n \<Rightarrow> ieee option"
  num_u64 :: "'n \<Rightarrow> nat option"

definition config_field :: "'n json \<Rightarrow> string \<Rightarrow> 'n json option" where
  "config_field config name = opt_filter (\<lambda>v. v \<noteq> J_Null) (json_get (ascii name) config)"

definition as_f64 :: "'n number_env \<Rightarrow> 'n json \<Rightarrow> ieee option" where
  "as_f64 ne v = (case v of J_Number n \<Rightarrow> num_f64 ne n | _ \<Rightarrow> None)"

definition as_u64 :: "'n number_env \<Rightarrow> 'n json \<Rightarrow> nat option" where
  "as_u64 ne v = (case v of J_Number n \<Rightarrow> num_u64 ne n | _ \<Rightarrow> None)"

definition as_bool :: "'n json \<Rightarrow> bool option" where
  "as_bool v = (case v of J_Bool b \<Rightarrow> Some b | _ \<Rightarrow> None)"

definition optional_number :: "'n number_env \<Rightarrow> 'n json \<Rightarrow> string \<Rightarrow> ieee option result" where
  "optional_number ne config name =
     (case config_field config name of
        None \<Rightarrow> Inr None
      | Some v \<Rightarrow> bindr (ok_or (as_f64 ne v) (''generation field '' @ name @ '' must be a number'')) (\<lambda>x. Inr (Some x)))"

definition from_generation_config :: "'g sampling_env \<Rightarrow> 'n number_env \<Rightarrow> 'n json \<Rightarrow> sampling_options result" where
  "from_generation_config env ne config =
     ensure (case config of J_Object _ \<Rightarrow> True | _ \<Rightarrow> False) ''generation configuration must be an object''
    (bindr (optional_number ne config ''temperature'') (\<lambda>temperature.
     bindr (optional_number ne config ''top_p'') (\<lambda>top_p.
     bindr (optional_number ne config ''min_p'') (\<lambda>min_p.
     bindr (case config_field config ''top_k'' of
              None \<Rightarrow> Inr (so_top_k default_options)
            | Some v \<Rightarrow> ok_or (as_u64 ne v) ''generation field top_k must be a nonnegative integer'') (\<lambda>top_k.
     bindr (optional_number ne config ''presence_penalty'') (\<lambda>presence_penalty.
     bindr (optional_number ne config ''repetition_penalty'') (\<lambda>repetition_penalty.
     ensure (is_none_or (\<lambda>x. fl_eq x f64_one) repetition_penalty) ''non-neutral repetition penalty is unsupported''
    (bindr (case config_field config ''do_sample'' of
              None \<Rightarrow> Inr None
            | Some v \<Rightarrow> bindr (ok_or (as_bool v) ''generation field do_sample must be boolean'') (\<lambda>b. Inr (Some b))) (\<lambda>do_sample.
     let so = default_options
           \<lparr>so_temperature := unwrap_or (so_temperature default_options) temperature,
            so_top_p := unwrap_or (so_top_p default_options) top_p,
            so_min_p := unwrap_or (so_min_p default_options) min_p, so_top_k := top_k,
            so_presence_penalty := unwrap_or (so_presence_penalty default_options) presence_penalty\<rparr>
     in bindr (options_validate env so) (\<lambda>_.
        Inr (if do_sample = Some False
             then so\<lparr>so_temperature := f64_zero, so_top_p := f64_one, so_min_p := f64_zero, so_top_k := 0,
                     so_presence_penalty := f64_zero\<rparr>
             else so)))))))))))"

section \<open>Valid options\<close>

context half_crate
begin

lemma greedy_options_valid:
  "options_validate env (so\<lparr>so_temperature := f64_zero, so_top_p := f64_one, so_min_p := f64_zero, so_top_k := 0,
     so_presence_penalty := f64_zero\<rparr>) = Inr ()"
  by (simp add: options_validate_def in_unit_def f64_zero_def f64_one_def fl_le_def fl_less_def fl_eq_def scalar_def
      round_bf16_def decode encode fl_round_def)

end

lemma config_options_valid:
  assumes "half_crate env" "from_generation_config env ne config = Inr so"
  shows "options_validate env so = Inr ()"
  using assms(2) half_crate.greedy_options_valid [OF assms(1)]
  by (auto simp: from_generation_config_def bindr_eq_Inr ensure_eq_Inr Let_def split: if_splits)

text \<open>C27: Sampling options read from a package satisfy the validity check of the type, also when \<open>do_sample\<close> is false; then they
  are greedy.\<close>

theorem package_options_are_valid:
  assumes "half_crate env" "from_generation_config env ne config = Inr so"
  shows "options_validate env so = Inr () \<and>
    (Option.bind (config_field config ''do_sample'') as_bool = Some False \<longrightarrow> fl_eq (so_temperature so) f64_zero)"
proof
  show "options_validate env so = Inr ()" by (rule config_options_valid [OF assms])
  show "Option.bind (config_field config ''do_sample'') as_bool = Some False \<longrightarrow> fl_eq (so_temperature so) f64_zero"
  proof
    assume "Option.bind (config_field config ''do_sample'') as_bool = Some False"
    then obtain v where v: "config_field config ''do_sample'' = Some v" "as_bool v = Some False"
      by (auto simp: bind_eq_Some_conv)
    have zero: "fl_eq f64_zero f64_zero" by (simp add: fl_eq_def f64_zero_def)
    show "fl_eq (so_temperature so) f64_zero"
      using assms(2) zero
      by (auto simp: from_generation_config_def v ok_or_def bindr_eq_Inr ensure_eq_Inr Let_def)
  qed
qed

section \<open>A half crate\<close>

text \<open>Rounding to bfloat16 as the position among the magnitudes: the rounded significand counts up from the first word of its
  binade, so a carry into the next binade needs no case of its own.\<close>

definition bf16_position :: "rat \<Rightarrow> nat" where
  "bf16_position x =
     (if x \<le> 0 then 0
      else let e = max (- 133) (f64_exponent x - 7)
           in nat (round_ties_even (x / pow2 e)) + 128 * nat (e + 133))"

definition bf16_encode :: "ieee \<Rightarrow> bf16" where
  "bf16_encode x =
     (case x of
        NaN \<Rightarrow> 0x7fc0
      | Inf s \<Rightarrow> if s then 0xff80 else 0x7f80
      | Fin s r \<Rightarrow> word_of_nat (min 32640 (bf16_position r) + (if s then 32768 else 0)))"

lemma bf16_magnitude_position:
  assumes "m \<le> 256" "128 \<le> m \<or> E = 0"
  shows "bf16_magnitude (m + 128 * E) = of_nat m * pow2 (int E - 133)"
proof -
  consider "m < 128" "E = 0" | "128 \<le> m" "m < 256" | "m = 256" using assms by linarith
  then show ?thesis
  proof cases
    case 1
    then show ?thesis by (simp add: bf16_magnitude_def)
  next
    case 2
    define r where "r = m - 128"
    have r: "m = r + 128" "r < 128" using 2 by (simp_all add: r_def)
    have "(m + 128 * E) div 128 = Suc E" "(m + 128 * E) mod 128 = r"
      using r div_mult_self4 [of 128 "Suc E" r] mod_mult_self4 [of 128 "Suc E" r] by simp_all
    then show ?thesis using r(1) by (simp add: bf16_magnitude_def add.commute)
  next
    case 3
    have "(m + 128 * E) div 128 = E + 2" "(m + 128 * E) mod 128 = 0" using 3 by simp_all
    moreover have "pow2 (int (E + 2) - 134) = 2 * pow2 (int E - 133)"
      using pow2_minus_one [of "int (E + 2) - 134"] by simp
    ultimately show ?thesis using 3 by (simp add: bf16_magnitude_def)
  qed
qed

lemma round_ties_even_le: "x < of_int k \<Longrightarrow> round_ties_even x \<le> k"
proof -
  assume "x < of_int k"
  then have "\<lfloor>x\<rfloor> < k" by (simp add: floor_less_iff)
  then show ?thesis by (simp add: round_ties_even_def Let_def)
qed

lemma bf16_position_value:
  assumes "0 < x"
  shows "bf16_magnitude (bf16_position x) =
      of_int (round_ties_even (x / pow2 (max (- 133) (f64_exponent x - 7)))) * pow2 (max (- 133) (f64_exponent x - 7))"
proof -
  define e where "e = max (- 133) (f64_exponent x - 7)"
  define k where "k = round_ties_even (x / pow2 e)"
  have ulp: "0 < pow2 e" by simp
  have "x < 2 * pow2 (f64_exponent x)" using f64_exponent_bounds [OF assms] by simp
  also have "2 * pow2 (f64_exponent x) \<le> 256 * pow2 e"
    using pow2_mono [of "f64_exponent x - 7" e] pow2_add_nat [of "f64_exponent x - 7" 7] by (simp add: e_def)
  finally have "x / pow2 e < of_int 256" using ulp by (simp add: field_simps)
  then have up: "k \<le> 256" unfolding k_def by (rule round_ties_even_le)
  have "of_int 0 \<le> x / pow2 e" using assms ulp by (simp add: less_imp_le)
  then have nonneg: "0 \<le> k" unfolding k_def by (rule round_ties_even_ge)
  have low: "128 \<le> k" if "e \<noteq> - 133"
  proof -
    have "e = f64_exponent x - 7" using that by (simp add: e_def)
    then have "128 * pow2 e = pow2 (f64_exponent x)" using pow2_add_nat [of e 7] by simp
    then have "128 * pow2 e \<le> x" using f64_exponent_bounds [OF assms] by simp
    then have "of_int 128 \<le> x / pow2 e" using ulp by (simp add: field_simps)
    then show ?thesis unfolding k_def by (rule round_ties_even_ge)
  qed
  have "nat k \<le> 256" "128 \<le> nat k \<or> nat (e + 133) = 0" using up low by (auto simp: nat_le_iff)
  from bf16_magnitude_position [OF this]
  have "bf16_magnitude (nat k + 128 * nat (e + 133)) = of_nat (nat k) * pow2 (int (nat (e + 133)) - 133)" .
  moreover have "int (nat (e + 133)) - 133 = e" by (simp add: e_def)
  ultimately show ?thesis using assms nonneg by (simp add: bf16_position_def e_def [symmetric] k_def [symmetric] Let_def)
qed

lemma bf16_encode_value: "bf16_value (bf16_encode x) = fl_convert bfloat16 x"
proof (cases x)
  case NaN
  then show ?thesis by (simp add: bf16_encode_def bf16_value_def bf16_low_def)
next
  case (Inf s)
  then show ?thesis by (simp add: bf16_encode_def bf16_value_def bf16_low_def bf16_negative_def)
next
  case (Fin s r)
  define p where "p = min 32640 (bf16_position r)"
  have p: "p \<le> 32640" by (simp add: p_def)
  have "unat (word_of_nat (p + (if s then 32768 else 0)) :: bf16) = p + (if s then 32768 else 0)"
    unfolding unat_of_nat using p by simp
  then have word: "bf16_low (bf16_encode x) = p" "bf16_negative (bf16_encode x) = s"
    using Fin p by (auto simp: bf16_encode_def bf16_low_def bf16_negative_def p_def [symmetric])
  show ?thesis
  proof (cases "r \<le> 0")
    case True
    then have "p = 0" by (simp add: p_def bf16_position_def)
    with True word Fin show ?thesis by (simp add: bf16_value_def fl_round_def)
  next
    case False
    define y where "y = bf16_magnitude (bf16_position r)"
    have y: "fl_convert bfloat16 x = (if y < pow2 128 then Fin s y else Inf s)"
      using False Fin bf16_position_value [of r] by (simp add: y_def fl_round_def bfloat16_def Let_def)
    have "pow2 128 = bf16_magnitude 32640"
      using pow2_add_nat [of 121 7] by (simp add: bf16_magnitude_def)
    then have "y < pow2 128 \<longleftrightarrow> bf16_position r < 32640" by (simp add: y_def)
    with y word show ?thesis by (auto simp: bf16_value_def p_def y_def)
  qed
qed

definition ieee_env :: "(ieee \<Rightarrow> ieee) \<Rightarrow> (ieee \<Rightarrow> ieee) \<Rightarrow> ('g \<Rightarrow> nat \<times> 'g) \<Rightarrow> 'g sampling_env" where
  "ieee_env fexp fln rng = \<lparr>to_f32 = bf16_value, from_f32 = bf16_encode, f64_exp = fexp, f64_ln = fln, next_u64 = rng\<rparr>"

interpretation rounding: half_crate "ieee_env fexp fln rng" for fexp fln rng
  by unfold_locales (simp_all add: ieee_env_def bf16_encode_value)

end
