(* ===== verification/Sampling_Device.thy ===== *)
theory Sampling_Device
  imports Sampler Session_State
begin

text \<open>
  The device side of the sampler (\<open>MetalSamplingPreparation\<close>): rows of bfloat16 words go through byte staging into
  shared buffers, a kernel runs, and the result comes back the same way. What a kernel writes, and whether a batch
  completes, are parameters; the launch geometry and every host check are modelled. After a batch has completed no
  buffer is reserved by it.
\<close>

datatype sampling_kernel = Lse_Block | Lse_Looped | Exp_Kernel | Scan_Kernel

record device_env =
  de_threads :: "sampling_kernel \<Rightarrow> nat"
  de_run :: "sampling_kernel \<Rightarrow> byte list \<Rightarrow> byte list \<Rightarrow> nat \<Rightarrow> nat \<Rightarrow> byte list \<Rightarrow> byte list result"

record sampling_device =
  sd_input :: buffer
  sd_output :: buffer
  sd_count :: buffer
  sd_host_input :: "byte list"
  sd_host_output :: "byte list"
  sd_max_vocabulary :: nat

definition bf16_bytes :: "bf16 list \<Rightarrow> byte list" where
  "bf16_bytes row = bytes_of (map unat row)"

definition bf16_words :: "byte list \<Rightarrow> bf16 list" where
  "bf16_words bs = map word_of_nat (words_of bs)"

definition device_new :: "device_env \<Rightarrow> (nat \<Rightarrow> byte list result) \<Rightarrow> nat \<Rightarrow> sampling_device result" where
  "device_new de alloc max_vocabulary =
     ensure (0 < max_vocabulary \<and> max_vocabulary \<le> 2147483647) ''sampling vocabulary must fit a nonzero i32''
    (bindr (ok_or (checked_mul max_vocabulary 2) ''sampling scan allocation exceeds usize'') (\<lambda>bytes.
     ensure (32 \<le> de_threads de Scan_Kernel \<and> 32 \<le> de_threads de Lse_Block \<and> 32 \<le> de_threads de Lse_Looped \<and>
             0 < de_threads de Exp_Kernel) ''Metal sampling reductions require one SIMD group''
    (bindr (shared_buffer alloc bytes) (\<lambda>input.
     bindr (shared_buffer alloc bytes) (\<lambda>output.
     bindr (shared_buffer alloc 4) (\<lambda>count.
     Inr \<lparr>sd_input = input, sd_output = output, sd_count = count, sd_host_input = replicate bytes 0,
          sd_host_output = replicate bytes 0, sd_max_vocabulary = max_vocabulary\<rparr>))))))"

definition write_input :: "bf16 list \<Rightarrow> (string, sampling_device, unit) fallible" where
  "write_input row =
     (let n = length row * 2 in
      m_bind (m_modify (\<lambda>d. d\<lparr>sd_host_input := bf16_bytes row @ drop n (sd_host_input d)\<rparr>)) (\<lambda>_.
      m_bind (\<lambda>d. case write_bytes 0 (take n (sd_host_input d)) (sd_input d) of
                Inl e \<Rightarrow> (Inl e, d) | Inr b \<Rightarrow> (Inr (), d\<lparr>sd_input := b\<rparr>)) (\<lambda>_.
      m_bind (m_lift (ensure (length row < u32_limit) ''out of range integral type conversion attempted'' (Inr ()))) (\<lambda>_.
      (\<lambda>d. case write_bytes 0 (le_bytes 4 (length row)) (sd_count d) of
                Inl e \<Rightarrow> (Inl e, d) | Inr b \<Rightarrow> (Inr (), d\<lparr>sd_count := b\<rparr>))))))"

definition read_output :: "nat \<Rightarrow> (string, sampling_device, bf16 list) fallible" where
  "read_output len d =
     (case read_bytes (sd_output d) 0 (len * 2) of
        Inl e \<Rightarrow> (Inl e, d)
      | Inr bs \<Rightarrow> (Inr (bf16_words bs), d\<lparr>sd_host_output := bs @ drop (len * 2) (sd_host_output d)\<rparr>))"

definition dispatch :: "device_env \<Rightarrow> sampling_kernel \<Rightarrow> nat \<Rightarrow> nat \<Rightarrow> (string, sampling_device, unit) fallible" where
  "dispatch de k grid group_threads d =
     (if grid = 0 \<or> group_threads = 0 then (Inl ''Metal dispatch dimensions must be nonzero'', d)
      else if \<not> group_threads \<le> de_threads de k then (Inl ''Metal threadgroup exceeds pipeline limit'', d)
      else case de_run de k (buf_bytes (sd_input d)) (buf_bytes (sd_count d)) grid group_threads (buf_bytes (sd_output d)) of
        Inl e \<Rightarrow> (Inl e, d)
      | Inr bs \<Rightarrow> (Inr (), d\<lparr>sd_output := (sd_output d)\<lparr>buf_bytes := bs\<rparr>\<rparr>))"

definition row_fits :: "string \<Rightarrow> bf16 list \<Rightarrow> (string, sampling_device, unit) fallible" where
  "row_fits msg row = m_get (\<lambda>d. ensure (row \<noteq> [] \<and> length row \<le> sd_max_vocabulary d) msg (Inr ()))"

definition device_exp :: "device_env \<Rightarrow> bf16 list \<Rightarrow> (string, sampling_device, bf16 list) fallible" where
  "device_exp de row =
     m_bind (row_fits ''sampling exp row exceeds configured vocabulary'' row) (\<lambda>_.
     m_bind (write_input row) (\<lambda>_.
     m_bind (dispatch de Exp_Kernel (length row) (min (de_threads de Exp_Kernel) 256)) (\<lambda>_.
     read_output (length row))))"

definition lse_launch :: "device_env \<Rightarrow> nat \<Rightarrow> sampling_kernel \<times> nat" where
  "lse_launch de n =
     (if n \<le> 4096 then (Lse_Block, div_ceil n 128 * 32) else (Lse_Looped, de_threads de Lse_Looped))"

definition device_logsumexp :: "'g sampling_env \<Rightarrow> device_env \<Rightarrow> bf16 list \<Rightarrow> (string, sampling_device, bf16) fallible" where
  "device_logsumexp env de row =
     m_bind (row_fits ''sampling reduction row exceeds configured vocabulary'' row) (\<lambda>_.
     m_bind (m_lift (ensure (list_all (\<lambda>w. is_finite (to_f32 env w)) row) ''sampling logits must be finite BF16'' (Inr ()))) (\<lambda>_.
     m_bind (write_input row) (\<lambda>_.
     let (k, threads) = lse_launch de (length row) in
     m_bind (m_lift (ensure (0 < threads \<and> 32 dvd threads \<and> threads \<le> de_threads de k)
               ''Metal logsumexp needs a supported whole number of SIMD groups'' (Inr ()))) (\<lambda>_.
     m_bind (dispatch de k threads threads) (\<lambda>_.
     m_get (\<lambda>d. bindr (read_bytes (sd_output d) 0 2) (\<lambda>bs. Inr (word_of_nat (le_value bs)))))))))"

definition scan_threads :: "device_env \<Rightarrow> nat \<Rightarrow> nat" where
  "scan_threads de n =
     min (if n \<le> 4096 then div_ceil n 128 * 32 else if n \<le> 8192 then div_ceil (n div 2) 128 * 32 else de_threads de Scan_Kernel)
       (de_threads de Scan_Kernel)"

definition device_cumulative :: "device_env \<Rightarrow> bf16 list \<Rightarrow> (string, sampling_device, bf16 list) fallible" where
  "device_cumulative de row =
     m_bind (row_fits ''sampling scan row exceeds configured vocabulary'' row) (\<lambda>_.
     m_bind (write_input row) (\<lambda>_.
     let threads = scan_threads de (length row) in
     m_bind (m_lift (ensure (0 < threads \<and> 32 dvd threads) ''Metal scan needs a whole number of SIMD groups'' (Inr ()))) (\<lambda>_.
     m_bind (dispatch de Scan_Kernel threads threads) (\<lambda>_.
     read_output (length row)))))"

definition device_math :: "'g sampling_env \<Rightarrow> device_env \<Rightarrow> sampling_device preparation_math" where
  "device_math env de =
     \<lparr>logsumexp_bf16 = device_logsumexp env de, exp_bf16 = device_exp de, cumulative_bf16 = device_cumulative de\<rparr>"

text \<open>The two public entries, which check the row against the configured vocabulary first.\<close>

definition within_vocabulary :: "bf16 list \<Rightarrow> (string, sampling_device \<times> 'g sampler, unit) fallible" where
  "within_vocabulary logits =
     m_get (\<lambda>(d, _). ensure (length logits \<le> sd_max_vocabulary d) ''sampling row exceeds configured vocabulary'' (Inr ()))"

definition sample_id ::
    "'g sampling_env \<Rightarrow> device_env \<Rightarrow> bf16 list \<Rightarrow> nat list \<Rightarrow> (string, (sampling_device, 'g) sampler_state, nat) fallible" where
  "sample_id env de logits history =
     m_bind (within_vocabulary logits) (\<lambda>_. sample_id_with_math env (device_math env de) logits history)"

definition sample ::
    "'g sampling_env \<Rightarrow> device_env \<Rightarrow> bf16 list \<Rightarrow> nat list \<Rightarrow> (string, (sampling_device, 'g) sampler_state, sampled_token) fallible" where
  "sample env de logits history =
     m_bind (within_vocabulary logits) (\<lambda>_. sample_stages env (device_math env de) logits history)"

section \<open>Rows through the buffers\<close>

definition device_ok :: "sampling_device \<Rightarrow> bool" where
  "device_ok d \<longleftrightarrow>
     0 < sd_max_vocabulary d \<and> sd_max_vocabulary d \<le> 2147483647 \<and>
     byte_len (sd_input d) = sd_max_vocabulary d * 2 \<and> byte_len (sd_output d) = sd_max_vocabulary d * 2 \<and>
     byte_len (sd_count d) = 4 \<and> \<not> buf_reserved (sd_input d) \<and> \<not> buf_reserved (sd_output d) \<and> \<not> buf_reserved (sd_count d) \<and>
     length (sd_host_input d) = sd_max_vocabulary d * 2 \<and> length (sd_host_output d) = sd_max_vocabulary d * 2"

lemma device_new_ok: "metal_allocates alloc \<Longrightarrow> device_new de alloc n = Inr d \<Longrightarrow> device_ok d"
  by (auto simp: device_new_def ensure_eq_Inr bindr_eq_Inr ok_or_def checked_mul_def shared_buffer_def metal_allocates_def
      device_ok_def byte_len_def split: option.splits if_splits)

lemma bf16_words_bytes [simp]: "bf16_words (bf16_bytes row) = row"
proof -
  have "unat w < 65536" for w :: bf16 using unsigned_less [of w] by simp
  then have "words_of (bytes_of (map unat row)) = map unat row"
    by (induction row) (simp_all add: words_of_def bytes_of_def as_chunks_cons del: le_bytes.simps)
  then show ?thesis by (simp add: bf16_words_def bf16_bytes_def o_def)
qed

lemma length_bf16_bytes [simp]: "length (bf16_bytes row) = length row * 2"
  by (simp add: bf16_bytes_def)

lemma write_input_ok:
  assumes "device_ok d" "length row \<le> sd_max_vocabulary d"
  shows "\<exists>host rest. write_input row d =
      (Inr (), d\<lparr>sd_host_input := host, sd_input := (sd_input d)\<lparr>buf_bytes := bf16_bytes row @ rest\<rparr>,
                sd_count := (sd_count d)\<lparr>buf_bytes := le_bytes 4 (length row)\<rparr>\<rparr>) \<and>
      length host = length (sd_host_input d) \<and> length (bf16_bytes row @ rest) = byte_len (sd_input d)"
  using assms
  by (intro exI [of _ "bf16_bytes row @ drop (length row * 2) (sd_host_input d)"]
      exI [of _ "drop (length row * 2) (buf_bytes (sd_input d))"])
    (auto simp: write_input_def device_ok_def write_bytes_def check_host_access_def byte_len_def m_bind_def Let_def)

text \<open>A kernel that computes \<open>f\<close> reads the row at the start of the input and writes over the start of the output.\<close>

definition kernel_computes :: "device_env \<Rightarrow> sampling_kernel \<Rightarrow> (bf16 list \<Rightarrow> bf16 list) \<Rightarrow> bool" where
  "kernel_computes de k f \<longleftrightarrow>
     (\<forall>row rest grid group_threads out. length row * 2 \<le> length out \<and> length row < u32_limit \<longrightarrow> length (f row) = length row \<and>
        de_run de k (bf16_bytes row @ rest) (le_bytes 4 (length row)) grid group_threads out =
          Inr (bf16_bytes (f row) @ drop (length row * 2) out))"

lemma launch_reads_back:
  assumes "device_ok d" "length row \<le> sd_max_vocabulary d" "kernel_computes de k f"
    and "0 < grid" "0 < group_threads" "group_threads \<le> de_threads de k"
  shows "\<exists>d'. m_bind (write_input row) (\<lambda>_. m_bind (dispatch de k grid group_threads) (\<lambda>_. read_output (length row))) d = (Inr (f row), d') \<and>
      device_ok d'"
proof -
  obtain host rest where written: "write_input row d =
      (Inr (), d\<lparr>sd_host_input := host, sd_input := (sd_input d)\<lparr>buf_bytes := bf16_bytes row @ rest\<rparr>,
                sd_count := (sd_count d)\<lparr>buf_bytes := le_bytes 4 (length row)\<rparr>\<rparr>)"
      "length host = length (sd_host_input d)" "length (bf16_bytes row @ rest) = byte_len (sd_input d)"
    using write_input_ok [OF assms(1,2)] by blast
  have fits: "length row * 2 \<le> length (buf_bytes (sd_output d))" using assms(1,2) by (simp add: device_ok_def byte_len_def)
  then have run: "length (f row) = length row"
      "de_run de k (bf16_bytes row @ rest) (le_bytes 4 (length row)) grid group_threads (buf_bytes (sd_output d)) =
        Inr (bf16_bytes (f row) @ drop (length row * 2) (buf_bytes (sd_output d)))"
    using assms(1-3) by (simp_all add: kernel_computes_def device_ok_def)
  show ?thesis
    using assms(1,4-6) written run fits
    by (auto simp: dispatch_def read_output_def read_bytes_def check_host_access_def byte_len_def m_bind_def device_ok_def)
qed

lemma row_fits_ok: "row \<noteq> [] \<Longrightarrow> length row \<le> sd_max_vocabulary d \<Longrightarrow> row_fits msg row d = (Inr (), d)"
  by (simp add: row_fits_def)

lemma scan_threads_ok:
  assumes "0 < n" "32 \<le> de_threads de Scan_Kernel" "32 dvd de_threads de Scan_Kernel"
  shows "0 < scan_threads de n \<and> 32 dvd scan_threads de n \<and> scan_threads de n \<le> de_threads de Scan_Kernel"
proof -
  have pos: "0 < div_ceil m 128" if "0 < m" for m using that by (auto simp: div_ceil_def)
  show ?thesis using assms pos [of n] pos [of "n div 2"] by (auto simp: scan_threads_def min_def)
qed

text \<open>One group of the block kernel has a lane for every four words of the row.\<close>

lemma lse_block_covers: "0 < n \<Longrightarrow> n \<le> 4096 \<Longrightarrow> n \<le> 4 * snd (lse_launch de n) \<and> snd (lse_launch de n) \<le> 1024"
proof -
  assume n: "0 < n" "n \<le> 4096"
  have whole: "n = 128 * (n div 128) + n mod 128" "n mod 128 < 128" by simp_all
  have "n div 128 \<le> 31 \<or> n mod 128 = 0 \<and> n div 128 = 32"
    using n whole by linarith
  then show ?thesis using n whole by (elim disjE) (auto simp: lse_launch_def div_ceil_def)
qed

text \<open>What the production sampler gets back from the device for a row is what the kernel computes from that row, whatever
  earlier rows left in the shared buffers and the staging bytes, and the device is ready for the next row.\<close>

theorem device_answers_for_its_row:
  assumes "device_ok d" "row \<noteq> []" "length row \<le> sd_max_vocabulary d"
    and "0 < de_threads de Exp_Kernel" "32 \<le> de_threads de Scan_Kernel" "32 dvd de_threads de Scan_Kernel"
    and "kernel_computes de Exp_Kernel f" "kernel_computes de Scan_Kernel g"
  shows "\<exists>d1 d2. device_exp de row d = (Inr (f row), d1) \<and> device_ok d1 \<and>
      device_cumulative de row d = (Inr (g row), d2) \<and> device_ok d2"
proof -
  have n: "0 < length row" using assms(2) by simp
  note fits = row_fits_ok [OF assms(2,3)]
  note scan = scan_threads_ok [OF n assms(5,6)]
  have "\<exists>d1. device_exp de row d = (Inr (f row), d1) \<and> device_ok d1"
    using launch_reads_back [OF assms(1,3,7), of "length row" "min (de_threads de Exp_Kernel) 256"] n assms(4)
    by (simp add: device_exp_def fits)
  moreover have "\<exists>d2. device_cumulative de row d = (Inr (g row), d2) \<and> device_ok d2"
  proof -
    have "device_cumulative de row d =
        m_bind (write_input row) (\<lambda>_. m_bind (dispatch de Scan_Kernel (scan_threads de (length row)) (scan_threads de (length row)))
          (\<lambda>_. read_output (length row))) d"
      using scan by (auto simp: device_cumulative_def fits Let_def m_bind_def split: prod.splits sum.splits)
    then show ?thesis
      using launch_reads_back [OF assms(1,3,8), of "scan_threads de (length row)" "scan_threads de (length row)"] scan by simp
  qed
  ultimately show ?thesis by blast
qed

end
