(* ===== verification/Sampling_Samples.thy ===== *)
theory Sampling_Samples
  imports Sampling_Properties Sampling_Options Sampling_Device "HOL-Library.Code_Target_Nat"
begin

text \<open>
  A concrete row: four tokens, a history of one, a device that returns fixed reductions and a generator that
  repeats its seed. The diagnostic draw is evaluated and the properties of the sampler are applied to it.
\<close>

section \<open>Evaluating roundings\<close>

text \<open>A value with few enough significant bits is its own rounding, which spares the evaluation the exponent and the overflow
  threshold of the format.\<close>

lemma round_ties_even_int [simp]: "round_ties_even (of_int k) = k"
  by (simp add: round_ties_even_def)

lemma fl_round_exact:
  assumes "0 < k" "k < 2 ^ precision t" "least t \<le> e" "e + int (precision t) \<le> greatest t + 1"
  shows "fl_round t s (of_nat k * pow2 e) = Fin s (of_nat k * pow2 e)"
proof -
  define x where "x = of_nat k * pow2 e"
  have k: "of_nat k < (2 :: rat) ^ precision t" using assms(2) by (metis of_nat_less_iff of_nat_numeral of_nat_power)
  have x: "0 < x" using assms(1) by (simp add: x_def)
  have "x < 2 ^ precision t * pow2 e" using k by (simp add: x_def mult_strict_right_mono)
  then have up: "x < pow2 (e + int (precision t))" by (simp add: pow2_add_nat mult.commute)
  have "f64_exponent x < e + int (precision t)"
  proof (rule ccontr)
    assume "\<not> ?thesis"
    then have "pow2 (e + int (precision t)) \<le> pow2 (f64_exponent x)" by (intro pow2_mono) simp
    then show False using up f64_exponent_bounds [OF x] by simp
  qed
  then have below: "max (least t) (f64_exponent x + 1 - int (precision t)) \<le> e" using assms(3) by simp
  define u where "u = max (least t) (f64_exponent x + 1 - int (precision t))"
  obtain n where n: "e = u + int n" using below zle_iff_zadd by (auto simp: u_def)
  then have ratio: "x / pow2 u = of_int (int k * 2 ^ n)"
    by (simp add: x_def pow2_add_nat less_imp_neq [OF pow2_pos, symmetric])
  have "x < pow2 (greatest t + 1)"
    using up pow2_mono [of "e + int (precision t)" "greatest t + 1"] assms(4) by simp
  moreover have "of_int (int k * 2 ^ n) * pow2 u = x" using n by (simp add: x_def pow2_add_nat)
  ultimately have "fl_round t s x = Fin s x"
    using x by (simp only: fl_round_def u_def [symmetric] Let_def ratio round_ties_even_int) simp
  then show ?thesis by (simp add: x_def)
qed

definition fl_round_any :: "float_format \<Rightarrow> bool \<Rightarrow> rat \<Rightarrow> ieee" where
  "fl_round_any = fl_round"

lemma fl_round_any_code [code]:
  "fl_round_any t s x =
     (if x \<le> 0 then Fin s 0
      else let ulp = pow2 (max (least t) (f64_exponent x + 1 - int (precision t)));
               y = of_int (round_ties_even (x / ulp)) * ulp
           in if y < pow2 (greatest t + 1) then Fin s y else Inf s)"
  by (simp add: fl_round_any_def fl_round_def)

lemma fl_round_code [code]:
  "fl_round t s x =
     (if x \<le> 0 then Fin s 0
      else case quotient_of x of (p, q) \<Rightarrow>
        let n = bit_length (nat q) - 1 in
        if p < 2 ^ precision t \<and> q = 2 ^ n \<and> int n \<le> - least t \<and> int (precision t) \<le> greatest t + 1
        then Fin s x else fl_round_any t s x)"
proof (cases "x \<le> 0")
  case True
  then show ?thesis by (simp add: fl_round_def)
next
  case False
  obtain p q where pq: "quotient_of x = (p, q)" by (cases "quotient_of x")
  then have q: "0 < q" and x: "x = of_int p / of_int q"
    by (auto dest: quotient_of_denom_pos quotient_of_div)
  have p: "0 < p" using False x q by (simp add: zero_less_divide_iff not_le)
  define n where "n = bit_length (nat q) - 1"
  have "fl_round t s x = Fin s x"
    if exact: "p < 2 ^ precision t" "q = 2 ^ n" "int n \<le> - least t" "int (precision t) \<le> greatest t + 1"
  proof -
    have "x = of_nat (nat p) * pow2 (- int n)"
      using x p exact(2) by (simp add: pow2_def)
    moreover have "nat p < 2 ^ precision t" using exact(1) p by (simp add: nat_less_iff)
    ultimately show ?thesis using fl_round_exact [of "nat p" t "- int n" s] p exact(3,4) by simp
  qed
  then show ?thesis using False by (simp add: pq fl_round_any_def n_def [symmetric] Let_def del: One_nat_def)
qed

section \<open>The row\<close>

definition demo_env :: "nat sampling_env" where
  "demo_env =
     ieee_env (\<lambda>x. case x of NaN \<Rightarrow> NaN | Inf s \<Rightarrow> if s then Fin False 0 else x | Fin _ _ \<Rightarrow> Fin False 1)
       (\<lambda>_. Fin True 3) (\<lambda>g. (g, g))"

definition demo_math :: "unit preparation_math" where
  "demo_math =
     \<lparr>logsumexp_bf16 = (\<lambda>_. m_return 0x4040), exp_bf16 = (\<lambda>row. m_return (map (\<lambda>_. 0x3e80) row)),
      cumulative_bf16 = (\<lambda>row. m_return (take (length row) [0x3d80, 0x3f00, 0x3f40, 0x3f80]))\<rparr>"

definition demo_options :: sampling_options where
  "demo_options =
     \<lparr>so_temperature = f64_one, so_top_p = Fin False (1 / 2), so_min_p = Fin False (1 / 64), so_top_k = 2,
      so_presence_penalty = Fin False (1 / 2), so_presence_context_size = 20\<rparr>"

definition demo_sampler :: "sampling_options \<Rightarrow> nat sampler" where
  "demo_sampler so = \<lparr>sp_options = so, sp_rng = 9223372036854775808, sp_workspace = default_workspace\<rparr>"

definition demo_logits :: "bf16 list" where "demo_logits = [0x3f80, 0x4000, 0x0000, 0x3fc0]"


lemma demo_options_valid: "options_validate demo_env demo_options = Inr ()"
  unfolding options_validate_def by code_simp

lemma demo_logits_finite: "list_all (\<lambda>w. is_finite (to_f32 demo_env w)) demo_logits"
  by code_simp

lemma demo_presence: "presence demo_env demo_logits [0] demo_options = Inr [0x3f00, 0x4000, 0, 0x3fc0]"
  unfolding presence_def by code_simp

lemma demo_logprobs: "map (normalised demo_env 0x4040) [0x3f00, 0x4000, 0, 0x3fc0] = [0xc020, 0xbf80, 0xc040, 0xbfc0]"
  by code_simp

lemma demo_order: "sort_ids demo_env (ascending_ids demo_env [0xc020, 0xbf80, 0xc040, 0xbfc0]) [0xc020, 0xbf80, 0xc040, 0xbfc0] = Inr [2,0,3,1]"
  unfolding sort_ids_def by code_simp

lemma demo_threshold: "scalar demo_env (fl_sub binary64 f64_one (so_top_p demo_options)) = Fin False (1/2)"
  by code_simp

lemma demo_top_p_active: "\<not> (fl_le (so_top_p demo_options) f64_zero \<or> fl_le f64_one (so_top_p demo_options))"
  by code_simp

lemma demo_kept: "keep_ids [i. (i, c) \<leftarrow> zip [2,0,3,1] [0x3d80, 0x3f00, 0x3f40, 0x3f80], fl_less (Fin False (1/2)) (to_f32 demo_env c)] [0xc020, 0xbf80, 0xc040, 0xbfc0] = [0xff80, 0xbf80, 0xff80, 0xbfc0]"
  by code_simp

lemma demo_top_p: "top_p_filter demo_env demo_math (so_top_p demo_options) [0xc020, 0xbf80, 0xc040, 0xbfc0] () = 
  (Inr ([0xff80, 0xbf80, 0xff80, 0xbfc0], Some ([0x3e80,0x3e80,0x3e80,0x3e80], [0x3d80, 0x3f00, 0x3f40, 0x3f80])), ())"
  using demo_top_p_active demo_kept by (simp add: top_p_filter_def demo_order demo_threshold demo_math_def)

lemma demo_min_p: "min_p_filter demo_env (so_min_p demo_options) [0xff80, 0xbf80, 0xff80, 0xbfc0] = [0xff80, 0xbf80, 0xff80, 0xbfc0]"
  unfolding min_p_filter_def by code_simp

lemma demo_top_k: "top_k_filter demo_env (so_top_k demo_options) [0xff80, 0xbf80, 0xff80, 0xbfc0] = Inr [0xff80, 0xbf80, 0xff80, 0xbfc0]"
  unfolding top_k_filter_def by code_simp

lemma demo_scaled: "scaled_row demo_env demo_options [0xff80, 0xbf80, 0xff80, 0xbfc0] = [0xff80, 0xbf80, 0xff80, 0xbfc0]"
  by code_simp

lemma demo_stochastic: "stochastic demo_options"
  by code_simp

definition demo_used :: "nat sampler" where
  "demo_used = (demo_sampler demo_options)
     \<lparr>sp_workspace := \<lparr>sw_adjusted = [1], sw_logprobs = [2, 3], sw_presence_seen = [1, 1, 1, 1, 1],
        sw_filter = \<lparr>fw_exponentials = [7], fw_sorted_exponentials = [], fw_cumulative = [9], fw_order = [5, 5, 5, 5, 5, 5], fw_buckets = [3, 2]\<rparr>,
        sw_weights = [NaN]\<rparr>\<rparr>"

lemma demo_sampler_simps [simp]:
  "sp_options (demo_sampler so) = so" "sp_rng (demo_sampler so) = 9223372036854775808"
  "sp_options demo_used = demo_options" "sp_rng demo_used = 9223372036854775808"
  by (simp_all add: demo_sampler_def demo_used_def)

lemma demo_half_crate: "half_crate demo_env"
  unfolding demo_env_def by (rule rounding.half_crate_axioms)

lemma demo_exp: "exp_at_limits demo_env"
  by (simp add: exp_at_limits_def demo_env_def ieee_env_def fl_eq_def f64_zero_def)

lemma demo_scans: "probability_kernels demo_math"
proof -
  have "numbers [0x3d80, 0x3f00, 0x3f40, 0x3f80]" "fl_le f64_zero (bf16_value 0x3e80)" by code_simp+
  then show ?thesis
    by (auto simp: probability_kernels_def nonnegative_def demo_math_def list_all_iff dest: in_set_takeD)
qed

definition demo_stages :: sampling_stages where
  "demo_stages =
     \<lparr>ss_adjusted_logits = [0x3f00, 0x4000, 0, 0x3fc0], ss_logsumexp = 0x4040, ss_logprobs = [0xc020, 0xbf80, 0xc040, 0xbfc0],
      ss_top_p_exp = Some [0x3e80, 0x3e80, 0x3e80, 0x3e80], ss_top_p_cumulative = Some [0x3d80, 0x3f00, 0x3f40, 0x3f80],
      ss_top_p = [0xff80, 0xbf80, 0xff80, 0xbfc0], ss_min_p = [0xff80, 0xbf80, 0xff80, 0xbfc0],
      ss_filtered = [0xff80, 0xbf80, 0xff80, 0xbfc0], ss_scaled = Some [0xff80, 0xbf80, 0xff80, 0xbfc0]\<rparr>"

lemma demo_prepared: "prepare_with_math demo_env demo_math demo_logits [0] demo_options () = (Inr demo_stages, ())"
proof -
  have "logsumexp_bf16 demo_math row () = (Inr 0x4040, ())" for row by (simp add: demo_math_def)
  moreover have "demo_logits \<noteq> []" by (simp add: demo_logits_def)
  ultimately show ?thesis
    by (simp add: prepare_with_math_def demo_options_valid demo_logits_finite demo_presence demo_logprobs
        demo_top_p demo_min_p demo_top_k demo_scaled demo_stochastic Let_def demo_stages_def del: list.map)
qed

lemma demo_weights:
  "row_maximum demo_env [0xff80, 0xbf80, 0xff80, 0xbfc0] = Fin True 1"
  "token_weights demo_env (Fin True 1) [0xff80, 0xbf80, 0xff80, 0xbfc0] = [Fin False 0, Fin False 1, Fin False 0, Fin False 1]"
  by code_simp+

lemma demo_categorical:
  "categorical demo_env [Fin False 0, Fin False 1, Fin False 0, Fin False 1] 9223372036854775808 = (Inr 3, 9223372036854775808)"
proof -
  have total: "weight_total [Fin False 0, Fin False 1, Fin False 0, Fin False 1] = Fin False 2" by code_simp
  have power: "fl_round binary64 False (pow2 e) = Fin False (pow2 e)" if "- 1074 \<le> e" "e \<le> 900" for e
    using fl_round_exact [of 1 binary64 e False] that by (simp add: binary64_def)
  have "fl_of_nat binary64 4503599627370496 = Fin False (pow2 52)" "fl_of_nat binary64 9007199254740992 = Fin False (pow2 53)"
    using power [of 52] power [of 53] by (simp_all add: fl_of_nat_def pow2_def)
  moreover have "fl_div binary64 f64_one (Fin False (pow2 53)) = Fin False (pow2 (- 53))"
    using power [of "- 53"] by (simp add: f64_one_def pow2_def)
  moreover have "fl_mul binary64 (Fin False (pow2 52)) (Fin False (pow2 (- 53))) = Fin False (1 / 2)"
    using power [of "- 1"] by (simp add: pow2_def)
  ultimately have unit: "unit_draw 9223372036854775808 = Fin False (1 / 2)" by (simp add: unit_draw_def)
  have target: "fl_mul binary64 (Fin False (1 / 2)) (Fin False 2) = Fin False 1" by code_simp
  have "choose_weight (Fin False 1) f64_zero None (enumerate 0 [Fin False 0, Fin False 1, Fin False 0, Fin False 1]) = Some 3"
    by code_simp
  moreover have "fl_less f64_zero (Fin False 2)" by code_simp
  ultimately show ?thesis
    by (simp add: categorical_def total unit target m_bind_def demo_env_def ieee_env_def ok_or_def
        del: choose_weight.simps enumerate_simps fl_mul.simps)
qed

lemma demo_drawn:
  "sample_stages demo_env demo_math demo_logits [0] ((), demo_sampler demo_options) =
     (Inr \<lparr>st_id = 3, st_logprobs = [0xc020, 0xbf80, 0xc040, 0xbfc0]\<rparr>, ((), demo_sampler demo_options))"
  by (simp add: sample_stages_def demo_prepared m_bind_def on_rng_def draw_prepared_def demo_stages_def check_maximum_def
      demo_weights demo_categorical token_id_def demo_sampler_def)

lemma demo_row_small: "length demo_logits < u32_limit"
  by (simp add: demo_logits_def)

lemma demo_id: "\<exists>s'. sample_id_with_math demo_env demo_math demo_logits [0] ((), demo_used) = (Inr 3, s')"
proof -
  have "numbers (ss_logprobs demo_stages)" unfolding demo_stages_def by code_simp
  with half_crate.sample_id_agrees [OF demo_half_crate demo_row_small demo_scans _ _ demo_drawn, of demo_used]
  show ?thesis by (auto simp: demo_prepared)
qed

text \<open>At temperature zero.\<close>

definition demo_greedy :: sampling_options where
  "demo_greedy = demo_options\<lparr>so_temperature := f64_zero\<rparr>"

lemma demo_greedy_valid: "options_validate demo_env demo_greedy = Inr ()"
  unfolding options_validate_def by code_simp

lemma demo_greedy_presence: "presence demo_env demo_logits [0] demo_greedy = Inr [0x3f00, 0x4000, 0, 0x3fc0]"
  unfolding presence_def by code_simp

lemma demo_not_stochastic: "\<not> stochastic demo_greedy"
  by code_simp

lemma demo_greedy_choice: "greedy_reference demo_env [0xc020, 0xbf80, 0xc040, 0xbfc0] = Inr 1"
  unfolding greedy_reference_def by code_simp

lemma demo_greedy_prepared:
  "\<exists>st. prepare_with_math demo_env demo_math demo_logits [0] demo_greedy () = (Inr st, ()) \<and>
     ss_logprobs st = [0xc020, 0xbf80, 0xc040, 0xbfc0] \<and> ss_scaled st = None"
proof -
  have "logsumexp_bf16 demo_math row () = (Inr 0x4040, ())" for row by (simp add: demo_math_def)
  moreover have "demo_logits \<noteq> []" by (simp add: demo_logits_def)
  ultimately show ?thesis
    by (simp add: prepare_with_math_def demo_greedy_valid demo_logits_finite demo_greedy_presence demo_logprobs
        demo_not_stochastic Let_def del: list.map)
qed

lemma demo_greedy_id:
  "\<exists>m' sp'. sample_id_with_math demo_env demo_math demo_logits [0] ((), demo_sampler demo_greedy) = (Inr 1, (m', sp'))"
proof -
  obtain st where st: "prepare_with_math demo_env demo_math demo_logits [0] demo_greedy () = (Inr st, ())"
      "ss_logprobs st = [0xc020, 0xbf80, 0xc040, 0xbfc0]" "ss_scaled st = None"
    using demo_greedy_prepared by blast
  then have drawn: "sample_stages demo_env demo_math demo_logits [0] ((), demo_sampler demo_greedy) =
      (Inr \<lparr>st_id = 1, st_logprobs = ss_logprobs st\<rparr>, ((), demo_sampler demo_greedy))"
    by (simp add: sample_stages_def m_bind_def on_rng_def draw_prepared_def demo_greedy_choice token_id_def demo_sampler_def)
  moreover have "numbers (ss_logprobs st)" unfolding st(2) by code_simp
  ultimately show ?thesis
    using half_crate.sample_id_agrees [OF demo_half_crate demo_row_small _ refl refl drawn] demo_scans st(1) by auto
qed

section \<open>Witnesses\<close>

theorem production_draws_as_diagnostics_witness:
  "fst (sample_id_with_math demo_env demo_math demo_logits [0] ((), demo_used)) = Inr 3"
proof -
  have n: "\<forall>w\<in>set (ss_logprobs demo_stages). \<not> bf16_is_nan w" unfolding demo_stages_def by code_simp
  show ?thesis
    using production_draws_as_diagnostics [OF demo_half_crate demo_scans demo_row_small,
        of demo_used "demo_sampler demo_options" "[0]" "()"] demo_drawn n
    by (auto simp: demo_prepared split: prod.splits if_splits)
qed

theorem drawn_token_survives_filters_witness:
  "\<exists>st m1. prepare_with_math demo_env demo_math demo_logits [0] demo_options () = (Inr st, m1) \<and>
     ss_filtered st ! 3 \<noteq> NEG_INF \<and> card {j \<in> {0..<4}. descending_ids demo_env (ss_min_p st) j 3} < 2"
proof -
  obtain s' where drawn: "sample_id_with_math demo_env demo_math demo_logits [0] ((), demo_used) = (Inr 3, s')"
    using demo_id by blast
  have "so_top_k demo_options = 2" "length demo_logits = 4" by (simp_all add: demo_options_def demo_logits_def)
  then show ?thesis
    using drawn_token_survives_filters [OF demo_half_crate demo_exp demo_scans demo_row_small _ drawn] demo_stochastic by simp
qed

theorem greedy_takes_first_best_witness:
  "\<exists>m' sp'. sample_id_with_math demo_env demo_math demo_logits [0] ((), demo_sampler demo_greedy) = (Inr 1, (m', sp')) \<and>
     fl_less (to_f32 demo_env (sw_logprobs (sp_workspace sp') ! 0)) (to_f32 demo_env (sw_logprobs (sp_workspace sp') ! 1))"
proof -
  obtain m' sp' where drawn:
    "sample_id_with_math demo_env demo_math demo_logits [0] ((), demo_sampler demo_greedy) = (Inr 1, (m', sp'))"
    using demo_greedy_id by blast
  from greedy_takes_first_best [OF demo_half_crate demo_row_small _ this] demo_not_stochastic drawn
  show ?thesis by (auto simp: Let_def)
qed

theorem package_options_are_valid_witness:
  "\<exists>so. from_generation_config demo_env \<lparr>num_f64 = (\<lambda>_. Some f64_one), num_u64 = (\<lambda>_. Some 3)\<rparr>
      (J_Object [(ascii ''temperature'', J_Number ()), (ascii ''top_k'', J_Number ()), (ascii ''do_sample'', J_Bool False)]) = Inr so \<and>
     options_validate demo_env so = Inr () \<and> fl_eq (so_temperature so) f64_zero"
proof -
  let ?ne = "\<lparr>num_f64 = (\<lambda>_ :: unit. Some f64_one), num_u64 = (\<lambda>_. Some (3 :: nat))\<rparr>"
  let ?config = "J_Object [(ascii ''temperature'', J_Number ()), (ascii ''top_k'', J_Number ()), (ascii ''do_sample'', J_Bool False)]"
  have valid: "options_validate demo_env
      \<lparr>so_temperature = f64_one, so_top_p = f64_one, so_min_p = f64_zero, so_top_k = 3, so_presence_penalty = f64_zero,
       so_presence_context_size = 20\<rparr> = Inr ()"
    unfolding options_validate_def by code_simp
  have fields: "config_field ?config ''temperature'' = Some (J_Number ())" "config_field ?config ''top_p'' = None"
    "config_field ?config ''min_p'' = None" "config_field ?config ''top_k'' = Some (J_Number ())"
    "config_field ?config ''presence_penalty'' = None" "config_field ?config ''repetition_penalty'' = None"
    "config_field ?config ''do_sample'' = Some (J_Bool False)"
    by code_simp+
  obtain so where so: "from_generation_config demo_env ?ne ?config = Inr so"
    using valid by (simp add: from_generation_config_def optional_number_def fields as_f64_def as_u64_def as_bool_def ok_or_def
        default_options_def unwrap_or_def is_none_or_def)
  from package_options_are_valid [OF demo_half_crate this] so show ?thesis by (auto simp: fields as_bool_def)
qed

text \<open>A device whose kernels copy the row, with a vocabulary of three and bytes of an earlier row in its buffers.\<close>

definition copying_device :: device_env where
  "copying_device =
     \<lparr>de_threads = (\<lambda>_. 64),
      de_run = (\<lambda>_ inp cnt _ _ out. Inr (take (le_value cnt * 2) inp @ drop (le_value cnt * 2) out))\<rparr>"

definition used_device :: sampling_device where
  "used_device =
     (let b = (\<lambda>n. \<lparr>buf_bytes = replicate n 7, buf_reserved = False\<rparr>)
      in \<lparr>sd_input = b 6, sd_output = b 6, sd_count = b 4, sd_host_input = replicate 6 9, sd_host_output = replicate 6 9,
          sd_max_vocabulary = 3\<rparr>)"

theorem device_answers_for_its_row_witness:
  "\<exists>d1 d2. device_exp copying_device [5, 6] used_device = (Inr [5, 6], d1) \<and> device_ok d1 \<and>
     device_cumulative copying_device [5, 6] used_device = (Inr [5, 6], d2) \<and> device_ok d2"
proof -
  have ready: "device_ok used_device" "length [5 :: bf16, 6] \<le> sd_max_vocabulary used_device"
    by (simp_all add: device_ok_def used_device_def byte_len_def)
  have copies: "kernel_computes copying_device k (\<lambda>row. row)" for k
    by (auto simp: kernel_computes_def copying_device_def simp del: le_bytes.simps)
  have "[5 :: bf16, 6] \<noteq> []" "0 < de_threads copying_device Exp_Kernel" "32 \<le> de_threads copying_device Scan_Kernel"
    "32 dvd de_threads copying_device Scan_Kernel" by (simp_all add: copying_device_def)
  from device_answers_for_its_row [OF ready(1) this(1) ready(2) this(2-4) copies copies] show ?thesis .
qed

end
