(* ===== verification/Generation_Loop.thy ===== *)
theory Generation_Loop
  imports Sampling Session_State Kvarn_Partition Rust_Bytes "HOL-Library.Sublist"
begin

text \<open>
  The token loop of a request (\<open>run_loop\<close> of \<open>generation.rs\<close>): the rendered prompt is consumed in chunks with the original
  routing, then a token is selected, shown and only then consumed to obtain the next one. The engine
  (\<open>action\<close>), the clock hook (\<open>on_sample\<close>), the output (\<open>emit\<close>) and the cancellation flag are callbacks over a state of the
  caller. Wall-clock fields of the statistics are not kept.

  A \<open>return\<close> inside the prefill loop is the flag of its result. The decode loop ends because every round
  but the last emits a token and \<open>max_tokens\<close> bounds them, so it runs on that much fuel.
\<close>

datatype finish_reason = MaxTokens | StopToken nat | ContextLimit | Cancelled

record prompt_cache_stats =
  pc_event :: string
  pc_cached_tokens :: nat
  pc_disk_checkpoints_written :: nat
  pc_last_disk_checkpoint :: nat
  pc_capacity_changed :: bool

definition default_cache_stats :: prompt_cache_stats where
  "default_cache_stats =
     \<lparr>pc_event = ''disabled'', pc_cached_tokens = 0, pc_disk_checkpoints_written = 0, pc_last_disk_checkpoint = 0,
      pc_capacity_changed = False\<rparr>"

record generation_stats =
  gs_prompt_consumed :: nat
  gs_prefill_tokens :: nat
  gs_generated_tokens :: nat
  gs_frontier :: nat
  gs_changed_routes :: nat
  gs_finish :: finish_reason
  gs_prompt_cache :: prompt_cache_stats

record generation_options =
  go_max_tokens :: nat
  go_max_context :: nat
  go_decode_mode :: routing_mode
  go_sampling :: sampling_options
  go_seed :: nat

datatype generation_action = Consume "nat list" routing_mode bool "nat list" | SampleCurrent "nat list"

datatype action_result = Consumed nat nat "nat option" | Sampled nat | ActionCancelled

record 's loop_env =
  le_action :: "generation_action \<Rightarrow> (string, 's, action_result) fallible"
  le_on_sample :: "'s \<Rightarrow> 's"
  le_emit :: "nat \<Rightarrow> (string, 's, unit) fallible"
  le_cancelled :: "'s \<Rightarrow> bool \<times> 's"

definition poll :: "('s \<Rightarrow> 'a \<times> 's) \<Rightarrow> (string, 's, 'a) fallible" where
  "poll f s = (case f s of (x, s') \<Rightarrow> (Inr x, s'))"

definition check_prompt :: "nat list \<Rightarrow> nat list \<Rightarrow> generation_options \<Rightarrow> unit result \<Rightarrow> unit result" where
  "check_prompt prompt stop_ids go k =
     ensure (prompt \<noteq> []) ''generation requires a nonempty prompt''
    (ensure (stop_ids \<noteq> []) ''generation requires stop token IDs''
    (ensure (0 < go_max_tokens go) ''max tokens must be positive'' k))"

definition loop_checks :: "nat list \<Rightarrow> nat list \<Rightarrow> generation_options \<Rightarrow> nat \<Rightarrow> nat \<Rightarrow> unit result" where
  "loop_checks prompt stop_ids go prefill_width initial =
     check_prompt prompt stop_ids go
    (ensure (1 \<le> prefill_width \<and> prefill_width \<le> MAX_ROWS) ''invalid prefill width''
    (ensure (length prompt \<le> go_max_context go) ''rendered prompt exceeds context limit''
    (ensure (initial \<le> length prompt) ''restored frontier exceeds the rendered prompt'' (Inr ()))))"

definition initial_stats :: "nat \<Rightarrow> generation_stats" where
  "initial_stats initial =
     \<lparr>gs_prompt_consumed = initial, gs_prefill_tokens = 0, gs_generated_tokens = 0, gs_frontier = initial,
      gs_changed_routes = 0, gs_finish = Cancelled, gs_prompt_cache = default_cache_stats\<rparr>"

definition check_prefill ::
    "nat \<Rightarrow> bool \<Rightarrow> generation_stats \<Rightarrow> action_result \<Rightarrow> (bool \<times> generation_stats \<times> nat option) result" where
  "check_prefill n draw stats r =
     (case r of
        ActionCancelled \<Rightarrow> Inr (True, stats, None)
      | Sampled _ \<Rightarrow> Inl ''generation consume action returned a sample-only result''
      | Consumed frontier changed selected \<Rightarrow>
          let stats = stats\<lparr>gs_frontier := gs_frontier stats + n\<rparr> in
          ensure (frontier = gs_frontier stats \<and> (selected \<noteq> None) = draw) ''engine frontier differs from generation frontier''
            (Inr (False,
              stats\<lparr>gs_prompt_consumed := gs_prompt_consumed stats + n, gs_prefill_tokens := gs_prefill_tokens stats + n,
                    gs_changed_routes := gs_changed_routes stats + changed\<rparr>,
              selected)))"

fun prefill_loop ::
    "'s loop_env \<Rightarrow> nat list \<Rightarrow> nat list list \<Rightarrow> generation_stats \<Rightarrow> nat option \<Rightarrow>
      (string, 's, bool \<times> generation_stats \<times> nat option) fallible" where
  "prefill_loop env prompt [] stats selected = m_return (False, stats, selected)"
| "prefill_loop env prompt (tokens # rest) stats selected =
     m_bind (poll (le_cancelled env)) (\<lambda>stop.
     if stop then m_return (True, stats, selected)
     else
       let draw = (gs_frontier stats + length tokens = length prompt) in
       m_bind (le_action env (Consume tokens Unbiased draw prompt)) (\<lambda>r.
       m_bind (m_lift (check_prefill (length tokens) draw stats r)) (\<lambda>(halted, stats, selected).
       if halted then m_return (True, stats, selected) else prefill_loop env prompt rest stats selected)))"

definition select_token :: "'s loop_env \<Rightarrow> nat list \<Rightarrow> nat option \<Rightarrow> (string, 's, nat option) fallible" where
  "select_token env history selected =
     (case selected of
        Some token \<Rightarrow> m_return (Some token)
      | None \<Rightarrow> m_bind (le_action env (SampleCurrent history)) (\<lambda>r.
          case r of
            Sampled token \<Rightarrow> m_return (Some token)
          | ActionCancelled \<Rightarrow> m_return None
          | Consumed _ _ _ \<Rightarrow> m_lift (Inl ''generation sample action consumed a token'')))"

definition check_decode :: "generation_stats \<Rightarrow> action_result \<Rightarrow> (generation_stats \<times> nat) option result" where
  "check_decode stats r =
     (case r of
        ActionCancelled \<Rightarrow> Inr None
      | Sampled _ \<Rightarrow> Inl ''generation decode action returned a sample-only result''
      | Consumed frontier changed selected \<Rightarrow>
          let stats = stats\<lparr>gs_frontier := gs_frontier stats + 1\<rparr> in
          (case selected of
             None \<Rightarrow> Inl ''engine frontier differs from generation frontier''
           | Some token \<Rightarrow>
               ensure (frontier = gs_frontier stats) ''engine frontier differs from generation frontier''
                 (Inr (Some (stats\<lparr>gs_changed_routes := gs_changed_routes stats + changed\<rparr>, token)))))"

text \<open>A round either ends the request or leaves the token that the next round starts with.\<close>

type_synonym 's decode_result = "(string, 's, generation_stats \<times> nat list \<times> nat option) fallible"

definition consume_token :: "'s loop_env \<Rightarrow> generation_options \<Rightarrow> generation_stats \<Rightarrow> nat list \<Rightarrow> nat \<Rightarrow> 's decode_result" where
  "consume_token env go stats history token =
     m_bind (poll (le_cancelled env)) (\<lambda>stop.
     if stop then m_return (stats, history, None)
     else
       m_bind (le_action env (Consume [token] (go_decode_mode go) True history)) (\<lambda>r.
       m_bind (m_lift (check_decode stats r)) (\<lambda>continued.
       case continued of
         None \<Rightarrow> m_return (stats, history, None)
       | Some (stats, selected) \<Rightarrow> m_return (stats, history, Some selected))))"

definition deliver_token ::
    "'s loop_env \<Rightarrow> nat list \<Rightarrow> generation_options \<Rightarrow> generation_stats \<Rightarrow> nat list \<Rightarrow> nat \<Rightarrow> 's decode_result" where
  "deliver_token env stop_ids go stats history token =
     m_bind (m_modify (le_on_sample env)) (\<lambda>_.
     if token \<in> set stop_ids then m_return (stats\<lparr>gs_finish := StopToken token\<rparr>, history, None)
     else
       m_bind (le_emit env token) (\<lambda>_.
       let stats = stats\<lparr>gs_generated_tokens := gs_generated_tokens stats + 1\<rparr>; history = history @ [token] in
       if gs_generated_tokens stats = go_max_tokens go then m_return (stats\<lparr>gs_finish := MaxTokens\<rparr>, history, None)
       else if gs_frontier stats = go_max_context go then m_return (stats\<lparr>gs_finish := ContextLimit\<rparr>, history, None)
       else consume_token env go stats history token))"

definition decode_round ::
    "'s loop_env \<Rightarrow> nat list \<Rightarrow> generation_options \<Rightarrow> generation_stats \<Rightarrow> nat list \<Rightarrow> nat option \<Rightarrow> 's decode_result" where
  "decode_round env stop_ids go stats history selected =
     m_bind (poll (le_cancelled env)) (\<lambda>stop.
     if stop then m_return (stats, history, None)
     else m_bind (select_token env history selected) (\<lambda>found.
       case found of
         None \<Rightarrow> m_return (stats, history, None)
       | Some token \<Rightarrow> deliver_token env stop_ids go stats history token))"

fun decode_loop ::
    "nat \<Rightarrow> 's loop_env \<Rightarrow> nat list \<Rightarrow> generation_options \<Rightarrow> generation_stats \<Rightarrow> nat list \<Rightarrow> nat option \<Rightarrow>
      (string, 's, generation_stats) fallible" where
  "decode_loop 0 env stop_ids go stats history selected = m_lift (Inl ''out of fuel'')"
| "decode_loop (Suc fuel) env stop_ids go stats history selected =
     m_bind (decode_round env stop_ids go stats history selected) (\<lambda>(stats, history, following).
     case following of
       None \<Rightarrow> m_return stats
     | Some token \<Rightarrow> decode_loop fuel env stop_ids go stats history (Some token))"

definition run_loop ::
    "'s loop_env \<Rightarrow> nat list \<Rightarrow> nat list \<Rightarrow> generation_options \<Rightarrow> nat \<Rightarrow> nat \<Rightarrow> (string, 's, generation_stats) fallible" where
  "run_loop env prompt stop_ids go prefill_width initial =
     m_bind (m_lift (loop_checks prompt stop_ids go prefill_width initial)) (\<lambda>_.
     m_bind (prefill_loop env prompt (chunks prefill_width (drop initial prompt)) (initial_stats initial) None)
       (\<lambda>(halted, stats, selected).
     if halted then m_return stats else decode_loop (go_max_tokens go) env stop_ids go stats prompt selected))"

section \<open>Observing the callbacks\<close>

text \<open>The same callbacks over a state that also records what was asked and answered.\<close>

datatype loop_event = Acted generation_action "string + action_result" | Emitted nat "string + unit" | Polled bool

definition logged :: "'s loop_env \<Rightarrow> ('s \<times> loop_event list) loop_env" where
  "logged env =
     \<lparr>le_action = (\<lambda>a (s, es). case le_action env a s of (r, s') \<Rightarrow> (r, (s', es @ [Acted a r]))),
      le_on_sample = (\<lambda>(s, es). (le_on_sample env s, es)),
      le_emit = (\<lambda>t (s, es). case le_emit env t s of (r, s') \<Rightarrow> (r, (s', es @ [Emitted t r]))),
      le_cancelled = (\<lambda>(s, es). case le_cancelled env s of (b, s') \<Rightarrow> (b, (s', es @ [Polled b])))\<rparr>"

text \<open>The protocol of a request: what the engine has consumed and what the reader has seen. Tokens are consumed in the
  order of the conversation and only once they are visible in it, the prompt with the original routing and the rest
  in the mode of the request; a token is shown when everything before it has been consumed, within the limit and
  never a stop token.\<close>

fun protocol_step :: "nat list \<Rightarrow> nat list \<Rightarrow> generation_options \<Rightarrow> loop_event \<Rightarrow> nat list \<times> nat list \<Rightarrow> (nat list \<times> nat list) option" where
  "protocol_step prompt stop_ids go (Acted (Consume tokens mode draw history) r) (c, e) =
     (if history = prompt @ e \<and> tokens \<noteq> [] \<and> prefix (c @ tokens) (prompt @ e) \<and>
         mode = (if length c < length prompt then Unbiased else go_decode_mode go) \<and>
         draw = (c @ tokens = prompt @ e)
      then Some (case r of Inr (Consumed _ _ _) \<Rightarrow> c @ tokens | _ \<Rightarrow> c, e) else None)"
| "protocol_step prompt stop_ids go (Acted (SampleCurrent history) r) (c, e) =
     (if history = prompt \<and> c = prompt \<and> e = [] then Some (c, e) else None)"
| "protocol_step prompt stop_ids go (Emitted token r) (c, e) =
     (if c = prompt @ e \<and> length e < go_max_tokens go \<and> token \<notin> set stop_ids
      then Some (c, case r of Inl _ \<Rightarrow> e | Inr _ \<Rightarrow> e @ [token]) else None)"
| "protocol_step prompt stop_ids go (Polled cancelled) (c, e) = Some (c, e)"

definition replay ::
    "nat list \<Rightarrow> nat list \<Rightarrow> generation_options \<Rightarrow> nat list \<times> nat list \<Rightarrow> loop_event list \<Rightarrow> (nat list \<times> nat list) option" where
  "replay prompt stop_ids go start es = foldl (\<lambda>st ev. Option.bind st (protocol_step prompt stop_ids go ev)) (Some start) es"

text \<open>The token that was selected last and not shown yet, and whether the last answer was to stop.\<close>

fun select_step :: "nat option \<Rightarrow> loop_event \<Rightarrow> nat option" where
  "select_step t (Acted a (Inr (Sampled token))) = Some token"
| "select_step t (Acted a (Inr (Consumed frontier changed token))) = token"
| "select_step t (Emitted token r) = None"
| "select_step t ev = t"

definition selection :: "loop_event list \<Rightarrow> nat option" where
  "selection es = foldl select_step None es"

fun stops :: "loop_event \<Rightarrow> bool" where
  "stops (Polled cancelled) \<longleftrightarrow> cancelled"
| "stops (Acted a (Inr ActionCancelled)) \<longleftrightarrow> True"
| "stops ev \<longleftrightarrow> False"

definition stopped :: "loop_event list \<Rightarrow> bool" where
  "stopped es \<longleftrightarrow> es \<noteq> [] \<and> stops (last es)"

end
