(* ===== verification/Generation.thy ===== *)
theory Generation
  imports Generation_Loop Sampler Stream_Text Rust_Triples
begin

text \<open>
  One request over the engine and its optional prompt tiers (\<open>generate_inner_with_phases\<close> of \<open>generation.rs\<close>): the lookup of the
  longest committed prefix in memory and on disk, the token loop with the publication of checkpoints, the phases of
  the owner's resource control, the streamed text and the final checkpoints.

  The engine, the sessions, the two tiers, the tokenizer, the owner's callbacks and the cancellation flag are the fields of an
  environment; their common state is the world. Their own models are other theories. Clock readings and log
  lines are not kept.
\<close>

datatype request_phase = Prepare | Prefill nat | CompletedOperation | Decode | Finished

record gen_output =
  out_frontier :: nat
  out_changed_routes :: nat
  out_selected :: "nat option"

record ('w, 'ss, 'sn, 'g) gen_env =
  ge_stop_ids :: "nat list"
  ge_sampling :: "'g sampling_env"
  ge_context_limit :: "'w \<Rightarrow> nat"
  ge_prefill_width :: "'w \<Rightarrow> nat"
  ge_prefill_ready :: "'w \<Rightarrow> bool"
  ge_capacity :: "'w \<Rightarrow> nat"
  ge_cancelled :: "'w \<Rightarrow> bool \<times> 'w"
  ge_boundary :: "(string, 'w, bool) fallible"
  ge_phase :: "(request_phase \<Rightarrow> (string, 'w, unit) fallible) option"
  ge_on_text :: "chars \<Rightarrow> (string, 'w, unit) fallible"
  ge_decoder :: "nat \<Rightarrow> (string, 'w, chars option) fallible"
  ge_decode :: "nat list \<Rightarrow> chars result"
  ge_start_session :: "(string, 'w, 'ss) fallible"
  ge_session_frontier :: "'ss \<Rightarrow> nat result"
  ge_consume :: "nat list \<Rightarrow> routing_mode \<Rightarrow> 'ss \<Rightarrow> nat list \<Rightarrow> bool \<Rightarrow> 'w \<Rightarrow> gen_output option result \<times> 'ss \<times> bool \<times> 'w"
  ge_sample_committed :: "'ss \<Rightarrow> nat list \<Rightarrow> (string, 'w, nat) fallible"
  ge_memory :: bool
  ge_best_match :: "nat list \<Rightarrow> 'w \<Rightarrow> (nat \<times> 'sn) option \<times> 'w"
  ge_restore :: "'sn \<Rightarrow> (string, 'w, 'ss) fallible"
  ge_offer_prompt :: "'ss \<Rightarrow> nat list \<Rightarrow> (string, 'w, bool) fallible"
  ge_offer_generated :: "'ss \<Rightarrow> nat list \<Rightarrow> (string, 'w, bool) fallible"
  ge_disk :: bool
  ge_disk_full :: bool
  ge_stride :: nat
  ge_write_depth :: nat
  ge_has_match_beyond :: "nat list \<Rightarrow> nat \<Rightarrow> (string, 'w, bool) fallible"
  ge_load_match :: "nat list \<Rightarrow> (string, 'w, 'ss option) fallible"
  ge_save :: "'ss \<Rightarrow> (string, 'w, bool) fallible"

section \<open>Checks and checkpoint policy\<close>

definition validate_policy :: "nat \<Rightarrow> nat \<Rightarrow> unit result" where
  "validate_policy stride write_depth =
     ensure (512 \<le> stride \<and> 512 dvd stride) ''disk checkpoint stride must be a positive multiple of 512''
    (ensure (0 < write_depth) ''disk checkpoint write depth must be positive'' (Inr ()))"

definition disk_write_eligible :: "nat \<Rightarrow> nat \<Rightarrow> routing_mode \<Rightarrow> nat \<Rightarrow> nat \<Rightarrow> nat \<Rightarrow> bool" where
  "disk_write_eligible frontier tokens mode stride write_depth prefill_width \<longleftrightarrow>
     mode = Unbiased \<and> prefill_width \<in> {512, 2048, 4096} \<and> tokens = prefill_width \<and> tokens \<le> frontier \<and>
     0 < stride \<and> frontier \<le> write_depth \<and> (frontier - tokens) div stride < frontier div stride"

definition validate_request_inputs :: "nat list \<Rightarrow> nat list \<Rightarrow> generation_options \<Rightarrow> nat \<Rightarrow> nat \<Rightarrow> unit result" where
  "validate_request_inputs prompt stop_ids go engine_context prefill_width =
     check_prompt prompt stop_ids go
    (ensure (0 < go_max_context go \<and> go_max_context go \<le> engine_context) ''generation context exceeds loaded Engine capacity''
    (ensure (length prompt \<le> go_max_context go) ''rendered prompt exceeds context limit''
    (ensure (list_all (\<lambda>token. token < 248320) prompt) ''rendered prompt contains an invalid token ID''
    (ensure (1 \<le> prefill_width \<and> prefill_width \<le> MAX_ROWS) ''invalid Engine prefill width'' (Inr ())))))"

definition validate_request :: "('w, 'ss, 'sn, 'g) gen_env \<Rightarrow> nat list \<Rightarrow> generation_options \<Rightarrow> 'w \<Rightarrow> unit result" where
  "validate_request env prompt go w =
     ensure (ge_prefill_ready env w) ''prefill workspace needs repair before generation''
       (validate_request_inputs prompt (ge_stop_ids env) go (ge_context_limit env w) (ge_prefill_width env w))"

definition offer_memory_at :: "nat \<Rightarrow> nat \<Rightarrow> nat \<Rightarrow> bool" where
  "offer_memory_at frontier prompt_len prefill_width \<longleftrightarrow>
     (let aligned = prompt_len div prefill_width * prefill_width
      in frontier = prompt_len \<or> 0 < aligned \<and> frontier = aligned)"

definition terminal_text :: "chars \<Rightarrow> chars \<Rightarrow> chars result" where
  "terminal_text whole emitted =
     ok_or (strip_prefix_of emitted whole) ''streamed text differs from complete token decoding''"

section \<open>Finding a committed prefix\<close>

record ('w, 'ss) lookup =
  lk_world :: 'w
  lk_stats :: prompt_cache_stats
  lk_memory_active :: bool
  lk_disk_active :: bool
  lk_restored :: "('ss \<times> nat) option"

definition in_lookup :: "(string, 'w, 'a) fallible \<Rightarrow> (string, ('w, 'ss) lookup, 'a) fallible" where
  "in_lookup m l = (case m (lk_world l) of (r, w) \<Rightarrow> (r, l\<lparr>lk_world := w\<rparr>))"

definition restored_from :: "string \<Rightarrow> 'ss \<Rightarrow> nat \<Rightarrow> ('w, 'ss) lookup \<Rightarrow> ('w, 'ss) lookup" where
  "restored_from event session frontier l =
     l\<lparr>lk_restored := Some (session, frontier), lk_stats := (lk_stats l)\<lparr>pc_event := event, pc_cached_tokens := frontier\<rparr>\<rparr>"

text \<open>The candidate is stored by the caller on \<open>Ok\<close>; a shorter one than wanted is dropped and counts as none.\<close>

definition restore_disk_prefix ::
    "('w, 'ss, 'sn, 'g) gen_env \<Rightarrow> nat list \<Rightarrow> nat \<Rightarrow> (string, ('w, 'ss) lookup, unit) fallible" where
  "restore_disk_prefix env prompt minimum =
     m_bind (in_lookup (ge_load_match env prompt)) (\<lambda>found.
     case found of
       None \<Rightarrow> m_modify (\<lambda>l. l\<lparr>lk_restored := None\<rparr>)
     | Some session \<Rightarrow>
         m_bind (m_lift (ge_session_frontier env session)) (\<lambda>frontier.
         if frontier < minimum then m_modify (\<lambda>l. l\<lparr>lk_restored := None\<rparr>)
         else m_modify (restored_from ''disk_hit'' session frontier)))"

definition memory_hit :: "('w, 'ss, 'sn, 'g) gen_env \<Rightarrow> nat list \<Rightarrow> (string, ('w, 'ss) lookup, (nat \<times> 'sn) option) fallible" where
  "memory_hit env prompt = (if ge_memory env then in_lookup (poll (ge_best_match env prompt)) else m_return None)"

definition poll_cancelled :: "('w, 'ss, 'sn, 'g) gen_env \<Rightarrow> (string, ('w, 'ss) lookup, bool) fallible" where
  "poll_cancelled env = in_lookup (poll (ge_cancelled env))"

definition lose_disk :: "(string, ('w, 'ss) lookup, 'a) fallible \<Rightarrow> (string, ('w, 'ss) lookup, unit) fallible" where
  "lose_disk m =
     m_bind (m_try m) (\<lambda>r. case r of Inl _ \<Rightarrow> m_modify (\<lambda>l. l\<lparr>lk_disk_active := False\<rparr>) | Inr _ \<Rightarrow> m_return ())"

text \<open>A deeper prefix on disk is preferred to a partial match in memory.\<close>

definition look_deeper_on_disk ::
    "('w, 'ss, 'sn, 'g) gen_env \<Rightarrow> nat list \<Rightarrow> nat \<Rightarrow> (string, ('w, 'ss) lookup, unit) fallible" where
  "look_deeper_on_disk env prompt memory_frontier =
     (if \<not> (0 < memory_frontier \<and> memory_frontier < length prompt) then m_return ()
      else m_bind (poll_cancelled env) (\<lambda>stop.
        if stop \<or> \<not> ge_disk env then m_return ()
        else lose_disk
          (m_bind (in_lookup (ge_has_match_beyond env prompt memory_frontier)) (\<lambda>deeper.
           if deeper then restore_disk_prefix env prompt (memory_frontier + 1) else m_return ()))))"

definition look_in_memory :: "('w, 'ss, 'sn, 'g) gen_env \<Rightarrow> nat list \<Rightarrow> (string, ('w, 'ss) lookup, unit) fallible" where
  "look_in_memory env prompt =
     m_bind (m_get (\<lambda>l. Inr (lk_restored l))) (\<lambda>restored.
     if restored \<noteq> None then m_return ()
     else m_bind (memory_hit env prompt) (\<lambda>hit.
       case hit of
         None \<Rightarrow> m_return ()
       | Some (matched, snapshot) \<Rightarrow>
           m_bind (m_try (in_lookup (ge_restore env snapshot))) (\<lambda>r.
           case r of
             Inr session \<Rightarrow> m_modify (restored_from ''memory_hit'' session matched)
           | Inl _ \<Rightarrow> m_modify (\<lambda>l. l\<lparr>lk_memory_active := False\<rparr>))))"

definition look_on_disk :: "('w, 'ss, 'sn, 'g) gen_env \<Rightarrow> nat list \<Rightarrow> (string, ('w, 'ss) lookup, unit) fallible" where
  "look_on_disk env prompt =
     m_bind (m_get (\<lambda>l. Inr (lk_restored l = None \<and> lk_disk_active l))) (\<lambda>wanted.
     if \<not> wanted then m_return ()
     else m_bind (poll_cancelled env) (\<lambda>stop.
       if stop \<or> \<not> ge_disk env then m_return () else lose_disk (restore_disk_prefix env prompt 0)))"

definition fill_memory :: "('w, 'ss, 'sn, 'g) gen_env \<Rightarrow> nat list \<Rightarrow> (string, ('w, 'ss) lookup, unit) fallible" where
  "fill_memory env prompt =
     m_bind (m_get Inr) (\<lambda>l.
     case lk_restored l of
       None \<Rightarrow> m_return ()
     | Some (session, _) \<Rightarrow>
         if pc_event (lk_stats l) = ''disk_hit'' \<and> pc_cached_tokens (lk_stats l) = length prompt \<and> lk_memory_active l \<and> ge_memory env
         then m_bind (m_try (in_lookup (ge_offer_prompt env session prompt))) (\<lambda>r.
           case r of Inl _ \<Rightarrow> m_modify (\<lambda>l. l\<lparr>lk_memory_active := False\<rparr>) | Inr _ \<Rightarrow> m_return ())
         else m_return ())"

definition lookup_prefix :: "('w, 'ss, 'sn, 'g) gen_env \<Rightarrow> nat list \<Rightarrow> (string, ('w, 'ss) lookup, unit) fallible" where
  "lookup_prefix env prompt =
     m_bind (memory_hit env prompt) (\<lambda>hit.
     m_bind (look_deeper_on_disk env prompt (case hit of None \<Rightarrow> 0 | Some (matched, _) \<Rightarrow> matched)) (\<lambda>_.
     m_bind (look_in_memory env prompt) (\<lambda>_.
     look_on_disk env prompt)))"

definition lookup_start :: "('w, 'ss, 'sn, 'g) gen_env \<Rightarrow> 'w \<Rightarrow> ('w, 'ss) lookup" where
  "lookup_start env w =
     \<lparr>lk_world = w,
      lk_stats = default_cache_stats\<lparr>pc_event := if ge_memory env \<or> ge_disk env then ''cold_start'' else ''disabled''\<rparr>,
      lk_memory_active = ge_memory env, lk_disk_active = ge_disk env, lk_restored = None\<rparr>"

section \<open>The callbacks of the token loop\<close>

record ('w, 'ss) gen_state =
  gn_world :: 'w
  gn_session :: 'ss
  gn_stats :: prompt_cache_stats
  gn_memory_active :: bool
  gn_disk_active :: bool
  gn_emitted_ids :: "nat list"
  gn_emitted_text :: chars

definition in_world :: "(string, 'w, 'a) fallible \<Rightarrow> (string, ('w, 'ss) gen_state, 'a) fallible" where
  "in_world m g = (case m (gn_world g) of (r, w) \<Rightarrow> (r, g\<lparr>gn_world := w\<rparr>))"

definition note_resize :: "bool \<Rightarrow> ('w, 'ss) gen_state \<Rightarrow> ('w, 'ss) gen_state" where
  "note_resize b g = (if b then g\<lparr>gn_stats := (gn_stats g)\<lparr>pc_capacity_changed := True\<rparr>\<rparr> else g)"

definition enter_phase :: "('w, 'ss, 'sn, 'g) gen_env \<Rightarrow> request_phase \<Rightarrow> (string, 'w, unit) fallible" where
  "enter_phase env p = (case ge_phase env of None \<Rightarrow> m_return () | Some f \<Rightarrow> f p)"

text \<open>\<open>GenerationDiskCache::checkpoint\<close>.\<close>

definition disk_checkpoint :: "('w, 'ss, 'sn, 'g) gen_env \<Rightarrow> (string, ('w, 'ss) gen_state, unit) fallible" where
  "disk_checkpoint env =
     m_bind (\<lambda>g. in_world (ge_save env (gn_session g)) g) (\<lambda>saved.
     if \<not> saved then m_return ()
     else
       m_bind (m_modify (\<lambda>g. g\<lparr>gn_stats := (gn_stats g)\<lparr>pc_disk_checkpoints_written := pc_disk_checkpoints_written (gn_stats g) + 1\<rparr>\<rparr>)) (\<lambda>_.
       m_bind (m_get (\<lambda>g. ge_session_frontier env (gn_session g))) (\<lambda>frontier.
       m_modify (\<lambda>g. g\<lparr>gn_stats := (gn_stats g)\<lparr>pc_last_disk_checkpoint := frontier\<rparr>\<rparr>))))"

definition engine_consume ::
    "('w, 'ss, 'sn, 'g) gen_env \<Rightarrow> nat list \<Rightarrow> routing_mode \<Rightarrow> nat list \<Rightarrow> bool \<Rightarrow> (string, ('w, 'ss) gen_state, gen_output option) fallible" where
  "engine_consume env tokens mode history draw g =
     (case ge_consume env tokens mode (gn_session g) history draw (gn_world g) of
        (r, session, changed, w) \<Rightarrow>
          let g = g\<lparr>gn_session := session, gn_world := w\<rparr> in
          (case r of Inl e \<Rightarrow> (Inl e, g) | Inr output \<Rightarrow> (Inr output, note_resize changed g)))"

definition offer_to_memory :: "('w, 'ss, 'sn, 'g) gen_env \<Rightarrow> nat list \<Rightarrow> nat \<Rightarrow> nat \<Rightarrow> (string, ('w, 'ss) gen_state, unit) fallible" where
  "offer_to_memory env prompt prefill_width frontier =
     m_bind (m_get (\<lambda>g. Inr (gn_memory_active g))) (\<lambda>active.
     if active \<and> offer_memory_at frontier (length prompt) prefill_width \<and> ge_memory env
     then m_bind (m_try (\<lambda>g. in_world (ge_offer_prompt env (gn_session g) prompt) g)) (\<lambda>r.
       case r of Inl _ \<Rightarrow> m_modify (\<lambda>g. g\<lparr>gn_memory_active := False\<rparr>) | Inr _ \<Rightarrow> m_return ())
     else m_return ())"

definition checkpoint_to_disk ::
    "('w, 'ss, 'sn, 'g) gen_env \<Rightarrow> nat list \<Rightarrow> nat \<Rightarrow> nat \<Rightarrow> nat \<Rightarrow> routing_mode \<Rightarrow> (string, ('w, 'ss) gen_state, unit) fallible" where
  "checkpoint_to_disk env prompt prefill_width frontier tokens mode =
     m_bind (m_get (\<lambda>g. Inr (gn_disk_active g))) (\<lambda>active.
     if active \<and> ge_disk env \<and>
        (frontier = length prompt \<and> ge_disk_full env \<or>
         disk_write_eligible frontier tokens mode (ge_stride env) (ge_write_depth env) prefill_width)
     then m_bind (in_world (poll (ge_cancelled env))) (\<lambda>stop.
       if stop then m_return ()
       else m_bind (m_try (disk_checkpoint env)) (\<lambda>r.
         case r of Inl _ \<Rightarrow> m_modify (\<lambda>g. g\<lparr>gn_disk_active := False\<rparr>) | Inr _ \<Rightarrow> m_return ()))
     else m_return ())"

definition publish_prompt ::
    "('w, 'ss, 'sn, 'g) gen_env \<Rightarrow> nat list \<Rightarrow> nat \<Rightarrow> nat \<Rightarrow> nat \<Rightarrow> routing_mode \<Rightarrow> (string, ('w, 'ss) gen_state, unit) fallible" where
  "publish_prompt env prompt prefill_width frontier tokens mode =
     (if \<not> frontier \<le> length prompt then m_return ()
      else m_bind (in_world (poll (ge_cancelled env))) (\<lambda>stop.
        if stop then m_return ()
        else
          m_bind (offer_to_memory env prompt prefill_width frontier) (\<lambda>_.
          checkpoint_to_disk env prompt prefill_width frontier tokens mode)))"

definition prompt_finished ::
    "('w, 'ss, 'sn, 'g) gen_env \<Rightarrow> nat list \<Rightarrow> nat \<Rightarrow> routing_mode \<Rightarrow> (string, ('w, 'ss) gen_state, unit) fallible" where
  "prompt_finished env prompt frontier mode =
     (if frontier = length prompt \<and> mode = Unbiased then in_world (enter_phase env Decode) else m_return ())"

definition run_boundary :: "('w, 'ss, 'sn, 'g) gen_env \<Rightarrow> (string, ('w, 'ss) gen_state, unit) fallible" where
  "run_boundary env =
     m_bind (in_world (ge_boundary env)) (\<lambda>changed. m_modify (note_resize changed))"

definition consume_action ::
    "('w, 'ss, 'sn, 'g) gen_env \<Rightarrow> nat list \<Rightarrow> nat \<Rightarrow> nat list \<Rightarrow> routing_mode \<Rightarrow> bool \<Rightarrow> nat list \<Rightarrow>
      (string, ('w, 'ss) gen_state, action_result) fallible" where
  "consume_action env prompt prefill_width tokens mode draw history =
     m_bind (engine_consume env tokens mode history draw) (\<lambda>output.
     case output of
       None \<Rightarrow> m_return ActionCancelled
     | Some out \<Rightarrow>
         m_bind (run_boundary env) (\<lambda>_.
         m_bind (prompt_finished env prompt (out_frontier out) mode) (\<lambda>_.
         m_bind (publish_prompt env prompt prefill_width (out_frontier out) (length tokens) mode) (\<lambda>_.
         m_return (Consumed (out_frontier out) (out_changed_routes out) (out_selected out))))))"

definition sample_action :: "('w, 'ss, 'sn, 'g) gen_env \<Rightarrow> nat list \<Rightarrow> (string, ('w, 'ss) gen_state, action_result) fallible" where
  "sample_action env history =
     m_bind (\<lambda>g. in_world (ge_sample_committed env (gn_session g) history) g) (\<lambda>selected.
     m_bind (in_world (enter_phase env Decode)) (\<lambda>_.
     m_bind (run_boundary env) (\<lambda>_.
     m_return (Sampled selected))))"

definition emit_token :: "('w, 'ss, 'sn, 'g) gen_env \<Rightarrow> nat \<Rightarrow> (string, ('w, 'ss) gen_state, unit) fallible" where
  "emit_token env token =
     m_bind (m_modify (\<lambda>g. g\<lparr>gn_emitted_ids := gn_emitted_ids g @ [token]\<rparr>)) (\<lambda>_.
     m_bind (in_world (ge_decoder env token)) (\<lambda>text.
     case text of
       None \<Rightarrow> m_return ()
     | Some t \<Rightarrow>
         m_bind (in_world (ge_on_text env t)) (\<lambda>_.
         m_modify (\<lambda>g. g\<lparr>gn_emitted_text := gn_emitted_text g @ t\<rparr>))))"

definition request_callbacks :: "('w, 'ss, 'sn, 'g) gen_env \<Rightarrow> nat list \<Rightarrow> nat \<Rightarrow> ('w, 'ss) gen_state loop_env" where
  "request_callbacks env prompt prefill_width =
     \<lparr>le_action = (\<lambda>action. case action of
         Consume tokens mode draw history \<Rightarrow> consume_action env prompt prefill_width tokens mode draw history
       | SampleCurrent history \<Rightarrow> sample_action env history),
      le_on_sample = (\<lambda>g. g),
      le_emit = emit_token env,
      le_cancelled = (\<lambda>g. case ge_cancelled env (gn_world g) of (b, w) \<Rightarrow> (b, g\<lparr>gn_world := w\<rparr>))\<rparr>"

section \<open>The request\<close>

text \<open>\<open>also_failed\<close> is the context added to an error when the cleanup after it fails as well.\<close>

definition also_failed :: "string \<Rightarrow> string \<Rightarrow> string" where
  "also_failed primary cleanup = ''request resource cleanup also failed: '' @ cleanup @ '': '' @ primary"

definition with_cleanup :: "(string, 's, 'a) fallible \<Rightarrow> (string, 's, unit) fallible \<Rightarrow> (string, 's, 'a) fallible" where
  "with_cleanup m cleanup =
     m_bind (m_try m) (\<lambda>result.
     m_bind (m_try cleanup) (\<lambda>cleaned.
     m_lift (case (result, cleaned) of
        (Inl primary, Inl secondary) \<Rightarrow> Inl (also_failed primary secondary)
      | (Inl primary, Inr _) \<Rightarrow> Inl primary
      | (Inr _, Inl secondary) \<Rightarrow> Inl secondary
      | (Inr x, Inr _) \<Rightarrow> Inr x)))"

definition flush_text :: "('w, 'ss, 'sn, 'g) gen_env \<Rightarrow> (string, ('w, 'ss) gen_state, unit) fallible" where
  "flush_text env =
     m_bind (m_get (\<lambda>g. bindr (ge_decode env (gn_emitted_ids g)) (\<lambda>whole. terminal_text whole (gn_emitted_text g)))) (\<lambda>remainder.
     if remainder = [] then m_return () else in_world (ge_on_text env remainder))"

definition publish_final :: "('w, 'ss, 'sn, 'g) gen_env \<Rightarrow> nat list \<Rightarrow> (string, ('w, 'ss) gen_state, unit) fallible" where
  "publish_final env prompt =
     m_bind (m_get Inr) (\<lambda>g.
     m_bind (if gn_memory_active g \<and> ge_memory env
             then m_bind (m_try (in_world (ge_offer_generated env (gn_session g) prompt))) (\<lambda>_. m_return ())
             else m_return ()) (\<lambda>_.
     if \<not> gn_disk_active g then m_return ()
     else m_bind (m_lift (ge_session_frontier env (gn_session g))) (\<lambda>frontier.
       if 0 < frontier \<and> ge_disk env \<and> ge_disk_full env
       then m_bind (m_try (disk_checkpoint env)) (\<lambda>_. m_return ())
       else m_return ())))"

definition finish_request :: "('w, 'ss, 'sn, 'g) gen_env \<Rightarrow> nat list \<Rightarrow> generation_stats \<Rightarrow> (string, ('w, 'ss) gen_state, unit) fallible" where
  "finish_request env prompt stats =
     (if gs_finish stats = Cancelled then m_return ()
      else m_bind (flush_text env) (\<lambda>_. publish_final env prompt))"

definition cancelled_stats :: "prompt_cache_stats \<Rightarrow> generation_stats" where
  "cancelled_stats cache = (initial_stats (pc_cached_tokens cache))\<lparr>gs_prompt_cache := cache\<rparr>"

definition run_request ::
    "('w, 'ss, 'sn, 'g) gen_env \<Rightarrow> nat list \<Rightarrow> generation_options \<Rightarrow> nat \<Rightarrow> (string, ('w, 'ss) gen_state, generation_stats) fallible" where
  "run_request env prompt go initial =
     m_bind (\<lambda>g. case in_world (enter_phase env (Prefill (length prompt - initial))) g of
        (Inr _, g) \<Rightarrow> (Inr (), g)
      | (Inl primary, g) \<Rightarrow> with_cleanup (m_lift (Inl primary)) (in_world (enter_phase env Finished)) g) (\<lambda>_.
     m_bind (m_get (\<lambda>g. Inr (ge_prefill_width env (gn_world g)))) (\<lambda>prefill_width.
     m_bind (with_cleanup
         (run_loop (request_callbacks env prompt prefill_width) prompt (ge_stop_ids env) go prefill_width initial)
         (in_world (enter_phase env Finished))) (\<lambda>stats.
     m_bind (finish_request env prompt stats) (\<lambda>_.
     m_get (\<lambda>g. Inr (stats\<lparr>gs_prompt_cache := gn_stats g\<rparr>))))))"

definition start_state :: "('w, 'ss) lookup \<Rightarrow> 'ss \<Rightarrow> ('w, 'ss) gen_state" where
  "start_state l session =
     \<lparr>gn_world = lk_world l, gn_session = session, gn_stats = lk_stats l, gn_memory_active = lk_memory_active l,
      gn_disk_active = lk_disk_active l, gn_emitted_ids = [], gn_emitted_text = []\<rparr>"

definition with_session ::
    "('w, 'ss, 'sn, 'g) gen_env \<Rightarrow> (nat \<Rightarrow> (string, ('w, 'ss) gen_state, 'a) fallible) \<Rightarrow> (string, ('w, 'ss) lookup, 'a) fallible" where
  "with_session env body l =
     (case lk_restored l of
        Some (session, frontier) \<Rightarrow>
          (case body frontier (start_state l session) of (r, g) \<Rightarrow> (r, l\<lparr>lk_world := gn_world g\<rparr>))
      | None \<Rightarrow>
          (case ge_start_session env (lk_world l) of
             (Inl e, w) \<Rightarrow> (Inl e, l\<lparr>lk_world := w\<rparr>)
           | (Inr session, w) \<Rightarrow>
               (case body 0 (start_state (l\<lparr>lk_world := w\<rparr>) session) of (r, g) \<Rightarrow> (r, l\<lparr>lk_world := gn_world g\<rparr>))))"

definition request_in_lookup ::
    "('w, 'ss, 'sn, 'g) gen_env \<Rightarrow> nat list \<Rightarrow> generation_options \<Rightarrow> (string, ('w, 'ss) lookup, generation_stats) fallible" where
  "request_in_lookup env prompt go =
     m_bind (lookup_prefix env prompt) (\<lambda>_.
     m_bind (poll_cancelled env) (\<lambda>stop.
     if stop then m_get (\<lambda>l. Inr (cancelled_stats (lk_stats l)))
     else
       m_bind (fill_memory env prompt) (\<lambda>_.
       with_session env (run_request env prompt go))))"

definition generate :: "('w, 'ss, 'sn, 'g) gen_env \<Rightarrow> nat list \<Rightarrow> generation_options \<Rightarrow> (string, 'w, generation_stats) fallible" where
  "generate env prompt go =
     m_bind (m_get (\<lambda>w. validate_request env prompt go w)) (\<lambda>_.
     m_bind (m_lift (options_validate (ge_sampling env) (go_sampling go))) (\<lambda>_.
     m_bind (poll (ge_cancelled env)) (\<lambda>stop.
     if stop then m_return (initial_stats 0)
     else (\<lambda>w. case request_in_lookup env prompt go (lookup_start env w) of (r, l) \<Rightarrow> (r, lk_world l)))))"

section \<open>Requests with an owner\<close>

text \<open>The same environment over a larger world.\<close>

definition on_world :: "(string, 'w, 'a) fallible \<Rightarrow> (string, 'w \<times> 't, 'a) fallible" where
  "on_world m = (\<lambda>(w, t). case m w of (r, w') \<Rightarrow> (r, (w', t)))"

definition lift_env :: "('w, 'ss, 'sn, 'g) gen_env \<Rightarrow> ('w \<times> 't, 'ss, 'sn, 'g) gen_env" where
  "lift_env env =
     \<lparr>ge_stop_ids = ge_stop_ids env, ge_sampling = ge_sampling env,
      ge_context_limit = (\<lambda>(w, t). ge_context_limit env w), ge_prefill_width = (\<lambda>(w, t). ge_prefill_width env w),
      ge_prefill_ready = (\<lambda>(w, t). ge_prefill_ready env w), ge_capacity = (\<lambda>(w, t). ge_capacity env w),
      ge_cancelled = (\<lambda>(w, t). case ge_cancelled env w of (b, w') \<Rightarrow> (b, (w', t))),
      ge_boundary = on_world (ge_boundary env),
      ge_phase = (case ge_phase env of None \<Rightarrow> None | Some f \<Rightarrow> Some (\<lambda>p. on_world (f p))),
      ge_on_text = (\<lambda>x. on_world (ge_on_text env x)), ge_decoder = (\<lambda>n. on_world (ge_decoder env n)),
      ge_decode = ge_decode env, ge_start_session = on_world (ge_start_session env),
      ge_session_frontier = ge_session_frontier env,
      ge_consume = (\<lambda>tokens mode session history draw (w, t).
        case ge_consume env tokens mode session history draw w of (r, session', changed, w') \<Rightarrow> (r, session', changed, (w', t))),
      ge_sample_committed = (\<lambda>session history. on_world (ge_sample_committed env session history)),
      ge_memory = ge_memory env,
      ge_best_match = (\<lambda>prompt (w, t). case ge_best_match env prompt w of (hit, w') \<Rightarrow> (hit, (w', t))),
      ge_restore = (\<lambda>snapshot. on_world (ge_restore env snapshot)),
      ge_offer_prompt = (\<lambda>session prompt. on_world (ge_offer_prompt env session prompt)),
      ge_offer_generated = (\<lambda>session prompt. on_world (ge_offer_generated env session prompt)),
      ge_disk = ge_disk env, ge_disk_full = ge_disk_full env, ge_stride = ge_stride env, ge_write_depth = ge_write_depth env,
      ge_has_match_beyond = (\<lambda>prompt n. on_world (ge_has_match_beyond env prompt n)),
      ge_load_match = (\<lambda>prompt. on_world (ge_load_match env prompt)),
      ge_save = (\<lambda>session. on_world (ge_save env session))\<rparr>"

text \<open>One owner callback serves the boundary and the phases; the flag is the cell \<open>phase_changed\<close>.\<close>

definition owner_phase ::
    "('w \<Rightarrow> nat) \<Rightarrow> (request_phase \<Rightarrow> (string, 'w, bool) fallible) \<Rightarrow> request_phase \<Rightarrow> (string, 'w \<times> bool, unit) fallible" where
  "owner_phase capacity owner p = (\<lambda>(w, changed).
     case owner p w of
       (Inl e, w') \<Rightarrow> (Inl e, (w', changed))
     | (Inr c, w') \<Rightarrow> (Inr (), (w', changed \<or> c \<or> capacity w \<noteq> capacity w')))"

definition owned_env ::
    "(request_phase \<Rightarrow> (string, 'w, bool) fallible) \<Rightarrow> ('w, 'ss, 'sn, 'g) gen_env \<Rightarrow> ('w \<times> bool, 'ss, 'sn, 'g) gen_env" where
  "owned_env owner env =
     (lift_env env)\<lparr>ge_boundary := on_world (owner CompletedOperation),
       ge_phase := Some (owner_phase (ge_capacity env) owner)\<rparr>"

definition note_capacity :: "bool \<Rightarrow> generation_stats \<Rightarrow> generation_stats" where
  "note_capacity changed stats =
     stats\<lparr>gs_prompt_cache := (gs_prompt_cache stats)\<lparr>pc_capacity_changed := pc_capacity_changed (gs_prompt_cache stats) \<or> changed\<rparr>\<rparr>"

definition generate_owned ::
    "(request_phase \<Rightarrow> (string, 'w, bool) fallible) \<Rightarrow> ('w, 'ss, 'sn, 'g) gen_env \<Rightarrow> nat list \<Rightarrow> generation_options \<Rightarrow>
      (string, 'w, generation_stats) fallible" where
  "generate_owned owner env prompt go =
     m_bind (m_get (\<lambda>w. Inr (ge_capacity env w))) (\<lambda>before_prepare.
     m_bind (owner Prepare) (\<lambda>prepared.
     m_bind (m_get (\<lambda>w. ensure (ge_prefill_ready env w) ''prefill workspace needs repair before generation''
       (Inr (prepared \<or> before_prepare \<noteq> ge_capacity env w)))) (\<lambda>changed w.
     case generate (owned_env owner env) prompt go (w, changed) of
       (Inl e, (w', changed')) \<Rightarrow> (Inl e, w')
     | (Inr stats, (w', changed')) \<Rightarrow> (Inr (note_capacity changed' stats), w'))))"

end
