(* ===== verification/Generation_Protocol.thy ===== *)
theory Generation_Protocol
  imports Generation_Loop
begin

text \<open>
  The token loop keeps the protocol of a request, whatever the engine, the output and the cancellation flag answer,
  and its statistics count what happened.
\<close>

lemma replay_simps [simp]:
  "replay p st go start [] = Some start"
  "replay p st go start (es @ [ev]) = Option.bind (replay p st go start es) (protocol_step p st go ev)"
  by (simp_all add: replay_def)

lemma logged_simps [simp]:
  "le_action (logged env) a (s, es) = (case le_action env a s of (r, s') \<Rightarrow> (r, (s', es @ [Acted a r])))"
  "le_on_sample (logged env) (s, es) = (le_on_sample env s, es)"
  "le_emit (logged env) t (s, es) = (case le_emit env t s of (r, s') \<Rightarrow> (r, (s', es @ [Emitted t r])))"
  "poll (le_cancelled (logged env)) (s, es) = (case le_cancelled env s of (b, s') \<Rightarrow> (Inr b, (s', es @ [Polled b])))"
  by (simp_all add: logged_def poll_def split: prod.splits)

lemma selection_simps [simp]: "selection [] = None" "selection (es @ [ev]) = select_step (selection es) ev"
  by (simp_all add: selection_def)

lemma stopped_simps [simp]: "\<not> stopped []" "stopped (es @ [ev]) \<longleftrightarrow> stops ev"
  by (simp_all add: stopped_def)

lemma two_events_simps [simp]:
  "replay p st go start (es @ [ev, fv]) = Option.bind (replay p st go start (es @ [ev])) (protocol_step p st go fv)"
  "selection (es @ [ev, fv]) = select_step (selection (es @ [ev])) fv"
  "stopped (es @ [ev, fv]) \<longleftrightarrow> stops fv"
  by (simp_all add: replay_def selection_def stopped_def)

text \<open>How a request that ended is described by its statistics, given what was consumed and shown and
  the calls made: a stop token is the one selected and not shown, and a request is cancelled when the flag or an action said so.\<close>

definition settled :: "nat list \<Rightarrow> generation_options \<Rightarrow> generation_stats \<Rightarrow> nat list \<Rightarrow> nat list \<Rightarrow> loop_event list \<Rightarrow> bool" where
  "settled stop_ids go stats c e es \<longleftrightarrow>
     gs_frontier stats = length c \<and> gs_generated_tokens stats = length e \<and>
     length e \<le> go_max_tokens go \<and> length c \<le> go_max_context go \<and>
     (case gs_finish stats of
        MaxTokens \<Rightarrow> length e = go_max_tokens go
      | StopToken t \<Rightarrow> t \<in> set stop_ids \<and> selection es = Some t
      | ContextLimit \<Rightarrow> length c = go_max_context go
      | Cancelled \<Rightarrow> stopped es)"

lemma chunks_nonempty: "0 < n \<Longrightarrow> [] \<notin> set (chunks n xs)"
proof (induction "length xs" arbitrary: xs rule: less_induct)
  case less
  show ?case
  proof (cases "xs = []")
    case False
    moreover from this less.prems have "[] \<notin> set (chunks n (drop n xs))" by (intro less.hyps) (cases xs; simp)+
    ultimately show ?thesis using less.prems by (simp add: chunks_step)
  qed simp
qed

lemma prefill_keeps_protocol:
  assumes "replay prompt stop_ids go start es = Some (c, [])" "c @ concat parts = prompt" "[] \<notin> set parts"
    and "gs_frontier stats = length c" "gs_generated_tokens stats = 0" "gs_finish stats = Cancelled" "selection es = selected"
    and "prefill_loop (logged env) prompt parts stats selected (s, es) = (r, (s', es'))"
  shows "\<exists>c'. replay prompt stop_ids go start es' = Some (c', []) \<and> prefix c' prompt \<and>
      (\<forall>halted stats' selected'. r = Inr (halted, stats', selected') \<longrightarrow>
         gs_frontier stats' = length c' \<and> gs_generated_tokens stats' = 0 \<and> gs_finish stats' = Cancelled \<and>
         (if halted then stopped es' else c' = prompt \<and> selection es' = selected'))"
  using assms
proof (induction parts arbitrary: es c stats selected s)
  case Nil
  then show ?case by auto
next
  case (Cons tokens rest)
  obtain stop s1 where stop: "le_cancelled env s = (stop, s1)" by (cases "le_cancelled env s")
  show ?case
  proof (cases stop)
    case True
    with Cons.prems stop show ?thesis by auto
  next
    case False
    let ?draw = "gs_frontier stats + length tokens = length prompt"
    let ?act = "Consume tokens Unbiased ?draw prompt"
    obtain q s2 where act: "le_action env ?act s1 = (q, s2)" by (cases "le_action env ?act s1")
    have draw: "?draw \<longleftrightarrow> c @ tokens = prompt"
      using Cons.prems(2,4) by (auto dest: arg_cong [of _ _ length])
    have seen: "replay prompt stop_ids go start (es @ [Polled False] @ [Acted ?act q]) =
        Some (case q of Inr (Consumed _ _ _) \<Rightarrow> c @ tokens | _ \<Rightarrow> c, [])"
      using Cons.prems(1-3) draw by (auto simp: prefix_def)
    have pre: "prefix c prompt" "prefix (c @ tokens) prompt" using Cons.prems(2) by (auto simp: prefix_def)
    show ?thesis
    proof (cases "\<exists>f n t. q = Inr (Consumed f n t) \<and> f = length c + length tokens \<and> (t \<noteq> None) = ?draw")
      case False
      then have "(\<exists>e. r = Inl e) \<or> r = Inr (True, stats, None) \<and> q = Inr ActionCancelled" "es' = es @ [Polled False] @ [Acted ?act q]"
        using Cons.prems(4,8) stop \<open>\<not> stop\<close> act
        by (auto simp: m_bind_def check_prefill_def ensure_def Let_def split: sum.splits action_result.splits if_splits)
      then show ?thesis using seen pre Cons.prems(4-6) by (auto split: sum.splits action_result.splits)
    next
      case True
      then obtain n t where q: "q = Inr (Consumed (length c + length tokens) n t)" "(t \<noteq> None) = ?draw" by blast
      define stats1 where "stats1 = stats\<lparr>gs_frontier := gs_frontier stats + length tokens,
          gs_prompt_consumed := gs_prompt_consumed stats + length tokens,
          gs_prefill_tokens := gs_prefill_tokens stats + length tokens, gs_changed_routes := gs_changed_routes stats + n\<rparr>"
      have "check_prefill (length tokens) ?draw stats q' = Inr (False, stats1, t)" if "q = Inr q'" for q'
        using q that Cons.prems(4) by (simp add: check_prefill_def stats1_def Let_def)
      then have "prefill_loop (logged env) prompt rest stats1 t (s2, es @ [Polled False] @ [Acted ?act q]) = (r, (s', es'))"
        using Cons.prems(8) stop \<open>\<not> stop\<close> act q(1) by (simp add: m_bind_def Let_def)
      moreover have "replay prompt stop_ids go start (es @ [Polled False] @ [Acted ?act q]) = Some (c @ tokens, [])"
        using seen q(1) by simp
      moreover have "selection (es @ [Polled False] @ [Acted ?act q]) = t" using q(1) by simp
      ultimately show ?thesis
        using Cons.prems(2-7)
        by (intro Cons.IH [where es = "es @ [Polled False] @ [Acted ?act q]" and c = "c @ tokens" and stats = stats1 and selected = t and s = s2])
          (simp_all only: stats1_def, simp_all)
    qed
  qed
qed

text \<open>Between rounds everything shown but the selected token has been consumed.\<close>

definition between_rounds :: "nat list \<Rightarrow> generation_options \<Rightarrow> generation_stats \<Rightarrow> nat list \<Rightarrow> bool" where
  "between_rounds prompt go stats e \<longleftrightarrow>
     gs_frontier stats = length (prompt @ e) \<and> gs_generated_tokens stats = length e \<and> length e < go_max_tokens go \<and>
     length (prompt @ e) \<le> go_max_context go \<and> gs_finish stats = Cancelled"

text \<open>What a round leaves: an error or an end that the statistics describe, or the start of the next round.\<close>

definition round_outcome ::
    "nat list \<Rightarrow> nat list \<Rightarrow> generation_options \<Rightarrow> string + (generation_stats \<times> nat list \<times> nat option) \<Rightarrow>
      nat list \<times> nat list \<Rightarrow> loop_event list \<Rightarrow> bool" where
  "round_outcome prompt stop_ids go r ce es \<longleftrightarrow>
     (case r of
        Inl _ \<Rightarrow> True
      | Inr (stats, history, None) \<Rightarrow> settled stop_ids go stats (fst ce) (snd ce) es
      | Inr (stats, history, Some token) \<Rightarrow>
          selection es = Some token \<and> fst ce = prompt @ snd ce \<and> history = prompt @ snd ce \<and> between_rounds prompt go stats (snd ce))"

lemma consume_keeps_protocol:
  assumes "replay prompt stop_ids go start es = Some (prompt @ e, e @ [token])"
    and "gs_frontier stats = length (prompt @ e)" "gs_generated_tokens stats = length (e @ [token])" "gs_finish stats = Cancelled"
    and "length (e @ [token]) < go_max_tokens go" "length (prompt @ e) < go_max_context go"
    and "consume_token (logged env) go stats (prompt @ e @ [token]) token (s, es) = (r, (s', es'))"
  shows "\<exists>ce. replay prompt stop_ids go start es' = Some ce \<and> round_outcome prompt stop_ids go r ce es'"
proof -
  have counted: "settled stop_ids go stats (prompt @ e) (e @ [token]) es2" if "stopped es2" for es2
    using assms(2-6) that by (simp add: settled_def)
  obtain stop s1 where stop: "le_cancelled env s = (stop, s1)" by (cases "le_cancelled env s")
  let ?act = "Consume [token] (go_decode_mode go) True (prompt @ e @ [token])"
  obtain a s2 where act: "le_action env ?act s1 = (a, s2)" by (cases "le_action env ?act s1")
  show ?thesis
  proof (cases stop)
    case True
    with assms(1,7) stop counted show ?thesis by (auto simp: consume_token_def round_outcome_def)
  next
    case False
    have seen: "replay prompt stop_ids go start (es @ [Polled False, Acted ?act a]) =
        Some (case a of Inr (Consumed _ _ _) \<Rightarrow> prompt @ e @ [token] | _ \<Rightarrow> prompt @ e, e @ [token])"
      using assms(1) by (simp split: sum.split action_result.split)
    show ?thesis
    proof (cases "\<exists>b stats2 t. a = Inr b \<and> check_decode stats b = Inr (Some (stats2, t))")
      case True
      then obtain b stats2 t where b: "a = Inr b" "check_decode stats b = Inr (Some (stats2, t))" by blast
      then have "\<exists>f n. b = Consumed f n (Some t)" "between_rounds prompt go stats2 (e @ [token])"
        using assms(2-6)
        by (auto simp: check_decode_def Let_def ensure_def between_rounds_def split: action_result.splits option.splits if_splits)
      with seen b False stop act assms(7) show ?thesis by (auto simp: consume_token_def m_bind_def round_outcome_def)
    next
      case other: False
      then have "((\<exists>x. r = Inl x) \<or> r = Inr (stats, prompt @ e @ [token], None) \<and> a = Inr ActionCancelled) \<and> es' = es @ [Polled False, Acted ?act a]"
        using assms(7) stop False act
        by (auto simp: consume_token_def m_bind_def check_decode_def ensure_def Let_def
            split: sum.splits action_result.splits option.splits if_splits)
      with seen counted show ?thesis by (auto simp: round_outcome_def)
    qed
  qed
qed

lemma deliver_keeps_protocol:
  assumes "replay prompt stop_ids go start es = Some (prompt @ e, e)" "between_rounds prompt go stats e"
    and "selection es = Some token"
    and "deliver_token (logged env) stop_ids go stats (prompt @ e) token (s, es) = (r, (s', es'))"
  shows "\<exists>ce. replay prompt stop_ids go start es' = Some ce \<and> round_outcome prompt stop_ids go r ce es'"
proof (cases "token \<in> set stop_ids")
  case True
  with assms show ?thesis by (auto simp: deliver_token_def round_outcome_def settled_def between_rounds_def)
next
  case False
  obtain q s1 where emit: "le_emit env token (le_on_sample env s) = (q, s1)" by (cases "le_emit env token (le_on_sample env s)")
  let ?es1 = "es @ [Emitted token q]"
  show ?thesis
  proof (cases q)
    case (Inl x)
    with assms False emit show ?thesis
      by (auto simp: deliver_token_def m_bind_def between_rounds_def round_outcome_def)
  next
    case (Inr u)
    define stats1 where "stats1 = stats\<lparr>gs_generated_tokens := gs_generated_tokens stats + 1\<rparr>"
    have seen: "replay prompt stop_ids go start ?es1 = Some (prompt @ e, e @ [token])"
      using assms(1,2) Inr False by (simp add: between_rounds_def)
    have rest: "(if gs_generated_tokens stats1 = go_max_tokens go then m_return (stats1\<lparr>gs_finish := MaxTokens\<rparr>, prompt @ e @ [token], None)
        else if gs_frontier stats1 = go_max_context go then m_return (stats1\<lparr>gs_finish := ContextLimit\<rparr>, prompt @ e @ [token], None)
        else consume_token (logged env) go stats1 (prompt @ e @ [token]) token) (s1, ?es1) = (r, (s', es'))"
      using assms(4) False emit Inr by (auto simp: deliver_token_def m_bind_def Let_def stats1_def split: if_splits)
    have stats1: "gs_frontier stats1 = length (prompt @ e)" "gs_generated_tokens stats1 = length (e @ [token])"
        "gs_finish stats1 = Cancelled" "length (e @ [token]) \<le> go_max_tokens go" "length (prompt @ e) \<le> go_max_context go"
      using assms(2) by (simp_all add: between_rounds_def stats1_def)
    show ?thesis
    proof (cases "gs_generated_tokens stats1 = go_max_tokens go \<or> gs_frontier stats1 = go_max_context go")
      case True
      with rest stats1 seen show ?thesis by (auto simp: settled_def round_outcome_def split: if_splits)
    next
      case False
      with rest stats1 show ?thesis
        by (intro consume_keeps_protocol [OF seen stats1(1-3)]) (auto simp: less_le)
    qed
  qed
qed

lemma round_keeps_protocol:
  assumes "replay prompt stop_ids go start es = Some (prompt @ e, e)" "between_rounds prompt go stats e"
    and "selected = None \<Longrightarrow> e = []" "selection es = selected"
    and "decode_round (logged env) stop_ids go stats (prompt @ e) selected (s, es) = (r, (s', es'))"
  shows "\<exists>ce. replay prompt stop_ids go start es' = Some ce \<and> round_outcome prompt stop_ids go r ce es'"
proof -
  have counted: "settled stop_ids go stats (prompt @ e) e es2" if "stopped es2" for es2
    using assms(2) that by (simp add: settled_def between_rounds_def)
  obtain stop s1 where stop: "le_cancelled env s = (stop, s1)" by (cases "le_cancelled env s")
  obtain f s2 es2 where found: "select_token (logged env) (prompt @ e) selected (s1, es @ [Polled False]) = (f, (s2, es2))"
    by (metis prod.exhaust)
  have seen: "replay prompt stop_ids go start es2 = Some (prompt @ e, e)"
    using found assms(1,3)
    by (auto simp: select_token_def m_bind_def split: option.splits prod.splits sum.splits action_result.splits)
  have picked: "case f of Inl x \<Rightarrow> True | Inr None \<Rightarrow> stopped es2 | Inr (Some token) \<Rightarrow> selection es2 = Some token"
    using found assms(4)
    by (auto simp: select_token_def m_bind_def split: option.splits prod.splits sum.splits action_result.splits)
  show ?thesis
  proof (cases "\<not> stop \<and> (\<exists>token. f = Inr (Some token))")
    case True
    then obtain token where "f = Inr (Some token)" by blast
    with True stop found assms(5)
    have "deliver_token (logged env) stop_ids go stats (prompt @ e) token (s2, es2) = (r, (s', es'))"
      by (simp add: decode_round_def m_bind_def)
    then show ?thesis using \<open>f = Inr (Some token)\<close> picked by (intro deliver_keeps_protocol [OF seen assms(2)]) simp_all
  next
    case False
    then have "(\<exists>x. r = Inl x) \<and> es' = es2 \<or> r = Inr (stats, prompt @ e, None) \<and> stopped es' \<and> (es' = es @ [Polled True] \<or> es' = es2)"
      using assms(5) stop found picked by (auto simp: decode_round_def m_bind_def split: sum.splits option.splits if_splits)
    with seen assms(1) counted show ?thesis by (auto simp: round_outcome_def)
  qed
qed

lemma decode_keeps_protocol:
  assumes "replay prompt stop_ids go start es = Some (prompt @ e, e)" "between_rounds prompt go stats e"
    and "selected = None \<Longrightarrow> e = []" "selection es = selected"
    and "decode_loop fuel (logged env) stop_ids go stats (prompt @ e) selected (s, es) = (r, (s', es'))"
  shows "\<exists>c' e'. replay prompt stop_ids go start es' = Some (c', e') \<and> (\<forall>stats'. r = Inr stats' \<longrightarrow> settled stop_ids go stats' c' e' es')"
  using assms
proof (induction fuel arbitrary: es e stats selected s)
  case 0
  then show ?case by auto
next
  case (Suc fuel)
  obtain q s1 es1 where round: "decode_round (logged env) stop_ids go stats (prompt @ e) selected (s, es) = (q, (s1, es1))"
    by (metis prod.exhaust)
  then obtain c1 e1 where seen: "replay prompt stop_ids go start es1 = Some (c1, e1)" "round_outcome prompt stop_ids go q (c1, e1) es1"
    using round_keeps_protocol [OF Suc.prems(1-4)] by (metis prod.exhaust)
  show ?case
  proof (cases "\<exists>stats1 history token. q = Inr (stats1, history, Some token)")
    case True
    then obtain stats1 history token where q: "q = Inr (stats1, history, Some token)" by blast
    then have "c1 = prompt @ e1" "history = prompt @ e1" "between_rounds prompt go stats1 e1" "selection es1 = Some token"
      using seen(2) by (simp_all add: round_outcome_def)
    then show ?thesis
      using seen(1) q round Suc.prems(5) by (intro Suc.IH [of es1 e1 stats1 "Some token" s1]) simp_all
  next
    case False
    with seen round Suc.prems(5) show ?thesis
      by (auto simp: m_bind_def round_outcome_def split: sum.splits option.splits prod.splits)
  qed
qed

section \<open>Properties\<close>

lemma loop_checks_Inr:
  "loop_checks prompt stop_ids go width initial = Inr u \<longleftrightarrow>
     prompt \<noteq> [] \<and> stop_ids \<noteq> [] \<and> 0 < go_max_tokens go \<and> 1 \<le> width \<and> width \<le> MAX_ROWS \<and>
     length prompt \<le> go_max_context go \<and> initial \<le> length prompt"
  by (simp add: loop_checks_def check_prompt_def ensure_eq_Inr)

text \<open>C21: Whatever the engine, the output and the cancellation flag answer, a request keeps the protocol of the conversation: the
  engine consumes tokens in order, never one that is not part of the prompt or not yet shown, the prompt with the original
  routing; every selection sees the prompt and exactly the tokens shown; stop tokens and tokens past the limit are never
  shown. If it ends without an error its statistics give the committed frontier, within the context limit, the number of tokens
  shown and the reason for the end: a stop token is one of the stop tokens and is the token the engine selected last, after
  everything shown; at the token limit that many tokens were shown; at the context limit the frontier is that limit; and a
  request is reported cancelled only when the last answer it had, from the cancellation flag or the engine, was to stop.\<close>

theorem generation_keeps_protocol:
  "case run_loop (logged env) prompt stop_ids go width initial (s, []) of
     (r, (s', es)) \<Rightarrow>
       (case replay prompt stop_ids go (take initial prompt, []) es of
          None \<Rightarrow> False
        | Some (c, e) \<Rightarrow> (case r of Inl _ \<Rightarrow> True | Inr stats \<Rightarrow> settled stop_ids go stats c e es))"
proof -
  obtain r s' es where run: "run_loop (logged env) prompt stop_ids go width initial (s, []) = (r, (s', es))"
    by (metis prod.exhaust)
  have "\<exists>c e. replay prompt stop_ids go (take initial prompt, []) es = Some (c, e) \<and>
      (\<forall>stats. r = Inr stats \<longrightarrow> settled stop_ids go stats c e es)"
  proof (cases "loop_checks prompt stop_ids go width initial")
    case (Inl x)
    with run show ?thesis by (auto simp: run_loop_def m_bind_def)
  next
    case (Inr u)
    then have ok: "prompt \<noteq> []" "0 < go_max_tokens go" "0 < width" "length prompt \<le> go_max_context go" "initial \<le> length prompt"
      by (simp_all add: loop_checks_Inr)
    let ?parts = "chunks width (drop initial prompt)"
    obtain q s1 es1 where prefill: "prefill_loop (logged env) prompt ?parts (initial_stats initial) None (s, []) = (q, (s1, es1))"
      by (metis prod.exhaust)
    have parts: "take initial prompt @ concat ?parts = prompt" "[] \<notin> set ?parts"
      using ok(3) by (simp_all add: concat_chunks chunks_nonempty)
    have start: "gs_frontier (initial_stats initial) = length (take initial prompt)" "gs_generated_tokens (initial_stats initial) = 0"
      "gs_finish (initial_stats initial) = Cancelled" "replay prompt stop_ids go (take initial prompt, []) [] = Some (take initial prompt, [])"
      using ok(5) by (simp_all add: initial_stats_def)
    have "\<exists>c. replay prompt stop_ids go (take initial prompt, []) es1 = Some (c, []) \<and> prefix c prompt \<and>
        (\<forall>halted stats' selected'. q = Inr (halted, stats', selected') \<longrightarrow>
           gs_frontier stats' = length c \<and> gs_generated_tokens stats' = 0 \<and> gs_finish stats' = Cancelled \<and>
           (if halted then stopped es1 else c = prompt \<and> selection es1 = selected'))"
      by (rule prefill_keeps_protocol [OF start(4) parts start(1-3) selection_simps(1) prefill])
    then obtain c where c: "replay prompt stop_ids go (take initial prompt, []) es1 = Some (c, [])" "prefix c prompt"
      "\<And>halted stats' selected'. q = Inr (halted, stats', selected') \<Longrightarrow>
         gs_frontier stats' = length c \<and> gs_generated_tokens stats' = 0 \<and> gs_finish stats' = Cancelled \<and> (if halted then stopped es1 else c = prompt \<and> selection es1 = selected')"
      by blast
    have short: "length c \<le> go_max_context go" using c(2) ok(4) by (auto dest: prefix_length_le)
    show ?thesis
    proof (cases "\<exists>stats1 selected1. q = Inr (False, stats1, selected1)")
      case True
      then obtain stats1 selected1 where q: "q = Inr (False, stats1, selected1)" by blast
      then have "decode_loop (go_max_tokens go) (logged env) stop_ids go stats1 (prompt @ []) selected1 (s1, es1) = (r, (s', es))"
        using run Inr prefill by (simp add: run_loop_def m_bind_def)
      then show ?thesis
        using c(1) c(3) [OF q] short ok(2)
        by (intro decode_keeps_protocol [of prompt stop_ids go _ es1 "[]" stats1 selected1]) (auto simp: between_rounds_def)
    next
      case False
      then consider (error) x where "r = Inl x" "es = es1"
        | (halt) stats1 sel where "q = Inr (True, stats1, sel)" "r = Inr stats1" "es = es1"
        using run Inr prefill by (auto simp: run_loop_def m_bind_def split: sum.splits prod.splits if_splits)
      then show ?thesis
      proof cases
        case error
        with c(1) show ?thesis by simp
      next
        case halt
        with c(1) c(3) [OF halt(1)] short ok(2) show ?thesis by (simp add: settled_def)
      qed
    qed
  qed
  then show ?thesis by (auto simp: run split: sum.split)
qed

text \<open>C26: The token loop ends on its own: the fuel of \<open>max_tokens\<close> rounds is never used up, so any larger amount gives
  the same outcome and the same calls.\<close>

theorem decode_loop_ends:
  assumes "gs_generated_tokens stats < go_max_tokens go"
    and "go_max_tokens go - gs_generated_tokens stats \<le> fuel"
  shows "decode_loop fuel env stop_ids go stats history selected s =
    decode_loop (fuel + more_fuel) env stop_ids go stats history selected s"
  using assms
proof (induction fuel arbitrary: stats history selected s)
  case 0
  then show ?case by simp
next
  case (Suc fuel)
  obtain q s1 where round: "decode_round env stop_ids go stats history selected s = (q, s1)" by force
  show ?case
  proof (cases "\<exists>stats1 history1 token. q = Inr (stats1, history1, Some token)")
    case True
    then obtain stats1 history1 token where q: "q = Inr (stats1, history1, Some token)" by blast
    have "gs_generated_tokens stats1 = Suc (gs_generated_tokens stats) \<and> Suc (gs_generated_tokens stats) \<noteq> go_max_tokens go"
      using round q
      by (auto simp: decode_round_def deliver_token_def consume_token_def m_bind_def poll_def check_decode_def Let_def ensure_def
          split: prod.splits sum.splits option.splits action_result.splits if_splits)
    then have "decode_loop fuel env stop_ids go stats1 history1 (Some token) s1 =
        decode_loop (fuel + more_fuel) env stop_ids go stats1 history1 (Some token) s1"
      using Suc.prems by (intro Suc.IH) linarith+
    with round q show ?thesis by (simp add: m_bind_def)
  next
    case False
    with round show ?thesis by (auto simp: m_bind_def split: sum.splits option.splits prod.splits)
  qed
qed

end
