(* ===== verification/Generation_Request.thy ===== *)
theory Generation_Request
  imports Generation Generation_Protocol
begin

text \<open>
  What the reader and the owner of a request see. The locale \<open>loop_callbacks\<close> is what the token loop asks of the callbacks
  it is given; it is interpreted on the callbacks of a request whose world also records the streamed text, the tokens
  given to the decoder and the phases reported to the owner.
\<close>

section \<open>The token loop over callbacks that keep a count\<close>

text \<open>\<open>P n d\<close>: \<open>n\<close> tokens have been shown, and \<open>d\<close> says whether a token has been drawn; \<open>E\<close> holds everywhere.\<close>

locale loop_callbacks =
  fixes env :: "'s loop_env" and prompt stop_ids :: "nat list" and go :: generation_options
    and P :: "nat \<Rightarrow> bool \<Rightarrow> 's \<Rightarrow> bool" and E :: "'s \<Rightarrow> bool"
  assumes weaken: "P n d s \<Longrightarrow> E s"
    and cancelled: "P n d s \<Longrightarrow> P n d (snd (le_cancelled env s))"
    and on_sample: "P n d s \<Longrightarrow> P n d (le_on_sample env s)"
    and prefill: "triple (P 0 False) (le_action env (Consume tokens Unbiased draw prompt))
      (\<lambda>r s. E s \<and> (case r of Consumed f c selected \<Rightarrow> P 0 (f = length prompt) s | _ \<Rightarrow> P 0 False s)) (\<lambda>_. E)"
    and sample: "triple (P 0 False) (le_action env (SampleCurrent history))
      (\<lambda>r s. E s \<and> (case r of Sampled t \<Rightarrow> P 0 True s | _ \<Rightarrow> P 0 False s)) (\<lambda>_. E)"
    and decode: "triple (P n True) (le_action env (Consume [t] mode True history))
      (\<lambda>r s. E s \<and> (case r of Consumed f c selected \<Rightarrow> f \<noteq> length prompt \<longrightarrow> P n True s | _ \<Rightarrow> P n True s)) (\<lambda>_. E)"
    and emit: "t \<notin> set stop_ids \<Longrightarrow> n < go_max_tokens go \<Longrightarrow> triple (P n True) (le_emit env t) (\<lambda>_. P (Suc n) True) (\<lambda>_. E)"
begin

lemma poll_triple: "triple (P n d) (poll (le_cancelled env)) (\<lambda>_. P n d) (\<lambda>_. E)"
  using cancelled by (fastforce simp: triple_def poll_def split: prod.splits)

lemma on_sample_triple: "triple (P n d) (m_modify (le_on_sample env)) (\<lambda>_. P n d) (\<lambda>_. E)"
  by (simp add: triple_def on_sample)

text \<open>After the prefill: unless it was cut short, a token has been drawn iff one is at hand, and that needs the whole prompt.\<close>

definition prefilled :: "nat \<Rightarrow> bool \<times> generation_stats \<times> nat option \<Rightarrow> 's \<Rightarrow> bool" where
  "prefilled fresh r s =
     (case r of (halted, stats, selected) \<Rightarrow>
        gs_generated_tokens stats = 0 \<and> gs_finish stats = Cancelled \<and>
        (if halted then \<exists>d. P 0 d s
         else P 0 (selected \<noteq> None) s \<and> gs_frontier stats = length prompt \<and> gs_prefill_tokens stats = fresh))"

lemma prefill_triple:
  assumes "gs_generated_tokens stats = 0" "gs_finish stats = Cancelled" "[] \<notin> set parts"
    and "gs_frontier stats + length (concat parts) = length prompt"
    and "selected \<noteq> None \<longrightarrow> parts = []"
    and "gs_prefill_tokens stats + length (concat parts) = fresh"
  shows "triple (P 0 (selected \<noteq> None)) (prefill_loop env prompt parts stats selected) (prefilled fresh) (\<lambda>_. E)"
  using assms
proof (induction parts arbitrary: stats selected)
  case Nil
  then show ?case by (auto simp: triple_def prefilled_def)
next
  case (Cons tokens rest)
  then have sel: "selected = None" by simp
  define draw where "draw \<longleftrightarrow> gs_frontier stats + length tokens = length prompt"
  have "rest = [] \<longleftrightarrow> length (concat rest) = 0"
    using Cons.prems(3) by (cases rest) auto
  then have draw: "draw \<longleftrightarrow> rest = []"
    using Cons.prems(4) unfolding draw_def concat.simps length_append by linarith
  have checked: "triple (\<lambda>s. E s \<and> (case r of Consumed f c selected \<Rightarrow> P 0 (f = length prompt) s | _ \<Rightarrow> P 0 False s))
      (m_bind (m_lift (check_prefill (length tokens) draw stats r)) (\<lambda>(halted, stats, selected).
         if halted then m_return (True, stats, selected) else prefill_loop env prompt rest stats selected))
      (prefilled fresh) (\<lambda>_. E)" for r
  proof (rule triple_lift_bind)
    fix x assume x: "check_prefill (length tokens) draw stats r = Inr x"
    obtain halted stats1 selected1 where x': "x = (halted, stats1, selected1)" by (cases x)
    show "triple (\<lambda>s. E s \<and> (case r of Consumed f c selected \<Rightarrow> P 0 (f = length prompt) s | _ \<Rightarrow> P 0 False s))
        (case x of (halted, stats, selected) \<Rightarrow>
          if halted then m_return (True, stats, selected) else prefill_loop env prompt rest stats selected)
        (prefilled fresh) (\<lambda>_. E)"
    proof (cases halted)
      case True
      then have "r = ActionCancelled" "stats1 = stats"
        using x x' by (auto simp: check_prefill_def Let_def ensure_def split: action_result.splits if_splits)
      then show ?thesis using True x' Cons.prems(1,2) by (auto simp: prefilled_def intro!: triple_return)
    next
      case False
      then obtain f c where r: "r = Consumed f c selected1"
        and stats1: "f = gs_frontier stats + length tokens" "(selected1 \<noteq> None) = draw" "gs_frontier stats1 = f"
          "gs_prefill_tokens stats1 = gs_prefill_tokens stats + length tokens" "gs_generated_tokens stats1 = 0" "gs_finish stats1 = Cancelled"
        using x x' Cons.prems(1,2) by (auto simp: check_prefill_def Let_def ensure_def split: action_result.splits if_splits)
      then have "triple (P 0 (selected1 \<noteq> None)) (prefill_loop env prompt rest stats1 selected1) (prefilled fresh) (\<lambda>_. E)"
        using Cons.prems draw by (intro Cons.IH) auto
      then show ?thesis using False x' r stats1(1,2) by (auto simp: draw_def elim!: triple_pre)
    qed
  qed simp
  have "triple (P 0 False) (m_bind (poll (le_cancelled env)) (\<lambda>stop.
      if stop then m_return (True, stats, selected)
      else m_bind (le_action env (Consume tokens Unbiased draw prompt)) (\<lambda>r.
        m_bind (m_lift (check_prefill (length tokens) draw stats r)) (\<lambda>(halted, stats, selected).
        if halted then m_return (True, stats, selected) else prefill_loop env prompt rest stats selected))))
      (prefilled fresh) (\<lambda>_. E)"
    using Cons.prems(1,2)
    by (intro triple_bind [OF poll_triple] triple_if triple_bind [OF prefill checked] triple_return) (auto simp: prefilled_def)
  then show ?case unfolding prefill_loop.simps Let_def draw_def sel by simp
qed

text \<open>The end of the request, or of one round with a token to continue with.\<close>

definition ended :: "nat \<Rightarrow> generation_stats \<Rightarrow> 's \<Rightarrow> bool" where
  "ended fresh stats s \<longleftrightarrow>
     (\<exists>d. P (gs_generated_tokens stats) d s \<and> (gs_finish stats \<noteq> Cancelled \<longrightarrow> d \<and> gs_prefill_tokens stats = fresh))"

definition round_ended :: "nat \<Rightarrow> generation_stats \<times> nat list \<times> nat option \<Rightarrow> 's \<Rightarrow> bool" where
  "round_ended fresh r s =
     (case r of
        (stats, _, None) \<Rightarrow> ended fresh stats s
      | (stats, _, Some token) \<Rightarrow>
          P (gs_generated_tokens stats) True s \<and> gs_generated_tokens stats < go_max_tokens go \<and>
          gs_prefill_tokens stats = fresh \<and> gs_finish stats = Cancelled \<and> length prompt \<le> gs_frontier stats)"

lemma consume_triple:
  assumes "gs_prefill_tokens stats = fresh" "gs_finish stats = Cancelled" "length prompt \<le> gs_frontier stats"
    and "gs_generated_tokens stats < go_max_tokens go"
  shows "triple (P (gs_generated_tokens stats) True) (consume_token env go stats history token) (round_ended fresh) (\<lambda>_. E)"
proof -
  have checked: "triple (\<lambda>s. E s \<and> (case r of Consumed f c selected \<Rightarrow> f \<noteq> length prompt \<longrightarrow> P (gs_generated_tokens stats) True s
        | _ \<Rightarrow> P (gs_generated_tokens stats) True s))
      (m_bind (m_lift (check_decode stats r)) (\<lambda>continued.
         case continued of None \<Rightarrow> m_return (stats, history, None) | Some (stats, selected) \<Rightarrow> m_return (stats, history, Some selected)))
      (round_ended fresh) (\<lambda>_. E)" for r
  proof (rule triple_lift_bind)
    fix x assume x: "check_decode stats r = Inr x"
    show "triple (\<lambda>s. E s \<and> (case r of Consumed f c selected \<Rightarrow> f \<noteq> length prompt \<longrightarrow> P (gs_generated_tokens stats) True s
          | _ \<Rightarrow> P (gs_generated_tokens stats) True s))
        (case x of None \<Rightarrow> m_return (stats, history, None) | Some (stats, selected) \<Rightarrow> m_return (stats, history, Some selected))
        (round_ended fresh) (\<lambda>_. E)"
    proof (cases x)
      case None
      then have "r = ActionCancelled"
        using x by (auto simp: check_decode_def Let_def ensure_def split: action_result.splits option.splits if_splits)
      then show ?thesis using None assms by (auto simp: round_ended_def ended_def intro!: triple_return)
    next
      case (Some y)
      then obtain f c t stats1 where "r = Consumed f c (Some t)" "y = (stats1, t)" "f = gs_frontier stats + 1" "gs_frontier stats1 = f"
        "gs_generated_tokens stats1 = gs_generated_tokens stats" "gs_prefill_tokens stats1 = gs_prefill_tokens stats" "gs_finish stats1 = Cancelled"
        using x assms(2) by (cases y) (auto simp: check_decode_def Let_def ensure_def split: action_result.splits option.splits if_splits)
      then show ?thesis using Some assms by (auto simp: round_ended_def intro!: triple_return)
    qed
  qed simp
  show ?thesis
    unfolding consume_token_def using assms
    by (intro triple_bind [OF poll_triple] triple_if triple_bind [OF decode checked] triple_return) (auto simp: round_ended_def ended_def)
qed

lemma deliver_triple:
  assumes "gs_prefill_tokens stats = fresh" "gs_finish stats = Cancelled" "length prompt \<le> gs_frontier stats"
    and "gs_generated_tokens stats < go_max_tokens go"
  shows "triple (P (gs_generated_tokens stats) True) (deliver_token env stop_ids go stats history token) (round_ended fresh) (\<lambda>_. E)"
  unfolding deliver_token_def Let_def using assms
  by (intro triple_bind [OF on_sample_triple] triple_if triple_bind [OF emit] triple_return consume_triple [THEN triple_pre])
    (auto simp: round_ended_def ended_def)

lemma select_triple:
  assumes "n = 0 \<or> selected \<noteq> None"
  shows "triple (P n (selected \<noteq> None)) (select_token env history selected)
    (\<lambda>found s. case found of None \<Rightarrow> \<exists>d. P n d s | Some _ \<Rightarrow> P n True s) (\<lambda>_. E)"
proof (cases selected)
  case None
  with assms have n: "n = 0" by simp
  have answer: "triple (\<lambda>s. E s \<and> (case r of Sampled t \<Rightarrow> P 0 True s | _ \<Rightarrow> P 0 False s))
      (case r of Sampled token \<Rightarrow> m_return (Some token) | ActionCancelled \<Rightarrow> m_return None
       | Consumed _ _ _ \<Rightarrow> m_lift (Inl ''generation sample action consumed a token''))
      (\<lambda>found s. case found of None \<Rightarrow> \<exists>d. P 0 d s | Some _ \<Rightarrow> P 0 True s) (\<lambda>_. E)" for r
    by (cases r) (auto simp: triple_def)
  show ?thesis unfolding n None select_token_def by simp (rule triple_bind [OF sample answer])
qed (auto simp: select_token_def intro!: triple_return)

lemma round_triple:
  assumes "gs_prefill_tokens stats = fresh" "gs_finish stats = Cancelled" "length prompt \<le> gs_frontier stats"
    and "gs_generated_tokens stats < go_max_tokens go" "gs_generated_tokens stats = 0 \<or> selected \<noteq> None"
  shows "triple (P (gs_generated_tokens stats) (selected \<noteq> None)) (decode_round env stop_ids go stats history selected)
    (round_ended fresh) (\<lambda>_. E)"
proof -
  have found: "triple (\<lambda>s. case found of None \<Rightarrow> \<exists>d. P (gs_generated_tokens stats) d s | Some _ \<Rightarrow> P (gs_generated_tokens stats) True s)
      (case found of None \<Rightarrow> m_return (stats, history, None) | Some token \<Rightarrow> deliver_token env stop_ids go stats history token)
      (round_ended fresh) (\<lambda>_. E)" for found
    using assms(2) deliver_triple [OF assms(1-4)]
    by (cases found) (auto simp: round_ended_def ended_def intro!: triple_return)
  show ?thesis
    unfolding decode_round_def using assms(2)
    by (intro triple_bind [OF poll_triple] triple_if triple_bind [OF select_triple [OF assms(5)] found] triple_return)
      (auto simp: round_ended_def ended_def)
qed

lemma decode_triple:
  assumes "gs_prefill_tokens stats = fresh" "gs_finish stats = Cancelled" "length prompt \<le> gs_frontier stats"
    and "gs_generated_tokens stats < go_max_tokens go" "gs_generated_tokens stats = 0 \<or> selected \<noteq> None"
  shows "triple (P (gs_generated_tokens stats) (selected \<noteq> None)) (decode_loop fuel env stop_ids go stats history selected)
    (ended fresh) (\<lambda>_. E)"
  using assms
proof (induction fuel arbitrary: stats history selected)
  case 0
  show ?case by (auto simp: triple_def intro: weaken)
next
  case (Suc fuel)
  have continue: "triple (round_ended fresh (stats1, history1, following))
      (case following of None \<Rightarrow> m_return stats1 | Some token \<Rightarrow> decode_loop fuel env stop_ids go stats1 history1 (Some token))
      (ended fresh) (\<lambda>_. E)" for stats1 history1 following
  proof (cases following)
    case None
    then show ?thesis by (auto simp: round_ended_def intro!: triple_return)
  next
    case (Some token)
    have "triple (\<lambda>s. (gs_prefill_tokens stats1 = fresh \<and> gs_finish stats1 = Cancelled \<and> length prompt \<le> gs_frontier stats1 \<and>
        gs_generated_tokens stats1 < go_max_tokens go) \<and> P (gs_generated_tokens stats1) (Some token \<noteq> None) s)
        (decode_loop fuel env stop_ids go stats1 history1 (Some token)) (ended fresh) (\<lambda>_. E)"
      by (rule triple_assume, rule Suc.IH) auto
    then show ?thesis using Some by (auto simp: round_ended_def elim!: triple_pre)
  qed
  have rest: "triple (round_ended fresh x)
      ((\<lambda>(stats, history, following). case following of
         None \<Rightarrow> m_return stats
       | Some token \<Rightarrow> decode_loop fuel env stop_ids go stats history (Some token)) x) (ended fresh) (\<lambda>_. E)" for x
    using continue by (cases x) simp
  show ?case
    unfolding decode_loop.simps by (rule triple_bind [OF round_triple [OF Suc.prems] rest])
qed

lemma run_loop_triple:
  "triple (P 0 False) (run_loop env prompt stop_ids go width initial) (ended (length prompt - initial)) (\<lambda>_. E)"
  unfolding run_loop_def
proof (rule triple_lift_bind)
  fix u assume "loop_checks prompt stop_ids go width initial = Inr u"
  then have ok: "0 < go_max_tokens go" "0 < width" "initial \<le> length prompt" by (simp_all add: loop_checks_Inr)
  let ?parts = "chunks width (drop initial prompt)"
  have "length (concat ?parts) = length prompt - initial" "[] \<notin> set ?parts"
    by (simp_all add: concat_chunks [OF ok(2)] chunks_nonempty [OF ok(2)])
  then have start: "triple (P 0 (None \<noteq> (None :: nat option))) (prefill_loop env prompt ?parts (initial_stats initial) None)
      (prefilled (length prompt - initial)) (\<lambda>_. E)"
    using ok(3) by (intro prefill_triple) (simp_all add: initial_stats_def)
  have rest: "triple (prefilled (length prompt - initial) x)
      ((\<lambda>(halted, stats, selected). if halted then m_return stats else decode_loop (go_max_tokens go) env stop_ids go stats prompt selected) x)
      (ended (length prompt - initial)) (\<lambda>_. E)" for x
  proof -
    obtain halted stats selected where x: "x = (halted, stats, selected)" by (cases x)
    show ?thesis
    proof (cases halted)
      case True
      then show ?thesis by (auto simp: x prefilled_def ended_def intro!: triple_return)
    next
      case False
      have "triple (\<lambda>s. (gs_prefill_tokens stats = length prompt - initial \<and> gs_finish stats = Cancelled \<and>
          length prompt \<le> gs_frontier stats \<and> gs_generated_tokens stats = 0) \<and> P (gs_generated_tokens stats) (selected \<noteq> None) s)
          (decode_loop (go_max_tokens go) env stop_ids go stats prompt selected) (ended (length prompt - initial)) (\<lambda>_. E)"
        by (rule triple_assume, rule decode_triple) (use ok in auto)
      then show ?thesis using False by (auto simp: x prefilled_def elim!: triple_pre)
    qed
  qed
  show "triple (P 0 False)
     (m_bind (prefill_loop env prompt ?parts (initial_stats initial) None)
       (\<lambda>(halted, stats, selected). if halted then m_return stats else decode_loop (go_max_tokens go) env stop_ids go stats prompt selected))
     (ended (length prompt - initial)) (\<lambda>_. E)"
    using triple_bind [OF start rest] by simp
qed (auto intro: weaken)

end

end
