(* ===== verification/Generation_Properties.thy ===== *)
theory Generation_Properties
  imports Generation_Request
begin

text \<open>
  The callbacks of a request keep the interface of the token loop over a world that records what the reader and the owner
  saw, and what follows for a whole request.
\<close>

section \<open>Recording what is seen\<close>

record request_trace =
  tr_tokens :: "nat list"
  tr_text :: chars
  tr_phases :: "request_phase list"

definition no_trace :: request_trace where
  "no_trace = \<lparr>tr_tokens = [], tr_text = [], tr_phases = []\<rparr>"

definition watched :: "('w, 'ss, 'sn, 'g) gen_env \<Rightarrow> ('w \<times> request_trace, 'ss, 'sn, 'g) gen_env" where
  "watched env =
     (lift_env env)\<lparr>
       ge_on_text := (\<lambda>x (w, t). case ge_on_text env x w of
           (Inl e, w') \<Rightarrow> (Inl e, (w', t)) | (Inr u, w') \<Rightarrow> (Inr u, (w', t\<lparr>tr_text := tr_text t @ x\<rparr>))),
       ge_decoder := (\<lambda>n (w, t). case ge_decoder env n w of (r, w') \<Rightarrow> (r, (w', t\<lparr>tr_tokens := tr_tokens t @ [n]\<rparr>))),
       ge_phase := (case ge_phase env of
           None \<Rightarrow> None
         | Some f \<Rightarrow> Some (\<lambda>p (w, t). case f p w of (r, w') \<Rightarrow> (r, (w', t\<lparr>tr_phases := tr_phases t @ [p]\<rparr>))))\<rparr>"

type_synonym view = "request_trace \<times> nat list \<times> chars"

text \<open>The owner of a request that keeps a list of the phases it is told of; the operations completed in between are not listed.\<close>

definition told ::
    "(request_phase \<Rightarrow> (string, 'w, bool) fallible) \<Rightarrow> request_phase \<Rightarrow> (string, 'w \<times> request_trace, bool) fallible" where
  "told owner p =
     (\<lambda>(w, t). case owner p w of
        (r, w') \<Rightarrow> (r, (w', if p = CompletedOperation then t else t\<lparr>tr_phases := tr_phases t @ [p]\<rparr>)))"

section \<open>Environments that record\<close>

text \<open>
  What the request relies on: a projection \<open>seen\<close> of the world grows by each token that is decoded, each piece of text the
  reader took and each phase that is entered, whatever the callback answers, and nothing else touches it.
\<close>

locale recording =
  fixes E :: "('v, 'ss, 'sn, 'g) gen_env" and seen :: "'v \<Rightarrow> request_trace" and start :: request_trace
  assumes start_empty: "tr_tokens start = []" "tr_text start = []"
    and decoder_seen: "seen (snd (ge_decoder E n w)) = (seen w)\<lparr>tr_tokens := tr_tokens (seen w) @ [n]\<rparr>"
    and text_seen: "ge_on_text E x w = (r, w') \<Longrightarrow>
      seen w' = (case r of Inl e \<Rightarrow> seen w | Inr u \<Rightarrow> (seen w)\<lparr>tr_text := tr_text (seen w) @ x\<rparr>)"
    and phase_seen: "ge_phase E = Some f \<Longrightarrow> p \<noteq> CompletedOperation \<Longrightarrow>
      seen (snd (f p w)) = (seen w)\<lparr>tr_phases := tr_phases (seen w) @ [p]\<rparr>"
    and consume_unseen: "ge_consume E tokens mode session history draw w = (q, session', changed, w') \<Longrightarrow> seen w' = seen w"
    and cancelled_unseen: "ge_cancelled E w = (b, w') \<Longrightarrow> seen w' = seen w"
    and best_match_unseen: "ge_best_match E prompt w = (hit, w') \<Longrightarrow> seen w' = seen w"
    and unseen_calls [simp]:
      "seen (snd (ge_boundary E w)) = seen w" "seen (snd (ge_start_session E w)) = seen w"
      "seen (snd (ge_sample_committed E session history w)) = seen w" "seen (snd (ge_restore E snapshot w)) = seen w"
      "seen (snd (ge_offer_prompt E session prompt w)) = seen w" "seen (snd (ge_offer_generated E session prompt w)) = seen w"
      "seen (snd (ge_has_match_beyond E prompt k w)) = seen w" "seen (snd (ge_load_match E prompt w)) = seen w"
      "seen (snd (ge_save E session w)) = seen w"
begin

text \<open>The phases the request reports come after those of the start, and only if there is a callback for them.\<close>

definition phases_seen :: "request_phase list \<Rightarrow> request_phase list" where
  "phases_seen ps = (case ge_phase E of None \<Rightarrow> [] | Some _ \<Rightarrow> ps)"

definition view :: "('v, 'ss) gen_state \<Rightarrow> view" where
  "view g = (seen (gn_world g), gn_emitted_ids g, gn_emitted_text g)"

text \<open>What has been shown while the token loop runs, and what the phases are at any time within it.\<close>

definition shown ::
    "generation_options \<Rightarrow> nat \<Rightarrow> nat \<Rightarrow> bool \<Rightarrow> view \<Rightarrow> bool" where
  "shown go fresh n drawn v =
     (case v of (t, ids, text) \<Rightarrow>
        tr_tokens t = ids \<and> tr_text t = text \<and> length ids = n \<and> n \<le> go_max_tokens go \<and>
        set ids \<inter> set (ge_stop_ids E) = {} \<and>
        tr_phases t = tr_phases start @ phases_seen (Prefill fresh # (if drawn then [Decode] else [])))"

definition in_progress :: "nat \<Rightarrow> view \<Rightarrow> bool" where
  "in_progress fresh v \<longleftrightarrow> (\<exists>k. tr_phases (fst v) = tr_phases start @ phases_seen (Prefill fresh # replicate k Decode))"

lemma shown_in_progress: "shown go fresh n d v \<Longrightarrow> in_progress fresh v"
  by (cases d) (auto simp: shown_def in_progress_def intro: exI [of _ 0] exI [of _ 1])

section \<open>Steps that show nothing\<close>

lemma keeps_sum [keeps_rules]:
  "(\<And>x. keeps I (f x)) \<Longrightarrow> (\<And>y. keeps I (g y)) \<Longrightarrow> keeps I (case r of Inl x \<Rightarrow> f x | Inr y \<Rightarrow> g y)"
  by (cases r) simp_all

lemma keeps_view_triple:
  assumes "\<And>v. keeps (\<lambda>g. view g = v) m"
  shows "triple (\<lambda>g. Q (view g)) m (\<lambda>_ g. Q (view g)) (\<lambda>_ g. Q (view g))"
proof (rule tripleI)
  fix g e h assume "Q (view g)" "m g = (Inl e, h)"
  then show "Q (view h)" using keepsD [OF assms [of "view g"]] by metis
next
  fix g x h assume "Q (view g)" "m g = (Inr x, h)"
  then show "Q (view h)" using keepsD [OF assms [of "view g"]] by metis
qed

lemma keeps_in_world [keeps_rules]:
  "(\<And>w. seen (snd (m w)) = seen w) \<Longrightarrow> keeps (\<lambda>g. view g = v) (in_world m)"
  by (auto simp: keeps_def in_world_def view_def split: prod.splits) (metis snd_conv)+

lemma poll_unseen [simp]: "seen (snd (poll (ge_cancelled E) w)) = seen w" "seen (snd (poll (ge_best_match E p) w)) = seen w"
  by (auto simp: poll_def dest: cancelled_unseen best_match_unseen split: prod.split)

lemma view_updates [simp]:
  "view (g\<lparr>gn_stats := x\<rparr>) = view g" "view (g\<lparr>gn_memory_active := a\<rparr>) = view g" "view (g\<lparr>gn_disk_active := b\<rparr>) = view g"
  "view (note_resize b g) = view g"
  by (simp_all add: view_def note_resize_def)

lemma keeps_view_modify [keeps_rules]: "(\<And>g. view (f g) = view g) \<Longrightarrow> keeps (\<lambda>g. view g = v) (m_modify f)"
  by (simp add: keeps_modify)

lemma consume_quiet [keeps_rules]: "keeps (\<lambda>g. view g = v) (engine_consume E tokens mode history draw)"
  by (auto simp: keeps_def engine_consume_def view_def note_resize_def Let_def dest: consume_unseen split: prod.splits sum.splits)

lemma session_quiet [keeps_rules]:
  "(\<And>session w. seen (snd (m session w)) = seen w) \<Longrightarrow> keeps (\<lambda>g. view g = v) (\<lambda>g. in_world (m (gn_session g)) g)"
  by (auto simp: keeps_def in_world_def view_def split: prod.splits) (metis snd_conv)+

lemma checkpoint_quiet [keeps_rules]: "keeps (\<lambda>g. view g = v) (disk_checkpoint E)"
  unfolding disk_checkpoint_def by (intro keeps_rules keeps_basic) simp_all

lemma offers_quiet [keeps_rules]:
  "keeps (\<lambda>g. view g = v) (offer_to_memory E prompt width frontier)"
  "keeps (\<lambda>g. view g = v) (checkpoint_to_disk E prompt width frontier n mode)"
  unfolding offer_to_memory_def checkpoint_to_disk_def by (intro keeps_rules keeps_basic; simp)+

section \<open>Steps that are seen\<close>

lemma enter_phase_triple:
  "p \<noteq> CompletedOperation \<Longrightarrow> triple (\<lambda>g. view g = (t, ids, text)) (in_world (enter_phase E p))
     (\<lambda>_ g. view g = (t\<lparr>tr_phases := tr_phases t @ phases_seen [p]\<rparr>, ids, text))
     (\<lambda>_ g. view g = (t\<lparr>tr_phases := tr_phases t @ phases_seen [p]\<rparr>, ids, text))"
  by (rule tripleI)
    (auto simp: enter_phase_def in_world_def view_def phases_seen_def split: option.splits prod.splits, (metis phase_seen snd_conv)+)

lemma decode_phase_triple:
  "triple (\<lambda>g. shown go fresh n d (view g)) (in_world (enter_phase E Decode))
     (\<lambda>_ g. in_progress fresh (view g) \<and> (\<not> d \<longrightarrow> shown go fresh n True (view g))) (\<lambda>_ g. in_progress fresh (view g))"
proof (rule tripleI)
  fix g e h assume g: "shown go fresh n d (view g)" and run: "in_world (enter_phase E Decode) g = (Inl e, h)"
  obtain t ids cs where v: "view g = (t, ids, cs)" by (cases "view g")
  have "view h = (t\<lparr>tr_phases := tr_phases t @ phases_seen [Decode]\<rparr>, ids, cs)"
    by (rule triple_Inl [OF enter_phase_triple v run]) simp
  with g v show "in_progress fresh (view h)"
    by (auto simp: shown_def in_progress_def phases_seen_def intro: exI [of _ "Suc 0"] exI [of _ "Suc (Suc 0)"] split: option.splits if_splits)
next
  fix g x h assume g: "shown go fresh n d (view g)" and run: "in_world (enter_phase E Decode) g = (Inr x, h)"
  obtain t ids cs where v: "view g = (t, ids, cs)" by (cases "view g")
  have "view h = (t\<lparr>tr_phases := tr_phases t @ phases_seen [Decode]\<rparr>, ids, cs)"
    by (rule triple_Inr [OF enter_phase_triple v run]) simp
  with g v show "in_progress fresh (view h) \<and> (\<not> d \<longrightarrow> shown go fresh n True (view h))"
    by (auto simp: shown_def in_progress_def phases_seen_def intro: exI [of _ "Suc 0"] exI [of _ "Suc (Suc 0)"] split: option.splits if_splits)
qed

section \<open>The callbacks of a request\<close>

lemma quiet_triple:
  assumes "\<And>v. keeps (\<lambda>g. view g = v) m"
  shows "triple (\<lambda>g. shown go fresh n d (view g)) m (\<lambda>_ g. shown go fresh n d (view g)) (\<lambda>_ g. in_progress fresh (view g))"
  by (rule triple_mono [OF keeps_view_triple [OF assms, where Q = "shown go fresh n d"]]) (auto intro: shown_in_progress)

text \<open>What a consumed chunk leaves behind, by the frontier it reports.\<close>

definition after_consume ::
    "generation_options \<Rightarrow> nat \<Rightarrow> nat \<Rightarrow> nat \<Rightarrow> bool \<Rightarrow> routing_mode \<Rightarrow> action_result \<Rightarrow> view \<Rightarrow> bool" where
  "after_consume go fresh len n d mode r v \<longleftrightarrow>
     in_progress fresh v \<and>
     (case r of
        Consumed f c selected \<Rightarrow>
          if f = len \<and> mode = Unbiased then \<not> d \<longrightarrow> shown go fresh n True v else shown go fresh n d v
      | _ \<Rightarrow> shown go fresh n d v)"

lemma boundary_quiet [keeps_rules]: "keeps (\<lambda>g. view g = v) (run_boundary E)"
  unfolding run_boundary_def by (intro keeps_rules; simp)

lemma publish_quiet [keeps_rules]: "keeps (\<lambda>g. view g = v) (publish_prompt E prompt width frontier n mode)"
  unfolding publish_prompt_def by (intro keeps_rules keeps_basic) simp

lemma prompt_finished_triple:
  "triple (\<lambda>g. shown go fresh n d (view g)) (prompt_finished E prompt frontier mode)
     (\<lambda>_ g. after_consume go fresh (length prompt) n d mode (Consumed frontier c selected) (view g)) (\<lambda>_ g. in_progress fresh (view g))"
  unfolding prompt_finished_def
  by (rule triple_if, rule triple_mono [OF decode_phase_triple]) (auto simp: after_consume_def intro: triple_return shown_in_progress)

lemma consume_action_triple:
  "triple (\<lambda>g. shown go fresh n d (view g)) (consume_action E prompt width tokens mode draw history)
     (\<lambda>r g. after_consume go fresh (length prompt) n d mode r (view g)) (\<lambda>_ g. in_progress fresh (view g))"
proof -
  have published: "triple (\<lambda>g. after_consume go fresh (length prompt) n d mode r (view g))
      (publish_prompt E prompt width f k mode)
      (\<lambda>_ g. after_consume go fresh (length prompt) n d mode r (view g)) (\<lambda>_ g. in_progress fresh (view g))" for r f k
    by (rule triple_mono [OF keeps_view_triple [OF publish_quiet, where Q = "after_consume go fresh (length prompt) n d mode r"]])
      (auto simp: after_consume_def)
  have finished: "triple (\<lambda>g. shown go fresh n d (view g))
      (m_bind (run_boundary E) (\<lambda>_.
         m_bind (prompt_finished E prompt (out_frontier out) mode) (\<lambda>_.
         m_bind (publish_prompt E prompt width (out_frontier out) (length tokens) mode) (\<lambda>_.
         m_return (Consumed (out_frontier out) (out_changed_routes out) (out_selected out))))))
      (\<lambda>r g. after_consume go fresh (length prompt) n d mode r (view g)) (\<lambda>_ g. in_progress fresh (view g))" for out
    by (rule triple_bind [OF quiet_triple [OF boundary_quiet]
          triple_bind [OF prompt_finished_triple triple_bind [OF published triple_return]]]) assumption
  show ?thesis
    unfolding consume_action_def
    by (intro triple_bind [OF quiet_triple [OF consume_quiet]] triple_option finished triple_return)
      (auto simp: after_consume_def intro: shown_in_progress)
qed

lemma sample_action_triple:
  "triple (\<lambda>g. shown go fresh n False (view g)) (sample_action E history)
     (\<lambda>r g. in_progress fresh (view g) \<and> (case r of Sampled t \<Rightarrow> shown go fresh n True (view g) | _ \<Rightarrow> shown go fresh n False (view g)))
     (\<lambda>_ g. in_progress fresh (view g))"
proof -
  have phase: "triple (\<lambda>g. shown go fresh n False (view g)) (in_world (enter_phase E Decode))
      (\<lambda>_ g. shown go fresh n True (view g)) (\<lambda>_ g. in_progress fresh (view g))"
    by (rule triple_mono [OF decode_phase_triple]) auto
  show ?thesis
    unfolding sample_action_def
    by (rule triple_bind [OF quiet_triple [OF session_quiet] triple_bind [OF phase triple_bind [OF quiet_triple [OF boundary_quiet]
        triple_return]]]) (auto intro: shown_in_progress)
qed

lemma once_in_progress [simp]: "\<exists>k. phases_seen [Prefill fresh, Decode] = phases_seen (Prefill fresh # replicate k Decode)"
  by (rule exI [of _ "Suc 0"]) simp

lemma emit_token_triple:
  assumes "t \<notin> set (ge_stop_ids E)" "n < go_max_tokens go"
  shows "triple (\<lambda>g. shown go fresh n True (view g)) (emit_token E t)
    (\<lambda>_ g. shown go fresh (Suc n) True (view g)) (\<lambda>_ g. in_progress fresh (view g))"
proof (rule tripleI)
  fix g e h assume "shown go fresh n True (view g)" "emit_token E t g = (Inl e, h)"
  then show "in_progress fresh (view h)"
    using decoder_seen [of t "gn_world g"]
    by (auto simp: emit_token_def m_bind_def in_world_def view_def shown_def in_progress_def
        dest!: text_seen split: prod.splits sum.splits option.splits)
next
  fix g u h assume "shown go fresh n True (view g)" "emit_token E t g = (Inr u, h)"
  then show "shown go fresh (Suc n) True (view h)"
    using decoder_seen [of t "gn_world g"] assms
    by (auto simp: emit_token_def m_bind_def in_world_def view_def shown_def in_progress_def
        dest!: text_seen split: prod.splits sum.splits option.splits)
qed

end

sublocale recording < request: loop_callbacks "request_callbacks E prompt width" prompt "ge_stop_ids E" go
    "\<lambda>n d g. shown go fresh n d (view g)" "\<lambda>g. in_progress fresh (view g)"
  for prompt width go fresh
proof unfold_locales
  fix n d and g :: "('v, 'ss) gen_state"
  assume g: "shown go fresh n d (view g)"
  then show "in_progress fresh (view g)" by (rule shown_in_progress)
  have "view (snd (le_cancelled (request_callbacks E prompt width) g)) = view g"
    by (auto simp: request_callbacks_def view_def dest: cancelled_unseen split: prod.split)
  with g show "shown go fresh n d (view (snd (le_cancelled (request_callbacks E prompt width) g)))" by simp
  from g show "shown go fresh n d (view (le_on_sample (request_callbacks E prompt width) g))"
    by (simp add: request_callbacks_def)
next
  show "triple (\<lambda>g. shown go fresh 0 False (view g))
      (le_action (request_callbacks E prompt width) (Consume tokens Unbiased draw prompt))
      (\<lambda>r g. in_progress fresh (view g) \<and>
        (case r of Consumed f c selected \<Rightarrow> shown go fresh 0 (f = length prompt) (view g) | _ \<Rightarrow> shown go fresh 0 False (view g)))
      (\<lambda>_ g. in_progress fresh (view g))" for tokens draw
    unfolding request_callbacks_def
    by (simp, rule triple_mono [OF consume_action_triple])
      (auto simp: after_consume_def split: action_result.splits if_splits)
  show "triple (\<lambda>g. shown go fresh 0 False (view g))
      (le_action (request_callbacks E prompt width) (SampleCurrent history))
      (\<lambda>r g. in_progress fresh (view g) \<and>
        (case r of Sampled t \<Rightarrow> shown go fresh 0 True (view g) | _ \<Rightarrow> shown go fresh 0 False (view g)))
      (\<lambda>_ g. in_progress fresh (view g))" for history
    unfolding request_callbacks_def by (simp, rule sample_action_triple)
  show "triple (\<lambda>g. shown go fresh n True (view g))
      (le_action (request_callbacks E prompt width) (Consume [t] mode True history))
      (\<lambda>r g. in_progress fresh (view g) \<and>
        (case r of Consumed f c selected \<Rightarrow> f \<noteq> length prompt \<longrightarrow> shown go fresh n True (view g) | _ \<Rightarrow> shown go fresh n True (view g)))
      (\<lambda>_ g. in_progress fresh (view g))" for n t mode history
    unfolding request_callbacks_def
    by (simp, rule triple_mono [OF consume_action_triple])
      (auto simp: after_consume_def split: action_result.splits if_splits)
  show "t \<notin> set (ge_stop_ids E) \<Longrightarrow> n < go_max_tokens go \<Longrightarrow>
      triple (\<lambda>g. shown go fresh n True (view g)) (le_emit (request_callbacks E prompt width) t)
        (\<lambda>_ g. shown go fresh (Suc n) True (view g)) (\<lambda>_ g. in_progress fresh (view g))" for t n
    unfolding request_callbacks_def by (simp add: emit_token_triple)
qed

section \<open>The whole request\<close>

lemma with_cleanup_triple:
  assumes "triple P m Q (\<lambda>_. E)" "\<And>x. triple (Q x) cleanup (\<lambda>_. R x) (\<lambda>_. F)" "triple E cleanup (\<lambda>_. F) (\<lambda>_. F)"
  shows "triple P (with_cleanup m cleanup) R (\<lambda>_. F)"
proof -
  have after: "triple (case result of Inl _ \<Rightarrow> E | Inr x \<Rightarrow> Q x)
      (m_bind (m_try cleanup) (\<lambda>cleaned.
       m_lift (case (result, cleaned) of
          (Inl primary, Inl secondary) \<Rightarrow> Inl (also_failed primary secondary)
        | (Inl primary, Inr _) \<Rightarrow> Inl primary
        | (Inr _, Inl secondary) \<Rightarrow> Inl secondary
        | (Inr x, Inr _) \<Rightarrow> Inr x))) R (\<lambda>_. F)" for result :: "string + 'b"
  proof (cases result)
    case (Inl e)
    show ?thesis
      by (rule triple_bind [where R = "\<lambda>_. F"], rule triple_try)
        (use assms(3) Inl in \<open>auto simp: triple_def split: sum.splits\<close>)
  next
    case (Inr x)
    show ?thesis
      by (rule triple_bind [where R = "\<lambda>cleaned. case cleaned of Inl _ \<Rightarrow> F | Inr _ \<Rightarrow> R x"], rule triple_try)
        (use assms(2) [of x] Inr in \<open>auto simp: triple_def split: sum.splits\<close>)
  qed
  show ?thesis
    unfolding with_cleanup_def
    by (rule triple_bind [OF triple_try after]) (use assms(1) in simp)
qed

lemma triple_read: "(\<And>x. triple P (g x) Q E) \<Longrightarrow> triple P (m_bind (m_get (\<lambda>s. Inr (f s))) g) Q E"
  by (simp add: triple_def m_bind_def)

lemma keeps_pair [keeps_rules]: "(\<And>a b. keeps I (f a b)) \<Longrightarrow> keeps I (case p of (a, b) \<Rightarrow> f a b)"
  by (cases p) simp

lemma triple_outcome:
  assumes "\<And>s. P s \<Longrightarrow> case m s of (r, t) \<Rightarrow> C r t"
  shows "triple P m (\<lambda>x. C (Inr x)) (\<lambda>e. C (Inl e))"
  by (rule tripleI) (use assms in fastforce)+

context recording begin

definition phases_closed :: "nat \<Rightarrow> request_trace \<Rightarrow> bool" where
  "phases_closed fresh t \<longleftrightarrow> (\<exists>k. tr_phases t = tr_phases start @ phases_seen (Prefill fresh # replicate k Decode @ [Finished]))"

text \<open>A request that returned its statistics: the tokens counted, and unless it was cancelled the phases in full.\<close>

definition answered ::
    "generation_options \<Rightarrow> nat \<Rightarrow> generation_stats \<Rightarrow> request_trace \<Rightarrow> bool" where
  "answered go fresh stats t \<longleftrightarrow>
     phases_closed fresh t \<and> length (tr_tokens t) = gs_generated_tokens stats \<and> gs_generated_tokens stats \<le> go_max_tokens go \<and>
     set (tr_tokens t) \<inter> set (ge_stop_ids E) = {} \<and>
     (gs_finish stats \<noteq> Cancelled \<longrightarrow>
        gs_prefill_tokens stats = fresh \<and> tr_phases t = tr_phases start @ phases_seen [Prefill fresh, Decode, Finished])"

definition loop_left ::
    "generation_options \<Rightarrow> nat \<Rightarrow> generation_stats \<Rightarrow> view \<Rightarrow> bool" where
  "loop_left go fresh stats v \<longleftrightarrow>
     (case v of (t, ids, cs) \<Rightarrow> tr_tokens t = ids \<and> tr_text t = cs \<and> answered go fresh stats t)"

lemma finished_phase:
  "triple (\<lambda>g. in_progress fresh (view g)) (in_world (enter_phase E Finished))
     (\<lambda>_ g. phases_closed fresh (fst (view g))) (\<lambda>_ g. phases_closed fresh (fst (view g)))"
proof -
  have closes: "phases_closed fresh (t\<lparr>tr_phases := tr_phases t @ phases_seen [Finished]\<rparr>)" if "in_progress fresh (t, ids, cs)" for t ids cs
    using that by (auto simp: in_progress_def phases_closed_def phases_seen_def split: option.splits)
  show ?thesis
  proof (rule tripleI)
    fix g e h assume g: "in_progress fresh (view g)" and run: "in_world (enter_phase E Finished) g = (Inl e, h)"
    obtain t ids cs where v: "view g = (t, ids, cs)" by (cases "view g")
    show "phases_closed fresh (fst (view h))" using triple_Inl [OF enter_phase_triple v run] closes g v by simp
  next
    fix g x h assume g: "in_progress fresh (view g)" and run: "in_world (enter_phase E Finished) g = (Inr x, h)"
    obtain t ids cs where v: "view g = (t, ids, cs)" by (cases "view g")
    show "phases_closed fresh (fst (view h))" using triple_Inr [OF enter_phase_triple v run] closes g v by simp
  qed
qed

lemma loop_phase:
  "triple (\<lambda>g. \<exists>d. shown go fresh (gs_generated_tokens stats) d (view g) \<and>
       (gs_finish stats \<noteq> Cancelled \<longrightarrow> d \<and> gs_prefill_tokens stats = fresh))
     (in_world (enter_phase E Finished))
     (\<lambda>_ g. loop_left go fresh stats (view g)) (\<lambda>_ g. phases_closed fresh (fst (view g)))"
proof (rule tripleI)
  fix g e h
  assume "\<exists>d. shown go fresh (gs_generated_tokens stats) d (view g) \<and>
       (gs_finish stats \<noteq> Cancelled \<longrightarrow> d \<and> gs_prefill_tokens stats = fresh)"
    and "in_world (enter_phase E Finished) g = (Inl e, h)"
  then show "phases_closed fresh (fst (view h))"
    by (metis shown_in_progress triple_Inl [OF finished_phase])
next
  fix g x h
  assume left: "\<exists>d. shown go fresh (gs_generated_tokens stats) d (view g) \<and>
       (gs_finish stats \<noteq> Cancelled \<longrightarrow> d \<and> gs_prefill_tokens stats = fresh)"
    and run: "in_world (enter_phase E Finished) g = (Inr x, h)"
  then obtain d where d: "shown go fresh (gs_generated_tokens stats) d (view g)"
    "gs_finish stats \<noteq> Cancelled \<Longrightarrow> d \<and> gs_prefill_tokens stats = fresh" by blast
  obtain t ids cs where v: "view g = (t, ids, cs)" by (cases "view g")
  have "view h = (t\<lparr>tr_phases := tr_phases t @ phases_seen [Finished]\<rparr>, ids, cs)"
    by (rule triple_Inr [OF enter_phase_triple v run]) simp
  moreover have "phases_closed fresh (fst (view h))"
    by (rule triple_Inr [OF finished_phase shown_in_progress [OF d(1)] run])
  ultimately show "loop_left go fresh stats (view h)"
    using d v by (auto simp: loop_left_def answered_def shown_def phases_seen_def split: option.splits)
qed

lemma closed_text: "phases_closed fresh (t\<lparr>tr_text := x\<rparr>) = phases_closed fresh t"
  by (simp add: phases_closed_def)

lemma flush_triple:
  assumes "gs_finish stats \<noteq> Cancelled"
  shows "triple (\<lambda>g. loop_left go fresh stats (view g)) (flush_text E)
    (\<lambda>_ g. answered go fresh stats (fst (view g)) \<and> ge_decode E (tr_tokens (fst (view g))) = Inr (tr_text (fst (view g))))
    (\<lambda>_ g. phases_closed fresh (fst (view g)))"
  unfolding flush_text_def
proof (rule triple_get_bind)
  fix remainder
  show "triple (\<lambda>g. loop_left go fresh stats (view g) \<and>
        bindr (ge_decode E (gn_emitted_ids g)) (\<lambda>whole. terminal_text whole (gn_emitted_text g)) = Inr remainder)
      (if remainder = [] then m_return () else in_world (ge_on_text E remainder))
      (\<lambda>_ g. answered go fresh stats (fst (view g)) \<and> ge_decode E (tr_tokens (fst (view g))) = Inr (tr_text (fst (view g))))
      (\<lambda>_ g. phases_closed fresh (fst (view g)))"
    by (rule tripleI)
      (auto simp: loop_left_def view_def in_world_def terminal_text_def strip_prefix_of_def answered_def closed_text ok_or_def
        result_simps dest!: text_seen elim!: prefixE split: if_splits prod.splits sum.splits option.splits)
qed (auto simp: loop_left_def answered_def)

lemma publish_final_quiet: "keeps (\<lambda>g. view g = v) (publish_final E prompt)"
  unfolding publish_final_def by (intro keeps_rules keeps_basic; simp)

lemma finish_triple:
  "triple (\<lambda>g. loop_left go fresh stats (view g)) (finish_request E prompt stats)
    (\<lambda>_ g. answered go fresh stats (fst (view g)) \<and>
       (gs_finish stats \<noteq> Cancelled \<longrightarrow> ge_decode E (tr_tokens (fst (view g))) = Inr (tr_text (fst (view g)))))
    (\<lambda>_ g. phases_closed fresh (fst (view g)))"
proof -
  let ?Q = "\<lambda>v. answered go fresh stats (fst v) \<and> ge_decode E (tr_tokens (fst v)) = Inr (tr_text (fst v))"
  have published: "triple (\<lambda>g. ?Q (view g)) (publish_final E prompt) (\<lambda>_ g. ?Q (view g)) (\<lambda>_ g. phases_closed fresh (fst (view g)))"
    by (rule triple_mono [OF keeps_view_triple [OF publish_final_quiet, where Q = ?Q]]) (auto simp: answered_def)
  show ?thesis
    unfolding finish_request_def
    by (intro triple_if triple_return triple_mono [OF triple_bind [OF flush_triple published]])
      (auto simp: loop_left_def)
qed

lemma prefill_phase:
  "triple (\<lambda>g. view g = (start, [], []))
     (\<lambda>g. case in_world (enter_phase E (Prefill fresh)) g of
        (Inr _, g) \<Rightarrow> (Inr (), g)
      | (Inl primary, g) \<Rightarrow> with_cleanup (m_lift (Inl primary)) (in_world (enter_phase E Finished)) g)
     (\<lambda>_ g. shown go fresh 0 False (view g)) (\<lambda>_ g. phases_closed fresh (fst (view g)))"
  (is "triple ?P ?m ?Q ?E")
proof -
  let ?prefill = "in_world (enter_phase E (Prefill fresh))"
  let ?t = "start\<lparr>tr_phases := tr_phases start @ phases_seen [Prefill fresh]\<rparr>"
  have entered: "triple ?P ?prefill (\<lambda>_ g. view g = (?t, [], [])) (\<lambda>_ g. view g = (?t, [], []))"
    using enter_phase_triple [of "Prefill fresh" start "[]" "[]"] by simp
  have entry: "shown go fresh 0 False (?t, [], [])" by (simp add: shown_def start_empty)
  have cleanup: "triple (\<lambda>g. in_progress fresh (view g)) (with_cleanup (m_lift (Inl e)) (in_world (enter_phase E Finished))) ?Q ?E" for e
    by (rule with_cleanup_triple [where Q = "\<lambda>_ _. False" and E = "\<lambda>g. in_progress fresh (view g)", OF triple_lift])
      (auto simp: triple_def [of "\<lambda>_. False"] intro: finished_phase)
  show ?thesis
  proof (rule tripleI)
    fix g e h assume g: "?P g" and run: "?m g = (Inl e, h)"
    obtain r g1 where p: "?prefill g = (r, g1)" by (cases "?prefill g")
    obtain e1 where e1: "r = Inl e1" using run p by (cases r) auto
    have "in_progress fresh (view g1)"
      using triple_Inl [OF entered g] p e1 shown_in_progress [OF entry] by metis
    from triple_Inl [OF cleanup this] run p e1 show "?E e h" by simp
  next
    fix g x h assume g: "?P g" and run: "?m g = (Inr x, h)"
    obtain r g1 where p: "?prefill g = (r, g1)" by (cases "?prefill g")
    show "?Q x h"
    proof (cases r)
      case (Inl e1)
      have "in_progress fresh (view g1)"
        using triple_Inl [OF entered g] p Inl shown_in_progress [OF entry] by metis
      from triple_Inr [OF cleanup this] run p Inl show ?thesis by simp
    next
      case (Inr u)
      then show ?thesis using triple_Inr [OF entered g] p run entry by simp
    qed
  qed
qed

text \<open>What a request that found its session leaves in the trace.\<close>

definition outcome :: "generation_options \<Rightarrow> nat \<Rightarrow> string + generation_stats \<Rightarrow> request_trace \<Rightarrow> bool" where
  "outcome go fresh r t \<longleftrightarrow>
     (case r of
        Inl _ \<Rightarrow> phases_closed fresh t
      | Inr stats \<Rightarrow>
          answered go fresh stats t \<and>
          (gs_finish stats \<noteq> Cancelled \<longrightarrow> ge_decode E (tr_tokens t) = Inr (tr_text t)))"

lemma run_request_triple:
  "triple (\<lambda>g. view g = (start, [], [])) (run_request E prompt go initial)
     (\<lambda>stats g. outcome go (length prompt - initial) (Inr stats) (fst (view g)))
     (\<lambda>e g. outcome go (length prompt - initial) (Inl e) (fst (view g)))"
proof -
  let ?fresh = "length prompt - initial"
  have loop: "triple (\<lambda>g. shown go ?fresh 0 False (view g))
      (with_cleanup
         (run_loop (request_callbacks E prompt width) prompt (ge_stop_ids E) go width initial)
         (in_world (enter_phase E Finished)))
      (\<lambda>stats g. loop_left go ?fresh stats (view g)) (\<lambda>_ g. phases_closed ?fresh (fst (view g)))" for width
    by (rule with_cleanup_triple [OF request.run_loop_triple _ finished_phase])
      (rule triple_pre [OF loop_phase], simp add: request.ended_def)
  have stats: "triple (\<lambda>g. answered go ?fresh stats (fst (view g)) \<and>
        (gs_finish stats \<noteq> Cancelled \<longrightarrow> ge_decode E (tr_tokens (fst (view g))) = Inr (tr_text (fst (view g)))))
      (m_get (\<lambda>g. Inr (stats\<lparr>gs_prompt_cache := gn_stats g\<rparr>)))
      (\<lambda>stats g. outcome go ?fresh (Inr stats) (fst (view g))) (\<lambda>_ g. phases_closed ?fresh (fst (view g)))" for stats
    by (auto simp: triple_def outcome_def answered_def)
  have "triple (\<lambda>g. view g = (start, [], [])) (run_request E prompt go initial)
     (\<lambda>stats g. outcome go ?fresh (Inr stats) (fst (view g))) (\<lambda>_ g. phases_closed ?fresh (fst (view g)))"
    unfolding run_request_def
    by (rule triple_bind [OF prefill_phase triple_read [OF triple_bind [OF loop triple_bind [OF finish_triple stats]]]])
  then show ?thesis by (simp add: outcome_def)
qed

section \<open>Finding the session\<close>

text \<open>The lookup shows nothing.\<close>

abbreviation unseen :: "request_trace \<Rightarrow> ('v, 'ss) lookup \<Rightarrow> bool" where
  "unseen t l \<equiv> seen (lk_world l) = t"

lemma keeps_in_lookup [keeps_rules]: "(\<And>w. seen (snd (m w)) = seen w) \<Longrightarrow> keeps (unseen t) (in_lookup m)"
  by (auto simp: keeps_def in_lookup_def split: prod.splits) (metis snd_conv)+

lemma unseen_modify [keeps_rules]: "(\<And>l. lk_world (f l) = lk_world l) \<Longrightarrow> keeps (unseen t) (m_modify f)"
  by (simp add: keeps_modify)

lemma restored_from_world [simp]: "lk_world (restored_from event session frontier l) = lk_world l"
  by (simp add: restored_from_def)

lemma restore_quiet [keeps_rules]: "keeps (unseen t) (restore_disk_prefix E prompt minimum)"
  unfolding restore_disk_prefix_def by (intro keeps_rules keeps_basic; simp)

lemma lookup_parts_quiet [keeps_rules]:
  "keeps (unseen t) (memory_hit E prompt)" "keeps (unseen t) (poll_cancelled E)"
  unfolding memory_hit_def poll_cancelled_def by (intro keeps_rules keeps_basic; simp)+

lemma lose_disk_quiet [keeps_rules]: "keeps (unseen t) m \<Longrightarrow> keeps (unseen t) (lose_disk m)"
  unfolding lose_disk_def by (intro keeps_rules keeps_basic; simp)

lemma lookup_quiet:
  "keeps (unseen t) (lookup_prefix E prompt)" "keeps (unseen t) (fill_memory E prompt)"
  unfolding lookup_prefix_def look_deeper_on_disk_def look_in_memory_def look_on_disk_def fill_memory_def
  by (intro keeps_rules keeps_basic; simp)+

lemma unseen_triple: "keeps (unseen t) m \<Longrightarrow> triple (unseen t) m (\<lambda>_. unseen t) (\<lambda>_. unseen t)"
  by (rule tripleI) (auto dest: keepsD)

text \<open>Either nothing was reported, or a session was found and the token loop entered.\<close>

definition request_seen ::
    "generation_options \<Rightarrow> string + generation_stats \<Rightarrow> request_trace \<Rightarrow> bool" where
  "request_seen go r t \<longleftrightarrow>
     (t = start \<and> (case r of Inl _ \<Rightarrow> True | Inr stats \<Rightarrow> gs_finish stats = Cancelled \<and> gs_generated_tokens stats = 0)) \<or> (\<exists>fresh. outcome go fresh r t)"

lemma with_session_triple:
  "triple (unseen start) (with_session E (run_request E prompt go))
     (\<lambda>stats l. request_seen go (Inr stats) (seen (lk_world l))) (\<lambda>e l. request_seen go (Inl e) (seen (lk_world l)))"
proof -
  have body: "case run_request E prompt go initial (start_state l session) of
      (r, g) \<Rightarrow> request_seen go r (seen (gn_world g))"
    if "unseen start l" for l :: "('v, 'ss) lookup" and session initial
  proof -
    have "view (start_state l session) = (start, [], [])" using that by (simp add: view_def start_state_def)
    from triple_at [OF run_request_triple [of prompt go initial] this] show ?thesis
      by (auto simp: request_seen_def view_def split: prod.splits sum.splits)
  qed
  have "case with_session E (run_request E prompt go) l of (r, l') \<Rightarrow> request_seen go r (seen (lk_world l'))"
    if l: "unseen start l" for l
  proof (cases "lk_restored l")
    case (Some found)
    then show ?thesis
      using body [OF l, where initial = "snd found" and session = "fst found"]
      by (cases found) (auto simp: with_session_def split: prod.splits)
  next
    case None
    obtain r w where s: "ge_start_session E (lk_world l) = (r, w)" by (metis prod.exhaust)
    then have t: "seen w = start" using unseen_calls(2) [of "lk_world l"] l by simp
    show ?thesis
    proof (cases r)
      case (Inl e)
      then show ?thesis using None s t by (simp add: with_session_def request_seen_def)
    next
      case (Inr session)
      then show ?thesis using None s t body [where l = "l\<lparr>lk_world := w\<rparr>" and initial = 0 and session = session] by (auto simp: with_session_def split: prod.splits)
    qed
  qed
  then show ?thesis by (rule triple_outcome)
qed

lemma request_in_lookup_triple:
  "triple (unseen start) (request_in_lookup E prompt go)
     (\<lambda>stats l. request_seen go (Inr stats) (seen (lk_world l))) (\<lambda>e l. request_seen go (Inl e) (seen (lk_world l)))"
proof -
  let ?Q = "\<lambda>stats l. request_seen go (Inr stats) (seen (lk_world l))" and ?E = "\<lambda>e l. request_seen go (Inl e) (seen (lk_world l))"
  have quiet: "triple (unseen start) m (\<lambda>_. unseen start) ?E" if "keeps (unseen start) m" for m :: "(string, _, 'x) fallible"
    by (rule triple_mono [OF unseen_triple [OF that]]) (simp_all add: request_seen_def)
  have cancelled: "triple (unseen start) (m_get (\<lambda>l. Inr (cancelled_stats (lk_stats l)))) ?Q ?E"
    by (simp add: triple_def request_seen_def cancelled_stats_def initial_stats_def)
  show ?thesis
    unfolding request_in_lookup_def
    by (intro triple_bind [OF quiet [OF lookup_quiet(1)]] triple_bind [OF quiet [OF lookup_parts_quiet(2)]] triple_if cancelled
        triple_bind [OF quiet [OF lookup_quiet(2)]] with_session_triple)
qed

lemma generate_seen:
  assumes "seen w = start"
  shows "case generate E prompt go w of (r, w') \<Rightarrow> request_seen go r (seen w')"
proof -
  let ?E = "\<lambda>e s. request_seen go (Inl e) (seen s)" and ?Q = "\<lambda>x s. request_seen go (Inr x) (seen s)"
  have lookup: "triple (\<lambda>s. seen s = start)
      (\<lambda>w. case request_in_lookup E prompt go (lookup_start E w) of (r, l) \<Rightarrow> (r, lk_world l)) ?Q ?E"
  proof (rule tripleI)
    fix s e u assume "seen s = start"
      and "(case request_in_lookup E prompt go (lookup_start E s) of (r, l) \<Rightarrow> (r, lk_world l)) = (Inl e, u)"
    then show "?E e u"
      using triple_at [OF request_in_lookup_triple, of "lookup_start E s" go prompt]
      by (auto simp: lookup_start_def split: prod.splits)
  next
    fix s x u assume "seen s = start"
      and "(case request_in_lookup E prompt go (lookup_start E s) of (r, l) \<Rightarrow> (r, lk_world l)) = (Inr x, u)"
    then show "?Q x u"
      using triple_at [OF request_in_lookup_triple, of "lookup_start E s" go prompt]
      by (auto simp: lookup_start_def split: prod.splits)
  qed
  have polled: "triple (\<lambda>s. seen s = start) (poll (ge_cancelled E)) (\<lambda>_ s. seen s = start) ?E"
  proof -
    have "keeps (\<lambda>s. seen s = start) (poll (ge_cancelled E))" by (simp add: keeps_def)
    then show ?thesis by (intro tripleI) (auto simp: request_seen_def dest: keepsD)
  qed
  have "triple (\<lambda>s. seen s = start) (generate E prompt go) ?Q ?E"
    unfolding generate_def
    by (intro triple_get_bind triple_lift_bind triple_pre [OF triple_bind [OF polled]] triple_if triple_return lookup)
      (auto simp: request_seen_def initial_stats_def)
  from triple_at [OF this assms] show ?thesis by (auto split: prod.splits sum.splits)
qed

end

section \<open>The recorders\<close>

interpretation watcher: recording "watched env" snd no_trace for env :: "('w, 'ss, 'sn, 'g) gen_env"
  by unfold_locales
    (auto simp: watched_def lift_env_def on_world_def no_trace_def split: prod.splits sum.splits option.splits)

text \<open>The environment a request with an owner runs in records as well, from the first phase on that the owner is told of.\<close>

interpretation owner: recording "owned_env (told owner) (watched env)" "\<lambda>s. snd (fst s)" "no_trace\<lparr>tr_phases := [Prepare]\<rparr>"
  for owner and env :: "('w, 'ss, 'sn, 'g) gen_env"
  by unfold_locales
    (auto simp: owned_env_def owner_phase_def told_def watched_def lift_env_def on_world_def no_trace_def
      split: prod.splits sum.splits option.splits)

lemma no_trace_parts: "tr_tokens no_trace = []" "tr_text no_trace = []" "tr_phases no_trace = []"
  by (simp_all add: no_trace_def)

lemma recorders_keep:
  "ge_stop_ids (watched env) = ge_stop_ids env" "ge_decode (watched env) = ge_decode env"
  "ge_phase (owned_env who env) = Some (owner_phase (ge_capacity env) who)"
  by (simp_all add: watched_def lift_env_def owned_env_def)

section \<open>Properties\<close>

text \<open>C23: The text streamed by a request that was not cancelled, put together, is the complete decoding of the tokens it counted,
  including a suffix the incremental decoder withheld; none of them is a stop token and there are at most \<open>max_tokens\<close>. This
  holds whatever the engine, the prompt tiers and the reader do.\<close>

theorem streamed_text_is_decoding:
  "case generate (watched env) prompt go (w, no_trace) of
     (Inl _, _) \<Rightarrow> True
   | (Inr stats, (w', t)) \<Rightarrow>
       length (tr_tokens t) = gs_generated_tokens stats \<and> gs_generated_tokens stats \<le> go_max_tokens go \<and>
       set (tr_tokens t) \<inter> set (ge_stop_ids env) = {} \<and>
       (if gs_finish stats = Cancelled then True else ge_decode env (tr_tokens t) = Inr (tr_text t))"
  using watcher.generate_seen [of "(w, no_trace)" env go prompt]
  by (auto simp: watcher.request_seen_def watcher.outcome_def watcher.answered_def no_trace_parts recorders_keep
      split: prod.splits sum.splits)

text \<open>C22: The owner of a request is told its phases in order. First comes \<open>Prepare\<close>, and it may be all: when that fails, the request is
  refused or cancelled before it has a session, or no session can be had. Otherwise the prefill follows, then decoding, and in the end
  exactly one \<open>Finished\<close>, on every error and cancellation as well. A request that ends on its own has announced the
  prefill of exactly the tokens it consumed, one switch to decoding and the end.\<close>

theorem owner_phases_balanced:
  "case generate_owned (told owner) (watched env) prompt go (w, no_trace) of
     (r, (w', t)) \<Rightarrow>
       (tr_phases t = [Prepare] \<or> (\<exists>n k. tr_phases t = Prepare # Prefill n # replicate k Decode @ [Finished])) \<and>
       (case r of
          Inl _ \<Rightarrow> True
        | Inr stats \<Rightarrow>
            if gs_finish stats = Cancelled then True
            else tr_phases t = [Prepare, Prefill (gs_prefill_tokens stats), Decode, Finished])"
proof -
  let ?ok = "\<lambda>r t. (tr_phases t = [Prepare] \<or> (\<exists>n k. tr_phases t = Prepare # Prefill n # replicate k Decode @ [Finished])) \<and>
      (case r of Inl (_ :: string) \<Rightarrow> True
       | Inr stats \<Rightarrow> gs_finish stats = Cancelled \<or> tr_phases t = [Prepare, Prefill (gs_prefill_tokens stats), Decode, Finished])"
  obtain q w1 where prepare: "owner Prepare w = (q, w1)" by (cases "owner Prepare w")
  have request: "?ok r (snd (fst s))"
    if "generate (owned_env (told owner) (watched env)) prompt go ((w1, no_trace\<lparr>tr_phases := [Prepare]\<rparr>), changed) = (r, s)"
    for changed r s
    using owner.generate_seen [of "((w1, no_trace\<lparr>tr_phases := [Prepare]\<rparr>), changed)" owner env go prompt] that
    by (auto simp: owner.request_seen_def owner.outcome_def owner.answered_def owner.phases_closed_def owner.phases_seen_def
        no_trace_parts recorders_keep split: prod.splits sum.splits)
  obtain r v t where run: "generate_owned (told owner) (watched env) prompt go (w, no_trace) = (r, (v, t))" by (metis prod.exhaust)
  have "?ok r t"
    using run prepare
    by (auto simp: generate_owned_def m_bind_def told_def note_capacity_def ensure_def no_trace_parts dest!: request split: prod.splits sum.splits if_splits)
  then show ?thesis using run by (auto split: sum.splits)
qed

end
