(* ===== verification/Generation_Samples.thy ===== *)
theory Generation_Samples
  imports Sampling_Samples Generation_Properties
begin

text \<open>
  A small engine whose session is its frontier, and requests over it evaluated.
\<close>

definition demo_loop :: "nat loop_env" where
  "demo_loop =
     \<lparr>le_action = (\<lambda>a s. case a of
         Consume tokens mode draw history \<Rightarrow>
           (Inr (Consumed (s + length tokens) 1 (if draw then Some 5 else None)), s + length tokens)
       | SampleCurrent history \<Rightarrow> (Inr (Sampled 5), s)),
      le_on_sample = (\<lambda>s. s), le_emit = (\<lambda>t s. (Inr (), s)), le_cancelled = (\<lambda>s. (False, s))\<rparr>"

definition demo_request :: generation_options where
  "demo_request = \<lparr>go_max_tokens = 2, go_max_context = 10, go_decode_mode = Unbiased, go_sampling = demo_greedy, go_seed = 0\<rparr>"

theorem decode_loop_ends_witness:
  "decode_loop 2 demo_loop [9] demo_request (initial_stats 3) [1, 2, 3] (Some 5) 3 =
   decode_loop (2 + 7) demo_loop [9] demo_request (initial_stats 3) [1, 2, 3] (Some 5) 3"
  by (rule decode_loop_ends) (simp_all add: demo_request_def initial_stats_def)

text \<open>The decoder of this tokenizer withholds every other token until the end.\<close>

definition demo_gen :: "(nat, nat, nat, nat) gen_env" where
  "demo_gen =
     \<lparr>ge_stop_ids = [9], ge_sampling = demo_env, ge_context_limit = (\<lambda>_. 10), ge_prefill_width = (\<lambda>_. 2),
      ge_prefill_ready = (\<lambda>_. True), ge_capacity = (\<lambda>_. 0), ge_cancelled = (\<lambda>w. (False, w)),
      ge_boundary = m_return False, ge_phase = Some (\<lambda>p w. (Inr (), w + 1)),
      ge_on_text = (\<lambda>x. m_return ()), ge_decoder = (\<lambda>n w. (Inr (if even w then Some [n] else None), w + 1)),
      ge_decode = Inr, ge_start_session = m_return 0, ge_session_frontier = Inr,
      ge_consume = (\<lambda>tokens mode session history draw w.
        (Inr (Some \<lparr>out_frontier = session + length tokens, out_changed_routes = 1,
            out_selected = if draw then Some (length history) else None\<rparr>), session + length tokens, False, w)),
      ge_sample_committed = (\<lambda>session history. m_return 5),
      ge_memory = False, ge_best_match = (\<lambda>prompt w. (None, w)), ge_restore = (\<lambda>n. m_return n),
      ge_offer_prompt = (\<lambda>_ _. m_return True), ge_offer_generated = (\<lambda>_ _. m_return True),
      ge_disk = False, ge_disk_full = False, ge_stride = 512, ge_write_depth = 1,
      ge_has_match_beyond = (\<lambda>_ _. m_return False), ge_load_match = (\<lambda>_. m_return None), ge_save = (\<lambda>_. m_return False)\<rparr>"

lemma demo_request_seen:
  "generate (watched demo_gen) [1, 2, 3] demo_request (0, no_trace) =
     (Inr \<lparr>gs_prompt_consumed = 3, gs_prefill_tokens = 3, gs_generated_tokens = 2, gs_frontier = 4, gs_changed_routes = 3,
        gs_finish = MaxTokens, gs_prompt_cache = default_cache_stats\<rparr>,
      (5, \<lparr>tr_tokens = [3, 4], tr_text = [3, 4], tr_phases = [Prefill 3, Decode, Finished]\<rparr>))"
proof -
  have valid: "options_validate (ge_sampling (watched demo_gen)) (go_sampling demo_request) = Inr ()"
    using demo_greedy_valid by (simp add: watched_def lift_env_def demo_gen_def demo_request_def)
  show ?thesis unfolding generate_def valid m_bind_def m_simps(2) by code_simp
qed

end
