(* ===== verification/Prefill_Phase.thy ===== *)
theory Prefill_Phase
  imports Adaptive_Controller Generation
begin

text \<open>
  The prefill scratch (\<open>Prefill::replace_workspace_without_overlap\<close> of \<open>src/engine/prefill.rs\<close>), the request phases that trade
  expert slots for wide scratch (\<open>PhasedPrefill\<close> of \<open>src/generation/request_resources.rs\<close>) and the owner of a request in
  \<open>src/server.rs\<close>, over the engine and the controller. The sizes the scratch buffers request are a parameter, as are
  the clock and the sampled observation; a transition makes several of these calls, and call \<open>n\<close> uses the \<open>n\<close>th environment.
\<close>

section \<open>Scratch\<close>

record scratch =
  sc_rows :: nat
  sc_bytes :: "nat option"
  sc_in_progress :: bool

definition scratch_requested_bytes :: "scratch \<Rightarrow> nat" where
  "scratch_requested_bytes p = (case sc_bytes p of None \<Rightarrow> 0 | Some n \<Rightarrow> n)"

definition scratch_new :: "(nat \<Rightarrow> nat result) \<Rightarrow> nat \<Rightarrow> nat \<Rightarrow> nat result" where
  "scratch_new requests max_context rows =
     bindr (requests rows) (\<lambda>requested.
     bindr (native_prefill_workspace_bytes_for_capacity max_context rows) (\<lambda>accounted.
     ensure (requested = accounted) ''prefill workspace requested bytes differ from what admission accounts for''
       (Inr requested)))"

definition replace_scratch ::
    "(nat \<Rightarrow> nat result) \<Rightarrow> nat \<Rightarrow> nat \<Rightarrow> nat \<Rightarrow> (scratch, nat \<times> nat) stateful" where
  "replace_scratch requests max_context rows budget =
     m_bind (m_lift (validate_capacity rows)) (\<lambda>_.
     m_bind (m_get (\<lambda>p. ensure (\<not> sc_in_progress p) ''prefill workspace is in progress'' (Inr (scratch_requested_bytes p)))) (\<lambda>old.
     m_bind (m_lift (native_prefill_workspace_bytes_for_capacity max_context rows)) (\<lambda>new.
     m_bind (m_lift (ensure (new \<le> budget) ''phase workspace exceeds its complete serving budget'' (Inr ()))) (\<lambda>_.
     m_bind (m_get (\<lambda>p. Inr (rows = sc_rows p \<and> old \<noteq> 0))) (\<lambda>kept.
     if kept then m_return (old, old)
     else
       m_bind (m_modify (\<lambda>p. p\<lparr>sc_bytes := None\<rparr>)) (\<lambda>_.
       m_bind (m_lift (scratch_new requests max_context rows)) (\<lambda>bytes.
       m_bind (m_modify (\<lambda>p. p\<lparr>sc_bytes := Some bytes, sc_rows := rows\<rparr>)) (\<lambda>_.
       m_return (old, new)))))))))"

section \<open>The engine the controller sees\<close>

type_synonym 'r host = "'r engine \<times> scratch"

definition on_engine :: "('r engine, 'a) stateful \<Rightarrow> ('r host, 'a) stateful" where
  "on_engine m = (\<lambda>(e, p). case m e of (r, e') \<Rightarrow> (r, (e', p)))"

definition host_ops :: "'r engine_env \<Rightarrow> 'r host engine_ops" where
  "host_ops env =
     \<lparr>op_capacity = (\<lambda>(e, p). en_capacity e), op_ready = (\<lambda>(e, p). sc_bytes p \<noteq> None),
      op_recover = (\<lambda>target bytes. on_engine (recover_expert_capacity env target bytes)),
      op_shrink = (\<lambda>target. on_engine (shrink_expert_capacity env target))\<rparr>"

section \<open>Phased prefill\<close>

definition ORDINARY_ROWS :: nat where "ORDINARY_ROWS = 2048"

definition WIDE_ROWS :: nat where "WIDE_ROWS = 4096"

record phased_prefill =
  ph_ordinary :: capacity_control_budget
  ph_wide :: capacity_control_budget
  ph_context :: nat
  ph_active :: bool

definition phased_new ::
    "capacity_control_budget \<Rightarrow> package_footprint \<Rightarrow> nat \<Rightarrow> nat \<Rightarrow> nat \<Rightarrow> phased_prefill result" where
  "phased_new budget fp context retained disk_io =
     bindr (validate_serving budget fp context ORDINARY_ROWS retained disk_io) (\<lambda>_.
     bindr (with_prefill_width budget fp context ORDINARY_ROWS WIDE_ROWS) (\<lambda>wide.
     Inr \<lparr>ph_ordinary = budget, ph_wide = wide, ph_context = context, ph_active = False\<rparr>))"

record 'r owner =
  ow_phased :: phased_prefill
  ow_controller :: controller
  ow_host :: "'r host"

record 'r phase_env =
  pe_engine :: "'r engine_env"
  pe_max_context :: nat
  pe_requests :: "nat \<Rightarrow> nat result"
  pe_now :: duration
  pe_sampled :: observation

type_synonym 'r calls = "nat \<Rightarrow> 'r phase_env"

definition on_host :: "('r host, 'a) stateful \<Rightarrow> ('r owner, 'a) stateful" where
  "on_host m s = (case m (ow_host s) of (r, h) \<Rightarrow> (r, s\<lparr>ow_host := h\<rparr>))"

definition on_scratch :: "(scratch, 'a) stateful \<Rightarrow> ('r owner, 'a) stateful" where
  "on_scratch m = on_host (\<lambda>(e, p). case m p of (r, p') \<Rightarrow> (r, (e, p')))"

definition on_controller :: "(controller \<times> 'r host, 'a) stateful \<Rightarrow> ('r owner, 'a) stateful" where
  "on_controller m s =
     (case m (ow_controller s, ow_host s) of (r, (c, h)) \<Rightarrow> (r, s\<lparr>ow_controller := c, ow_host := h\<rparr>))"

definition owner_capacity :: "'r owner \<Rightarrow> nat" where
  "owner_capacity s = en_capacity (fst (ow_host s))"

definition replace_prefill :: "'r phase_env \<Rightarrow> nat \<Rightarrow> nat \<Rightarrow> ('r owner, nat \<times> nat) stateful" where
  "replace_prefill env rows budget = on_scratch (replace_scratch (pe_requests env) (pe_max_context env) rows budget)"

definition sync_planned :: "'r phase_env \<Rightarrow> ('r owner, unit) stateful" where
  "sync_planned env s =
     (case controller_sync (host_ops (pe_engine env)) (pe_now env) (ow_host s) (ow_controller s) of
        Inl m \<Rightarrow> (Inl m, s)
      | Inr c \<Rightarrow> (Inr (), s\<lparr>ow_controller := c\<rparr>))"

definition set_active :: "bool \<Rightarrow> ('r owner, unit) stateful" where
  "set_active b = m_modify (\<lambda>s. s\<lparr>ow_phased := (ow_phased s)\<lparr>ph_active := b\<rparr>\<rparr>)"

definition finish_phase :: "'r calls \<Rightarrow> ('r owner, unit) stateful" where
  "finish_phase env =
     m_bind (m_get (\<lambda>s. Inr (ph_active (ow_phased s)))) (\<lambda>active.
     if \<not> active then m_return ()
     else
       m_bind (m_get (\<lambda>s. workspace_budget_after_release (ph_ordinary (ow_phased s)) (ph_context (ow_phased s))
         ORDINARY_ROWS (owner_capacity s))) (\<lambda>bytes.
       m_bind (replace_prefill (env 6) ORDINARY_ROWS bytes) (\<lambda>_.
       m_bind (on_controller (check_boundary (host_ops (pe_engine (env 7))) boundary.CompletedOperation
         (pe_now (env 7)) (pe_sampled (env 7)))) (\<lambda>_.
       m_bind (on_controller (controller_finish_workspace_phase (host_ops (pe_engine (env 8))) (pe_now (env 8)))) (\<lambda>_.
       set_active False)))))"

text \<open>Room for the wide scratch: whole chunks are released, then the slots that still fit are brought back.\<close>

definition yield_slots :: "'r calls \<Rightarrow> nat \<Rightarrow> ('r owner, unit) stateful" where
  "yield_slots env target =
     (let release = target div 16 * 16 in
      m_bind (on_host (on_engine (shrink_expert_capacity (pe_engine (env 0)) release))) (\<lambda>_.
      m_bind (sync_planned (env 1)) (\<lambda>_.
      if release < target then
        m_bind (m_get (\<lambda>s. preparation_budget_bytes (ph_wide (ow_phased s)) release target)) (\<lambda>bytes.
        m_bind (on_host (on_engine (recover_expert_capacity (pe_engine (env 2)) target bytes))) (\<lambda>_.
        sync_planned (env 3)))
      else m_return ())))"

definition enter_wide :: "'r calls \<Rightarrow> nat \<Rightarrow> nat \<Rightarrow> ('r owner, unit) stateful" where
  "enter_wide env previous target =
     m_bind (if target < previous then yield_slots env target else m_return ()) (\<lambda>_.
     m_bind (m_get (\<lambda>s. workspace_budget_after_release (ph_wide (ow_phased s)) (ph_context (ow_phased s))
       WIDE_ROWS (owner_capacity s))) (\<lambda>bytes.
     m_bind (replace_prefill (env 4) WIDE_ROWS bytes) (\<lambda>_. m_return ())))"

definition wide_failed :: "'r calls \<Rightarrow> string \<Rightarrow> ('r owner, unit) stateful" where
  "wide_failed env e =
     m_bind (m_try (sync_planned (env 5))) (\<lambda>synced.
     m_bind (m_try (finish_phase env)) (\<lambda>cleaned.
     m_lift (case (synced, cleaned) of
        (Inr _, Inr _) \<Rightarrow> Inr ()
      | (Inl s, Inr _) \<Rightarrow> Inl (''phase synchronization also failed: '' @ s @ '': '' @ e)
      | (Inr _, Inl c) \<Rightarrow> Inl (''ordinary scratch repair also failed: '' @ c @ '': '' @ e)
      | (Inl s, Inl c) \<Rightarrow>
          Inl (''phase synchronization and scratch repair also failed: '' @ s @ ''; '' @ c @ '': '' @ e))))"

definition begin_workspace_phase :: "'r phase_env \<Rightarrow> nat \<Rightarrow> ('r owner, bool) stateful" where
  "begin_workspace_phase env target s =
     (case controller_try_begin_workspace_phase (host_ops (pe_engine env)) (ow_host s) target (ow_controller s) of
        Inl m \<Rightarrow> (Inl m, s)
      | Inr (begun, c) \<Rightarrow> (Inr begun, s\<lparr>ow_controller := c\<rparr>))"

definition begin_wide :: "'r calls \<Rightarrow> ('r owner, unit) stateful" where
  "begin_wide env =
     m_bind (m_get (\<lambda>s.
       ensure (\<not> ph_active (ow_phased s) \<and> sc_rows (snd (ow_host s)) = ORDINARY_ROWS \<and> sc_bytes (snd (ow_host s)) \<noteq> None)
         ''previous workspace phase was not finalized'' (Inr (owner_capacity s)))) (\<lambda>previous.
     m_bind (m_get (\<lambda>s. Inr (min previous (b_maximum_capacity (ph_wide (ow_phased s)))))) (\<lambda>target.
     m_bind (begin_workspace_phase (env 0) target) (\<lambda>begun.
     if \<not> begun then m_return ()
     else
       m_bind (set_active True) (\<lambda>_.
       m_bind (m_try (enter_wide env previous target)) (\<lambda>entered.
       case entered of Inl e \<Rightarrow> wide_failed env e | Inr _ \<Rightarrow> m_return ())))))"

definition transition :: "'r calls \<Rightarrow> request_phase \<Rightarrow> ('r owner, unit) stateful" where
  "transition env p =
     (case p of
        Prepare \<Rightarrow> finish_phase env
      | Decode \<Rightarrow> finish_phase env
      | Finished \<Rightarrow> finish_phase env
      | Prefill new_tokens \<Rightarrow> if ORDINARY_ROWS < new_tokens then begin_wide env else m_return ()
      | request_phase.CompletedOperation \<Rightarrow> m_return ())"

section \<open>The owner of a request\<close>

definition phased_prefill_enabled :: "bool \<Rightarrow> bool \<Rightarrow> nat \<Rightarrow> nat \<Rightarrow> bool" where
  "phased_prefill_enabled adaptive admitted rows context \<longleftrightarrow> adaptive \<and> admitted \<and> rows = 2048 \<and> 4096 \<le> context"

definition prefill_phase_after_quote :: "phased_prefill result \<Rightarrow> phased_prefill option" where
  "prefill_phase_after_quote quote = (case quote of Inr phase \<Rightarrow> Some phase | Inl _ \<Rightarrow> None)"

text \<open>The closure \<open>owner\<close> of \<open>generate_request\<close> with a controller and a phased prefill: what it answers is whether the pool changed.\<close>

definition owner_event :: "'r calls \<Rightarrow> request_phase \<Rightarrow> ('r owner, bool) stateful" where
  "owner_event env event =
     m_bind (m_get (\<lambda>s. Inr (owner_capacity s))) (\<lambda>previous.
     m_bind (transition env event) (\<lambda>_.
     if event = request_phase.CompletedOperation
     then on_controller (check_boundary (host_ops (pe_engine (env 9))) boundary.CompletedOperation (pe_now (env 9)) (pe_sampled (env 9)))
     else m_get (\<lambda>s. Inr (previous \<noteq> owner_capacity s))))"

definition begin_owned_request :: "'r phase_env \<Rightarrow> 'r owner \<Rightarrow> 'r owner" where
  "begin_owned_request env s = s\<lparr>ow_controller := controller_begin_request (pe_now env) (ow_controller s)\<rparr>"

definition end_owned_request :: "'r phase_env \<Rightarrow> bool \<Rightarrow> 'r owner \<Rightarrow> 'r owner" where
  "end_owned_request env completed s = s\<lparr>ow_controller := controller_end_request (pe_now env) completed (ow_controller s)\<rparr>"

end
