(* ===== verification/Prefill_Phase_Properties.thy ===== *)
theory Prefill_Phase_Properties
  imports Prefill_Phase Adaptive_Serving Rust_Triples
begin

text \<open>
  The phases of a request over the controller and the engine: the scratch is never wide beside more experts than the wide plan
  funds, whatever fails, and outside a phase the ordinary scratch is in place. The locale \<open>framed_engine\<close> adds to what the
  controller relies on that a change of capacity leaves the rest of the host alone.
\<close>

section \<open>A controller that leaves the rest of the host alone\<close>

lemma release_phase:
  "release_capacity ops t act now (c, e) = (r, (c', e')) \<Longrightarrow> workspace_phase (c_policy c') = workspace_phase (c_policy c)"
  by (auto simp: release_capacity_def Let_def pressure_interrupted_work_def split: prod.splits sum.splits action.splits)

lemma recover_phase:
  "recover_capacity ops cap t now (c, e) = (r, (c', e')) \<Longrightarrow> workspace_phase (c_policy c') = workspace_phase (c_policy c)"
  by (auto simp: recover_capacity_def split: prod.splits sum.splits)

lemma apply_action_phase:
  "apply_action ops cap act now (c, e) = (r, (c', e')) \<Longrightarrow> workspace_phase (c_policy c') = workspace_phase (c_policy c)"
  by (cases act) (auto simp: apply_action_def dest: release_phase recover_phase)

locale framed_engine = capacity_engine engine_inv ops for engine_inv :: "'e \<Rightarrow> bool" and ops :: "'e engine_ops" +
  fixes frame :: "'e \<Rightarrow> 'f"
  assumes recover_frame: "frame (snd (op_recover ops t b e)) = frame e"
    and shrink_frame: "frame (snd (op_shrink ops t e)) = frame e"
begin

lemma prepared_frame: "prepared_recovery ops b cur t e = (r, e') \<Longrightarrow> frame e' = frame e"
  by (cases "preparation_budget_bytes b cur t") (auto simp: prepared_recovery_def m_bind_def, metis recover_frame snd_conv)

lemma action_frame: "apply_action ops cap act now (c, e) = (r, (c', e')) \<Longrightarrow> frame e' = frame e"
proof -
  have release: "release_capacity ops t a now (c, e) = (r, (c', e')) \<Longrightarrow> frame e' = frame e" for t a
    using shrink_frame [of t e] by (auto simp: release_capacity_def Let_def split: prod.splits sum.splits)
  have recover: "recover_capacity ops cap t now (c, e) = (r, (c', e')) \<Longrightarrow> frame e' = frame e" for t
    by (auto simp: recover_capacity_def dest: prepared_frame split: prod.splits sum.splits)
  show "apply_action ops cap act now (c, e) = (r, (c', e')) \<Longrightarrow> frame e' = frame e"
    by (cases act) (auto simp: apply_action_def dest: release recover)
qed

lemma boundary_keeps:
  assumes "engine_inv e" "controller_wf (op_capacity ops e) c" "check_boundary ops b now obs (c, e) = (r, (c', e'))"
  shows "engine_inv e' \<and> controller_wf (op_capacity ops e') c' \<and> frame e' = frame e \<and> c_budget c' = c_budget c \<and>
    workspace_phase (c_policy c') = workspace_phase (c_policy c) \<and>
    (workspace_phase (c_policy c) \<noteq> None \<longrightarrow> op_capacity ops e' \<le> op_capacity ops e)"
proof -
  define o1 where "o1 = (if sample_due now (c_policy c) then obs else \<lparr> obs_pressure = None, obs_counters = None \<rparr>)"
  have run: "apply_observation ops b now o1 (c, e) = (r, (c', e'))"
    using assms(3) by (simp add: check_boundary_def o1_def)
  obtain act p where a: "chosen_action now (op_capacity ops e) b o1 (c_policy c) = (act, p)" by fastforce
  note k = chosen_action_ok [OF assms(2) a]
  have act: "apply_action ops (op_capacity ops e) act now (c\<lparr>c_policy := p\<rparr>, e) = (r, (c', e'))"
    using run by (simp add: apply_observation_eq [OF assms(2)] a)
  have shrinks: "op_capacity ops e' \<le> op_capacity ops e" if "workspace_phase (c_policy c) \<noteq> None"
  proof (rule ccontr)
    assume "\<not> ?thesis"
    then have "op_capacity ops e < op_capacity ops e'" by simp
    then obtain t where "act = Recover t" using action_grows_Recover [OF assms(1) act] by blast
    with k(1,3) that show False by (simp add: action_ok_def)
  qed
  show ?thesis
    using apply_observation_wf [OF assms(1,2) run] action_frame [OF act] apply_observation_evolves [OF run]
      apply_action_phase [OF act] k(3) shrinks
    by (auto simp: evolves_def)
qed

lemma finish_keeps:
  assumes "engine_inv e" "controller_wf (op_capacity ops e) c" "controller_finish_workspace_phase ops now (c, e) = (r, (c', e'))"
  shows "engine_inv e' \<and> controller_wf (op_capacity ops e') c' \<and> frame e' = frame e \<and> c_budget c' = c_budget c \<and>
    (case r of Inl _ \<Rightarrow> c' = c \<and> e' = e | Inr _ \<Rightarrow> workspace_phase (c_policy c') = None)"
proof -
  have same: "frame e' = frame e \<and> (case r of Inl _ \<Rightarrow> c' = c \<and> e' = e | Inr _ \<Rightarrow> workspace_phase (c_policy c') = None)"
  proof (cases "workspace_phase (c_policy c)")
    case None
    with assms(3) show ?thesis by (auto simp: controller_finish_workspace_phase_def)
  next
    case (Some phase)
    show ?thesis
    proof (cases "op_ready ops e \<and> (\<exists>d. controller_sync ops now e c = Inr d)")
      case False
      with assms(3) Some show ?thesis
        by (cases "controller_sync ops now e c") (auto simp: controller_finish_workspace_phase_def split: if_splits)
    next
      case True
      then obtain d where d: "op_ready ops e" "controller_sync ops now e c = Inr d" by blast
      have w: "controller_wf (op_capacity ops e) d" "workspace_phase (c_policy d) = Some phase"
        using controller_sync_wf [OF _ _ d(2)] assms(2) Some by (simp_all add: controller_wf_def)
      obtain q f x where s: "(if workspace_restoration_allowed now (c_release_epoch d) (c_policy d)
          then restore_planned ops now (ordinary_capacity phase) (d, e) else (Inr False, d, e)) = (q, f, x)"
        by (metis prod_cases3)
      have q: "q \<in> {Inr True, Inr False}" "frame x = frame e"
        using s restore_planned_wf [OF assms(1) w]
        by (auto simp: restore_planned_def dest: prepared_frame split: if_splits prod.splits sum.splits)
      then obtain changed where q': "q = Inr changed" by auto
      from assms(3) [unfolded controller_finish_workspace_phase_def fst_conv snd_conv] Some d s q'
      have "c' = f\<lparr>c_policy := finish_workspace_phase (c_policy f)\<rparr>" "e' = x" "r = Inr changed" by simp_all
      with q(2) show ?thesis by simp
    qed
  qed
  with finish_workspace_phase_controller_wf [OF assms] finish_phase_evolves [OF assms(3)] show ?thesis
    by (simp add: evolves_def)
qed

end

interpretation host: framed_engine "\<lambda>h. engine_wf content (fst h)" "host_ops env" snd for content env
proof unfold_locales
  show "engine_wf content (fst h') \<and> op_capacity (host_ops env) h' = t
      \<and> er_old_capacity r = op_capacity (host_ops env) h \<and> er_new_capacity r = t
      \<and> op_capacity (host_ops env) h \<le> t
      \<and> op_ready (host_ops env) h' = op_ready (host_ops env) h"
    if "engine_wf content (fst h)" "op_recover (host_ops env) t b h = (Inr r, h')" for h t b r h'
    using that recover_expert_capacity_Inr(1-6) [of content "fst h" env t b r]
    by (auto simp: host_ops_def on_engine_def split: prod.splits)
  show "h' = h" if "op_recover (host_ops env) t b h = (Inl m, h')" for t b h m h'
    using that recover_expert_capacity_Inl by (fastforce simp: host_ops_def on_engine_def split: prod.splits)
  show "engine_wf content (fst h') \<and> op_capacity (host_ops env) h' = t
      \<and> cr_old_capacity q = op_capacity (host_ops env) h \<and> cr_new_capacity q = t
      \<and> t \<le> op_capacity (host_ops env) h
      \<and> op_ready (host_ops env) h' = op_ready (host_ops env) h"
    if "engine_wf content (fst h)" "op_shrink (host_ops env) t h = (Inr q, h')" for h t q h'
    using that shrink_expert_capacity_Inr(1-6) [of content "fst h" env t q]
    by (auto simp: host_ops_def on_engine_def split: prod.splits)
  show "h' = h" if "op_shrink (host_ops env) t h = (Inl m, h')" for t h m h'
    using that shrink_expert_capacity_Inl by (fastforce simp: host_ops_def on_engine_def split: prod.splits)
  show "snd (snd (op_recover (host_ops env) t b h)) = snd h" "snd (snd (op_shrink (host_ops env) t h)) = snd h" for t b h
    by (cases h; simp add: host_ops_def on_engine_def split: prod.splits)+
qed

section \<open>What holds between the calls of an owner\<close>

definition plans_agree :: "phased_prefill \<Rightarrow> bool" where
  "plans_agree ph \<longleftrightarrow> budget_wf (ph_ordinary ph) \<and> budget_wf (ph_wide ph) \<and>
     b_effective_budget_bytes (ph_wide ph) = b_effective_budget_bytes (ph_ordinary ph)"

definition owner_base :: "(nat \<Rightarrow> nat \<Rightarrow> 'r) \<Rightarrow> 'r owner \<Rightarrow> bool" where
  "owner_base content s \<longleftrightarrow>
     plans_agree (ow_phased s) \<and> engine_wf content (fst (ow_host s)) \<and>
     controller_wf (owner_capacity s) (ow_controller s) \<and> c_budget (ow_controller s) = ph_ordinary (ow_phased s) \<and>
     sc_rows (snd (ow_host s)) \<in> {ORDINARY_ROWS, WIDE_ROWS} \<and>
     (sc_rows (snd (ow_host s)) = WIDE_ROWS \<longrightarrow> owner_capacity s \<le> b_maximum_capacity (ph_wide (ow_phased s)))"

definition ordinary_ready :: "'r owner \<Rightarrow> bool" where
  "ordinary_ready s \<longleftrightarrow> sc_rows (snd (ow_host s)) = ORDINARY_ROWS \<and> sc_bytes (snd (ow_host s)) \<noteq> None"

abbreviation open_phase where
  "open_phase (s :: 'r owner) \<equiv> workspace_phase (c_policy (ow_controller s))"

definition phase_open :: "(nat \<Rightarrow> nat \<Rightarrow> 'r) \<Rightarrow> 'r owner \<Rightarrow> bool" where
  "phase_open content s \<longleftrightarrow> owner_base content s \<and> ph_active (ow_phased s) \<and> open_phase s \<noteq> None"

definition phase_closed :: "(nat \<Rightarrow> nat \<Rightarrow> 'r) \<Rightarrow> 'r owner \<Rightarrow> bool" where
  "phase_closed content s \<longleftrightarrow> owner_base content s \<and> \<not> ph_active (ow_phased s) \<and> open_phase s = None \<and> ordinary_ready s"

definition owner_wf :: "(nat \<Rightarrow> nat \<Rightarrow> 'r) \<Rightarrow> 'r owner \<Rightarrow> bool" where
  "owner_wf content s \<longleftrightarrow> phase_open content s \<or> phase_closed content s"

lemma plans_agree_active [simp]: "plans_agree (ph\<lparr>ph_active := b\<rparr>) = plans_agree ph"
  by (simp add: plans_agree_def)

lemma rows_differ [simp]: "ORDINARY_ROWS \<noteq> WIDE_ROWS" "WIDE_ROWS \<noteq> ORDINARY_ROWS"
  by (simp_all add: ORDINARY_ROWS_def WIDE_ROWS_def)

lemma replace_scratch_result:
  assumes "replace_scratch requests ctx rows budget p = (r, p')"
  shows "case r of Inl _ \<Rightarrow> sc_rows p' = sc_rows p | Inr _ \<Rightarrow> sc_rows p' = rows \<and> sc_bytes p' \<noteq> None"
  using assms
  by (auto simp: replace_scratch_def m_bind_def ensure_def scratch_requested_bytes_def split: if_splits option.splits sum.splits)

lemma replace_prefill_triple:
  "triple (\<lambda>s. phase_open content s \<and> rows \<in> {ORDINARY_ROWS, WIDE_ROWS} \<and>
       (rows = WIDE_ROWS \<longrightarrow> owner_capacity s \<le> b_maximum_capacity (ph_wide (ow_phased s))))
     (replace_prefill env rows budget)
     (\<lambda>_ s. phase_open content s \<and> sc_rows (snd (ow_host s)) = rows \<and> sc_bytes (snd (ow_host s)) \<noteq> None) (\<lambda>_. phase_open content)"
  by (rule tripleI)
    (auto simp: replace_prefill_def on_scratch_def on_host_def phase_open_def owner_base_def owner_capacity_def
      split: prod.splits dest!: replace_scratch_result)

lemma host_capacity [simp]: "op_capacity (host_ops env) h = en_capacity (fst h)"
  by (cases h) (simp add: host_ops_def)

lemma sync_planned_cases:
  assumes "policy_wf (c_policy (ow_controller s))"
    and "maximum_capacity (c_policy (ow_controller s)) = b_maximum_capacity (c_budget (ow_controller s))"
    and "sync_planned env s = (r, s')"
  shows "(\<exists>m. r = Inl m \<and> s' = s) \<or>
    (\<exists>c. r = Inr () \<and> s' = s\<lparr>ow_controller := c\<rparr> \<and> controller_wf (owner_capacity s) c \<and> c_budget c = c_budget (ow_controller s) \<and>
       workspace_phase (c_policy c) = open_phase s)"
proof (cases "controller_sync (host_ops (pe_engine env)) (pe_now env) (ow_host s) (ow_controller s)")
  case (Inr c)
  with controller_sync_wf [OF assms(1,2) Inr] controller_sync_evolves [OF Inr] assms(3) show ?thesis
    by (auto simp: sync_planned_def owner_capacity_def evolves_def)
qed (use assms(3) in \<open>auto simp: sync_planned_def\<close>)

lemma phase_open_policy:
  assumes "phase_open content s"
  shows "policy_wf (c_policy (ow_controller s))" "maximum_capacity (c_policy (ow_controller s)) = b_maximum_capacity (c_budget (ow_controller s))"
  using assms by (simp_all add: phase_open_def owner_base_def controller_wf_def)

lemma sync_open:
  "triple (\<lambda>s. phase_open content s \<and> ow_host s = h) (sync_planned env) (\<lambda>_ s. phase_open content s \<and> ow_host s = h)
     (\<lambda>_ s. phase_open content s \<and> ow_host s = h)"
proof -
  have "phase_open content s' \<and> ow_host s' = h" if "phase_open content s \<and> ow_host s = h" "sync_planned env s = (r, s')" for s r s'
    using sync_planned_cases [OF phase_open_policy [of content s] that(2)] that(1)
    by (auto simp: phase_open_def owner_base_def owner_capacity_def)
  then show ?thesis by (intro tripleI) blast+
qed

text \<open>A planned change of capacity and its report to the controller.\<close>

definition resizing :: "(nat \<Rightarrow> nat \<Rightarrow> 'r) \<Rightarrow> nat \<Rightarrow> 'r owner \<Rightarrow> bool" where
  "resizing content previous s \<longleftrightarrow>
     phase_open content s \<and> sc_rows (snd (ow_host s)) = ORDINARY_ROWS \<and>
     (\<exists>phase. open_phase s = Some phase \<and> ordinary_capacity phase = previous)"

lemma resize_triple:
  assumes ok: "\<And>e r e'. engine_wf content e \<Longrightarrow> m e = (Inr r, e') \<Longrightarrow> engine_wf content e' \<and> en_capacity e' = t"
    and err: "\<And>e x e'. m e = (Inl x, e') \<Longrightarrow> e' = e" and t: "MIN_CAPACITY \<le> t" "t \<le> previous"
  shows "triple (resizing content previous) (m_bind (on_host (on_engine m)) (\<lambda>_. sync_planned env))
    (\<lambda>_ s. resizing content previous s \<and> owner_capacity s = t) (\<lambda>_. resizing content previous)"
proof -
  have "case m_bind (on_host (on_engine m)) (\<lambda>_. sync_planned env) s of
      (Inl _, s') \<Rightarrow> resizing content previous s' | (Inr _, s') \<Rightarrow> resizing content previous s' \<and> owner_capacity s' = t"
    if s: "resizing content previous s" for s
  proof -
    obtain e p where h: "ow_host s = (e, p)" by (cases "ow_host s")
    obtain q e' where m: "m e = (q, e')" by (cases "m e")
    have e: "engine_wf content e" using s h by (simp add: resizing_def phase_open_def owner_base_def)
    show ?thesis
    proof (cases q)
      case (Inl x)
      with m have "m e = (Inl x, e)" using err by blast
      then have "m_bind (on_host (on_engine m)) (\<lambda>_. sync_planned env) s = (Inl x, s)"
        using h by (cases s) (simp add: on_host_def on_engine_def m_bind_def)
      then show ?thesis using s by simp
    next
      case (Inr y)
      note e' = ok [OF e m [unfolded Inr]]
      let ?s = "s\<lparr>ow_host := (e', p)\<rparr>"
      obtain phase where ph: "open_phase s = Some phase" "ordinary_capacity phase = previous"
        using s by (auto simp: resizing_def)
      have w: "policy_wf (c_policy (ow_controller ?s))" "maximum_capacity (c_policy (ow_controller ?s)) = b_maximum_capacity (c_budget (ow_controller ?s))"
        using s phase_open_policy [of content s] by (simp_all add: resizing_def)
      obtain r s' where run: "sync_planned env ?s = (r, s')" by (cases "sync_planned env ?s")
      obtain p1 where "sync_planned_workspace_capacity (pe_now env) t (c_policy (ow_controller s)) = Inr p1"
        using sync_planned_accepts [OF ph(1) t(1)] t(2) ph(2) by blast
      then have "\<exists>c. controller_sync (host_ops (pe_engine env)) (pe_now env) (ow_host ?s) (ow_controller ?s) = Inr c"
        using e' by (simp add: controller_sync_def)
      then have "r = Inr ()" using run by (auto simp: sync_planned_def)
      with sync_planned_cases [OF w run] obtain c where c: "s' = ?s\<lparr>ow_controller := c\<rparr>" "controller_wf t c"
        "c_budget c = c_budget (ow_controller s)" "workspace_phase (c_policy c) = open_phase s"
        using e' by (auto simp: owner_capacity_def)
      have "m_bind (on_host (on_engine m)) (\<lambda>_. sync_planned env) s = (Inr (), s')"
        using h m Inr run \<open>r = Inr ()\<close> by (simp add: on_host_def on_engine_def m_bind_def)
      then show ?thesis
        using s c ph e' h by (auto simp: resizing_def phase_open_def owner_base_def owner_capacity_def)
    qed
  qed
  then show ?thesis by (simp add: triple_def)
qed

lemma shrink_sync:
  assumes "MIN_CAPACITY \<le> t" "t \<le> previous"
  shows "triple (resizing content previous) (m_bind (on_host (on_engine (shrink_expert_capacity env t))) (\<lambda>_. sync_planned env'))
    (\<lambda>_ s. resizing content previous s \<and> owner_capacity s = t) (\<lambda>_. resizing content previous)"
  by (rule resize_triple [OF _ _ assms])
    (use shrink_expert_capacity_Inr(1,2) shrink_expert_capacity_Inl in blast)+

lemma recover_sync:
  assumes "MIN_CAPACITY \<le> t" "t \<le> previous"
  shows "triple (resizing content previous) (m_bind (on_host (on_engine (recover_expert_capacity env t bytes))) (\<lambda>_. sync_planned env'))
    (\<lambda>_ s. resizing content previous s \<and> owner_capacity s = t) (\<lambda>_. resizing content previous)"
  by (rule resize_triple [OF _ _ assms])
    (use recover_expert_capacity_Inr(1,2) recover_expert_capacity_Inl in blast)+

lemma m_bind_assoc: "m_bind (m_bind m f) g = m_bind m (\<lambda>x. m_bind (f x) g)"
  by (auto simp: m_bind_def fun_eq_iff split: prod.splits sum.splits)

lemma yield_triple:
  assumes "MIN_CAPACITY \<le> target" "target \<le> previous"
  shows "triple (resizing content previous) (yield_slots env target)
    (\<lambda>_ s. resizing content previous s \<and> owner_capacity s = target) (\<lambda>_. resizing content previous)"
proof -
  let ?release = "target div 16 * 16"
  have floor: "?release \<le> target" by (rule div_times_less_eq_dividend)
  have "MIN_CAPACITY div 16 * 16 \<le> ?release" using assms(1) by (intro mult_le_mono1 div_le_mono)
  then have low: "MIN_CAPACITY \<le> ?release" by (simp add: MIN_CAPACITY_def)
  have regrown: "triple (\<lambda>s. resizing content previous s \<and> owner_capacity s = ?release)
      (if ?release < target
       then m_bind (m_get (\<lambda>s. preparation_budget_bytes (ph_wide (ow_phased s)) ?release target)) (\<lambda>bytes.
         m_bind (on_host (on_engine (recover_expert_capacity (pe_engine (env 2)) target bytes))) (\<lambda>_. sync_planned (env 3)))
       else m_return ())
      (\<lambda>_ s. resizing content previous s \<and> owner_capacity s = target) (\<lambda>_. resizing content previous)"
    using floor
    by (intro triple_if triple_get_bind triple_pre [OF recover_sync [OF assms]] triple_return) auto
  have "yield_slots env target =
      m_bind (m_bind (on_host (on_engine (shrink_expert_capacity (pe_engine (env 0)) ?release))) (\<lambda>_. sync_planned (env 1))) (\<lambda>_.
        if ?release < target
        then m_bind (m_get (\<lambda>s. preparation_budget_bytes (ph_wide (ow_phased s)) ?release target)) (\<lambda>bytes.
          m_bind (on_host (on_engine (recover_expert_capacity (pe_engine (env 2)) target bytes))) (\<lambda>_. sync_planned (env 3)))
        else m_return ())"
    by (simp add: yield_slots_def Let_def m_bind_assoc)
  moreover have "?release \<le> previous" using floor assms(2) by (rule le_trans)
  ultimately show ?thesis by (simp only: triple_bind [OF shrink_sync [OF low] regrown])
qed

section \<open>Every transition\<close>

lemma boundary_triple:
  "triple (\<lambda>s. phase_open content s \<and> ordinary_ready s)
     (on_controller (check_boundary (host_ops env) b now obs))
     (\<lambda>_ s. phase_open content s \<and> ordinary_ready s) (\<lambda>_ s. phase_open content s \<and> ordinary_ready s)"
proof -
  have "phase_open content s' \<and> ordinary_ready s'"
    if s: "phase_open content s \<and> ordinary_ready s" and run: "on_controller (check_boundary (host_ops env) b now obs) s = (r, s')" for s r s'
  proof -
    obtain c h where k: "check_boundary (host_ops env) b now obs (ow_controller s, ow_host s) = (r, (c, h))"
      "s' = s\<lparr>ow_controller := c, ow_host := h\<rparr>"
      using run by (auto simp: on_controller_def split: prod.splits)
    have "engine_wf content (fst (ow_host s))" "controller_wf (op_capacity (host_ops env) (ow_host s)) (ow_controller s)"
      using s by (simp_all add: phase_open_def owner_base_def owner_capacity_def)
    from host.boundary_keeps [OF this k(1)] s k(2) show ?thesis
      by (auto simp: phase_open_def owner_base_def owner_capacity_def ordinary_ready_def)
  qed
  then show ?thesis by (intro tripleI) blast+
qed

lemma finish_controller_triple:
  "triple (\<lambda>s. phase_open content s \<and> ordinary_ready s)
     (m_bind (on_controller (controller_finish_workspace_phase (host_ops env) now)) (\<lambda>_. set_active False))
     (\<lambda>_. phase_closed content) (\<lambda>_. phase_open content)"
proof -
  have "case m_bind (on_controller (controller_finish_workspace_phase (host_ops env) now)) (\<lambda>_. set_active False) s of
      (Inl _, s') \<Rightarrow> phase_open content s' | (Inr _, s') \<Rightarrow> phase_closed content s'"
    if s: "phase_open content s \<and> ordinary_ready s" for s
  proof -
    obtain r c h where k: "controller_finish_workspace_phase (host_ops env) now (ow_controller s, ow_host s) = (r, (c, h))"
      by (metis prod_cases3)
    have "engine_wf content (fst (ow_host s))" "controller_wf (op_capacity (host_ops env) (ow_host s)) (ow_controller s)"
      using s by (simp_all add: phase_open_def owner_base_def owner_capacity_def)
    from host.finish_keeps [OF this k] s k show ?thesis
      by (cases r) (auto simp: on_controller_def m_bind_def set_active_def phase_open_def phase_closed_def owner_base_def
          owner_capacity_def ordinary_ready_def)
  qed
  then show ?thesis by (simp add: triple_def)
qed

lemma finish_open_triple:
  "triple (phase_open content)
     (m_bind (m_get (\<lambda>s. workspace_budget_after_release (ph_ordinary (ow_phased s)) (ph_context (ow_phased s))
         ORDINARY_ROWS (owner_capacity s))) (\<lambda>bytes.
       m_bind (replace_prefill (env 6) ORDINARY_ROWS bytes) (\<lambda>_.
       m_bind (on_controller (check_boundary (host_ops (pe_engine (env 7))) boundary.CompletedOperation
         (pe_now (env 7)) (pe_sampled (env 7)))) (\<lambda>_.
       m_bind (on_controller (controller_finish_workspace_phase (host_ops (pe_engine (env 8))) (pe_now (env 8)))) (\<lambda>_.
       set_active False)))))
     (\<lambda>_. phase_closed content) (\<lambda>_. phase_open content)"
proof -
  have replaced: "triple (phase_open content) (replace_prefill (env 6) ORDINARY_ROWS bytes)
      (\<lambda>_ s. phase_open content s \<and> ordinary_ready s) (\<lambda>_. phase_open content)" for bytes
    by (rule triple_mono [OF replace_prefill_triple]) (auto simp: ordinary_ready_def)
  have observed: "triple (\<lambda>s. phase_open content s \<and> ordinary_ready s)
      (on_controller (check_boundary (host_ops (pe_engine (env 7))) boundary.CompletedOperation (pe_now (env 7)) (pe_sampled (env 7))))
      (\<lambda>_ s. phase_open content s \<and> ordinary_ready s) (\<lambda>_. phase_open content)"
    by (rule triple_mono [OF boundary_triple]) auto
  show ?thesis
    by (rule triple_get_bind, rule triple_pre [OF triple_bind [OF replaced triple_bind [OF observed finish_controller_triple]]]) auto
qed

lemma finish_phase_triple: "triple (owner_wf content) (finish_phase env) (\<lambda>_. phase_closed content) (\<lambda>_. owner_wf content)"
  unfolding finish_phase_def
  by (rule triple_get_bind, rule triple_if, rule triple_return)
    (auto simp: owner_wf_def phase_open_def phase_closed_def intro!: triple_mono [OF finish_open_triple])

lemma enter_wide_triple:
  assumes "MIN_CAPACITY \<le> target" "target \<le> previous"
  shows "triple (\<lambda>s. resizing content previous s \<and> owner_capacity s = previous \<and>
       target = min previous (b_maximum_capacity (ph_wide (ow_phased s))))
     (enter_wide env previous target) (\<lambda>_. phase_open content) (\<lambda>_. phase_open content)"
proof -
  let ?fits = "\<lambda>s. phase_open content s \<and> owner_capacity s \<le> b_maximum_capacity (ph_wide (ow_phased s))"
  have widen: "triple ?fits
      (m_bind (m_get (\<lambda>s. workspace_budget_after_release (ph_wide (ow_phased s)) (ph_context (ow_phased s)) WIDE_ROWS (owner_capacity s)))
        (\<lambda>bytes. m_bind (replace_prefill (env 4) WIDE_ROWS bytes) (\<lambda>_. m_return ())))
      (\<lambda>_. phase_open content) (\<lambda>_. phase_open content)"
    by (rule triple_get_bind, rule triple_bind, rule triple_pre [OF replace_prefill_triple]) (auto intro: triple_return)
  have wide_plan: "ph_wide (ow_phased (snd (m s))) = ph_wide (ow_phased s)"
    if "m = yield_slots env target" for m :: "('a owner, unit) stateful" and s
    unfolding that yield_slots_def Let_def
    by (simp add: m_bind_def on_host_def sync_planned_def split: prod.splits sum.splits)
  have yielded: "triple (\<lambda>s. resizing content previous s \<and> owner_capacity s = previous \<and>
       target = min previous (b_maximum_capacity (ph_wide (ow_phased s))))
      (if target < previous then yield_slots env target else m_return ()) (\<lambda>_. ?fits) (\<lambda>_. phase_open content)"
  proof (cases "target < previous")
    case True
    have "triple (\<lambda>s. resizing content previous s \<and> target = min previous (b_maximum_capacity (ph_wide (ow_phased s))))
        (yield_slots env target) (\<lambda>_. ?fits) (\<lambda>_. phase_open content)"
    proof (rule tripleI)
      fix s e s' assume "resizing content previous s \<and> target = min previous (b_maximum_capacity (ph_wide (ow_phased s)))"
        and "yield_slots env target s = (Inl e, s')"
      then show "phase_open content s'" using triple_Inl [OF yield_triple [OF assms]] by (fastforce simp: resizing_def)
    next
      fix s u s' assume s: "resizing content previous s \<and> target = min previous (b_maximum_capacity (ph_wide (ow_phased s)))"
        and run: "yield_slots env target s = (Inr u, s')"
      then have "resizing content previous s' \<and> owner_capacity s' = target" using triple_Inr [OF yield_triple [OF assms]] by fastforce
      moreover have "ph_wide (ow_phased s') = ph_wide (ow_phased s)" using wide_plan [OF refl, of s] run by simp
      ultimately show "?fits s'" using s by (auto simp: resizing_def)
    qed
    with True show ?thesis by (auto elim: triple_pre)
  qed (use assms(2) in \<open>auto simp: resizing_def intro!: triple_return\<close>)
  show ?thesis unfolding enter_wide_def by (rule triple_bind [OF yielded widen])
qed

lemma wide_failed_triple: "triple (phase_open content) (wide_failed env e) (\<lambda>_. owner_wf content) (\<lambda>_. owner_wf content)"
proof -
  have sync: "triple (phase_open content) (m_try (sync_planned (env 5))) (\<lambda>_. owner_wf content) (\<lambda>_. owner_wf content)"
  proof (rule triple_try)
    have "phase_open content s'" if "phase_open content s" "sync_planned (env 5) s = (r, s')" for s r s'
      using sync_planned_cases [OF phase_open_policy [OF that(1)] that(2)] that(1)
      by (auto simp: phase_open_def owner_base_def owner_capacity_def)
    then show "triple (phase_open content) (sync_planned (env 5)) (\<lambda>_. owner_wf content) (\<lambda>_. owner_wf content)"
      by (intro tripleI) (auto simp: owner_wf_def)
  qed
  have cleanup: "triple (owner_wf content) (m_try (finish_phase env)) (\<lambda>_. owner_wf content) (\<lambda>_. owner_wf content)"
    by (rule triple_try, rule triple_mono [OF finish_phase_triple]) (auto simp: owner_wf_def)
  show ?thesis
    unfolding wide_failed_def by (rule triple_bind [OF sync triple_bind [OF cleanup triple_lift]]) auto
qed

lemma begin_phase_cases:
  assumes s: "phase_closed content s" "owner_capacity s = previous"
    and run: "begin_workspace_phase env target s = (Inr begun, s')"
  shows "if begun then \<exists>c. s' = s\<lparr>ow_controller := c\<rparr> \<and> controller_wf previous c \<and> c_budget c = c_budget (ow_controller s) \<and>
      MIN_CAPACITY \<le> target \<and> target \<le> previous \<and> (\<exists>phase. workspace_phase (c_policy c) = Some phase \<and> ordinary_capacity phase = previous)
    else s' = s"
proof -
  obtain c where c: "controller_try_begin_workspace_phase (host_ops (pe_engine env)) (ow_host s) target (ow_controller s) = Inr (begun, c)"
    "s' = s\<lparr>ow_controller := c\<rparr>"
    using run by (auto simp: begin_workspace_phase_def split: sum.splits)
  obtain p where p: "try_begin_workspace_phase previous target (c_release_epoch (ow_controller s)) (c_policy (ow_controller s)) = Inr (begun, p)"
    "c = (ow_controller s)\<lparr>c_policy := p\<rparr>"
    using c(1) s(2) by (auto simp: controller_try_begin_workspace_phase_def owner_capacity_def result_simps)
  show ?thesis
  proof (cases begun)
    case True
    have "controller_wf (op_capacity (host_ops (pe_engine env)) (ow_host s)) c"
      by (rule try_begin_wf [OF _ c(1)]) (use s in \<open>simp add: phase_closed_def owner_base_def owner_capacity_def\<close>)
    moreover have "MIN_CAPACITY \<le> target" "target \<le> previous"
      "\<exists>phase. workspace_phase p = Some phase \<and> ordinary_capacity phase = previous"
      using p(1) True by (auto simp: try_begin_workspace_phase_def result_simps Let_def split: if_splits)
    ultimately show ?thesis using True c(2) p(2) s(2) by (auto simp: owner_capacity_def)
  next
    case False
    then have "p = c_policy (ow_controller s)"
      using p(1) by (auto simp: try_begin_workspace_phase_def result_simps Let_def split: if_splits)
    then have "c = ow_controller s" using p(2) by simp
    with c(2) False show ?thesis by (cases s) simp
  qed
qed

lemma begun_triple:
  "triple (\<lambda>s. phase_closed content s \<and> owner_capacity s = previous \<and> target = min previous (b_maximum_capacity (ph_wide (ow_phased s))))
     (m_bind (begin_workspace_phase (env 0) target) (\<lambda>begun.
       if \<not> begun then m_return ()
       else
         m_bind (set_active True) (\<lambda>_.
         m_bind (m_try (enter_wide env previous target)) (\<lambda>entered.
         case entered of Inl e \<Rightarrow> wide_failed env e | Inr _ \<Rightarrow> m_return ()))))
     (\<lambda>_. owner_wf content) (\<lambda>_. owner_wf content)"
proof -
  let ?P = "\<lambda>s. phase_closed content s \<and> owner_capacity s = previous \<and> target = min previous (b_maximum_capacity (ph_wide (ow_phased s)))"
  let ?fresh = "\<lambda>s. resizing content previous s \<and> owner_capacity s = previous \<and> target = min previous (b_maximum_capacity (ph_wide (ow_phased s)))"
  have entered: "triple (\<lambda>s. (MIN_CAPACITY \<le> target \<and> target \<le> previous) \<and> ?fresh s)
      (m_bind (m_try (enter_wide env previous target)) (\<lambda>entered.
         case entered of Inl e \<Rightarrow> wide_failed env e | Inr _ \<Rightarrow> m_return ())) (\<lambda>_. owner_wf content) (\<lambda>_. owner_wf content)"
  proof (rule triple_assume)
    assume t: "MIN_CAPACITY \<le> target \<and> target \<le> previous"
    have tried: "triple ?fresh (m_try (enter_wide env previous target)) (\<lambda>_. phase_open content) (\<lambda>_. owner_wf content)"
      by (rule triple_try) (use enter_wide_triple t in blast)
    have handled: "triple (phase_open content) (case r of Inl e \<Rightarrow> wide_failed env e | Inr _ \<Rightarrow> m_return ()) (\<lambda>_. owner_wf content) (\<lambda>_. owner_wf content)" for r :: "string + unit"
      by (cases r) (auto simp: owner_wf_def intro: wide_failed_triple triple_return)
    show "triple ?fresh (m_bind (m_try (enter_wide env previous target)) (\<lambda>entered.
         case entered of Inl e \<Rightarrow> wide_failed env e | Inr _ \<Rightarrow> m_return ())) (\<lambda>_. owner_wf content) (\<lambda>_. owner_wf content)"
      by (rule triple_bind [OF tried handled])
  qed
  have begun: "triple ?P (begin_workspace_phase (env 0) target)
      (\<lambda>begun s. if begun then (MIN_CAPACITY \<le> target \<and> target \<le> previous) \<and> ?fresh (s\<lparr>ow_phased := (ow_phased s)\<lparr>ph_active := True\<rparr>\<rparr>)
        else phase_closed content s) (\<lambda>_. owner_wf content)"
  proof (rule tripleI)
    fix s e s' assume "?P s" "begin_workspace_phase (env 0) target s = (Inl e, s')"
    then show "owner_wf content s'" by (auto simp: begin_workspace_phase_def owner_wf_def split: sum.splits prod.splits)
  next
    fix s begun s' assume s: "?P s" and run: "begin_workspace_phase (env 0) target s = (Inr begun, s')"
    note k = begin_phase_cases [OF conjunct1 [OF s] conjunct1 [OF conjunct2 [OF s]] run]
    show "if begun then (MIN_CAPACITY \<le> target \<and> target \<le> previous) \<and> ?fresh (s'\<lparr>ow_phased := (ow_phased s')\<lparr>ph_active := True\<rparr>\<rparr>)
        else phase_closed content s'"
    proof (cases begun)
      case False
      with k s show ?thesis by simp
    next
      case True
      then obtain c phase where c: "s' = s\<lparr>ow_controller := c\<rparr>" "controller_wf previous c" "c_budget c = c_budget (ow_controller s)"
        "MIN_CAPACITY \<le> target" "target \<le> previous" "workspace_phase (c_policy c) = Some phase" "ordinary_capacity phase = previous"
        using k by auto
      have base: "owner_base content s" "sc_rows (snd (ow_host s)) = ORDINARY_ROWS" "owner_capacity s = previous"
        "target = min previous (b_maximum_capacity (ph_wide (ow_phased s)))"
        using s by (simp_all add: phase_closed_def ordinary_ready_def)
      have cap: "owner_capacity s' = previous" using base(3) c(1) by (simp add: owner_capacity_def)
      have "owner_base content (s'\<lparr>ow_phased := (ow_phased s')\<lparr>ph_active := True\<rparr>\<rparr>)"
        using base c(1-3) by (simp add: owner_base_def owner_capacity_def)
      then have "resizing content previous (s'\<lparr>ow_phased := (ow_phased s')\<lparr>ph_active := True\<rparr>\<rparr>)"
        using base(2) c(1,6,7) by (simp add: resizing_def phase_open_def)
      with True c(1,4,5) base(4) cap show ?thesis by (simp add: owner_capacity_def)
    qed
  qed
  have rest: "triple (\<lambda>s. if begun then (MIN_CAPACITY \<le> target \<and> target \<le> previous) \<and> ?fresh (s\<lparr>ow_phased := (ow_phased s)\<lparr>ph_active := True\<rparr>\<rparr>)
        else phase_closed content s)
      (if \<not> begun then m_return ()
       else
         m_bind (set_active True) (\<lambda>_.
         m_bind (m_try (enter_wide env previous target)) (\<lambda>entered.
         case entered of Inl e \<Rightarrow> wide_failed env e | Inr _ \<Rightarrow> m_return ()))) (\<lambda>_. owner_wf content) (\<lambda>_. owner_wf content)" for begun
  proof (cases begun)
    case True
    have active: "triple (\<lambda>s. (MIN_CAPACITY \<le> target \<and> target \<le> previous) \<and> ?fresh (s\<lparr>ow_phased := (ow_phased s)\<lparr>ph_active := True\<rparr>\<rparr>))
        (set_active True) (\<lambda>_ s. (MIN_CAPACITY \<le> target \<and> target \<le> previous) \<and> ?fresh s) (\<lambda>_. owner_wf content)"
      unfolding set_active_def by (rule triple_modify)
    show ?thesis
      unfolding eqTrueI [OF True] not_True_eq_False if_True if_False by (rule triple_bind [OF active entered])
  qed (auto simp: owner_wf_def intro!: triple_return)
  show ?thesis by (rule triple_bind [OF begun rest])
qed

lemma begin_wide_triple: "triple (owner_wf content) (begin_wide env) (\<lambda>_. owner_wf content) (\<lambda>_. owner_wf content)"
  unfolding begin_wide_def
  by (rule triple_get_bind, rule triple_get_bind, rule triple_pre [OF begun_triple])
    (auto simp: result_simps owner_wf_def phase_open_def)

lemma boundary_owner_triple:
  "triple (owner_wf content) (on_controller (check_boundary (host_ops env) b now obs)) (\<lambda>_. owner_wf content) (\<lambda>_. owner_wf content)"
proof -
  have "owner_wf content s'"
    if s: "owner_wf content s" and run: "on_controller (check_boundary (host_ops env) b now obs) s = (r, s')" for s r s'
  proof -
    obtain c h where k: "check_boundary (host_ops env) b now obs (ow_controller s, ow_host s) = (r, (c, h))"
      "s' = s\<lparr>ow_controller := c, ow_host := h\<rparr>"
      using run by (auto simp: on_controller_def split: prod.splits)
    have "engine_wf content (fst (ow_host s))" "controller_wf (op_capacity (host_ops env) (ow_host s)) (ow_controller s)"
      using s by (auto simp: owner_wf_def phase_open_def phase_closed_def owner_base_def owner_capacity_def)
    from host.boundary_keeps [OF this k(1)] s k(2) show ?thesis
      by (auto simp: owner_wf_def phase_open_def phase_closed_def owner_base_def owner_capacity_def ordinary_ready_def)
  qed
  then show ?thesis by (intro tripleI) blast+
qed

lemma transition_triple: "triple (owner_wf content) (transition env p) (\<lambda>_. owner_wf content) (\<lambda>_. owner_wf content)"
proof -
  have finish: "triple (owner_wf content) (finish_phase env) (\<lambda>_. owner_wf content) (\<lambda>_. owner_wf content)"
    by (rule triple_mono [OF finish_phase_triple]) (auto simp: owner_wf_def)
  then show ?thesis by (cases p) (auto simp: transition_def intro: begin_wide_triple triple_return)
qed

lemma owner_event_triple: "triple (owner_wf content) (owner_event env p) (\<lambda>_. owner_wf content) (\<lambda>_. owner_wf content)"
  unfolding owner_event_def
  by (rule triple_get_bind, rule triple_pre [OF triple_bind [OF transition_triple triple_if [OF boundary_owner_triple]]])
    (auto simp: triple_def)

section \<open>A serving process with phased prefill\<close>

text \<open>Requests begin and end, the engine reads its scratch or not, and the owner is called at every phase, each with
  environments of its own; a failed call does not end the process.\<close>

datatype owner_step = Event request_phase | BeginRequest | EndRequest bool | Reading bool

fun run_step :: "'r calls \<times> owner_step \<Rightarrow> 'r owner \<Rightarrow> 'r owner" where
  "run_step (env, Event p) s = snd (owner_event env p s)"
| "run_step (env, BeginRequest) s = begin_owned_request (env 0) s"
| "run_step (env, EndRequest completed) s = end_owned_request (env 0) completed s"
| "run_step (env, Reading b) s = s\<lparr>ow_host := (fst (ow_host s), (snd (ow_host s))\<lparr>sc_in_progress := b\<rparr>)\<rparr>"

lemma request_phase_kept:
  "workspace_phase (begin_request now p) = workspace_phase p" "workspace_phase (end_request now ok p) = workspace_phase p"
  by (simp_all add: begin_request_def end_request_def Let_def accept_completed_def accept_validated_def split: option.splits)

lemma run_step_wf: "owner_wf content s \<Longrightarrow> owner_wf content (run_step x s)"
proof (induction x s rule: run_step.induct)
  case (1 env p s)
  have "keeps (owner_wf content) (owner_event env p)" by (rule triple_keeps [OF owner_event_triple])
  with 1 show ?case by (simp add: keeps_def)
next
  case (2 env s)
  then show ?case
    by (auto simp: begin_owned_request_def controller_begin_request_def owner_wf_def phase_open_def phase_closed_def owner_base_def
        owner_capacity_def ordinary_ready_def request_phase_kept controller_wf_def begin_request_wf)
next
  case (3 env ok s)
  then show ?case
    by (auto simp: end_owned_request_def controller_end_request_def owner_wf_def phase_open_def phase_closed_def owner_base_def
        owner_capacity_def ordinary_ready_def request_phase_kept controller_wf_def end_request_wf)
next
  case (4 env b s)
  then show ?case
    by (auto simp: owner_wf_def phase_open_def phase_closed_def owner_base_def owner_capacity_def ordinary_ready_def)
qed

lemma run_steps_wf: "owner_wf content s \<Longrightarrow> owner_wf content (fold run_step steps s)"
  by (induction steps arbitrary: s) (simp_all add: run_step_wf)

text \<open>The plan that must fund what is resident: the wide one while the scratch is wide.\<close>

definition resident_plan :: "'r owner \<Rightarrow> capacity_control_budget" where
  "resident_plan s = (if sc_rows (snd (ow_host s)) = WIDE_ROWS then ph_wide (ow_phased s) else ph_ordinary (ow_phased s))"

lemma owner_funded:
  assumes "owner_wf content s"
  shows "serving_peak_at (resident_plan s) (owner_capacity s) \<le> b_effective_budget_bytes (ph_ordinary (ow_phased s))"
proof -
  have base: "owner_base content s" using assms by (auto simp: owner_wf_def phase_open_def phase_closed_def)
  then have "owner_capacity s \<le> b_maximum_capacity (ph_ordinary (ow_phased s))"
    by (auto simp: owner_base_def controller_wf_def policy_wf_def extent_wf_def)
  with base serving_peak_in_budget [of "ph_ordinary (ow_phased s)" "owner_capacity s"]
    serving_peak_in_budget [of "ph_wide (ow_phased s)" "owner_capacity s"]
  show ?thesis by (auto simp: owner_base_def plans_agree_def resident_plan_def)
qed

lemma phased_new_agrees:
  assumes "phased_new budget fp context retained disk_io = Inr ph" "budget_wf budget" "64 \<le> b_maximum_capacity budget"
  shows "plans_agree ph \<and> ph_ordinary ph = budget \<and> \<not> ph_active ph"
proof -
  obtain wide where w: "with_prefill_width budget fp context ORDINARY_ROWS WIDE_ROWS = Inr wide"
    and ph: "ph = \<lparr>ph_ordinary = budget, ph_wide = wide, ph_context = context, ph_active = False\<rparr>"
    using assms(1) by (auto simp: phased_new_def result_simps)
  have "b_maximum_capacity budget < 512" "10 \<le> b_initial_capacity budget" using assms(2) by (simp_all add: budget_wf_def)
  from with_prefill_width_wf(1,6) [OF w this assms(3)] assms(2) show ?thesis by (simp add: ph plans_agree_def)
qed

section \<open>Properties\<close>

text \<open>C24: Trading expert slots for wide prefill scratch never overcommits memory and never loses the ordinary scratch. Along
  any process of requests, over every failure of an allocation, a resize or a boundary poll and whatever the system observes:
  the serving commitments of the resident pool with the scratch that is resident fit the operating envelope, the engine
  and the controller stay sound, a phase is open in the controller exactly while the owner holds it, and outside a phase
  the 2048-row scratch is in place.\<close>

theorem phased_prefill_stays_funded:
  assumes "phased_new budget fp context retained disk_io = Inr ph" "budget_wf budget" "64 \<le> b_maximum_capacity budget"
    and "controller_new budget = Inr c" "engine_wf content e" "en_capacity e = b_initial_capacity budget"
    and "sc_rows p = 2048" "sc_bytes p \<noteq> None"
    and "s = fold run_step steps \<lparr>ow_phased = ph, ow_controller = c, ow_host = (e, p)\<rparr>"
  shows "serving_peak_at (resident_plan s) (owner_capacity s) \<le> b_effective_budget_bytes (ph_ordinary (ow_phased s)) \<and>
    engine_wf content (fst (ow_host s)) \<and> controller_wf (owner_capacity s) (ow_controller s) \<and>
    ph_active (ow_phased s) = (open_phase s \<noteq> None) \<and>
    (if ph_active (ow_phased s) then True else sc_rows (snd (ow_host s)) = 2048 \<and> sc_bytes (snd (ow_host s)) \<noteq> None)"
proof -
  note ph = phased_new_agrees [OF assms(1-3)]
  have c: "controller_wf (b_initial_capacity budget) c" "c_budget c = budget" "workspace_phase (c_policy c) = None"
    using controller_new_wf [OF assms(4)] assms(4)
    by (auto simp: controller_new_def policy_new_def policy_init_def result_simps)
  have "owner_wf content \<lparr>ow_phased = ph, ow_controller = c, ow_host = (e, p)\<rparr>"
    using ph c assms(5-8)
    by (simp add: owner_wf_def phase_closed_def owner_base_def owner_capacity_def ordinary_ready_def ORDINARY_ROWS_def WIDE_ROWS_def)
  then have "owner_wf content s" unfolding assms(9) by (rule run_steps_wf)
  with owner_funded [OF this] show ?thesis
    by (auto simp: owner_wf_def phase_open_def phase_closed_def owner_base_def ordinary_ready_def ORDINARY_ROWS_def)
qed

end
