(* ===== verification/Prefill_Phase_Samples.thy ===== *)
theory Prefill_Phase_Samples
  imports Prefill_Phase_Properties Sample_Package Sample_Inputs
begin

text \<open>
  A phased prefill over the sample package and an engine of 64 slots, and a request whose phases are all reported.
\<close>

definition phase_budget :: capacity_control_budget where
  "phase_budget = \<lparr> b_initial_capacity = 64, b_maximum_capacity = 100, b_startup_budget_bytes = 20000000000,
     b_effective_budget_bytes = 20000000000, b_initial_serving_peak_bytes = 8000000000,
     b_packed_expert_bytes_per_slot = 95600640, b_table_overlap_bytes = 3532032,
     b_process_overhead_bytes = 100000000, b_operating_growth = True \<rparr>"

definition sample_phased :: phased_prefill where
  "sample_phased = \<lparr>ph_ordinary = phase_budget, ph_wide = phase_budget\<lparr>b_initial_serving_peak_bytes := 8998072320\<rparr>,
     ph_context = 1, ph_active = False\<rparr>"

lemma sample_phased_new: "phased_new phase_budget sample_footprint 1 0 0 = Inr sample_phased"
proof -
  have p: "packed_expert_bytes_per_uniform_slot sample_footprint = 95600640" by (simp add: sample_footprint_def)
  note estimates = sample_fixed_capacity [OF sample_prefill(2), of 64, unfolded One_nat_def, simplified]
    sample_fixed_capacity [OF sample_prefill(3), of 64, unfolded One_nat_def, simplified]
  have serving: "validate_serving phase_budget sample_footprint (Suc 0) 2048 0 0 = Inr ()"
    by (simp add: validate_serving_def p phase_budget_def sample_metadata sample_layers estimates)
      (simp add: sample_estimate_def decode_ws_def mem_eval Let_def)
  have wide: "with_prefill_width phase_budget sample_footprint (Suc 0) 2048 4096 = Inr (phase_budget\<lparr>b_initial_serving_peak_bytes := 8998072320\<rparr>)"
    by (simp add: with_prefill_width_def validate_capacity_def rows_consts p phase_budget_def estimates)
      (simp add: sample_estimate_def decode_ws_def nonexpert_bytes_def mem_eval Let_def)
  show ?thesis by (simp add: phased_new_def ORDINARY_ROWS_def WIDE_ROWS_def serving wide sample_phased_def)
qed

definition sample_phase_env :: "nat phase_env" where
  "sample_phase_env = \<lparr>pe_engine = sample_engine_env, pe_max_context = 1,
     pe_requests = native_prefill_workspace_bytes_for_capacity 1, pe_now = 0,
     pe_sampled = \<lparr>obs_pressure = Some Pressure_Normal, obs_counters = None\<rparr>\<rparr>"

definition sample_request :: "(nat calls \<times> owner_step) list" where
  "sample_request = map (Pair (\<lambda>_. sample_phase_env))
     [BeginRequest, Event Prepare, Event (Prefill 3000), Reading True, Event request_phase.CompletedOperation, Reading False,
      Event Decode, Event Finished, EndRequest True]"

definition sample_owner :: "nat owner" where
  "sample_owner = \<lparr>ow_phased = sample_phased,
     ow_controller = \<lparr> c_budget = phase_budget, c_policy = policy_init 64 100, c_release_epoch = 0 \<rparr>,
     ow_host = (sample_engine, \<lparr>sc_rows = 2048, sc_bytes = Some 1273142158, sc_in_progress = False\<rparr>)\<rparr>"

theorem phased_prefill_stays_funded_witness:
  "serving_peak_at (resident_plan (fold run_step sample_request sample_owner)) (owner_capacity (fold run_step sample_request sample_owner))
     \<le> b_effective_budget_bytes (ph_ordinary (ow_phased (fold run_step sample_request sample_owner)))"
proof -
  have wf: "budget_wf phase_budget" "64 \<le> b_maximum_capacity phase_budget"
    by (simp_all add: budget_wf_def phase_budget_def serving_peak_at_def)
  have c: "controller_new phase_budget = Inr \<lparr> c_budget = phase_budget, c_policy = policy_init 64 100, c_release_epoch = 0 \<rparr>"
    by (simp add: controller_new_def phase_budget_def policy_new_def MIN_CAPACITY_def)
  have e: "en_capacity sample_engine = b_initial_capacity phase_budget" by (simp add: sample_engine_def phase_budget_def)
  from phased_prefill_stays_funded [OF sample_phased_new wf c sample_engine_wf e _ _ refl,
      of "\<lparr>sc_rows = 2048, sc_bytes = Some 1273142158, sc_in_progress = False\<rparr>" sample_request]
  show ?thesis by (simp add: sample_owner_def)
qed

end
