(* ===== verification/Checkpoint_Slot.thy ===== *)
theory Checkpoint_Slot
  imports Store_Witnesses
begin

text \<open>
  One explicit checkpoint file (\<open>DiskCheckpointSlot\<close> of \<open>src/engine/snapshot/disk.rs\<close>): a locked private directory with
  the leaf \<open>checkpoint.bin\<close>, replaced by writing \<open>checkpoint.tmp\<close> and renaming it. The leaves and the schedule of
  failures are those of the checkpoint store.
\<close>

record disk_slot =
  sk_owner :: nat
  sk_scope :: "byte list"
  sk_limits :: disk_limits

definition slot_limits_ok :: "disk_limits \<Rightarrow> bool" where
  "slot_limits_ok limits \<longleftrightarrow> HEADER_BYTES + TRAILER_BYTES < max_file_bytes limits \<and> TILE_RECORD_BYTES \<le> max_io_buffer_bytes limits"

definition slot_open :: "store_env \<Rightarrow> host_engine \<Rightarrow> byte list \<times> byte list \<Rightarrow> disk_limits \<Rightarrow> disk_slot rooted" where
  "slot_open env en identity limits =
     m_bind (m_lift (ensure (slot_limits_ok limits)
       (Failure ''checkpoint limits must cover a header and one packed record of I/O staging'') (Inr ()))) (\<lambda>_.
     m_bind (m_lift (checkpoint_scope (sv_wire env) en identity)) (\<lambda>scope.
     m_bind (open_root env) (\<lambda>_.
     m_bind (open_lock env) (\<lambda>_.
     m_bind (try_lock env) (\<lambda>_.
     m_return \<lparr>sk_owner = he_cache_identity en, sk_scope = scope, sk_limits = limits\<rparr>)))))"

definition slot_check_owner :: "host_engine \<Rightarrow> disk_slot \<Rightarrow> unit rooted" where
  "slot_check_owner en slot =
     m_lift (ensure (sk_owner slot = he_cache_identity en) (Failure ''checkpoint slot belongs to another engine'') (Inr ()))"

definition check_existing_slot :: "store_env \<Rightarrow> unit rooted" where
  "check_existing_slot env = m_bind (existing_leaf env Slot_Leaf) (\<lambda>_. m_return ())"

definition remove_stale_temp :: "store_env \<Rightarrow> unit rooted" where
  "remove_stale_temp env = m_bind (unlink_leaf env Slot_Temp) (\<lambda>_. m_return ())"

definition publish_temp :: "store_env \<Rightarrow> nat \<Rightarrow> unit rooted" where
  "publish_temp env expected =
     m_bind (existing_leaf env Slot_Temp) (\<lambda>opened.
     m_bind (m_lift (ok_or opened (Failure ''No such file or directory''))) (\<lambda>bs.
     m_bind (metadata env) (\<lambda>_.
     m_bind (m_lift (ensure (length bs = expected) (Failure ''checkpoint temporary length differs'') (Inr ()))) (\<lambda>_.
     m_bind (check_existing_slot env) (\<lambda>_.
     m_bind (rename_leaf env Slot_Temp Slot_Leaf) (\<lambda>_.
     sync_all env))))))"

text \<open>The file of the session, written into the temporary leaf; a failed write leaves a part of what was produced.\<close>

definition write_slot :: "store_env \<Rightarrow> host_engine \<Rightarrow> session \<Rightarrow> byte list \<Rightarrow> nat \<Rightarrow> nat \<Rightarrow> nat \<Rightarrow> unit rooted" where
  "write_slot env en s scope expected sections limit r =
     (let (result, w) = write_session (wire_at env (rt_calls r)) en s scope expected sections limit \<lparr> hw_out = [], hw_written = 0 \<rparr> in
      (result, r \<lparr> rt_calls := rt_calls r + 1,
         rt_leaves := (rt_leaves r)(Slot_Temp := Some (Regular (if is_ok result then hw_out w else sv_partial env (hw_out w)))) \<rparr>))"

definition slot_replace :: "store_env \<Rightarrow> host_engine \<Rightarrow> session \<Rightarrow> disk_slot \<Rightarrow> nat \<Rightarrow> nat \<Rightarrow> bool rooted" where
  "slot_replace env en s slot expected sections =
     m_bind (check_existing_slot env) (\<lambda>_.
     m_bind (remove_stale_temp env) (\<lambda>_.
     m_bind (create_leaf env Slot_Temp) (\<lambda>_.
     m_bind (write_slot env en s (sk_scope slot) expected sections (max_io_buffer_bytes (sk_limits slot))) (\<lambda>_.
     m_bind (sync_all env) (\<lambda>_.
     m_bind (publish_temp env expected) (\<lambda>_. m_return True))))))"

definition slot_save :: "store_env \<Rightarrow> host_engine \<Rightarrow> session \<Rightarrow> disk_slot \<Rightarrow> bool rooted" where
  "slot_save env en s slot =
     m_bind (slot_check_owner en slot) (\<lambda>_.
     m_bind (m_lift (failing (validate_snapshot_source en s))) (\<lambda>_.
     m_bind (m_lift (ensure (se_cache_origin s = he_cache_identity en) (Failure ''session cache producer differs from engine'') (Inr ()))) (\<lambda>_.
     m_bind (m_lift (failing (expected_layout en (he_max_context en) (se_frontier s)))) (\<lambda>layout.
     if max_file_bytes (sk_limits slot) < fst layout then m_return False
     else slot_replace env en s slot (fst layout) (fst (snd layout))))))"

definition slot_load_match :: "store_env \<Rightarrow> host_engine \<Rightarrow> nat list \<Rightarrow> disk_slot \<Rightarrow> session option rooted" where
  "slot_load_match env en requested slot =
     m_bind (slot_check_owner en slot) (\<lambda>_.
     m_bind (existing_leaf env Slot_Leaf) (\<lambda>opened. case opened of
       None \<Rightarrow> m_return None
     | Some file \<Rightarrow> transfer env (\<lambda>wire. read_session wire en (sk_scope slot) requested (sk_limits slot) file)))"

text \<open>
  The explicit checkpoint slot replaces its file atomically, never reports success without the complete file, and
  gives back what was saved.
\<close>

section \<open>Replacing the file\<close>

definition slot_is :: "leaf option \<Rightarrow> leaves \<Rightarrow> bool" where
  "slot_is l L \<longleftrightarrow> L Slot_Leaf = l"

text \<open>The slot holds the old file, or the complete file of the session.\<close>

definition slot_now :: "store_env \<Rightarrow> host_engine \<Rightarrow> byte list \<Rightarrow> session \<Rightarrow> leaf option \<Rightarrow> leaf option \<Rightarrow> bool" where
  "slot_now env en scope s old l \<longleftrightarrow> l = old \<or> (\<exists>bs. l = Some (Regular bs) \<and> file_of (sv_wire env) en scope s bs)"

definition slot_saved :: "store_env \<Rightarrow> host_engine \<Rightarrow> byte list \<Rightarrow> session \<Rightarrow> leaf option \<Rightarrow> bool" where
  "slot_saved env en scope s l \<longleftrightarrow> (\<exists>bs. l = Some (Regular bs) \<and> file_of (sv_wire env) en scope s bs)"

lemma slot_saved_now: "slot_saved env en scope s l \<Longrightarrow> slot_now env en scope s old l"
  by (simp add: slot_saved_def slot_now_def)

lemma slot_old_now: "slot_is old L \<Longrightarrow> slot_now env en scope s old (L Slot_Leaf)"
  by (simp add: slot_is_def slot_now_def)

lemma slot_is_upd [simp]: "slot_is old (L(Slot_Temp := l)) \<longleftrightarrow> slot_is old L"
  by (simp add: slot_is_def)

text \<open>A complete file under the temporary name.\<close>

definition staged :: "store_env \<Rightarrow> host_engine \<Rightarrow> byte list \<Rightarrow> session \<Rightarrow> nat \<Rightarrow> leaf option \<Rightarrow> leaves \<Rightarrow> bool" where
  "staged env en scope s expected old L \<longleftrightarrow>
     slot_is old L \<and> (\<exists>bs. L Slot_Temp = Some (Regular bs) \<and> (length bs = expected \<longrightarrow> file_of (sv_wire env) en scope s bs))"

lemma rooted_check_existing_slot: "rooted P (check_existing_slot env) (\<lambda>_. P) (\<lambda>_. P)"
  unfolding check_existing_slot_def
  by (rule rooted_bind [OF rooted_existing_leaf]) (rule rooted_return, simp)

lemma rooted_publish_temp:
  "rooted (staged env en scope s expected old) (publish_temp env expected)
     (\<lambda>_ L. slot_saved env en scope s (L Slot_Leaf)) (\<lambda>_ L. slot_now env en scope s old (L Slot_Leaf))"
proof -
  let ?S = "staged env en scope s expected old" and ?E = "\<lambda>_ L. slot_now env en scope s old (L Slot_Leaf)"
  let ?done = "\<lambda>L. slot_saved env en scope s (L Slot_Leaf)"
  have se: "?S L \<Longrightarrow> slot_now env en scope s old (L Slot_Leaf)" for L by (simp add: staged_def slot_old_now)
  have sync: "rooted ?done (sync_all env) (\<lambda>_. ?done) ?E"
    by (rule rooted_mono [OF rooted_file_call [where P = ?done]]) (auto intro: slot_saved_now)
  have rename: "rooted (\<lambda>L. ?S L \<and> (\<exists>bs. L Slot_Temp = Some (Regular bs) \<and> length bs = expected))
      (rename_leaf env Slot_Temp Slot_Leaf) (\<lambda>_. ?done) ?E"
    by (rule rooted_mono [OF rooted_rename_leaf
          [where P = "\<lambda>L. ?S L \<and> (\<exists>bs. L Slot_Temp = Some (Regular bs) \<and> length bs = expected)" and Q = ?done]])
      (auto simp: staged_def slot_saved_def intro: se slot_old_now)
  show ?thesis
    unfolding publish_temp_def
  proof (rule rooted_step [OF rooted_existing_leaf], use se in blast, rule rooted_lift_bind)
    fix opened :: "byte list option" and bs assume "ok_or opened (Failure ''No such file or directory'') = Inr bs"
    then have o: "opened = Some bs" by (simp add: ok_or_def split: option.splits)
    let ?T = "\<lambda>L. ?S L \<and> found_leaf opened (L Slot_Temp)"
    show "rooted ?T (m_bind (metadata env) (\<lambda>_.
        m_bind (m_lift (ensure (length bs = expected) (Failure ''checkpoint temporary length differs'') (Inr ()))) (\<lambda>_.
        m_bind (check_existing_slot env) (\<lambda>_. m_bind (rename_leaf env Slot_Temp Slot_Leaf) (\<lambda>_. sync_all env)))))
      (\<lambda>_. ?done) ?E"
    proof (rule rooted_step [OF rooted_file_call], use se in blast, rule rooted_lift_bind)
      fix u assume "ensure (length bs = expected) (Failure ''checkpoint temporary length differs'') (Inr ()) = Inr u"
      then have len: "length bs = expected" by (simp add: ensure_eq_Inr)
      show "rooted ?T (m_bind (check_existing_slot env) (\<lambda>_. m_bind (rename_leaf env Slot_Temp Slot_Leaf) (\<lambda>_. sync_all env)))
          (\<lambda>_. ?done) ?E"
        by (rule rooted_step [OF rooted_check_existing_slot], use se in blast,
            rule rooted_bind [OF rooted_mono [OF rename] sync]) (use o len in auto)
    qed (use se in blast)
  qed (use se in blast)
qed

lemma rooted_slot_replace:
  assumes layout: "expected_layout en (he_max_context en) (se_frontier s) = Inr (expected, sections, payload)"
  shows "rooted (slot_is old) (slot_replace env en s slot expected sections)
     (\<lambda>ok L. ok \<and> slot_saved env en (sk_scope slot) s (L Slot_Leaf)) (\<lambda>_ L. slot_now env en (sk_scope slot) s old (L Slot_Leaf))"
proof -
  let ?E = "\<lambda>_ L. slot_now env en (sk_scope slot) s old (L Slot_Leaf)" and ?S = "staged env en (sk_scope slot) s expected old"
  have temp: "rooted (slot_is old) (remove_stale_temp env) (\<lambda>_. slot_is old) ?E"
    unfolding remove_stale_temp_def
    by (rule rooted_step [OF rooted_unlink_leaf [where Q = "slot_is old"]]) (auto intro: slot_old_now rooted_return)
  have create: "rooted (slot_is old) (create_leaf env Slot_Temp) (\<lambda>_. slot_is old) ?E"
    by (rule rooted_mono [OF rooted_create_leaf [where P = "slot_is old"]]) (auto intro: slot_old_now)
  have wrote: "rooted (slot_is old) (write_slot env en s (sk_scope slot) expected sections (max_io_buffer_bytes (sk_limits slot))) (\<lambda>_. ?S) ?E"
  proof (rule rootedI)
    fix r x t
    assume "slot_is old (rt_leaves r)"
      "write_slot env en s (sk_scope slot) expected sections (max_io_buffer_bytes (sk_limits slot)) r = (Inr x, t)"
    then show "?S (rt_leaves t)"
      using layout
      by (auto simp: write_slot_def Let_def staged_def written_def split: prod.splits
          intro!: written_file_of [where limit = "max_io_buffer_bytes (sk_limits slot)"] exI)
  qed (auto simp: write_slot_def Let_def slot_now_def slot_is_def split: prod.splits)
  have sync: "rooted ?S (sync_all env) (\<lambda>_. ?S) ?E"
    by (rule rooted_mono [OF rooted_file_call [where P = ?S]]) (auto simp: staged_def intro: slot_old_now)
  show ?thesis
    unfolding slot_replace_def
    by (rule rooted_step [OF rooted_check_existing_slot], erule slot_old_now,
        intro rooted_bind [OF temp] rooted_bind [OF create] rooted_bind [OF wrote] rooted_bind [OF sync]
          rooted_bind [OF rooted_publish_temp] rooted_return, simp)
qed

lemma rooted_slot_save:
  "rooted (slot_is old) (slot_save env en s slot)
     (\<lambda>ok L. if ok then slot_saved env en (sk_scope slot) s (L Slot_Leaf) else slot_is old L)
     (\<lambda>_ L. slot_now env en (sk_scope slot) s old (L Slot_Leaf))"
  unfolding slot_save_def slot_check_owner_def
proof (rule rooted_lift_bind, rule rooted_lift_bind, rule rooted_lift_bind, rule rooted_lift_bind)
  fix layout assume "failing (expected_layout en (he_max_context en) (se_frontier s)) = Inr layout"
  then have l: "expected_layout en (he_max_context en) (se_frontier s) = Inr (fst layout, fst (snd layout), snd (snd layout))"
    by (simp add: failing_Inr)
  show "rooted (slot_is old)
      (if max_file_bytes (sk_limits slot) < fst layout then m_return False
       else slot_replace env en s slot (fst layout) (fst (snd layout)))
      (\<lambda>ok L. if ok then slot_saved env en (sk_scope slot) s (L Slot_Leaf) else slot_is old L)
      (\<lambda>_ L. slot_now env en (sk_scope slot) s old (L Slot_Leaf))"
    by (rule rooted_if, rule rooted_return, simp, rule rooted_mono [OF rooted_slot_replace [OF l]]) auto
qed (erule slot_old_now)+

section \<open>Properties\<close>

text \<open>C10: Saving into the explicit slot is atomic: whatever call fails, the slot then holds either the file it held before or
  the complete, digested file of the session; a reported success means the latter and a declined admission the former.\<close>

theorem slot_save_is_atomic:
  "case slot_save env en s slot root of
     (res, root') \<Rightarrow>
       (case res of
          Inr True \<Rightarrow> slot_saved env en (sk_scope slot) s (rt_leaves root' Slot_Leaf)
        | Inr False \<Rightarrow> rt_leaves root' Slot_Leaf = rt_leaves root Slot_Leaf
        | Inl _ \<Rightarrow> slot_now env en (sk_scope slot) s (rt_leaves root Slot_Leaf) (rt_leaves root' Slot_Leaf))"
proof -
  obtain res root' where sv: "slot_save env en s slot root = (res, root')" by force
  note t = rooted_slot_save [of "rt_leaves root Slot_Leaf" env en s slot]
  show ?thesis
    using rooted_Inr [OF t _ sv [THEN trans]] rooted_Inl [OF t _ sv [THEN trans]]
    by (cases res) (auto simp: sv slot_is_def split: bool.split)
qed

text \<open>C11: What was saved into the slot is restored: a request for exactly the saved tokens on a device where nothing fails returns
  a committed session with the tokens and every live byte of the saved one, also after a restart.\<close>

theorem slot_restores_saved_session:
  assumes sv: "slot_save env en s slot root = (Inr True, root')" and dev: "same_device env env'"
    and reads: "readable_device env' en (sk_limits slot)" and scope: "length (sk_scope slot) = 32"
    and kinds: "map layer_kind (se_layers s) = he_layers en"
    and owner: "sk_owner slot' = he_cache_identity en" "sk_scope slot' = sk_scope slot" "sk_limits slot' = sk_limits slot"
  shows "\<exists>s' root''. slot_load_match env' en (se_tokens s) slot' root' = (Inr (Some s'), root'') \<and> session_live s' = session_live s \<and>
    validate_snapshot_source en s' = Inr ()"
proof -
  from rooted_Inr [OF rooted_slot_save _ sv, of "rt_leaves root Slot_Leaf"] obtain bs where
    bs: "rt_leaves root' Slot_Leaf = Some (Regular bs)" "file_of (sv_wire env) en (sk_scope slot) s bs"
    by (auto simp: slot_is_def slot_saved_def)
  have fits: "length bs \<le> max_file_bytes (sk_limits slot)"
    using sv bs(2) by (auto simp: slot_save_def slot_check_owner_def m_bind_eq_Inr failing_Inr file_of_def split: if_splits)
  have "sha256 (sv_wire env) = sha256 (sv_wire env')" using dev by (simp add: same_device_def)
  from bs(2) [unfolded file_of_cong [OF this]] obtain expected sections payload where
    l: "expected_layout en (he_max_context en) (se_frontier s) = Inr (expected, sections, payload)"
    and contents: "bs = header_bytes (sv_wire env') (sk_scope slot) (se_tokens s) en expected sections @ session_sections s
          @ sha256 (sv_wire env') (header_bytes (sv_wire env') (sk_scope slot) (se_tokens s) en expected sections @ session_sections s)"
    and len: "length (header_bytes (sv_wire env') (sk_scope slot) (se_tokens s) en expected sections @ session_sections s) = expected - TRAILER_BYTES"
    and ok: "session_sources_ok s" "validate_snapshot_source en s = Inr ()" and all: "length bs = expected"
    unfolding file_of_def by blast
  have bnd: "he_eos en < 2 ^ 32" "he_max_context en \<le> MAX_POSITIONS" using reads by (simp_all add: readable_device_def)
  obtain staging where st: "staging_new (wire_at env' n) (max_io_buffer_bytes (sk_limits slot)) = Inr staging" for n
    using reads by (auto simp: readable_device_def staging_new_def wire_at_def)
  have r: "\<exists>s'. read_session (wire_at env' n) en (sk_scope slot) (se_tokens s) (sk_limits slot) bs = Inr (Some s')
      \<and> session_live s' = session_live s \<and> validate_snapshot_source en s' = Inr ()" for n
    using read_session_total [OF readable_wire_at(1-3) [OF reads] st l scope bnd ok(2,1) kinds refl, of n "[]"] len all fits
    by (simp add: contents)
  have "sv_ok env' n" for n using reads by (simp add: readable_device_def faultless_def)
  moreover note r [of "rt_calls root' + 1"] owner bs(1)
  ultimately show ?thesis
    by (simp add: slot_load_match_def slot_check_owner_def m_bind_def ensure_def existing_leaf_def syscall_def transfer_def Let_def)
qed

text \<open>A session saved into an empty slot and restored.\<close>

definition sample_slot :: disk_slot where
  "sample_slot = \<lparr>sk_owner = he_cache_identity sample_host, sk_scope = zeros 32, sk_limits = sample_limits\<rparr>"

definition empty_root :: store_root where
  "empty_root = \<lparr>rt_leaves = (\<lambda>_. None), rt_calls = 0\<rparr>"

lemma sample_slot_saved:
  obtains root where "slot_save sample_store_env sample_host sample_session sample_slot empty_root = (Inr True, root)"
proof -
  obtain w where w: "write_session sample_cenv sample_host sample_session (zeros 32) 3890732 12 8388608 \<lparr> hw_out = [], hw_written = 0 \<rparr> = (Inr (), w)"
    by (rule sample_file)
  have len: "length (hw_out w) = 3890732"
    using write_session_Inr(1,2) [OF w] sample_cenv_ok(3) by (simp add: wire_consts)
  have ok: "sv_ok sample_store_env n" for n by (simp add: sample_store_env_def)
  have origin: "se_cache_origin sample_session = he_cache_identity sample_host" by (simp add: sample_session_def sample_host_def)
  have "slot_save sample_store_env sample_host sample_session sample_slot empty_root = (Inr True,
      snd (slot_save sample_store_env sample_host sample_session sample_slot empty_root))"
    using w len sample_layout
    by (simp add: slot_save_def slot_replace_def slot_check_owner_def sample_slot_def empty_root_def check_existing_slot_def
        remove_stale_temp_def publish_temp_def write_slot_def existing_leaf_def unlink_leaf_def create_leaf_def rename_leaf_def
        file_call_def syscall_def Let_def ok origin m_bind_def ensure_def ok_or_def failing_def sample_source sample_facts
        sample_env_facts is_ok_def)
  then show thesis by (rule that)
qed

theorem slot_restores_saved_session_witness:
  "\<exists>root s root'. slot_load_match sample_store_env sample_host [7] sample_slot root = (Inr (Some s), root') \<and>
     session_live s = session_live sample_session"
proof -
  obtain root where saved: "slot_save sample_store_env sample_host sample_session sample_slot empty_root = (Inr True, root)"
    by (rule sample_slot_saved)
  have reads: "readable_device sample_store_env sample_host (sk_limits sample_slot)"
    using sample_restorable by (simp add: sample_store_limits_def sample_slot_def)
  have scope: "length (sk_scope sample_slot) = 32" "sk_owner sample_slot = he_cache_identity sample_host"
    by (simp_all add: sample_slot_def)
  from slot_restores_saved_session [OF saved sample_env_facts(3) reads scope(1) sample_facts(5) scope(2) refl refl]
  show ?thesis unfolding sample_facts by blast
qed

end
