(* ===== verification/Managed_Cache.thy ===== *)
theory Managed_Cache
  imports Checkpoint_Opening Checkpoint_Writing Tool_Blocks "HOL-Library.List_Lexorder"
begin

text \<open>
  Retention over every cache below the managed base (\<open>src/engine/snapshot/disk/store/managed.rs\<close>): the native roots
  of other packages and the roots of the earlier format. A reservation looks at all of them, then clears inactive
  ones, oldest first, until the bytes asked for fit. The base is its directories with their leaves, locks and index
  times, and the number of system calls made; whether a call succeeds is a parameter, which also stands for the checks
  of ownership and permissions made when a directory or a leaf is opened. The parser of JSON values is a parameter.
\<close>

section \<open>The base\<close>

datatype root_lock = No_Lock | Free_Lock | Held_Lock

record native_dir =
  nd_name :: chars
  nd_inode :: nat
  nd_lock :: root_lock
  nd_mtime :: "int \<times> int"
  nd_leaves :: "leaf_name \<Rightarrow> leaf option"

text \<open>A directory of the earlier format: an index, payloads in shards, and quarantined payloads.\<close>

record legacy_part =
  lp_index :: "byte list option"
  lp_temp :: "byte list option"
  lp_shards :: "(chars \<times> (chars \<times> byte list) list) list"
  lp_quarantine :: "(chars \<times> byte list) list"

record legacy_dir =
  ld_name :: chars
  ld_lock :: root_lock
  ld_mtime :: "int \<times> int"
  ld_main :: legacy_part
  ld_attachments :: "legacy_part option"

record managed_base =
  mb_native :: "native_dir list"
  mb_legacy :: "legacy_dir list"
  mb_calls :: nat

record 'n managed_env =
  mv_store :: store_env
  mv_parse :: "byte list \<Rightarrow> 'n json option"
  mv_print :: "'n json \<Rightarrow> byte list"

type_synonym 'a managing = "(ckpt_error, managed_base, 'a) fallible"

definition managed_call :: "'n managed_env \<Rightarrow> (managed_base \<Rightarrow> ('a \<times> managed_base) ckpt) \<Rightarrow> 'a managing" where
  "managed_call env f b =
     (let b' = b\<lparr>mb_calls := mb_calls b + 1\<rparr> in
      if \<not> sv_ok (mv_store env) (mb_calls b) then (Inl (Failure ''system call failed''), b')
      else case f b' of Inl e \<Rightarrow> (Inl e, b') | Inr (x, b'') \<Rightarrow> (Inr x, b''))"

definition looks :: "'n managed_env \<Rightarrow> (managed_base \<Rightarrow> 'a) \<Rightarrow> 'a managing" where
  "looks env f = managed_call env (\<lambda>b. Inr (f b, b))"

text \<open>An operation of the checkpoint store on one native root.\<close>

definition on_native :: "nat \<Rightarrow> 'a rooted \<Rightarrow> 'a managing" where
  "on_native i m b =
     (let d = mb_native b ! i; (r, root) = m \<lparr>rt_leaves = nd_leaves d, rt_calls = mb_calls b\<rparr> in
      (r, b\<lparr>mb_native := (mb_native b)[i := d\<lparr>nd_leaves := rt_leaves root\<rparr>], mb_calls := rt_calls root\<rparr>))"

section \<open>Names\<close>

abbreviation chars_of :: "string \<Rightarrow> chars" where "chars_of s \<equiv> map of_char s"

definition hex_byte :: "nat \<Rightarrow> bool" where
  "hex_byte c \<longleftrightarrow> 48 \<le> c \<and> c \<le> 57 \<or> 97 \<le> c \<and> c \<le> 102"

definition hex :: "chars \<Rightarrow> nat \<Rightarrow> bool" where
  "hex name n \<longleftrightarrow> length name = n \<and> list_all hex_byte name"

definition payload_name :: "chars \<Rightarrow> bool \<Rightarrow> bool" where
  "payload_name name quarantine =
     (case strip_suffix_of (chars_of ''.safetensors'') name of
        None \<Rightarrow> False
      | Some stem \<Rightarrow>
          (case split_once (chars_of ''.'') stem of
             None \<Rightarrow> hex stem 64
           | Some (i, tail) \<Rightarrow> hex i 64 \<and>
               (tail = chars_of ''tmp'' \<or> quarantine \<and> tail \<noteq> [] \<and> list_all ascii_digit tail)))"

text \<open>The enumeration of a directory: sorted names, with \<open>.\<close> and \<open>..\<close> counted against its allowance.\<close>

definition sorted_names :: "'n managed_env \<Rightarrow> chars list \<Rightarrow> chars list managing" where
  "sorted_names env ns =
     m_bind (looks env (\<lambda>_. ())) (\<lambda>_.
     m_lift (ensure (length ns + 2 \<le> 8192) (Failure ''managed cache directory exceeds enumeration allowance'') (Inr (sort ns))))"

section \<open>Roots\<close>

text \<open>Where a payload of the earlier format lies: under the attachments or not, in a shard or in quarantine.\<close>

datatype place = Sharded bool chars chars | Quarantined bool chars

datatype 'n root_contents =
  Native_Root "index_file option"
| Legacy_Root "'n json option" "'n json option" bool "place list"

record 'n cache_root =
  mr_dir :: nat
  mr_locked :: bool
  mr_contents :: "'n root_contents"
  mr_bytes :: nat
  mr_age :: "int \<times> int"

definition reclaimable :: "'n cache_root \<Rightarrow> bool" where
  "reclaimable r \<longleftrightarrow> 0 < mr_bytes r \<and> mr_locked r \<and>
     (case mr_contents r of
        Native_Root ix \<Rightarrow> ix \<noteq> None
      | Legacy_Root target _ whole _ \<Rightarrow> target \<noteq> None \<and> whole)"

text \<open>The age of a root, when its index file was opened and when there is none.\<close>

definition age_of :: "'n managed_env \<Rightarrow> bool \<Rightarrow> int \<times> int \<Rightarrow> (int \<times> int) managing" where
  "age_of env present mtime = (if present then looks env (\<lambda>_. mtime) else m_return (2 ^ 63 - 1, 0))"

definition native_age :: "'n managed_env \<Rightarrow> native_dir \<Rightarrow> (int \<times> int) managing" where
  "native_age env d =
     m_bind (managed_call env (\<lambda>b. case nd_leaves d Index_Leaf of
         None \<Rightarrow> Inr (False, b)
       | Some (Regular _) \<Rightarrow> Inr (True, b)
       | Some Foreign \<Rightarrow> Inl (Failure ''managed cache leaf has unsafe type, ownership or permissions''))) (\<lambda>present.
     age_of env present (nd_mtime d))"

definition legacy_age :: "'n managed_env \<Rightarrow> legacy_dir \<Rightarrow> (int \<times> int) managing" where
  "legacy_age env d = m_bind (looks env (\<lambda>_. lp_index (ld_main d) \<noteq> None)) (\<lambda>present. age_of env present (ld_mtime d))"

definition add_payload :: "nat \<Rightarrow> nat \<Rightarrow> nat ckpt" where
  "add_payload acc bytes = failing (ckpt_add acc bytes)"

definition payload_leaves :: "leaf_name list" where
  "payload_leaves = map Payload [0..<PAYLOAD_SLOTS] @ [Payload_Temp]"

text \<open>The lengths of the payloads a root has, the temporary one included.\<close>

definition native_payloads :: "store_env \<Rightarrow> nat list rooted" where
  "native_payloads env =
     m_for payload_leaves (\<lambda>name found.
       m_bind (existing_leaf env name) (\<lambda>opened. case opened of
         None \<Rightarrow> m_return found
       | Some bs \<Rightarrow> m_bind (metadata env) (\<lambda>_. m_return (found @ [length bs])))) []"

text \<open>A lock file that cannot be opened is an error; one that cannot be locked is not, the root just is not locked.\<close>

definition lock_root :: "'n managed_env \<Rightarrow> root_lock \<Rightarrow> bool managing" where
  "lock_root env lock =
     m_bind (looks env (\<lambda>_. lock \<noteq> No_Lock)) (\<lambda>opened.
     if \<not> opened then m_return False
     else m_bind (m_try (managed_call env (\<lambda>b. if lock = Free_Lock then Inr ((), b) else Inl (Failure ''lock would block'')))) (\<lambda>r.
       m_return (case r of Inl _ \<Rightarrow> False | Inr _ \<Rightarrow> True)))"

definition native_root :: "'n managed_env \<Rightarrow> nat \<Rightarrow> 'n cache_root managing" where
  "native_root env i =
     m_bind (m_get (\<lambda>b. Inr (mb_native b ! i))) (\<lambda>d.
     m_bind (lock_root env (nd_lock d)) (\<lambda>locked.
     m_bind (m_try (on_native i (read_index (mv_store env)))) (\<lambda>read.
     m_bind (native_age env d) (\<lambda>age.
     m_bind (on_native i (native_payloads (mv_store env))) (\<lambda>sizes.
     m_bind (m_lift (try_fold add_payload 0 sizes)) (\<lambda>bytes.
     m_return \<lparr>mr_dir = i, mr_locked = locked, mr_contents = Native_Root (case read of Inl (_ :: ckpt_error) \<Rightarrow> None | Inr ix \<Rightarrow> ix),
       mr_bytes = bytes, mr_age = age\<rparr>))))))"

section \<open>The earlier format\<close>

definition empty_entries :: "'n json \<Rightarrow> 'n json" where
  "empty_entries v =
     (case v of
        J_Object kvs \<Rightarrow> J_Object (map (\<lambda>(k, x). if k = chars_of ''entries'' then (k, J_Array []) else (k, x)) kvs)
      | _ \<Rightarrow> v)"

definition recognised_index :: "string \<Rightarrow> 'n json \<Rightarrow> bool" where
  "recognised_index schema v \<longleftrightarrow>
     json_get (chars_of ''schema_version'') v = Some (J_String (chars_of schema)) \<and>
     (case json_get (chars_of ''entries'') v of Some (J_Array _) \<Rightarrow> True | _ \<Rightarrow> False) \<and>
     (case v of J_Object kvs \<Rightarrow> length kvs = 2 | _ \<Rightarrow> False)"

definition legacy_index :: "'n managed_env \<Rightarrow> legacy_part \<Rightarrow> string \<Rightarrow> 'n json option managing" where
  "legacy_index env part schema =
     m_bind (looks env (\<lambda>_. lp_index part)) (\<lambda>opened. case opened of
       None \<Rightarrow> m_return None
     | Some bytes \<Rightarrow>
         m_bind (looks env (\<lambda>_. length bytes)) (\<lambda>len.
         if 2 ^ 22 < len then m_return None
         else m_bind (looks env (\<lambda>_. bytes)) (\<lambda>bytes. m_return (case mv_parse env bytes of
             None \<Rightarrow> None
           | Some v \<Rightarrow> if recognised_index schema v then Some (empty_entries v) else None))))"

definition part_of :: "bool \<Rightarrow> legacy_dir \<Rightarrow> legacy_part option" where
  "part_of attached d = (if attached then ld_attachments d else Some (ld_main d))"

definition at_place :: "legacy_dir \<Rightarrow> place \<Rightarrow> byte list option" where
  "at_place d p =
     (case p of
        Sharded attached shard name \<Rightarrow> Option.bind (part_of attached d) (\<lambda>part.
          Option.bind (map_of (lp_shards part) shard) (\<lambda>files. map_of files name))
      | Quarantined attached name \<Rightarrow> Option.bind (part_of attached d) (\<lambda>part. map_of (lp_quarantine part) name))"

text \<open>A payload that is still there when it is opened is counted with its length.\<close>

definition note_payload :: "'n managed_env \<Rightarrow> legacy_dir \<Rightarrow> place \<Rightarrow> (place \<times> nat) list \<Rightarrow> (place \<times> nat) list managing" where
  "note_payload env d p found =
     m_bind (looks env (\<lambda>_. at_place d p)) (\<lambda>opened. case opened of
       None \<Rightarrow> m_return found
     | Some bs \<Rightarrow> m_bind (looks env (\<lambda>_. length bs)) (\<lambda>len. m_return (found @ [(p, len)])))"

definition collect_shard ::
    "'n managed_env \<Rightarrow> legacy_dir \<Rightarrow> bool \<Rightarrow> legacy_part \<Rightarrow> chars \<Rightarrow> (place \<times> nat) list \<Rightarrow> (place \<times> nat) list managing" where
  "collect_shard env d attached part shard found =
     m_bind (looks env (\<lambda>_. map fst (case map_of (lp_shards part) shard of None \<Rightarrow> [] | Some files \<Rightarrow> files))) (\<lambda>held.
     m_bind (sorted_names env held) (\<lambda>ns.
     m_for (filter (\<lambda>name. payload_name name False \<and> prefix shard name) ns)
       (\<lambda>name. note_payload env d (Sharded attached shard name)) found))"

definition collect_shards ::
    "'n managed_env \<Rightarrow> legacy_dir \<Rightarrow> bool \<Rightarrow> legacy_part \<Rightarrow> (place \<times> nat) list \<Rightarrow> (place \<times> nat) list managing" where
  "collect_shards env d attached part found =
     m_bind (looks env (\<lambda>_. map fst (lp_shards part))) (\<lambda>held.
     m_bind (sorted_names env held) (\<lambda>ns.
     m_for (filter (\<lambda>name. hex name 2) ns) (collect_shard env d attached part) found))"

definition collect_quarantine ::
    "'n managed_env \<Rightarrow> legacy_dir \<Rightarrow> bool \<Rightarrow> legacy_part \<Rightarrow> (place \<times> nat) list \<Rightarrow> (place \<times> nat) list managing" where
  "collect_quarantine env d attached part found =
     m_bind (looks env (\<lambda>_. map fst (lp_quarantine part))) (\<lambda>held.
     m_bind (sorted_names env held) (\<lambda>ns.
     m_for (filter (\<lambda>name. payload_name name True) ns) (\<lambda>name. note_payload env d (Quarantined attached name)) found))"

definition collect_payloads ::
    "'n managed_env \<Rightarrow> legacy_dir \<Rightarrow> bool \<Rightarrow> legacy_part \<Rightarrow> (place \<times> nat) list \<Rightarrow> (place \<times> nat) list managing" where
  "collect_payloads env d attached part found =
     m_bind (collect_shards env d attached part found) (collect_quarantine env d attached part)"

text \<open>The attachments: their payloads, and whether their index can be emptied with them.\<close>

definition legacy_attachments ::
    "'n managed_env \<Rightarrow> legacy_dir \<Rightarrow> (place \<times> nat) list \<Rightarrow> ((place \<times> nat) list \<times> 'n json option \<times> bool) managing" where
  "legacy_attachments env d found =
     m_bind (looks env (\<lambda>_. ld_attachments d)) (\<lambda>opened. case opened of
       None \<Rightarrow> m_return (found, None, True)
     | Some part \<Rightarrow>
         m_bind (collect_payloads env d True part found) (\<lambda>payloads.
         m_bind (legacy_index env part ''moespresso-disk-kv-attachment-v1'') (\<lambda>index.
         m_return (payloads, index, index \<noteq> None \<or> length payloads = length found))))"

definition legacy_root :: "'n managed_env \<Rightarrow> nat \<Rightarrow> 'n cache_root managing" where
  "legacy_root env i =
     m_bind (m_get (\<lambda>b. Inr (mb_legacy b ! i))) (\<lambda>d.
     m_bind (lock_root env (ld_lock d)) (\<lambda>locked.
     m_bind (legacy_age env d) (\<lambda>age.
     m_bind (legacy_index env (ld_main d) ''moespresso-disk-kv-v1'') (\<lambda>target.
     m_bind (collect_payloads env d False (ld_main d) []) (\<lambda>payloads.
     m_bind (legacy_attachments env d payloads) (\<lambda>(payloads, companion, whole).
     m_bind (m_lift (try_fold add_payload 0 (map snd payloads))) (\<lambda>bytes.
     m_return \<lparr>mr_dir = i, mr_locked = locked, mr_contents = Legacy_Root target companion whole (map fst payloads),
       mr_bytes = bytes, mr_age = age\<rparr>)))))))"

section \<open>Clearing a root\<close>

text \<open>The leaves of a root of the earlier format, changed in place.\<close>

definition update_part :: "bool \<Rightarrow> (legacy_part \<Rightarrow> legacy_part) \<Rightarrow> legacy_dir \<Rightarrow> legacy_dir" where
  "update_part attached f d =
     (if attached then d\<lparr>ld_attachments := map_option f (ld_attachments d)\<rparr> else d\<lparr>ld_main := f (ld_main d)\<rparr>)"

definition update_legacy :: "nat \<Rightarrow> (legacy_dir \<Rightarrow> legacy_dir) \<Rightarrow> managed_base \<Rightarrow> managed_base" where
  "update_legacy i f b = b\<lparr>mb_legacy := (mb_legacy b)[i := f (mb_legacy b ! i)]\<rparr>"

definition legacy_call :: "'n managed_env \<Rightarrow> nat \<Rightarrow> (legacy_dir \<Rightarrow> legacy_dir) \<Rightarrow> unit managing" where
  "legacy_call env i f = managed_call env (\<lambda>b. Inr ((), update_legacy i f b))"

text \<open>A write leaves the bytes, or when it fails a part of them.\<close>

definition write_temp :: "'n managed_env \<Rightarrow> nat \<Rightarrow> bool \<Rightarrow> byte list \<Rightarrow> unit managing" where
  "write_temp env i attached bs b =
     (let ok = sv_ok (mv_store env) (mb_calls b);
          kept = (if ok then bs else sv_partial (mv_store env) bs) in
      (if ok then Inr () else Inl (Failure ''write failed''),
       update_legacy i (update_part attached (\<lambda>part. part\<lparr>lp_temp := Some kept\<rparr>)) (b\<lparr>mb_calls := mb_calls b + 1\<rparr>)))"

definition has_temp :: "nat \<Rightarrow> bool \<Rightarrow> managed_base \<Rightarrow> bool" where
  "has_temp i attached b =
     (case part_of attached (mb_legacy b ! i) of None \<Rightarrow> False | Some part \<Rightarrow> lp_temp part \<noteq> None)"

definition empty_legacy_index :: "'n managed_env \<Rightarrow> nat \<Rightarrow> bool \<Rightarrow> 'n json \<Rightarrow> unit managing" where
  "empty_legacy_index env i attached index =
     m_bind (looks env (has_temp i attached)) (\<lambda>stale.
     m_bind (if stale then legacy_call env i (update_part attached (\<lambda>part. part\<lparr>lp_temp := None\<rparr>)) else m_return ()) (\<lambda>_.
     m_bind (legacy_call env i (update_part attached (\<lambda>part. part\<lparr>lp_temp := Some []\<rparr>))) (\<lambda>_.
     m_bind (write_temp env i attached (mv_print env (empty_entries index))) (\<lambda>_.
     m_bind (looks env (\<lambda>_. ())) (\<lambda>_.
     m_bind (legacy_call env i (update_part attached (\<lambda>part. part\<lparr>lp_index := lp_temp part, lp_temp := None\<rparr>))) (\<lambda>_.
     looks env (\<lambda>_. ())))))))"

definition remove_place :: "place \<Rightarrow> legacy_dir \<Rightarrow> legacy_dir" where
  "remove_place p d =
     (case p of
        Sharded attached shard name \<Rightarrow> update_part attached (\<lambda>part. part\<lparr>lp_shards :=
          map (\<lambda>(s, files). (s, if s = shard then filter (\<lambda>(n, _). n \<noteq> name) files else files)) (lp_shards part)\<rparr>) d
      | Quarantined attached name \<Rightarrow>
          update_part attached (\<lambda>part. part\<lparr>lp_quarantine := filter (\<lambda>(n, _). n \<noteq> name) (lp_quarantine part)\<rparr>) d)"

definition remove_legacy_payload :: "'n managed_env \<Rightarrow> nat \<Rightarrow> place \<Rightarrow> unit managing" where
  "remove_legacy_payload env i p =
     m_bind (looks env (\<lambda>b. at_place (mb_legacy b ! i) p)) (\<lambda>opened. case opened of
       None \<Rightarrow> m_return ()
     | Some _ \<Rightarrow> m_bind (legacy_call env i (remove_place p)) (\<lambda>_. looks env (\<lambda>_. ())))"

definition clear_native :: "'n managed_env \<Rightarrow> nat \<Rightarrow> index_file \<Rightarrow> unit managing" where
  "clear_native env i ix =
     (let empty = ix\<lparr>ix_entries := []\<rparr> in
      on_native i (m_bind (map_err unpublished (publish_index (mv_store env) empty)) (\<lambda>_. cleanup_unindexed (mv_store env) empty)))"

definition clear_legacy :: "'n managed_env \<Rightarrow> nat \<Rightarrow> 'n json \<Rightarrow> 'n json option \<Rightarrow> place list \<Rightarrow> unit managing" where
  "clear_legacy env i target companion places =
     m_bind (empty_legacy_index env i False target) (\<lambda>_.
     m_bind (case companion of None \<Rightarrow> m_return () | Some index \<Rightarrow> empty_legacy_index env i True index) (\<lambda>_.
     m_for places (\<lambda>p _. remove_legacy_payload env i p) ()))"

definition clear_root :: "'n managed_env \<Rightarrow> 'n cache_root \<Rightarrow> unit managing" where
  "clear_root env r =
     (case mr_contents r of
        Native_Root (Some ix) \<Rightarrow> clear_native env (mr_dir r) ix
      | Legacy_Root (Some target) companion True places \<Rightarrow> clear_legacy env (mr_dir r) target companion places
      | _ \<Rightarrow> m_lift (Inl (Failure ''managed root has no recognized index for cleanup'')))"

section \<open>The reservation\<close>

text \<open>The directories with the names the scan recognises, in the order of their names.\<close>

definition native_indices :: "managed_base \<Rightarrow> nat list" where
  "native_indices b =
     sort_key (\<lambda>i. nd_name (mb_native b ! i)) (filter (\<lambda>i. hex (nd_name (mb_native b ! i)) 64) [0..<length (mb_native b)])"

definition legacy_indices :: "managed_base \<Rightarrow> nat list" where
  "legacy_indices b =
     sort_key (\<lambda>i. ld_name (mb_legacy b ! i)) (filter (\<lambda>i. hex (ld_name (mb_legacy b ! i)) 12) [0..<length (mb_legacy b)])"

text \<open>Every recognised root but the current one.\<close>

definition native_roots :: "'n managed_env \<Rightarrow> nat \<Rightarrow> 'n cache_root list managing" where
  "native_roots env current =
     m_bind (looks env (\<lambda>b. map nd_name (mb_native b))) (\<lambda>held.
     m_bind (sorted_names env held) (\<lambda>_.
     m_bind (m_get (\<lambda>b. Inr (native_indices b))) (\<lambda>is.
     m_for is (\<lambda>i roots.
       m_bind (looks env (\<lambda>b. nd_inode (mb_native b ! i))) (\<lambda>inode.
       if inode = current then m_return roots
       else m_bind (native_root env i) (\<lambda>root. m_return (roots @ [root])))) [])))"

definition legacy_roots :: "'n managed_env \<Rightarrow> 'n cache_root list \<Rightarrow> 'n cache_root list managing" where
  "legacy_roots env roots =
     m_bind (looks env (\<lambda>b. map ld_name (mb_legacy b))) (\<lambda>held.
     m_bind (sorted_names env held) (\<lambda>_.
     m_bind (m_get (\<lambda>b. Inr (legacy_indices b))) (\<lambda>is.
     m_for is (\<lambda>i roots. m_bind (legacy_root env i) (\<lambda>root. m_return (roots @ [root]))) roots)))"

fun reclaim_loop :: "'n managed_env \<Rightarrow> nat \<Rightarrow> 'n cache_root list \<Rightarrow> nat \<Rightarrow> nat managing" where
  "reclaim_loop env room [] others = m_return others"
| "reclaim_loop env room (r # rs) others =
     (if others \<le> room then m_return others
      else m_bind (clear_root env r) (\<lambda>_. reclaim_loop env room rs (others - mr_bytes r)))"

definition reserve_room :: "nat \<Rightarrow> nat \<Rightarrow> nat \<Rightarrow> nat" where
  "reserve_room retained incoming limit = limit - min (saturating_add retained incoming) limit"

definition reserve_over ::
    "'n managed_env \<Rightarrow> nat \<Rightarrow> nat \<Rightarrow> nat \<Rightarrow> 'n cache_root list \<Rightarrow> nat managing" where
  "reserve_over env retained incoming limit roots =
     m_bind (m_lift (try_fold add_payload 0 (map mr_bytes roots))) (\<lambda>others.
     m_bind (reclaim_loop env (reserve_room retained incoming limit) (filter reclaimable (sort_key mr_age roots)) others) (\<lambda>others.
     m_return (limit - others)))"

definition reserve :: "'n managed_env \<Rightarrow> nat \<Rightarrow> nat \<Rightarrow> nat \<Rightarrow> nat \<Rightarrow> nat managing" where
  "reserve env current retained incoming limit =
     m_bind (looks env (\<lambda>_. ())) (\<lambda>_.
     m_bind (looks env (\<lambda>_. ())) (\<lambda>_.
     m_bind (looks env (\<lambda>_. ())) (\<lambda>_.
     m_bind (native_roots env current) (\<lambda>natives.
     m_bind (legacy_roots env natives) (\<lambda>roots.
     reserve_over env retained incoming limit roots)))))"

section \<open>Looking changes nothing\<close>

definition dirs :: "native_dir list \<Rightarrow> legacy_dir list \<Rightarrow> managed_base \<Rightarrow> bool" where
  "dirs N L b \<longleftrightarrow> mb_native b = N \<and> mb_legacy b = L"

text \<open>A method that leaves the directories alone and whose value satisfies \<open>R\<close>.\<close>

definition observes :: "native_dir list \<Rightarrow> legacy_dir list \<Rightarrow> 'a managing \<Rightarrow> ('a \<Rightarrow> bool) \<Rightarrow> bool" where
  "observes N L m R \<longleftrightarrow> triple (dirs N L) m (\<lambda>x b. dirs N L b \<and> R x) (\<lambda>_. dirs N L)"

lemma observes_weaken: "observes N L m R \<Longrightarrow> (\<And>x. R x \<Longrightarrow> R' x) \<Longrightarrow> observes N L m R'"
  unfolding observes_def by (erule triple_mono) auto

lemma observes_return: "R x \<Longrightarrow> observes N L (m_return x) R"
  by (simp add: observes_def triple_def)

lemma observes_bind: "observes N L m S \<Longrightarrow> (\<And>x. S x \<Longrightarrow> observes N L (f x) R) \<Longrightarrow> observes N L (m_bind m f) R"
  unfolding observes_def
  by (erule triple_bind, subst conj_commute, rule triple_assume)

lemma observes_lift: "(\<And>x. r = Inr x \<Longrightarrow> R x) \<Longrightarrow> observes N L (m_lift r) R"
  by (cases r) (simp_all add: observes_def triple_def)

lemma observes_lift_bind: "(\<And>x. r = Inr x \<Longrightarrow> observes N L (f x) R) \<Longrightarrow> observes N L (m_bind (m_lift r) f) R"
  by (rule observes_bind [OF observes_lift [where R = "\<lambda>x. r = Inr x"]])

lemma observes_get: "(\<And>b x. dirs N L b \<Longrightarrow> f b = Inr x \<Longrightarrow> R x) \<Longrightarrow> observes N L (m_get f) R"
  unfolding observes_def by (rule tripleI) auto

lemma observes_get_bind:
  assumes "\<And>b x. dirs N L b \<Longrightarrow> f b = Inr x \<Longrightarrow> observes N L (g x) R"
  shows "observes N L (m_bind (m_get f) g) R"
  by (rule observes_bind [OF observes_get [where R = "\<lambda>x. \<exists>b. dirs N L b \<and> f b = Inr x"]]) (use assms in auto)

lemma observes_looks: "(\<And>b. dirs N L b \<Longrightarrow> R (f b)) \<Longrightarrow> observes N L (looks env f) R"
  unfolding observes_def
  by (rule tripleI) (auto simp: looks_def managed_call_def Let_def dirs_def split: if_splits)

lemma observes_looks_bind:
  assumes "\<And>b. dirs N L b \<Longrightarrow> observes N L (k (f b)) R"
  shows "observes N L (m_bind (looks env f) k) R"
  by (rule observes_bind [OF observes_looks [where R = "\<lambda>x. \<exists>b. dirs N L b \<and> x = f b"]]) (use assms in auto)

lemma observes_option:
  "(x = None \<Longrightarrow> observes N L m R) \<Longrightarrow> (\<And>y. x = Some y \<Longrightarrow> observes N L (f y) R) \<Longrightarrow>
     observes N L (case x of None \<Rightarrow> m | Some y \<Rightarrow> f y) R"
  by (cases x) simp_all

lemma observes_if: "(c \<Longrightarrow> observes N L m R) \<Longrightarrow> (\<not> c \<Longrightarrow> observes N L n R) \<Longrightarrow> observes N L (if c then m else n) R"
  by simp

lemma observes_try: "observes N L m R \<Longrightarrow> observes N L (m_try m) (\<lambda>r. case r of Inl _ \<Rightarrow> True | Inr x \<Rightarrow> R x)"
  unfolding observes_def by (rule triple_try) (erule triple_mono, auto)

lemma observes_call:
  assumes "\<And>b x b'. dirs N L b \<Longrightarrow> f b = Inr (x, b') \<Longrightarrow> b' = b \<and> R x"
  shows "observes N L (managed_call env f) R"
  unfolding observes_def
proof (rule tripleI)
  fix s e t assume "dirs N L s" "managed_call env f s = (Inl e, t)"
  then show "dirs N L t" by (auto simp: managed_call_def Let_def dirs_def split: if_splits sum.splits)
next
  fix s x t assume s: "dirs N L s" and run: "managed_call env f s = (Inr x, t)"
  then have "f (s\<lparr>mb_calls := mb_calls s + 1\<rparr>) = Inr (x, t)"
    by (auto simp: managed_call_def Let_def split: if_splits sum.splits)
  from assms [OF _ this] s show "dirs N L t \<and> R x" by (simp add: dirs_def)
qed

text \<open>A loop that collects what each step contributes.\<close>

lemma observes_for:
  assumes "\<And>x a. x \<in> set xs \<Longrightarrow> observes N L (body x a) (\<lambda>y. y = a @ f x)"
  shows "observes N L (m_for xs body acc) (\<lambda>y. y = acc @ concat (map f xs))"
  using assms
proof (induction xs arbitrary: acc)
  case (Cons x xs)
  have "observes N L (m_bind (body x acc) (m_for xs body)) (\<lambda>y. y = acc @ concat (map f (x # xs)))"
    by (rule observes_bind [OF Cons.prems [OF list.set_intros(1)]], rule observes_weaken [OF Cons.IH]) (auto intro: Cons.prems)
  then show ?case by simp
qed (simp add: observes_return)

lemma observes_sorted_names: "observes N L (sorted_names env ns) (\<lambda>x. x = sort ns)"
  unfolding sorted_names_def by (intro observes_looks_bind observes_lift) (simp add: ensure_eq_Inr)

lemma native_unchanged: "N[i := (N ! i)\<lparr>nd_leaves := nd_leaves (N ! i)\<rparr>] = N"
proof -
  have "(N ! i)\<lparr>nd_leaves := nd_leaves (N ! i)\<rparr> = N ! i" by (cases "N ! i") simp
  then show ?thesis by simp
qed

lemma observes_on_native:
  assumes "rooted (\<lambda>l. l = nd_leaves (N ! i)) m (\<lambda>x l. l = nd_leaves (N ! i) \<and> R x) (\<lambda>_ l. l = nd_leaves (N ! i))"
  shows "observes N L (on_native i m) R"
  unfolding observes_def
proof (rule tripleI)
  fix s e t assume "dirs N L s" "on_native i m s = (Inl e, t)"
  then show "dirs N L t"
    using rooted_Inl [OF assms, of "\<lparr>rt_leaves = nd_leaves (N ! i), rt_calls = mb_calls s\<rparr>"] native_unchanged [of N i]
    by (auto simp: on_native_def Let_def dirs_def split: prod.splits)
next
  fix s x t assume "dirs N L s" "on_native i m s = (Inr x, t)"
  then show "dirs N L t \<and> R x"
    using rooted_Inr [OF assms, of "\<lparr>rt_leaves = nd_leaves (N ! i), rt_calls = mb_calls s\<rparr>"] native_unchanged [of N i]
    by (auto simp: on_native_def Let_def dirs_def split: prod.splits)
qed

section \<open>The bytes of a root\<close>

definition leaf_size :: "leaf option \<Rightarrow> nat" where
  "leaf_size l = (case l of Some (Regular bs) \<Rightarrow> length bs | _ \<Rightarrow> 0)"

definition native_bytes :: "(leaf_name \<Rightarrow> leaf option) \<Rightarrow> nat" where
  "native_bytes l = (\<Sum>name\<leftarrow>payload_leaves. leaf_size (l name))"

definition entry_at :: "legacy_dir \<Rightarrow> place \<Rightarrow> (place \<times> nat) list" where
  "entry_at d p = (case at_place d p of None \<Rightarrow> [] | Some bs \<Rightarrow> [(p, length bs)])"

definition shard_files :: "legacy_part \<Rightarrow> chars \<Rightarrow> chars list" where
  "shard_files part shard = map fst (case map_of (lp_shards part) shard of None \<Rightarrow> [] | Some files \<Rightarrow> files)"

definition part_places :: "bool \<Rightarrow> legacy_part \<Rightarrow> place list" where
  "part_places attached part =
     concat (map (\<lambda>shard. map (Sharded attached shard) (filter (\<lambda>name. payload_name name False \<and> prefix shard name) (sort (shard_files part shard))))
       (filter (\<lambda>name. hex name 2) (sort (map fst (lp_shards part))))) @
     map (Quarantined attached) (filter (\<lambda>name. payload_name name True) (sort (map fst (lp_quarantine part))))"

definition legacy_places :: "legacy_dir \<Rightarrow> place list" where
  "legacy_places d = part_places False (ld_main d) @ (case ld_attachments d of None \<Rightarrow> [] | Some part \<Rightarrow> part_places True part)"

definition collected :: "legacy_dir \<Rightarrow> place list \<Rightarrow> (place \<times> nat) list" where
  "collected d ps = concat (map (entry_at d) ps)"

definition legacy_bytes :: "legacy_dir \<Rightarrow> nat" where
  "legacy_bytes d = sum_list (map snd (collected d (legacy_places d)))"

lemma collected_simps [simp]:
  "collected d [] = []" "collected d (p # ps) = entry_at d p @ collected d ps" "collected d (ps @ qs) = collected d ps @ collected d qs"
  by (simp_all add: collected_def)

lemma collected_concat: "collected d (concat pss) = concat (map (collected d) pss)"
  by (induction pss) simp_all

lemma concat_entries: "concat (map (\<lambda>x. entry_at d (f x)) xs) = collected d (map f xs)"
  by (induction xs) simp_all

lemma rooted_native_payloads:
  "rooted (\<lambda>l. l = l0) (native_payloads env) (\<lambda>xs l. l = l0 \<and> sum_list xs = native_bytes l0) (\<lambda>_ l. l = l0)"
proof -
  let ?P = "\<lambda>ys xs l. l = l0 \<and> sum_list xs = (\<Sum>name\<leftarrow>ys. leaf_size (l0 name))"
  have "rooted (?P ys xs) (m_bind (existing_leaf env name) (\<lambda>opened. case opened of
         None \<Rightarrow> m_return xs
       | Some bs \<Rightarrow> m_bind (metadata env) (\<lambda>_. m_return (xs @ [length bs])))) (?P (ys @ [name])) (\<lambda>_ l. l = l0)" for ys name xs
  proof (rule rooted_step [OF rooted_existing_leaf], simp, rule rooted_option)
    fix opened :: "byte list option" assume o: "opened = None"
    from o show "rooted (\<lambda>l. ?P ys xs l \<and> found_leaf opened (l name)) (m_return xs) (?P (ys @ [name])) (\<lambda>_ l. l = l0)"
      by (intro rooted_return) (auto simp: leaf_size_def)
  next
    fix opened :: "byte list option" and bs assume "opened = Some bs"
    then show "rooted (\<lambda>l. ?P ys xs l \<and> found_leaf opened (l name)) (m_bind (metadata env) (\<lambda>_. m_return (xs @ [length bs])))
        (?P (ys @ [name])) (\<lambda>_ l. l = l0)"
      by (intro rooted_step [OF rooted_file_call]) (auto intro!: rooted_return simp: leaf_size_def)
  qed
  from rooted_for_visited [where P = ?P and xs = payload_leaves and acc = "[]", OF this]
  show ?thesis
    unfolding native_payloads_def by (rule rooted_mono) (auto simp: native_bytes_def)
qed

text \<open>An index is recognised when its file is a regular one that parses and validates.\<close>

definition index_in :: "store_env \<Rightarrow> index_file \<Rightarrow> leaf option \<Rightarrow> bool" where
  "index_in env ix l \<longleftrightarrow> (\<exists>bs. l = Some (Regular bs) \<and> length bs \<le> MAX_INDEX_BYTES \<and> from_json env bs = Some ix) \<and> index_validate ix = Inr ()"

lemma rooted_read_index_same:
  "rooted (\<lambda>l. l = l0) (read_index env) (\<lambda>read l. l = l0 \<and> (case read of None \<Rightarrow> True | Some ix \<Rightarrow> index_in env ix (l0 Index_Leaf)))
     (\<lambda>_ l. l = l0)"
  unfolding read_index_def
  by (rule rooted_step [OF rooted_existing_leaf], simp, rule rooted_option, rule rooted_return, simp,
      rule rooted_step [OF rooted_file_call], simp, rule rooted_lift_bind, rule rooted_step [OF rooted_read_leaf], simp,
      rule rooted_lift_bind, rule rooted_lift_bind, rule rooted_return)
    (auto simp: index_in_def ensure_eq_Inr ok_or_eq_Inr failing_Inr)

lemma add_payload_Inr: "add_payload acc n = Inr r \<Longrightarrow> r = acc + n"
  by (auto simp: add_payload_def failing_def ckpt_add_def ok_or_def checked_add_def split: if_splits)

lemma add_payloads: "try_fold add_payload acc ns = Inr r \<Longrightarrow> r = acc + sum_list ns"
proof (induction ns arbitrary: acc)
  case (Cons n ns)
  from Cons.prems have "try_fold add_payload (acc + n) ns = Inr r" by (auto simp: bindr_eq_Inr dest!: add_payload_Inr)
  from Cons.IH [OF this] show ?case by simp
qed simp

section \<open>Discovery\<close>

lemma observes_for_visited:
  assumes "\<And>ys x a. x \<in> set xs \<Longrightarrow> P ys a \<Longrightarrow> observes N L (body x a) (P (ys @ [x]))" "P [] acc"
  shows "observes N L (m_for xs body acc) (P xs)"
proof -
  have "observes N L (m_for zs body a) (P xs)" if "xs = ys @ zs" "P ys a" for ys zs a
    using that
  proof (induction zs arbitrary: ys a)
    case (Cons z zs)
    have "observes N L (m_bind (body z a) (m_for zs body)) (P xs)"
      by (rule observes_bind [OF assms(1) [OF _ Cons.prems(2)]], use Cons.prems(1) in simp, rule Cons.IH)
        (use Cons.prems(1) in auto)
    then show ?case by simp
  qed (simp add: observes_return)
  from this [of "[]" xs acc] assms(2) show ?thesis by simp
qed

text \<open>
  What a root is found to be, in terms of its directory: when it was last saved to (a root without an index is the youngest), whether
  its index is recognised, whether the attachments of the earlier format go with it, and its bytes.
\<close>

definition saved_at :: "bool \<Rightarrow> int \<times> int \<Rightarrow> int \<times> int" where
  "saved_at present mtime = (if present then mtime else (9223372036854775807, 0))"

definition native_found :: "'n managed_env \<Rightarrow> native_dir list \<Rightarrow> 'n cache_root \<Rightarrow> bool" where
  "native_found env N r \<longleftrightarrow>
     (let d = N ! mr_dir r in
      (mr_locked r \<longrightarrow> nd_lock d = Free_Lock) \<and>
      (\<exists>read. mr_contents r = Native_Root read \<and>
         (case read of None \<Rightarrow> True | Some ix \<Rightarrow> index_in (mv_store env) ix (nd_leaves d Index_Leaf))) \<and>
      mr_bytes r = native_bytes (nd_leaves d) \<and> mr_age r = saved_at (nd_leaves d Index_Leaf \<noteq> None) (nd_mtime d))"

definition recognised_part :: "'n managed_env \<Rightarrow> string \<Rightarrow> legacy_part \<Rightarrow> 'n json option" where
  "recognised_part env schema part =
     Option.bind (lp_index part) (\<lambda>bs. if length bs \<le> 2 ^ 22 then Option.bind (mv_parse env bs)
       (\<lambda>v. if recognised_index schema v then Some (empty_entries v) else None) else None)"

definition attachments_follow :: "'n managed_env \<Rightarrow> legacy_dir \<Rightarrow> bool" where
  "attachments_follow env d \<longleftrightarrow>
     (case ld_attachments d of None \<Rightarrow> True
      | Some part \<Rightarrow> recognised_part env ''moespresso-disk-kv-attachment-v1'' part \<noteq> None \<or> collected d (part_places True part) = [])"

definition legacy_found :: "'n managed_env \<Rightarrow> legacy_dir list \<Rightarrow> 'n cache_root \<Rightarrow> bool" where
  "legacy_found env L r \<longleftrightarrow>
     (let d = L ! mr_dir r in
      (mr_locked r \<longrightarrow> ld_lock d = Free_Lock) \<and>
      mr_contents r = Legacy_Root (recognised_part env ''moespresso-disk-kv-v1'' (ld_main d))
        (Option.bind (ld_attachments d) (recognised_part env ''moespresso-disk-kv-attachment-v1''))
        (attachments_follow env d) (map fst (collected d (legacy_places d))) \<and>
      mr_bytes r = legacy_bytes d \<and> mr_age r = saved_at (lp_index (ld_main d) \<noteq> None) (ld_mtime d))"

lemma observes_lock_root: "observes N L (lock_root env lock) (\<lambda>locked. locked \<longrightarrow> lock = Free_Lock)"
proof -
  have "observes N L (managed_call env (\<lambda>b. if lock = Free_Lock then Inr ((), b) else Inl (Failure ''lock would block''))) (\<lambda>_. lock = Free_Lock)"
    by (rule observes_call) (auto split: if_splits)
  from observes_try [OF this] show ?thesis
    unfolding lock_root_def
    by (intro observes_looks_bind observes_if observes_return observes_bind) (auto intro!: observes_return split: sum.splits)
qed

lemma observes_age_of: "observes N L (age_of env present mtime) (\<lambda>age. age = saved_at present mtime)"
  unfolding age_of_def by (intro observes_if observes_looks observes_return) (simp_all add: saved_at_def)

lemma observes_native_age: "observes N L (native_age env d) (\<lambda>age. age = saved_at (nd_leaves d Index_Leaf \<noteq> None) (nd_mtime d))"
  unfolding native_age_def
proof (rule observes_bind)
  show "observes N L (managed_call env (\<lambda>b. case nd_leaves d Index_Leaf of
         None \<Rightarrow> Inr (False, b)
       | Some (Regular _) \<Rightarrow> Inr (True, b)
       | Some Foreign \<Rightarrow> Inl (Failure ''managed cache leaf has unsafe type, ownership or permissions'')))
      (\<lambda>present. present = (nd_leaves d Index_Leaf \<noteq> None))"
    by (rule observes_call) (auto split: option.splits leaf.splits)
qed (use observes_age_of in blast)

lemma observes_legacy_age: "observes N L (legacy_age env d) (\<lambda>age. age = saved_at (lp_index (ld_main d) \<noteq> None) (ld_mtime d))"
  unfolding legacy_age_def by (intro observes_looks_bind observes_age_of)

lemma observes_native_root: "observes N L (native_root env i) (\<lambda>r. mr_dir r = i \<and> native_found env N r)"
  unfolding native_root_def
proof (rule observes_get_bind, rule observes_bind [OF observes_lock_root])
  fix b d locked assume b: "dirs N L b" "Inr (mb_native b ! i) = Inr d" and locked: "locked \<longrightarrow> nd_lock d = Free_Lock"
  then have d: "d = N ! i" by (simp add: dirs_def)
  let ?R = "\<lambda>r :: 'a cache_root. mr_dir r = i \<and> native_found env N r"
  show "observes N L (m_bind (m_try (on_native i (read_index (mv_store env)))) (\<lambda>read.
     m_bind (native_age env d) (\<lambda>age.
     m_bind (on_native i (native_payloads (mv_store env))) (\<lambda>sizes.
     m_bind (m_lift (try_fold add_payload 0 sizes)) (\<lambda>bytes.
     m_return \<lparr>mr_dir = i, mr_locked = locked, mr_contents = Native_Root (case read of Inl (_ :: ckpt_error) \<Rightarrow> None | Inr ix \<Rightarrow> ix),
       mr_bytes = bytes, mr_age = age\<rparr>))))) ?R"
  proof (rule observes_bind [OF observes_try [OF observes_on_native [OF rooted_read_index_same]]],
      rule observes_bind [OF observes_native_age], rule observes_bind [OF observes_on_native [OF rooted_native_payloads]],
      rule observes_lift_bind, rule observes_return)
    fix read :: "ckpt_error + index_file option" and age sizes bytes
    assume "case read of Inl _ \<Rightarrow> True | Inr x \<Rightarrow> (case x of None \<Rightarrow> True | Some ix \<Rightarrow> index_in (mv_store env) ix (nd_leaves (N ! i) Index_Leaf))"
      and "age = saved_at (nd_leaves d Index_Leaf \<noteq> None) (nd_mtime d)" "sum_list sizes = native_bytes (nd_leaves (N ! i))"
      and "try_fold add_payload 0 sizes = Inr bytes"
    then show "?R \<lparr>mr_dir = i, mr_locked = locked, mr_contents = Native_Root (case read of Inl (_ :: ckpt_error) \<Rightarrow> None | Inr ix \<Rightarrow> ix),
       mr_bytes = bytes, mr_age = age\<rparr>"
      using locked d by (auto simp: native_found_def Let_def dest!: add_payloads split: sum.splits option.splits)
  qed
qed

lemma observes_note_payload: "observes N L (note_payload env d p found) (\<lambda>y. y = found @ entry_at d p)"
  unfolding note_payload_def
  by (intro observes_looks_bind observes_option observes_return) (simp_all add: entry_at_def)

lemma observes_collect_payloads:
  "observes N L (collect_payloads env d attached part found) (\<lambda>y. y = found @ collected d (part_places attached part))"
proof -
  have shard: "observes N L (collect_shard env d attached part shard acc) (\<lambda>y. y = acc @ collected d
      (map (Sharded attached shard) (filter (\<lambda>name. payload_name name False \<and> prefix shard name) (sort (shard_files part shard)))))"
    for shard acc
    unfolding collect_shard_def
    by (intro observes_looks_bind observes_bind [OF observes_sorted_names], simp,
        rule observes_weaken [OF observes_for [where f = "\<lambda>name. entry_at d (Sharded attached shard name)"]])
      (simp_all add: observes_note_payload concat_entries shard_files_def)
  have shards: "observes N L (collect_shards env d attached part acc) (\<lambda>y. y = acc @ collected d (concat (map (\<lambda>shard.
      map (Sharded attached shard) (filter (\<lambda>name. payload_name name False \<and> prefix shard name) (sort (shard_files part shard))))
      (filter (\<lambda>name. hex name 2) (sort (map fst (lp_shards part)))))))" for acc
    unfolding collect_shards_def
    by (intro observes_looks_bind observes_bind [OF observes_sorted_names], simp,
        rule observes_weaken [OF observes_for [OF shard]]) (simp add: collected_concat comp_def)
  have quarantine: "observes N L (collect_quarantine env d attached part acc) (\<lambda>y. y = acc @ collected d
      (map (Quarantined attached) (filter (\<lambda>name. payload_name name True) (sort (map fst (lp_quarantine part))))))" for acc
    unfolding collect_quarantine_def
    by (intro observes_looks_bind observes_bind [OF observes_sorted_names], simp,
        rule observes_weaken [OF observes_for [where f = "\<lambda>name. entry_at d (Quarantined attached name)"]])
      (simp_all add: observes_note_payload concat_entries)
  show ?thesis
    unfolding collect_payloads_def part_places_def
    by (rule observes_bind [OF shards], rule observes_weaken [OF quarantine]) simp
qed

lemma observes_legacy_index: "observes N L (legacy_index env part schema) (\<lambda>read. read = recognised_part env schema part)"
  unfolding legacy_index_def
  by (intro observes_looks_bind observes_option observes_return observes_if)
    (auto simp: recognised_part_def split: option.splits)

lemma observes_legacy_attachments:
  "observes N L (legacy_attachments env d payloads) (\<lambda>(all_payloads, companion, whole).
     all_payloads = payloads @ collected d (case ld_attachments d of None \<Rightarrow> [] | Some part \<Rightarrow> part_places True part) \<and>
     companion = Option.bind (ld_attachments d) (recognised_part env ''moespresso-disk-kv-attachment-v1'') \<and> whole = attachments_follow env d)"
  unfolding legacy_attachments_def
  by (intro observes_looks_bind observes_option observes_return observes_bind [OF observes_collect_payloads]
      observes_bind [OF observes_legacy_index]) (auto simp: attachments_follow_def)

lemma observes_legacy_root: "observes N L (legacy_root env i) (\<lambda>r. mr_dir r = i \<and> legacy_found env L r)"
  unfolding legacy_root_def case_prod_beta
  by (rule observes_get_bind, rule observes_bind [OF observes_lock_root], rule observes_bind [OF observes_legacy_age],
      rule observes_bind [OF observes_legacy_index], rule observes_bind [OF observes_collect_payloads],
      rule observes_bind [OF observes_legacy_attachments], rule observes_lift_bind, rule observes_return)
    (auto simp: dirs_def legacy_found_def Let_def legacy_bytes_def legacy_places_def dest!: add_payloads)

text \<open>All roots: the natives but the current one, then those of the earlier format.\<close>

abbreviation is_native :: "'n cache_root \<Rightarrow> bool" where
  "is_native r \<equiv> (case mr_contents r of Native_Root _ \<Rightarrow> True | Legacy_Root _ _ _ _ \<Rightarrow> False)"

definition others_native :: "nat \<Rightarrow> native_dir list \<Rightarrow> nat list" where
  "others_native current N = filter (\<lambda>i. nd_inode (N ! i) \<noteq> current)
     (sort_key (\<lambda>i. nd_name (N ! i)) (filter (\<lambda>i. hex (nd_name (N ! i)) 64) [0..<length N]))"

definition others_legacy :: "legacy_dir list \<Rightarrow> nat list" where
  "others_legacy L = sort_key (\<lambda>i. ld_name (L ! i)) (filter (\<lambda>i. hex (ld_name (L ! i)) 12) [0..<length L])"

lemma observes_native_roots:
  "observes N L (native_roots env current) (\<lambda>rs. map mr_dir rs = others_native current N \<and> list_all (native_found env N) rs)"
  unfolding native_roots_def
proof (rule observes_looks_bind, rule observes_bind [OF observes_sorted_names], rule observes_get_bind)
  fix b b' :: managed_base and ns ids assume b: "dirs N L b'" "Inr (native_indices b') = Inr ids"
  let ?P = "\<lambda>ys rs. map mr_dir rs = filter (\<lambda>i. nd_inode (N ! i) \<noteq> current) ys \<and> list_all (native_found env N) rs"
  have "observes N L (m_bind (looks env (\<lambda>b. nd_inode (mb_native b ! i))) (\<lambda>inode.
       if inode = current then m_return rs
       else m_bind (native_root env i) (\<lambda>root. m_return (rs @ [root])))) (?P (ys @ [i]))" if "?P ys rs" for ys i rs
    using that
    by (intro observes_looks_bind observes_if observes_return observes_bind [OF observes_native_root]) (auto simp: dirs_def)
  from observes_for_visited [where P = ?P and xs = ids and acc = "[]", OF this]
  show "observes N L (m_for ids (\<lambda>i roots. m_bind (looks env (\<lambda>b. nd_inode (mb_native b ! i))) (\<lambda>inode.
       if inode = current then m_return roots
       else m_bind (native_root env i) (\<lambda>root. m_return (roots @ [root])))) [])
     (\<lambda>rs. map mr_dir rs = others_native current N \<and> list_all (native_found env N) rs)"
    using b by (simp add: others_native_def native_indices_def dirs_def)
qed

lemma observes_legacy_roots:
  "observes N L (legacy_roots env roots) (\<lambda>rs. \<exists>later. rs = roots @ later \<and> map mr_dir later = others_legacy L \<and> list_all (legacy_found env L) later)"
  unfolding legacy_roots_def
proof (rule observes_looks_bind, rule observes_bind [OF observes_sorted_names], rule observes_get_bind)
  fix b b' :: managed_base and ns ids assume b: "dirs N L b'" "Inr (legacy_indices b') = Inr ids"
  let ?P = "\<lambda>ys rs. \<exists>later. rs = roots @ later \<and> map mr_dir later = ys \<and> list_all (legacy_found env L) later"
  have "observes N L (m_bind (legacy_root env i) (\<lambda>root. m_return (rs @ [root]))) (?P (ys @ [i]))" if "?P ys rs" for ys i rs
    using that
    by (intro observes_bind [OF observes_legacy_root] observes_return) auto
  from observes_for_visited [where P = ?P and xs = ids and acc = roots, OF this]
  show "observes N L (m_for ids (\<lambda>i roots. m_bind (legacy_root env i) (\<lambda>root. m_return (roots @ [root]))) roots)
     (\<lambda>rs. \<exists>later. rs = roots @ later \<and> map mr_dir later = others_legacy L \<and> list_all (legacy_found env L) later)"
    using b by (simp add: others_legacy_def legacy_indices_def dirs_def)
qed

section \<open>Clearing\<close>

text \<open>A method that may change one native directory, or one of the earlier format.\<close>

definition native_put :: "nat \<Rightarrow> (leaf_name \<Rightarrow> leaf option) \<Rightarrow> native_dir list \<Rightarrow> native_dir list" where
  "native_put i l N = N[i := (N ! i)\<lparr>nd_leaves := l\<rparr>]"

lemma triple_on_native:
  assumes "rooted (\<lambda>l. l = nd_leaves (N ! i)) m (\<lambda>x. Q) (\<lambda>_ _. True)"
  shows "triple (dirs N L) (on_native i m) (\<lambda>x b. \<exists>l. Q l \<and> dirs (native_put i l N) L b) (\<lambda>_ b. \<exists>l. dirs (native_put i l N) L b)"
proof (rule tripleI)
  fix s e t assume "dirs N L s" "on_native i m s = (Inl e, t)"
  then show "\<exists>l. dirs (native_put i l N) L t" by (auto simp: on_native_def Let_def dirs_def native_put_def split: prod.splits)
next
  fix s x t assume "dirs N L s" "on_native i m s = (Inr x, t)"
  then show "\<exists>l. Q l \<and> dirs (native_put i l N) L t"
    using rooted_Inr [OF assms, of "\<lparr>rt_leaves = nd_leaves (N ! i), rt_calls = mb_calls s\<rparr>"]
    by (auto simp: on_native_def Let_def dirs_def native_put_def split: prod.splits)
qed

lemma rooted_True: "rooted P m (\<lambda>_ _. True) (\<lambda>_ _. True)"
  by (rule rootedI) simp_all

lemma rooted_unlink_all:
  "rooted P (unlink_leaf env name) (\<lambda>_ l. l name = None \<and> (\<exists>l'. P l' \<and> (l = l' \<or> l = l'(name := None)))) (\<lambda>_ _. True)"
  by (rule rooted_mono [OF rooted_unlink_leaf [where P = P and Q = "\<lambda>l. \<exists>l'. P l' \<and> (l = l' \<or> l = l'(name := None))"]]) auto

lemma rooted_sweep_all:
  assumes "ix_entries ix = []"
  shows "rooted (\<lambda>_. True) (cleanup_unindexed env ix) (\<lambda>_ l. \<forall>name\<in>set payload_leaves. l name = None) (\<lambda>_ _. True)"
proof -
  let ?T = "\<lambda>l. l Payload_Temp = None" and ?P = "\<lambda>ys (_ :: bool) l. l Payload_Temp = None \<and> (\<forall>slot\<in>set ys. l (Payload slot) = None)"
  have temp: "rooted (\<lambda>_. True) (unlink_leaf env Payload_Temp) (\<lambda>_. ?T) (\<lambda>_ _. True)"
    by (rule rooted_mono [OF rooted_unlink_all [where P = "\<lambda>_. True"]]) auto
  have index: "rooted ?T (unlink_leaf env Index_Temp) (\<lambda>_. ?T) (\<lambda>_ _. True)"
    by (rule rooted_mono [OF rooted_unlink_all [where P = ?T]]) auto
  have slot: "rooted (?P ys removed) (m_bind (unlink_leaf env (Payload slot)) (\<lambda>c. m_return (removed \<or> c))) (?P (ys @ [slot])) (\<lambda>_ _. True)"
    for ys slot removed
    by (rule rooted_bind [OF rooted_unlink_all [where P = "?P ys removed"]]) (rule rooted_return, auto)
  have all: "?P [0..<PAYLOAD_SLOTS] removed l \<Longrightarrow> \<forall>name\<in>set payload_leaves. l name = None" for removed l
    by (auto simp: payload_leaves_def)
  have loop: "rooted ?T (m_for [0..<PAYLOAD_SLOTS] (\<lambda>slot removed.
       if slot \<in> ie_slot ` set (ix_entries ix) then m_return removed
       else m_bind (unlink_leaf env (Payload slot)) (\<lambda>c. m_return (removed \<or> c))) acc) (?P [0..<PAYLOAD_SLOTS]) (\<lambda>_ _. True)" for acc
  proof (rule rooted_mono [OF rooted_for_visited [where P = ?P and acc = acc and xs = "[0..<PAYLOAD_SLOTS]" and E = "\<lambda>_ _. True"]])
    fix ys slot zs removed
    show "rooted (?P ys removed) (if slot \<in> ie_slot ` set (ix_entries ix) then m_return removed
       else m_bind (unlink_leaf env (Payload slot)) (\<lambda>c. m_return (removed \<or> c))) (?P (ys @ [slot])) (\<lambda>_ _. True)"
      using slot [of ys slot removed] by (simp add: assms)
  qed simp_all
  have last: "rooted (?P [0..<PAYLOAD_SLOTS] removed) (if removed then sync_all env else m_return ())
      (\<lambda>_ l. \<forall>name\<in>set payload_leaves. l name = None) (\<lambda>_ _. True)" for removed
    by (rule rooted_if, rule rooted_mono [OF rooted_file_call [where P = "?P [0..<PAYLOAD_SLOTS] removed"]], simp, erule all, simp,
        rule rooted_return, erule all)
  show ?thesis
    unfolding cleanup_unindexed_def
    by (rule rooted_bind [OF temp], rule rooted_bind [OF index], rule rooted_bind [OF loop last])
qed

lemma native_bytes_none: "\<forall>name\<in>set payload_leaves. l name = None \<Longrightarrow> native_bytes l = 0"
  by (simp add: native_bytes_def leaf_size_def sum_list_eq_0_iff)

lemma triple_clear_native:
  "triple (dirs N L) (clear_native env i ix) (\<lambda>_ b. \<exists>l. native_bytes l = 0 \<and> dirs (native_put i l N) L b) (\<lambda>_ b. \<exists>l. dirs (native_put i l N) L b)"
  unfolding clear_native_def Let_def
proof (rule triple_on_native, rule rooted_bind [OF rooted_True])
  show "rooted (\<lambda>_. True) (cleanup_unindexed (mv_store env) (ix\<lparr>ix_entries := []\<rparr>)) (\<lambda>_ l. native_bytes l = 0) (\<lambda>_ _. True)"
    by (rule rooted_mono [OF rooted_sweep_all]) (auto intro: native_bytes_none)
qed

text \<open>What a directory of the earlier format is but for its indices.\<close>

definition shelf where
  "shelf d = (ld_name d, ld_lock d, ld_mtime d, (lp_shards (ld_main d), lp_quarantine (ld_main d)),
     map_option (\<lambda>part. (lp_shards part, lp_quarantine part)) (ld_attachments d))"

lemma shelf_eqD:
  assumes "shelf d = shelf d'"
  shows "at_place d = at_place d'" "legacy_places d = legacy_places d'"
proof -
  have main: "lp_shards (ld_main d) = lp_shards (ld_main d')" "lp_quarantine (ld_main d) = lp_quarantine (ld_main d')"
    and att: "map_option (\<lambda>part. (lp_shards part, lp_quarantine part)) (ld_attachments d) =
      map_option (\<lambda>part. (lp_shards part, lp_quarantine part)) (ld_attachments d')"
    using assms by (simp_all add: shelf_def)
  show "at_place d = at_place d'"
  proof
    fix p
    show "at_place d p = at_place d' p"
      using main att by (cases p; cases "ld_attachments d"; cases "ld_attachments d'") (auto simp: at_place_def part_of_def)
  qed
  show "legacy_places d = legacy_places d'"
    using main att by (cases "ld_attachments d"; cases "ld_attachments d'") (simp_all add: legacy_places_def part_places_def shard_files_def)
qed

lemma shelf_update_index:
  "(\<And>part. lp_shards (f part) = lp_shards part \<and> lp_quarantine (f part) = lp_quarantine part) \<Longrightarrow> shelf (update_part attached f d) = shelf d"
  by (simp add: shelf_def update_part_def option.map_comp comp_def)

lemma map_of_filter_names: "map_of (filter (\<lambda>(n, _). n \<noteq> name) files) n' = (if n' = name then None else map_of files n')"
  by (induction files) auto

lemma map_of_shards:
  "map_of (map (\<lambda>(s, files). (s, if s = shard then f files else files)) shards) s' =
     map_option (\<lambda>files. if s' = shard then f files else files) (map_of shards s')"
  by (induction shards) auto

lemma at_place_remove: "at_place (remove_place p d) q = (if q = p then None else at_place d q)"
proof (cases p)
  case (Sharded attached shard name)
  then show ?thesis
    by (cases q; cases "ld_attachments d")
      (auto simp: at_place_def remove_place_def update_part_def part_of_def map_of_shards map_of_filter_names split: option.split bind_splits)
next
  case (Quarantined attached name)
  then show ?thesis
    by (cases q; cases "ld_attachments d")
      (auto simp: at_place_def remove_place_def update_part_def part_of_def map_of_filter_names)
qed

lemma fst_shards: "map fst (map (\<lambda>(s, files). (s, g s files)) shards) = map fst shards"
  by (induction shards) auto

lemma in_part_places:
  "p \<in> set (part_places attached part) \<longleftrightarrow>
     (case p of
        Sharded a s n \<Rightarrow> a = attached \<and> hex s 2 \<and> s \<in> fst ` set (lp_shards part) \<and> n \<in> set (shard_files part s) \<and>
          payload_name n False \<and> prefix s n
      | Quarantined a n \<Rightarrow> a = attached \<and> payload_name n True \<and> n \<in> fst ` set (lp_quarantine part))"
  by (cases p) (simp_all add: part_places_def image_iff, fastforce+)

lemma part_places_mono:
  assumes "fst ` set (lp_shards part') = fst ` set (lp_shards part)" "\<And>s. set (shard_files part' s) \<subseteq> set (shard_files part s)"
    "fst ` set (lp_quarantine part') \<subseteq> fst ` set (lp_quarantine part)"
  shows "set (part_places attached part') \<subseteq> set (part_places attached part)"
proof
  fix p assume "p \<in> set (part_places attached part')"
  then show "p \<in> set (part_places attached part)"
    unfolding in_part_places assms(1) using assms(2,3) by (cases p) (simp, blast)+
qed

lemma part_places_shards:
  "set (part_places attached (part\<lparr>lp_shards := map (\<lambda>(s, files). (s, if s = shard then filter (\<lambda>(n, _). n \<noteq> name) files else files)) (lp_shards part)\<rparr>))
     \<subseteq> set (part_places attached part)"
proof (rule part_places_mono)
  show "fst ` set (lp_shards (part\<lparr>lp_shards := map (\<lambda>(s, files). (s, if s = shard then filter (\<lambda>(n, _). n \<noteq> name) files else files)) (lp_shards part)\<rparr>))
      = fst ` set (lp_shards part)"
    by (force simp: image_iff)
qed (auto simp: shard_files_def map_of_shards split: option.split)

lemma part_places_quarantine:
  "set (part_places attached (part\<lparr>lp_quarantine := filter (\<lambda>(n, _). n \<noteq> name) (lp_quarantine part)\<rparr>)) \<subseteq> set (part_places attached part)"
  by (rule part_places_mono) (auto simp: shard_files_def)

lemma places_update:
  assumes "\<And>attached' part. set (part_places attached' (f part)) \<subseteq> set (part_places attached' part)"
  shows "set (legacy_places (update_part attached f d)) \<subseteq> set (legacy_places d)"
  using assms [of False "ld_main d"] assms [of True "the (ld_attachments d)"]
  by (cases "ld_attachments d") (auto simp: legacy_places_def update_part_def)

lemma places_remove: "set (legacy_places (remove_place p d)) \<subseteq> set (legacy_places d)"
  by (cases p) (simp_all add: remove_place_def places_update part_places_shards part_places_quarantine)

lemma remove_keeps: "ld_name (remove_place p d) = ld_name d" "ld_lock (remove_place p d) = ld_lock d"
  by (cases p; simp add: remove_place_def update_part_def)+

section \<open>Clearing a root of the earlier format\<close>

definition legacy_at :: "nat \<Rightarrow> native_dir list \<Rightarrow> legacy_dir list \<Rightarrow> (legacy_dir \<Rightarrow> bool) \<Rightarrow> managed_base \<Rightarrow> bool" where
  "legacy_at i N L R b \<longleftrightarrow> (\<exists>d. R d \<and> dirs N (L[i := d]) b)"

lemma legacy_at_mono: "legacy_at i N L R b \<Longrightarrow> (\<And>d. R d \<Longrightarrow> R' d) \<Longrightarrow> legacy_at i N L R' b"
  by (auto simp: legacy_at_def)

lemma legacy_atI: "R d \<Longrightarrow> dirs N (L[i := d]) b \<Longrightarrow> legacy_at i N L R b"
  by (auto simp: legacy_at_def)

lemma triple_legacy_call:
  assumes "i < length L" "\<And>d. R d \<Longrightarrow> R' (f d)" "\<And>d. R d \<Longrightarrow> E d"
  shows "triple (legacy_at i N L R) (legacy_call env i f) (\<lambda>_. legacy_at i N L R') (\<lambda>_. legacy_at i N L E)"
proof (rule tripleI)
  fix s e t assume "legacy_at i N L R s" "legacy_call env i f s = (Inl e, t)"
  then obtain d where "R d" "dirs N (L[i := d]) t"
    by (auto simp: legacy_call_def managed_call_def Let_def legacy_at_def dirs_def split: if_splits)
  then show "legacy_at i N L E t" by (intro legacy_atI) (rule assms(3))
next
  fix s x t assume "legacy_at i N L R s" "legacy_call env i f s = (Inr x, t)"
  then obtain d where "R d" "dirs N (L[i := f d]) t"
    using assms(1) by (auto simp: legacy_call_def managed_call_def Let_def legacy_at_def dirs_def update_legacy_def split: if_splits)
  then show "legacy_at i N L R' t" by (intro legacy_atI) (rule assms(2))
qed

lemma triple_legacy_looks:
  assumes "i < length L" "\<And>d b. R d \<Longrightarrow> mb_legacy b ! i = d \<Longrightarrow> R' (f b) d" "\<And>d. R d \<Longrightarrow> E d"
  shows "triple (legacy_at i N L R) (looks env f) (\<lambda>x. legacy_at i N L (R' x)) (\<lambda>_. legacy_at i N L E)"
proof (rule tripleI)
  fix s e t assume "legacy_at i N L R s" "looks env f s = (Inl e, t)"
  then obtain d where "R d" "dirs N (L[i := d]) t"
    by (auto simp: looks_def managed_call_def Let_def legacy_at_def dirs_def split: if_splits)
  then show "legacy_at i N L E t" by (intro legacy_atI) (rule assms(3))
next
  fix s x t assume "legacy_at i N L R s" "looks env f s = (Inr x, t)"
  then obtain d where "R d" "dirs N (L[i := d]) t" "x = f t"
    by (auto simp: looks_def managed_call_def Let_def legacy_at_def dirs_def split: if_splits)
  moreover from this have "mb_legacy t ! i = d" using assms(1) by (simp add: dirs_def)
  ultimately show "legacy_at i N L (R' x) t" using assms(2) by (intro legacy_atI) simp_all
qed

lemma triple_write_temp:
  assumes "i < length L" "\<And>d bs. R d \<Longrightarrow> R (update_part attached (\<lambda>part. part\<lparr>lp_temp := Some bs\<rparr>) d)"
  shows "triple (legacy_at i N L R) (write_temp env i attached bs) (\<lambda>_. legacy_at i N L R) (\<lambda>_. legacy_at i N L R)"
proof -
  have "legacy_at i N L R t" if "legacy_at i N L R s" "write_temp env i attached bs s = (r, t)" for s r t
  proof -
    from that assms(1) obtain d kept where "R d" "dirs N (L[i := update_part attached (\<lambda>part. part\<lparr>lp_temp := Some kept\<rparr>) d]) t"
      by (auto simp: write_temp_def Let_def legacy_at_def dirs_def update_legacy_def)
    then show ?thesis by (intro legacy_atI) (rule assms(2))
  qed
  then show ?thesis by (intro tripleI)
qed

lemma triple_empty_legacy_index:
  assumes "i < length L"
  shows "triple (legacy_at i N L (\<lambda>d. shelf d = k)) (empty_legacy_index env i attached index)
     (\<lambda>_. legacy_at i N L (\<lambda>d. shelf d = k)) (\<lambda>_. legacy_at i N L (\<lambda>d. shelf d = k))"
proof -
  let ?S = "legacy_at i N L (\<lambda>d. shelf d = k)"
  have look: "triple ?S (looks env f) (\<lambda>_. ?S) (\<lambda>_. ?S)" for f :: "managed_base \<Rightarrow> 'b"
    by (rule triple_legacy_looks [OF assms])
  have call: "triple ?S (legacy_call env i (update_part attached f)) (\<lambda>_. ?S) (\<lambda>_. ?S)"
    if "\<And>part. lp_shards (f part) = lp_shards part \<and> lp_quarantine (f part) = lp_quarantine part" for f
    by (rule triple_legacy_call [OF assms]) (simp_all add: shelf_update_index [OF that])
  have wrote: "triple ?S (write_temp env i attached bs) (\<lambda>_. ?S) (\<lambda>_. ?S)" for bs
    by (rule triple_write_temp [OF assms]) (simp add: shelf_update_index)
  show ?thesis
    unfolding empty_legacy_index_def
    by (rule triple_bind [OF look], rule triple_bind [where R = "\<lambda>_. ?S"], rule triple_if, rule call, simp, rule triple_return, simp,
        intro triple_bind [OF call] triple_bind [OF wrote] triple_bind [OF look] look) simp_all
qed

definition kept_dir :: "legacy_dir \<Rightarrow> legacy_dir \<Rightarrow> bool" where
  "kept_dir d d' \<longleftrightarrow> ld_name d' = ld_name d \<and> ld_lock d' = ld_lock d"

text \<open>The payloads of \<open>V\<close> are gone and none is new.\<close>

definition emptied_of :: "legacy_dir \<Rightarrow> place set \<Rightarrow> legacy_dir \<Rightarrow> bool" where
  "emptied_of d V d' \<longleftrightarrow> kept_dir d d' \<and> set (legacy_places d') \<subseteq> set (legacy_places d) \<and>
     (\<forall>p. p \<in> V \<or> at_place d p = None \<longrightarrow> at_place d' p = None)"

lemma emptied_of_remove: "emptied_of d V d' \<Longrightarrow> emptied_of d (insert p V) (remove_place p d')"
  using places_remove [of p d'] by (auto simp: emptied_of_def kept_dir_def remove_keeps at_place_remove)

lemma emptied_of_kept: "emptied_of d V d' \<Longrightarrow> kept_dir d d'"
  by (simp add: emptied_of_def)

lemma emptied_of_shelf: "shelf d' = shelf d \<Longrightarrow> emptied_of d {} d'"
  using shelf_eqD [of d' d] by (auto simp: emptied_of_def kept_dir_def shelf_def)

lemma set_collected: "set (map fst (collected d ps)) = {p \<in> set ps. at_place d p \<noteq> None}"
  by (induction ps) (auto simp: entry_at_def split: option.splits)

lemma emptied_all: "emptied_of d (set (map fst (collected d (legacy_places d)))) d' \<Longrightarrow> legacy_bytes d' = 0"
proof -
  assume e: "emptied_of d (set (map fst (collected d (legacy_places d)))) d'"
  have "at_place d' p = None" if "p \<in> set (legacy_places d')" for p
    using e that unfolding emptied_of_def set_collected by blast
  then have "collected d' (legacy_places d') = []" by (simp add: collected_def entry_at_def)
  then show ?thesis by (simp add: legacy_bytes_def)
qed

lemma triple_remove_legacy_payload:
  assumes "i < length L"
  shows "triple (legacy_at i N L (emptied_of d V)) (remove_legacy_payload env i p)
     (\<lambda>_. legacy_at i N L (emptied_of d (insert p V))) (\<lambda>_. legacy_at i N L (kept_dir d))"
  unfolding remove_legacy_payload_def
proof (rule triple_bind [OF triple_legacy_looks [OF assms, where R' = "\<lambda>x d'. emptied_of d V d' \<and> x = at_place d' p"]])
  fix opened
  let ?P = "legacy_at i N L (\<lambda>d'. emptied_of d V d' \<and> opened = at_place d' p)"
  show "triple ?P (case opened of None \<Rightarrow> m_return () | Some _ \<Rightarrow> m_bind (legacy_call env i (remove_place p)) (\<lambda>_. looks env (\<lambda>_. ())))
      (\<lambda>_. legacy_at i N L (emptied_of d (insert p V))) (\<lambda>_. legacy_at i N L (kept_dir d))"
  proof (rule triple_option)
    assume "opened = None"
    then show "triple ?P (m_return ()) (\<lambda>_. legacy_at i N L (emptied_of d (insert p V))) (\<lambda>_. legacy_at i N L (kept_dir d))"
      by (intro triple_return) (auto simp: emptied_of_def elim!: legacy_at_mono)
  next
    fix bs
    have "triple ?P (legacy_call env i (remove_place p)) (\<lambda>_. legacy_at i N L (emptied_of d (insert p V))) (\<lambda>_. legacy_at i N L (kept_dir d))"
      by (rule triple_legacy_call [OF assms]) (auto intro: emptied_of_remove emptied_of_kept)
    then show "triple ?P (m_bind (legacy_call env i (remove_place p)) (\<lambda>_. looks env (\<lambda>_. ())))
        (\<lambda>_. legacy_at i N L (emptied_of d (insert p V))) (\<lambda>_. legacy_at i N L (kept_dir d))"
      by (rule triple_bind) (rule triple_legacy_looks [OF assms], auto intro: emptied_of_kept)
  qed
qed (auto intro: emptied_of_kept)

lemma triple_clear_legacy:
  assumes "i < length L"
  shows "triple (dirs N L) (clear_legacy env i target companion places)
     (\<lambda>_. legacy_at i N L (emptied_of (L ! i) (set places))) (\<lambda>_. legacy_at i N L (kept_dir (L ! i)))"
proof -
  let ?d = "L ! i"
  let ?S = "legacy_at i N L (\<lambda>d. shelf d = shelf ?d)" and ?E = "\<lambda>_. legacy_at i N L (kept_dir ?d)"
  let ?V = "\<lambda>ps. legacy_at i N L (emptied_of ?d (set ps))"
  have empty: "triple ?S (empty_legacy_index env i attached index) (\<lambda>_. ?S) ?E" for attached index
    by (rule triple_mono [OF triple_empty_legacy_index [OF assms, of N "shelf ?d"]])
      (auto elim!: legacy_at_mono simp: shelf_def kept_dir_def)
  have start: "triple (dirs N L) (empty_legacy_index env i False target) (\<lambda>_. ?S) ?E"
    by (rule triple_pre [OF empty]) (rule legacy_atI, auto)
  have companion: "triple ?S (case companion of None \<Rightarrow> m_return () | Some index \<Rightarrow> empty_legacy_index env i True index) (\<lambda>_. ?V []) ?E"
    by (rule triple_option, rule triple_return, erule legacy_at_mono, simp add: emptied_of_shelf,
        rule triple_mono [OF empty]) (auto elim!: legacy_at_mono simp: emptied_of_shelf)
  have step: "triple (?V ps) (remove_legacy_payload env i p) (\<lambda>_. ?V (ps @ [p])) ?E" for ps p
    using triple_remove_legacy_payload [OF assms, of N ?d "set ps" env p] by simp
  show ?thesis
    unfolding clear_legacy_def
    by (rule triple_bind [OF start], rule triple_bind [OF companion],
        rule triple_for_visited [where P = "\<lambda>ps _. ?V ps"]) (rule step)
qed

section \<open>Clearing a root\<close>

definition in_range :: "nat \<Rightarrow> nat \<Rightarrow> 'n cache_root \<Rightarrow> bool" where
  "in_range n l r \<longleftrightarrow> mr_dir r < (if is_native r then n else l)"

text \<open>Only the directories of these roots may differ, and no directory but in its leaves.\<close>

definition only :: "'n cache_root list \<Rightarrow> native_dir list \<Rightarrow> legacy_dir list \<Rightarrow> managed_base \<Rightarrow> bool" where
  "only rs N L b \<longleftrightarrow> length (mb_native b) = length N \<and> length (mb_legacy b) = length L \<and>
     (\<forall>i<length N. mb_native b ! i = (N ! i)\<lparr>nd_leaves := nd_leaves (mb_native b ! i)\<rparr> \<and>
       ((\<exists>r\<in>set rs. is_native r \<and> mr_dir r = i) \<or> mb_native b ! i = N ! i)) \<and>
     (\<forall>i<length L. kept_dir (L ! i) (mb_legacy b ! i) \<and>
       ((\<exists>r\<in>set rs. \<not> is_native r \<and> mr_dir r = i) \<or> mb_legacy b ! i = L ! i))"

lemma nth_update_any: "xs[i := x] ! j = (if i = j \<and> i < length xs then x else xs ! j)"
  by (cases "i < length xs") (simp_all add: nth_list_update list_update_beyond)

lemma only_native: "dirs (native_put i l N) L b \<Longrightarrow> is_native r \<Longrightarrow> mr_dir r = i \<Longrightarrow> only [r] N L b"
  by (auto simp: only_def dirs_def native_put_def nth_update_any kept_dir_def split: if_splits)

lemma only_legacy: "legacy_at i N L (kept_dir (L ! i)) b \<Longrightarrow> \<not> is_native r \<Longrightarrow> mr_dir r = i \<Longrightarrow> only [r] N L b"
  by (auto simp: only_def dirs_def legacy_at_def nth_update_any kept_dir_def split: if_splits)

lemma only_refl: "dirs N L b \<Longrightarrow> only rs N L b"
  by (auto simp: only_def dirs_def kept_dir_def)

lemma only_trans:
  assumes "only rs N L b" "only rs' (mb_native b) (mb_legacy b) c"
  shows "only (rs @ rs') N L c"
proof -
  have n: "mb_native c ! i = (N ! i)\<lparr>nd_leaves := nd_leaves (mb_native c ! i)\<rparr>" if "i < length N" for i
    using assms that unfolding only_def by (metis native_dir.simps(5) native_dir.update_convs(5) native_dir.surjective)
  show ?thesis
    using assms n unfolding only_def kept_dir_def by (simp add: Bex_def) metis
qed

text \<open>The bytes of every recognised root but the current one.\<close>

definition native_count :: "nat \<Rightarrow> native_dir \<Rightarrow> nat" where
  "native_count current d = (if hex (nd_name d) 64 \<and> nd_inode d \<noteq> current then native_bytes (nd_leaves d) else 0)"

definition legacy_count :: "legacy_dir \<Rightarrow> nat" where
  "legacy_count d = (if hex (ld_name d) 12 then legacy_bytes d else 0)"

definition other_bytes :: "nat \<Rightarrow> native_dir list \<Rightarrow> legacy_dir list \<Rightarrow> nat" where
  "other_bytes current N L = (\<Sum>d\<leftarrow>N. native_count current d) + (\<Sum>d\<leftarrow>L. legacy_count d)"

text \<open>A root as the discovery finds it.\<close>

definition found :: "'n managed_env \<Rightarrow> nat \<Rightarrow> native_dir list \<Rightarrow> legacy_dir list \<Rightarrow> 'n cache_root \<Rightarrow> bool" where
  "found env current N L r \<longleftrightarrow>
     (if is_native r
      then mr_dir r < length N \<and> hex (nd_name (N ! mr_dir r)) 64 \<and> nd_inode (N ! mr_dir r) \<noteq> current \<and> native_found env N r
      else mr_dir r < length L \<and> hex (ld_name (L ! mr_dir r)) 12 \<and> legacy_found env L r)"

definition root_key :: "'n cache_root \<Rightarrow> bool \<times> nat" where
  "root_key r = (is_native r, mr_dir r)"

definition cleared :: "'n managed_env \<Rightarrow> nat \<Rightarrow> 'n cache_root \<Rightarrow> native_dir list \<Rightarrow> legacy_dir list \<Rightarrow> managed_base \<Rightarrow> bool" where
  "cleared env current r N L b \<longleftrightarrow> only [r] N L b \<and>
     (if found env current N L r then other_bytes current (mb_native b) (mb_legacy b) = other_bytes current N L - mr_bytes r else True)"

lemma sum_update:
  assumes "i < length xs" "g x = (0 :: nat)"
  shows "(\<Sum>d\<leftarrow>xs[i := x]. g d) = (\<Sum>d\<leftarrow>xs. g d) - g (xs ! i)" "g (xs ! i) \<le> (\<Sum>d\<leftarrow>xs. g d)"
proof -
  show le: "g (xs ! i) \<le> (\<Sum>d\<leftarrow>xs. g d)" using assms(1) by (intro member_le_sum_list) auto
  have "(\<Sum>d\<leftarrow>xs[i := x]. g d) = (\<Sum>d\<leftarrow>(map g xs)[i := g x]. d)" by (simp add: map_update)
  also have "\<dots> = (\<Sum>d\<leftarrow>xs. g d) + g x - g (xs ! i)" using assms(1) by (simp add: sum_list_update)
  finally show "(\<Sum>d\<leftarrow>xs[i := x]. g d) = (\<Sum>d\<leftarrow>xs. g d) - g (xs ! i)" using assms(2) by simp
qed

lemma other_bytes_native:
  assumes "i < length N" "hex (nd_name (N ! i)) 64" "nd_inode (N ! i) \<noteq> current" "native_bytes l = 0"
  shows "other_bytes current (native_put i l N) L = other_bytes current N L - native_bytes (nd_leaves (N ! i))"
proof -
  have "native_count current ((N ! i)\<lparr>nd_leaves := l\<rparr>) = 0" using assms(4) by (simp add: native_count_def)
  note sums = sum_update [where g = "native_count current", OF assms(1) this]
  have "native_count current (N ! i) = native_bytes (nd_leaves (N ! i))" using assms(2,3) by (simp add: native_count_def)
  with sums show ?thesis by (simp add: other_bytes_def native_put_def)
qed

lemma other_bytes_legacy:
  assumes "i < length L" "hex (ld_name (L ! i)) 12" "legacy_bytes d = 0"
  shows "other_bytes current N (L[i := d]) = other_bytes current N L - legacy_bytes (L ! i)"
proof -
  have "legacy_count d = 0" using assms(3) by (simp add: legacy_count_def)
  note sums = sum_update [where g = legacy_count, OF assms(1) this]
  have "legacy_count (L ! i) = legacy_bytes (L ! i)" using assms(2) by (simp add: legacy_count_def)
  with sums show ?thesis by (simp add: other_bytes_def)
qed

lemma triple_clear_root:
  assumes "in_range (length N) (length L) r"
  shows "triple (dirs N L) (clear_root env r) (\<lambda>_. cleared env current r N L) (\<lambda>_. only [r] N L)"
proof (cases "mr_contents r")
  case (Native_Root ix)
  then have nat: "is_native r" by simp
  show ?thesis
  proof (cases ix)
    case (Some ix')
    have "triple (dirs N L) (clear_native env (mr_dir r) ix') (\<lambda>_. cleared env current r N L) (\<lambda>_. only [r] N L)"
    proof (rule triple_mono [OF triple_clear_native])
      fix b assume "\<exists>l. native_bytes l = 0 \<and> dirs (native_put (mr_dir r) l N) L b"
      then obtain l where l: "native_bytes l = 0" "dirs (native_put (mr_dir r) l N) L b" by blast
      from l(2) have b: "mb_native b = native_put (mr_dir r) l N" "mb_legacy b = L" by (simp_all add: dirs_def)
      show "cleared env current r N L b"
        using only_native [OF l(2) nat refl] other_bytes_native [OF _ _ _ l(1), of "mr_dir r" N current L] nat
        by (auto simp: cleared_def found_def native_found_def Let_def b)
    qed (use only_native [OF _ nat refl] in auto)
    then show ?thesis by (simp add: clear_root_def Native_Root Some)
  qed (use only_refl in \<open>auto simp: clear_root_def Native_Root intro!: triple_lift\<close>)
next
  case (Legacy_Root target companion whole places)
  then have leg: "\<not> is_native r" by simp
  have i: "mr_dir r < length L" using assms leg by (simp add: in_range_def)
  have "triple (dirs N L) (clear_legacy env (mr_dir r) t companion places) (\<lambda>_. cleared env current r N L) (\<lambda>_. only [r] N L)" for t
  proof (rule triple_mono [OF triple_clear_legacy [OF i]])
    fix b assume at: "legacy_at (mr_dir r) N L (emptied_of (L ! mr_dir r) (set places)) b"
    then obtain d where d: "emptied_of (L ! mr_dir r) (set places) d" "dirs N (L[mr_dir r := d]) b" by (auto simp: legacy_at_def)
    from d(2) have b: "mb_native b = N" "mb_legacy b = L[mr_dir r := d]" by (simp_all add: dirs_def)
    have only: "only [r] N L b"
      by (rule only_legacy [OF legacy_at_mono [OF at] leg refl]) (rule emptied_of_kept)
    have "other_bytes current N (L[mr_dir r := d]) = other_bytes current N L - mr_bytes r" if f: "found env current N L r"
    proof -
      from f leg have lf: "hex (ld_name (L ! mr_dir r)) 12" "legacy_found env L r" by (simp_all add: found_def)
      then have "legacy_bytes d = 0" using d(1) Legacy_Root by (intro emptied_all) (auto simp: legacy_found_def Let_def)
      from other_bytes_legacy [OF i lf(1) this] lf(2) show ?thesis by (simp add: legacy_found_def Let_def)
    qed
    with only show "cleared env current r N L b" by (simp add: cleared_def b)
  qed (use only_legacy [OF _ leg refl] in auto)
  then show ?thesis
    using only_refl by (cases target; cases whole) (auto simp: clear_root_def Legacy_Root intro!: triple_lift)
qed

section \<open>The reservation\<close>

text \<open>A method looked at from the directories it is started in.\<close>

lemma triple_dirsI:
  assumes "\<And>b. P b \<Longrightarrow> triple (dirs (mb_native b) (mb_legacy b)) m Q E"
  shows "triple P m Q E"
proof -
  have "case m b of (Inl e, t) \<Rightarrow> E e t | (Inr x, t) \<Rightarrow> Q x t" if "P b" for b
    using triple_at [OF assms [OF that], of b] by (simp add: dirs_def)
  then show ?thesis by (simp add: triple_def)
qed

definition freed :: "'n cache_root list \<Rightarrow> nat" where
  "freed rs = (\<Sum>r\<leftarrow>rs. mr_bytes r)"

text \<open>The first \<open>k\<close> roots are cleared: as many as are needed and no more.\<close>

definition reclaimed :: "nat \<Rightarrow> 'n cache_root list \<Rightarrow> nat \<Rightarrow> nat \<Rightarrow> nat \<Rightarrow> bool" where
  "reclaimed room rs others k left \<longleftrightarrow> k \<le> length rs \<and> left = others - freed (take k rs) \<and> (left \<le> room \<or> k = length rs) \<and>
     (\<forall>j<k. room < others - freed (take j rs))"

lemma reclaimed_step:
  assumes "reclaimed room rs (others - mr_bytes r) k left" "room < others"
  shows "reclaimed room (r # rs) others (Suc k) left"
proof -
  have "room < others - freed (take j (r # rs))" if "j < Suc k" for j
    using that assms by (cases j) (auto simp: reclaimed_def freed_def)
  then show ?thesis using assms(1) by (auto simp: reclaimed_def freed_def)
qed

lemma in_range_only: "only rs N L b \<Longrightarrow> in_range (length (mb_native b)) (length (mb_legacy b)) r = in_range (length N) (length L) r"
  by (simp add: in_range_def only_def)

lemma triple_reclaim_loop:
  "list_all (in_range (length N) (length L)) rs \<Longrightarrow>
     triple (dirs N L) (reclaim_loop env room rs others)
       (\<lambda>left b. \<exists>k. reclaimed room rs others k left \<and> only (take k rs) N L b) (\<lambda>_. only rs N L)"
proof (induction rs arbitrary: N L others)
  case Nil
  then show ?case by (simp add: triple_def reclaimed_def freed_def only_refl)
next
  case (Cons r rs)
  let ?Q = "\<lambda>left b. \<exists>k. reclaimed room (r # rs) others k left \<and> only (take k (r # rs)) N L b" and ?E = "\<lambda>_. only (r # rs) N L"
  have stop: "?Q others b" if "dirs N L b" "others \<le> room" for b
    using that only_refl [OF that(1), of "[]"] by (intro exI [of _ 0]) (simp add: reclaimed_def freed_def)
  have rest: "triple (cleared env current r N L) (reclaim_loop env room rs (others - mr_bytes r)) ?Q ?E" if "room < others" for current
  proof (rule triple_dirsI)
    fix b assume "cleared env current r N L b"
    then have b: "only [r] N L b" by (simp add: cleared_def)
    have "list_all (in_range (length (mb_native b)) (length (mb_legacy b))) rs"
      using Cons.prems by (simp add: list_all_iff in_range_only [OF b])
    from Cons.IH [OF this]
    show "triple (dirs (mb_native b) (mb_legacy b)) (reclaim_loop env room rs (others - mr_bytes r)) ?Q ?E"
    proof (rule triple_mono)
      fix left c
      assume "\<exists>k. reclaimed room rs (others - mr_bytes r) k left \<and> only (take k rs) (mb_native b) (mb_legacy b) c"
      then obtain k where k: "reclaimed room rs (others - mr_bytes r) k left" "only (take k rs) (mb_native b) (mb_legacy b) c" by blast
      show "?Q left c"
        using reclaimed_step [OF k(1) that] only_trans [OF b k(2)] by (intro exI [of _ "Suc k"]) simp
    next
      fix e c assume "only rs (mb_native b) (mb_legacy b) c"
      from only_trans [OF b this] show "?E e c" by simp
    qed simp
  qed
  have clear: "triple (dirs N L) (clear_root env r) (\<lambda>_. cleared env 0 r N L) ?E"
    by (rule triple_mono [OF triple_clear_root]) (use Cons.prems in \<open>auto simp: only_def\<close>)
  show ?case
    by (simp, intro conjI impI triple_return triple_bind [OF clear]) (use stop rest in auto)
qed

text \<open>Clearing one root leaves the others as they were found.\<close>

lemma found_only:
  assumes "found env current N L r'" "only [r] N L b" "root_key r' \<noteq> root_key r"
  shows "found env current (mb_native b) (mb_legacy b) r'"
proof (cases "is_native r'")
  case True
  with assms(1) have i: "mr_dir r' < length N" by (simp add: found_def)
  with assms(2,3) True have "mb_native b ! mr_dir r' = N ! mr_dir r'" by (auto simp: only_def root_key_def)
  with assms(1,2) True show ?thesis by (simp add: found_def native_found_def Let_def only_def)
next
  case False
  with assms(1) have i: "mr_dir r' < length L" by (simp add: found_def)
  with assms(2,3) False have "mb_legacy b ! mr_dir r' = L ! mr_dir r'" by (auto simp: only_def root_key_def)
  with assms(1,2) False show ?thesis by (simp add: found_def legacy_found_def Let_def only_def)
qed

lemma found_in_range: "found env current N L r \<Longrightarrow> in_range (length N) (length L) r"
  by (simp add: found_def in_range_def split: if_splits)

lemma triple_reclaim_counts:
  "list_all (found env current N L) rs \<Longrightarrow> distinct (map root_key rs) \<Longrightarrow> others = other_bytes current N L \<Longrightarrow>
     triple (dirs N L) (reclaim_loop env room rs others) (\<lambda>left b. left = other_bytes current (mb_native b) (mb_legacy b)) (\<lambda>_ _. True)"
proof (induction rs arbitrary: N L others)
  case Nil
  then show ?case by (simp add: triple_def dirs_def)
next
  case (Cons r rs)
  have rest: "triple (cleared env current r N L) (reclaim_loop env room rs (others - mr_bytes r))
      (\<lambda>left b. left = other_bytes current (mb_native b) (mb_legacy b)) (\<lambda>_ _. True)"
  proof (rule triple_dirsI)
    fix b assume b: "cleared env current r N L b"
    then have o: "only [r] N L b" by (simp add: cleared_def)
    show "triple (dirs (mb_native b) (mb_legacy b)) (reclaim_loop env room rs (others - mr_bytes r))
        (\<lambda>left b. left = other_bytes current (mb_native b) (mb_legacy b)) (\<lambda>_ _. True)"
    proof (rule Cons.IH)
      show "list_all (found env current (mb_native b) (mb_legacy b)) rs"
        unfolding list_all_iff
      proof
        fix r' assume r': "r' \<in> set rs"
        have "root_key r' \<noteq> root_key r" using Cons.prems(2) imageI [OF r', of root_key] by auto
        moreover have "found env current N L r'" using Cons.prems(1) r' by (simp add: list_all_iff)
        ultimately show "found env current (mb_native b) (mb_legacy b) r'" by (intro found_only [OF _ o])
      qed
      show "others - mr_bytes r = other_bytes current (mb_native b) (mb_legacy b)"
        using b Cons.prems(1,3) by (simp add: cleared_def)
    qed (use Cons.prems in simp)
  qed
  have clear: "triple (dirs N L) (clear_root env r) (\<lambda>_. cleared env current r N L) (\<lambda>_ _. True)"
    by (rule triple_mono [OF triple_clear_root]) (use Cons.prems found_in_range in auto)
  show ?case
    by (simp, intro conjI impI triple_return triple_bind [OF clear] rest) (use Cons.prems in \<open>simp add: dirs_def\<close>)
qed

section \<open>What a survey finds\<close>

definition surveyed :: "'n managed_env \<Rightarrow> nat \<Rightarrow> native_dir list \<Rightarrow> legacy_dir list \<Rightarrow> 'n cache_root list \<Rightarrow> bool" where
  "surveyed env current N L roots \<longleftrightarrow>
     map root_key roots = map (Pair True) (others_native current N) @ map (Pair False) (others_legacy L) \<and>
     list_all (found env current N L) roots"

lemma others_native_iff: "i \<in> set (others_native current N) \<longleftrightarrow> i < length N \<and> hex (nd_name (N ! i)) 64 \<and> nd_inode (N ! i) \<noteq> current"
  by (auto simp: others_native_def)

lemma others_legacy_iff: "i \<in> set (others_legacy L) \<longleftrightarrow> i < length L \<and> hex (ld_name (L ! i)) 12"
  by (auto simp: others_legacy_def)

lemma sum_sorted_filter:
  "(\<Sum>i\<leftarrow>filter P (sort_key k (filter Q [0..<length xs])). g i) = (\<Sum>i\<leftarrow>[0..<length xs]. if P i \<and> Q i then g i else (0 :: nat))"
proof -
  have "(\<Sum>i\<leftarrow>filter P (sort_key k (filter Q [0..<length xs])). g i) = (\<Sum>i\<leftarrow>filter P (filter Q [0..<length xs]). g i)"
    unfolding sum_mset_sum_list [symmetric] mset_map mset_filter mset_sort by simp
  also have "\<dots> = (\<Sum>i\<leftarrow>filter (\<lambda>i. P i \<and> Q i) [0..<length xs]. g i)" by (simp add: conj_commute)
  also have "\<dots> = (\<Sum>i\<leftarrow>[0..<length xs]. if P i \<and> Q i then g i else 0)" by (rule sum_list_map_filter')
  finally show ?thesis .
qed

lemma sum_by_index: "(\<Sum>x\<leftarrow>xs. g x) = (\<Sum>i\<leftarrow>[0..<length xs]. g (xs ! i) :: nat)"
  by (metis (no_types, lifting) map_nth map_map map_eq_conv comp_apply)

lemma native_sum: "(\<Sum>i\<leftarrow>others_native current N. native_bytes (nd_leaves (N ! i))) = (\<Sum>d\<leftarrow>N. native_count current d)"
  unfolding others_native_def sum_sorted_filter sum_by_index [of _ N] native_count_def by (simp add: conj_commute)

lemma legacy_sum: "(\<Sum>i\<leftarrow>others_legacy L. legacy_bytes (L ! i)) = (\<Sum>d\<leftarrow>L. legacy_count d)"
  using sum_sorted_filter [where P = "\<lambda>_. True" and Q = "\<lambda>i. hex (ld_name (L ! i)) 12" and xs = L]
  by (simp add: others_legacy_def sum_by_index [of _ L] legacy_count_def)

lemma surveyedI:
  assumes "map mr_dir natives = others_native current N" "list_all (native_found env N) natives"
    and "map mr_dir later = others_legacy L" "list_all (legacy_found env L) later"
  shows "surveyed env current N L (natives @ later)" "(\<Sum>r\<leftarrow>natives @ later. mr_bytes r) = other_bytes current N L"
proof -
  have dirs: "mr_dir ` set natives = set (others_native current N)" "mr_dir ` set later = set (others_legacy L)"
    using arg_cong [OF assms(1), of set] arg_cong [OF assms(3), of set] by simp_all
  have n: "is_native r" "mr_dir r \<in> set (others_native current N)" if "r \<in> set natives" for r
    using that assms(2) imageI [OF that, of mr_dir] unfolding dirs(1) by (auto simp: list_all_iff native_found_def Let_def)
  have l: "\<not> is_native r" "mr_dir r \<in> set (others_legacy L)" if "r \<in> set later" for r
    using that assms(4) imageI [OF that, of mr_dir] unfolding dirs(2) by (auto simp: list_all_iff legacy_found_def Let_def)
  have "map root_key natives = map (Pair True) (map mr_dir natives)" "map root_key later = map (Pair False) (map mr_dir later)"
    using n(1) l(1) by (simp_all add: root_key_def)
  moreover have "list_all (found env current N L) (natives @ later)"
    using n l assms(2,4) by (auto simp: list_all_iff found_def others_native_iff others_legacy_iff)
  ultimately show "surveyed env current N L (natives @ later)" using assms(1,3) by (simp add: surveyed_def)
  have "map mr_bytes natives = map (\<lambda>i. native_bytes (nd_leaves (N ! i))) (map mr_dir natives)"
    using assms(2) by (simp add: list_all_iff native_found_def Let_def)
  moreover have "map mr_bytes later = map (\<lambda>i. legacy_bytes (L ! i)) (map mr_dir later)"
    using assms(4) by (simp add: list_all_iff legacy_found_def Let_def)
  ultimately show "(\<Sum>r\<leftarrow>natives @ later. mr_bytes r) = other_bytes current N L"
    using native_sum [of N current] legacy_sum [of L] assms(1,3) by (simp add: other_bytes_def)
qed

lemma surveyed_distinct: "surveyed env current N L roots \<Longrightarrow> distinct (map root_key roots)"
  by (auto simp: surveyed_def distinct_map others_native_def others_legacy_def inj_on_def)

definition oldest_first :: "'n cache_root list \<Rightarrow> 'n cache_root list" where
  "oldest_first roots = filter reclaimable (sort_key mr_age roots)"

lemma surveyed_oldest:
  assumes "surveyed env current N L roots"
  shows "list_all (found env current N L) (oldest_first roots)" "distinct (map root_key (oldest_first roots))"
    "list_all reclaimable (oldest_first roots)"
proof -
  have sub: "set (oldest_first roots) \<subseteq> set roots" by (auto simp: oldest_first_def)
  show "list_all (found env current N L) (oldest_first roots)"
    using assms sub unfolding surveyed_def list_all_iff by blast
  have "distinct roots" "inj_on root_key (set roots)" using surveyed_distinct [OF assms] by (simp_all add: distinct_map)
  then show "distinct (map root_key (oldest_first roots))"
    unfolding distinct_map using inj_on_subset [OF _ sub] by (auto simp: oldest_first_def)
  show "list_all reclaimable (oldest_first roots)" by (simp add: oldest_first_def list_all_iff)
qed

section \<open>The whole reservation\<close>

lemma triple_conj: "triple P m Q E \<Longrightarrow> triple P m Q' E' \<Longrightarrow> triple P m (\<lambda>x s. Q x s \<and> Q' x s) (\<lambda>e s. E e s \<and> E' e s)"
  unfolding triple_def by (auto split: prod.splits sum.splits)

lemma triple_observes:
  assumes "observes N L m S" "\<And>x. S x \<Longrightarrow> triple (dirs N L) (f x) Q E" "\<And>e b. dirs N L b \<Longrightarrow> E e b"
  shows "triple (dirs N L) (m_bind m f) Q E"
proof (rule triple_bind [where R = "\<lambda>x b. S x \<and> dirs N L b"])
  show "triple (dirs N L) m (\<lambda>x b. S x \<and> dirs N L b) E"
    by (rule triple_mono [OF assms(1) [unfolded observes_def]]) (use assms(3) in auto)
  show "triple (\<lambda>b. S x \<and> dirs N L b) (f x) Q E" for x
    by (rule triple_assume) (rule assms(2))
qed

definition reservation_done ::
    "'n managed_env \<Rightarrow> nat \<Rightarrow> nat \<Rightarrow> nat \<Rightarrow> native_dir list \<Rightarrow> legacy_dir list \<Rightarrow> 'n cache_root list \<Rightarrow> nat \<Rightarrow> nat \<Rightarrow> managed_base \<Rightarrow> bool" where
  "reservation_done env current room limit N L roots k allowance b \<longleftrightarrow> surveyed env current N L roots \<and>
     reclaimed room (oldest_first roots) (other_bytes current N L) k (other_bytes current (mb_native b) (mb_legacy b)) \<and>
     only (take k (oldest_first roots)) N L b \<and> allowance = limit - other_bytes current (mb_native b) (mb_legacy b)"

definition reservation_failed :: "'n managed_env \<Rightarrow> nat \<Rightarrow> native_dir list \<Rightarrow> legacy_dir list \<Rightarrow> 'n cache_root list \<Rightarrow> managed_base \<Rightarrow> bool" where
  "reservation_failed env current N L rs b \<longleftrightarrow> list_all (found env current N L) rs \<and> list_all reclaimable rs \<and> only rs N L b"

lemma early_failure: "dirs N L b \<Longrightarrow> reservation_failed env current N L [] b"
  by (simp add: reservation_failed_def only_refl)

lemma triple_reserve_over:
  assumes "surveyed env current N L roots" "(\<Sum>r\<leftarrow>roots. mr_bytes r) = other_bytes current N L"
  shows "triple (dirs N L) (reserve_over (env :: 'n managed_env) retained incoming limit roots)
     (\<lambda>a b. \<exists>k. reservation_done env current (reserve_room retained incoming limit) limit N L roots k a b)
     (\<lambda>_ b. \<exists>rs :: 'n cache_root list. reservation_failed env current N L rs b)"
  unfolding reserve_over_def
proof (rule triple_lift_bind, rule triple_bind)
  let ?old = "filter reclaimable (sort_key mr_age roots)"
  note o = surveyed_oldest [OF assms(1), unfolded oldest_first_def]
  fix others assume "try_fold add_payload 0 (map mr_bytes roots) = Inr others"
  from add_payloads [OF this] assms(2) have others: "others = other_bytes current N L" by simp
  have range: "list_all (in_range (length N) (length L)) ?old"
    using o(1) unfolding list_all_iff by (blast intro: found_in_range)
  note both = triple_conj [OF triple_reclaim_loop [OF range] triple_reclaim_counts [OF o(1,2) others]]
  show "triple (dirs N L) (reclaim_loop env (reserve_room retained incoming limit) ?old others)
      (\<lambda>left b. \<exists>k. reservation_done env current (reserve_room retained incoming limit) limit N L roots k (limit - left) b)
      (\<lambda>_ b. \<exists>rs :: 'n cache_root list. reservation_failed env current N L rs b)"
  proof (rule triple_mono [OF both])
    fix left b
    assume "(\<exists>k. reclaimed (reserve_room retained incoming limit) ?old others k left \<and> only (take k ?old) N L b) \<and>
      left = other_bytes current (mb_native b) (mb_legacy b)"
    then show "\<exists>k. reservation_done env current (reserve_room retained incoming limit) limit N L roots k (limit - left) b"
      using assms(1) by (auto simp: reservation_done_def oldest_first_def others)
  next
    fix e :: ckpt_error and b assume "only ?old N L b \<and> True"
    then have "reservation_failed env current N L ?old b"
      using surveyed_oldest [OF assms(1)] by (simp add: reservation_failed_def oldest_first_def)
    then show "\<exists>rs :: 'n cache_root list. reservation_failed env current N L rs b" ..
  qed
  show "triple (\<lambda>b. \<exists>k. reservation_done env current (reserve_room retained incoming limit) limit N L roots k (limit - left) b)
      (m_return (limit - left)) (\<lambda>a b. \<exists>k. reservation_done env current (reserve_room retained incoming limit) limit N L roots k a b)
      (\<lambda>_ b. \<exists>rs :: 'n cache_root list. reservation_failed env current N L rs b)" for left
    by (rule triple_return)
qed (use early_failure in blast)

theorem triple_reserve:
  "triple (dirs N L) (reserve (env :: 'n managed_env) current retained incoming limit)
     (\<lambda>a b. \<exists>(roots :: 'n cache_root list) k. reservation_done env current (reserve_room retained incoming limit) limit N L roots k a b)
     (\<lambda>_ b. \<exists>rs :: 'n cache_root list. reservation_failed env current N L rs b)"
  (is "triple _ _ ?Q ?E")
proof -
  have early: "?E e b" if "dirs N L b" for e :: ckpt_error and b
    using early_failure [OF that] by blast
  have look: "observes N L (looks env (\<lambda>_. ())) (\<lambda>_. True)" by (rule observes_looks) simp
  show ?thesis
    unfolding reserve_def
  proof (rule triple_observes [OF look _ early], rule triple_observes [OF look _ early], rule triple_observes [OF look _ early],
      rule triple_observes [OF observes_native_roots _ early], rule triple_observes [OF observes_legacy_roots _ early])
    fix natives roots :: "'n cache_root list"
    assume n: "map mr_dir natives = others_native current N \<and> list_all (native_found env N) natives"
      and "\<exists>later. roots = natives @ later \<and> map mr_dir later = others_legacy L \<and> list_all (legacy_found env L) later"
    then obtain later where "roots = natives @ later" "map mr_dir later = others_legacy L" "list_all (legacy_found env L) later" by blast
    with surveyedI [of natives current N env later L] n
    have s: "surveyed env current N L roots" "(\<Sum>r\<leftarrow>roots. mr_bytes r) = other_bytes current N L" by auto
    show "triple (dirs N L) (reserve_over env retained incoming limit roots) ?Q ?E"
      by (rule triple_mono [OF triple_reserve_over [OF s]]) auto
  qed assumption+
qed

section \<open>Properties\<close>

text \<open>What may happen to a directory: only the leaves of an inactive, recognised root of another package, and of the earlier
  format only one that is not in use.\<close>

definition native_spared :: "nat \<Rightarrow> native_dir \<Rightarrow> native_dir \<Rightarrow> bool" where
  "native_spared current d d' \<longleftrightarrow> d' = d\<lparr>nd_leaves := nd_leaves d'\<rparr> \<and>
     (d' = d \<or> hex (nd_name d) 64 \<and> nd_inode d \<noteq> current \<and> nd_lock d = Free_Lock \<and> 0 < native_bytes (nd_leaves d))"

definition legacy_spared :: "legacy_dir \<Rightarrow> legacy_dir \<Rightarrow> bool" where
  "legacy_spared d d' \<longleftrightarrow> kept_dir d d' \<and> (d' = d \<or> hex (ld_name d) 12 \<and> ld_lock d = Free_Lock \<and> 0 < legacy_bytes d)"

lemma only_spared:
  assumes "only rs N L b" "list_all (found env current N L) rs" "list_all reclaimable rs"
  shows "list_all2 (native_spared current) N (mb_native b)" "list_all2 legacy_spared L (mb_legacy b)"
proof -
  have r: "found env current N L r" "mr_locked r" "0 < mr_bytes r" if "r \<in> set rs" for r
    using assms(2,3) that by (auto simp: list_all_iff reclaimable_def)
  have n: "hex (nd_name (N ! mr_dir r)) 64 \<and> nd_inode (N ! mr_dir r) \<noteq> current \<and> nd_lock (N ! mr_dir r) = Free_Lock \<and>
      0 < native_bytes (nd_leaves (N ! mr_dir r))" if "r \<in> set rs" "is_native r" for r
    using r [OF that(1)] that(2) by (simp add: found_def native_found_def Let_def)
  have l: "hex (ld_name (L ! mr_dir r)) 12 \<and> ld_lock (L ! mr_dir r) = Free_Lock \<and> 0 < legacy_bytes (L ! mr_dir r)"
    if "r \<in> set rs" "\<not> is_native r" for r
    using r [OF that(1)] that(2) by (simp add: found_def legacy_found_def Let_def)
  show "list_all2 (native_spared current) N (mb_native b)"
  proof (rule list_all2_all_nthI)
    fix i assume "i < length N"
    then show "native_spared current (N ! i) (mb_native b ! i)"
      using assms(1) n unfolding only_def native_spared_def by metis
  qed (use assms(1) in \<open>simp add: only_def\<close>)
  show "list_all2 legacy_spared L (mb_legacy b)"
  proof (rule list_all2_all_nthI)
    fix i assume "i < length L"
    then show "legacy_spared (L ! i) (mb_legacy b ! i)"
      using assms(1) l unfolding only_def legacy_spared_def by metis
  qed (use assms(1) in \<open>simp add: only_def\<close>)
qed

text \<open>C12: A reservation in the shared cache never touches a cache in use: whatever call fails, of every native root the leaves are as
  they were unless it is another package's root with a recognised name whose lock the reservation holds and which has payloads, and the
  same holds for the roots of the earlier format; no directory is added, lost, renamed or unlocked.\<close>

theorem reservation_spares_active_roots:
  "case reserve env current retained incoming limit b of
     (_, b') \<Rightarrow> list_all2 (native_spared current) (mb_native b) (mb_native b') \<and> list_all2 legacy_spared (mb_legacy b) (mb_legacy b')"
proof -
  obtain r b' where run: "reserve env current retained incoming limit b = (r, b')" by force
  have start: "dirs (mb_native b) (mb_legacy b) b" by (simp add: dirs_def)
  have "\<exists>rs :: 'a cache_root list. reservation_failed env current (mb_native b) (mb_legacy b) rs b'"
  proof (cases r)
    case (Inl e)
    from triple_Inl [OF triple_reserve start run [unfolded Inl]] show ?thesis .
  next
    case (Inr a)
    from triple_Inr [OF triple_reserve start run [unfolded Inr]] obtain roots :: "'a cache_root list" and k where
      d: "reservation_done env current (reserve_room retained incoming limit) limit (mb_native b) (mb_legacy b) roots k a b'" by blast
    then have "surveyed env current (mb_native b) (mb_legacy b) roots" by (simp add: reservation_done_def)
    from surveyed_oldest [OF this] d
    have "reservation_failed env current (mb_native b) (mb_legacy b) (take k (oldest_first roots)) b'"
      using set_take_subset [of k "oldest_first roots"]
      unfolding reservation_failed_def reservation_done_def list_all_iff by blast
    then show ?thesis ..
  qed
  with only_spared [of _ "mb_native b" "mb_legacy b" b' env current] show ?thesis
    by (auto simp: run reservation_failed_def)
qed





end
