(* ===== verification/Spec2Isabelle.thy ===== *)
theory Spec2Isabelle
  imports Memory_Properties Adaptive_Properties Expert_Properties Snapshot_Properties Cache_Properties Kvarn_Store Checkpoint_Properties Store_Witnesses Response_Samples
    Sampling_Samples Generation_Samples Prefill_Phase_Samples Checkpoint_Slot Managed_Cache
begin

text \<open>
  MoEspresso (\<open>src/\<close>, Rust) serves a large mixture-of-experts model on a machine whose memory is smaller than
  the model: a bounded pool of experts stays in unified memory, the others are read from disk on demand,
  and the state of conversations is kept in memory and in checkpoint files. This library models the part
  of the program that decides what is kept where: the memory planner, the adaptive pool size, the expert
  pools, the committed state of a conversation, its host copies, the cache of those copies and the
  checkpoint files, and how a request is answered: the token loop, the sampler and the shaping of the text.
  The numerical kernels are not modelled; where they meet the modelled code they are
  parameters.

  \<^bold>\<open>Conventions.\<close> A Rust \<open>Result\<close> is a sum type with the error on the left (\<open>Rust_Base\<close>); a method on
  \<open>&mut self\<close> is a function from the state to its outcome and the state left behind, on errors too
  (\<open>Rust_State\<close>); \<open>u64\<close> and \<open>usize\<close> are natural numbers with every checked operation written out against \<open>2 ^ 64\<close>;
  binary64 values are exact rationals rounded after each operation (\<open>Rust_Float\<close>); bytes are 8-bit words,
  little-endian fields and the chunked loops over them are in \<open>Rust_Bytes\<close>; ordered maps and iterator
  searches in \<open>Rust_Collections\<close>. Allocation, device memory, file transfers, SHA-256, the package reader and the
  clock are arguments. A theorem holds for every such argument unless it names what it relies on
  (for example \<open>metal_allocates\<close>: an allocation has the length asked for).

  \<^bold>\<open>Memory planner\<close> (\<open>src/memory.rs\<close>, \<open>src/prefill_capacity.rs\<close>, partition of \<open>src/kvarn.rs\<close>). \<open>Kvarn_Partition\<close>, \<open>Memory_Plan\<close>,
  \<open>Memory_Footprint\<close> and \<open>Memory_Control\<close> hold the data, the estimate over every pool size and width, the
  capacity plan and the control budget. \<open>Memory_Admission\<close>, \<open>Memory_Estimate\<close> and \<open>Memory_Envelope\<close> prove that
  arithmetic is exact, the plan is the largest that fits, the estimate covers every stage, and the
  budget funds every size of its extent; \<open>Memory_Properties\<close> states the results at the top level and
  \<open>Sample_Package\<close> evaluates a package of 48 layers.

  \<^bold>\<open>Adaptive memory\<close> (\<open>src/adaptive_memory.rs\<close>). \<open>Adaptive_Policy\<close> is the policy state machine, \<open>Adaptive_Controller\<close> the
  controller over it and the engine, whose contract is the locale \<open>capacity_engine\<close>, interpreted on the
  modelled engine. \<open>Adaptive_Invariants\<close> and \<open>Adaptive_Serving\<close> prove the invariant of a serving process,
  given as the inductive relation \<open>serving\<close>; \<open>Adaptive_Properties\<close> states the results; \<open>Sample_Serving\<close> is a run.

  \<^bold>\<open>Expert pools\<close> (\<open>src/experts.rs\<close>, \<open>src/experts/chunks.rs\<close>, \<open>src/iqk.rs\<close>, \<open>src/engine/expert_capacity.rs\<close>). \<open>Expert_Chunks\<close> is the
  slab layout and the chunk list, \<open>Expert_Pool\<close> one layer's pool with demand loading and eviction,
  \<open>Prefill_Scope\<close> the overlapped loads of prefill, \<open>Expert_Capacity\<close> growth and release over all layers.
  \<open>Expert_Storage\<close> and \<open>Expert_Residency\<close> prove the invariants; \<open>Expert_Properties\<close> states the results.

  \<^bold>\<open>Conversation state\<close> (\<open>Session\<close> of \<open>src/engine.rs\<close>, layer state of \<open>src/gdn.rs\<close>, \<open>src/qsa_index.rs\<close>,
  \<open>src/kvarn/device.rs\<close>, \<open>src/ple.rs\<close>). \<open>Session_State\<close> has the committed state and its checks; \<open>Session_Snapshot\<close> the capture
  under a byte budget and the restore of \<open>src/engine/snapshot.rs\<close>; \<open>Prefix_Cache\<close> the cache of
  \<open>src/engine/prefix_cache.rs\<close>, which relies on the locale \<open>session_copies\<close>, interpreted on the capture.
  \<open>Snapshot_Properties\<close> and \<open>Cache_Properties\<close> state the results: restoring a copy gives back the content, the
  charge of a capture is what the copy retains, the cache stays in its bounds and protects completed
  prompts. \<open>Kvarn_Store\<close> is the host key and value store of \<open>src/kvarn.rs\<close>; it is shown to refine the list of
  all rows appended.

  \<^bold>\<open>Checkpoint files\<close> (\<open>src/engine/snapshot/disk.rs\<close>, \<open>src/engine/snapshot/disk/stream.rs\<close>). \<open>Checkpoint_Wire\<close> has the layout, the
  staged writer and the reader. \<open>Checkpoint_Roundtrip\<close> shows what each loop transfers, \<open>Checkpoint_Session\<close> what a
  whole file holds, \<open>Checkpoint_Writing\<close> that a valid session is always written; \<open>Checkpoint_Properties\<close> states the round
  trip and what an accepted file must be.

  \<^bold>\<open>Checkpoint store\<close> (\<open>src/engine/snapshot/disk/store.rs\<close>). \<open>Checkpoint_Store\<close> has the index, the leaves of the directory and
  the publication of an index or a payload by rename and sync; \<open>Checkpoint_Retention\<close> the owner: opening with
  reconciliation, restore, save. Every system call may fail, as a parameter of the number of calls made so far
  says; a failed write leaves a part of its bytes. \<open>Rust_Triples\<close> gives the triples the proofs are written in,
  \<open>Checkpoint_Directory\<close> and \<open>Checkpoint_Index\<close> the invariant of a directory and of an index, \<open>Checkpoint_Opening\<close>,
  \<open>Checkpoint_Owner\<close> and \<open>Checkpoint_Saving\<close> that each operation keeps it, \<open>Checkpoint_Liveness\<close> and
  \<open>Checkpoint_Save_Total\<close> what succeeds on a device without failures. \<open>Store_Properties\<close> states the results
  for histories (\<open>store_run\<close>) of a store opened directly, with \<open>DiskCheckpointStore::open\<close>, failed openings included:
  the directory is intact after any history, a save is atomic, what was saved is restored while no failed restore has
  disabled restores, and a restart loses nothing; \<open>Store_Witnesses\<close> runs them on a small directory. A store opened
  through the shared cache (\<open>open_managed\<close>) is modelled with the same operations but is not in these histories: a save
  of it that finds no allowance trims its own index and declines, and if that trim fails after it published, the index
  in memory differs from the one on disk until the store is opened again. \<open>Checkpoint_Slot\<close> is the single explicit file of
  \<open>src/engine/snapshot/disk.rs\<close>, on the same directory model, with its atomic replacement and its round trip.

  \<^bold>\<open>Shared cache\<close> (\<open>src/engine/snapshot/disk/store/managed.rs\<close>). \<open>Managed_Cache\<close> is the reservation that a save in managed mode
  makes first: it surveys the roots of all packages and of the earlier format and clears inactive ones. The
  \<open>observes\<close> rules show that the survey changes nothing and that each root it counts has the recorded size, lock,
  contents and age (when its index was last modified); triples over the directories show what
  clearing a root leaves and that the loop clears the oldest roots, no more than needed, and none in use.

  \<^bold>\<open>Response stream\<close> (\<open>src/server/stream.rs\<close>). \<open>Stream_Text\<close> has the string operations, \<open>Tool_Blocks\<close> the parsing and repair of
  a tool call, \<open>Response_Stream\<close> the splitter, the tool stream and the shaper. \<open>Response_Chunks\<close> and \<open>Tool_Chunks\<close> show that
  pushing in pieces is pushing at once; the locale \<open>stream_relation\<close> lifts what holds for each step of a push to
  the whole push and is interpreted for the length of the buffer, the streamed deltas and the text kept.
  \<open>Response_Properties\<close> and \<open>Tool_Roundtrip\<close> state the results; \<open>Response_Samples\<close> evaluates small responses. The
  text waiting in the tool stream is bounded, the whitespace held back after it is not.

  \<^bold>\<open>Sampling\<close> (\<open>src/sampling.rs\<close>). \<open>Ieee_Float\<close> reads binary32 and binary64 values with their infinities and NaN;
  \<open>Sampling\<close> has the options, the presence penalty and the filters in both forms the code has, the buffers it
  returns and the reused row it edits in place; \<open>Sampler\<close> the two preparations, the draw and the greedy choice;
  \<open>Sampling_Options\<close> the reading of \<open>generation_config.json\<close>; \<open>Sampling_Device\<close> the kernel calls with their
  shared buffers. Rounding to half precision, \<open>exp\<close>, \<open>ln\<close>, the random words and the kernels are parameters; the results
  on stochastic draws rely on \<open>probability_kernels\<close>: \<open>exp\<close> of a number is a nonnegative number and a scan of such
  numbers has no NaN, which the processor's scan, modelled as \<open>cpu_bf16_scan\<close>, is proved to satisfy. \<open>Sampling_Filters\<close>
  shows that the bucket sort is the stable sort, \<open>Sampling_Equivalence\<close> that the reused row is the row of the
  reference filters; \<open>Sampling_Properties\<close> compares the two paths and states the results, \<open>Sampling_Samples\<close> a draw.

  \<^bold>\<open>Generation\<close> (\<open>src/generation.rs\<close>). \<open>Generation_Loop\<close> is the token loop over its callbacks, with
  fuel for the decode loop; each round delivers a token, so \<open>max_tokens\<close> rounds are enough, which
  \<open>decode_loop_ends\<close> proves. \<open>Generation_Protocol\<close> shows which sequence of calls the loop makes of its callbacks and which reason it gives for its end.
  \<open>Generation\<close> is the request: validation, the lookup in the memory and disk caches, the callbacks on the engine,
  the sampler and the decoder, publication of checkpoints, the cleanup of the session and the phases the owner is told of.
  The engine, the caches, the decoder and the sampler are arguments. \<open>Generation_Request\<close> proves
  one triple of the loop for any callbacks that keep the locale \<open>loop_callbacks\<close>; \<open>Generation_Properties\<close> shows it for
  every environment that records its phases (the locale \<open>recording\<close>), interpreted on the request alone and on the request
  as its owner sees it; \<open>Generation_Samples\<close> runs a request.

  \<^bold>\<open>Phased prefill\<close> (\<open>src/generation/request_resources.rs\<close>, the workspace of \<open>src/engine/prefill.rs\<close>, the owner callback of
  \<open>src/server.rs\<close>). \<open>Prefill_Phase\<close> is the owner that widens the prefill workspace for long prompts and pays for it with
  pool slots. \<open>Prefill_Phase_Properties\<close> extends the locale \<open>capacity_engine\<close> to the owner's engine and shows that the
  workspace in use is funded in every phase; \<open>Prefill_Phase_Samples\<close> runs a wide phase.

  \<^bold>\<open>Termination.\<close> Every recursion but the decode loop is structural or has a measure. The policy's and the
  controller's steps, the eviction loops and the transfer loops are total functions.

  \<^bold>\<open>Not modelled.\<close> GPU kernels and their scratch buffers (routing, attention, recurrent and dense layers,
  quantisation), command batches and events of the Metal runtime beyond the reservation flag of a buffer,
  parsing of packages, configuration and tokenizer files, the HTTP server, the greedy kernel on the device,
  command line, benchmarks and log lines. Values they supply are inputs; the manifest lists them.
\<close>

end
